(* ===== verification/Arc_Prelude.thy ===== *)
theory Arc_Prelude
  imports Main "HOL-Library.Word" "HOL-Library.AList" "HOL-Library.Sublist"
begin

text \<open>
  The vocabulary the component theories share.

  \<^item> \<open>Result\<close> values of the Rust code are sums, \<open>Inl\<close> the error; \<^verbatim>\<open>?\<close> is \<open>rbind\<close>.
  \<^item> A Rust \<^verbatim>\<open>&str\<close> or \<^verbatim>\<open>String\<close> is the list of its UTF-8 bytes, a HOL \<open>string\<close>; so
    \<open>length\<close> is \<^verbatim>\<open>str::len\<close>.  The string operations of the standard library that the
    sources call (\<^verbatim>\<open>strip_prefix\<close>, \<^verbatim>\<open>split_once\<close>, \<^verbatim>\<open>split\<close>, \<^verbatim>\<open>trim\<close>, \<^verbatim>\<open>parse\<close>, \<^verbatim>\<open>to_string\<close>)
    are defined here on bytes, with the laws the components use.
  \<^item> A \<^verbatim>\<open>u8\<close> is an \<open>8 word\<close>.
  \<^item> A \<^verbatim>\<open>HashMap\<close>, and a database table with a primary key, is an association list with
    distinct keys; the locale \<open>keyed_table\<close> is the contract its clients rely on.
\<close>

unbundle bit_operations_syntax

named_theorems str_simps \<open>laws of the string operations\<close>
named_theorems table_simps \<open>laws of the keyed tables\<close>

section \<open>Results\<close>

type_synonym ('e, 'a) result = "'e + 'a"

abbreviation Ok :: "'a \<Rightarrow> ('e, 'a) result" where
  "Ok \<equiv> Inr"

abbreviation Err :: "'e \<Rightarrow> ('e, 'a) result" where
  "Err \<equiv> Inl"

definition rbind :: "('e, 'a) result \<Rightarrow> ('a \<Rightarrow> ('e, 'b) result) \<Rightarrow> ('e, 'b) result" where
  "rbind r f = (case r of Inl e \<Rightarrow> Inl e | Inr a \<Rightarrow> f a)"

definition ok_or :: "'a option \<Rightarrow> 'e \<Rightarrow> ('e, 'a) result" where
  "ok_or x e = (case x of None \<Rightarrow> Inl e | Some a \<Rightarrow> Inr a)"

definition is_ok :: "('e, 'a) result \<Rightarrow> bool" where
  "is_ok r = (case r of Inl _ \<Rightarrow> False | Inr _ \<Rightarrow> True)"

lemma rbind_simps [simp]:
  "rbind (Inl e) f = Inl e"
  "rbind (Inr a) f = f a"
  by (simp_all add: rbind_def)

lemma ok_or_simps [simp]:
  "ok_or None e = Inl e"
  "ok_or (Some a) e = Inr a"
  by (simp_all add: ok_or_def)

lemma is_ok_simps [simp]: "is_ok (Inl e) = False" "is_ok (Inr a) = True"
  by (simp_all add: is_ok_def)

lemma rbind_eq_Ok_iff: "rbind r f = Inr b \<longleftrightarrow> (\<exists>a. r = Inr a \<and> f a = Inr b)"
  by (cases r) auto

lemma ok_or_eq_Ok_iff [simp]: "ok_or x e = Inr a \<longleftrightarrow> x = Some a"
  by (cases x) auto

lemma bind_eq_Some_iff: "Option.bind x f = Some b \<longleftrightarrow> (\<exists>a. x = Some a \<and> f a = Some b)"
  by (cases x) auto

section \<open>Results with a state\<close>

text \<open>An operation that may fail and changes a state either way; \<^verbatim>\<open>.map_err(f)?\<close> on it is \<open>sbind\<close>.\<close>

definition sbind :: "('e, 'a) result \<times> 's \<Rightarrow> ('a \<Rightarrow> 's \<Rightarrow> ('f, 'b) result \<times> 's) \<Rightarrow> ('e \<Rightarrow> 'f) \<Rightarrow> ('f, 'b) result \<times> 's" where
  "sbind m k f = (case m of (Err e, s) \<Rightarrow> (Err (f e), s) | (Ok x, s) \<Rightarrow> k x s)"

lemma sbind_simps [simp]:
  "sbind (Inl e, s) k f = (Inl (f e), s)"
  "sbind (Inr x, s) k f = k x s"
  by (simp_all add: sbind_def)

lemma sbind_eq_Ok_iff: "sbind m k f = (Inr b, s') \<longleftrightarrow> (\<exists>a s. m = (Inr a, s) \<and> k a s = (Inr b, s'))"
  by (auto simp: sbind_def split: prod.splits sum.splits)

section \<open>Bytes\<close>

type_synonym u8 = "8 word"
type_synonym bytes = "u8 list"

definition u8_of :: "char \<Rightarrow> u8" where
  "u8_of c = word_of_nat (of_char c)"

definition chr_of :: "u8 \<Rightarrow> char" where
  "chr_of w = char_of (unat w)"

definition as_bytes :: "string \<Rightarrow> bytes" where
  "as_bytes s = map u8_of s"

definition of_bytes :: "bytes \<Rightarrow> string" where
  "of_bytes b = map chr_of b"

lemma chr_of_u8_of [simp]: "chr_of (u8_of c) = c"
  by (simp add: chr_of_def u8_of_def unat_of_nat take_bit_eq_mod [symmetric])

lemma u8_of_chr_of [simp]: "u8_of (chr_of w) = w"
proof -
  have "unat w < 2 ^ LENGTH(8)"
    by (rule unsigned_less)
  then show ?thesis
    by (simp add: chr_of_def u8_of_def)
qed

lemma u8_of_inject [simp]: "u8_of c = u8_of d \<longleftrightarrow> c = d"
  by (metis chr_of_u8_of)

lemma chr_of_inject [simp]: "chr_of v = chr_of w \<longleftrightarrow> v = w"
  by (metis u8_of_chr_of)

lemma unat_u8_of: "unat (u8_of c) = of_char c"
  by (simp add: u8_of_def unat_of_nat take_bit_eq_mod [symmetric])

lemma as_bytes_of_bytes [simp]: "as_bytes (of_bytes b) = b"
  by (simp add: as_bytes_def of_bytes_def comp_def)

lemma of_bytes_as_bytes [simp]: "of_bytes (as_bytes s) = s"
  by (simp add: as_bytes_def of_bytes_def comp_def)

lemma length_as_bytes [simp]: "length (as_bytes s) = length s"
  by (simp add: as_bytes_def)

lemma as_bytes_Nil_Cons [simp]:
  "as_bytes [] = []" "as_bytes (c # s) = u8_of c # as_bytes s" "as_bytes s = [] \<longleftrightarrow> s = []"
  by (simp_all add: as_bytes_def)

lemma as_bytes_inject [simp]: "as_bytes s = as_bytes t \<longleftrightarrow> s = t"
  by (metis of_bytes_as_bytes)

lemma as_bytes_append [simp]: "as_bytes (s @ t) = as_bytes s @ as_bytes t"
  by (simp add: as_bytes_def)

lemma length_of_bytes [simp]: "length (of_bytes b) = length b"
  by (simp add: of_bytes_def)

subsection \<open>UTF-8\<close>

text \<open>\<^verbatim>\<open>std::str::from_utf8\<close>: the well-formed byte sequences of the Unicode standard (no
  overlong form, no surrogate, nothing above U+10FFFF).  A Rust string always satisfies it.\<close>

definition cont :: "u8 \<Rightarrow> bool" where
  "cont b = (128 \<le> b \<and> b \<le> 191)"

fun valid_utf8 :: "bytes \<Rightarrow> bool" where
  "valid_utf8 [] = True"
| "valid_utf8 (a # s) =
     (if a \<le> 127 then valid_utf8 s
      else if 194 \<le> a \<and> a \<le> 223 then
        (case s of b # t \<Rightarrow> cont b \<and> valid_utf8 t | _ \<Rightarrow> False)
      else if 224 \<le> a \<and> a \<le> 239 then
        (case s of b # c # t \<Rightarrow>
             (if a = 224 then 160 \<le> b \<and> b \<le> 191 else if a = 237 then 128 \<le> b \<and> b \<le> 159 else cont b)
             \<and> cont c \<and> valid_utf8 t
         | _ \<Rightarrow> False)
      else if 240 \<le> a \<and> a \<le> 244 then
        (case s of b # c # d # t \<Rightarrow>
             (if a = 240 then 144 \<le> b \<and> b \<le> 191 else if a = 244 then 128 \<le> b \<and> b \<le> 143 else cont b)
             \<and> cont c \<and> cont d \<and> valid_utf8 t
         | _ \<Rightarrow> False)
      else False)"

definition rust_str :: "string \<Rightarrow> bool" where
  "rust_str s = valid_utf8 (as_bytes s)"

definition from_utf8 :: "bytes \<Rightarrow> string option" where
  "from_utf8 b = (if valid_utf8 b then Some (of_bytes b) else None)"

lemma valid_utf8_ascii: "\<forall>b \<in> set s. b \<le> 127 \<Longrightarrow> valid_utf8 s"
  by (induction s) auto

lemma from_utf8_as_bytes [simp]: "rust_str s \<Longrightarrow> from_utf8 (as_bytes s) = Some s"
  by (simp add: from_utf8_def rust_str_def)

section \<open>Strings\<close>

subsection \<open>Prefixes and separators\<close>

definition strip_prefix :: "string \<Rightarrow> string \<Rightarrow> string option" where
  "strip_prefix p s = (if take (length p) s = p then Some (drop (length p) s) else None)"

definition strip_suffix :: "string \<Rightarrow> string \<Rightarrow> string option" where
  "strip_suffix p s = map_option rev (strip_prefix (rev p) (rev s))"

definition starts_with :: "string \<Rightarrow> string \<Rightarrow> bool" where
  "starts_with p s = (take (length p) s = p)"

text \<open>\<^verbatim>\<open>str::split_once\<close> with a character: the text before and after the first occurrence.\<close>

fun split_once :: "char \<Rightarrow> string \<Rightarrow> (string \<times> string) option" where
  "split_once d [] = None"
| "split_once d (c # s) =
     (if c = d then Some ([], s) else map_option (\<lambda>(a, b). (c # a, b)) (split_once d s))"

text \<open>\<^verbatim>\<open>str::rsplit_once\<close>: the same at the last occurrence.\<close>

definition rsplit_once :: "char \<Rightarrow> string \<Rightarrow> (string \<times> string) option" where
  "rsplit_once d s = map_option (\<lambda>(a, b). (rev b, rev a)) (split_once d (rev s))"

text \<open>\<^verbatim>\<open>str::split\<close> on a set of separator characters; never an empty list.\<close>

fun split_on :: "(char \<Rightarrow> bool) \<Rightarrow> string \<Rightarrow> string list" where
  "split_on p [] = [[]]"
| "split_on p (c # s) =
     (if p c then [] # split_on p s
      else (case split_on p s of [] \<Rightarrow> [[c]] | w # ws \<Rightarrow> (c # w) # ws))"

abbreviation split :: "char \<Rightarrow> string \<Rightarrow> string list" where
  "split d \<equiv> split_on (\<lambda>c. c = d)"

fun join :: "string \<Rightarrow> string list \<Rightarrow> string" where
  "join sep [] = []"
| "join sep [w] = w"
| "join sep (w # ws) = w @ sep @ join sep ws"

lemma strip_prefix_append [simp]: "strip_prefix p (p @ s) = Some s"
  by (simp add: strip_prefix_def)

lemma strip_prefix_eq_Some_iff: "strip_prefix p s = Some t \<longleftrightarrow> s = p @ t"
  by (auto simp: strip_prefix_def) (metis append_take_drop_id)

lemma strip_suffix_eq_Some_iff: "strip_suffix p s = Some t \<longleftrightarrow> s = t @ p"
proof -
  have "strip_suffix p s = Some t \<longleftrightarrow> strip_prefix (rev p) (rev s) = Some (rev t)"
    by (auto simp: strip_suffix_def)
  also have "\<dots> \<longleftrightarrow> rev s = rev (t @ p)"
    by (simp add: strip_prefix_eq_Some_iff)
  finally show ?thesis
    by (simp only: rev_is_rev_conv)
qed

lemma starts_with_iff: "starts_with p s \<longleftrightarrow> (\<exists>t. s = p @ t)"
  by (auto simp: starts_with_def) (metis append_take_drop_id)

lemma split_once_append: "d \<notin> set a \<Longrightarrow> split_once d (a @ d # b) = Some (a, b)"
  by (induction a) auto

lemma split_once_eq_Some_iff:
  "split_once d s = Some (a, b) \<longleftrightarrow> s = a @ d # b \<and> d \<notin> set a"
proof (induction s arbitrary: a)
  case Nil
  then show ?case by simp
next
  case (Cons c s)
  then show ?case by (cases a) auto
qed

lemma split_once_eq_None_iff: "split_once d s = None \<longleftrightarrow> d \<notin> set s"
  by (induction s) auto

lemma rsplit_once_eq_Some_iff:
  "rsplit_once d s = Some (a, b) \<longleftrightarrow> s = a @ d # b \<and> d \<notin> set b"
proof -
  have "rsplit_once d s = Some (a, b) \<longleftrightarrow> split_once d (rev s) = Some (rev b, rev a)"
    by (auto simp: rsplit_once_def)
  also have "\<dots> \<longleftrightarrow> rev s = rev (a @ d # b) \<and> d \<notin> set b"
    by (simp add: split_once_eq_Some_iff)
  finally show ?thesis by (simp only: rev_is_rev_conv)
qed

lemma rsplit_once_eq_None_iff: "rsplit_once d s = None \<longleftrightarrow> d \<notin> set s"
  by (simp add: rsplit_once_def split_once_eq_None_iff)

lemma split_on_not_Nil [simp]: "split_on p s \<noteq> []"
  by (induction s) (auto split: list.splits)

lemma split_on_no_sep: "\<forall>c \<in> set s. \<not> p c \<Longrightarrow> split_on p s = [s]"
  by (induction s) auto

lemma split_on_sep_append:
  "\<forall>c \<in> set a. \<not> p c \<Longrightarrow> p d \<Longrightarrow> split_on p (a @ d # s) = a # split_on p s"
  by (induction a) (auto split: list.splits)

lemma split_on_pieces: "w \<in> set (split_on p s) \<Longrightarrow> c \<in> set w \<Longrightarrow> c \<in> set s \<and> \<not> p c"
  by (induction s arbitrary: w) (fastforce split: if_splits list.splits)+

lemma split_on_append_sep: "p d \<Longrightarrow> split_on p (s @ d # t) = split_on p s @ split_on p t"
  by (induction s) (auto split: list.splits simp: Cons_eq_append_conv)

lemma join_split: "join [d] (split d s) = s"
proof (induction s)
  case Nil
  then show ?case by simp
next
  case (Cons c s)
  obtain w ws where ws: "split d s = w # ws"
    by (cases "split d s") auto
  with Cons show ?case by (cases ws) auto
qed

subsection \<open>Trimming\<close>

text \<open>
  \<^verbatim>\<open>str::trim\<close> removes the characters with the Unicode property \<^verbatim>\<open>White_Space\<close>.  On UTF-8
  these are the one-byte sequences 09 to 0D and 20, the two-byte sequences C2 85 and C2 A0, and
  the three-byte sequences of U+1680, U+2000 to U+200A, U+2028, U+2029, U+202F, U+205F, U+3000.
\<close>

definition ws1 :: "char \<Rightarrow> bool" where
  "ws1 a = (let n = of_char a :: nat in 9 \<le> n \<and> n \<le> 13 \<or> n = 32)"

definition ws2 :: "char \<Rightarrow> char \<Rightarrow> bool" where
  "ws2 a b = (of_char a = (194 :: nat) \<and> of_char b \<in> {133 :: nat, 160})"

definition ws3 :: "char \<Rightarrow> char \<Rightarrow> char \<Rightarrow> bool" where
  "ws3 a b c =
     (let x = of_char a :: nat; y = of_char b :: nat; z = of_char c :: nat
      in x = 225 \<and> y = 154 \<and> z = 128
       \<or> x = 226 \<and> y = 128 \<and> (128 \<le> z \<and> z \<le> 138 \<or> z = 168 \<or> z = 169 \<or> z = 175)
       \<or> x = 226 \<and> y = 129 \<and> z = 159
       \<or> x = 227 \<and> y = 128 \<and> z = 128)"

fun trim_by :: "(char \<Rightarrow> bool) \<Rightarrow> (char \<Rightarrow> char \<Rightarrow> bool) \<Rightarrow> (char \<Rightarrow> char \<Rightarrow> char \<Rightarrow> bool) \<Rightarrow>
    string \<Rightarrow> string" where
  "trim_by w1 w2 w3 [] = []"
| "trim_by w1 w2 w3 (a # s) =
     (if w1 a then trim_by w1 w2 w3 s
      else (case s of
              [] \<Rightarrow> a # s
            | b # t \<Rightarrow>
                if w2 a b then trim_by w1 w2 w3 t
                else (case t of
                        [] \<Rightarrow> a # s
                      | c # u \<Rightarrow> if w3 a b c then trim_by w1 w2 w3 u else a # s)))"

definition trim_start :: "string \<Rightarrow> string" where
  "trim_start = trim_by ws1 ws2 ws3"

definition trim_end :: "string \<Rightarrow> string" where
  "trim_end s = rev (trim_by ws1 (\<lambda>a b. ws2 b a) (\<lambda>a b c. ws3 c b a) (rev s))"

definition trim :: "string \<Rightarrow> string" where
  "trim s = trim_end (trim_start s)"

text \<open>Printable ASCII without the space.\<close>

definition graphic :: "char \<Rightarrow> bool" where
  "graphic c = (33 \<le> (of_char c :: nat) \<and> (of_char c :: nat) \<le> 126)"

lemma suffix_trim_by: "suffix (trim_by w1 w2 w3 s) s"
proof (induction w1 w2 w3 s rule: trim_by.induct)
  case (1 w1 w2 w3)
  show ?case by simp
next
  case (2 w1 w2 w3 a s)
  then show ?case
    by (simp add: suffix_Cons split: list.splits)
qed

lemma suffix_trim_start: "suffix (trim_start s) s"
  by (simp add: trim_start_def suffix_trim_by)

lemma prefix_trim_end: "prefix (trim_end s) s"
  using suffix_trim_by [of _ _ _ "rev s"] by (simp add: trim_end_def suffix_to_prefix)

lemma sublist_trim: "sublist (trim s) s"
  unfolding trim_def
  by (meson prefix_imp_sublist prefix_trim_end sublist_order.order.trans suffix_imp_sublist
      suffix_trim_start)

lemma set_trim: "set (trim s) \<subseteq> set s"
  by (rule set_mono_sublist [OF sublist_trim])

lemma length_trim_le: "length (trim s) \<le> length s"
  by (rule sublist_length_le [OF sublist_trim])

lemma trim_by_graphic:
  assumes "\<And>a. graphic a \<Longrightarrow> \<not> w1 a" and "\<And>a b. graphic a \<Longrightarrow> \<not> w2 a b"
    and "\<And>a b c. graphic a \<Longrightarrow> \<not> w3 a b c" and "\<forall>c \<in> set s. graphic c"
  shows "trim_by w1 w2 w3 s = s"
  using assms by (cases s) (auto split: list.splits)

lemma graphic_not_ws:
  assumes "graphic a"
  shows "\<not> ws1 a" "\<not> ws2 a b" "\<not> ws2 b a" "\<not> ws3 a b c" "\<not> ws3 b c a"
  using assms by (auto simp: graphic_def ws1_def ws2_def ws3_def Let_def)

lemma trim_graphic: "\<forall>c \<in> set s. graphic c \<Longrightarrow> trim s = s"
  by (simp add: trim_def trim_start_def trim_end_def trim_by_graphic graphic_not_ws)

lemma rust_str_ascii: "\<forall>c \<in> set s. of_char c < (128 :: nat) \<Longrightarrow> rust_str s"
  unfolding rust_str_def
  by (rule valid_utf8_ascii) (auto simp: as_bytes_def word_le_nat_alt unat_u8_of)

subsection \<open>Character boundaries\<close>

text \<open>\<^verbatim>\<open>str::is_char_boundary\<close>: the ends of the string and every byte that does not continue a
  character.\<close>

definition is_char_boundary :: "string \<Rightarrow> nat \<Rightarrow> bool" where
  "is_char_boundary value i =
     (i = 0 \<or> i = length value \<or> i < length value \<and> \<not> cont (u8_of (value ! i)))"

text \<open>The greatest boundary up to an index: the loop
  \<^verbatim>\<open>while end > 0 && !s.is_char_boundary(end) { end -= 1 }\<close>.\<close>

fun boundary_at_most :: "string \<Rightarrow> nat \<Rightarrow> nat" where
  "boundary_at_most value 0 = 0"
| "boundary_at_most value (Suc e) =
     (if is_char_boundary value (Suc e) then Suc e else boundary_at_most value e)"

lemma boundary_at_most_le: "boundary_at_most value e \<le> e"
  by (induction e) auto

lemma boundary_at_most_boundary: "is_char_boundary value (boundary_at_most value e)"
  by (induction e) (auto simp: is_char_boundary_def)

lemma boundary_at_most_greatest:
  "is_char_boundary value i \<Longrightarrow> i \<le> e \<Longrightarrow> i \<le> boundary_at_most value e"
  by (induction e) (auto simp: le_Suc_eq)

subsection \<open>ASCII case\<close>

definition ascii_lower :: "char \<Rightarrow> char" where
  "ascii_lower c = (let n = of_char c :: nat in if 65 \<le> n \<and> n \<le> 90 then char_of (n + 32) else c)"

definition to_ascii_lowercase :: "string \<Rightarrow> string" where
  "to_ascii_lowercase s = map ascii_lower s"

definition eq_ignore_ascii_case :: "string \<Rightarrow> string \<Rightarrow> bool" where
  "eq_ignore_ascii_case s t = (to_ascii_lowercase s = to_ascii_lowercase t)"

definition is_ascii_alphanumeric :: "char \<Rightarrow> bool" where
  "is_ascii_alphanumeric c =
     (let n = of_char c :: nat
      in 48 \<le> n \<and> n \<le> 57 \<or> 65 \<le> n \<and> n \<le> 90 \<or> 97 \<le> n \<and> n \<le> 122)"

lemma length_to_ascii_lowercase [simp]: "length (to_ascii_lowercase s) = length s"
  by (simp add: to_ascii_lowercase_def)

lemma is_ascii_alphanumeric_lower:
  "is_ascii_alphanumeric c \<Longrightarrow> is_ascii_alphanumeric (ascii_lower c)"
  by (auto simp: is_ascii_alphanumeric_def ascii_lower_def Let_def)

lemma ascii_lower_idem [simp]: "ascii_lower (ascii_lower c) = ascii_lower c"
  by (auto simp: ascii_lower_def Let_def)

lemma to_ascii_lowercase_idem [simp]:
  "to_ascii_lowercase (to_ascii_lowercase s) = to_ascii_lowercase s"
  by (simp add: to_ascii_lowercase_def)

subsection \<open>Decimal numbers\<close>

text \<open>\<^verbatim>\<open>to_string\<close> of an unsigned integer, and \<^verbatim>\<open>parse\<close> into one with the largest value
  \<open>m\<close>: an optional plus sign and at least one digit, \<^verbatim>\<open>Err\<close> on overflow.\<close>

fun show_nat :: "nat \<Rightarrow> string" where
  "show_nat n =
     (if n < 10 then [char_of (48 + n)] else show_nat (n div 10) @ [char_of (48 + n mod 10)])"

declare show_nat.simps [simp del]

fun digits_value :: "nat \<Rightarrow> string \<Rightarrow> nat option" where
  "digits_value acc [] = Some acc"
| "digits_value acc (c # s) =
     (let n = of_char c :: nat
      in if 48 \<le> n \<and> n \<le> 57 then digits_value (10 * acc + (n - 48)) s else None)"

definition parse_uint :: "nat \<Rightarrow> string \<Rightarrow> nat option" where
  "parse_uint m s =
     (let ds = (case s of [] \<Rightarrow> [] | c # t \<Rightarrow> if c = CHR ''+'' then t else s)
      in if ds = [] then None
         else case digits_value 0 ds of
                None \<Rightarrow> None
              | Some n \<Rightarrow> if n \<le> m then Some n else None)"

lemma digits_value_append:
  "digits_value acc (s @ t) = Option.bind (digits_value acc s) (\<lambda>a. digits_value a t)"
  by (induction s arbitrary: acc) (auto simp: Let_def)

lemma digits_value_show_nat: "digits_value 0 (show_nat n) = Some n"
proof (induction n rule: show_nat.induct)
  case (1 n)
  show ?case
  proof (cases "n < 10")
    case True
    then show ?thesis by (simp add: show_nat.simps [of n])
  next
    case False
    with 1 show ?thesis
      by (simp add: show_nat.simps [of n] digits_value_append Let_def)
  qed
qed

lemma show_nat_digit: "c \<in> set (show_nat n) \<Longrightarrow> 48 \<le> (of_char c :: nat) \<and> (of_char c :: nat) \<le> 57"
proof (induction n rule: show_nat.induct)
  case (1 n)
  then show ?case
    by (cases "n < 10") (auto simp: show_nat.simps [of n])
qed

lemma show_nat_not_Nil [simp]: "show_nat n \<noteq> []"
  by (subst show_nat.simps) simp

lemma parse_uint_show_nat:
  assumes "n \<le> m" shows "parse_uint m (show_nat n) = Some n"
proof -
  obtain c t where ct: "show_nat n = c # t"
    by (cases "show_nat n") auto
  then have "c \<noteq> CHR ''+''"
    using show_nat_digit [of c n] by auto
  with ct have "(case show_nat n of [] \<Rightarrow> [] | c # t \<Rightarrow> if c = CHR ''+'' then t else show_nat n)
      = show_nat n"
    by simp
  with assms show ?thesis
    by (simp only: parse_uint_def Let_def digits_value_show_nat) simp
qed

section \<open>Big-endian lengths\<close>

text \<open>\<^verbatim>\<open>u64::to_be_bytes\<close> of \<open>n as u64\<close>.\<close>

definition be64 :: "nat \<Rightarrow> bytes" where
  "be64 n = map (\<lambda>i. word_of_nat (n div 256 ^ i)) [7, 6, 5, 4, 3, 2, 1, 0]"

lemma length_be64 [simp]: "length (be64 n) = 8"
  by (simp add: be64_def)

lemmas Suc_numerals = One_nat_def [symmetric] Suc_1 numeral_2_eq_2 [symmetric]
  Suc_numeral semiring_norm(2,5,8)

lemma u8_digit: "unat (word_of_nat k :: u8) = k mod 256"
  by (simp add: unat_of_nat)

definition be_value :: "bytes \<Rightarrow> nat" where
  "be_value b = foldl (\<lambda>acc x. 256 * acc + unat x) 0 b"

lemma be_value_be64:
  assumes "n < 2 ^ 64" shows "be_value (be64 n) = n"
proof -
  have digit: "256 * (m div 256) + m mod 256 = m" for m :: nat
    by (rule mult_div_mod_eq)
  have step: "256 * (n div 256 ^ Suc i) + n div 256 ^ i mod 256 = n div 256 ^ i" for i
  proof -
    have "n div 256 ^ Suc i = n div 256 ^ i div 256"
      by (simp only: power_Suc2 div_mult2_eq)
    with digit [of "n div 256 ^ i"] show ?thesis by simp
  qed
  have top: "n div 256 ^ 7 mod 256 = n div 256 ^ 7"
    using assms by (simp add: less_mult_imp_div_less)
  have "be_value (be64 n) =
      256 * (256 * (256 * (256 * (256 * (256 * (256 * (n div 256 ^ 7 mod 256)
        + n div 256 ^ 6 mod 256) + n div 256 ^ 5 mod 256) + n div 256 ^ 4 mod 256)
        + n div 256 ^ 3 mod 256) + n div 256 ^ 2 mod 256) + n div 256 ^ 1 mod 256)
        + n div 256 ^ 0 mod 256"
    by (simp only: be_value_def be64_def list.map foldl.simps u8_digit) simp
  also have "\<dots> = n"
    by (simp only: top step [of 0, simplified Suc_numerals] step [of 1, simplified Suc_numerals]
        step [of 2, simplified Suc_numerals] step [of 3, simplified Suc_numerals]
        step [of 4, simplified Suc_numerals] step [of 5, simplified Suc_numerals]
        step [of 6, simplified Suc_numerals] power_0 div_by_1) simp
  finally show ?thesis .
qed

lemma be64_inject: "n < 2 ^ 64 \<Longrightarrow> m < 2 ^ 64 \<Longrightarrow> be64 n = be64 m \<Longrightarrow> n = m"
  by (metis be_value_be64)

section \<open>Chunks\<close>

text \<open>\<^verbatim>\<open>slice::chunks\<close>: consecutive pieces of length \<open>n\<close>, the last one possibly shorter;
  and \<^verbatim>\<open>get(i).copied().unwrap_or(d)\<close>.\<close>

function chunks :: "nat \<Rightarrow> 'a list \<Rightarrow> 'a list list" where
  "chunks n xs = (if xs = [] \<or> n = 0 then [] else take n xs # chunks n (drop n xs))"
  by pat_completeness auto
termination
  by (relation "measure (length \<circ> snd)") auto

declare chunks.simps [simp del]

definition get_or :: "'a \<Rightarrow> 'a list \<Rightarrow> nat \<Rightarrow> 'a" where
  "get_or d xs i = (if i < length xs then xs ! i else d)"

lemma chunks_Nil [simp]: "chunks n [] = []"
  by (simp add: chunks.simps)

lemma chunks_append:
  assumes "length xs = n" and "0 < n"
  shows "chunks n (xs @ ys) = xs # chunks n ys"
proof -
  have "chunks n (xs @ ys) = take n (xs @ ys) # chunks n (drop n (xs @ ys))"
    using assms by (subst chunks.simps) auto
  with assms show ?thesis by simp
qed

lemma chunks_short: "xs \<noteq> [] \<Longrightarrow> length xs \<le> n \<Longrightarrow> chunks n xs = [xs]"
  by (cases xs; subst chunks.simps) auto

lemma concat_chunks: "0 < n \<Longrightarrow> concat (chunks n xs) = xs"
proof (induction n xs rule: chunks.induct)
  case (1 n xs)
  then show ?case by (subst chunks.simps) auto
qed

section \<open>Keyed tables\<close>

text \<open>
  A table with a unique key: \<^verbatim>\<open>HashMap\<close> in memory, a table with a primary key in the database.
  \<open>tbl_get\<close> reads the row of a key, \<open>tbl_put\<close> inserts or replaces it, \<open>tbl_del\<close> removes it,
  \<open>tbl_retain\<close> keeps the rows that satisfy a predicate (\<^verbatim>\<open>HashMap::retain\<close>, and \<^verbatim>\<open>DELETE\<close> with the
  negated condition), \<open>tbl_modify\<close> changes the rows that satisfy one (\<^verbatim>\<open>UPDATE\<close>), and
  \<open>tbl_count\<close> is the number of rows that satisfy one (\<^verbatim>\<open>rows_affected\<close>).
\<close>

type_synonym ('k, 'v) table = "('k \<times> 'v) list"

definition tbl_empty :: "('k, 'v) table" where
  "tbl_empty = []"

definition tbl_get :: "('k, 'v) table \<Rightarrow> 'k \<Rightarrow> 'v option" where
  "tbl_get t k = map_of t k"

definition tbl_put :: "'k \<Rightarrow> 'v \<Rightarrow> ('k, 'v) table \<Rightarrow> ('k, 'v) table" where
  "tbl_put k v t = AList.update k v t"

definition tbl_del :: "'k \<Rightarrow> ('k, 'v) table \<Rightarrow> ('k, 'v) table" where
  "tbl_del k t = filter (\<lambda>(j, _). j \<noteq> k) t"

definition tbl_retain :: "('k \<Rightarrow> 'v \<Rightarrow> bool) \<Rightarrow> ('k, 'v) table \<Rightarrow> ('k, 'v) table" where
  "tbl_retain P t = filter (\<lambda>(k, v). P k v) t"

definition tbl_modify :: "('k \<Rightarrow> 'v \<Rightarrow> bool) \<Rightarrow> ('v \<Rightarrow> 'v) \<Rightarrow> ('k, 'v) table \<Rightarrow> ('k, 'v) table" where
  "tbl_modify P f t = map (\<lambda>(k, v). (k, if P k v then f v else v)) t"

definition tbl_count :: "('k \<Rightarrow> 'v \<Rightarrow> bool) \<Rightarrow> ('k, 'v) table \<Rightarrow> nat" where
  "tbl_count P t = length (filter (\<lambda>(k, v). P k v) t)"

definition tbl_len :: "('k, 'v) table \<Rightarrow> nat" where
  "tbl_len t = length t"

definition tbl_wf :: "('k, 'v) table \<Rightarrow> bool" where
  "tbl_wf t = distinct (map fst t)"

locale keyed_table =
  fixes empty :: "'t"
    and get :: "'t \<Rightarrow> 'k \<Rightarrow> 'v option"
    and put :: "'k \<Rightarrow> 'v \<Rightarrow> 't \<Rightarrow> 't"
    and del :: "'k \<Rightarrow> 't \<Rightarrow> 't"
    and retain :: "('k \<Rightarrow> 'v \<Rightarrow> bool) \<Rightarrow> 't \<Rightarrow> 't"
    and modify :: "('k \<Rightarrow> 'v \<Rightarrow> bool) \<Rightarrow> ('v \<Rightarrow> 'v) \<Rightarrow> 't \<Rightarrow> 't"
    and count :: "('k \<Rightarrow> 'v \<Rightarrow> bool) \<Rightarrow> 't \<Rightarrow> nat"
    and len :: "'t \<Rightarrow> nat"
    and wf :: "'t \<Rightarrow> bool"
  assumes get_empty: "get empty k = None"
    and get_put: "get (put k v t) j = (if j = k then Some v else get t j)"
    and get_del: "get (del k t) j = (if j = k then None else get t j)"
    and get_retain: "wf t \<Longrightarrow> get (retain P t) k =
      (case get t k of None \<Rightarrow> None | Some v \<Rightarrow> if P k v then Some v else None)"
    and get_modify: "get (modify P f t) k = map_option (\<lambda>v. if P k v then f v else v) (get t k)"
    and count_eq_0: "wf t \<Longrightarrow> count P t = 0 \<longleftrightarrow> (\<forall>k v. get t k = Some v \<longrightarrow> \<not> P k v)"
    and len_retain: "len (retain P t) \<le> len t"
    and wf_empty: "wf empty"
    and wf_put: "wf t \<Longrightarrow> wf (put k v t)"
    and wf_del: "wf t \<Longrightarrow> wf (del k t)"
    and wf_retain: "wf t \<Longrightarrow> wf (retain P t)"
    and wf_modify: "wf t \<Longrightarrow> wf (modify P f t)"
begin

lemma get_retain_Some_iff:
  "wf t \<Longrightarrow> get (retain P t) k = Some v \<longleftrightarrow> get t k = Some v \<and> P k v"
  by (auto simp: get_retain split: option.splits)

lemma get_retain_None_iff:
  "wf t \<Longrightarrow> get (retain P t) k = None \<longleftrightarrow> (\<forall>v. get t k = Some v \<longrightarrow> \<not> P k v)"
  by (auto simp: get_retain split: option.splits)

text \<open>
  Dropping rows that a reader cannot tell from absent ones changes no read.  This is the reason
  every sweep of the program is safe: a full token bucket, an expired credential.
\<close>

lemma retain_unobservable:
  assumes "wf t" and "\<And>v. \<not> P k v \<Longrightarrow> view (Some v) = view None"
  shows "view (get (retain P t) k) = view (get t k)"
  using assms by (auto simp: get_retain split: option.splits)

lemma count_pos_iff: "wf t \<Longrightarrow> 0 < count P t \<longleftrightarrow> (\<exists>k v. get t k = Some v \<and> P k v)"
  using count_eq_0 [of t P] by (metis neq0_conv)

lemma count_key_pos_iff:
  "wf t \<Longrightarrow> 0 < count (\<lambda>j v. j = k \<and> P v) t \<longleftrightarrow> (\<exists>v. get t k = Some v \<and> P v)"
  by (auto simp: count_pos_iff)

lemma modify_other: "(\<And>v. \<not> P k v) \<Longrightarrow> get (modify P f t) k = get t k"
  by (cases "get t k") (auto simp: get_modify)

end

lemma map_of_filter_distinct:
  "distinct (map fst t) \<Longrightarrow> map_of (filter (\<lambda>(k, v). P k v) t) k =
    (case map_of t k of None \<Rightarrow> None | Some v \<Rightarrow> if P k v then Some v else None)"
  by (induction t) (auto split: option.splits simp: map_of_eq_None_iff rev_image_eqI)

lemma map_of_map_value:
  "map_of (map (\<lambda>(k, v). (k, f k v)) t) k = map_option (f k) (map_of t k)"
  by (induction t) auto

lemma fst_comp_map_value [simp]: "fst \<circ> (\<lambda>(k, v). (k, f k v)) = fst"
  by auto

lemma distinct_map_fst_filter: "distinct (map fst t) \<Longrightarrow> distinct (map fst (filter P t))"
  by (induction t) auto

lemma map_of_filter_key: "map_of (filter (\<lambda>(j, _). j \<noteq> k) t) j = (if j = k then None else map_of t j)"
  by (induction t) auto

lemmas tbl_defs = tbl_empty_def tbl_get_def tbl_put_def tbl_del_def tbl_retain_def tbl_modify_def
  tbl_count_def tbl_len_def tbl_wf_def

interpretation tbl: keyed_table tbl_empty tbl_get tbl_put tbl_del tbl_retain tbl_modify tbl_count
  tbl_len tbl_wf
proof unfold_locales
  fix t :: "('k, 'v) table" and P k
  assume "tbl_wf t"
  then show "tbl_get (tbl_retain P t) k =
      (case tbl_get t k of None \<Rightarrow> None | Some v \<Rightarrow> if P k v then Some v else None)"
    by (simp add: tbl_defs map_of_filter_distinct)
next
  fix t :: "('k, 'v) table" and P
  assume "tbl_wf t"
  then show "tbl_count P t = 0 \<longleftrightarrow> (\<forall>k v. tbl_get t k = Some v \<longrightarrow> \<not> P k v)"
    by (auto simp: tbl_defs filter_empty_conv dest: map_of_SomeD)
qed (simp_all add: tbl_defs update_conv' map_of_filter_key map_of_map_value distinct_update
    distinct_map_fst_filter)

lemmas tbl_get_laws [table_simps] = tbl.get_empty tbl.get_put tbl.get_del tbl.get_retain
  tbl.get_modify
lemmas tbl_wf_laws [simp] = tbl.wf_empty tbl.wf_put tbl.wf_del tbl.wf_retain tbl.wf_modify

end
