(* ===== verification/Codec.thy ===== *)
theory Codec
  imports Arc_Prelude
begin

text \<open>
  The contract between the code that spells bytes as text (\<^verbatim>\<open>crypt/base64url.rs\<close>,
  \<^verbatim>\<open>tokens/token.rs\<close>, \<^verbatim>\<open>observe/trace_context.rs\<close>) and the code that builds credentials on it.

  \<open>byte_codec\<close> promises that a decoder reads what its encoder wrote; \<open>canonical_codec\<close> promises
  in addition that it reads nothing else, so that a byte string has one spelling.  \<open>wire_format\<close> is
  the client: a credential \<^verbatim>\<open>prefix id sep secret\<close> with both halves encoded and of fixed
  length, as API tokens, password resets and remember-me tokens are laid out.
\<close>

locale byte_codec =
  fixes enc :: "bytes \<Rightarrow> string"
    and dec :: "string \<Rightarrow> bytes option"
  assumes dec_enc: "dec (enc b) = Some b"
begin

lemma enc_inject: "enc a = enc b \<longleftrightarrow> a = b"
  by (metis dec_enc option.inject)

end

locale canonical_codec = byte_codec +
  assumes enc_dec: "dec t = Some b \<Longrightarrow> enc b = t"
begin

lemma dec_eq_Some_iff: "dec t = Some b \<longleftrightarrow> t = enc b"
  using dec_enc enc_dec by blast

lemma dec_inject: "dec s = Some b \<Longrightarrow> dec t = Some b \<Longrightarrow> s = t"
  by (simp add: dec_eq_Some_iff)

end

section \<open>Credentials of two encoded halves\<close>

text \<open>
  \<open>wire_show\<close> and \<open>wire_read\<close> are the shape of \<^verbatim>\<open>format_plaintext\<close> and \<^verbatim>\<open>parse_plaintext\<close>:
  a constant prefix, the encoded id, a separator, the encoded secret.
\<close>

definition wire_show :: "(bytes \<Rightarrow> string) \<Rightarrow> string \<Rightarrow> char \<Rightarrow> bytes \<Rightarrow> bytes \<Rightarrow> string" where
  "wire_show enc pre sep i s = pre @ enc i @ sep # enc s"

definition wire_read :: "(string \<Rightarrow> bytes option) \<Rightarrow> string \<Rightarrow> char \<Rightarrow> nat \<Rightarrow> nat \<Rightarrow> string \<Rightarrow>
    (bytes \<times> bytes) option" where
  "wire_read dec pre sep idlen seclen presented =
     Option.bind (strip_prefix pre presented) (\<lambda>rest.
     Option.bind (split_once sep rest) (\<lambda>(a, b).
     Option.bind (dec a) (\<lambda>i. if length i \<noteq> idlen then None else
     Option.bind (dec b) (\<lambda>s. if length s \<noteq> seclen then None else Some (i, s)))))"

locale wire_format = byte_codec +
  fixes pre :: string and sep :: char and idlen :: nat and seclen :: nat
  assumes sep_fresh: "sep \<notin> set (enc b)"
begin

lemma read_show:
  "length i = idlen \<Longrightarrow> length s = seclen \<Longrightarrow>
   wire_read dec pre sep idlen seclen (wire_show enc pre sep i s) = Some (i, s)"
  by (simp add: wire_read_def wire_show_def split_once_append [OF sep_fresh] dec_enc)

lemma show_inject: "wire_show enc pre sep i s = wire_show enc pre sep j t \<Longrightarrow> i = j \<and> s = t"
  unfolding wire_show_def
  by (metis append_same_eq dec_enc option.inject prod.inject same_append_eq sep_fresh
      split_once_append)

lemma read_lengths:
  "wire_read dec pre sep idlen seclen x = Some (i, s) \<Longrightarrow> length i = idlen \<and> length s = seclen"
  by (auto simp: wire_read_def bind_eq_Some_iff split: if_splits prod.splits)

end

locale canonical_wire_format = wire_format + canonical_codec
begin

lemma read_only_shown:
  assumes "wire_read dec pre sep idlen seclen x = Some (i, s)"
  shows "x = wire_show enc pre sep i s"
  using assms
  by (auto simp: wire_read_def wire_show_def bind_eq_Some_iff strip_prefix_eq_Some_iff
      split_once_eq_Some_iff dec_eq_Some_iff split: if_splits prod.splits)

end

end
