(* ===== verification/Base64url.thy ===== *)
theory Base64url
  imports Codec
begin

text \<open>
  The unpadded base64url codec of \<^verbatim>\<open>src/crypt/base64url.rs\<close>: the shift-and-mask encoder over
  24-bit groups, the strict decoder with its three refusals, and the proof that the decoder
  accepts exactly the image of the encoder.  Every credential and every signature of the program is
  spelled with it.
\<close>

section \<open>The code\<close>

definition ALPHABET :: string where
  "ALPHABET = ''ABCDEFGHIJKLMNOPQRSTUVWXYZabcdefghijklmnopqrstuvwxyz0123456789-_''"

definition digit :: "32 word \<Rightarrow> nat \<Rightarrow> char" where
  "digit triple shift = ALPHABET ! unat (drop_bit shift triple AND 63)"

definition triple_of :: "bytes \<Rightarrow> 32 word" where
  "triple_of chunk =
     push_bit 16 (ucast (get_or 0 chunk 0)) OR push_bit 8 (ucast (get_or 0 chunk 1))
       OR ucast (get_or 0 chunk 2)"

definition encode_chunk :: "bytes \<Rightarrow> string" where
  "encode_chunk chunk =
     (let triple = triple_of chunk
      in [digit triple 18, digit triple 12]
         @ (if 1 < length chunk then [digit triple 6] else [])
         @ (if 2 < length chunk then [digit triple 0] else []))"

definition encode :: "bytes \<Rightarrow> string" where
  "encode bytes = concat (map encode_chunk (chunks 3 bytes))"

definition value_of :: "u8 \<Rightarrow> u8 option" where
  "value_of byte =
     (if 65 \<le> byte \<and> byte \<le> 90 then Some (byte - 65)
      else if 97 \<le> byte \<and> byte \<le> 122 then Some (byte - 97 + 26)
      else if 48 \<le> byte \<and> byte \<le> 57 then Some (byte - 48 + 52)
      else if byte = 45 then Some 62
      else if byte = 95 then Some 63
      else None)"

fun pack :: "nat \<Rightarrow> bytes \<Rightarrow> 32 word \<Rightarrow> 32 word option" where
  "pack index [] packed = Some packed"
| "pack index (byte # grp) packed =
     (case value_of byte of
        None \<Rightarrow> None
      | Some v \<Rightarrow> pack (Suc index) grp (packed OR push_bit (18 - 6 * index) (ucast v)))"

definition decode_group :: "bytes \<Rightarrow> bytes option" where
  "decode_group grp =
     (case pack 0 grp 0 of
        None \<Rightarrow> None
      | Some packed \<Rightarrow>
          (let n = length grp - 1; unused_bits = 24 - 8 * n
           in if packed AND (push_bit unused_bits 1 - 1) \<noteq> 0 then None
              else Some (map (\<lambda>index. ucast (drop_bit (16 - 8 * index) packed AND 255)) [0..<n])))"

fun decode_groups :: "bytes list \<Rightarrow> bytes option" where
  "decode_groups [] = Some []"
| "decode_groups (g # gs) =
     (case decode_group g of
        None \<Rightarrow> None
      | Some out \<Rightarrow> map_option (\<lambda>rest. out @ rest) (decode_groups gs))"

definition decode :: "string \<Rightarrow> bytes option" where
  "decode text =
     (let input = as_bytes text
      in if length input mod 4 = 1 then None else decode_groups (chunks 4 input))"

section \<open>The alphabet\<close>

definition symbol_code :: "nat \<Rightarrow> nat" where
  "symbol_code n =
     (if n < 26 then n + 65 else if n < 52 then n + 71 else if n < 62 then n - 4
      else if n = 62 then 45 else 95)"

lemma ALPHABET_eq: "ALPHABET = map (\<lambda>n. char_of (symbol_code n)) [0..<64]"
  by code_simp

lemma ALPHABET_nth: "n < 64 \<Longrightarrow> ALPHABET ! n = char_of (symbol_code n)"
  by (simp add: ALPHABET_eq)

lemma symbol_code_less: "n < 64 \<Longrightarrow> symbol_code n < 128"
  by (auto simp: symbol_code_def)

lemma value_of_symbol_code: "n < 64 \<Longrightarrow> value_of (word_of_nat (symbol_code n)) = Some (word_of_nat n)"
  by (auto simp: value_of_def symbol_code_def word_le_nat_alt unat_of_nat word_unat_eq_iff
      unat_word_ariths)

lemma value_of_ALPHABET: "n < 64 \<Longrightarrow> value_of (u8_of (ALPHABET ! n)) = Some (word_of_nat n)"
  using symbol_code_less [of n]
  by (simp add: ALPHABET_nth u8_of_def value_of_symbol_code)

lemma value_of_SomeD: "value_of b = Some v \<Longrightarrow> unat v < 64 \<and> unat b = symbol_code (unat v)"
  by (auto simp: value_of_def symbol_code_def word_le_nat_alt unat_word_ariths unat_sub
      split: if_splits)

lemma ALPHABET_value_of:
  assumes "value_of (u8_of c) = Some v"
  shows "unat v < 64" "ALPHABET ! unat v = c"
  using value_of_SomeD [OF assms]
  by (simp_all add: ALPHABET_nth unat_u8_of) (metis char_of_char)

section \<open>Bits of a group\<close>

text \<open>The six-bit fields of a 24-bit value, and its bytes.\<close>

definition field :: "nat \<Rightarrow> 32 word \<Rightarrow> 32 word" where
  "field s t = drop_bit s t AND 63"

definition below24 :: "32 word \<Rightarrow> bool" where
  "below24 t = (\<forall>n \<ge> 24. \<not> bit t n)"

lemma mask_63: "(63 :: 32 word) = mask 6"
  by (simp add: mask_eq_exp_minus_1)

lemma mask_255: "(255 :: 32 word) = mask 8"
  by (simp add: mask_eq_exp_minus_1)

lemma bit_field: "bit (field s t) n \<longleftrightarrow> n < 6 \<and> bit t (s + n)"
  by (auto simp: field_def mask_63 bit_simps)

lemma unat_field_less: "unat (field s t) < 64"
proof -
  have "unat (drop_bit s t AND 63) \<le> unat (63 :: 32 word)"
    by (rule word_and_le1 [THEN word_le_nat_alt [THEN iffD1]])
  then show ?thesis by (simp add: field_def)
qed

lemma digit_field: "digit t s = ALPHABET ! unat (field s t)"
  by (simp add: digit_def field_def)

lemma ucast_field: "(ucast (ucast (field s t) :: u8) :: 32 word) = field s t"
  by (rule bit_word_eqI) (auto simp: bit_simps bit_field)

lemma value_of_digit: "value_of (u8_of (digit t s)) = Some (ucast (field s t))"
  using unat_field_less by (simp add: digit_field value_of_ALPHABET)

lemma bit_push_field:
  "n < 32 \<Longrightarrow> bit (push_bit s (field s t)) n \<longleftrightarrow> s \<le> n \<and> n < s + 6 \<and> bit t n"
  by (auto simp: bit_simps bit_field)

lemma fields4:
  assumes "below24 t"
  shows "push_bit 18 (field 18 t) OR push_bit 12 (field 12 t) OR push_bit 6 (field 6 t)
      OR push_bit 0 (field 0 t) = t"
proof (rule bit_word_eqI)
  fix n assume "n < LENGTH(32)"
  moreover have "bit t n \<Longrightarrow> n < 24"
    using assms by (auto simp: below24_def not_less [symmetric])
  ultimately show "bit (push_bit 18 (field 18 t) OR push_bit 12 (field 12 t)
      OR push_bit 6 (field 6 t) OR push_bit 0 (field 0 t)) n = bit t n"
    by (simp only: bit_or_iff bit_push_field len_num0 len_num1 len_bit0 len_bit1) auto
qed

lemma fields3:
  assumes "below24 t" and "\<And>n. bit t n \<Longrightarrow> 6 \<le> n"
  shows "push_bit 18 (field 18 t) OR push_bit 12 (field 12 t) OR push_bit 6 (field 6 t) = t"
proof -
  have "field 0 t = 0"
    using assms(2) by (intro bit_word_eqI) (auto simp: bit_field not_less [symmetric])
  with fields4 [OF assms(1)] show ?thesis by simp
qed

lemma fields2:
  assumes "below24 t" and "\<And>n. bit t n \<Longrightarrow> 12 \<le> n"
  shows "push_bit 18 (field 18 t) OR push_bit 12 (field 12 t) = t"
proof -
  have "field 6 t = 0"
    using assms(2) by (intro bit_word_eqI) (fastforce simp: bit_field)
  moreover have "6 \<le> n" if "bit t n" for n
    using assms(2) [OF that] by simp
  ultimately show ?thesis
    using fields3 [OF assms(1)] by simp
qed

text \<open>The three bytes packed into a group, and read back.\<close>

lemma bit_u8_less: "bit (w :: u8) n \<Longrightarrow> n < 8"
  using bit_imp_le_length [of w n] by simp

lemma bit_triple:
  "n < 32 \<Longrightarrow> bit (triple_of c) n \<longleftrightarrow>
     16 \<le> n \<and> bit (get_or 0 c 0) (n - 16) \<or> 8 \<le> n \<and> bit (get_or 0 c 1) (n - 8)
     \<or> bit (get_or 0 c 2) n"
  by (auto simp: triple_of_def bit_simps)

lemma below24_triple: "below24 (triple_of c)"
  unfolding below24_def
proof (intro allI impI notI)
  fix n assume "24 \<le> n" and b: "bit (triple_of c) n"
  moreover have "n < 32"
    using bit_imp_le_length [OF b] by simp
  ultimately show False
    by (auto simp: bit_triple dest!: bit_u8_less)
qed

definition byte_at :: "nat \<Rightarrow> 32 word \<Rightarrow> u8" where
  "byte_at s t = ucast (drop_bit s t AND 255)"

lemma bit_byte_at: "bit (byte_at s t) n \<longleftrightarrow> n < 8 \<and> bit t (s + n)"
  by (auto simp: byte_at_def mask_255 bit_simps dest: bit_imp_le_length)

lemma byte_at_triple:
  "byte_at 16 (triple_of c) = get_or 0 c 0"
  "byte_at 8 (triple_of c) = get_or 0 c 1"
  "byte_at 0 (triple_of c) = get_or 0 c 2"
  by (rule bit_word_eqI, force simp: bit_byte_at bit_triple dest: bit_u8_less)+

lemma triple_of_byte_at:
  assumes "below24 t"
  shows "triple_of [byte_at 16 t, byte_at 8 t, byte_at 0 t] = t"
    and "(\<And>m. bit t m \<Longrightarrow> 8 \<le> m) \<Longrightarrow> triple_of [byte_at 16 t, byte_at 8 t] = t"
    and "(\<And>m. bit t m \<Longrightarrow> 16 \<le> m) \<Longrightarrow> triple_of [byte_at 16 t] = t"
proof -
  have lt: "bit t m \<Longrightarrow> m < 24" for m
    using assms by (auto simp: below24_def not_less [symmetric])
  have cover: "n < 8 \<or> 8 \<le> n \<and> n < 16 \<or> 16 \<le> n \<and> n < 24 \<or> 24 \<le> n" for n :: nat
    by linarith
  have high: "24 \<le> m \<Longrightarrow> \<not> bit t m" for m
    using lt [of m] by auto
  show "triple_of [byte_at 16 t, byte_at 8 t, byte_at 0 t] = t"
  proof (rule bit_word_eqI)
    fix n assume "n < LENGTH(32)"
    then show "bit (triple_of [byte_at 16 t, byte_at 8 t, byte_at 0 t]) n = bit t n"
      using cover [of n] by (auto simp: bit_triple get_or_def bit_byte_at high)
  qed
  show "triple_of [byte_at 16 t, byte_at 8 t] = t" if low: "\<And>m. bit t m \<Longrightarrow> 8 \<le> m"
  proof (rule bit_word_eqI)
    fix n assume "n < LENGTH(32)"
    then show "bit (triple_of [byte_at 16 t, byte_at 8 t]) n = bit t n"
      using cover [of n] low [of n] by (auto simp: bit_triple get_or_def bit_byte_at high)
  qed
  show "triple_of [byte_at 16 t] = t" if low: "\<And>m. bit t m \<Longrightarrow> 16 \<le> m"
  proof (rule bit_word_eqI)
    fix n assume "n < LENGTH(32)"
    then show "bit (triple_of [byte_at 16 t]) n = bit t n"
      using cover [of n] low [of n] by (auto simp: bit_triple get_or_def bit_byte_at high)
  qed
qed

lemma low_mask: "n < 32 \<Longrightarrow> t AND (push_bit n 1 - 1) = 0 \<longleftrightarrow> (\<forall>m. bit t m \<longrightarrow> n \<le> m)"
  for t :: "32 word"
proof -
  assume "n < 32"
  have "push_bit n 1 - 1 = (mask n :: 32 word)"
    by (simp add: mask_eq_exp_minus_1)
  then have "t AND (push_bit n 1 - 1) = 0 \<longleftrightarrow> (\<forall>m < 32. bit t m \<longrightarrow> \<not> m < n)"
    by (simp only: bit_eq_iff possible_bit_word bit_and_iff bit_mask_iff) auto
  also have "\<dots> \<longleftrightarrow> (\<forall>m. bit t m \<longrightarrow> n \<le> m)"
    using \<open>n < 32\<close> by (meson le_less_linear less_trans not_less)
  finally show ?thesis .
qed

section \<open>One group\<close>

lemma pack_digits:
  "pack 0 (as_bytes [digit t 18, digit t 12]) 0
    = Some (push_bit 18 (field 18 t) OR push_bit 12 (field 12 t))"
  "pack 0 (as_bytes [digit t 18, digit t 12, digit t 6]) 0
    = Some (push_bit 18 (field 18 t) OR push_bit 12 (field 12 t) OR push_bit 6 (field 6 t))"
  "pack 0 (as_bytes [digit t 18, digit t 12, digit t 6, digit t 0]) 0
    = Some (push_bit 18 (field 18 t) OR push_bit 12 (field 12 t) OR push_bit 6 (field 6 t)
        OR push_bit 0 (field 0 t))"
  by (simp_all add: as_bytes_def value_of_digit ucast_field or.assoc)

lemma upt_small: "[0..<Suc 0] = [0]" "[0..<2] = [0, 1]" "[0..<3] = [0, 1, 2]"
  by (simp_all add: eval_nat_numeral)

lemma decode_group_pack:
  assumes "pack 0 g 0 = Some t"
  shows "length g = 2 \<Longrightarrow> decode_group g =
      (if \<forall>m. bit t m \<longrightarrow> 16 \<le> m then Some [byte_at 16 t] else None)"
    and "length g = 3 \<Longrightarrow> decode_group g =
      (if \<forall>m. bit t m \<longrightarrow> 8 \<le> m then Some [byte_at 16 t, byte_at 8 t] else None)"
    and "length g = 4 \<Longrightarrow> decode_group g = Some [byte_at 16 t, byte_at 8 t, byte_at 0 t]"
proof -
  assume l: "length g = 2"
  show "decode_group g = (if \<forall>m. bit t m \<longrightarrow> 16 \<le> m then Some [byte_at 16 t] else None)"
    unfolding low_mask [of 16 t, symmetric, simplified] decode_group_def Let_def byte_at_def
    by (simp add: assms l upt_small)
next
  assume l: "length g = 3"
  show "decode_group g =
      (if \<forall>m. bit t m \<longrightarrow> 8 \<le> m then Some [byte_at 16 t, byte_at 8 t] else None)"
    unfolding low_mask [of 8 t, symmetric, simplified] decode_group_def Let_def byte_at_def
    by (simp add: assms l upt_small)
next
  assume l: "length g = 4"
  show "decode_group g = Some [byte_at 16 t, byte_at 8 t, byte_at 0 t]"
    unfolding decode_group_def Let_def byte_at_def
    by (simp add: assms l upt_small)
qed

lemma encode_chunk_simps:
  "encode_chunk [x] = [digit (triple_of [x]) 18, digit (triple_of [x]) 12]"
  "encode_chunk [x, y] =
    [digit (triple_of [x, y]) 18, digit (triple_of [x, y]) 12, digit (triple_of [x, y]) 6]"
  "encode_chunk [x, y, z] = [digit (triple_of [x, y, z]) 18, digit (triple_of [x, y, z]) 12,
    digit (triple_of [x, y, z]) 6, digit (triple_of [x, y, z]) 0]"
  by (simp_all add: encode_chunk_def Let_def)

lemma chunk_cases:
  assumes "c \<noteq> []" and "length c \<le> 3"
  obtains x where "c = [x]" | x y where "c = [x, y]" | x y z where "c = [x, y, z]"
  using assms by (cases c; cases "tl c"; cases "tl (tl c)") auto

lemma decode_encode_chunk:
  assumes "c \<noteq> []" and "length c \<le> 3"
  shows "decode_group (as_bytes (encode_chunk c)) = Some c"
  using assms
proof (cases rule: chunk_cases)
  case (1 x)
  let ?t = "triple_of [x]"
  have low: "16 \<le> m" if "bit ?t m" for m
    using that by (auto simp: triple_of_def get_or_def bit_simps)
  have "12 \<le> m" if "bit ?t m" for m
    using low [OF that] by simp
  then have "pack 0 (as_bytes (encode_chunk [x])) 0 = Some ?t"
    by (simp only: encode_chunk_simps pack_digits fields2 [OF below24_triple])
  with low 1 show ?thesis
    by (simp add: decode_group_pack encode_chunk_simps byte_at_triple get_or_def)
next
  case (2 x y)
  let ?t = "triple_of [x, y]"
  have low: "8 \<le> m" if "bit ?t m" for m
    using that by (auto simp: triple_of_def get_or_def bit_simps)
  have "6 \<le> m" if "bit ?t m" for m
    using low [OF that] by simp
  then have "pack 0 (as_bytes (encode_chunk [x, y])) 0 = Some ?t"
    by (simp only: encode_chunk_simps pack_digits fields3 [OF below24_triple])
  with low 2 show ?thesis
    by (simp add: decode_group_pack encode_chunk_simps byte_at_triple get_or_def)
next
  case (3 x y z)
  then have "pack 0 (as_bytes (encode_chunk [x, y, z])) 0 = Some (triple_of [x, y, z])"
    by (simp only: encode_chunk_simps pack_digits fields4 [OF below24_triple])
  with 3 show ?thesis
    by (simp add: decode_group_pack encode_chunk_simps byte_at_triple get_or_def)
qed

lemma bit_value_of_less: "value_of b = Some v \<Longrightarrow> bit v n \<Longrightarrow> n < 6"
proof (rule ccontr)
  assume v: "value_of b = Some v" and "bit v n" and "\<not> n < 6"
  then have "bit (unat v) n"
    by (simp add: bit_unsigned_iff)
  then have "odd (unat v div 2 ^ n)"
    by (simp add: bit_iff_odd)
  moreover have "unat v < 2 ^ 6"
    using value_of_SomeD [OF v] by simp
  moreover have "(2 :: nat) ^ 6 \<le> 2 ^ n"
    using \<open>\<not> n < 6\<close> by (intro power_increasing) auto
  ultimately show False
    by (metis div_less even_zero less_le_trans)
qed

lemma bit_push_value:
  "value_of b = Some v \<Longrightarrow> n < 32 \<Longrightarrow>
   bit (push_bit s (ucast v) :: 32 word) n \<longleftrightarrow> s \<le> n \<and> n < s + 6 \<and> bit v (n - s)"
  by (auto simp: bit_simps dest: bit_value_of_less)

lemma digit_value:
  assumes "value_of b = Some v" and "field s t = ucast v"
  shows "u8_of (digit t s) = b"
proof -
  have "ALPHABET ! unat v = chr_of b"
    using assms(1) by (intro ALPHABET_value_of) simp
  moreover have "unat (ucast v :: 32 word) = unat v"
    using value_of_SomeD [OF assms(1)] by (simp add: unsigned_ucast_eq take_bit_nat_eq_self)
  ultimately show ?thesis
    using assms(2) by (simp add: digit_field)
qed

lemma field_eqI: "(\<And>n. n < 6 \<Longrightarrow> bit t (s + n) = bit v n) \<Longrightarrow> value_of b = Some v \<Longrightarrow> field s t = ucast v"
  by (rule bit_word_eqI) (auto simp: bit_field bit_simps dest: bit_value_of_less)

lemma pack_values:
  assumes v: "value_of b0 = Some v0" "value_of b1 = Some v1"
  shows "pack 0 [b0, b1] 0 = Some t \<Longrightarrow>
      below24 t \<and> u8_of (digit t 18) = b0 \<and> u8_of (digit t 12) = b1"
    and "value_of b2 = Some v2 \<Longrightarrow> pack 0 [b0, b1, b2] 0 = Some t \<Longrightarrow>
      below24 t \<and> u8_of (digit t 18) = b0 \<and> u8_of (digit t 12) = b1 \<and> u8_of (digit t 6) = b2"
    and "value_of b2 = Some v2 \<Longrightarrow> value_of b3 = Some v3 \<Longrightarrow> pack 0 [b0, b1, b2, b3] 0 = Some t \<Longrightarrow>
      below24 t \<and> u8_of (digit t 18) = b0 \<and> u8_of (digit t 12) = b1 \<and> u8_of (digit t 6) = b2
        \<and> u8_of (digit t 0) = b3"
proof -
  have bits: "bit (push_bit 18 (ucast v0) OR push_bit 12 (ucast v1) OR push_bit 6 (ucast w2)
      OR ucast w3 :: 32 word) n \<longleftrightarrow>
      18 \<le> n \<and> n < 24 \<and> bit v0 (n - 18) \<or> 12 \<le> n \<and> n < 18 \<and> bit v1 (n - 12)
      \<or> 6 \<le> n \<and> n < 12 \<and> bit w2 (n - 6) \<or> n < 6 \<and> bit w3 n"
    if "\<And>n. bit w2 n \<Longrightarrow> n < 6" "\<And>n. bit w3 n \<Longrightarrow> n < 6" for w2 w3 :: u8 and n
    using that by (fastforce simp: bit_simps dest: bit_value_of_less [OF v(1)]
        bit_value_of_less [OF v(2)])
  show "below24 t \<and> u8_of (digit t 18) = b0 \<and> u8_of (digit t 12) = b1"
    if "pack 0 [b0, b1] 0 = Some t"
  proof -
    have t: "bit t n \<longleftrightarrow> 18 \<le> n \<and> n < 24 \<and> bit v0 (n - 18) \<or> 12 \<le> n \<and> n < 18 \<and> bit v1 (n - 12)" for n
      using that v bits [of 0 0 n] by (auto simp: or.assoc)
    show ?thesis
      by (auto simp: below24_def t intro!: digit_value [OF v(1)] digit_value [OF v(2)]
          field_eqI [OF _ v(1)] field_eqI [OF _ v(2)])
  qed
  show "below24 t \<and> u8_of (digit t 18) = b0 \<and> u8_of (digit t 12) = b1 \<and> u8_of (digit t 6) = b2"
    if p: "pack 0 [b0, b1, b2] 0 = Some t" and v2: "value_of b2 = Some v2"
  proof -
    have t: "bit t n \<longleftrightarrow> 18 \<le> n \<and> n < 24 \<and> bit v0 (n - 18) \<or> 12 \<le> n \<and> n < 18 \<and> bit v1 (n - 12)
        \<or> 6 \<le> n \<and> n < 12 \<and> bit v2 (n - 6)" for n
      using p v v2 bits [of v2 0 n] bit_value_of_less [OF v2] by (auto simp: or.assoc)
    show ?thesis
      by (auto simp: below24_def t intro!: digit_value [OF v(1)] digit_value [OF v(2)]
          digit_value [OF v2] field_eqI [OF _ v(1)] field_eqI [OF _ v(2)] field_eqI [OF _ v2])
  qed
  show "below24 t \<and> u8_of (digit t 18) = b0 \<and> u8_of (digit t 12) = b1 \<and> u8_of (digit t 6) = b2
      \<and> u8_of (digit t 0) = b3"
    if p: "pack 0 [b0, b1, b2, b3] 0 = Some t"
      and v2: "value_of b2 = Some v2" and v3: "value_of b3 = Some v3"
  proof -
    have t: "bit t n \<longleftrightarrow> 18 \<le> n \<and> n < 24 \<and> bit v0 (n - 18) \<or> 12 \<le> n \<and> n < 18 \<and> bit v1 (n - 12)
        \<or> 6 \<le> n \<and> n < 12 \<and> bit v2 (n - 6) \<or> n < 6 \<and> bit v3 n" for n
      using p v v2 v3 bits [of v2 v3 n] bit_value_of_less [OF v2] bit_value_of_less [OF v3]
      by (simp add: or.assoc)
    show ?thesis
      by (auto simp: below24_def t intro!: digit_value [OF v(1)] digit_value [OF v(2)]
          digit_value [OF v2] digit_value [OF v3] field_eqI [OF _ v(1)] field_eqI [OF _ v(2)]
          field_eqI [OF _ v2] field_eqI [OF _ v3])
  qed
qed

lemma group_cases:
  assumes "2 \<le> length g" and "length g \<le> 4"
  obtains a b where "g = [a, b]" | a b c where "g = [a, b, c]" | a b c d where "g = [a, b, c, d]"
  using assms by (cases g; cases "tl g"; cases "tl (tl g)"; cases "tl (tl (tl g))") auto

lemma decode_group_pack_Some: "decode_group g = Some c \<Longrightarrow> \<exists>t. pack 0 g 0 = Some t"
  by (simp add: decode_group_def split: option.splits)

lemma encode_decode_group:
  assumes d: "decode_group g = Some c" and "2 \<le> length g" and "length g \<le> 4"
  shows "as_bytes (encode_chunk c) = g \<and> length c = length g - 1"
proof -
  obtain t where t: "pack 0 g 0 = Some t"
    using decode_group_pack_Some [OF d] by blast
  from assms(2,3) show ?thesis
  proof (cases rule: group_cases)
    case (1 a b)
    obtain u v where "value_of a = Some u" "value_of b = Some v"
      using t 1 by (auto split: option.splits)
    note p = pack_values(1) [OF this t [unfolded 1]]
    moreover have "c = [byte_at 16 t]" "triple_of c = t"
      using d 1 decode_group_pack(1) [OF t] triple_of_byte_at(3) [of t] p by (auto split: if_splits)
    ultimately show ?thesis
      using 1 by (simp add: encode_chunk_def as_bytes_def)
  next
    case (2 a b e)
    obtain u v w where "value_of a = Some u" "value_of b = Some v" "value_of e = Some w"
      using t 2 by (auto split: option.splits)
    note p = pack_values(2) [OF this t [unfolded 2]]
    moreover have "c = [byte_at 16 t, byte_at 8 t]" "triple_of c = t"
      using d 2 decode_group_pack(2) [OF t] triple_of_byte_at(2) [of t] p by (auto split: if_splits)
    ultimately show ?thesis
      using 2 by (simp add: encode_chunk_def as_bytes_def)
  next
    case (3 a b e f)
    obtain u v w x where "value_of a = Some u" "value_of b = Some v" "value_of e = Some w"
        "value_of f = Some x"
      using t 3 by (auto split: option.splits)
    note p = pack_values(3) [OF this t [unfolded 3]]
    moreover have "c = [byte_at 16 t, byte_at 8 t, byte_at 0 t]" "triple_of c = t"
      using d 3 decode_group_pack(3) [OF t] triple_of_byte_at(1) [of t] p by auto
    ultimately show ?thesis
      using 3 by (simp add: encode_chunk_def as_bytes_def)
  qed
qed

section \<open>The whole string\<close>

lemma encode_short: "b \<noteq> [] \<Longrightarrow> length b \<le> 3 \<Longrightarrow> encode b = encode_chunk b"
  by (simp add: encode_def chunks_short)

lemma encode_append: "length c = 3 \<Longrightarrow> encode (c @ b) = encode_chunk c @ encode b"
  by (simp add: encode_def chunks_append)

lemma length_encode_chunk:
  "c \<noteq> [] \<Longrightarrow> length c \<le> 3 \<Longrightarrow> length (encode_chunk c) = length c + 1"
  by (erule (1) chunk_cases) (simp_all add: encode_chunk_simps)

lemma decode_encode_aux:
  "decode_groups (chunks 4 (as_bytes (encode b))) = Some b \<and> length (encode b) mod 4 \<noteq> 1"
proof (induction b rule: length_induct)
  case (1 b)
  consider "b = []" | "b \<noteq> []" "length b \<le> 3" | "3 < length b"
    by linarith
  then show ?case
  proof cases
    case 1
    then show ?thesis by (simp add: encode_def as_bytes_def)
  next
    case 2
    let ?g = "as_bytes (encode_chunk b)"
    have "length ?g = length b + 1"
      using 2 by (simp add: length_encode_chunk)
    moreover have "length b \<in> {1, 2, 3}"
      using 2 by (cases rule: chunk_cases) auto
    ultimately have "length ?g \<in> {2, 3, 4}"
      by auto
    then have "chunks 4 ?g = [?g]" "length ?g mod 4 \<noteq> 1"
      by (auto intro!: chunks_short)
    with 2 show ?thesis by (simp add: encode_short decode_encode_chunk)
  next
    case 3
    let ?c = "take 3 b" and ?r = "drop 3 b"
    have e: "encode b = encode_chunk ?c @ encode ?r"
      using encode_append [of ?c ?r] 3 by simp
    have c: "?c \<noteq> []" "length ?c \<le> 3" "length ?c = 3"
      using 3 by auto
    then have l: "length (encode_chunk ?c) = 4"
      using length_encode_chunk [of ?c] by simp
    have "decode_groups (chunks 4 (as_bytes (encode ?r))) = Some ?r \<and> length (encode ?r) mod 4 \<noteq> 1"
      using 1 3 by simp
    with l decode_encode_chunk [OF c(1,2)] show ?thesis
      by (simp add: e chunks_append)
  qed
qed

lemma encode_decode_aux:
  "decode_groups (chunks 4 input) = Some b \<Longrightarrow> length input mod 4 \<noteq> 1 \<Longrightarrow>
   as_bytes (encode b) = input"
proof (induction input arbitrary: b rule: length_induct)
  case (1 input)
  consider "input = []" | "input \<noteq> []" "length input \<le> 4" | "4 < length input"
    by linarith
  then show ?case
  proof cases
    case 1
    with "1.prems" show ?thesis by (simp add: encode_def as_bytes_def)
  next
    case 2
    then have l: "2 \<le> length input"
      using "1.prems"(2) by (cases input; cases "tl input") auto
    have "decode_group input = Some b"
      using 2 "1.prems"(1) by (simp add: chunks_short split: option.splits)
    from encode_decode_group [OF this l 2(2)] 2 l show ?thesis
      by (subst encode_short) auto
  next
    case 3
    let ?g = "take 4 input" and ?r = "drop 4 input"
    have "chunks 4 input = ?g # chunks 4 ?r"
      using 3 chunks_append [of ?g 4 ?r] by simp
    with "1.prems"(1) obtain c b' where c: "decode_group ?g = Some c"
      and b': "decode_groups (chunks 4 ?r) = Some b'" and b: "b = c @ b'"
      by (auto split: option.splits)
    have g: "as_bytes (encode_chunk c) = ?g" "length c = 3"
      using encode_decode_group [OF c] 3 by auto
    have "length ?r mod 4 \<noteq> 1"
      using 3 "1.prems"(2) by (simp add: mod_if [of "length input"] le_mod_geq)
    then have "as_bytes (encode b') = ?r"
      using "1.IH" b' 3 by simp
    with g show ?thesis
      by (simp add: b encode_append)
  qed
qed

interpretation b64: canonical_codec encode decode
proof unfold_locales
  fix b show "decode (encode b) = Some b"
    using decode_encode_aux [of b] by (simp add: decode_def)
next
  fix t b assume "decode t = Some b"
  then have "as_bytes (encode b) = as_bytes t"
    by (intro encode_decode_aux) (auto simp: decode_def Let_def split: if_splits)
  then show "encode b = t" by simp
qed

lemma set_encode_chunk: "set (encode_chunk c) \<subseteq> set ALPHABET"
proof -
  have "digit t s \<in> set ALPHABET" for t s
    using unat_field_less [of s t] nth_mem [of "unat (field s t)" ALPHABET]
    by (simp add: digit_field ALPHABET_eq)
  then show ?thesis by (auto simp: encode_chunk_def Let_def)
qed

lemma set_encode: "set (encode b) \<subseteq> set ALPHABET"
  using set_encode_chunk by (auto simp: encode_def)

lemma encode_avoids: "c \<notin> set ALPHABET \<Longrightarrow> c \<notin> set (encode b)"
  using set_encode by blast

lemma sep_not_ALPHABET: "CHR ''.'' \<notin> set ALPHABET" "CHR ''='' \<notin> set ALPHABET"
  "CHR ''&'' \<notin> set ALPHABET" "CHR ''#'' \<notin> set ALPHABET" "CHR ''%'' \<notin> set ALPHABET"
  by (simp_all add: ALPHABET_def)

section \<open>Properties\<close>

text \<open>
  C2.  The decoder accepts exactly the strings the encoder produces: \<^verbatim>\<open>decode\<close> returns \<open>b\<close> on a
  text if and only if the text is \<^verbatim>\<open>encode\<close> of \<open>b\<close>.  So every byte string round-trips, and
  no byte string has a second spelling (padding, a foreign character, an impossible length and
  non-zero trailing bits are all refused).
\<close>

theorem decode_iff_encode: "decode t = Some b \<longleftrightarrow> t = encode b"
  by (rule b64.dec_eq_Some_iff)

end
