(* ===== verification/Hex.thy ===== *)
theory Hex
  imports Codec
begin

text \<open>
  Hexadecimal as the program writes it: \<^verbatim>\<open>hex_encode\<close>, \<^verbatim>\<open>hex_decode\<close> and \<^verbatim>\<open>nibble\<close> of
  \<^verbatim>\<open>src/tokens/token.rs\<close>, the \<^verbatim>\<open>hex_digit\<close> of \<^verbatim>\<open>src/crypt/key.rs\<close> (the same table) and the
  lowercase-only \<^verbatim>\<open>hex\<close> and \<^verbatim>\<open>hex_byte\<close> of \<^verbatim>\<open>src/observe/trace_context.rs\<close>.
\<close>

section \<open>The code\<close>

definition HEX :: string where
  "HEX = ''0123456789abcdef''"

definition hex_pair :: "u8 \<Rightarrow> string" where
  "hex_pair byte = [HEX ! unat (drop_bit 4 byte), HEX ! unat (byte AND 15)]"

definition hex_encode :: "bytes \<Rightarrow> string" where
  "hex_encode bytes = concat (map hex_pair bytes)"

definition nibble :: "u8 \<Rightarrow> u8 option" where
  "nibble byte =
     (if 48 \<le> byte \<and> byte \<le> 57 then Some (byte - 48)
      else if 97 \<le> byte \<and> byte \<le> 102 then Some (byte - 97 + 10)
      else if 65 \<le> byte \<and> byte \<le> 70 then Some (byte - 65 + 10)
      else None)"

definition nibble_lower :: "u8 \<Rightarrow> u8 option" where
  "nibble_lower b =
     (if 48 \<le> b \<and> b \<le> 57 then Some (b - 48)
      else if 97 \<le> b \<and> b \<le> 102 then Some (b - 97 + 10)
      else None)"

text \<open>One pair, under either digit table: \<^verbatim>\<open>(high << 4) | low\<close>.\<close>

definition unpair :: "(u8 \<Rightarrow> u8 option) \<Rightarrow> bytes \<Rightarrow> u8 option" where
  "unpair dig pair =
     (if length pair < 2 then None
      else case (dig (pair ! 0), dig (pair ! 1)) of
             (Some high, Some low) \<Rightarrow> Some (push_bit 4 high OR low)
           | _ \<Rightarrow> None)"

fun unpairs :: "(u8 \<Rightarrow> u8 option) \<Rightarrow> bytes list \<Rightarrow> bytes option" where
  "unpairs dig [] = Some []"
| "unpairs dig (p # ps) =
     (case unpair dig p of None \<Rightarrow> None | Some b \<Rightarrow> map_option ((#) b) (unpairs dig ps))"

text \<open>\<^verbatim>\<open>hex_decode\<close> fills a slice of \<open>n\<close> bytes: \<open>None\<close> where it returns \<^verbatim>\<open>false\<close>.\<close>

definition hex_decode :: "nat \<Rightarrow> string \<Rightarrow> bytes option" where
  "hex_decode n text =
     (let bytes = as_bytes text
      in if length bytes \<noteq> 2 * n then None else unpairs nibble (chunks 2 bytes))"

section \<open>Digits\<close>

definition hex_code :: "nat \<Rightarrow> nat" where
  "hex_code n = (if n < 10 then n + 48 else n + 87)"

lemma HEX_eq: "HEX = map (\<lambda>n. char_of (hex_code n)) [0..<16]"
  by code_simp

lemma length_HEX: "length HEX = 16"
  by (simp add: HEX_eq)

lemma HEX_nth: "n < 16 \<Longrightarrow> u8_of (HEX ! n) = word_of_nat (hex_code n)"
  by (simp add: HEX_eq u8_of_def hex_code_def)

lemma nibble_hex_code:
  "n < 16 \<Longrightarrow> nibble (word_of_nat (hex_code n)) = Some (word_of_nat n)"
  "n < 16 \<Longrightarrow> nibble_lower (word_of_nat (hex_code n)) = Some (word_of_nat n)"
  by (auto simp: nibble_def nibble_lower_def hex_code_def word_le_nat_alt unat_of_nat
      word_unat_eq_iff unat_word_ariths)

lemma nibble_HEX:
  "n < 16 \<Longrightarrow> nibble (u8_of (HEX ! n)) = Some (word_of_nat n)"
  "n < 16 \<Longrightarrow> nibble_lower (u8_of (HEX ! n)) = Some (word_of_nat n)"
  by (simp_all add: HEX_nth nibble_hex_code)

lemma nibble_less: "nibble b = Some v \<Longrightarrow> unat v < 16"
  by (auto simp: nibble_def word_le_nat_alt unat_word_ariths unat_sub split: if_splits)

lemma nibble_lower_SomeD: "nibble_lower b = Some v \<Longrightarrow> unat v < 16 \<and> unat b = hex_code (unat v)"
  by (auto simp: nibble_lower_def hex_code_def word_le_nat_alt unat_word_ariths unat_sub
      split: if_splits)

lemma nibble_lower_HEX:
  assumes "nibble_lower (u8_of c) = Some v" shows "HEX ! unat v = c"
proof -
  have "unat v < 16" "of_char c = hex_code (unat v)"
    using nibble_lower_SomeD [OF assms] by (simp_all add: unat_u8_of)
  then show ?thesis
    by (simp add: HEX_eq) (metis char_of_char)
qed

lemma nibble_eq_lower:
  "nibble_lower b = Some v \<Longrightarrow> nibble b = Some v"
  by (auto simp: nibble_def nibble_lower_def split: if_splits)

section \<open>Pairs\<close>

lemma mask_15: "(15 :: u8) = mask 4"
  by (simp add: mask_eq_exp_minus_1)

lemma high_less: "unat (drop_bit 4 (b :: u8)) < 16"
proof -
  have "unat b < 2 ^ LENGTH(8)"
    by (rule unsigned_less)
  then have "unat b div 2 ^ 4 < 16"
    by (simp add: less_mult_imp_div_less)
  then show ?thesis
    by (simp only: drop_bit_eq_div unat_div_distrib) simp
qed

lemma low_less: "unat (b AND 15 :: u8) < 16"
proof -
  have "unat (b AND 15) \<le> unat (15 :: u8)"
    by (rule word_and_le1 [THEN word_le_nat_alt [THEN iffD1]])
  then show ?thesis by simp
qed

lemma byte_split: "push_bit 4 (drop_bit 4 b) OR (b AND 15) = (b :: u8)"
  by (rule bit_word_eqI) (auto simp: mask_15 bit_simps)

lemma bit_nibble_less: "unat (v :: u8) < 16 \<Longrightarrow> bit v n \<Longrightarrow> n < 4"
proof (rule ccontr)
  assume v: "unat v < 16" and "bit v n" and "\<not> n < 4"
  then have "odd (unat v div 2 ^ n)"
    by (simp add: bit_unsigned_iff flip: bit_iff_odd)
  moreover have "(2 :: nat) ^ 4 \<le> 2 ^ n"
    using \<open>\<not> n < 4\<close> by (intro power_increasing) auto
  ultimately show False
    using v by simp
qed

lemma byte_join:
  assumes "unat (h :: u8) < 16" and "unat (l :: u8) < 16"
  shows "drop_bit 4 (push_bit 4 h OR l) = h" "(push_bit 4 h OR l) AND 15 = l"
proof -
  note less = bit_nibble_less [OF assms(1)] bit_nibble_less [OF assms(2)]
  have "\<not> bit l (4 + n)" for n
    using less(2) [of "4 + n"] by auto
  then show "drop_bit 4 (push_bit 4 h OR l) = h"
    using less(1) by (intro bit_word_eqI) (auto simp: bit_simps)
  show "(push_bit 4 h OR l) AND 15 = l"
    using less(2) by (intro bit_word_eqI) (auto simp: mask_15 bit_simps)
qed

lemma unpair_hex_pair:
  "unpair nibble (as_bytes (hex_pair b)) = Some b"
  "unpair nibble_lower (as_bytes (hex_pair b)) = Some b"
  by (simp_all add: unpair_def hex_pair_def nibble_HEX high_less low_less byte_split)

lemma hex_pair_unpair_lower:
  assumes "unpair nibble_lower p = Some b" and "length p = 2"
  shows "as_bytes (hex_pair b) = p"
proof -
  obtain x y where p: "p = [x, y]"
    using assms(2) by (auto simp: length_Suc_conv numeral_2_eq_2)
  then obtain h l where hl: "nibble_lower x = Some h" "nibble_lower y = Some l"
    and b: "b = push_bit 4 h OR l"
    using assms(1) by (auto simp: unpair_def split: option.splits)
  have "HEX ! unat h = chr_of x" "HEX ! unat l = chr_of y"
    using hl by (auto intro: nibble_lower_HEX)
  moreover have "drop_bit 4 b = h" "b AND 15 = l"
    unfolding b using hl [THEN nibble_lower_SomeD] by (intro byte_join; simp)+
  ultimately show ?thesis
    by (simp only: hex_pair_def p as_bytes_Nil_Cons u8_of_chr_of)
qed

lemma length_hex_pair [simp]: "length (hex_pair b) = 2"
  by (simp add: hex_pair_def)

lemma length_hex_encode [simp]: "length (hex_encode b) = 2 * length b"
  by (induction b) (simp_all add: hex_encode_def)

lemma hex_encode_Nil_Cons [simp]:
  "hex_encode [] = []" "hex_encode (x # b) = hex_pair x @ hex_encode b"
  by (simp_all add: hex_encode_def)

lemma chunks_hex_encode:
  "chunks 2 (as_bytes (hex_encode b)) = map (\<lambda>x. as_bytes (hex_pair x)) b"
  by (induction b) (simp_all add: chunks_append)

lemma unpairs_hex_encode:
  "unpairs nibble (chunks 2 (as_bytes (hex_encode b))) = Some b"
  "unpairs nibble_lower (chunks 2 (as_bytes (hex_encode b))) = Some b"
  by (induction b) (simp_all add: chunks_append unpair_hex_pair)

lemma hex_decode_encode: "hex_decode (length b) (hex_encode b) = Some b"
  by (simp add: hex_decode_def unpairs_hex_encode)

lemma length_unpairs: "unpairs dig ps = Some b \<Longrightarrow> length b = length ps"
  by (induction ps arbitrary: b) (auto split: option.splits)

lemma length_chunks_2: "even (length xs) \<Longrightarrow> length (chunks 2 xs) = length xs div 2"
proof (induction xs rule: length_induct)
  case (1 xs)
  show ?case
  proof (cases xs)
    case Nil
    then show ?thesis by simp
  next
    case (Cons x ys)
    with 1(2) obtain y zs where "xs = [x, y] @ zs"
      by (cases ys) auto
    with 1 show ?thesis
      by (simp add: chunks_append [of "[x, y]" 2, simplified])
  qed
qed

lemma set_hex_encode: "c \<in> set (hex_encode b) \<Longrightarrow> c \<in> set HEX"
proof (induction b)
  case (Cons x b)
  have "HEX ! unat (drop_bit 4 x) \<in> set HEX" "HEX ! unat (x AND 15) \<in> set HEX"
    using high_less [of x] low_less [of x] by (simp_all only: nth_mem length_HEX)
  with Cons show ?case by (auto simp: hex_pair_def)
qed simp

section \<open>The inputs the decoder accepts\<close>

lemma of_char_hex_code: "k < 16 \<Longrightarrow> of_char (char_of (hex_code k) :: char) = hex_code k"
  by (simp add: hex_code_def)

lemma ascii_lower_code:
  assumes "k < 16"
  shows "ascii_lower c = char_of (hex_code k) \<longleftrightarrow>
   (of_char c :: nat) = hex_code k \<or> 10 \<le> k \<and> (of_char c :: nat) + 32 = hex_code k"
proof -
  have "ascii_lower c = char_of (hex_code k) \<longleftrightarrow> (of_char (ascii_lower c) :: nat) = hex_code k"
    using of_char_hex_code [OF assms] by (metis char_of_char)
  then show ?thesis
    using assms by (auto simp: ascii_lower_def hex_code_def Let_def)
qed

lemma nibble_iff: "nibble (u8_of c) = Some v \<longleftrightarrow> unat v < 16 \<and> ascii_lower c = HEX ! unat v"
proof
  assume n: "nibble (u8_of c) = Some v"
  moreover have "(of_char c :: nat) = hex_code (unat v) \<or> 10 \<le> unat v \<and> (of_char c :: nat) + 32 = hex_code (unat v)"
    using n by (auto simp: nibble_def hex_code_def word_le_nat_alt unat_word_ariths unat_sub unat_u8_of
      split: if_splits)
  ultimately show "unat v < 16 \<and> ascii_lower c = HEX ! unat v"
    using nibble_less [OF n] by (simp add: HEX_eq ascii_lower_code)
next
  assume v: "unat v < 16 \<and> ascii_lower c = HEX ! unat v"
  then have "(of_char c :: nat) = hex_code (unat v) \<or> 10 \<le> unat v \<and> (of_char c :: nat) + 32 = hex_code (unat v)"
    by (auto simp: HEX_eq ascii_lower_code)
  with v show "nibble (u8_of c) = Some v"
    by (auto simp: nibble_def hex_code_def word_le_nat_alt unat_u8_of word_unat_eq_iff unat_word_ariths unat_sub
      split: if_splits)
qed

lemma unpair_iff:
  "unpair nibble [u8_of c, u8_of d] = Some b \<longleftrightarrow> [ascii_lower c, ascii_lower d] = hex_pair b"
proof
  assume "unpair nibble [u8_of c, u8_of d] = Some b"
  then obtain h l where hl: "nibble (u8_of c) = Some h" "nibble (u8_of d) = Some l"
    and b: "b = push_bit 4 h OR l"
    by (auto simp: unpair_def split: option.splits)
  moreover have "drop_bit 4 b = h" "b AND 15 = l"
    unfolding b using hl by (intro byte_join; simp add: nibble_iff)+
  ultimately show "[ascii_lower c, ascii_lower d] = hex_pair b"
    by (simp only: hex_pair_def nibble_iff)
next
  assume "[ascii_lower c, ascii_lower d] = hex_pair b"
  then have "nibble (u8_of c) = Some (drop_bit 4 b)" "nibble (u8_of d) = Some (b AND 15)"
    by (simp_all only: nibble_iff hex_pair_def list.inject high_less low_less)
  then show "unpair nibble [u8_of c, u8_of d] = Some b"
    by (simp only: unpair_def) (simp add: byte_split)
qed

lemma unpairs_iff:
  "even (length s) \<Longrightarrow>
   unpairs nibble (chunks 2 (as_bytes s)) = Some b \<longleftrightarrow> to_ascii_lowercase s = hex_encode b"
proof (induction s arbitrary: b rule: induct_list012)
  case 1
  show ?case by (cases b) (auto simp: to_ascii_lowercase_def hex_pair_def)
next
  case (2 x)
  then show ?case by simp
next
  case (3 c d s)
  have ch: "chunks 2 (u8_of c # u8_of d # as_bytes s) = [u8_of c, u8_of d] # chunks 2 (as_bytes s)"
    using chunks_append [of "[u8_of c, u8_of d]" 2] by simp
  show ?case
  proof (cases b)
    case Nil
    then show ?thesis by (simp add: ch to_ascii_lowercase_def split: option.splits)
  next
    case (Cons x bs)
    have "to_ascii_lowercase (c # d # s) = hex_encode (x # bs) \<longleftrightarrow>
        [ascii_lower c, ascii_lower d] = hex_pair x \<and> to_ascii_lowercase s = hex_encode bs"
      by (auto simp: to_ascii_lowercase_def hex_pair_def)
    also have "\<dots> \<longleftrightarrow> unpair nibble [u8_of c, u8_of d] = Some x
        \<and> unpairs nibble (chunks 2 (as_bytes s)) = Some bs"
      using 3 by (simp add: unpair_iff)
    also have "\<dots> \<longleftrightarrow> unpairs nibble (chunks 2 (as_bytes (c # d # s))) = Some (x # bs)"
      by (auto simp: ch split: option.splits)
    finally show ?thesis by (simp only: Cons)
  qed
qed

lemma hex_decode_iff:
  "hex_decode n s = Some b \<longleftrightarrow> length b = n \<and> to_ascii_lowercase s = hex_encode b"
proof -
  have "to_ascii_lowercase s = hex_encode b \<Longrightarrow> length s = 2 * length b"
    by (metis length_hex_encode length_to_ascii_lowercase)
  then show ?thesis
    by (auto simp: hex_decode_def Let_def unpairs_iff)
qed

end
