(* ===== verification/Crypt.thy ===== *)
theory Crypt
  imports Base64url Hex
begin

text \<open>
  The master key of \<^verbatim>\<open>src/crypt/key.rs\<close> and the authenticated encryption of
  \<^verbatim>\<open>src/crypt/encrypter.rs\<close>.

  HMAC-SHA256, XChaCha20-Poly1305 and the operating system's random generator are packages the
  source calls, so they are arguments here: \<open>hmac\<close> (key, then message), \<open>seal\<close> and \<open>unseal\<close>
  (key, nonce, associated data, text; \<open>None\<close> is the package's error), and the nonce the generator
  delivered, \<open>None\<close> when it failed.  \<open>aead_contract\<close> and \<open>hmac_32\<close> are what the packages document.
\<close>

section \<open>The code: the master key\<close>

datatype AppKeyError = Empty | NotHexadecimal | WrongLength

record AppKey =
  inner :: bytes

definition KEY_BYTES :: nat where
  "KEY_BYTES = 64"

definition DERIVATION_DOMAIN :: bytes where
  "DERIVATION_DOMAIN = as_bytes ''arcature/kdf/v1''"

definition ENCRYPTER_LABEL :: bytes where
  "ENCRYPTER_LABEL = as_bytes ''encrypter''"

definition URL_SIGNER_LABEL :: bytes where
  "URL_SIGNER_LABEL = as_bytes ''url-signer''"

definition hex_digit :: "u8 \<Rightarrow> u8 option" where
  "hex_digit byte =
     (if 48 \<le> byte \<and> byte \<le> 57 then Some (byte - 48)
      else if 97 \<le> byte \<and> byte \<le> 102 then Some (byte - 97 + 10)
      else if 65 \<le> byte \<and> byte \<le> 70 then Some (byte - 65 + 10)
      else None)"

definition from_bytes :: "bytes \<Rightarrow> (AppKeyError, AppKey) result" where
  "from_bytes bytes =
     (if length bytes \<noteq> KEY_BYTES then Err WrongLength else Ok \<lparr>inner = bytes\<rparr>)"

definition from_hex :: "string \<Rightarrow> (AppKeyError, AppKey) result" where
  "from_hex text =
     (let hex = trim text
      in if hex = [] then Err Empty
         else if length hex mod 2 \<noteq> 0 then Err NotHexadecimal
         else rbind (ok_or (unpairs hex_digit (chunks 2 (as_bytes hex))) NotHexadecimal) from_bytes)"

definition kdf_input :: "bytes \<Rightarrow> bytes" where
  "kdf_input label = DERIVATION_DOMAIN @ be64 (length label) @ label"

definition subkey :: "(bytes \<Rightarrow> bytes \<Rightarrow> bytes) \<Rightarrow> AppKey \<Rightarrow> bytes \<Rightarrow> bytes" where
  "subkey hmac key label = hmac (inner key) (kdf_input label)"

section \<open>The code: the encrypter\<close>

datatype EncryptError = Rng | Oversized

datatype DecryptError = UnknownVersion | Malformed | Authentication | NotUtf8

type_synonym seal = "bytes \<Rightarrow> bytes \<Rightarrow> bytes \<Rightarrow> bytes \<Rightarrow> bytes option"

record Encrypter =
  cipher :: bytes

definition VERSION :: string where
  "VERSION = ''v1''"

definition NONCE_BYTES :: nat where
  "NONCE_BYTES = 24"

definition TAG_BYTES :: nat where
  "TAG_BYTES = 16"

definition ASSOCIATED_DATA :: bytes where
  "ASSOCIATED_DATA = as_bytes ''arcature/crypt/v1''"

definition encrypter_new :: "(bytes \<Rightarrow> bytes \<Rightarrow> bytes) \<Rightarrow> AppKey \<Rightarrow> Encrypter" where
  "encrypter_new hmac key = \<lparr>cipher = subkey hmac key ENCRYPTER_LABEL\<rparr>"

definition encrypt :: "seal \<Rightarrow> Encrypter \<Rightarrow> bytes option \<Rightarrow> bytes \<Rightarrow> (EncryptError, string) result" where
  "encrypt seal self random plaintext =
     rbind (ok_or random Rng) (\<lambda>nonce.
     rbind (ok_or (seal (cipher self) nonce ASSOCIATED_DATA plaintext) Oversized) (\<lambda>sealed.
     Ok (VERSION @ ''.'' @ encode (nonce @ sealed))))"

definition encrypt_string :: "seal \<Rightarrow> Encrypter \<Rightarrow> bytes option \<Rightarrow> string \<Rightarrow>
    (EncryptError, string) result" where
  "encrypt_string seal self random plaintext = encrypt seal self random (as_bytes plaintext)"

definition decrypt :: "seal \<Rightarrow> Encrypter \<Rightarrow> string \<Rightarrow> (DecryptError, bytes) result" where
  "decrypt unseal self token =
     rbind (ok_or (Option.bind (strip_prefix VERSION token) (strip_prefix ''.'')) UnknownVersion)
       (\<lambda>body.
     rbind (ok_or (decode body) Malformed) (\<lambda>raw.
     if length raw < NONCE_BYTES + TAG_BYTES then Err Malformed
     else ok_or (unseal (cipher self) (take NONCE_BYTES raw) ASSOCIATED_DATA (drop NONCE_BYTES raw))
            Authentication))"

definition decrypt_string :: "seal \<Rightarrow> Encrypter \<Rightarrow> string \<Rightarrow> (DecryptError, string) result" where
  "decrypt_string unseal self token =
     rbind (decrypt unseal self token) (\<lambda>bytes. ok_or (from_utf8 bytes) NotUtf8)"

section \<open>What the packages document\<close>

definition hmac_32 :: "(bytes \<Rightarrow> bytes \<Rightarrow> bytes) \<Rightarrow> bool" where
  "hmac_32 hmac = (\<forall>key message. length (hmac key message) = 32)"

text \<open>
  XChaCha20-Poly1305 under a 32-byte key and a 24-byte nonce: what was sealed opens to the message,
  the box is the message and a 16-byte tag, and the tag is recomputed on opening, so the only box
  that opens to a message is the one sealing it makes.
\<close>

definition aead_contract :: "seal \<Rightarrow> seal \<Rightarrow> bool" where
  "aead_contract seal unseal =
     (\<forall>key nonce aad message box. length key = 32 \<longrightarrow> length nonce = 24 \<longrightarrow>
        (seal key nonce aad message = Some box \<longleftrightarrow> unseal key nonce aad box = Some message)
        \<and> (seal key nonce aad message = Some box \<longrightarrow> length box = length message + 16))"

section \<open>Lemmas\<close>

lemma hex_digit_eq_nibble: "hex_digit = nibble"
  by (rule ext) (simp add: hex_digit_def nibble_def)

lemma kdf_input_inject:
  assumes "length a < 2 ^ 64" and "length b < 2 ^ 64" and "kdf_input a = kdf_input b"
  shows "a = b"
  using assms by (simp add: kdf_input_def)

lemma length_kdf_inputs: "length (kdf_input label) = 23 + length label"
  by (simp add: kdf_input_def DERIVATION_DOMAIN_def)

lemma from_bytes_eq_Ok_iff: "from_bytes b = Ok k \<longleftrightarrow> length b = 64 \<and> k = \<lparr>inner = b\<rparr>"
  by (auto simp: from_bytes_def KEY_BYTES_def)

lemma version_prefix:
  "Option.bind (strip_prefix VERSION token) (strip_prefix ''.'') = Some body \<longleftrightarrow>
   token = VERSION @ ''.'' @ body"
  by (auto simp: bind_eq_Some_iff strip_prefix_eq_Some_iff)

lemma decrypt_eq_Ok_iff:
  "decrypt unseal e token = Ok plaintext \<longleftrightarrow>
   (\<exists>nonce box. length nonce = 24 \<and> 16 \<le> length box \<and> token = VERSION @ ''.'' @ encode (nonce @ box)
      \<and> unseal (cipher e) nonce ASSOCIATED_DATA box = Some plaintext)"
  (is "_ \<longleftrightarrow> (\<exists>nonce box. ?P nonce box)")
proof
  assume "decrypt unseal e token = Ok plaintext"
  then obtain raw where t: "token = VERSION @ ''.'' @ encode raw" and "40 \<le> length raw"
    and u: "unseal (cipher e) (take 24 raw) ASSOCIATED_DATA (drop 24 raw) = Some plaintext"
    by (auto simp: decrypt_def rbind_eq_Ok_iff version_prefix b64.dec_eq_Some_iff NONCE_BYTES_def
        TAG_BYTES_def not_less split: if_splits)
  then have "?P (take 24 raw) (drop 24 raw)"
    by simp
  then show "\<exists>nonce box. ?P nonce box"
    by blast
next
  assume "\<exists>nonce box. ?P nonce box"
  then obtain nonce box where p: "?P nonce box"
    by blast
  then have "Option.bind (strip_prefix VERSION token) (strip_prefix ''.'') = Some (encode (nonce @ box))"
    by (simp only: version_prefix)
  with p show "decrypt unseal e token = Ok plaintext"
    by (simp add: decrypt_def b64.dec_enc NONCE_BYTES_def TAG_BYTES_def)
qed

lemma encrypt_eq_Ok_iff:
  "encrypt seal e (Some nonce) plaintext = Ok token \<longleftrightarrow>
   (\<exists>box. seal (cipher e) nonce ASSOCIATED_DATA plaintext = Some box
      \<and> token = VERSION @ ''.'' @ encode (nonce @ box))"
  by (auto simp: encrypt_def rbind_eq_Ok_iff)

lemma length_encrypter_key: "hmac_32 hmac \<Longrightarrow> length (cipher (encrypter_new hmac key)) = 32"
  by (simp add: encrypter_new_def subkey_def hmac_32_def)

section \<open>Properties\<close>

text \<open>
  \<^verbatim>\<open>AppKey::from_hex\<close> accepts exactly the 128-digit hexadecimal spellings, in either case
  and with white space around them, and the key it returns is the 64 bytes they spell.
\<close>

theorem from_hex_accepts:
  "from_hex text = Ok key \<longleftrightarrow>
   length (inner key) = 64 \<and> to_ascii_lowercase (trim text) = hex_encode (inner key)"
proof -
  have *: "length (trim text) = 2 * length b" if "to_ascii_lowercase (trim text) = hex_encode b" for b
    using that by (metis length_hex_encode length_to_ascii_lowercase)
  show ?thesis
  proof
    assume "from_hex text = Ok key"
    then show "length (inner key) = 64 \<and> to_ascii_lowercase (trim text) = hex_encode (inner key)"
      by (auto simp: from_hex_def Let_def rbind_eq_Ok_iff from_bytes_eq_Ok_iff hex_digit_eq_nibble
          unpairs_iff even_iff_mod_2_eq_zero split: if_splits)
  next
    assume k: "length (inner key) = 64 \<and> to_ascii_lowercase (trim text) = hex_encode (inner key)"
    then have "trim text \<noteq> []" "length (trim text) mod 2 = 0"
      using * [of "inner key"] by auto
    with k show "from_hex text = Ok key"
      by (auto simp: from_hex_def rbind_eq_Ok_iff from_bytes_eq_Ok_iff hex_digit_eq_nibble
          unpairs_iff even_iff_mod_2_eq_zero)
  qed
qed

text \<open>
  Key separation: two labels under which a subkey is derived never feed HMAC the same
  message, whatever bytes they hold.  In particular the encrypter's and the URL signer's subkeys come
  from different messages.
\<close>

theorem subkey_labels_separate:
  assumes "length a < 2 ^ 64" and "length b < 2 ^ 64"
  shows "(kdf_input a = kdf_input b \<longleftrightarrow> a = b)
    \<and> kdf_input ENCRYPTER_LABEL \<noteq> kdf_input URL_SIGNER_LABEL"
proof
  show "kdf_input a = kdf_input b \<longleftrightarrow> a = b"
    using kdf_input_inject [OF assms] by blast
  show "kdf_input ENCRYPTER_LABEL \<noteq> kdf_input URL_SIGNER_LABEL"
    by (rule notI, drule arg_cong [of _ _ length])
      (simp add: length_kdf_inputs ENCRYPTER_LABEL_def URL_SIGNER_LABEL_def)
qed

theorem subkey_labels_separate_witness:
  "kdf_input [97, 98] \<noteq> kdf_input [97]"
  using subkey_labels_separate [of "[97, 98]" "[97]"] by simp

text \<open>
  C3.  Decryption inverts encryption and nothing else: a token decrypts to a plaintext if and
  only if it is what \<^verbatim>\<open>encrypt\<close> makes of that plaintext under this key with some nonce.  An altered
  token, a truncated one, one under another version tag or one that is not canonical base64url
  is refused.
\<close>

theorem decrypt_iff_encrypt:
  assumes "hmac_32 hmac" and "aead_contract seal unseal"
  shows "decrypt unseal (encrypter_new hmac key) token = Ok plaintext \<longleftrightarrow>
    (\<exists>nonce. length nonce = NONCE_BYTES
       \<and> encrypt seal (encrypter_new hmac key) (Some nonce) plaintext = Ok token)"
proof -
  let ?e = "encrypter_new hmac key"
  have "seal (cipher ?e) nonce aad message = Some box \<longleftrightarrow>
      unseal (cipher ?e) nonce aad box = Some message \<and> length box = length message + 16"
    if "length nonce = 24" for nonce aad message box
    using that assms(2) length_encrypter_key [OF assms(1)] unfolding aead_contract_def by metis
  moreover have "length box = length message + 16"
    if "length nonce = 24" "unseal (cipher ?e) nonce aad box = Some message" for nonce aad message box
    using that assms(2) length_encrypter_key [OF assms(1)] unfolding aead_contract_def by metis
  ultimately show ?thesis
    unfolding decrypt_eq_Ok_iff encrypt_eq_Ok_iff NONCE_BYTES_def by (metis le_add2)
qed

text \<open>A cipher that meets the contract: the message and a tag of 16 bytes that repeats a digest of
  key, nonce and associated data.\<close>

definition demo_tag :: "bytes \<Rightarrow> bytes \<Rightarrow> bytes \<Rightarrow> bytes" where
  "demo_tag key nonce aad = replicate 15 0 @ [sum_list key + sum_list nonce + sum_list aad]"

definition demo_seal :: seal where
  "demo_seal key nonce aad message = Some (message @ demo_tag key nonce aad)"

definition demo_unseal :: seal where
  "demo_unseal key nonce aad box =
     (let n = length box - 16
      in if 16 \<le> length box \<and> drop n box = demo_tag key nonce aad then Some (take n box) else None)"

lemma demo_aead: "aead_contract demo_seal demo_unseal"
  unfolding aead_contract_def demo_seal_def demo_unseal_def Let_def
  by (auto simp: demo_tag_def) (metis append_take_drop_id)

definition demo_hmac :: "bytes \<Rightarrow> bytes \<Rightarrow> bytes" where
  "demo_hmac key message = replicate 31 0 @ [sum_list key + sum_list message]"

lemma demo_hmac_32: "hmac_32 demo_hmac"
  by (simp add: hmac_32_def demo_hmac_def)

theorem decrypt_iff_encrypt_witness:
  "decrypt demo_unseal (encrypter_new demo_hmac \<lparr>inner = replicate 64 7\<rparr>)
     (case encrypt demo_seal (encrypter_new demo_hmac \<lparr>inner = replicate 64 7\<rparr>)
        (Some (replicate 24 1)) (as_bytes ''hi'') of Inr t \<Rightarrow> t | Inl e \<Rightarrow> [])
   = Ok (as_bytes ''hi'')"
  unfolding decrypt_iff_encrypt [OF demo_hmac_32 demo_aead]
  by (rule exI [of _ "replicate 24 1"]) (simp add: NONCE_BYTES_def encrypt_def demo_seal_def)

text \<open>
  The error a caller sees says what is wrong, in the order the code checks: the version tag,
  then the encoding and the length, then the authentication tag, then UTF-8.
\<close>

theorem decrypt_string_errors:
  "decrypt_string unseal e token = Err err \<longleftrightarrow>
   (if \<nexists>body. token = VERSION @ ''.'' @ body then err = UnknownVersion
    else if \<nexists>nonce box. token = VERSION @ ''.'' @ encode (nonce @ box) \<and> length nonce = NONCE_BYTES
        \<and> TAG_BYTES \<le> length box then err = Malformed
    else \<exists>nonce box. token = VERSION @ ''.'' @ encode (nonce @ box) \<and> length nonce = NONCE_BYTES \<and>
      (case unseal (cipher e) nonce ASSOCIATED_DATA box of
         None \<Rightarrow> err = Authentication
       | Some plaintext \<Rightarrow> \<not> valid_utf8 plaintext \<and> err = NotUtf8))"
proof (cases "\<exists>body. token = VERSION @ ''.'' @ body")
  case False
  then have "Option.bind (strip_prefix VERSION token) (strip_prefix ''.'') = None"
    using version_prefix [of token] by (metis not_None_eq)
  then show ?thesis
    using False by (auto simp: decrypt_string_def decrypt_def)
next
  case True
  then obtain body where body: "token = VERSION @ ''.'' @ body"
    by blast
  then have b: "Option.bind (strip_prefix VERSION token) (strip_prefix ''.'') = Some body"
    by (simp only: version_prefix)
  have halves: "token = VERSION @ ''.'' @ encode (nonce @ box) \<longleftrightarrow> decode body = Some (nonce @ box)"
    for nonce box
    by (simp add: body b64.dec_eq_Some_iff)
  show ?thesis
  proof (cases "\<exists>raw. decode body = Some raw \<and> NONCE_BYTES + TAG_BYTES \<le> length raw")
    case False
    then have "decrypt unseal e token = Err Malformed"
      by (cases "decode body") (auto simp: decrypt_def b not_le)
    moreover have "\<nexists>nonce box. token = VERSION @ ''.'' @ encode (nonce @ box) \<and>
        length nonce = NONCE_BYTES \<and> TAG_BYTES \<le> length box"
      unfolding halves using False by auto
    ultimately show ?thesis
      using True by (simp only: decrypt_string_def) auto
  next
    case long: True
    then obtain nonce box where d: "decode body = Some (nonce @ box)" "length nonce = NONCE_BYTES"
        "TAG_BYTES \<le> length box"
      by (auto simp: NONCE_BYTES_def TAG_BYTES_def
          intro!: that [of "take 24 raw" "drop 24 raw" for raw])
    then have "decrypt unseal e token =
        ok_or (unseal (cipher e) nonce ASSOCIATED_DATA box) Authentication"
      by (simp add: decrypt_def b)
    moreover have "token = VERSION @ ''.'' @ encode (n @ x) \<and> length n = NONCE_BYTES \<longleftrightarrow>
        n = nonce \<and> x = box" for n x
      unfolding halves using d by (auto simp: append_eq_append_conv)
    ultimately show ?thesis
      using True d(3) by (simp only: decrypt_string_def conj_assoc [symmetric])
        (auto simp: from_utf8_def split: option.splits if_splits)
  qed
qed

end
