(* ===== verification/Url_Signer.thy ===== *)
theory Url_Signer
  imports Crypt "HOL-Library.Char_ord" "HOL-Library.List_Lexorder" "HOL-Library.Product_Lexorder"
    "HOL-Library.Multiset"
begin

text \<open>
  Signed and expiring URLs, \<^verbatim>\<open>src/crypt/signer.rs\<close>.

  HMAC-SHA256 and the percent-encoding package are arguments (\<open>hmac\<close>; \<open>pe\<close> the encoder with the
  set \<^verbatim>\<open>UNRESERVED\<close>, \<open>pd\<close> the decoder, which yields bytes); \<open>percent_contract\<close> is what the
  package documents.  The clock is the argument \<open>now\<close>, in seconds.
\<close>

section \<open>The code\<close>

datatype SignedUrlError = ReservedParameter | QueryInPath | ForeignOrigin | MissingSignature
  | UnknownSignatureVersion | MalformedUrl | Mismatch | Expired

record UrlSigner =
  signer_key :: bytes
  base :: string

record Presented =
  path :: string
  params :: "(string \<times> string) list"
  signature :: bytes

type_synonym percent_encode = "string \<Rightarrow> string"
type_synonym percent_decode = "string \<Rightarrow> bytes"
type_synonym hmac = "bytes \<Rightarrow> bytes \<Rightarrow> bytes"

definition SIGNATURE_PARAM :: string where
  "SIGNATURE_PARAM = ''signature''"

definition EXPIRES_PARAM :: string where
  "EXPIRES_PARAM = ''expires''"

definition SIGNATURE_VERSION :: string where
  "SIGNATURE_VERSION = ''v1''"

definition MAC_DOMAIN :: bytes where
  "MAC_DOMAIN = as_bytes ''arcature/signed-url/v1''"

definition U64_MAX :: nat where
  "U64_MAX = 2 ^ 64 - 1"

definition url_signer_new :: "hmac \<Rightarrow> AppKey \<Rightarrow> string \<Rightarrow> UrlSigner" where
  "url_signer_new hmac key base_url =
     \<lparr>signer_key = subkey hmac key URL_SIGNER_LABEL, base = base_url\<rparr>"

definition feed :: "bytes \<Rightarrow> bytes" where
  "feed bytes = be64 (length bytes) @ bytes"

definition sort_canonically :: "(string \<times> string) list \<Rightarrow> (string \<times> string) list" where
  "sort_canonically ps = sort ps"

definition canonical_path :: "string \<Rightarrow> string" where
  "canonical_path p = CHR ''/'' # dropWhile (\<lambda>c. c = CHR ''/'') p"

definition decode_component :: "percent_decode \<Rightarrow> string \<Rightarrow> (SignedUrlError, string) result" where
  "decode_component pd raw = ok_or (from_utf8 (pd raw)) MalformedUrl"

text \<open>The bytes \<^verbatim>\<open>signature_of\<close> feeds the MAC, and the MAC of them.\<close>

definition mac_input :: "string \<Rightarrow> (string \<times> string) list \<Rightarrow> bytes" where
  "mac_input p ps =
     (let ordered = sort_canonically ps
      in MAC_DOMAIN @ feed (as_bytes p) @ be64 (length ordered)
         @ concat (map (\<lambda>(name, value). feed (as_bytes name) @ feed (as_bytes value)) ordered))"

definition signature_of :: "hmac \<Rightarrow> UrlSigner \<Rightarrow> string \<Rightarrow> (string \<times> string) list \<Rightarrow> bytes" where
  "signature_of hmac self p ps = hmac (signer_key self) (mac_input p ps)"

definition emit :: "percent_encode \<Rightarrow> string \<times> string \<Rightarrow> string" where
  "emit pe = (\<lambda>(name, value). pe name @ ''='' @ pe value @ ''&'')"

definition build :: "hmac \<Rightarrow> percent_encode \<Rightarrow> UrlSigner \<Rightarrow> string \<Rightarrow> (string \<times> string) list \<Rightarrow>
    nat option \<Rightarrow> (SignedUrlError, string) result" where
  "build hmac pe self p ps expires_at =
     (if CHR ''?'' \<in> set p \<or> CHR ''#'' \<in> set p then Err QueryInPath
      else if \<exists>(name, value) \<in> set ps. name = SIGNATURE_PARAM \<or> name = EXPIRES_PARAM
      then Err ReservedParameter
      else
        let cp = canonical_path p;
            all = ps @ (case expires_at of None \<Rightarrow> [] | Some e \<Rightarrow> [(EXPIRES_PARAM, show_nat e)]);
            sig = signature_of hmac self cp all;
            ordered = sort_canonically all
        in Ok (base self @ cp @ ''?'' @ concat (map (emit pe) ordered)
             @ SIGNATURE_PARAM @ ''='' @ SIGNATURE_VERSION @ ''.'' @ encode sig))"

definition sign :: "hmac \<Rightarrow> percent_encode \<Rightarrow> UrlSigner \<Rightarrow> string \<Rightarrow> (string \<times> string) list \<Rightarrow>
    (SignedUrlError, string) result" where
  "sign hmac pe self p ps = build hmac pe self p ps None"

definition sign_temporary :: "hmac \<Rightarrow> percent_encode \<Rightarrow> UrlSigner \<Rightarrow> nat \<Rightarrow> string \<Rightarrow>
    (string \<times> string) list \<Rightarrow> nat \<Rightarrow> (SignedUrlError, string) result" where
  "sign_temporary hmac pe self now p ps valid_for =
     build hmac pe self p ps (Some (min (now + valid_for) U64_MAX))"

text \<open>The loop of \<^verbatim>\<open>parse\<close> over the pairs of the query, with \<open>params\<close> and \<open>presented\<close> so far.\<close>

fun parse_pairs :: "percent_decode \<Rightarrow> string list \<Rightarrow> (string \<times> string) list \<Rightarrow> string option \<Rightarrow>
    (SignedUrlError, (string \<times> string) list \<times> string option) result" where
  "parse_pairs pd [] ps presented = Ok (ps, presented)"
| "parse_pairs pd (pair # pairs) ps presented =
     (let (raw_name, raw_value) =
        (case split_once CHR ''='' pair of Some (n, v) \<Rightarrow> (n, v) | None \<Rightarrow> (pair, []))
      in rbind (decode_component pd raw_name) (\<lambda>name.
         rbind (decode_component pd raw_value) (\<lambda>value.
         if name = SIGNATURE_PARAM then
           (if presented \<noteq> None then Err MalformedUrl
            else parse_pairs pd pairs ps (Some value))
         else parse_pairs pd pairs (ps @ [(name, value)]) presented)))"

definition origin_rest :: "UrlSigner \<Rightarrow> string \<Rightarrow> (SignedUrlError, string) result" where
  "origin_rest self url =
     (case strip_prefix (base self) url of
        Some rest \<Rightarrow>
          if rest = [] \<or> starts_with ''/'' rest \<or> starts_with ''?'' rest then Ok rest
          else Err ForeignOrigin
      | None \<Rightarrow> if starts_with ''/'' url then Ok url else Err ForeignOrigin)"

definition parse :: "percent_decode \<Rightarrow> UrlSigner \<Rightarrow> string \<Rightarrow> (SignedUrlError, Presented) result" where
  "parse pd self url =
     rbind (origin_rest self url) (\<lambda>rest0.
     let rest = hd (split CHR ''#'' rest0);
         (raw_path, raw_query) =
           (case split_once CHR ''?'' rest of Some (a, b) \<Rightarrow> (a, b) | None \<Rightarrow> (rest, []))
     in rbind (parse_pairs pd (filter (\<lambda>pair. pair \<noteq> []) (split CHR ''&'' raw_query)) [] None)
          (\<lambda>(ps, presented).
        rbind (ok_or presented MissingSignature) (\<lambda>text.
        rbind (ok_or (Option.bind (strip_prefix SIGNATURE_VERSION text) (strip_prefix ''.''))
                 UnknownSignatureVersion) (\<lambda>body.
        rbind (ok_or (decode body) MalformedUrl) (\<lambda>sig.
        Ok \<lparr>path = canonical_path raw_path, params = ps, signature = sig\<rparr>)))))"

definition verify :: "hmac \<Rightarrow> percent_decode \<Rightarrow> UrlSigner \<Rightarrow> nat \<Rightarrow> string \<Rightarrow>
    (SignedUrlError, unit) result" where
  "verify hmac pd self now url =
     rbind (parse pd self url) (\<lambda>p.
     if signature p \<noteq> signature_of hmac self (path p) (params p) then Err Mismatch
     else (case List.find (\<lambda>(name, _). name = EXPIRES_PARAM) (params p) of
             None \<Rightarrow> Ok ()
           | Some (_, value) \<Rightarrow>
               rbind (ok_or (parse_uint U64_MAX value) MalformedUrl) (\<lambda>expires_at.
               if expires_at < now then Err Expired else Ok ())))"

section \<open>What the percent-encoding package documents\<close>

definition unreserved :: "char \<Rightarrow> bool" where
  "unreserved c = (is_ascii_alphanumeric c \<or> c \<in> set ''-_.~'')"

text \<open>Decoding inverts encoding; the encoder leaves only the unreserved characters and \<open>%\<close>; a
  text without \<open>%\<close> decodes to its own bytes.\<close>

definition percent_contract :: "percent_encode \<Rightarrow> percent_decode \<Rightarrow> bool" where
  "percent_contract pe pd =
     ((\<forall>s. pd (pe s) = as_bytes s)
      \<and> (\<forall>s. \<forall>c \<in> set (pe s). unreserved c \<or> c = CHR ''%'')
      \<and> (\<forall>s. CHR ''%'' \<notin> set s \<longrightarrow> pd s = as_bytes s))"

definition rust_pairs :: "(string \<times> string) list \<Rightarrow> bool" where
  "rust_pairs ps = (\<forall>(name, value) \<in> set ps. rust_str name \<and> rust_str value)"

definition fits_u64 :: "string \<Rightarrow> (string \<times> string) list \<Rightarrow> bool" where
  "fits_u64 p ps = (length p < 2 ^ 64 \<and> length ps < 2 ^ 64
     \<and> (\<forall>(name, value) \<in> set ps. length name < 2 ^ 64 \<and> length value < 2 ^ 64))"

text \<open>A codec that meets the contract.\<close>

definition demo_pe :: percent_encode where
  "demo_pe s = concat (map (\<lambda>c. if unreserved c then [c] else CHR ''%'' # hex_pair (u8_of c)) s)"

fun demo_pd :: percent_decode where
  "demo_pd [] = []"
| "demo_pd (c # s) =
     (if c \<noteq> CHR ''%'' then u8_of c # demo_pd s
      else case s of
        a # b # t \<Rightarrow>
          (case unpair nibble [u8_of a, u8_of b] of
             Some w \<Rightarrow> w # demo_pd t | None \<Rightarrow> u8_of c # demo_pd s)
      | _ \<Rightarrow> u8_of c # demo_pd s)"

lemma percent_not_unreserved: "\<not> unreserved (CHR ''%'')"
  by (simp add: unreserved_def is_ascii_alphanumeric_def)

lemma demo_pd_escape: "demo_pd (CHR ''%'' # hex_pair b @ s) = b # demo_pd s"
proof -
  obtain x y where xy: "hex_pair b = [x, y]"
    by (simp add: hex_pair_def)
  then have "unpair nibble [u8_of x, u8_of y] = Some b"
    using unpair_hex_pair(1) [of b] by simp
  then show ?thesis by (simp add: xy)
qed

lemma demo_pd_pe: "demo_pd (demo_pe s) = as_bytes s"
proof (induction s)
  case (Cons c s)
  have "demo_pe (c # s) = (if unreserved c then [c] else CHR ''%'' # hex_pair (u8_of c)) @ demo_pe s"
    by (simp add: demo_pe_def)
  with Cons percent_not_unreserved show ?case
    by (cases "unreserved c") (auto simp: demo_pd_escape simp del: demo_pd.simps(2),
        auto simp: demo_pd.simps(2))
qed (simp add: demo_pe_def)

lemma demo_pe_chars: "c \<in> set (demo_pe s) \<Longrightarrow> unreserved c \<or> c = CHR ''%''"
proof -
  have "list_all unreserved HEX"
    by code_simp
  then have "c \<in> set (hex_pair b) \<Longrightarrow> unreserved c" for b
    using set_hex_encode [of c "[b]"] by (auto simp: list_all_iff)
  then show "c \<in> set (demo_pe s) \<Longrightarrow> unreserved c \<or> c = CHR ''%''"
    by (auto simp: demo_pe_def split: if_splits)
qed

lemma demo_pd_plain: "CHR ''%'' \<notin> set s \<Longrightarrow> demo_pd s = as_bytes s"
  by (induction s) auto

lemma demo_percent: "percent_contract demo_pe demo_pd"
  using demo_pd_pe demo_pe_chars demo_pd_plain by (auto simp: percent_contract_def)

section \<open>The message authentication code's input\<close>

lemma feed_append_inject:
  assumes "length a < 2 ^ 64" and "length b < 2 ^ 64" and "feed a @ x = feed b @ y"
  shows "a = b \<and> x = y"
proof -
  have "be64 (length a) @ a @ x = be64 (length b) @ b @ y"
    using assms(3) by (simp add: feed_def)
  then have "be64 (length a) = be64 (length b)" and "a @ x = b @ y"
    by (simp_all add: append_eq_append_conv)
  with be64_inject [OF assms(1,2)] show ?thesis
    by (simp add: append_eq_append_conv)
qed

definition feed_pairs :: "(string \<times> string) list \<Rightarrow> bytes" where
  "feed_pairs ps = concat (map (\<lambda>(name, value). feed (as_bytes name) @ feed (as_bytes value)) ps)"

lemma feed_pairs_inject:
  "length ps = length qs \<Longrightarrow> \<forall>(n, v) \<in> set ps. length n < 2 ^ 64 \<and> length v < 2 ^ 64 \<Longrightarrow>
   \<forall>(n, v) \<in> set qs. length n < 2 ^ 64 \<and> length v < 2 ^ 64 \<Longrightarrow>
   feed_pairs ps = feed_pairs qs \<Longrightarrow> ps = qs"
proof (induction ps qs rule: list_induct2)
  case Nil
  then show ?case by simp
next
  case (Cons x xs y ys)
  obtain n v m w where x: "x = (n, v)" and y: "y = (m, w)"
    by (cases x, cases y)
  have "feed (as_bytes n) @ feed (as_bytes v) @ feed_pairs xs =
      feed (as_bytes m) @ feed (as_bytes w) @ feed_pairs ys"
    using Cons.prems(3) by (simp add: feed_pairs_def x y)
  from feed_append_inject [OF _ _ this] Cons.prems(1,2)
  have nm: "n = m" and vw: "feed (as_bytes v) @ feed_pairs xs = feed (as_bytes w) @ feed_pairs ys"
    by (simp_all add: x y)
  from feed_append_inject [OF _ _ vw] Cons.prems(1,2)
  have "v = w" "feed_pairs xs = feed_pairs ys"
    by (simp_all add: x y)
  with nm Cons show ?case
    by (simp add: x y)
qed

lemma sort_eq_iff_mset: "sort xs = sort ys \<longleftrightarrow> mset xs = mset ys"
  by (metis mset_sort properties_for_sort sorted_sort)

lemma mac_input_feed_pairs:
  "mac_input p ps =
   MAC_DOMAIN @ feed (as_bytes p) @ be64 (length ps) @ feed_pairs (sort ps)"
  by (simp add: mac_input_def sort_canonically_def feed_pairs_def)

lemma mac_input_inject:
  assumes "fits_u64 p ps" and "fits_u64 q qs" and "mac_input p ps = mac_input q qs"
  shows "p = q \<and> mset ps = mset qs"
proof -
  have "feed (as_bytes p) @ be64 (length ps) @ feed_pairs (sort ps) =
      feed (as_bytes q) @ be64 (length qs) @ feed_pairs (sort qs)"
    using assms(3) by (simp add: mac_input_feed_pairs)
  from feed_append_inject [OF _ _ this] assms(1,2)
  have "p = q" "be64 (length ps) @ feed_pairs (sort ps) = be64 (length qs) @ feed_pairs (sort qs)"
    by (simp_all add: fits_u64_def)
  moreover from this(2) have "be64 (length ps) = be64 (length qs)"
      "feed_pairs (sort ps) = feed_pairs (sort qs)"
    by (simp_all add: append_eq_append_conv)
  moreover from this(1) have "length ps = length qs"
    using assms(1,2) by (auto simp: fits_u64_def intro: be64_inject)
  ultimately have "sort ps = sort qs"
    using assms(1,2) by (intro feed_pairs_inject) (auto simp: fits_u64_def)
  with \<open>p = q\<close> show ?thesis
    by (simp add: sort_eq_iff_mset)
qed

lemma mac_input_permute: "mset ps = mset qs \<Longrightarrow> mac_input p ps = mac_input p qs"
  by (metis mac_input_feed_pairs size_mset sort_eq_iff_mset)

section \<open>A built URL is parsed back\<close>

lemma hd_split_on: "hd (split_on p s) = takeWhile (\<lambda>c. \<not> p c) s"
proof (induction s)
  case (Cons c s)
  obtain w ws where "split_on p s = w # ws"
    by (cases "split_on p s") auto
  with Cons show ?case by simp
qed simp

lemma hd_split_no_sep: "d \<notin> set s \<Longrightarrow> hd (split d s) = s"
  by (subst hd_split_on) (auto simp: takeWhile_eq_all_conv)

lemma find_unique:
  assumes "y \<in> set xs" and "P y" and "\<And>z. z \<in> set xs \<Longrightarrow> P z \<Longrightarrow> z = y"
  shows "List.find P xs = Some y"
proof -
  obtain z where z: "List.find P xs = Some z"
    using assms(1,2) by (metis find_None_iff2 not_None_eq)
  then have "z \<in> set xs" "P z"
    by (metis find_Some_iff nth_mem)+
  with z assms(3) show ?thesis by metis
qed

lemma set_canonical_path: "set (canonical_path p) \<subseteq> insert (CHR ''/'') (set p)"
  by (auto simp: canonical_path_def dest: set_dropWhileD)

lemma canonical_path_idem: "canonical_path (canonical_path p) = canonical_path p"
proof -
  have "dropWhile Q (dropWhile Q xs) = dropWhile Q xs" for Q and xs :: string
    by (induction xs) auto
  then show ?thesis by (simp add: canonical_path_def)
qed

lemma percent_contractD:
  assumes "percent_contract pe pd"
  shows "pd (pe s) = as_bytes s" and "CHR ''%'' \<notin> set s \<Longrightarrow> pd s = as_bytes s"
    and "CHR ''='' \<notin> set (pe s)" and "CHR ''&'' \<notin> set (pe s)" and "CHR ''#'' \<notin> set (pe s)"
proof -
  have c: "unreserved c \<or> c = CHR ''%''" if "c \<in> set (pe s)" for c
    using that assms by (auto simp: percent_contract_def)
  show "pd (pe s) = as_bytes s" and "CHR ''%'' \<notin> set s \<Longrightarrow> pd s = as_bytes s"
    using assms by (auto simp: percent_contract_def)
  show "CHR ''='' \<notin> set (pe s)" and "CHR ''&'' \<notin> set (pe s)" and "CHR ''#'' \<notin> set (pe s)"
    by (auto dest!: c simp: unreserved_def is_ascii_alphanumeric_def)
qed

lemma decode_component_pe:
  "percent_contract pe pd \<Longrightarrow> rust_str s \<Longrightarrow> decode_component pd (pe s) = Ok s"
  by (simp add: decode_component_def percent_contractD)

lemma decode_component_plain:
  "percent_contract pe pd \<Longrightarrow> CHR ''%'' \<notin> set s \<Longrightarrow> rust_str s \<Longrightarrow> decode_component pd s = Ok s"
  by (simp add: decode_component_def percent_contractD(2))

lemma ALPHABET_ascii: "c \<in> set ALPHABET \<Longrightarrow> of_char c < (128 :: nat)"
proof -
  have "list_all (\<lambda>c. of_char c < (128 :: nat)) ALPHABET"
    by code_simp
  then show "c \<in> set ALPHABET \<Longrightarrow> of_char c < (128 :: nat)"
    by (simp add: list_all_iff)
qed

text \<open>The pairs of a built query, each without its separator, and the pair of the signature.\<close>

definition pair_text :: "percent_encode \<Rightarrow> string \<times> string \<Rightarrow> string" where
  "pair_text pe = (\<lambda>(name, value). pe name @ ''='' @ pe value)"

lemma emit_pair_text: "emit pe x = pair_text pe x @ ''&''"
  by (simp add: emit_def pair_text_def split: prod.splits)

lemma split_query:
  assumes "percent_contract pe pd" and "CHR ''&'' \<notin> set tail"
  shows "split CHR ''&'' (concat (map (emit pe) ps) @ tail) = map (pair_text pe) ps @ [tail]"
proof (induction ps)
  case Nil
  show ?case using assms(2) by (simp, intro split_on_no_sep) auto
next
  case (Cons x ps)
  have "\<forall>c \<in> set (pair_text pe x). c \<noteq> CHR ''&''"
    using percent_contractD(4) [OF assms(1)] by (auto simp: pair_text_def split: prod.splits)
  with Cons show ?case
    by (simp add: emit_pair_text split_on_sep_append)
qed

lemma parse_pairs_built:
  assumes "percent_contract pe pd" and "rust_pairs ps" and "SIGNATURE_PARAM \<notin> fst ` set ps"
  shows "parse_pairs pd (map (pair_text pe) ps @ rest) acc presented =
    parse_pairs pd rest (acc @ ps) presented"
  using assms(2,3)
proof (induction ps arbitrary: acc)
  case Nil
  then show ?case by simp
next
  case (Cons x ps)
  obtain n v where x: "x = (n, v)"
    by (cases x)
  have "split_once CHR ''='' (pair_text pe x) = Some (pe n, pe v)"
    using split_once_append [OF percent_contractD(3) [OF assms(1)]] by (simp add: x pair_text_def)
  moreover have "rust_str n" "rust_str v" "n \<noteq> SIGNATURE_PARAM"
    using Cons.prems by (auto simp: x rust_pairs_def)
  ultimately show ?case
    using Cons decode_component_pe [OF assms(1)] by (auto simp: x rust_pairs_def)
qed

definition signature_pair :: "bytes \<Rightarrow> string" where
  "signature_pair sig = SIGNATURE_PARAM @ ''='' @ SIGNATURE_VERSION @ ''.'' @ encode sig"

lemma set_signature_pair: "set (signature_pair sig) \<subseteq> set ALPHABET \<union> {CHR ''='', CHR ''.''}"
proof -
  have "set SIGNATURE_PARAM \<subseteq> set ALPHABET" "set SIGNATURE_VERSION \<subseteq> set ALPHABET"
    by (simp_all add: SIGNATURE_PARAM_def SIGNATURE_VERSION_def ALPHABET_def)
  then show ?thesis
    using set_encode [of sig] by (auto simp: signature_pair_def)
qed

lemma signature_pair_avoids:
  "CHR ''&'' \<notin> set (signature_pair sig)" "CHR ''#'' \<notin> set (signature_pair sig)"
  using set_signature_pair [of sig] sep_not_ALPHABET by auto

lemma parse_signature_pair:
  assumes "percent_contract pe pd"
  shows "parse_pairs pd [signature_pair sig] acc None =
    Ok (acc, Some (SIGNATURE_VERSION @ ''.'' @ encode sig))"
proof -
  let ?v = "SIGNATURE_VERSION @ ''.'' @ encode sig"
  have "set SIGNATURE_VERSION \<subseteq> set ALPHABET"
    by (simp add: SIGNATURE_VERSION_def ALPHABET_def)
  then have "set ?v \<subseteq> set ALPHABET \<union> {CHR ''.''}"
    using set_encode [of sig] by auto
  then have "\<forall>c \<in> set ?v. of_char c < (128 :: nat)" "CHR ''%'' \<notin> set ?v"
    using ALPHABET_ascii sep_not_ALPHABET by auto
  then have "decode_component pd ?v = Ok ?v"
    by (intro decode_component_plain [OF assms] rust_str_ascii)
  moreover have "decode_component pd SIGNATURE_PARAM = Ok SIGNATURE_PARAM"
    by (intro decode_component_plain [OF assms] rust_str_ascii) (simp_all add: SIGNATURE_PARAM_def)
  moreover have "split_once CHR ''='' (signature_pair sig) = Some (SIGNATURE_PARAM, ?v)"
    using split_once_append [of "CHR ''=''" SIGNATURE_PARAM] 
    by (simp add: signature_pair_def SIGNATURE_PARAM_def)
  ultimately show ?thesis by simp
qed

lemma parse_built_url:
  assumes pc: "percent_contract pe pd" and ps: "rust_pairs ps" "SIGNATURE_PARAM \<notin> fst ` set ps"
    and p: "CHR ''?'' \<notin> set p" "CHR ''#'' \<notin> set p"
  shows "parse pd self (base self @ canonical_path p @ ''?'' @ concat (map (emit pe) ps)
      @ signature_pair sig) = Ok \<lparr>path = canonical_path p, params = ps, signature = sig\<rparr>"
proof -
  let ?q = "concat (map (emit pe) ps) @ signature_pair sig"
  let ?r = "canonical_path p @ CHR ''?'' # ?q"
  have "origin_rest self (base self @ ?r) = Ok ?r"
    by (simp add: origin_rest_def starts_with_def canonical_path_def)
  moreover have "CHR ''#'' \<notin> set (concat (map (emit pe) ps))"
    using percent_contractD(5) [OF pc] by (auto simp: emit_def split: prod.splits)
  then have "hd (split CHR ''#'' ?r) = ?r"
    using set_canonical_path [of p] p signature_pair_avoids [of sig] by (intro hd_split_no_sep) auto
  moreover have "split_once CHR ''?'' ?r = Some (canonical_path p, ?q)"
    using set_canonical_path [of p] p by (intro split_once_append) auto
  moreover have "filter (\<lambda>pair. pair \<noteq> []) (split CHR ''&'' ?q) =
      map (pair_text pe) ps @ [signature_pair sig]"
    unfolding split_query [OF pc signature_pair_avoids(1)]
    by (auto simp: pair_text_def signature_pair_def filter_id_conv split: prod.splits)
  moreover have "parse_pairs pd (map (pair_text pe) ps @ [signature_pair sig]) [] None =
      Ok (ps, Some (SIGNATURE_VERSION @ ''.'' @ encode sig))"
    by (simp only: parse_pairs_built [OF pc ps] parse_signature_pair [OF pc] append_Nil)
  moreover have "Option.bind (strip_prefix SIGNATURE_VERSION (SIGNATURE_VERSION @ ''.'' @ encode sig))
      (strip_prefix ''.'') = Some (encode sig)"
    by (simp add: strip_prefix_def)
  ultimately show ?thesis
    by (simp add: parse_def b64.dec_enc canonical_path_idem del: parse_pairs.simps)
qed

lemma rust_str_show_nat: "rust_str (show_nat n)"
proof (rule rust_str_ascii, rule ballI)
  fix c assume "c \<in> set (show_nat n)"
  from show_nat_digit [OF this] show "of_char c < (128 :: nat)" by simp
qed

text \<open>What a signer put into a link: the caller's pairs, then the expiry if there is one.\<close>

definition signed_params :: "(string \<times> string) list \<Rightarrow> nat option \<Rightarrow> (string \<times> string) list" where
  "signed_params ps expires_at =
     ps @ (case expires_at of None \<Rightarrow> [] | Some e \<Rightarrow> [(EXPIRES_PARAM, show_nat e)])"

lemma build_eq_Ok_iff:
  "build hmac pe self p ps expires_at = Ok url \<longleftrightarrow>
   CHR ''?'' \<notin> set p \<and> CHR ''#'' \<notin> set p
   \<and> SIGNATURE_PARAM \<notin> fst ` set ps \<and> EXPIRES_PARAM \<notin> fst ` set ps
   \<and> url = base self @ canonical_path p @ ''?''
        @ concat (map (emit pe) (sort_canonically (signed_params ps expires_at)))
        @ signature_pair (signature_of hmac self (canonical_path p) (signed_params ps expires_at))"
  by (force simp: build_def Let_def signed_params_def signature_pair_def)

lemma rust_pairs_signed_params:
  "rust_pairs ps \<Longrightarrow> rust_pairs (sort_canonically (signed_params ps expires_at))"
proof -
  have "rust_str EXPIRES_PARAM"
    by (rule rust_str_ascii) (simp add: EXPIRES_PARAM_def)
  then show "rust_pairs ps \<Longrightarrow> rust_pairs (sort_canonically (signed_params ps expires_at))"
    by (auto simp: rust_pairs_def sort_canonically_def signed_params_def rust_str_show_nat
        split: option.splits)
qed

lemma signature_of_sorted:
  "signature_of hmac self p (sort_canonically ps) = signature_of hmac self p ps"
  unfolding signature_of_def sort_canonically_def by (metis mac_input_permute mset_sort)

lemma find_expires:
  assumes "EXPIRES_PARAM \<notin> fst ` set ps"
  shows "List.find (\<lambda>(name, _). name = EXPIRES_PARAM) (sort_canonically (signed_params ps e)) =
    map_option (\<lambda>e. (EXPIRES_PARAM, show_nat e)) e"
proof (cases e)
  case None
  then show ?thesis
    using assms by (force simp: find_None_iff sort_canonically_def signed_params_def)
next
  case (Some n)
  then have "List.find (\<lambda>(name, _). name = EXPIRES_PARAM) (sort_canonically (signed_params ps e)) =
      Some (EXPIRES_PARAM, show_nat n)"
    using assms by (intro find_unique) (force simp: sort_canonically_def signed_params_def)+
  with Some show ?thesis by simp
qed

lemma parse_built:
  assumes "percent_contract pe pd" and "rust_pairs ps"
    and "build hmac pe self p ps expires_at = Ok url"
  shows "parse pd self url = Ok \<lparr>path = canonical_path p,
    params = sort_canonically (signed_params ps expires_at),
    signature = signature_of hmac self (canonical_path p) (signed_params ps expires_at)\<rparr>"
proof -
  let ?all = "sort_canonically (signed_params ps expires_at)"
  have b: "CHR ''?'' \<notin> set p" "CHR ''#'' \<notin> set p" "SIGNATURE_PARAM \<notin> fst ` set ps"
      and url: "url = base self @ canonical_path p @ ''?'' @ concat (map (emit pe) ?all)
        @ signature_pair (signature_of hmac self (canonical_path p) (signed_params ps expires_at))"
    using assms(3) unfolding build_eq_Ok_iff by blast+
  have "SIGNATURE_PARAM \<notin> fst ` set ?all"
    using b(3) by (force simp: sort_canonically_def signed_params_def SIGNATURE_PARAM_def
        EXPIRES_PARAM_def split: option.splits)
  from parse_built_url [OF assms(1) rust_pairs_signed_params [OF assms(2)] this b(1,2)]
  show ?thesis
    unfolding url .
qed

lemma verify_built:
  assumes "percent_contract pe pd" and "rust_pairs ps"
    and "build hmac pe self p ps expires_at = Ok url"
    and "\<forall>e. expires_at = Some e \<longrightarrow> e \<le> U64_MAX"
  shows "verify hmac pd self now url =
    (case expires_at of None \<Rightarrow> Ok () | Some e \<Rightarrow> if e < now then Err Expired else Ok ())"
proof -
  have "EXPIRES_PARAM \<notin> fst ` set ps"
    using assms(3) unfolding build_eq_Ok_iff by blast
  with parse_built [OF assms(1-3)] assms(4) show ?thesis
    by (auto simp: verify_def signature_of_sorted find_expires parse_uint_show_nat
        split: option.splits)
qed

section \<open>Properties\<close>

text \<open>
  C36.  A temporary link verifies from the moment it is signed up to and including its last second,
  and is refused as expired from the next second on; a lifetime that would overflow the clock is
  capped at the last second a \<^verbatim>\<open>u64\<close> can name, and does not wrap round to the past.
\<close>

theorem verify_sign_temporary:
  assumes "percent_contract pe pd" and "rust_pairs ps"
    and "sign_temporary hmac pe self now p ps valid_for = Ok url"
  shows "verify hmac pd self later url =
    (if later \<le> now + valid_for \<and> later \<le> U64_MAX then Ok () else Err Expired)"
  using verify_built [OF assms(1,2) assms(3) [unfolded sign_temporary_def]] by auto

definition demo_signer :: UrlSigner where
  "demo_signer = url_signer_new demo_hmac \<lparr>inner = replicate 64 7\<rparr> ''https://example.com''"

theorem verify_sign_temporary_witness:
  "let url = projr (sign_temporary demo_hmac demo_pe demo_signer 1000 ''/f'' [(''id'', ''a&b'')] 60)
   in verify demo_hmac demo_pd demo_signer 1060 url = Ok ()
    \<and> verify demo_hmac demo_pd demo_signer 1061 url = Err Expired"
proof -
  let ?s = "sign_temporary demo_hmac demo_pe demo_signer 1000 ''/f'' [(''id'', ''a&b'')] 60"
  have "?s = Ok (projr ?s)"
    by (simp add: sign_temporary_def build_def SIGNATURE_PARAM_def EXPIRES_PARAM_def Let_def)
  moreover have "rust_pairs [(''id'', ''a&b'')]"
    by (auto simp: rust_pairs_def intro!: rust_str_ascii)
  ultimately show ?thesis
    by (simp add: verify_sign_temporary [OF demo_percent] U64_MAX_def Let_def)
qed

text \<open>
  A link without a deadline that the signer minted verifies at every moment; so the encoder,
  the canonical order, the parser and the MAC of both sides agree on every path and every set of
  parameters, percent-encoded characters included.
\<close>

theorem verify_sign:
  assumes "percent_contract pe pd" and "rust_pairs ps" and "sign hmac pe self p ps = Ok url"
  shows "verify hmac pd self later url = Ok ()"
  using verify_built [OF assms(1,2) assms(3) [unfolded sign_def]] by simp

theorem verify_sign_witness:
  "verify demo_hmac demo_pd demo_signer 5
     (projr (sign demo_hmac demo_pe demo_signer ''/f'' [(''q'', ''50% off'')])) = Ok ()"
proof (rule verify_sign [OF demo_percent])
  show "rust_pairs [(''q'', ''50% off'')]"
    by (auto simp: rust_pairs_def intro!: rust_str_ascii)
  show "sign demo_hmac demo_pe demo_signer ''/f'' [(''q'', ''50% off'')] =
      Ok (projr (sign demo_hmac demo_pe demo_signer ''/f'' [(''q'', ''50% off'')]))"
    by (simp add: sign_def build_def SIGNATURE_PARAM_def EXPIRES_PARAM_def Let_def)
qed

text \<open>
  C7.  The MAC pins the whole request: two requests feed the MAC the same bytes if and only if
  they have the same path and the same parameters up to order.  No rearrangement of bytes between
  names, values and the path (an \<open>a=b&c\<close> against an \<open>a=b\<close> with a longer name) goes unnoticed.
\<close>

theorem mac_input_pins_request:
  assumes "fits_u64 p ps" and "fits_u64 q qs"
  shows "mac_input p ps = mac_input q qs \<longleftrightarrow> p = q \<and> mset ps = mset qs"
  using mac_input_inject [OF assms] mac_input_permute by blast

theorem mac_input_pins_request_witness:
  "mac_input ''/a'' [(''x'', ''1''), (''y'', ''2'')] = mac_input ''/a'' [(''y'', ''2''), (''x'', ''1'')]
   \<and> mac_input ''/a'' [(''x'', ''12'')] \<noteq> mac_input ''/a'' [(''x1'', ''2'')]"
  using mac_input_pins_request [of "''/a''" "[(''x'', ''1''), (''y'', ''2'')]"
      "''/a''" "[(''y'', ''2''), (''x'', ''1'')]"]
    mac_input_pins_request [of "''/a''" "[(''x'', ''12'')]" "''/a''" "[(''x1'', ''2'')]"]
  by (simp add: fits_u64_def)

text \<open>
  Tampering is noticed.  Take a link the signer built and any URL that verifies with that
  link's signature.  Unless HMAC maps the two requests' messages to one value, the URL
  names the same path and the same parameters as the link, up to order, and it is not past the
  link's deadline: neither the path, nor a parameter, nor the expiry can be edited.
\<close>

theorem verified_url_is_untampered:
  assumes "build hmac pe self p ps expires_at = Ok link"
    and "\<forall>e. expires_at = Some e \<longrightarrow> e \<le> U64_MAX"
    and "parse pd self url = Ok presented" and "verify hmac pd self now url = Ok ()"
    and "signature presented =
      signature_of hmac self (canonical_path p) (signed_params ps expires_at)"
    and "hmac (signer_key self) (mac_input (path presented) (params presented)) =
        hmac (signer_key self) (mac_input (canonical_path p) (signed_params ps expires_at)) \<longrightarrow>
      mac_input (path presented) (params presented) =
        mac_input (canonical_path p) (signed_params ps expires_at)"
    and "fits_u64 (path presented) (params presented)"
    and "fits_u64 (canonical_path p) (signed_params ps expires_at)"
  shows "path presented = canonical_path p
    \<and> mset (params presented) = mset (signed_params ps expires_at)
    \<and> (\<forall>e. expires_at = Some e \<longrightarrow> now \<le> e)"
proof -
  have "signature presented = signature_of hmac self (path presented) (params presented)"
    using assms(3,4) by (auto simp: verify_def split: if_splits)
  then have m: "path presented = canonical_path p"
      "mset (params presented) = mset (signed_params ps expires_at)"
    using assms(5,6) mac_input_inject [OF assms(7,8)] by (simp_all add: signature_of_def)
  have "now \<le> e" if e: "expires_at = Some e" for e
  proof -
    have "set (params presented) = set (signed_params ps expires_at)"
      using m(2) by (metis set_mset_mset)
    moreover have "EXPIRES_PARAM \<notin> fst ` set ps"
      using assms(1) unfolding build_eq_Ok_iff by blast
    ultimately have "List.find (\<lambda>(name, _). name = EXPIRES_PARAM) (params presented) =
        Some (EXPIRES_PARAM, show_nat e)"
      using e by (intro find_unique) (force simp: signed_params_def)+
    then show ?thesis
      using assms(2,3,4) e
      by (auto simp: verify_def parse_uint_show_nat split: if_splits)
  qed
  with m show ?thesis by blast
qed

theorem verified_url_is_untampered_witness:
  "\<exists>link presented. build demo_hmac demo_pe demo_signer ''/f'' [(''id'', ''7'')] (Some 60) = Ok link
     \<and> parse demo_pd demo_signer link = Ok presented
     \<and> path presented = ''/f'' \<and> mset (params presented) = {#(''id'', ''7''), (''expires'', ''60'')#}"
proof -
  let ?b = "build demo_hmac demo_pe demo_signer ''/f'' [(''id'', ''7'')] (Some 60)"
  have b: "?b = Ok (projr ?b)"
    by (simp add: build_def SIGNATURE_PARAM_def EXPIRES_PARAM_def Let_def)
  have r: "rust_pairs [(''id'', ''7'')]"
    by (auto simp: rust_pairs_def intro!: rust_str_ascii)
  note parsed = parse_built [OF demo_percent r b]
  have fits: "fits_u64 ''/f'' (sort_canonically (signed_params [(''id'', ''7'')] (Some 60)))"
      "fits_u64 ''/f'' (signed_params [(''id'', ''7'')] (Some 60))"
    by (simp_all add: fits_u64_def sort_canonically_def signed_params_def EXPIRES_PARAM_def
        show_nat.simps)
  have sixty: "show_nat 60 = ''60''"
    by code_simp
  have path: "canonical_path ''/f'' = ''/f''"
    by (simp add: canonical_path_def)
  from verified_url_is_untampered [OF b _ parsed, of 60] verify_built [OF demo_percent r b, of 60]
    fits
  have "mset (params (projr (parse demo_pd demo_signer (projr ?b)))) =
      mset (signed_params [(''id'', ''7'')] (Some 60))"
    by (simp add: parsed path signature_of_sorted U64_MAX_def sort_canonically_def
        mac_input_permute [OF mset_sort])
  then have "mset (params (projr (parse demo_pd demo_signer (projr ?b)))) =
      {#(''id'', ''7''), (''expires'', ''60'')#}"
    by (simp add: signed_params_def EXPIRES_PARAM_def sixty)
  with b parsed path show ?thesis
    by (intro exI [of _ "projr ?b"] exI [of _ "projr (parse demo_pd demo_signer (projr ?b))"]) simp
qed

end
