(* ===== verification/Credentials.thy ===== *)
theory Credentials
  imports Codec
begin

text \<open>
  What the three credential stores of the program share (\<^verbatim>\<open>src/tokens/store.rs\<close>,
  \<^verbatim>\<open>src/auth/flows/reset/store.rs\<close>, \<^verbatim>\<open>src/auth/flows/remember/store.rs\<close>): instants and their
  storage as epoch milliseconds, the insert that ignores a taken key and its retry loop, and the
  statements that read a live row and delete the expired or a subject's rows.

  Instants and durations are integers in nanoseconds; stored instants are in milliseconds.  The
  range of the \<^verbatim>\<open>chrono\<close> package is the argument \<open>chrono\<close>.  The random generator is a function
  from the number of the draw to the bytes drawn, \<open>None\<close> where it failed.  The SHA-256 digest is the
  argument \<open>digest\<close>.
\<close>

section \<open>Instants\<close>

record chrono =
  delta_max :: int
  utc_min :: int
  utc_max :: int

definition stored_time :: "int \<Rightarrow> int" where
  "stored_time at = at div 1000000"

definition from_timestamp_millis :: "chrono \<Rightarrow> int \<Rightarrow> int option" where
  "from_timestamp_millis chrono stored =
     (if utc_min chrono \<le> stored * 1000000 \<and> stored * 1000000 \<le> utc_max chrono
      then Some (stored * 1000000) else None)"

definition delta_from_std :: "chrono \<Rightarrow> int \<Rightarrow> int option" where
  "delta_from_std chrono duration = (if duration \<le> delta_max chrono then Some duration else None)"

definition checked_add_signed :: "chrono \<Rightarrow> int \<Rightarrow> int \<Rightarrow> int option" where
  "checked_add_signed chrono at delta =
     (if utc_min chrono \<le> at + delta \<and> at + delta \<le> utc_max chrono then Some (at + delta) else None)"

definition in_range :: "chrono \<Rightarrow> int \<Rightarrow> bool" where
  "in_range chrono at =
     (utc_min chrono \<le> stored_time at * 1000000 \<and> stored_time at * 1000000 \<le> utc_max chrono)"

definition truncate_ms :: "int \<Rightarrow> int" where
  "truncate_ms at = stored_time at * 1000000"

lemma from_timestamp_millis_stored:
  "in_range chrono at \<Longrightarrow> from_timestamp_millis chrono (stored_time at) = Some (truncate_ms at)"
  by (simp add: from_timestamp_millis_def in_range_def truncate_ms_def)

lemma truncate_ms_bounds: "truncate_ms at \<le> at" "at < truncate_ms at + 1000000"
proof -
  have "at = at div 1000000 * 1000000 + at mod 1000000"
    by (simp only: div_mult_mod_eq)
  moreover have "0 \<le> at mod 1000000" "at mod 1000000 < 1000000"
    by simp_all
  ultimately show "truncate_ms at \<le> at" "at < truncate_ms at + 1000000"
    unfolding truncate_ms_def stored_time_def by linarith+
qed

section \<open>Statements\<close>

text \<open>\<^verbatim>\<open>INSERT OR IGNORE\<close>: the rows affected and the table after.\<close>

definition insert_or_ignore :: "'k \<Rightarrow> 'v \<Rightarrow> ('k, 'v) table \<Rightarrow> nat \<times> ('k, 'v) table" where
  "insert_or_ignore k v t =
     (case tbl_get t k of None \<Rightarrow> (1, tbl_put k v t) | Some _ \<Rightarrow> (0, t))"

datatype insert_error = NoEntropy | Exhausted

text \<open>The loop \<^verbatim>\<open>for _ in 0..ISSUE_ATTEMPTS\<close>: draw a key, try the insert, draw again while the key
  is taken.  \<open>i\<close> is the number of the draw.\<close>

fun insert_fresh :: "nat \<Rightarrow> nat \<Rightarrow> (nat \<Rightarrow> 'k option) \<Rightarrow> 'v \<Rightarrow> ('k, 'v) table \<Rightarrow>
    (insert_error, 'k) result \<times> ('k, 'v) table" where
  "insert_fresh 0 i draw v t = (Err Exhausted, t)"
| "insert_fresh (Suc n) i draw v t =
     (case draw i of
        None \<Rightarrow> (Err NoEntropy, t)
      | Some k \<Rightarrow>
          (case insert_or_ignore k v t of
             (written, t') \<Rightarrow> if written = 0 then insert_fresh n (Suc i) draw v t'
                              else (Ok k, t')))"

text \<open>A row by key, while it has not expired: \<^verbatim>\<open>WHERE id = ? AND expires_at > now\<close>.\<close>

definition live_get :: "('v \<Rightarrow> int) \<Rightarrow> int \<Rightarrow> ('k, 'v) table \<Rightarrow> 'k \<Rightarrow> 'v option" where
  "live_get expires now t k =
     (case tbl_get t k of None \<Rightarrow> None | Some v \<Rightarrow> if expires v > now then Some v else None)"

definition delete_expired :: "('v \<Rightarrow> int) \<Rightarrow> int \<Rightarrow> ('k, 'v) table \<Rightarrow> nat \<times> ('k, 'v) table" where
  "delete_expired expires now t =
     (tbl_count (\<lambda>_ v. expires v \<le> now) t, tbl_retain (\<lambda>_ v. \<not> expires v \<le> now) t)"

definition delete_for :: "('v \<Rightarrow> string) \<Rightarrow> string \<Rightarrow> ('k, 'v) table \<Rightarrow> nat \<times> ('k, 'v) table" where
  "delete_for owner subject t =
     (tbl_count (\<lambda>_ v. owner v = subject) t, tbl_retain (\<lambda>_ v. owner v \<noteq> subject) t)"

definition delete_key :: "'k \<Rightarrow> ('k, 'v) table \<Rightarrow> nat \<times> ('k, 'v) table" where
  "delete_key k t = (tbl_count (\<lambda>j _. j = k) t, tbl_del k t)"

section \<open>Laws of the statements\<close>

lemma insert_fresh_Ok:
  assumes "insert_fresh n i draw v t = (Ok k, t')"
  shows "tbl_get t k = None \<and> t' = tbl_put k v t \<and> (\<exists>j. i \<le> j \<and> j < i + n \<and> draw j = Some k)"
  using assms
proof (induction n arbitrary: i)
  case 0
  then show ?case by simp
next
  case (Suc n)
  show ?case
  proof (cases "draw i")
    case None
    with Suc.prems show ?thesis by simp
  next
    case (Some d)
    show ?thesis
    proof (cases "tbl_get t d")
      case None
      with Suc.prems Some show ?thesis by (auto simp: insert_or_ignore_def)
    next
      case taken: (Some w)
      with Suc.prems Some have "insert_fresh n (Suc i) draw v t = (Ok k, t')"
        by (simp add: insert_or_ignore_def)
      from Suc.IH [OF this] show ?thesis by (metis Suc_le_eq add_Suc add_Suc_right less_imp_le)
    qed
  qed
qed

lemma insert_fresh_Err:
  assumes "insert_fresh n i draw v t = (Err e, t')" shows "t' = t"
  using assms
  by (induction n arbitrary: i) (auto simp: insert_or_ignore_def split: option.splits)

lemma insert_fresh_first:
  "0 < n \<Longrightarrow> draw i = Some k \<Longrightarrow> tbl_get t k = None \<Longrightarrow>
   insert_fresh n i draw v t = (Ok k, tbl_put k v t)"
  by (cases n) (simp_all add: insert_or_ignore_def)

lemma insert_fresh_Exhausted_iff:
  "fst (insert_fresh n i draw v t) = Err Exhausted \<longleftrightarrow>
   (\<forall>j. i \<le> j \<and> j < i + n \<longrightarrow> (\<exists>k w. draw j = Some k \<and> tbl_get t k = Some w))"
proof (induction n arbitrary: i)
  case 0
  then show ?case by auto
next
  case (Suc n)
  have range: "(\<forall>j. i \<le> j \<and> j < i + Suc n \<longrightarrow> P j) \<longleftrightarrow> P i \<and> (\<forall>j. Suc i \<le> j \<and> j < Suc i + n \<longrightarrow> P j)"
    for P
    by (metis Suc_leI add_Suc_shift le_add_same_cancel1 le_eq_less_or_eq less_Suc_eq_le
        add_Suc_right not_less_eq_eq zero_le)
  show ?case
    unfolding range using Suc
    by (auto simp: insert_or_ignore_def split: option.splits)
qed

lemma live_get_put [table_simps]:
  "live_get expires now (tbl_put k v t) j =
   (if j = k then (if expires v > now then Some v else None) else live_get expires now t j)"
  by (simp add: live_get_def table_simps)

lemma live_get_eq_Some_iff:
  "live_get expires now t k = Some v \<longleftrightarrow> tbl_get t k = Some v \<and> now < expires v"
  by (auto simp: live_get_def split: option.splits)

text \<open>Sweeping is housekeeping: no later read of a live row can tell whether it ran.\<close>

lemma live_get_delete_expired:
  assumes "tbl_wf t" and "swept \<le> now"
  shows "live_get expires now (snd (delete_expired expires swept t)) k = live_get expires now t k"
  using tbl.retain_unobservable [OF assms(1),
      of "\<lambda>_ v. \<not> expires v \<le> swept" k "\<lambda>r. case r of None \<Rightarrow> None | Some v \<Rightarrow>
        if expires v > now then Some v else None"] assms(2)
  by (simp add: live_get_def delete_expired_def)

lemma live_get_delete_for:
  assumes "tbl_wf t"
  shows "live_get expires now (snd (delete_for owner subject t)) k =
    (case live_get expires now t k of None \<Rightarrow> None
     | Some v \<Rightarrow> if owner v = subject then None else Some v)"
  using assms by (auto simp: live_get_def delete_for_def table_simps split: option.splits)

lemma live_get_delete_key:
  "live_get expires now (snd (delete_key k t)) j = (if j = k then None else live_get expires now t j)"
  by (simp add: live_get_def delete_key_def table_simps)

lemma fst_delete_for_pos_iff:
  "tbl_wf t \<Longrightarrow> 0 < fst (delete_for owner subject t) \<longleftrightarrow> (\<exists>k v. tbl_get t k = Some v \<and> owner v = subject)"
  by (auto simp: delete_for_def tbl.count_pos_iff)

lemma tbl_get_delete_for:
  "tbl_wf t \<Longrightarrow> tbl_get (snd (delete_for owner subject t)) k = Some v \<longleftrightarrow>
   tbl_get t k = Some v \<and> owner v \<noteq> subject"
  by (simp add: delete_for_def tbl.get_retain_Some_iff)

lemma tbl_wf_delete [simp]:
  "tbl_wf t \<Longrightarrow> tbl_wf (snd (delete_for owner subject t))"
  "tbl_wf t \<Longrightarrow> tbl_wf (snd (delete_expired expires now t))"
  "tbl_wf t \<Longrightarrow> tbl_wf (snd (delete_key k t))"
  by (simp_all add: delete_for_def delete_expired_def delete_key_def)

lemma tbl_wf_insert_fresh:
  "tbl_wf t \<Longrightarrow> insert_fresh n i draw v t = (r, t') \<Longrightarrow> tbl_wf t'"
  by (cases r) (auto dest: insert_fresh_Err insert_fresh_Ok)

end
