(* ===== verification/Api_Tokens.thy ===== *)
theory Api_Tokens
  imports Credentials Hex "HOL-Library.List_Lexorder" "HOL-Library.Product_Lexorder"
begin

text \<open>
  Personal access tokens: the value types of \<^verbatim>\<open>src/tokens/token.rs\<close>, the store of
  \<^verbatim>\<open>src/tokens/store.rs\<close> over the statements of \<^verbatim>\<open>src/tokens/dialect/sqlite.rs\<close>, and the
  bearer extractor of \<^verbatim>\<open>src/tokens/extract.rs\<close>.

  The table is the state; every store operation takes it and, where it writes, returns it.  \<open>now\<close> is
  the database's clock in milliseconds for the statements that read it, and the process's clock in
  nanoseconds for \<^verbatim>\<open>Utc::now()\<close>.  A connection that fails is not modelled: the \<^verbatim>\<open>?\<close> on a
  statement passes the driver's error on and the table stays as it was.
\<close>

section \<open>The code: value types\<close>

definition ID_BYTES :: nat where
  "ID_BYTES = 16"

definition SECRET_BYTES :: nat where
  "SECRET_BYTES = 32"

definition TOKEN_PREFIX :: string where
  "TOKEN_PREFIX = ''arcpat_''"

datatype ApiTokenId = ApiTokenId (id_bytes: bytes)

definition api_token_id_from_hex :: "string \<Rightarrow> ApiTokenId option" where
  "api_token_id_from_hex text = map_option ApiTokenId (hex_decode ID_BYTES text)"

definition api_token_id_to_hex :: "ApiTokenId \<Rightarrow> string" where
  "api_token_id_to_hex i = hex_encode (id_bytes i)"

datatype Abilities = Abilities (entries: "string list")

definition ABILITY_ALL :: string where
  "ABILITY_ALL = ''*''"

definition abilities_all :: Abilities where
  "abilities_all = Abilities [ABILITY_ALL]"

definition abilities_none :: Abilities where
  "abilities_none = Abilities []"

definition abilities_of :: "string list \<Rightarrow> Abilities" where
  "abilities_of xs = Abilities xs"

definition abilities_with :: "Abilities \<Rightarrow> string \<Rightarrow> Abilities" where
  "abilities_with a ability = Abilities (entries a @ [ability])"

definition abilities_contains :: "Abilities \<Rightarrow> string \<Rightarrow> bool" where
  "abilities_contains a ability = (\<exists>entry \<in> set (entries a). entry = ABILITY_ALL \<or> entry = ability)"

definition is_all :: "Abilities \<Rightarrow> bool" where
  "is_all a = (\<exists>entry \<in> set (entries a). entry = ABILITY_ALL)"

definition format_plaintext :: "bytes \<Rightarrow> bytes \<Rightarrow> string" where
  "format_plaintext ident secret = TOKEN_PREFIX @ hex_encode ident @ ''_'' @ hex_encode secret"

definition parse_plaintext :: "string \<Rightarrow> (ApiTokenId \<times> bytes) option" where
  "parse_plaintext presented =
     Option.bind (strip_prefix TOKEN_PREFIX presented) (\<lambda>rest.
     Option.bind (split_once CHR ''_'' rest) (\<lambda>(id_hex, secret_hex).
     (case (hex_decode ID_BYTES id_hex, hex_decode SECRET_BYTES secret_hex) of
        (Some ident, Some secret) \<Rightarrow> Some (ApiTokenId ident, secret)
      | _ \<Rightarrow> None)))"

record ApiToken =
  tok_id :: ApiTokenId
  tok_tokenable_id :: string
  tok_name :: string
  tok_abilities :: Abilities
  tok_expires_at :: int
  tok_created_at :: int

definition can :: "ApiToken \<Rightarrow> string \<Rightarrow> bool" where
  "can token ability = abilities_contains (tok_abilities token) ability"

record NewApiToken =
  new_tokenable_id :: string
  new_name :: string
  new_abilities :: Abilities
  new_expires_at :: int

definition new_api_token :: "string \<Rightarrow> string \<Rightarrow> int \<Rightarrow> NewApiToken" where
  "new_api_token tokenable_id name expires_at =
     \<lparr>new_tokenable_id = tokenable_id, new_name = name, new_abilities = abilities_none,
      new_expires_at = expires_at\<rparr>"

definition expiring_in :: "chrono \<Rightarrow> int \<Rightarrow> string \<Rightarrow> string \<Rightarrow> int \<Rightarrow> NewApiToken" where
  "expiring_in chrono now tokenable_id name ttl =
     (let delta = (case delta_from_std chrono ttl of Some d \<Rightarrow> d | None \<Rightarrow> delta_max chrono);
          expires_at = (case checked_add_signed chrono now delta of
                          Some t \<Rightarrow> t | None \<Rightarrow> utc_max chrono)
      in new_api_token tokenable_id name expires_at)"

definition with_ability :: "NewApiToken \<Rightarrow> string \<Rightarrow> NewApiToken" where
  "with_ability request ability =
     request\<lparr>new_abilities := abilities_with (new_abilities request) ability\<rparr>"

record IssuedApiToken =
  issued_token :: ApiToken
  issued_plaintext :: string

section \<open>The code: the store\<close>

datatype ApiTokenError = Entropy | Decode | Expiry int | IdCollision nat

text \<open>The abilities column holds JSON: \<open>None\<close> stands for a value that is not an array of strings.\<close>

record TokenRow =
  row_digest :: bytes
  row_tokenable_id :: string
  row_name :: string
  row_abilities :: "string list option"
  row_expires_at :: int
  row_created_at :: int

type_synonym tokens = "(bytes, TokenRow) table"

definition ISSUE_ATTEMPTS :: nat where
  "ISSUE_ATTEMPTS = 8"

definition restored_time :: "chrono \<Rightarrow> int \<Rightarrow> (ApiTokenError, int) result" where
  "restored_time chrono stored = ok_or (from_timestamp_millis chrono stored) (Expiry stored)"

definition issue :: "(bytes \<Rightarrow> bytes) \<Rightarrow> int \<Rightarrow> bytes option \<Rightarrow> (nat \<Rightarrow> bytes option) \<Rightarrow>
    NewApiToken \<Rightarrow> tokens \<Rightarrow> (ApiTokenError, IssuedApiToken) result \<times> tokens" where
  "issue digest_of now random_secret random_id request db =
     (case random_secret of
        None \<Rightarrow> (Err Entropy, db)
      | Some secret \<Rightarrow>
          (let row = \<lparr>row_digest = digest_of secret,
                      row_tokenable_id = new_tokenable_id request,
                      row_name = new_name request,
                      row_abilities = Some (entries (new_abilities request)),
                      row_expires_at = stored_time (new_expires_at request),
                      row_created_at = stored_time now\<rparr>
           in case insert_fresh ISSUE_ATTEMPTS 0 random_id row db of
                (Inl NoEntropy, db') \<Rightarrow> (Err Entropy, db')
              | (Inl Exhausted, db') \<Rightarrow> (Err (IdCollision ISSUE_ATTEMPTS), db')
              | (Inr ident, db') \<Rightarrow>
                  (Ok \<lparr>issued_token =
                         \<lparr>tok_id = ApiTokenId ident,
                          tok_tokenable_id = new_tokenable_id request,
                          tok_name = new_name request,
                          tok_abilities = new_abilities request,
                          tok_expires_at = new_expires_at request,
                          tok_created_at = now\<rparr>,
                       issued_plaintext = format_plaintext ident secret\<rparr>, db')))"

definition abilities_at :: "TokenRow \<Rightarrow> (ApiTokenError, Abilities) result" where
  "abilities_at row = rbind (ok_or (row_abilities row) Decode) (\<lambda>stored. Ok (abilities_of stored))"

text \<open>A row read back into a token: \<^verbatim>\<open>abilities_at\<close>, the two \<^verbatim>\<open>restored_time\<close> calls and
  \<^verbatim>\<open>ApiToken::from_row\<close>, as \<^verbatim>\<open>find\<close>, \<^verbatim>\<open>authenticate\<close> and \<^verbatim>\<open>list_for\<close> all do.\<close>

definition token_of_row :: "chrono \<Rightarrow> ApiTokenId \<Rightarrow> TokenRow \<Rightarrow> (ApiTokenError, ApiToken) result" where
  "token_of_row chrono ident row =
     rbind (abilities_at row) (\<lambda>abilities.
     rbind (restored_time chrono (row_expires_at row)) (\<lambda>expires.
     rbind (restored_time chrono (row_created_at row)) (\<lambda>created.
     Ok \<lparr>tok_id = ident, tok_tokenable_id = row_tokenable_id row, tok_name = row_name row,
         tok_abilities = abilities, tok_expires_at = expires, tok_created_at = created\<rparr>)))"

definition find_token :: "chrono \<Rightarrow> int \<Rightarrow> ApiTokenId \<Rightarrow> tokens \<Rightarrow> (ApiTokenError, ApiToken option) result" where
  "find_token chrono now ident db =
     (case live_get row_expires_at now db (id_bytes ident) of
        None \<Rightarrow> Ok None
      | Some row \<Rightarrow> rbind (token_of_row chrono ident row) (\<lambda>token. Ok (Some token)))"

definition authenticate :: "(bytes \<Rightarrow> bytes) \<Rightarrow> chrono \<Rightarrow> int \<Rightarrow> string \<Rightarrow> tokens \<Rightarrow>
    (ApiTokenError, ApiToken option) result" where
  "authenticate digest_of chrono now presented db =
     (case parse_plaintext presented of
        None \<Rightarrow> Ok None
      | Some (ident, secret) \<Rightarrow>
          (case live_get row_expires_at now db (id_bytes ident) of
             None \<Rightarrow> Ok None
           | Some row \<Rightarrow>
               if digest_of secret \<noteq> row_digest row then Ok None
               else rbind (token_of_row chrono ident row) (\<lambda>token. Ok (Some token))))"

text \<open>\<^verbatim>\<open>LIST_FOR\<close> orders by creation, newest first, then by id.\<close>

definition select_list_for :: "int \<Rightarrow> string \<Rightarrow> tokens \<Rightarrow> (bytes \<times> TokenRow) list" where
  "select_list_for now tokenable_id db =
     sort_key (\<lambda>(ident, row). (- row_created_at row, ident))
       (filter (\<lambda>(_, row). row_tokenable_id row = tokenable_id \<and> row_expires_at row > now) db)"

fun tokens_of_rows :: "chrono \<Rightarrow> (bytes \<times> TokenRow) list \<Rightarrow> (ApiTokenError, ApiToken list) result" where
  "tokens_of_rows chrono [] = Ok []"
| "tokens_of_rows chrono ((raw_id, row) # rows) =
     (if length raw_id \<noteq> ID_BYTES then Err Decode
      else rbind (token_of_row chrono (ApiTokenId raw_id) row) (\<lambda>token.
           rbind (tokens_of_rows chrono rows) (\<lambda>rest. Ok (token # rest))))"

definition list_for :: "chrono \<Rightarrow> int \<Rightarrow> string \<Rightarrow> tokens \<Rightarrow> (ApiTokenError, ApiToken list) result" where
  "list_for chrono now tokenable_id db =
     tokens_of_rows chrono (select_list_for now tokenable_id db)"

definition revoke :: "ApiTokenId \<Rightarrow> tokens \<Rightarrow> bool \<times> tokens" where
  "revoke ident db = (case delete_key (id_bytes ident) db of (n, db') \<Rightarrow> (n > 0, db'))"

definition revoke_all_for :: "string \<Rightarrow> tokens \<Rightarrow> nat \<times> tokens" where
  "revoke_all_for tokenable_id db = delete_for row_tokenable_id tokenable_id db"

definition sweep_expired :: "int \<Rightarrow> tokens \<Rightarrow> nat \<times> tokens" where
  "sweep_expired now db = delete_expired row_expires_at now db"

section \<open>The code: the extractor\<close>

definition SCHEME :: string where
  "SCHEME = ''bearer''"

text \<open>The value of the \<^verbatim>\<open>Authorization\<close> header, \<open>None\<close> when it is absent or not visible ASCII.\<close>

definition bearer :: "string option \<Rightarrow> string option" where
  "bearer header =
     Option.bind header (\<lambda>text.
     Option.bind (split_once CHR '' '' text) (\<lambda>(scheme, credential).
     if \<not> eq_ignore_ascii_case scheme SCHEME then None
     else let credential = trim_start credential
          in if credential = [] then None else Some credential))"

datatype Rejection = Unauthenticated | Misconfigured | ServiceUnavailable

definition from_request_parts :: "(bytes \<Rightarrow> bytes) \<Rightarrow> chrono \<Rightarrow> int \<Rightarrow> tokens option \<Rightarrow> string option \<Rightarrow>
    (Rejection, ApiToken) result" where
  "from_request_parts digest_of chrono now extension header =
     rbind (ok_or extension Misconfigured) (\<lambda>db.
     rbind (ok_or (bearer header) Unauthenticated) (\<lambda>presented.
     (case authenticate digest_of chrono now presented db of
        Inr (Some token) \<Rightarrow> Ok token
      | Inr None \<Rightarrow> Err Unauthenticated
      | Inl _ \<Rightarrow> Err ServiceUnavailable)))"

section \<open>The wire format\<close>

text \<open>Both halves are read by one decoder of even-length texts.\<close>

definition hex_any :: "string \<Rightarrow> bytes option" where
  "hex_any text = (if even (length text) then unpairs nibble (chunks 2 (as_bytes text)) else None)"

lemma underscore_not_HEX: "CHR ''_'' \<notin> set HEX"
  by (simp add: HEX_def)

interpretation api_wire: wire_format hex_encode hex_any TOKEN_PREFIX "CHR ''_''" ID_BYTES SECRET_BYTES
proof unfold_locales
  fix b show "hex_any (hex_encode b) = Some b"
    by (simp add: hex_any_def unpairs_hex_encode)
next
  fix b show "CHR ''_'' \<notin> set (hex_encode b)"
    using set_hex_encode underscore_not_HEX by blast
qed

lemma hex_decode_any: "hex_decode n text = Option.bind (hex_any text)
    (\<lambda>b. if length b = n then Some b else None)"
proof (cases "even (length text)")
  case True
  then have "length b = length text div 2" if "unpairs nibble (chunks 2 (as_bytes text)) = Some b" for b
    using length_unpairs [OF that] by (simp add: length_chunks_2)
  with True show ?thesis
    by (cases "unpairs nibble (chunks 2 (as_bytes text))")
      (auto simp: hex_decode_def hex_any_def Let_def)
next
  case False
  then show ?thesis by (auto simp: hex_decode_def hex_any_def Let_def)
qed

lemma parse_plaintext_wire:
  "parse_plaintext presented =
   map_option (map_prod ApiTokenId id)
     (wire_read hex_any TOKEN_PREFIX CHR ''_'' ID_BYTES SECRET_BYTES presented)"
  unfolding parse_plaintext_def wire_read_def hex_decode_any
  by (cases "strip_prefix TOKEN_PREFIX presented"; simp split: option.splits)
    (auto split: prod.splits option.splits Option.bind_splits if_splits)

lemma format_plaintext_wire:
  "format_plaintext i s = wire_show hex_encode TOKEN_PREFIX CHR ''_'' i s"
  by (simp add: format_plaintext_def wire_show_def)

lemma parse_format_plaintext:
  "length i = ID_BYTES \<Longrightarrow> length s = SECRET_BYTES \<Longrightarrow>
   parse_plaintext (format_plaintext i s) = Some (ApiTokenId i, s)"
  by (simp add: parse_plaintext_wire format_plaintext_wire api_wire.read_show)

lemma ascii_lower_underscore: "ascii_lower (CHR ''_'') = CHR ''_''"
  by (simp add: ascii_lower_def)

lemma lower_hex_no_underscore: "to_ascii_lowercase a = hex_encode b \<Longrightarrow> CHR ''_'' \<notin> set a"
proof
  assume "to_ascii_lowercase a = hex_encode b" and "CHR ''_'' \<in> set a"
  then have "CHR ''_'' \<in> set (hex_encode b)"
    by (metis ascii_lower_underscore image_eqI list.set_map to_ascii_lowercase_def)
  then show False
    using set_hex_encode underscore_not_HEX by blast
qed

section \<open>Lemmas on the store\<close>

lemma issue_Ok:
  assumes "issue digest_of now (Some secret) random_id request db = (Ok issued, db')"
  obtains ident j where "random_id j = Some ident" "tbl_get db ident = None"
    and "issued_plaintext issued = format_plaintext ident secret"
    and "issued_token issued = \<lparr>tok_id = ApiTokenId ident,
      tok_tokenable_id = new_tokenable_id request, tok_name = new_name request,
      tok_abilities = new_abilities request, tok_expires_at = new_expires_at request,
      tok_created_at = now\<rparr>"
    and "db' = tbl_put ident \<lparr>row_digest = digest_of secret,
      row_tokenable_id = new_tokenable_id request, row_name = new_name request,
      row_abilities = Some (entries (new_abilities request)),
      row_expires_at = stored_time (new_expires_at request), row_created_at = stored_time now\<rparr> db"
  using assms
  by (auto simp: issue_def Let_def split: prod.splits sum.splits insert_error.splits
      dest!: insert_fresh_Ok)

lemma authenticate_parsed:
  "parse_plaintext presented = Some (ident, secret) \<Longrightarrow>
   authenticate digest_of chrono now presented db =
     (case live_get row_expires_at now db (id_bytes ident) of
        None \<Rightarrow> Ok None
      | Some row \<Rightarrow> if digest_of secret \<noteq> row_digest row then Ok None
          else rbind (token_of_row chrono ident row) (\<lambda>token. Ok (Some token)))"
  by (simp add: authenticate_def)

lemma authenticate_unparsed:
  "parse_plaintext presented = None \<Longrightarrow> authenticate digest_of chrono now presented db = Ok None"
  by (simp add: authenticate_def)

lemma token_of_row_Ok:
  "token_of_row chrono ident row = Ok tok \<Longrightarrow>
   tok_id tok = ident \<and> tok_tokenable_id tok = row_tokenable_id row
   \<and> (\<exists>stored. row_abilities row = Some stored \<and> tok_abilities tok = Abilities stored)"
  by (auto simp: token_of_row_def abilities_at_def rbind_eq_Ok_iff abilities_of_def ok_or_def split: option.splits)

lemma can_row:
  "tok_abilities token = Abilities xs \<Longrightarrow>
   can token ability \<longleftrightarrow> ABILITY_ALL \<in> set xs \<or> ability \<in> set xs"
  unfolding can_def abilities_contains_def by (simp, blast)

lemma id_bytes_inject [simp]: "id_bytes a = id_bytes b \<longleftrightarrow> a = b"
  by (cases a; cases b) simp

lemma snd_revoke: "snd (revoke ident db) = snd (delete_key (id_bytes ident) db)"
  by (simp add: revoke_def split: prod.splits)

text \<open>A run of the store for the witnesses: one token for \<open>u1\<close>, issued at 5 ms, dead at 9000 ms.\<close>

definition demo_chrono :: chrono where
  "demo_chrono = \<lparr>delta_max = 2 ^ 63, utc_min = - (2 ^ 70), utc_max = 2 ^ 70\<rparr>"

definition demo_issue :: "(ApiTokenError, IssuedApiToken) result \<times> tokens" where
  "demo_issue = issue rev 5000000 (Some (replicate 32 1)) (\<lambda>i. Some (replicate 16 2))
     (new_api_token ''u1'' ''ci'' 9000000000) tbl_empty"

lemma demo_issue_eq: "demo_issue = (Ok (projr (fst demo_issue)), snd demo_issue)"
  by (simp add: demo_issue_def issue_def ISSUE_ATTEMPTS_def insert_fresh_first table_simps Let_def)

section \<open>Properties\<close>

text \<open>
  The parser of presented API tokens accepts exactly the strings of the issued shape: the
  prefix, 16 bytes of id and 32 of secret in hexadecimal of either case, one underscore between.
\<close>

theorem parse_plaintext_accepts:
  "parse_plaintext presented = Some (ApiTokenId ident, secret) \<longleftrightarrow>
   length ident = ID_BYTES \<and> length secret = SECRET_BYTES
   \<and> (\<exists>a b. presented = TOKEN_PREFIX @ a @ ''_'' @ b
        \<and> to_ascii_lowercase a = hex_encode ident \<and> to_ascii_lowercase b = hex_encode secret)"
  (is "_ \<longleftrightarrow> ?R")
proof
  assume "parse_plaintext presented = Some (ApiTokenId ident, secret)"
  then show ?R
    by (auto simp: parse_plaintext_def bind_eq_Some_iff strip_prefix_eq_Some_iff
        split_once_eq_Some_iff hex_decode_iff split: option.splits prod.splits)
next
  assume ?R
  then obtain a b where r: "length ident = ID_BYTES" "length secret = SECRET_BYTES"
      "presented = TOKEN_PREFIX @ a @ CHR ''_'' # b"
      "to_ascii_lowercase a = hex_encode ident" "to_ascii_lowercase b = hex_encode secret"
    by auto
  then have "split_once CHR ''_'' (a @ CHR ''_'' # b) = Some (a, b)"
    by (intro split_once_append lower_hex_no_underscore)
  moreover have "hex_decode ID_BYTES a = Some ident" "hex_decode SECRET_BYTES b = Some secret"
    using r by (simp_all add: hex_decode_iff)
  ultimately show "parse_plaintext presented = Some (ApiTokenId ident, secret)"
    by (simp add: parse_plaintext_def r(3))
qed

text \<open>
  Issue, then authenticate: the plaintext handed out once authenticates, until its deadline in
  milliseconds has passed, to the very token that was issued (its instants rounded down to the
  millisecond the database keeps), and from the deadline on it is refused.
\<close>

theorem authenticate_issued:
  assumes "issue digest_of now (Some secret) random_id request db = (Ok issued, db')"
    and "length secret = SECRET_BYTES" and "\<forall>i b. random_id i = Some b \<longrightarrow> length b = ID_BYTES"
    and "in_range chrono (new_expires_at request)" and "in_range chrono now"
  shows "authenticate digest_of chrono later (issued_plaintext issued) db' =
    Ok (if later < stored_time (new_expires_at request)
        then Some (issued_token issued\<lparr>tok_expires_at := truncate_ms (new_expires_at request),
                                       tok_created_at := truncate_ms now\<rparr>)
        else None)"
proof -
  from issue_Ok [OF assms(1)] obtain ident j where i: "random_id j = Some ident"
    and p: "issued_plaintext issued = format_plaintext ident secret"
    and t: "issued_token issued = \<lparr>tok_id = ApiTokenId ident,
      tok_tokenable_id = new_tokenable_id request, tok_name = new_name request,
      tok_abilities = new_abilities request, tok_expires_at = new_expires_at request,
      tok_created_at = now\<rparr>"
    and db': "db' = tbl_put ident \<lparr>row_digest = digest_of secret,
      row_tokenable_id = new_tokenable_id request, row_name = new_name request,
      row_abilities = Some (entries (new_abilities request)),
      row_expires_at = stored_time (new_expires_at request), row_created_at = stored_time now\<rparr> db"
    by blast
  have "parse_plaintext (issued_plaintext issued) = Some (ApiTokenId ident, secret)"
    using i p assms(2,3) by (simp add: parse_format_plaintext)
  then show ?thesis
    using assms(4,5)
    by (simp add: authenticate_parsed db' table_simps token_of_row_def restored_time_def
        from_timestamp_millis_stored t abilities_of_def abilities_at_def)
qed

theorem authenticate_issued_witness:
  "(\<exists>token. authenticate rev demo_chrono 8999 (issued_plaintext (projr (fst demo_issue))) (snd demo_issue)
       = Ok (Some token))
   \<and> authenticate rev demo_chrono 9000 (issued_plaintext (projr (fst demo_issue))) (snd demo_issue)
       = Ok None"
proof -
  note issued = authenticate_issued [OF demo_issue_eq [unfolded demo_issue_def],
      folded demo_issue_def, of demo_chrono]
  show ?thesis
    using issued [of 8999] issued [of 9000]
    by (simp add: SECRET_BYTES_def ID_BYTES_def in_range_def demo_chrono_def stored_time_def
        new_api_token_def)
qed

text \<open>
  C8.  What authenticates was issued: a presented string authenticates only by parsing to the id of
  a row that has not expired and to a secret with that row's digest, and the token it yields has
  that row's owner and abilities.
\<close>

theorem authenticate_sound:
  assumes "authenticate digest_of chrono now presented db = Ok (Some token)"
  shows "\<exists>secret row abilities. parse_plaintext presented = Some (tok_id token, secret)
    \<and> tbl_get db (id_bytes (tok_id token)) = Some row \<and> now < row_expires_at row
    \<and> digest_of secret = row_digest row \<and> tok_tokenable_id token = row_tokenable_id row
    \<and> row_abilities row = Some abilities
    \<and> (\<forall>ability. can token ability \<longleftrightarrow> ABILITY_ALL \<in> set abilities \<or> ability \<in> set abilities)"
  using assms
  by (auto simp: authenticate_def rbind_eq_Ok_iff live_get_eq_Some_iff can_row
      split: option.splits if_splits dest!: token_of_row_Ok)

definition demo_presented :: string where
  "demo_presented = format_plaintext (replicate 16 2) (replicate 32 1)"

definition demo_tokens :: tokens where
  "demo_tokens = [(replicate 16 2, \<lparr>row_digest = replicate 32 1, row_tokenable_id = ''u1'',
     row_name = ''ci'', row_abilities = Some [''read''], row_expires_at = 9000, row_created_at = 5\<rparr>)]"

lemma demo_authenticate:
  "authenticate rev demo_chrono 7 demo_presented demo_tokens = Ok (Some \<lparr>
     tok_id = ApiTokenId (replicate 16 2), tok_tokenable_id = ''u1'', tok_name = ''ci'',
     tok_abilities = Abilities [''read''], tok_expires_at = 9000000000, tok_created_at = 5000000\<rparr>)"
  by (simp add: authenticate_parsed [OF parse_format_plaintext] demo_presented_def ID_BYTES_def
      SECRET_BYTES_def demo_tokens_def live_get_def tbl_get_def token_of_row_def restored_time_def
      from_timestamp_millis_def demo_chrono_def abilities_of_def abilities_at_def)

theorem authenticate_sound_witness:
  "\<exists>secret row. parse_plaintext demo_presented = Some (ApiTokenId (replicate 16 2), secret)
     \<and> tbl_get demo_tokens (replicate 16 2) = Some row \<and> rev secret = row_digest row"
  using authenticate_sound [OF demo_authenticate] by auto

text \<open>
  Revocation is immediate and exact: after \<^verbatim>\<open>revoke\<close> the revoked token's plaintext
  authenticates to nothing, after \<^verbatim>\<open>revoke_all_for\<close> none of the owner's does, and every other
  credential answers exactly as before; the sweep of expired rows changes no answer at all.
\<close>

theorem revocation_exact:
  assumes "tbl_wf db" and "swept \<le> now"
  shows "authenticate digest_of chrono now presented (snd (revoke ident db)) =
      (if \<exists>secret. parse_plaintext presented = Some (ident, secret) then Ok None
       else authenticate digest_of chrono now presented db)
    \<and> authenticate digest_of chrono now presented (snd (revoke_all_for owner db)) =
      (if \<exists>ident secret row. parse_plaintext presented = Some (ident, secret)
            \<and> tbl_get db (id_bytes ident) = Some row \<and> row_tokenable_id row = owner then Ok None
       else authenticate digest_of chrono now presented db)
    \<and> authenticate digest_of chrono now presented (snd (sweep_expired swept db)) =
      authenticate digest_of chrono now presented db"
proof (cases "parse_plaintext presented")
  case None
  then show ?thesis by (simp add: authenticate_unparsed)
next
  case (Some x)
  obtain i s where x: "x = (i, s)"
    by (cases x)
  note parsed = authenticate_parsed [OF Some [unfolded x]]
  have "authenticate digest_of chrono now presented (snd (revoke ident db)) =
      (if i = ident then Ok None else authenticate digest_of chrono now presented db)"
    unfolding parsed
    by (cases "i = ident") (simp_all add: live_get_delete_key snd_revoke)
  moreover have "authenticate digest_of chrono now presented (snd (revoke_all_for owner db)) =
      (if \<exists>row. tbl_get db (id_bytes i) = Some row \<and> row_tokenable_id row = owner then Ok None
       else authenticate digest_of chrono now presented db)"
    unfolding parsed revoke_all_for_def live_get_delete_for [OF assms(1)]
    by (auto simp: live_get_def split: option.splits)
  moreover have "authenticate digest_of chrono now presented (snd (sweep_expired swept db)) =
      authenticate digest_of chrono now presented db"
    unfolding parsed sweep_expired_def live_get_delete_expired [OF assms] ..
  ultimately show ?thesis
    using Some x by simp
qed

theorem revocation_exact_witness:
  "authenticate rev demo_chrono 7 demo_presented (snd (revoke (ApiTokenId (replicate 16 2)) demo_tokens))
     = Ok None
   \<and> authenticate rev demo_chrono 7 demo_presented (snd (revoke_all_for ''u2'' demo_tokens)) =
     authenticate rev demo_chrono 7 demo_presented demo_tokens"
proof -
  have "tbl_wf demo_tokens" "(6 :: int) \<le> 7"
    by (simp_all add: demo_tokens_def tbl_wf_def)
  note exact = revocation_exact [OF this, of rev demo_chrono demo_presented]
  have "parse_plaintext demo_presented = Some (ApiTokenId (replicate 16 2), replicate 32 1)"
    by (simp add: demo_presented_def parse_format_plaintext ID_BYTES_def SECRET_BYTES_def)
  then show ?thesis
    using exact [of "ApiTokenId (replicate 16 2)" "''u2''"]
    by (simp add: demo_tokens_def tbl_get_def)
qed

end
