(* ===== verification/Password_Resets.thy ===== *)
theory Password_Resets
  imports Credentials Base64url
begin

text \<open>
  Password-reset links: the wire format of \<^verbatim>\<open>src/auth/flows/reset/token.rs\<close> and the store of
  \<^verbatim>\<open>src/auth/flows/reset/store.rs\<close> over \<^verbatim>\<open>src/auth/flows/reset/dialect/sqlite.rs\<close>.

  \<^verbatim>\<open>consume\<close> runs two statements, a read and the deleting spend; \<open>consume_find\<close> and
  \<open>consume_spend\<close> are its two halves, \<open>consume\<close> their composition, and \<open>reset_step\<close> the system in which
  the halves of many requests interleave with each other and with the other operations.
\<close>

section \<open>The code: wire format\<close>

definition RESET_ID_BYTES :: nat where
  "RESET_ID_BYTES = 16"

definition RESET_SECRET_BYTES :: nat where
  "RESET_SECRET_BYTES = 32"

definition RESET_TOKEN_PREFIX :: string where
  "RESET_TOKEN_PREFIX = ''arcpwr_''"

definition RESET_SEPARATOR :: char where
  "RESET_SEPARATOR = CHR ''.''"

definition reset_format_plaintext :: "bytes \<Rightarrow> bytes \<Rightarrow> string" where
  "reset_format_plaintext ident secret =
     RESET_TOKEN_PREFIX @ encode ident @ RESET_SEPARATOR # encode secret"

definition reset_parse_plaintext :: "string \<Rightarrow> (bytes \<times> bytes) option" where
  "reset_parse_plaintext presented =
     Option.bind (strip_prefix RESET_TOKEN_PREFIX presented) (\<lambda>rest.
     Option.bind (split_once RESET_SEPARATOR rest) (\<lambda>(id_text, secret_text).
     Option.bind (decode id_text) (\<lambda>ident. if length ident \<noteq> RESET_ID_BYTES then None else
     Option.bind (decode secret_text) (\<lambda>secret. if length secret \<noteq> RESET_SECRET_BYTES then None else
     Some (ident, secret)))))"

section \<open>The code: the store\<close>

datatype PasswordResetError = ResetEntropy | ResetExpiry | ResetIdCollision nat

record ResetRow =
  reset_digest :: bytes
  reset_subject :: string
  reset_expires_at :: int
  reset_created_at :: int

type_synonym resets = "(bytes, ResetRow) table"

record IssuedPasswordReset =
  pr_subject :: string
  pr_expires_at :: int
  pr_plaintext :: string

definition RESET_ISSUE_ATTEMPTS :: nat where
  "RESET_ISSUE_ATTEMPTS = 8"

definition reset_deadline :: "chrono \<Rightarrow> int \<Rightarrow> int \<Rightarrow> (PasswordResetError, int) result" where
  "reset_deadline chrono now ttl =
     rbind (ok_or (delta_from_std chrono ttl) ResetExpiry) (\<lambda>delta.
     ok_or (checked_add_signed chrono now delta) ResetExpiry)"

definition reset_issue :: "(bytes \<Rightarrow> bytes) \<Rightarrow> chrono \<Rightarrow> int \<Rightarrow> bytes option \<Rightarrow> (nat \<Rightarrow> bytes option) \<Rightarrow>
    string \<Rightarrow> int \<Rightarrow> resets \<Rightarrow> (PasswordResetError, IssuedPasswordReset) result \<times> resets" where
  "reset_issue digest_of chrono now random_secret random_id subject ttl db =
     (case reset_deadline chrono now ttl of
        Inl e \<Rightarrow> (Err e, db)
      | Inr expires_at \<Rightarrow>
          (case random_secret of
             None \<Rightarrow> (Err ResetEntropy, db)
           | Some secret \<Rightarrow>
               (let row = \<lparr>reset_digest = digest_of secret, reset_subject = subject,
                           reset_expires_at = stored_time expires_at,
                           reset_created_at = stored_time now\<rparr>;
                    cleared = snd (delete_for reset_subject subject db)
                in case insert_fresh RESET_ISSUE_ATTEMPTS 0 random_id row cleared of
                     (Inl NoEntropy, db') \<Rightarrow> (Err ResetEntropy, db')
                   | (Inl Exhausted, db') \<Rightarrow> (Err (ResetIdCollision RESET_ISSUE_ATTEMPTS), db')
                   | (Inr ident, db') \<Rightarrow>
                       (Ok \<lparr>pr_subject = subject, pr_expires_at = expires_at,
                            pr_plaintext = reset_format_plaintext ident secret\<rparr>, db'))))"

definition consume_find :: "(bytes \<Rightarrow> bytes) \<Rightarrow> int \<Rightarrow> string \<Rightarrow> resets \<Rightarrow> string option" where
  "consume_find digest_of now presented db =
     (case reset_parse_plaintext presented of
        None \<Rightarrow> None
      | Some (ident, secret) \<Rightarrow>
          (case live_get reset_expires_at now db ident of
             None \<Rightarrow> None
           | Some row \<Rightarrow>
               if digest_of secret \<noteq> reset_digest row then None else Some (reset_subject row)))"

definition consume_spend :: "string \<Rightarrow> resets \<Rightarrow> string option \<times> resets" where
  "consume_spend subject db =
     (case delete_for reset_subject subject db of
        (spent, db') \<Rightarrow> (if spent = 0 then None else Some subject, db'))"

definition consume :: "(bytes \<Rightarrow> bytes) \<Rightarrow> int \<Rightarrow> string \<Rightarrow> resets \<Rightarrow> string option \<times> resets" where
  "consume digest_of now presented db =
     (case consume_find digest_of now presented db of
        None \<Rightarrow> (None, db)
      | Some subject \<Rightarrow> consume_spend subject db)"

definition reset_revoke_all_for :: "string \<Rightarrow> resets \<Rightarrow> nat \<times> resets" where
  "reset_revoke_all_for subject db = delete_for reset_subject subject db"

definition reset_sweep_expired :: "int \<Rightarrow> resets \<Rightarrow> nat \<times> resets" where
  "reset_sweep_expired now db = delete_expired reset_expires_at now db"

section \<open>Interleaving\<close>

text \<open>
  The database with the requests in flight: those that have read a matching row and not yet run
  their spend, and those the store told that the link was theirs.  \<open>may_issue\<close> says for which
  subjects a new link is issued during the run.
\<close>

record reset_system =
  db :: resets
  pending :: "(string \<times> string) list"
  accepted :: "(string \<times> string) list"

inductive reset_step :: "(bytes \<Rightarrow> bytes) \<Rightarrow> chrono \<Rightarrow> (string \<Rightarrow> bool) \<Rightarrow> reset_system \<Rightarrow> reset_system \<Rightarrow>
    bool" for digest_of chrono may_issue where
  step_find: "consume_find digest_of now presented (db s) = Some subject \<Longrightarrow>
    reset_step digest_of chrono may_issue s (s\<lparr>pending := (presented, subject) # pending s\<rparr>)"
| step_spend_won: "(presented, subject) \<in> set (pending s) \<Longrightarrow>
    consume_spend subject (db s) = (Some subject, db') \<Longrightarrow>
    reset_step digest_of chrono may_issue s
      (s\<lparr>db := db', pending := remove1 (presented, subject) (pending s),
         accepted := (presented, subject) # accepted s\<rparr>)"
| step_spend_lost: "(presented, subject) \<in> set (pending s) \<Longrightarrow>
    consume_spend subject (db s) = (None, db') \<Longrightarrow>
    reset_step digest_of chrono may_issue s
      (s\<lparr>db := db', pending := remove1 (presented, subject) (pending s)\<rparr>)"
| step_issue: "may_issue subject \<Longrightarrow>
    reset_issue digest_of chrono now random_secret random_id subject ttl (db s) = (r, db') \<Longrightarrow>
    reset_step digest_of chrono may_issue s (s\<lparr>db := db'\<rparr>)"
| step_revoke: "reset_step digest_of chrono may_issue s
    (s\<lparr>db := snd (reset_revoke_all_for subject (db s))\<rparr>)"
| step_sweep: "reset_step digest_of chrono may_issue s
    (s\<lparr>db := snd (reset_sweep_expired now (db s))\<rparr>)"

inductive_cases reset_stepE: "reset_step digest_of chrono may_issue s s'"

definition accepted_for :: "string \<Rightarrow> reset_system \<Rightarrow> nat" where
  "accepted_for subject s = length (filter (\<lambda>(_, u). u = subject) (accepted s))"

definition no_rows_for :: "string \<Rightarrow> resets \<Rightarrow> bool" where
  "no_rows_for subject t = (\<forall>k v. tbl_get t k = Some v \<longrightarrow> reset_subject v \<noteq> subject)"

section \<open>The wire format\<close>

interpretation reset_wire: canonical_wire_format encode decode RESET_TOKEN_PREFIX RESET_SEPARATOR
  RESET_ID_BYTES RESET_SECRET_BYTES
proof unfold_locales
  fix b show "RESET_SEPARATOR \<notin> set (encode b)"
    unfolding RESET_SEPARATOR_def by (rule encode_avoids) (rule sep_not_ALPHABET(1))
qed

lemma reset_parse_wire:
  "reset_parse_plaintext =
   wire_read decode RESET_TOKEN_PREFIX RESET_SEPARATOR RESET_ID_BYTES RESET_SECRET_BYTES"
  by (rule ext) (simp add: reset_parse_plaintext_def wire_read_def)

lemma reset_format_wire:
  "reset_format_plaintext = wire_show encode RESET_TOKEN_PREFIX RESET_SEPARATOR"
  by (rule ext)+ (simp add: reset_format_plaintext_def wire_show_def)

section \<open>Lemmas on the store\<close>

lemma reset_issue_Ok:
  assumes "reset_issue digest_of chrono now (Some secret) random_id subject ttl t = (Ok issued, t')"
  obtains ident j expires_at where "reset_deadline chrono now ttl = Ok expires_at"
    and "random_id j = Some ident"
    and "issued = \<lparr>pr_subject = subject, pr_expires_at = expires_at,
      pr_plaintext = reset_format_plaintext ident secret\<rparr>"
    and "t' = tbl_put ident \<lparr>reset_digest = digest_of secret, reset_subject = subject,
      reset_expires_at = stored_time expires_at, reset_created_at = stored_time now\<rparr>
      (snd (delete_for reset_subject subject t))"
  using assms
  by (auto simp: reset_issue_def Let_def split: prod.splits sum.splits insert_error.splits
      dest!: insert_fresh_Ok)

lemma reset_issue_table:
  assumes "reset_issue digest_of chrono now random_secret random_id subject ttl t = (r, t')"
  obtains "t' = t" | "t' = snd (delete_for reset_subject subject t)"
  | k row where "reset_subject row = subject"
      and "t' = tbl_put k row (snd (delete_for reset_subject subject t))"
proof -
  have "t' = t \<or> t' = snd (delete_for reset_subject subject t) \<or>
      (\<exists>k row. reset_subject row = subject
         \<and> t' = tbl_put k row (snd (delete_for reset_subject subject t)))"
    using assms
    by (auto simp: reset_issue_def Let_def dest!: insert_fresh_Ok insert_fresh_Err
        split: prod.splits sum.splits insert_error.splits option.splits)
      (metis ResetRow.select_convs(2))+
  with that show thesis by blast
qed

lemma reset_issue_wf:
  assumes "tbl_wf t"
    and "reset_issue digest_of chrono now random_secret random_id subject ttl t = (r, t')"
  shows "tbl_wf t'"
  using assms(2) by (cases rule: reset_issue_table) (auto simp: assms(1))

lemma consume_spend_eq:
  "tbl_wf t \<Longrightarrow> consume_spend u t =
   (if no_rows_for u t then None else Some u, snd (delete_for reset_subject u t))"
  using fst_delete_for_pos_iff [of t reset_subject u]
  by (auto simp: consume_spend_def no_rows_for_def split: prod.splits)

lemma no_rows_after_delete: "tbl_wf t \<Longrightarrow> no_rows_for u (snd (delete_for reset_subject u t))"
  by (simp add: no_rows_for_def tbl_get_delete_for)

lemma no_rows_delete:
  "tbl_wf t \<Longrightarrow> no_rows_for u t \<Longrightarrow> no_rows_for u (snd (delete_for reset_subject v t))"
  "tbl_wf t \<Longrightarrow> no_rows_for u t \<Longrightarrow> no_rows_for u (snd (delete_expired reset_expires_at now t))"
  by (auto simp: no_rows_for_def tbl_get_delete_for delete_expired_def tbl.get_retain_Some_iff)

lemma no_rows_put: "no_rows_for u t \<Longrightarrow> reset_subject v \<noteq> u \<Longrightarrow> no_rows_for u (tbl_put k v t)"
  by (simp add: no_rows_for_def table_simps)

lemma reset_issue_other:
  assumes "tbl_wf t" and "no_rows_for u t" and "subject \<noteq> u"
    and "reset_issue digest_of chrono now random_secret random_id subject ttl t = (r, t')"
  shows "no_rows_for u t'"
  using assms(4)
  by (cases rule: reset_issue_table) (use assms(1-3) in \<open>auto intro: no_rows_put no_rows_delete\<close>)

lemma consume_find_no_rows: "no_rows_for u t \<Longrightarrow> consume_find digest_of now presented t \<noteq> Some u"
  by (auto simp: consume_find_def no_rows_for_def live_get_def split: option.splits if_splits)

section \<open>Invariants of the interleaved system\<close>

definition spend_inv :: "string \<Rightarrow> reset_system \<Rightarrow> bool" where
  "spend_inv u s = (tbl_wf (db s) \<and>
     (accepted_for u s = 0 \<or> accepted_for u s = 1 \<and> no_rows_for u (db s)))"

lemma spend_inv_step:
  assumes "reset_step digest_of chrono may_issue s s'" and "\<not> may_issue u" and "spend_inv u s"
  shows "spend_inv u s'"
  using assms(1)
proof cases
  case (step_spend_won presented subject db')
  have wf: "tbl_wf (db s)"
    using assms(3) by (simp add: spend_inv_def)
  have d: "db' = snd (delete_for reset_subject subject (db s))" "\<not> no_rows_for subject (db s)"
    using step_spend_won consume_spend_eq [OF wf, of subject] by (auto split: if_splits)
  with assms(3) wf show ?thesis
    unfolding step_spend_won(1) spend_inv_def accepted_for_def
    by (auto simp: no_rows_after_delete no_rows_delete)
next
  case (step_issue subject now random_secret random_id ttl r db')
  then have "subject \<noteq> u"
    using assms(2) by auto
  with step_issue assms(3) show ?thesis
    by (auto simp: spend_inv_def accepted_for_def intro: reset_issue_wf reset_issue_other)
qed (use assms(3) in \<open>auto simp: spend_inv_def accepted_for_def consume_spend_eq
    reset_revoke_all_for_def reset_sweep_expired_def no_rows_delete\<close>)

lemma spend_inv_steps:
  assumes "(reset_step digest_of chrono may_issue)\<^sup>*\<^sup>* s s'" and "\<not> may_issue u" and "spend_inv u s"
  shows "spend_inv u s'"
  using assms by (induction rule: rtranclp_induct) (auto intro: spend_inv_step)

section \<open>Properties\<close>

text \<open>
  A reset link names one row: the parser accepts exactly what \<^verbatim>\<open>format_plaintext\<close> writes for an
  id of 16 bytes and a secret of 32, and returns them.
\<close>

theorem reset_parse_iff_format:
  "reset_parse_plaintext presented = Some (ident, secret) \<longleftrightarrow>
   length ident = RESET_ID_BYTES \<and> length secret = RESET_SECRET_BYTES
   \<and> presented = reset_format_plaintext ident secret"
  unfolding reset_parse_wire reset_format_wire
  using reset_wire.read_show reset_wire.read_only_shown reset_wire.read_lengths by blast

text \<open>
  A reset link works once, and the newest link is the only one.  Consuming the link just issued
  yields its subject; consuming it again yields nothing; and no other link of the subject,
  however recently issued before, yields the subject once the new one exists.
\<close>

theorem reset_link_single_use:
  assumes "tbl_wf t" and "length secret = RESET_SECRET_BYTES"
    and "\<forall>i b. random_id i = Some b \<longrightarrow> length b = RESET_ID_BYTES"
    and "reset_issue digest_of chrono now (Some secret) random_id subject ttl t = (Ok issued, t')"
    and "later < stored_time (pr_expires_at issued)"
  shows "\<exists>t''. consume digest_of later (pr_plaintext issued) t' = (Some subject, t'')
    \<and> consume digest_of any_time (pr_plaintext issued) t'' = (None, t'')
    \<and> (\<forall>old ident old_secret. reset_parse_plaintext old = Some (ident, old_secret)
         \<and> map_option fst (reset_parse_plaintext (pr_plaintext issued)) \<noteq> Some ident
         \<longrightarrow> fst (consume digest_of later old t') \<noteq> Some subject)"
proof -
  from reset_issue_Ok [OF assms(4)] obtain ident j expires_at where j: "random_id j = Some ident"
    and issued: "issued = \<lparr>pr_subject = subject, pr_expires_at = expires_at,
      pr_plaintext = reset_format_plaintext ident secret\<rparr>"
    and t': "t' = tbl_put ident \<lparr>reset_digest = digest_of secret, reset_subject = subject,
      reset_expires_at = stored_time expires_at, reset_created_at = stored_time now\<rparr>
      (snd (delete_for reset_subject subject t))"
    by blast
  let ?t'' = "snd (delete_for reset_subject subject t')"
  have wf: "tbl_wf t'"
    using assms(1) by (simp add: t')
  have parse: "reset_parse_plaintext (pr_plaintext issued) = Some (ident, secret)"
    using j assms(2,3) unfolding issued by (simp add: reset_parse_wire reset_format_wire
        reset_wire.read_show)
  have find: "consume_find digest_of later (pr_plaintext issued) t' = Some subject"
    using assms(5) unfolding consume_find_def parse by (simp add: t' table_simps issued)
  then have "\<not> no_rows_for subject t'"
    using consume_find_no_rows by blast
  with find have "consume digest_of later (pr_plaintext issued) t' = (Some subject, ?t'')"
    by (simp add: consume_def consume_spend_eq wf)
  moreover have "tbl_get ?t'' ident = None"
    using tbl_get_delete_for [OF wf, of reset_subject subject ident]
    by (cases "tbl_get ?t'' ident") (auto simp: t' table_simps)
  then have "consume digest_of any_time (pr_plaintext issued) ?t'' = (None, ?t'')"
    by (simp add: consume_def consume_find_def parse live_get_def)
  moreover have "fst (consume digest_of later old t') \<noteq> Some subject"
    if "reset_parse_plaintext old = Some (i, s)" and "i \<noteq> ident" for old i s
  proof -
    have "no_rows_for subject (snd (delete_for reset_subject subject t))"
      by (rule no_rows_after_delete [OF assms(1)])
    with that have "consume_find digest_of later old t' \<noteq> Some subject"
      by (auto simp: consume_find_def t' live_get_def table_simps no_rows_for_def
          split: option.splits if_splits)
    then show ?thesis
      by (auto simp: consume_def consume_spend_eq wf split: option.splits)
  qed
  ultimately show ?thesis
    unfolding parse by auto
qed

definition demo_limits :: chrono where
  "demo_limits = \<lparr>delta_max = 2 ^ 63, utc_min = - (2 ^ 70), utc_max = 2 ^ 70\<rparr>"

definition demo_reset :: "u8 \<Rightarrow> resets \<Rightarrow> (PasswordResetError, IssuedPasswordReset) result \<times> resets" where
  "demo_reset n t = reset_issue rev demo_limits 0 (Some (replicate 32 n)) (\<lambda>i. Some (replicate 16 n))
     ''ada'' 3600000000000 t"

lemma demo_reset_eq:
  "demo_reset 1 tbl_empty = (Ok (projr (fst (demo_reset 1 tbl_empty))), snd (demo_reset 1 tbl_empty))"
  "pr_expires_at (projr (fst (demo_reset 1 tbl_empty))) = 3600000000000"
  by (simp_all add: demo_reset_def reset_issue_def reset_deadline_def delta_from_std_def
      checked_add_signed_def demo_limits_def RESET_ISSUE_ATTEMPTS_def insert_fresh_first
      delete_for_def tbl_defs Let_def)

theorem reset_link_single_use_witness:
  "\<exists>t''. consume rev 7 (pr_plaintext (projr (fst (demo_reset 1 tbl_empty)))) (snd (demo_reset 1 tbl_empty))
       = (Some ''ada'', t'')
     \<and> consume rev 8 (pr_plaintext (projr (fst (demo_reset 1 tbl_empty)))) t'' = (None, t'')"
  using reset_link_single_use [OF tbl.wf_empty _ _ demo_reset_eq(1) [unfolded demo_reset_def], of 7 8]
    demo_reset_eq(2)
  unfolding demo_reset_def [symmetric]
  by (auto simp: RESET_SECRET_BYTES_def RESET_ID_BYTES_def stored_time_def)

text \<open>
  However the requests interleave, the store hands a subject's reset to at most one of them, as
  long as no new link is issued for that subject meanwhile: of any number of concurrent
  \<^verbatim>\<open>consume\<close> calls, revocations, sweeps and issues for other subjects, in any order of their
  statements, at most one \<^verbatim>\<open>consume\<close> answers with the subject.
\<close>

theorem at_most_one_accepted:
  assumes "tbl_wf (db s)" and "accepted s = []" and "\<not> may_issue subject"
    and "(reset_step digest_of chrono may_issue)\<^sup>*\<^sup>* s s'"
  shows "accepted_for subject s' \<le> 1"
proof -
  have "spend_inv subject s"
    using assms(1,2) by (simp add: spend_inv_def accepted_for_def)
  from spend_inv_steps [OF assms(4,3) this] show ?thesis
    by (auto simp: spend_inv_def)
qed

text \<open>A run: one link for \<open>ada\<close>, presented by two requests that both read before either spends.\<close>

definition demo_row :: "u8 \<Rightarrow> ResetRow" where
  "demo_row n = \<lparr>reset_digest = replicate 32 n, reset_subject = ''ada'', reset_expires_at = 3600000,
     reset_created_at = 0\<rparr>"

definition demo_link :: string where
  "demo_link = reset_format_plaintext (replicate 16 1) (replicate 32 1)"

definition demo_start :: reset_system where
  "demo_start = \<lparr>db = [(replicate 16 1, demo_row 1)], pending = [], accepted = []\<rparr>"

definition demo_both_read :: reset_system where
  "demo_both_read = demo_start\<lparr>pending := [(demo_link, ''ada''), (demo_link, ''ada'')]\<rparr>"

definition demo_one_won :: reset_system where
  "demo_one_won = \<lparr>db = [], pending = [(demo_link, ''ada'')], accepted = [(demo_link, ''ada'')]\<rparr>"

lemma demo_parse: "reset_parse_plaintext demo_link = Some (replicate 16 1, replicate 32 1)"
  unfolding demo_link_def reset_parse_wire reset_format_wire
  by (rule reset_wire.read_show) (simp_all add: RESET_ID_BYTES_def RESET_SECRET_BYTES_def)

lemma demo_find: "consume_find rev 7 demo_link [(replicate 16 1, demo_row 1)] = Some ''ada''"
  by (simp add: consume_find_def demo_parse live_get_def tbl_get_def demo_row_def)

lemma demo_spend: "consume_spend ''ada'' [(replicate 16 n, demo_row n)] = (Some ''ada'', [])"
  by (simp add: consume_spend_def delete_for_def tbl_count_def tbl_retain_def demo_row_def)

lemma demo_reads: "(reset_step rev chrono P)\<^sup>*\<^sup>* demo_start demo_both_read"
proof -
  let ?s = "demo_start\<lparr>pending := [(demo_link, ''ada'')]\<rparr>"
  have "reset_step rev chrono P demo_start ?s"
    using step_find [of rev 7 demo_link demo_start "''ada''"] demo_find
    by (simp add: demo_start_def)
  moreover have "reset_step rev chrono P ?s demo_both_read"
    using step_find [of rev 7 demo_link ?s "''ada''"] demo_find
    by (simp add: demo_start_def demo_both_read_def)
  ultimately show ?thesis by simp
qed

lemma demo_first_spend: "reset_step rev chrono P demo_both_read demo_one_won"
  using step_spend_won [of demo_link "''ada''" demo_both_read "[]"] demo_spend [of 1]
  by (simp add: demo_both_read_def demo_start_def demo_one_won_def)

theorem at_most_one_accepted_witness:
  "(reset_step rev demo_limits (\<lambda>u. u \<noteq> ''ada''))\<^sup>*\<^sup>* demo_start demo_one_won
   \<and> accepted_for ''ada'' demo_one_won \<le> 1"
proof -
  have steps: "(reset_step rev demo_limits (\<lambda>u. u \<noteq> ''ada''))\<^sup>*\<^sup>* demo_start demo_one_won"
    using demo_reads demo_first_spend by (rule rtranclp.rtrancl_into_rtrancl)
  moreover from at_most_one_accepted [OF _ _ _ steps, of "''ada''"]
  have "accepted_for ''ada'' demo_one_won \<le> 1"
    by (simp add: demo_start_def tbl_wf_def)
  ultimately show ?thesis ..
qed

text \<open>
  The restriction in the previous property is needed.  If a new link is issued for the subject
  between the two statements of a \<^verbatim>\<open>consume\<close>, one link is accepted twice: two requests read the
  link, the first spends it, a new link is mailed, and the second request's spend deletes the new
  link's row, counts it as its own and answers with the subject; the new link is then dead.
\<close>

theorem link_accepted_twice:
  "\<exists>s. (reset_step rev demo_limits (\<lambda>u. True))\<^sup>*\<^sup>* demo_start s
     \<and> accepted demo_start = [] \<and> accepted s = [(demo_link, ''ada''), (demo_link, ''ada'')]
     \<and> db s = []"
proof -
  let ?new = "demo_one_won\<lparr>db := [(replicate 16 2, demo_row 2)]\<rparr>"
  let ?final = "\<lparr>db = [], pending = [], accepted = [(demo_link, ''ada''), (demo_link, ''ada'')]\<rparr>"
  have "\<exists>r. reset_issue rev demo_limits 0 (Some (replicate 32 2)) (\<lambda>i. Some (replicate 16 2))
      ''ada'' 3600000000000 (db demo_one_won) = (r, [(replicate 16 2, demo_row 2)])"
    by (simp add: reset_issue_def reset_deadline_def delta_from_std_def demo_one_won_def
        checked_add_signed_def demo_limits_def RESET_ISSUE_ATTEMPTS_def insert_fresh_first
        delete_for_def tbl_defs demo_row_def stored_time_def Let_def)
  then have "reset_step rev demo_limits (\<lambda>u. True) demo_one_won ?new"
    using step_issue [of "\<lambda>u. True" "''ada''" rev demo_limits 0] by metis
  moreover have "reset_step rev demo_limits (\<lambda>u. True) ?new ?final"
    using step_spend_won [of demo_link "''ada''" ?new "[]"] demo_spend [of 2]
    by (simp add: demo_one_won_def)
  ultimately have "(reset_step rev demo_limits (\<lambda>u. True))\<^sup>*\<^sup>* demo_start ?final"
    using demo_reads demo_first_spend by (meson rtranclp.rtrancl_into_rtrancl)
  then show ?thesis
    by (intro exI [of _ ?final]) (simp add: demo_start_def)
qed

end
