(* ===== verification/Remember_Tokens.thy ===== *)
theory Remember_Tokens
  imports Credentials Base64url
begin

text \<open>
  Remember-me tokens with rotation and theft detection: \<^verbatim>\<open>src/auth/flows/remember/token.rs\<close>,
  \<^verbatim>\<open>src/auth/flows/remember/store.rs\<close> and the statements of
  \<^verbatim>\<open>src/auth/flows/remember/dialect/sqlite.rs\<close>.

  \<^verbatim>\<open>present\<close> reads the row of the presented series and then runs at most one writing statement.
  \<open>present_find\<close> is the part up to and including the read, with the decision it leads to;
  \<open>present_act\<close> carries the decision out; \<open>present\<close> is their composition.  The split lets the
  theorems place other requests between the two statements.
\<close>

section \<open>The code: wire format\<close>

definition SERIES_BYTES :: nat where
  "SERIES_BYTES = 16"

definition REMEMBER_SECRET_BYTES :: nat where
  "REMEMBER_SECRET_BYTES = 32"

definition REMEMBER_TOKEN_PREFIX :: string where
  "REMEMBER_TOKEN_PREFIX = ''arcrmb_''"

definition REMEMBER_SEPARATOR :: char where
  "REMEMBER_SEPARATOR = CHR ''.''"

definition remember_format_plaintext :: "bytes \<Rightarrow> bytes \<Rightarrow> string" where
  "remember_format_plaintext series secret =
     REMEMBER_TOKEN_PREFIX @ encode series @ REMEMBER_SEPARATOR # encode secret"

definition remember_parse_plaintext :: "string \<Rightarrow> (bytes \<times> bytes) option" where
  "remember_parse_plaintext presented =
     Option.bind (strip_prefix REMEMBER_TOKEN_PREFIX presented) (\<lambda>rest.
     Option.bind (split_once REMEMBER_SEPARATOR rest) (\<lambda>(series_text, secret_text).
     Option.bind (decode series_text) (\<lambda>series. if length series \<noteq> SERIES_BYTES then None else
     Option.bind (decode secret_text) (\<lambda>secret.
       if length secret \<noteq> REMEMBER_SECRET_BYTES then None else Some (series, secret)))))"

section \<open>The code: the store\<close>

datatype RememberTokenError = RememberEntropy | RememberExpiry | SeriesCollision nat

datatype RememberOutcome = Unrecognised
  | Accepted (accepted_subject: string) (replacement: "string option")
  | Theft string

definition outcome_subject :: "RememberOutcome \<Rightarrow> string option" where
  "outcome_subject outcome =
     (case outcome of Unrecognised \<Rightarrow> None | Accepted subject _ \<Rightarrow> Some subject | Theft subject \<Rightarrow> Some subject)"

record RememberRow =
  secret_digest :: bytes
  previous_digest :: "bytes option"
  rotated_at :: "int option"
  remember_subject :: string
  remember_expires_at :: int
  remember_created_at :: int

type_synonym remembers = "(bytes, RememberRow) table"

record IssuedRememberToken =
  rt_subject :: string
  rt_expires_at :: int
  rt_plaintext :: string

record RememberTokens =
  grace :: int

definition REMEMBER_ISSUE_ATTEMPTS :: nat where
  "REMEMBER_ISSUE_ATTEMPTS = 8"

definition DEFAULT_GRACE :: int where
  "DEFAULT_GRACE = 60 * 1000000000"

definition remember_new :: RememberTokens where
  "remember_new = \<lparr>grace = DEFAULT_GRACE\<rparr>"

definition with_grace :: "RememberTokens \<Rightarrow> int \<Rightarrow> RememberTokens" where
  "with_grace self g = self\<lparr>grace := g\<rparr>"

definition remember_deadline :: "chrono \<Rightarrow> int \<Rightarrow> int \<Rightarrow> (RememberTokenError, int) result" where
  "remember_deadline chrono now ttl =
     rbind (ok_or (delta_from_std chrono ttl) RememberExpiry) (\<lambda>delta.
     ok_or (checked_add_signed chrono now delta) RememberExpiry)"

definition grace_cutoff :: "chrono \<Rightarrow> RememberTokens \<Rightarrow> int \<Rightarrow> int" where
  "grace_cutoff chrono self now =
     (let delta = (case delta_from_std chrono (grace self) of Some d \<Rightarrow> d | None \<Rightarrow> delta_max chrono)
      in case checked_add_signed chrono now (- delta) of Some t \<Rightarrow> t | None \<Rightarrow> utc_min chrono)"

definition remember_issue :: "(bytes \<Rightarrow> bytes) \<Rightarrow> chrono \<Rightarrow> int \<Rightarrow> bytes option \<Rightarrow> (nat \<Rightarrow> bytes option) \<Rightarrow>
    string \<Rightarrow> int \<Rightarrow> remembers \<Rightarrow> (RememberTokenError, IssuedRememberToken) result \<times> remembers" where
  "remember_issue digest_of chrono now random_secret random_series subject ttl db =
     (case remember_deadline chrono now ttl of
        Inl e \<Rightarrow> (Err e, db)
      | Inr expires_at \<Rightarrow>
          (case random_secret of
             None \<Rightarrow> (Err RememberEntropy, db)
           | Some secret \<Rightarrow>
               (let row = \<lparr>secret_digest = digest_of secret, previous_digest = None,
                           rotated_at = None, remember_subject = subject,
                           remember_expires_at = stored_time expires_at,
                           remember_created_at = stored_time now\<rparr>
                in case insert_fresh REMEMBER_ISSUE_ATTEMPTS 0 random_series row db of
                     (Inl NoEntropy, db') \<Rightarrow> (Err RememberEntropy, db')
                   | (Inl Exhausted, db') \<Rightarrow> (Err (SeriesCollision REMEMBER_ISSUE_ATTEMPTS), db')
                   | (Inr series, db') \<Rightarrow>
                       (Ok \<lparr>rt_subject = subject, rt_expires_at = expires_at,
                            rt_plaintext = remember_format_plaintext series secret\<rparr>, db'))))"

text \<open>The statement \<^verbatim>\<open>ROTATE\<close>: it changes the row only while its digest is still the one read.\<close>

definition rotate_stmt :: "bytes \<Rightarrow> int \<Rightarrow> bytes \<Rightarrow> bytes \<Rightarrow> remembers \<Rightarrow> nat \<times> remembers" where
  "rotate_stmt next_digest at series expected db =
     (tbl_count (\<lambda>k row. k = series \<and> secret_digest row = expected) db,
      tbl_modify (\<lambda>k row. k = series \<and> secret_digest row = expected)
        (\<lambda>row. row\<lparr>previous_digest := Some (secret_digest row), secret_digest := next_digest,
                  rotated_at := Some at\<rparr>) db)"

datatype decision = Ignore | Rotate bytes bytes string | Grace string | Steal string

definition present_find :: "(bytes \<Rightarrow> bytes) \<Rightarrow> chrono \<Rightarrow> RememberTokens \<Rightarrow> int \<Rightarrow> int \<Rightarrow> string \<Rightarrow>
    remembers \<Rightarrow> decision" where
  "present_find digest_of chrono self now db_now presented db =
     (case remember_parse_plaintext presented of
        None \<Rightarrow> Ignore
      | Some (series, secret) \<Rightarrow>
          (case live_get remember_expires_at db_now db series of
             None \<Rightarrow> Ignore
           | Some row \<Rightarrow>
               (let cutoff = stored_time (grace_cutoff chrono self now);
                    rotation_is_recent = (case rotated_at row of None \<Rightarrow> False | Some t \<Rightarrow> t > cutoff);
                    retired = (case previous_digest row of Some d \<Rightarrow> d | None \<Rightarrow> replicate 32 0);
                    matches_current = (digest_of secret = secret_digest row);
                    matches_retired = (digest_of secret = retired)
                in if matches_current then Rotate series (secret_digest row) (remember_subject row)
                   else if matches_retired \<and> rotation_is_recent then Grace (remember_subject row)
                   else Steal (remember_subject row))))"

definition rotate_series :: "(bytes \<Rightarrow> bytes) \<Rightarrow> int \<Rightarrow> bytes option \<Rightarrow> bytes \<Rightarrow> bytes \<Rightarrow> string \<Rightarrow>
    remembers \<Rightarrow> (RememberTokenError, RememberOutcome) result \<times> remembers" where
  "rotate_series digest_of now random series expected subject db =
     (case random of
        None \<Rightarrow> (Err RememberEntropy, db)
      | Some next \<Rightarrow>
          (case rotate_stmt (digest_of next) (stored_time now) series expected db of
             (rotated, db') \<Rightarrow>
               if rotated = 0 then (Ok (Accepted subject None), db')
               else (Ok (Accepted subject (Some (remember_format_plaintext series next))), db')))"

definition present_act :: "(bytes \<Rightarrow> bytes) \<Rightarrow> int \<Rightarrow> bytes option \<Rightarrow> decision \<Rightarrow> remembers \<Rightarrow>
    (RememberTokenError, RememberOutcome) result \<times> remembers" where
  "present_act digest_of now random d db =
     (case d of
        Ignore \<Rightarrow> (Ok Unrecognised, db)
      | Rotate series expected subject \<Rightarrow> rotate_series digest_of now random series expected subject db
      | Grace subject \<Rightarrow> (Ok (Accepted subject None), db)
      | Steal subject \<Rightarrow> (Ok (Theft subject), snd (delete_for remember_subject subject db)))"

definition present :: "(bytes \<Rightarrow> bytes) \<Rightarrow> chrono \<Rightarrow> RememberTokens \<Rightarrow> int \<Rightarrow> int \<Rightarrow> bytes option \<Rightarrow> string \<Rightarrow>
    remembers \<Rightarrow> (RememberTokenError, RememberOutcome) result \<times> remembers" where
  "present digest_of chrono self now db_now random presented db =
     present_act digest_of now random (present_find digest_of chrono self now db_now presented db) db"

definition remember_revoke_all_for :: "string \<Rightarrow> remembers \<Rightarrow> nat \<times> remembers" where
  "remember_revoke_all_for subject db = delete_for remember_subject subject db"

definition remember_revoke :: "string \<Rightarrow> remembers \<Rightarrow> bool \<times> remembers" where
  "remember_revoke presented db =
     (case remember_parse_plaintext presented of
        None \<Rightarrow> (False, db)
      | Some (series, _) \<Rightarrow> (case delete_key series db of (deleted, db') \<Rightarrow> (deleted > 0, db')))"

definition remember_sweep_expired :: "int \<Rightarrow> remembers \<Rightarrow> nat \<times> remembers" where
  "remember_sweep_expired now db = delete_expired remember_expires_at now db"

section \<open>The wire format\<close>

interpretation remember_wire: canonical_wire_format encode decode REMEMBER_TOKEN_PREFIX
  REMEMBER_SEPARATOR SERIES_BYTES REMEMBER_SECRET_BYTES
proof unfold_locales
  fix b show "REMEMBER_SEPARATOR \<notin> set (encode b)"
    unfolding REMEMBER_SEPARATOR_def by (rule encode_avoids) (rule sep_not_ALPHABET(1))
qed

lemma remember_parse_wire:
  "remember_parse_plaintext =
   wire_read decode REMEMBER_TOKEN_PREFIX REMEMBER_SEPARATOR SERIES_BYTES REMEMBER_SECRET_BYTES"
  by (rule ext) (simp add: remember_parse_plaintext_def wire_read_def)

lemma remember_format_wire:
  "remember_format_plaintext = wire_show encode REMEMBER_TOKEN_PREFIX REMEMBER_SEPARATOR"
  by (rule ext)+ (simp add: remember_format_plaintext_def wire_show_def)

lemma remember_parse_format:
  "length series = SERIES_BYTES \<Longrightarrow> length secret = REMEMBER_SECRET_BYTES \<Longrightarrow>
   remember_parse_plaintext (remember_format_plaintext series secret) = Some (series, secret)"
  by (simp add: remember_parse_wire remember_format_wire remember_wire.read_show)

lemma remember_parse_lengths:
  "remember_parse_plaintext presented = Some (series, secret) \<Longrightarrow>
   length series = SERIES_BYTES \<and> length secret = REMEMBER_SECRET_BYTES"
  unfolding remember_parse_wire by (rule remember_wire.read_lengths)

section \<open>Lemmas on the store\<close>

lemma rotate_stmt_count_pos:
  "tbl_wf t \<Longrightarrow> 0 < fst (rotate_stmt d at series expected t) \<longleftrightarrow>
   (\<exists>row. tbl_get t series = Some row \<and> secret_digest row = expected)"
  unfolding rotate_stmt_def fst_conv by (rule tbl.count_key_pos_iff)

lemma rotate_stmt_get:
  "tbl_get (snd (rotate_stmt d at series expected t)) k =
   (case tbl_get t k of
      None \<Rightarrow> None
    | Some row \<Rightarrow> if k = series \<and> secret_digest row = expected
        then Some (row\<lparr>previous_digest := Some (secret_digest row), secret_digest := d,
          rotated_at := Some at\<rparr>) else Some row)"
  by (simp add: rotate_stmt_def table_simps split: option.splits)

lemma rotate_stmt_wf [simp]: "tbl_wf t \<Longrightarrow> tbl_wf (snd (rotate_stmt d at series expected t))"
  by (simp add: rotate_stmt_def)

lemma rotate_series_Some:
  "tbl_wf t \<Longrightarrow> rotate_series digest_of now (Some next) series expected subject t =
   (Ok (Accepted subject
      (if \<exists>row. tbl_get t series = Some row \<and> secret_digest row = expected
       then Some (remember_format_plaintext series next) else None)),
    snd (rotate_stmt (digest_of next) (stored_time now) series expected t))"
  using rotate_stmt_count_pos [of t "digest_of next" "stored_time now" series expected]
  by (auto simp: rotate_series_def split: prod.splits)

lemma present_find_live:
  assumes "remember_parse_plaintext presented = Some (series, secret)"
    and "tbl_get t series = Some row" and "db_now < remember_expires_at row"
  shows "present_find digest_of chrono self now db_now presented t =
    (if digest_of secret = secret_digest row
     then Rotate series (secret_digest row) (remember_subject row)
     else if digest_of secret = (case previous_digest row of Some d \<Rightarrow> d | None \<Rightarrow> replicate 32 0)
         \<and> (\<exists>at. rotated_at row = Some at \<and> at > stored_time (grace_cutoff chrono self now))
     then Grace (remember_subject row) else Steal (remember_subject row))"
  using assms by (auto simp: present_find_def live_get_def Let_def split: option.splits)

section \<open>Properties\<close>

text \<open>
  Rotation.  Presenting the live secret of a series signs its subject in and replaces the
  secret: the replacement is the live secret from then on, the presented one becomes the retired
  one.  Presented again within the grace window, the retired secret signs in and changes
  nothing; after the window it is reported as theft and no row of the subject is left.
\<close>

theorem present_rotates:
  assumes "tbl_wf t" and "remember_parse_plaintext presented = Some (series, secret)"
    and "tbl_get t series = Some row" and "secret_digest row = digest_of secret"
    and "db_now < remember_expires_at row" and "db_later < remember_expires_at row"
    and "length next = REMEMBER_SECRET_BYTES" and "digest_of next \<noteq> digest_of secret"
  shows "\<exists>t'. present digest_of chrono self now db_now (Some next) presented t =
      (Ok (Accepted (remember_subject row) (Some (remember_format_plaintext series next))), t')
    \<and> present_find digest_of chrono self later db_later (remember_format_plaintext series next) t' =
        Rotate series (digest_of next) (remember_subject row)
    \<and> present digest_of chrono self later db_later random presented t' =
        (if stored_time (grace_cutoff chrono self later) < stored_time now
         then (Ok (Accepted (remember_subject row) None), t')
         else (Ok (Theft (remember_subject row)), snd (delete_for remember_subject (remember_subject row) t')))
    \<and> (\<forall>k v. tbl_get (snd (delete_for remember_subject (remember_subject row) t')) k = Some v \<longrightarrow>
         remember_subject v \<noteq> remember_subject row)"
proof -
  define t' where "t' = snd (rotate_stmt (digest_of next) (stored_time now) series (secret_digest row) t)"
  let ?row' = "row\<lparr>previous_digest := Some (secret_digest row), secret_digest := digest_of next,
    rotated_at := Some (stored_time now)\<rparr>"
  have row': "tbl_get t' series = Some ?row'"
    using assms(3) by (simp add: t'_def rotate_stmt_get)
  have "present digest_of chrono self now db_now (Some next) presented t =
      (Ok (Accepted (remember_subject row) (Some (remember_format_plaintext series next))), t')"
    using assms(3,4) by (auto simp: present_def present_find_live [OF assms(2,3,5)] present_act_def
        rotate_series_Some [OF assms(1)] t'_def)
  moreover have "present_find digest_of chrono self later db_later
      (remember_format_plaintext series next) t' = Rotate series (digest_of next) (remember_subject row)"
    using remember_parse_lengths [OF assms(2)] assms(6,7)
    by (subst present_find_live [OF remember_parse_format row']) simp_all
  moreover have "present digest_of chrono self later db_later random presented t' =
      (if stored_time (grace_cutoff chrono self later) < stored_time now
       then (Ok (Accepted (remember_subject row) None), t')
       else (Ok (Theft (remember_subject row)), snd (delete_for remember_subject (remember_subject row) t')))"
    using assms(4,6,8) by (simp add: present_def present_find_live [OF assms(2) row'] present_act_def)
  moreover have "tbl_wf t'"
    using assms(1) by (simp add: t'_def)
  ultimately show ?thesis
    by (intro exI [of _ t']) (simp add: tbl_get_delete_for)
qed

definition demo_remember_row :: RememberRow where
  "demo_remember_row = \<lparr>secret_digest = replicate 32 1, previous_digest = None, rotated_at = None,
     remember_subject = ''ada'', remember_expires_at = 1000000, remember_created_at = 0\<rparr>"

definition demo_remembers :: remembers where
  "demo_remembers = [(replicate 16 9, demo_remember_row)]"

definition demo_cookie :: string where
  "demo_cookie = remember_format_plaintext (replicate 16 9) (replicate 32 1)"

definition demo_range :: chrono where
  "demo_range = \<lparr>delta_max = 2 ^ 63, utc_min = - (2 ^ 70), utc_max = 2 ^ 70\<rparr>"

lemma demo_cookie_parse: "remember_parse_plaintext demo_cookie = Some (replicate 16 9, replicate 32 1)"
  unfolding demo_cookie_def
  by (rule remember_parse_format) (simp_all add: SERIES_BYTES_def REMEMBER_SECRET_BYTES_def)

lemma demo_remembers_row:
  "tbl_wf demo_remembers" "tbl_get demo_remembers (replicate 16 9) = Some demo_remember_row"
  by (simp_all add: demo_remembers_def tbl_wf_def tbl_get_def)

theorem present_rotates_witness:
  "\<exists>t'. present rev demo_range remember_new 5000000000 5000 (Some (replicate 32 2)) demo_cookie demo_remembers
       = (Ok (Accepted ''ada'' (Some (remember_format_plaintext (replicate 16 9) (replicate 32 2)))), t')
     \<and> present rev demo_range remember_new 64000000000 64000 None demo_cookie t' =
         (Ok (Accepted ''ada'' None), t')
     \<and> fst (present rev demo_range remember_new 65000000000 64000 None demo_cookie t') = Ok (Theft ''ada'')"
proof -
  have row: "secret_digest demo_remember_row = rev (replicate 32 1)"
      "(5000 :: int) < remember_expires_at demo_remember_row"
      "(64000 :: int) < remember_expires_at demo_remember_row"
      "remember_subject demo_remember_row = ''ada''"
    by (simp_all add: demo_remember_row_def)
  have next_secret: "length (replicate 32 2 :: bytes) = REMEMBER_SECRET_BYTES"
      "rev (replicate 32 2 :: bytes) \<noteq> rev (replicate 32 1)"
    by (simp_all add: REMEMBER_SECRET_BYTES_def)
  note rotates = present_rotates [OF demo_remembers_row(1) demo_cookie_parse demo_remembers_row(2)
      row(1-3) next_secret, of demo_range remember_new 5000000000]
  have cutoff: "grace_cutoff demo_range remember_new 64000000000 = 4000000000"
      "grace_cutoff demo_range remember_new 65000000000 = 5000000000"
    by (simp_all add: grace_cutoff_def delta_from_std_def checked_add_signed_def demo_range_def
        remember_new_def DEFAULT_GRACE_def)
  show ?thesis
    using rotates [of 64000000000 None] rotates [of 65000000000 None]
    by (auto simp: cutoff row(4) stored_time_def)
qed

text \<open>
  Theft, and only theft, is answered with theft.  \<^verbatim>\<open>present\<close> reports it exactly when the
  series is live and the secret is neither the live one nor, within the grace window, the one
  retired last; then every remembered device of the subject is signed out and no other subject's
  row changes.
\<close>

theorem present_theft_iff:
  assumes "tbl_wf t" and "remember_parse_plaintext presented = Some (series, secret)"
  shows "fst (present digest_of chrono self now db_now random presented t) = Ok (Theft subject) \<longleftrightarrow>
      (\<exists>row. tbl_get t series = Some row \<and> db_now < remember_expires_at row
         \<and> remember_subject row = subject \<and> digest_of secret \<noteq> secret_digest row
         \<and> \<not> (digest_of secret = (case previous_digest row of Some d \<Rightarrow> d | None \<Rightarrow> replicate 32 0)
               \<and> (\<exists>at. rotated_at row = Some at \<and> at > stored_time (grace_cutoff chrono self now))))"
    (is "?theft \<longleftrightarrow> (\<exists>row. ?P row)")
proof (cases "live_get remember_expires_at db_now t series")
  case None
  then show ?thesis
    using assms(2)
    by (auto simp: present_def present_find_def present_act_def live_get_def split: option.splits
        if_splits)
next
  case (Some row)
  then have row: "tbl_get t series = Some row" "db_now < remember_expires_at row"
    by (simp_all add: live_get_eq_Some_iff)
  have "fst (rotate_series digest_of now random series expected s t) \<noteq> Ok (Theft subject)" for expected s
    by (auto simp: rotate_series_def split: option.splits prod.splits)
  then show ?thesis
    unfolding present_def present_find_live [OF assms(2) row]
    by (auto simp: present_act_def row)
qed

definition demo_stolen :: string where
  "demo_stolen = remember_format_plaintext (replicate 16 9) (replicate 32 3)"

lemma demo_stolen_parse: "remember_parse_plaintext demo_stolen = Some (replicate 16 9, replicate 32 3)"
  unfolding demo_stolen_def
  by (rule remember_parse_format) (simp_all add: SERIES_BYTES_def REMEMBER_SECRET_BYTES_def)

theorem present_theft_iff_witness:
  "fst (present rev demo_range remember_new 0 0 None demo_stolen demo_remembers) = Ok (Theft ''ada'')"
  unfolding present_theft_iff [OF demo_remembers_row(1) demo_stolen_parse]
  by (simp add: demo_remembers_row demo_remember_row_def)

text \<open>
  Theft signs out the whole subject and nobody else: after \<^verbatim>\<open>present\<close> reported theft, a row
  is in the table if and only if it was there before and belongs to another subject.
\<close>

theorem theft_signs_out_subject:
  assumes "tbl_wf t"
    and "present digest_of chrono self now db_now random presented t = (Ok (Theft subject), t')"
  shows "tbl_get t' k = Some row \<longleftrightarrow> tbl_get t k = Some row \<and> remember_subject row \<noteq> subject"
proof -
  have "t' = snd (delete_for remember_subject subject t)"
    using assms(2)
    by (auto simp: present_def present_act_def rotate_series_def
        split: decision.splits option.splits prod.splits if_splits)
  then show ?thesis
    by (simp add: tbl_get_delete_for [OF assms(1)])
qed

theorem theft_signs_out_subject_witness:
  "tbl_get (snd (present rev demo_range remember_new 0 0 None demo_stolen demo_remembers)) (replicate 16 9)
   \<noteq> Some demo_remember_row"
proof -
  have "present rev demo_range remember_new 0 0 None demo_stolen demo_remembers =
      (Ok (Theft ''ada''), snd (present rev demo_range remember_new 0 0 None demo_stolen demo_remembers))"
    unfolding present_def
    by (subst present_find_live [OF demo_stolen_parse demo_remembers_row(2)])
      (simp_all add: present_act_def present_find_live [OF demo_stolen_parse demo_remembers_row(2)]
        demo_remember_row_def)
  from theft_signs_out_subject [OF demo_remembers_row(1) this] show ?thesis
    by (simp add: demo_remember_row_def)
qed

text \<open>
  Requests that present one cookie at the same time, each in two statements: it reads the row and comes to
  a decision, and later carries it out.  The events of a burst are these statements in the order the
  database sees them; a decision is kept until it is carried out.
\<close>

datatype burst_event = Find nat int int | Act nat int bytes

fun run_burst :: "(bytes \<Rightarrow> bytes) \<Rightarrow> chrono \<Rightarrow> RememberTokens \<Rightarrow> string \<Rightarrow> burst_event list \<Rightarrow>
    (nat \<Rightarrow> decision option) \<Rightarrow> remembers \<Rightarrow> (RememberTokenError, RememberOutcome) result list" where
  "run_burst digest_of chrono self presented [] decided t = []"
| "run_burst digest_of chrono self presented (Find i now db_now # events) decided t =
     run_burst digest_of chrono self presented events
       (decided(i \<mapsto> present_find digest_of chrono self now db_now presented t)) t"
| "run_burst digest_of chrono self presented (Act i now next # events) decided t =
     (case decided i of
        None \<Rightarrow> run_burst digest_of chrono self presented events decided t
      | Some d \<Rightarrow>
          (case present_act digest_of now (Some next) d t of
             (r, t') \<Rightarrow> r # run_burst digest_of chrono self presented events (decided(i := None)) t'))"

text \<open>A read that finds the series alive, and one that falls into the grace window of a rotation at \<open>first\<close>.\<close>

fun reads_alive :: "RememberRow \<Rightarrow> burst_event \<Rightarrow> bool" where
  "reads_alive row (Find i now db_now) = (db_now < remember_expires_at row)"
| "reads_alive row (Act i now next) = False"

fun within_grace :: "chrono \<Rightarrow> RememberTokens \<Rightarrow> RememberRow \<Rightarrow> int \<Rightarrow> burst_event \<Rightarrow> bool" where
  "within_grace chrono self row first (Find i now db_now) =
     (db_now < remember_expires_at row \<and> stored_time (grace_cutoff chrono self now) < stored_time first)"
| "within_grace chrono self row first (Act i now next) = True"

fun read_by :: "nat \<Rightarrow> burst_event \<Rightarrow> bool" where
  "read_by i (Find j now db_now) = (j = i)"
| "read_by i (Act j now next) = False"

lemma reads_decide:
  assumes "remember_parse_plaintext presented = Some (series, secret)" and "tbl_get t series = Some row"
    and "secret_digest row = digest_of secret"
  shows "list_all (reads_alive row) reads \<Longrightarrow>
    run_burst digest_of chrono self presented (reads @ events) decided t =
    run_burst digest_of chrono self presented events (\<lambda>i. if list_ex (read_by i) reads
      then Some (Rotate series (digest_of secret) (remember_subject row)) else decided i) t"
proof (induction reads arbitrary: decided)
  case (Cons e reads)
  let ?d = "Rotate series (digest_of secret) (remember_subject row)"
  obtain i now db_now where e: "e = Find i now db_now" "db_now < remember_expires_at row"
    using Cons.prems by (cases e) auto
  have "present_find digest_of chrono self now db_now presented t = ?d"
    using assms(3) by (simp add: present_find_live [OF assms(1,2) e(2)])
  then have "run_burst digest_of chrono self presented ((e # reads) @ events) decided t =
      run_burst digest_of chrono self presented (reads @ events) (decided(i \<mapsto> ?d)) t"
    by (simp add: e(1))
  also have "\<dots> = run_burst digest_of chrono self presented events
      (\<lambda>j. if list_ex (read_by j) reads then Some ?d else (decided(i \<mapsto> ?d)) j) t"
    using Cons.prems by (intro Cons.IH) simp
  also have "(\<lambda>j. if list_ex (read_by j) reads then Some ?d else (decided(i \<mapsto> ?d)) j) =
      (\<lambda>j. if list_ex (read_by j) (e # reads) then Some ?d else decided j)"
    by (rule ext) (simp add: e(1))
  finally show ?case .
qed simp

lemma after_rotation:
  assumes "remember_parse_plaintext presented = Some (series, secret)"
    and "digest_of next \<noteq> digest_of secret"
    and "list_all (within_grace chrono self row first) events"
  shows "tbl_wf t \<Longrightarrow>
    tbl_get t series = Some (row\<lparr>previous_digest := Some (digest_of secret), secret_digest := digest_of next,
      rotated_at := Some (stored_time first)\<rparr>) \<Longrightarrow>
    (\<And>i d. decided i = Some d \<Longrightarrow> d \<in> {Rotate series (digest_of secret) (remember_subject row), Grace (remember_subject row)}) \<Longrightarrow>
    set (run_burst digest_of chrono self presented events decided t) \<subseteq> {Ok (Accepted (remember_subject row) None)}"
  using assms(3)
proof (induction events arbitrary: decided t)
  case (Cons e events)
  let ?row' = "row\<lparr>previous_digest := Some (digest_of secret), secret_digest := digest_of next, rotated_at := Some (stored_time first)\<rparr>"
  show ?case
  proof (cases e)
    case (Find i now db_now)
    then have "present_find digest_of chrono self now db_now presented t = Grace (remember_subject row)"
      using Cons.prems(2,4) assms(2) present_find_live [OF assms(1) Cons.prems(2)] by simp
    moreover have "set (run_burst digest_of chrono self presented events (decided(i \<mapsto> Grace (remember_subject row))) t) \<subseteq>
        {Ok (Accepted (remember_subject row) None)}"
      by (rule Cons.IH [OF Cons.prems(1,2)]) (use Cons.prems(3,4) in \<open>auto split: if_splits\<close>)
    ultimately show ?thesis
      by (simp only: Find run_burst.simps)
  next
    case (Act i now nx)
    show ?thesis
    proof (cases "decided i")
      case None
      then show ?thesis
        using Cons by (simp add: Act)
    next
      case (Some d)
      obtain t' where act: "present_act digest_of now (Some nx) d t = (Ok (Accepted (remember_subject row) None), t')"
        and t': "tbl_wf t'" "tbl_get t' series = Some ?row'"
      proof (cases "d = Grace (remember_subject row)")
        case True
        then show thesis
          using that [of t] Cons.prems(1,2) by (simp add: present_act_def)
      next
        case False
        then have "d = Rotate series (digest_of secret) (remember_subject row)"
          using Cons.prems(3) [OF Some] by simp
        then show thesis
          using that [of "snd (rotate_stmt (digest_of nx) (stored_time now) series (digest_of secret) t)"] Cons.prems(1,2) assms(2)
          by (simp add: present_act_def rotate_series_Some rotate_stmt_get)
      qed
      have "set (run_burst digest_of chrono self presented events (decided(i := None)) t') \<subseteq> {Ok (Accepted (remember_subject row) None)}"
        using Cons.prems(3,4) by (intro Cons.IH [OF t']) (auto split: if_splits)
      then show ?thesis
        using Some act by (simp add: Act)
    qed
  qed
qed simp

text \<open>
  C28.  A burst of concurrent requests with the live secret is one rotation, in whatever order their reads and
  writes interleave: the first to write gets the replacement cookie, every other one is accepted without
  one, and none is taken for theft.  Requests that read before the first write need nothing but that the
  series is alive; a request that reads after it must do so within the grace window of that rotation, and is
  taken for theft otherwise.
\<close>

theorem concurrent_present_one_rotation:
  assumes "tbl_wf t" and "remember_parse_plaintext presented = Some (series, secret)"
    and "tbl_get t series = Some row" and "secret_digest row = digest_of secret"
    and "list_all (reads_alive row) reads" and "list_ex (read_by i) reads"
    and "list_all (within_grace chrono self row first) events"
    and "digest_of next \<noteq> digest_of secret"
  shows "\<exists>others. run_burst digest_of chrono self presented (reads @ Act i first next # events) Map.empty t =
      Ok (Accepted (remember_subject row) (Some (remember_format_plaintext series next))) # others \<and>
    set others \<subseteq> {Ok (Accepted (remember_subject row) None)}"
proof -
  let ?d = "Rotate series (digest_of secret) (remember_subject row)"
  let ?t' = "snd (rotate_stmt (digest_of next) (stored_time first) series (digest_of secret) t)"
  define decided where "decided = (\<lambda>j. if list_ex (read_by j) reads then Some ?d else None)"
  have run: "run_burst digest_of chrono self presented (reads @ Act i first next # events) Map.empty t =
      run_burst digest_of chrono self presented (Act i first next # events) decided t"
    unfolding decided_def by (rule reads_decide [where digest_of = digest_of, OF assms(2-5)])
  have "present_act digest_of first (Some next) ?d t =
      (Ok (Accepted (remember_subject row) (Some (remember_format_plaintext series next))), ?t')"
    using assms(1,3,4) by (auto simp: present_act_def rotate_series_Some)
  then have "run_burst digest_of chrono self presented (Act i first next # events) decided t =
      Ok (Accepted (remember_subject row) (Some (remember_format_plaintext series next))) #
        run_burst digest_of chrono self presented events (decided(i := None)) ?t'"
    using assms(6) by (simp add: decided_def)
  moreover have "set (run_burst digest_of chrono self presented events (decided(i := None)) ?t') \<subseteq>
      {Ok (Accepted (remember_subject row) None)}"
    by (rule after_rotation [OF assms(2,8,7)]) (use assms(1,3,4) in \<open>auto simp: rotate_stmt_get decided_def split: if_splits\<close>)
  ultimately show ?thesis
    using run by simp
qed

theorem concurrent_present_one_rotation_witness:
  "\<exists>others. run_burst rev demo_range remember_new demo_cookie
      [Find 1 0 0, Find 2 0 0, Act 2 0 (replicate 32 2), Find 3 1 1, Act 1 1 (replicate 32 3), Act 3 2 (replicate 32 4)]
      Map.empty demo_remembers =
    Ok (Accepted ''ada'' (Some (remember_format_plaintext (replicate 16 9) (replicate 32 2)))) # others \<and>
    set others \<subseteq> {Ok (Accepted ''ada'' None)}"
proof -
  have row: "secret_digest demo_remember_row = rev (replicate 32 1)" "remember_subject demo_remember_row = ''ada''"
      "rev (replicate 32 2 :: bytes) \<noteq> rev (replicate 32 1)"
    by (simp_all add: demo_remember_row_def)
  have reads: "list_all (reads_alive demo_remember_row) [Find 1 0 0, Find 2 0 0]" "list_ex (read_by 2) [Find 1 0 0, Find 2 0 0]"
    "list_all (within_grace demo_range remember_new demo_remember_row 0)
       [Find 3 1 1, Act 1 1 (replicate 32 3), Act 3 2 (replicate 32 4)]"
    by (simp_all add: demo_remember_row_def grace_cutoff_def delta_from_std_def checked_add_signed_def demo_range_def
        remember_new_def DEFAULT_GRACE_def stored_time_def)
  show ?thesis
    using concurrent_present_one_rotation [OF demo_remembers_row(1) demo_cookie_parse demo_remembers_row(2) row(1) reads row(3)]
    by (simp add: row(2) del: run_burst.simps)
qed

text \<open>
  A revocation that lands between the two statements is overlooked.  If every token of the
  subject is revoked after \<^verbatim>\<open>present\<close> has read the row and before it rotates it, the rotation
  affects no row and \<^verbatim>\<open>present\<close> still accepts the revoked credential, as it does when another
  request has rotated the series.
\<close>

theorem revoked_between_statements_is_accepted:
  assumes "tbl_wf t"
    and "present_find digest_of chrono self now db_now presented t = Rotate series expected subject"
  shows "present_act digest_of now (Some next) (Rotate series expected subject)
      (snd (remember_revoke_all_for subject t)) =
    (Ok (Accepted subject None), snd (remember_revoke_all_for subject t))"
proof -
  let ?t' = "snd (remember_revoke_all_for subject t)"
  obtain row where row: "tbl_get t series = Some row" "remember_subject row = subject"
    using assms(2) by (auto simp: present_find_def live_get_def Let_def split: option.splits if_splits)
  then have gone: "tbl_get ?t' series = None"
    using tbl_get_delete_for [OF assms(1), of remember_subject subject series]
    by (cases "tbl_get ?t' series") (auto simp: remember_revoke_all_for_def)
  have "tbl_wf ?t'"
    using assms(1) by (simp add: remember_revoke_all_for_def)
  moreover have "snd (rotate_stmt d at series expected ?t') = ?t'" for d at
    using gone unfolding rotate_stmt_def tbl_modify_def snd_conv tbl_get_def
    by (intro map_idI) (auto simp: map_of_eq_None_iff image_iff)
  ultimately show ?thesis
    by (simp add: present_act_def rotate_series_Some gone)
qed

theorem revoked_between_statements_is_accepted_witness:
  "fst (present_act rev 0 (Some (replicate 32 2))
      (present_find rev demo_range remember_new 0 0 demo_cookie demo_remembers)
      (snd (remember_revoke_all_for ''ada'' demo_remembers))) = Ok (Accepted ''ada'' None)"
proof -
  have find: "present_find rev demo_range remember_new 0 0 demo_cookie demo_remembers =
      Rotate (replicate 16 9) (replicate 32 1) ''ada''"
    by (subst present_find_live [OF demo_cookie_parse demo_remembers_row(2)])
      (simp_all add: demo_remember_row_def)
  show ?thesis
    using revoked_between_statements_is_accepted [OF demo_remembers_row(1) find]
    by (simp add: find)
qed

end
