(* ===== verification/Rust_F64.thy ===== *)
theory Rust_F64
  imports Complex_Main "HOL-Library.Log_Nat"
begin

text \<open>
  Rust's \<^verbatim>\<open>f64\<close> as the token buckets use it: rational numbers, each operation followed by
  rounding to 53 significant bits, to nearest with ties to even.  The limiters only ever hold
  values of moderate size (at most \<open>2 ^ 110\<close>, and zero or at least \<open>2 ^ -110\<close>), so the exponent
  range of the format, its infinities and NaNs do not come up and are left out.

  The locale \<open>rounding\<close> is the contract the limiters rely on: rounding is monotone and leaves
  the integers up to \<open>2 ^ 53\<close> alone.  Its interpretation on \<open>round_f64\<close> is the proof that the
  format keeps it.  Rounding errs by at most half a unit in the last place, so a duration of up to
  48 days survives the conversion to seconds and back.
\<close>

section \<open>Rounding\<close>

definition round_half_even :: "rat \<Rightarrow> int" where
  "round_half_even y =
     (let f = \<lfloor>y\<rfloor>; d = y - of_int f
      in if d < 1 / 2 then f else if d > 1 / 2 then f + 1 else if even f then f else f + 1)"

text \<open>The exponent of a positive number: \<open>2 powi e \<le> x < 2 powi (e + 1)\<close>.\<close>

definition exponent :: "rat \<Rightarrow> int" where
  "exponent x =
     (case quotient_of x of
        (p, q) \<Rightarrow>
          (let e = bitlen p - bitlen q
           in if 2 powi e \<le> x then e else e - 1))"

definition round_pos :: "rat \<Rightarrow> rat" where
  "round_pos x = (let ulp = 2 powi (exponent x - 52) in of_int (round_half_even (x / ulp)) * ulp)"

definition round_f64 :: "rat \<Rightarrow> rat" where
  "round_f64 x = (if x = 0 then 0 else if 0 < x then round_pos x else - round_pos (- x))"

section \<open>Operations\<close>

definition fadd :: "rat \<Rightarrow> rat \<Rightarrow> rat" where
  "fadd x y = round_f64 (x + y)"

definition fsub :: "rat \<Rightarrow> rat \<Rightarrow> rat" where
  "fsub x y = round_f64 (x - y)"

definition fmul :: "rat \<Rightarrow> rat \<Rightarrow> rat" where
  "fmul x y = round_f64 (x * y)"

definition fdiv :: "rat \<Rightarrow> rat \<Rightarrow> rat" where
  "fdiv x y = round_f64 (x / y)"

text \<open>\<^verbatim>\<open>Duration::as_secs_f64\<close> of a duration in nanoseconds: the whole seconds plus the rest divided by
  the nanoseconds of a second, each step rounded.\<close>

definition as_secs_f64 :: "nat \<Rightarrow> rat" where
  "as_secs_f64 ns =
     fadd (round_f64 (of_nat (ns div 1000000000))) (fdiv (of_nat (ns mod 1000000000)) 1000000000)"

text \<open>\<^verbatim>\<open>as u32\<close> and \<^verbatim>\<open>as u64\<close> of a non-negative float: truncation, saturating at the top.\<close>

definition as_u32 :: "rat \<Rightarrow> nat" where
  "as_u32 x = min (nat \<lfloor>x\<rfloor>) (2 ^ 32 - 1)"

definition as_u64 :: "rat \<Rightarrow> nat" where
  "as_u64 x = min (nat \<lfloor>x\<rfloor>) (2 ^ 64 - 1)"

text \<open>\<^verbatim>\<open>Duration::from_secs_f64\<close>, in nanoseconds: it panics on a negative or too large number.\<close>

definition from_secs_f64 :: "rat \<Rightarrow> nat option" where
  "from_secs_f64 s =
     (if s < 0 then None
      else let ns = nat (round_half_even (s * 1000000000))
           in if ns < 2 ^ 64 * 1000000000 then Some ns else None)"

section \<open>Rounding to an integer\<close>

lemma round_half_even_of_int [simp]: "round_half_even (of_int n) = n"
  by (simp add: round_half_even_def Let_def)

lemma round_half_even_bounds: "\<lfloor>y\<rfloor> \<le> round_half_even y" "round_half_even y \<le> \<lfloor>y\<rfloor> + 1"
  by (simp_all add: round_half_even_def Let_def)

lemma round_half_even_mono:
  assumes "x \<le> y" shows "round_half_even x \<le> round_half_even y"
proof (cases "\<lfloor>x\<rfloor> = \<lfloor>y\<rfloor>")
  case True
  with assms show ?thesis by (simp add: round_half_even_def Let_def)
next
  case False
  then have "\<lfloor>x\<rfloor> + 1 \<le> \<lfloor>y\<rfloor>"
    using floor_mono [OF assms] by simp
  with round_half_even_bounds(2) [of x] round_half_even_bounds(1) [of y] show ?thesis
    by linarith
qed

lemma round_half_even_le: "y \<le> of_int n \<Longrightarrow> round_half_even y \<le> n"
  using round_half_even_mono [of y "of_int n"] by simp

lemma round_half_even_ge: "of_int n \<le> y \<Longrightarrow> n \<le> round_half_even y"
  using round_half_even_mono [of "of_int n" y] by simp

section \<open>The exponent\<close>

lemma bitlen_rat_bounds:
  assumes "0 < p"
  shows "2 powi (bitlen p - 1) \<le> (of_int p :: rat)" "(of_int p :: rat) < 2 powi bitlen p"
proof -
  have b: "0 < bitlen p" "2 ^ nat (bitlen p - 1) \<le> p" "p < 2 ^ nat (bitlen p)"
    using bitlen_bounds [OF assms] bitlen_nonneg [of p] assms
    by (auto simp: bitlen_eq_zero_iff less_le)
  then have "(of_int (2 ^ nat (bitlen p - 1)) :: rat) \<le> of_int p" "(of_int p :: rat) < of_int (2 ^ nat (bitlen p))"
    by (simp_all only: of_int_le_iff of_int_less_iff)
  with b(1) show "2 powi (bitlen p - 1) \<le> (of_int p :: rat)" "(of_int p :: rat) < 2 powi bitlen p"
    by (simp_all add: power_int_def)
qed

lemma exponent_bounds:
  assumes "0 < x"
  shows "2 powi exponent x \<le> x" "x < 2 powi (exponent x + 1)"
proof -
  obtain p q where pq: "quotient_of x = (p, q)"
    by (cases "quotient_of x")
  have q: "0 < q" and x: "x = of_int p / of_int q"
    using quotient_of_denom_pos [OF pq] quotient_of_div [OF pq] by auto
  have p: "0 < p"
    using assms q by (simp add: x zero_less_divide_iff)
  let ?e = "bitlen p - bitlen q"
  have "x < 2 powi bitlen p / of_int q"
    using bitlen_rat_bounds(2) [OF p] q by (simp add: x divide_strict_right_mono)
  also have "\<dots> \<le> 2 powi bitlen p / 2 powi (bitlen q - 1)"
    using bitlen_rat_bounds(1) [OF q] q by (intro divide_left_mono) auto
  also have "\<dots> = 2 powi (?e + 1)"
    by (simp add: power_int_diff [symmetric] algebra_simps)
  finally have upper: "x < 2 powi (?e + 1)" .
  have "2 powi (?e - 1) = 2 powi (bitlen p - 1) / (2 powi bitlen q :: rat)"
    by (simp add: power_int_diff [symmetric] algebra_simps)
  also have "\<dots> \<le> of_int p / of_int q"
    using bitlen_rat_bounds [OF p] bitlen_rat_bounds [OF q] p q by (intro frac_le) auto
  finally have lower: "2 powi (?e - 1) \<le> x"
    by (simp add: x)
  show "2 powi exponent x \<le> x" "x < 2 powi (exponent x + 1)"
    using upper lower by (auto simp: exponent_def pq Let_def)
qed

lemma powi_le_iff: "(2 :: rat) powi a \<le> 2 powi b \<longleftrightarrow> a \<le> b"
proof
  show "a \<le> b" if "(2 :: rat) powi a \<le> 2 powi b"
    using that power_int_strict_increasing [of b a "2 :: rat"] by (meson not_le one_less_numeral_iff semiring_norm(76))
  show "(2 :: rat) powi a \<le> 2 powi b" if "a \<le> b"
    using that by (intro power_int_increasing) auto
qed

lemma exponent_unique:
  assumes "0 < x" and "2 powi e \<le> x" and "x < 2 powi (e + 1)"
  shows "exponent x = e"
proof -
  have "(2 :: rat) powi e < 2 powi (exponent x + 1)" "(2 :: rat) powi exponent x < 2 powi (e + 1)"
    using exponent_bounds [OF assms(1)] assms by linarith+
  then show ?thesis
    using powi_le_iff [of "exponent x + 1" e] powi_le_iff [of "e + 1" "exponent x"] by linarith
qed

lemma exponent_mono: "0 < x \<Longrightarrow> x \<le> y \<Longrightarrow> exponent x \<le> exponent y"
proof -
  assume "0 < x" "x \<le> y"
  then have "(2 :: rat) powi exponent x < 2 powi (exponent y + 1)"
    using exponent_bounds(1) [of x] exponent_bounds(2) [of y] by linarith
  then show ?thesis
    using powi_le_iff [of "exponent y + 1" "exponent x"] by linarith
qed

section \<open>Rounding a positive number\<close>

lemma powi_split: "(2 :: rat) powi a * 2 powi b = 2 powi (a + b)"
  by (simp add: power_int_add)

lemma powi_52: "(2 :: rat) powi 52 = of_int (2 ^ 52)" "(2 :: rat) powi 53 = of_int (2 ^ 53)"
  by (simp_all add: power_int_def)

lemma round_pos_ge: "0 < x \<Longrightarrow> 2 powi exponent x \<le> round_pos x"
proof -
  assume x: "0 < x"
  let ?u = "(2 :: rat) powi (exponent x - 52)"
  have "of_int (2 ^ 52) * ?u = 2 powi exponent x"
    by (simp only: powi_52 [symmetric] powi_split) simp
  moreover have "of_int (2 ^ 52) \<le> x / ?u"
    using exponent_bounds(1) [OF x] calculation by (simp add: le_divide_eq)
  then have "2 ^ 52 \<le> round_half_even (x / ?u)"
    by (rule round_half_even_ge)
  then have "(of_int (2 ^ 52) :: rat) \<le> of_int (round_half_even (x / ?u))"
    by (simp only: of_int_le_iff)
  then have "of_int (2 ^ 52) * ?u \<le> of_int (round_half_even (x / ?u)) * ?u"
    by (intro mult_right_mono) auto
  ultimately show ?thesis
    by (simp only: round_pos_def Let_def)
qed

lemma round_pos_le: "0 < x \<Longrightarrow> round_pos x \<le> 2 powi (exponent x + 1)"
proof -
  assume x: "0 < x"
  let ?u = "(2 :: rat) powi (exponent x - 52)"
  have "of_int (2 ^ 53) * ?u = 2 powi (exponent x + 1)"
    by (simp only: powi_52 [symmetric] powi_split) (simp add: add.commute)
  moreover have "x / ?u \<le> of_int (2 ^ 53)"
    using exponent_bounds(2) [OF x] calculation by (simp add: divide_le_eq)
  then have "round_half_even (x / ?u) \<le> 2 ^ 53"
    by (rule round_half_even_le)
  then have "(of_int (round_half_even (x / ?u)) :: rat) \<le> of_int (2 ^ 53)"
    by (simp only: of_int_le_iff)
  then have "of_int (round_half_even (x / ?u)) * ?u \<le> of_int (2 ^ 53) * ?u"
    by (intro mult_right_mono) auto
  ultimately show ?thesis
    by (simp only: round_pos_def Let_def)
qed

lemma round_pos_mono:
  assumes "0 < x" and "x \<le> y" shows "round_pos x \<le> round_pos y"
proof (cases "exponent x = exponent y")
  case True
  have "x / 2 powi (exponent y - 52) \<le> y / 2 powi (exponent y - 52)"
    using assms(2) by (intro divide_right_mono) auto
  from round_half_even_mono [OF this] show ?thesis
    by (simp add: round_pos_def True Let_def mult_right_mono)
next
  case False
  then have "exponent x + 1 \<le> exponent y"
    using exponent_mono [OF assms] by linarith
  then have "(2 :: rat) powi (exponent x + 1) \<le> 2 powi exponent y"
    by (simp add: powi_le_iff)
  with round_pos_le [OF assms(1)] round_pos_ge [of y] assms show ?thesis
    by linarith
qed

lemma round_pos_pos: "0 < x \<Longrightarrow> 0 < round_pos x"
  using round_pos_ge [of x] by (meson less_le_trans zero_less_numeral zero_less_power_int)

lemma round_pos_int:
  assumes "0 < n" and "n \<le> 2 ^ 53" shows "round_pos (of_int n) = of_int n"
proof -
  let ?x = "of_int n :: rat" and ?e = "exponent (of_int n)"
  have x: "0 < ?x"
    using assms(1) by simp
  have "(1 :: rat) \<le> ?x"
    using assms(1) by simp
  then have e0: "0 \<le> ?e"
    using exponent_mono [of 1 ?x] exponent_unique [of 1 0] by simp
  have "?x \<le> 2 powi 53"
    using assms(2) unfolding powi_52 by (simp only: of_int_le_iff)
  then have "(2 :: rat) powi ?e \<le> 2 powi 53"
    using exponent_bounds(1) [OF x] by linarith
  then have e53: "?e \<le> 53"
    by (simp only: powi_le_iff)
  show ?thesis
  proof (cases "?e = 53")
    case True
    then have "?x = 2 powi 53"
      using exponent_bounds(1) [OF x] \<open>?x \<le> 2 powi 53\<close> by simp
    then have n: "n = 2 ^ 53"
      unfolding powi_52 by (simp only: of_int_eq_iff)
    have "?x / 2 powi (?e - 52) = of_int (2 ^ 52)"
      by (simp only: True) (simp add: n)
    then have "round_pos ?x = of_int (2 ^ 52) * 2 powi (?e - 52)"
      by (simp only: round_pos_def Let_def round_half_even_of_int)
    then show ?thesis
      by (simp only: True) (simp add: n)
  next
    case False
    then have "0 \<le> 52 - ?e"
      using e53 by linarith
    then have "?x / 2 powi (?e - 52) = of_int (n * 2 ^ nat (52 - ?e))"
      by (simp add: power_int_diff power_int_def field_simps flip: power_add)
    then have "round_pos ?x = of_int (n * 2 ^ nat (52 - ?e)) * 2 powi (?e - 52)"
      by (simp only: round_pos_def Let_def round_half_even_of_int)
    also have "\<dots> = ?x"
      using \<open>?x / 2 powi (?e - 52) = of_int (n * 2 ^ nat (52 - ?e))\<close> [symmetric] by simp
    finally show ?thesis .
  qed
qed

section \<open>The contract\<close>

locale rounding =
  fixes rnd :: "rat \<Rightarrow> rat"
  assumes mono: "x \<le> y \<Longrightarrow> rnd x \<le> rnd y"
    and exact: "\<bar>n\<bar> \<le> 2 ^ 53 \<Longrightarrow> rnd (of_int n) = of_int n"
begin

lemma zero [simp]: "rnd 0 = 0"
  using exact [of 0] by simp

lemma one [simp]: "rnd 1 = 1"
  using exact [of 1] by simp

lemma exact_nat: "n \<le> 2 ^ 53 \<Longrightarrow> rnd (of_nat n) = of_nat n"
  using exact [of "int n"] by simp

lemma nonneg: "0 \<le> x \<Longrightarrow> 0 \<le> rnd x"
  using mono [of 0 x] by simp

lemma le_nat: "n \<le> 2 ^ 53 \<Longrightarrow> x \<le> of_nat n \<Longrightarrow> rnd x \<le> of_nat n"
  using mono [of x "of_nat n"] by (simp add: exact_nat)

lemma ge_nat: "n \<le> 2 ^ 53 \<Longrightarrow> of_nat n \<le> x \<Longrightarrow> of_nat n \<le> rnd x"
  using mono [of "of_nat n" x] by (simp add: exact_nat)

end

interpretation f64: rounding round_f64
proof unfold_locales
  fix x y :: rat
  assume xy: "x \<le> y"
  consider "0 < x" | "x \<le> 0" "0 \<le> y" | "y < 0"
    by linarith
  then show "round_f64 x \<le> round_f64 y"
  proof cases
    case 1
    with xy show ?thesis by (simp add: round_f64_def round_pos_mono)
  next
    case 2
    then show ?thesis
      using round_pos_pos [of "- x"] round_pos_pos [of y] by (auto simp: round_f64_def)
  next
    case 3
    with xy show ?thesis by (auto simp: round_f64_def intro: round_pos_mono)
  qed
next
  fix n :: int
  assume "\<bar>n\<bar> \<le> 2 ^ 53"
  then show "round_f64 (of_int n) = of_int n"
    using round_pos_int [of n] round_pos_int [of "- n"] by (auto simp: round_f64_def)
qed

lemma fadd_mono: "a \<le> b \<Longrightarrow> c \<le> d \<Longrightarrow> fadd a c \<le> fadd b d"
  by (simp add: fadd_def f64.mono add_mono)

lemma fmul_mono: "a \<le> b \<Longrightarrow> 0 \<le> c \<Longrightarrow> fmul a c \<le> fmul b c"
  by (simp add: fmul_def f64.mono mult_right_mono)

lemma fmul_nonneg: "0 \<le> a \<Longrightarrow> 0 \<le> b \<Longrightarrow> 0 \<le> fmul a b"
  by (simp add: fmul_def f64.nonneg)

lemma fdiv_nonneg: "0 \<le> a \<Longrightarrow> 0 \<le> b \<Longrightarrow> 0 \<le> fdiv a b"
  by (simp add: fdiv_def f64.nonneg)

lemma fsub_nonneg: "b \<le> a \<Longrightarrow> 0 \<le> fsub a b"
  by (simp add: fsub_def f64.nonneg)

lemma as_secs_f64_zero [simp]: "as_secs_f64 0 = 0"
  by (simp add: as_secs_f64_def fdiv_def fadd_def)

lemma as_secs_f64_nonneg: "0 \<le> as_secs_f64 ns"
  by (simp add: as_secs_f64_def fadd_def fdiv_nonneg f64.nonneg)

lemma nanos_part_le_one: "fdiv (of_nat (ns mod 1000000000)) 1000000000 \<le> 1"
proof -
  have "ns mod 1000000000 \<le> 1000000000"
    by (simp add: less_imp_le)
  then have "(of_nat (ns mod 1000000000) :: rat) \<le> of_nat 1000000000"
    by (simp only: of_nat_le_iff)
  then show ?thesis
    using f64.le_nat [of 1 "of_nat (ns mod 1000000000) / 1000000000"] by (simp add: fdiv_def)
qed

text \<open>Up to \<open>2 ^ 53\<close> seconds (285 million years) the conversion of durations is monotone.\<close>

lemma as_secs_f64_mono:
  assumes "a \<le> b" and "b < 2 ^ 53 * 1000000000"
  shows "as_secs_f64 a \<le> as_secs_f64 b"
proof (cases "a div 1000000000 = b div 1000000000")
  case True
  then have "a mod 1000000000 \<le> b mod 1000000000"
    using assms(1) by (metis add_le_cancel_left div_mult_mod_eq)
  then have "fdiv (of_nat (a mod 1000000000)) 1000000000 \<le> fdiv (of_nat (b mod 1000000000)) 1000000000"
    unfolding fdiv_def by (intro f64.mono divide_right_mono) auto
  then show ?thesis
    by (simp add: as_secs_f64_def True fadd_mono)
next
  case False
  then have less: "a div 1000000000 + 1 \<le> b div 1000000000"
    using div_le_mono [OF assms(1), of 1000000000] by linarith
  have "b div 1000000000 < 2 ^ 53"
    using assms(2) by (simp add: less_mult_imp_div_less)
  then have "round_f64 (of_nat (a div 1000000000)) + 1 \<le> round_f64 (of_nat (b div 1000000000))"
    using less by (simp only: f64.exact_nat)
  then show ?thesis
    unfolding as_secs_f64_def fadd_def
    using nanos_part_le_one [of a] fdiv_nonneg [of "of_nat (b mod 1000000000)" 1000000000]
    by (intro f64.mono) auto
qed

section \<open>How far rounding goes\<close>

lemma round_half_even_error: "\<bar>of_int (round_half_even y) - y\<bar> \<le> 1 / 2"
  using floor_correct [of y] by (auto simp: round_half_even_def Let_def)

lemma round_f64_error:
  assumes "0 \<le> x" and "x < 2 powi k"
  shows "\<bar>round_f64 x - x\<bar> \<le> 2 powi (k - 54)"
proof (cases "x = 0")
  case False
  define u :: rat where "u = 2 powi (exponent x - 52)"
  have u: "0 < u"
    by (simp add: u_def)
  from False assms have pos: "0 < x"
    by simp
  then have "(2 :: rat) powi exponent x < 2 powi k"
    using exponent_bounds(1) [OF pos] assms(2) by linarith
  then have "exponent x < k"
    using powi_le_iff [of k "exponent x"] by (simp add: not_le [symmetric])
  then have "(2 :: rat) powi (exponent x - 53) \<le> 2 powi (k - 54)"
    by (simp add: powi_le_iff)
  moreover have "u = 2 * 2 powi (exponent x - 53)"
    using powi_split [of 1 "exponent x - 53"] by (simp add: u_def)
  ultimately have half: "u / 2 \<le> 2 powi (k - 54)"
    by simp
  have "\<bar>round_f64 x - x\<bar> = \<bar>of_int (round_half_even (x / u)) - x / u\<bar> * u"
  proof -
    have "round_f64 x - x = (of_int (round_half_even (x / u)) - x / u) * u"
      using pos u by (simp add: round_f64_def round_pos_def Let_def u_def [symmetric] left_diff_distrib)
    then show ?thesis
      using u by (simp add: abs_mult)
  qed
  also have "\<dots> \<le> 1 / 2 * u"
    using round_half_even_error u by (intro mult_right_mono) auto
  finally show ?thesis
    using half by simp
qed (simp add: round_f64_def)

lemma round_half_even_near: "\<bar>y - of_int n\<bar> < 1 / 2 \<Longrightarrow> round_half_even y = n"
proof -
  assume near: "\<bar>y - of_int n\<bar> < 1 / 2"
  then have "\<bar>of_int (round_half_even y) - (of_int n :: rat)\<bar> < 1"
    using round_half_even_error [of y] by linarith
  then have "\<bar>round_half_even y - n\<bar> < 1"
    by linarith
  then show ?thesis
    by linarith
qed

text \<open>Durations below \<open>2 ^ 22\<close> seconds (48 days) survive the way to \<^verbatim>\<open>f64\<close> and back.\<close>

lemma as_secs_f64_near:
  assumes "ns < 2 ^ 22 * 1000000000"
  shows "\<bar>as_secs_f64 ns * 1000000000 - of_nat ns\<bar> < 1 / 2"
proof -
  define s :: rat where "s = of_nat (ns div 1000000000)"
  define f :: rat where "f = of_nat (ns mod 1000000000) / 1000000000"
  have sec: "ns div 1000000000 < 2 ^ 22"
    using assms by (simp add: less_mult_imp_div_less)
  then have "of_nat (Suc (ns div 1000000000)) \<le> (of_nat (2 ^ 22) :: rat)"
    unfolding of_nat_le_iff by (rule Suc_leI)
  then have s_le: "s + 1 \<le> 2 ^ 22"
    by (simp add: s_def)
  have ns_split: "of_nat ns = s * 1000000000 + f * 1000000000"
  proof -
    have "(of_nat ns :: rat) = of_nat (ns div 1000000000 * 1000000000 + ns mod 1000000000)"
      by (simp only: div_mult_mod_eq)
    then show ?thesis
      by (simp only: s_def f_def of_nat_add of_nat_mult of_nat_numeral times_divide_eq_left)
  qed
  have f: "0 \<le> f" "f < 1"
  proof -
    have "ns mod 1000000000 < 1000000000"
      by simp
    then have "(of_nat (ns mod 1000000000) :: rat) < of_nat 1000000000"
      by (simp only: of_nat_less_iff)
    then show "f < 1"
      by (simp add: f_def)
  qed (simp add: f_def)
  have "ns div 1000000000 \<le> 2 ^ 53"
    using sec by simp
  then have rs: "round_f64 s = s"
    unfolding s_def by (rule f64.exact_nat)
  define g where "g = round_f64 f"
  have g: "\<bar>g - f\<bar> \<le> 2 powi (0 - 54)"
    unfolding g_def using f by (intro round_f64_error) auto
  have g1: "0 \<le> g" "g \<le> 1"
    unfolding g_def using f f64.nonneg [of f] f64.le_nat [of 1 f] by auto
  have "s + g < 2 powi 23"
    using s_le g1 by (simp add: power_int_def)
  moreover have "0 \<le> s + g"
    using g1 by (simp add: s_def)
  ultimately have "\<bar>round_f64 (s + g) - (s + g)\<bar> \<le> 2 powi (23 - 54)"
    by (intro round_f64_error)
  moreover have "as_secs_f64 ns = round_f64 (s + g)"
    unfolding as_secs_f64_def fadd_def fdiv_def s_def [symmetric] f_def [symmetric] rs g_def ..
  ultimately have "\<bar>as_secs_f64 ns - (s + f)\<bar> \<le> 2 powi (23 - 54) + 2 powi (0 - 54)"
    using g by linarith
  also have "\<dots> < 1 / 2000000000"
    by (simp add: power_int_def power_divide)
  finally show ?thesis
    using ns_split by (simp add: abs_if split: if_splits)
qed

lemma from_as_secs_f64:
  assumes "ns < 2 ^ 22 * 1000000000"
  shows "from_secs_f64 (as_secs_f64 ns) = Some ns"
proof -
  have "round_half_even (as_secs_f64 ns * 1000000000) = int ns"
    using as_secs_f64_near [OF assms] by (intro round_half_even_near) simp
  moreover have "\<not> as_secs_f64 ns < 0"
    using as_secs_f64_nonneg [of ns] by simp
  ultimately show ?thesis
    using assms by (simp add: from_secs_f64_def)
qed

lemma from_secs_f64_le:
  assumes "0 \<le> x" and "x \<le> y" and "from_secs_f64 y = Some d"
  shows "\<exists>e\<le>d. from_secs_f64 x = Some e"
proof -
  have "round_half_even (x * 1000000000) \<le> round_half_even (y * 1000000000)"
    using assms by (intro round_half_even_mono) simp
  then show ?thesis
    using assms by (auto simp: from_secs_f64_def Let_def split: if_splits)
qed

end
