(* ===== verification/Token_Bucket.thy ===== *)
theory Token_Bucket
  imports Rust_F64
begin

text \<open>
  The arithmetic both limiters share (\<^verbatim>\<open>refilled\<close> of \<^verbatim>\<open>src/routing/rate_limit.rs\<close> and
  \<^verbatim>\<open>Bucket::tokens_at\<close> of \<^verbatim>\<open>src/auth/flows/throttle.rs\<close>): the level of a bucket that held
  \<open>tokens\<close> and has been refilled at \<open>rate\<close> for \<open>elapsed\<close> nanoseconds, never above \<open>capacity\<close>.
\<close>

definition level :: "rat \<Rightarrow> rat \<Rightarrow> rat \<Rightarrow> nat \<Rightarrow> rat" where
  "level capacity rate tokens elapsed = min (fadd tokens (fmul (as_secs_f64 elapsed) rate)) capacity"

lemma level_le: "level capacity rate tokens elapsed \<le> capacity"
  by (simp add: level_def)

lemma level_nonneg: "0 \<le> capacity \<Longrightarrow> 0 \<le> rate \<Longrightarrow> 0 \<le> tokens \<Longrightarrow> 0 \<le> level capacity rate tokens elapsed"
  by (simp add: level_def fadd_def fmul_nonneg as_secs_f64_nonneg f64.nonneg)

lemma level_mono:
  assumes "0 \<le> rate" and "a \<le> b" and "b < 2 ^ 53 * 1000000000"
  shows "level capacity rate tokens a \<le> level capacity rate tokens b"
  unfolding level_def
  by (intro min.mono fadd_mono fmul_mono as_secs_f64_mono assms order.refl)

text \<open>At the same instant a whole number of tokens is left as it is.\<close>

lemma level_now: "n \<le> 2 ^ 53 \<Longrightarrow> of_nat n \<le> capacity \<Longrightarrow> level capacity rate (of_nat n) 0 = of_nat n"
  by (simp add: level_def fmul_def fadd_def f64.exact_nat)

text \<open>A full bucket stays full.\<close>

lemma level_full:
  assumes "0 \<le> rate" and "a \<le> b" and "b < 2 ^ 53 * 1000000000"
    and "capacity \<le> level capacity rate tokens a"
  shows "level capacity rate tokens b = capacity"
  using level_mono [OF assms(1-3), of capacity tokens] level_le [of capacity rate tokens b] assms(4)
  by linarith

text \<open>Spending a token from a bucket that has one keeps the level within its bounds.\<close>

lemma spend_bounds:
  assumes "1 \<le> t" and "t \<le> of_nat c" and "c \<le> 2 ^ 53"
  shows "0 \<le> fsub t 1" and "fsub t 1 \<le> of_nat c"
proof -
  show "0 \<le> fsub t 1"
    using assms(1) by (rule fsub_nonneg)
  have "t - 1 \<le> of_nat c"
    using assms(2) by simp
  then show "fsub t 1 \<le> of_nat c"
    unfolding fsub_def by (rule f64.le_nat [OF assms(3)])
qed

lemma spend_nat: "1 \<le> n \<Longrightarrow> n \<le> 2 ^ 53 \<Longrightarrow> fsub (of_nat n) 1 = of_nat (n - 1)"
  using f64.exact_nat [of "n - 1"] by (simp add: fsub_def of_nat_diff)

end
