(* ===== verification/Rate_Limit.thy ===== *)
theory Rate_Limit
  imports Arc_Prelude Token_Bucket
begin

text \<open>
  The request rate limiter of \<^verbatim>\<open>src/routing/rate_limit.rs\<close>: quotas, the token bucket and its
  decision, the in-memory backend with its sweep, the script the Redis backend runs, key sources,
  and the service that refuses, forwards or annotates.

  Instants and durations are nanoseconds; floating-point numbers are those of \<open>Rust_F64\<close>.  The
  service is modelled up to the inner service: its response is whatever the inner service says.
\<close>

section \<open>The code: quotas and decisions\<close>

record Quota =
  limit :: nat
  capacity :: rat
  refill_per_sec :: rat

record Decision =
  allowed :: bool
  remaining :: nat
  reset_after :: nat
  retry_after :: nat

definition seconds_to_accrue :: "rat \<Rightarrow> rat \<Rightarrow> nat" where
  "seconds_to_accrue tokens rate =
     (if tokens \<le> 0 \<or> rate \<le> 0 then 0 else as_u64 (of_int \<lceil>fdiv tokens rate\<rceil>))"

definition describe :: "Quota \<Rightarrow> rat \<Rightarrow> bool \<Rightarrow> Decision" where
  "describe quota tokens_left is_allowed =
     (let deficit = max (fsub (capacity quota) tokens_left) 0
      in \<lparr>allowed = is_allowed,
          remaining = as_u32 (max tokens_left 0),
          reset_after = seconds_to_accrue deficit (refill_per_sec quota),
          retry_after = (if is_allowed then 0
            else max (seconds_to_accrue (fsub 1 tokens_left) (refill_per_sec quota)) 1)\<rparr>)"

definition settle :: "Quota \<Rightarrow> rat \<Rightarrow> rat \<times> Decision" where
  "settle quota tokens =
     (let (left, is_allowed) = (if tokens \<ge> 1 then (fsub tokens 1, True) else (tokens, False))
      in (left, describe quota left is_allowed))"

section \<open>The code: the in-memory backend\<close>

record Bucket =
  tokens :: rat
  updated :: nat

type_synonym buckets = "(string, Bucket) table"

definition SWEEP_AT :: nat where
  "SWEEP_AT = 8192"

definition refilled :: "rat \<Rightarrow> Quota \<Rightarrow> nat \<Rightarrow> rat" where
  "refilled held quota elapsed =
     min (fadd held (fmul (as_secs_f64 elapsed) (refill_per_sec quota))) (capacity quota)"

definition sweep :: "Quota \<Rightarrow> nat \<Rightarrow> buckets \<Rightarrow> buckets" where
  "sweep quota now t =
     tbl_retain (\<lambda>_ bucket. refilled (tokens bucket) quota (now - updated bucket) < capacity quota) t"

definition memory_check :: "string \<Rightarrow> Quota \<Rightarrow> nat \<Rightarrow> buckets \<Rightarrow> Decision \<times> buckets" where
  "memory_check key quota now t0 =
     (let t = (if tbl_len t0 \<ge> SWEEP_AT then sweep quota now t0 else t0);
          bucket = (case tbl_get t key of
                      Some b \<Rightarrow> b | None \<Rightarrow> \<lparr>tokens = capacity quota, updated = now\<rparr>);
          level = refilled (tokens bucket) quota (now - updated bucket);
          (left, decision) = settle quota level
      in (decision, tbl_put key \<lparr>tokens = left, updated = now\<rparr> t))"

section \<open>The code: the Redis backend's script\<close>

text \<open>\<^verbatim>\<open>BUCKET_SCRIPT\<close>: the stored hash is \<open>None\<close> or its fields \<open>t\<close> and \<open>u\<close>; the result is what the
  script returns and the hash it leaves.  Lua's numbers are doubles.\<close>

definition BUCKET_SCRIPT :: "rat \<Rightarrow> rat \<Rightarrow> rat \<Rightarrow> (rat \<times> rat) option \<Rightarrow> (int \<times> int) \<times> (rat \<times> rat)" where
  "BUCKET_SCRIPT cap refill_per_ms now_ms state =
     (let (held, last) = (case state of Some s \<Rightarrow> s | None \<Rightarrow> (cap, now_ms));
          elapsed0 = fsub now_ms last;
          elapsed = (if elapsed0 < 0 then 0 else elapsed0);
          level = min cap (fadd held (fmul elapsed refill_per_ms));
          (left, is_allowed) = (if level \<ge> 1 then (fsub level 1, 1) else (level, 0))
      in ((is_allowed, \<lfloor>fmul left 1000\<rfloor>), (left, now_ms)))"

definition redis_check :: "Quota \<Rightarrow> nat \<Rightarrow> (rat \<times> rat) option \<Rightarrow> Decision \<times> (rat \<times> rat)" where
  "redis_check quota now_ms state =
     (case BUCKET_SCRIPT (capacity quota) (fdiv (refill_per_sec quota) 1000) (of_nat now_ms) state of
        ((is_allowed, milli_tokens), state') \<Rightarrow>
          (describe quota (fdiv (of_int milli_tokens) 1000) (is_allowed = 1), state'))"

section \<open>The code: limits, keys and the service\<close>

record KeyRequest =
  client_ip :: "string option"
  connect_ip :: "string option"
  header_text :: "string \<Rightarrow> string option"

datatype KeySource = KeyIp | KeyHeader string | KeyGlobal | KeyCustom "KeyRequest \<Rightarrow> string option"

definition UNIDENTIFIED_KEY :: string where
  "UNIDENTIFIED_KEY = ''unidentified''"

definition nonempty :: "string option \<Rightarrow> string option" where
  "nonempty r = (case r of Some v \<Rightarrow> if v = [] then None else Some v | None \<Rightarrow> None)"

definition key_for :: "KeySource \<Rightarrow> KeyRequest \<Rightarrow> string" where
  "key_for source request =
     (let resolved =
        (case source of
           KeyIp \<Rightarrow> (case client_ip request of Some ip \<Rightarrow> Some ip | None \<Rightarrow> connect_ip request)
         | KeyHeader name \<Rightarrow> nonempty (header_text request name)
         | KeyGlobal \<Rightarrow> Some ''global''
         | KeyCustom f \<Rightarrow> nonempty (f request))
      in case resolved of Some key \<Rightarrow> key | None \<Rightarrow> UNIDENTIFIED_KEY)"

datatype OnBackendError = Refuse | Allow

record RateLimit =
  quota :: Quota
  key_source :: KeySource
  on_backend_error :: OnBackendError

definition rate_limit_new :: "nat \<Rightarrow> nat \<Rightarrow> RateLimit" where
  "rate_limit_new max_requests window0 =
     (let window = max window0 1000000
      in \<lparr>quota = \<lparr>limit = max_requests, capacity = of_nat max_requests,
                   refill_per_sec = fdiv (of_nat max_requests) (as_secs_f64 window)\<rparr>,
          key_source = KeyIp, on_backend_error = Refuse\<rparr>)"

definition per_second :: "nat \<Rightarrow> RateLimit" where
  "per_second max_requests = rate_limit_new max_requests 1000000000"

definition per_minute :: "nat \<Rightarrow> RateLimit" where
  "per_minute max_requests = rate_limit_new max_requests (60 * 1000000000)"

definition per_hour :: "nat \<Rightarrow> RateLimit" where
  "per_hour max_requests = rate_limit_new max_requests (3600 * 1000000000)"

definition burst :: "RateLimit \<Rightarrow> nat \<Rightarrow> RateLimit" where
  "burst self b = self\<lparr>quota := (quota self)\<lparr>capacity := of_nat b\<rparr>\<rparr>"

definition by_key :: "RateLimit \<Rightarrow> KeySource \<Rightarrow> RateLimit" where
  "by_key self source = self\<lparr>key_source := source\<rparr>"

datatype Checked = Decided Decision | BackendDown

text \<open>What the service does with a request: hand it on with or without the three headers added to the
  response, or answer itself with a status and headers.\<close>

datatype Reply = Forward "(string \<times> nat) list" | Answer nat "(string \<times> nat) list"

definition annotate :: "nat \<Rightarrow> Decision \<Rightarrow> (string \<times> nat) list" where
  "annotate max_requests decision =
     [(''ratelimit-limit'', max_requests), (''ratelimit-remaining'', remaining decision),
      (''ratelimit-reset'', reset_after decision)]"

definition refused :: "nat \<Rightarrow> Decision \<Rightarrow> Reply" where
  "refused max_requests decision =
     Answer 429 (annotate max_requests decision @ [(''retry-after'', retry_after decision)])"

definition backend_unavailable :: Reply where
  "backend_unavailable = Answer 503 []"

definition reply_to :: "RateLimit \<Rightarrow> Checked \<Rightarrow> Reply" where
  "reply_to self checked =
     (case checked of
        BackendDown \<Rightarrow>
          (case on_backend_error self of Refuse \<Rightarrow> backend_unavailable | Allow \<Rightarrow> Forward [])
      | Decided decision \<Rightarrow>
          if \<not> allowed decision then refused (limit (quota self)) decision
          else Forward (annotate (limit (quota self)) decision))"

definition call :: "RateLimit \<Rightarrow> nat \<Rightarrow> KeyRequest \<Rightarrow> buckets \<Rightarrow> Reply \<times> buckets" where
  "call self now request t =
     (case memory_check (key_for (key_source self) request) (quota self) now t of
        (decision, t') \<Rightarrow> (reply_to self (Decided decision), t'))"

section \<open>Invariants\<close>

text \<open>Quotas as the constructors build them: a whole capacity of at most 32 bits, a rate that is
  not negative.\<close>

definition quota_ok :: "Quota \<Rightarrow> bool" where
  "quota_ok q = (0 \<le> refill_per_sec q \<and> (\<exists>c \<le> 2 ^ 32 - 1. capacity q = of_nat c))"

definition bucket_ok :: "Quota \<Rightarrow> Bucket \<Rightarrow> bool" where
  "bucket_ok q b = (0 \<le> tokens b \<and> tokens b \<le> capacity q)"

definition buckets_ok :: "Quota \<Rightarrow> buckets \<Rightarrow> bool" where
  "buckets_ok q t = (tbl_wf t \<and> (\<forall>k b. tbl_get t k = Some b \<longrightarrow> bucket_ok q b))"

lemma refilled_level: "refilled held q elapsed = level (capacity q) (refill_per_sec q) held elapsed"
  by (simp add: refilled_def level_def)

lemma quota_okE:
  assumes "quota_ok q"
  obtains c where "capacity q = of_nat c" "c \<le> 2 ^ 32 - 1" "0 \<le> capacity q" "0 \<le> refill_per_sec q"
  using assms by (auto simp: quota_ok_def)

lemma settle_bounds:
  assumes "quota_ok q" and "0 \<le> t" and "t \<le> capacity q"
  shows "0 \<le> fst (settle q t) \<and> fst (settle q t) \<le> capacity q"
proof -
  obtain c where c: "capacity q = of_nat c" "c \<le> 2 ^ 32 - 1"
    using assms(1) by (rule quota_okE)
  then have "c \<le> 2 ^ 53"
    by simp
  with assms(2,3) c(1) show ?thesis
    using spend_bounds [of t c] by (auto simp: settle_def)
qed

lemma memory_check_eq:
  "memory_check key q now t =
   (let t1 = (if tbl_len t \<ge> SWEEP_AT then sweep q now t else t);
        b = (case tbl_get t1 key of Some b \<Rightarrow> b | None \<Rightarrow> \<lparr>tokens = capacity q, updated = now\<rparr>);
        s = settle q (refilled (tokens b) q (now - updated b))
    in (snd s, tbl_put key \<lparr>tokens = fst s, updated = now\<rparr> t1))"
  by (simp add: memory_check_def Let_def case_prod_unfold)

lemma buckets_ok_sweep: "buckets_ok q t \<Longrightarrow> buckets_ok q (sweep q now t)"
  by (auto simp: buckets_ok_def sweep_def tbl.get_retain_Some_iff)

lemma buckets_okD: "buckets_ok q t \<Longrightarrow> tbl_get t k = Some b \<Longrightarrow> 0 \<le> tokens b \<and> tokens b \<le> capacity q"
  by (auto simp: buckets_ok_def bucket_ok_def)

lemma buckets_ok_put:
  "buckets_ok q t \<Longrightarrow> bucket_ok q b \<Longrightarrow> buckets_ok q (tbl_put k b t)"
  by (simp add: buckets_ok_def table_simps)

section \<open>The limiter without its sweep\<close>

text \<open>
  The specification the in-memory backend implements: an unbounded map of buckets that is never
  swept.  \<open>view\<close> is all a request can see of a key: its level at the instant of the request.
\<close>

type_synonym bucket_map = "string \<Rightarrow> Bucket option"

definition spec_check :: "string \<Rightarrow> Quota \<Rightarrow> nat \<Rightarrow> bucket_map \<Rightarrow> Decision \<times> bucket_map" where
  "spec_check key q now m =
     (let b = (case m key of Some b \<Rightarrow> b | None \<Rightarrow> \<lparr>tokens = capacity q, updated = now\<rparr>);
          s = settle q (refilled (tokens b) q (now - updated b))
      in (snd s, m(key \<mapsto> \<lparr>tokens = fst s, updated = now\<rparr>)))"

fun run_memory :: "Quota \<Rightarrow> (string \<times> nat) list \<Rightarrow> buckets \<Rightarrow> Decision list" where
  "run_memory q [] t = []"
| "run_memory q ((key, now) # requests) t =
     (let r = memory_check key q now t in fst r # run_memory q requests (snd r))"

fun run_spec :: "Quota \<Rightarrow> (string \<times> nat) list \<Rightarrow> bucket_map \<Rightarrow> Decision list" where
  "run_spec q [] m = []"
| "run_spec q ((key, now) # requests) m =
     (let r = spec_check key q now m in fst r # run_spec q requests (snd r))"

definition view :: "Quota \<Rightarrow> nat \<Rightarrow> Bucket option \<Rightarrow> rat" where
  "view q now b =
     (case b of None \<Rightarrow> capacity q | Some b \<Rightarrow> refilled (tokens b) q (now - updated b))"

definition last_instant :: nat where
  "last_instant = 2 ^ 53 * 1000000000"

definition sim :: "Quota \<Rightarrow> nat \<Rightarrow> buckets \<Rightarrow> bucket_map \<Rightarrow> bool" where
  "sim q now t m = (tbl_wf t \<and> (\<forall>key later. now \<le> later \<longrightarrow> later < last_instant \<longrightarrow>
     view q later (tbl_get t key) = view q later (m key)))"

lemma refilled_full: "quota_ok q \<Longrightarrow> refilled (capacity q) q 0 = capacity q"
  by (elim quota_okE) (simp add: refilled_level level_now)

lemma check_level:
  assumes "quota_ok q"
  shows "refilled (tokens (case r of Some b \<Rightarrow> b | None \<Rightarrow> \<lparr>tokens = capacity q, updated = now\<rparr>)) q
      (now - updated (case r of Some b \<Rightarrow> b | None \<Rightarrow> \<lparr>tokens = capacity q, updated = now\<rparr>)) =
    view q now r"
  using refilled_full [OF assms] by (simp add: view_def split: option.splits)

lemma memory_check_view:
  assumes "quota_ok q"
  defines "t1 t now \<equiv> if tbl_len t \<ge> SWEEP_AT then sweep q now t else t"
  shows "memory_check key q now t =
    (snd (settle q (view q now (tbl_get (t1 t now) key))),
     tbl_put key \<lparr>tokens = fst (settle q (view q now (tbl_get (t1 t now) key))), updated = now\<rparr> (t1 t now))"
  by (simp add: memory_check_eq check_level [OF assms(1)] t1_def Let_def)

lemma spec_check_view:
  "quota_ok q \<Longrightarrow> spec_check key q now m =
   (snd (settle q (view q now (m key))),
    m(key \<mapsto> \<lparr>tokens = fst (settle q (view q now (m key))), updated = now\<rparr>))"
  by (simp add: spec_check_def check_level Let_def)

text \<open>A swept bucket was full, and a full bucket stays full: no later request can tell.\<close>

lemma view_sweep:
  assumes "quota_ok q" and "tbl_wf t" and "now \<le> later" and "later < last_instant"
  shows "view q later (tbl_get (sweep q now t) key) = view q later (tbl_get t key)"
  unfolding sweep_def
proof (rule tbl.retain_unobservable [OF assms(2)])
  fix b :: Bucket
  assume "\<not> refilled (tokens b) q (now - updated b) < capacity q"
  moreover have "later - updated b < 2 ^ 53 * 1000000000"
    using assms(4) by (simp add: last_instant_def)
  ultimately have "refilled (tokens b) q (later - updated b) = capacity q"
    using assms(1,3) unfolding refilled_level
    by (elim quota_okE) (rule level_full [where a = "now - updated b"], auto)
  then show "view q later (Some b) = view q later None"
    by (simp add: view_def)
qed

lemma sim_check:
  assumes "quota_ok q" and "sim q before t m" and "before \<le> now" and "now < last_instant"
  shows "fst (memory_check key q now t) = fst (spec_check key q now m)
    \<and> sim q now (snd (memory_check key q now t)) (snd (spec_check key q now m))"
proof -
  let ?t1 = "if tbl_len t \<ge> SWEEP_AT then sweep q now t else t"
  have wf: "tbl_wf t" "tbl_wf ?t1"
    using assms(2) by (simp_all add: sim_def sweep_def)
  have same: "view q later (tbl_get ?t1 k) = view q later (m k)"
    if "now \<le> later" "later < last_instant" for k later
    using view_sweep [OF assms(1) wf(1) that] that assms(2,3) by (simp add: sim_def)
  note level = same [OF order.refl assms(4), of key]
  show ?thesis
    unfolding memory_check_view [OF assms(1)] spec_check_view [OF assms(1)] level
    using wf(2) same by (auto simp: sim_def table_simps)
qed

lemma sim_unswept:
  assumes "quota_ok q" and "sim q before t m" and "before \<le> now" and "now < last_instant" and "tbl_len t < SWEEP_AT"
  shows "sim q before (snd (memory_check key q now t)) (snd (spec_check key q now m))"
proof -
  have "view q now (tbl_get t key) = view q now (m key)"
    using assms(2-4) by (simp add: sim_def)
  with assms(1,2,5) show ?thesis
    unfolding memory_check_view [OF assms(1)] spec_check_view [OF assms(1)]
    by (auto simp: sim_def table_simps)
qed

text \<open>
  A request is stamped before it takes the lock, so stamps may run backwards.  \<open>after_sweeps\<close> says
  of a stream, in the order of the lock, that no request is stamped before a sweep that ran earlier.
\<close>

fun after_sweeps :: "Quota \<Rightarrow> nat \<Rightarrow> (string \<times> nat) list \<Rightarrow> buckets \<Rightarrow> bool" where
  "after_sweeps q swept [] t = True"
| "after_sweeps q swept ((key, now) # requests) t =
     (swept \<le> now \<and> after_sweeps q (if tbl_len t \<ge> SWEEP_AT then now else swept) requests (snd (memory_check key q now t)))"

lemma run_refines_after_sweeps:
  "quota_ok q \<Longrightarrow> sim q swept t m \<Longrightarrow> after_sweeps q swept requests t \<Longrightarrow>
   \<forall>r \<in> set requests. snd r < last_instant \<Longrightarrow> run_memory q requests t = run_spec q requests m"
proof (induction requests arbitrary: swept t m)
  case (Cons r requests)
  obtain key now where r: "r = (key, now)"
    by (cases r)
  let ?swept = "if tbl_len t \<ge> SWEEP_AT then now else swept"
  have now: "swept \<le> now" "now < last_instant"
    and rest: "after_sweeps q ?swept requests (snd (memory_check key q now t))"
    using Cons.prems(3,4) by (simp_all add: r)
  have "sim q ?swept (snd (memory_check key q now t)) (snd (spec_check key q now m))"
    using sim_check [OF Cons.prems(1,2) now, of key] sim_unswept [OF Cons.prems(1,2) now, of key] by simp
  from Cons.IH [OF Cons.prems(1) this rest] sim_check [OF Cons.prems(1,2) now, of key] Cons.prems(4)
  show ?case
    by (simp add: r Let_def)
qed simp

lemma sorted_after_sweeps: "sorted (swept # map snd requests) \<Longrightarrow> after_sweeps q swept requests t"
  by (induction q swept requests t rule: after_sweeps.induct) auto

lemma tbl_len_put: "tbl_len (tbl_put k v t) \<le> Suc (tbl_len t)"
  by (induction t) (auto simp: tbl_len_def tbl_put_def)

lemma few_keys_after_sweeps:
  "tbl_len t + length requests \<le> SWEEP_AT \<Longrightarrow> after_sweeps q 0 requests t"
proof (induction requests arbitrary: t)
  case (Cons r requests)
  obtain key now where r: "r = (key, now)"
    by (cases r)
  have "tbl_len (snd (memory_check key q now t)) \<le> tbl_len t + 1"
    using Cons.prems by (simp add: memory_check_eq Let_def tbl_len_put)
  with Cons show ?case
    by (simp add: r)
qed simp

lemma run_refines:
  "quota_ok q \<Longrightarrow> sim q before t m \<Longrightarrow> sorted (before # map snd requests) \<Longrightarrow>
   \<forall>r \<in> set requests. snd r < last_instant \<Longrightarrow> run_memory q requests t = run_spec q requests m"
  using run_refines_after_sweeps sorted_after_sweeps by blast

section \<open>Streams of requests\<close>

definition decisions_for :: "string \<Rightarrow> (string \<times> nat) list \<Rightarrow> Decision list \<Rightarrow> Decision list" where
  "decisions_for key requests decisions =
     map snd (filter (\<lambda>(r, _). fst r = key) (zip requests decisions))"

lemma spec_check_other:
  "key \<noteq> k \<Longrightarrow> snd (spec_check key q now m) k = m k"
  by (simp add: spec_check_def Let_def)

lemma spec_check_cong: "m k = m' k \<Longrightarrow> fst (spec_check k q now m) = fst (spec_check k q now m')
    \<and> snd (spec_check k q now m) k = snd (spec_check k q now m') k"
  by (simp add: spec_check_def Let_def)

lemma run_spec_isolated:
  "m k = m' k \<Longrightarrow> decisions_for k requests (run_spec q requests m) =
   run_spec q (filter (\<lambda>r. fst r = k) requests) m'"
proof (induction requests arbitrary: m m')
  case (Cons r requests)
  obtain key now where r: "r = (key, now)"
    by (cases r)
  show ?case
  proof (cases "key = k")
    case True
    with Cons.IH [of "snd (spec_check k q now m)" "snd (spec_check k q now m')"]
      spec_check_cong [where m = m and m' = m' and k = k, OF Cons.prems, of q now]
    show ?thesis by (simp add: r decisions_for_def Let_def)
  next
    case False
    with Cons.IH [of "snd (spec_check key q now m)" m'] Cons.prems
    show ?thesis by (simp add: r decisions_for_def Let_def spec_check_other)
  qed
qed (simp add: decisions_for_def)

lemma run_spec_at_once:
  assumes "quota_ok q" and "m key = Some \<lparr>tokens = of_nat k, updated = now\<rparr>"
    and "of_nat k \<le> capacity q"
  shows "map allowed (run_spec q (replicate n (key, now)) m) =
    replicate (min n k) True @ replicate (n - k) False"
  using assms(2,3)
proof (induction n arbitrary: k m)
  case (Suc n)
  obtain c where "capacity q = of_nat c" "c \<le> 2 ^ 32 - 1"
    using assms(1) by (rule quota_okE)
  then have k: "k \<le> 2 ^ 53"
    using Suc.prems(2) by simp
  have "view q now (m key) = of_nat k"
    using k Suc.prems by (simp add: view_def refilled_level level_now)
  moreover have "settle q (of_nat k) = (of_nat (k - 1), describe q (of_nat (k - 1)) (1 \<le> k))"
    using spend_nat [OF _ k] by (cases k) (auto simp: settle_def)
  moreover define m' where "m' = m(key \<mapsto> \<lparr>tokens = of_nat (k - 1), updated = now\<rparr>)"
  ultimately have "spec_check key q now m = (describe q (of_nat (k - 1)) (1 \<le> k), m')"
    by (simp only: spec_check_view [OF assms(1)] fst_conv snd_conv)
  moreover have "map allowed (run_spec q (replicate n (key, now)) m') =
      replicate (min n (k - 1)) True @ replicate (n - (k - 1)) False"
    by (rule Suc.IH) (use Suc.prems(2) in \<open>cases k; simp add: m'_def\<close>)+
  ultimately show ?case
    by (cases k) (simp_all add: describe_def Let_def)
qed simp

section \<open>Properties\<close>

text \<open>
  C4.  The sweep is unobservable: the in-memory backend, which drops buckets when the table is
  large, gives every request exactly the decision (allowed or not, remaining, reset, retry) that a
  limiter which never drops a bucket gives, in floating-point arithmetic and for any number of
  keys, as long as no request is stamped before a sweep that took the lock earlier (and stamps lie
  within \<open>2 ^ 53\<close> seconds).  Stamps may otherwise run backwards.  A request stamped before an earlier sweep
  can find its bucket gone that was full at the sweep and not yet at the stamp.
\<close>

theorem memory_refines_unswept:
  assumes "quota_ok q" and "after_sweeps q 0 requests tbl_empty"
    and "\<forall>r \<in> set requests. snd r < last_instant"
  shows "run_memory q requests tbl_empty = run_spec q requests Map.empty"
  by (rule run_refines_after_sweeps [OF assms(1) _ assms(2,3)]) (simp add: sim_def table_simps)

definition demo_quota :: Quota where
  "demo_quota = \<lparr>limit = 2, capacity = of_nat 2, refill_per_sec = 1\<rparr>"

lemma demo_quota_ok: "quota_ok demo_quota"
  by (auto simp: quota_ok_def demo_quota_def intro!: exI [of _ 2])

theorem memory_refines_unswept_witness:
  "run_memory demo_quota [(''a'', 7), (''b'', 5), (''a'', 5)] tbl_empty =
   run_spec demo_quota [(''a'', 7), (''b'', 5), (''a'', 5)] Map.empty"
  by (rule memory_refines_unswept [OF demo_quota_ok few_keys_after_sweeps])
    (simp_all add: last_instant_def SWEEP_AT_def tbl_len_def tbl_empty_def)

text \<open>
  The bucket invariant: no sequence of requests at whatever instants, even ones that run
  backwards, takes a bucket below zero or above its capacity, and the \<open>remaining\<close> a client is told
  never exceeds the capacity.
\<close>

theorem memory_check_invariant:
  assumes "quota_ok q" and "buckets_ok q t"
  shows "buckets_ok q (snd (memory_check key q now t))
    \<and> of_nat (remaining (fst (memory_check key q now t))) \<le> capacity q"
proof -
  let ?t1 = "if tbl_len t \<ge> SWEEP_AT then sweep q now t else t"
  let ?v = "view q now (tbl_get ?t1 key)"
  have ok: "buckets_ok q ?t1"
    using assms(2) by (simp add: buckets_ok_sweep)
  obtain c where c: "capacity q = of_nat c" "0 \<le> capacity q" "0 \<le> refill_per_sec q"
    using assms(1) by (rule quota_okE)
  have "0 \<le> ?v" "?v \<le> capacity q"
    using c buckets_okD [OF ok] level_nonneg level_le
    by (auto simp: view_def refilled_level split: option.splits)
  note s = settle_bounds [OF assms(1) this]
  have "remaining (snd (settle q ?v)) \<le> c"
  proof -
    have "remaining (snd (settle q ?v)) \<le> nat \<lfloor>fst (settle q ?v)\<rfloor>"
      using s by (auto simp: settle_def describe_def as_u32_def Let_def)
    also have "\<dots> \<le> c"
      using s c(1) by (metis floor_mono floor_of_nat nat_int nat_mono)
    finally show ?thesis .
  qed
  then show ?thesis
    unfolding memory_check_view [OF assms(1)] c(1)
    using ok s by (auto intro!: buckets_ok_put simp: bucket_ok_def)
qed

theorem memory_check_invariant_witness:
  "buckets_ok demo_quota (snd (memory_check ''a'' demo_quota 7 tbl_empty))
   \<and> of_nat (remaining (fst (memory_check ''a'' demo_quota 7 tbl_empty))) \<le> (2 :: rat)"
  using memory_check_invariant [OF demo_quota_ok, of tbl_empty "''a''" 7]
  by (simp add: buckets_ok_def table_simps demo_quota_def)

text \<open>
  Clients are isolated: the decisions one key gets in a stream of requests of many keys are the
  decisions it would get alone.
\<close>

theorem keys_isolated:
  assumes "quota_ok q" and "sorted (map snd requests)" and "\<forall>r \<in> set requests. snd r < last_instant"
  shows "decisions_for key requests (run_memory q requests tbl_empty) =
    run_memory q (filter (\<lambda>r. fst r = key) requests) tbl_empty"
proof -
  have init: "sim q 0 tbl_empty Map.empty"
    by (simp add: sim_def table_simps)
  have "run_memory q requests tbl_empty = run_spec q requests Map.empty"
    using run_refines [OF assms(1) init _ assms(3)] assms(2) by simp
  moreover have "run_memory q (filter (\<lambda>r. fst r = key) requests) tbl_empty =
      run_spec q (filter (\<lambda>r. fst r = key) requests) Map.empty"
    using run_refines [OF assms(1) init, of "filter (\<lambda>r. fst r = key) requests"]
      sorted_filter [OF assms(2), of "\<lambda>r. fst r = key"] assms(3) by simp
  ultimately show ?thesis
    by (simp add: run_spec_isolated)
qed

theorem keys_isolated_witness:
  "decisions_for ''a'' [(''a'', 1), (''b'', 5), (''a'', 5)]
     (run_memory demo_quota [(''a'', 1), (''b'', 5), (''a'', 5)] tbl_empty) =
   run_memory demo_quota [(''a'', 1), (''a'', 5)] tbl_empty"
  using keys_isolated [OF demo_quota_ok, of "[(''a'', 1), (''b'', 5), (''a'', 5)]" "''a''"]
  by (simp add: last_instant_def del: run_memory.simps)

text \<open>
  The burst is exact: of any number of requests one client sends at one instant, exactly the
  configured burst is admitted, the first ones, and every later one is refused.
\<close>

theorem burst_exact:
  assumes "b \<le> 2 ^ 32 - 1" and "max_requests \<le> 2 ^ 32 - 1" and "now < last_instant"
  shows "map allowed (run_memory (quota (burst (rate_limit_new max_requests window) b))
      (replicate n (key, now)) tbl_empty) = replicate (min n b) True @ replicate (n - b) False"
proof -
  let ?q = "quota (burst (rate_limit_new max_requests window) b)"
  have cap: "capacity ?q = of_nat b"
    by (simp add: burst_def rate_limit_new_def Let_def)
  have ok: "quota_ok ?q"
    using assms(1) by (auto simp: quota_ok_def burst_def rate_limit_new_def Let_def fdiv_nonneg
        as_secs_f64_nonneg)
  let ?m = "Map.empty(key \<mapsto> \<lparr>tokens = of_nat b, updated = now\<rparr>)"
  have "sim ?q now tbl_empty ?m"
    using assms(1) ok cap refilled_full [OF ok]
    by (auto simp: sim_def table_simps view_def refilled_level cap
        intro!: level_full [where a = 0 and b = "later - now" for later, symmetric]
        elim!: quota_okE)
      (auto simp: last_instant_def)
  then have "run_memory ?q (replicate n (key, now)) tbl_empty = run_spec ?q (replicate n (key, now)) ?m"
    using assms(3) by (intro run_refines [where before = now] ok) (auto simp: sorted_replicate)
  then show ?thesis
    using run_spec_at_once [OF ok, of ?m key b now n] cap by simp
qed

theorem burst_exact_witness:
  "map allowed (run_memory (quota (burst (rate_limit_new 60 60000000000) 3))
     (replicate 5 (''a'', 7)) tbl_empty) = [True, True, True, False, False]"
proof -
  have five: "replicate (min 5 3) True @ replicate (5 - 3) False = [True, True, True, False, False]"
    by code_simp
  show ?thesis
    using burst_exact [of 3 60 7 60000000000 5 "''a''", unfolded five]
    by (simp only: last_instant_def) simp
qed

end
