(* ===== verification/Ip_Addr.thy ===== *)
theory Ip_Addr
  imports Arc_Prelude
begin

text \<open>
  IP addresses of the standard library, as \<^verbatim>\<open>src/http/client_ip.rs\<close> and
  \<^verbatim>\<open>src/auth/flows/throttle.rs\<close> use them: the two families, \<^verbatim>\<open>to_canonical\<close>, \<^verbatim>\<open>octets\<close>, and the
  text parsers behind \<^verbatim>\<open>str::parse::<IpAddr>()\<close> and \<^verbatim>\<open>str::parse::<SocketAddr>()\<close>.

  A parser takes the text left to read and returns the value with the text after it.
\<close>

datatype IpAddr = V4 "32 word" | V6 "128 word"

definition is_ipv4 :: "IpAddr \<Rightarrow> bool" where
  "is_ipv4 addr = (case addr of V4 _ \<Rightarrow> True | V6 _ \<Rightarrow> False)"

text \<open>An IPv4-mapped address \<^verbatim>\<open>::ffff:a.b.c.d\<close> is the IPv4 address it maps.\<close>

definition to_canonical :: "IpAddr \<Rightarrow> IpAddr" where
  "to_canonical addr =
     (case addr of
        V4 w \<Rightarrow> V4 w
      | V6 w \<Rightarrow> if drop_bit 32 w = 65535 then V4 (ucast w) else V6 w)"

definition octets4 :: "32 word \<Rightarrow> bytes" where
  "octets4 w = map (\<lambda>i. ucast (drop_bit (8 * i) w)) [3, 2, 1, 0]"

definition octets6 :: "128 word \<Rightarrow> bytes" where
  "octets6 w = map (\<lambda>i. ucast (drop_bit (8 * i) w)) [15, 14, 13, 12, 11, 10, 9, 8, 7, 6, 5, 4, 3, 2, 1, 0]"

section \<open>Reading\<close>

definition read_given_char :: "char \<Rightarrow> string \<Rightarrow> string option" where
  "read_given_char c s = (case s of [] \<Rightarrow> None | d # t \<Rightarrow> if d = c then Some t else None)"

definition to_digit :: "nat \<Rightarrow> char \<Rightarrow> nat option" where
  "to_digit radix c =
     (let n = of_char c :: nat;
          v = (if 48 \<le> n \<and> n \<le> 57 then n - 48
               else if 97 \<le> n \<and> n \<le> 122 then n - 87
               else if 65 \<le> n \<and> n \<le> 90 then n - 55 else radix)
      in if v < radix then Some v else None)"

fun read_digits :: "nat \<Rightarrow> nat \<Rightarrow> nat \<Rightarrow> string \<Rightarrow> nat \<times> nat \<times> string" where
  "read_digits radix acc count [] = (acc, count, [])"
| "read_digits radix acc count (c # s) =
     (case to_digit radix c of
        None \<Rightarrow> (acc, count, c # s)
      | Some d \<Rightarrow> read_digits radix (radix * acc + d) (Suc count) s)"

text \<open>\<^verbatim>\<open>read_number\<close>: digits up to \<open>max_digits\<close> where there is a limit, no superfluous leading zero unless
  allowed, and a value of at most \<open>max_value\<close>.\<close>

definition read_number :: "nat \<Rightarrow> nat option \<Rightarrow> bool \<Rightarrow> nat \<Rightarrow> string \<Rightarrow> (nat \<times> string) option" where
  "read_number radix max_digits allow_zero_prefix max_value s =
     (case read_digits radix 0 0 s of
        (v, count, rest) \<Rightarrow>
          if count = 0 \<or> v > max_value
            \<or> (case max_digits of None \<Rightarrow> False | Some m \<Rightarrow> count > m)
            \<or> \<not> allow_zero_prefix \<and> hd s = CHR ''0'' \<and> count > 1
          then None else Some (v, rest))"

definition read_separator :: "char \<Rightarrow> nat \<Rightarrow> (string \<Rightarrow> ('a \<times> string) option) \<Rightarrow> string \<Rightarrow>
    ('a \<times> string) option" where
  "read_separator sep index inner s =
     (if index = 0 then inner s else Option.bind (read_given_char sep s) inner)"

fun read_octets :: "nat \<Rightarrow> nat \<Rightarrow> string \<Rightarrow> (nat list \<times> string) option" where
  "read_octets 0 index s = Some ([], s)"
| "read_octets (Suc n) index s =
     (case read_separator CHR ''.'' index (read_number 10 (Some 3) False 255) s of
        None \<Rightarrow> None
      | Some (v, rest) \<Rightarrow> map_option (\<lambda>(vs, r). (v # vs, r)) (read_octets n (Suc index) rest))"

definition read_ipv4_addr :: "string \<Rightarrow> (32 word \<times> string) option" where
  "read_ipv4_addr s =
     map_option (\<lambda>(vs, r). (word_of_nat (foldl (\<lambda>acc v. 256 * acc + v) 0 vs), r)) (read_octets 4 0 s)"

text \<open>\<^verbatim>\<open>read_groups\<close>: up to \<open>limit\<close> groups from number \<open>i\<close> on, with an IPv4 address in place of the
  last two; the groups, whether an IPv4 address ended them, and the rest.\<close>

fun read_groups :: "nat \<Rightarrow> nat \<Rightarrow> string \<Rightarrow> nat list \<times> bool \<times> string" where
  "read_groups 0 i s = ([], False, s)"
| "read_groups (Suc n) i s =
     (case (if n > 0 then read_separator CHR '':'' i read_ipv4_addr s else None) of
        Some (v4, rest) \<Rightarrow> ([unat v4 div 65536, unat v4 mod 65536], True, rest)
      | None \<Rightarrow>
          (case read_separator CHR '':'' i (read_number 16 (Some 4) True 65535) s of
             None \<Rightarrow> ([], False, s)
           | Some (g, rest) \<Rightarrow>
               (case read_groups n (Suc i) rest of (gs, v4, r) \<Rightarrow> (g # gs, v4, r))))"

definition of_groups :: "nat list \<Rightarrow> 128 word" where
  "of_groups gs = word_of_nat (foldl (\<lambda>acc g. 65536 * acc + g) 0 gs)"

definition read_ipv6_addr :: "string \<Rightarrow> (128 word \<times> string) option" where
  "read_ipv6_addr s =
     (case read_groups 8 0 s of
        (head, head_ipv4, rest) \<Rightarrow>
          if length head = 8 then Some (of_groups head, rest)
          else if head_ipv4 then None
          else Option.bind (Option.bind (read_given_char CHR '':'' rest) (read_given_char CHR '':''))
                 (\<lambda>after. case read_groups (7 - length head) 0 after of
                    (tail, _, r) \<Rightarrow>
                      Some (of_groups (head @ replicate (8 - length head - length tail) 0 @ tail), r)))"

definition all_read :: "('a \<times> string) option \<Rightarrow> 'a option" where
  "all_read r = (case r of Some (v, []) \<Rightarrow> Some v | _ \<Rightarrow> None)"

definition parse_ip :: "string \<Rightarrow> IpAddr option" where
  "parse_ip s =
     all_read (case read_ipv4_addr s of
                 Some (w, r) \<Rightarrow> Some (V4 w, r)
               | None \<Rightarrow> map_option (\<lambda>(w, r). (V6 w, r)) (read_ipv6_addr s))"

definition read_port :: "string \<Rightarrow> (nat \<times> string) option" where
  "read_port s = Option.bind (read_given_char CHR '':'' s) (read_number 10 None True 65535)"

definition read_scope_id :: "string \<Rightarrow> string" where
  "read_scope_id s =
     (case Option.bind (read_given_char CHR ''%'' s) (read_number 10 None True (2 ^ 32 - 1)) of
        Some (_, r) \<Rightarrow> r | None \<Rightarrow> s)"

text \<open>The address of a socket address: \<^verbatim>\<open>a.b.c.d:port\<close> or \<^verbatim>\<open>[v6%scope]:port\<close>.\<close>

definition parse_socket_ip :: "string \<Rightarrow> IpAddr option" where
  "parse_socket_ip s =
     all_read (case Option.bind (read_ipv4_addr s) (\<lambda>(w, r). map_option (\<lambda>(_, r'). (V4 w, r')) (read_port r)) of
        Some x \<Rightarrow> Some x
      | None \<Rightarrow>
          Option.bind (read_given_char CHR ''['' s) (\<lambda>inner.
          Option.bind (read_ipv6_addr inner) (\<lambda>(w, r).
          Option.bind (read_given_char CHR '']'' (read_scope_id r)) (\<lambda>after.
          map_option (\<lambda>(_, r'). (V6 w, r')) (read_port after)))))"

section \<open>Laws\<close>

lemma to_canonical_idem [simp]: "to_canonical (to_canonical a) = to_canonical a"
  by (simp add: to_canonical_def split: IpAddr.splits)

lemma bit_octet: "bit (ucast (drop_bit (8 * i) w) :: u8) n \<longleftrightarrow> n < 8 \<and> bit w (8 * i + n)"
  by (auto simp: bit_simps)

lemma octets4_inject: "octets4 v = octets4 w \<Longrightarrow> v = w"
proof (rule bit_word_eqI)
  fix n assume e: "octets4 v = octets4 w" and "n < LENGTH(32)"
  then have n: "n div 8 \<in> {3, 2, 1, 0}" "8 * (n div 8) + n mod 8 = n"
    by auto
  then have "(ucast (drop_bit (8 * (n div 8)) v) :: u8) = ucast (drop_bit (8 * (n div 8)) w)"
    using e by (auto simp: octets4_def)
  then have "bit (ucast (drop_bit (8 * (n div 8)) v) :: u8) (n mod 8) =
      bit (ucast (drop_bit (8 * (n div 8)) w) :: u8) (n mod 8)"
    by simp
  then show "bit v n = bit w n"
    unfolding bit_octet using n(2) by simp
qed

lemma below_16: "k < 16 \<Longrightarrow> k \<in> {15, 14, 13, 12, 11, 10, 9, 8, 7, 6, 5, 4, 3, 2, 1, 0 :: nat}"
  unfolding insert_iff empty_iff by presburger

lemma octets6_inject: "octets6 v = octets6 w \<Longrightarrow> v = w"
proof (rule bit_word_eqI)
  fix n assume e: "octets6 v = octets6 w" and "n < LENGTH(128)"
  then have "n div 8 < 16"
    by simp
  then have n: "n div 8 \<in> {15, 14, 13, 12, 11, 10, 9, 8, 7, 6, 5, 4, 3, 2, 1, 0}"
    by (rule below_16)
  have n8: "8 * (n div 8) + n mod 8 = n"
    by simp
  have "(ucast (drop_bit (8 * (n div 8)) v) :: u8) = ucast (drop_bit (8 * (n div 8)) w)"
    using e n unfolding octets6_def map_eq_conv list.set by (rule bspec)
  then have "bit (ucast (drop_bit (8 * (n div 8)) v) :: u8) (n mod 8) =
      bit (ucast (drop_bit (8 * (n div 8)) w) :: u8) (n mod 8)"
    by simp
  then show "bit v n = bit w n"
    unfolding bit_octet using n8 by simp
qed

lemma length_octets [simp]: "length (octets4 v) = 4" "length (octets6 w) = 16"
  by (simp_all add: octets4_def octets6_def)

text \<open>Evaluation of the IPv4 reader on concrete texts.\<close>

lemma read_octets_4: "read_octets 4 0 s = read_octets (Suc (Suc (Suc (Suc 0)))) 0 s"
  by (simp add: numeral_eq_Suc)

lemmas read_ipv4_eval = read_ipv4_addr_def read_octets_4 read_separator_def read_number_def
  to_digit_def read_given_char_def

lemmas trim_eval = trim_def trim_start_def trim_end_def ws1_def ws2_def ws3_def

end
