(* ===== verification/Header_Map.thy ===== *)
theory Header_Map
  imports Arc_Prelude
begin

text \<open>
  The header map of the package \<^verbatim>\<open>http\<close> as the framework uses it: names in lower case with their
  values, the values of one name in the order they were added.  \<open>insert\<close> replaces every value of a
  name, \<open>append\<close> adds one, \<open>get\<close> reads the first.
\<close>

type_synonym headers = "(string \<times> string) list"

definition printable :: "char \<Rightarrow> bool" where
  "printable c = (32 \<le> (of_char c :: nat) \<and> (of_char c :: nat) \<le> 126)"

text \<open>\<^verbatim>\<open>HeaderValue::to_str\<close> and \<^verbatim>\<open>HeaderValue::from_str\<close>: visible ASCII, the space and the tab.\<close>

definition header_text :: "char \<Rightarrow> bool" where
  "header_text c = (printable c \<or> of_char c = (9 :: nat))"

definition to_str :: "string \<Rightarrow> string option" where
  "to_str value = (if list_all header_text value then Some value else None)"

definition hm_get :: "headers \<Rightarrow> string \<Rightarrow> string option" where
  "hm_get h name = map_of h name"

definition hm_get_all :: "headers \<Rightarrow> string \<Rightarrow> string list" where
  "hm_get_all h name = map snd (filter (\<lambda>(k, _). k = name) h)"

definition hm_contains :: "headers \<Rightarrow> string \<Rightarrow> bool" where
  "hm_contains h name = (map_of h name \<noteq> None)"

definition hm_remove :: "string \<Rightarrow> headers \<Rightarrow> headers" where
  "hm_remove name h = filter (\<lambda>(k, _). k \<noteq> name) h"

definition hm_insert :: "string \<Rightarrow> string \<Rightarrow> headers \<Rightarrow> headers" where
  "hm_insert name value h = hm_remove name h @ [(name, value)]"

definition hm_append :: "string \<Rightarrow> string \<Rightarrow> headers \<Rightarrow> headers" where
  "hm_append name value h = h @ [(name, value)]"

definition header_str :: "headers \<Rightarrow> string \<Rightarrow> string option" where
  "header_str headers name = Option.bind (hm_get headers name) to_str"

section \<open>Laws\<close>

lemma hm_get_remove [simp]: "hm_get (hm_remove name h) n = (if n = name then None else hm_get h n)"
  by (induction h) (auto simp: hm_get_def hm_remove_def)

lemma hm_get_append: "hm_get (hm_append name value h) n =
    (case hm_get h n of None \<Rightarrow> if n = name then Some value else None | Some v \<Rightarrow> Some v)"
  by (auto simp: hm_get_def hm_append_def map_add_def split: option.splits)

lemma hm_get_insert [simp]: "hm_get (hm_insert name value h) n = (if n = name then Some value else hm_get h n)"
  using hm_get_append [of name "value" "hm_remove name h" n]
  by (auto simp: hm_insert_def hm_append_def split: option.splits)

lemma hm_get_all_remove [simp]: "hm_get_all (hm_remove name h) n = (if n = name then [] else hm_get_all h n)"
  by (induction h) (auto simp: hm_get_all_def hm_remove_def)

lemma hm_get_all_append [simp]: "hm_get_all (hm_append name value h) n = hm_get_all h n @ (if n = name then [value] else [])"
  by (auto simp: hm_get_all_def hm_append_def)

lemma hm_get_all_insert [simp]: "hm_get_all (hm_insert name value h) n = (if n = name then [value] else hm_get_all h n)"
  using hm_get_all_append [of name "value" "hm_remove name h" n] by (auto simp: hm_insert_def hm_append_def)

lemma hm_contains_iff: "hm_contains h name \<longleftrightarrow> hm_get_all h name \<noteq> []"
  by (induction h) (auto simp: hm_contains_def hm_get_all_def)

lemma hm_get_hd: "hm_get h name = (case hm_get_all h name of [] \<Rightarrow> None | v # _ \<Rightarrow> Some v)"
  by (induction h) (auto simp: hm_get_def hm_get_all_def)

section \<open>White space around header text\<close>

lemma trim_by_hd: "trim_by w1 w2 w3 s = a # t \<Longrightarrow> \<not> w1 a"
proof (induction w1 w2 w3 s rule: trim_by.induct)
  case (2 w1 w2 w3 b s)
  then show ?case
    by (auto split: if_splits list.splits)
qed simp

lemma trim_start_hd: "trim_start s \<noteq> [] \<Longrightarrow> \<not> ws1 (hd (trim_start s))"
  unfolding trim_start_def by (metis list.collapse trim_by_hd)

lemma trim_end_last:
  assumes "trim_end s \<noteq> []" shows "\<not> ws1 (last (trim_end s))"
proof -
  obtain a t where "trim_by ws1 (\<lambda>a b. ws2 b a) (\<lambda>a b c. ws3 c b a) (rev s) = a # t"
    using assms by (metis list.exhaust rev.simps(1) trim_end_def)
  then show ?thesis
    using trim_by_hd by (fastforce simp: trim_end_def)
qed

lemma trim_ends:
  assumes "trim s \<noteq> []"
  shows "\<not> ws1 (hd (trim s))" "\<not> ws1 (last (trim s))"
proof -
  have "prefix (trim s) (trim_start s)"
    by (simp add: trim_def prefix_trim_end)
  then have "hd (trim s) = hd (trim_start s)" "trim_start s \<noteq> []"
    using assms by (auto simp: prefix_def)
  then show "\<not> ws1 (hd (trim s))"
    using trim_start_hd by metis
  show "\<not> ws1 (last (trim s))"
    using assms trim_end_last by (simp add: trim_def)
qed

lemma trim_by_text:
  assumes "\<And>a b. header_text a \<Longrightarrow> \<not> w2 a b" and "\<And>a b c. header_text a \<Longrightarrow> \<not> w3 a b c"
    and "list_all header_text s" and "s \<noteq> [] \<Longrightarrow> \<not> w1 (hd s)"
  shows "trim_by w1 w2 w3 s = s"
  using assms by (cases s) (auto split: list.splits)

lemma header_text_not_ws:
  assumes "header_text a"
  shows "\<not> ws2 a b" "\<not> ws2 b a" "\<not> ws3 a b c" "\<not> ws3 b c a"
  using assms by (auto simp: header_text_def printable_def ws2_def ws3_def Let_def)

lemma trim_text:
  assumes "list_all header_text s" and "s \<noteq> [] \<Longrightarrow> \<not> ws1 (hd s) \<and> \<not> ws1 (last s)"
  shows "trim_start s = s" and "trim_end s = s" and "trim s = s"
proof -
  show start: "trim_start s = s"
    unfolding trim_start_def using assms by (intro trim_by_text) (auto simp: header_text_not_ws)
  have "trim_by ws1 (\<lambda>a b. ws2 b a) (\<lambda>a b c. ws3 c b a) (rev s) = rev s"
    using assms by (intro trim_by_text) (auto simp: header_text_not_ws hd_rev)
  then show "trim_end s = s"
    by (simp add: trim_end_def)
  with start show "trim s = s"
    by (simp only: trim_def)
qed

lemma trim_trim_text: "list_all header_text (trim s) \<Longrightarrow> trim (trim s) = trim s"
  using trim_text(3) [of "trim s"] trim_ends [of s] by blast

lemma trim_space_text:
  assumes "list_all header_text s" and "s \<noteq> [] \<Longrightarrow> \<not> ws1 (hd s) \<and> \<not> ws1 (last s)"
  shows "trim (CHR '' '' # s) = s"
proof -
  have "trim_start (CHR '' '' # s) = trim_start s"
    by (simp add: trim_start_def ws1_def)
  then show ?thesis
    by (simp add: trim_def trim_text [OF assms])
qed

section \<open>Lists of tokens\<close>

text \<open>The tokens of a header that holds comma-separated lists, over all its values; values that are no
  text are passed over.\<close>

fun header_tokens :: "string list \<Rightarrow> string list" where
  "header_tokens [] = []"
| "header_tokens (v # rest) =
     (case to_str v of
        None \<Rightarrow> header_tokens rest
      | Some s \<Rightarrow> filter (\<lambda>t. t \<noteq> []) (map trim (split CHR '','' s)) @ header_tokens rest)"

definition is_token :: "string \<Rightarrow> bool" where
  "is_token t = (t \<noteq> [] \<and> list_all header_text t \<and> CHR '','' \<notin> set t \<and> \<not> ws1 (hd t) \<and> \<not> ws1 (last t))"

lemma header_tokens_token: "t \<in> set (header_tokens vs) \<Longrightarrow> is_token t"
proof (induction vs)
  case (Cons v vs)
  have "is_token (trim w)" if v: "list_all header_text v" and w: "w \<in> set (split CHR '','' v)" and ne: "trim w \<noteq> []" for w
  proof -
    have "c \<in> set v \<and> c \<noteq> CHR '',''" if "c \<in> set (trim w)" for c
      using split_on_pieces [OF w] set_trim that by blast
    then show ?thesis
      using v ne trim_ends [OF ne] by (auto simp: is_token_def list_all_iff)
  qed
  then show ?case
    using Cons by (auto simp: to_str_def split: option.splits if_splits)
qed simp

lemma header_tokens_append: "header_tokens (vs @ ws) = header_tokens vs @ header_tokens ws"
  by (induction vs) (auto split: option.splits)

lemma split_join_tokens:
  "ts \<noteq> [] \<Longrightarrow> \<forall>t \<in> set ts. CHR '','' \<notin> set t \<Longrightarrow>
     split CHR '','' (join '', '' ts) = hd ts # map (\<lambda>t. CHR '' '' # t) (tl ts)"
proof (induction "'', ''" ts rule: join.induct)
  case (3 w v ws)
  have "split CHR '','' (w @ CHR '','' # CHR '' '' # join '', '' (v # ws)) =
      w # split CHR '','' (CHR '' '' # join '', '' (v # ws))"
    using 3 by (intro split_on_sep_append) auto
  then show ?case
    using 3 by simp
qed (auto intro: split_on_no_sep)

lemma join_text: "\<forall>t \<in> set ts. list_all header_text t \<Longrightarrow> list_all header_text (join '', '' ts)"
  by (induction "'', ''" ts rule: join.induct) (auto simp: header_text_def printable_def)

lemma header_tokens_join:
  assumes "ts \<noteq> []" and "\<forall>t \<in> set ts. is_token t"
  shows "header_tokens [join '', '' ts] = ts"
proof -
  obtain t us where ts: "ts = t # us"
    using assms(1) by (cases ts) auto
  have trims: "trim u = u" "trim (CHR '' '' # u) = u" "u \<noteq> []" if "u \<in> set ts" for u
    using assms(2) that trim_text(3) [of u] trim_space_text [of u] by (auto simp: is_token_def)
  have "list_all header_text (join '', '' ts)"
    using assms(2) by (intro join_text) (simp add: is_token_def)
  moreover have "split CHR '','' (join '', '' ts) = t # map (\<lambda>t. CHR '' '' # t) us"
    using split_join_tokens [OF assms(1)] assms(2) by (simp add: ts is_token_def)
  moreover have "map trim (map (\<lambda>t. CHR '' '' # t) us) = us"
    using trims ts by (intro map_idI [of us "trim \<circ> (\<lambda>t. CHR '' '' # t)", unfolded map_map [symmetric]]) auto
  ultimately show ?thesis
    using trims by (auto simp: to_str_def ts filter_id_conv)
qed

end
