(* ===== verification/Client_Ip.thy ===== *)
theory Client_Ip
  imports Ip_Addr Header_Map
begin

text \<open>
  Who sent the request: \<^verbatim>\<open>src/http/client_ip.rs\<close>.  CIDR blocks of trusted proxies, their
  configuration text, and the walk over the \<^verbatim>\<open>X-Forwarded-For\<close> chain.

  The header lines are the list of their bytes; \<^verbatim>\<open>HeaderValue::to_str\<close> refuses a line that is not visible
  text, and such a line is skipped as a whole.
\<close>

section \<open>The code: proxy networks\<close>

record ProxyNet =
  net_base :: IpAddr
  net_prefix :: nat

datatype ProxyNetError = AddressError string | PrefixError nat nat

definition width :: "IpAddr \<Rightarrow> nat" where
  "width addr = (if is_ipv4 addr then 32 else 128)"

definition mask_addr :: "IpAddr \<Rightarrow> nat \<Rightarrow> IpAddr" where
  "mask_addr addr plen =
     (case addr of
        V4 bits \<Rightarrow> V4 (if plen = 0 then 0 else bits AND push_bit (32 - plen) (- 1))
      | V6 bits \<Rightarrow> V6 (if plen = 0 then 0 else bits AND push_bit (128 - plen) (- 1)))"

definition proxy_net_new :: "IpAddr \<Rightarrow> nat \<Rightarrow> (ProxyNetError, ProxyNet) result" where
  "proxy_net_new addr plen =
     (let base = to_canonical addr; w = width base
      in if plen > w then Err (PrefixError plen w)
         else Ok \<lparr>net_base = mask_addr base plen, net_prefix = plen\<rparr>)"

definition proxy_net_host :: "IpAddr \<Rightarrow> ProxyNet" where
  "proxy_net_host addr =
     (let base = to_canonical addr in \<lparr>net_base = base, net_prefix = width base\<rparr>)"

definition net_contains :: "ProxyNet \<Rightarrow> IpAddr \<Rightarrow> bool" where
  "net_contains net addr0 =
     (let addr = to_canonical addr0
      in if is_ipv4 (net_base net) \<noteq> is_ipv4 addr then False
         else mask_addr addr (net_prefix net) = net_base net)"

definition proxy_net_from_str :: "string \<Rightarrow> (ProxyNetError, ProxyNet) result" where
  "proxy_net_from_str text0 =
     (let text = trim text0;
          (addr_text, plen) =
            (case split_once CHR ''/'' text of
               Some (a, p) \<Rightarrow> (trim a, Some (trim p))
             | None \<Rightarrow> (text, None))
      in rbind (ok_or (parse_ip addr_text) (AddressError addr_text)) (\<lambda>addr.
         (case plen of
            None \<Rightarrow> Ok (proxy_net_host addr)
          | Some p \<Rightarrow>
              rbind (ok_or (parse_uint 255 p) (AddressError text)) (\<lambda>bits. proxy_net_new addr bits))))"

section \<open>The code: trusted proxies\<close>

record TrustedProxies =
  nets :: "ProxyNet list"

definition trust_none :: TrustedProxies where
  "trust_none = \<lparr>nets = []\<rparr>"

definition trust :: "TrustedProxies \<Rightarrow> ProxyNet \<Rightarrow> TrustedProxies" where
  "trust self net = self\<lparr>nets := nets self @ [net]\<rparr>"

definition trusted_contains :: "TrustedProxies \<Rightarrow> IpAddr \<Rightarrow> bool" where
  "trusted_contains self addr = (\<exists>net \<in> set (nets self). net_contains net addr)"

fun collect_nets :: "string list \<Rightarrow> (ProxyNetError, ProxyNet list) result" where
  "collect_nets [] = Ok []"
| "collect_nets (e # es) =
     rbind (proxy_net_from_str e) (\<lambda>net. rbind (collect_nets es) (\<lambda>rest. Ok (net # rest)))"

definition trusted_from_str :: "string \<Rightarrow> (ProxyNetError, TrustedProxies) result" where
  "trusted_from_str text =
     rbind (collect_nets (filter (\<lambda>e. e \<noteq> [])
       (map trim (split_on (\<lambda>c. c \<in> {CHR '','', CHR '' '', CHR 0x09, CHR 0x0A}) text))))
       (\<lambda>ns. Ok \<lparr>nets = ns\<rparr>)"

section \<open>The code: the client address\<close>

definition parse_forwarded :: "string \<Rightarrow> IpAddr option" where
  "parse_forwarded entry0 =
     (let entry = trim entry0
      in if entry = [] then None
         else case parse_ip entry of
           Some addr \<Rightarrow> Some (to_canonical addr)
         | None \<Rightarrow>
             (case parse_socket_ip entry of
                Some ip \<Rightarrow> Some (to_canonical ip)
              | None \<Rightarrow>
                  map_option to_canonical
                    (Option.bind (Option.bind (strip_prefix ''['' entry) (strip_suffix '']'')) parse_ip)))"

text \<open>The loop over the reversed chain, with \<open>nearest\<close> the last trusted address accepted.\<close>

fun walk :: "TrustedProxies \<Rightarrow> string list \<Rightarrow> IpAddr \<Rightarrow> IpAddr" where
  "walk trusted [] nearest = nearest"
| "walk trusted (entry # entries) nearest =
     (case parse_forwarded entry of
        None \<Rightarrow> nearest
      | Some addr \<Rightarrow>
          if trusted_contains trusted addr then walk trusted entries addr else addr)"

definition chain_of :: "string list \<Rightarrow> string list" where
  "chain_of headers = concat (map (split CHR '','') (List.map_filter to_str headers))"

definition resolve :: "IpAddr \<Rightarrow> string list \<Rightarrow> TrustedProxies \<Rightarrow> IpAddr" where
  "resolve peer0 headers trusted =
     (let peer = to_canonical peer0
      in if \<not> trusted_contains trusted peer then peer
         else walk trusted (rev (chain_of headers)) peer)"

section \<open>Blocks\<close>

lemma mask_eq_iff:
  fixes v w :: "'a :: len word"
  assumes "p \<le> LENGTH('a)"
  shows "v AND push_bit (LENGTH('a) - p) (- 1) = w AND push_bit (LENGTH('a) - p) (- 1) \<longleftrightarrow>
    (\<forall>n. LENGTH('a) - p \<le> n \<and> n < LENGTH('a) \<longrightarrow> bit v n = bit w n)"
  by (auto simp: bit_eq_iff bit_simps)

text \<open>The bits of an address, from the most significant one; the block of a prefix is the addresses of
  the same family that agree with its base on the first \<open>p\<close> of them.\<close>

definition addr_bit :: "IpAddr \<Rightarrow> nat \<Rightarrow> bool" where
  "addr_bit addr i = (case addr of V4 w \<Rightarrow> bit w (31 - i) | V6 w \<Rightarrow> bit w (127 - i))"

lemma range_bits:
  fixes v w :: "'a :: len word"
  assumes "p \<le> LENGTH('a)"
  shows "(\<forall>n. LENGTH('a) - p \<le> n \<and> n < LENGTH('a) \<longrightarrow> bit v n = bit w n) \<longleftrightarrow>
    (\<forall>i<p. bit v (LENGTH('a) - 1 - i) = bit w (LENGTH('a) - 1 - i))"
  (is "?L \<longleftrightarrow> ?R")
proof
  assume ?L
  with assms show ?R by auto
next
  assume a: ?R
  show ?L
  proof (rule allI, rule impI)
    fix n assume n: "LENGTH('a) - p \<le> n \<and> n < LENGTH('a)"
    then have "LENGTH('a) - 1 - n < p" "LENGTH('a) - 1 - (LENGTH('a) - 1 - n) = n"
      using assms by auto
    with a show "bit v n = bit w n"
      by metis
  qed
qed

lemma mask_addr_eq_iff:
  assumes "is_ipv4 a = is_ipv4 b" and "p \<le> width a"
  shows "mask_addr a p = mask_addr b p \<longleftrightarrow> (\<forall>i<p. addr_bit a i = addr_bit b i)"
proof (cases a)
  case (V4 v)
  then obtain w where "b = V4 w"
    using assms(1) by (cases b) (auto simp: is_ipv4_def)
  with V4 assms(2) mask_eq_iff [of p v w] range_bits [of p v w] show ?thesis
    by (auto simp: mask_addr_def addr_bit_def width_def is_ipv4_def)
next
  case (V6 v)
  then obtain w where "b = V6 w"
    using assms(1) by (cases b) (auto simp: is_ipv4_def)
  with V6 assms(2) mask_eq_iff [of p v w] range_bits [of p v w] show ?thesis
    by (auto simp: mask_addr_def addr_bit_def width_def is_ipv4_def)
qed

lemma is_ipv4_mask [simp]: "is_ipv4 (mask_addr a p) = is_ipv4 a"
  by (simp add: is_ipv4_def mask_addr_def split: IpAddr.splits)

lemma mask_addr_width: "mask_addr a (width a) = a"
  by (simp add: mask_addr_def width_def is_ipv4_def split: IpAddr.splits)

section \<open>Properties\<close>

text \<open>
  A CIDR block holds exactly the addresses it should: a block built from a base address and a
  prefix length contains an address if and only if both are of one family, IPv4-mapped IPv6
  counting as IPv4, and agree on the first bits the prefix names.
\<close>

theorem net_contains_iff:
  assumes "proxy_net_new base plen = Ok net"
  shows "net_contains net addr \<longleftrightarrow>
    is_ipv4 (to_canonical addr) = is_ipv4 (to_canonical base)
    \<and> (\<forall>i<plen. addr_bit (to_canonical addr) i = addr_bit (to_canonical base) i)"
proof -
  have net: "net = \<lparr>net_base = mask_addr (to_canonical base) plen, net_prefix = plen\<rparr>"
    and p: "plen \<le> width (to_canonical base)"
    using assms by (auto simp: proxy_net_new_def Let_def split: if_splits)
  show ?thesis
  proof (cases "is_ipv4 (to_canonical addr) = is_ipv4 (to_canonical base)")
    case True
    then have "plen \<le> width (to_canonical addr)"
      using p by (simp add: width_def)
    with True show ?thesis
      by (simp add: net net_contains_def mask_addr_eq_iff)
  next
    case False
    then show ?thesis by (auto simp: net net_contains_def)
  qed
qed

theorem net_contains_iff_witness:
  "net_contains (projr (proxy_net_new (V4 0xC0010203) 2)) (V4 0xFFFFFFFF)
   \<and> \<not> net_contains (projr (proxy_net_new (V4 0xC0010203) 2)) (V4 0x80000000)"
proof -
  have net: "proxy_net_new (V4 0xC0010203) 2 = Ok (projr (proxy_net_new (V4 0xC0010203) 2))"
    by (simp add: proxy_net_new_def to_canonical_def width_def is_ipv4_def Let_def)
  have bits: "(\<forall>i<2. P i) \<longleftrightarrow> P 0 \<and> P 1" for P :: "nat \<Rightarrow> bool"
    by (auto simp: less_2_cases_iff)
  show ?thesis
    unfolding net_contains_iff [OF net] bits
    by (simp add: to_canonical_def is_ipv4_def addr_bit_def bit_numeral_word_iff)
qed

lemma walk_trusted:
  assumes "\<forall>h \<in> set hops. \<exists>a. parse_forwarded h = Some a \<and> trusted_contains trusted a"
    and "parse_forwarded entry = Some client" and "\<not> trusted_contains trusted client"
  shows "walk trusted (hops @ entry # forged) nearest = client"
  using assms(1)
proof (induction hops arbitrary: nearest)
  case Nil
  then show ?case using assms(2,3) by simp
next
  case (Cons h hops)
  then show ?case by auto
qed

text \<open>The line of a header after a proxy has appended to what was there: a comma in between.\<close>

definition appended :: "string option \<Rightarrow> string \<Rightarrow> string" where
  "appended written added = (case written of None \<Rightarrow> added | Some w \<Rightarrow> w @ CHR '','' # added)"

lemma chain_of_append: "chain_of (a @ b) = chain_of a @ chain_of b"
  by (simp add: chain_of_def map_filter_def)

lemma chain_of_readable: "\<forall>l \<in> set ls. to_str l \<noteq> None \<Longrightarrow> chain_of ls = concat (map (split CHR '','') ls)"
  by (induction ls) (auto simp: chain_of_def map_filter_def to_str_def split: if_splits)

lemma split_appended: "\<exists>own. split CHR '','' (appended written added) = own @ split CHR '','' added"
  by (cases written) (simp_all add: appended_def split_on_append_sep)

text \<open>
  C27.  A client cannot choose its own address.  Let a trusted proxy have added the address it saw, on a line
  of its own or appended to what the client wrote, and trusted hops after it theirs.  Whatever other
  lines the client sent, and whatever it wrote on the line the proxy appended to as long as that is
  visible text, the resolved address is the one the proxy saw.  And if the peer is no trusted proxy, the
  peer is the client and the headers do not matter.
\<close>

theorem client_cannot_spoof:
  assumes "line = appended written added" and "\<forall>l \<in> set (line # lines). to_str l \<noteq> None"
    and "concat (map (split CHR '','') (added # lines)) = entry # hops"
    and "\<forall>h \<in> set hops. \<exists>a. parse_forwarded h = Some a \<and> trusted_contains trusted a"
    and "parse_forwarded entry = Some client" and "\<not> trusted_contains trusted client"
  shows "resolve peer (client_lines @ line # lines) trusted =
    (if trusted_contains trusted (to_canonical peer) then client else to_canonical peer)"
proof -
  obtain own where "split CHR '','' line = own @ split CHR '','' added"
    using split_appended [of written added] assms(1) by blast
  then have "chain_of (client_lines @ line # lines) = (chain_of client_lines @ own) @ entry # hops"
    using chain_of_readable [OF assms(2)] assms(3) by (simp add: chain_of_append)
  then have "walk trusted (rev (chain_of (client_lines @ line # lines))) nearest = client" for nearest
    using walk_trusted [of "rev hops" trusted entry client "rev (chain_of client_lines @ own)"] assms(4-6) by simp
  then show ?thesis
    by (simp add: resolve_def Let_def)
qed

definition demo_proxies :: TrustedProxies where
  "demo_proxies = trust trust_none (proxy_net_host (V4 0x0A000001))"

lemma demo_parse_forwarded: "parse_forwarded ''1.2.3.4'' = Some (V4 0x01020304)"
    "parse_forwarded '' 10.0.0.1'' = Some (V4 0x0A000001)"
proof -
  have "read_ipv4_addr ''1.2.3.4'' = Some (0x01020304, [])"
      "read_ipv4_addr ''10.0.0.1'' = Some (0x0A000001, [])"
    by (simp_all add: read_ipv4_eval)
  moreover have "trim ''1.2.3.4'' = ''1.2.3.4''" "trim '' 10.0.0.1'' = ''10.0.0.1''"
    by (simp_all add: trim_eval)
  ultimately show "parse_forwarded ''1.2.3.4'' = Some (V4 0x01020304)"
      "parse_forwarded '' 10.0.0.1'' = Some (V4 0x0A000001)"
    by (simp_all add: parse_forwarded_def parse_ip_def all_read_def to_canonical_def)
qed

lemma demo_trusts: "trusted_contains demo_proxies (V4 w) \<longleftrightarrow> w = 0x0A000001"
  by (auto simp: trusted_contains_def demo_proxies_def trust_def trust_none_def net_contains_def
      proxy_net_host_def to_canonical_def mask_addr_def width_def is_ipv4_def)

lemma demo_readable: "to_str ''6.6.6.6,1.2.3.4'' = Some ''6.6.6.6,1.2.3.4''" "to_str '' 10.0.0.1'' = Some '' 10.0.0.1''"
    "to_str ''6.6.6.6'' = Some ''6.6.6.6''" "to_str [CHR 0xFF] = None"
    "to_str (appended (Some [CHR 0xFF]) ''1.2.3.4'') = None"
  by (simp_all add: to_str_def appended_def header_text_def printable_def)

theorem client_cannot_spoof_witness:
  "resolve (V4 0x0A000001) [[CHR 0xFF], ''6.6.6.6,1.2.3.4'', '' 10.0.0.1''] demo_proxies = V4 0x01020304"
  using client_cannot_spoof [of "''6.6.6.6,1.2.3.4''" "Some ''6.6.6.6''" "''1.2.3.4''" "['' 10.0.0.1'']" "''1.2.3.4''"
      "['' 10.0.0.1'']" demo_proxies "V4 0x01020304" "V4 0x0A000001" "[[CHR 0xFF]]"]
  by (simp add: demo_parse_forwarded demo_trusts demo_readable appended_def to_canonical_def)

text \<open>
  A client that writes a byte that is no visible text makes the proxy's line unreadable: it is skipped with the
  proxy's entry, and the address is the one of the client's choice on an earlier line.
\<close>

lemma unreadable_line_spoofs:
  "resolve (V4 0x0A000001) [''6.6.6.6'', appended (Some [CHR 0xFF]) ''1.2.3.4''] demo_proxies = V4 0x06060606"
proof -
  have "parse_forwarded ''6.6.6.6'' = Some (V4 0x06060606)"
  proof -
    have "read_ipv4_addr ''6.6.6.6'' = Some (0x06060606, [])" "trim ''6.6.6.6'' = ''6.6.6.6''"
      by (simp_all add: read_ipv4_eval trim_eval)
    then show ?thesis
      by (simp add: parse_forwarded_def parse_ip_def all_read_def to_canonical_def)
  qed
  then show ?thesis
    by (simp add: resolve_def chain_of_def map_filter_def demo_readable demo_trusts to_canonical_def Let_def)
qed

end
