(* ===== verification/Login_Throttle.thy ===== *)
theory Login_Throttle
  imports Ip_Addr Token_Bucket
begin

text \<open>
  The sign-in throttle of \<^verbatim>\<open>src/auth/flows/throttle.rs\<close>: two token buckets per attempt, one for the
  pair of account and client address and one for the address alone, spent by failures only.

  SHA-256 is the argument \<open>sha\<close>; \<open>lower\<close> is \<^verbatim>\<open>str::to_lowercase\<close>, whose Unicode tables are not
  written out.  The mutex is the flag \<open>poisoned\<close>.  \<^verbatim>\<open>check_at\<close> is \<open>None\<close> where
  \<^verbatim>\<open>Duration::from_secs_f64\<close> panics.
\<close>

section \<open>The code\<close>

datatype ThrottleDecision = Allowed | TooManyAttempts nat

definition is_allowed :: "ThrottleDecision \<Rightarrow> bool" where
  "is_allowed d = (case d of Allowed \<Rightarrow> True | TooManyAttempts _ \<Rightarrow> False)"

definition decision_retry_after :: "ThrottleDecision \<Rightarrow> nat option" where
  "decision_retry_after d = (case d of Allowed \<Rightarrow> None | TooManyAttempts retry_after \<Rightarrow> Some retry_after)"

record LoginQuota =
  q_capacity :: rat
  q_refill_per_sec :: rat

definition login_quota_new :: "nat \<Rightarrow> nat \<Rightarrow> LoginQuota" where
  "login_quota_new limit0 window0 =
     (let limit = of_nat (max limit0 1); window = max window0 1000000
      in \<lparr>q_capacity = limit, q_refill_per_sec = fdiv limit (as_secs_f64 window)\<rparr>)"

record LoginBucket =
  b_tokens :: rat
  b_updated :: nat

definition tokens_at :: "LoginBucket \<Rightarrow> LoginQuota \<Rightarrow> nat \<Rightarrow> rat" where
  "tokens_at b q now =
     (let elapsed = as_secs_f64 (now - b_updated b)
      in min (fadd (b_tokens b) (fmul elapsed (q_refill_per_sec q))) (q_capacity q))"

record LoginThrottle =
  identity :: LoginQuota
  address :: LoginQuota
  window :: nat
  identity_limit :: nat
  address_limit :: nat
  login_buckets :: "(bytes, LoginBucket) table"
  poisoned :: bool

definition DEFAULT_PER_IDENTITY :: nat where
  "DEFAULT_PER_IDENTITY = 5"

definition DEFAULT_PER_ADDRESS :: nat where
  "DEFAULT_PER_ADDRESS = 50"

definition DEFAULT_WINDOW :: nat where
  "DEFAULT_WINDOW = 15 * 60 * 1000000000"

definition MINIMUM_RETRY_AFTER :: nat where
  "MINIMUM_RETRY_AFTER = 1000000000"

definition LOGIN_SWEEP_AT :: nat where
  "LOGIN_SWEEP_AT = 8192"

definition throttle_new :: LoginThrottle where
  "throttle_new =
     \<lparr>identity = login_quota_new DEFAULT_PER_IDENTITY DEFAULT_WINDOW,
      address = login_quota_new DEFAULT_PER_ADDRESS DEFAULT_WINDOW,
      window = DEFAULT_WINDOW, identity_limit = DEFAULT_PER_IDENTITY,
      address_limit = DEFAULT_PER_ADDRESS, login_buckets = tbl_empty, poisoned = False\<rparr>"

definition per_identity :: "LoginThrottle \<Rightarrow> nat \<Rightarrow> LoginThrottle" where
  "per_identity self n =
     self\<lparr>identity_limit := n, identity := login_quota_new n (window self)\<rparr>"

definition per_address :: "LoginThrottle \<Rightarrow> nat \<Rightarrow> LoginThrottle" where
  "per_address self n =
     self\<lparr>address_limit := n, address := login_quota_new n (window self)\<rparr>"

definition with_window :: "LoginThrottle \<Rightarrow> nat \<Rightarrow> LoginThrottle" where
  "with_window self w =
     self\<lparr>window := w, identity := login_quota_new (identity_limit self) w,
          address := login_quota_new (address_limit self) w\<rparr>"

definition IDENTITY_DOMAIN :: u8 where
  "IDENTITY_DOMAIN = 1"

definition ADDRESS_DOMAIN :: u8 where
  "ADDRESS_DOMAIN = 2"

definition UNATTRIBUTED :: bytes where
  "UNATTRIBUTED = as_bytes ''arcature/login-throttle/unattributed''"

definition normalise :: "(string \<Rightarrow> string) \<Rightarrow> string \<Rightarrow> string" where
  "normalise lower email = lower (trim email)"

definition write_client :: "IpAddr option \<Rightarrow> bytes" where
  "write_client client =
     (case client of
        Some addr \<Rightarrow>
          (case to_canonical addr of
             V4 v4 \<Rightarrow> 4 # octets4 v4
           | V6 v6 \<Rightarrow> 6 # octets6 v6)
      | None \<Rightarrow> 0 # UNATTRIBUTED)"

definition identity_input :: "(string \<Rightarrow> string) \<Rightarrow> string \<Rightarrow> IpAddr option \<Rightarrow> bytes" where
  "identity_input lower email client =
     (let normalised = normalise lower email
      in IDENTITY_DOMAIN # be64 (length normalised) @ as_bytes normalised @ write_client client)"

definition address_input :: "IpAddr option \<Rightarrow> bytes" where
  "address_input client = ADDRESS_DOMAIN # write_client client"

definition identity_key :: "(bytes \<Rightarrow> bytes) \<Rightarrow> (string \<Rightarrow> string) \<Rightarrow> string \<Rightarrow> IpAddr option \<Rightarrow> bytes" where
  "identity_key sha lower email client = sha (identity_input lower email client)"

definition address_key :: "(bytes \<Rightarrow> bytes) \<Rightarrow> IpAddr option \<Rightarrow> bytes" where
  "address_key sha client = sha (address_input client)"

definition pairs_of :: "(bytes \<Rightarrow> bytes) \<Rightarrow> (string \<Rightarrow> string) \<Rightarrow> LoginThrottle \<Rightarrow> string \<Rightarrow> IpAddr option \<Rightarrow>
    (bytes \<times> LoginQuota) list" where
  "pairs_of sha lower self email client =
     [(identity_key sha lower email client, identity self), (address_key sha client, address self)]"

text \<open>What a bucket holds for a reader: an absent bucket is a full one.\<close>

definition held :: "(bytes, LoginBucket) table \<Rightarrow> bytes \<Rightarrow> LoginQuota \<Rightarrow> nat \<Rightarrow> rat" where
  "held t key q now = (case tbl_get t key of None \<Rightarrow> q_capacity q | Some b \<Rightarrow> tokens_at b q now)"

fun longest_wait :: "(bytes, LoginBucket) table \<Rightarrow> nat \<Rightarrow> (bytes \<times> LoginQuota) list \<Rightarrow> nat option \<Rightarrow>
    nat option option" where
  "longest_wait t now [] wait = Some wait"
| "longest_wait t now ((key, q) # pairs) wait =
     (let tokens = held t key q now
      in if tokens < 1 then
           (case from_secs_f64 (fdiv (fsub 1 tokens) (q_refill_per_sec q)) of
              None \<Rightarrow> None
            | Some d \<Rightarrow>
                (let this = max d MINIMUM_RETRY_AFTER
                 in longest_wait t now pairs
                      (Some (case wait of None \<Rightarrow> this | Some longest \<Rightarrow> max longest this))))
         else longest_wait t now pairs wait)"

definition check_at :: "(bytes \<Rightarrow> bytes) \<Rightarrow> (string \<Rightarrow> string) \<Rightarrow> LoginThrottle \<Rightarrow> string \<Rightarrow> IpAddr option \<Rightarrow> nat \<Rightarrow>
    ThrottleDecision option" where
  "check_at sha lower self email client now =
     (if poisoned self then Some (TooManyAttempts MINIMUM_RETRY_AFTER)
      else map_option (\<lambda>wait. case wait of Some r \<Rightarrow> TooManyAttempts r | None \<Rightarrow> Allowed)
             (longest_wait (login_buckets self) now (pairs_of sha lower self email client) None))"

definition spend :: "nat \<Rightarrow> bytes \<times> LoginQuota \<Rightarrow> (bytes, LoginBucket) table \<Rightarrow> (bytes, LoginBucket) table" where
  "spend now = (\<lambda>(key, q) t.
     (let bucket = (case tbl_get t key of
                      Some b \<Rightarrow> b | None \<Rightarrow> \<lparr>b_tokens = q_capacity q, b_updated = now\<rparr>);
          tokens = tokens_at bucket q now
      in tbl_put key \<lparr>b_tokens = max (fsub tokens 1) 0, b_updated = now\<rparr> t))"

definition login_sweep :: "LoginQuota \<Rightarrow> nat \<Rightarrow> (bytes, LoginBucket) table \<Rightarrow> (bytes, LoginBucket) table" where
  "login_sweep q now t = tbl_retain (\<lambda>_ bucket. tokens_at bucket q now < q_capacity q) t"

definition record_failure_at :: "(bytes \<Rightarrow> bytes) \<Rightarrow> (string \<Rightarrow> string) \<Rightarrow> LoginThrottle \<Rightarrow> string \<Rightarrow>
    IpAddr option \<Rightarrow> nat \<Rightarrow> LoginThrottle" where
  "record_failure_at sha lower self email client now =
     (if poisoned self then self
      else let t0 = login_buckets self;
               t = (if tbl_len t0 \<ge> LOGIN_SWEEP_AT then login_sweep (identity self) now t0 else t0)
           in self\<lparr>login_buckets := fold (spend now) (pairs_of sha lower self email client) t\<rparr>)"

definition record_success :: "(bytes \<Rightarrow> bytes) \<Rightarrow> (string \<Rightarrow> string) \<Rightarrow> LoginThrottle \<Rightarrow> string \<Rightarrow>
    IpAddr option \<Rightarrow> LoginThrottle" where
  "record_success sha lower self email client =
     (if poisoned self then self
      else self\<lparr>login_buckets := tbl_del (identity_key sha lower email client) (login_buckets self)\<rparr>)"

definition tracked :: "LoginThrottle \<Rightarrow> nat" where
  "tracked self = (if poisoned self then 0 else tbl_len (login_buckets self))"

section \<open>Keys\<close>

lemma write_client_inject:
  "write_client a = write_client b \<longleftrightarrow> map_option to_canonical a = map_option to_canonical b"
  by (auto simp: write_client_def split: option.splits IpAddr.splits dest: octets4_inject octets6_inject)

lemma length_UNATTRIBUTED: "length UNATTRIBUTED = 36"
  by (simp add: UNATTRIBUTED_def)

lemma identity_input_inject:
  assumes "length (normalise lower e) < 2 ^ 64" and "length (normalise lower f) < 2 ^ 64"
  shows "identity_input lower e a = identity_input lower f b \<longleftrightarrow>
    normalise lower e = normalise lower f \<and> map_option to_canonical a = map_option to_canonical b"
proof
  assume "identity_input lower e a = identity_input lower f b"
  then have eq: "be64 (length (normalise lower e)) @ as_bytes (normalise lower e) @ write_client a =
      be64 (length (normalise lower f)) @ as_bytes (normalise lower f) @ write_client b"
    by (simp add: identity_input_def Let_def)
  then have "be64 (length (normalise lower e)) = be64 (length (normalise lower f))"
    and rest: "as_bytes (normalise lower e) @ write_client a = as_bytes (normalise lower f) @ write_client b"
    by (simp_all add: append_eq_append_conv)
  then have "length (normalise lower e) = length (normalise lower f)"
    using assms by (intro be64_inject)
  with rest show "normalise lower e = normalise lower f
      \<and> map_option to_canonical a = map_option to_canonical b"
    by (simp add: append_eq_append_conv write_client_inject)
next
  assume "normalise lower e = normalise lower f \<and> map_option to_canonical a = map_option to_canonical b"
  then show "identity_input lower e a = identity_input lower f b"
    by (simp add: identity_input_def write_client_inject [symmetric])
qed

section \<open>Levels\<close>

lemma tokens_at_level:
  "tokens_at b q now = level (q_capacity q) (q_refill_per_sec q) (b_tokens b) (now - b_updated b)"
  by (simp add: tokens_at_def level_def)

lemma login_quota_new_simps:
  "q_capacity (login_quota_new n w) = of_nat (max n 1)" "0 \<le> q_refill_per_sec (login_quota_new n w)"
  by (simp_all add: login_quota_new_def Let_def fdiv_nonneg as_secs_f64_nonneg)

lemma held_put: "held (tbl_put k b t) j q now = (if j = k then tokens_at b q now else held t j q now)"
  by (simp add: held_def table_simps)

lemma tokens_at_nat:
  "n \<le> 2 ^ 53 \<Longrightarrow> of_nat n \<le> q_capacity q \<Longrightarrow> tokens_at \<lparr>b_tokens = of_nat n, b_updated = now\<rparr> q now = of_nat n"
  by (simp add: tokens_at_level level_now)

lemma max_fsub_nat: "n \<le> 2 ^ 53 \<Longrightarrow> max (fsub (of_nat n) 1) 0 = of_nat (n - 1)"
  using spend_nat [of n] f64.mono [of "- 1" 0] by (cases n) (auto simp: fsub_def)

lemma held_spend:
  assumes "held t key q now = of_nat n" and "of_nat n \<le> q_capacity q" and "n \<le> 2 ^ 53"
    and "\<exists>c \<le> 2 ^ 53. q_capacity q = of_nat c"
  shows "held (spend now (key, q) t) key q now = of_nat (n - 1)"
    and "j \<noteq> key \<Longrightarrow> held (spend now (key, q) t) j q' now = held t j q' now"
proof -
  obtain c where c: "c \<le> 2 ^ 53" "q_capacity q = of_nat c"
    using assms(4) by blast
  let ?b = "case tbl_get t key of Some b \<Rightarrow> b | None \<Rightarrow> \<lparr>b_tokens = q_capacity q, b_updated = now\<rparr>"
  have "tokens_at ?b q now = of_nat n"
    using assms(1) c by (simp add: held_def tokens_at_nat split: option.splits)
  then have put: "spend now (key, q) t = tbl_put key \<lparr>b_tokens = of_nat (n - 1), b_updated = now\<rparr> t"
    by (simp add: spend_def max_fsub_nat [OF assms(3)])
  have "of_nat (n - 1) \<le> q_capacity q"
    using assms(2) c by (simp add: of_nat_diff)
  with assms(3) show "held (spend now (key, q) t) key q now = of_nat (n - 1)"
    by (simp add: put held_put tokens_at_nat)
  show "j \<noteq> key \<Longrightarrow> held (spend now (key, q) t) j q' now = held t j q' now"
    by (simp add: put held_put)
qed

section \<open>Failures at one instant\<close>

text \<open>A throttle as its constructors and setters make it, not poisoned.\<close>

definition throttle_ok :: "LoginThrottle \<Rightarrow> bool" where
  "throttle_ok self = (\<not> poisoned self \<and> tbl_wf (login_buckets self)
     \<and> identity self = login_quota_new (identity_limit self) (window self)
     \<and> address self = login_quota_new (address_limit self) (window self)
     \<and> identity_limit self < 2 ^ 32 \<and> address_limit self < 2 ^ 32)"

lemma throttle_ok_new: "throttle_ok throttle_new"
  by (simp add: throttle_ok_def throttle_new_def DEFAULT_PER_IDENTITY_def DEFAULT_PER_ADDRESS_def)

lemma throttle_ok_setters:
  "throttle_ok self \<Longrightarrow> n < 2 ^ 32 \<Longrightarrow> throttle_ok (per_identity self n)"
  "throttle_ok self \<Longrightarrow> n < 2 ^ 32 \<Longrightarrow> throttle_ok (per_address self n)"
  "throttle_ok self \<Longrightarrow> throttle_ok (with_window self w)"
  by (simp_all add: throttle_ok_def per_identity_def per_address_def with_window_def)

lemma tbl_wf_spend: "tbl_wf t \<Longrightarrow> tbl_wf (spend now x t)"
  by (simp add: spend_def split: prod.splits)

lemma throttle_ok_record:
  "throttle_ok self \<Longrightarrow> throttle_ok (record_failure_at sha lower self email client now)"
  "throttle_ok self \<Longrightarrow> throttle_ok (record_success sha lower self email client)"
  by (auto simp: throttle_ok_def record_failure_at_def record_success_def pairs_of_def Let_def
      tbl_wf_spend login_sweep_def)

text \<open>The number of whole attempts a pair of keys has left at an instant.\<close>

definition left_at :: "(bytes \<Rightarrow> bytes) \<Rightarrow> (string \<Rightarrow> string) \<Rightarrow> LoginThrottle \<Rightarrow> string \<Rightarrow> IpAddr option \<Rightarrow> nat \<Rightarrow>
    nat \<Rightarrow> nat \<Rightarrow> bool" where
  "left_at sha lower self email client now i a =
     (held (login_buckets self) (identity_key sha lower email client) (identity self) now = of_nat i
      \<and> held (login_buckets self) (address_key sha client) (address self) now = of_nat a
      \<and> i \<le> max (identity_limit self) 1 \<and> a \<le> max (address_limit self) 1)"

lemma limits_capacity:
  assumes "throttle_ok self"
  shows "q_capacity (identity self) = of_nat (max (identity_limit self) 1)"
    and "q_capacity (address self) = of_nat (max (address_limit self) 1)"
    and "max (identity_limit self) 1 \<le> 2 ^ 53" and "max (address_limit self) 1 \<le> 2 ^ 53"
  using assms by (auto simp: throttle_ok_def login_quota_new_simps)

lemma record_failure_left:
  assumes "throttle_ok self" and "left_at sha lower self email client now i a"
    and "identity_key sha lower email client \<noteq> address_key sha client"
    and "tbl_len (login_buckets self) < LOGIN_SWEEP_AT"
  shows "left_at sha lower (record_failure_at sha lower self email client now) email client now (i - 1) (a - 1)"
proof -
  let ?ik = "identity_key sha lower email client" and ?ak = "address_key sha client"
  let ?t = "login_buckets self"
  note cap = limits_capacity [OF assms(1)]
  have "login_buckets (record_failure_at sha lower self email client now) =
      spend now (?ak, address self) (spend now (?ik, identity self) ?t)"
    using assms(1,4) by (simp add: record_failure_at_def throttle_ok_def pairs_of_def)
  moreover have i: "held ?t ?ik (identity self) now = of_nat i" "i \<le> max (identity_limit self) 1"
      "held ?t ?ak (address self) now = of_nat a" "a \<le> max (address_limit self) 1"
    using assms(2) by (simp_all add: left_at_def)
  have bounds: "of_nat i \<le> q_capacity (identity self)" "i \<le> 2 ^ 53"
      "of_nat a \<le> q_capacity (address self)" "a \<le> 2 ^ 53"
    using i(2,4) order_trans [OF i(2) cap(3)] order_trans [OF i(4) cap(4)]
    by (simp_all only: cap of_nat_le_iff)
  have whole: "\<exists>c \<le> 2 ^ 53. q_capacity (identity self) = of_nat c" "\<exists>c \<le> 2 ^ 53. q_capacity (address self) = of_nat c"
    using cap by blast+
  note s1 = held_spend [OF i(1) bounds(1,2) whole(1)]
  have s2: "held (spend now (?ik, identity self) ?t) ?ak (address self) now = of_nat a"
    using s1(2) assms(3) i(3) by metis
  note s3 = held_spend [OF s2 bounds(3,4) whole(2)]
  ultimately show ?thesis
    using s1(1) s3(1) s3(2) [OF assms(3)] i(2,4)
    by (auto simp: left_at_def record_failure_at_def Let_def)
qed

lemma record_failure_fields [simp]:
  "identity (record_failure_at sha lower self email client now) = identity self"
  "address (record_failure_at sha lower self email client now) = address self"
  by (simp_all add: record_failure_at_def Let_def)

lemma tbl_len_spend: "tbl_len (spend now (k, q) t) \<le> Suc (tbl_len t)"
proof -
  have "length (AList.update k v t) \<le> Suc (length t)" for v
    by (induction t) auto
  then show ?thesis
    by (simp add: spend_def tbl_put_def tbl_len_def Let_def)
qed

lemma tbl_len_record_failure:
  "tbl_len (login_buckets (record_failure_at sha lower self email client now)) \<le>
   tbl_len (login_buckets self) + 2"
proof -
  have r: "tbl_len (login_sweep q now t) \<le> tbl_len t" for q t
    by (simp add: login_sweep_def tbl.len_retain)
  have "tbl_len (fold (spend now) (pairs_of sha lower self email client) t) \<le> tbl_len t + 2" for t
    using tbl_len_spend [of now "address_key sha client" "address self"
        "spend now (identity_key sha lower email client, identity self) t"]
      tbl_len_spend [of now "identity_key sha lower email client" "identity self" t]
    by (simp add: pairs_of_def)
  from this [of "login_buckets self"] this [of "login_sweep (identity self) now (login_buckets self)"]
    r [of "identity self" "login_buckets self"]
  show ?thesis by (auto simp: record_failure_at_def Let_def)
qed

definition fail_times :: "(bytes \<Rightarrow> bytes) \<Rightarrow> (string \<Rightarrow> string) \<Rightarrow> nat \<Rightarrow> LoginThrottle \<Rightarrow> string \<Rightarrow>
    IpAddr option \<Rightarrow> nat \<Rightarrow> LoginThrottle" where
  "fail_times sha lower n self email client now =
     ((\<lambda>s. record_failure_at sha lower s email client now) ^^ n) self"

lemma fail_times_left:
  assumes "throttle_ok self" and "login_buckets self = tbl_empty" and "n < 4096"
    and "identity_key sha lower email client \<noteq> address_key sha client"
  shows "throttle_ok (fail_times sha lower n self email client now)
    \<and> tbl_len (login_buckets (fail_times sha lower n self email client now)) \<le> 2 * n
    \<and> identity (fail_times sha lower n self email client now) = identity self
    \<and> address (fail_times sha lower n self email client now) = address self
    \<and> left_at sha lower (fail_times sha lower n self email client now) email client now
        (max (identity_limit self) 1 - n) (max (address_limit self) 1 - n)"
  using assms(3)
proof (induction n)
  case 0
  show ?case
    using assms(1,2) limits_capacity [OF assms(1)]
    by (simp add: fail_times_def left_at_def held_def tbl_get_def tbl_len_def tbl_empty_def)
next
  case (Suc n)
  let ?s = "fail_times sha lower n self email client now"
  have "fail_times sha lower (Suc n) self email client now =
      record_failure_at sha lower ?s email client now"
    by (simp add: fail_times_def)
  moreover have "tbl_len (login_buckets ?s) < LOGIN_SWEEP_AT"
    using Suc by (simp add: LOGIN_SWEEP_AT_def)
  moreover have ih: "throttle_ok ?s" "tbl_len (login_buckets ?s) \<le> 2 * n" "identity ?s = identity self"
      "address ?s = address self" "left_at sha lower ?s email client now
        (max (identity_limit self) 1 - n) (max (address_limit self) 1 - n)"
    using Suc by simp_all
  ultimately show ?case
    using record_failure_left [OF ih(1,5) assms(4)] ih
      tbl_len_record_failure [of sha lower ?s email client now]
    by (simp add: throttle_ok_record)
qed

lemma longest_wait_Allowed_iff:
  "longest_wait t now pairs wait = Some None \<longleftrightarrow>
   wait = None \<and> (\<forall>(key, q) \<in> set pairs. \<not> held t key q now < 1)"
proof (induction pairs arbitrary: wait)
  case (Cons x pairs)
  obtain key q where x: "x = (key, q)"
    by (cases x)
  show ?case
  proof (cases "held t key q now < 1")
    case True
    then show ?thesis
      by (simp add: x Let_def Cons.IH split: option.splits)
  next
    case False
    then show ?thesis by (simp add: x Let_def Cons.IH)
  qed
qed simp

lemma check_at_Allowed_iff:
  "\<not> poisoned self \<Longrightarrow> check_at sha lower self email client now = Some Allowed \<longleftrightarrow>
   1 \<le> held (login_buckets self) (identity_key sha lower email client) (identity self) now
   \<and> 1 \<le> held (login_buckets self) (address_key sha client) (address self) now"
  using longest_wait_Allowed_iff [of "login_buckets self" now "pairs_of sha lower self email client" None]
  by (auto simp: check_at_def pairs_of_def not_less split: option.splits simp del: longest_wait.simps)

section \<open>Properties\<close>

text \<open>
  The lockout is exact.  From a fresh throttle, after any number of failed sign-ins to one
  account from one client at one instant, the next attempt is let through if and only if there were
  fewer failures than both limits (a limit of zero counting as one).
\<close>

theorem lockout_exact:
  assumes "throttle_ok self" and "login_buckets self = tbl_empty" and "n < 4096"
    and "identity_key sha lower email client \<noteq> address_key sha client"
  shows "check_at sha lower (fail_times sha lower n self email client now) email client now = Some Allowed \<longleftrightarrow>
    n < max (identity_limit self) 1 \<and> n < max (address_limit self) 1"
proof -
  let ?s = "fail_times sha lower n self email client now"
  have s: "throttle_ok ?s" "left_at sha lower ?s email client now
      (max (identity_limit self) 1 - n) (max (address_limit self) 1 - n)"
    using fail_times_left [OF assms] by blast+
  have one: "(1 :: rat) \<le> of_nat (k - n) \<longleftrightarrow> n < k" for k
    by (metis Suc_leI One_nat_def of_nat_1 of_nat_le_iff zero_less_diff Suc_le_eq)
  have h: "held (login_buckets ?s) (identity_key sha lower email client) (identity ?s) now =
        of_nat (max (identity_limit self) 1 - n)"
      "held (login_buckets ?s) (address_key sha client) (address ?s) now =
        of_nat (max (address_limit self) 1 - n)" and "\<not> poisoned ?s"
    using s by (simp_all add: left_at_def throttle_ok_def)
  then show ?thesis
    by (simp only: check_at_Allowed_iff one not_False_eq_True)
qed

lemma keys_differ: "identity_input lower email client \<noteq> address_input client'"
  by (simp add: identity_input_def address_input_def IDENTITY_DOMAIN_def ADDRESS_DOMAIN_def Let_def)

theorem lockout_exact_witness:
  "check_at id id (fail_times id id 5 throttle_new ''ada@example.com'' None 7) ''ada@example.com'' None 7
     \<noteq> Some Allowed
   \<and> check_at id id (fail_times id id 4 throttle_new ''ada@example.com'' None 7) ''ada@example.com'' None 7
     = Some Allowed"
proof -
  have keys: "identity_key id id ''ada@example.com'' None \<noteq> address_key id None"
    by (simp add: identity_key_def address_key_def keys_differ)
  have empty: "login_buckets throttle_new = tbl_empty"
    by (simp add: throttle_new_def)
  show ?thesis
    using lockout_exact [OF throttle_ok_new empty _ keys, of 5 7]
      lockout_exact [OF throttle_ok_new empty _ keys, of 4 7]
    by (simp add: throttle_new_def DEFAULT_PER_IDENTITY_def DEFAULT_PER_ADDRESS_def)
qed

text \<open>
  Allowances are never merged or split by spelling.  Two attempts share the account's bucket's
  hash input if and only if their normalised account names and their canonical client addresses are
  the same (an IPv4 address and its IPv4-mapped form are one client, an absent address is a client
  of its own); and no account's input is an address's.
\<close>

theorem bucket_inputs_separate:
  assumes "length (normalise lower e) < 2 ^ 64" and "length (normalise lower f) < 2 ^ 64"
  shows "(identity_input lower e a = identity_input lower f b \<longleftrightarrow>
      normalise lower e = normalise lower f \<and> map_option to_canonical a = map_option to_canonical b)
    \<and> (address_input a = address_input b \<longleftrightarrow> map_option to_canonical a = map_option to_canonical b)
    \<and> identity_input lower e a \<noteq> address_input b"
  using identity_input_inject [OF assms, of a b] keys_differ [of lower e a b]
  by (simp add: address_input_def write_client_inject)

theorem bucket_inputs_separate_witness:
  "identity_input id ''a@b'' (Some (V4 7)) \<noteq> identity_input id ''a@'' (Some (V4 7))"
proof -
  have "trim ''a@b'' = ''a@b''" "trim ''a@'' = ''a@''"
    by (simp_all add: trim_eval)
  then show ?thesis
    using bucket_inputs_separate [of id "''a@b''" "''a@''" "Some (V4 7)" "Some (V4 7)"]
    by (simp add: normalise_def)
qed

text \<open>
  A success forgives the account and not the address: after failures from one client and then
  a successful sign-in, the next attempt is let through exactly while the client address itself has
  failures left, whatever the account's limit was.
\<close>

theorem success_keeps_address:
  assumes "throttle_ok self" and "login_buckets self = tbl_empty" and "n < 4096"
    and "identity_key sha lower email client \<noteq> address_key sha client"
  shows "check_at sha lower
      (record_success sha lower (fail_times sha lower n self email client now) email client)
      email client now = Some Allowed \<longleftrightarrow> n < max (address_limit self) 1"
proof -
  let ?s = "fail_times sha lower n self email client now"
  let ?r = "record_success sha lower ?s email client"
  have s: "throttle_ok ?s" "identity ?s = identity self" "address ?s = address self"
      "left_at sha lower ?s email client now (max (identity_limit self) 1 - n) (max (address_limit self) 1 - n)"
    using fail_times_left [OF assms] by blast+
  have r: "\<not> poisoned ?r" "identity ?r = identity self" "address ?r = address self"
      "login_buckets ?r = tbl_del (identity_key sha lower email client) (login_buckets ?s)"
    using s by (simp_all add: record_success_def throttle_ok_def)
  have "held (login_buckets ?r) (identity_key sha lower email client) (identity ?r) now =
      of_nat (max (identity_limit self) 1)"
    using limits_capacity [OF assms(1)] by (simp add: r held_def table_simps)
  moreover have "held (login_buckets ?r) (address_key sha client) (address ?r) now =
      of_nat (max (address_limit self) 1 - n)"
    using s(3,4) assms(4) by (simp add: r held_def table_simps left_at_def)
  moreover have "(1 :: rat) \<le> of_nat (k - n) \<longleftrightarrow> n < k" "(1 :: rat) \<le> of_nat (max k 1)" for k
    by (metis Suc_leI One_nat_def of_nat_1 of_nat_le_iff zero_less_diff Suc_le_eq)
      (metis max.cobounded2 of_nat_1 of_nat_le_iff)
  ultimately show ?thesis
    using r(1) by (simp only: check_at_Allowed_iff simp_thms)
qed

theorem success_keeps_address_witness:
  "check_at id id (record_success id id (fail_times id id 49 throttle_new ''a'' None 7) ''a'' None) ''a'' None 7
     = Some Allowed
   \<and> check_at id id (record_success id id (fail_times id id 50 throttle_new ''a'' None 7) ''a'' None) ''a'' None 7
     \<noteq> Some Allowed"
proof -
  have keys: "identity_key id id ''a'' None \<noteq> address_key id None"
    by (simp add: identity_key_def address_key_def keys_differ)
  have empty: "login_buckets throttle_new = tbl_empty"
    by (simp add: throttle_new_def)
  show ?thesis
    using success_keeps_address [OF throttle_ok_new empty _ keys, of 49 7]
      success_keeps_address [OF throttle_ok_new empty _ keys, of 50 7]
    by (simp add: throttle_new_def DEFAULT_PER_ADDRESS_def)
qed

text \<open>
  The sweep forgives addresses.  It measures every bucket against the account quota, also those of
  addresses: with the table at its threshold, a failure by anyone drops the bucket of an address
  that still has at least as many attempts left as an account may have at all, and that address has
  its whole allowance back, although its bucket was not full.
\<close>

theorem sweep_forgives_address:
  assumes "throttle_ok self" and "LOGIN_SWEEP_AT \<le> tbl_len (login_buckets self)"
    and "tbl_get (login_buckets self) (address_key sha victim) = Some b"
    and "q_capacity (identity self) \<le> tokens_at b (identity self) now"
    and "tokens_at b (address self) now < q_capacity (address self)"
    and "address_key sha victim \<notin> {identity_key sha lower email client, address_key sha client}"
  shows "held (login_buckets self) (address_key sha victim) (address self) now
      < q_capacity (address self)
    \<and> held (login_buckets (record_failure_at sha lower self email client now))
        (address_key sha victim) (address self) now = q_capacity (address self)"
proof -
  let ?t = "login_sweep (identity self) now (login_buckets self)"
  have "tbl_get ?t (address_key sha victim) = None"
    using assms(1,3,4) by (auto simp: login_sweep_def tbl.get_retain_None_iff throttle_ok_def)
  moreover have "login_buckets (record_failure_at sha lower self email client now) =
      spend now (address_key sha client, address self)
        (spend now (identity_key sha lower email client, identity self) ?t)"
    using assms(1,2) by (simp add: record_failure_at_def pairs_of_def throttle_ok_def)
  ultimately show ?thesis
    using assms(3,5,6) by (simp add: held_def spend_def table_simps Let_def)
qed

text \<open>A table at the threshold in which the unattributed address has 10 of its 50 attempts left.\<close>

definition crowded :: LoginThrottle where
  "crowded = throttle_new\<lparr>login_buckets :=
     (address_key id None, \<lparr>b_tokens = of_nat 10, b_updated = 7\<rparr>)
     # map (\<lambda>i. (9 # be64 i, \<lparr>b_tokens = 0, b_updated = 7\<rparr>)) [0..<8191]\<rparr>"

lemma crowded_ok: "throttle_ok crowded"
proof -
  have "inj_on be64 {0..<8191}"
    using be64_inject by (auto simp: inj_on_def)
  then have "distinct (map (\<lambda>i. (9 :: u8) # be64 i) [0..<8191])"
    by (auto simp: distinct_map inj_on_def)
  then have "tbl_wf (login_buckets crowded)"
    by (simp add: crowded_def tbl_wf_def comp_def address_key_def address_input_def ADDRESS_DOMAIN_def
        image_iff)
  with throttle_ok_new show ?thesis
    by (simp add: throttle_ok_def crowded_def)
qed

theorem sweep_forgives_address_witness:
  "held (login_buckets crowded) (address_key id None) (address crowded) 7 < 50
   \<and> held (login_buckets (record_failure_at id id crowded ''x'' (Some (V4 1)) 7))
       (address_key id None) (address crowded) 7 = 50"
proof -
  let ?b = "\<lparr>b_tokens = of_nat 10, b_updated = 7\<rparr>"
  have cap: "q_capacity (identity crowded) = 5" "q_capacity (address crowded) = 50"
    by (simp_all add: crowded_def throttle_new_def login_quota_new_simps DEFAULT_PER_IDENTITY_def
        DEFAULT_PER_ADDRESS_def)
  have "LOGIN_SWEEP_AT \<le> tbl_len (login_buckets crowded)"
      "tbl_get (login_buckets crowded) (address_key id None) = Some ?b"
    by (simp_all add: crowded_def LOGIN_SWEEP_AT_def tbl_len_def tbl_get_def)
  moreover have "q_capacity (identity crowded) \<le> tokens_at ?b (identity crowded) 7"
      "tokens_at ?b (address crowded) 7 < q_capacity (address crowded)"
    using f64.exact_nat [of 10] by (simp_all add: tokens_at_level level_def fmul_def fadd_def cap)
  moreover have "address_key id None \<notin> {identity_key id id ''x'' (Some (V4 1)), address_key id (Some (V4 1))}"
    using keys_differ [of id "''x''" "Some (V4 1)" None]
    by (auto simp: address_key_def identity_key_def address_input_def write_client_def to_canonical_def)
  ultimately show ?thesis
    using sweep_forgives_address [OF crowded_ok, of id None ?b 7 id "''x''" "Some (V4 1)"]
    by (simp only: cap simp_thms)
qed

end
