(* ===== verification/Jobs_Config.thy ===== *)
theory Jobs_Config
  imports Arc_Prelude Rust_F64
begin

text \<open>
  The declarations of the job queue: \<^verbatim>\<open>src/jobs/config.rs\<close> (job models, retry policy, worker
  tuning), \<^verbatim>\<open>src/jobs/validate.rs\<close> and the stored error text of \<^verbatim>\<open>src/jobs/error.rs\<close>.

  Durations are naturals in nanoseconds.  The multiplier of a retry policy may be any \<^verbatim>\<open>f64\<close>, the
  special values included.  The standard library leaves the precision of \<^verbatim>\<open>f64::powi\<close> open, so it is
  the argument \<open>pw\<close>, about which nothing is assumed.  Numbers too small for the format's exponent
  are kept exact where the format would underflow: they are far below a nanosecond either way.
\<close>

section \<open>Job models\<close>

definition DEFAULT_MAX_PAYLOAD_BYTES :: nat where
  "DEFAULT_MAX_PAYLOAD_BYTES = 65536"

definition KIND_MAX_LEN :: nat where
  "KIND_MAX_LEN = 128"

definition kind_char :: "char \<Rightarrow> bool" where
  "kind_char b = (is_ascii_alphanumeric b \<or> b \<in> {CHR ''.'', CHR '':'', CHR ''_'', CHR ''-''})"

definition validate_kind :: "string \<Rightarrow> (string, unit) result" where
  "validate_kind kind =
     (if kind = [] then Err ''kind must not be empty''
      else if length kind > KIND_MAX_LEN then
        Err (''kind must not exceed '' @ show_nat KIND_MAX_LEN @ '' bytes'')
      else if \<not> list_all kind_char kind then
        Err (''kind must contain only ASCII alphanumeric, '.', ':', '_', or '-'' @ [CHR 0x27])
      else Ok ())"

definition show_int :: "int \<Rightarrow> string" where
  "show_int i = (if i < 0 then CHR ''-'' # show_nat (nat (- i)) else show_nat (nat i))"

definition validate_version :: "int \<Rightarrow> (string, unit) result" where
  "validate_version version =
     (if version < 1 then Err (''version must be >= 1, got '' @ show_int version) else Ok ())"

record JobModel =
  model_kind :: string
  model_version :: int
  model_max_attempts :: nat
  payload_limit :: nat

definition job_model_new :: "string \<Rightarrow> int \<Rightarrow> nat \<Rightarrow> JobModel" where
  "job_model_new kind version max_attempts =
     \<lparr>model_kind = kind, model_version = version,
      model_max_attempts = (if max_attempts < 1 then 1 else max_attempts),
      payload_limit = DEFAULT_MAX_PAYLOAD_BYTES\<rparr>"

definition with_max_payload_bytes :: "JobModel \<Rightarrow> nat \<Rightarrow> JobModel" where
  "with_max_payload_bytes self bytes = self\<lparr>payload_limit := bytes\<rparr>"

definition validate_identity :: "JobModel \<Rightarrow> (string, unit) result" where
  "validate_identity self =
     rbind (validate_kind (model_kind self)) (\<lambda>_.
     rbind (validate_version (model_version self)) (\<lambda>_. Ok ()))"

section \<open>Stored errors\<close>

datatype JobError = Retryable string | Permanent string

definition retryable_msg :: "string \<Rightarrow> JobError" where
  "retryable_msg message = Retryable message"

definition permanent_msg :: "string \<Rightarrow> JobError" where
  "permanent_msg message = Permanent message"

fun is_retryable :: "JobError \<Rightarrow> bool" where
  "is_retryable (Retryable _) = True"
| "is_retryable (Permanent _) = False"

fun is_permanent :: "JobError \<Rightarrow> bool" where
  "is_permanent (Permanent _) = True"
| "is_permanent (Retryable _) = False"

fun show_job_error :: "JobError \<Rightarrow> string" where
  "show_job_error (Retryable inner) = ''retryable: '' @ inner"
| "show_job_error (Permanent inner) = ''permanent: '' @ inner"

definition LAST_ERROR_MAX_BYTES :: nat where
  "LAST_ERROR_MAX_BYTES = 4096"

definition truncate_for_storage :: "string \<Rightarrow> string" where
  "truncate_for_storage value =
     (if length value \<le> LAST_ERROR_MAX_BYTES then value
      else take (boundary_at_most value LAST_ERROR_MAX_BYTES) value @ ''...'')"

definition stored_message :: "JobError \<Rightarrow> string" where
  "stored_message self = truncate_for_storage (show_job_error self)"

section \<open>Retry policy\<close>

datatype f64 = Finite rat | Infinite bool | NaN

text \<open>Multiplication of floats, with overflow to infinity and the undefined products.\<close>

definition f64_max :: rat where
  "f64_max = (2 ^ 53 - 1) * 2 ^ 971"

fun f64_mult :: "f64 \<Rightarrow> f64 \<Rightarrow> f64" where
  "f64_mult (Finite a) (Finite b) =
     (let c = fmul a b in if \<bar>c\<bar> > f64_max then Infinite (c < 0) else Finite c)"
| "f64_mult (Finite a) (Infinite neg) = (if a = 0 then NaN else Infinite (neg \<noteq> (a < 0)))"
| "f64_mult (Infinite neg) (Finite b) = (if b = 0 then NaN else Infinite (neg \<noteq> (b < 0)))"
| "f64_mult (Infinite a) (Infinite b) = Infinite (a \<noteq> b)"
| "f64_mult _ _ = NaN"

record RetryPolicy =
  retry_base :: nat
  multiplier :: f64
  retry_cap :: nat
  retry_jitter :: bool

datatype RetryPolicyError = MultiplierNotFinite f64 | MultiplierNegative f64

definition exponential :: "nat \<Rightarrow> f64 \<Rightarrow> nat \<Rightarrow> RetryPolicy" where
  "exponential b m c = \<lparr>retry_base = b, multiplier = m, retry_cap = c, retry_jitter = False\<rparr>"

definition retry_default :: RetryPolicy where
  "retry_default = exponential 1000000000 (Finite 2) (3600 * 1000000000)"

definition fixed_delay :: "nat \<Rightarrow> RetryPolicy" where
  "fixed_delay delay =
     \<lparr>retry_base = delay, multiplier = Finite 1, retry_cap = delay, retry_jitter = False\<rparr>"

definition with_jitter :: "RetryPolicy \<Rightarrow> bool \<Rightarrow> RetryPolicy" where
  "with_jitter self enabled = self\<lparr>retry_jitter := enabled\<rparr>"

definition retry_validate :: "RetryPolicy \<Rightarrow> (RetryPolicyError, unit) result" where
  "retry_validate self =
     (case multiplier self of
        Finite r \<Rightarrow> if r < 0 then Err (MultiplierNegative (multiplier self)) else Ok ()
      | _ \<Rightarrow> Err (MultiplierNotFinite (multiplier self)))"

definition retry_validated :: "RetryPolicy \<Rightarrow> (RetryPolicyError, RetryPolicy) result" where
  "retry_validated self = rbind (retry_validate self) (\<lambda>_. Ok self)"

text \<open>The number before it is clamped, the clamp, and the delay.  The result is \<open>None\<close> where
  \<^verbatim>\<open>Duration::from_secs_f64\<close> panics; \<open>rand\<close> is the 128-bit random number.\<close>

definition raw_delay :: "(f64 \<Rightarrow> nat \<Rightarrow> f64) \<Rightarrow> RetryPolicy \<Rightarrow> nat \<Rightarrow> f64" where
  "raw_delay pw self attempts =
     (let exp = (if attempts \<ge> 40 then 40 else attempts - 1)
      in if multiplier self = Finite 0 then Finite 0
         else if multiplier self = Finite 1 then Finite (as_secs_f64 (retry_base self))
         else f64_mult (Finite (as_secs_f64 (retry_base self))) (pw (multiplier self) exp))"

fun clamp_delay :: "rat \<Rightarrow> f64 \<Rightarrow> rat" where
  "clamp_delay cap_secs NaN = 0"
| "clamp_delay cap_secs (Infinite neg) = (if neg then 0 else cap_secs)"
| "clamp_delay cap_secs (Finite raw) = (if raw < 0 then 0 else if raw > cap_secs then cap_secs else raw)"

definition jittered :: "RetryPolicy \<Rightarrow> nat \<Rightarrow> nat \<Rightarrow> nat" where
  "jittered self rand delay =
     (if retry_jitter self \<and> delay \<noteq> 0 then
        let r = rand mod (delay + 1) in if r < 2 ^ 64 then r else 0
      else delay)"

definition delay_for :: "(f64 \<Rightarrow> nat \<Rightarrow> f64) \<Rightarrow> nat \<Rightarrow> RetryPolicy \<Rightarrow> nat \<Rightarrow> nat option" where
  "delay_for pw rand self attempts =
     (if attempts = 0 then Some (retry_base self)
      else map_option (jittered self rand)
             (from_secs_f64 (clamp_delay (as_secs_f64 (retry_cap self)) (raw_delay pw self attempts))))"

section \<open>Worker tuning\<close>

record WorkerConfig =
  concurrency :: nat
  poll_interval :: nat
  worker_lease :: nat
  poll_batch :: int
  sweep_interval :: nat
  sweep_batch :: int
  job_timeout :: nat
  heartbeat_interval :: "nat option"

definition millis :: "nat \<Rightarrow> nat" where
  "millis n = n * 1000000"

definition secs :: "nat \<Rightarrow> nat" where
  "secs n = n * 1000000000"

definition worker_config_default :: WorkerConfig where
  "worker_config_default =
     \<lparr>concurrency = 8, poll_interval = millis 200, worker_lease = secs 300, poll_batch = 8,
      sweep_interval = secs 30, sweep_batch = 64, job_timeout = secs 60, heartbeat_interval = None\<rparr>"

definition set_concurrency :: "WorkerConfig \<Rightarrow> nat \<Rightarrow> WorkerConfig" where
  "set_concurrency self n = self\<lparr>concurrency := (if n < 1 then 1 else n)\<rparr>"

definition set_poll_interval :: "WorkerConfig \<Rightarrow> nat \<Rightarrow> WorkerConfig" where
  "set_poll_interval self d = self\<lparr>poll_interval := (if d < millis 1 then millis 1 else d)\<rparr>"

definition set_lease :: "WorkerConfig \<Rightarrow> nat \<Rightarrow> WorkerConfig" where
  "set_lease self d = self\<lparr>worker_lease := (if d < secs 1 then secs 1 else d)\<rparr>"

definition set_poll_batch :: "WorkerConfig \<Rightarrow> int \<Rightarrow> WorkerConfig" where
  "set_poll_batch self n = self\<lparr>poll_batch := (if n < 1 then 1 else n)\<rparr>"

definition set_sweep_interval :: "WorkerConfig \<Rightarrow> nat \<Rightarrow> WorkerConfig" where
  "set_sweep_interval self d = self\<lparr>sweep_interval := (if d < millis 1 then millis 1 else d)\<rparr>"

definition set_sweep_batch :: "WorkerConfig \<Rightarrow> int \<Rightarrow> WorkerConfig" where
  "set_sweep_batch self n = self\<lparr>sweep_batch := (if n < 1 then 1 else n)\<rparr>"

definition set_job_timeout :: "WorkerConfig \<Rightarrow> nat \<Rightarrow> WorkerConfig" where
  "set_job_timeout self d = self\<lparr>job_timeout := (if d < millis 1 then millis 1 else d)\<rparr>"

definition set_heartbeat_interval :: "WorkerConfig \<Rightarrow> nat \<Rightarrow> WorkerConfig" where
  "set_heartbeat_interval self d =
     self\<lparr>heartbeat_interval := Some (if d < millis 1 then millis 1 else d)\<rparr>"

definition effective_heartbeat_interval :: "WorkerConfig \<Rightarrow> nat" where
  "effective_heartbeat_interval self =
     (case heartbeat_interval self of
        Some v \<Rightarrow> v
      | None \<Rightarrow> (let third = worker_lease self div 3 in if third < millis 1 then millis 1 else third))"

datatype WorkerConfigError =
    JobTimeoutExceedsLease nat nat
  | HeartbeatIntervalNotBelowLease nat nat

definition config_validate :: "WorkerConfig \<Rightarrow> (WorkerConfigError, unit) result" where
  "config_validate self =
     (if job_timeout self > worker_lease self then Err (JobTimeoutExceedsLease (job_timeout self) (worker_lease self))
      else let hb = effective_heartbeat_interval self
           in if hb \<ge> worker_lease self then Err (HeartbeatIntervalNotBelowLease hb (worker_lease self)) else Ok ())"

definition config_validated :: "WorkerConfig \<Rightarrow> (WorkerConfigError, WorkerConfig) result" where
  "config_validated self = rbind (config_validate self) (\<lambda>_. Ok self)"

section \<open>Kinds and stored text\<close>

lemma validate_identity_Ok_iff:
  "validate_identity m = Ok () \<longleftrightarrow>
     0 < length (model_kind m) \<and> length (model_kind m) \<le> KIND_MAX_LEN \<and>
     list_all kind_char (model_kind m) \<and> 1 \<le> model_version m"
  by (auto simp: validate_identity_def validate_kind_def validate_version_def rbind_def)

lemma truncate_for_storage_length:
  "length (truncate_for_storage value) \<le> LAST_ERROR_MAX_BYTES + 3"
  using boundary_at_most_le [of "value" LAST_ERROR_MAX_BYTES] by (simp add: truncate_for_storage_def)

lemma truncate_for_storage_idem_short:
  "length value \<le> LAST_ERROR_MAX_BYTES \<Longrightarrow> truncate_for_storage value = value"
  by (simp add: truncate_for_storage_def)

section \<open>The retry delay\<close>

lemma clamp_delay_bounds:
  "0 \<le> cap_secs \<Longrightarrow> 0 \<le> clamp_delay cap_secs raw \<and> clamp_delay cap_secs raw \<le> cap_secs"
  by (cases raw) auto

lemma jittered_le: "jittered self rand delay \<le> delay"
proof -
  have "rand mod (delay + 1) \<le> delay"
    using mod_less_divisor [of "delay + 1" rand] by linarith
  then show ?thesis
    by (simp add: jittered_def Let_def)
qed

lemma delay_le_cap:
  assumes "retry_cap policy < 2 ^ 22 * 1000000000" and "0 < attempts"
  shows "\<exists>d \<le> retry_cap policy. delay_for pw rand policy attempts = Some d"
proof -
  define c where "c = clamp_delay (as_secs_f64 (retry_cap policy)) (raw_delay pw policy attempts)"
  have "0 \<le> c" "c \<le> as_secs_f64 (retry_cap policy)"
    using clamp_delay_bounds [OF as_secs_f64_nonneg] by (auto simp: c_def)
  then obtain e where "e \<le> retry_cap policy" "from_secs_f64 c = Some e"
    using from_secs_f64_le [OF _ _ from_as_secs_f64 [OF assms(1)]] by blast
  with assms(2) show ?thesis
    using jittered_le [of policy rand e] by (auto simp: delay_for_def c_def [symmetric])
qed

text \<open>
  For every retry policy whose cap is below 48 days, whatever its multiplier (negative, infinite
  or NaN included), whatever \<^verbatim>\<open>powi\<close> computes and whatever the random generator draws, the delay before
  a retry is computed without a panic and does not exceed the cap.
\<close>
theorem delay_within_cap:
  assumes "retry_cap policy < 2 ^ 22 * 1000000000" and "0 < attempts"
  shows "\<exists>d \<le> retry_cap policy. delay_for pw rand policy attempts = Some d"
  using assms by (rule delay_le_cap)

theorem delay_within_cap_witness:
  "\<exists>d \<le> 3600 * 1000000000. delay_for (\<lambda>_ _. NaN) 7 (with_jitter retry_default True) 3 = Some d"
  using delay_within_cap [of "with_jitter retry_default True" 3 "\<lambda>_ _. NaN" 7]
  by (simp add: with_jitter_def retry_default_def exponential_def)

text \<open>A fixed policy waits exactly its delay before every attempt.\<close>

lemma fixed_delay_exact:
  assumes "d < 2 ^ 22 * 1000000000"
  shows "delay_for pw rand (fixed_delay d) attempts = Some d"
  using from_as_secs_f64 [OF assms] as_secs_f64_nonneg [of d]
  by (simp add: delay_for_def fixed_delay_def raw_delay_def jittered_def not_less)

lemma round_f64_near_2_64: "round_f64 (2 ^ 64 - 1) = 2 ^ 64" "round_f64 (2 ^ 64) = 2 ^ 64"
proof -
  have e: "exponent (2 ^ 64 - 1) = 63" "exponent (2 ^ 64) = 64"
    by (rule exponent_unique; simp add: power_int_def)+
  have "round_half_even ((2 ^ 64 - 1) / 2048) = 2 ^ 53"
    by (rule round_half_even_near) (simp add: abs_if)
  then show "round_f64 (2 ^ 64 - 1) = 2 ^ 64"
    by (simp add: round_f64_def round_pos_def Let_def e [simplified] power_int_def)
  have "round_half_even (2 ^ 64 / 4096) = 2 ^ 52"
    by (rule round_half_even_near) (simp add: abs_if)
  then show "round_f64 (2 ^ 64) = 2 ^ 64"
    by (simp add: round_f64_def round_pos_def Let_def e [simplified] power_int_def)
qed

text \<open>The longest \<^verbatim>\<open>Duration\<close>: \<open>2 ^ 64 - 1\<close> seconds and all but one nanosecond of the next.\<close>

lemma from_max_duration_panics: "from_secs_f64 (as_secs_f64 (2 ^ 64 * 1000000000 - 1)) = None"
proof -
  define d :: nat where "d = 2 ^ 64 * 1000000000 - 1"
  have "d div 1000000000 = 2 ^ 64 - 1"
    by (simp add: d_def)
  then have "as_secs_f64 d = round_f64 (2 ^ 64 + fdiv (of_nat (d mod 1000000000)) 1000000000)"
    using round_f64_near_2_64(1) by (simp add: as_secs_f64_def fadd_def)
  also have "\<dots> \<ge> round_f64 (2 ^ 64)"
    by (rule f64.mono) (simp add: fdiv_nonneg)
  finally have ge: "2 ^ 64 \<le> as_secs_f64 d"
    by (simp only: round_f64_near_2_64(2))
  then have "2 ^ 64 * 1000000000 \<le> round_half_even (as_secs_f64 d * 1000000000)"
    by (intro round_half_even_ge) simp
  then show ?thesis
    unfolding d_def [symmetric] using ge by (simp add: from_secs_f64_def Let_def)
qed

text \<open>
  The documentation calls the computation panic-free, with every value clamped.  A policy that
  passes validation and is capped by \<^verbatim>\<open>Duration::MAX\<close> panics when the power overflows to infinity: the
  clamp yields the cap's seconds, which round up to \<open>2 ^ 64\<close>, and that is no \<^verbatim>\<open>Duration\<close>.
\<close>
theorem delay_panics_at_max_cap:
  assumes "pw (Finite (2 ^ 1000)) 2 = Infinite False"
  shows "retry_validate (exponential 1000000000 (Finite (2 ^ 1000)) (2 ^ 64 * 1000000000 - 1)) = Ok () \<and>
    delay_for pw rand (exponential 1000000000 (Finite (2 ^ 1000)) (2 ^ 64 * 1000000000 - 1)) 3 = None"
proof -
  define policy where "policy = exponential 1000000000 (Finite (2 ^ 1000)) (2 ^ 64 * 1000000000 - 1)"
  have fields: "retry_base policy = 1000000000" "multiplier policy = Finite (2 ^ 1000)"
    "retry_cap policy = 2 ^ 64 * 1000000000 - 1"
    by (simp_all add: policy_def exponential_def)
  have "as_secs_f64 1000000000 = 1"
    by (simp add: as_secs_f64_def fadd_def fdiv_def)
  then have "raw_delay pw policy 3 = Infinite False"
    using assms by (simp add: raw_delay_def Let_def fields)
  then have "delay_for pw rand policy 3 = None"
    using from_max_duration_panics by (simp add: delay_for_def fields)
  moreover have "retry_validate policy = Ok ()"
    by (simp add: retry_validate_def fields)
  ultimately show ?thesis
    unfolding policy_def by (intro conjI)
qed

theorem delay_panics_at_max_cap_witness:
  "delay_for (\<lambda>_ _. Infinite False) 0
     (exponential 1000000000 (Finite (2 ^ 1000)) (2 ^ 64 * 1000000000 - 1)) 3 = None"
  by (rule delay_panics_at_max_cap [of "\<lambda>_ _. Infinite False" 0, OF refl, THEN conjunct2])

section \<open>Validated workers\<close>

lemma config_validate_Ok_iff:
  "config_validate c = Ok () \<longleftrightarrow>
     job_timeout c \<le> worker_lease c \<and> effective_heartbeat_interval c < worker_lease c"
  by (auto simp: config_validate_def Let_def)

lemma worker_config_default_valid: "config_validate worker_config_default = Ok ()"
  by (simp add: config_validate_Ok_iff worker_config_default_def effective_heartbeat_interval_def
      secs_def millis_def Let_def)

text \<open>Every lease a worker can be built with is at least a second, and its own heartbeat fits in it.\<close>

lemma set_lease_ge: "secs 1 \<le> worker_lease (set_lease c d)"
  by (simp add: set_lease_def)

lemma derived_heartbeat_fits:
  "secs 1 \<le> worker_lease c \<Longrightarrow> heartbeat_interval c = None \<Longrightarrow> effective_heartbeat_interval c < worker_lease c"
  by (simp add: effective_heartbeat_interval_def secs_def millis_def Let_def)

end
