(* ===== verification/Jobs_Queue.thy ===== *)
theory Jobs_Queue
  imports Jobs_Config Credentials "HOL-Library.Product_Lexorder"
begin

text \<open>
  The durable job queue on SQLite: \<^verbatim>\<open>src/jobs/enqueue.rs\<close>, \<^verbatim>\<open>claim.rs\<close>, \<^verbatim>\<open>complete.rs\<close>, the statements
  of \<^verbatim>\<open>src/jobs/dialect/sqlite.rs\<close> and \<^verbatim>\<open>release_claim\<close> of \<^verbatim>\<open>worker.rs\<close>.

  A UUID is a 128-bit word, ordered as SQLite orders the 16 bytes.  The table maps identifiers to
  rows; every statement is one function on it and returns what the code reads off its result.
  \<open>now\<close> is the database's clock in epoch milliseconds at the statement; instants the program itself
  reads are in nanoseconds.  Columns are unbounded integers as in SQLite, narrowed where Rust reads
  them.  The only database error modelled is a violated constraint of the schema.  A JSON value is of
  the type \<open>'v\<close>; how many bytes it takes is an argument.  The order in which an unordered
  \<^verbatim>\<open>SELECT ... LIMIT\<close> visits the rows is the argument \<open>scan\<close>.
\<close>

type_synonym uuid = "128 word"

definition I32_MAX :: int where
  "I32_MAX = 2 ^ 31 - 1"

definition wrap_i32 :: "int \<Rightarrow> int" where
  "wrap_i32 i = (i + 2 ^ 31) mod 2 ^ 32 - 2 ^ 31"

section \<open>Rows\<close>

datatype JobStatus = Pending | Running | Succeeded | Dead | Cancelled

fun show_status :: "JobStatus \<Rightarrow> string" where
  "show_status Pending = ''pending''"
| "show_status Running = ''running''"
| "show_status Succeeded = ''succeeded''"
| "show_status Dead = ''dead''"
| "show_status Cancelled = ''cancelled''"

definition from_db :: "string \<Rightarrow> JobStatus option" where
  "from_db s =
     (if s = ''pending'' then Some Pending
      else if s = ''running'' then Some Running
      else if s = ''succeeded'' then Some Succeeded
      else if s = ''dead'' then Some Dead
      else if s = ''cancelled'' then Some Cancelled
      else None)"

record 'v JobRow =
  kind :: string
  version :: int
  payload :: 'v
  status :: JobStatus
  attempts :: int
  max_attempts :: int
  run_at :: int
  available_at :: int
  locked_at :: "int option"
  locked_by :: "string option"
  lease_seconds :: int
  last_error :: "string option"
  last_error_kind :: "string option"
  failed_at :: "int option"
  claim_token :: "uuid option"
  created_at :: int
  updated_at :: int

type_synonym 'v jobs = "(uuid, 'v JobRow) table"

text \<open>The \<^verbatim>\<open>CHECK\<close> constraints of the schema.\<close>

definition row_check :: "'v JobRow \<Rightarrow> bool" where
  "row_check row =
     (0 \<le> attempts row \<and> 1 \<le> max_attempts row \<and> 1 \<le> version row \<and> 1 \<le> lease_seconds row)"

datatype DbError = Constraint | Decode

section \<open>Enqueueing\<close>

datatype EnqueueError =
    Serialize
  | PayloadTooLarge nat nat
  | InvalidKind string
  | EnqueueDatabase DbError

record 'v JobRequest =
  req_kind :: string
  req_version :: int
  max_attempts_default :: nat
  max_attempts_override :: "nat option"
  req_payload :: 'v
  req_run_at :: "int option"

definition map_err :: "('e \<Rightarrow> 'f) \<Rightarrow> ('e, 'a) result \<Rightarrow> ('f, 'a) result" where
  "map_err f r = (case r of Err e \<Rightarrow> Err (f e) | Ok x \<Rightarrow> Ok x)"

definition job_request_new :: "('j \<Rightarrow> 'v option) \<Rightarrow> ('v \<Rightarrow> nat option) \<Rightarrow> JobModel \<Rightarrow> 'j \<Rightarrow>
    (EnqueueError, 'v JobRequest) result" where
  "job_request_new to_value encoded_len model job =
     rbind (map_err InvalidKind (validate_identity model)) (\<lambda>_.
     rbind (map_err InvalidKind (validate_kind (model_kind model))) (\<lambda>_.
     rbind (ok_or (to_value job) Serialize) (\<lambda>value.
     rbind (ok_or (encoded_len value) Serialize) (\<lambda>size.
     if size > payload_limit model then Err (PayloadTooLarge size (payload_limit model))
     else Ok \<lparr>req_kind = model_kind model, req_version = model_version model,
              max_attempts_default = model_max_attempts model, max_attempts_override = None,
              req_payload = value, req_run_at = None\<rparr>))))"

definition request_run_at :: "'v JobRequest \<Rightarrow> int \<Rightarrow> 'v JobRequest" where
  "request_run_at self ts = self\<lparr>req_run_at := Some ts\<rparr>"

text \<open>\<^verbatim>\<open>from_std(..).unwrap_or_default()\<close>, added to an instant; the sum panics beyond the range of the
  \<^verbatim>\<open>chrono\<close> package.\<close>

definition after_std :: "chrono \<Rightarrow> int \<Rightarrow> nat \<Rightarrow> int option" where
  "after_std chrono now delay =
     checked_add_signed chrono now (case delta_from_std chrono (int delay) of Some d \<Rightarrow> d | None \<Rightarrow> 0)"

definition request_delay :: "chrono \<Rightarrow> int \<Rightarrow> 'v JobRequest \<Rightarrow> nat \<Rightarrow> 'v JobRequest option" where
  "request_delay chrono now self delay = map_option (request_run_at self) (after_std chrono now delay)"

definition request_max_attempts :: "'v JobRequest \<Rightarrow> nat \<Rightarrow> 'v JobRequest" where
  "request_max_attempts self n = self\<lparr>max_attempts_override := Some (if n < 1 then 1 else n)\<rparr>"

definition effective_max_attempts :: "'v JobRequest \<Rightarrow> nat" where
  "effective_max_attempts self =
     (case max_attempts_override self of Some n \<Rightarrow> n | None \<Rightarrow> max_attempts_default self)"

definition INSERT :: "uuid \<Rightarrow> string \<Rightarrow> int \<Rightarrow> 'v \<Rightarrow> int \<Rightarrow> int \<Rightarrow> int \<Rightarrow> int \<Rightarrow> 'v jobs \<Rightarrow>
    (DbError, 'v jobs) result" where
  "INSERT i k ver value maxi run avail now t =
     (let row = \<lparr>kind = k, version = ver, payload = value, status = Pending, attempts = 0,
                 max_attempts = maxi, run_at = run, available_at = avail, locked_at = None,
                 locked_by = None, lease_seconds = 300, last_error = None, last_error_kind = None,
                 failed_at = None, claim_token = None, created_at = now, updated_at = now\<rparr>
      in if tbl_get t i \<noteq> None \<or> \<not> row_check row then Err Constraint else Ok (tbl_put i row t))"

record EnqueuedJob =
  enqueued_id :: uuid
  enqueued_status :: JobStatus

definition insert_job :: "uuid \<Rightarrow> int \<Rightarrow> int \<Rightarrow> 'v JobRequest \<Rightarrow> 'v jobs \<Rightarrow>
    (EnqueueError, EnqueuedJob \<times> 'v jobs) result" where
  "insert_job i utc_now now request t =
     (let maxi = min (int (effective_max_attempts request)) I32_MAX;
          run = stored_time (case req_run_at request of Some ts \<Rightarrow> ts | None \<Rightarrow> utc_now)
      in rbind (map_err EnqueueDatabase
                  (INSERT i (req_kind request) (req_version request) (req_payload request) maxi run run now t))
           (\<lambda>t'. Ok (\<lparr>enqueued_id = i, enqueued_status = Pending\<rparr>, t')))"

section \<open>Claiming\<close>

record 'v ClaimedJob =
  job_id :: uuid
  job_token :: uuid
  job_kind :: string
  job_version :: int
  job_payload :: 'v
  job_attempts :: int
  job_max_attempts :: int
  job_lease_seconds :: int

definition lease_seconds_of :: "nat \<Rightarrow> int" where
  "lease_seconds_of d = min (int (d div 1000000000)) I32_MAX"

definition sql_limit :: "int \<Rightarrow> 'a list \<Rightarrow> 'a list" where
  "sql_limit n xs = (if n < 0 then xs else take (nat n) xs)"

definition claimable :: "int \<Rightarrow> uuid \<times> 'v JobRow \<Rightarrow> bool" where
  "claimable now = (\<lambda>(_, row). status row = Pending \<and> available_at row \<le> now)"

definition claim_order :: "uuid \<times> 'v JobRow \<Rightarrow> int \<times> uuid" where
  "claim_order = (\<lambda>(i, row). (available_at row, i))"

definition CLAIM_PICK :: "int \<Rightarrow> int \<Rightarrow> 'v jobs \<Rightarrow> (uuid \<times> 'v JobRow) list" where
  "CLAIM_PICK batch now t = sql_limit batch (sort_key claim_order (filter (claimable now) t))"

definition claimed_row :: "string \<Rightarrow> uuid \<Rightarrow> int \<Rightarrow> int \<Rightarrow> 'v JobRow \<Rightarrow> 'v JobRow" where
  "claimed_row worker_id token lease now row =
     row\<lparr>status := Running, attempts := attempts row + 1, locked_by := Some worker_id,
         locked_at := Some now, claim_token := Some token, lease_seconds := lease,
         last_error := None, last_error_kind := None, updated_at := now\<rparr>"

definition CLAIM_MARK :: "string \<Rightarrow> uuid \<Rightarrow> int \<Rightarrow> uuid \<Rightarrow> int \<Rightarrow> 'v jobs \<Rightarrow>
    (DbError, nat \<times> 'v jobs) result" where
  "CLAIM_MARK worker_id token lease i now t =
     (let P = (\<lambda>k row. k = i \<and> status row = Pending)
      in if 0 < tbl_count P t \<and> lease < 1 then Err Constraint
         else Ok (tbl_count P t, tbl_modify P (claimed_row worker_id token lease now) t))"

definition claimed_job :: "uuid \<Rightarrow> int \<Rightarrow> uuid \<Rightarrow> 'v JobRow \<Rightarrow> (DbError, 'v ClaimedJob) result" where
  "claimed_job token lease i row =
     (if attempts row > I32_MAX then Err Decode
      else Ok \<lparr>job_id = i, job_token = token, job_kind = kind row, job_version = version row,
               job_payload = payload row, job_attempts = wrap_i32 (attempts row + 1),
               job_max_attempts = max_attempts row, job_lease_seconds = lease\<rparr>)"

text \<open>The loop over the picked rows; the n-th statement of the transaction reads \<open>clock n\<close>.\<close>

fun claim_loop :: "string \<Rightarrow> uuid \<Rightarrow> int \<Rightarrow> (nat \<Rightarrow> int) \<Rightarrow> nat \<Rightarrow> (uuid \<times> 'v JobRow) list \<Rightarrow> 'v jobs \<Rightarrow>
    (DbError, 'v ClaimedJob list \<times> 'v jobs) result" where
  "claim_loop worker_id token lease clock n [] t = Ok ([], t)"
| "claim_loop worker_id token lease clock n ((i, row) # picked) t =
     rbind (CLAIM_MARK worker_id token lease i (clock n) t) (\<lambda>(marked, t').
     if marked = 0 then claim_loop worker_id token lease clock (Suc n) picked t'
     else rbind (claimed_job token lease i row) (\<lambda>job.
          rbind (claim_loop worker_id token lease clock (Suc n) picked t') (\<lambda>(jobs, t'').
          Ok (job # jobs, t''))))"

text \<open>An error drops the transaction, which leaves the table as it was.\<close>

definition claim_jobs :: "uuid \<Rightarrow> (nat \<Rightarrow> int) \<Rightarrow> string \<Rightarrow> nat \<Rightarrow> int \<Rightarrow> 'v jobs \<Rightarrow>
    (DbError, 'v ClaimedJob list \<times> 'v jobs) result" where
  "claim_jobs token clock worker_id lease batch t =
     claim_loop worker_id token (lease_seconds_of lease) clock 1 (CLAIM_PICK batch (clock 0) t) t"

section \<open>The completion decision\<close>

record JobState =
  state_attempts :: int
  state_max_attempts :: int

datatype DispatchOutcome = DSucceeded | DMalformed | DTimeout | DHandlerError JobError

datatype ErrorKind = KPermanent | KExhausted | KMalformed | KUnknown | KPanic | KTimeout

fun error_kind_str :: "ErrorKind \<Rightarrow> string" where
  "error_kind_str KPermanent = ''permanent''"
| "error_kind_str KExhausted = ''exhausted''"
| "error_kind_str KMalformed = ''malformed''"
| "error_kind_str KUnknown = ''unknown''"
| "error_kind_str KPanic = ''panic''"
| "error_kind_str KTimeout = ''timeout''"

datatype Outcome = OSucceeded | ORetry int | ODead ErrorKind string

text \<open>\<open>None\<close> where the delay or the instant of the next attempt panics.\<close>

definition retry_at :: "(f64 \<Rightarrow> nat \<Rightarrow> f64) \<Rightarrow> nat \<Rightarrow> chrono \<Rightarrow> RetryPolicy \<Rightarrow> int \<Rightarrow> int \<Rightarrow> int option" where
  "retry_at pw rand chrono policy now n =
     Option.bind (delay_for pw rand policy (nat (n mod 2 ^ 32))) (after_std chrono now)"

fun decide :: "(f64 \<Rightarrow> nat \<Rightarrow> f64) \<Rightarrow> nat \<Rightarrow> chrono \<Rightarrow> JobState \<Rightarrow> DispatchOutcome \<Rightarrow> RetryPolicy \<Rightarrow> int \<Rightarrow>
    Outcome option" where
  "decide pw rand chrono state DSucceeded policy now = Some OSucceeded"
| "decide pw rand chrono state DMalformed policy now =
     Some (ODead KMalformed ''payload did not deserialize to the registered schema'')"
| "decide pw rand chrono state DTimeout policy now =
     (if state_attempts state \<ge> state_max_attempts state then
        Some (ODead KTimeout (''job exceeded its per-attempt timeout after '' @
                              show_int (state_attempts state) @ '' attempt(s)''))
      else map_option ORetry (retry_at pw rand chrono policy now (state_attempts state)))"
| "decide pw rand chrono state (DHandlerError err) policy now =
     (let message = stored_message err
      in if is_permanent err then Some (ODead KPermanent message)
         else if state_attempts state \<ge> state_max_attempts state then Some (ODead KExhausted message)
         else map_option ORetry (retry_at pw rand chrono policy now (state_attempts state)))"

section \<open>Fenced statements\<close>

datatype ClaimTransition = Updated | Lost

definition from_affected :: "nat \<Rightarrow> ClaimTransition" where
  "from_affected rows = (if rows > 0 then Updated else Lost)"

definition fenced :: "uuid \<Rightarrow> uuid \<Rightarrow> uuid \<Rightarrow> 'v JobRow \<Rightarrow> bool" where
  "fenced i token k row = (k = i \<and> status row = Running \<and> claim_token row = Some token)"

definition mark_succeeded :: "uuid \<Rightarrow> uuid \<Rightarrow> int \<Rightarrow> 'v jobs \<Rightarrow> ClaimTransition \<times> 'v jobs" where
  "mark_succeeded i token now t =
     (from_affected (tbl_count (fenced i token) t),
      tbl_modify (fenced i token)
        (\<lambda>row. row\<lparr>status := Succeeded, locked_by := None, locked_at := None, claim_token := None,
                   last_error := None, last_error_kind := None, failed_at := None,
                   updated_at := now\<rparr>) t)"

definition mark_retry :: "uuid \<Rightarrow> uuid \<Rightarrow> int \<Rightarrow> string \<Rightarrow> int \<Rightarrow> 'v jobs \<Rightarrow> ClaimTransition \<times> 'v jobs" where
  "mark_retry i token ts message now t =
     (from_affected (tbl_count (fenced i token) t),
      tbl_modify (fenced i token)
        (\<lambda>row. row\<lparr>status := Pending, available_at := stored_time ts, locked_by := None,
                   locked_at := None, claim_token := None,
                   last_error := Some (truncate_for_storage message),
                   last_error_kind := Some ''retryable'', failed_at := None, updated_at := now\<rparr>) t)"

definition mark_dead :: "uuid \<Rightarrow> uuid \<Rightarrow> ErrorKind \<Rightarrow> string \<Rightarrow> int \<Rightarrow> 'v jobs \<Rightarrow>
    ClaimTransition \<times> 'v jobs" where
  "mark_dead i token error_kind message now t =
     (from_affected (tbl_count (fenced i token) t),
      tbl_modify (fenced i token)
        (\<lambda>row. row\<lparr>status := Dead, locked_by := None, locked_at := None, claim_token := None,
                   last_error := Some (truncate_for_storage message),
                   last_error_kind := Some (error_kind_str error_kind), failed_at := Some now,
                   updated_at := now\<rparr>) t)"

definition heartbeat :: "uuid \<Rightarrow> uuid \<Rightarrow> nat \<Rightarrow> int \<Rightarrow> 'v jobs \<Rightarrow> (DbError, bool \<times> 'v jobs) result" where
  "heartbeat i token lease now t =
     (let secs = lease_seconds_of lease; rows = tbl_count (fenced i token) t
      in if rows > 0 \<and> secs < 1 then Err Constraint
         else Ok (rows > 0,
                  tbl_modify (fenced i token)
                    (\<lambda>row. row\<lparr>locked_at := Some now, lease_seconds := secs, updated_at := now\<rparr>) t))"

definition released_row :: "int \<Rightarrow> 'v JobRow \<Rightarrow> 'v JobRow" where
  "released_row now row =
     row\<lparr>status := Pending, available_at := now, locked_by := None, locked_at := None,
         claim_token := None, updated_at := now\<rparr>"

definition release_claim :: "uuid \<Rightarrow> uuid \<Rightarrow> int \<Rightarrow> 'v jobs \<Rightarrow> 'v jobs" where
  "release_claim i token now t = tbl_modify (fenced i token) (released_row now) t"

section \<open>The lease sweep and the admin operations\<close>

definition lease_expired :: "int \<Rightarrow> 'v JobRow \<Rightarrow> bool" where
  "lease_expired now row =
     (status row = Running \<and>
      (case locked_at row of None \<Rightarrow> False | Some ts \<Rightarrow> ts + lease_seconds row * 1000 < now))"

definition sweep_ids :: "('v jobs \<Rightarrow> 'v jobs) \<Rightarrow> ('v JobRow \<Rightarrow> bool) \<Rightarrow> int \<Rightarrow> 'v jobs \<Rightarrow> uuid list" where
  "sweep_ids scan P batch t = sql_limit batch (map fst (filter (\<lambda>(_, row). P row) (scan t)))"

definition SWEEP_DEAD :: "('v jobs \<Rightarrow> 'v jobs) \<Rightarrow> int \<Rightarrow> int \<Rightarrow> 'v jobs \<Rightarrow> nat \<times> 'v jobs" where
  "SWEEP_DEAD scan batch now t =
     (let ids = sweep_ids scan (\<lambda>row. lease_expired now row \<and> attempts row \<ge> max_attempts row) batch t
      in (tbl_count (\<lambda>k _. k \<in> set ids) t,
          tbl_modify (\<lambda>k _. k \<in> set ids)
            (\<lambda>row. row\<lparr>status := Dead, locked_by := None, locked_at := None, claim_token := None,
                       last_error := Some ''job exhausted its max_attempts after a crash'',
                       last_error_kind := Some ''exhausted'', failed_at := Some now,
                       updated_at := now\<rparr>) t))"

definition SWEEP_REQUEUE :: "('v jobs \<Rightarrow> 'v jobs) \<Rightarrow> int \<Rightarrow> int \<Rightarrow> 'v jobs \<Rightarrow> nat \<times> 'v jobs" where
  "SWEEP_REQUEUE scan batch now t =
     (let ids = sweep_ids scan (\<lambda>row. lease_expired now row \<and> attempts row < max_attempts row) batch t
      in (tbl_count (\<lambda>k _. k \<in> set ids) t, tbl_modify (\<lambda>k _. k \<in> set ids) (released_row now) t))"

definition sweep_expired_leases :: "('v jobs \<Rightarrow> 'v jobs) \<Rightarrow> int \<Rightarrow> int \<Rightarrow> int \<Rightarrow> 'v jobs \<Rightarrow>
    nat \<times> 'v jobs" where
  "sweep_expired_leases scan batch now now' t =
     (let (dead, t') = SWEEP_DEAD scan batch now t; (requeued, t'') = SWEEP_REQUEUE scan batch now' t'
      in (dead + requeued, t''))"

definition cancel :: "uuid \<Rightarrow> int \<Rightarrow> 'v jobs \<Rightarrow> nat \<times> 'v jobs" where
  "cancel i now t =
     (let P = (\<lambda>k row. k = i \<and> status row \<in> {Pending, Running})
      in (tbl_count P t,
          tbl_modify P (\<lambda>row. row\<lparr>status := Cancelled, locked_by := None, locked_at := None,
                                  claim_token := None, updated_at := now\<rparr>) t))"

definition requeue_dead :: "uuid \<Rightarrow> int \<Rightarrow> 'v jobs \<Rightarrow> nat \<times> 'v jobs" where
  "requeue_dead i now t =
     (let P = (\<lambda>k row. k = i \<and> status row = Dead)
      in (tbl_count P t,
          tbl_modify P (\<lambda>row. row\<lparr>status := Pending, attempts := 0, available_at := now,
                                  locked_by := None, locked_at := None, claim_token := None,
                                  last_error := None, last_error_kind := None, failed_at := None,
                                  updated_at := now\<rparr>) t))"

section \<open>Fencing\<close>

text \<open>A claim is held while its row runs under its token.\<close>

definition holds :: "'v jobs \<Rightarrow> uuid \<Rightarrow> uuid \<Rightarrow> bool" where
  "holds t i token = (case tbl_get t i of None \<Rightarrow> False | Some row \<Rightarrow> fenced i token i row)"

lemma holds_iff: "holds t i token \<longleftrightarrow> (\<exists>row. tbl_get t i = Some row \<and> fenced i token i row)"
  by (simp add: holds_def split: option.splits)

lemma fenced_modify_id:
  assumes "tbl_wf t" and "\<not> holds t i token"
  shows "tbl_modify (fenced i token) f t = t"
proof -
  have "\<not> fenced i token k row" if "(k, row) \<in> set t" for k row
  proof -
    from that assms(1) have "tbl_get t k = Some row"
      by (simp add: tbl_get_def tbl_wf_def)
    with assms(2) show ?thesis
      by (auto simp: holds_iff fenced_def)
  qed
  then show ?thesis
    unfolding tbl_modify_def by (intro map_idI) auto
qed

lemma fenced_count: "tbl_wf t \<Longrightarrow> 0 < tbl_count (fenced i token) t \<longleftrightarrow> holds t i token"
  by (auto simp: tbl.count_pos_iff holds_iff fenced_def)

lemma from_affected_Updated: "tbl_wf t \<Longrightarrow> from_affected (tbl_count (fenced i token) t) = Updated \<longleftrightarrow> holds t i token"
  by (simp add: from_affected_def fenced_count)

lemmas fenced_statements = mark_succeeded_def mark_retry_def mark_dead_def heartbeat_def release_claim_def

lemma stale_token_changes_nothing:
  assumes "tbl_wf t" and "\<not> holds t i token"
  shows "mark_succeeded i token now t = (Lost, t)"
    and "mark_retry i token ts message now t = (Lost, t)"
    and "mark_dead i token error_kind message now t = (Lost, t)"
    and "heartbeat i token d now t = Ok (False, t)"
    and "release_claim i token now t = t"
  using fenced_count [OF assms(1), of i token] assms(2)
  by (simp_all add: fenced_statements from_affected_def fenced_modify_id [OF assms] Let_def)

section \<open>What a claim hands out\<close>

lemma wrap_i32_id: "- (2 ^ 31) \<le> n \<Longrightarrow> n \<le> I32_MAX \<Longrightarrow> wrap_i32 n = n"
  by (simp add: wrap_i32_def I32_MAX_def)

lemma CLAIM_MARK_pending:
  assumes "tbl_wf t" and "tbl_get t i = Some row" and "status row = Pending" and "1 \<le> lease"
  shows "\<exists>m t'. CLAIM_MARK worker_id token lease i now t = Ok (Suc m, t') \<and> tbl_wf t' \<and>
    (\<forall>k. tbl_get t' k =
      (if k = i then Some (claimed_row worker_id token lease now row) else tbl_get t k))"
proof -
  define P where "P = (\<lambda>k (r :: 'a JobRow). k = i \<and> status r = Pending)"
  have "0 < tbl_count P t"
    using assms by (auto simp: tbl.count_pos_iff P_def)
  then obtain m where m: "tbl_count P t = Suc m"
    using gr0_implies_Suc by blast
  have "tbl_get (tbl_modify P (claimed_row worker_id token lease now) t) k =
      (if k = i then Some (claimed_row worker_id token lease now row) else tbl_get t k)" for k
    using assms by (cases "tbl_get t k") (auto simp: tbl.get_modify P_def)
  then show ?thesis
    using assms m by (simp add: CLAIM_MARK_def Let_def P_def [symmetric])
qed

text \<open>The effect of claiming the picked rows: their jobs are returned in order, and exactly their rows
  change.\<close>

lemma claim_loop_effect:
  assumes "tbl_wf t" and "distinct (map fst picked)" and "1 \<le> lease"
    and "\<forall>(i, row) \<in> set picked. tbl_get t i = Some row \<and> status row = Pending \<and> attempts row \<le> I32_MAX"
  shows "\<exists>jobs t'. claim_loop worker_id token lease clock n picked t = Ok (jobs, t') \<and> tbl_wf t' \<and>
    map Ok jobs = map (\<lambda>(i, row). claimed_job token lease i row) picked \<and>
    (\<forall>k. k \<notin> fst ` set picked \<longrightarrow> tbl_get t' k = tbl_get t k) \<and>
    (\<forall>(i, row) \<in> set picked. \<exists>m. tbl_get t' i = Some (claimed_row worker_id token lease (clock m) row))"
  using assms
proof (induction picked arbitrary: t n)
  case Nil
  then show ?case by simp
next
  case (Cons p picked)
  obtain i row where p: "p = (i, row)"
    by (cases p)
  have row: "tbl_get t i = Some row" "status row = Pending" "attempts row \<le> I32_MAX"
    using Cons.prems(4) by (auto simp: p)
  then obtain m t1 where mark: "CLAIM_MARK worker_id token lease i (clock n) t = Ok (Suc m, t1)"
    and t1: "tbl_wf t1"
    and get1: "\<forall>k. tbl_get t1 k =
      (if k = i then Some (claimed_row worker_id token lease (clock n) row) else tbl_get t k)"
    using CLAIM_MARK_pending [OF Cons.prems(1) row(1,2) Cons.prems(3)] by blast
  have notin: "i \<notin> fst ` set picked"
    using Cons.prems(2) by (simp add: p)
  then have "\<forall>(j, r) \<in> set picked. tbl_get t1 j = Some r \<and> status r = Pending \<and> attempts r \<le> I32_MAX"
    using Cons.prems(4) get1 by (auto simp: rev_image_eqI)
  then obtain jobs t2 where rest: "claim_loop worker_id token lease clock (Suc n) picked t1 = Ok (jobs, t2)"
    and t2: "tbl_wf t2" "map Ok jobs = map (\<lambda>(i, row). claimed_job token lease i row) picked"
    and get2: "\<forall>k. k \<notin> fst ` set picked \<longrightarrow> tbl_get t2 k = tbl_get t1 k"
      "\<forall>(j, r) \<in> set picked. \<exists>m. tbl_get t2 j = Some (claimed_row worker_id token lease (clock m) r)"
    using Cons.IH [of t1 "Suc n"] t1 Cons.prems(2,3) by auto
  obtain job where job: "claimed_job token lease i row = Ok job"
    using row(3) by (simp add: claimed_job_def)
  have "claim_loop worker_id token lease clock n (p # picked) t = Ok (job # jobs, t2)"
    by (simp add: p mark rest job rbind_def)
  moreover have "tbl_get t2 i = Some (claimed_row worker_id token lease (clock n) row)"
    using get2(1) get1 notin by simp
  ultimately show ?case
    using t2 get1 get2 job by (auto simp: p)
qed

text \<open>A claim that succeeds met no row it could not describe and, unless it was empty, has a lease.\<close>

lemma claim_loop_Ok:
  assumes "claim_loop worker_id token lease clock n picked t = Ok (jobs, t')"
    and "tbl_wf t" and "distinct (map fst picked)"
    and "\<forall>(i, row) \<in> set picked. tbl_get t i = Some row \<and> status row = Pending"
  shows "(picked \<noteq> [] \<longrightarrow> 1 \<le> lease) \<and> (\<forall>(i, row) \<in> set picked. attempts row \<le> I32_MAX)"
  using assms
proof (induction picked arbitrary: t n jobs)
  case (Cons p picked)
  obtain i row where p: "p = (i, row)"
    by (cases p)
  have row: "tbl_get t i = Some row" "status row = Pending"
    using Cons.prems(4) by (auto simp: p)
  have "0 < tbl_count (\<lambda>k row. k = i \<and> status row = Pending) t"
    using row Cons.prems(2) by (auto simp: tbl.count_pos_iff)
  then have lease: "1 \<le> lease"
    using Cons.prems(1) by (auto simp: p CLAIM_MARK_def Let_def rbind_def split: if_splits)
  obtain m t1 where mark: "CLAIM_MARK worker_id token lease i (clock n) t = Ok (Suc m, t1)"
    and t1: "tbl_wf t1"
    and get1: "\<forall>k. tbl_get t1 k =
      (if k = i then Some (claimed_row worker_id token lease (clock n) row) else tbl_get t k)"
    using CLAIM_MARK_pending [OF Cons.prems(2) row lease] by blast
  obtain jobs' t2 where "claim_loop worker_id token lease clock (Suc n) picked t1 = Ok (jobs', t')"
    and "attempts row \<le> I32_MAX"
    using Cons.prems(1)
    by (auto simp: p mark rbind_eq_Ok_iff claimed_job_def split: if_splits)
  moreover have "\<forall>(j, r) \<in> set picked. tbl_get t1 j = Some r \<and> status r = Pending"
    using Cons.prems(3,4) get1 by (auto simp: p rev_image_eqI)
  ultimately show ?case
    using Cons.IH [of "Suc n" t1 jobs'] t1 Cons.prems(3) lease by (simp add: p)
qed simp

lemma set_sql_limit: "set (sql_limit n xs) \<subseteq> set xs"
  by (auto simp: sql_limit_def dest: in_set_takeD)

lemma distinct_sort_key_fst:
  "distinct (map fst xs) \<Longrightarrow> distinct (map fst (sort_key f xs))"
  by (metis distinct_map distinct_sort image_set set_map set_sort)

lemma CLAIM_PICK_sound:
  assumes "tbl_wf t"
  shows "distinct (map fst (CLAIM_PICK batch now t))"
    and "(i, row) \<in> set (CLAIM_PICK batch now t) \<Longrightarrow> tbl_get t i = Some row \<and> claimable now (i, row)"
proof -
  have "distinct (map fst (sort_key claim_order (filter (claimable now) t)))"
    using assms by (intro distinct_sort_key_fst distinct_map_fst_filter) (simp add: tbl_wf_def)
  then show "distinct (map fst (CLAIM_PICK batch now t))"
    by (simp add: CLAIM_PICK_def sql_limit_def take_map [symmetric])
  assume "(i, row) \<in> set (CLAIM_PICK batch now t)"
  then have "(i, row) \<in> set (filter (claimable now) t)"
    using set_sql_limit by (fastforce simp: CLAIM_PICK_def)
  then show "tbl_get t i = Some row \<and> claimable now (i, row)"
    using assms by (simp add: tbl_get_def tbl_wf_def)
qed

definition described :: "uuid \<Rightarrow> int \<Rightarrow> uuid \<times> 'a JobRow \<Rightarrow> 'a ClaimedJob" where
  "described token lease = (\<lambda>(i, row).
    \<lparr>job_id = i, job_token = token, job_kind = kind row, job_version = version row,
     job_payload = payload row, job_attempts = attempts row + 1,
     job_max_attempts = max_attempts row, job_lease_seconds = lease\<rparr>)"

lemma claimed_jobs_described:
  assumes "map Ok jobs = map (\<lambda>(i, row). claimed_job token lease i row) picked"
    and "\<And>i row. (i, row) \<in> set picked \<Longrightarrow> 0 \<le> attempts row \<and> attempts row < I32_MAX"
  shows "jobs = map (described token lease) picked"
proof -
  have "claimed_job token lease i row = Ok (described token lease (i, row))" if "(i, row) \<in> set picked" for i row
    using assms(2) [OF that] by (simp add: claimed_job_def described_def wrap_i32_id)
  then have "map (\<lambda>(i, row). claimed_job token lease i row) picked = map Ok (map (described token lease) picked)"
    by auto
  with assms(1) have "map Ok jobs = (map Ok (map (described token lease) picked) :: (DbError, 'a ClaimedJob) result list)"
    by simp
  then show ?thesis
    by (rule map_injective) (simp add: inj_on_def)
qed

text \<open>
  A claim returns the first \<open>batch\<close> jobs that are due, by availability and then identifier,
  each once.  Each returned job is now running under the claim's token with its attempt counted, as
  the returned description says, and no other row of the queue changes.
\<close>
theorem claim_jobs_exact:
  assumes "tbl_wf t" and "1000000000 \<le> d"
    and "\<forall>i row. tbl_get t i = Some row \<longrightarrow> 0 \<le> attempts row \<and> attempts row < I32_MAX"
  shows "\<exists>jobs t'. claim_jobs token clock worker_id d batch t = Ok (jobs, t') \<and>
    map job_id jobs = map fst (sql_limit batch (sort_key claim_order (filter (claimable (clock 0)) t))) \<and>
    distinct (map job_id jobs) \<and>
    (\<forall>job \<in> set jobs. \<exists>row m. tbl_get t (job_id job) = Some row \<and> status row = Pending \<and>
       tbl_get t' (job_id job) =
         Some (claimed_row worker_id token (lease_seconds_of d) (clock m) row) \<and>
       holds t' (job_id job) (job_token job) \<and> job_token job = token \<and>
       job_attempts job = attempts row + 1 \<and> job_max_attempts job = max_attempts row \<and>
       job_payload job = payload row) \<and>
    (\<forall>k. k \<notin> job_id ` set jobs \<longrightarrow> tbl_get t' k = tbl_get t k)"
proof -
  define picked where "picked = CLAIM_PICK batch (clock 0) t"
  define lease where "lease = lease_seconds_of d"
  have lease: "1 \<le> lease"
    using assms(2) by (auto simp: lease_def lease_seconds_of_def I32_MAX_def le_div_geq)
  have pick: "tbl_get t i = Some row \<and> status row = Pending \<and> 0 \<le> attempts row \<and> attempts row < I32_MAX"
    if "(i, row) \<in> set picked" for i row
    using CLAIM_PICK_sound(2) [OF assms(1), of i row batch "clock 0"] that assms(3)
    by (auto simp: picked_def claimable_def)
  then have "\<forall>(i, row) \<in> set picked. tbl_get t i = Some row \<and> status row = Pending \<and> attempts row \<le> I32_MAX"
    by fastforce
  moreover have dist: "distinct (map fst picked)"
    using CLAIM_PICK_sound(1) [OF assms(1)] by (simp add: picked_def)
  ultimately obtain jobs t' where run: "claim_loop worker_id token lease clock 1 picked t = Ok (jobs, t')"
    and jobs: "map Ok jobs = map (\<lambda>(i, row). claimed_job token lease i row) picked"
    and other: "\<forall>k. k \<notin> fst ` set picked \<longrightarrow> tbl_get t' k = tbl_get t k"
    and rows: "\<forall>(i, row) \<in> set picked. \<exists>m. tbl_get t' i = Some (claimed_row worker_id token lease (clock m) row)"
    using claim_loop_effect [OF assms(1) _ lease] by blast
  have eq: "jobs = map (described token lease) picked"
    by (rule claimed_jobs_described [OF jobs]) (use pick in blast)
  have ids: "map job_id jobs = map fst picked"
    unfolding eq by (simp add: described_def case_prod_unfold)
  have held: "holds t' i token" if "(i, row) \<in> set picked" for i row
    using rows that by (auto simp: holds_iff fenced_def claimed_row_def)
  have "\<forall>job \<in> set jobs. \<exists>row m. tbl_get t (job_id job) = Some row \<and> status row = Pending \<and>
       tbl_get t' (job_id job) = Some (claimed_row worker_id token lease (clock m) row) \<and>
       holds t' (job_id job) (job_token job) \<and> job_token job = token \<and>
       job_attempts job = attempts row + 1 \<and> job_max_attempts job = max_attempts row \<and>
       job_payload job = payload row"
    unfolding eq using pick rows held by (fastforce simp: described_def)
  moreover have "\<forall>k. k \<notin> job_id ` set jobs \<longrightarrow> tbl_get t' k = tbl_get t k"
    using other ids by (metis list.set_map)
  ultimately show ?thesis
    using run ids dist by (simp add: claim_jobs_def picked_def CLAIM_PICK_def lease_def)
qed

definition sample_row :: "int \<Rightarrow> int \<Rightarrow> unit JobRow" where
  "sample_row avail maxi =
     \<lparr>kind = ''mail.send'', version = 1, payload = (), status = Pending, attempts = 0,
      max_attempts = maxi, run_at = avail, available_at = avail, locked_at = None, locked_by = None,
      lease_seconds = 300, last_error = None, last_error_kind = None, failed_at = None,
      claim_token = None, created_at = avail, updated_at = avail\<rparr>"

theorem claim_jobs_exact_witness:
  "\<exists>jobs t'. claim_jobs 7 (\<lambda>_. 10) ''w'' 60000000000 1 [(1, sample_row 5 3), (2, sample_row 3 3)] =
     Ok (jobs, t') \<and> map job_id jobs = [2]"
proof -
  define t where "t = [(1 :: uuid, sample_row 5 3), (2, sample_row 3 3)]"
  have "map fst (sql_limit 1 (sort_key claim_order (filter (claimable 10) t))) = [2]"
    by (simp add: t_def sample_row_def sql_limit_def claimable_def claim_order_def)
  moreover have "tbl_wf t" "\<forall>i row. tbl_get t i = Some row \<longrightarrow> 0 \<le> attempts row \<and> attempts row < I32_MAX"
    by (auto simp: t_def tbl_wf_def tbl_get_def sample_row_def I32_MAX_def split: if_splits)
  ultimately show ?thesis
    using claim_jobs_exact [of t 60000000000 7 "\<lambda>_. 10" "''w''" 1] unfolding t_def by force
qed

section \<open>Leases\<close>

lemma sweep_ids_sound:
  assumes "tbl_wf t" and "set (scan t) = set t" and "k \<in> set (sweep_ids scan P batch t)"
  shows "\<exists>row. tbl_get t k = Some row \<and> P row"
proof -
  have "k \<in> fst ` set (filter (\<lambda>(_, row). P row) (scan t))"
    using assms(3) set_sql_limit by (fastforce simp: sweep_ids_def)
  then show ?thesis
    using assms(1,2) by (auto simp: tbl_get_def tbl_wf_def)
qed

text \<open>A sweep leaves every row alone whose lease has not run out.\<close>

lemma sweep_spares_live:
  assumes "tbl_wf t" and "set (scan t) = set t"
    and "tbl_get t i = Some row" and "\<not> lease_expired now row"
  shows "tbl_get (snd (SWEEP_DEAD scan batch now t)) i = Some row"
    and "tbl_get (snd (SWEEP_REQUEUE scan batch now t)) i = Some row"
  using sweep_ids_sound [of t scan i, OF assms(1,2)] assms(3,4)
  by (fastforce simp: SWEEP_DEAD_def SWEEP_REQUEUE_def Let_def tbl.get_modify)+

text \<open>
  With a lease of whole seconds, a validated worker configuration keeps its claims: from the
  moment of the last claim or heartbeat until the next heartbeat is due, and for the whole time a
  handler may run, no sweep takes the row away.
\<close>
theorem validated_worker_keeps_claim:
  assumes "config_validate c = Ok ()" and "worker_lease c = secs n" and "1 \<le> n" and "int n \<le> I32_MAX"
    and "tbl_wf t" and "set (scan t) = set t"
    and "tbl_get t i = Some row" and "locked_at row = Some start"
    and "lease_seconds row = lease_seconds_of (worker_lease c)"
    and "now * 1000000 \<le> start * 1000000 + int (max (effective_heartbeat_interval c) (job_timeout c))"
  shows "tbl_get (snd (SWEEP_DEAD scan batch now t)) i = Some row \<and>
    tbl_get (snd (SWEEP_REQUEUE scan batch now t)) i = Some row"
proof -
  have "lease_seconds row = int n"
    using assms(2,4,9) by (simp add: lease_seconds_of_def secs_def)
  moreover have "max (effective_heartbeat_interval c) (job_timeout c) \<le> n * 1000000000"
    using assms(1,2) by (auto simp: config_validate_Ok_iff secs_def)
  ultimately have "\<not> lease_expired now row"
    using assms(8,10) by (auto simp: lease_expired_def)
  then show ?thesis
    using sweep_spares_live [of t scan i row, OF assms(5-7)] by simp
qed

theorem validated_worker_keeps_claim_witness:
  "tbl_get (snd (SWEEP_REQUEUE id 64 60000
     [(1, claimed_row ''w'' 7 300 0 (sample_row 0 3))])) 1 =
   Some (claimed_row ''w'' 7 300 0 (sample_row 0 3))"
  using validated_worker_keeps_claim [OF worker_config_default_valid, where n = 300 and i = 1 and
      t = "[(1, claimed_row ''w'' 7 300 0 (sample_row 0 3))]" and scan = id and start = 0 and
      row = "claimed_row ''w'' 7 300 0 (sample_row 0 3)" and now = 60000 and batch = 64]
  by (simp add: worker_config_default_def I32_MAX_def tbl_wf_def tbl_get_def claimed_row_def
      lease_seconds_of_def secs_def effective_heartbeat_interval_def millis_def)

text \<open>
  The configuration is validated with the lease's nanoseconds, the row stores only its whole
  seconds.  With a lease and a timeout of 1.9 seconds and a heartbeat every 1.8 seconds, which pass
  validation, a sweep 1.5 seconds after the claim puts the job back although its handler is within its
  time and its first heartbeat is not yet due, and the next claim hands it out a second time.
\<close>
theorem fractional_lease_redelivers:
  "let c = set_heartbeat_interval (set_job_timeout (set_lease worker_config_default (millis 1900))
             (millis 1900)) (millis 1800);
       row = claimed_row ''w'' 7 (lease_seconds_of (worker_lease c)) 0 (sample_row 0 3);
       t' = snd (SWEEP_REQUEUE id (sweep_batch c) 1500 [(1, row)])
   in config_validate c = Ok () \<and> effective_heartbeat_interval c = millis 1800 \<and>
      (\<exists>job t''. claim_jobs 8 (\<lambda>_. 1500) ''v'' (worker_lease c) (poll_batch c) t' = Ok ([job], t'') \<and>
         job_id job = 1 \<and> job_attempts job = 2)"
  by (simp add: Let_def set_heartbeat_interval_def set_job_timeout_def set_lease_def
      worker_config_default_def millis_def secs_def config_validate_def effective_heartbeat_interval_def
      SWEEP_REQUEUE_def sweep_ids_def sql_limit_def lease_expired_def claimed_row_def sample_row_def
      lease_seconds_of_def I32_MAX_def tbl_modify_def tbl_count_def released_row_def claim_jobs_def
      CLAIM_PICK_def claimable_def claim_order_def CLAIM_MARK_def claimed_job_def wrap_i32_def rbind_def)

end
