(* ===== verification/Jobs_Worker.thy ===== *)
theory Jobs_Worker
  imports Jobs_Queue
begin

text \<open>
  The worker of the job queue: \<^verbatim>\<open>src/jobs/registry.rs\<close>, \<^verbatim>\<open>worker.rs\<close> and the events of \<^verbatim>\<open>observe.rs\<close>.

  A registered handler maps a payload to what its task returns, \<open>None\<close> when it panics.  What the
  \<^verbatim>\<open>select!\<close> of \<^verbatim>\<open>dispatch_one\<close> wakes up for is a list of wakes: the handler's task is done, the deadline
  passed, or a heartbeat is due (with the database's clock at its statement).  The clocks read at
  the end are arguments.  An identifier is printed by the argument \<open>show_uuid\<close>.
\<close>

section \<open>Registry\<close>

datatype HandlerError = Malformed | Job JobError

type_synonym 'v handler = "'v \<Rightarrow> (HandlerError, unit) result option"

text \<open>A typed handler: the payload is decoded first; the user's function may panic (\<open>None\<close>).\<close>

definition typed_handle :: "('v \<Rightarrow> 'j option) \<Rightarrow> ('j \<Rightarrow> (JobError, unit) result option) \<Rightarrow> 'v handler" where
  "typed_handle from_value f value =
     (case from_value value of
        None \<Rightarrow> Some (Err Malformed)
      | Some job \<Rightarrow> map_option (map_err Job) (f job))"

type_synonym 'v registry = "(string \<times> int, 'v handler) table"

datatype RegisterError =
    AlreadyRegistered string int
  | RegisterInvalidKind string
  | RegisterInvalidVersion int

definition registry_new :: "'v registry" where
  "registry_new = tbl_empty"

definition registry_add :: "'v registry \<Rightarrow> JobModel \<Rightarrow> 'v handler \<Rightarrow> (RegisterError, 'v registry) result" where
  "registry_add self model h =
     rbind (map_err RegisterInvalidKind (validate_kind (model_kind model))) (\<lambda>_.
     rbind (map_err (\<lambda>_. RegisterInvalidVersion (model_version model))
              (validate_version (model_version model))) (\<lambda>_.
     let key = (model_kind model, model_version model)
     in if tbl_get self key \<noteq> None then Err (AlreadyRegistered (model_kind model) (model_version model))
        else Ok (tbl_put key h self)))"

definition registry_get :: "'v registry \<Rightarrow> string \<Rightarrow> int \<Rightarrow> 'v handler option" where
  "registry_get self k ver = tbl_get self (k, ver)"

definition registry_handles :: "'v registry \<Rightarrow> string \<Rightarrow> int \<Rightarrow> bool" where
  "registry_handles self k ver = (tbl_get self (k, ver) \<noteq> None)"

section \<open>Events\<close>

datatype FailReason = FPermanent | FExhausted | FMalformed | FUnknown | FPanic | FTimeout

fun show_fail_reason :: "FailReason \<Rightarrow> string" where
  "show_fail_reason FPermanent = ''permanent''"
| "show_fail_reason FExhausted = ''exhausted''"
| "show_fail_reason FMalformed = ''malformed''"
| "show_fail_reason FUnknown = ''unknown''"
| "show_fail_reason FPanic = ''panic''"
| "show_fail_reason FTimeout = ''timeout''"

datatype Event =
    Started uuid string int int
  | EvSucceeded uuid int nat
  | EvRetried uuid int nat string int
  | EvFailed uuid int nat string FailReason

fun reason_of :: "ErrorKind \<Rightarrow> FailReason" where
  "reason_of KPermanent = FPermanent"
| "reason_of KExhausted = FExhausted"
| "reason_of KMalformed = FMalformed"
| "reason_of KUnknown = FUnknown"
| "reason_of KPanic = FPanic"
| "reason_of KTimeout = FTimeout"

definition emit :: "bool \<Rightarrow> Event \<Rightarrow> Event list" where
  "emit observed event = (if observed then [event] else [])"

section \<open>Dispatch\<close>

definition PANIC_MESSAGE :: string where
  "PANIC_MESSAGE = ''handler panicked''"

text \<open>The kind is printed with quotes; a kind that passed validation has nothing to escape.\<close>

definition no_handler_message :: "string \<Rightarrow> int \<Rightarrow> string" where
  "no_handler_message k ver =
     ''no handler registered for kind '' @ [CHR 0x22] @ k @ [CHR 0x22] @ '' version '' @ show_int ver"

definition fail_job :: "bool \<Rightarrow> 'v ClaimedJob \<Rightarrow> ErrorKind \<Rightarrow> string \<Rightarrow> int \<Rightarrow> nat \<Rightarrow> 'v jobs \<Rightarrow>
    Event list \<times> 'v jobs" where
  "fail_job observed job error_kind message now duration t =
     (let (transition, t') = mark_dead (job_id job) (job_token job) error_kind message now t
      in (if transition = Updated then
            emit observed (EvFailed (job_id job) (job_attempts job) duration message (reason_of error_kind))
          else [], t'))"

datatype Wake = HandlerReady | DeadlineReached | HeartbeatDue int

datatype Joined = Broke DispatchOutcome | Panicked

fun joined :: "(HandlerError, unit) result option \<Rightarrow> Joined" where
  "joined (Some (Ok _)) = Broke DSucceeded"
| "joined (Some (Err Malformed)) = Broke DMalformed"
| "joined (Some (Err (Job e))) = Broke (DHandlerError e)"
| "joined None = Panicked"

text \<open>\<open>None\<close> as long as neither the handler is done nor the deadline reached.\<close>

fun select_loop :: "nat \<Rightarrow> 'v ClaimedJob \<Rightarrow> 'v handler \<Rightarrow> Wake list \<Rightarrow> 'v jobs \<Rightarrow> Joined option \<times> 'v jobs" where
  "select_loop lease job h [] t = (None, t)"
| "select_loop lease job h (HandlerReady # _) t = (Some (joined (h (job_payload job))), t)"
| "select_loop lease job h (DeadlineReached # _) t = (Some (Broke DTimeout), t)"
| "select_loop lease job h (HeartbeatDue now # wakes) t =
     select_loop lease job h wakes
       (case heartbeat (job_id job) (job_token job) lease now t of Err _ \<Rightarrow> t | Ok (_, t') \<Rightarrow> t')"

definition retry_message :: "(uuid \<Rightarrow> string) \<Rightarrow> nat \<Rightarrow> 'v ClaimedJob \<Rightarrow> DispatchOutcome \<Rightarrow> string" where
  "retry_message show_uuid timeout job dispatch =
     (case dispatch of
        DHandlerError err \<Rightarrow> stored_message err
      | DTimeout \<Rightarrow> ''job '' @ show_uuid (job_id job) @ '' exceeded its '' @
          show_nat (timeout div 1000000000) @ ''s timeout''
      | _ \<Rightarrow> [])"

fun persist :: "(uuid \<Rightarrow> string) \<Rightarrow> nat \<Rightarrow> bool \<Rightarrow> 'v ClaimedJob \<Rightarrow> DispatchOutcome \<Rightarrow> Outcome \<Rightarrow> int \<Rightarrow> nat \<Rightarrow>
    'v jobs \<Rightarrow> Event list \<times> 'v jobs" where
  "persist show_uuid timeout observed job dispatch OSucceeded now duration t =
     (let (transition, t') = mark_succeeded (job_id job) (job_token job) now t
      in (if transition = Updated then emit observed (EvSucceeded (job_id job) (job_attempts job) duration)
          else [], t'))"
| "persist show_uuid timeout observed job dispatch (ORetry ts) now duration t =
     (let message = retry_message show_uuid timeout job dispatch;
          (transition, t') = mark_retry (job_id job) (job_token job) ts message now t
      in (if transition = Updated then
            emit observed (EvRetried (job_id job) (job_attempts job) duration message ts)
          else [], t'))"
| "persist show_uuid timeout observed job dispatch (ODead error_kind message) now duration t =
     fail_job observed job error_kind message now duration t"

definition state_of :: "'v ClaimedJob \<Rightarrow> JobState" where
  "state_of job = \<lparr>state_attempts = job_attempts job, state_max_attempts = job_max_attempts job\<rparr>"

datatype 'v DispatchEnd =
    StillRunning "Event list" "'v jobs"
  | DecidePanicked "Event list" "'v jobs"
  | Finished "Event list" "'v jobs"

definition dispatch_one :: "(uuid \<Rightarrow> string) \<Rightarrow> (f64 \<Rightarrow> nat \<Rightarrow> f64) \<Rightarrow> nat \<Rightarrow> chrono \<Rightarrow> 'v registry \<Rightarrow>
    RetryPolicy \<Rightarrow> WorkerConfig \<Rightarrow> bool \<Rightarrow> 'v ClaimedJob \<Rightarrow> Wake list \<Rightarrow> int \<Rightarrow> int \<Rightarrow> nat \<Rightarrow> 'v jobs \<Rightarrow>
    'v DispatchEnd" where
  "dispatch_one show_uuid pw rand chrono registry retry config observed job wakes utc_now now duration t =
     (case registry_get registry (job_kind job) (job_version job) of
        None \<Rightarrow>
          (case fail_job observed job KUnknown (no_handler_message (job_kind job) (job_version job))
                  now duration t of
             (events, t') \<Rightarrow> Finished events t')
      | Some h \<Rightarrow>
          (let started = emit observed (Started (job_id job) (job_kind job) (job_version job) (job_attempts job))
           in case select_loop (worker_lease config) job h wakes t of
                (None, t') \<Rightarrow> StillRunning started t'
              | (Some Panicked, t') \<Rightarrow>
                  (case fail_job observed job KPanic PANIC_MESSAGE now duration t' of
                     (events, t'') \<Rightarrow> Finished (started @ events) t'')
              | (Some (Broke dispatch), t') \<Rightarrow>
                  (case decide pw rand chrono (state_of job) dispatch retry utc_now of
                     None \<Rightarrow> DecidePanicked started t'
                   | Some outcome \<Rightarrow>
                       (case persist show_uuid (job_timeout config) observed job dispatch outcome
                               now duration t' of
                          (events, t'') \<Rightarrow> Finished (started @ events) t''))))"

section \<open>The run loop\<close>

record Worker =
  worker_config :: WorkerConfig
  worker_retry :: RetryPolicy
  worker_id :: string

definition set_worker_id :: "Worker \<Rightarrow> string \<Rightarrow> Worker" where
  "set_worker_id self i =
     (if i \<noteq> [] \<and> length i \<le> 128 \<and> list_all graphic i then self\<lparr>worker_id := i\<rparr> else self)"

datatype WorkerError =
    InvalidConfig WorkerConfigError
  | InvalidRetryPolicy RetryPolicyError
  | WorkerDatabase DbError

definition run_start :: "Worker \<Rightarrow> (WorkerError, unit) result" where
  "run_start self =
     rbind (map_err InvalidConfig (config_validate (worker_config self))) (\<lambda>_.
     map_err InvalidRetryPolicy (retry_validate (worker_retry self)))"

text \<open>One turn of the loop: the sweep when it is due, the claim, and for each claimed job either a
  spawned task or, when the shutdown comes before its permit, the release of its row.  \<open>instant\<close> is
  the monotonic clock; \<open>granted n\<close> says whether the n-th job of the batch gets its permit.\<close>

definition sweep_if_due :: "('v jobs \<Rightarrow> 'v jobs) \<Rightarrow> Worker \<Rightarrow> nat \<Rightarrow> nat \<Rightarrow> int \<Rightarrow> int \<Rightarrow> 'v jobs \<Rightarrow>
    nat \<times> 'v jobs" where
  "sweep_if_due scan self instant next_sweep now now' t =
     (if instant \<ge> next_sweep then
        (instant + sweep_interval (worker_config self),
         snd (sweep_expired_leases scan (sweep_batch (worker_config self)) now now' t))
      else (next_sweep, t))"

fun assign :: "(nat \<Rightarrow> bool) \<Rightarrow> (nat \<Rightarrow> int) \<Rightarrow> nat \<Rightarrow> 'v ClaimedJob list \<Rightarrow> 'v jobs \<Rightarrow>
    'v ClaimedJob list \<times> 'v jobs" where
  "assign granted clock n [] t = ([], t)"
| "assign granted clock n (job # jobs) t =
     (if granted n then
        (case assign granted clock (Suc n) jobs t of (spawned, t') \<Rightarrow> (job # spawned, t'))
      else assign granted clock (Suc n) jobs (release_claim (job_id job) (job_token job) (clock n) t))"

definition turn :: "('v jobs \<Rightarrow> 'v jobs) \<Rightarrow> (nat \<Rightarrow> bool) \<Rightarrow> Worker \<Rightarrow> uuid \<Rightarrow> nat \<Rightarrow> nat \<Rightarrow> int \<Rightarrow> int \<Rightarrow>
    (nat \<Rightarrow> int) \<Rightarrow> (nat \<Rightarrow> int) \<Rightarrow> 'v jobs \<Rightarrow> (WorkerError, nat \<times> 'v ClaimedJob list \<times> 'v jobs) result" where
  "turn scan granted self token instant next_sweep now now' clock clock' t =
     (case sweep_if_due scan self instant next_sweep now now' t of
        (next_sweep', t') \<Rightarrow>
          rbind (map_err WorkerDatabase
                   (claim_jobs token clock (worker_id self) (worker_lease (worker_config self))
                      (poll_batch (worker_config self)) t'))
            (\<lambda>(claimed, t''). Ok (next_sweep', assign granted clock' 0 claimed t'')))"

section \<open>What becomes of a dispatched job\<close>

text \<open>The contract, from the job's attempts and what its task came to.\<close>

definition due_again :: "'v ClaimedJob \<Rightarrow> JobStatus" where
  "due_again job = (if job_attempts job < job_max_attempts job then Pending else Dead)"

fun settled_status :: "'v ClaimedJob \<Rightarrow> Joined \<Rightarrow> JobStatus" where
  "settled_status job Panicked = Dead"
| "settled_status job (Broke DSucceeded) = Succeeded"
| "settled_status job (Broke DMalformed) = Dead"
| "settled_status job (Broke DTimeout) = due_again job"
| "settled_status job (Broke (DHandlerError (Permanent _))) = Dead"
| "settled_status job (Broke (DHandlerError (Retryable _))) = due_again job"

text \<open>The table after \<open>i\<close> left \<open>t\<close> for good under its token: settled with the given status, no other row
  touched.\<close>

definition settles :: "uuid \<Rightarrow> uuid \<Rightarrow> JobStatus \<Rightarrow> 'v jobs \<Rightarrow> 'v jobs \<Rightarrow> bool" where
  "settles i token st t t' =
     ((\<exists>row. tbl_get t' i = Some row \<and> status row = st \<and> claim_token row = None \<and> locked_at row = None) \<and>
      \<not> holds t' i token)"

lemma fenced_modify_get:
  assumes "holds t i token"
  shows "\<exists>row. tbl_get t i = Some row \<and> fenced i token i row \<and>
    tbl_get (tbl_modify (fenced i token) f t) = (tbl_get t)(i \<mapsto> f row)"
proof -
  obtain row where row: "tbl_get t i = Some row" "fenced i token i row"
    using assms by (auto simp: holds_iff)
  then have "tbl_get (tbl_modify (fenced i token) f t) k = ((tbl_get t)(i \<mapsto> f row)) k" for k
    by (cases "tbl_get t k") (auto simp: tbl.get_modify fenced_def)
  with row show ?thesis by blast
qed

lemma fenced_modify_settles:
  assumes "holds t i token"
    and "\<And>row. status (f row) = st \<and> claim_token (f row) = None \<and> locked_at (f row) = None"
  shows "settles i token st t (tbl_modify (fenced i token) f t)"
  using fenced_modify_get [OF assms(1), of f] assms(2)
  by (auto simp: settles_def holds_iff fenced_def)

lemma fenced_modify_other:
  "k \<noteq> i \<Longrightarrow> tbl_get (tbl_modify (fenced i token) f t) k = tbl_get t k"
  by (rule tbl.modify_other) (simp add: fenced_def)

lemma fail_job_settles:
  "holds t (job_id job) (job_token job) \<Longrightarrow> fail_job observed job error_kind message now duration t = (events, t') \<Longrightarrow>
    settles (job_id job) (job_token job) Dead t t' \<and>
    (\<forall>k. k \<noteq> job_id job \<longrightarrow> tbl_get t' k = tbl_get t k)"
  by (auto simp: fail_job_def mark_dead_def intro!: fenced_modify_settles fenced_modify_other)

lemma persist_settles:
  assumes "holds t (job_id job) (job_token job)"
    and "persist show_uuid timeout observed job dispatch outcome now duration t = (events, t')"
  shows "settles (job_id job) (job_token job)
      (case outcome of OSucceeded \<Rightarrow> Succeeded | ORetry _ \<Rightarrow> Pending | ODead _ _ \<Rightarrow> Dead) t t' \<and>
    (\<forall>k. k \<noteq> job_id job \<longrightarrow> tbl_get t' k = tbl_get t k)"
  using assms fail_job_settles [OF assms(1)]
  by (cases outcome)
    (auto simp: mark_succeeded_def mark_retry_def Let_def intro!: fenced_modify_settles fenced_modify_other)

lemma heartbeat_keeps_claim:
  assumes "holds t i token" and "heartbeat i token lease now t = Ok (alive, t')"
  shows "holds t' i token" and "k \<noteq> i \<Longrightarrow> tbl_get t' k = tbl_get t k"
  using assms fenced_modify_get [OF assms(1)]
  by (fastforce simp: heartbeat_def Let_def holds_iff fenced_def fenced_modify_other split: if_splits)+

lemma select_loop_heartbeats:
  assumes "holds t (job_id job) (job_token job)"
  shows "\<exists>t'. select_loop lease job h (map HeartbeatDue ticks @ wakes) t = select_loop lease job h wakes t' \<and>
    holds t' (job_id job) (job_token job) \<and>
    (\<forall>k. k \<noteq> job_id job \<longrightarrow> tbl_get t' k = tbl_get t k)"
  using assms
proof (induction ticks arbitrary: t)
  case (Cons now ticks)
  define t1 where "t1 = (case heartbeat (job_id job) (job_token job) lease now t of Err _ \<Rightarrow> t | Ok (_, t') \<Rightarrow> t')"
  have "holds t1 (job_id job) (job_token job)" "\<forall>k. k \<noteq> job_id job \<longrightarrow> tbl_get t1 k = tbl_get t k"
    using heartbeat_keeps_claim [OF Cons.prems] Cons.prems
    by (auto simp: t1_def split: sum.splits)
  then show ?case
    using Cons.IH [of t1] by (fastforce simp: t1_def [symmetric])
qed auto

lemma decide_follows_contract:
  assumes "0 < job_attempts job" and "job_attempts job \<le> I32_MAX"
    and "retry_cap retry < 2 ^ 22 * 1000000000"
    and "\<forall>d \<le> retry_cap retry. after_std chrono utc_now d \<noteq> None"
  shows "\<exists>outcome. decide pw rand chrono (state_of job) dispatch retry utc_now = Some outcome \<and>
    (case outcome of OSucceeded \<Rightarrow> Succeeded | ORetry _ \<Rightarrow> Pending | ODead _ _ \<Rightarrow> Dead) =
      settled_status job (Broke dispatch)"
proof -
  define n where "n = nat (job_attempts job mod 2 ^ 32)"
  have "0 < n"
    using assms(1,2) by (simp add: n_def I32_MAX_def)
  then obtain d where "d \<le> retry_cap retry" "delay_for pw rand retry n = Some d"
    using delay_le_cap [OF assms(3)] by blast
  then obtain ts where "retry_at pw rand chrono retry utc_now (job_attempts job) = Some ts"
    using assms(4) by (auto simp: retry_at_def n_def)
  then show ?thesis
  proof (cases dispatch)
    case (DHandlerError err)
    with \<open>retry_at _ _ _ _ _ _ = Some ts\<close> show ?thesis
      by (cases err) (simp_all add: state_of_def due_again_def Let_def)
  qed (simp_all add: state_of_def due_again_def)
qed

text \<open>What the contract gives for a job: dead without a handler, else by what the select ends with.\<close>

definition dispatched_status :: "'v registry \<Rightarrow> 'v ClaimedJob \<Rightarrow> Wake \<Rightarrow> JobStatus" where
  "dispatched_status registry job w =
     (case registry_get registry (job_kind job) (job_version job) of
        None \<Rightarrow> Dead
      | Some h \<Rightarrow> settled_status job (if w = DeadlineReached then Broke DTimeout else joined (h (job_payload job))))"

text \<open>
  C24.  A worker that holds a claim settles the job: after any number of heartbeats, when the handler is done
  or the deadline passes, the row is succeeded, dead or due again exactly as the contract says (a missing
  handler, a panic of the handler, a malformed payload or a permanent error kills the job, a timeout or a
  retryable error only at the last attempt), its token is gone, and no other row changes.  The worker
  itself does not panic, provided that the cap of the retry policy is below \<open>2 ^ 22\<close> seconds and the time of
  the retry is one the time library can hold: a policy may have a larger cap, with which it can.
\<close>
theorem dispatch_settles:
  assumes "holds t (job_id job) (job_token job)"
    and "0 < job_attempts job" and "job_attempts job \<le> I32_MAX"
    and "retry_cap retry < 2 ^ 22 * 1000000000"
    and "\<forall>d \<le> retry_cap retry. after_std chrono utc_now d \<noteq> None"
    and "w \<in> {HandlerReady, DeadlineReached}"
  shows "\<exists>events t'. dispatch_one show_uuid pw rand chrono registry retry config observed job
      (map HeartbeatDue ticks @ w # rest) utc_now now duration t = Finished events t' \<and>
    (\<exists>row. tbl_get t' (job_id job) = Some row \<and> status row = dispatched_status registry job w \<and>
       claim_token row = None \<and> locked_at row = None) \<and>
    \<not> holds t' (job_id job) (job_token job) \<and>
    (\<forall>k. k \<noteq> job_id job \<longrightarrow> tbl_get t' k = tbl_get t k)"
proof (cases "registry_get registry (job_kind job) (job_version job)")
  case None
  obtain events t2 where "fail_job observed job KUnknown (no_handler_message (job_kind job) (job_version job)) now duration t = (events, t2)"
    by fastforce
  then show ?thesis
    using fail_job_settles [OF assms(1)] None by (auto simp: dispatch_one_def dispatched_status_def settles_def)
next
  case (Some h)
  define final where "final = (if w = DeadlineReached then Broke DTimeout else joined (h (job_payload job)))"
  have status: "dispatched_status registry job w = settled_status job final"
    by (simp add: dispatched_status_def Some final_def)
  obtain t1 where "select_loop (worker_lease config) job h (map HeartbeatDue ticks @ w # rest) t =
      select_loop (worker_lease config) job h (w # rest) t1"
    and held: "holds t1 (job_id job) (job_token job)"
    and same: "\<forall>k. k \<noteq> job_id job \<longrightarrow> tbl_get t1 k = tbl_get t k"
    using select_loop_heartbeats [OF assms(1)] by blast
  then have loop: "select_loop (worker_lease config) job h (map HeartbeatDue ticks @ w # rest) t = (Some final, t1)"
    using assms(6) by (auto simp: final_def)
  show ?thesis
  proof (cases final)
    case Panicked
    obtain events t2 where "fail_job observed job KPanic PANIC_MESSAGE now duration t1 = (events, t2)"
      by fastforce
    then show ?thesis
      using fail_job_settles [OF held] loop Some Panicked same unfolding status
      by (auto simp: dispatch_one_def Let_def settles_def)
  next
    case (Broke dispatch)
    obtain outcome where outcome: "decide pw rand chrono (state_of job) dispatch retry utc_now = Some outcome"
      "(case outcome of OSucceeded \<Rightarrow> Succeeded | ORetry _ \<Rightarrow> Pending | ODead _ _ \<Rightarrow> Dead) =
        settled_status job final"
      using decide_follows_contract [OF assms(2-5)] Broke by metis
    obtain events t2 where "persist show_uuid (job_timeout config) observed job dispatch outcome now duration t1 =
        (events, t2)"
      by fastforce
    with persist_settles [OF held this] outcome loop Some Broke same show ?thesis
      unfolding status by (auto simp: dispatch_one_def Let_def settles_def)
  qed
qed

definition sample_job :: "int \<Rightarrow> unit ClaimedJob" where
  "sample_job n =
     \<lparr>job_id = 1, job_token = 7, job_kind = ''mail.send'', job_version = 1, job_payload = (),
      job_attempts = n, job_max_attempts = 3, job_lease_seconds = 300\<rparr>"

definition sample_chrono :: chrono where
  "sample_chrono = \<lparr>delta_max = 10 ^ 30, utc_min = - (10 ^ 30), utc_max = 10 ^ 30\<rparr>"

theorem dispatch_settles_witness:
  "\<exists>events t' row. dispatch_one (\<lambda>_. []) (\<lambda>_ _. Finite 1) 0 sample_chrono
      [((''mail.send'', 1), \<lambda>_. Some (Err (Job (Retryable ''down''))))] retry_default
      worker_config_default True (sample_job 1) [HeartbeatDue 100000, HandlerReady] 0 150000 0
      [(1, claimed_row ''w'' 7 300 0 (sample_row 0 3))] = Finished events t' \<and>
    tbl_get t' 1 = Some row \<and> status row = Pending"
proof -
  define t where "t = [(1 :: uuid, claimed_row ''w'' 7 300 0 (sample_row 0 3))]"
  have 1: "holds t (job_id (sample_job 1)) (job_token (sample_job 1))"
    by (simp add: t_def holds_def tbl_get_def sample_job_def fenced_def claimed_row_def)
  have 2: "retry_cap retry_default < 2 ^ 22 * 1000000000"
    by (simp add: retry_default_def exponential_def)
  have 3: "\<forall>d \<le> retry_cap retry_default. after_std sample_chrono 0 d \<noteq> None"
    by (auto simp: after_std_def sample_chrono_def delta_from_std_def checked_add_signed_def
        retry_default_def exponential_def)
  show ?thesis
    using dispatch_settles [OF 1 _ _ 2 3, where
        registry = "[((''mail.send'', 1), \<lambda>_. Some (Err (Job (Retryable ''down''))))]" and
        w = HandlerReady and ticks = "[100000]" and rest = "[]"]
    by (fastforce simp: t_def sample_job_def registry_get_def tbl_get_def I32_MAX_def due_again_def dispatched_status_def)
qed

end
