(* ===== verification/Jobs_System.thy ===== *)
theory Jobs_System
  imports Jobs_Worker
begin

text \<open>
  The queue with any number of workers, an administrator and a clock nobody controls: a step relation
  whose steps are the single statements and transactions of the model, in any order.  The state is the
  table and, as a ghost, every claim handed out so far.  A claim's token is a random UUID; that it was
  never drawn before is the premise of the claim step.

  Shown by rule induction: the invariant of the rows, that a claim once lost stays lost (fencing), that
  each claim is completed at most once, and that without shutdown releases no job starts more often
  than it may.
\<close>

record 'v queue =
  jobs :: "'v jobs"
  claims :: "'v ClaimedJob set"

datatype label = Enqueue | Claim | Heartbeat | Complete | Release | Sweep | Admin

definition tokens_of :: "'v queue \<Rightarrow> uuid set" where
  "tokens_of q = job_token ` claims q"

inductive step :: "label \<Rightarrow> 'v queue \<Rightarrow> 'v queue \<Rightarrow> bool" where
  enqueue: "insert_job i utc_now now request (jobs q) = Ok (e, t') \<Longrightarrow> step Enqueue q (q\<lparr>jobs := t'\<rparr>)"
| claim: "claim_jobs token clock worker d batch (jobs q) = Ok (claimed, t') \<Longrightarrow> token \<notin> tokens_of q \<Longrightarrow>
    step Claim q (q\<lparr>jobs := t', claims := claims q \<union> set claimed\<rparr>)"
| heartbeat: "job \<in> claims q \<Longrightarrow> heartbeat (job_id job) (job_token job) d now (jobs q) = Ok (alive, t') \<Longrightarrow>
    step Heartbeat q (q\<lparr>jobs := t'\<rparr>)"
| complete: "job \<in> claims q \<Longrightarrow> decide pw rand chrono (state_of job) dispatch policy utc_now = Some outcome \<Longrightarrow>
    persist show_uuid timeout observed job dispatch outcome now duration (jobs q) = (events, t') \<Longrightarrow>
    step Complete q (q\<lparr>jobs := t'\<rparr>)"
| poison: "job \<in> claims q \<Longrightarrow> fail_job observed job error_kind message now duration (jobs q) = (events, t') \<Longrightarrow>
    step Complete q (q\<lparr>jobs := t'\<rparr>)"
| release: "job \<in> claims q \<Longrightarrow>
    step Release q (q\<lparr>jobs := release_claim (job_id job) (job_token job) now (jobs q)\<rparr>)"
| sweep_dead: "set (scan (jobs q)) = set (jobs q) \<Longrightarrow>
    step Sweep q (q\<lparr>jobs := snd (SWEEP_DEAD scan batch now (jobs q))\<rparr>)"
| sweep_requeue: "set (scan (jobs q)) = set (jobs q) \<Longrightarrow>
    step Sweep q (q\<lparr>jobs := snd (SWEEP_REQUEUE scan batch now (jobs q))\<rparr>)"
| cancel: "step Admin q (q\<lparr>jobs := snd (cancel i now (jobs q))\<rparr>)"
| requeue: "step Admin q (q\<lparr>jobs := snd (requeue_dead i now (jobs q))\<rparr>)"

inductive run :: "label set \<Rightarrow> 'v queue \<Rightarrow> 'v queue \<Rightarrow> bool" for L where
  none: "run L q q"
| more: "run L q q' \<Longrightarrow> l \<in> L \<Longrightarrow> step l q' q'' \<Longrightarrow> run L q q''"

definition start :: "'v queue" where
  "start = \<lparr>jobs = tbl_empty, claims = {}\<rparr>"

section \<open>How a step changes one row\<close>

text \<open>
  Every step changes a row in one of few ways.  \<open>row_step q l i r r'\<close>: in a step labelled \<open>l\<close> from
  \<open>q\<close> the row of \<open>i\<close> goes from \<open>r\<close> to \<open>r'\<close>.  The invariants below are checked against these cases
  only, so the statements are unfolded once.
\<close>

definition unlocked :: "'v JobRow \<Rightarrow> bool" where
  "unlocked row = (claim_token row = None \<and> locked_at row = None \<and> locked_by row = None)"

definition same_job :: "'v JobRow \<Rightarrow> 'v JobRow \<Rightarrow> bool" where
  "same_job r r' = (max_attempts r' = max_attempts r \<and> version r' = version r)"

inductive row_step :: "'v queue \<Rightarrow> label \<Rightarrow> uuid \<Rightarrow> 'v JobRow \<Rightarrow> 'v JobRow \<Rightarrow> bool" for q l i where
  keep: "row_step q l i r r"
| claimed: "l = Claim \<Longrightarrow> status r = Pending \<Longrightarrow> token \<notin> tokens_of q \<Longrightarrow> 1 \<le> lease \<Longrightarrow>
    row_step q l i r (claimed_row worker token lease now r)"
| refreshed: "status r = Running \<Longrightarrow> 1 \<le> lease \<Longrightarrow>
    row_step q l i r (r\<lparr>locked_at := Some now, lease_seconds := lease, updated_at := now\<rparr>)"
| closed: "unlocked r' \<Longrightarrow> status r' \<in> {Succeeded, Dead, Cancelled} \<Longrightarrow> attempts r' = attempts r \<Longrightarrow>
    lease_seconds r' = lease_seconds r \<Longrightarrow> same_job r r' \<Longrightarrow> row_step q l i r r'"
| again: "unlocked r' \<Longrightarrow> status r' = Pending \<Longrightarrow> attempts r' = attempts r \<Longrightarrow>
    lease_seconds r' = lease_seconds r \<Longrightarrow> same_job r r' \<Longrightarrow> status r = Running \<Longrightarrow>
    l = Release \<or> attempts r < max_attempts r \<or>
      (\<exists>job \<in> claims q. job_id job = i \<and> claim_token r = Some (job_token job) \<and>
         job_attempts job < job_max_attempts job) \<Longrightarrow>
    row_step q l i r r'"
| revived: "unlocked r' \<Longrightarrow> status r' = Pending \<Longrightarrow> attempts r' = 0 \<Longrightarrow>
    lease_seconds r' = lease_seconds r \<Longrightarrow> same_job r r' \<Longrightarrow> row_step q l i r r'"

text \<open>A table changes row by row, and gains rows only by enqueueing.\<close>

definition rowwise :: "'v queue \<Rightarrow> label \<Rightarrow> 'v jobs \<Rightarrow> bool" where
  "rowwise q l t' =
     (tbl_wf t' \<and>
      (\<forall>i. case (tbl_get (jobs q) i, tbl_get t' i) of
         (None, None) \<Rightarrow> True
       | (Some r, Some r') \<Rightarrow> row_step q l i r r'
       | (None, Some r') \<Rightarrow>
           l = Enqueue \<and> unlocked r' \<and> status r' = Pending \<and> attempts r' = 0 \<and> row_check r' \<and>
           max_attempts r' \<le> I32_MAX
       | (Some r, None) \<Rightarrow> False))"

lemma rowwise_modify:
  assumes "tbl_wf (jobs q)"
    and "\<And>i r. tbl_get (jobs q) i = Some r \<Longrightarrow> P i r \<Longrightarrow> row_step q l i r (f r)"
  shows "rowwise q l (tbl_modify P f (jobs q))"
  using assms by (auto simp: rowwise_def tbl.get_modify row_step.keep split: option.splits)

lemma rowwise_same: "tbl_wf (jobs q) \<Longrightarrow> rowwise q l (jobs q)"
  by (auto simp: rowwise_def row_step.keep split: option.splits)

lemma decide_retry_below_max:
  "decide pw rand chrono state dispatch policy now = Some (ORetry ts) \<Longrightarrow>
    state_attempts state < state_max_attempts state"
  by (cases dispatch) (auto simp: Let_def split: if_splits)

lemmas row_shape = unlocked_def same_job_def fenced_def

lemma rowwise_fail_job:
  assumes "tbl_wf (jobs q)" and "fail_job observed job error_kind message now duration (jobs q) = (events, t')"
  shows "rowwise q l t'"
  using assms(2)
  by (auto simp: fail_job_def mark_dead_def intro!: rowwise_modify [OF assms(1)] row_step.closed simp: row_shape)

lemma rowwise_persist:
  assumes "tbl_wf (jobs q)" and "job \<in> claims q"
    and "decide pw rand chrono (state_of job) dispatch policy utc_now = Some outcome"
    and "persist show_uuid timeout observed job dispatch outcome now duration (jobs q) = (events, t')"
  shows "rowwise q l t'"
proof (cases outcome)
  case OSucceeded
  with assms(4) show ?thesis
    by (auto simp: mark_succeeded_def row_shape intro!: rowwise_modify [OF assms(1)] row_step.closed)
next
  case (ORetry ts)
  have "job_attempts job < job_max_attempts job"
    using decide_retry_below_max assms(3) by (fastforce simp: ORetry state_of_def)
  with assms(2,4) show ?thesis
    by (auto simp: ORetry mark_retry_def row_shape Let_def intro!: rowwise_modify [OF assms(1)] row_step.again)
next
  case (ODead error_kind message)
  with assms(4) show ?thesis
    using rowwise_fail_job [OF assms(1)] by simp
qed

lemma claim_effect:
  assumes "claim_jobs token clock worker d batch t = Ok (claimed, t')" and "tbl_wf t"
  shows "tbl_wf t'" and "distinct (map job_id claimed)"
    and "job \<in> set claimed \<Longrightarrow> job_token job = token \<and>
      (\<exists>r now. tbl_get t (job_id job) = Some r \<and> status r = Pending \<and> 1 \<le> lease_seconds_of d \<and>
         tbl_get t' (job_id job) = Some (claimed_row worker token (lease_seconds_of d) now r) \<and>
         job_attempts job = wrap_i32 (attempts r + 1) \<and> job_max_attempts job = max_attempts r)"
    and "i \<notin> job_id ` set claimed \<Longrightarrow> tbl_get t' i = tbl_get t i"
proof -
  define picked where "picked = CLAIM_PICK batch (clock 0) t"
  define lease where "lease = lease_seconds_of d"
  have run: "claim_loop worker token lease clock 1 picked t = Ok (claimed, t')"
    using assms(1) by (simp add: claim_jobs_def picked_def lease_def)
  have pick: "\<forall>(i, row) \<in> set picked. tbl_get t i = Some row \<and> status row = Pending"
    using CLAIM_PICK_sound(2) [OF assms(2)] by (fastforce simp: picked_def claimable_def)
  have dist: "distinct (map fst picked)"
    using CLAIM_PICK_sound(1) [OF assms(2)] by (simp add: picked_def)
  note ok = claim_loop_Ok [OF run assms(2) dist pick]
  have "tbl_wf t' \<and> map Ok claimed = map (\<lambda>(i, row). claimed_job token lease i row) picked \<and>
    (\<forall>k. k \<notin> fst ` set picked \<longrightarrow> tbl_get t' k = tbl_get t k) \<and>
    (\<forall>(i, row) \<in> set picked. \<exists>m. tbl_get t' i = Some (claimed_row worker token lease (clock m) row))"
  proof (cases "picked = []")
    case True
    then show ?thesis using run assms(2) by simp
  next
    case False
    then have "1 \<le> lease"
      using ok by simp
    moreover have "\<forall>(i, row) \<in> set picked. tbl_get t i = Some row \<and> status row = Pending \<and> attempts row \<le> I32_MAX"
      using ok pick by auto
    ultimately show ?thesis
      using claim_loop_effect [OF assms(2) dist, of lease worker token clock 1] run by auto
  qed
  note eff = this
  have ids: "map job_id claimed = map fst picked"
  proof (rule nth_equalityI)
    show len: "length (map job_id claimed) = length (map fst picked)"
      using eff by (metis length_map)
    fix n
    assume n: "n < length (map job_id claimed)"
    then have "(Ok (claimed ! n) :: (DbError, 'a ClaimedJob) result) =
        (case picked ! n of (i, row) \<Rightarrow> claimed_job token lease i row)"
      using eff len by (metis (no_types, lifting) length_map nth_map)
    then show "map job_id claimed ! n = map fst picked ! n"
      using n len by (auto simp: claimed_job_def split: prod.splits if_splits)
  qed
  show "tbl_wf t'" "distinct (map job_id claimed)"
    using eff ids dist by simp_all
  show "i \<notin> job_id ` set claimed \<Longrightarrow> tbl_get t' i = tbl_get t i"
    using eff ids by (metis list.set_map)
  assume "job \<in> set claimed"
  then have "Ok job \<in> set (map Ok claimed :: (DbError, 'a ClaimedJob) result list)"
    by simp
  then have "(Ok job :: (DbError, 'a ClaimedJob) result) \<in> (\<lambda>(i, row). claimed_job token lease i row) ` set picked"
    using eff by (metis list.set_map)
  then obtain i r where ir: "(i, r) \<in> set picked" "claimed_job token lease i r = Ok job"
    by auto
  then have "picked \<noteq> []"
    by auto
  with ir show "job_token job = token \<and>
      (\<exists>r now. tbl_get t (job_id job) = Some r \<and> status r = Pending \<and> 1 \<le> lease_seconds_of d \<and>
         tbl_get t' (job_id job) = Some (claimed_row worker token (lease_seconds_of d) now r) \<and>
         job_attempts job = wrap_i32 (attempts r + 1) \<and> job_max_attempts job = max_attempts r)"
    using pick eff ok by (fastforce simp: claimed_job_def lease_def split: if_splits)
qed

lemma rowwise_claim:
  assumes "tbl_wf (jobs q)" and "claim_jobs token clock worker d batch (jobs q) = Ok (claimed, t')"
    and "token \<notin> tokens_of q"
  shows "rowwise q Claim t'"
proof -
  note eff = claim_effect [OF assms(2,1)]
  have "\<exists>r'. tbl_get t' i = Some r' \<and> row_step q Claim i r r'" if "tbl_get (jobs q) i = Some r" for i r
  proof (cases "i \<in> job_id ` set claimed")
    case True
    then obtain job where "job \<in> set claimed" "i = job_id job"
      by auto
    with that show ?thesis
      using eff(3) [of job] assms(3) by (auto intro: row_step.claimed)
  next
    case False
    with that show ?thesis
      using eff(4) by (auto simp: row_step.keep)
  qed
  moreover have "tbl_get t' i = None" if "tbl_get (jobs q) i = None" for i
    using eff(3,4) that by (metis imageE option.distinct(1))
  ultimately show ?thesis
    using eff(1) by (fastforce simp: rowwise_def split: option.splits)
qed

lemma rowwise_enqueue:
  assumes "tbl_wf (jobs q)" and "insert_job i utc_now now request (jobs q) = Ok (e, t')"
  shows "rowwise q Enqueue t'"
proof -
  obtain row where "t' = tbl_put i row (jobs q)" "tbl_get (jobs q) i = None" "row_check row"
    "unlocked row" "status row = Pending" "attempts row = 0" "max_attempts row \<le> I32_MAX"
    using assms(2)
    by (auto simp: insert_job_def INSERT_def Let_def rbind_eq_Ok_iff map_err_def unlocked_def split: if_splits)
  then show ?thesis
    using assms(1) by (auto simp: rowwise_def tbl.get_put row_step.keep split: option.splits)
qed

lemma rowwise_sweep:
  assumes "tbl_wf (jobs q)" and "set (scan (jobs q)) = set (jobs q)"
  shows "rowwise q l (snd (SWEEP_DEAD scan batch now (jobs q)))"
    and "rowwise q l (snd (SWEEP_REQUEUE scan batch now (jobs q)))"
proof -
  show "rowwise q l (snd (SWEEP_DEAD scan batch now (jobs q)))"
    unfolding SWEEP_DEAD_def Let_def snd_conv
    by (rule rowwise_modify [OF assms(1)]) (auto intro: row_step.closed simp: row_shape)
  show "rowwise q l (snd (SWEEP_REQUEUE scan batch now (jobs q)))"
    unfolding SWEEP_REQUEUE_def Let_def snd_conv
  proof (rule rowwise_modify [OF assms(1)])
    fix i r
    assume "tbl_get (jobs q) i = Some r"
      "i \<in> set (sweep_ids scan (\<lambda>row. lease_expired now row \<and> attempts row < max_attempts row) batch (jobs q))"
    then have "lease_expired now r" "attempts r < max_attempts r"
      using sweep_ids_sound [of "jobs q" scan i, OF assms] by fastforce+
    then show "row_step q l i r (released_row now r)"
      by (auto intro!: row_step.again simp: row_shape released_row_def lease_expired_def)
  qed
qed

lemma rowwise_admin:
  assumes "tbl_wf (jobs q)"
  shows "rowwise q l (snd (cancel i now (jobs q)))" and "rowwise q l (snd (requeue_dead i now (jobs q)))"
  unfolding cancel_def requeue_dead_def Let_def snd_conv
  by (rule rowwise_modify [OF assms]; auto intro: row_step.closed row_step.revived simp: row_shape)+

lemma rowwise_step:
  assumes "step l q q'" and "tbl_wf (jobs q)"
  shows "rowwise q l (jobs q')"
  using assms
proof (cases rule: step.cases)
  case (heartbeat job d now alive t')
  then show ?thesis
    using assms(2)
    by (auto simp: heartbeat_def Let_def fenced_def tbl.count_pos_iff split: if_splits
        intro!: rowwise_modify row_step.refreshed)
next
  case (release job now)
  then show ?thesis
    using assms(2)
    by (auto simp: release_claim_def released_row_def row_shape intro!: rowwise_modify row_step.again)
qed (use assms(2) in \<open>auto intro: rowwise_claim rowwise_enqueue rowwise_sweep rowwise_admin rowwise_persist
    rowwise_fail_job\<close>)

section \<open>Invariants\<close>

definition row_ok :: "'v JobRow \<Rightarrow> bool" where
  "row_ok row =
     (row_check row \<and> max_attempts row \<le> I32_MAX \<and>
      (if status row = Running then claim_token row \<noteq> None \<and> locked_at row \<noteq> None \<and> locked_by row \<noteq> None
       else unlocked row))"

text \<open>A claim that is still in its row describes the row.\<close>

definition linked :: "'v queue \<Rightarrow> bool" where
  "linked q =
     (\<forall>job \<in> claims q. \<forall>row. tbl_get (jobs q) (job_id job) = Some row \<longrightarrow>
        claim_token row = Some (job_token job) \<longrightarrow>
        job_attempts job = wrap_i32 (attempts row) \<and> job_max_attempts job = max_attempts row)"

definition claims_unique :: "'v queue \<Rightarrow> bool" where
  "claims_unique q =
     (\<forall>a \<in> claims q. \<forall>b \<in> claims q. job_id a = job_id b \<longrightarrow> job_token a = job_token b \<longrightarrow> a = b)"

definition queue_inv :: "'v queue \<Rightarrow> bool" where
  "queue_inv q =
     (tbl_wf (jobs q) \<and> (\<forall>i row. tbl_get (jobs q) i = Some row \<longrightarrow> row_ok row) \<and> linked q \<and> claims_unique q)"

lemma row_step_ok: "row_step q l i r r' \<Longrightarrow> row_ok r \<Longrightarrow> row_ok r'"
  by (cases rule: row_step.cases)
    (auto simp: row_ok_def row_check_def unlocked_def same_job_def claimed_row_def split: if_splits)

text \<open>A step gives a row only a fresh token, and changes the count of attempts only with the token.\<close>

lemma row_step_token:
  assumes "row_step q l i r r'" and "claim_token r' = Some token" and "token \<in> tokens_of q"
  shows "claim_token r = Some token \<and> attempts r' = attempts r \<and> max_attempts r' = max_attempts r \<and>
    status r' = status r"
  using assms by (cases rule: row_step.cases) (auto simp: unlocked_def claimed_row_def)

lemma rowwise_get:
  assumes "rowwise q l t'" and "tbl_get t' i = Some r'"
  shows "(\<exists>r. tbl_get (jobs q) i = Some r \<and> row_step q l i r r') \<or>
    tbl_get (jobs q) i = None \<and> unlocked r' \<and> status r' = Pending \<and> attempts r' = 0 \<and> row_check r' \<and>
    max_attempts r' \<le> I32_MAX"
  using assms unfolding rowwise_def by (auto split: option.splits dest: spec [of _ i])

lemma rowwise_token:
  assumes "rowwise q l t'" and "tbl_get t' i = Some r'" and "claim_token r' = Some token"
    and "token \<in> tokens_of q"
  shows "\<exists>r. tbl_get (jobs q) i = Some r \<and> claim_token r = Some token \<and> attempts r' = attempts r \<and>
    max_attempts r' = max_attempts r \<and> status r' = status r"
  using rowwise_get [OF assms(1,2)] row_step_token [OF _ assms(3,4)] assms(3)
  by (auto simp: unlocked_def)

lemma tokens_of_mem: "job \<in> claims q \<Longrightarrow> job_token job \<in> tokens_of q"
  by (simp add: tokens_of_def)

lemma step_claims:
  assumes "step l q q'"
  shows "claims q \<subseteq> claims q'"
  using assms by (cases rule: step.cases) auto

lemma step_new_claim:
  assumes "step l q q'" and "tbl_wf (jobs q)" and "job \<in> claims q'" and "job \<notin> claims q"
  shows "l = Claim \<and> job_token job \<notin> tokens_of q \<and>
    (\<exists>r. tbl_get (jobs q) (job_id job) = Some r \<and> status r = Pending \<and>
       job_attempts job = wrap_i32 (attempts r + 1) \<and> job_max_attempts job = max_attempts r \<and>
       (\<exists>worker lease now. tbl_get (jobs q') (job_id job) =
          Some (claimed_row worker (job_token job) lease now r)))"
  using assms(1)
proof (cases rule: step.cases)
  case (claim token clock worker d batch claimed t')
  then have "job \<in> set claimed"
    using assms(3,4) by simp
  with claim show ?thesis
    using claim_effect(3) [OF claim(3) assms(2)] by fastforce
qed (use assms(3,4) in auto)

lemma step_linked:
  assumes "step l q q'" and "queue_inv q"
  shows "linked q'"
  unfolding linked_def
proof (intro ballI allI impI)
  fix job row
  assume job: "job \<in> claims q'" and row: "tbl_get (jobs q') (job_id job) = Some row"
    and token: "claim_token row = Some (job_token job)"
  have wf: "tbl_wf (jobs q)"
    using assms(2) by (simp add: queue_inv_def)
  show "job_attempts job = wrap_i32 (attempts row) \<and> job_max_attempts job = max_attempts row"
  proof (cases "job \<in> claims q")
    case True
    then show ?thesis
      using rowwise_token [OF rowwise_step [OF assms(1) wf] row token tokens_of_mem] assms(2)
      by (auto simp: queue_inv_def linked_def)
  next
    case False
    then show ?thesis
      using step_new_claim [OF assms(1) wf job] row by (auto simp: claimed_row_def)
  qed
qed

lemma step_claims_unique:
  assumes "step l q q'" and "queue_inv q"
  shows "claims_unique q'"
  using assms(1)
proof (cases rule: step.cases)
  case (claim token clock worker d batch claimed t')
  have wf: "tbl_wf (jobs q)"
    using assms(2) by (simp add: queue_inv_def)
  note eff = claim_effect(2,3) [OF claim(3) wf]
  have "a = b" if "a \<in> set claimed" "b \<in> set claimed" "job_id a = job_id b" for a b
    using eff(1) that by (auto simp: distinct_map inj_on_def)
  moreover have "job_token a \<noteq> job_token b" if "a \<in> set claimed" "b \<in> claims q" for a b
    using eff(2) [of a] that claim(4) by (auto simp: tokens_of_def)
  moreover have "claims q' = claims q \<union> set claimed" "claims_unique q"
    using assms(2) claim(2) by (simp_all add: queue_inv_def)
  ultimately show ?thesis
    unfolding claims_unique_def by (metis UnE)
qed (use assms(2) in \<open>auto simp: queue_inv_def claims_unique_def\<close>)

lemma step_inv:
  assumes "step l q q'" and "queue_inv q"
  shows "queue_inv q'"
proof -
  have rows: "rowwise q l (jobs q')"
    using assms rowwise_step by (auto simp: queue_inv_def)
  have "row_ok row" if "tbl_get (jobs q') i = Some row" for i row
    using rowwise_get [OF rows that]
  proof
    assume "\<exists>r. tbl_get (jobs q) i = Some r \<and> row_step q l i r row"
    then show ?thesis
      using assms(2) by (auto simp: queue_inv_def dest: row_step_ok)
  qed (simp add: row_ok_def)
  with rows show ?thesis
    using step_linked [OF assms] step_claims_unique [OF assms] by (simp add: queue_inv_def rowwise_def)
qed

lemma start_inv: "queue_inv start"
  by (simp add: queue_inv_def start_def linked_def claims_unique_def tbl.get_empty)

lemma run_inv: "run L q q' \<Longrightarrow> queue_inv q \<Longrightarrow> queue_inv q'"
  by (induction rule: run.induct) (auto intro: step_inv)

lemma run_claims: "run L q q' \<Longrightarrow> claims q \<subseteq> claims q'"
  by (induction rule: run.induct) (auto dest: step_claims)

lemma step_lost:
  assumes "step l q q'" and "queue_inv q" and "token \<in> tokens_of q" and "\<not> holds (jobs q) i token"
  shows "\<not> holds (jobs q') i token"
proof
  assume "holds (jobs q') i token"
  then obtain row where "tbl_get (jobs q') i = Some row" "claim_token row = Some token" "status row = Running"
    by (auto simp: holds_iff fenced_def)
  then show False
    using rowwise_token [OF rowwise_step [OF assms(1)]] assms(2-4)
    by (fastforce simp: queue_inv_def holds_iff fenced_def)
qed

lemma run_lost:
  assumes "run L q q'" and "queue_inv q" and "job \<in> claims q" and "\<not> holds (jobs q) (job_id job) (job_token job)"
  shows "\<not> holds (jobs q') (job_id job) (job_token job)"
  using assms
proof (induction rule: run.induct)
  case (more q q' l q'')
  then have "queue_inv q'" "job \<in> claims q'"
    using run_inv run_claims by blast+
  then show ?case
    using step_lost [OF more.hyps(3)] more tokens_of_mem by blast
qed

section \<open>A run\<close>

text \<open>One job is enqueued and claimed; the witnesses start from here.\<close>

definition sample_request :: "nat \<Rightarrow> unit JobRequest" where
  "sample_request n =
     \<lparr>req_kind = ''mail.send'', req_version = 1, max_attempts_default = n, max_attempts_override = None,
      req_payload = (), req_run_at = None\<rparr>"

definition sample_queue :: "unit queue" where
  "sample_queue =
     \<lparr>jobs = [(1, claimed_row ''w'' 7 300 0 (sample_row 0 3))], claims = {sample_job 1}\<rparr>"

lemma sample_insert:
  "n \<in> {2, 3} \<Longrightarrow> insert_job 1 0 0 (sample_request n) [] =
     Ok (\<lparr>enqueued_id = 1, enqueued_status = Pending\<rparr>, [(1, sample_row 0 (int n))])"
  by (elim insertE emptyE)
    (simp_all add: insert_job_def INSERT_def Let_def sample_request_def effective_max_attempts_def
      stored_time_def tbl_get_def tbl_put_def row_check_def rbind_def map_err_def sample_row_def I32_MAX_def)

lemmas claim_eval = claim_jobs_def CLAIM_PICK_def sql_limit_def claimable_def claim_order_def CLAIM_MARK_def
  claimed_job_def wrap_i32_def rbind_def lease_seconds_of_def I32_MAX_def tbl_count_def tbl_modify_def Let_def

lemma sample_claim:
  "claim_jobs 7 (\<lambda>_. 0) ''w'' 300000000000 8 [(1, sample_row 0 3)] = Ok ([sample_job 1], jobs sample_queue)"
  by (simp add: claim_eval sample_row_def sample_job_def sample_queue_def claimed_row_def)

lemma sample_run: "run UNIV start sample_queue" "run (UNIV - {Release}) start sample_queue"
proof -
  have e: "step Enqueue start (start\<lparr>jobs := [(1, sample_row 0 3)]\<rparr>)"
    by (rule step.enqueue [of 1 0 0 "sample_request 3"]) (simp add: start_def tbl_empty_def sample_insert)
  have c: "step Claim (start\<lparr>jobs := [(1, sample_row 0 3)]\<rparr>) sample_queue"
    using step.claim [of 7 "\<lambda>_. 0" "''w''" 300000000000 8 "start\<lparr>jobs := [(1, sample_row 0 3)]\<rparr>"] sample_claim
    by (simp add: start_def tokens_of_def sample_queue_def)
  have "run L start sample_queue" if "Enqueue \<in> L" "Claim \<in> L" for L
    by (rule run.more [OF run.more [OF run.none that(1) e] that(2) c])
  then show "run UNIV start sample_queue" "run (UNIV - {Release}) start sample_queue"
    by simp_all
qed

lemma sample_held: "holds (jobs sample_queue) 1 7"
  by (simp add: sample_queue_def holds_def tbl_get_def fenced_def claimed_row_def)

section \<open>Fencing\<close>

text \<open>
  C23.  In every reachable state of the queue, with any number of workers, each row is consistent: it
  carries a claim token, a lock time and a worker exactly while it runs, and its counters satisfy the
  schema.  No job is held by two claims.
\<close>
theorem reachable_queue_consistent:
  assumes "run L start q"
  shows "(\<forall>i row. tbl_get (jobs q) i = Some row \<longrightarrow> row_ok row) \<and>
    (\<forall>a \<in> claims q. \<forall>b \<in> claims q. job_id a = job_id b \<longrightarrow>
       holds (jobs q) (job_id a) (job_token a) \<longrightarrow> holds (jobs q) (job_id b) (job_token b) \<longrightarrow> a = b)"
  using run_inv [OF assms start_inv] by (auto simp: queue_inv_def claims_unique_def holds_iff fenced_def)

theorem reachable_queue_consistent_witness:
  "row_ok (claimed_row ''w'' 7 300 0 (sample_row 0 3))"
  using reachable_queue_consistent [OF sample_run(1)] by (auto simp: sample_queue_def tbl_get_def)

text \<open>
  C1.  Fencing: once a worker's claim is lost (its lease was swept, its job cancelled or completed),
  it is lost for ever.  Whatever workers and administrators do afterwards, re-claiming the job included,
  each fenced statement of the stale worker reports the loss and leaves the queue exactly as it is.
\<close>
theorem lost_claim_is_fenced:
  assumes "run L start q" and "job \<in> claims q" and "\<not> holds (jobs q) (job_id job) (job_token job)"
    and "run L' q q'"
  shows "mark_succeeded (job_id job) (job_token job) now (jobs q') = (Lost, jobs q') \<and>
    mark_retry (job_id job) (job_token job) ts message now (jobs q') = (Lost, jobs q') \<and>
    mark_dead (job_id job) (job_token job) error_kind message now (jobs q') = (Lost, jobs q') \<and>
    heartbeat (job_id job) (job_token job) d now (jobs q') = Ok (False, jobs q') \<and>
    release_claim (job_id job) (job_token job) now (jobs q') = jobs q'"
proof -
  have inv: "queue_inv q"
    using run_inv [OF assms(1) start_inv] .
  then have "tbl_wf (jobs q')"
    using run_inv [OF assms(4)] by (simp add: queue_inv_def)
  then show ?thesis
    using run_lost [OF assms(4) inv assms(2,3)] by (simp add: stale_token_changes_nothing)
qed

lemma cancelled_lost: "\<not> holds (snd (cancel 1 5 (jobs sample_queue))) 1 7"
  by (simp add: sample_queue_def cancel_def holds_def tbl_get_def tbl_modify_def fenced_def claimed_row_def Let_def)

theorem lost_claim_is_fenced_witness:
  "mark_succeeded 1 7 9 (snd (cancel 1 5 (jobs sample_queue))) =
     (Lost, snd (cancel 1 5 (jobs sample_queue)))"
proof -
  have "run UNIV start (sample_queue\<lparr>jobs := snd (cancel 1 5 (jobs sample_queue))\<rparr>)"
    by (rule run.more [OF sample_run(1) _ step.cancel]) simp
  then show ?thesis
    using lost_claim_is_fenced [OF _ _ _ run.none,
        of UNIV "sample_queue\<lparr>jobs := snd (cancel 1 5 (jobs sample_queue))\<rparr>" "sample_job 1" 9]
      cancelled_lost by (simp add: sample_queue_def sample_job_def)
qed

lemma persist_stale:
  assumes "tbl_wf t" and "\<not> holds t (job_id job) (job_token job)"
  shows "persist show_uuid timeout observed job dispatch outcome now duration t = ([], t)"
  by (cases outcome) (simp_all add: fail_job_def stale_token_changes_nothing [OF assms] Let_def)

text \<open>
  C22.  Each claim is completed at most once: after a worker has persisted an outcome for its claim, a
  second attempt to complete it, at any later point of any run and with any outcome, changes nothing and
  emits no event.
\<close>
theorem completed_at_most_once:
  assumes "run L start q" and "job \<in> claims q"
    and "persist show_uuid timeout observed job dispatch outcome now duration (jobs q) = (events, t')"
    and "run L' (q\<lparr>jobs := t'\<rparr>) q'"
    and "decide pw rand chrono (state_of job) dispatch policy utc_now = Some outcome"
  shows "persist show_uuid timeout' observed' job dispatch' outcome' now' duration' (jobs q') = ([], jobs q')"
proof -
  have inv: "queue_inv q"
    using run_inv [OF assms(1) start_inv] .
  then have wf: "tbl_wf (jobs q)"
    by (simp add: queue_inv_def)
  have "queue_inv (q\<lparr>jobs := t'\<rparr>)"
    using step_inv [OF step.complete [OF assms(2,5,3)] inv] .
  moreover have "\<not> holds t' (job_id job) (job_token job)"
  proof (cases "holds (jobs q) (job_id job) (job_token job)")
    case True
    then show ?thesis
      using persist_settles [OF True assms(3)] by (simp add: settles_def)
  next
    case False
    then show ?thesis
      using assms(3) persist_stale [OF wf False] by simp
  qed
  ultimately have "\<not> holds (jobs q') (job_id job) (job_token job)" "tbl_wf (jobs q')"
    using run_lost [OF assms(4)] run_inv [OF assms(4)] assms(2) by (simp_all add: queue_inv_def)
  then show ?thesis
    by (simp add: persist_stale)
qed

theorem completed_at_most_once_witness:
  "let t' = snd (mark_succeeded 1 7 5 (jobs sample_queue))
   in persist (\<lambda>_. []) 0 True (sample_job 1) DMalformed (ODead KMalformed []) 9 0 t' = ([], t')"
proof -
  have done1: "persist (\<lambda>_. []) 0 False (sample_job 1) DSucceeded OSucceeded 5 0 (jobs sample_queue) =
      ([], snd (mark_succeeded 1 7 5 (jobs sample_queue)))"
    by (simp add: sample_job_def mark_succeeded_def emit_def)
  have "sample_job 1 \<in> claims sample_queue"
    by (simp add: sample_queue_def)
  from completed_at_most_once [OF sample_run(1) this done1 run.none decide.simps(1)]
  show ?thesis
    unfolding Let_def by (simp del: persist.simps)
qed

section \<open>Attempts\<close>

definition attempts_ok :: "'v JobRow \<Rightarrow> bool" where
  "attempts_ok row =
     ((status row = Pending \<longrightarrow> attempts row < max_attempts row) \<and>
      (status row = Running \<longrightarrow> attempts row \<le> max_attempts row))"

lemma row_step_attempts:
  assumes "row_step q l i r r'" and "l \<noteq> Release" and "queue_inv q" and "tbl_get (jobs q) i = Some r"
    and "attempts_ok r"
  shows "attempts_ok r'"
proof -
  have ok: "row_ok r"
    using assms(3,4) by (simp add: queue_inv_def)
  show ?thesis
    using assms(1)
  proof (cases rule: row_step.cases)
    case again
    have "attempts r < max_attempts r"
    proof (cases "attempts r < max_attempts r")
      case False
      with again assms(2) obtain job where job: "job \<in> claims q" "job_id job = i"
        "claim_token r = Some (job_token job)" "job_attempts job < job_max_attempts job"
        by auto
      then have "job_attempts job = wrap_i32 (attempts r)" "job_max_attempts job = max_attempts r"
        using assms(3,4) by (auto simp: queue_inv_def linked_def)
      moreover have "wrap_i32 (attempts r) = attempts r"
        using ok again assms(5) by (intro wrap_i32_id) (auto simp: row_ok_def row_check_def attempts_ok_def)
      ultimately show ?thesis
        using job by simp
    qed
    with again show ?thesis
      by (simp add: attempts_ok_def same_job_def)
  next
    case revived
    then show ?thesis
      using ok by (simp add: row_ok_def row_check_def attempts_ok_def same_job_def)
  qed (use assms(5) in \<open>auto simp: attempts_ok_def claimed_row_def\<close>)
qed

definition attempts_inv :: "'v queue \<Rightarrow> bool" where
  "attempts_inv q =
     (queue_inv q \<and> (\<forall>i row. tbl_get (jobs q) i = Some row \<longrightarrow> attempts_ok row) \<and>
      (\<forall>job \<in> claims q. 1 \<le> job_attempts job \<and> job_attempts job \<le> job_max_attempts job))"

lemma step_attempts:
  assumes "step l q q'" and "l \<noteq> Release" and "attempts_inv q"
  shows "attempts_inv q'"
proof -
  have inv: "queue_inv q" and wf: "tbl_wf (jobs q)"
    using assms(3) by (simp_all add: attempts_inv_def queue_inv_def)
  have rows: "attempts_ok row" if "tbl_get (jobs q') i = Some row" for i row
    using rowwise_get [OF rowwise_step [OF assms(1) wf] that]
  proof
    assume "\<exists>r. tbl_get (jobs q) i = Some r \<and> row_step q l i r row"
    then show ?thesis
      using row_step_attempts [OF _ assms(2) inv] assms(3) by (auto simp: attempts_inv_def)
  qed (auto simp: attempts_ok_def row_check_def)
  have "1 \<le> job_attempts job \<and> job_attempts job \<le> job_max_attempts job" if job: "job \<in> claims q'" for job
  proof (cases "job \<in> claims q")
    case False
    then obtain r where r: "tbl_get (jobs q) (job_id job) = Some r" "status r = Pending"
      "job_attempts job = wrap_i32 (attempts r + 1)" "job_max_attempts job = max_attempts r"
      using step_new_claim [OF assms(1) wf job] by blast
    then have "attempts r < max_attempts r" "row_ok r"
      using assms(3) by (auto simp: attempts_inv_def queue_inv_def attempts_ok_def)
    then show ?thesis
      using r(3,4) wrap_i32_id [of "attempts r + 1"] by (auto simp: row_ok_def row_check_def)
  qed (use assms(3) in \<open>simp add: attempts_inv_def\<close>)
  with rows show ?thesis
    using step_inv [OF assms(1) inv] by (auto simp: attempts_inv_def)
qed

lemma run_attempts:
  assumes "run L q q'" and "Release \<notin> L" and "attempts_inv q"
  shows "attempts_inv q'"
  using assms
proof (induction rule: run.induct)
  case (more q q' l q'')
  then show ?case
    using step_attempts by metis
qed

text \<open>
  As long as no worker hands claims back on shutdown, no job is started more often than its
  \<^verbatim>\<open>max_attempts\<close>, whatever workers crash, leases run out and administrators requeue: every claim ever
  handed out has an attempt number between 1 and the maximum, and every waiting job has an attempt left.
\<close>
theorem attempts_bounded:
  assumes "run L start q" and "Release \<notin> L"
  shows "(\<forall>job \<in> claims q. 1 \<le> job_attempts job \<and> job_attempts job \<le> job_max_attempts job) \<and>
    (\<forall>i row. tbl_get (jobs q) i = Some row \<longrightarrow> status row = Pending \<longrightarrow> attempts row < max_attempts row)"
proof -
  have "attempts_inv start"
    unfolding attempts_inv_def using start_inv by (simp add: start_def tbl.get_empty)
  then have "attempts_inv q"
    by (rule run_attempts [OF assms])
  then show ?thesis
    by (simp add: attempts_inv_def attempts_ok_def)
qed

theorem attempts_bounded_witness: "1 \<le> job_attempts (sample_job 1) \<and> job_attempts (sample_job 1) \<le> 3"
  using attempts_bounded [OF sample_run(2)] by (simp add: sample_queue_def sample_job_def)

text \<open>
  A claim released on shutdown, before its handler has started, still counts as an attempt.  A job
  that may be tried twice is claimed, released and claimed again; its handler now runs for the first
  time, fails with a retryable error, and the job is dead as exhausted.
\<close>
theorem release_burns_attempt:
  "\<exists>job t1 job' t2.
     claim_jobs 7 (\<lambda>_. 0) ''w'' 300000000000 8 [(1, sample_row 0 2)] = Ok ([job], t1) \<and>
     claim_jobs 8 (\<lambda>_. 10) ''v'' 300000000000 8 (release_claim (job_id job) (job_token job) 5 t1) =
       Ok ([job'], t2) \<and>
     decide pw rand chrono (state_of job') (DHandlerError (Retryable [])) policy now =
       Some (ODead KExhausted (stored_message (Retryable [])))"
proof -
  define row where "row = claimed_row ''w'' 7 300 0 (sample_row 0 2)"
  have "claim_jobs 7 (\<lambda>_. 0) ''w'' 300000000000 8 [(1, sample_row 0 2)] =
      Ok ([(sample_job 1)\<lparr>job_max_attempts := 2\<rparr>], [(1, row)])"
    by (simp add: claim_eval sample_row_def sample_job_def row_def claimed_row_def)
  moreover have "release_claim 1 7 5 [(1, row)] = [(1, released_row 5 row)]"
    by (simp add: release_claim_def tbl_modify_def fenced_def row_def claimed_row_def)
  moreover have "claim_jobs 8 (\<lambda>_. 10) ''v'' 300000000000 8 [(1, released_row 5 row)] =
      Ok ([(sample_job 2)\<lparr>job_token := 8, job_max_attempts := 2\<rparr>],
          [(1, claimed_row ''v'' 8 300 10 (released_row 5 row))])"
    by (simp add: claim_eval sample_row_def sample_job_def row_def claimed_row_def released_row_def)
  ultimately show ?thesis
    by (intro exI conjI) (assumption | simp add: sample_job_def state_of_def)+
qed

end
