(* ===== verification/Jobs_Scheduler.thy ===== *)
theory Jobs_Scheduler
  imports Arc_Prelude
begin

text \<open>
  The scheduler of \<^verbatim>\<open>src/jobs/scheduler.rs\<close> and the cadence literals of the module macro,
  \<^verbatim>\<open>macros/src/module/schedule_spec.rs\<close>.

  An instant is a number of nanoseconds; the calendar only enters through the beginning of the day an
  instant lies in.  The greatest instant the time library (package \<^verbatim>\<open>chrono\<close>) can represent is the
  parameter \<open>max_time\<close>, and a panic of its arithmetic is \<open>None\<close>.
\<close>

section \<open>Cadences\<close>

datatype ScheduleCadence = Every nat | Daily nat nat

definition checked_mul :: "nat \<Rightarrow> nat \<Rightarrow> nat option" where
  "checked_mul n k = (if n * k < 2 ^ 64 then Some (n * k) else None)"

definition parse_interval :: "string \<Rightarrow> nat option" where
  "parse_interval s =
     (if s = [] \<or> \<not> is_char_boundary s (length s - 1) then None
      else let number = butlast s; unit = last s
           in Option.bind (parse_uint (2 ^ 64 - 1) number) (\<lambda>n.
              if unit = CHR ''s'' then Some n
              else if unit = CHR ''m'' then checked_mul n 60
              else if unit = CHR ''h'' then checked_mul n 3600
              else if unit = CHR ''d'' then checked_mul n 86400
              else None))"

definition parse_time :: "string \<Rightarrow> (nat \<times> nat) option" where
  "parse_time s =
     (case split CHR '':'' s of
        [] \<Rightarrow> None
      | h # rest \<Rightarrow>
          Option.bind (parse_uint 255 h) (\<lambda>hour.
          case rest of
            [] \<Rightarrow> None
          | m # rest' \<Rightarrow>
              Option.bind (parse_uint 255 m) (\<lambda>minute.
              if rest' \<noteq> [] \<or> hour > 23 \<or> minute > 59 then None else Some (hour, minute))))"

section \<open>The next fire\<close>

definition SECOND :: int where
  "SECOND = 1000000000"

definition DAY :: int where
  "DAY = 86400 * SECOND"

definition I64_MAX :: nat where
  "I64_MAX = 2 ^ 63 - 1"

definition day_start :: "int \<Rightarrow> int" where
  "day_start t = t - t mod DAY"

definition time_add :: "int \<Rightarrow> int \<Rightarrow> int \<Rightarrow> int option" where
  "time_add max_time t d = (if t + d \<le> max_time then Some (t + d) else None)"

text \<open>A duration of so many seconds; too many of them panic.\<close>

definition duration_seconds :: "nat \<Rightarrow> int option" where
  "duration_seconds n = (if n \<le> I64_MAX div 1000 then Some (int n * SECOND) else None)"

text \<open>The instant at hour and minute of the day in which \<open>t\<close> lies, if there is such an hour and minute.\<close>

definition at_time_of_day :: "int \<Rightarrow> nat \<Rightarrow> nat \<Rightarrow> int option" where
  "at_time_of_day t h m = (if h < 24 \<and> m < 60 then Some (day_start t + int (h * 60 + m) * 60 * SECOND) else None)"

fun compute_next_fire :: "int \<Rightarrow> ScheduleCadence \<Rightarrow> int \<Rightarrow> int option" where
  "compute_next_fire max_time (Every seconds) now =
     Option.bind (duration_seconds (min seconds I64_MAX)) (time_add max_time now)"
| "compute_next_fire max_time (Daily h m) now =
     (case at_time_of_day now h m of
        Some t \<Rightarrow>
          if t > now then Some t
          else map_option (\<lambda>tomorrow. case at_time_of_day tomorrow h m of Some u \<Rightarrow> u | None \<Rightarrow> now)
                 (time_add max_time now DAY)
      | None \<Rightarrow>
          map_option (\<lambda>tomorrow. case at_time_of_day tomorrow h m of Some u \<Rightarrow> u | None \<Rightarrow> now)
            (time_add max_time now DAY))"

section \<open>The loop\<close>

record ScheduleEntry =
  sched_kind :: string
  sched_version :: int
  sched_cadence :: ScheduleCadence
  next_fire :: int

type_synonym Scheduler = "ScheduleEntry list"

definition schedule :: "int \<Rightarrow> Scheduler \<Rightarrow> string \<Rightarrow> int \<Rightarrow> ScheduleCadence \<Rightarrow> int \<Rightarrow> Scheduler option" where
  "schedule max_time self kind version cadence now =
     map_option (\<lambda>t. self @ [\<lparr>sched_kind = kind, sched_version = version, sched_cadence = cadence, next_fire = t\<rparr>])
       (compute_next_fire max_time cadence now)"

definition sleep_duration :: "Scheduler \<Rightarrow> int \<Rightarrow> int" where
  "sleep_duration entries now =
     (let earliest = (case map next_fire entries of [] \<Rightarrow> now | t # ts \<Rightarrow> fold min ts t)
      in if earliest > now then earliest - now else 0)"

text \<open>One round: every due entry fires, whether or not its job can be enqueued, and is rescheduled.\<close>

fun fire_due :: "int \<Rightarrow> Scheduler \<Rightarrow> int \<Rightarrow> (ScheduleEntry list \<times> Scheduler) option" where
  "fire_due max_time [] now = Some ([], [])"
| "fire_due max_time (entry # rest) now =
     (if next_fire entry \<le> now then
        Option.bind (compute_next_fire max_time (sched_cadence entry) now) (\<lambda>t.
        map_option (\<lambda>(fired, entries). (entry # fired, entry\<lparr>next_fire := t\<rparr> # entries)) (fire_due max_time rest now))
      else map_option (\<lambda>(fired, entries). (fired, entry # entries)) (fire_due max_time rest now))"

section \<open>Next fires lie ahead\<close>

fun cadence_ok :: "ScheduleCadence \<Rightarrow> bool" where
  "cadence_ok (Every seconds) = (0 < seconds \<and> seconds \<le> I64_MAX div 1000)"
| "cadence_ok (Daily h m) = (h < 24 \<and> m < 60)"

fun cadence_span :: "ScheduleCadence \<Rightarrow> int" where
  "cadence_span (Every seconds) = int seconds * SECOND"
| "cadence_span (Daily h m) = DAY"

lemma day_start_add: "day_start (t + DAY) = day_start t + DAY"
  by (simp add: day_start_def DAY_def SECOND_def)

lemma time_of_day_bounds:
  assumes "h < 24" and "m < 60"
  shows "0 \<le> int (h * 60 + m) * 60 * SECOND" and "int (h * 60 + m) * 60 * SECOND < DAY"
proof -
  have "h * 60 + m < 24 * 60"
    using assms by linarith
  then have "int (h * 60 + m) < 1440"
    by linarith
  then show "int (h * 60 + m) * 60 * SECOND < DAY"
    by (simp add: DAY_def SECOND_def)
qed (simp add: SECOND_def)

lemma daily_next:
  assumes "h < 24" and "m < 60" and "now + DAY \<le> max_time"
  shows "\<exists>t. compute_next_fire max_time (Daily h m) now = Some t \<and> now < t \<and> t \<le> now + DAY \<and>
    t mod DAY = int (h * 60 + m) * 60 * SECOND"
proof -
  let ?o = "int (h * 60 + m) * 60 * SECOND"
  have o: "0 \<le> ?o" "?o < DAY"
    using time_of_day_bounds [OF assms(1,2)] .
  have ds: "day_start now \<le> now" "now < day_start now + DAY"
    by (simp_all add: day_start_def DAY_def SECOND_def)
  have modday: "(day_start now + ?o) mod DAY = ?o" "(day_start now + DAY + ?o) mod DAY = ?o"
  proof -
    have "day_start now mod DAY = 0"
      by (simp add: day_start_def mod_diff_left_eq [symmetric] minus_mod_eq_mult_div)
    then show "(day_start now + ?o) mod DAY = ?o" "(day_start now + DAY + ?o) mod DAY = ?o"
      using o by (metis add.left_neutral mod_add_left_eq mod_pos_pos_trivial,
          metis add.left_neutral mod_add_left_eq mod_add_self2 mod_pos_pos_trivial)
  qed
  show ?thesis
  proof (cases "day_start now + ?o > now")
    case True
    then show ?thesis
      using assms ds o modday by (simp add: at_time_of_day_def)
  next
    case False
    then show ?thesis
      using assms ds o modday by (simp add: at_time_of_day_def time_add_def day_start_add)
  qed
qed

lemma every_next:
  "0 < seconds \<Longrightarrow> seconds \<le> I64_MAX div 1000 \<Longrightarrow> now + int seconds * SECOND \<le> max_time \<Longrightarrow>
     compute_next_fire max_time (Every seconds) now = Some (now + int seconds * SECOND)"
  by (auto simp: duration_seconds_def time_add_def I64_MAX_def min_def)

lemma next_fire_ahead:
  assumes "cadence_ok c" and "now + cadence_span c \<le> max_time"
  shows "\<exists>t. compute_next_fire max_time c now = Some t \<and> now < t \<and> t \<le> now + cadence_span c"
proof (cases c)
  case (Every seconds)
  then show ?thesis
    using assms every_next [of seconds now max_time] by (auto simp: SECOND_def)
next
  case (Daily h m)
  then show ?thesis
    using assms daily_next [of h m now max_time] by auto
qed

text \<open>The daily instant is the first of its kind after \<open>now\<close>.\<close>

lemma daily_first:
  assumes "t \<le> now + DAY" and "now < u" and "u < t"
  shows "u mod DAY \<noteq> t mod DAY"
proof
  assume "u mod DAY = t mod DAY"
  then have "DAY dvd t - u"
    by (metis mod_eq_dvd_iff)
  moreover have "0 < t - u" "t - u < DAY"
    using assms by auto
  ultimately show False
    using zdvd_imp_le [of DAY "t - u"] by linarith
qed

text \<open>The loop sleeps exactly until the earliest next fire, and not at all when that is past.\<close>

definition sleeps_exactly :: "Scheduler \<Rightarrow> int \<Rightarrow> int \<Rightarrow> bool" where
  "sleeps_exactly entries now d =
     (if list_all (\<lambda>e. now < next_fire e) entries
      then 0 < d \<and> list_all (\<lambda>e. now + d \<le> next_fire e) entries \<and> list_ex (\<lambda>e. next_fire e = now + d) entries
      else d = 0)"

lemma sleep_exact: "entries \<noteq> [] \<Longrightarrow> sleeps_exactly entries now (sleep_duration entries now)"
proof -
  assume "entries \<noteq> []"
  then obtain e es where es: "entries = e # es"
    by (cases entries) auto
  define earliest where "earliest = Min (set (map next_fire entries))"
  have fold: "fold min ts (t :: int) = Min (set (t # ts))" for t ts
    by (simp only: Min.set_eq_fold)
  have sleep: "sleep_duration entries now = (if earliest > now then earliest - now else 0)"
    by (simp add: sleep_duration_def es Let_def fold earliest_def del: list.set(2))
  have le: "list_all (\<lambda>e. earliest \<le> next_fire e) entries"
    by (simp add: earliest_def list_all_iff)
  have "earliest \<in> set (map next_fire entries)"
    unfolding earliest_def using es by (intro Min_in) auto
  then have "list_ex (\<lambda>e. next_fire e = earliest) entries"
    by (auto simp: list_ex_iff)
  with le show ?thesis
    unfolding sleeps_exactly_def sleep by (fastforce simp: list_all_iff list_ex_iff)
qed

text \<open>The effect of one round on one entry.\<close>

definition rescheduled :: "int \<Rightarrow> ScheduleEntry \<Rightarrow> ScheduleEntry \<Rightarrow> bool" where
  "rescheduled now e e' =
     (if next_fire e \<le> now
      then e' = e\<lparr>next_fire := next_fire e'\<rparr> \<and> now < next_fire e' \<and> next_fire e' \<le> now + cadence_span (sched_cadence e)
      else e' = e)"

lemma fire_due_round:
  assumes "\<forall>e \<in> set entries. cadence_ok (sched_cadence e) \<and> now + cadence_span (sched_cadence e) \<le> max_time"
  shows "\<exists>entries'. fire_due max_time entries now = Some (filter (\<lambda>e. next_fire e \<le> now) entries, entries') \<and>
    list_all2 (rescheduled now) entries entries'"
  using assms
proof (induction entries)
  case (Cons e entries)
  obtain rest where rest: "fire_due max_time entries now = Some (filter (\<lambda>e. next_fire e \<le> now) entries, rest)"
    "list_all2 (rescheduled now) entries rest"
    using Cons by auto
  obtain t where t: "compute_next_fire max_time (sched_cadence e) now = Some t" "now < t"
    "t \<le> now + cadence_span (sched_cadence e)"
    using next_fire_ahead [of "sched_cadence e" now max_time] Cons.prems by auto
  show ?case
  proof (cases "next_fire e \<le> now")
    case True
    have "list_all2 (rescheduled now) (e # entries) (e\<lparr>next_fire := t\<rparr> # rest)"
      using rest(2) t True by (simp add: rescheduled_def)
    then show ?thesis
      using True rest t by auto
  next
    case False
    then have "rescheduled now e e"
      by (simp add: rescheduled_def)
    with False show ?thesis
      using rest by auto
  qed
qed simp

text \<open>
  C26.  A round of the scheduler fires every due entry exactly once, in order and however many of its
  instants were missed, and no other; each is rescheduled ahead of the round's clock by at most one period.
  The clock is read again for the sleep, after the fires have been awaited: whatever it reads then, the loop
  sleeps exactly until the earliest next fire, and not at all when that has passed meanwhile.  This
  holds for a schedule with at least one entry, intervals of at least a second and at most \<open>I64_MAX div 1000\<close>
  seconds, times of day that exist, and instants within the range of the time library.
\<close>
theorem due_entries_fire_once:
  assumes "\<forall>e \<in> set entries. cadence_ok (sched_cadence e) \<and> now + cadence_span (sched_cadence e) \<le> max_time"
    and "entries \<noteq> []"
  shows "\<exists>entries'. fire_due max_time entries now = Some (filter (\<lambda>e. next_fire e \<le> now) entries, entries') \<and>
    list_all2 (rescheduled now) entries entries' \<and>
    (\<forall>later. sleeps_exactly entries' later (sleep_duration entries' later))"
proof -
  obtain entries' where round: "fire_due max_time entries now = Some (filter (\<lambda>e. next_fire e \<le> now) entries, entries')"
    "list_all2 (rescheduled now) entries entries'"
    using fire_due_round [OF assms(1)] by blast
  moreover have "entries' \<noteq> []"
    using round(2) assms(2) by auto
  ultimately show ?thesis
    using sleep_exact by blast
qed

definition sample_entry :: ScheduleEntry where
  "sample_entry = \<lparr>sched_kind = ''digest'', sched_version = 1, sched_cadence = Daily 3 0, next_fire = 0\<rparr>"

theorem due_entries_fire_once_witness:
  "\<exists>entries'. fire_due (2 ^ 62) [sample_entry] 5 = Some ([sample_entry], entries') \<and>
     sleeps_exactly entries' 7 (sleep_duration entries' 7)"
  using due_entries_fire_once [of "[sample_entry]" 5 "2 ^ 62"]
  by (auto simp: sample_entry_def DAY_def SECOND_def)

section \<open>Literals\<close>

text \<open>A time of day from a literal always exists.\<close>

lemma parse_time_ok: "parse_time s = Some (h, m) \<Longrightarrow> cadence_ok (Daily h m)"
  by (cases "split CHR '':'' s"; cases "tl (split CHR '':'' s)")
    (auto simp: parse_time_def bind_eq_Some_iff split: if_splits)

text \<open>An interval of zero seconds is accepted too.  It is due again at once, so the loop never sleeps.\<close>

lemma zero_interval_spins:
  assumes "now \<le> max_time" and "sched_cadence e = Every 0" and "next_fire e \<le> now"
  shows "parse_interval ''0s'' = Some 0 \<and> fire_due max_time [e] now = Some ([e], [e\<lparr>next_fire := now\<rparr>]) \<and>
    sleep_duration [e\<lparr>next_fire := now\<rparr>] now = 0"
proof -
  have "parse_interval ''0s'' = Some 0"
    by (simp add: parse_interval_def is_char_boundary_def cont_def u8_of_def parse_uint_def)
  then show ?thesis
    using assms by (simp add: duration_seconds_def time_add_def sleep_duration_def)
qed

text \<open>So is an interval longer than the time library can hold, which panics when the entry is added.\<close>

lemma long_interval_panics: "I64_MAX div 1000 < seconds \<Longrightarrow> compute_next_fire max_time (Every seconds) now = None"
  by (auto simp: duration_seconds_def I64_MAX_def min_def)

end
