(* ===== verification/Trace_Context.thy ===== *)
theory Trace_Context
  imports Hex Header_Map
begin

text \<open>
  W3C trace context, \<^verbatim>\<open>src/observe/trace_context.rs\<close>: the \<^verbatim>\<open>traceparent\<close> and \<^verbatim>\<open>tracestate\<close> headers,
  read from a request and written to outbound calls.

  A header map is a list of names and values, first match first.  The bytes of \<^verbatim>\<open>fill_unique\<close> are an
  argument of the operations that draw them; its fallback generator is modelled on 64-bit words with
  the seed (counter, address and clock, combined by exclusive or) as argument.  The span that the
  layer opens around the request is not modelled.
\<close>

section \<open>The code\<close>

definition FLAG_SAMPLED :: u8 where
  "FLAG_SAMPLED = 1"

definition MAX_TRACESTATE_MEMBERS :: nat where
  "MAX_TRACESTATE_MEMBERS = 32"

record TraceParent =
  trace_id :: bytes
  parent_id :: bytes
  flags :: u8

text \<open>One step of the fallback generator: the next seed and the eight bytes it yields.\<close>

type_synonym u64 = "64 word"

definition mix :: "u64 \<Rightarrow> u64" where
  "mix seed =
     (let a = (seed XOR drop_bit 30 seed) * 0xbf58476d1ce4e5b9;
          b = (a XOR drop_bit 27 a) * 0x94d049bb133111eb
      in b XOR drop_bit 31 b)"

definition to_le_bytes :: "u64 \<Rightarrow> bytes" where
  "to_le_bytes w = map (\<lambda>i. ucast (drop_bit (8 * i) w)) [0..<8]"

text \<open>The loop over the chunks of 8 bytes of a slice of \<open>n\<close>.\<close>

fun fill_chunks :: "u64 \<Rightarrow> nat \<Rightarrow> bytes" where
  "fill_chunks seed n =
     (if n = 0 then []
      else let seed' = seed + 0x9e3779b97f4a7c15
           in take n (to_le_bytes (mix seed')) @ fill_chunks seed' (n - 8))"

declare fill_chunks.simps [simp del]

text \<open>The operating system's generator when it is compiled in and answers, the fallback otherwise.\<close>

definition fill_unique :: "(nat \<Rightarrow> bytes option) \<Rightarrow> u64 \<Rightarrow> nat \<Rightarrow> bytes" where
  "fill_unique getrandom seed n = (case getrandom n of Some b \<Rightarrow> b | None \<Rightarrow> fill_chunks seed n)"

definition nonzero_id :: "bytes \<Rightarrow> bytes" where
  "nonzero_id b = (if b = replicate (length b) 0 then b[length b - 1 := 1] else b)"

definition root :: "bytes \<Rightarrow> TraceParent" where
  "root drawn =
     \<lparr>trace_id = nonzero_id (take 16 drawn), parent_id = nonzero_id (drop 16 drawn), flags = FLAG_SAMPLED\<rparr>"

definition child :: "bytes \<Rightarrow> TraceParent \<Rightarrow> TraceParent" where
  "child drawn self = self\<lparr>parent_id := nonzero_id drawn\<rparr>"

text \<open>\<^verbatim>\<open>hex_byte\<close> reads lowercase digits only; a pair with a missing byte is refused.\<close>

definition hex_byte :: "bytes \<Rightarrow> u8 option" where
  "hex_byte pair = unpair nibble_lower pair"

definition slice2 :: "bytes \<Rightarrow> nat \<Rightarrow> bytes" where
  "slice2 b i = take 2 (drop i b)"

definition hex_bytes_at :: "bytes \<Rightarrow> nat \<Rightarrow> nat \<Rightarrow> bytes option" where
  "hex_bytes_at b start n = those (map (\<lambda>index. hex_byte (slice2 b (start + index * 2))) [0..<n])"

definition parse_traceparent :: "string \<Rightarrow> TraceParent option" where
  "parse_traceparent s =
     (let b = as_bytes (trim s)
      in if length b \<noteq> 55 then None
         else if b ! 2 \<noteq> u8_of CHR ''-'' \<or> b ! 35 \<noteq> u8_of CHR ''-'' \<or> b ! 52 \<noteq> u8_of CHR ''-'' then None
         else Option.bind (hex_byte (slice2 b 0)) (\<lambda>version.
              if version \<noteq> 0 then None
              else Option.bind (hex_bytes_at b 3 16) (\<lambda>tid.
                   Option.bind (hex_bytes_at b 36 8) (\<lambda>pid.
                   if tid = replicate 16 0 \<or> pid = replicate 8 0 then None
                   else Option.bind (hex_byte (slice2 b 53)) (\<lambda>fl.
                        Some \<lparr>trace_id = tid, parent_id = pid, flags = fl\<rparr>)))))"

definition show_traceparent :: "TraceParent \<Rightarrow> string" where
  "show_traceparent self =
     ''00-'' @ hex_encode (trace_id self) @ ''-'' @ hex_encode (parent_id self) @ ''-'' @ hex_pair (flags self)"

definition sampled :: "TraceParent \<Rightarrow> bool" where
  "sampled self = (flags self AND FLAG_SAMPLED \<noteq> 0)"

definition parse_tracestate :: "string \<Rightarrow> string option" where
  "parse_tracestate s =
     (let value = trim s
      in if value = [] then None
         else if length value > 512 then None
         else let members = length (filter (\<lambda>m. trim m \<noteq> []) (split_on (\<lambda>c. c = CHR '','') value))
              in if members = 0 \<or> members > MAX_TRACESTATE_MEMBERS then None
                 else if \<not> list_all printable value then None
                 else Some value)"

definition to_header_value :: "TraceParent \<Rightarrow> string" where
  "to_header_value self =
     (if list_all header_text (show_traceparent self) then show_traceparent self else [])"

record TraceContext =
  parent :: TraceParent
  state :: "string option"
  continued :: bool

definition from_headers :: "bytes \<Rightarrow> headers \<Rightarrow> TraceContext" where
  "from_headers drawn headers =
     (case Option.bind (header_str headers ''traceparent'') parse_traceparent of
        Some p \<Rightarrow> \<lparr>parent = p, state = Option.bind (header_str headers ''tracestate'') parse_tracestate,
                   continued = True\<rparr>
      | None \<Rightarrow> \<lparr>parent = root drawn, state = None, continued = False\<rparr>)"

definition outbound_headers :: "bytes \<Rightarrow> TraceContext \<Rightarrow> headers" where
  "outbound_headers drawn self =
     (''traceparent'', to_header_value (child drawn (parent self))) #
     (case state self of
        Some st \<Rightarrow> if list_all header_text st then [(''tracestate'', st)] else []
      | None \<Rightarrow> [])"

section \<open>Reading and writing traceparent\<close>

lemma unpairs_lower_iff:
  "even (length s) \<Longrightarrow> unpairs nibble_lower (chunks 2 (as_bytes s)) = Some b \<longleftrightarrow> s = hex_encode b"
proof (induction s arbitrary: b rule: induct_list012)
  case (3 c d s)
  have ch: "chunks 2 (u8_of c # u8_of d # as_bytes s) = [u8_of c, u8_of d] # chunks 2 (as_bytes s)"
    using chunks_append [of "[u8_of c, u8_of d]" 2] by simp
  have pair: "unpair nibble_lower [u8_of c, u8_of d] = Some x \<longleftrightarrow> [c, d] = hex_pair x" for x
  proof
    assume "unpair nibble_lower [u8_of c, u8_of d] = Some x"
    then have "as_bytes (hex_pair x) = as_bytes [c, d]"
      using hex_pair_unpair_lower by simp
    then show "[c, d] = hex_pair x"
      by (simp only: as_bytes_inject)
  next
    assume "[c, d] = hex_pair x"
    then have "[u8_of c, u8_of d] = as_bytes (hex_pair x)"
      by (metis as_bytes_Nil_Cons(1,2))
    then show "unpair nibble_lower [u8_of c, u8_of d] = Some x"
      by (simp add: unpair_hex_pair)
  qed
  show ?case
  proof (cases b)
    case Nil
    then show ?thesis by (simp add: ch split: option.splits)
  next
    case (Cons x bs)
    have "c # d # s = hex_encode (x # bs) \<longleftrightarrow> [c, d] = hex_pair x \<and> s = hex_encode bs"
      by (auto simp: hex_pair_def)
    also have "\<dots> \<longleftrightarrow> unpairs nibble_lower (chunks 2 (as_bytes (c # d # s))) = Some (x # bs)"
      using 3 pair [of x] by (auto simp: ch split: option.splits)
    finally show ?thesis by (simp only: Cons)
  qed
next
  case 1
  show ?case by (cases b) (auto simp: hex_pair_def)
qed simp

lemma hex_bytes_at_chunks:
  "start + 2 * n \<le> length b \<Longrightarrow>
   hex_bytes_at b start n = unpairs nibble_lower (chunks 2 (take (2 * n) (drop start b)))"
proof (induction n arbitrary: start)
  case 0
  then show ?case by (simp add: hex_bytes_at_def)
next
  case (Suc n)
  have IH: "hex_bytes_at b (start + 2) n = unpairs nibble_lower (chunks 2 (take (2 * n) (drop (start + 2) b)))"
    using Suc.prems by (intro Suc.IH) simp
  define p where "p = slice2 b start"
  have p: "length p = 2"
    using Suc.prems by (simp add: p_def slice2_def)
  have "take (2 * Suc n) (drop start b) = p @ take (2 * n) (drop (start + 2) b)"
    by (simp add: p_def slice2_def take_add [of 2, simplified])
  then have "unpairs nibble_lower (chunks 2 (take (2 * Suc n) (drop start b))) =
      unpairs nibble_lower (p # chunks 2 (take (2 * n) (drop (start + 2) b)))"
    using p by (simp add: chunks_append)
  also have "\<dots> = (case hex_byte p of None \<Rightarrow> None | Some x \<Rightarrow> map_option ((#) x) (hex_bytes_at b (start + 2) n))"
    by (simp only: IH unpairs.simps hex_byte_def)
  also have "\<dots> = hex_bytes_at b start (Suc n)"
    by (simp add: hex_bytes_at_def upt_conv_Cons map_Suc_upt [symmetric] comp_def p_def add.assoc
        del: upt_Suc split: option.splits)
  finally show ?case by simp
qed

lemma hex_bytes_at_iff:
  assumes "start + 2 * n \<le> length s"
  shows "hex_bytes_at (as_bytes s) start n = Some v \<longleftrightarrow> take (2 * n) (drop start s) = hex_encode v"
  using assms unpairs_lower_iff [of "take (2 * n) (drop start s)" v]
  by (simp add: hex_bytes_at_chunks as_bytes_def take_map drop_map)

lemma hex_byte_iff:
  assumes "i + 2 \<le> length s"
  shows "hex_byte (slice2 (as_bytes s) i) = Some v \<longleftrightarrow> take 2 (drop i s) = hex_pair v"
proof -
  have "hex_bytes_at (as_bytes s) i 1 = map_option (\<lambda>x. [x]) (hex_byte (slice2 (as_bytes s) i))"
    by (simp add: hex_bytes_at_def split: option.splits)
  then show ?thesis
    using hex_bytes_at_iff [of i 1 s "[v]"] assms by auto
qed

text \<open>The identifiers a trace may have.\<close>

definition well_formed :: "TraceParent \<Rightarrow> bool" where
  "well_formed tp =
     (length (trace_id tp) = 16 \<and> trace_id tp \<noteq> replicate 16 0 \<and>
      length (parent_id tp) = 8 \<and> parent_id tp \<noteq> replicate 8 0)"

lemma traceparent_fields:
  assumes "length s = 55"
  shows "s = take 2 s @ [s ! 2] @ take 32 (drop 3 s) @ [s ! 35] @ take 16 (drop 36 s) @ [s ! 52] @ take 2 (drop 53 s)"
  using assms
  by (auto simp: list_eq_iff_nth_eq nth_append nth_Cons' intro!: arg_cong [where f = "nth s"])

lemma version_00: "hex_pair 0 = ''00''"
  by code_simp

lemma hex_encode_take: "take n (drop k xs) = hex_encode v \<Longrightarrow> k + n \<le> length xs \<Longrightarrow> 2 * length v = n"
  by (metis add_le_imp_le_diff add.commute length_drop length_hex_encode length_take min.absorb2)

lemma parse_traceparent_iff_core:
  "parse_traceparent s = Some tp \<longleftrightarrow> well_formed tp \<and> trim s = show_traceparent tp"
proof -
  define v where "v = trim s"
  have dash: "as_bytes v ! i = u8_of CHR ''-'' \<longleftrightarrow> v ! i = CHR ''-''" if "i < length v" for i
    using that by (simp add: as_bytes_def)
  have parts: "length (show_traceparent tp) = 55 \<and> take 2 (show_traceparent tp) = ''00'' \<and>
      show_traceparent tp ! 2 = CHR ''-'' \<and> take 32 (drop 3 (show_traceparent tp)) = hex_encode (trace_id tp) \<and>
      show_traceparent tp ! 35 = CHR ''-'' \<and> take 16 (drop 36 (show_traceparent tp)) = hex_encode (parent_id tp) \<and>
      show_traceparent tp ! 52 = CHR ''-'' \<and> take 2 (drop 53 (show_traceparent tp)) = hex_pair (flags tp)"
    if "well_formed tp"
    using that by (simp add: well_formed_def show_traceparent_def nth_append nth_Cons')
  have "parse_traceparent s = Some tp \<longleftrightarrow>
      length v = 55 \<and> v ! 2 = CHR ''-'' \<and> v ! 35 = CHR ''-'' \<and> v ! 52 = CHR ''-'' \<and> take 2 v = ''00'' \<and>
      take 32 (drop 3 v) = hex_encode (trace_id tp) \<and> trace_id tp \<noteq> replicate 16 0 \<and>
      take 16 (drop 36 v) = hex_encode (parent_id tp) \<and> parent_id tp \<noteq> replicate 8 0 \<and>
      take 2 (drop 53 v) = hex_pair (flags tp)" (is "_ \<longleftrightarrow> ?fields")
  proof (cases "length v = 55")
    case True
    then show ?thesis
      using hex_byte_iff [of 0 v] hex_byte_iff [of 53 v] hex_bytes_at_iff [of 3 16 v] hex_bytes_at_iff [of 36 8 v]
      by (cases tp) (auto simp: parse_traceparent_def Let_def v_def [symmetric] dash bind_eq_Some_iff
          version_00 split: if_splits)
  qed (simp add: parse_traceparent_def Let_def v_def [symmetric])
  also have "\<dots> \<longleftrightarrow> well_formed tp \<and> v = show_traceparent tp"
  proof
    assume f: ?fields
    then have "v = ''00'' @ ''-'' @ hex_encode (trace_id tp) @ ''-'' @ hex_encode (parent_id tp) @ ''-'' @ hex_pair (flags tp)"
      using traceparent_fields [of v] by simp
    moreover have "2 * length (trace_id tp) = 32" "2 * length (parent_id tp) = 16"
    proof -
      from f have "length v = 55" "take 32 (drop 3 v) = hex_encode (trace_id tp)"
        "take 16 (drop 36 v) = hex_encode (parent_id tp)"
        by blast+
      then show "2 * length (trace_id tp) = 32" "2 * length (parent_id tp) = 16"
        using hex_encode_take [of 32 3 v "trace_id tp"] hex_encode_take [of 16 36 v "parent_id tp"]
        by linarith+
    qed
    ultimately show "well_formed tp \<and> v = show_traceparent tp"
      using f by (simp add: well_formed_def show_traceparent_def)
  next
    assume "well_formed tp \<and> v = show_traceparent tp"
    then show ?fields
      using parts by (auto simp: well_formed_def)
  qed
  finally show ?thesis
    by (simp only: v_def)
qed

text \<open>
  The \<^verbatim>\<open>traceparent\<close> parser accepts a value exactly when, without surrounding white space, it is
  the header of a trace context with identifiers of the right size that are not all zero, and returns
  that context: printing and parsing are inverse, and no second spelling is accepted.
\<close>
theorem parse_traceparent_iff:
  "parse_traceparent s = Some tp \<longleftrightarrow> well_formed tp \<and> trim s = show_traceparent tp"
  by (rule parse_traceparent_iff_core)

section \<open>Identifiers\<close>

lemma length_nonzero_id [simp]: "length (nonzero_id b) = length b"
  by (simp add: nonzero_id_def)

lemma nonzero_id_nonzero: "0 < length b \<Longrightarrow> nonzero_id b \<noteq> replicate (length b) 0"
proof (cases "b = replicate (length b) 0")
  case True
  assume "0 < length b"
  then have "b \<noteq> []"
    by simp
  then have "nonzero_id b ! (length b - 1) = 1"
    using True by (simp add: nonzero_id_def)
  then show ?thesis
    using \<open>b \<noteq> []\<close> by (metis diff_less length_greater_0_conv nth_replicate zero_less_one zero_neq_one)
qed (simp add: nonzero_id_def)

lemma root_well_formed: "length drawn = 24 \<Longrightarrow> well_formed (root drawn)"
  using nonzero_id_nonzero [of "take 16 drawn"] nonzero_id_nonzero [of "drop 16 drawn"]
  by (auto simp: well_formed_def root_def)

lemma child_well_formed: "length drawn = 8 \<Longrightarrow> well_formed p \<Longrightarrow> well_formed (child drawn p)"
  using nonzero_id_nonzero [of drawn] by (auto simp: well_formed_def child_def)

lemma length_fill_chunks: "length (fill_chunks seed n) = n"
proof (induction seed n rule: fill_chunks.induct)
  case (1 seed n)
  then show ?case
    by (subst fill_chunks.simps) (auto simp: Let_def to_le_bytes_def)
qed

lemma length_fill_unique:
  "(\<And>b. getrandom n = Some b \<Longrightarrow> length b = n) \<Longrightarrow> length (fill_unique getrandom seed n) = n"
  by (auto simp: fill_unique_def length_fill_chunks split: option.splits)

section \<open>The vendor state\<close>

lemma parse_tracestate_value:
  assumes "parse_tracestate s = Some st"
  shows "parse_tracestate st = Some st" and "list_all header_text st"
proof -
  have "st = trim s" "list_all printable st"
    using assms by (auto simp: parse_tracestate_def Let_def split: if_splits)
  then have "trim st = st"
    using trim_trim_text [of s] by (auto simp: list_all_iff header_text_def)
  with assms \<open>st = trim s\<close> show "parse_tracestate st = Some st"
    by (simp add: parse_tracestate_def)
  show "list_all header_text st"
    using \<open>list_all printable st\<close> by (auto simp: list_all_iff header_text_def)
qed

section \<open>Propagation\<close>

lemma HEX_graphic: "c \<in> set HEX \<Longrightarrow> graphic c"
  by (auto simp: HEX_def graphic_def)

lemma graphic_header_text: "graphic c \<Longrightarrow> header_text c"
  by (simp add: graphic_def header_text_def printable_def)

lemma show_traceparent_graphic: "c \<in> set (show_traceparent tp) \<Longrightarrow> graphic c"
  using set_hex_encode [of c "[flags tp]"] set_hex_encode HEX_graphic
  by (auto simp: show_traceparent_def graphic_def)

lemma to_header_value_eq: "to_header_value tp = show_traceparent tp"
  using show_traceparent_graphic graphic_header_text
  by (auto simp: to_header_value_def list_all_iff)

lemma header_traceparent:
  "well_formed tp \<Longrightarrow> header_str ((''traceparent'', to_header_value tp) # hs) ''traceparent'' = Some (show_traceparent tp)
     \<and> parse_traceparent (show_traceparent tp) = Some tp"
  using show_traceparent_graphic [of _ tp] graphic_header_text
  by (auto simp: to_header_value_eq header_str_def hm_get_def to_str_def list_all_iff parse_traceparent_iff_core trim_graphic)

text \<open>
  A request that carries the outbound headers of a context continues it: the receiver reads the
  same trace identifier, sampling flags and vendor state, the caller's new span as parent, and knows the
  trace as continued, whether the context itself was read from headers or started here.
\<close>
theorem outbound_continues_trace:
  assumes "length drawn = 24" and "length span = 8" and "context = from_headers drawn headers"
  shows "from_headers drawn' (outbound_headers span context) =
    \<lparr>parent = child span (parent context), state = state context, continued = True\<rparr>"
proof -
  have wf: "well_formed (child span (parent context))"
    using assms root_well_formed
    by (intro child_well_formed)
      (auto simp: from_headers_def bind_eq_Some_iff parse_traceparent_iff_core split: option.splits)
  have st: "parse_tracestate st = Some st \<and> list_all header_text st" if "state context = Some st" for st
    using that assms(3) parse_tracestate_value
    by (auto simp: from_headers_def bind_eq_Some_iff split: option.splits)
  define hs where "hs = (case state context of Some st \<Rightarrow> if list_all header_text st then [(''tracestate'', st)] else []
    | None \<Rightarrow> [])"
  have out: "outbound_headers span context = (''traceparent'', to_header_value (child span (parent context))) # hs"
    by (simp add: outbound_headers_def hs_def)
  have "Option.bind (header_str (outbound_headers span context) ''tracestate'') parse_tracestate = state context"
    using st by (auto simp: out hs_def header_str_def hm_get_def to_str_def split: option.splits)
  then show ?thesis
    using header_traceparent [OF wf, of hs] by (simp add: from_headers_def out)
qed

theorem outbound_continues_trace_witness:
  "continued (from_headers [] (outbound_headers (replicate 8 7) (from_headers (replicate 24 0) [])))"
  using outbound_continues_trace [of "replicate 24 0" "replicate 8 7" "from_headers (replicate 24 0) []" "[]" "[]"]
  by simp

end
