(* ===== verification/Storage_Names.thy ===== *)
theory Storage_Names
  imports Hex
begin

text \<open>
  The names under which uploads are kept: \<^verbatim>\<open>src/storage/filename.rs\<close> (client filenames),
  \<^verbatim>\<open>src/storage/path.rs\<close> (object keys), \<^verbatim>\<open>src/storage/content.rs\<close> (content addresses) and
  \<^verbatim>\<open>src/storage/sniff.rs\<close> (what the bytes themselves claim to be).

  Strings are UTF-8; a loop over \<^verbatim>\<open>char\<close>s that only looks for ASCII is a loop over bytes.  Unicode
  normalization (package \<^verbatim>\<open>unicode-normalization\<close>), SHA-256 and the signature database (package
  \<^verbatim>\<open>infer\<close>) are the arguments \<open>nfc\<close>, \<open>sha\<close> and \<open>infer\<close>.
\<close>

section \<open>Code points\<close>

text \<open>\<^verbatim>\<open>str::chars\<close> on valid UTF-8; bytes that start no sequence count as one character.\<close>

function utf8_chars :: "nat list \<Rightarrow> nat list" where
  "utf8_chars [] = []"
| "utf8_chars (a # s) =
     (if a < 128 then a # utf8_chars s
      else if a < 224 then ((a mod 32) * 64 + s ! 0 mod 64) # utf8_chars (drop 1 s)
      else if a < 240 then ((a mod 16) * 4096 + (s ! 0 mod 64) * 64 + s ! 1 mod 64) # utf8_chars (drop 2 s)
      else ((a mod 8) * 262144 + (s ! 0 mod 64) * 4096 + (s ! 1 mod 64) * 64 + s ! 2 mod 64) #
           utf8_chars (drop 3 s))"
  by pat_completeness auto
termination
  by (relation "measure length") auto

definition chars :: "string \<Rightarrow> nat list" where
  "chars s = utf8_chars (map of_char s)"

section \<open>Client filenames\<close>

definition MAX_INPUT_BYTES :: nat where
  "MAX_INPUT_BYTES = 4096"

definition MAX_FILENAME_BYTES :: nat where
  "MAX_FILENAME_BYTES = 255"

definition MAX_EXTENSION_BYTES :: nat where
  "MAX_EXTENSION_BYTES = 16"

definition RESERVED_DEVICE_NAMES :: "string list" where
  "RESERVED_DEVICE_NAMES =
     [''CON'', ''PRN'', ''AUX'', ''NUL'', ''CONIN$'', ''CONOUT$'', ''COM0'', ''COM1'', ''COM2'', ''COM3'',
      ''COM4'', ''COM5'', ''COM6'', ''COM7'', ''COM8'', ''COM9'', ''LPT0'', ''LPT1'', ''LPT2'', ''LPT3'',
      ''LPT4'', ''LPT5'', ''LPT6'', ''LPT7'', ''LPT8'', ''LPT9'']"

datatype FilenameError =
    FnEmpty
  | FnTooLong
  | FnControlChar
  | FnTraversal
  | FnMissingExtension
  | FnInvalidExtension
  | FnExtensionNotAllowed
  | FnEmptyStem
  | FnReservedName

text \<open>An \<^verbatim>\<open>Extension\<close> is its lowercase text.\<close>

definition extension_parse :: "string \<Rightarrow> (FilenameError, string) result" where
  "extension_parse e =
     (if e = [] then Err FnMissingExtension
      else if length e > MAX_EXTENSION_BYTES then Err FnInvalidExtension
      else if \<not> list_all is_ascii_alphanumeric e then Err FnInvalidExtension
      else Ok (to_ascii_lowercase e))"

type_synonym allowed_extensions = "string set"

fun allowed_new :: "string list \<Rightarrow> (FilenameError, allowed_extensions) result" where
  "allowed_new [] = Ok {}"
| "allowed_new (e # es) =
     rbind (extension_parse e) (\<lambda>x. rbind (allowed_new es) (\<lambda>a. Ok (insert x a)))"

definition allowed_with :: "allowed_extensions \<Rightarrow> string \<Rightarrow> (FilenameError, allowed_extensions) result" where
  "allowed_with self e = rbind (extension_parse e) (\<lambda>x. Ok (insert x self))"

text \<open>The two built-in lists; the \<^verbatim>\<open>expect\<close> of their construction is discharged below.\<close>

definition image_extensions :: "string list" where
  "image_extensions = [''jpg'', ''jpeg'', ''png'', ''gif'', ''webp'']"

definition document_extensions :: "string list" where
  "document_extensions = [''pdf'', ''txt'', ''csv'']"

definition is_fatal_char :: "nat \<Rightarrow> bool" where
  "is_fatal_char ch =
     (ch \<le> 0x1F \<or> 0x7F \<le> ch \<and> ch \<le> 0x9F \<or> ch = 0xAD \<or> ch = 0x61C \<or> ch = 0x180E \<or>
      0x200B \<le> ch \<and> ch \<le> 0x200F \<or> 0x2028 \<le> ch \<and> ch \<le> 0x202E \<or> 0x2060 \<le> ch \<and> ch \<le> 0x2064 \<or>
      0x2066 \<le> ch \<and> ch \<le> 0x206F \<or> ch = 0x3164 \<or> ch = 0xFEFF \<or> 0xFFF9 \<le> ch \<and> ch \<le> 0xFFFB \<or>
      0xE0000 \<le> ch \<and> ch \<le> 0xE007F)"

definition is_repaired_char :: "char \<Rightarrow> bool" where
  "is_repaired_char ch =
     (ch \<in> {CHR ''.'', CHR ''/'', CHR 0x5C, CHR '':'', CHR ''*'', CHR ''?'', CHR 0x22, CHR ''<'', CHR ''>'',
             CHR ''|''})"

definition is_reserved_device_name :: "string \<Rightarrow> bool" where
  "is_reserved_device_name name =
     list_ex (\<lambda>reserved. eq_ignore_ascii_case reserved name) RESERVED_DEVICE_NAMES"

definition truncate_on_char_boundary :: "string \<Rightarrow> nat \<Rightarrow> string" where
  "truncate_on_char_boundary txt budget =
     (if length txt \<le> budget then txt else take (boundary_at_most txt budget) txt)"

text \<open>\<^verbatim>\<open>trim_end_matches\<close> with a set of characters, and the part after the last separator.\<close>

definition trim_end_matches :: "(char \<Rightarrow> bool) \<Rightarrow> string \<Rightarrow> string" where
  "trim_end_matches p s = rev (dropWhile p (rev s))"

definition dot_or_space :: "char \<Rightarrow> bool" where
  "dot_or_space c = (c = CHR ''.'' \<or> c = CHR '' '')"

definition is_separator :: "char \<Rightarrow> bool" where
  "is_separator c = (c = CHR ''/'' \<or> c = CHR 0x5C)"

record SafeFilename =
  stem :: string
  extension :: string

definition repair_stem :: "string \<Rightarrow> string" where
  "repair_stem raw = map (\<lambda>ch. if is_repaired_char ch then CHR ''_'' else ch) raw"

definition safe_filename_parse :: "(string \<Rightarrow> string) \<Rightarrow> string \<Rightarrow> allowed_extensions \<Rightarrow>
    (FilenameError, SafeFilename) result" where
  "safe_filename_parse nfc filename allowed =
     (if filename = [] then Err FnEmpty
      else if length filename > MAX_INPUT_BYTES then Err FnTooLong
      else if list_ex is_fatal_char (chars filename) then Err FnControlChar
      else let base = trim (last (split_on is_separator filename))
      in if base = [] then Err FnEmpty
      else if base = ''.'' \<or> base = ''..'' then Err FnTraversal
      else let base = trim_start (trim_end_matches dot_or_space (nfc base))
      in if base = [] then Err FnEmpty
      else if is_reserved_device_name (trim_end_matches dot_or_space (hd (split CHR ''.'' base)))
        then Err FnReservedName
      else rbind (ok_or (rsplit_once CHR ''.'' base) FnMissingExtension) (\<lambda>(stem_raw, extension_raw).
           rbind (extension_parse extension_raw) (\<lambda>ext.
           if ext \<notin> allowed then Err FnExtensionNotAllowed
           else let st = trim (repair_stem stem_raw)
           in if st = [] then Err FnEmptyStem
           else if is_reserved_device_name st then Err FnReservedName
           else let st = truncate_on_char_boundary st (MAX_FILENAME_BYTES - (length ext + 1))
           in if st = [] then Err FnEmptyStem
           else Ok \<lparr>stem = st, extension = ext\<rparr>)))"

definition show_filename :: "SafeFilename \<Rightarrow> string" where
  "show_filename self = stem self @ ''.'' @ extension self"

section \<open>Object keys\<close>

datatype StoragePathError = PathEmpty | PathAbsolute | PathTraversal | PathBackslash | PathControlChar | PathEmptySegment

fun check_segments :: "string list \<Rightarrow> (StoragePathError, unit) result" where
  "check_segments [] = Ok ()"
| "check_segments (segment # rest) =
     (if segment = ''..'' then Err PathTraversal
      else if segment = [] then Err PathEmptySegment
      else check_segments rest)"

definition control_byte :: "char \<Rightarrow> bool" where
  "control_byte b = ((of_char b :: nat) < 0x20 \<or> (of_char b :: nat) = 0x7F)"

definition validate_key :: "string \<Rightarrow> (StoragePathError, unit) result" where
  "validate_key key =
     (if key = [] then Err PathEmpty
      else if starts_with ''/'' key then Err PathAbsolute
      else if CHR 0x5C \<in> set key then Err PathBackslash
      else if list_ex control_byte key then Err PathControlChar
      else let trimmed = (case strip_suffix ''/'' key of Some t \<Rightarrow> t | None \<Rightarrow> key)
           in check_segments (split CHR ''/'' trimmed))"

text \<open>A \<^verbatim>\<open>StoragePath\<close> is its key.\<close>

definition storage_path_new :: "string \<Rightarrow> (StoragePathError, string) result" where
  "storage_path_new key = rbind (validate_key key) (\<lambda>_. Ok key)"

definition path_from_filename :: "(string \<Rightarrow> string) \<Rightarrow> string \<Rightarrow> allowed_extensions \<Rightarrow>
    (FilenameError, string) result" where
  "path_from_filename nfc filename allowed =
     rbind (safe_filename_parse nfc filename allowed) (\<lambda>safe.
     case storage_path_new (show_filename safe) of Ok k \<Rightarrow> Ok k | Err _ \<Rightarrow> Err FnEmpty)"

section \<open>Content addresses\<close>

definition DIGEST_HEX_LEN :: nat where
  "DIGEST_HEX_LEN = 64"

text \<open>The incremental hasher holds what it was fed.\<close>

record ContentHasher =
  fed :: bytes
  hashed_len :: nat

definition hasher_new :: ContentHasher where
  "hasher_new = \<lparr>fed = [], hashed_len = 0\<rparr>"

definition hasher_update :: "ContentHasher \<Rightarrow> bytes \<Rightarrow> ContentHasher" where
  "hasher_update self chunk =
     \<lparr>fed = fed self @ chunk, hashed_len = min (hashed_len self + length chunk) (2 ^ 64 - 1)\<rparr>"

record ContentAddress =
  digest :: string
  content_len :: nat
  content_ext :: string

definition hasher_finish :: "(bytes \<Rightarrow> bytes) \<Rightarrow> ContentHasher \<Rightarrow> string \<Rightarrow> ContentAddress" where
  "hasher_finish sha self ext =
     \<lparr>digest = hex_encode (sha (fed self)), content_len = hashed_len self, content_ext = ext\<rparr>"

definition address_of :: "(bytes \<Rightarrow> bytes) \<Rightarrow> bytes \<Rightarrow> string \<Rightarrow> ContentAddress" where
  "address_of sha bytes ext = hasher_finish sha (hasher_update hasher_new bytes) ext"

definition show_address :: "ContentAddress \<Rightarrow> string" where
  "show_address self =
     take 2 (digest self) @ ''/'' @ take 2 (drop 2 (digest self)) @ ''/'' @ digest self @ ''.'' @ content_ext self"

text \<open>\<open>Err\<close> where the \<^verbatim>\<open>expect\<close> of \<^verbatim>\<open>path\<close> would panic.\<close>

definition address_path :: "ContentAddress \<Rightarrow> (StoragePathError, string) result" where
  "address_path self = storage_path_new (show_address self)"

definition address_path_under :: "ContentAddress \<Rightarrow> string \<Rightarrow> (StoragePathError, string) result" where
  "address_path_under self pre =
     storage_path_new (trim_end_matches (\<lambda>c. c = CHR ''/'') pre @ ''/'' @ show_address self)"

section \<open>Signatures\<close>

definition SNIFF_BYTES :: nat where
  "SNIFF_BYTES = 512"

record SniffedType =
  sniff_ext :: string
  sniff_mime :: string

definition sniff :: "(bytes \<Rightarrow> SniffedType option) \<Rightarrow> bytes \<Rightarrow> SniffedType option" where
  "sniff infer bytes = infer (take SNIFF_BYTES bytes)"

definition SIGNATURES :: "(string \<times> string list) list" where
  "SIGNATURES =
     [(''jpg'', [''jpg'']), (''jpeg'', [''jpg'']), (''png'', [''png'']), (''gif'', [''gif'']), (''webp'', [''webp'']),
      (''bmp'', [''bmp'']), (''ico'', [''ico'']), (''tif'', [''tif'']), (''tiff'', [''tif'']), (''avif'', [''avif'']),
      (''heic'', [''heic'']), (''psd'', [''psd'']),
      (''pdf'', [''pdf'']), (''epub'', [''epub'']), (''rtf'', [''rtf'']), (''docx'', [''docx'', ''zip'']),
      (''xlsx'', [''xlsx'', ''zip'']), (''pptx'', [''pptx'', ''zip'']),
      (''zip'', [''zip'']), (''gz'', [''gz'']), (''bz2'', [''bz2'']), (''xz'', [''xz'']), (''zst'', [''zst'']),
      (''7z'', [''7z'']), (''rar'', [''rar'']),
      (''mp3'', [''mp3'']), (''wav'', [''wav'']), (''flac'', [''flac'']), (''ogg'', [''ogg'']), (''mp4'', [''mp4'']),
      (''m4a'', [''m4a'']), (''webm'', [''webm'']), (''mov'', [''mov'']), (''avi'', [''avi'']),
      (''woff'', [''woff'']), (''woff2'', [''woff2'']), (''ttf'', [''ttf'']), (''otf'', [''otf''])]"

definition expected_signatures :: "string \<Rightarrow> string list option" where
  "expected_signatures ext = map_of SIGNATURES ext"

datatype SniffError = Mismatch string string | Unrecognized string

definition sniff_verify :: "(bytes \<Rightarrow> SniffedType option) \<Rightarrow> bytes \<Rightarrow> string \<Rightarrow>
    (SniffError, SniffedType option) result" where
  "sniff_verify infer bytes ext =
     (case (expected_signatures ext, sniff infer bytes) of
        (Some expected, Some found) \<Rightarrow>
          if sniff_ext found \<in> set expected then Ok (Some found) else Err (Mismatch ext (sniff_mime found))
      | (Some _, None) \<Rightarrow> Err (Unrecognized ext)
      | (None, None) \<Rightarrow> Ok None
      | (None, Some found) \<Rightarrow> Err (Mismatch ext (sniff_mime found)))"

section \<open>Keys stay below their root\<close>

lemma check_segments_Ok_iff: "check_segments ws = Ok () \<longleftrightarrow> (\<forall>w \<in> set ws. w \<noteq> ''..'' \<and> w \<noteq> [])"
  by (induction ws) auto

lemma strip_slash: "strip_suffix ''/'' key = Some t \<Longrightarrow> split CHR ''/'' key = split CHR ''/'' t @ [[]]"
  by (auto simp: strip_suffix_eq_Some_iff split_on_append_sep)

lemma storage_path_new_Ok_iff:
  "storage_path_new key = Ok k \<longleftrightarrow>
     k = key \<and> key \<noteq> [] \<and> hd key \<noteq> CHR ''/'' \<and> CHR 0x5C \<notin> set key \<and> (\<forall>c \<in> set key. \<not> control_byte c) \<and>
     (\<forall>w \<in> set (split CHR ''/'' (case strip_suffix ''/'' key of Some t \<Rightarrow> t | None \<Rightarrow> key)). w \<noteq> ''..'' \<and> w \<noteq> [])"
  by (cases key)
    (auto simp: storage_path_new_def validate_key_def rbind_eq_Ok_iff Let_def check_segments_Ok_iff
      starts_with_def list_ex_iff)

text \<open>What a file system makes of a key below a directory: empty and \<open>.\<close> segments stay, \<open>..\<close> goes up.\<close>

fun resolve_segments :: "string list \<Rightarrow> string list \<Rightarrow> string list" where
  "resolve_segments dir [] = dir"
| "resolve_segments dir (w # ws) =
     (if w = [] \<or> w = ''.'' then resolve_segments dir ws
      else if w = ''..'' then resolve_segments (butlast dir) ws
      else resolve_segments (dir @ [w]) ws)"

lemma resolve_confined: "''..'' \<notin> set ws \<Longrightarrow> \<exists>rest. resolve_segments dir ws = dir @ rest"
proof (induction ws arbitrary: dir)
  case (Cons w ws)
  then obtain r1 r2 where "resolve_segments dir ws = dir @ r1" "resolve_segments (dir @ [w]) ws = (dir @ [w]) @ r2"
    by (metis list.set_intros(2))
  with Cons.prems show ?case by auto
qed simp

lemma split_separators:
  "CHR 0x5C \<notin> set s \<Longrightarrow> split_on is_separator s = split CHR ''/'' s"
  by (induction s) (auto simp: is_separator_def)

text \<open>
  A validated object key stays below whatever directory the disk is rooted in: however the file
  system splits and resolves it, with slashes or backslashes, the result extends the root.
\<close>
theorem storage_path_confined:
  assumes "storage_path_new key = Ok k"
  shows "\<exists>rest. resolve_segments dir (split_on is_separator k) = dir @ rest"
proof -
  have "''..'' \<notin> set (split CHR ''/'' key)"
    using assms strip_slash [of key] by (auto simp: storage_path_new_Ok_iff split: option.splits)
  then show ?thesis
    using assms resolve_confined by (auto simp: storage_path_new_Ok_iff split_separators)
qed

theorem storage_path_confined_witness:
  "\<exists>rest. resolve_segments [''srv'', ''files''] (split_on is_separator ''a/./b.png'') = [''srv'', ''files''] @ rest"
  by (rule storage_path_confined [of "''a/./b.png''"]) (simp add: storage_path_new_def validate_key_def
      starts_with_def control_byte_def strip_suffix_def strip_prefix_def rbind_def Let_def)

section \<open>Filenames\<close>

lemma sublist_trim_end_matches: "prefix (trim_end_matches p s) s"
  unfolding trim_end_matches_def
  by (metis rev_rev_ident suffix_dropWhile suffix_to_prefix)

lemma extension_parse_Ok:
  "extension_parse e = Ok x \<Longrightarrow> x = to_ascii_lowercase e \<and> 0 < length x \<and> length x \<le> MAX_EXTENSION_BYTES \<and>
    (\<forall>c \<in> set x. is_ascii_alphanumeric c)"
  by (auto simp: extension_parse_def to_ascii_lowercase_def list_all_iff is_ascii_alphanumeric_lower
      split: if_splits)

lemma built_in_extensions:
  "allowed_new image_extensions = Ok (set image_extensions)"
  "allowed_new document_extensions = Ok (set document_extensions)"
  by (simp_all add: image_extensions_def document_extensions_def extension_parse_def
      MAX_EXTENSION_BYTES_def is_ascii_alphanumeric_def to_ascii_lowercase_def ascii_lower_def rbind_def
      insert_commute)

text \<open>A valid UTF-8 string has no four continuation bytes in a row, so a cut on a character boundary
  loses at most three bytes of its budget.\<close>

definition short_runs :: "string \<Rightarrow> bool" where
  "short_runs s = (\<forall>i. i + 3 < length s \<longrightarrow> (\<exists>j \<le> 3. \<not> cont (u8_of (s ! (i + j)))))"

lemma short_runs_sublist:
  assumes "short_runs s" and "sublist t s"
  shows "short_runs t"
proof -
  obtain a b where s: "s = a @ t @ b"
    using assms(2) by (auto simp: sublist_def)
  show ?thesis
    unfolding short_runs_def
  proof (intro allI impI)
    fix i
    assume i: "i + 3 < length t"
    then have "length a + i + 3 < length s"
      by (simp add: s)
    then obtain j where "j \<le> 3" "\<not> cont (u8_of (s ! (length a + i + j)))"
      using assms(1) by (auto simp: short_runs_def)
    then show "\<exists>j \<le> 3. \<not> cont (u8_of (t ! (i + j)))"
      using i by (auto simp: s nth_append add.assoc intro!: exI [of _ j])
  qed
qed

lemma short_runs_repair: "short_runs s \<Longrightarrow> short_runs (repair_stem s)"
proof -
  assume runs: "short_runs s"
  have us: "\<not> cont (u8_of CHR ''_'')"
    by (simp add: cont_def u8_of_def)
  show ?thesis
    unfolding short_runs_def
  proof (intro allI impI)
    fix i
    assume i: "i + 3 < length (repair_stem s)"
    then obtain j where "j \<le> 3" "\<not> cont (u8_of (s ! (i + j)))"
      using runs by (auto simp: short_runs_def repair_stem_def)
    then show "\<exists>j \<le> 3. \<not> cont (u8_of (repair_stem s ! (i + j)))"
      using i us by (auto simp: repair_stem_def split: if_splits intro!: exI [of _ j])
  qed
qed

lemma boundary_at_most_short_runs:
  assumes "short_runs s" and "n < length s" and "3 \<le> n"
  shows "n - 3 \<le> boundary_at_most s n"
proof -
  have "n - 3 + 3 < length s"
    using assms by simp
  then obtain j where "j \<le> 3" "\<not> cont (u8_of (s ! (n - 3 + j)))"
    using assms(1) unfolding short_runs_def by blast
  then have "is_char_boundary s (n - 3 + j)" "n - 3 + j \<le> n"
    using assms by (auto simp: is_char_boundary_def)
  then show ?thesis
    using boundary_at_most_greatest by fastforce
qed

lemma cont_ge: "cont b \<Longrightarrow> 128 \<le> b"
  by (simp add: cont_def)

lemma valid_utf8_head:
  assumes "valid_utf8 (a # s)"
  shows "\<exists>u t. s = u @ t \<and> length u \<le> 3 \<and> (\<forall>b \<in> set u. 128 \<le> b) \<and> \<not> cont a \<and> valid_utf8 t \<and>
    length u = (if a \<le> 127 then 0 else if a \<le> 223 then 1 else if a \<le> 239 then 2 else 3)"
proof -
  consider "a \<le> 127" | "\<not> a \<le> 127" "194 \<le> a \<and> a \<le> 223"
    | "\<not> a \<le> 127" "\<not> (194 \<le> a \<and> a \<le> 223)" "224 \<le> a \<and> a \<le> 239"
    | "\<not> a \<le> 127" "\<not> (194 \<le> a \<and> a \<le> 223)" "\<not> (224 \<le> a \<and> a \<le> 239)" "240 \<le> a \<and> a \<le> 244"
    using assms by (simp only: valid_utf8.simps) meson
  then show ?thesis
  proof cases
    case 1
    with assms have "valid_utf8 s" by simp
    moreover have "\<not> cont a"
      using 1 by (simp add: cont_def word_le_nat_alt)
    ultimately show ?thesis
      using 1 by - (rule exI [of _ "[]"], rule exI [of _ s], simp)
  next
    case 2
    then obtain b t where "s = b # t" "cont b" "valid_utf8 t"
      using assms by (cases s) simp_all
    moreover have "\<not> cont a"
      using 2 by (simp add: cont_def word_le_nat_alt)
    ultimately show ?thesis
      using 2 by - (rule exI [of _ "[b]"], rule exI [of _ t], simp add: cont_ge)
  next
    case 3
    have "case s of b # c # t \<Rightarrow> (if a = 224 then 160 \<le> b \<and> b \<le> 191 else if a = 237 then 128 \<le> b \<and> b \<le> 159 else cont b) \<and> cont c \<and> valid_utf8 t
        | _ \<Rightarrow> False"
      using assms 3 by (simp only: valid_utf8.simps simp_thms if_True if_False)
    then obtain b c t where s: "s = b # c # t" and v: "valid_utf8 t" "cont c"
      "if a = 224 then 160 \<le> b \<and> b \<le> 191 else if a = 237 then 128 \<le> b \<and> b \<le> 159 else cont b"
      by (auto simp del: if_split split: list.splits)
    have "128 \<le> b"
      using v(3) by (auto simp: cont_def word_le_nat_alt split: if_splits)
    moreover have "\<not> cont a" "\<not> a \<le> 223"
      using 3 by (simp_all add: cont_def word_le_nat_alt)
    ultimately show ?thesis
      using 3 s v by - (rule exI [of _ "[b, c]"], rule exI [of _ t], simp add: cont_ge)
  next
    case 4
    have "case s of b # c # d # t \<Rightarrow> (if a = 240 then 144 \<le> b \<and> b \<le> 191 else if a = 244 then 128 \<le> b \<and> b \<le> 143 else cont b) \<and> cont c \<and> cont d \<and> valid_utf8 t
        | _ \<Rightarrow> False"
      using assms 4 by (simp only: valid_utf8.simps simp_thms if_True if_False)
    then obtain b c d t where s: "s = b # c # d # t" and v: "valid_utf8 t" "cont c" "cont d"
      "if a = 240 then 144 \<le> b \<and> b \<le> 191 else if a = 244 then 128 \<le> b \<and> b \<le> 143 else cont b"
      by (auto simp del: if_split split: list.splits)
    have "128 \<le> b"
      using v(4) by (auto simp: cont_def word_le_nat_alt split: if_splits)
    moreover have "\<not> cont a" "\<not> a \<le> 223" "\<not> a \<le> 239"
      using 4 by (simp_all add: cont_def word_le_nat_alt)
    ultimately show ?thesis
      using 4 s v by - (rule exI [of _ "[b, c, d]"], rule exI [of _ t], simp add: cont_ge)
  qed
qed

lemma valid_utf8_short_runs:
  "valid_utf8 b \<Longrightarrow> i + 3 < length b \<Longrightarrow> \<exists>j \<le> 3. \<not> cont (b ! (i + j))"
proof (induction b arbitrary: i rule: length_induct)
  case (1 b)
  then obtain a s where b: "b = a # s"
    by (cases b) auto
  obtain u t where u: "s = u @ t" "length u \<le> 3" "\<not> cont a" "valid_utf8 t"
    using valid_utf8_head [of a s] "1.prems"(1) unfolding b by blast
  show ?case
  proof (cases "i = 0")
    case True
    with u(3) show ?thesis by (auto simp: b)
  next
    case False
    show ?thesis
    proof (cases "i \<le> length u")
      case True
      define j where "j = length u + 1 - i"
      have j: "j \<le> 3" "i + j = Suc (length u)"
        using True False u(2) by (auto simp: j_def)
      then have "t \<noteq> []"
        using "1.prems"(2) by (auto simp: b u(1))
      then obtain c t' where t: "t = c # t'"
        by (cases t) auto
      have "\<not> cont c"
        using valid_utf8_head [of c t'] u(4) unfolding t by blast
      moreover have "b ! (i + j) = c"
        by (simp add: b u(1) t j(2) nth_append)
      ultimately show ?thesis
        using j(1) by auto
    next
      case False
      define k where "k = i - Suc (length u)"
      have k: "i = Suc (length u) + k" "k + 3 < length t"
        using False "1.prems"(2) by (auto simp: k_def b u(1))
      have "length t < length b"
        by (simp add: b u(1))
      then obtain j where "j \<le> 3" "\<not> cont (t ! (k + j))"
        using "1.IH" u(4) k(2) by blast
      then show ?thesis
        by (intro exI [of _ j]) (simp add: b u(1) k(1) nth_append add.assoc)
    qed
  qed
qed

lemma rust_str_short_runs:
  assumes "rust_str s"
  shows "short_runs s"
  unfolding short_runs_def
proof (intro allI impI)
  fix i
  assume i: "i + 3 < length s"
  then obtain j where "j \<le> 3" "\<not> cont (as_bytes s ! (i + j))"
    using valid_utf8_short_runs [of "as_bytes s" i] assms by (auto simp: rust_str_def)
  with i show "\<exists>j \<le> 3. \<not> cont (u8_of (s ! (i + j)))"
    by (intro exI [of _ j]) (simp add: as_bytes_def)
qed

text \<open>An ASCII byte of a valid string is one of its characters.\<close>

lemma utf8_chars_ascii:
  "valid_utf8 b \<Longrightarrow> x \<in> set b \<Longrightarrow> x \<le> 127 \<Longrightarrow> unat x \<in> set (utf8_chars (map unat b))"
proof (induction b rule: length_induct)
  case (1 b)
  then obtain a s where b: "b = a # s"
    by (cases b) auto
  obtain u t where u: "s = u @ t" "\<forall>b \<in> set u. 128 \<le> b" "valid_utf8 t"
    and len: "length u = (if a \<le> 127 then 0 else if a \<le> 223 then 1 else if a \<le> 239 then 2 else 3)"
    using valid_utf8_head [of a s] "1.prems"(1) unfolding b by blast
  have split: "\<exists>c. utf8_chars (map unat b) = c # utf8_chars (map unat t) \<and> (a \<le> 127 \<longrightarrow> c = unat a)"
    using len by (auto simp: b u(1) word_le_nat_alt split: if_splits)
  consider "x = a" | "x \<in> set u" | "x \<in> set t"
    using "1.prems"(2) by (auto simp: b u(1))
  then show ?case
  proof cases
    case 1
    with split "1.prems"(3) show ?thesis by auto
  next
    case 2
    then have "128 \<le> x"
      using u(2) by simp
    with "1.prems"(3) show ?thesis
      by (simp add: word_le_nat_alt)
  next
    case 3
    then have "unat x \<in> set (utf8_chars (map unat t))"
      using "1.IH" "1.prems"(3) u by (simp add: b)
    with split show ?thesis by auto
  qed
qed

lemma no_fatal_no_control:
  assumes "rust_str s" and "\<not> list_ex is_fatal_char (chars s)" and "c \<in> set s"
  shows "\<not> control_byte c"
proof
  assume c: "control_byte c"
  then have small: "(of_char c :: nat) \<le> 127"
    by (auto simp: control_byte_def)
  have "unat (u8_of c) \<in> set (utf8_chars (map unat (as_bytes s)))"
    using assms(1,3) small
    by (intro utf8_chars_ascii) (auto simp: rust_str_def as_bytes_def word_le_nat_alt unat_u8_of)
  then have "of_char c \<in> set (chars s)"
    by (simp add: chars_def as_bytes_def comp_def unat_u8_of)
  moreover have "is_fatal_char (of_char c)"
    using c by (auto simp: control_byte_def is_fatal_char_def)
  ultimately show False
    using assms(2) by (auto simp: list_ex_iff)
qed

text \<open>The steps of an accepted name, for the theorems below.\<close>

lemma safe_filename_parse_OkD:
  assumes "safe_filename_parse nfc filename allowed = Ok safe"
  obtains base b stem_raw extension_raw where
    "base = trim (last (split_on is_separator filename))"
    and "\<not> list_ex is_fatal_char (chars filename)"
    and "b = trim_start (trim_end_matches dot_or_space (nfc base))"
    and "rsplit_once CHR ''.'' b = Some (stem_raw, extension_raw)"
    and "extension_parse extension_raw = Ok (extension safe)" and "extension safe \<in> allowed"
    and "stem safe = truncate_on_char_boundary (trim (repair_stem stem_raw))
      (MAX_FILENAME_BYTES - (length (extension safe) + 1))"
    and "stem safe \<noteq> []" and "\<not> is_reserved_device_name (trim (repair_stem stem_raw))"
  using assms
  by (auto simp: safe_filename_parse_def Let_def rbind_eq_Ok_iff ok_or_def split: if_splits option.splits)

lemma rsplit_once_sublist: "rsplit_once d s = Some (a, b) \<Longrightarrow> sublist a s"
  by (auto simp: rsplit_once_eq_Some_iff)

lemma reserved_short: "is_reserved_device_name s \<Longrightarrow> length s \<le> 7"
proof -
  assume "is_reserved_device_name s"
  then obtain r where "r \<in> set RESERVED_DEVICE_NAMES" "to_ascii_lowercase r = to_ascii_lowercase s"
    by (auto simp: is_reserved_device_name_def list_ex_iff eq_ignore_ascii_case_def)
  moreover have "\<forall>r \<in> set RESERVED_DEVICE_NAMES. length r \<le> 7"
    by (simp add: RESERVED_DEVICE_NAMES_def)
  ultimately show ?thesis
    by (metis length_to_ascii_lowercase)
qed

lemma repaired_free: "c \<in> set (repair_stem raw) \<Longrightarrow> \<not> is_repaired_char c"
  by (auto simp: repair_stem_def is_repaired_char_def)

lemma set_truncate: "set (truncate_on_char_boundary s n) \<subseteq> set s"
  by (auto simp: truncate_on_char_boundary_def dest: in_set_takeD)

lemma length_truncate: "length (truncate_on_char_boundary s n) \<le> n"
  using boundary_at_most_le [of s n] by (simp add: truncate_on_char_boundary_def)

lemma truncate_not_reserved:
  assumes "short_runs s" and "\<not> is_reserved_device_name s" and "11 \<le> n"
  shows "\<not> is_reserved_device_name (truncate_on_char_boundary s n)"
proof (cases "length s \<le> n")
  case False
  then have "n - 3 \<le> boundary_at_most s n" "boundary_at_most s n \<le> length s"
    using boundary_at_most_short_runs [OF assms(1), of n] boundary_at_most_le [of s n] assms(3) by simp_all
  then have "7 < length (truncate_on_char_boundary s n)"
    using False assms(3) by (simp add: truncate_on_char_boundary_def)
  then show ?thesis
    using reserved_short by fastforce
qed (use assms(2) in \<open>simp add: truncate_on_char_boundary_def\<close>)

text \<open>
  C39.  Whatever name a client sends, an accepted filename is one harmless path component: at most 255
  bytes, a non-empty stem without dots, separators or any character a shell or file system gives a
  meaning, one lowercase ASCII extension from the allowed list, and no Windows device name.
\<close>
theorem safe_filename_is_safe:
  assumes "safe_filename_parse nfc filename allowed = Ok safe" and "\<forall>x. rust_str (nfc x)"
  shows "length (show_filename safe) \<le> 255 \<and> stem safe \<noteq> [] \<and> (\<forall>c \<in> set (stem safe). \<not> is_repaired_char c) \<and>
    extension safe \<in> allowed \<and> extension safe \<noteq> [] \<and> (\<forall>c \<in> set (extension safe). is_ascii_alphanumeric c) \<and>
    split CHR ''.'' (show_filename safe) = [stem safe, extension safe] \<and>
    \<not> is_reserved_device_name (stem safe)"
proof -
  obtain base b raw ext where b: "b = trim_start (trim_end_matches dot_or_space (nfc base))"
    and rs: "rsplit_once CHR ''.'' b = Some (raw, ext)" and ext: "extension_parse ext = Ok (extension safe)"
    and allowed: "extension safe \<in> allowed"
    and st: "stem safe = truncate_on_char_boundary (trim (repair_stem raw))
      (MAX_FILENAME_BYTES - (length (extension safe) + 1))"
    and ne: "stem safe \<noteq> []" and free: "\<not> is_reserved_device_name (trim (repair_stem raw))"
    using safe_filename_parse_OkD [OF assms(1)] by metis
  note e = extension_parse_Ok [OF ext, THEN conjunct2]
  have stem_chars: "\<not> is_repaired_char c" if "c \<in> set (stem safe)" for c
    using that set_truncate set_trim repaired_free unfolding st by blast
  have "sublist b (nfc base)"
    unfolding b
    by (meson prefix_imp_sublist sublist_order.order.trans sublist_trim_end_matches suffix_imp_sublist
        suffix_trim_start)
  then have "short_runs raw"
    using rust_str_short_runs assms(2) rsplit_once_sublist [OF rs] short_runs_sublist by blast
  then have "short_runs (trim (repair_stem raw))"
    using short_runs_repair short_runs_sublist sublist_trim by blast
  then have "\<not> is_reserved_device_name (stem safe)"
    unfolding st using free e
    by (intro truncate_not_reserved) (auto simp: MAX_FILENAME_BYTES_def MAX_EXTENSION_BYTES_def)
  moreover have "length (show_filename safe) \<le> 255"
    using length_truncate [of "trim (repair_stem raw)" "MAX_FILENAME_BYTES - (length (extension safe) + 1)"] e
    by (auto simp: st show_filename_def MAX_FILENAME_BYTES_def MAX_EXTENSION_BYTES_def)
  moreover have "CHR ''.'' \<notin> set (extension safe)"
    using e by (auto simp: is_ascii_alphanumeric_def)
  moreover from this have ext1: "split CHR ''.'' (extension safe) = [extension safe]"
    by (intro split_on_no_sep) auto
  moreover have stem1: "split CHR ''.'' (stem safe) = [stem safe]"
    using stem_chars by (intro split_on_no_sep) (auto simp: is_repaired_char_def)
  moreover have "split CHR ''.'' (show_filename safe) = [stem safe, extension safe]"
    by (simp add: show_filename_def split_on_append_sep ext1 stem1)
  ultimately show ?thesis
    using ne stem_chars allowed e by auto
qed

text \<open>Deciding small cases: a name that survives every step unchanged.\<close>

lemma sample_filename:
  "safe_filename_parse (\<lambda>x. if x = ''photo.png'' then x else []) ''photo.png'' (set image_extensions) =
     Ok \<lparr>stem = ''photo'', extension = ''png''\<rparr>"
proof -
  have "chars ''photo.png'' = [112, 104, 111, 116, 111, 46, 112, 110, 103]"
    by (simp add: chars_def)
  moreover have "trim ''photo.png'' = ''photo.png''" "trim ''photo'' = ''photo''"
    by (rule trim_graphic; simp add: graphic_def)+
  moreover have "trim_start ''photo.png'' = ''photo.png''"
    by (simp add: trim_start_def ws1_def ws2_def ws3_def)
  moreover have "\<not> is_reserved_device_name ''photo''"
    by (simp add: is_reserved_device_name_def RESERVED_DEVICE_NAMES_def eq_ignore_ascii_case_def
        to_ascii_lowercase_def ascii_lower_def)
  ultimately show ?thesis
    by (simp add: safe_filename_parse_def MAX_INPUT_BYTES_def is_fatal_char_def is_separator_def
        trim_end_matches_def dot_or_space_def rsplit_once_def ok_or_def rbind_def extension_parse_def
        MAX_EXTENSION_BYTES_def is_ascii_alphanumeric_def to_ascii_lowercase_def ascii_lower_def
        image_extensions_def repair_stem_def is_repaired_char_def truncate_on_char_boundary_def
        MAX_FILENAME_BYTES_def)
qed

theorem safe_filename_is_safe_witness:
  "\<not> is_reserved_device_name ''photo'' \<and> ''png'' \<in> set image_extensions"
  using safe_filename_is_safe [OF sample_filename]
  by (simp add: rust_str_ascii)

section \<open>Two validators that agree\<close>

lemma set_dropWhile: "set (dropWhile p s) \<subseteq> set s"
  by (rule set_mono_suffix [OF suffix_dropWhile])

lemma last_split_on: "c \<in> set (last (split_on p s)) \<Longrightarrow> c \<in> set s"
  by (meson last_in_set split_on_not_Nil split_on_pieces)

lemma key_of_filename:
  assumes "stem safe \<noteq> []" and "\<forall>c \<in> set (stem safe). \<not> is_repaired_char c \<and> \<not> control_byte c"
    and "extension safe \<noteq> []" and "\<forall>c \<in> set (extension safe). is_ascii_alphanumeric c"
  shows "storage_path_new (show_filename safe) = Ok (show_filename safe)"
proof -
  have ext: "c \<noteq> CHR ''/'' \<and> c \<noteq> CHR 0x5C \<and> \<not> control_byte c" if "c \<in> set (extension safe)" for c
    using assms(4) that by (auto simp: is_ascii_alphanumeric_def control_byte_def)
  have all: "c \<noteq> CHR ''/'' \<and> c \<noteq> CHR 0x5C \<and> \<not> control_byte c" if "c \<in> set (show_filename safe)" for c
  proof -
    from that consider "c \<in> set (stem safe)" | "c = CHR ''.''" | "c \<in> set (extension safe)"
      by (auto simp: show_filename_def)
    then show ?thesis
      using assms(2) ext by cases (auto simp: is_repaired_char_def control_byte_def)
  qed
  have ne: "show_filename safe \<noteq> []" "show_filename safe \<noteq> ''..''"
    using assms(1,2) by (cases "stem safe"; auto simp: show_filename_def is_repaired_char_def)+
  have "strip_suffix ''/'' (show_filename safe) = None"
  proof (rule ccontr)
    assume "\<not> ?thesis"
    then obtain t where "show_filename safe = t @ ''/''"
      by (auto simp: strip_suffix_eq_Some_iff)
    then show False
      using all [of "CHR ''/''"] by simp
  qed
  moreover have "split CHR ''/'' (show_filename safe) = [show_filename safe]"
    using all by (intro split_on_no_sep) auto
  ultimately show ?thesis
    using ne all by (auto simp: storage_path_new_Ok_iff)
qed

text \<open>
  Turning a client filename into an object key fails only where the filename itself is refused:
  every accepted filename is a valid key, so the two validators agree.  Normalization is assumed to
  introduce no control character.
\<close>
theorem path_from_filename_agrees:
  assumes "rust_str filename" and "\<forall>x. rust_str (nfc x)"
    and "\<forall>x. (\<forall>c \<in> set x. \<not> control_byte c) \<longrightarrow> (\<forall>c \<in> set (nfc x). \<not> control_byte c)"
  shows "path_from_filename nfc filename allowed =
    (case safe_filename_parse nfc filename allowed of Ok safe \<Rightarrow> Ok (show_filename safe) | Err e \<Rightarrow> Err e)"
proof (cases "safe_filename_parse nfc filename allowed")
  case (Inr safe)
  obtain base b raw ext where base: "base = trim (last (split_on is_separator filename))"
    and fatal: "\<not> list_ex is_fatal_char (chars filename)"
    and b: "b = trim_start (trim_end_matches dot_or_space (nfc base))"
    and rs: "rsplit_once CHR ''.'' b = Some (raw, ext)" and ext: "extension_parse ext = Ok (extension safe)"
    and st: "stem safe = truncate_on_char_boundary (trim (repair_stem raw))
      (MAX_FILENAME_BYTES - (length (extension safe) + 1))" and ne: "stem safe \<noteq> []"
    using safe_filename_parse_OkD [OF Inr] by metis
  have "\<forall>c \<in> set base. \<not> control_byte c"
    using no_fatal_no_control [OF assms(1) fatal] last_split_on set_trim unfolding base by blast
  then have nfc: "\<forall>c \<in> set (nfc base). \<not> control_byte c"
    using assms(3) by blast
  have "\<forall>c \<in> set raw. \<not> control_byte c"
  proof
    fix c
    assume "c \<in> set raw"
    then have "c \<in> set b"
      using rs by (auto simp: rsplit_once_eq_Some_iff)
    then have "c \<in> set (nfc base)"
      unfolding b using set_mono_suffix [OF suffix_trim_start] set_mono_prefix [OF sublist_trim_end_matches] by blast
    then show "\<not> control_byte c"
      using nfc by blast
  qed
  then have "\<forall>c \<in> set (repair_stem raw). \<not> is_repaired_char c \<and> \<not> control_byte c"
    by (auto simp: repair_stem_def is_repaired_char_def control_byte_def)
  then have "\<forall>c \<in> set (stem safe). \<not> is_repaired_char c \<and> \<not> control_byte c"
    unfolding st using set_truncate set_trim by blast
  then show ?thesis
    using key_of_filename [OF ne] extension_parse_Ok [OF ext]
    by (auto simp: path_from_filename_def Inr rbind_def)
qed (simp add: path_from_filename_def rbind_def)

theorem path_from_filename_agrees_witness:
  "path_from_filename (\<lambda>x. if x = ''photo.png'' then x else []) ''photo.png'' (set image_extensions) = Ok ''photo.png''"
proof -
  define nfc where "nfc = (\<lambda>x. if x = ''photo.png'' then x else [])"
  have "rust_str ''photo.png''" "\<forall>x. rust_str (nfc x)"
    "\<forall>x. (\<forall>c \<in> set x. \<not> control_byte c) \<longrightarrow> (\<forall>c \<in> set (nfc x). \<not> control_byte c)"
    by (auto simp: nfc_def intro!: rust_str_ascii)
  then have "path_from_filename nfc ''photo.png'' (set image_extensions) =
      (case safe_filename_parse nfc ''photo.png'' (set image_extensions) of
         Ok safe \<Rightarrow> Ok (show_filename safe) | Err e \<Rightarrow> Err e)"
    by (rule path_from_filename_agrees)
  then show ?thesis
    using sample_filename by (simp add: nfc_def show_filename_def)
qed

section \<open>Content addresses\<close>

lemma hasher_fold:
  "foldl hasher_update h parts =
     \<lparr>fed = fed h @ concat parts,
      hashed_len = (if parts = [] then hashed_len h
                    else min (hashed_len h + length (concat parts)) (2 ^ 64 - 1))\<rparr>"
proof (induction parts arbitrary: h)
  case (Cons c parts)
  show ?case
    unfolding foldl_Cons Cons.IH by (auto simp: hasher_update_def min_def)
qed simp

text \<open>Hashing a body chunk by chunk gives the address of the whole body.\<close>

lemma streamed_address:
  "hasher_finish sha (foldl hasher_update hasher_new parts) ext = address_of sha (concat parts) ext"
  by (simp add: hasher_fold hasher_finish_def address_of_def hasher_update_def hasher_new_def)

lemma HEX_alphanumeric: "c \<in> set HEX \<Longrightarrow> is_ascii_alphanumeric c"
  by (auto simp: HEX_def is_ascii_alphanumeric_def)

lemma alphanumeric_plain:
  "is_ascii_alphanumeric c \<Longrightarrow> c \<noteq> CHR ''/'' \<and> c \<noteq> CHR 0x5C \<and> c \<noteq> CHR ''.'' \<and> \<not> control_byte c"
  by (auto simp: is_ascii_alphanumeric_def control_byte_def)

definition address_ok :: "ContentAddress \<Rightarrow> bool" where
  "address_ok a =
     (length (digest a) = DIGEST_HEX_LEN \<and> (\<forall>c \<in> set (digest a). is_ascii_alphanumeric c) \<and>
      content_ext a \<noteq> [] \<and> (\<forall>c \<in> set (content_ext a). is_ascii_alphanumeric c))"

lemma hasher_finish_ok:
  assumes "length (sha (fed h)) = 32" and "extension_parse e = Ok ext"
  shows "address_ok (hasher_finish sha h ext)"
  using assms extension_parse_Ok [OF assms(2)] set_hex_encode HEX_alphanumeric
  by (auto simp: address_ok_def hasher_finish_def DIGEST_HEX_LEN_def)

lemma split_show_address:
  assumes "address_ok a"
  shows "split CHR ''/'' (show_address a) =
    [take 2 (digest a), take 2 (drop 2 (digest a)), digest a @ ''.'' @ content_ext a]"
proof -
  have plain: "c \<noteq> CHR ''/''" if "c \<in> set (digest a) \<union> set (content_ext a)" for c
    using assms that alphanumeric_plain by (auto simp: address_ok_def)
  have 1: "split CHR ''/'' (take 2 (digest a)) = [take 2 (digest a)]"
    using plain by (intro split_on_no_sep) (auto dest: in_set_takeD)
  have 2: "split CHR ''/'' (take 2 (drop 2 (digest a))) = [take 2 (drop 2 (digest a))]"
    using plain by (intro split_on_no_sep) (auto dest!: in_set_takeD in_set_dropD)
  have 3: "split CHR ''/'' (digest a @ CHR ''.'' # content_ext a) = [digest a @ CHR ''.'' # content_ext a]"
    using plain by (intro split_on_no_sep) auto
  show ?thesis
    by (simp add: show_address_def split_on_append_sep 1 2 3)
qed

lemma set_show_address:
  assumes "address_ok a" and "c \<in> set (show_address a)"
  shows "c \<noteq> CHR 0x5C \<and> \<not> control_byte c"
proof -
  from assms(2) consider "c \<in> set (digest a)" | "c \<in> set (content_ext a)" | "c = CHR ''/''" | "c = CHR ''.''"
    by (auto simp: show_address_def dest: in_set_takeD in_set_dropD)
  then show ?thesis
    using assms(1) alphanumeric_plain by cases (auto simp: address_ok_def control_byte_def)
qed

lemma strip_slash_None: "s \<noteq> [] \<Longrightarrow> last s \<noteq> CHR ''/'' \<Longrightarrow> strip_suffix ''/'' s = None"
  by (cases "strip_suffix ''/'' s") (auto simp: strip_suffix_eq_Some_iff)

lemma address_shape:
  assumes "address_ok a"
  shows "show_address a \<noteq> []" and "last (show_address a) \<noteq> CHR ''/''" and "hd (show_address a) \<noteq> CHR ''/''"
    and "\<forall>w \<in> set (split CHR ''/'' (show_address a)). w \<noteq> ''..'' \<and> w \<noteq> []"
proof -
  have len: "length (digest a) = 64" and ext: "content_ext a \<noteq> []"
    using assms by (auto simp: address_ok_def DIGEST_HEX_LEN_def)
  then have ne: "take 2 (digest a) \<noteq> []" "digest a \<noteq> []"
    by auto
  show "show_address a \<noteq> []"
    using ext by (simp add: show_address_def)
  show "last (show_address a) \<noteq> CHR ''/''"
    using assms ext alphanumeric_plain [of "last (content_ext a)"] last_in_set
    by (auto simp: address_ok_def show_address_def)
  show "hd (show_address a) \<noteq> CHR ''/''"
    using assms ne alphanumeric_plain [of "hd (digest a)"] hd_in_set
    by (auto simp: address_ok_def show_address_def)
  have "CHR ''.'' \<notin> set (digest a)"
    using assms alphanumeric_plain [of "CHR ''.''"] by (auto simp: address_ok_def)
  then have "take 2 (digest a) \<noteq> ''..''" "take 2 (drop 2 (digest a)) \<noteq> ''..''"
    by (metis in_set_takeD in_set_dropD list.set_intros(1))+
  moreover have "digest a @ ''.'' @ content_ext a \<noteq> ''..''"
    using len by (auto dest: arg_cong [of _ _ length])
  ultimately show "\<forall>w \<in> set (split CHR ''/'' (show_address a)). w \<noteq> ''..'' \<and> w \<noteq> []"
    using len ne by (auto simp: split_show_address [OF assms])
qed

lemma address_path_ok: "address_ok a \<Longrightarrow> address_path a = Ok (show_address a)"
  using address_shape [of a] set_show_address [of a] strip_slash_None [of "show_address a"]
  by (auto simp: address_path_def storage_path_new_Ok_iff)

lemma address_path_under_ok:
  assumes "address_ok a" and "storage_path_new (trim_end_matches (\<lambda>c. c = CHR ''/'') pre) = Ok key"
  shows "address_path_under a pre = Ok (key @ ''/'' @ show_address a)"
proof -
  define p where "p = trim_end_matches (\<lambda>c. c = CHR ''/'') pre"
  have key: "key = p" and pok: "storage_path_new p = Ok p"
    using assms(2) by (auto simp: p_def storage_path_new_Ok_iff)
  then have "p \<noteq> []"
    by (simp add: storage_path_new_Ok_iff)
  moreover have "p \<noteq> [] \<Longrightarrow> last p \<noteq> CHR ''/''"
    unfolding p_def trim_end_matches_def using hd_dropWhile [of "\<lambda>c. c = CHR ''/''" "rev pre"]
    by (auto simp: last_rev)
  ultimately have none: "strip_suffix ''/'' p = None" "strip_suffix ''/'' (p @ ''/'' @ show_address a) = None"
    using address_shape(1,2) [OF assms(1)] by (intro strip_slash_None; simp)+
  show ?thesis
    using pok none address_shape [OF assms(1)] set_show_address [OF assms(1)] \<open>p \<noteq> []\<close>
    by (auto simp: address_path_under_def key p_def [symmetric] storage_path_new_Ok_iff split_on_append_sep
        control_byte_def)
qed

text \<open>The key determines the address: two contents share a key only if they share digest and type.\<close>

lemma show_address_inject:
  assumes "address_ok a" and "address_ok b" and "show_address a = show_address b"
  shows "digest a = digest b \<and> content_ext a = content_ext b"
proof -
  have "digest a @ ''.'' @ content_ext a = digest b @ ''.'' @ content_ext b"
    using split_show_address [OF assms(1)] split_show_address [OF assms(2)] assms(3) by simp
  then show ?thesis
    using assms(1,2) by (simp add: address_ok_def)
qed

section \<open>Recognised content\<close>

lemma sniff_verify_image:
  assumes "ext \<in> set image_extensions" and "sniff_verify infer bytes ext = Ok found"
  shows "\<exists>kind. found = Some kind \<and> infer (take SNIFF_BYTES bytes) = Some kind \<and>
    sniff_ext kind \<in> {''jpg'', ''png'', ''gif'', ''webp''}"
  using assms
  by (auto simp: image_extensions_def sniff_verify_def expected_signatures_def SIGNATURES_def sniff_def
      split: option.splits if_splits)

end
