(* ===== verification/Btree_Map.thy ===== *)
theory Btree_Map
  imports Main "HOL-Library.AList"
begin

text \<open>
  Rust's \<^verbatim>\<open>BTreeMap\<close> as the framework uses it: an association list in strictly ascending order of its
  keys, which is the order in which the map is iterated.
\<close>

type_synonym ('k, 'v) btree = "('k \<times> 'v) list"

fun bt_insert :: "'k::linorder \<Rightarrow> 'v \<Rightarrow> ('k, 'v) btree \<Rightarrow> ('k, 'v) btree" where
  "bt_insert k v [] = [(k, v)]"
| "bt_insert k v ((j, w) # t) =
     (if k < j then (k, v) # (j, w) # t else if k = j then (k, v) # t else (j, w) # bt_insert k v t)"

definition bt_get :: "('k, 'v) btree \<Rightarrow> 'k \<Rightarrow> 'v option" where
  "bt_get t k = map_of t k"

definition bt_keys :: "('k, 'v) btree \<Rightarrow> 'k list" where
  "bt_keys t = map fst t"

definition bt_remove :: "'k \<Rightarrow> ('k, 'v) btree \<Rightarrow> ('k, 'v) btree" where
  "bt_remove k t = filter (\<lambda>(j, _). j \<noteq> k) t"

definition bt_wf :: "('k::linorder, 'v) btree \<Rightarrow> bool" where
  "bt_wf t = sorted_wrt (<) (map fst t)"

lemma bt_get_insert [simp]: "bt_get (bt_insert k v t) j = (if j = k then Some v else bt_get t j)"
  by (induction k v t rule: bt_insert.induct) (auto simp: bt_get_def)

lemma bt_get_empty [simp]: "bt_get [] k = None"
  by (simp add: bt_get_def)

lemma bt_get_remove [simp]: "bt_get (bt_remove k t) j = (if j = k then None else bt_get t j)"
  by (induction t) (auto simp: bt_get_def bt_remove_def)

lemma set_bt_insert: "fst ` set (bt_insert k v t) = insert k (fst ` set t)"
  by (induction k v t rule: bt_insert.induct) auto

lemma bt_wf_empty [simp]: "bt_wf []"
  by (simp add: bt_wf_def)

lemma bt_wf_insert [simp]: "bt_wf t \<Longrightarrow> bt_wf (bt_insert k v t)"
proof (induction k v t rule: bt_insert.induct)
  case (2 k v j w t)
  have keys: "set (map fst (bt_insert k v t)) = insert k (set (map fst t))"
    using set_bt_insert [of k v t] by simp
  show ?case
    using 2 keys by (auto simp: bt_wf_def less_imp_le simp del: set_map)
qed (simp add: bt_wf_def)

lemma bt_wf_remove [simp]: "bt_wf t \<Longrightarrow> bt_wf (bt_remove k t)"
  unfolding bt_wf_def bt_remove_def by (induction t) auto

lemma bt_keys_iff: "k \<in> set (bt_keys t) \<longleftrightarrow> bt_get t k \<noteq> None"
  by (simp add: bt_keys_def bt_get_def map_of_eq_None_iff)

lemma bt_keys_distinct: "bt_wf t \<Longrightarrow> distinct (bt_keys t)"
  by (simp add: bt_wf_def bt_keys_def strict_sorted_iff)

end
