(* ===== verification/Json_Value.thy ===== *)
theory Json_Value
  imports Arc_Prelude Btree_Map "HOL-Library.Char_ord" "HOL-Library.List_Lexorder"
begin

text \<open>
  JSON values as the package \<^verbatim>\<open>serde_json\<close> holds them in memory: an object is a map in the order of its
  keys.  Numbers are carried as their text; the framework never computes with them.
\<close>

datatype json =
    JNull
  | JBool bool
  | JNumber string
  | JString string
  | JArray "json list"
  | JObject "(string, json) btree"

text \<open>Reading a value below a path of keys.\<close>

fun json_at :: "string list \<Rightarrow> json \<Rightarrow> json option" where
  "json_at [] v = Some v"
| "json_at (k # ks) (JObject m) = Option.bind (bt_get m k) (json_at ks)"
| "json_at (k # ks) _ = None"

end
