(* ===== verification/Http_Problem.thy ===== *)
theory Http_Problem
  imports Json_Value Header_Map
begin

text \<open>
  Problem documents (RFC 9457): \<^verbatim>\<open>src/api/kind.rs\<close> and \<^verbatim>\<open>src/api/problem.rs\<close>.  A value handed to an
  extension is the JSON it serializes to, \<open>None\<close> where that fails; printing JSON and the reason phrases
  of the package \<^verbatim>\<open>http\<close> are arguments.
\<close>

datatype ProblemKind = PkValidation | PkAuthentication | PkAuthorization | PkNotFound | PkConflict | PkRateLimit | PkInternal
  | PkMalformedJson | PkUnsupportedMediaType | PkPayloadTooLarge | PkBadRequest | PkTimeout | PkMethodNotAllowed | PkUnavailable

fun kind_status :: "ProblemKind \<Rightarrow> nat" where
  "kind_status PkValidation = 422"
| "kind_status PkAuthentication = 401"
| "kind_status PkAuthorization = 403"
| "kind_status PkNotFound = 404"
| "kind_status PkConflict = 409"
| "kind_status PkRateLimit = 429"
| "kind_status PkInternal = 500"
| "kind_status PkMalformedJson = 400"
| "kind_status PkUnsupportedMediaType = 415"
| "kind_status PkPayloadTooLarge = 413"
| "kind_status PkBadRequest = 400"
| "kind_status PkTimeout = 408"
| "kind_status PkMethodNotAllowed = 405"
| "kind_status PkUnavailable = 503"

fun kind_title :: "ProblemKind \<Rightarrow> string" where
  "kind_title PkValidation = ''Validation failed''"
| "kind_title PkAuthentication = ''Authentication required''"
| "kind_title PkAuthorization = ''Access denied''"
| "kind_title PkNotFound = ''Resource not found''"
| "kind_title PkConflict = ''Request conflicts with current state''"
| "kind_title PkRateLimit = ''Rate limit exceeded''"
| "kind_title PkInternal = ''Internal server error''"
| "kind_title PkMalformedJson = ''Malformed JSON request body''"
| "kind_title PkUnsupportedMediaType = ''Unsupported media type''"
| "kind_title PkPayloadTooLarge = ''Request body too large''"
| "kind_title PkBadRequest = ''Bad request''"
| "kind_title PkTimeout = ''Request timed out''"
| "kind_title PkMethodNotAllowed = ''Method not allowed''"
| "kind_title PkUnavailable = ''Service unavailable''"

fun kind_type_uri :: "ProblemKind \<Rightarrow> string" where
  "kind_type_uri PkValidation = ''urn:arcature:problem:validation''"
| "kind_type_uri PkAuthentication = ''urn:arcature:problem:authentication''"
| "kind_type_uri PkAuthorization = ''urn:arcature:problem:authorization''"
| "kind_type_uri PkNotFound = ''urn:arcature:problem:not-found''"
| "kind_type_uri PkConflict = ''urn:arcature:problem:conflict''"
| "kind_type_uri PkRateLimit = ''urn:arcature:problem:rate-limit''"
| "kind_type_uri PkInternal = ''urn:arcature:problem:internal''"
| "kind_type_uri PkMalformedJson = ''urn:arcature:problem:malformed-json''"
| "kind_type_uri PkUnsupportedMediaType = ''urn:arcature:problem:unsupported-media-type''"
| "kind_type_uri PkPayloadTooLarge = ''urn:arcature:problem:payload-too-large''"
| "kind_type_uri PkBadRequest = ''urn:arcature:problem:bad-request''"
| "kind_type_uri PkTimeout = ''urn:arcature:problem:timeout''"
| "kind_type_uri PkMethodNotAllowed = ''urn:arcature:problem:method-not-allowed''"
| "kind_type_uri PkUnavailable = ''urn:arcature:problem:unavailable''"

definition for_status :: "nat \<Rightarrow> ProblemKind option" where
  "for_status status =
     map_of [(400, PkBadRequest), (401, PkAuthentication), (403, PkAuthorization), (404, PkNotFound), (405, PkMethodNotAllowed),
       (408, PkTimeout), (409, PkConflict), (413, PkPayloadTooLarge), (415, PkUnsupportedMediaType), (422, PkValidation),
       (429, PkRateLimit), (500, PkInternal), (503, PkUnavailable)] status"

definition PROBLEM_JSON :: string where
  "PROBLEM_JSON = ''application/problem+json''"

definition STANDARD_MEMBERS :: "string list" where
  "STANDARD_MEMBERS = [''type'', ''title'', ''status'', ''detail'', ''instance'']"

record CustomParts =
  custom_type_uri :: string
  custom_title :: string
  custom_status :: nat

record Problem =
  problem_kind :: ProblemKind
  problem_custom :: "CustomParts option"
  problem_detail :: "string option"
  problem_instance :: "string option"
  problem_extensions :: "(string, json) btree"

definition problem_of :: "ProblemKind \<Rightarrow> Problem" where
  "problem_of kind = \<lparr>problem_kind = kind, problem_custom = None, problem_detail = None, problem_instance = None, problem_extensions = []\<rparr>"

definition reason_phrase :: "(nat \<Rightarrow> string option) \<Rightarrow> nat \<Rightarrow> string" where
  "reason_phrase canonical_reason status = (case canonical_reason status of Some r \<Rightarrow> r | None \<Rightarrow> ''Request error'')"

definition problem_new_custom :: "(nat \<Rightarrow> string option) \<Rightarrow> string \<Rightarrow> nat \<Rightarrow> Problem" where
  "problem_new_custom canonical_reason type_uri status =
     \<lparr>problem_kind = PkInternal,
      problem_custom = Some \<lparr>custom_type_uri = type_uri, custom_title = reason_phrase canonical_reason status, custom_status = status\<rparr>,
      problem_detail = None, problem_instance = None, problem_extensions = []\<rparr>"

definition with_detail :: "Problem \<Rightarrow> string \<Rightarrow> Problem" where
  "with_detail p d = p\<lparr>problem_detail := Some d\<rparr>"

definition with_instance :: "Problem \<Rightarrow> string \<Rightarrow> Problem" where
  "with_instance p i = p\<lparr>problem_instance := Some i\<rparr>"

definition is_standard_member :: "string \<Rightarrow> bool" where
  "is_standard_member n = (n \<in> set STANDARD_MEMBERS)"

definition serialize_extension :: "string \<Rightarrow> json option \<Rightarrow> json option" where
  "serialize_extension key v =
     (if is_standard_member key then None else case v of Some JNull \<Rightarrow> None | Some v \<Rightarrow> Some v | None \<Rightarrow> None)"

definition with_extension :: "Problem \<Rightarrow> string \<Rightarrow> json option \<Rightarrow> Problem" where
  "with_extension p key v =
     (case serialize_extension key v of
        Some v \<Rightarrow> p\<lparr>problem_extensions := bt_insert key v (problem_extensions p)\<rparr> | None \<Rightarrow> p)"

definition extend_from :: "(string, json) btree \<Rightarrow> json option \<Rightarrow> (string, json) btree" where
  "extend_from extensions entries =
     (case entries of
        Some (JObject m) \<Rightarrow>
          foldl (\<lambda>t (k, v). if is_standard_member k \<or> v = JNull then t else bt_insert k v t) extensions m
      | _ \<Rightarrow> extensions)"

definition with_extensions :: "Problem \<Rightarrow> json option \<Rightarrow> Problem" where
  "with_extensions p entries = p\<lparr>problem_extensions := extend_from (problem_extensions p) entries\<rparr>"

definition problem_status :: "Problem \<Rightarrow> nat" where
  "problem_status p = (case problem_custom p of Some c \<Rightarrow> custom_status c | None \<Rightarrow> kind_status (problem_kind p))"

definition problem_type_uri :: "Problem \<Rightarrow> string" where
  "problem_type_uri p = (case problem_custom p of Some c \<Rightarrow> custom_type_uri c | None \<Rightarrow> kind_type_uri (problem_kind p))"

definition problem_title :: "Problem \<Rightarrow> string" where
  "problem_title p = (case problem_custom p of Some c \<Rightarrow> custom_title c | None \<Rightarrow> kind_title (problem_kind p))"

definition insert_some :: "string \<Rightarrow> string option \<Rightarrow> (string, json) btree \<Rightarrow> (string, json) btree" where
  "insert_some k v m = (case v of Some v \<Rightarrow> bt_insert k (JString v) m | None \<Rightarrow> m)"

definition serialize_problem :: "Problem \<Rightarrow> json" where
  "serialize_problem p =
     (let m = bt_insert ''type'' (JString (problem_type_uri p)) [];
          m = bt_insert ''title'' (JString (problem_title p)) m;
          m = bt_insert ''status'' (JNumber (show_nat (problem_status p))) m;
          m = insert_some ''detail'' (problem_detail p) m;
          m = insert_some ''instance'' (problem_instance p) m
      in JObject (foldl (\<lambda>t (k, v). bt_insert k v t) m (problem_extensions p)))"

record 'x http_response =
  http_status :: nat
  http_headers :: headers
  http_body :: string
  http_extensions :: 'x

definition problem_into_response :: "(json \<Rightarrow> string) \<Rightarrow> 'x \<Rightarrow> Problem \<Rightarrow> 'x http_response" where
  "problem_into_response print no_extensions p =
     (let body = print (serialize_problem p) in
      \<lparr>http_status = problem_status p,
       http_headers = hm_insert ''content-length'' (show_nat (length body))
         (hm_insert ''content-type'' PROBLEM_JSON [(''content-type'', ''application/octet-stream'')]),
       http_body = body, http_extensions = no_extensions\<rparr>)"

section \<open>Properties\<close>

text \<open>A problem as the builders make it: no extension has the name of a standard member.\<close>

definition problem_ok :: "Problem \<Rightarrow> bool" where
  "problem_ok p \<longleftrightarrow> (\<forall>k. is_standard_member k \<longrightarrow> bt_get (problem_extensions p) k = None)"

lemma extend_keeps:
  "is_standard_member k \<Longrightarrow>
   bt_get (foldl (\<lambda>t (k, v). if is_standard_member k \<or> v = JNull then t else bt_insert k v t) t m) k = bt_get t k"
  by (induction m arbitrary: t) auto

lemma extend_from_keeps: "is_standard_member k \<Longrightarrow> bt_get (extend_from t entries) k = bt_get t k"
  by (simp add: extend_from_def extend_keeps split: option.splits json.splits)

lemma problem_ok_builders [simp]:
  "problem_ok (problem_of k)" "problem_ok (problem_new_custom cr u s)"
  "problem_ok p \<Longrightarrow> problem_ok (with_detail p d)" "problem_ok p \<Longrightarrow> problem_ok (with_instance p i)"
  "problem_ok p \<Longrightarrow> problem_ok (with_extension p key v)" "problem_ok p \<Longrightarrow> problem_ok (with_extensions p entries)"
  by (auto simp: problem_ok_def problem_of_def problem_new_custom_def with_detail_def with_instance_def with_extension_def
      with_extensions_def serialize_extension_def extend_from_keeps split: option.splits)

lemma get_foldl_insert: "bt_get xs k = None \<Longrightarrow> bt_get (foldl (\<lambda>t (k, v). bt_insert k v t) m xs) k = bt_get m k"
  by (induction xs arbitrary: m) (auto simp: bt_get_def split: if_splits, metis bt_get_def bt_get_insert)

lemma standard_members [simp]:
  "is_standard_member ''type''" "is_standard_member ''title''" "is_standard_member ''status''"
  "is_standard_member ''detail''" "is_standard_member ''instance''"
  by (simp_all add: is_standard_member_def STANDARD_MEMBERS_def)

text \<open>
  No extension a handler or a client's data adds can disguise a problem document: its type, title, status,
  detail and instance are those of the problem, and its status is the status of the response.
\<close>
theorem problem_members_hold:
  assumes "problem_ok p"
  shows "(\<exists>m. serialize_problem p = JObject m \<and> bt_get m ''type'' = Some (JString (problem_type_uri p)) \<and>
      bt_get m ''title'' = Some (JString (problem_title p)) \<and>
      bt_get m ''status'' = Some (JNumber (show_nat (http_status (problem_into_response print x p)))) \<and>
      bt_get m ''detail'' = map_option JString (problem_detail p) \<and>
      bt_get m ''instance'' = map_option JString (problem_instance p))"
proof -
  have "is_standard_member k \<Longrightarrow> bt_get (foldl (\<lambda>t (k, v). bt_insert k v t) m (problem_extensions p)) k = bt_get m k" for k m
    using assms by (auto simp: problem_ok_def intro: get_foldl_insert)
  then show ?thesis
    by (simp add: serialize_problem_def insert_some_def problem_into_response_def Let_def del: bt_insert.simps split: option.splits)
qed

theorem problem_members_hold_witness:
  "\<exists>m. serialize_problem (with_extension (problem_of PkConflict) ''status'' (Some (JNumber ''200''))) = JObject m \<and>
     bt_get m ''status'' = Some (JNumber (show_nat 409))"
  using problem_members_hold [of "with_extension (problem_of PkConflict) ''status'' (Some (JNumber ''200''))" "\<lambda>_. []" "()"]
  by (auto simp: problem_into_response_def Let_def problem_status_def) (simp add: with_extension_def serialize_extension_def problem_of_def)

lemma for_status_keeps: "for_status s = Some k \<Longrightarrow> kind_status k = s"
  by (auto simp: for_status_def split: if_splits)

end
