(* ===== verification/Uploads.thy ===== *)
theory Uploads
  imports Storage_Names Http_Problem
begin

text \<open>
  Uploads from the request body to the disk: \<^verbatim>\<open>src/http/multipart.rs\<close> (bounded reading of a multipart
  body), the streaming writer of \<^verbatim>\<open>src/storage/store.rs\<close> and the extractor of
  \<^verbatim>\<open>src/validation/upload.rs\<close>.

  What the multipart parser (package \<^verbatim>\<open>axum\<close>) delivers is a list of parts, each with the list of its
  reads; a read that exceeds the timeout and one that fails to parse are values of these lists.  The
  object store (package \<^verbatim>\<open>opendal\<close>) is a record of its operations on an abstract state; the laws the
  program relies on are the predicate \<open>store_laws\<close>, over a view of the state as a map from keys to
  contents.
\<close>

section \<open>Bounded multipart bodies\<close>

record MultipartLimits =
  total_bytes :: nat
  field_bytes :: nat
  max_fields :: nat
  read_timeout :: nat

definition limits_new :: MultipartLimits where
  "limits_new =
     \<lparr>total_bytes = 16 * 1024 * 1024, field_bytes = 8 * 1024 * 1024, max_fields = 32,
      read_timeout = 30 * 1000000000\<rparr>"

definition with_total_bytes :: "MultipartLimits \<Rightarrow> nat \<Rightarrow> MultipartLimits" where
  "with_total_bytes self n = self\<lparr>total_bytes := n\<rparr>"

definition with_field_bytes :: "MultipartLimits \<Rightarrow> nat \<Rightarrow> MultipartLimits" where
  "with_field_bytes self n = self\<lparr>field_bytes := n\<rparr>"

definition with_fields :: "MultipartLimits \<Rightarrow> nat \<Rightarrow> MultipartLimits" where
  "with_fields self n = self\<lparr>max_fields := n\<rparr>"

definition with_read_timeout :: "MultipartLimits \<Rightarrow> nat \<Rightarrow> MultipartLimits" where
  "with_read_timeout self d = self\<lparr>read_timeout := d\<rparr>"

text \<open>The limits a request carries in its extensions, or the default.\<close>

definition limits_from_extensions :: "MultipartLimits option \<Rightarrow> MultipartLimits" where
  "limits_from_extensions ext = (case ext of Some l \<Rightarrow> l | None \<Rightarrow> limits_new)"

datatype MultipartError =
    TooManyFields nat
  | FieldTooLarge nat
  | BodyTooLarge nat
  | ReadTimeout nat
  | Parse nat

fun multipart_status :: "MultipartError \<Rightarrow> nat" where
  "multipart_status (TooManyFields _) = 413"
| "multipart_status (FieldTooLarge _) = 413"
| "multipart_status (BodyTooLarge _) = 413"
| "multipart_status (ReadTimeout _) = 408"
| "multipart_status (Parse s) = s"

fun multipart_detail :: "MultipartError \<Rightarrow> string" where
  "multipart_detail (TooManyFields _) = ''Request has too many multipart fields''"
| "multipart_detail (FieldTooLarge _) = ''A multipart field is too large''"
| "multipart_detail (BodyTooLarge _) = ''Request body is too large''"
| "multipart_detail (ReadTimeout _) = ''Timed out reading the request body''"
| "multipart_detail (Parse _) = ''Request body is not a well-formed multipart/form-data body''"

definition multipart_problem :: "MultipartError \<Rightarrow> ProblemKind \<times> string" where
  "multipart_problem self =
     (let st = multipart_status self
      in (if st = 413 then PkPayloadTooLarge else if st = 408 then PkTimeout
          else if st = 400 then PkBadRequest else PkInternal, multipart_detail self))"

text \<open>A read of the stream: a value, a timeout, or a parser error with its status.\<close>

datatype 'a Read = Got 'a | TimedOut | Failed nat

record Part =
  part_name :: "string option"
  part_file :: "string option"
  part_reads :: "bytes Read list"

record Counters =
  cnt_fields :: nat
  cnt_total :: nat

definition sat_add :: "nat \<Rightarrow> nat \<Rightarrow> nat" where
  "sat_add a b = min (a + b) (2 ^ 64 - 1)"

definition next_field :: "MultipartLimits \<Rightarrow> Counters \<Rightarrow> Part Read list \<Rightarrow>
    (MultipartError, (Part \<times> Counters \<times> Part Read list) option) result" where
  "next_field limits counters stream =
     (if cnt_fields counters \<ge> max_fields limits then Err (TooManyFields (max_fields limits))
      else case stream of
             [] \<Rightarrow> Ok None
           | TimedOut # _ \<Rightarrow> Err (ReadTimeout (read_timeout limits))
           | Failed s # _ \<Rightarrow> Err (Parse s)
           | Got part # rest \<Rightarrow> Ok (Some (part, counters\<lparr>cnt_fields := cnt_fields counters + 1\<rparr>, rest)))"

text \<open>One \<^verbatim>\<open>chunk\<close> of a part: the bytes of the part and the total so far go in and come out.\<close>

definition read_chunk :: "MultipartLimits \<Rightarrow> nat \<Rightarrow> nat \<Rightarrow> bytes Read \<Rightarrow> (MultipartError, bytes \<times> nat \<times> nat) result" where
  "read_chunk limits in_field sofar r =
     (case r of
        TimedOut \<Rightarrow> Err (ReadTimeout (read_timeout limits))
      | Failed s \<Rightarrow> Err (Parse s)
      | Got chunk \<Rightarrow>
          (let in_field' = sat_add in_field (length chunk)
           in if in_field' > field_bytes limits then Err (FieldTooLarge (field_bytes limits))
              else let total' = sat_add sofar (length chunk)
                   in if total' > total_bytes limits then Err (BodyTooLarge (total_bytes limits))
                      else Ok (chunk, in_field', total')))"

fun read_bytes :: "MultipartLimits \<Rightarrow> nat \<Rightarrow> nat \<Rightarrow> bytes Read list \<Rightarrow> bytes \<Rightarrow>
    (MultipartError, bytes \<times> nat) result" where
  "read_bytes limits in_field sofar [] buffer = Ok (buffer, sofar)"
| "read_bytes limits in_field sofar (r # rs) buffer =
     rbind (read_chunk limits in_field sofar r) (\<lambda>(chunk, in_field', total').
     read_bytes limits in_field' total' rs (buffer @ chunk))"

definition part_bytes :: "MultipartLimits \<Rightarrow> Counters \<Rightarrow> Part \<Rightarrow> (MultipartError, bytes \<times> Counters) result" where
  "part_bytes limits counters part =
     rbind (read_bytes limits 0 (cnt_total counters) (part_reads part) []) (\<lambda>(b, sofar).
     Ok (b, counters\<lparr>cnt_total := sofar\<rparr>))"

definition part_text :: "MultipartLimits \<Rightarrow> Counters \<Rightarrow> Part \<Rightarrow> (MultipartError, string option \<times> Counters) result" where
  "part_text limits counters part =
     rbind (part_bytes limits counters part) (\<lambda>(b, counters'). Ok (from_utf8 b, counters'))"

section \<open>The extractor\<close>

record UploadPolicy =
  policy_allowed :: allowed_extensions
  policy_field :: "string option"

definition policy_new :: "allowed_extensions \<Rightarrow> UploadPolicy" where
  "policy_new allowed = \<lparr>policy_allowed = allowed, policy_field = None\<rparr>"

definition policy_with_field :: "UploadPolicy \<Rightarrow> string \<Rightarrow> UploadPolicy" where
  "policy_with_field self field = self\<lparr>policy_field := Some field\<rparr>"

definition policy_default :: UploadPolicy where
  "policy_default = policy_new (set image_extensions)"

definition policy_from_extensions :: "UploadPolicy option \<Rightarrow> UploadPolicy" where
  "policy_from_extensions ext = (case ext of Some p \<Rightarrow> p | None \<Rightarrow> policy_default)"

record UploadedFile =
  up_filename :: SafeFilename
  up_type :: "SniffedType option"
  up_bytes :: bytes

text \<open>The rejections, with the code and message of the problem they render.\<close>

datatype Rejection = RejectBody MultipartError | RejectUpload string string

lemma next_field_shorter:
  "next_field limits counters stream = Ok (Some (part, counters', rest)) \<Longrightarrow> length rest < length stream"
  by (auto simp: next_field_def split: if_splits list.splits Read.splits)

function extract_loop :: "(string \<Rightarrow> string) \<Rightarrow> (bytes \<Rightarrow> SniffedType option) \<Rightarrow> MultipartLimits \<Rightarrow> UploadPolicy \<Rightarrow>
    Counters \<Rightarrow> Part Read list \<Rightarrow> (Rejection, UploadedFile) result" where
  "extract_loop nfc infer limits policy counters stream =
     (case next_field limits counters stream of
        Err e \<Rightarrow> Err (RejectBody e)
      | Ok None \<Rightarrow> Err (RejectUpload ''missing'' ''No file was uploaded'')
      | Ok (Some (part, counters', rest)) \<Rightarrow>
          (case part_bytes limits counters' part of
             Err e \<Rightarrow> Err (RejectBody e)
           | Ok (b, counters'') \<Rightarrow>
               (case part_file part of
                  None \<Rightarrow> extract_loop nfc infer limits policy counters'' rest
                | Some name \<Rightarrow>
                    if policy_field policy \<noteq> None \<and> part_name part \<noteq> policy_field policy then
                      extract_loop nfc infer limits policy counters'' rest
                    else
                      (case safe_filename_parse nfc name (policy_allowed policy) of
                         Err _ \<Rightarrow> Err (RejectUpload ''extension'' ''That filename or file type is not accepted here'')
                       | Ok filename \<Rightarrow>
                           (case sniff_verify infer b (extension filename) of
                              Err _ \<Rightarrow> Err (RejectUpload ''contents''
                                ''The file's contents do not match its file extension'')
                            | Ok content_type \<Rightarrow>
                                Ok \<lparr>up_filename = filename, up_type = content_type, up_bytes = b\<rparr>)))))"
  by pat_completeness auto
termination
  by (relation "measure (\<lambda>(_, _, _, _, _, stream). length stream)") (auto dest: next_field_shorter)

declare extract_loop.simps [simp del]

text \<open>The whole extractor; \<open>opened\<close> is the parser on the request, or the status with which it refuses a
  request that is no multipart body.\<close>

definition upload_from_request :: "(string \<Rightarrow> string) \<Rightarrow> (bytes \<Rightarrow> SniffedType option) \<Rightarrow> MultipartLimits option \<Rightarrow>
    UploadPolicy option \<Rightarrow> (nat, Part Read list) result \<Rightarrow> (Rejection, UploadedFile) result" where
  "upload_from_request nfc infer limits policy opened =
     (case opened of
        Err s \<Rightarrow> Err (RejectBody (Parse s))
      | Ok stream \<Rightarrow>
          extract_loop nfc infer (limits_from_extensions limits) (policy_from_extensions policy)
            \<lparr>cnt_fields = 0, cnt_total = 0\<rparr> stream)"

section \<open>The disk\<close>

datatype StorageError = Backend | PathError StoragePathError

record 's operator =
  op_open :: "string \<Rightarrow> 's \<Rightarrow> (unit, unit) result \<times> 's"
  op_write :: "string \<Rightarrow> bytes \<Rightarrow> 's \<Rightarrow> (unit, unit) result \<times> 's"
  op_close :: "string \<Rightarrow> 's \<Rightarrow> (unit, unit) result \<times> 's"
  op_abort :: "string \<Rightarrow> 's \<Rightarrow> (unit, unit) result \<times> 's"
  op_delete :: "string \<Rightarrow> 's \<Rightarrow> (unit, unit) result \<times> 's"
  op_exists :: "string \<Rightarrow> 's \<Rightarrow> (unit, bool) result \<times> 's"
  op_rename :: "string \<Rightarrow> string \<Rightarrow> 's \<Rightarrow> (unit, unit) result \<times> 's"

text \<open>Every failure of the object store is reported as one backend error.\<close>

definition backend :: "unit \<Rightarrow> StorageError" where
  "backend _ = Backend"

definition STAGING_PREFIX :: string where
  "STAGING_PREFIX = ''_staging''"

text \<open>A number in hexadecimal, padded to a width it fits.\<close>

definition hex_width :: "nat \<Rightarrow> nat \<Rightarrow> string" where
  "hex_width w n = map (\<lambda>i. HEX ! (n div 16 ^ (w - 1 - i) mod 16)) [0..<w]"

text \<open>\<open>Err\<close> where the \<^verbatim>\<open>expect\<close> would panic.\<close>

definition staging_path :: "nat \<Rightarrow> nat \<Rightarrow> nat \<Rightarrow> (StoragePathError, string) result" where
  "staging_path pid nanos counter =
     storage_path_new (STAGING_PREFIX @ ''/'' @ hex_width 8 pid @ ''-'' @ hex_width 32 nanos @ ''-'' @
       hex_width 16 counter @ ''.part'')"

record UploadWriter =
  staging :: string
  upload_prefix :: "string option"
  upload_hasher :: ContentHasher
  upload_head :: bytes

definition open_upload :: "'s operator \<Rightarrow> string \<Rightarrow> string option \<Rightarrow> 's \<Rightarrow> (StorageError, UploadWriter) result \<times> 's" where
  "open_upload op stg pre s =
     sbind (op_open op stg s)
       (\<lambda>_ s'. (Ok \<lparr>staging = stg, upload_prefix = pre, upload_hasher = hasher_new, upload_head = []\<rparr>, s')) backend"

definition begin_upload :: "'s operator \<Rightarrow> string \<Rightarrow> 's \<Rightarrow> (StorageError, UploadWriter) result \<times> 's" where
  "begin_upload op stg s = open_upload op stg None s"

definition begin_upload_under :: "'s operator \<Rightarrow> string \<Rightarrow> string \<Rightarrow> 's \<Rightarrow> (StorageError, UploadWriter) result \<times> 's" where
  "begin_upload_under op stg pre s =
     (let p = trim_end_matches (\<lambda>c. c = CHR ''/'') pre
      in case storage_path_new p of
           Err e \<Rightarrow> (Err (PathError e), s)
         | Ok _ \<Rightarrow> open_upload op stg (Some p) s)"

text \<open>The writer hashes the chunk and keeps its head before the store sees it.\<close>

definition fed_writer :: "UploadWriter \<Rightarrow> bytes \<Rightarrow> UploadWriter" where
  "fed_writer self chunk =
     self\<lparr>upload_hasher := hasher_update (upload_hasher self) chunk,
          upload_head := (if length (upload_head self) < SNIFF_BYTES
                          then upload_head self @ take (SNIFF_BYTES - length (upload_head self)) chunk
                          else upload_head self)\<rparr>"

definition upload_write :: "'s operator \<Rightarrow> UploadWriter \<Rightarrow> bytes \<Rightarrow> 's \<Rightarrow> (StorageError, UploadWriter) result \<times> 's" where
  "upload_write op self chunk s =
     sbind (op_write op (staging self) chunk s) (\<lambda>_ s'. (Ok (fed_writer self chunk), s')) backend"

definition destination :: "(bytes \<Rightarrow> bytes) \<Rightarrow> UploadWriter \<Rightarrow> string \<Rightarrow> (StoragePathError, string) result" where
  "destination sha self ext =
     (let address = hasher_finish sha (upload_hasher self) ext
      in case upload_prefix self of Some pre \<Rightarrow> address_path_under address pre | None \<Rightarrow> address_path address)"

definition upload_finish :: "(bytes \<Rightarrow> bytes) \<Rightarrow> 's operator \<Rightarrow> UploadWriter \<Rightarrow> string \<Rightarrow> 's \<Rightarrow>
    (StorageError, ContentAddress) result \<times> 's" where
  "upload_finish sha op self ext s =
     sbind (op_close op (staging self) s) (\<lambda>_ s1.
     case destination sha self ext of
       Err e \<Rightarrow> (Err (PathError e), s1)
     | Ok dest \<Rightarrow>
         sbind (op_exists op dest s1) (\<lambda>present s2.
         sbind (if present then op_delete op (staging self) s2 else op_rename op (staging self) dest s2) (\<lambda>_ s3.
         (Ok (hasher_finish sha (upload_hasher self) ext), s3)) backend) backend) backend"

definition upload_abort :: "'s operator \<Rightarrow> UploadWriter \<Rightarrow> 's \<Rightarrow> (StorageError, unit) result \<times> 's" where
  "upload_abort op self s =
     (case op_abort op (staging self) s of
        (_, s1) \<Rightarrow> sbind (op_delete op (staging self) s1) (\<lambda>_ s2. (Ok (), s2)) backend)"

definition upload_verify :: "(bytes \<Rightarrow> SniffedType option) \<Rightarrow> UploadWriter \<Rightarrow> string \<Rightarrow>
    (SniffError, SniffedType option) result" where
  "upload_verify infer self ext = sniff_verify infer (upload_head self) ext"

datatype UploadError = UpStorage StorageError | UpContent SniffError

definition finish_verified :: "(bytes \<Rightarrow> bytes) \<Rightarrow> (bytes \<Rightarrow> SniffedType option) \<Rightarrow> 's operator \<Rightarrow> UploadWriter \<Rightarrow>
    string \<Rightarrow> 's \<Rightarrow> (UploadError, ContentAddress) result \<times> 's" where
  "finish_verified sha infer op self ext s =
     (case upload_verify infer self ext of
        Err rejection \<Rightarrow> sbind (upload_abort op self s) (\<lambda>_ s1. (Err (UpContent rejection), s1)) UpStorage
      | Ok _ \<Rightarrow> sbind (upload_finish sha op self ext s) (\<lambda>a s1. (Ok a, s1)) UpStorage)"

text \<open>\<^verbatim>\<open>UploadedFile::store\<close> and \<^verbatim>\<open>store_under\<close>.\<close>

definition upload_store :: "(bytes \<Rightarrow> bytes) \<Rightarrow> (bytes \<Rightarrow> SniffedType option) \<Rightarrow> 's operator \<Rightarrow> string \<Rightarrow>
    string option \<Rightarrow> UploadedFile \<Rightarrow> 's \<Rightarrow> (UploadError, ContentAddress) result \<times> 's" where
  "upload_store sha infer op stg pre self s =
     sbind (case pre of Some p \<Rightarrow> begin_upload_under op stg p s | None \<Rightarrow> begin_upload op stg s) (\<lambda>upload s1.
     case upload_write op upload (up_bytes self) s1 of
       (Err failure, s2) \<Rightarrow> (case upload_abort op upload s2 of (_, s3) \<Rightarrow> (Err (UpStorage failure), s3))
     | (Ok upload', s2) \<Rightarrow> finish_verified sha infer op upload' (extension (up_filename self)) s2) UpStorage"

section \<open>What an accepted upload is\<close>

lemma read_chunk_Ok:
  assumes "read_chunk limits in_field sofar r = Ok (chunk, in_field', sofar')"
  shows "r = Got chunk" and "in_field' = sat_add in_field (length chunk)" and "in_field' \<le> field_bytes limits"
    and "sofar' = sat_add sofar (length chunk)" and "sofar' \<le> total_bytes limits"
  using assms by (auto simp: read_chunk_def Let_def split: Read.splits if_splits)

lemma read_bytes_Ok:
  assumes "read_bytes limits in_field sofar rs buffer = Ok (b, sofar')"
  shows "\<exists>parts. rs = map Got parts \<and> b = buffer @ concat parts \<and>
    (rs \<noteq> [] \<longrightarrow> sat_add in_field (length (concat parts)) \<le> field_bytes limits \<and>
       sofar' = sat_add sofar (length (concat parts)) \<and> sofar' \<le> total_bytes limits) \<and>
    (rs = [] \<longrightarrow> sofar' = sofar)"
  using assms
proof (induction rs arbitrary: in_field sofar buffer)
  case (Cons r rs)
  then obtain chunk f t where chunk: "read_chunk limits in_field sofar r = Ok (chunk, f, t)"
    and rest: "read_bytes limits f t rs (buffer @ chunk) = Ok (b, sofar')"
    by (auto simp: rbind_eq_Ok_iff)
  note c = read_chunk_Ok [OF chunk]
  obtain parts where parts: "rs = map Got parts" "b = (buffer @ chunk) @ concat parts"
    "rs \<noteq> [] \<longrightarrow> sat_add f (length (concat parts)) \<le> field_bytes limits \<and>
       sofar' = sat_add t (length (concat parts)) \<and> sofar' \<le> total_bytes limits" "rs = [] \<longrightarrow> sofar' = t"
    using Cons.IH [OF rest] by blast
  have sat: "sat_add (sat_add x (length chunk)) (length (concat parts)) = sat_add x (length (concat (chunk # parts)))" for x
    by (simp add: sat_add_def min_def)
  show ?case
  proof (intro exI [of _ "chunk # parts"] conjI impI)
    show "r # rs = map Got (chunk # parts)" "b = buffer @ concat (chunk # parts)"
      using c(1) parts(1,2) by simp_all
    show "sat_add in_field (length (concat (chunk # parts))) \<le> field_bytes limits"
      "sofar' = sat_add sofar (length (concat (chunk # parts)))" "sofar' \<le> total_bytes limits"
      using c parts by (cases "rs = []"; simp add: sat [symmetric] del: concat.simps; simp)+
  qed simp
qed simp

text \<open>The bytes a part, and the parts read so far, put into memory.\<close>

definition chunk_size :: "bytes Read \<Rightarrow> nat" where
  "chunk_size r = (case r of Got c \<Rightarrow> length c | _ \<Rightarrow> 0)"

definition part_size :: "Part \<Rightarrow> nat" where
  "part_size part = sum_list (map chunk_size (part_reads part))"

definition body_size :: "Part Read list \<Rightarrow> nat" where
  "body_size stream = sum_list (map (\<lambda>r. case r of Got p \<Rightarrow> part_size p | _ \<Rightarrow> 0) stream)"

lemma sum_chunk_size: "sum_list (map chunk_size (map Got parts)) = length (concat parts)"
  by (induction parts) (auto simp: chunk_size_def)

definition finite_limits :: "MultipartLimits \<Rightarrow> bool" where
  "finite_limits l = (total_bytes l < 2 ^ 64 - 1 \<and> field_bytes l < 2 ^ 64 - 1)"

lemma sat_add_le: "sat_add a b \<le> m \<Longrightarrow> m < 2 ^ 64 - 1 \<Longrightarrow> sat_add a b = a + b"
  by (auto simp: sat_add_def min_def split: if_splits)

lemma part_bytes_Ok:
  assumes "part_bytes limits c part = Ok (b, c')" and "finite_limits limits" and "cnt_total c \<le> total_bytes limits"
  shows "length b = part_size part" and "part_size part \<le> field_bytes limits" and "cnt_fields c' = cnt_fields c"
    and "cnt_total c' = cnt_total c + part_size part" and "cnt_total c' \<le> total_bytes limits"
    and "\<exists>parts. part_reads part = map Got parts \<and> b = concat parts"
proof -
  obtain n where read: "read_bytes limits 0 (cnt_total c) (part_reads part) [] = Ok (b, n)"
    and c': "c' = c\<lparr>cnt_total := n\<rparr>"
    using assms(1) by (auto simp: part_bytes_def rbind_eq_Ok_iff)
  obtain parts where parts: "part_reads part = map Got parts" "b = concat parts"
    "part_reads part \<noteq> [] \<longrightarrow> sat_add 0 (length b) \<le> field_bytes limits \<and>
       n = sat_add (cnt_total c) (length b) \<and> n \<le> total_bytes limits" "part_reads part = [] \<longrightarrow> n = cnt_total c"
    using read_bytes_Ok [OF read] by auto
  have size: "part_size part = length b"
    unfolding part_size_def parts(1) sum_chunk_size parts(2) ..
  have "n = cnt_total c + length b \<and> length b \<le> field_bytes limits \<and> n \<le> total_bytes limits"
  proof (cases "part_reads part = []")
    case True
    then show ?thesis
      using parts assms(3) by simp
  next
    case False
    then show ?thesis
      using parts(3) assms(2) sat_add_le [of 0 "length b" "field_bytes limits"]
        sat_add_le [of "cnt_total c" "length b" "total_bytes limits"] by (auto simp: finite_limits_def)
  qed
  then show "length b = part_size part" "part_size part \<le> field_bytes limits" "cnt_fields c' = cnt_fields c"
    "cnt_total c' = cnt_total c + part_size part" "cnt_total c' \<le> total_bytes limits"
    by (simp_all add: c' size)
  show "\<exists>parts. part_reads part = map Got parts \<and> b = concat parts"
    using parts(1,2) by blast
qed

lemma next_field_Some:
  "next_field limits c stream = Ok (Some (part, c', rest)) \<Longrightarrow>
     cnt_fields c < max_fields limits \<and> stream = Got part # rest \<and> c' = c\<lparr>cnt_fields := cnt_fields c + 1\<rparr>"
  by (auto simp: next_field_def split: if_splits list.splits Read.splits)

definition accepts :: "(string \<Rightarrow> string) \<Rightarrow> (bytes \<Rightarrow> SniffedType option) \<Rightarrow> UploadPolicy \<Rightarrow> Part \<Rightarrow> UploadedFile \<Rightarrow> bool" where
  "accepts nfc infer policy part file =
     ((\<exists>name. part_file part = Some name \<and>
         safe_filename_parse nfc name (policy_allowed policy) = Ok (up_filename file)) \<and>
      (policy_field policy \<noteq> None \<longrightarrow> part_name part = policy_field policy) \<and>
      sniff_verify infer (up_bytes file) (extension (up_filename file)) = Ok (up_type file) \<and>
      (\<exists>parts. part_reads part = map Got parts \<and> up_bytes file = concat parts))"

lemma extract_loop_Ok:
  assumes "extract_loop nfc infer limits policy c stream = Ok file" and "finite_limits limits"
    and "cnt_total c \<le> total_bytes limits"
  shows "\<exists>n part. n < length stream \<and> stream ! n = Got part \<and> cnt_fields c + n < max_fields limits \<and>
    cnt_total c + body_size (take (Suc n) stream) \<le> total_bytes limits \<and> part_size part \<le> field_bytes limits \<and>
    accepts nfc infer policy part file"
  using assms
proof (induction stream arbitrary: c rule: length_induct)
  case (1 stream)
  obtain part c' rest b c'' where field: "next_field limits c stream = Ok (Some (part, c', rest))"
    and bytes: "part_bytes limits c' part = Ok (b, c'')"
    using "1.prems"(1) by (subst (asm) extract_loop.simps) (auto split: sum.splits option.splits)
  note f = next_field_Some [OF field]
  have total: "cnt_total c' \<le> total_bytes limits"
    using f "1.prems"(3) by simp
  note p = part_bytes_Ok [OF bytes "1.prems"(2) total]
  show ?case
  proof (cases "part_file part = None \<or> policy_field policy \<noteq> None \<and> part_name part \<noteq> policy_field policy")
    case True
    have "extract_loop nfc infer limits policy c'' rest = Ok file"
      using "1.prems"(1) True by (subst (asm) extract_loop.simps) (auto simp: field bytes split: option.splits)
    then obtain n part' where IH: "n < length rest" "rest ! n = Got part'" "cnt_fields c'' + n < max_fields limits"
      "cnt_total c'' + body_size (take (Suc n) rest) \<le> total_bytes limits" "part_size part' \<le> field_bytes limits"
      "accepts nfc infer policy part' file"
      using "1.IH" f p "1.prems"(2) by (metis length_Cons lessI)
    then show ?thesis
      using f p by (intro exI [of _ "Suc n"] exI [of _ part']) (auto simp: body_size_def)
  next
    case False
    then obtain name where name: "part_file part = Some name"
      and field_ok: "policy_field policy \<noteq> None \<longrightarrow> part_name part = policy_field policy"
      by auto
    obtain ct where "safe_filename_parse nfc name (policy_allowed policy) = Ok (up_filename file)"
      "sniff_verify infer b (extension (up_filename file)) = Ok (up_type file)" "up_bytes file = b"
      using "1.prems"(1) False
      by (subst (asm) extract_loop.simps) (auto simp: field bytes name split: sum.splits if_splits)
    then have "accepts nfc infer policy part file"
      using name field_ok p(6) by (simp add: accepts_def)
    then show ?thesis
      using f p by (intro exI [of _ 0] exI [of _ part]) (simp add: body_size_def)
  qed
qed

text \<open>
  C35.  An upload the extractor accepts is bounded, named and recognised: it is one of the first
  \<open>max_fields\<close> parts, all parts read up to it together hold at most \<open>total_bytes\<close>, the part itself at
  most \<open>field_bytes\<close>, its filename is a safe name of an allowed type, and its bytes pass the signature
  check for that type.
\<close>
theorem accepted_upload_bounded:
  assumes "upload_from_request nfc infer lims pol (Ok stream) = Ok file"
    and "finite_limits (limits_from_extensions lims)"
  shows "\<exists>n part. n < length stream \<and> n < max_fields (limits_from_extensions lims) \<and> stream ! n = Got part \<and>
    body_size (take (Suc n) stream) \<le> total_bytes (limits_from_extensions lims) \<and>
    length (up_bytes file) \<le> field_bytes (limits_from_extensions lims) \<and>
    accepts nfc infer (policy_from_extensions pol) part file"
proof -
  have "extract_loop nfc infer (limits_from_extensions lims) (policy_from_extensions pol)
      \<lparr>cnt_fields = 0, cnt_total = 0\<rparr> stream = Ok file"
    using assms(1) by (simp add: upload_from_request_def)
  from extract_loop_Ok [OF this assms(2)] obtain n part where
    part: "n < length stream" "stream ! n = Got part" "n < max_fields (limits_from_extensions lims)"
      "body_size (take (Suc n) stream) \<le> total_bytes (limits_from_extensions lims)"
      "part_size part \<le> field_bytes (limits_from_extensions lims)"
      "accepts nfc infer (policy_from_extensions pol) part file"
    by auto
  moreover have "length (up_bytes file) = part_size part"
    using part(6) by (metis accepts_def part_size_def sum_chunk_size)
  ultimately show ?thesis
    by auto
qed

definition sample_stream :: "Part Read list" where
  "sample_stream = [Got \<lparr>part_name = Some ''title'', part_file = None, part_reads = [Got [104, 105]]\<rparr>,
     Got \<lparr>part_name = Some ''file'', part_file = Some ''photo.png'', part_reads = [Got [137, 80], Got [78, 71]]\<rparr>]"

definition sample_infer :: "bytes \<Rightarrow> SniffedType option" where
  "sample_infer b = (if take 4 b = [137, 80, 78, 71] then Some \<lparr>sniff_ext = ''png'', sniff_mime = ''image/png''\<rparr> else None)"

lemma sample_upload:
  "upload_from_request (\<lambda>x. if x = ''photo.png'' then x else []) sample_infer None None (Ok sample_stream) =
     Ok \<lparr>up_filename = \<lparr>stem = ''photo'', extension = ''png''\<rparr>,
         up_type = Some \<lparr>sniff_ext = ''png'', sniff_mime = ''image/png''\<rparr>, up_bytes = [137, 80, 78, 71]\<rparr>"
  using sample_filename
  by (simp add: upload_from_request_def sample_stream_def extract_loop.simps next_field_def limits_from_extensions_def
      limits_new_def policy_from_extensions_def policy_default_def policy_new_def part_bytes_def read_chunk_def
      sat_add_def rbind_def sniff_verify_def expected_signatures_def SIGNATURES_def sniff_def sample_infer_def
      SNIFF_BYTES_def)

theorem accepted_upload_bounded_witness:
  "\<exists>n < 32. \<exists>part. sample_stream ! n = Got part \<and> body_size (take (Suc n) sample_stream) \<le> 16777216"
  using accepted_upload_bounded [OF sample_upload]
  by (auto simp: finite_limits_def limits_from_extensions_def limits_new_def)

section \<open>What reaches the disk\<close>

text \<open>What the program relies on the object store for.  \<open>view\<close> is what lies at a key, \<open>pending\<close> what the writer
  open at a key has been given so far.  Every operation changes at most the objects at the keys it is given; a
  writer starts empty and gathers the chunks written to it, and closing it leaves what it has gathered at its
  key; a delete that succeeds leaves nothing; a rename that succeeds moves the object.\<close>

definition only :: "('s \<Rightarrow> string \<Rightarrow> bytes option) \<Rightarrow> string set \<Rightarrow> 's \<Rightarrow> 's \<Rightarrow> bool" where
  "only view ks s s' = (\<forall>k. k \<notin> ks \<longrightarrow> view s' k = view s k)"

definition store_laws :: "'s operator \<Rightarrow> ('s \<Rightarrow> string \<Rightarrow> bytes option) \<Rightarrow> ('s \<Rightarrow> string \<Rightarrow> bytes option) \<Rightarrow> bool" where
  "store_laws op view pending =
     (\<forall>p q a b s.
        only view {p} s (snd (op_open op p s)) \<and>
        only view {p} s (snd (op_write op p b s)) \<and>
        only view {p} s (snd (op_close op p s)) \<and>
        only view {p} s (snd (op_abort op p s)) \<and>
        only view {p} s (snd (op_delete op p s)) \<and>
        only view {} s (snd (op_exists op p s)) \<and>
        only view {p, q} s (snd (op_rename op p q s)) \<and>
        (fst (op_open op p s) = Ok () \<longrightarrow> pending (snd (op_open op p s)) p = Some []) \<and>
        (fst (op_write op p b s) = Ok () \<longrightarrow> pending s p = Some a \<longrightarrow> pending (snd (op_write op p b s)) p = Some (a @ b)) \<and>
        (fst (op_close op p s) = Ok () \<longrightarrow> pending s p = Some a \<longrightarrow> view (snd (op_close op p s)) p = Some a) \<and>
        (fst (op_delete op p s) = Ok () \<longrightarrow> view (snd (op_delete op p s)) p = None) \<and>
        (\<forall>x. fst (op_exists op p s) = Ok x \<longrightarrow> x = (view s p \<noteq> None)) \<and>
        (fst (op_rename op p q s) = Ok () \<longrightarrow> p \<noteq> q \<longrightarrow>
           view (snd (op_rename op p q s)) q = view s p \<and> view (snd (op_rename op p q s)) p = None))"

lemma sbind_Ok: "sbind m k f = (Ok y, s') \<longleftrightarrow> (\<exists>x s. m = (Ok x, s) \<and> k x s = (Ok y, s'))"
  by (auto simp: sbind_def split: prod.splits sum.splits)

lemma sbind_ok_unit: "m = (Ok x, s) \<Longrightarrow> sbind m k f = k x s"
  by (simp add: sbind_def)

lemma only_trans: "only view ks s s' \<Longrightarrow> only view ks s' s'' \<Longrightarrow> only view ks s s''"
  by (simp add: only_def)

lemma only_mono: "only view ks s s' \<Longrightarrow> ks \<subseteq> ks' \<Longrightarrow> only view ks' s s'"
  by (auto simp: only_def)

lemma store_op:
  assumes "store_laws op view pending"
  shows "op_open op p s = (r, s') \<Longrightarrow> only view {p} s s'"
    and "op_write op p b s = (r, s') \<Longrightarrow> only view {p} s s'"
    and "op_abort op p s = (r, s') \<Longrightarrow> only view {p} s s'"
    and "op_close op p s = (Ok (), s') \<Longrightarrow> only view {p} s s' \<and> (\<forall>a. pending s p = Some a \<longrightarrow> view s' p = Some a)"
    and "op_delete op p s = (Ok (), s') \<Longrightarrow> only view {p} s s' \<and> view s' p = None"
    and "op_exists op p s = (Ok x, s') \<Longrightarrow> only view {} s s' \<and> x = (view s p \<noteq> None)"
    and "op_rename op p q s = (Ok (), s') \<Longrightarrow> p \<noteq> q \<Longrightarrow>
      only view {p, q} s s' \<and> view s' q = view s p \<and> view s' p = None"
    and "op_open op p s = (Ok (), s') \<Longrightarrow> pending s' p = Some []"
    and "op_write op p b s = (Ok (), s') \<Longrightarrow> pending s p = Some a \<Longrightarrow> pending s' p = Some (a @ b)"
  using assms unfolding store_laws_def by (metis fst_conv snd_conv)+

lemma head_of_fed: "upload_head (fed_writer w chunk) = take SNIFF_BYTES (upload_head w @ chunk)"
  if "length (upload_head w) \<le> SNIFF_BYTES"
  using that by (simp add: fed_writer_def)

text \<open>The head is the first 512 bytes of what was written, however it was cut into chunks, so the check
  on the head is the check on the whole content.\<close>

lemma fed_writers:
  "foldl fed_writer \<lparr>staging = stg, upload_prefix = pre, upload_hasher = hasher_new, upload_head = []\<rparr> parts =
     \<lparr>staging = stg, upload_prefix = pre, upload_hasher = foldl hasher_update hasher_new parts,
      upload_head = take SNIFF_BYTES (concat parts)\<rparr>"
proof (induction parts rule: rev_induct)
  case (snoc c parts)
  define w where "w = \<lparr>staging = stg, upload_prefix = pre, upload_hasher = foldl hasher_update hasher_new parts,
      upload_head = take SNIFF_BYTES (concat parts)\<rparr>"
  have "upload_head (fed_writer w c) = take SNIFF_BYTES (take SNIFF_BYTES (concat parts) @ c)"
    by (simp add: w_def head_of_fed)
  also have "\<dots> = take SNIFF_BYTES (concat (parts @ [c]))"
    by (simp add: min_def)
  finally have "upload_head (fed_writer w c) = take SNIFF_BYTES (concat (parts @ [c]))" .
  moreover have "staging (fed_writer w c) = stg" "upload_prefix (fed_writer w c) = pre"
    "upload_hasher (fed_writer w c) = foldl hasher_update hasher_new (parts @ [c])"
    by (simp_all add: fed_writer_def w_def)
  ultimately have "fed_writer w c = \<lparr>staging = stg, upload_prefix = pre,
      upload_hasher = foldl hasher_update hasher_new (parts @ [c]), upload_head = take SNIFF_BYTES (concat (parts @ [c]))\<rparr>"
    by (cases "fed_writer w c") simp
  then show ?case
    by (simp only: foldl_append foldl_Cons foldl_Nil snoc.IH w_def)
qed simp

lemma sniff_head: "sniff_verify infer (take SNIFF_BYTES bytes) ext = sniff_verify infer bytes ext"
  by (simp add: sniff_verify_def sniff_def)

lemma finish_settles:
  assumes laws: "store_laws op view pending" and fin: "upload_finish sha op w ext s = (Ok a, s')"
    and dest: "destination sha w ext = Ok dest" and ne: "dest \<noteq> staging w"
    and written: "pending s (staging w) = Some (fed (upload_hasher w))"
  shows "a = hasher_finish sha (upload_hasher w) ext" and "only view {staging w, dest} s s'"
    and "view s' (staging w) = None"
    and "view s' dest = (if view s dest = None then Some (fed (upload_hasher w)) else view s dest)"
proof -
  obtain s1 s2 present where close: "op_close op (staging w) s = (Ok (), s1)"
    and ex: "op_exists op dest s1 = (Ok present, s2)"
    and mv: "(if present then op_delete op (staging w) s2 else op_rename op (staging w) dest s2) = (Ok (), s')"
    and a: "a = hasher_finish sha (upload_hasher w) ext"
    using fin dest by (auto simp: upload_finish_def sbind_Ok)
  note l = store_op(4) [OF laws close] store_op(6) [OF laws ex]
  have same: "view s1 dest = view s dest" "view s2 = view s1"
    using l ne by (auto simp: only_def)
  have mv': "only view {staging w, dest} s2 s' \<and> view s' (staging w) = None \<and>
      view s' dest = (if present then view s2 dest else view s2 (staging w))"
  proof (cases present)
    case True
    then have "only view {staging w} s2 s' \<and> view s' (staging w) = None"
      using store_op(5) [OF laws] mv by simp
    then show ?thesis
      using True ne by (auto simp: only_def)
  next
    case False
    then show ?thesis
      using store_op(7) [OF laws, of "staging w" dest s2 s'] mv ne by auto
  qed
  show "a = hasher_finish sha (upload_hasher w) ext" by (rule a)
  show "only view {staging w, dest} s s'"
    using l mv' same by (auto simp: only_def)
  show "view s' (staging w) = None"
    using mv' by simp
  show "view s' dest = (if view s dest = None then Some (fed (upload_hasher w)) else view s dest)"
    using mv' l same written by auto
qed

section \<open>Staging keys\<close>

definition staging_name :: "nat \<Rightarrow> nat \<Rightarrow> nat \<Rightarrow> string" where
  "staging_name pid nanos counter =
     hex_width 8 pid @ ''-'' @ hex_width 32 nanos @ ''-'' @ hex_width 16 counter @ ''.part''"

lemma length_hex_width [simp]: "length (hex_width w n) = w"
  by (simp add: hex_width_def)

lemma HEX_digit_alnum: "is_ascii_alphanumeric (HEX ! (n mod 16))"
proof -
  have "n mod 16 < length HEX"
    by (simp add: HEX_def)
  then show ?thesis
    using HEX_alphanumeric nth_mem by blast
qed

lemma set_hex_width: "c \<in> set (hex_width w n) \<Longrightarrow> is_ascii_alphanumeric c"
  by (auto simp: hex_width_def HEX_digit_alnum)

lemma set_staging_name:
  assumes "c \<in> set (staging_name pid nanos counter)"
  shows "c \<noteq> CHR ''/'' \<and> c \<noteq> CHR 0x5C \<and> \<not> control_byte c"
proof -
  from assms consider "is_ascii_alphanumeric c" | "c = CHR ''-''" | "c = CHR ''.''"
    using set_hex_width by (fastforce simp: staging_name_def is_ascii_alphanumeric_def)
  then show ?thesis
    using alphanumeric_plain by cases (auto simp: control_byte_def)
qed

lemma split_staging:
  "split CHR ''/'' (STAGING_PREFIX @ ''/'' @ staging_name pid nanos counter) =
     [STAGING_PREFIX, staging_name pid nanos counter]"
  using split_on_no_sep [of "staging_name pid nanos counter" "\<lambda>c. c = CHR ''/''"] set_staging_name
  by (auto simp: split_on_append_sep STAGING_PREFIX_def)

text \<open>The \<^verbatim>\<open>expect\<close> of \<^verbatim>\<open>staging_path\<close> never fires.\<close>

lemma staging_path_ok: "staging_path pid nanos counter = Ok (STAGING_PREFIX @ ''/'' @ staging_name pid nanos counter)"
proof -
  let ?k = "STAGING_PREFIX @ ''/'' @ staging_name pid nanos counter"
  have len: "length (staging_name pid nanos counter) = 63"
    by (simp add: staging_name_def)
  have "last ?k = CHR ''t''"
    by (simp add: staging_name_def)
  then have "strip_suffix ''/'' ?k = None"
    by (intro strip_slash_None) (auto simp: STAGING_PREFIX_def)
  moreover have "staging_name pid nanos counter \<noteq> ''..''" "staging_name pid nanos counter \<noteq> []"
    using len by auto
  ultimately have "\<forall>w \<in> set (split CHR ''/'' (case strip_suffix ''/'' ?k of Some t \<Rightarrow> t | None \<Rightarrow> ?k)). w \<noteq> ''..'' \<and> w \<noteq> []"
    using split_staging [of pid nanos counter] by (simp add: STAGING_PREFIX_def)
  moreover have "\<forall>c \<in> set ?k. c \<noteq> CHR 0x5C \<and> \<not> control_byte c"
    using set_staging_name [of _ pid nanos counter] by (auto simp: STAGING_PREFIX_def control_byte_def)
  moreover have "?k \<noteq> []" "hd ?k \<noteq> CHR ''/''"
    by (simp_all add: STAGING_PREFIX_def)
  ultimately have "storage_path_new ?k = Ok ?k"
    unfolding storage_path_new_Ok_iff by blast
  then show ?thesis
    by (simp add: staging_path_def staging_name_def)
qed

text \<open>Digits read back: two uploads get the same key only with the same process, clock and counter.\<close>

lemma hex_width_Suc: "hex_width (Suc w) n = hex_width w (n div 16) @ [HEX ! (n mod 16)]"
proof -
  have "n div 16 ^ (w - i) mod 16 = n div 16 div 16 ^ (w - 1 - i) mod 16" if "i < w" for i
  proof -
    have "w - i = Suc (w - 1 - i)" using that by simp
    then have "n div 16 ^ (w - i) = n div 16 div 16 ^ (w - 1 - i)"
      by (simp only: power_Suc div_mult2_eq)
    then show ?thesis by simp
  qed
  then show ?thesis
    by (simp add: hex_width_def)
qed

lemma HEX_inject: "a < 16 \<Longrightarrow> b < 16 \<Longrightarrow> HEX ! a = HEX ! b \<Longrightarrow> a = b"
  by (rule nth_eq_iff_index_eq [THEN iffD1, of HEX]) (auto simp: HEX_def)

lemma hex_width_inject: "hex_width w a = hex_width w b \<Longrightarrow> a < 16 ^ w \<Longrightarrow> b < 16 ^ w \<Longrightarrow> a = b"
proof (induction w arbitrary: a b)
  case (Suc w)
  have "hex_width w (a div 16) = hex_width w (b div 16)" "HEX ! (a mod 16) = HEX ! (b mod 16)"
    using Suc.prems(1) by (simp_all add: hex_width_Suc)
  moreover have "a div 16 < 16 ^ w" "b div 16 < 16 ^ w"
    using Suc.prems(2,3) by (simp_all add: less_mult_imp_div_less mult.commute)
  ultimately have "a div 16 = b div 16" "a mod 16 = b mod 16"
    using Suc.IH HEX_inject [of "a mod 16" "b mod 16"] by auto
  then show ?case
    by (metis div_mult_mod_eq)
qed simp

lemma staging_path_inject:
  assumes "staging_path p n c = staging_path p' n' c'" and "p < 16 ^ 8" "p' < 16 ^ 8"
    and "n < 16 ^ 32" "n' < 16 ^ 32" and "c < 16 ^ 16" "c' < 16 ^ 16"
  shows "p = p' \<and> n = n' \<and> c = c'"
  using assms by (auto simp: staging_path_ok staging_name_def intro: hex_width_inject)

section \<open>The settled upload\<close>

definition object_key :: "string option \<Rightarrow> ContentAddress \<Rightarrow> string" where
  "object_key pre a =
     (case pre of None \<Rightarrow> [] | Some p \<Rightarrow> trim_end_matches (\<lambda>c. c = CHR ''/'') p @ ''/'') @ show_address a"

lemma object_key_not_staged:
  assumes "address_ok a" and "staging_path pid nanos counter = Ok stg"
  shows "object_key pre a \<noteq> stg"
proof
  assume "object_key pre a = stg"
  moreover have "last (split CHR ''/'' (object_key pre a)) = digest a @ ''.'' @ content_ext a"
    using split_show_address [OF assms(1)] by (cases pre) (simp_all add: object_key_def split_on_append_sep)
  moreover have "last (split CHR ''/'' stg) = staging_name pid nanos counter"
    using assms(2) split_staging [of pid nanos counter] by (auto simp: staging_path_ok)
  ultimately have "(digest a @ ''.'' @ content_ext a) ! 8 = staging_name pid nanos counter ! 8"
    by simp
  moreover have "staging_name pid nanos counter ! 8 = CHR ''-''"
    by (simp add: staging_name_def nth_append)
  ultimately have "digest a ! 8 = CHR ''-''"
    using assms(1) by (simp add: nth_append address_ok_def DIGEST_HEX_LEN_def)
  then have "CHR ''-'' \<in> set (digest a)"
    using assms(1) by (metis DIGEST_HEX_LEN_def address_ok_def nth_mem numeral_less_iff semiring_norm(76,78,81))
  then show False
    using assms(1) by (auto simp: address_ok_def is_ascii_alphanumeric_def)
qed

lemma store_only:
  assumes "store_laws op view pending"
  shows "op_close op p s = (r, s') \<Longrightarrow> only view {p} s s'"
    and "op_delete op p s = (r, s') \<Longrightarrow> only view {p} s s'"
    and "op_exists op p s = (r', s') \<Longrightarrow> only view {} s s'"
    and "op_rename op p q s = (r, s') \<Longrightarrow> only view {p, q} s s'"
  using assms unfolding store_laws_def by (metis snd_conv)+

lemma store_frame:
  assumes "store_laws op view pending"
  shows "op_open op p s = (r, s') \<Longrightarrow> p \<in> ks \<Longrightarrow> only view ks s s'"
    and "op_write op p b s = (r, s') \<Longrightarrow> p \<in> ks \<Longrightarrow> only view ks s s'"
    and "op_close op p s = (r, s') \<Longrightarrow> p \<in> ks \<Longrightarrow> only view ks s s'"
    and "op_abort op p s = (r, s') \<Longrightarrow> p \<in> ks \<Longrightarrow> only view ks s s'"
    and "op_delete op p s = (r, s') \<Longrightarrow> p \<in> ks \<Longrightarrow> only view ks s s'"
    and "op_exists op p s = (r', s') \<Longrightarrow> only view ks s s'"
    and "op_rename op p q s = (r, s') \<Longrightarrow> p \<in> ks \<Longrightarrow> q \<in> ks \<Longrightarrow> only view ks s s'"
  using only_mono [of view "{p}" _ _ ks] only_mono [of view "{}" _ _ ks] only_mono [of view "{p, q}" _ _ ks]
    store_op(1-3) [OF assms] store_only [OF assms] by simp_all

lemma finish_frame:
  assumes laws: "store_laws op view pending" and dest: "destination sha w ext = Ok dest"
    and fin: "upload_finish sha op w ext s = (r, s')"
  shows "only view {staging w, dest} s s'"
proof -
  note f = store_frame [OF laws, where ks = "{staging w, dest}"]
  obtain c s1 where c: "op_close op (staging w) s = (c, s1)" by fastforce
  obtain x s2 where x: "op_exists op dest s1 = (x, s2)" by fastforce
  obtain m s3 where m: "(if x = Ok True then op_delete op (staging w) s2 else op_rename op (staging w) dest s2) = (m, s3)"
    by fastforce
  have 1: "only view {staging w, dest} s s1" and 2: "only view {staging w, dest} s1 s2"
    using f(3) [OF c] f(6) [OF x] by simp_all
  moreover have "only view {staging w, dest} s2 s3"
    using m f(5) [of "staging w" s2 m s3] f(7) [of "staging w" dest s2 m s3] by (simp split: if_splits)
  moreover have "s' = s1 \<or> s' = s2 \<or> s' = s3"
    using fin dest c x m
    by (cases c; cases x; cases m) (auto simp: upload_finish_def sbind_def split: prod.splits sum.splits if_splits)
  ultimately show ?thesis
    by (metis only_trans)
qed

lemma abort_frame:
  assumes laws: "store_laws op view pending" and "upload_abort op w s = (r, s')"
  shows "only view {staging w} s s'" and "r = Ok () \<Longrightarrow> view s' (staging w) = None"
proof -
  obtain a s1 where a: "op_abort op (staging w) s = (a, s1)"
    by fastforce
  obtain d where d: "op_delete op (staging w) s1 = (d, s')" "r = Ok () \<Longrightarrow> d = Ok ()"
    using assms(2) a by (auto simp: upload_abort_def sbind_def split: prod.splits sum.splits)
  show "only view {staging w} s s'"
    by (rule only_trans [OF store_op(3) [OF laws a] store_only(2) [OF laws d(1)]])
  show "r = Ok () \<Longrightarrow> view s' (staging w) = None"
    using d store_op(5) [OF laws, of "staging w" s1 s'] by simp
qed

lemma sbind_cases:
  assumes "sbind m k f = (r, s')"
  obtains e where "m = (Err e, s')" and "r = Err (f e)" | x s where "m = (Ok x, s)" and "k x s = (r, s')"
  using assms by (auto simp: sbind_def split: prod.splits sum.splits)

text \<open>What a call of \<^verbatim>\<open>store\<close> leaves behind, by its outcome.\<close>

definition settled :: "('s \<Rightarrow> string \<Rightarrow> bytes option) \<Rightarrow> (bytes \<Rightarrow> bytes) \<Rightarrow> (bytes \<Rightarrow> SniffedType option) \<Rightarrow> string \<Rightarrow>
    string option \<Rightarrow> UploadedFile \<Rightarrow> (UploadError, ContentAddress) result \<Rightarrow> 's \<Rightarrow> 's \<Rightarrow> bool" where
  "settled view sha infer stg pre file r s s' =
     (let address = address_of sha (up_bytes file) (extension (up_filename file));
          key = object_key pre address;
          sniffed = sniff_verify infer (up_bytes file) (extension (up_filename file))
      in case r of
           Ok a \<Rightarrow> a = address \<and> (\<exists>t. sniffed = Ok t) \<and>
             (\<forall>k. view s' k = (if k = stg then None
                else if k = key \<and> view s key = None then Some (up_bytes file) else view s k))
         | Err (UpContent e) \<Rightarrow> sniffed = Err e \<and> (\<forall>k. view s' k = (if k = stg then None else view s k))
         | Err (UpStorage _) \<Rightarrow> only view {stg, key} s s')"

lemma begun:
  assumes laws: "store_laws op view pending"
    and "(case pre of Some p \<Rightarrow> begin_upload_under op stg p s | None \<Rightarrow> begin_upload op stg s) = (r, s')"
  shows "only view {stg} s s'" and "r = Ok w \<Longrightarrow>
    w = \<lparr>staging = stg, upload_prefix = map_option (trim_end_matches (\<lambda>c. c = CHR ''/'')) pre,
      upload_hasher = hasher_new, upload_head = []\<rparr> \<and>
    (\<forall>p. pre = Some p \<longrightarrow> (\<exists>k. storage_path_new (trim_end_matches (\<lambda>c. c = CHR ''/'') p) = Ok k)) \<and>
    pending s' stg = Some []"
proof -
  have refl: "only view {stg} s s"
    by (simp add: only_def)
  show "only view {stg} s s'"
    using assms(2) refl
    by (auto simp: begin_upload_under_def begin_upload_def open_upload_def sbind_def Let_def
        split: option.splits prod.splits sum.splits dest: store_frame(1) [OF laws])
  show "w = \<lparr>staging = stg, upload_prefix = map_option (trim_end_matches (\<lambda>c. c = CHR ''/'')) pre,
      upload_hasher = hasher_new, upload_head = []\<rparr> \<and>
    (\<forall>p. pre = Some p \<longrightarrow> (\<exists>k. storage_path_new (trim_end_matches (\<lambda>c. c = CHR ''/'') p) = Ok k)) \<and>
    pending s' stg = Some []" if "r = Ok w"
    using assms(2) that
    by (auto simp: begin_upload_under_def begin_upload_def open_upload_def sbind_def Let_def
        split: option.splits prod.splits sum.splits dest: store_op(8) [OF laws])
qed

lemma trim_end_idem: "trim_end_matches q (trim_end_matches q s) = trim_end_matches q s"
  by (simp add: trim_end_matches_def)

lemma destination_ok:
  assumes "address_ok (hasher_finish sha (upload_hasher w) ext)"
    and "upload_prefix w = map_option (trim_end_matches (\<lambda>c. c = CHR ''/'')) pre"
    and "\<forall>p. pre = Some p \<longrightarrow> (\<exists>k. storage_path_new (trim_end_matches (\<lambda>c. c = CHR ''/'') p) = Ok k)"
  shows "destination sha w ext = Ok (object_key pre (hasher_finish sha (upload_hasher w) ext))"
proof (cases pre)
  case None
  then show ?thesis
    using assms by (simp add: destination_def object_key_def address_path_ok)
next
  case (Some p)
  then obtain k where k: "storage_path_new (trim_end_matches (\<lambda>c. c = CHR ''/'') p) = Ok k"
    using assms(3) by blast
  then have "k = trim_end_matches (\<lambda>c. c = CHR ''/'') p"
    by (simp add: storage_path_new_Ok_iff)
  with k show ?thesis
    using assms(1,2) Some address_path_under_ok [OF assms(1), of "trim_end_matches (\<lambda>c. c = CHR ''/'') p" k]
    by (simp add: destination_def object_key_def trim_end_idem)
qed

lemma finish_verified_settles:
  assumes laws: "store_laws op view pending" and key: "destination sha w ext = Ok key" and ne: "key \<noteq> staging w"
    and written: "pending s (staging w) = Some (fed (upload_hasher w))"
    and fin: "finish_verified sha infer op w ext s = (r, s')"
  shows "case r of
      Ok a \<Rightarrow> a = hasher_finish sha (upload_hasher w) ext \<and> (\<exists>t. upload_verify infer w ext = Ok t) \<and>
        (\<forall>k. view s' k = (if k = staging w then None
           else if k = key \<and> view s key = None then Some (fed (upload_hasher w)) else view s k))
    | Err (UpContent e) \<Rightarrow> upload_verify infer w ext = Err e \<and>
        (\<forall>k. view s' k = (if k = staging w then None else view s k))
    | Err (UpStorage _) \<Rightarrow> only view {staging w, key} s s'"
proof (cases "upload_verify infer w ext")
  case (Inl e)
  with fin have "sbind (upload_abort op w s) (\<lambda>_ s1. (Err (UpContent e), s1)) UpStorage = (r, s')"
    by (simp add: finish_verified_def)
  then show ?thesis
  proof (cases rule: sbind_cases)
    case (1 f)
    then show ?thesis
      using abort_frame(1) [OF laws 1(1)] by (auto simp: only_def)
  next
    case (2 u s1)
    then show ?thesis
      using abort_frame [OF laws 2(1)] Inl by (auto simp: only_def)
  qed
next
  case (Inr t)
  with fin have "sbind (upload_finish sha op w ext s) (\<lambda>a s1. (Ok a, s1)) UpStorage = (r, s')"
    by (simp add: finish_verified_def)
  then show ?thesis
  proof (cases rule: sbind_cases)
    case (1 e)
    then show ?thesis
      using finish_frame [OF laws key 1(1)] by simp
  next
    case (2 a s1)
    note settles = finish_settles [OF laws 2(1) key ne written]
    have "view s1 k = (if k = staging w then None
        else if k = key \<and> view s key = None then Some (fed (upload_hasher w)) else view s k)" for k
      using settles(2-4) by (cases "k = key") (auto simp: only_def)
    then show ?thesis
      using settles(1) 2(2) Inr by auto
  qed
qed

lemma written_settles:
  assumes laws: "store_laws op view pending" and aok: "address_ok (address_of sha bytes ext)"
    and stg: "staging_path pid nanos counter = Ok stg"
    and pre: "\<forall>p. pre = Some p \<longrightarrow> (\<exists>k. storage_path_new (trim_end_matches (\<lambda>c. c = CHR ''/'') p) = Ok k)"
    and o2: "only view {stg} s s2" and written: "pending s2 stg = Some bytes"
    and fin: "finish_verified sha infer op (fed_writer \<lparr>staging = stg,
      upload_prefix = map_option (trim_end_matches (\<lambda>c. c = CHR ''/'')) pre, upload_hasher = hasher_new, upload_head = []\<rparr> bytes)
      ext s2 = (r, s')"
    and names: "ext = extension (up_filename file)" "bytes = up_bytes file"
  shows "settled view sha infer stg pre file r s s'"
proof -
  let ?a = "address_of sha bytes ext"
  define w where "w = fed_writer \<lparr>staging = stg,
    upload_prefix = map_option (trim_end_matches (\<lambda>c. c = CHR ''/'')) pre, upload_hasher = hasher_new, upload_head = []\<rparr> bytes"
  have w: "w = \<lparr>staging = stg, upload_prefix = map_option (trim_end_matches (\<lambda>c. c = CHR ''/'')) pre,
      upload_hasher = hasher_update hasher_new bytes, upload_head = take SNIFF_BYTES bytes\<rparr>"
    by (simp add: w_def fed_writer_def SNIFF_BYTES_def)
  have addr: "hasher_finish sha (upload_hasher w) ext = ?a"
    by (simp add: w address_of_def)
  have dest: "destination sha w ext = Ok (object_key pre ?a)"
    using destination_ok [of sha w ext pre] aok pre by (simp add: addr) (simp add: w)
  have stgw: "staging w = stg" and fed: "fed (upload_hasher w) = bytes"
    and ver: "upload_verify infer w ext = sniff_verify infer bytes ext"
    by (simp_all add: w hasher_update_def hasher_new_def upload_verify_def sniff_head)
  have same: "view s2 k = view s k" if "k \<noteq> stg" for k
    using o2 that by (simp add: only_def)
  show ?thesis
    using finish_verified_settles [OF laws dest _ _ fin [folded w_def]] object_key_not_staged [OF aok stg, of pre] written
    unfolding addr stgw fed ver
    by (auto simp: settled_def Let_def same only_def names split: sum.splits UploadError.splits)
qed

text \<open>
  C34.  Storing an upload settles the disk.  On success the bytes of the upload, as the store's writer was given
  them chunk by chunk, are at the key their own SHA-256 names (an object already there is kept), its content matched its type, and no staging object remains; when
  the content does not match, the staging object is gone and nothing else changed; and when the store
  itself fails, nothing but the staging key and that one key can have changed.  The store is assumed to
  obey \<open>store_laws\<close>, and SHA-256 to give 32 bytes.
\<close>
theorem upload_settles:
  assumes "store_laws op view pending" and "\<forall>b. length (sha b) = 32"
    and "extension_parse e = Ok (extension (up_filename file))" and "staging_path pid nanos counter = Ok stg"
    and "upload_store sha infer op stg pre file s = (r, s')"
  shows "settled view sha infer stg pre file r s s'"
proof -
  let ?ext = "extension (up_filename file)"
  let ?a = "address_of sha (up_bytes file) ?ext"
  have aok: "address_ok ?a"
    using hasher_finish_ok assms(2,3) by (simp add: address_of_def)
  have mono: "only view {stg, object_key pre ?a} s s1" if "only view {stg} s s1" for s s1
    by (rule only_mono [OF that]) simp
  show ?thesis
    using assms(5) unfolding upload_store_def
  proof (cases rule: sbind_cases)
    case (1 f)
    show ?thesis
      using mono [OF begun(1) [OF assms(1) 1(1)]] 1(2) by (simp add: settled_def)
  next
    case (2 w s1)
    note b = begun [OF assms(1) 2(1)]
    have w: "w = \<lparr>staging = stg, upload_prefix = map_option (trim_end_matches (\<lambda>c. c = CHR ''/'')) pre,
      upload_hasher = hasher_new, upload_head = []\<rparr>"
      and pre: "\<forall>p. pre = Some p \<longrightarrow> (\<exists>k. storage_path_new (trim_end_matches (\<lambda>c. c = CHR ''/'') p) = Ok k)"
      and begins: "pending s1 stg = Some []"
      using b(2) [OF refl] by auto
    obtain x s2 where wr: "op_write op stg (up_bytes file) s1 = (x, s2)"
      by fastforce
    have o2: "only view {stg} s s2"
      by (rule only_trans [OF b(1) store_op(2) [OF assms(1) wr]])
    show ?thesis
    proof (cases x)
      case (Inl u)
      obtain y s3 where ab: "upload_abort op w s2 = (y, s3)" by fastforce
      then have "r = Err (UpStorage Backend) \<and> s' = s3"
        using 2(2) wr Inl by (simp add: upload_write_def sbind_def w backend_def)
      moreover have "only view {stg} s s3"
        using only_trans [OF o2] abort_frame(1) [OF assms(1) ab] by (simp add: w)
      ultimately show ?thesis
        using mono by (simp add: settled_def)
    next
      case (Inr u)
      then have "finish_verified sha infer op (fed_writer w (up_bytes file)) ?ext s2 = (r, s')"
        using 2(2) wr by (simp add: upload_write_def sbind_def w)
      moreover have "pending s2 stg = Some (up_bytes file)"
        using store_op(9) [OF assms(1) _ begins] wr Inr by simp
      ultimately show ?thesis
        unfolding w by (intro written_settles [OF assms(1) aok assms(4) pre o2 _ _ refl refl])
    qed
  qed
qed

text \<open>A store in memory with its open writers, which obeys the laws.\<close>

definition memory_operator :: "((string \<Rightarrow> bytes option) \<times> (string \<Rightarrow> bytes option)) operator" where
  "memory_operator =
     \<lparr>op_open = (\<lambda>p (s, w). (Ok (), (s, w(p := Some [])))),
      op_write = (\<lambda>p b (s, w). (Ok (), (s, w(p := map_option (\<lambda>a. a @ b) (w p))))),
      op_close = (\<lambda>p (s, w). (Ok (), (s(p := w p), w(p := None)))),
      op_abort = (\<lambda>p (s, w). (Ok (), (s, w(p := None)))), op_delete = (\<lambda>p (s, w). (Ok (), (s(p := None), w))),
      op_exists = (\<lambda>p (s, w). (Ok (s p \<noteq> None), (s, w))), op_rename = (\<lambda>p q (s, w). (Ok (), (s(q := s p, p := None), w)))\<rparr>"

lemma memory_store_laws: "store_laws memory_operator fst snd"
  by (auto simp: store_laws_def memory_operator_def only_def)

theorem upload_settles_witness:
  "case upload_store (\<lambda>_. replicate 32 0) sample_infer memory_operator (STAGING_PREFIX @ ''/'' @ staging_name 1 2 3)
      (Some ''avatars'') \<lparr>up_filename = \<lparr>stem = ''photo'', extension = ''png''\<rparr>, up_type = None,
        up_bytes = [137, 80, 78, 71]\<rparr> (Map.empty, Map.empty) of
     (r, s') \<Rightarrow> settled fst (\<lambda>_. replicate 32 0) sample_infer (STAGING_PREFIX @ ''/'' @ staging_name 1 2 3)
       (Some ''avatars'') \<lparr>up_filename = \<lparr>stem = ''photo'', extension = ''png''\<rparr>, up_type = None,
         up_bytes = [137, 80, 78, 71]\<rparr> r (Map.empty, Map.empty) s'"
proof -
  have "extension_parse ''png'' = Ok ''png''"
    by (simp add: extension_parse_def MAX_EXTENSION_BYTES_def is_ascii_alphanumeric_def to_ascii_lowercase_def
        ascii_lower_def)
  then have png: "extension_parse ''png'' = Ok (extension (up_filename \<lparr>up_filename = \<lparr>stem = ''photo'',
      extension = ''png''\<rparr>, up_type = None, up_bytes = [137, 80, 78, 71]\<rparr>))"
    by simp
  show ?thesis
    unfolding case_prod_beta
    by (rule upload_settles [OF memory_store_laws _ png staging_path_ok prod.collapse [symmetric]]) simp
qed

end
