(* ===== verification/Rust_F32.thy ===== *)
theory Rust_F32
  imports Arc_Prelude Rust_F64
begin

text \<open>
  Rust's \<^verbatim>\<open>f32\<close> as the weights of \<^verbatim>\<open>Accept-Language\<close> use it: reading a decimal number, multiplying, and
  the cast to \<^verbatim>\<open>u16\<close>.  A finite number is a rational, rounded to 24 significant bits, to nearest with
  ties to even, on the grid of the subnormal numbers below \<open>2 powi -126\<close>; the two zeros are one.
\<close>

datatype f32 = Fin rat | Inf bool | NaN

definition ulp_f32 :: "rat \<Rightarrow> rat" where
  "ulp_f32 x = 2 powi max (exponent x - 23) (- 149)"

definition round_mag_f32 :: "rat \<Rightarrow> rat" where
  "round_mag_f32 x = of_int (round_half_even (x / ulp_f32 x)) * ulp_f32 x"

definition round_f32 :: "rat \<Rightarrow> rat" where
  "round_f32 x = (if x = 0 then 0 else if 0 < x then round_mag_f32 x else - round_mag_f32 (- x))"

definition to_f32 :: "rat \<Rightarrow> f32" where
  "to_f32 x = (let y = round_f32 x in if \<bar>y\<bar> \<ge> 2 ^ 128 then Inf (y < 0) else Fin y)"

section \<open>Reading a number\<close>

definition is_digit :: "char \<Rightarrow> bool" where
  "is_digit c = (48 \<le> (of_char c :: nat) \<and> (of_char c :: nat) \<le> 57)"

definition digit_run :: "string \<Rightarrow> string \<times> string" where
  "digit_run s = (takeWhile is_digit s, dropWhile is_digit s)"

definition read_sign :: "string \<Rightarrow> bool \<times> string" where
  "read_sign s = (case s of [] \<Rightarrow> (False, []) | c # t \<Rightarrow> if c = CHR ''-'' then (True, t) else if c = CHR ''+'' then (False, t) else (False, s))"

definition decimal :: "string \<Rightarrow> nat" where
  "decimal ds = (case digits_value 0 ds of Some n \<Rightarrow> n | None \<Rightarrow> 0)"

definition read_exponent :: "string \<Rightarrow> int option" where
  "read_exponent s =
     (case s of
        [] \<Rightarrow> Some 0
      | c # t \<Rightarrow>
          if c \<noteq> CHR ''e'' \<and> c \<noteq> CHR ''E'' then None
          else (case read_sign t of
                  (neg, ds) \<Rightarrow>
                    if ds = [] \<or> \<not> list_all is_digit ds then None
                    else Some (if neg then - int (decimal ds) else int (decimal ds))))"

definition read_number :: "string \<Rightarrow> rat option" where
  "read_number s =
     (case digit_run s of
        (whole, rest) \<Rightarrow>
          (case (case rest of [] \<Rightarrow> ([], []) | c # t \<Rightarrow> if c = CHR ''.'' then digit_run t else ([], rest)) of
             (frac_part, rest') \<Rightarrow>
               if whole = [] \<and> frac_part = [] then None
               else map_option (\<lambda>e. of_nat (decimal (whole @ frac_part)) * 10 powi (e - int (length frac_part)))
                      (read_exponent rest')))"

text \<open>\<^verbatim>\<open>str::parse::<f32>\<close>.\<close>

definition parse_f32 :: "string \<Rightarrow> f32 option" where
  "parse_f32 s =
     (case read_sign s of
        (neg, t) \<Rightarrow>
          if eq_ignore_ascii_case t ''inf'' \<or> eq_ignore_ascii_case t ''infinity'' then Some (Inf neg)
          else if eq_ignore_ascii_case t ''nan'' then Some NaN
          else map_option (\<lambda>x. to_f32 (if neg then - x else x)) (read_number t))"

definition fmul_f32 :: "rat \<Rightarrow> rat \<Rightarrow> rat" where
  "fmul_f32 x y = round_f32 (x * y)"

definition as_u16 :: "rat \<Rightarrow> nat" where
  "as_u16 x = min (nat \<lfloor>x\<rfloor>) (2 ^ 16 - 1)"

section \<open>Rounding is monotone\<close>

lemma grid_int:
  assumes "a \<le> b"
  shows "\<exists>n. (2 :: rat) powi b / 2 powi a = of_int n"
proof -
  have "(2 :: rat) powi b / 2 powi a = 2 powi (b - a)"
    by (simp add: power_int_diff)
  also have "\<dots> = of_int (2 ^ nat (b - a))"
    using assms by (simp add: power_int_def)
  finally have "(2 :: rat) powi b / 2 powi a = of_int (2 ^ nat (b - a))" .
  then show ?thesis by blast
qed

lemma round_f32_pos: "0 < x \<Longrightarrow> round_f32 x = of_int (round_half_even (x / ulp_f32 x)) * ulp_f32 x"
  by (simp add: round_f32_def round_mag_f32_def)

lemma ulp_f32_pos: "0 < ulp_f32 x"
  by (simp add: ulp_f32_def)

lemma round_f32_mono:
  assumes "0 < x" and "x \<le> y"
  shows "round_f32 x \<le> round_f32 y"
proof (cases "ulp_f32 x = ulp_f32 y")
  case True
  have "x / ulp_f32 x \<le> y / ulp_f32 x"
    using assms ulp_f32_pos [of x] by (simp add: divide_right_mono)
  then show ?thesis
    using assms True ulp_f32_pos [of y] round_half_even_mono by (simp add: round_f32_pos)
next
  case False
  have "exponent x \<le> exponent y"
    using assms by (rule exponent_mono)
  with False have lt: "exponent x < exponent y"
    by (cases "exponent x = exponent y") (auto simp: ulp_f32_def)
  with False have gy: "ulp_f32 y = 2 powi (exponent y - 23)" and ey: "exponent y - 23 > - 149"
    by (auto simp: ulp_f32_def max_def split: if_splits)
  let ?z = "(2 :: rat) powi exponent y"
  obtain m where m: "?z / ulp_f32 x = of_int m"
    unfolding ulp_f32_def using grid_int [of "max (exponent x - 23) (- 149)" "exponent y"] lt ey by auto
  obtain n where n: "?z / ulp_f32 y = of_int n"
    unfolding gy using grid_int [of "exponent y - 23" "exponent y"] by auto
  have "x < 2 powi (exponent x + 1)"
    using exponent_bounds(2) [OF assms(1)] .
  also have "\<dots> \<le> ?z"
    using lt by (simp add: powi_le_iff)
  finally have "x / ulp_f32 x \<le> of_int m"
    using ulp_f32_pos [of x] by (simp add: m [symmetric] divide_right_mono)
  then have "round_f32 x \<le> of_int m * ulp_f32 x"
    using round_half_even_le ulp_f32_pos [of x] by (simp add: round_f32_pos [OF assms(1)])
  also have "\<dots> = ?z"
    using m ulp_f32_pos [of x] by (simp add: field_simps)
  also have "\<dots> = of_int n * ulp_f32 y"
    using n ulp_f32_pos [of y] by (simp add: field_simps)
  also have "\<dots> \<le> round_f32 y"
  proof -
    have "of_int n \<le> y / ulp_f32 y"
      using exponent_bounds(1) [of y] assms ulp_f32_pos [of y] by (simp add: n [symmetric] divide_right_mono)
    then show ?thesis
      using round_half_even_ge ulp_f32_pos [of y] assms by (simp add: round_f32_pos)
  qed
  finally show ?thesis .
qed

lemma round_f32_zero [simp]: "round_f32 0 = 0"
  by (simp add: round_f32_def)

lemma round_f32_nonneg: "0 \<le> x \<Longrightarrow> 0 \<le> round_f32 x"
proof (cases "x = 0")
  case False
  assume "0 \<le> x"
  with False have "0 < x" by simp
  then have "0 \<le> round_half_even (x / ulp_f32 x)"
    using ulp_f32_pos [of x] by (intro round_half_even_ge) simp
  with \<open>0 < x\<close> show ?thesis
    using ulp_f32_pos [of x] by (simp add: round_f32_pos)
qed simp

lemma round_f32_mono_nonneg: "0 \<le> x \<Longrightarrow> x \<le> y \<Longrightarrow> round_f32 x \<le> round_f32 y"
  using round_f32_mono [of x y] round_f32_nonneg [of y] by (cases "x = 0") auto

end
