(* ===== verification/Locale_Negotiation.thy ===== *)
theory Locale_Negotiation
  imports Header_Map Btree_Map Rust_F32 "HOL-Library.Char_ord" "HOL-Library.List_Lexorder"
begin

text \<open>
  Localization, \<^verbatim>\<open>src/i18n/\<close>: locale identifiers, translation arguments, message catalogs and the
  negotiation of a request's locale.

  Two packages are parameters.  \<open>langid\<close> is the language-identifier parser followed by its printer (the
  canonical text, or \<open>None\<close>); \<open>fluent\<close> is the record of the message-format operations the catalogs call.
\<close>

section \<open>Identifiers\<close>

datatype LocaleRejection = RejectEmpty | RejectTooLong | RejectNotWellFormed

type_synonym LocaleId = string

datatype I18nError =
    InvalidLocale LocaleRejection
  | CatalogParse LocaleId "string list"
  | Missing LocaleId string
  | NotNegotiated
  | Format LocaleId string "string list"

fun show_rejection :: "LocaleRejection \<Rightarrow> string" where
  "show_rejection RejectEmpty = ''it was empty''"
| "show_rejection RejectTooLong = ''it was too long to be a language identifier''"
| "show_rejection RejectNotWellFormed = ''it is not a well-formed BCP-47 language identifier''"

definition MAX_TAG_LEN :: nat where
  "MAX_TAG_LEN = 35"

fun subtags_ok :: "string list \<Rightarrow> (LocaleRejection, unit) result" where
  "subtags_ok [] = Ok ()"
| "subtags_ok (subtag # rest) =
     (if subtag = [] \<or> length subtag > 8 then Err RejectNotWellFormed
      else if \<not> list_all is_ascii_alphanumeric subtag then Err RejectNotWellFormed
      else subtags_ok rest)"

definition well_formed_tag :: "string \<Rightarrow> (LocaleRejection, unit) result" where
  "well_formed_tag tag =
     (if tag = [] then Err RejectEmpty
      else if length tag > MAX_TAG_LEN then Err RejectTooLong
      else subtags_ok (split CHR ''-'' tag))"

definition locale_parse :: "(string \<Rightarrow> string option) \<Rightarrow> string \<Rightarrow> (I18nError, LocaleId) result" where
  "locale_parse langid tag =
     (case well_formed_tag tag of
        Err r \<Rightarrow> Err (InvalidLocale r)
      | Ok _ \<Rightarrow> ok_or (langid tag) (InvalidLocale RejectNotWellFormed))"

definition language :: "LocaleId \<Rightarrow> string" where
  "language self = hd (split CHR ''-'' self)"

section \<open>Translation arguments\<close>

datatype ArgValue = Text string | Integer int | Number "64 word"

definition arg_from_usize :: "nat \<Rightarrow> ArgValue" where
  "arg_from_usize n = Integer (if n \<le> 2 ^ 63 - 1 then int n else 2 ^ 63 - 1)"

type_synonym TranslationArgs = "(string \<times> ArgValue) list"

fun args_with :: "TranslationArgs \<Rightarrow> string \<Rightarrow> ArgValue \<Rightarrow> TranslationArgs" where
  "args_with [] name v = [(name, v)]"
| "args_with ((existing, w) # rest) name v =
     (if existing = name then (existing, v) # rest else (existing, w) # args_with rest name v)"

section \<open>Catalogs\<close>

record ('b, 'r, 'p) fluent =
  new_bundle :: "LocaleId \<Rightarrow> 'b"
  set_use_isolating :: "bool \<Rightarrow> 'b \<Rightarrow> 'b"
  try_new :: "string \<Rightarrow> (string list, 'r) result"
  add_resource :: "'r \<Rightarrow> 'b \<Rightarrow> (string list, 'b) result"
  get_message :: "'b \<Rightarrow> string \<Rightarrow> 'p option option"
  get_attribute :: "'b \<Rightarrow> string \<Rightarrow> string \<Rightarrow> 'p option option"
  format_pattern :: "'b \<Rightarrow> 'p \<Rightarrow> TranslationArgs \<Rightarrow> string \<times> string list"

record 'b Catalog =
  cat_locale :: LocaleId
  cat_bundle :: 'b

definition catalog_add :: "('b, 'r, 'p) fluent \<Rightarrow> 'b Catalog \<Rightarrow> string \<Rightarrow> (I18nError, 'b Catalog) result" where
  "catalog_add fl self ftl =
     (case try_new fl ftl of
        Err errors \<Rightarrow> Err (CatalogParse (cat_locale self) errors)
      | Ok resource \<Rightarrow>
          (case add_resource fl resource (cat_bundle self) of
             Err errors \<Rightarrow> Err (CatalogParse (cat_locale self) errors)
           | Ok b \<Rightarrow> Ok (self\<lparr>cat_bundle := b\<rparr>)))"

definition catalog_parse :: "('b, 'r, 'p) fluent \<Rightarrow> LocaleId \<Rightarrow> string \<Rightarrow> (I18nError, 'b Catalog) result" where
  "catalog_parse fl locale ftl =
     catalog_add fl \<lparr>cat_locale = locale, cat_bundle = set_use_isolating fl True (new_bundle fl locale)\<rparr> ftl"

definition catalog_isolating :: "('b, 'r, 'p) fluent \<Rightarrow> 'b Catalog \<Rightarrow> bool \<Rightarrow> 'b Catalog" where
  "catalog_isolating fl self isolating = self\<lparr>cat_bundle := set_use_isolating fl isolating (cat_bundle self)\<rparr>"

definition catalog_has :: "('b, 'r, 'p) fluent \<Rightarrow> 'b Catalog \<Rightarrow> string \<Rightarrow> bool" where
  "catalog_has fl self key = (case get_message fl (cat_bundle self) key of Some (Some _) \<Rightarrow> True | _ \<Rightarrow> False)"

definition missing :: "'b Catalog \<Rightarrow> string \<Rightarrow> I18nError" where
  "missing self key = Missing (cat_locale self) key"

text \<open>A message that formats with errors is dropped, never returned in part.\<close>

definition finish_message :: "'b Catalog \<Rightarrow> string \<Rightarrow> string \<times> string list \<Rightarrow> (I18nError, string) result" where
  "finish_message self key out =
     (case out of
        (formatted, errors) \<Rightarrow> if errors = [] then Ok formatted else Err (Format (cat_locale self) key errors))"

definition catalog_translate :: "('b, 'r, 'p) fluent \<Rightarrow> 'b Catalog \<Rightarrow> string \<Rightarrow> TranslationArgs \<Rightarrow> (I18nError, string) result" where
  "catalog_translate fl self key args =
     rbind (ok_or (get_message fl (cat_bundle self) key) (missing self key)) (\<lambda>message.
     rbind (ok_or message (missing self key)) (\<lambda>pattern.
     finish_message self key (format_pattern fl (cat_bundle self) pattern args)))"

definition catalog_message :: "('b, 'r, 'p) fluent \<Rightarrow> 'b Catalog \<Rightarrow> string \<Rightarrow> (I18nError, string) result" where
  "catalog_message fl self key = catalog_translate fl self key []"

definition catalog_attribute :: "('b, 'r, 'p) fluent \<Rightarrow> 'b Catalog \<Rightarrow> string \<Rightarrow> string \<Rightarrow> TranslationArgs \<Rightarrow>
    (I18nError, string) result" where
  "catalog_attribute fl self key attribute args =
     (let path = key @ ''.'' @ attribute
      in rbind (ok_or (get_attribute fl (cat_bundle self) key attribute) (missing self path)) (\<lambda>found.
         rbind (ok_or found (missing self path)) (\<lambda>pattern.
         finish_message self path (format_pattern fl (cat_bundle self) pattern args))))"

record 'b Catalogs =
  default_locale :: LocaleId
  by_locale :: "(LocaleId, 'b Catalog) btree"

definition catalogs_new :: "'b Catalog \<Rightarrow> 'b Catalogs" where
  "catalogs_new first =
     \<lparr>default_locale = cat_locale first, by_locale = bt_insert (cat_locale first) first []\<rparr>"

definition catalogs_with :: "'b Catalogs \<Rightarrow> 'b Catalog \<Rightarrow> 'b Catalogs" where
  "catalogs_with self catalog = self\<lparr>by_locale := bt_insert (cat_locale catalog) catalog (by_locale self)\<rparr>"

text \<open>\<open>None\<close> where the index would panic.\<close>

definition default_catalog :: "'b Catalogs \<Rightarrow> 'b Catalog option" where
  "default_catalog self = bt_get (by_locale self) (default_locale self)"

definition catalogs_contains :: "'b Catalogs \<Rightarrow> LocaleId \<Rightarrow> bool" where
  "catalogs_contains self locale = (bt_get (by_locale self) locale \<noteq> None)"

definition catalogs_catalog :: "'b Catalogs \<Rightarrow> LocaleId \<Rightarrow> 'b Catalog option" where
  "catalogs_catalog self locale = bt_get (by_locale self) locale"

definition catalogs_locales :: "'b Catalogs \<Rightarrow> LocaleId list" where
  "catalogs_locales self = bt_keys (by_locale self)"

definition relabel :: "LocaleId \<Rightarrow> I18nError \<Rightarrow> I18nError" where
  "relabel locale error = (case error of Missing _ key \<Rightarrow> Missing locale key | other \<Rightarrow> other)"

definition catalogs_translate :: "('b, 'r, 'p) fluent \<Rightarrow> 'b Catalogs \<Rightarrow> LocaleId \<Rightarrow> string \<Rightarrow> TranslationArgs \<Rightarrow>
    (I18nError, string) result option" where
  "catalogs_translate fl self locale key args =
     (case catalogs_catalog self locale of
        Some catalog \<Rightarrow>
          if catalog_has fl catalog key then Some (catalog_translate fl catalog key args)
          else map_option (\<lambda>d. case catalog_translate fl d key args of Ok t \<Rightarrow> Ok t | Err e \<Rightarrow> Err (relabel locale e))
                 (default_catalog self)
      | None \<Rightarrow>
          map_option (\<lambda>d. case catalog_translate fl d key args of Ok t \<Rightarrow> Ok t | Err e \<Rightarrow> Err (relabel locale e))
            (default_catalog self))"

section \<open>Accept-Language\<close>

definition MAX_ACCEPT_LANGUAGE_LEN :: nat where
  "MAX_ACCEPT_LANGUAGE_LEN = 512"

definition MAX_CANDIDATES :: nat where
  "MAX_CANDIDATES = 16"

fun or_else :: "'a option \<Rightarrow> 'a option \<Rightarrow> 'a option" where
  "or_else (Some x) _ = Some x"
| "or_else None y = y"

definition weight_of :: "string \<Rightarrow> nat option" where
  "weight_of param =
     (let parameter = trim param
      in case or_else (strip_prefix ''q='' parameter)
                (or_else (strip_prefix ''Q='' parameter) (strip_prefix ''q ='' parameter)) of
           None \<Rightarrow> None
         | Some v \<Rightarrow>
             (case parse_f32 (trim v) of
                Some (Fin weight) \<Rightarrow>
                  if 0 \<le> weight \<and> weight \<le> 1 then Some (as_u16 (fmul_f32 weight 1000)) else None
              | _ \<Rightarrow> None))"

definition quality_of :: "string list \<Rightarrow> nat" where
  "quality_of parts = (case List.map_filter weight_of parts of [] \<Rightarrow> 1000 | q # _ \<Rightarrow> q)"

definition candidate :: "string \<Rightarrow> (string \<times> nat) option" where
  "candidate entry =
     (case split CHR '';'' entry of
        [] \<Rightarrow> None
      | first # parts \<Rightarrow>
          (let range = trim first
           in if range = [] \<or> range = ''*'' then None
              else let quality = quality_of parts
                   in if quality = 0 then None else Some (range, quality)))"

definition header_entries :: "string \<Rightarrow> (string \<times> nat) list" where
  "header_entries header = List.map_filter candidate (take MAX_CANDIDATES (split CHR '','' header))"

text \<open>\<open>None\<close> where slicing the header inside a character would panic.\<close>

definition accept_language_candidates :: "string \<Rightarrow> (string \<times> nat) list option" where
  "accept_language_candidates header =
     (let n = min (length header) MAX_ACCEPT_LANGUAGE_LEN
      in if is_char_boundary header n
         then Some (sort_key (\<lambda>c. - int (snd c)) (header_entries (take n header)))
         else None)"

section \<open>Negotiation\<close>

datatype LocaleSource = SrcUrl | SrcSession | SrcHeader | SrcDefault

record Locale =
  loc_id :: LocaleId
  loc_source :: LocaleSource

record 'b LocaleNegotiator =
  catalogs :: "'b Catalogs"
  query_parameter :: "string option"
  session_key :: "string option"

definition negotiator_new :: "'b Catalogs \<Rightarrow> 'b LocaleNegotiator" where
  "negotiator_new cs = \<lparr>catalogs = cs, query_parameter = None, session_key = None\<rparr>"

definition negotiator_query_parameter :: "'b LocaleNegotiator \<Rightarrow> string \<Rightarrow> 'b LocaleNegotiator" where
  "negotiator_query_parameter self name = self\<lparr>query_parameter := Some name\<rparr>"

definition negotiator_session_key :: "'b LocaleNegotiator \<Rightarrow> string \<Rightarrow> 'b LocaleNegotiator" where
  "negotiator_session_key self key = self\<lparr>session_key := Some key\<rparr>"

definition fallback :: "'b LocaleNegotiator \<Rightarrow> Locale" where
  "fallback self = \<lparr>loc_id = default_locale (catalogs self), loc_source = SrcDefault\<rparr>"

definition registered :: "(string \<Rightarrow> string option) \<Rightarrow> 'b LocaleNegotiator \<Rightarrow> string \<Rightarrow> LocaleId option" where
  "registered langid self tag =
     (case locale_parse langid tag of
        Err _ \<Rightarrow> None
      | Ok i \<Rightarrow>
          if catalogs_contains (catalogs self) i then Some i
          else List.find (\<lambda>r. language r = language i) (catalogs_locales (catalogs self)))"

fun first_registered :: "(string \<Rightarrow> string option) \<Rightarrow> 'b LocaleNegotiator \<Rightarrow> (string \<times> nat) list \<Rightarrow> LocaleId option" where
  "first_registered langid self [] = None"
| "first_registered langid self ((tag, _) # rest) =
     (case registered langid self tag of Some i \<Rightarrow> Some i | None \<Rightarrow> first_registered langid self rest)"

definition match_accept_language :: "(string \<Rightarrow> string option) \<Rightarrow> 'b LocaleNegotiator \<Rightarrow> string \<Rightarrow> LocaleId option option" where
  "match_accept_language langid self header =
     map_option (first_registered langid self) (accept_language_candidates header)"

text \<open>\<open>None\<close> where the negotiation of the header panics.\<close>

definition resolve :: "(string \<Rightarrow> string option) \<Rightarrow> 'b LocaleNegotiator \<Rightarrow> string option \<Rightarrow> string option \<Rightarrow>
    string option \<Rightarrow> Locale option" where
  "resolve langid self url session accept_language =
     (case (if query_parameter self \<noteq> None then Option.bind url (registered langid self) else None) of
        Some i \<Rightarrow> Some \<lparr>loc_id = i, loc_source = SrcUrl\<rparr>
      | None \<Rightarrow>
          (case (if session_key self \<noteq> None then Option.bind session (registered langid self) else None) of
             Some i \<Rightarrow> Some \<lparr>loc_id = i, loc_source = SrcSession\<rparr>
           | None \<Rightarrow>
               (case accept_language of
                  None \<Rightarrow> Some (fallback self)
                | Some header \<Rightarrow>
                    map_option (\<lambda>found. case found of
                        Some i \<Rightarrow> \<lparr>loc_id = i, loc_source = SrcHeader\<rparr>
                      | None \<Rightarrow> fallback self) (match_accept_language langid self header))))"

definition query_value :: "string option \<Rightarrow> string \<Rightarrow> string option" where
  "query_value query name =
     Option.bind query (\<lambda>q.
       (let found = List.map_filter (\<lambda>pair. case split_once CHR ''='' pair of
              None \<Rightarrow> None | Some (key, v) \<Rightarrow> if key = name then Some v else None) (split CHR ''&'' q)
        in if found = [] then None else Some (last found)))"

section \<open>The middleware\<close>

fun vary_tokens :: "string list \<Rightarrow> string list \<Rightarrow> string list option" where
  "vary_tokens [] tokens = Some tokens"
| "vary_tokens (token # rest) tokens =
     (if token = ''*'' \<or> eq_ignore_ascii_case token ''Accept-Language'' then None
      else vary_tokens rest (tokens @ [token]))"

definition ensure_vary_accept_language :: "headers \<Rightarrow> headers" where
  "ensure_vary_accept_language headers =
     (case vary_tokens (header_tokens (hm_get_all headers ''vary'')) [] of
        None \<Rightarrow> headers
      | Some tokens \<Rightarrow>
          (let joined = join '', '' (tokens @ [''Accept-Language''])
           in if list_all header_text joined
              then hm_insert ''vary'' joined (hm_remove ''vary'' headers) else headers))"

definition annotate :: "headers \<Rightarrow> LocaleId \<Rightarrow> headers" where
  "annotate headers locale =
     ensure_vary_accept_language
       (if \<not> hm_contains headers ''content-language'' \<and> list_all header_text locale
        then hm_insert ''content-language'' locale headers else headers)"

text \<open>One request: the locale it is served in, with what the session holds under the key and the inner
  service as arguments.  The outer \<open>None\<close> is a panic.\<close>

definition locale_call :: "(string \<Rightarrow> string option) \<Rightarrow> 'b LocaleNegotiator \<Rightarrow> (string \<Rightarrow> string option) \<Rightarrow>
    (Locale \<Rightarrow> headers \<times> 'body) \<Rightarrow> string option \<Rightarrow> headers \<Rightarrow> (headers \<times> 'body) option" where
  "locale_call langid self session inner query headers =
     (let url = Option.bind (query_parameter self) (query_value query);
          accept_language = header_str headers ''accept-language'';
          chosen = Option.bind (session_key self) session
      in map_option (\<lambda>locale. case inner locale of (response, body) \<Rightarrow> (annotate response (loc_id locale), body))
           (resolve langid self url chosen accept_language))"

section \<open>Registered locales only\<close>

definition catalogs_ok :: "'b Catalogs \<Rightarrow> bool" where
  "catalogs_ok cs = (bt_wf (by_locale cs) \<and> catalogs_contains cs (default_locale cs) \<and>
     (\<forall>k c. bt_get (by_locale cs) k = Some c \<longrightarrow> cat_locale c = k))"

lemma catalogs_ok_new: "catalogs_ok (catalogs_new c)"
  by (simp add: catalogs_ok_def catalogs_new_def catalogs_contains_def bt_wf_def bt_get_def)

lemma catalogs_ok_with: "catalogs_ok cs \<Longrightarrow> catalogs_ok (catalogs_with cs c)"
  by (auto simp: catalogs_ok_def catalogs_with_def catalogs_contains_def)

lemma registered_contains:
  assumes "registered langid neg tag = Some i"
  shows "catalogs_contains (catalogs neg) i"
proof -
  have "i \<in> set (catalogs_locales (catalogs neg))" if "\<not> catalogs_contains (catalogs neg) i"
    using assms that by (auto simp: registered_def find_Some_iff split: sum.splits if_splits)
  then show ?thesis
    by (auto simp: catalogs_locales_def bt_keys_iff catalogs_contains_def)
qed

lemma first_registered_find:
  "first_registered langid neg cs =
     Option.bind (List.find (\<lambda>c. registered langid neg (fst c) \<noteq> None) cs) (\<lambda>c. registered langid neg (fst c))"
  by (induction cs) (auto split: option.splits)

text \<open>The locale a request gets, by where it came from.\<close>

definition chosen_by :: "(string \<Rightarrow> string option) \<Rightarrow> 'b LocaleNegotiator \<Rightarrow> string option \<Rightarrow> string option \<Rightarrow> Locale \<Rightarrow> bool" where
  "chosen_by langid neg url session loc =
     (case loc_source loc of
        SrcUrl \<Rightarrow> query_parameter neg \<noteq> None \<and> Option.bind url (registered langid neg) = Some (loc_id loc)
      | SrcSession \<Rightarrow> session_key neg \<noteq> None \<and> Option.bind session (registered langid neg) = Some (loc_id loc) \<and>
          (query_parameter neg = None \<or> Option.bind url (registered langid neg) = None)
      | _ \<Rightarrow> (query_parameter neg = None \<or> Option.bind url (registered langid neg) = None) \<and>
          (session_key neg = None \<or> Option.bind session (registered langid neg) = None))"

text \<open>
  Whatever a request carries, the locale it is served in is one the application registered, so its
  catalog and the default catalog exist; and the sources are asked in order: the URL parameter if it is
  switched on and names a registered locale, else the session under the same condition, else the
  \<^verbatim>\<open>Accept-Language\<close> header, else the default.
\<close>
theorem negotiated_locale_is_registered:
  assumes "catalogs_ok (catalogs neg)" and "resolve langid neg url session accept = Some loc"
  shows "catalogs_contains (catalogs neg) (loc_id loc) \<and> default_catalog (catalogs neg) \<noteq> None \<and>
    chosen_by langid neg url session loc \<and> (loc_source loc = SrcDefault \<longrightarrow> loc_id loc = default_locale (catalogs neg))"
proof -
  have dflt: "catalogs_contains (catalogs neg) (default_locale (catalogs neg))"
    using assms(1) by (simp add: catalogs_ok_def)
  have header: "catalogs_contains (catalogs neg) i"
    if "match_accept_language langid neg h = Some (Some i)" for h i
    using that registered_contains [of langid neg _ i]
    by (auto simp: match_accept_language_def first_registered_find bind_eq_Some_iff)
  have bound: "catalogs_contains (catalogs neg) i" if "Option.bind x (registered langid neg) = Some i" for x i
    using that registered_contains [of langid neg _ i] by (auto simp: bind_eq_Some_iff)
  show ?thesis
    using assms(2) dflt header bound
    by (auto simp: resolve_def fallback_def chosen_by_def default_catalog_def catalogs_contains_def
        split: option.splits if_splits)
qed

section \<open>The best registered entry\<close>

lemma find_insort:
  assumes "sorted (map f xs)"
  shows "List.find P (insort_key f x xs) =
    (if P x then (case List.find P xs of None \<Rightarrow> Some x | Some y \<Rightarrow> if f x \<le> f y then Some x else Some y)
     else List.find P xs)"
  using assms
proof (induction xs)
  case (Cons a xs)
  have le: "f a \<le> f y" if "List.find P xs = Some y" for y
    using Cons.prems that by (auto simp: find_Some_iff)
  show ?case
    using Cons le by (auto split: option.splits)
qed simp

lemma find_sort_key:
  assumes "\<exists>x \<in> set xs. P x"
  shows "\<exists>i < length xs. List.find P (sort_key f xs) = Some (xs ! i) \<and> P (xs ! i) \<and>
    (\<forall>j < length xs. P (xs ! j) \<longrightarrow> f (xs ! i) < f (xs ! j) \<or> f (xs ! i) = f (xs ! j) \<and> i \<le> j)"
  using assms
proof (induction xs)
  case (Cons x xs)
  have ins: "List.find P (sort_key f (x # xs)) = (if P x then (case List.find P (sort_key f xs) of None \<Rightarrow> Some x
      | Some y \<Rightarrow> if f x \<le> f y then Some x else Some y) else List.find P (sort_key f xs))"
    using find_insort [of f "sort_key f xs" P x] by simp
  show ?case
  proof (cases "\<exists>y \<in> set xs. P y")
    case True
    then obtain i where i: "i < length xs" "List.find P (sort_key f xs) = Some (xs ! i)" "P (xs ! i)"
      "\<forall>j < length xs. P (xs ! j) \<longrightarrow> f (xs ! i) < f (xs ! j) \<or> f (xs ! i) = f (xs ! j) \<and> i \<le> j"
      using Cons.IH by blast
    show ?thesis
    proof (cases "P x \<and> f x \<le> f (xs ! i)")
      case True
      then show ?thesis
        using i ins by (intro exI [of _ 0]) (auto simp: nth_Cons' less_Suc_eq_0_disj)
    next
      case False
      then show ?thesis
        using i ins by (intro exI [of _ "Suc i"]) (auto simp: less_Suc_eq_0_disj)
    qed
  next
    case False
    then have "List.find P (sort_key f xs) = None"
      by (auto simp: find_None_iff)
    then show ?thesis
      using Cons.prems False ins by (intro exI [of _ 0]) (auto simp: less_Suc_eq_0_disj)
  qed
qed simp

lemma text_boundary:
  assumes "list_all header_text s"
  shows "n \<le> length s \<Longrightarrow> is_char_boundary s n"
proof -
  assume n: "n \<le> length s"
  have "\<not> cont (u8_of (s ! n))" if "n < length s"
  proof -
    have "(of_char (s ! n) :: nat) < 128"
      using assms that by (fastforce simp: list_all_length header_text_def printable_def)
    then show ?thesis
      by (simp add: cont_def word_le_nat_alt unat_u8_of)
  qed
  then show ?thesis
    using n by (auto simp: is_char_boundary_def)
qed

text \<open>
  On a header of visible text the negotiation never panics, and it picks the best entry: of the
  first sixteen entries of the first 512 bytes, the one with the highest weight that names a registered
  locale, the earliest among equals; the default if there is none.
\<close>
theorem accept_language_picks_best:
  assumes "list_all header_text header" and "entries = header_entries (take 512 header)"
  shows "\<exists>loc. resolve langid neg None None (Some header) = Some loc \<and>
    (if \<exists>e \<in> set entries. registered langid neg (fst e) \<noteq> None
     then \<exists>i < length entries. loc_source loc = SrcHeader \<and> registered langid neg (fst (entries ! i)) = Some (loc_id loc) \<and>
       (\<forall>j < length entries. registered langid neg (fst (entries ! j)) \<noteq> None \<longrightarrow>
          snd (entries ! j) < snd (entries ! i) \<or> snd (entries ! j) = snd (entries ! i) \<and> i \<le> j)
     else loc = fallback neg)"
proof -
  let ?P = "\<lambda>c. registered langid neg (fst c) \<noteq> None"
  have bnd: "is_char_boundary header (min (length header) MAX_ACCEPT_LANGUAGE_LEN)"
    by (rule text_boundary [OF assms(1)]) simp
  have cut: "take (min (length header) 512) header = take 512 header"
    by (simp add: min_def)
  have cands: "accept_language_candidates header = Some (sort_key (\<lambda>c. - int (snd c)) entries)"
    using bnd cut by (simp add: accept_language_candidates_def MAX_ACCEPT_LANGUAGE_LEN_def assms(2))
  show ?thesis
  proof (cases "\<exists>e \<in> set entries. ?P e")
    case True
    obtain i where i: "i < length entries" "List.find ?P (sort_key (\<lambda>c. - int (snd c)) entries) = Some (entries ! i)"
      "?P (entries ! i)"
      "\<forall>j < length entries. ?P (entries ! j) \<longrightarrow> - int (snd (entries ! i)) < - int (snd (entries ! j)) \<or>
         - int (snd (entries ! i)) = - int (snd (entries ! j)) \<and> i \<le> j"
      using find_sort_key [OF True, of "\<lambda>c. - int (snd c)"] by blast
    then obtain l where l: "registered langid neg (fst (entries ! i)) = Some l"
      by blast
    have res: "resolve langid neg None None (Some header) = Some \<lparr>loc_id = l, loc_source = SrcHeader\<rparr>"
      using i(2) l by (simp add: resolve_def match_accept_language_def cands first_registered_find)
    have best: "\<forall>j < length entries. ?P (entries ! j) \<longrightarrow>
        snd (entries ! j) < snd (entries ! i) \<or> snd (entries ! j) = snd (entries ! i) \<and> i \<le> j"
      using i(4) by (metis neg_less_iff_less neg_equal_iff_equal of_nat_less_iff of_nat_eq_iff)
    show ?thesis
      unfolding res if_P [OF True] using i(1) l best by auto
  next
    case False
    then have "List.find ?P (sort_key (\<lambda>c. - int (snd c)) entries) = None"
      by (auto simp: find_None_iff)
    then have "resolve langid neg None None (Some header) = Some (fallback neg)"
      by (simp add: resolve_def match_accept_language_def cands first_registered_find)
    then show ?thesis
      using False by simp
  qed
qed

section \<open>Weights\<close>

text \<open>A larger weight never counts less.\<close>

lemma weight_mono: "0 \<le> v \<Longrightarrow> v \<le> w \<Longrightarrow> as_u16 (fmul_f32 v 1000) \<le> as_u16 (fmul_f32 w 1000)"
proof -
  assume "0 \<le> v" "v \<le> w"
  then have "fmul_f32 v 1000 \<le> fmul_f32 w 1000"
    unfolding fmul_f32_def by (intro round_f32_mono_nonneg) simp_all
  then have "nat \<lfloor>fmul_f32 v 1000\<rfloor> \<le> nat \<lfloor>fmul_f32 w 1000\<rfloor>"
    by (intro nat_mono floor_mono)
  then show ?thesis
    unfolding as_u16_def by (rule min.mono) simp
qed

lemma exponents:
  "exponent (1 / 4) = - 2" "exponent (251 / 1000) = - 2" "exponent 250 = 7" "exponent (526385125 / 2097152) = 7"
  by (rule exponent_unique; simp add: power_int_def power_one_over)+

lemma round_exact_quarter: "round_f32 (1 / 4) = 1 / 4" "round_f32 250 = 250"
proof -
  have "round_half_even 8388608 = 8388608" "round_half_even 16384000 = 16384000"
    using round_half_even_of_int [of 8388608] round_half_even_of_int [of 16384000] by simp_all
  then show "round_f32 (1 / 4) = 1 / 4" "round_f32 250 = 250"
    by (simp_all add: round_f32_pos ulp_f32_def exponents power_int_def power_one_over)
qed

lemma round_251: "round_f32 (251 / 1000) = 4211081 / 16777216"
  "round_f32 (526385125 / 2097152) = 16449535 / 65536"
proof -
  have "round_half_even (1052770304 / 125) = 8422162" "round_half_even (526385125 / 32) = 16449535"
    by (rule round_half_even_near; simp)+
  then show "round_f32 (251 / 1000) = 4211081 / 16777216"
    "round_f32 (526385125 / 2097152) = 16449535 / 65536"
    by (simp_all add: round_f32_pos ulp_f32_def exponents power_int_def power_one_over)
qed

lemma weight_250: "weight_of ''q=0.25'' = Some 250"
proof -
  have "trim ''q=0.25'' = ''q=0.25''" "trim ''0.25'' = ''0.25''"
    by (rule trim_graphic; simp add: graphic_def)+
  then show ?thesis
    by (simp add: weight_of_def strip_prefix_def parse_f32_def read_sign_def eq_ignore_ascii_case_def
        to_ascii_lowercase_def ascii_lower_def read_number_def digit_run_def is_digit_def read_exponent_def
        decimal_def to_f32_def power_int_def power_one_over round_exact_quarter fmul_f32_def as_u16_def)
qed

lemma weight_251: "weight_of ''q=0.251'' = Some 250"
proof -
  have "trim ''q=0.251'' = ''q=0.251''" "trim ''0.251'' = ''0.251''"
    by (rule trim_graphic; simp add: graphic_def)+
  moreover have "\<lfloor>16449535 / 65536 :: rat\<rfloor> = 250"
    by (simp add: floor_eq_iff)
  ultimately show ?thesis
    by (simp add: weight_of_def strip_prefix_def parse_f32_def read_sign_def eq_ignore_ascii_case_def
        to_ascii_lowercase_def ascii_lower_def read_number_def digit_run_def is_digit_def read_exponent_def
        decimal_def to_f32_def power_int_def power_one_over round_251 fmul_f32_def as_u16_def)
qed

text \<open>A negotiator with three locales, for the examples below.\<close>

definition sample_negotiator :: "unit LocaleNegotiator" where
  "sample_negotiator = negotiator_new (catalogs_with (catalogs_with (catalogs_new
     \<lparr>cat_locale = ''en'', cat_bundle = ()\<rparr>) \<lparr>cat_locale = ''fr'', cat_bundle = ()\<rparr>) \<lparr>cat_locale = ''de'', cat_bundle = ()\<rparr>)"

lemma sample_registered: "registered Some sample_negotiator ''de'' = Some ''de''"
  "registered Some sample_negotiator ''fr'' = Some ''fr''"
  by (simp_all add: registered_def locale_parse_def well_formed_tag_def MAX_TAG_LEN_def is_ascii_alphanumeric_def
      ok_or_def sample_negotiator_def negotiator_new_def catalogs_contains_def catalogs_with_def catalogs_new_def bt_get_def)

lemma sample_entries: "header_entries ''de;q=0.25,fr;q=0.251'' = [(''de'', 250), (''fr'', 250)]"
proof -
  have "trim ''de'' = ''de''" "trim ''fr'' = ''fr''"
    by (rule trim_graphic; simp add: graphic_def)+
  then show ?thesis
    by (simp add: header_entries_def candidate_def quality_of_def List.map_filter_def weight_250 weight_251
        MAX_CANDIDATES_def)
qed

text \<open>Weights are cut to thousandths after a product of floats, and 0.251 comes out as 250: a client that
  prefers French over German by a thousandth gets German.\<close>

lemma close_weights_tie:
  "resolve Some sample_negotiator None None (Some ''de;q=0.25,fr;q=0.251'') =
     Some \<lparr>loc_id = ''de'', loc_source = SrcHeader\<rparr>"
  using sample_entries
  by (simp add: resolve_def match_accept_language_def accept_language_candidates_def MAX_ACCEPT_LANGUAGE_LEN_def
      is_char_boundary_def sample_registered)

lemma sample_ok: "catalogs_ok (catalogs sample_negotiator)"
  by (simp add: sample_negotiator_def negotiator_new_def catalogs_ok_new catalogs_ok_with)

theorem negotiated_locale_is_registered_witness: "catalogs_contains (catalogs sample_negotiator) ''de''"
  using negotiated_locale_is_registered [OF sample_ok close_weights_tie] by simp

theorem accept_language_picks_best_witness:
  "\<exists>loc. resolve Some sample_negotiator None None (Some ''de;q=0.25,fr;q=0.251'') = Some loc \<and> loc_source loc = SrcHeader"
  using accept_language_picks_best [of "''de;q=0.25,fr;q=0.251''" "[(''de'', 250), (''fr'', 250)]" Some sample_negotiator]
  by (auto simp: sample_entries header_text_def printable_def sample_registered)

section \<open>Translation\<close>

text \<open>A message of the requested locale wins; otherwise the default catalog answers, and a message nobody
  has is reported under the requested locale.  Nothing is returned half formatted.\<close>

lemma catalogs_translate_total: "catalogs_ok cs \<Longrightarrow> \<exists>r. catalogs_translate fl cs locale key args = Some r"
  by (auto simp: catalogs_translate_def catalogs_ok_def catalogs_contains_def default_catalog_def split: option.splits)

lemma catalog_translate_Missing:
  "catalog_translate fl c key args = Err (Missing l k) \<Longrightarrow> l = cat_locale c \<and> k = key \<and> \<not> catalog_has fl c key"
  by (cases "get_message fl (cat_bundle c) key"; cases "the (get_message fl (cat_bundle c) key)";
      cases "format_pattern fl (cat_bundle c) (the (the (get_message fl (cat_bundle c) key))) args")
    (auto simp: catalog_translate_def missing_def finish_message_def catalog_has_def split: if_splits)

lemma catalogs_translate_Missing:
  assumes "catalogs_translate fl cs locale key args = Some (Err (Missing l k))"
  shows "l = locale \<and> k = key \<and> (\<forall>c. catalogs_catalog cs locale = Some c \<longrightarrow> \<not> catalog_has fl c key)"
proof -
  have relabelled: "l = locale \<and> k = key"
    if "(case catalog_translate fl d key args of Ok t \<Rightarrow> Ok t | Err e \<Rightarrow> Err (relabel locale e)) = Err (Missing l k)" for d
    using that catalog_translate_Missing [of fl d key args]
    by (auto simp: relabel_def split: sum.splits I18nError.splits)
  show ?thesis
    using assms relabelled catalog_translate_Missing [of fl _ key args l k]
    by (auto simp: catalogs_translate_def split: option.splits if_splits)
qed

section \<open>Response headers\<close>

lemma vary_tokens_Some: "vary_tokens ts acc = Some out \<Longrightarrow> out = acc @ ts \<and> (\<forall>t \<in> set ts. t \<noteq> ''*'')"
  by (induction ts acc rule: vary_tokens.induct) (auto split: if_splits)

lemma vary_tokens_None:
  "vary_tokens ts acc = None \<longleftrightarrow> (\<exists>t \<in> set ts. t = ''*'' \<or> eq_ignore_ascii_case t ''Accept-Language'')"
  by (induction ts acc rule: vary_tokens.induct) auto

text \<open>Every response says that it varies with the language: a value that says so is kept, and otherwise
  the token joins the ones that were there; no other header changes.\<close>

lemma ensure_vary:
  assumes "ts = header_tokens (hm_get_all h ''vary'')"
  shows "(\<exists>t \<in> set ts. t = ''*'' \<or> eq_ignore_ascii_case t ''Accept-Language'') \<and> ensure_vary_accept_language h = h \<or>
    hm_get_all (ensure_vary_accept_language h) ''vary'' = [join '', '' (ts @ [''Accept-Language''])] \<and>
    (\<forall>n. n \<noteq> ''vary'' \<longrightarrow> hm_get_all (ensure_vary_accept_language h) n = hm_get_all h n)"
proof (cases "vary_tokens ts []")
  case None
  then have "ensure_vary_accept_language h = h"
    by (simp add: ensure_vary_accept_language_def assms)
  then show ?thesis
    using None vary_tokens_None [of ts "[]"] by blast
next
  case (Some out)
  have "list_all header_text (join '', '' (ts @ [''Accept-Language'']))"
    using header_tokens_token assms by (intro join_text) (auto simp: is_token_def header_text_def printable_def)
  then show ?thesis
    using vary_tokens_Some [OF Some] Some by (simp add: ensure_vary_accept_language_def assms)
qed

lemma annotate_varies:
  "\<exists>t \<in> set (header_tokens (hm_get_all (annotate h locale) ''vary'')). t = ''*'' \<or> eq_ignore_ascii_case t ''Accept-Language''"
proof -
  define h' where "h' = (if \<not> hm_contains h ''content-language'' \<and> list_all header_text locale
        then hm_insert ''content-language'' locale h else h)"
  let ?ts = "header_tokens (hm_get_all h' ''vary'')"
  have "header_tokens [join '', '' (?ts @ [''Accept-Language''])] = ?ts @ [''Accept-Language'']"
    using header_tokens_token [of _ "hm_get_all h' ''vary''"]
    by (intro header_tokens_join) (auto simp: is_token_def header_text_def printable_def ws1_def)
  then show ?thesis
    using ensure_vary [of ?ts h'] by (auto simp: annotate_def h'_def [symmetric] eq_ignore_ascii_case_def)
qed

end
