(* ===== verification/Inertia_Request.thy ===== *)
theory Inertia_Request
  imports Header_Map
begin

text \<open>
  The Inertia side of a request, \<^verbatim>\<open>src/inertia/request.rs\<close> and \<^verbatim>\<open>src/inertia/headers.rs\<close>: what the client
  asked for, read from the request headers.
\<close>

datatype MergeIntent = IntentPrepend | IntentAppend

record InertiaRequest =
  is_inertia :: bool
  req_method :: string
  req_url :: string
  referer :: "string option"
  request_version :: "string option"
  partial_component :: "string option"
  req_only :: "string list"
  req_except :: "string list"
  req_reset :: "string list"
  error_bag :: "string option"
  except_once :: "string list"
  merge_intent :: "MergeIntent option"
  is_prefetch :: bool

record PartialSelection =
  sel_only :: "string list"
  sel_except :: "string list"
  sel_reset :: "string list"

definition merge_intent_parse :: "string \<Rightarrow> MergeIntent option" where
  "merge_intent_parse v =
     (if v = ''prepend'' then Some IntentPrepend else if v = ''append'' then Some IntentAppend else None)"

definition MAX_SELECTOR_KEYS :: nat where
  "MAX_SELECTOR_KEYS = 64"

definition MAX_SELECTOR_BYTES :: nat where
  "MAX_SELECTOR_BYTES = 8 * 1024"

fun comma_loop :: "string list \<Rightarrow> string list \<Rightarrow> string list" where
  "comma_loop [] out = out"
| "comma_loop (part # rest) out =
     (let trimmed = trim part
      in if trimmed = [] then comma_loop rest out
         else if trimmed \<in> set out then comma_loop rest out
         else if length out \<ge> MAX_SELECTOR_KEYS then out
         else comma_loop rest (out @ [trimmed]))"

definition parse_comma_list :: "string option \<Rightarrow> string list" where
  "parse_comma_list v =
     (case v of
        None \<Rightarrow> []
      | Some s \<Rightarrow>
          (let bounded = (if length s > MAX_SELECTOR_BYTES then take (boundary_at_most s MAX_SELECTOR_BYTES) s else s)
           in comma_loop (split CHR '','' bounded) []))"

definition non_empty :: "string option \<Rightarrow> string option" where
  "non_empty v = (case v of Some s \<Rightarrow> if s = [] then None else Some s | None \<Rightarrow> None)"

definition request_parse :: "headers \<Rightarrow> string \<Rightarrow> string \<Rightarrow> InertiaRequest" where
  "request_parse headers http_method uri =
     \<lparr>is_inertia = (header_str headers ''x-inertia'' = Some ''true''),
      req_method = http_method,
      req_url = uri,
      referer = non_empty (header_str headers ''referer''),
      request_version = non_empty (header_str headers ''x-inertia-version''),
      partial_component = non_empty (header_str headers ''x-inertia-partial-component''),
      req_only = parse_comma_list (header_str headers ''x-inertia-partial-data''),
      req_except = parse_comma_list (header_str headers ''x-inertia-partial-except''),
      req_reset = parse_comma_list (header_str headers ''x-inertia-reset''),
      error_bag = non_empty (header_str headers ''x-inertia-error-bag''),
      except_once = parse_comma_list (header_str headers ''x-inertia-except-once-props''),
      merge_intent = Option.bind (header_str headers ''x-inertia-infinite-scroll-merge-intent'') merge_intent_parse,
      is_prefetch = (header_str headers ''purpose'' = Some ''prefetch'')\<rparr>"

definition holds_once :: "InertiaRequest \<Rightarrow> string \<Rightarrow> bool" where
  "holds_once self key = (key \<in> set (except_once self))"

definition partial_for :: "InertiaRequest \<Rightarrow> string \<Rightarrow> PartialSelection option" where
  "partial_for self component =
     (if partial_component self = Some component
      then Some \<lparr>sel_only = req_only self, sel_except = req_except self, sel_reset = req_reset self\<rparr> else None)"

text \<open>A selector list is bounded, whatever the header holds: at most 64 keys, each once, none empty.\<close>

lemma comma_loop_bounds:
  assumes "length out \<le> MAX_SELECTOR_KEYS" and "distinct out" and "[] \<notin> set out"
  shows "length (comma_loop parts out) \<le> MAX_SELECTOR_KEYS \<and> distinct (comma_loop parts out) \<and>
    [] \<notin> set (comma_loop parts out)"
  using assms by (induction parts out rule: comma_loop.induct) (auto simp: Let_def)

lemma parse_comma_list_bounds:
  "length (parse_comma_list v) \<le> 64 \<and> distinct (parse_comma_list v) \<and> [] \<notin> set (parse_comma_list v)"
  using comma_loop_bounds [of "[]"]
  by (auto simp: parse_comma_list_def Let_def MAX_SELECTOR_KEYS_def split: option.splits)

end
