(* ===== verification/Inertia_Props.thy ===== *)
theory Inertia_Props
  imports Json_Value Inertia_Request
begin

text \<open>
  Page props, \<^verbatim>\<open>src/inertia/props.rs\<close> and the metadata of \<^verbatim>\<open>src/inertia/page.rs\<close>: which props a request
  gets, and what the page says about them.

  A resolver is the application's code.  What matters of it here is the result it gives and how often
  it is polled before it gives it; \<open>PropFuture\<close> holds both.  A panic is \<open>None\<close>.
\<close>

section \<open>Page metadata\<close>

datatype PageIdentifier = PageNumber int | PageText string

record ScrollProp =
  page_name :: string
  previous_page :: "PageIdentifier option"
  next_page :: "PageIdentifier option"
  current_page :: "PageIdentifier option"
  scroll_reset :: bool

definition scroll_new :: "string \<Rightarrow> ScrollProp" where
  "scroll_new name =
     \<lparr>page_name = name, previous_page = None, next_page = None, current_page = None, scroll_reset = False\<rparr>"

record OncePropEntry =
  once_prop :: string
  once_expires :: "nat option"

datatype MergeStrategy = Merge | Prepend | DeepMerge

record PageMetadata =
  encrypt_history :: bool
  clear_history :: bool
  preserve_fragment :: bool
  flash :: "json option"
  shared_props :: "string list"
  merge_props :: "string list"
  prepend_props :: "string list"
  deep_merge_props :: "string list"
  match_props_on :: "string list"
  scroll_props :: "(string, ScrollProp) btree"
  once_props :: "(string, OncePropEntry) btree"
  deferred_props :: "(string, string list) btree option"
  rescued_props :: "string list"

definition metadata_default :: PageMetadata where
  "metadata_default =
     \<lparr>encrypt_history = False, clear_history = False, preserve_fragment = False, flash = None, shared_props = [],
      merge_props = [], prepend_props = [], deep_merge_props = [], match_props_on = [], scroll_props = [],
      once_props = [], deferred_props = None, rescued_props = []\<rparr>"

definition push_unique :: "string \<Rightarrow> string list \<Rightarrow> string list" where
  "push_unique entry entries = (if entry \<in> set entries then entries else entries @ [entry])"

fun record_merge :: "MergeStrategy \<Rightarrow> string \<Rightarrow> PageMetadata \<Rightarrow> PageMetadata" where
  "record_merge Merge path m = m\<lparr>merge_props := push_unique path (merge_props m)\<rparr>"
| "record_merge Prepend path m = m\<lparr>prepend_props := push_unique path (prepend_props m)\<rparr>"
| "record_merge DeepMerge path m = m\<lparr>deep_merge_props := push_unique path (deep_merge_props m)\<rparr>"

definition record_match_on :: "string \<Rightarrow> PageMetadata \<Rightarrow> PageMetadata" where
  "record_match_on key m = m\<lparr>match_props_on := push_unique key (match_props_on m)\<rparr>"

definition record_scroll :: "string \<Rightarrow> ScrollProp \<Rightarrow> PageMetadata \<Rightarrow> PageMetadata" where
  "record_scroll prop sc m = m\<lparr>scroll_props := bt_insert prop sc (scroll_props m)\<rparr>"

definition record_once :: "string \<Rightarrow> string \<Rightarrow> nat option \<Rightarrow> PageMetadata \<Rightarrow> PageMetadata" where
  "record_once key prop expires m =
     m\<lparr>once_props := bt_insert key \<lparr>once_prop = prop, once_expires = expires\<rparr> (once_props m)\<rparr>"

definition record_deferred :: "string \<Rightarrow> string \<Rightarrow> PageMetadata \<Rightarrow> PageMetadata" where
  "record_deferred grp path m =
     (let groups = (case deferred_props m of Some g \<Rightarrow> g | None \<Rightarrow> []);
          paths = (case bt_get groups grp of Some ps \<Rightarrow> ps | None \<Rightarrow> [])
      in m\<lparr>deferred_props := Some (bt_insert grp (paths @ [path]) groups)\<rparr>)"

definition record_rescued :: "string \<Rightarrow> PageMetadata \<Rightarrow> PageMetadata" where
  "record_rescued path m = m\<lparr>rescued_props := rescued_props m @ [path]\<rparr>"

definition record_shared :: "string \<Rightarrow> PageMetadata \<Rightarrow> PageMetadata" where
  "record_shared key m = m\<lparr>shared_props := push_unique key (shared_props m)\<rparr>"

record PageOptions =
  opt_encrypt_history :: bool
  opt_clear_history :: bool
  opt_preserve_fragment :: bool
  opt_flash :: "json option"
  opt_match_props_on :: "string list"
  opt_status :: "nat option"

definition apply_options :: "PageOptions \<Rightarrow> PageMetadata \<Rightarrow> PageMetadata" where
  "apply_options options m =
     fold record_match_on (opt_match_props_on options)
       (m\<lparr>encrypt_history := opt_encrypt_history options, clear_history := opt_clear_history options,
          preserve_fragment := opt_preserve_fragment options, flash := opt_flash options\<rparr>)"

definition resolved_status :: "PageOptions \<Rightarrow> nat" where
  "resolved_status options = (case opt_status options of Some s \<Rightarrow> s | None \<Rightarrow> 200)"

section \<open>Props\<close>

type_synonym ResolverOutcome = "(string, json) result"

record PropFuture =
  polls :: nat
  yields :: ResolverOutcome

datatype BaseProp =
    Eager json
  | Always json
  | Lazy PropFuture
  | Optional PropFuture
  | Deferred PropFuture "string option"

record OnceProp =
  spec_key :: "string option"
  spec_ttl :: "nat option"

definition resolved_key :: "OnceProp \<Rightarrow> string \<Rightarrow> string" where
  "resolved_key self path = (case spec_key self of Some k \<Rightarrow> k | None \<Rightarrow> path)"

definition U64_MAX :: nat where
  "U64_MAX = 2 ^ 64 - 1"

definition expires_at :: "OnceProp \<Rightarrow> nat \<Rightarrow> nat option" where
  "expires_at self now_ms =
     map_option (\<lambda>ttl. min (now_ms + min (ttl div 1000000) U64_MAX) U64_MAX) (spec_ttl self)"

record Prop =
  prop_base :: BaseProp
  prop_merge :: "MergeStrategy option"
  prop_merge_path :: "string option"
  prop_match_on :: "string option"
  prop_scroll :: "ScrollProp option"
  prop_once :: "OnceProp option"
  prop_rescue :: bool

definition from_base :: "BaseProp \<Rightarrow> Prop" where
  "from_base b =
     \<lparr>prop_base = b, prop_merge = None, prop_merge_path = None, prop_match_on = None, prop_scroll = None,
      prop_once = None, prop_rescue = False\<rparr>"

definition merge_key :: "Prop \<Rightarrow> string \<Rightarrow> string" where
  "merge_key self key = (case prop_merge_path self of Some sfx \<Rightarrow> key @ ''.'' @ sfx | None \<Rightarrow> key)"

definition strategy_for :: "Prop \<Rightarrow> MergeIntent option \<Rightarrow> MergeStrategy option" where
  "strategy_for self intent =
     (if prop_scroll self \<noteq> None then
        (if intent = Some IntentPrepend then Some Prepend
         else Some (case prop_merge self of Some m \<Rightarrow> m | None \<Rightarrow> Merge))
      else prop_merge self)"

type_synonym Props = "(string \<times> Prop) list"

datatype SharedProp = SharedPage Prop | SharedOptional "InertiaRequest \<Rightarrow> PropFuture"

type_synonym SharedProps = "(string \<times> SharedProp) list"

datatype InertiaError =
    Serialize
  | Location
  | PropResolution string string
  | ConfigMissing
  | PropsMustBeObject
  | HeaderError

definition props_errors :: "Props \<Rightarrow> json \<Rightarrow> Props" where
  "props_errors self errors = self @ [(''errors'', from_base (Always errors))]"

definition from_serialized :: "json \<Rightarrow> (InertiaError, Props) result" where
  "from_serialized v =
     (case v of JObject m \<Rightarrow> Ok (map (\<lambda>(k, x). (k, from_base (Eager x))) m) | _ \<Rightarrow> Err PropsMustBeObject)"

definition merge_prop :: "Prop \<Rightarrow> Prop" where
  "merge_prop p = p\<lparr>prop_merge := Some Merge\<rparr>"

definition prepend_prop :: "Prop \<Rightarrow> Prop" where
  "prepend_prop p = p\<lparr>prop_merge := Some Prepend\<rparr>"

definition deep_merge_prop :: "Prop \<Rightarrow> Prop" where
  "deep_merge_prop p = p\<lparr>prop_merge := Some DeepMerge\<rparr>"

definition merge_path :: "string \<Rightarrow> Prop \<Rightarrow> Prop" where
  "merge_path path p = p\<lparr>prop_merge_path := Some path\<rparr>"

definition match_on :: "string \<Rightarrow> Prop \<Rightarrow> Prop" where
  "match_on field p = p\<lparr>prop_match_on := Some field\<rparr>"

definition infinite_scroll :: "ScrollProp \<Rightarrow> Prop \<Rightarrow> Prop" where
  "infinite_scroll sc p = p\<lparr>prop_scroll := Some sc\<rparr>"

definition once_with :: "OnceProp \<Rightarrow> Prop \<Rightarrow> Prop" where
  "once_with spec p = p\<lparr>prop_once := Some spec\<rparr>"

definition once :: "Prop \<Rightarrow> Prop" where
  "once p = once_with \<lparr>spec_key = None, spec_ttl = None\<rparr> p"

definition rescue :: "Prop \<Rightarrow> Prop" where
  "rescue p = p\<lparr>prop_rescue := True\<rparr>"

section \<open>Paths\<close>

definition top_level_key :: "string \<Rightarrow> string" where
  "top_level_key key = hd (split CHR ''.'' key)"

fun insert_nested_into :: "json \<Rightarrow> string list \<Rightarrow> json \<Rightarrow> json" where
  "insert_nested_into current [] v = v"
| "insert_nested_into current (key # rest) v =
     (let m = (case current of JObject m \<Rightarrow> m | _ \<Rightarrow> [])
      in if rest = [] then JObject (bt_insert key v m)
         else JObject (bt_insert key
                (insert_nested_into (case bt_get m key of Some e \<Rightarrow> e | None \<Rightarrow> JObject []) rest v) m))"

definition insert_nested :: "(string, json) btree \<Rightarrow> string \<Rightarrow> json \<Rightarrow> (string, json) btree" where
  "insert_nested props dotted v =
     (case split CHR ''.'' dotted of
        [] \<Rightarrow> props
      | first # rest \<Rightarrow>
          if rest = [] then bt_insert first v props
          else bt_insert first
                 (insert_nested_into (case bt_get props first of Some e \<Rightarrow> e | None \<Rightarrow> JObject []) rest v) props)"

definition below :: "string \<Rightarrow> string \<Rightarrow> bool" where
  "below path o' = (case strip_prefix o' path of Some r \<Rightarrow> starts_with ''.'' r | None \<Rightarrow> False)"

definition match_path_included :: "string \<Rightarrow> string list \<Rightarrow> string list \<Rightarrow> bool" where
  "match_path_included path only_keys except_keys =
     ((only_keys = [] \<or> list_ex (\<lambda>o'. path = o' \<or> below path o' \<or> below o' path) only_keys) \<and>
      \<not> list_ex (\<lambda>e. path = e \<or> below path e) except_keys)"

definition included :: "string \<Rightarrow> PartialSelection option \<Rightarrow> bool" where
  "included path partial =
     (case partial of None \<Rightarrow> True | Some p \<Rightarrow> match_path_included path (sel_only p) (sel_except p))"

text \<open>The entries of an object come in the order of their keys, so the map of those kept has them in the
  order of this list.\<close>

fun filter_nested_value :: "string \<Rightarrow> PartialSelection \<Rightarrow> json \<Rightarrow> json"
  and filter_nested_entries :: "string \<Rightarrow> PartialSelection \<Rightarrow> (string \<times> json) list \<Rightarrow> (string \<times> json) list" where
  "filter_nested_value path partial (JObject m) = JObject (filter_nested_entries path partial m)"
| "filter_nested_value path partial v = v"
| "filter_nested_entries path partial [] = []"
| "filter_nested_entries path partial ((key, v) # m) =
     (let child_path = path @ ''.'' @ key
      in if included child_path (Some partial)
         then (key, filter_nested_value child_path partial v) # filter_nested_entries path partial m
         else filter_nested_entries path partial m)"

section \<open>Planning\<close>

record ResolveContext =
  ctx_partial :: "PartialSelection option"
  ctx_intent :: "MergeIntent option"
  ctx_now_ms :: nat

definition ctx_full :: "ResolveContext \<Rightarrow> bool" where
  "ctx_full ctx = (ctx_partial ctx = None)"

definition ctx_reset :: "ResolveContext \<Rightarrow> string list" where
  "ctx_reset ctx = (case ctx_partial ctx of Some p \<Rightarrow> sel_reset p | None \<Rightarrow> [])"

datatype Action = Nothing | Ready json | FailedWith InertiaError | Invoke nat bool | Announce string

record Planned =
  plan_key :: string
  plan_prop :: "Prop option"
  plan_shared :: bool
  plan_once_key :: "string option"
  plan_withheld :: bool
  plan_action :: Action

definition park :: "PropFuture list \<Rightarrow> PropFuture \<Rightarrow> nat \<times> PropFuture list" where
  "park resolvers future = (length resolvers, resolvers @ [future])"

definition invoke :: "PropFuture list \<Rightarrow> PropFuture \<Rightarrow> bool \<Rightarrow> Action \<times> PropFuture list" where
  "invoke resolvers future rescued = (case park resolvers future of (n, rs) \<Rightarrow> (Invoke n rescued, rs))"

definition plan_action_of :: "string \<Rightarrow> Prop \<Rightarrow> ResolveContext \<Rightarrow> PropFuture list \<Rightarrow> Action \<times> PropFuture list" where
  "plan_action_of key prop ctx resolvers =
     (case prop_base prop of
        Eager v \<Rightarrow>
          if ctx_full ctx \<or> included key (ctx_partial ctx) then
            (Ready (case ctx_partial ctx of None \<Rightarrow> v | Some p \<Rightarrow> filter_nested_value key p v), resolvers)
          else (Nothing, resolvers)
      | Always v \<Rightarrow> (Ready v, resolvers)
      | Lazy future \<Rightarrow>
          if ctx_full ctx \<or> included key (ctx_partial ctx) then invoke resolvers future (prop_rescue prop)
          else (Nothing, resolvers)
      | Optional future \<Rightarrow>
          if \<not> ctx_full ctx \<and> included key (ctx_partial ctx) then invoke resolvers future (prop_rescue prop)
          else (Nothing, resolvers)
      | Deferred future grp \<Rightarrow>
          if ctx_full ctx then (Announce (case grp of Some g \<Rightarrow> g | None \<Rightarrow> ''default''), resolvers)
          else if included key (ctx_partial ctx) then invoke resolvers future (prop_rescue prop)
          else (Nothing, resolvers))"

definition plan_page :: "string \<Rightarrow> Prop \<Rightarrow> InertiaRequest \<Rightarrow> ResolveContext \<Rightarrow> PropFuture list \<Rightarrow>
    Planned \<times> PropFuture list" where
  "plan_page key prop request ctx resolvers =
     (let once_key = map_option (\<lambda>spec. resolved_key spec key) (prop_once prop);
          withheld = (case once_key of Some held \<Rightarrow> holds_once request held | None \<Rightarrow> False);
          (action, resolvers') = (if withheld then (Nothing, resolvers) else plan_action_of key prop ctx resolvers)
      in (\<lparr>plan_key = key, plan_prop = Some prop, plan_shared = False, plan_once_key = once_key,
           plan_withheld = withheld, plan_action = action\<rparr>, resolvers'))"

definition plan_shared_prop :: "string \<Rightarrow> SharedProp \<Rightarrow> InertiaRequest \<Rightarrow> ResolveContext \<Rightarrow> PropFuture list \<Rightarrow>
    Planned \<times> PropFuture list" where
  "plan_shared_prop key sp request ctx resolvers =
     (case (case sp of
              SharedPage prop \<Rightarrow> plan_page key prop request ctx resolvers
            | SharedOptional resolver \<Rightarrow>
                (let (action, resolvers') =
                       (if ctx_full ctx \<or> \<not> included key (ctx_partial ctx) then (Nothing, resolvers)
                        else invoke resolvers (resolver request) False)
                 in (\<lparr>plan_key = key, plan_prop = None, plan_shared = False, plan_once_key = None,
                      plan_withheld = False, plan_action = action\<rparr>, resolvers'))) of
        (planned, resolvers') \<Rightarrow> (planned\<lparr>plan_shared := True\<rparr>, resolvers'))"

fun plan_all_shared :: "string list \<Rightarrow> SharedProps \<Rightarrow> InertiaRequest \<Rightarrow> ResolveContext \<Rightarrow> PropFuture list \<Rightarrow>
    Planned list \<times> PropFuture list" where
  "plan_all_shared page_keys [] request ctx resolvers = ([], resolvers)"
| "plan_all_shared page_keys ((key, sp) # rest) request ctx resolvers =
     (if key \<in> set page_keys then plan_all_shared page_keys rest request ctx resolvers
      else (case plan_shared_prop key sp request ctx resolvers of
              (planned, resolvers') \<Rightarrow>
                (case plan_all_shared page_keys rest request ctx resolvers' of
                   (plans, resolvers'') \<Rightarrow> (planned # plans, resolvers''))))"

fun plan_all_page :: "Props \<Rightarrow> InertiaRequest \<Rightarrow> ResolveContext \<Rightarrow> PropFuture list \<Rightarrow> Planned list \<times> PropFuture list" where
  "plan_all_page [] request ctx resolvers = ([], resolvers)"
| "plan_all_page ((key, prop) # rest) request ctx resolvers =
     (case plan_page key prop request ctx resolvers of
        (planned, resolvers') \<Rightarrow>
          (case plan_all_page rest request ctx resolvers' of
             (plans, resolvers'') \<Rightarrow> (planned # plans, resolvers'')))"

section \<open>Resolving together\<close>

text \<open>One pass of \<^verbatim>\<open>poll_fn\<close> over the parked futures: a finished one leaves its slot empty and its outcome
  in place, any other has used one poll.\<close>

fun poll_pass :: "PropFuture option list \<Rightarrow> ResolverOutcome option list \<Rightarrow> nat \<Rightarrow>
    PropFuture option list \<times> ResolverOutcome option list \<times> nat" where
  "poll_pass (None # pending) (out # outcomes) remaining =
     (case poll_pass pending outcomes remaining of (p, os, r) \<Rightarrow> (None # p, out # os, r))"
| "poll_pass (Some f # pending) (out # outcomes) remaining =
     (if polls f = 0 then
        (case poll_pass pending outcomes (remaining - 1) of (p, os, r) \<Rightarrow> (None # p, Some (yields f) # os, r))
      else
        (case poll_pass pending outcomes remaining of
           (p, os, r) \<Rightarrow> (Some (f\<lparr>polls := polls f - 1\<rparr>) # p, out # os, r)))"
| "poll_pass pending outcomes remaining = (pending, outcomes, remaining)"

definition polls_left :: "PropFuture option list \<Rightarrow> nat" where
  "polls_left pending = sum_list (map (\<lambda>p. case p of None \<Rightarrow> 0 | Some f \<Rightarrow> Suc (polls f)) pending)"

text \<open>The loop of the executor around it, which polls again until the set is ready; \<open>None\<close> if the
  fuel, one pass each, does not suffice.\<close>

fun poll_loop :: "nat \<Rightarrow> PropFuture option list \<Rightarrow> ResolverOutcome option list \<Rightarrow> nat \<Rightarrow>
    ResolverOutcome option list option" where
  "poll_loop 0 pending outcomes remaining = None"
| "poll_loop (Suc fuel) pending outcomes remaining =
     (case poll_pass pending outcomes remaining of
        (pending', outcomes', remaining') \<Rightarrow>
          if remaining' = 0 then Some outcomes' else poll_loop fuel pending' outcomes' remaining')"

definition resolve_together :: "nat \<Rightarrow> PropFuture list \<Rightarrow> ResolverOutcome option list option" where
  "resolve_together fuel resolvers =
     poll_loop fuel (map Some resolvers) (replicate (length resolvers) None) (length resolvers)"

section \<open>Recording\<close>

record Resolved =
  res_props :: "(string, json) btree"
  res_metadata :: PageMetadata

text \<open>The value a plan ships, if it ships one, and what that does to the page.  The outer \<open>None\<close> is the
  panic of a resolver that was never awaited.\<close>

definition ship :: "Planned \<Rightarrow> ResolverOutcome option \<Rightarrow> Resolved \<Rightarrow> (InertiaError, Resolved \<times> bool) result option" where
  "ship plan outcome r =
     (case plan_action plan of
        Nothing \<Rightarrow> Some (Ok (r, False))
      | Ready v \<Rightarrow> Some (Ok (r\<lparr>res_props := insert_nested (res_props r) (plan_key plan) v\<rparr>, True))
      | FailedWith e \<Rightarrow> Some (Err e)
      | Announce grp \<Rightarrow> Some (Ok (r\<lparr>res_metadata := record_deferred grp (plan_key plan) (res_metadata r)\<rparr>, False))
      | Invoke _ rescued \<Rightarrow>
          (case outcome of
             None \<Rightarrow> None
           | Some (Ok v) \<Rightarrow> Some (Ok (r\<lparr>res_props := insert_nested (res_props r) (plan_key plan) v\<rparr>, True))
           | Some (Err source) \<Rightarrow>
               if rescued then Some (Ok (r\<lparr>res_metadata := record_rescued (plan_key plan) (res_metadata r)\<rparr>, False))
               else Some (Err (PropResolution (plan_key plan) source))))"

definition record_plan :: "Planned \<Rightarrow> ResolveContext \<Rightarrow> bool \<Rightarrow> PageMetadata \<Rightarrow> PageMetadata" where
  "record_plan plan ctx incl m =
     (let key = plan_key plan;
          m1 = (case (Option.bind (plan_prop plan) prop_once, plan_once_key plan) of
                  (Some spec, Some once_key) \<Rightarrow>
                    if incl \<or> plan_withheld plan then record_once once_key key (expires_at spec (ctx_now_ms ctx)) m else m
                | _ \<Rightarrow> m)
      in if \<not> incl then m1
         else let m2 = (case plan_prop plan of
                    None \<Rightarrow> m1
                  | Some prop \<Rightarrow>
                      (let a = (case prop_scroll prop of Some sc \<Rightarrow> record_scroll key sc m1 | None \<Rightarrow> m1)
                       in if key \<in> set (ctx_reset ctx) then a
                          else let mk = merge_key prop key;
                                   b = (case strategy_for prop (ctx_intent ctx) of Some st \<Rightarrow> record_merge st mk a | None \<Rightarrow> a)
                               in case prop_match_on prop of Some field \<Rightarrow> record_match_on (mk @ ''.'' @ field) b | None \<Rightarrow> b))
              in if plan_shared plan then record_shared (top_level_key key) m2 else m2)"

definition apply_plan :: "Planned \<Rightarrow> ResolverOutcome option \<Rightarrow> ResolveContext \<Rightarrow> Resolved \<Rightarrow>
    (InertiaError, Resolved) result option" where
  "apply_plan plan outcome ctx r =
     map_option (\<lambda>x. rbind x (\<lambda>(r', incl). Ok (r'\<lparr>res_metadata := record_plan plan ctx incl (res_metadata r')\<rparr>)))
       (ship plan outcome r)"

definition outcome_of :: "Planned \<Rightarrow> ResolverOutcome option list \<Rightarrow> ResolverOutcome option" where
  "outcome_of plan outcomes =
     (case plan_action plan of Invoke n _ \<Rightarrow> if n < length outcomes then outcomes ! n else None | _ \<Rightarrow> None)"

fun apply_all :: "Planned list \<Rightarrow> ResolverOutcome option list \<Rightarrow> ResolveContext \<Rightarrow> Resolved \<Rightarrow>
    (InertiaError, Resolved) result option" where
  "apply_all [] outcomes ctx r = Some (Ok r)"
| "apply_all (plan # plans) outcomes ctx r =
     (case apply_plan plan (outcome_of plan outcomes) ctx r of
        None \<Rightarrow> None
      | Some (Err e) \<Rightarrow> Some (Err e)
      | Some (Ok r') \<Rightarrow> apply_all plans outcomes ctx r')"

text \<open>\<^verbatim>\<open>errors\<close> is always there, and below the error bag if the client asked for one.\<close>

definition finish_errors :: "InertiaRequest \<Rightarrow> (string, json) btree \<Rightarrow> (string, json) btree" where
  "finish_errors request props =
     (let p = (if bt_get props ''errors'' = None then bt_insert ''errors'' (JObject []) props else props)
      in case error_bag request of
           None \<Rightarrow> p
         | Some bag \<Rightarrow>
             (let errors = (case bt_get p ''errors'' of Some e \<Rightarrow> e | None \<Rightarrow> JObject [])
              in bt_insert ''errors'' (JObject (bt_insert bag errors [])) (bt_remove ''errors'' p)))"

definition context_for :: "InertiaRequest \<Rightarrow> string \<Rightarrow> nat \<Rightarrow> ResolveContext" where
  "context_for request component now_ms =
     \<lparr>ctx_partial = partial_for request component, ctx_intent = merge_intent request, ctx_now_ms = now_ms\<rparr>"

definition resolve :: "nat \<Rightarrow> Props \<Rightarrow> SharedProps \<Rightarrow> InertiaRequest \<Rightarrow> string \<Rightarrow> nat \<Rightarrow>
    (InertiaError, Resolved) result option" where
  "resolve fuel page shared request component now_ms =
     (let ctx = context_for request component now_ms
      in case plan_all_shared (map fst page) shared request ctx [] of
           (shared_plans, resolvers) \<Rightarrow>
             (case plan_all_page page request ctx resolvers of
                (page_plans, resolvers') \<Rightarrow>
                  (case resolve_together fuel resolvers' of
                     None \<Rightarrow> None
                   | Some outcomes \<Rightarrow>
                       map_option (\<lambda>x. rbind x (\<lambda>r. Ok (r\<lparr>res_props := finish_errors request (res_props r)\<rparr>)))
                         (apply_all (shared_plans @ page_plans) outcomes ctx
                            \<lparr>res_props = [], res_metadata = metadata_default\<rparr>))))"

section \<open>Selection by path\<close>

abbreviation segments :: "string \<Rightarrow> string list" where
  "segments path \<equiv> split CHR ''.'' path"

lemma join_append: "xs \<noteq> [] \<Longrightarrow> ys \<noteq> [] \<Longrightarrow> join sep (xs @ ys) = join sep xs @ sep @ join sep ys"
proof (induction sep xs rule: join.induct)
  case (2 sep w)
  then show ?case by (cases ys) auto
qed auto

lemma below_iff: "below path o' \<longleftrightarrow> strict_prefix (segments o') (segments path)"
proof
  assume "below path o'"
  then obtain r where "path = o' @ CHR ''.'' # r"
    by (auto simp: below_def strip_prefix_eq_Some_iff starts_with_iff split: option.splits)
  then show "strict_prefix (segments o') (segments path)"
    by (auto simp: split_on_append_sep strict_prefix_def)
next
  assume "strict_prefix (segments o') (segments path)"
  then obtain t where t: "segments path = segments o' @ t" "t \<noteq> []"
    by (auto simp: strict_prefix_def prefix_def)
  have "path = join ''.'' (segments o' @ t)"
    using join_split [of "CHR ''.''" path] t(1) by simp
  also have "\<dots> = o' @ ''.'' @ join ''.'' t"
    using t(2) join_split [of "CHR ''.''" o'] by (simp add: join_append)
  finally show "below path o'"
    by (simp add: below_def strip_prefix_append starts_with_iff)
qed

lemma segments_inject: "segments a = segments b \<longleftrightarrow> a = b"
  by (metis join_split)

text \<open>
  The string comparisons of a partial reload are comparisons of paths, segment by segment: a path
  is selected exactly when no selector is given, or one lies above or below it; and it is left out
  again exactly when an exception lies at or above it.  No selector matches half a segment.
\<close>
theorem selection_follows_segments:
  "match_path_included path only_keys except_keys \<longleftrightarrow>
     (only_keys = [] \<or> (\<exists>k \<in> set only_keys. prefix (segments k) (segments path) \<or> prefix (segments path) (segments k))) \<and>
     \<not> (\<exists>k \<in> set except_keys. prefix (segments k) (segments path))"
proof -
  have up: "(path = k \<or> below path k) = prefix (segments k) (segments path)" for k
    by (auto simp: below_iff strict_prefix_def segments_inject)
  have both: "(path = k \<or> below path k \<or> below k path) =
      (prefix (segments k) (segments path) \<or> prefix (segments path) (segments k))" for k
    by (auto simp: below_iff strict_prefix_def segments_inject)
  show ?thesis
    by (simp only: match_path_included_def list_ex_iff up both)
qed

section \<open>Resolving together\<close>

text \<open>The state of the set after \<open>k\<close> passes.\<close>

definition pending_at :: "nat \<Rightarrow> PropFuture list \<Rightarrow> PropFuture option list" where
  "pending_at k fs = map (\<lambda>f. if polls f < k then None else Some (f\<lparr>polls := polls f - k\<rparr>)) fs"

definition outcomes_at :: "nat \<Rightarrow> PropFuture list \<Rightarrow> ResolverOutcome option list" where
  "outcomes_at k fs = map (\<lambda>f. if polls f < k then Some (yields f) else None) fs"

definition remaining_at :: "nat \<Rightarrow> PropFuture list \<Rightarrow> nat" where
  "remaining_at k fs = length (filter (\<lambda>f. k \<le> polls f) fs)"

lemma poll_pass_at:
  "poll_pass (pending_at k fs) (outcomes_at k fs) (n + remaining_at k fs) =
     (pending_at (Suc k) fs, outcomes_at (Suc k) fs, n + remaining_at (Suc k) fs)"
proof (induction fs arbitrary: n)
  case (Cons f fs)
  consider "polls f < k" | "polls f = k" | "k < polls f"
    by linarith
  then show ?case
  proof cases
    case 1
    then show ?thesis
      using Cons.IH [of n] by (simp add: pending_at_def outcomes_at_def remaining_at_def)
  next
    case 2
    then show ?thesis
      using Cons.IH [of n] by (simp add: pending_at_def outcomes_at_def remaining_at_def)
  next
    case 3
    then show ?thesis
      using Cons.IH [of "Suc n"] by (simp add: pending_at_def outcomes_at_def remaining_at_def Suc_diff_Suc)
  qed
qed (simp add: pending_at_def outcomes_at_def remaining_at_def)

lemma remaining_at_0: "remaining_at k fs = 0 \<longleftrightarrow> (\<forall>f \<in> set fs. polls f < k)"
  by (auto simp: remaining_at_def filter_empty_conv not_le)

lemma poll_loop_at:
  "poll_loop fuel (pending_at k fs) (outcomes_at k fs) (remaining_at k fs) =
     (if 0 < fuel \<and> (\<forall>f \<in> set fs. polls f < k + fuel) then Some (map (\<lambda>f. Some (yields f)) fs) else None)"
proof (induction fuel arbitrary: k)
  case (Suc fuel)
  have pass: "poll_pass (pending_at k fs) (outcomes_at k fs) (remaining_at k fs) =
      (pending_at (Suc k) fs, outcomes_at (Suc k) fs, remaining_at (Suc k) fs)"
    using poll_pass_at [of k fs 0] by simp
  show ?case
  proof (cases "\<forall>f \<in> set fs. polls f < Suc k")
    case True
    then have "outcomes_at (Suc k) fs = map (\<lambda>f. Some (yields f)) fs"
      by (simp add: outcomes_at_def)
    moreover have "\<forall>f \<in> set fs. polls f < k + Suc fuel"
      using True by auto
    ultimately show ?thesis
      using True by (simp add: pass remaining_at_0)
  next
    case False
    then have "remaining_at (Suc k) fs \<noteq> 0"
      by (simp only: remaining_at_0 not_False_eq_True)
    moreover have "0 < fuel \<or> \<not> (\<forall>f \<in> set fs. polls f < k + Suc fuel)"
      using False by (cases fuel) auto
    ultimately show ?thesis
      using Suc.IH [of "Suc k"] by (auto simp: pass)
  qed
qed simp

lemma resolve_together_eq:
  "resolve_together fuel fs =
     (if 0 < fuel \<and> (\<forall>f \<in> set fs. polls f < fuel) then Some (map (\<lambda>f. Some (yields f)) fs) else None)"
proof -
  have "pending_at 0 fs = map Some fs" "outcomes_at 0 fs = replicate (length fs) None" "remaining_at 0 fs = length fs"
    by (simp_all add: pending_at_def outcomes_at_def remaining_at_def map_replicate_const)
  then show ?thesis
    using poll_loop_at [of fuel 0 fs] by (simp add: resolve_together_def)
qed

text \<open>
  C31.  Resolving together ends: if every resolver is ready after finitely many polls, the whole set is
  ready once the slowest is, no resolver is polled after it has finished, and every outcome is in the
  slot of its resolver, in whatever order they finish.
\<close>
theorem resolve_together_settles:
  assumes "\<forall>f \<in> set resolvers. polls f \<le> slowest"
  shows "resolve_together (Suc slowest) resolvers = Some (map (\<lambda>f. Some (yields f)) resolvers)"
  using assms by (auto simp: resolve_together_eq less_Suc_eq_le)

theorem resolve_together_settles_witness:
  "resolve_together 4 [\<lparr>polls = 3, yields = Ok (JBool True)\<rparr>, \<lparr>polls = 0, yields = Err ''down''\<rparr>] =
     Some [Some (Ok (JBool True)), Some (Err ''down'')]"
  using resolve_together_settles [of "[\<lparr>polls = 3, yields = Ok (JBool True)\<rparr>, \<lparr>polls = 0, yields = Err ''down''\<rparr>]" 3]
  by simp

section \<open>One pass\<close>

text \<open>The reference: each prop is inspected, awaited and recorded before the next one is looked at.\<close>

datatype look = Skip | Value json | Await PropFuture bool | Later string

definition look_at :: "string \<Rightarrow> Prop \<Rightarrow> ResolveContext \<Rightarrow> look" where
  "look_at key prop ctx =
     (let inc = included key (ctx_partial ctx) in
      case prop_base prop of
        Eager v \<Rightarrow> if inc then Value (case ctx_partial ctx of None \<Rightarrow> v | Some p \<Rightarrow> filter_nested_value key p v) else Skip
      | Always v \<Rightarrow> Value v
      | Lazy f \<Rightarrow> if inc then Await f (prop_rescue prop) else Skip
      | Optional f \<Rightarrow> if inc \<and> \<not> ctx_full ctx then Await f (prop_rescue prop) else Skip
      | Deferred f g \<Rightarrow>
          if ctx_full ctx then Later (case g of Some x \<Rightarrow> x | None \<Rightarrow> ''default'')
          else if inc then Await f (prop_rescue prop) else Skip)"

fun settle :: "string \<Rightarrow> look \<Rightarrow> Resolved \<Rightarrow> (InertiaError, Resolved \<times> bool) result" where
  "settle key Skip r = Ok (r, False)"
| "settle key (Value v) r = Ok (r\<lparr>res_props := insert_nested (res_props r) key v\<rparr>, True)"
| "settle key (Later g) r = Ok (r\<lparr>res_metadata := record_deferred g key (res_metadata r)\<rparr>, False)"
| "settle key (Await f rescued) r =
     (case yields f of
        Ok v \<Rightarrow> Ok (r\<lparr>res_props := insert_nested (res_props r) key v\<rparr>, True)
      | Err e \<Rightarrow> if rescued then Ok (r\<lparr>res_metadata := record_rescued key (res_metadata r)\<rparr>, False)
                 else Err (PropResolution key e))"

definition held :: "InertiaRequest \<Rightarrow> string \<Rightarrow> Prop \<Rightarrow> bool" where
  "held request key prop =
     (case prop_once prop of Some spec \<Rightarrow> holds_once request (resolved_key spec key) | None \<Rightarrow> False)"

definition one_prop :: "bool \<Rightarrow> string \<Rightarrow> Prop \<Rightarrow> InertiaRequest \<Rightarrow> ResolveContext \<Rightarrow> Resolved \<Rightarrow>
    (InertiaError, Resolved) result" where
  "one_prop shared key prop request ctx r =
     rbind (settle key (if held request key prop then Skip else look_at key prop ctx) r) (\<lambda>(r', incl).
       Ok (r'\<lparr>res_metadata := record_plan
         \<lparr>plan_key = key, plan_prop = Some prop, plan_shared = shared,
          plan_once_key = map_option (\<lambda>spec. resolved_key spec key) (prop_once prop),
          plan_withheld = held request key prop, plan_action = Nothing\<rparr> ctx incl (res_metadata r')\<rparr>))"

definition one_shared :: "string \<Rightarrow> SharedProp \<Rightarrow> InertiaRequest \<Rightarrow> ResolveContext \<Rightarrow> Resolved \<Rightarrow>
    (InertiaError, Resolved) result" where
  "one_shared key sp request ctx r =
     (case sp of
        SharedPage prop \<Rightarrow> one_prop True key prop request ctx r
      | SharedOptional f \<Rightarrow>
          rbind (settle key (if \<not> ctx_full ctx \<and> included key (ctx_partial ctx) then Await (f request) False else Skip) r)
            (\<lambda>(r', incl). Ok (if incl then r'\<lparr>res_metadata := record_shared (top_level_key key) (res_metadata r')\<rparr> else r')))"

fun one_pass_page :: "Props \<Rightarrow> InertiaRequest \<Rightarrow> ResolveContext \<Rightarrow> Resolved \<Rightarrow> (InertiaError, Resolved) result" where
  "one_pass_page [] request ctx r = Ok r"
| "one_pass_page ((key, prop) # rest) request ctx r =
     rbind (one_prop False key prop request ctx r) (one_pass_page rest request ctx)"

fun one_pass_shared :: "string list \<Rightarrow> SharedProps \<Rightarrow> InertiaRequest \<Rightarrow> ResolveContext \<Rightarrow> Resolved \<Rightarrow>
    (InertiaError, Resolved) result" where
  "one_pass_shared page_keys [] request ctx r = Ok r"
| "one_pass_shared page_keys ((key, sp) # rest) request ctx r =
     (if key \<in> set page_keys then one_pass_shared page_keys rest request ctx r
      else rbind (one_shared key sp request ctx r) (one_pass_shared page_keys rest request ctx))"

definition resolve_one_pass :: "Props \<Rightarrow> SharedProps \<Rightarrow> InertiaRequest \<Rightarrow> string \<Rightarrow> nat \<Rightarrow> (InertiaError, Resolved) result" where
  "resolve_one_pass page shared request component now_ms =
     (let ctx = context_for request component now_ms
      in rbind (one_pass_shared (map fst page) shared request ctx \<lparr>res_props = [], res_metadata = metadata_default\<rparr>) (\<lambda>r.
         rbind (one_pass_page page request ctx r) (\<lambda>r'.
         Ok (r'\<lparr>res_props := finish_errors request (res_props r')\<rparr>))))"

section \<open>The three phases are one pass\<close>

fun realises :: "Action \<Rightarrow> PropFuture list \<Rightarrow> look \<Rightarrow> bool" where
  "realises Nothing fs l = (l = Skip)"
| "realises (Ready v) fs l = (l = Value v)"
| "realises (Announce g) fs l = (l = Later g)"
| "realises (Invoke n b) fs l = (n < length fs \<and> l = Await (fs ! n) b)"
| "realises (FailedWith e) fs l = False"

lemma ship_realised:
  "realises (plan_action pl) fs l \<Longrightarrow>
     ship pl (outcome_of pl (map (\<lambda>f. Some (yields f)) fs)) r = Some (settle (plan_key pl) l r)"
  by (cases "plan_action pl") (auto simp: ship_def outcome_of_def split: sum.splits)

lemma record_plan_action: "record_plan (pl\<lparr>plan_action := a\<rparr>) ctx incl m = record_plan pl ctx incl m"
proof -
  have same: "plan_key (pl\<lparr>plan_action := a\<rparr>) = plan_key pl" "plan_prop (pl\<lparr>plan_action := a\<rparr>) = plan_prop pl"
    "plan_shared (pl\<lparr>plan_action := a\<rparr>) = plan_shared pl" "plan_once_key (pl\<lparr>plan_action := a\<rparr>) = plan_once_key pl"
    "plan_withheld (pl\<lparr>plan_action := a\<rparr>) = plan_withheld pl"
    by simp_all
  show ?thesis
    by (simp only: record_plan_def same)
qed

lemma plan_action_realises:
  assumes "plan_action_of key prop ctx rs = (a, rs')"
  shows "\<exists>new. rs' = rs @ new \<and> (\<forall>more. realises a (rs @ new @ more) (look_at key prop ctx))"
  using assms
  by (auto simp: plan_action_of_def look_at_def invoke_def park_def ctx_full_def included_def Let_def nth_append
      split: BaseProp.splits if_splits option.splits)

lemma apply_realised:
  assumes "realises (plan_action pl) fs l"
  shows "apply_plan pl (outcome_of pl (map (\<lambda>f. Some (yields f)) fs)) ctx r =
    Some (rbind (settle (plan_key pl) l r) (\<lambda>(r', incl). Ok (r'\<lparr>res_metadata := record_plan pl ctx incl (res_metadata r')\<rparr>)))"
  by (simp add: apply_plan_def ship_realised [OF assms])

lemma plan_page_one_prop:
  assumes "plan_page key prop request ctx rs = (pl, rs')"
  shows "\<exists>new. rs' = rs @ new \<and> (\<forall>more r. apply_plan (pl\<lparr>plan_shared := sh\<rparr>)
    (outcome_of (pl\<lparr>plan_shared := sh\<rparr>) (map (\<lambda>f. Some (yields f)) (rs @ new @ more))) ctx r =
      Some (one_prop sh key prop request ctx r))"
proof -
  let ?base = "\<lparr>plan_key = key, plan_prop = Some prop, plan_shared = sh,
      plan_once_key = map_option (\<lambda>spec. resolved_key spec key) (prop_once prop),
      plan_withheld = held request key prop, plan_action = Nothing\<rparr>"
  obtain a new where pl: "pl\<lparr>plan_shared := sh\<rparr> = ?base\<lparr>plan_action := a\<rparr>" and rs': "rs' = rs @ new"
    and real: "\<And>more. realises a (rs @ new @ more) (if held request key prop then Skip else look_at key prop ctx)"
  proof (cases "held request key prop")
    case True
    have "pl\<lparr>plan_shared := sh\<rparr> = ?base\<lparr>plan_action := Nothing\<rparr>" "rs' = rs @ []"
      using assms True by (auto simp: plan_page_def Let_def held_def split: option.splits)
    then show ?thesis
      using that [of Nothing "[]"] True by simp
  next
    case False
    obtain a r1 where act: "plan_action_of key prop ctx rs = (a, r1)"
      by fastforce
    have "pl\<lparr>plan_shared := sh\<rparr> = ?base\<lparr>plan_action := a\<rparr>" "rs' = r1"
      using assms False act by (auto simp: plan_page_def Let_def held_def split: option.splits)
    then show ?thesis
      using that [of a] False plan_action_realises [OF act] by auto
  qed
  let ?pl = "?base\<lparr>plan_action := a\<rparr>" and ?look = "if held request key prop then Skip else look_at key prop ctx"
  have fields: "plan_action ?pl = a" "plan_key ?pl = key"
    by simp_all
  have "apply_plan ?pl (outcome_of ?pl (map (\<lambda>f. Some (yields f)) (rs @ new @ more))) ctx r =
      Some (one_prop sh key prop request ctx r)" for more r
  proof -
    have "realises (plan_action ?pl) (rs @ new @ more) ?look"
      unfolding fields by (rule real)
    then have "apply_plan ?pl (outcome_of ?pl (map (\<lambda>f. Some (yields f)) (rs @ new @ more))) ctx r =
        Some (rbind (settle key ?look r) (\<lambda>(r', incl). Ok (r'\<lparr>res_metadata := record_plan ?pl ctx incl (res_metadata r')\<rparr>)))"
      by (rule apply_realised [of ?pl, unfolded fields(2)])
    also have "\<dots> = Some (one_prop sh key prop request ctx r)"
      unfolding one_prop_def record_plan_action ..
    finally show ?thesis .
  qed
  then show ?thesis
    unfolding pl rs' by blast
qed

abbreviation awaited :: "PropFuture list \<Rightarrow> ResolverOutcome option list" where
  "awaited fs \<equiv> map (\<lambda>f. Some (yields f)) fs"

lemma plan_shared_one:
  assumes "plan_shared_prop key sp request ctx rs = (pl, rs')"
  shows "\<exists>new. rs' = rs @ new \<and> (\<forall>more r. apply_plan pl (outcome_of pl (awaited (rs @ new @ more))) ctx r =
      Some (one_shared key sp request ctx r))"
proof (cases sp)
  case (SharedPage pr)
  obtain p r1 where pp: "plan_page key pr request ctx rs = (p, r1)"
    by fastforce
  then have "pl = p\<lparr>plan_shared := True\<rparr>" "rs' = r1"
    using assms SharedPage by (auto simp: plan_shared_prop_def)
  then show ?thesis
    using plan_page_one_prop [OF pp, of True] SharedPage by (simp add: one_shared_def)
next
  case (SharedOptional f)
  let ?want = "\<not> ctx_full ctx \<and> included key (ctx_partial ctx)"
  let ?look = "if ?want then Await (f request) False else Skip"
  let ?new = "if ?want then [f request] else []"
  have fields: "plan_key pl = key" "plan_prop pl = None" "plan_shared pl" "plan_once_key pl = None"
    and rs': "rs' = rs @ ?new" and real: "\<And>more. realises (plan_action pl) (rs @ ?new @ more) ?look"
    using assms SharedOptional by (auto simp: plan_shared_prop_def invoke_def park_def nth_append split: if_splits)
  have rec: "record_plan pl ctx incl m = (if incl then record_shared (top_level_key key) m else m)" for incl m
    using fields by (simp add: record_plan_def)
  have "apply_plan pl (outcome_of pl (awaited (rs @ ?new @ more))) ctx r = Some (one_shared key sp request ctx r)" for more r
    unfolding apply_realised [OF real] fields(1) rec
    by (auto simp: one_shared_def SharedOptional rbind_def split: sum.splits)
  then show ?thesis
    using rs' by blast
qed

lemma plan_all_page_one_pass:
  assumes "plan_all_page entries request ctx rs = (plans, rs')"
  shows "\<exists>new. rs' = rs @ new \<and>
    (\<forall>more r. apply_all plans (awaited (rs @ new @ more)) ctx r = Some (one_pass_page entries request ctx r))"
  using assms
proof (induction entries arbitrary: rs plans rs')
  case (Cons e entries)
  obtain key pr where e: "e = (key, pr)" by fastforce
  obtain pl r1 where p: "plan_page key pr request ctx rs = (pl, r1)" by fastforce
  obtain pls r2 where ps: "plan_all_page entries request ctx r1 = (pls, r2)" by fastforce
  have eqs: "plans = pl # pls" "rs' = r2"
    using Cons.prems by (auto simp: e p ps)
  obtain n1 where n1: "r1 = rs @ n1" and one: "\<And>more r. apply_plan (pl\<lparr>plan_shared := False\<rparr>)
      (outcome_of (pl\<lparr>plan_shared := False\<rparr>) (awaited (rs @ n1 @ more))) ctx r =
        Some (one_prop False key pr request ctx r)"
    using plan_page_one_prop [OF p, of False] by blast
  have "\<not> plan_shared pl"
    using p by (auto simp: plan_page_def Let_def split: prod.splits)
  then have pl: "pl\<lparr>plan_shared := False\<rparr> = pl"
    by simp
  obtain n2 where n2: "r2 = r1 @ n2"
    and rest: "\<And>more r. apply_all pls (awaited (r1 @ n2 @ more)) ctx r = Some (one_pass_page entries request ctx r)"
    using Cons.IH [OF ps] by blast
  have "apply_all plans (awaited (rs @ (n1 @ n2) @ more)) ctx r = Some (one_pass_page (e # entries) request ctx r)" for more r
    using one [of "n2 @ more" r] rest [of more] n1
    by (auto simp: eqs e pl rbind_def split: sum.splits)
  then show ?case
    using n1 n2 eqs by (metis append.assoc)
qed simp

lemma plan_all_shared_one_pass:
  assumes "plan_all_shared page_keys entries request ctx rs = (plans, rs')"
  shows "\<exists>new. rs' = rs @ new \<and>
    (\<forall>more r. apply_all plans (awaited (rs @ new @ more)) ctx r = Some (one_pass_shared page_keys entries request ctx r))"
  using assms
proof (induction entries arbitrary: rs plans rs')
  case (Cons e entries)
  obtain key sp where e: "e = (key, sp)" by fastforce
  show ?case
  proof (cases "key \<in> set page_keys")
    case True
    then show ?thesis
      using Cons.IH [of rs plans rs'] Cons.prems by (simp add: e)
  next
    case False
    obtain pl r1 where p: "plan_shared_prop key sp request ctx rs = (pl, r1)" by fastforce
    obtain pls r2 where ps: "plan_all_shared page_keys entries request ctx r1 = (pls, r2)" by fastforce
    have eqs: "plans = pl # pls" "rs' = r2"
      using Cons.prems False by (auto simp: e p ps)
    obtain n1 where n1: "r1 = rs @ n1" and one: "\<And>more r. apply_plan pl
        (outcome_of pl (awaited (rs @ n1 @ more))) ctx r = Some (one_shared key sp request ctx r)"
      using plan_shared_one [OF p] by blast
    obtain n2 where n2: "r2 = r1 @ n2" and rest: "\<And>more r. apply_all pls (awaited (r1 @ n2 @ more)) ctx r =
        Some (one_pass_shared page_keys entries request ctx r)"
      using Cons.IH [OF ps] by blast
    have "apply_all plans (awaited (rs @ (n1 @ n2) @ more)) ctx r =
        Some (one_pass_shared page_keys (e # entries) request ctx r)" for more r
      using one [of "n2 @ more" r] rest [of more] n1 False
      by (auto simp: eqs e rbind_def split: sum.splits)
    then show ?thesis
      using n1 n2 eqs by (metis append.assoc)
  qed
qed simp

lemma apply_all_append:
  "apply_all (ps @ qs) outs ctx r =
     (case apply_all ps outs ctx r of None \<Rightarrow> None | Some (Err e) \<Rightarrow> Some (Err e) | Some (Ok r') \<Rightarrow> apply_all qs outs ctx r')"
  by (induction ps arbitrary: r) (auto split: option.splits sum.splits)

text \<open>The resolvers a request invokes.\<close>

definition invoked :: "Props \<Rightarrow> SharedProps \<Rightarrow> InertiaRequest \<Rightarrow> string \<Rightarrow> nat \<Rightarrow> PropFuture list" where
  "invoked page shared request component now_ms =
     (let ctx = context_for request component now_ms
      in snd (plan_all_page page request ctx (snd (plan_all_shared (map fst page) shared request ctx []))))"

lemma resolve_core:
  "resolve fuel page shared request component now_ms =
     (if 0 < fuel \<and> (\<forall>f \<in> set (invoked page shared request component now_ms). polls f < fuel)
      then Some (resolve_one_pass page shared request component now_ms) else None)"
proof -
  let ?ctx = "context_for request component now_ms"
  obtain sp r1 where s: "plan_all_shared (map fst page) shared request ?ctx [] = (sp, r1)" by fastforce
  obtain pp r2 where p: "plan_all_page page request ?ctx r1 = (pp, r2)" by fastforce
  obtain n1 where n1: "r1 = n1" and one: "\<And>more r. apply_all sp (awaited (n1 @ more)) ?ctx r =
      Some (one_pass_shared (map fst page) shared request ?ctx r)"
    using plan_all_shared_one_pass [OF s] by auto
  obtain n2 where n2: "r2 = r1 @ n2" and two: "\<And>more r. apply_all pp (awaited (r1 @ n2 @ more)) ?ctx r =
      Some (one_pass_page page request ?ctx r)"
    using plan_all_page_one_pass [OF p] by blast
  have inv: "invoked page shared request component now_ms = r2"
    by (simp add: invoked_def s p)
  have all: "apply_all (sp @ pp) (awaited r2) ?ctx r =
      Some (rbind (one_pass_shared (map fst page) shared request ?ctx r) (one_pass_page page request ?ctx))" for r
    using one [of n2 r] two [of "[]"] n1 n2 by (auto simp: apply_all_append rbind_def split: sum.splits)
  show ?thesis
    unfolding inv
    by (simp add: resolve_def Let_def s p resolve_together_eq all resolve_one_pass_def)
      (simp add: rbind_def split: sum.splits)
qed

text \<open>
  C9.  Planning every prop first, running all resolvers together and recording afterwards gives exactly
  the page that inspecting, awaiting and recording one prop after the other would give, value for value
  and error for error, however long each resolver takes; in particular it never panics.
\<close>
theorem resolve_is_one_pass:
  assumes "\<forall>f \<in> set (invoked page shared request component now_ms). polls f \<le> slowest"
  shows "resolve (Suc slowest) page shared request component now_ms =
    Some (resolve_one_pass page shared request component now_ms)"
  using assms by (auto simp: resolve_core less_Suc_eq_le)

theorem resolve_is_one_pass_witness:
  "resolve 3 [(''user'', from_base (Lazy \<lparr>polls = 2, yields = Ok (JString ''ada'')\<rparr>))] [] (request_parse [] ''GET'' ''/'')
     ''Home'' 0 = Some (resolve_one_pass [(''user'', from_base (Lazy \<lparr>polls = 2, yields = Ok (JString ''ada'')\<rparr>))] []
       (request_parse [] ''GET'' ''/'') ''Home'' 0)"
proof -
  have "resolve (Suc 2) [(''user'', from_base (Lazy \<lparr>polls = 2, yields = Ok (JString ''ada'')\<rparr>))] []
      (request_parse [] ''GET'' ''/'') ''Home'' 0 = Some (resolve_one_pass
        [(''user'', from_base (Lazy \<lparr>polls = 2, yields = Ok (JString ''ada'')\<rparr>))] [] (request_parse [] ''GET'' ''/'') ''Home'' 0)"
    by (rule resolve_is_one_pass)
      (simp add: invoked_def plan_page_def plan_action_of_def invoke_def park_def from_base_def context_for_def
        ctx_full_def partial_for_def request_parse_def header_str_def hm_get_def non_empty_def)
  then show ?thesis
    by (simp add: numeral_3_eq_3)
qed

section \<open>Nothing unselected leaves the server\<close>

definition selected :: "InertiaRequest \<Rightarrow> ResolveContext \<Rightarrow> string \<Rightarrow> Prop \<Rightarrow> bool" where
  "selected request ctx key pr =
     (\<not> held request key pr \<and>
      (case prop_base pr of
         Always _ \<Rightarrow> True
       | Eager _ \<Rightarrow> included key (ctx_partial ctx)
       | Lazy _ \<Rightarrow> included key (ctx_partial ctx)
       | Optional _ \<Rightarrow> included key (ctx_partial ctx) \<and> \<not> ctx_full ctx
       | Deferred _ _ \<Rightarrow> included key (ctx_partial ctx) \<and> \<not> ctx_full ctx))"

definition selected_shared :: "InertiaRequest \<Rightarrow> ResolveContext \<Rightarrow> string \<Rightarrow> SharedProp \<Rightarrow> bool" where
  "selected_shared request ctx key sp =
     (case sp of
        SharedPage pr \<Rightarrow> selected request ctx key pr
      | SharedOptional _ \<Rightarrow> included key (ctx_partial ctx) \<and> \<not> ctx_full ctx)"

lemma insert_nested_other: "k \<noteq> top_level_key key \<Longrightarrow> bt_get (insert_nested m key v) k = bt_get m k"
  by (cases "split CHR ''.'' key") (auto simp: insert_nested_def top_level_key_def)

lemma settle_other:
  assumes "settle key l r = Ok (r', incl)" and "k = top_level_key key \<Longrightarrow> l = Skip \<or> (\<exists>g. l = Later g)"
  shows "bt_get (res_props r') k = bt_get (res_props r) k"
  using assms insert_nested_other [of k key]
  by (cases "k = top_level_key key"; cases l) (auto split: sum.splits if_splits)

lemma one_prop_other:
  assumes "one_prop sh key pr request ctx r = Ok r'" and "k = top_level_key key \<Longrightarrow> \<not> selected request ctx key pr"
  shows "bt_get (res_props r') k = bt_get (res_props r) k"
proof -
  let ?l = "if held request key pr then Skip else look_at key pr ctx"
  obtain r1 incl where s: "settle key ?l r = Ok (r1, incl)" and "res_props r' = res_props r1"
    using assms(1) by (auto simp: one_prop_def rbind_eq_Ok_iff)
  moreover have "?l = Skip \<or> (\<exists>g. ?l = Later g)" if "k = top_level_key key"
    using assms(2) [OF that] by (auto simp: selected_def look_at_def Let_def split: BaseProp.splits if_splits)
  ultimately show ?thesis
    using settle_other [OF s] by simp
qed

lemma one_shared_other:
  assumes "one_shared key sp request ctx r = Ok r'" and "k = top_level_key key \<Longrightarrow> \<not> selected_shared request ctx key sp"
  shows "bt_get (res_props r') k = bt_get (res_props r) k"
proof (cases sp)
  case (SharedPage pr)
  then show ?thesis
    using assms one_prop_other [of True key pr request ctx r r' k] by (simp add: one_shared_def selected_shared_def)
next
  case (SharedOptional f)
  let ?l = "if \<not> ctx_full ctx \<and> included key (ctx_partial ctx) then Await (f request) False else Skip"
  obtain r1 incl where s: "settle key ?l r = Ok (r1, incl)" and "res_props r' = res_props r1"
    using assms(1) SharedOptional by (auto simp: one_shared_def rbind_eq_Ok_iff)
  moreover have "?l = Skip \<or> (\<exists>g. ?l = Later g)" if "k = top_level_key key"
    using assms(2) [OF that] SharedOptional by (auto simp: selected_shared_def)
  ultimately show ?thesis
    using settle_other [OF s] by simp
qed

lemma one_pass_page_other:
  "one_pass_page entries request ctx r = Ok r' \<Longrightarrow>
     \<forall>(key, pr) \<in> set entries. top_level_key key = k \<longrightarrow> \<not> selected request ctx key pr \<Longrightarrow>
     bt_get (res_props r') k = bt_get (res_props r) k"
proof (induction entries arbitrary: r)
  case (Cons e entries)
  obtain key pr where e: "e = (key, pr)" by fastforce
  obtain r1 where r1: "one_prop False key pr request ctx r = Ok r1" "one_pass_page entries request ctx r1 = Ok r'"
    using Cons.prems(1) by (auto simp: e rbind_eq_Ok_iff)
  then show ?case
    using one_prop_other [OF r1(1), of k] Cons.IH [OF r1(2)] Cons.prems(2) by (auto simp: e)
qed simp

lemma one_pass_shared_other:
  "one_pass_shared page_keys entries request ctx r = Ok r' \<Longrightarrow>
     \<forall>(key, sp) \<in> set entries. top_level_key key = k \<longrightarrow> \<not> selected_shared request ctx key sp \<Longrightarrow>
     bt_get (res_props r') k = bt_get (res_props r) k"
proof (induction entries arbitrary: r)
  case (Cons e entries)
  obtain key sp where e: "e = (key, sp)" by fastforce
  show ?case
  proof (cases "key \<in> set page_keys")
    case True
    then show ?thesis
      using Cons by (simp add: e)
  next
    case False
    obtain r1 where r1: "one_shared key sp request ctx r = Ok r1" "one_pass_shared page_keys entries request ctx r1 = Ok r'"
      using Cons.prems(1) False by (auto simp: e rbind_eq_Ok_iff)
    then show ?thesis
      using one_shared_other [OF r1(1), of k] Cons.IH [OF r1(2)] Cons.prems(2) by (auto simp: e)
  qed
qed simp

lemma finish_errors_other: "k \<noteq> ''errors'' \<Longrightarrow> bt_get (finish_errors request m) k = bt_get m k"
  by (auto simp: finish_errors_def Let_def split: option.splits)

lemma finish_errors_errors: "bt_get (finish_errors request m) ''errors'' \<noteq> None"
  by (auto simp: finish_errors_def Let_def split: option.splits)

text \<open>
  C10.  A page carries what the request selected and nothing else: a key under which no prop was selected
  (optional and deferred props on a full visit, anything a partial reload does not name, a once prop
  the client already holds) is absent from the page, and \<^verbatim>\<open>errors\<close> is always present.
\<close>
theorem unselected_props_stay_home:
  assumes "resolve fuel page shared request component now_ms = Some (Ok r)"
    and "ctx = context_for request component now_ms" and "k \<noteq> ''errors''"
    and "\<forall>(key, pr) \<in> set page. top_level_key key = k \<longrightarrow> \<not> selected request ctx key pr"
    and "\<forall>(key, sp) \<in> set shared. top_level_key key = k \<longrightarrow> \<not> selected_shared request ctx key sp"
  shows "bt_get (res_props r) k = None \<and> bt_get (res_props r) ''errors'' \<noteq> None"
proof -
  have one: "resolve_one_pass page shared request component now_ms = Ok r"
    using assms(1) by (simp add: resolve_core split: if_splits)
  obtain r1 r2 where r1: "one_pass_shared (map fst page) shared request ctx \<lparr>res_props = [], res_metadata = metadata_default\<rparr> = Ok r1"
    and r2: "one_pass_page page request ctx r1 = Ok r2"
    and r: "r = r2\<lparr>res_props := finish_errors request (res_props r2)\<rparr>"
    using one by (auto simp: resolve_one_pass_def Let_def assms(2) rbind_eq_Ok_iff)
  have "bt_get (res_props r2) k = None"
    using one_pass_page_other [OF r2 assms(4)] one_pass_shared_other [OF r1 assms(5)] by simp
  then show ?thesis
    using finish_errors_other [OF assms(3)] finish_errors_errors by (simp add: r)
qed

theorem unselected_props_stay_home_witness:
  "\<exists>r. resolve 1 [(''stats'', from_base (Deferred \<lparr>polls = 9, yields = Err ''slow''\<rparr> None))] []
      (request_parse [] ''GET'' ''/'') ''Home'' 0 = Some (Ok r) \<and>
    bt_get (res_props r) ''stats'' = None \<and> bt_get (res_props r) ''errors'' \<noteq> None"
proof -
  let ?page = "[(''stats'', from_base (Deferred \<lparr>polls = 9, yields = Err ''slow''\<rparr> None))]"
  let ?req = "request_parse [] ''GET'' ''/''"
  have full: "ctx_full (context_for ?req ''Home'' 0)"
    by (simp add: context_for_def ctx_full_def partial_for_def request_parse_def header_str_def hm_get_def non_empty_def)
  have look: "look_at ''stats'' (snd (hd ?page)) (context_for ?req ''Home'' 0) = Later ''default''"
    using full by (simp add: look_at_def from_base_def)
  have inv: "invoked ?page [] ?req ''Home'' 0 = []"
    using full by (simp add: invoked_def plan_page_def plan_action_of_def from_base_def)
  obtain r where r: "resolve_one_pass ?page [] ?req ''Home'' 0 = Ok r"
    using look by (auto simp: resolve_one_pass_def one_prop_def held_def from_base_def Let_def)
  have "\<forall>(key, pr) \<in> set ?page. top_level_key key = ''stats'' \<longrightarrow> \<not> selected ?req (context_for ?req ''Home'' 0) key pr"
    using full by (simp add: selected_def from_base_def)
  moreover have res: "resolve 1 ?page [] ?req ''Home'' 0 = Some (Ok r)"
    by (simp add: resolve_core inv r)
  ultimately have "bt_get (res_props r) ''stats'' = None \<and> bt_get (res_props r) ''errors'' \<noteq> None"
    by (intro unselected_props_stay_home [OF res refl]) simp_all
  then show ?thesis
    using res by blast
qed

end
