(* ===== verification/Http_Security.thy ===== *)
theory Http_Security
  imports Header_Map Base64url
begin

text \<open>
  The security headers of \<^verbatim>\<open>src/http/security.rs\<close>: fixed headers, the content-security policy with a
  nonce per request, and the middleware that puts them on a response.  The random bytes of a nonce are
  an argument, \<open>None\<close> where the operating system has none.
\<close>

section \<open>Nonces\<close>

definition CSP_NONCE_PLACEHOLDER :: string where
  "CSP_NONCE_PLACEHOLDER = ''{nonce}''"

definition CSP_NONCE_BYTES :: nat where
  "CSP_NONCE_BYTES = 18"

definition BASE64_ALPHABET :: string where
  "BASE64_ALPHABET = ''ABCDEFGHIJKLMNOPQRSTUVWXYZabcdefghijklmnopqrstuvwxyz0123456789+/''"

definition base64_digit :: "32 word \<Rightarrow> char" where
  "base64_digit v = BASE64_ALPHABET ! unat (v AND 63)"

definition base64_chunk :: "bytes \<Rightarrow> string" where
  "base64_chunk chunk =
     (let triple = triple_of chunk
      in [base64_digit (drop_bit 18 triple), base64_digit (drop_bit 12 triple),
          if length chunk > 1 then base64_digit (drop_bit 6 triple) else CHR ''='',
          if length chunk > 2 then base64_digit triple else CHR ''=''])"

definition base64_encode :: "bytes \<Rightarrow> string" where
  "base64_encode bytes = concat (map base64_chunk (chunks 3 bytes))"

definition nonce_generate :: "bytes option \<Rightarrow> string option" where
  "nonce_generate entropy = map_option base64_encode entropy"

definition nonce_attribute :: "string \<Rightarrow> string" where
  "nonce_attribute nonce = '' nonce='' @ [CHR 0x22] @ nonce @ [CHR 0x22]"

section \<open>The policy\<close>

text \<open>\<^verbatim>\<open>str::replace\<close> for a pattern that is not empty, and \<^verbatim>\<open>str::contains\<close>.\<close>

function replace_all :: "string \<Rightarrow> string \<Rightarrow> string \<Rightarrow> string" where
  "replace_all pat new [] = []"
| "replace_all pat new (c # s) =
     (if pat \<noteq> [] \<and> take (length pat) (c # s) = pat then new @ replace_all pat new (drop (length pat) (c # s))
      else c # replace_all pat new s)"
  by pat_completeness auto
termination
  by (relation "measure (\<lambda>(_, _, s). length s)") auto

fun contains :: "string \<Rightarrow> string \<Rightarrow> bool" where
  "contains pat [] = (pat = [])"
| "contains pat (c # s) = (take (length pat) (c # s) = pat \<or> contains pat s)"

datatype CspTemplateError = MissingPlaceholder | NotAHeaderValue

record SecurityHeaders =
  hsts :: bool
  csp :: "string option"
  csp_template :: "string option"

definition security_new :: SecurityHeaders where
  "security_new = \<lparr>hsts = False, csp = None, csp_template = None\<rparr>"

definition with_hsts :: "SecurityHeaders \<Rightarrow> SecurityHeaders" where
  "with_hsts self = self\<lparr>hsts := True\<rparr>"

definition with_csp :: "SecurityHeaders \<Rightarrow> string \<Rightarrow> SecurityHeaders" where
  "with_csp self policy = self\<lparr>csp := to_str policy, csp_template := None\<rparr>"

definition with_csp_nonce :: "SecurityHeaders \<Rightarrow> string \<Rightarrow> (CspTemplateError, SecurityHeaders) result" where
  "with_csp_nonce self template =
     (if \<not> contains CSP_NONCE_PLACEHOLDER template then Err MissingPlaceholder
      else let sample = replace_all CSP_NONCE_PLACEHOLDER (replicate ((CSP_NONCE_BYTES + 2) div 3 * 4) CHR ''A'') template
           in if \<not> list_all header_text sample then Err NotAHeaderValue
              else Ok (self\<lparr>csp := None, csp_template := Some template\<rparr>))"

definition generates_nonce :: "SecurityHeaders \<Rightarrow> bool" where
  "generates_nonce self = (csp_template self \<noteq> None)"

definition csp_value :: "SecurityHeaders \<Rightarrow> string option \<Rightarrow> string option" where
  "csp_value self nonce =
     (case (csp_template self, nonce) of
        (Some template, Some n) \<Rightarrow> to_str (replace_all CSP_NONCE_PLACEHOLDER n template)
      | _ \<Rightarrow> csp self)"

section \<open>The middleware\<close>

definition set_default :: "string \<Rightarrow> string \<Rightarrow> headers \<Rightarrow> headers" where
  "set_default name v h = (if hm_contains h name then h else hm_insert name v h)"

definition security_apply :: "SecurityHeaders \<Rightarrow> string option \<Rightarrow> headers \<Rightarrow> headers" where
  "security_apply config nonce h =
     (let h1 = set_default ''x-content-type-options'' ''nosniff'' h;
          h2 = set_default ''x-frame-options'' ''DENY'' h1;
          h3 = set_default ''referrer-policy'' ''strict-origin-when-cross-origin'' h2;
          h4 = (if hsts config then set_default ''strict-transport-security'' ''max-age=31536000; includeSubDomains'' h3
                else h3)
      in case csp_value config nonce of
           Some policy \<Rightarrow> set_default ''content-security-policy'' policy h4
         | None \<Rightarrow> h4)"

text \<open>One request; \<open>inner\<close> gets the nonce of the request and answers with its headers and the rest of
  the response.  \<open>None\<close> is the refusal with status 500.\<close>

definition security_call :: "SecurityHeaders \<Rightarrow> bytes option \<Rightarrow> (string option \<Rightarrow> headers \<times> 'r) \<Rightarrow> (headers \<times> 'r) option" where
  "security_call config entropy inner =
     (if generates_nonce config then
        (case nonce_generate entropy of
           None \<Rightarrow> None
         | Some nonce \<Rightarrow>
             (case inner (Some nonce) of (h, r) \<Rightarrow> Some (security_apply config (Some nonce) h, r)))
      else (case inner None of (h, r) \<Rightarrow> Some (security_apply config None h, r)))"

section \<open>Nonces are plain\<close>

lemma length_base64_chunk [simp]: "length (base64_chunk c) = 4"
  by (simp add: base64_chunk_def Let_def)

definition base64_char :: "char \<Rightarrow> bool" where
  "base64_char c = (is_ascii_alphanumeric c \<or> c = CHR ''+'' \<or> c = CHR ''/'' \<or> c = CHR ''='')"

lemma base64_alphabet: "list_all base64_char BASE64_ALPHABET" "length BASE64_ALPHABET = 64"
  by code_simp+

lemma base64_digit_in: "base64_char (base64_digit v)"
proof -
  have "v AND 63 = take_bit 6 v"
    by (simp add: mask_63 take_bit_eq_mask)
  then have "unat (v AND 63) < 64"
    using take_bit_nat_less_exp [of 6 "unat v"] by (simp add: unsigned_take_bit_eq)
  then show ?thesis
    using base64_alphabet by (simp add: base64_digit_def list_all_length)
qed

lemma set_base64_encode: "c \<in> set (base64_encode b) \<Longrightarrow> base64_char c"
proof -
  assume "c \<in> set (base64_encode b)"
  then obtain ch where "c \<in> set (base64_chunk ch)"
    by (auto simp: base64_encode_def)
  moreover have "base64_char CHR ''=''"
    by (simp add: base64_char_def)
  ultimately show ?thesis
    using base64_digit_in by (auto simp: base64_chunk_def Let_def split: if_splits)
qed

lemma base64_char_text: "base64_char c \<Longrightarrow> header_text c"
  by (auto simp: base64_char_def is_ascii_alphanumeric_def header_text_def printable_def Let_def)

lemma length_chunks_exact: "0 < n \<Longrightarrow> length xs = n * k \<Longrightarrow> length (chunks n xs) = k"
proof (induction k arbitrary: xs)
  case (Suc k)
  then have "xs \<noteq> []" "length (drop n xs) = n * k"
    by auto
  then show ?case
    using Suc.IH [of "drop n xs"] Suc.prems(1) by (simp add: chunks.simps [of n xs])
qed (simp add: chunks.simps)

lemma length_base64_nonce: "length b = 18 \<Longrightarrow> length (base64_encode b) = 24"
proof -
  assume "length b = 18"
  then have "length (chunks 3 b) = 6"
    using length_chunks_exact [of 3 b 6] by simp
  then show ?thesis
    by (simp add: base64_encode_def length_concat o_def sum_list_triv)
qed

section \<open>Policies\<close>

lemma set_replace_all:
  "c \<in> set (replace_all pat new s) \<Longrightarrow> c \<in> set new \<or> c \<in> set (replace_all pat other s)"
  by (induction pat new s rule: replace_all.induct) (auto split: if_splits)

lemma replace_text:
  assumes "list_all header_text (replace_all pat sample s)" and "list_all header_text new"
  shows "list_all header_text (replace_all pat new s)"
  using assms set_replace_all [of _ pat new s sample] by (auto simp: list_all_iff)

lemma hm_get_set_default: "hm_get (set_default name v h) n =
    (if n = name then (case hm_get h name of None \<Rightarrow> Some v | x \<Rightarrow> x) else hm_get h n)"
  by (auto simp: set_default_def hm_contains_def hm_get_def [symmetric] split: option.splits)

text \<open>
  A nonce template that was accepted when the application was built always yields a policy: for
  every nonce the response carries the template with exactly the nonce that the rest of the request
  was given in place of every placeholder, unless the response already brought a policy of its own;
  and the nonce needs no escaping inside an attribute.
\<close>
theorem nonce_policy_reaches_response:
  assumes "with_csp_nonce config template = Ok config'"
    and "hm_get (fst (inner (Some (base64_encode b)))) ''content-security-policy'' = None"
  shows "\<exists>h r. security_call config' (Some b) inner = Some (h, r) \<and>
    hm_get h ''content-security-policy'' = Some (replace_all CSP_NONCE_PLACEHOLDER (base64_encode b) template) \<and>
    (\<forall>c \<in> set (base64_encode b). base64_char c)"
proof -
  have tmpl: "csp_template config' = Some template"
    and sample: "list_all header_text (replace_all CSP_NONCE_PLACEHOLDER
      (replicate ((CSP_NONCE_BYTES + 2) div 3 * 4) CHR ''A'') template)"
    using assms(1) by (auto simp: with_csp_nonce_def Let_def split: if_splits)
  have "list_all header_text (base64_encode b)"
    using set_base64_encode base64_char_text by (auto simp: list_all_iff)
  then have "list_all header_text (replace_all CSP_NONCE_PLACEHOLDER (base64_encode b) template)"
    by (rule replace_text [OF sample])
  then have "csp_value config' (Some (base64_encode b)) = Some (replace_all CSP_NONCE_PLACEHOLDER (base64_encode b) template)"
    by (simp add: csp_value_def tmpl to_str_def)
  then show ?thesis
    using assms(2) set_base64_encode
    by (auto simp: security_call_def generates_nonce_def nonce_generate_def tmpl security_apply_def Let_def
        hm_get_set_default split: prod.split)
qed

theorem nonce_policy_reaches_response_witness:
  "\<exists>config' h r. with_csp_nonce security_new ''script-src {nonce}'' = Ok config' \<and>
     security_call config' (Some [0, 16, 131]) (\<lambda>n. ([], n)) = Some (h, r) \<and> hm_get h ''content-security-policy'' \<noteq> None"
proof -
  obtain config' where cfg: "with_csp_nonce security_new ''script-src {nonce}'' = Ok config'"
    by (simp add: with_csp_nonce_def CSP_NONCE_PLACEHOLDER_def CSP_NONCE_BYTES_def header_text_def printable_def list_all_iff)
  then show ?thesis
    using nonce_policy_reaches_response [OF cfg, of "\<lambda>n. ([], n)" "[0, 16, 131]"] by (auto simp: hm_get_def)
qed

end
