(* ===== verification/Inertia_Protocol.thy ===== *)
theory Inertia_Protocol
  imports Inertia_Props Http_Security
begin

text \<open>
  Inertia responses: \<^verbatim>\<open>src/inertia/response.rs\<close> (the page in a document, the page as JSON, the
  \<^verbatim>\<open>Vary\<close> header), \<^verbatim>\<open>src/inertia/redirect.rs\<close>, \<^verbatim>\<open>src/inertia/head.rs\<close>, the configuration of
  \<^verbatim>\<open>src/inertia/config.rs\<close> and the middleware of \<^verbatim>\<open>src/inertia/render.rs\<close>.

  Printing JSON (package \<^verbatim>\<open>serde_json\<close>) is the parameter \<open>to_json\<close>, the application's root document the
  parameter \<open>root\<close>.  A body whose length is not known up front is \<open>Streaming\<close>.
\<close>

section \<open>Escaping\<close>

fun escape_script_char :: "char \<Rightarrow> string" where
  "escape_script_char c =
     (if c = CHR ''<'' then CHR 0x5C # ''u003c''
      else if c = CHR ''>'' then CHR 0x5C # ''u003e''
      else if c = CHR ''&'' then CHR 0x5C # ''u0026''
      else if c = CHR ''/'' then [CHR 0x5C, CHR ''/'']
      else [c])"

definition escape_script_body :: "string \<Rightarrow> string" where
  "escape_script_body json =
     (if list_all (\<lambda>b. b \<noteq> CHR ''<'' \<and> b \<noteq> CHR ''>'' \<and> b \<noteq> CHR ''&'' \<and> b \<noteq> CHR ''/'') json then json
      else concat (map escape_script_char json))"

fun escape_char :: "char \<Rightarrow> string" where
  "escape_char c =
     (if c = CHR ''&'' then ''&amp;''
      else if c = CHR ''<'' then ''&lt;''
      else if c = CHR ''>'' then ''&gt;''
      else if c = CHR 0x22 then ''&quot;''
      else if c = CHR 0x27 then ''&#x27;''
      else [c])"

definition escape :: "string \<Rightarrow> string" where
  "escape raw =
     (if list_all (\<lambda>b. b \<noteq> CHR ''&'' \<and> b \<noteq> CHR ''<'' \<and> b \<noteq> CHR ''>'' \<and> b \<noteq> CHR 0x22 \<and> b \<noteq> CHR 0x27) raw then raw
      else concat (map escape_char raw))"

section \<open>The document head\<close>

record Head =
  h_title :: "string option"
  h_description :: "string option"
  h_canonical :: "string option"
  og_title :: "string option"
  og_description :: "string option"
  og_type :: "string option"
  og_url :: "string option"
  og_image :: "string option"
  og_image_alt :: "string option"
  og_site_name :: "string option"
  og_locale :: "string option"
  twitter_card :: "string option"
  twitter_site :: "string option"
  twitter_creator :: "string option"
  twitter_title :: "string option"
  twitter_description :: "string option"
  twitter_image :: "string option"

definition head_new :: Head where
  "head_new =
     \<lparr>h_title = None, h_description = None, h_canonical = None, og_title = None, og_description = None,
      og_type = None, og_url = None, og_image = None, og_image_alt = None, og_site_name = None, og_locale = None,
      twitter_card = None, twitter_site = None, twitter_creator = None, twitter_title = None,
      twitter_description = None, twitter_image = None\<rparr>"

definition with_title :: "Head \<Rightarrow> string \<Rightarrow> Head" where
  "with_title self v = self\<lparr>h_title := Some (escape v)\<rparr>"

definition with_description :: "Head \<Rightarrow> string \<Rightarrow> Head" where
  "with_description self v = self\<lparr>h_description := Some (escape v)\<rparr>"

definition with_canonical :: "Head \<Rightarrow> string \<Rightarrow> Head" where
  "with_canonical self v = self\<lparr>h_canonical := Some (escape v)\<rparr>"

definition with_og_image :: "Head \<Rightarrow> string \<Rightarrow> Head" where
  "with_og_image self v = self\<lparr>og_image := Some (escape v)\<rparr>"

definition push_element :: "string \<Rightarrow> string \<Rightarrow> string" where
  "push_element out element = (if out = [] then element else out @ [CHR 0x0A] @ ''  '' @ element)"

definition quoted :: "string \<Rightarrow> string" where
  "quoted s = [CHR 0x22] @ s @ [CHR 0x22]"

definition push_meta :: "string \<Rightarrow> string \<Rightarrow> string option \<Rightarrow> string \<Rightarrow> string" where
  "push_meta attribute key v out =
     (case v of
        None \<Rightarrow> out
      | Some s \<Rightarrow> push_element out (''<meta '' @ attribute @ ''='' @ quoted key @ '' content='' @ quoted s @ '' />''))"

definition or_field :: "string option \<Rightarrow> string option \<Rightarrow> string option" where
  "or_field a b = (case a of Some x \<Rightarrow> Some x | None \<Rightarrow> b)"

definition resolved_card :: "Head \<Rightarrow> string option" where
  "resolved_card self =
     (case twitter_card self of
        Some c \<Rightarrow> Some c
      | None \<Rightarrow>
          (let has_image = (twitter_image self \<noteq> None \<or> og_image self \<noteq> None);
               has_content = (has_image \<or> h_title self \<noteq> None \<or> h_description self \<noteq> None \<or> og_title self \<noteq> None \<or>
                 og_description self \<noteq> None \<or> twitter_title self \<noteq> None \<or> twitter_description self \<noteq> None)
           in if \<not> has_content then None
              else Some (if has_image then ''summary_large_image'' else ''summary'')))"

definition to_html :: "Head \<Rightarrow> string" where
  "to_html self =
     (let out1 = (case h_title self of Some t \<Rightarrow> push_element [] (''<title>'' @ t @ ''</title>'') | None \<Rightarrow> []);
          out2 = push_meta ''name'' ''description'' (h_description self) out1;
          out3 = (case h_canonical self of
                    Some c \<Rightarrow> push_element out2 (''<link rel='' @ quoted ''canonical'' @ '' href='' @ quoted c @ '' />'')
                  | None \<Rightarrow> out2)
      in push_meta ''name'' ''twitter:image'' (twitter_image self)
        (push_meta ''name'' ''twitter:description'' (twitter_description self)
        (push_meta ''name'' ''twitter:title'' (twitter_title self)
        (push_meta ''name'' ''twitter:creator'' (twitter_creator self)
        (push_meta ''name'' ''twitter:site'' (twitter_site self)
        (push_meta ''name'' ''twitter:card'' (resolved_card self)
        (push_meta ''property'' ''og:locale'' (og_locale self)
        (push_meta ''property'' ''og:site_name'' (og_site_name self)
        (push_meta ''property'' ''og:image:alt'' (og_image_alt self)
        (push_meta ''property'' ''og:image'' (og_image self)
        (push_meta ''property'' ''og:url'' (or_field (og_url self) (h_canonical self))
        (push_meta ''property'' ''og:type'' (og_type self)
        (push_meta ''property'' ''og:description'' (or_field (og_description self) (h_description self))
        (push_meta ''property'' ''og:title'' (or_field (og_title self) (h_title self)) out3))))))))))))))"

definition head_markup :: "Head option \<Rightarrow> string \<Rightarrow> string" where
  "head_markup head title =
     (case head of
        None \<Rightarrow> ''<title>'' @ escape title @ ''</title>''
      | Some h \<Rightarrow> if h_title h \<noteq> None then to_html h else to_html (with_title h title))"

section \<open>Configuration\<close>

record ScriptBody =
  body_html :: string
  body_nonce :: "string option"
  body_head :: "Head option"

definition asset_version_new :: "string \<Rightarrow> (InertiaError, string) result" where
  "asset_version_new version = ok_or (to_str version) HeaderError"

record InertiaConfig =
  cfg_version :: "string option"
  cfg_root :: "ScriptBody \<Rightarrow> string"
  cfg_shared :: SharedProps
  cfg_page_id :: string

definition config_new :: "string \<Rightarrow> (ScriptBody \<Rightarrow> string) \<Rightarrow> (InertiaError, InertiaConfig) result" where
  "config_new version root =
     rbind (asset_version_new version) (\<lambda>v. Ok \<lparr>cfg_version = Some v, cfg_root = root, cfg_shared = [], cfg_page_id = ''app''\<rparr>)"

definition config_versionless :: "(ScriptBody \<Rightarrow> string) \<Rightarrow> InertiaConfig" where
  "config_versionless root = \<lparr>cfg_version = None, cfg_root = root, cfg_shared = [], cfg_page_id = ''app''\<rparr>"

definition with_shared :: "InertiaConfig \<Rightarrow> SharedProps \<Rightarrow> InertiaConfig" where
  "with_shared self shared = self\<lparr>cfg_shared := shared\<rparr>"

definition with_page_id :: "InertiaConfig \<Rightarrow> string \<Rightarrow> InertiaConfig" where
  "with_page_id self i = self\<lparr>cfg_page_id := i\<rparr>"

definition version_str :: "InertiaConfig \<Rightarrow> string" where
  "version_str self = (case cfg_version self of Some v \<Rightarrow> v | None \<Rightarrow> [])"

definition script_nonce_attribute :: "string option \<Rightarrow> string" where
  "script_nonce_attribute nonce = (case nonce of Some n \<Rightarrow> nonce_attribute n | None \<Rightarrow> [])"

section \<open>Responses\<close>

datatype Body = Exact string | Streaming string

record Response =
  status :: nat
  resp_headers :: headers
  body :: Body
  pending :: "(string \<times> json) option"

definition response :: "nat \<Rightarrow> headers \<Rightarrow> string \<Rightarrow> Response" where
  "response st h b = \<lparr>status = st, resp_headers = h, body = Exact b, pending = None\<rparr>"

record Page =
  page_component :: string
  page_props :: json
  page_url :: string
  page_version :: "string option"
  page_metadata :: PageMetadata

definition build_script_body :: "string \<Rightarrow> string \<Rightarrow> string option \<Rightarrow> Head option \<Rightarrow> ScriptBody" where
  "build_script_body page_json page_id nonce head =
     \<lparr>body_html = ''<script'' @ script_nonce_attribute nonce @ '' data-page='' @ quoted page_id @
        '' type='' @ quoted ''application/json'' @ ''>'' @ escape_script_body page_json @ ''</script><div id='' @
        quoted page_id @ ''></div>'', body_nonce = nonce, body_head = head\<rparr>"

fun dedup_tokens :: "string list \<Rightarrow> string list \<Rightarrow> string list" where
  "dedup_tokens [] tokens = tokens"
| "dedup_tokens (t # rest) tokens =
     dedup_tokens rest (if list_ex (\<lambda>existing. eq_ignore_ascii_case existing t) tokens then tokens else tokens @ [t])"

definition ensure_vary_x_inertia :: "headers \<Rightarrow> headers" where
  "ensure_vary_x_inertia h =
     (if hm_get_all h ''vary'' = [] then hm_insert ''vary'' ''X-Inertia'' h
      else let found = header_tokens (hm_get_all h ''vary'')
           in if ''*'' \<in> set found then h
              else let tokens = dedup_tokens found [];
                       tokens' = (if list_ex (\<lambda>t. eq_ignore_ascii_case t ''x-inertia'') tokens then tokens
                                  else tokens @ [''X-Inertia'']);
                       combined = join '', '' tokens'
                   in if list_all header_text combined then hm_insert ''vary'' combined h else h)"

definition html_response :: "(Page \<Rightarrow> string option) \<Rightarrow> Page \<Rightarrow> InertiaConfig \<Rightarrow> string option \<Rightarrow> Head option \<Rightarrow> nat \<Rightarrow>
    (InertiaError, Response) result" where
  "html_response to_json page config nonce head st =
     rbind (ok_or (to_json page) Serialize) (\<lambda>page_json.
     Ok (response st (ensure_vary_x_inertia (hm_insert ''content-type'' ''text/html; charset=utf-8'' []))
       (cfg_root config (build_script_body page_json (cfg_page_id config) nonce head))))"

definition json_response :: "string \<Rightarrow> nat \<Rightarrow> Response" where
  "json_response page_json st =
     response st (ensure_vary_x_inertia (hm_insert ''x-inertia'' ''true'' (hm_insert ''content-type'' ''application/json'' [])))
       page_json"

section \<open>Redirects\<close>

datatype Redirect = Standard string string | External string | Fragment string

definition standard_response :: "string \<Rightarrow> nat \<Rightarrow> (InertiaError, Response) result" where
  "standard_response location st =
     rbind (ok_or (to_str location) Location) (\<lambda>v. Ok (response st (hm_insert ''location'' v []) []))"

definition control_response :: "string \<Rightarrow> string \<Rightarrow> (InertiaError, Response) result" where
  "control_response location header =
     rbind (ok_or (to_str location) Location) (\<lambda>v. Ok (response 409 (hm_insert header v []) []))"

definition repeats_as_get :: "string \<Rightarrow> bool" where
  "repeats_as_get m = (m = ''PUT'' \<or> m = ''PATCH'' \<or> m = ''DELETE'')"

fun redirect_build :: "Redirect \<Rightarrow> (InertiaError, Response) result" where
  "redirect_build (Standard location m) = standard_response location (if repeats_as_get m then 303 else 302)"
| "redirect_build (External location) = control_response location ''x-inertia-location''"
| "redirect_build (Fragment location) = control_response location ''x-inertia-redirect''"

section \<open>Rendering\<close>

definition respond :: "(Page \<Rightarrow> string option) \<Rightarrow> InertiaRequest \<Rightarrow> InertiaConfig \<Rightarrow> string option \<Rightarrow> Head option \<Rightarrow>
    Page \<Rightarrow> nat \<Rightarrow> (InertiaError, Response) result" where
  "respond to_json request config nonce head page st =
     (if is_inertia request then rbind (ok_or (to_json page) Serialize) (\<lambda>j. Ok (json_response j st))
      else html_response to_json page config nonce head st)"

text \<open>The prop of the negotiated locale: its identifier, its source and the registered locales.\<close>

definition add_locale_prop :: "(string \<times> string \<times> string list) option \<Rightarrow> PartialSelection option \<Rightarrow>
    (string, json) btree \<Rightarrow> (string, json) btree" where
  "add_locale_prop locale partial props =
     (case locale of
        None \<Rightarrow> props
      | Some (i, source, available) \<Rightarrow>
          if bt_get props ''locale'' \<noteq> None then props
          else if (case partial of Some p \<Rightarrow> ''locale'' \<notin> set (sel_only p) | None \<Rightarrow> False) then props
          else bt_insert ''locale''
                 (JObject (bt_insert ''available'' (JArray (map JString available))
                   (bt_insert ''source'' (JString source) (bt_insert ''id'' (JString i) [])))) props)"

text \<open>The outer \<open>None\<close> is the one of \<open>resolve\<close>.\<close>

definition render_advanced_with_options :: "(Page \<Rightarrow> string option) \<Rightarrow> nat \<Rightarrow> nat \<Rightarrow> InertiaRequest \<Rightarrow> InertiaConfig \<Rightarrow>
    string option \<Rightarrow> Head option \<Rightarrow> (string \<times> string \<times> string list) option \<Rightarrow> string \<Rightarrow> Props \<Rightarrow> PageOptions \<Rightarrow>
    (InertiaError, Response) result option" where
  "render_advanced_with_options to_json fuel now_ms request config nonce head locale component props options =
     map_option (\<lambda>x. rbind x (\<lambda>r.
       respond to_json request config nonce head
         \<lparr>page_component = component,
          page_props = JObject (add_locale_prop locale (partial_for request component) (res_props r)),
          page_url = req_url request, page_version = cfg_version config,
          page_metadata = apply_options options (res_metadata r)\<rparr> (resolved_status options)))
       (resolve fuel props (cfg_shared config) request component now_ms)"

definition render_with_options :: "(Page \<Rightarrow> string option) \<Rightarrow> nat \<Rightarrow> nat \<Rightarrow> InertiaRequest \<Rightarrow> InertiaConfig \<Rightarrow>
    string option \<Rightarrow> Head option \<Rightarrow> (string \<times> string \<times> string list) option \<Rightarrow> string \<Rightarrow> json \<Rightarrow> PageOptions \<Rightarrow>
    (InertiaError, Response) result option" where
  "render_with_options to_json fuel now_ms request config nonce head locale component v options =
     (case from_serialized v of
        Err e \<Rightarrow> Some (Err e)
      | Ok props \<Rightarrow>
          render_advanced_with_options to_json fuel now_ms request config nonce head locale component props options)"

definition default_options :: PageOptions where
  "default_options = \<lparr>opt_encrypt_history = False, opt_clear_history = False, opt_preserve_fragment = False,
     opt_flash = None, opt_match_props_on = [], opt_status = None\<rparr>"

section \<open>The middleware\<close>

definition error_response :: Response where
  "error_response = response 500 [(''content-type'', ''text/plain; charset=utf-8'')] ''inertia adapter error''"

fun carry_headers :: "headers \<Rightarrow> headers \<Rightarrow> headers" where
  "carry_headers [] rendered = rendered"
| "carry_headers ((name, v) # rest) rendered =
     carry_headers rest
       (if name = ''content-type'' \<or> name = ''content-length'' \<or> hm_contains rendered name then rendered
        else hm_append name v rendered)"

definition render_pending :: "(Page \<Rightarrow> string option) \<Rightarrow> nat \<Rightarrow> nat \<Rightarrow> InertiaRequest \<Rightarrow> InertiaConfig \<Rightarrow>
    string option \<Rightarrow> (string \<times> string \<times> string list) option \<Rightarrow> Response \<Rightarrow> Response option" where
  "render_pending to_json fuel now_ms request config nonce locale resp =
     (case pending resp of
        None \<Rightarrow> Some resp
      | Some (component, props) \<Rightarrow>
          map_option (\<lambda>x. case x of
              Err _ \<Rightarrow> error_response
            | Ok rendered \<Rightarrow> rendered\<lparr>resp_headers := carry_headers (resp_headers resp) (resp_headers rendered)\<rparr>)
            (render_with_options to_json fuel now_ms request config nonce None locale component props default_options))"

definition version_mismatch_response :: "InertiaConfig \<Rightarrow> InertiaRequest \<Rightarrow> Response option" where
  "version_mismatch_response config request =
     (if req_method request \<noteq> ''GET'' \<or> \<not> is_inertia request then None
      else let current = version_str config
           in if (case request_version request of Some v \<Rightarrow> v | None \<Rightarrow> []) = current then None
              else case to_str (req_url request) of
                     None \<Rightarrow> None
                   | Some u \<Rightarrow>
                       (case to_str current of
                          None \<Rightarrow> None
                        | Some v \<Rightarrow>
                            Some (response 409 (ensure_vary_x_inertia
                              (hm_insert ''x-inertia-version'' v (hm_insert ''x-inertia-location'' u []))) [])))"

definition empty_fallback :: "InertiaRequest \<Rightarrow> Response \<Rightarrow> Response" where
  "empty_fallback request resp =
     (if is_inertia request \<and> status resp = 200 \<and> body resp = Exact [] then
        (case to_str (case referer request of Some r \<Rightarrow> r | None \<Rightarrow> req_url request) of
           Some location \<Rightarrow> resp\<lparr>status := 302, resp_headers := hm_insert ''location'' location (resp_headers resp)\<rparr>
         | None \<Rightarrow> resp)
      else resp)"

definition see_other :: "InertiaRequest \<Rightarrow> Response \<Rightarrow> Response" where
  "see_other request resp =
     (if is_inertia request \<and> repeats_as_get (req_method request) \<and> status resp = 302 then resp\<lparr>status := 303\<rparr> else resp)"

definition is_redirect :: "nat \<Rightarrow> bool" where
  "is_redirect st = (st \<in> {301, 302, 303, 307, 308})"

definition fragment_redirect :: "InertiaRequest \<Rightarrow> Response \<Rightarrow> Response" where
  "fragment_redirect request resp =
     (if is_inertia request \<and> \<not> is_prefetch request \<and> is_redirect (status resp) then
        (case hm_get (resp_headers resp) ''location'' of
           None \<Rightarrow> resp
         | Some location \<Rightarrow>
             (case to_str location of
                None \<Rightarrow> resp
              | Some loc_str \<Rightarrow>
                  if CHR ''#'' \<in> set loc_str then
                    resp\<lparr>status := 409,
                         resp_headers := foldl (\<lambda>h (k, v). hm_append k v h) (hm_remove ''location'' (resp_headers resp))
                           (ensure_vary_x_inertia (hm_insert ''x-inertia-redirect'' location []))\<rparr>
                  else resp))
      else resp)"

definition post_process :: "Response \<Rightarrow> InertiaRequest \<Rightarrow> Response" where
  "post_process resp request =
     fragment_redirect request
       (see_other request
         (empty_fallback request (resp\<lparr>resp_headers := ensure_vary_x_inertia (resp_headers resp)\<rparr>)))"

text \<open>One request: the inner service is only called when the asset version matches.\<close>

definition inertia_call :: "(Page \<Rightarrow> string option) \<Rightarrow> nat \<Rightarrow> nat \<Rightarrow> InertiaConfig \<Rightarrow> string option \<Rightarrow>
    (string \<times> string \<times> string list) option \<Rightarrow> (InertiaRequest \<Rightarrow> Response) \<Rightarrow> headers \<Rightarrow> string \<Rightarrow> string \<Rightarrow> Response option" where
  "inertia_call to_json fuel now_ms config nonce locale inner headers http_method uri =
     (let request = request_parse headers http_method uri
      in case version_mismatch_response config request of
           Some short_circuit \<Rightarrow> Some short_circuit
         | None \<Rightarrow>
             map_option (\<lambda>resp. post_process resp request)
               (render_pending to_json fuel now_ms request config nonce locale (inner request)))"

section \<open>Varying with the protocol\<close>

definition varies_on :: "string \<Rightarrow> headers \<Rightarrow> bool" where
  "varies_on name h = list_ex (\<lambda>t. t = ''*'' \<or> eq_ignore_ascii_case t name) (header_tokens (hm_get_all h ''vary''))"

lemma token_X_Inertia: "is_token ''X-Inertia''"
  by (simp add: is_token_def header_text_def printable_def ws1_def)

lemma dedup_tokens_token: "\<forall>t \<in> set ts \<union> set acc. is_token t \<Longrightarrow> t \<in> set (dedup_tokens ts acc) \<Longrightarrow> is_token t"
  by (induction ts acc rule: dedup_tokens.induct) (auto split: if_splits)

lemma eq_X_Inertia: "eq_ignore_ascii_case t ''x-inertia'' \<longleftrightarrow> eq_ignore_ascii_case t ''X-Inertia''"
proof -
  have "to_ascii_lowercase ''X-Inertia'' = to_ascii_lowercase ''x-inertia''"
    by code_simp
  then show ?thesis
    by (simp only: eq_ignore_ascii_case_def)
qed

lemma vary_token: "eq_ignore_ascii_case ''X-Inertia'' ''X-Inertia''"
  by (simp add: eq_ignore_ascii_case_def)

lemma varies_ensure: "varies_on ''X-Inertia'' (ensure_vary_x_inertia h)"
proof (cases "hm_get_all h ''vary'' = [] \<or> ''*'' \<in> set (header_tokens (hm_get_all h ''vary''))")
  case True
  then show ?thesis
    using header_tokens_join [of "[''X-Inertia'']"] token_X_Inertia vary_token
    by (auto simp: varies_on_def ensure_vary_x_inertia_def Let_def list_ex_iff)
next
  case False
  define found where "found = header_tokens (hm_get_all h ''vary'')"
  define tokens where "tokens = dedup_tokens found []"
  define tokens' where "tokens' = (if list_ex (\<lambda>t. eq_ignore_ascii_case t ''x-inertia'') tokens then tokens
    else tokens @ [''X-Inertia''])"
  have ok: "\<forall>t \<in> set tokens'. is_token t"
    using dedup_tokens_token [of found "[]"] header_tokens_token token_X_Inertia
    by (auto simp: tokens'_def tokens_def found_def)
  have mem: "\<exists>t \<in> set tokens'. eq_ignore_ascii_case t ''X-Inertia''"
    using eq_X_Inertia vary_token by (auto simp: tokens'_def list_ex_iff)
  then have "tokens' \<noteq> []"
    by auto
  have "list_all header_text (join '', '' tokens')"
    using ok by (intro join_text) (simp add: is_token_def)
  then have "ensure_vary_x_inertia h = hm_insert ''vary'' (join '', '' tokens') h"
    using False by (simp add: ensure_vary_x_inertia_def found_def [symmetric] tokens_def [symmetric] tokens'_def [symmetric]
        Let_def)
  then show ?thesis
    using header_tokens_join [OF \<open>tokens' \<noteq> []\<close> ok] mem by (auto simp: varies_on_def list_ex_iff)
qed

lemma foldl_append_headers: "foldl (\<lambda>h (k, v). hm_append k v h) h xs = h @ xs"
  by (induction xs arbitrary: h) (auto simp: hm_append_def)

lemma hm_get_all_app: "hm_get_all (g @ h) n = hm_get_all g n @ hm_get_all h n"
  by (simp add: hm_get_all_def)

lemma varies_fragment: "varies_on x (resp_headers r) \<Longrightarrow> varies_on x (resp_headers (fragment_redirect request r))"
  by (auto simp: fragment_redirect_def varies_on_def foldl_append_headers hm_get_all_app header_tokens_append list_ex_iff
      split: option.splits)

lemma varies_post: "varies_on ''X-Inertia'' (resp_headers (post_process r request))"
proof -
  have "varies_on ''X-Inertia'' (resp_headers (see_other request (empty_fallback request
      (r\<lparr>resp_headers := ensure_vary_x_inertia (resp_headers r)\<rparr>))))"
    using varies_ensure [of "resp_headers r"]
    by (auto simp: see_other_def empty_fallback_def varies_on_def split: option.splits)
  then show ?thesis
    unfolding post_process_def by (rule varies_fragment)
qed

section \<open>What the client sees\<close>

lemma see_other_status: "is_inertia request \<Longrightarrow> repeats_as_get (req_method request) \<Longrightarrow> status (see_other request r) \<noteq> 302"
  by (simp add: see_other_def)

lemma fragment_status: "status (fragment_redirect request r) = status r \<or> status (fragment_redirect request r) = 409"
  by (auto simp: fragment_redirect_def split: option.splits)

lemma fragment_location:
  assumes "is_inertia request" and "\<not> is_prefetch request" and "is_redirect (status (fragment_redirect request r))"
    and "header_str (resp_headers (fragment_redirect request r)) ''location'' = Some l"
  shows "CHR ''#'' \<notin> set l"
  using assms
  by (auto simp: fragment_redirect_def header_str_def is_redirect_def bind_eq_Some_iff to_str_def
      split: option.splits if_splits)

text \<open>
  C11.  The middleware keeps the protocol for every handler: an Inertia client never sees a bare 302 after
  \<^verbatim>\<open>PUT\<close>, \<^verbatim>\<open>PATCH\<close> or \<^verbatim>\<open>DELETE\<close>; unless it prefetches (a prefetch gets the redirect as it is), it never gets a
  redirect whose location is readable text with a fragment, which the browser would drop; and every
  response says that it varies with \<^verbatim>\<open>X-Inertia\<close>, so no cache serves a page object in place of a document.
\<close>
theorem protocol_kept:
  assumes "inertia_call to_json fuel now_ms config nonce locale inner headers http_method uri = Some resp"
    and "request = request_parse headers http_method uri"
  shows "varies_on ''X-Inertia'' (resp_headers resp) \<and>
    (is_inertia request \<and> repeats_as_get http_method \<longrightarrow> status resp \<noteq> 302) \<and>
    (is_inertia request \<and> \<not> is_prefetch request \<and> is_redirect (status resp) \<longrightarrow>
       (\<forall>l. header_str (resp_headers resp) ''location'' = Some l \<longrightarrow> CHR ''#'' \<notin> set l))"
proof (cases "version_mismatch_response config request")
  case (Some short)
  then have "resp = short"
    using assms by (simp add: inertia_call_def)
  moreover have "status short = 409 \<and> varies_on ''X-Inertia'' (resp_headers short)"
    using Some varies_ensure
    by (auto simp: version_mismatch_response_def response_def Let_def split: if_splits option.splits)
  ultimately show ?thesis
    by (simp add: is_redirect_def)
next
  case None
  then obtain r where resp: "resp = post_process r request"
    using assms by (auto simp: inertia_call_def Let_def)
  define q where "q = see_other request (empty_fallback request (r\<lparr>resp_headers := ensure_vary_x_inertia (resp_headers r)\<rparr>))"
  have q: "resp = fragment_redirect request q"
    by (simp add: resp post_process_def q_def)
  have "req_method request = http_method"
    by (simp add: assms(2) request_parse_def)
  then have "is_inertia request \<and> repeats_as_get http_method \<longrightarrow> status resp \<noteq> 302"
    using see_other_status [of request] fragment_status [of request q] unfolding q q_def by fastforce
  then show ?thesis
    using varies_post [of r request] fragment_location [of request q] by (auto simp: resp [symmetric] q [symmetric])
qed

definition sample_config :: InertiaConfig where
  "sample_config = config_versionless body_html"

definition sample_delete :: headers where
  "sample_delete = [(''x-inertia'', ''true'')]"

theorem protocol_kept_witness:
  "\<exists>resp. inertia_call (\<lambda>_. None) 1 0 sample_config None None
      (\<lambda>_. response 302 [(''location'', ''/users#new'')] []) sample_delete ''DELETE'' ''/users/1'' = Some resp \<and>
    status resp \<noteq> 302 \<and> varies_on ''X-Inertia'' (resp_headers resp)"
proof -
  let ?inner = "\<lambda>_. response 302 [(''location'', ''/users#new'')] []"
  let ?req = "request_parse sample_delete ''DELETE'' ''/users/1''"
  obtain resp where c: "inertia_call (\<lambda>_. None) 1 0 sample_config None None ?inner sample_delete ''DELETE'' ''/users/1'' = Some resp"
    by (simp add: inertia_call_def version_mismatch_response_def request_parse_def render_pending_def response_def)
  have "is_inertia ?req"
    by (simp add: request_parse_def sample_delete_def header_str_def hm_get_def to_str_def header_text_def printable_def)
  then have "varies_on ''X-Inertia'' (resp_headers resp) \<and> status resp \<noteq> 302"
    using protocol_kept [OF c refl] by (simp add: repeats_as_get_def)
  with c show ?thesis
    by blast
qed

section \<open>Escaping\<close>

text \<open>Reading the five entities back.\<close>

function html_unescape :: "string \<Rightarrow> string" where
  "html_unescape [] = []"
| "html_unescape (c # s) =
     (if starts_with ''&amp;'' (c # s) then CHR ''&'' # html_unescape (drop 4 s)
      else if starts_with ''&lt;'' (c # s) then CHR ''<'' # html_unescape (drop 3 s)
      else if starts_with ''&gt;'' (c # s) then CHR ''>'' # html_unescape (drop 3 s)
      else if starts_with ''&quot;'' (c # s) then CHR 0x22 # html_unescape (drop 5 s)
      else if starts_with ''&#x27;'' (c # s) then CHR 0x27 # html_unescape (drop 5 s)
      else c # html_unescape s)"
  by pat_completeness auto
termination
  by (relation "measure length") auto

lemma escape_concat: "escape raw = concat (map escape_char raw)"
proof (cases "list_all (\<lambda>b. b \<noteq> CHR ''&'' \<and> b \<noteq> CHR ''<'' \<and> b \<noteq> CHR ''>'' \<and> b \<noteq> CHR 0x22 \<and> b \<noteq> CHR 0x27) raw")
  case True
  then have "concat (map escape_char raw) = raw"
    by (induction raw) auto
  with True show ?thesis
    by (simp only: escape_def if_True)
next
  case False
  then show ?thesis
    by (simp only: escape_def if_False)
qed

lemma unescape_char: "html_unescape (escape_char c @ s) = c # html_unescape s"
  by (simp add: starts_with_def)

text \<open>Escaped text has no character that could end an attribute, open a tag or close one, and it reads
  back as the text it came from.\<close>

lemma escape_safe: "c \<in> set (escape raw) \<Longrightarrow> c \<noteq> CHR ''<'' \<and> c \<noteq> CHR ''>'' \<and> c \<noteq> CHR 0x22 \<and> c \<noteq> CHR 0x27"
  by (auto simp: escape_concat split: if_splits)

lemma unescape_escape: "html_unescape (escape raw) = raw"
  unfolding escape_concat by (induction raw) (simp_all add: unescape_char del: escape_char.simps html_unescape.simps(2))

text \<open>The page inside the script element cannot close it.\<close>

lemma script_body_safe:
  "c \<in> set (escape_script_body j) \<Longrightarrow> c \<noteq> CHR ''<'' \<and> c \<noteq> CHR ''>'' \<and> c \<noteq> CHR ''&''"
  by (auto simp: escape_script_body_def list_all_iff split: if_splits)

text \<open>A deferred render carries one value per header name: the second cookie a handler set is lost.\<close>

lemma second_cookie_lost:
  "carry_headers [(''set-cookie'', a), (''set-cookie'', b)] [] = [(''set-cookie'', a)]"
  by (simp add: hm_contains_def hm_append_def)

end
