(* ===== verification/Csrf.thy ===== *)
theory Csrf
  imports Header_Map Hex
begin

text \<open>
  Double-submit protection against forged requests, \<^verbatim>\<open>src/auth/csrf.rs\<close>.  Reading and printing cookies
  (package \<^verbatim>\<open>cookie\<close>) are the parameters \<open>parse_cookie\<close> and \<open>show_cookie\<close>; the random bytes of a token
  are an argument, \<open>None\<close> where the operating system has none.
\<close>

section \<open>Configuration\<close>

datatype SameSite = Strict | Lax | SameSiteNone

datatype CsrfError = MissingHeader | TokenMismatch | MissingCookie | MalformedCookie

fun show_csrf_error :: "CsrfError \<Rightarrow> string" where
  "show_csrf_error MissingHeader = ''missing CSRF header token''"
| "show_csrf_error TokenMismatch = ''CSRF token mismatch''"
| "show_csrf_error MissingCookie = ''missing CSRF cookie''"
| "show_csrf_error MalformedCookie = ''malformed CSRF cookie''"

datatype CsrfConfigError = InsecureHostPrefixedCsrfCookie string

record CsrfConfig =
  csrf_cookie_name :: string
  csrf_header_name :: string
  csrf_secure :: bool
  csrf_same_site :: SameSite

definition csrf_new :: CsrfConfig where
  "csrf_new = \<lparr>csrf_cookie_name = ''__Host-csrf'', csrf_header_name = ''x-csrf-token'', csrf_secure = True,
     csrf_same_site = Strict\<rparr>"

definition csrf_dev :: CsrfConfig where
  "csrf_dev = \<lparr>csrf_cookie_name = ''arcature-csrf'', csrf_header_name = ''x-csrf-token'', csrf_secure = False,
     csrf_same_site = Strict\<rparr>"

definition csrf_inertia :: CsrfConfig where
  "csrf_inertia = \<lparr>csrf_cookie_name = ''XSRF-TOKEN'', csrf_header_name = ''x-xsrf-token'', csrf_secure = True,
     csrf_same_site = Lax\<rparr>"

definition csrf_with_cookie_name :: "CsrfConfig \<Rightarrow> string \<Rightarrow> CsrfConfig" where
  "csrf_with_cookie_name self name =
     (if starts_with ''__Host-'' name then self\<lparr>csrf_secure := True\<rparr> else self)\<lparr>csrf_cookie_name := name\<rparr>"

definition csrf_with_header_name :: "CsrfConfig \<Rightarrow> string \<Rightarrow> CsrfConfig" where
  "csrf_with_header_name self name = self\<lparr>csrf_header_name := name\<rparr>"

definition csrf_with_same_site :: "CsrfConfig \<Rightarrow> SameSite \<Rightarrow> CsrfConfig" where
  "csrf_with_same_site self same_site = self\<lparr>csrf_same_site := same_site\<rparr>"

definition csrf_with_secure :: "CsrfConfig \<Rightarrow> bool \<Rightarrow> (CsrfConfigError, CsrfConfig) result" where
  "csrf_with_secure self secure =
     (if \<not> secure \<and> starts_with ''__Host-'' (csrf_cookie_name self)
      then Err (InsecureHostPrefixedCsrfCookie (csrf_cookie_name self))
      else Ok (self\<lparr>csrf_secure := secure\<rparr>))"

section \<open>Tokens\<close>

definition CSRF_TOKEN_BYTES :: nat where
  "CSRF_TOKEN_BYTES = 32"

definition csrf_generate :: "bytes option \<Rightarrow> (CsrfError, string) result" where
  "csrf_generate entropy = (case entropy of None \<Rightarrow> Err MalformedCookie | Some b \<Rightarrow> Ok (hex_encode b))"

definition is_ascii_hexdigit :: "char \<Rightarrow> bool" where
  "is_ascii_hexdigit c =
     (let n = of_char c :: nat in 48 \<le> n \<and> n \<le> 57 \<or> 65 \<le> n \<and> n \<le> 70 \<or> 97 \<le> n \<and> n \<le> 102)"

definition csrf_parse :: "string \<Rightarrow> (CsrfError, string) result" where
  "csrf_parse v =
     (if length v \<noteq> CSRF_TOKEN_BYTES * 2 \<or> \<not> list_all is_ascii_hexdigit v then Err MalformedCookie else Ok v)"

section \<open>The middleware\<close>

definition is_ascii_whitespace :: "char \<Rightarrow> bool" where
  "is_ascii_whitespace c = (of_char c \<in> {9 :: nat, 10, 12, 13, 32})"

definition is_bearer_request :: "headers \<Rightarrow> bool" where
  "is_bearer_request headers =
     (case hm_get headers ''authorization'' of
        None \<Rightarrow> False
      | Some v \<Rightarrow> eq_ignore_ascii_case (takeWhile (\<lambda>c. \<not> is_ascii_whitespace c) v) ''bearer'')"

fun find_cookie :: "(string \<Rightarrow> (string \<times> string) option) \<Rightarrow> string \<Rightarrow> string list \<Rightarrow> string option" where
  "find_cookie parse_cookie name [] = None"
| "find_cookie parse_cookie name (cookie_str # rest) =
     (let trimmed = trim cookie_str
      in if trimmed = [] then find_cookie parse_cookie name rest
         else case parse_cookie trimmed of
                None \<Rightarrow> None
              | Some (n, v) \<Rightarrow>
                  if n = name then (case csrf_parse v of Ok t \<Rightarrow> Some t | Err _ \<Rightarrow> None)
                  else find_cookie parse_cookie name rest)"

definition extract_csrf_cookie :: "(string \<Rightarrow> (string \<times> string) option) \<Rightarrow> headers \<Rightarrow> string \<Rightarrow> string option" where
  "extract_csrf_cookie parse_cookie headers cookie_name =
     Option.bind (header_str headers ''cookie'') (\<lambda>raw. find_cookie parse_cookie cookie_name (split CHR '';'' raw))"

text \<open>\<^verbatim>\<open>HeaderMap::get\<close> lowers the case of the name it is given; here the name is in lower case already.\<close>

definition extract_csrf_header :: "headers \<Rightarrow> string \<Rightarrow> string option" where
  "extract_csrf_header headers header_name =
     Option.bind (header_str headers header_name) (\<lambda>raw. case csrf_parse raw of Ok t \<Rightarrow> Some t | Err _ \<Rightarrow> None)"

record 'b CsrfResponse =
  csrf_status :: nat
  csrf_headers :: headers
  csrf_body :: 'b

definition inject_csrf_cookie :: "(CsrfConfig \<Rightarrow> string \<Rightarrow> string) \<Rightarrow> bytes option \<Rightarrow> CsrfConfig \<Rightarrow> 'b CsrfResponse \<Rightarrow>
    'b CsrfResponse" where
  "inject_csrf_cookie show_cookie entropy config response =
     (case csrf_generate entropy of
        Err _ \<Rightarrow> response
      | Ok token \<Rightarrow>
          (case to_str (show_cookie config token) of
             Some v \<Rightarrow> response\<lparr>csrf_headers := hm_append ''set-cookie'' v (csrf_headers response)\<rparr>
           | None \<Rightarrow> response))"

definition is_safe_method :: "string \<Rightarrow> bool" where
  "is_safe_method m = (m = ''GET'' \<or> m = ''HEAD'' \<or> m = ''OPTIONS'' \<or> m = ''TRACE'')"

text \<open>One request: \<open>Inl\<close> is the rejection with status 403, before the inner service sees anything.\<close>

definition csrf_check :: "(string \<Rightarrow> (string \<times> string) option) \<Rightarrow> CsrfConfig \<Rightarrow> string \<Rightarrow> headers \<Rightarrow>
    (CsrfError, unit) result" where
  "csrf_check parse_cookie config m headers =
     (if \<not> is_safe_method m \<and> \<not> is_bearer_request headers then
        (case extract_csrf_cookie parse_cookie headers (csrf_cookie_name config) of
           None \<Rightarrow> Err MissingCookie
         | Some cookie_token \<Rightarrow>
             (case extract_csrf_header headers (csrf_header_name config) of
                None \<Rightarrow> Err MissingHeader
              | Some header_token \<Rightarrow> if cookie_token \<noteq> header_token then Err TokenMismatch else Ok ()))
      else Ok ())"

definition csrf_call :: "(string \<Rightarrow> (string \<times> string) option) \<Rightarrow> (CsrfConfig \<Rightarrow> string \<Rightarrow> string) \<Rightarrow> bytes option \<Rightarrow>
    CsrfConfig \<Rightarrow> (string \<Rightarrow> headers \<Rightarrow> 'b CsrfResponse) \<Rightarrow> string \<Rightarrow> headers \<Rightarrow> (CsrfError, 'b CsrfResponse) result" where
  "csrf_call parse_cookie show_cookie entropy config inner m headers =
     rbind (csrf_check parse_cookie config m headers) (\<lambda>_.
       let inject = (extract_csrf_cookie parse_cookie headers (csrf_cookie_name config) = None \<and>
             \<not> is_bearer_request headers)
       in Ok (if inject then inject_csrf_cookie show_cookie entropy config (inner m headers) else inner m headers))"

section \<open>What protects\<close>

lemma hexdigit_HEX: "list_all is_ascii_hexdigit HEX"
  by code_simp

lemma csrf_parse_generated: "length b = 32 \<Longrightarrow> csrf_parse (hex_encode b) = Ok (hex_encode b)"
  using set_hex_encode [of _ b] hexdigit_HEX by (auto simp: csrf_parse_def CSRF_TOKEN_BYTES_def list_all_iff)

lemma csrf_parse_Ok: "csrf_parse v = Ok t \<longleftrightarrow> t = v \<and> length v = 64 \<and> list_all is_ascii_hexdigit v"
  by (auto simp: csrf_parse_def CSRF_TOKEN_BYTES_def)

lemma csrf_parse_option: "(case csrf_parse v of Ok t \<Rightarrow> Some t | Err _ \<Rightarrow> None) =
    (if length v = 64 \<and> list_all is_ascii_hexdigit v then Some v else None)"
  by (simp add: csrf_parse_def CSRF_TOKEN_BYTES_def)

text \<open>The cookies of a request, as the program reads them: up to the first that does not parse.\<close>

fun read_cookies :: "(string \<Rightarrow> (string \<times> string) option) \<Rightarrow> string list \<Rightarrow> (string \<times> string) list" where
  "read_cookies parse_cookie [] = []"
| "read_cookies parse_cookie (s # rest) =
     (if trim s = [] then read_cookies parse_cookie rest
      else case parse_cookie (trim s) of None \<Rightarrow> [] | Some c \<Rightarrow> c # read_cookies parse_cookie rest)"

lemma find_cookie_first:
  "find_cookie parse_cookie name ss =
     Option.bind (map_of (read_cookies parse_cookie ss) name) (\<lambda>v. case csrf_parse v of Ok t \<Rightarrow> Some t | Err _ \<Rightarrow> None)"
  by (induction parse_cookie name ss rule: find_cookie.induct) (auto simp: Let_def split: option.splits)

text \<open>
  C21.  A request that changes state reaches the application only with proof that it comes from a page
  that can read the cookie: unless it carries a bearer token, its first cookie of the configured name
  is a token of 64 hexadecimal digits and the configured header repeats it, digit for digit.
\<close>
theorem unsafe_request_is_proved:
  assumes "csrf_call parse_cookie show_cookie entropy config inner m headers = Ok resp"
    and "\<not> is_safe_method m" and "\<not> is_bearer_request headers"
  shows "\<exists>raw token. header_str headers ''cookie'' = Some raw \<and>
    map_of (read_cookies parse_cookie (split CHR '';'' raw)) (csrf_cookie_name config) = Some token \<and>
    header_str headers (csrf_header_name config) = Some token \<and> length token = 64 \<and> list_all is_ascii_hexdigit token \<and>
    resp = inner m headers"
proof -
  have "csrf_check parse_cookie config m headers = Ok ()"
    using assms(1) by (auto simp: csrf_call_def rbind_eq_Ok_iff)
  then obtain token where cookie: "extract_csrf_cookie parse_cookie headers (csrf_cookie_name config) = Some token"
    and header: "extract_csrf_header headers (csrf_header_name config) = Some token"
    using assms(2,3) by (auto simp: csrf_check_def split: option.splits if_splits)
  then have "resp = inner m headers"
    using assms(1) by (auto simp: csrf_call_def rbind_eq_Ok_iff)
  then show ?thesis
    using cookie header
    by (auto simp: extract_csrf_cookie_def extract_csrf_header_def bind_eq_Some_iff find_cookie_first
        csrf_parse_option split: if_splits)
qed

definition sample_token :: string where
  "sample_token = replicate 64 CHR ''0''"

definition sample_headers :: headers where
  "sample_headers = [(''cookie'', ''c''), (''x-csrf-token'', sample_token)]"

definition sample_cookies :: "string \<Rightarrow> (string \<times> string) option" where
  "sample_cookies s = (if s = ''c'' then Some (''__Host-csrf'', sample_token) else None)"

lemma sample_post: "csrf_call sample_cookies (\<lambda>_ _. []) None csrf_new (\<lambda>_ _. \<lparr>csrf_status = 200, csrf_headers = [], csrf_body = ()\<rparr>)
    ''POST'' sample_headers = Ok \<lparr>csrf_status = 200, csrf_headers = [], csrf_body = ()\<rparr>"
proof -
  have tok: "csrf_parse sample_token = Ok sample_token" "to_str sample_token = Some sample_token"
    by (simp_all add: csrf_parse_Ok sample_token_def is_ascii_hexdigit_def to_str_def header_text_def printable_def list_all_iff)
  have "trim ''c'' = ''c''"
    by (rule trim_graphic) (simp add: graphic_def)
  moreover have "to_str ''c'' = Some ''c''"
    by (simp add: to_str_def header_text_def printable_def)
  ultimately show ?thesis
    using tok by (simp add: csrf_call_def csrf_check_def is_safe_method_def is_bearer_request_def extract_csrf_cookie_def
        extract_csrf_header_def header_str_def hm_get_def sample_headers_def sample_cookies_def csrf_new_def)
qed

theorem unsafe_request_is_proved_witness:
  "\<exists>token. header_str sample_headers ''x-csrf-token'' = Some token \<and> length token = 64"
  using unsafe_request_is_proved [OF sample_post]
  by (auto simp: is_safe_method_def is_bearer_request_def sample_headers_def hm_get_def csrf_new_def)

text \<open>Every configuration the builders give keeps the promise of its cookie's name.\<close>

definition csrf_config_ok :: "CsrfConfig \<Rightarrow> bool" where
  "csrf_config_ok c = (starts_with ''__Host-'' (csrf_cookie_name c) \<longrightarrow> csrf_secure c)"

lemma csrf_config_built:
  "csrf_config_ok csrf_new" "csrf_config_ok csrf_dev" "csrf_config_ok csrf_inertia"
  "csrf_config_ok c \<Longrightarrow> csrf_config_ok (csrf_with_cookie_name c n)"
  "csrf_config_ok c \<Longrightarrow> csrf_with_secure c s = Ok c' \<Longrightarrow> csrf_config_ok c'"
  by (auto simp: csrf_config_ok_def csrf_new_def csrf_dev_def csrf_inertia_def csrf_with_cookie_name_def
      csrf_with_secure_def starts_with_def split: if_splits)

text \<open>One cookie that does not parse hides every cookie after it, the token included.\<close>

lemma broken_cookie_hides_token:
  "parse_cookie (trim s) = None \<Longrightarrow> trim s \<noteq> [] \<Longrightarrow> find_cookie parse_cookie name (s # rest) = None"
  by (simp add: Let_def)

end
