(* ===== verification/Session_Store.thy ===== *)
theory Session_Store
  imports Credentials
begin

text \<open>
  Sessions in the application's database: \<^verbatim>\<open>src/auth/session_store/store.rs\<close>, with the statements of
  \<^verbatim>\<open>src/auth/session_store/dialect/sqlite.rs\<close> and the times of \<^verbatim>\<open>src/auth/session_store/dialect/mod.rs\<close>.

  The table is keyed by the digest of the session id.  SHA-256 is the argument \<open>sha\<close>; the JSON column
  is written and read by the fields of \<open>column\<close>, and the same record has the range of the \<^verbatim>\<open>time\<close>
  package in nanoseconds.  Each statement takes a flag that says whether the database answered it.
  The database's clock is \<open>now\<close>, in milliseconds.

  \<open>store_step\<close> runs one call of the session layer; \<open>spec_step\<close> is the contract, over a plain map from
  ids to sessions that knows neither digests nor sweeps.
\<close>

section \<open>The code\<close>

type_synonym Id = "128 word"

record 'd Record =
  rec_id :: Id
  rec_data :: 'd
  expiry_date :: int

datatype SessionStoreError = Database | Decode | IdCollision nat | Expiry

datatype tower_error = TowerDecode SessionStoreError | TowerBackend SessionStoreError

fun tower_error_of :: "SessionStoreError \<Rightarrow> tower_error" where
  "tower_error_of Decode = TowerDecode Decode"
| "tower_error_of other = TowerBackend other"

record ('d, 'c) column =
  to_column :: "'d \<Rightarrow> 'c"
  of_column :: "'c \<Rightarrow> 'd option"
  time_min :: int
  time_max :: int

record 'c SessionRow =
  row_data :: 'c
  row_expires_at :: int

type_synonym 'c sessions = "(bytes, 'c SessionRow) table"

definition CREATE_ATTEMPTS :: nat where
  "CREATE_ATTEMPTS = 8"

text \<open>Rust's integer division truncates toward zero.\<close>

definition nanos_to_millis :: "int \<Rightarrow> int" where
  "nanos_to_millis at = (if at < 0 then - ((- at) div 1000000) else at div 1000000)"

definition session_stored_time :: "int \<Rightarrow> (SessionStoreError, int) result" where
  "session_stored_time at =
     (let ms = nanos_to_millis at in if - (2 ^ 63) \<le> ms \<and> ms < 2 ^ 63 then Ok ms else Err Expiry)"

definition session_restored_time :: "('d, 'c) column \<Rightarrow> int \<Rightarrow> (SessionStoreError, int) result" where
  "session_restored_time col stored =
     (let at = stored * 1000000 in if time_min col \<le> at \<and> at \<le> time_max col then Ok at else Err Expiry)"

definition to_le_bytes :: "Id \<Rightarrow> bytes" where
  "to_le_bytes i = map (\<lambda>n. word_of_nat (unat i div 256 ^ n)) [0..<16]"

definition digest_of :: "(bytes \<Rightarrow> bytes) \<Rightarrow> Id \<Rightarrow> bytes" where
  "digest_of sha i = sha (to_le_bytes i)"

text \<open>The two write statements: rows affected and the table after.\<close>

datatype statement = INSERT_NEW | UPSERT

definition execute :: "statement \<Rightarrow> bytes \<Rightarrow> 'c SessionRow \<Rightarrow> 'c sessions \<Rightarrow> nat \<times> 'c sessions" where
  "execute st key row t = (case st of INSERT_NEW \<Rightarrow> insert_or_ignore key row t | UPSERT \<Rightarrow> (1, tbl_put key row t))"

definition session_write :: "(bytes \<Rightarrow> bytes) \<Rightarrow> ('d, 'c) column \<Rightarrow> bool \<Rightarrow> statement \<Rightarrow> 'd Record \<Rightarrow> 'c sessions \<Rightarrow>
    (SessionStoreError, bool) result \<times> 'c sessions" where
  "session_write sha col up st record t =
     (case session_stored_time (expiry_date record) of
        Err e \<Rightarrow> (Err e, t)
      | Ok expires \<Rightarrow>
          if \<not> up then (Err Database, t)
          else (case execute st (digest_of sha (rec_id record))
                  \<lparr>row_data = to_column col (rec_data record), row_expires_at = expires\<rparr> t of
                  (n, t') \<Rightarrow> (Ok (0 < n), t')))"

definition session_read :: "(bytes \<Rightarrow> bytes) \<Rightarrow> ('d, 'c) column \<Rightarrow> bool \<Rightarrow> int \<Rightarrow> Id \<Rightarrow> 'c sessions \<Rightarrow>
    (SessionStoreError, 'd Record option) result" where
  "session_read sha col up now i t =
     (if \<not> up then Err Database
      else case live_get row_expires_at now t (digest_of sha i) of
             None \<Rightarrow> Ok None
           | Some row \<Rightarrow>
               rbind (ok_or (of_column col (row_data row)) Decode) (\<lambda>data.
               rbind (session_restored_time col (row_expires_at row)) (\<lambda>at.
                 Ok (Some \<lparr>rec_id = i, rec_data = data, expiry_date = at\<rparr>))))"

text \<open>\<open>fresh i\<close> is the id drawn after attempt \<open>i\<close>.\<close>

fun create_loop :: "(bytes \<Rightarrow> bytes) \<Rightarrow> ('d, 'c) column \<Rightarrow> (nat \<Rightarrow> bool) \<Rightarrow> (nat \<Rightarrow> Id) \<Rightarrow> nat \<Rightarrow> nat \<Rightarrow> 'd Record \<Rightarrow> 'c sessions \<Rightarrow>
    (SessionStoreError, unit) result \<times> 'd Record \<times> 'c sessions" where
  "create_loop sha col up fresh 0 i record t = (Err (IdCollision CREATE_ATTEMPTS), record, t)"
| "create_loop sha col up fresh (Suc n) i record t =
     (case session_write sha col (up i) INSERT_NEW record t of
        (Err e, t') \<Rightarrow> (Err e, record, t')
      | (Ok True, t') \<Rightarrow> (Ok (), record, t')
      | (Ok False, t') \<Rightarrow> create_loop sha col up fresh n (Suc i) (record\<lparr>rec_id := fresh i\<rparr>) t')"

definition session_create :: "(bytes \<Rightarrow> bytes) \<Rightarrow> ('d, 'c) column \<Rightarrow> (nat \<Rightarrow> bool) \<Rightarrow> (nat \<Rightarrow> Id) \<Rightarrow> 'd Record \<Rightarrow> 'c sessions \<Rightarrow>
    (tower_error, unit) result \<times> 'd Record \<times> 'c sessions" where
  "session_create sha col up fresh record t =
     (case create_loop sha col up fresh CREATE_ATTEMPTS 0 record t of
        (Err e, r, t') \<Rightarrow> (Err (tower_error_of e), r, t')
      | (Ok u, r, t') \<Rightarrow> (Ok u, r, t'))"

definition session_save :: "(bytes \<Rightarrow> bytes) \<Rightarrow> ('d, 'c) column \<Rightarrow> bool \<Rightarrow> 'd Record \<Rightarrow> 'c sessions \<Rightarrow>
    (tower_error, unit) result \<times> 'c sessions" where
  "session_save sha col up record t =
     sbind (session_write sha col up UPSERT record t) (\<lambda>_ t'. (Ok (), t')) tower_error_of"

definition session_load :: "(bytes \<Rightarrow> bytes) \<Rightarrow> ('d, 'c) column \<Rightarrow> bool \<Rightarrow> int \<Rightarrow> Id \<Rightarrow> 'c sessions \<Rightarrow>
    (tower_error, 'd Record option) result" where
  "session_load sha col up now i t =
     (case session_read sha col up now i t of Err e \<Rightarrow> Err (tower_error_of e) | Ok r \<Rightarrow> Ok r)"

definition session_delete :: "(bytes \<Rightarrow> bytes) \<Rightarrow> bool \<Rightarrow> Id \<Rightarrow> 'c sessions \<Rightarrow> (tower_error, unit) result \<times> 'c sessions" where
  "session_delete sha up i t =
     (if \<not> up then (Err (tower_error_of Database), t) else (Ok (), snd (delete_key (digest_of sha i) t)))"

definition session_sweep_expired :: "bool \<Rightarrow> int \<Rightarrow> 'c sessions \<Rightarrow> (SessionStoreError, nat) result \<times> 'c sessions" where
  "session_sweep_expired up now t =
     (if \<not> up then (Err Database, t)
      else case delete_expired row_expires_at now t of (n, t') \<Rightarrow> (Ok n, t'))"

section \<open>One call of the session layer\<close>

datatype 'd call =
    Create "'d Record" "nat \<Rightarrow> Id" "nat \<Rightarrow> bool"
  | Save "'d Record" bool
  | Load Id bool
  | Delete Id bool
  | Sweep bool

datatype 'd reply =
    Created Id
  | Done
  | Loaded "'d Record option"
  | Failed tower_error

fun store_step :: "(bytes \<Rightarrow> bytes) \<Rightarrow> ('d, 'c) column \<Rightarrow> int \<Rightarrow> 'd call \<Rightarrow> 'c sessions \<Rightarrow> 'd reply \<times> 'c sessions" where
  "store_step sha col now (Create record fresh up) t =
     (case session_create sha col up fresh record t of
        (Err e, _, t') \<Rightarrow> (Failed e, t') | (Ok _, r, t') \<Rightarrow> (Created (rec_id r), t'))"
| "store_step sha col now (Save record up) t =
     (case session_save sha col up record t of (Err e, t') \<Rightarrow> (Failed e, t') | (Ok _, t') \<Rightarrow> (Done, t'))"
| "store_step sha col now (Load i up) t =
     ((case session_load sha col up now i t of Err e \<Rightarrow> Failed e | Ok r \<Rightarrow> Loaded r), t)"
| "store_step sha col now (Delete i up) t =
     (case session_delete sha up i t of (Err e, t') \<Rightarrow> (Failed e, t') | (Ok _, t') \<Rightarrow> (Done, t'))"
| "store_step sha col now (Sweep up) t =
     (case session_sweep_expired up now t of
        (Err e, t') \<Rightarrow> (Failed (tower_error_of e), t') | (Ok _, t') \<Rightarrow> (Done, t'))"

fun store_run :: "(bytes \<Rightarrow> bytes) \<Rightarrow> ('d, 'c) column \<Rightarrow> (int \<times> 'd call) list \<Rightarrow> 'c sessions \<Rightarrow> (int \<times> 'd call \<times> 'd reply) list" where
  "store_run sha col [] t = []"
| "store_run sha col ((now, c) # rest) t =
     (case store_step sha col now c t of (r, t') \<Rightarrow> (now, c, r) # store_run sha col rest t')"

section \<open>The contract\<close>

text \<open>
  A session is its data and the millisecond it expires at.  The contract says for each call and reply
  what the sessions are afterwards, and \<open>None\<close> where the store must not reply so.  A failure must have
  its cause in the call, and changes nothing.
\<close>

type_synonym 'd spec_state = "Id \<Rightarrow> ('d \<times> int) option"

definition alive :: "'d spec_state \<Rightarrow> int \<Rightarrow> Id \<Rightarrow> ('d \<times> int) option" where
  "alive A now i = (case A i of Some (d, e) \<Rightarrow> if now < e then Some (d, e) else None | None \<Rightarrow> None)"

definition store_record :: "'d Record \<Rightarrow> Id \<Rightarrow> 'd spec_state \<Rightarrow> 'd spec_state" where
  "store_record r i A = A(i \<mapsto> (rec_data r, nanos_to_millis (expiry_date r)))"

definition given_back :: "Id \<Rightarrow> 'd \<times> int \<Rightarrow> 'd Record" where
  "given_back i de = \<lparr>rec_id = i, rec_data = fst de, expiry_date = snd de * 1000000\<rparr>"

definition down :: tower_error where
  "down = TowerBackend Database"

fun spec_step :: "int \<Rightarrow> 'd call \<Rightarrow> 'd reply \<Rightarrow> 'd spec_state \<Rightarrow> 'd spec_state option" where
  "spec_step now (Create r fresh up) (Created i) A =
     (if alive A now i = None \<and> (i = rec_id r \<or> (\<exists>n < CREATE_ATTEMPTS. i = fresh n)) then Some (store_record r i A) else None)"
| "spec_step now (Create r fresh up) (Failed e) A =
     (if e = down \<and> (\<exists>n < CREATE_ATTEMPTS. \<not> up n) \<or> e = TowerBackend (IdCollision CREATE_ATTEMPTS) \<and>
        A (rec_id r) \<noteq> None \<and> (\<forall>n < CREATE_ATTEMPTS - 1. A (fresh n) \<noteq> None) then Some A else None)"
| "spec_step now (Save r up) Done A = (if up then Some (store_record r (rec_id r) A) else None)"
| "spec_step now (Save r up) (Failed e) A = (if e = down \<and> \<not> up then Some A else None)"
| "spec_step now (Load i up) (Loaded r) A = (if up \<and> r = map_option (given_back i) (alive A now i) then Some A else None)"
| "spec_step now (Load i up) (Failed e) A = (if e = down \<and> \<not> up then Some A else None)"
| "spec_step now (Delete i up) Done A = (if up then Some (A(i := None)) else None)"
| "spec_step now (Delete i up) (Failed e) A = (if e = down \<and> \<not> up then Some A else None)"
| "spec_step now (Sweep up) Done A = (if up then Some A else None)"
| "spec_step now (Sweep up) (Failed e) A = (if e = down \<and> \<not> up then Some A else None)"
| "spec_step now c r A = None"

fun spec_accepts :: "(int \<times> 'd call \<times> 'd reply) list \<Rightarrow> 'd spec_state \<Rightarrow> bool" where
  "spec_accepts [] A = True"
| "spec_accepts ((now, c, r) # rest) A = (case spec_step now c r A of None \<Rightarrow> False | Some A' \<Rightarrow> spec_accepts rest A')"

text \<open>What the theorem asks of the library code and of the calls.\<close>

definition column_ok :: "('d, 'c) column \<Rightarrow> bool" where
  "column_ok col \<longleftrightarrow> (\<forall>d. of_column col (to_column col d) = Some d) \<and> time_min col \<le> 0 \<and> 0 \<le> time_max col \<and>
     - (2 ^ 63) \<le> time_min col div 1000000 \<and> time_max col div 1000000 < 2 ^ 63"

fun call_ok :: "('d, 'c) column \<Rightarrow> 'd call \<Rightarrow> bool" where
  "call_ok col (Create r fresh up) = (time_min col \<le> expiry_date r \<and> expiry_date r \<le> time_max col)"
| "call_ok col (Save r up) = (time_min col \<le> expiry_date r \<and> expiry_date r \<le> time_max col)"
| "call_ok col _ = True"

text \<open>
  The ids a call may look at.  What is asked of SHA-256 is only that the ids a run looks at have
  different digests; of the database's clock, that no call reads it behind an earlier sweep.
\<close>

fun ids_of :: "'d call \<Rightarrow> Id list" where
  "ids_of (Create r fresh up) = rec_id r # map fresh [0..<CREATE_ATTEMPTS]"
| "ids_of (Save r up) = [rec_id r]"
| "ids_of (Load i up) = [i]"
| "ids_of (Delete i up) = [i]"
| "ids_of (Sweep up) = []"

definition run_ids :: "(int \<times> 'd call) list \<Rightarrow> Id list" where
  "run_ids calls = concat (map (ids_of \<circ> snd) calls)"

definition no_collision :: "(bytes \<Rightarrow> bytes) \<Rightarrow> (int \<times> 'd call) list \<Rightarrow> bool" where
  "no_collision sha calls \<longleftrightarrow> (\<forall>i \<in> set (run_ids calls). \<forall>j \<in> set (run_ids calls). digest_of sha i = digest_of sha j \<longrightarrow> i = j)"

fun is_sweep :: "'d call \<Rightarrow> bool" where
  "is_sweep (Sweep up) = True"
| "is_sweep _ = False"

fun never_behind_sweep :: "(int \<times> 'd call) list \<Rightarrow> bool" where
  "never_behind_sweep [] = True"
| "never_behind_sweep ((now, c) # rest) =
     ((is_sweep c \<longrightarrow> list_all (\<lambda>(m, _). now \<le> m) rest) \<and> never_behind_sweep rest)"

section \<open>Ids and times\<close>

lemma le_bytes_value: "n < 256 ^ k \<Longrightarrow>
    n = (\<Sum>j<k. unat (word_of_nat (n div 256 ^ j) :: u8) * 256 ^ j)"
proof (induction k arbitrary: n)
  case (Suc k)
  have "n div 256 < 256 ^ k"
    using Suc.prems by (simp add: less_mult_imp_div_less mult.commute)
  note rest = Suc.IH [OF this]
  have "n div 256 * 256 = (\<Sum>j<k. unat (word_of_nat (n div 256 ^ Suc j) :: u8) * 256 ^ Suc j)"
    by (subst (1) rest) (simp add: sum_distrib_left div_mult2_eq ac_simps)
  moreover have "n = n div 256 * 256 + n mod 256"
    by simp
  ultimately show ?case
    by (simp only: sum.lessThan_Suc_shift u8_digit power_0 div_by_1)
qed simp

lemma to_le_bytes_inj: "to_le_bytes i = to_le_bytes j \<longleftrightarrow> i = j"
proof
  assume eq: "to_le_bytes i = to_le_bytes j"
  have digit: "(word_of_nat (unat i div 256 ^ n) :: u8) = word_of_nat (unat j div 256 ^ n)" if "n < 16" for n
  proof -
    have "to_le_bytes i ! n = to_le_bytes j ! n"
      using eq by simp
    then show ?thesis
      using that by (simp add: to_le_bytes_def)
  qed
  have size: "unat w < 256 ^ 16" for w :: Id
    using unsigned_less [of w] by simp
  have "unat i = unat j"
    by (subst (1 2) le_bytes_value [OF size]) (rule sum.cong [OF refl], simp add: digit)
  then show "i = j"
    by (rule unsigned_word_eqI)
qed simp

lemma nanos_to_millis_bounds:
  assumes "lo \<le> at" "at \<le> hi" "lo \<le> 0" "0 \<le> hi"
  shows "lo \<le> nanos_to_millis at * 1000000" "nanos_to_millis at * 1000000 \<le> hi"
proof -
  have "0 \<le> n \<Longrightarrow> 0 \<le> n div 1000000 * 1000000 \<and> n div 1000000 * 1000000 \<le> n" for n :: int
    by (simp add: pos_imp_zdiv_nonneg_iff times_div_less_eq_dividend mult.commute)
  note d = this [of at] this [of "- at"]
  show "lo \<le> nanos_to_millis at * 1000000" "nanos_to_millis at * 1000000 \<le> hi"
    using d assms by (cases "at < 0"; simp add: nanos_to_millis_def; linarith)+
qed

lemma times_ok:
  assumes "column_ok col" "time_min col \<le> at" "at \<le> time_max col"
  shows "session_stored_time at = Ok (nanos_to_millis at)"
    and "session_restored_time col (nanos_to_millis at) = Ok (nanos_to_millis at * 1000000)"
proof -
  let ?m = "nanos_to_millis at"
  have b: "time_min col \<le> ?m * 1000000" "?m * 1000000 \<le> time_max col"
    using nanos_to_millis_bounds [OF assms(2,3)] assms(1) by (auto simp: column_ok_def)
  then have "time_min col div 1000000 \<le> ?m" "?m \<le> time_max col div 1000000"
    using zdiv_mono1 [OF b(1), of 1000000] zdiv_mono1 [OF b(2), of 1000000] by simp_all
  with assms(1) show "session_stored_time at = Ok ?m"
    by (simp add: session_stored_time_def column_ok_def Let_def)
  from b show "session_restored_time col ?m = Ok (?m * 1000000)"
    by (simp add: session_restored_time_def Let_def)
qed

section \<open>The simulation\<close>

text \<open>
  The table simulates the sessions at every moment from \<open>now\<close> on: a row that is alive is the session
  of the id whose digest keys it, and every row was written by this store.
\<close>

definition row_of :: "('d, 'c) column \<Rightarrow> 'd \<times> int \<Rightarrow> 'c SessionRow" where
  "row_of col de = \<lparr>row_data = to_column col (fst de), row_expires_at = snd de\<rparr>"

definition representable :: "('d, 'c) column \<Rightarrow> int \<Rightarrow> bool" where
  "representable col e \<longleftrightarrow> session_restored_time col e = Ok (e * 1000000)"

definition simulates :: "(bytes \<Rightarrow> bytes) \<Rightarrow> ('d, 'c) column \<Rightarrow> Id set \<Rightarrow> int \<Rightarrow> 'c sessions \<Rightarrow> 'd spec_state \<Rightarrow> bool" where
  "simulates sha col I start t A \<longleftrightarrow> tbl_wf t \<and> (\<forall>i d e. A i = Some (d, e) \<longrightarrow> representable col e) \<and>
     (\<forall>i \<in> I. tbl_get t (digest_of sha i) \<noteq> None \<longrightarrow> A i \<noteq> None) \<and>
     (\<forall>m \<ge> start. \<forall>i \<in> I. live_get row_expires_at m t (digest_of sha i) = map_option (row_of col) (alive A m i))"

lemma simulates_empty: "simulates sha col I start tbl_empty Map.empty"
  by (simp add: simulates_def live_get_def alive_def table_simps)

lemma simulates_live: "simulates sha col I start t A \<Longrightarrow> start \<le> m \<Longrightarrow> i \<in> I \<Longrightarrow>
    live_get row_expires_at m t (digest_of sha i) = map_option (row_of col) (alive A m i)"
  by (simp add: simulates_def)

lemma simulates_put:
  assumes "simulates sha col I start t A" "inj_on (digest_of sha) I" "i \<in> I"
    and "column_ok col" "time_min col \<le> expiry_date r" "expiry_date r \<le> time_max col"
  shows "simulates sha col I start (tbl_put (digest_of sha i) (row_of col (rec_data r, nanos_to_millis (expiry_date r))) t) (store_record r i A)"
proof -
  have "digest_of sha j = digest_of sha i \<longleftrightarrow> j = i" if "j \<in> I" for j
    using assms(2,3) that by (simp add: inj_on_eq_iff)
  then show ?thesis
    using assms(1) times_ok(2) [OF assms(4-6)]
    by (auto simp: simulates_def store_record_def live_get_put tbl.get_put alive_def row_of_def representable_def)
qed

lemma simulates_delete:
  assumes "simulates sha col I start t A" "inj_on (digest_of sha) I" "i \<in> I"
  shows "simulates sha col I start (snd (delete_key (digest_of sha i) t)) (A(i := None))"
proof -
  have "digest_of sha j = digest_of sha i \<longleftrightarrow> j = i" if "j \<in> I" for j
    using assms(2,3) that by (simp add: inj_on_eq_iff)
  then show ?thesis
    using assms(1) by (auto simp: simulates_def live_get_delete_key [unfolded delete_key_def snd_conv] alive_def delete_key_def tbl.get_del)
qed

lemma simulates_sweep:
  assumes "simulates sha col I start t A" "start \<le> now"
  shows "simulates sha col I now (snd (delete_expired row_expires_at now t)) A"
proof -
  have "tbl_get (snd (delete_expired row_expires_at now t)) k \<noteq> None \<Longrightarrow> tbl_get t k \<noteq> None" for k
    using assms(1) by (auto simp: simulates_def delete_expired_def tbl.get_retain_Some_iff)
  moreover have "tbl_wf (snd (delete_expired row_expires_at now t))"
    using assms(1) by (simp add: simulates_def delete_expired_def)
  ultimately show ?thesis
    using assms by (simp add: simulates_def live_get_delete_expired)
qed

lemma write_row:
  assumes "column_ok col" "time_min col \<le> expiry_date r" "expiry_date r \<le> time_max col"
  shows "session_write sha col up st r t =
    (if \<not> up then (Err Database, t)
     else case execute st (digest_of sha (rec_id r)) (row_of col (rec_data r, nanos_to_millis (expiry_date r))) t of
            (n, t') \<Rightarrow> (Ok (0 < n), t'))"
  by (simp add: session_write_def times_ok(1) [OF assms] row_of_def)

text \<open>Creating a session: what the loop returns.\<close>

lemma create_loop_outcome:
  assumes "create_loop sha col up fresh n i r t = (res, r', t')" and "column_ok col"
    and "time_min col \<le> expiry_date r" "expiry_date r \<le> time_max col"
  shows "case res of
      Err e \<Rightarrow> t' = t \<and> (e = Database \<and> (\<exists>j < i + n. \<not> up j) \<or> e = IdCollision CREATE_ATTEMPTS \<and>
        (0 < n \<longrightarrow> tbl_get t (digest_of sha (rec_id r)) \<noteq> None) \<and> (\<forall>j. i \<le> j \<and> Suc j < i + n \<longrightarrow> tbl_get t (digest_of sha (fresh j)) \<noteq> None))
    | Ok _ \<Rightarrow> tbl_get t (digest_of sha (rec_id r')) = None \<and> (rec_id r' = rec_id r \<or> (\<exists>j < i + n. rec_id r' = fresh j)) \<and>
        t' = tbl_put (digest_of sha (rec_id r')) (row_of col (rec_data r, nanos_to_millis (expiry_date r))) t"
  using assms
proof (induction n arbitrary: i r)
  case (Suc n)
  note w = write_row [OF Suc.prems(2-4), of sha _ INSERT_NEW t]
  show ?case
  proof (cases "up i")
    case False
    then show ?thesis
      using Suc.prems(1) by (auto simp: w intro!: exI [of _ i])
  next
    case up: True
    show ?thesis
    proof (cases "tbl_get t (digest_of sha (rec_id r))")
      case None
      then show ?thesis
        using Suc.prems(1) up by (auto simp: w execute_def insert_or_ignore_def)
    next
      case (Some row)
      then have "create_loop sha col up fresh n (Suc i) (r\<lparr>rec_id := fresh i\<rparr>) t = (res, r', t')"
        using Suc.prems(1) up by (simp add: w execute_def insert_or_ignore_def)
      note IH = Suc.IH [OF this]
      show ?thesis
      proof (cases res)
        case (Inl e)
        have "tbl_get t (digest_of sha (fresh j)) \<noteq> None"
          if "e = IdCollision CREATE_ATTEMPTS" "i \<le> j" "Suc j < i + Suc n" for j
          using IH Suc.prems(2-4) Inl that by (cases "j = i") auto
        then show ?thesis
          using IH Suc.prems(2-4) Inl Some by auto
      next
        case (Inr u)
        then show ?thesis
          using IH Suc.prems(2-4) by (auto intro: exI [of _ i])
      qed
    qed
  qed
qed auto

lemma free_is_dead:
  "simulates sha col I start t A \<Longrightarrow> start \<le> now \<Longrightarrow> i \<in> I \<Longrightarrow> tbl_get t (digest_of sha i) = None \<Longrightarrow> alive A now i = None"
  using simulates_live [of sha col I start t A now i] by (simp add: live_get_def)

lemma load_simulated:
  assumes "simulates sha col I start t A" "start \<le> now" "i \<in> I" and "column_ok col"
  shows "session_load sha col up now i t = (if up then Ok (map_option (given_back i) (alive A now i)) else Err down)"
proof (cases "alive A now i")
  case None
  with simulates_live [OF assms(1-3)] have "live_get row_expires_at now t (digest_of sha i) = None"
    by simp
  then show ?thesis
    using None by (simp add: session_load_def session_read_def down_def)
next
  case (Some de)
  obtain d e where [simp]: "de = (d, e)"
    by (cases de)
  have "live_get row_expires_at now t (digest_of sha i) = Some (row_of col (d, e))"
    using Some simulates_live [OF assms(1-3)] by simp
  moreover have "representable col e"
    using Some assms(1) by (auto simp: simulates_def alive_def split: option.splits if_splits)
  ultimately show ?thesis
    using Some assms(4)
    by (simp add: session_load_def session_read_def down_def row_of_def representable_def column_ok_def given_back_def)
qed

lemma create_simulated:
  assumes "store_step sha col now (Create q fresh up) t = (r, t')" and "simulates sha col I start t A" "start \<le> now"
    and "inj_on (digest_of sha) I" "set (ids_of (Create q fresh up)) \<subseteq> I" "column_ok col" "call_ok col (Create q fresh up)"
  shows "\<exists>A'. spec_step now (Create q fresh up) r A = Some A' \<and> simulates sha col I start t' A'"
proof -
  obtain res r' t1 where run: "create_loop sha col up fresh CREATE_ATTEMPTS 0 q t = (res, r', t1)"
    by (cases "create_loop sha col up fresh CREATE_ATTEMPTS 0 q t") auto
  have bounds: "time_min col \<le> expiry_date q" "expiry_date q \<le> time_max col"
    using assms(7) by auto
  note out = create_loop_outcome [OF run assms(6) bounds]
  have ids: "rec_id q \<in> I" "n < CREATE_ATTEMPTS \<Longrightarrow> fresh n \<in> I" for n
    using assms(5) by auto
  show ?thesis
  proof (cases res)
    case (Inl e)
    then have eq: "r = Failed (tower_error_of e)" "t' = t"
      using assms(1) run out by (auto simp: session_create_def)
    have used: "A i \<noteq> None" if "tbl_get t (digest_of sha i) \<noteq> None" "i \<in> I" for i
      using assms(2) that by (simp add: simulates_def)
    from out Inl consider (down) "e = Database" "\<exists>j < CREATE_ATTEMPTS. \<not> up j"
      | (full) "e = IdCollision CREATE_ATTEMPTS" "tbl_get t (digest_of sha (rec_id q)) \<noteq> None"
        "\<forall>n < CREATE_ATTEMPTS - 1. tbl_get t (digest_of sha (fresh n)) \<noteq> None"
      by (auto simp: CREATE_ATTEMPTS_def)
    then show ?thesis
    proof cases
      case full
      then have "A (rec_id q) \<noteq> None" "\<forall>n < CREATE_ATTEMPTS - 1. A (fresh n) \<noteq> None"
        using used ids by auto
      then show ?thesis
        using eq full(1) assms(2) by simp
    qed (use eq assms(2) in \<open>simp add: down_def\<close>)
  next
    case (Inr u)
    then have eq: "r = Created (rec_id r')" "t' = t1"
      using assms(1) run by (auto simp: session_create_def)
    moreover have new: "rec_id r' \<in> I"
      using out Inr ids by auto
    ultimately show ?thesis
      using out Inr free_is_dead [OF assms(2,3) new] simulates_put [OF assms(2,4) new assms(6) bounds] by auto
  qed
qed

lemma step_simulated:
  assumes "store_step sha col now c t = (r, t')" and "simulates sha col I start t A" "start \<le> now"
    and "inj_on (digest_of sha) I" "set (ids_of c) \<subseteq> I" "column_ok col" "call_ok col c"
  shows "\<exists>A'. spec_step now c r A = Some A' \<and> simulates sha col I (if is_sweep c then now else start) t' A'"
proof (cases c)
  case (Create q fresh up)
  then show ?thesis
    using create_simulated [of sha col now q fresh up t r t' I start A] assms by simp
next
  case (Save q up)
  then have bounds: "rec_id q \<in> I" "time_min col \<le> expiry_date q" "expiry_date q \<le> time_max col"
    using assms(5,7) by auto
  show ?thesis
    using assms(1,2) simulates_put [OF assms(2,4) bounds(1) assms(6) bounds(2,3)]
    by (cases up) (auto simp: Save session_save_def write_row [OF assms(6) bounds(2,3)] execute_def down_def)
next
  case (Load i up)
  then show ?thesis
    using assms(1,2,5) load_simulated [OF assms(2,3) _ assms(6), of i up] by (cases up) auto
next
  case (Delete i up)
  then show ?thesis
    using assms(1,2,5) simulates_delete [OF assms(2,4), of i] by (cases up) (auto simp: session_delete_def down_def)
next
  case (Sweep up)
  have "simulates sha col I now t A"
    using assms(2,3) by (auto simp: simulates_def)
  then show ?thesis
    using assms(1) simulates_sweep [OF assms(2,3)]
    by (cases up) (auto simp: Sweep session_sweep_expired_def down_def split: prod.splits)
qed

lemma run_simulated:
  assumes "simulates sha col I start t A" "inj_on (digest_of sha) I" "set (run_ids calls) \<subseteq> I" "column_ok col"
    and "list_all (\<lambda>(m, _). start \<le> m) calls" "never_behind_sweep calls" "\<forall>(m, c) \<in> set calls. call_ok col c"
  shows "spec_accepts (store_run sha col calls t) A"
  using assms
proof (induction calls arbitrary: start t A)
  case (Cons mc calls)
  obtain m c where mc: "mc = (m, c)"
    by (cases mc)
  obtain r t' where step: "store_step sha col m c t = (r, t')"
    by (cases "store_step sha col m c t")
  have ids: "set (ids_of c) \<subseteq> I" "set (run_ids calls) \<subseteq> I" "start \<le> m" "call_ok col c"
    using Cons.prems(3,5,7) by (simp_all add: mc run_ids_def)
  obtain A' where "spec_step m c r A = Some A'" "simulates sha col I (if is_sweep c then m else start) t' A'"
    using step_simulated [OF step Cons.prems(1) ids(3) Cons.prems(2) ids(1) Cons.prems(4) ids(4)] by blast
  moreover have "list_all (\<lambda>(n, _). (if is_sweep c then m else start) \<le> n) calls"
    using Cons.prems(5,6) by (simp add: mc)
  ultimately show ?case
    using Cons.IH [OF _ Cons.prems(2) ids(2) Cons.prems(4)] Cons.prems(6,7) mc step by auto
qed simp


definition sample_column :: "(nat, nat) column" where
  "sample_column = \<lparr>to_column = \<lambda>d. d, of_column = Some, time_min = - 1000, time_max = 5000000000\<rparr>"

text \<open>A digest that is far from injective: it keeps the first byte, which tells these ids apart.\<close>

definition sample_calls :: "(int \<times> nat call) list" where
  "sample_calls =
     [(0, Save \<lparr>rec_id = 7, rec_data = 1, expiry_date = 2000000\<rparr> True), (1, Load 7 True), (0, Load 9 True),
      (2, Sweep True), (3, Load 7 True)]"


end
