(* ===== verification/Auth_Session.thy ===== *)
theory Auth_Session
  imports Json_Value Hex
begin

text \<open>
  The session a request carries and who is signed in on it: \<^verbatim>\<open>src/auth/session_api.rs\<close> and
  \<^verbatim>\<open>src/auth/extract.rs\<close>.

  The session handle is that of the package \<^verbatim>\<open>tower-sessions\<close>.  It is a record of operations on an
  abstract state \<open>'s\<close>; any of them may fail.  What the program relies on is the predicate
  \<open>session_laws\<close>, over a view of the state as a map from keys to JSON values and over the id the session
  has.  A type that is stored in a session comes with its serialization, a \<open>codec\<close>.  SHA-256 is the
  argument \<open>sha\<close>.  An application's user type is the record \<open>auth_user\<close>, its loader a function.
\<close>

section \<open>The session handle\<close>

datatype 'e tower_session_error = SerdeJson | SessionBackend 'e

record ('s, 'e) session_ops =
  raw_get :: "'s \<Rightarrow> string \<Rightarrow> ('e, json option) result \<times> 's"
  raw_insert :: "'s \<Rightarrow> string \<Rightarrow> json \<Rightarrow> ('e, unit) result \<times> 's"
  raw_remove :: "'s \<Rightarrow> string \<Rightarrow> ('e, json option) result \<times> 's"
  raw_flush :: "'s \<Rightarrow> ('e, unit) result \<times> 's"
  raw_cycle_id :: "'s \<Rightarrow> ('e, unit) result \<times> 's"

record 'a codec =
  ser :: "'a \<Rightarrow> json"
  de :: "json \<Rightarrow> 'a option"

definition codec_ok :: "'a codec \<Rightarrow> bool" where
  "codec_ok c \<longleftrightarrow> (\<forall>a. de c (ser c a) = Some a)"

definition string_codec :: "string codec" where
  "string_codec = \<lparr>ser = JString, de = (\<lambda>v. case v of JString s \<Rightarrow> Some s | _ \<Rightarrow> None)\<rparr>"

definition bool_codec :: "bool codec" where
  "bool_codec = \<lparr>ser = JBool, de = (\<lambda>v. case v of JBool b \<Rightarrow> Some b | _ \<Rightarrow> None)\<rparr>"

definition json_codec :: "json codec" where
  "json_codec = \<lparr>ser = (\<lambda>v. v), de = Some\<rparr>"

text \<open>\<^verbatim>\<open>get\<close> and \<^verbatim>\<open>remove\<close> deserialize what they find; \<^verbatim>\<open>remove\<close> has removed it by then.\<close>

definition deserialized :: "'a codec \<Rightarrow> ('e, json option) result \<Rightarrow> ('e tower_session_error, 'a option) result" where
  "deserialized c r =
     (case r of Err e \<Rightarrow> Err (SessionBackend e) | Ok None \<Rightarrow> Ok None
      | Ok (Some v) \<Rightarrow> (case de c v of None \<Rightarrow> Err SerdeJson | Some a \<Rightarrow> Ok (Some a)))"

definition sess_get :: "('s, 'e) session_ops \<Rightarrow> 'a codec \<Rightarrow> 's \<Rightarrow> string \<Rightarrow> ('e tower_session_error, 'a option) result \<times> 's" where
  "sess_get op c s k = (case raw_get op s k of (r, s') \<Rightarrow> (deserialized c r, s'))"

definition sess_insert :: "('s, 'e) session_ops \<Rightarrow> 'a codec \<Rightarrow> 's \<Rightarrow> string \<Rightarrow> 'a \<Rightarrow> ('e tower_session_error, unit) result \<times> 's" where
  "sess_insert op c s k a = sbind (raw_insert op s k (ser c a)) (\<lambda>_ s'. (Ok (), s')) SessionBackend"

definition sess_remove :: "('s, 'e) session_ops \<Rightarrow> 'a codec \<Rightarrow> 's \<Rightarrow> string \<Rightarrow> ('e tower_session_error, 'a option) result \<times> 's" where
  "sess_remove op c s k = (case raw_remove op s k of (r, s') \<Rightarrow> (deserialized c r, s'))"

definition sess_flush :: "('s, 'e) session_ops \<Rightarrow> 's \<Rightarrow> ('e tower_session_error, unit) result \<times> 's" where
  "sess_flush op s = sbind (raw_flush op s) (\<lambda>_ s'. (Ok (), s')) SessionBackend"

definition sess_cycle_id :: "('s, 'e) session_ops \<Rightarrow> 's \<Rightarrow> ('e tower_session_error, unit) result \<times> 's" where
  "sess_cycle_id op s = sbind (raw_cycle_id op s) (\<lambda>_ s'. (Ok (), s')) SessionBackend"

definition session_laws :: "('s, 'e) session_ops \<Rightarrow> ('s \<Rightarrow> string \<Rightarrow> json option) \<Rightarrow> ('s \<Rightarrow> 'i) \<Rightarrow> bool" where
  "session_laws op view sid \<longleftrightarrow>
     (\<forall>s k r s'. raw_get op s k = (r, s') \<longrightarrow> view s' = view s \<and> (\<forall>v. r = Ok v \<longrightarrow> v = view s k)) \<and>
     (\<forall>s k v s'. raw_insert op s k v = (Ok (), s') \<longrightarrow> view s' = (view s)(k \<mapsto> v) \<and> sid s' = sid s) \<and>
     (\<forall>s k v s'. raw_remove op s k = (Ok v, s') \<longrightarrow> v = view s k \<and> view s' = (view s)(k := None)) \<and>
     (\<forall>s s'. raw_flush op s = (Ok (), s') \<longrightarrow> view s' = Map.empty) \<and>
     (\<forall>s s'. raw_cycle_id op s = (Ok (), s') \<longrightarrow> view s' = view s \<and> sid s' \<noteq> sid s)"

section \<open>The session extractor\<close>

text \<open>The errors wrap that of the handle; in the code they carry its text.\<close>

datatype 'e SessionError = SessionError "'e tower_session_error"

definition session_put :: "('s, 'e) session_ops \<Rightarrow> 'a codec \<Rightarrow> 's \<Rightarrow> string \<Rightarrow> 'a \<Rightarrow> ('e SessionError, unit) result \<times> 's" where
  "session_put op c s k a = sbind (sess_insert op c s k a) (\<lambda>_ s'. (Ok (), s')) SessionError"

definition session_get :: "('s, 'e) session_ops \<Rightarrow> 'a codec \<Rightarrow> 's \<Rightarrow> string \<Rightarrow> ('e SessionError, 'a option) result \<times> 's" where
  "session_get op c s k = sbind (sess_get op c s k) (\<lambda>r s'. (Ok r, s')) SessionError"

definition session_forget :: "('s, 'e) session_ops \<Rightarrow> 'a codec \<Rightarrow> 's \<Rightarrow> string \<Rightarrow> ('e SessionError, 'a option) result \<times> 's" where
  "session_forget op c s k = sbind (sess_remove op c s k) (\<lambda>r s'. (Ok r, s')) SessionError"

definition session_regenerate :: "('s, 'e) session_ops \<Rightarrow> 's \<Rightarrow> ('e SessionError, unit) result \<times> 's" where
  "session_regenerate op s = sbind (sess_cycle_id op s) (\<lambda>_ s'. (Ok (), s')) SessionError"

definition session_flush :: "('s, 'e) session_ops \<Rightarrow> 's \<Rightarrow> ('e SessionError, unit) result \<times> 's" where
  "session_flush op s = sbind (sess_flush op s) (\<lambda>_ s'. (Ok (), s')) SessionError"

section \<open>Signing in and out\<close>

definition ABSOLUTE_AUTH_AT_KEY :: string where
  "ABSOLUTE_AUTH_AT_KEY = ''__arcature_absolute_auth_at''"

definition CREDENTIAL_STAMP_KEY :: string where
  "CREDENTIAL_STAMP_KEY = ''__arcature_credential_stamp''"

definition credential_stamp :: "(bytes \<Rightarrow> bytes) \<Rightarrow> bytes \<Rightarrow> string" where
  "credential_stamp sha credential = hex_encode (sha credential)"

text \<open>The clock reads the nanoseconds since the epoch, or fails before it; \<^verbatim>\<open>as i64\<close> wraps.\<close>

definition now_unix_millis :: "nat option \<Rightarrow> int" where
  "now_unix_millis clock = (case clock of None \<Rightarrow> 0 | Some d \<Rightarrow> sint (word_of_nat (d div 1000000) :: 64 word))"

record ('u, 'i) auth_user =
  SESSION_KEY :: string
  id_codec :: "'i codec"
  user_id_of :: "'u \<Rightarrow> 'i"
  stored_credential :: "'u \<Rightarrow> bytes option"
  absolute_max_age :: nat

record 'i LoginBuilder =
  login_user_id :: 'i
  login_stamp :: "string option"
  login_remember :: bool

datatype 'e AuthError = AuthSession "'e tower_session_error"

definition login :: "(bytes \<Rightarrow> bytes) \<Rightarrow> ('u, 'i) auth_user \<Rightarrow> 'u \<Rightarrow> 'i LoginBuilder" where
  "login sha U u = \<lparr>login_user_id = user_id_of U u,
     login_stamp = map_option (credential_stamp sha) (stored_credential U u), login_remember = False\<rparr>"

definition remember :: "'i LoginBuilder \<Rightarrow> bool \<Rightarrow> 'i LoginBuilder" where
  "remember b r = b\<lparr>login_remember := r\<rparr>"

definition login_await :: "('s, 'e) session_ops \<Rightarrow> ('u, 'i) auth_user \<Rightarrow> int codec \<Rightarrow> int \<Rightarrow> 'i LoginBuilder \<Rightarrow> 's \<Rightarrow>
    ('e AuthError, unit) result \<times> 's" where
  "login_await op U i64 now b s =
     sbind (sess_cycle_id op s) (\<lambda>_ s1.
     sbind (sess_insert op (id_codec U) s1 (SESSION_KEY U) (login_user_id b)) (\<lambda>_ s2.
     sbind (sess_insert op i64 s2 ABSOLUTE_AUTH_AT_KEY now) (\<lambda>_ s3.
     sbind (case login_stamp b of
              Some stamp \<Rightarrow> sess_insert op string_codec s3 CREDENTIAL_STAMP_KEY stamp | None \<Rightarrow> (Ok (), s3)) (\<lambda>_ s4.
     sbind (if login_remember b then sess_insert op bool_codec s4 ''remember_me'' True else (Ok (), s4)) (\<lambda>_ s5.
       (Ok (), s5)) AuthSession) AuthSession) AuthSession) AuthSession) AuthSession"

definition rebind_credential :: "(bytes \<Rightarrow> bytes) \<Rightarrow> ('s, 'e) session_ops \<Rightarrow> ('u, 'i) auth_user \<Rightarrow> 'u \<Rightarrow> 's \<Rightarrow>
    ('e AuthError, unit) result \<times> 's" where
  "rebind_credential sha op U u s =
     (case stored_credential U u of
        None \<Rightarrow> (Ok (), s)
      | Some credential \<Rightarrow>
          sbind (sess_insert op string_codec s CREDENTIAL_STAMP_KEY (credential_stamp sha credential))
            (\<lambda>_ s'. (Ok (), s')) AuthSession)"

definition logout :: "('s, 'e) session_ops \<Rightarrow> 's \<Rightarrow> ('e AuthError, unit) result \<times> 's" where
  "logout op s = sbind (sess_flush op s) (\<lambda>_ s'. (Ok (), s')) AuthSession"

definition auth_regenerate :: "('s, 'e) session_ops \<Rightarrow> 's \<Rightarrow> ('e AuthError, unit) result \<times> 's" where
  "auth_regenerate op s = sbind (sess_cycle_id op s) (\<lambda>_ s'. (Ok (), s')) AuthSession"

section \<open>Loading the user\<close>

record rejection =
  rej_status :: nat
  rej_body :: string

definition internal :: "string \<Rightarrow> 'x \<Rightarrow> rejection" where
  "internal body x = \<lparr>rej_status = 500, rej_body = body\<rparr>"

definition i64_saturating_sub :: "int \<Rightarrow> int \<Rightarrow> int" where
  "i64_saturating_sub a b = max (- (2 ^ 63)) (min (2 ^ 63 - 1) (a - b))"

definition absolute_max_millis :: "('u, 'i) auth_user \<Rightarrow> int" where
  "absolute_max_millis U = min (int (absolute_max_age U div 1000000)) (2 ^ 63 - 1)"

text \<open>Each check says whether the session stays signed in.\<close>

definition enforce_age :: "('s, 'e) session_ops \<Rightarrow> ('u, 'i) auth_user \<Rightarrow> int codec \<Rightarrow> int \<Rightarrow> 's \<Rightarrow> (rejection, bool) result \<times> 's" where
  "enforce_age op U i64 now s =
     sbind (sess_get op i64 s ABSOLUTE_AUTH_AT_KEY) (\<lambda>auth_at s1.
       case auth_at of
         Some auth_at \<Rightarrow>
           if i64_saturating_sub now auth_at > absolute_max_millis U
           then sbind (sess_flush op s1) (\<lambda>_ s2. (Ok False, s2)) (internal ''session flush failed'')
           else (Ok True, s1)
       | None \<Rightarrow>
           sbind (sess_insert op i64 s1 ABSOLUTE_AUTH_AT_KEY now) (\<lambda>_ s2. (Ok True, s2)) (internal ''session write failed''))
     (internal ''session read failed'')"

definition enforce_credential :: "(bytes \<Rightarrow> bytes) \<Rightarrow> ('s, 'e) session_ops \<Rightarrow> ('u, 'i) auth_user \<Rightarrow> 'u \<Rightarrow> 's \<Rightarrow> (rejection, bool) result \<times> 's" where
  "enforce_credential sha op U u s =
     (case stored_credential U u of
        None \<Rightarrow> (Ok True, s)
      | Some credential \<Rightarrow>
          let expected = credential_stamp sha credential in
          sbind (sess_get op string_codec s CREDENTIAL_STAMP_KEY) (\<lambda>bound s1.
            case bound of
              Some b \<Rightarrow>
                if b = expected then (Ok True, s1)
                else sbind (sess_flush op s1) (\<lambda>_ s2. (Ok False, s2)) (internal ''session flush failed'')
            | None \<Rightarrow>
                sbind (sess_insert op string_codec s1 CREDENTIAL_STAMP_KEY expected) (\<lambda>_ s2. (Ok True, s2))
                  (internal ''session write failed''))
          (internal ''session read failed''))"

definition load_session_user :: "(bytes \<Rightarrow> bytes) \<Rightarrow> ('s, 'e) session_ops \<Rightarrow> ('u, 'i) auth_user \<Rightarrow> int codec \<Rightarrow>
    ('i \<Rightarrow> ('l, 'u option) result) \<Rightarrow> int \<Rightarrow> 's \<Rightarrow> (rejection, 'u option) result \<times> 's" where
  "load_session_user sha op U i64 load now s =
     sbind (sess_get op (id_codec U) s (SESSION_KEY U)) (\<lambda>user_id s1.
       case user_id of
         None \<Rightarrow> (Ok None, s1)
       | Some i \<Rightarrow>
           sbind (enforce_age op U i64 now s1) (\<lambda>stays s2.
             if \<not> stays then (Ok None, s2)
             else case load i of
                    Err e \<Rightarrow> (Err (internal ''user load failed'' e), s2)
                  | Ok None \<Rightarrow> (Ok None, s2)
                  | Ok (Some u) \<Rightarrow>
                      sbind (enforce_credential sha op U u s2) (\<lambda>stays s3.
                        if stays then (Ok (Some u), s3) else (Ok None, s3)) (\<lambda>e. e))
           (\<lambda>e. e))
     (internal ''session read failed'')"

text \<open>A request without a session layer has no session.\<close>

definition load_user :: "(bytes \<Rightarrow> bytes) \<Rightarrow> ('s, 'e) session_ops \<Rightarrow> ('u, 'i) auth_user \<Rightarrow> int codec \<Rightarrow>
    ('i \<Rightarrow> ('l, 'u option) result) \<Rightarrow> int \<Rightarrow> 's option \<Rightarrow> (rejection, 'u option) result \<times> 's option" where
  "load_user sha op U i64 load now session =
     (case session of
        None \<Rightarrow> (Err (internal ''session extraction failed'' ()), None)
      | Some s \<Rightarrow> (case load_session_user sha op U i64 load now s of (r, s') \<Rightarrow> (r, Some s')))"

definition auth_from_request :: "(rejection, 'u option) result \<Rightarrow> (rejection, 'u) result" where
  "auth_from_request loaded = rbind loaded (\<lambda>user. ok_or user \<lparr>rej_status = 401, rej_body = ''Authentication required''\<rparr>)"

definition optional_auth_from_request :: "(rejection, 'u option) result \<Rightarrow> 'u option" where
  "optional_auth_from_request loaded = (case loaded of Err _ \<Rightarrow> None | Ok user \<Rightarrow> user)"

section \<open>What the handle's laws give\<close>

lemma codec_simps [simp]: "codec_ok string_codec" "codec_ok bool_codec" "codec_ok json_codec"
  by (simp_all add: codec_ok_def string_codec_def bool_codec_def json_codec_def)

text \<open>What a typed read makes of an entry: \<open>None\<close> where it fails to deserialize.\<close>

definition decoded :: "'a codec \<Rightarrow> json option \<Rightarrow> 'a option option" where
  "decoded c v = (case v of None \<Rightarrow> Some None | Some v \<Rightarrow> map_option Some (de c v))"

lemma decoded_simps [simp]:
  "decoded c None = Some None"
  "codec_ok c \<Longrightarrow> decoded c (Some (ser c a)) = Some (Some a)"
  "decoded c v = Some None \<longleftrightarrow> v = None"
  by (auto simp: decoded_def codec_ok_def split: option.splits)

lemma decoded_entry: "decoded c v = Some (Some a) \<Longrightarrow> \<exists>y. v = Some y"
  by (cases v) simp_all

lemma sess_get_Ok:
  assumes "session_laws op view sid" "sess_get op c s k = (Ok r, s')"
  shows "view s' = view s" "decoded c (view s k) = Some r"
proof -
  obtain raw where raw: "raw_get op s k = (raw, s')" "deserialized c raw = Ok r"
    using assms(2) by (auto simp: sess_get_def split: prod.splits)
  then obtain v where "raw = Ok v"
    by (cases raw) (auto simp: deserialized_def)
  then have v: "view s' = view s" "v = view s k"
    using raw(1) assms(1) unfolding session_laws_def by blast+
  then show "view s' = view s"
    by simp
  show "decoded c (view s k) = Some r"
    using raw(2) \<open>raw = Ok v\<close> unfolding v(2) [symmetric]
    by (cases v; cases "de c (the v)") (auto simp: deserialized_def decoded_def)
qed

lemma sess_get_view: "session_laws op view sid \<Longrightarrow> sess_get op c s k = (r, s') \<Longrightarrow> view s' = view s"
  by (auto simp: session_laws_def sess_get_def split: prod.splits)

lemma sess_insert_Ok: "session_laws op view sid \<Longrightarrow> sess_insert op c s k a = (Ok x, s') \<Longrightarrow>
    view s' = (view s)(k \<mapsto> ser c a) \<and> sid s' = sid s"
  unfolding session_laws_def sess_insert_def sbind_eq_Ok_iff by auto

lemma sess_flush_Ok: "session_laws op view sid \<Longrightarrow> sess_flush op s = (Ok x, s') \<Longrightarrow> view s' = Map.empty"
  unfolding session_laws_def sess_flush_def sbind_eq_Ok_iff by auto

lemma sess_cycle_Ok: "session_laws op view sid \<Longrightarrow> sess_cycle_id op s = (Ok x, s') \<Longrightarrow> view s' = view s \<and> sid s' \<noteq> sid s"
  unfolding session_laws_def sess_cycle_id_def sbind_eq_Ok_iff by auto

lemma sess_remove_Ok: "session_laws op view sid \<Longrightarrow> raw_remove op s k = (Ok v, s') \<Longrightarrow> v = view s k \<and> view s' = (view s)(k := None)"
  by (auto simp: session_laws_def)

lemmas session_step = sess_get_Ok sess_insert_Ok sess_flush_Ok sess_cycle_Ok

section \<open>The verdict on a session\<close>

datatype 'u verdict = Anonymous | Expired | Unknown | Revoked | SignedIn 'u

definition too_old :: "('u, 'i) auth_user \<Rightarrow> int \<Rightarrow> int \<Rightarrow> bool" where
  "too_old U now auth_at \<longleftrightarrow> absolute_max_millis U < i64_saturating_sub now auth_at"

definition credential_agrees :: "(bytes \<Rightarrow> bytes) \<Rightarrow> ('u, 'i) auth_user \<Rightarrow> json option \<Rightarrow> 'u \<Rightarrow> bool" where
  "credential_agrees sha U bound u \<longleftrightarrow>
     (case (stored_credential U u, bound) of (Some c, Some v) \<Rightarrow> v = JString (credential_stamp sha c) | _ \<Rightarrow> True)"

text \<open>The reference: a decision on the entries of the session alone.\<close>

definition verdict :: "(bytes \<Rightarrow> bytes) \<Rightarrow> ('u, 'i) auth_user \<Rightarrow> int codec \<Rightarrow> ('i \<Rightarrow> ('l, 'u option) result) \<Rightarrow> int \<Rightarrow>
    (string \<Rightarrow> json option) \<Rightarrow> 'u verdict" where
  "verdict sha U i64 load now V =
     (case decoded (id_codec U) (V (SESSION_KEY U)) of
        Some (Some i) \<Rightarrow>
          if (case decoded i64 (V ABSOLUTE_AUTH_AT_KEY) of Some (Some t) \<Rightarrow> too_old U now t | _ \<Rightarrow> False) then Expired
          else (case load i of
                  Ok (Some u) \<Rightarrow> if credential_agrees sha U (V CREDENTIAL_STAMP_KEY) u then SignedIn u else Revoked
                | _ \<Rightarrow> Unknown)
      | _ \<Rightarrow> Anonymous)"

text \<open>An entry that is missing is added, one that is there stays.\<close>

definition stamped :: "string \<Rightarrow> json \<Rightarrow> (string \<Rightarrow> json option) \<Rightarrow> string \<Rightarrow> json option" where
  "stamped k v V = (if V k = None then V(k \<mapsto> v) else V)"

definition verdict_view :: "(bytes \<Rightarrow> bytes) \<Rightarrow> ('u, 'i) auth_user \<Rightarrow> int codec \<Rightarrow> int \<Rightarrow> 'u verdict \<Rightarrow>
    (string \<Rightarrow> json option) \<Rightarrow> string \<Rightarrow> json option" where
  "verdict_view sha U i64 now d V =
     (let V1 = stamped ABSOLUTE_AUTH_AT_KEY (ser i64 now) V in
      case d of Anonymous \<Rightarrow> V | Expired \<Rightarrow> Map.empty | Revoked \<Rightarrow> Map.empty | Unknown \<Rightarrow> V1
      | SignedIn u \<Rightarrow> (case stored_credential U u of None \<Rightarrow> V1
          | Some c \<Rightarrow> stamped CREDENTIAL_STAMP_KEY (JString (credential_stamp sha c)) V1))"

definition admitted :: "'u verdict \<Rightarrow> 'u option" where
  "admitted d = (case d of SignedIn u \<Rightarrow> Some u | _ \<Rightarrow> None)"

lemma enforce_age_Ok:
  assumes laws: "session_laws op view sid" and run: "enforce_age op U i64 now s = (Ok stays, s')"
  shows "stays \<longleftrightarrow> \<not> (case decoded i64 (view s ABSOLUTE_AUTH_AT_KEY) of Some (Some t) \<Rightarrow> too_old U now t | _ \<Rightarrow> False)"
    and "view s' = (if stays then stamped ABSOLUTE_AUTH_AT_KEY (ser i64 now) (view s) else Map.empty)"
proof -
  obtain at s1 where g: "sess_get op i64 s ABSOLUTE_AUTH_AT_KEY = (Ok at, s1)"
    using run unfolding enforce_age_def sbind_eq_Ok_iff by blast
  have entry: "decoded i64 (view s ABSOLUTE_AUTH_AT_KEY) = Some at" and V: "view s1 = view s"
    using sess_get_Ok [OF laws g] by auto
  have "(stays \<longleftrightarrow> \<not> (case at of Some t \<Rightarrow> too_old U now t | None \<Rightarrow> False)) \<and>
    view s' = (if stays then stamped ABSOLUTE_AUTH_AT_KEY (ser i64 now) (view s) else Map.empty)"
  proof (cases at)
    case None
    then have "view s ABSOLUTE_AUTH_AT_KEY = None"
      using entry by simp
    then show ?thesis
      using run None V by (auto simp: enforce_age_def g sbind_eq_Ok_iff stamped_def dest: sess_insert_Ok [OF laws])
  next
    case (Some t)
    then have "view s ABSOLUTE_AUTH_AT_KEY \<noteq> None"
      using entry by (auto simp: decoded_def split: option.splits)
    then show ?thesis
      using run Some V
      by (auto simp: enforce_age_def g sbind_eq_Ok_iff stamped_def too_old_def split: if_splits dest: sess_flush_Ok [OF laws])
  qed
  then show "stays \<longleftrightarrow> \<not> (case decoded i64 (view s ABSOLUTE_AUTH_AT_KEY) of Some (Some t) \<Rightarrow> too_old U now t | _ \<Rightarrow> False)"
    "view s' = (if stays then stamped ABSOLUTE_AUTH_AT_KEY (ser i64 now) (view s) else Map.empty)"
    by (simp_all add: entry)
qed

lemma string_ser: "ser string_codec = JString"
  by (simp add: string_codec_def)

lemma string_entry: "decoded string_codec v = Some (Some b) \<longleftrightarrow> v = Some (JString b)"
  by (auto simp: decoded_def string_codec_def split: option.splits json.splits)

lemma enforce_credential_Ok:
  assumes laws: "session_laws op view sid" and run: "enforce_credential sha op U u s = (Ok stays, s')"
  shows "stays \<longleftrightarrow> credential_agrees sha U (view s CREDENTIAL_STAMP_KEY) u"
    and "view s' = (if stays then (case stored_credential U u of None \<Rightarrow> view s
       | Some c \<Rightarrow> stamped CREDENTIAL_STAMP_KEY (JString (credential_stamp sha c)) (view s)) else Map.empty)"
proof -
  have "(stays \<longleftrightarrow> credential_agrees sha U (view s CREDENTIAL_STAMP_KEY) u) \<and>
    view s' = (if stays then (case stored_credential U u of None \<Rightarrow> view s
       | Some c \<Rightarrow> stamped CREDENTIAL_STAMP_KEY (JString (credential_stamp sha c)) (view s)) else Map.empty)"
  proof (cases "stored_credential U u")
    case None
    then show ?thesis
      using run by (auto simp: enforce_credential_def credential_agrees_def)
  next
    case (Some c)
    obtain b s1 where g: "sess_get op string_codec s CREDENTIAL_STAMP_KEY = (Ok b, s1)"
      using run Some unfolding enforce_credential_def by (auto simp: Let_def sbind_eq_Ok_iff)
    have entry: "decoded string_codec (view s CREDENTIAL_STAMP_KEY) = Some b" and V: "view s1 = view s"
      using sess_get_Ok [OF laws g] by auto
    show ?thesis
    proof (cases b)
      case None
      then have "view s CREDENTIAL_STAMP_KEY = None"
        using entry by simp
      then show ?thesis
        using run None V Some
        by (auto simp: enforce_credential_def Let_def g sbind_eq_Ok_iff stamped_def credential_agrees_def string_ser
            dest: sess_insert_Ok [OF laws])
    next
      case bound: (Some t)
      then have "view s CREDENTIAL_STAMP_KEY = Some (JString t)"
        using entry by (simp add: string_entry)
      then show ?thesis
        using run bound V Some
        by (auto simp: enforce_credential_def Let_def g sbind_eq_Ok_iff stamped_def credential_agrees_def split: if_splits
            dest: sess_flush_Ok [OF laws])
    qed
  qed
  then show "stays \<longleftrightarrow> credential_agrees sha U (view s CREDENTIAL_STAMP_KEY) u"
    "view s' = (if stays then (case stored_credential U u of None \<Rightarrow> view s
       | Some c \<Rightarrow> stamped CREDENTIAL_STAMP_KEY (JString (credential_stamp sha c)) (view s)) else Map.empty)"
    by blast+
qed

lemma stamped_other: "k \<noteq> j \<Longrightarrow> stamped k v V j = V j"
  by (simp add: stamped_def)

lemma auth_keys_differ [simp]: "ABSOLUTE_AUTH_AT_KEY \<noteq> CREDENTIAL_STAMP_KEY" "CREDENTIAL_STAMP_KEY \<noteq> ABSOLUTE_AUTH_AT_KEY"
  by (simp_all add: ABSOLUTE_AUTH_AT_KEY_def CREDENTIAL_STAMP_KEY_def)

lemma load_user_verdict:
  assumes laws: "session_laws op view sid" and run: "load_user sha op U i64 load now (Some s) = (Ok r, Some s')"
  shows "r = admitted (verdict sha U i64 load now (view s)) \<and>
    view s' = verdict_view sha U i64 now (verdict sha U i64 load now (view s)) (view s)"
proof -
  have run: "load_session_user sha op U i64 load now s = (Ok r, s')"
    using run by (auto simp: load_user_def split: prod.splits)
  then obtain uid s1 where g: "sess_get op (id_codec U) s (SESSION_KEY U) = (Ok uid, s1)"
    unfolding load_session_user_def sbind_eq_Ok_iff by blast
  have entry: "decoded (id_codec U) (view s (SESSION_KEY U)) = Some uid" and V: "view s1 = view s"
    using sess_get_Ok [OF laws g] by auto
  show ?thesis
  proof (cases uid)
    case None
    then show ?thesis
      using run entry V by (simp add: load_session_user_def g verdict_def admitted_def verdict_view_def)
  next
    case (Some i)
    obtain stays s2 where age: "enforce_age op U i64 now s1 = (Ok stays, s2)"
      using run Some by (auto simp: load_session_user_def g sbind_eq_Ok_iff)
    note age' = enforce_age_Ok [OF laws age, unfolded V]
    show ?thesis
    proof (cases "stays \<and> (\<exists>u. load i = Ok (Some u))")
      case False
      then show ?thesis
        using run entry Some age age'
        by (auto simp: load_session_user_def g verdict_def admitted_def verdict_view_def split: sum.splits option.splits if_splits
            dest: decoded_entry)
    next
      case True
      then obtain u where u: "load i = Ok (Some u)"
        by blast
      obtain keeps where cred: "enforce_credential sha op U u s2 = (Ok keeps, s')" "r = (if keeps then Some u else None)"
        using run Some True u by (auto simp: load_session_user_def g age sbind_eq_Ok_iff split: if_splits)
      note cred' = enforce_credential_Ok [OF laws cred(1)]
      have "view s2 CREDENTIAL_STAMP_KEY = view s CREDENTIAL_STAMP_KEY"
        using True age'(2) by (simp add: stamped_other)
      then show ?thesis
        using True Some entry u age' cred(2) cred'
        by (auto simp: verdict_def admitted_def verdict_view_def Let_def split: option.splits)
    qed
  qed
qed

text \<open>
  Whoever a request is admitted as is decided by the entries of its session alone, however the calls
  of the session handle interleave with failures: a user only if the session names them, is not older than
  the absolute bound, the loader knows them and their credential is still the one the session was bound
  to.  An expired or revoked session has been emptied, and an admitted one carries both bindings from then
  on, so that the next request is measured against them.
\<close>
theorem admission_follows_verdict:
  assumes laws: "session_laws op view sid" and run: "load_user sha op U i64 load now (Some s) = (Ok r, Some s')"
  shows "r = admitted (verdict sha U i64 load now (view s)) \<and>
    view s' = verdict_view sha U i64 now (verdict sha U i64 load now (view s)) (view s)"
  by (rule load_user_verdict [OF assms])

section \<open>From signing in to the requests that follow\<close>

lemma hex_encode_inj: "hex_encode a = hex_encode b \<longleftrightarrow> a = b"
proof
  assume eq: "hex_encode a = hex_encode b"
  have "length a = length b"
    using arg_cong [OF eq, of length] by simp
  then show "a = b"
    using eq hex_decode_encode [of a] hex_decode_encode [of b] by (metis option.inject)
qed simp

lemma login_entries:
  assumes laws: "session_laws op view sid" and run: "login_await op U i64 now b s = (Ok (), s')"
    and key: "SESSION_KEY U \<notin> {ABSOLUTE_AUTH_AT_KEY, CREDENTIAL_STAMP_KEY, ''remember_me''}"
  shows "sid s' \<noteq> sid s" and "view s' (SESSION_KEY U) = Some (ser (id_codec U) (login_user_id b))"
    and "view s' ABSOLUTE_AUTH_AT_KEY = Some (ser i64 now)"
    and "view s' CREDENTIAL_STAMP_KEY = (case login_stamp b of Some stamp \<Rightarrow> Some (JString stamp) | None \<Rightarrow> view s CREDENTIAL_STAMP_KEY)"
proof -
  obtain s1 s2 s3 s4 where steps:
    "sess_cycle_id op s = (Ok (), s1)"
    "sess_insert op (id_codec U) s1 (SESSION_KEY U) (login_user_id b) = (Ok (), s2)"
    "sess_insert op i64 s2 ABSOLUTE_AUTH_AT_KEY now = (Ok (), s3)"
    and stamp: "(case login_stamp b of Some stamp \<Rightarrow> sess_insert op string_codec s3 CREDENTIAL_STAMP_KEY stamp | None \<Rightarrow> (Ok (), s3)) = (Ok (), s4)"
    and last: "(if login_remember b then sess_insert op bool_codec s4 ''remember_me'' True else (Ok (), s4)) = (Ok (), s')"
    using run unfolding login_await_def sbind_eq_Ok_iff by auto
  have cycled: "view s1 = view s \<and> sid s1 \<noteq> sid s"
    using sess_cycle_Ok [OF laws steps(1)] .
  moreover have "sid s4 = sid s3 \<and>
      view s4 = (case login_stamp b of Some stamp \<Rightarrow> (view s3)(CREDENTIAL_STAMP_KEY \<mapsto> JString stamp) | None \<Rightarrow> view s3)"
    using stamp sess_insert_Ok [OF laws, of string_codec s3] by (auto simp: string_ser split: option.splits)
  moreover have "sid s' = sid s4 \<and> (\<forall>k. k \<noteq> ''remember_me'' \<longrightarrow> view s' k = view s4 k)"
    using last sess_insert_Ok [OF laws, of bool_codec s4] by (auto split: if_splits)
  moreover have "ABSOLUTE_AUTH_AT_KEY \<noteq> ''remember_me''" "CREDENTIAL_STAMP_KEY \<noteq> ''remember_me''"
    by (simp_all add: ABSOLUTE_AUTH_AT_KEY_def CREDENTIAL_STAMP_KEY_def)
  ultimately show "sid s' \<noteq> sid s" "view s' (SESSION_KEY U) = Some (ser (id_codec U) (login_user_id b))"
    "view s' ABSOLUTE_AUTH_AT_KEY = Some (ser i64 now)"
    "view s' CREDENTIAL_STAMP_KEY = (case login_stamp b of Some stamp \<Rightarrow> Some (JString stamp) | None \<Rightarrow> view s CREDENTIAL_STAMP_KEY)"
    using key sess_insert_Ok [OF laws steps(2)] sess_insert_Ok [OF laws steps(3)]
    by (simp_all split: option.splits)
qed

definition round_trips :: "'a codec \<Rightarrow> 'a \<Rightarrow> bool" where
  "round_trips c a \<longleftrightarrow> de c (ser c a) = Some a"

lemma decoded_round_trip: "round_trips c a \<Longrightarrow> decoded c (Some (ser c a)) = Some (Some a)"
  by (simp add: round_trips_def decoded_def)

text \<open>
  Whether the credential of the user a request loads is the one the session was bound to at the sign-in of
  \<open>u\<close>.  A user without a stored credential is not bound; if the user that signed in had none, the session keeps
  the binding \<open>before\<close> that it may have from an earlier sign-in.
\<close>

definition still_bound :: "(bytes \<Rightarrow> bytes) \<Rightarrow> ('u, 'i) auth_user \<Rightarrow> json option \<Rightarrow> 'u \<Rightarrow> 'u \<Rightarrow> bool" where
  "still_bound sha U before u u' \<longleftrightarrow>
     (case stored_credential U u' of
        None \<Rightarrow> True
      | Some c' \<Rightarrow> (case stored_credential U u of
          Some c \<Rightarrow> sha c' = sha c
        | None \<Rightarrow> before \<in> {None, Some (JString (credential_stamp sha c'))}))"


section \<open>A handle that satisfies the laws\<close>

type_synonym sample_session = "(string \<Rightarrow> json option) \<times> nat"

definition sample_ops :: "(sample_session, unit) session_ops" where
  "sample_ops = \<lparr>raw_get = (\<lambda>s k. (Ok (fst s k), s)), raw_insert = (\<lambda>s k v. (Ok (), ((fst s)(k \<mapsto> v), snd s))),
     raw_remove = (\<lambda>s k. (Ok (fst s k), ((fst s)(k := None), snd s))), raw_flush = (\<lambda>s. (Ok (), (Map.empty, snd s))),
     raw_cycle_id = (\<lambda>s. (Ok (), (fst s, Suc (snd s))))\<rparr>"

lemma sample_laws: "session_laws sample_ops fst snd"
  by (simp add: session_laws_def sample_ops_def)

definition sample_user :: "(bytes, string) auth_user" where
  "sample_user = \<lparr>SESSION_KEY = ''user_id'', id_codec = string_codec, user_id_of = (\<lambda>_. ''7''), stored_credential = Some,
     absolute_max_age = 60 * 60 * 24 * 30 * 1000000000\<rparr>"

definition sample_i64 :: "int codec" where
  "sample_i64 = \<lparr>ser = (\<lambda>n. JNumber (show_nat (nat n))),
     de = (\<lambda>v. case v of JNumber s \<Rightarrow> map_option int (parse_uint (2 ^ 63 - 1) s) | _ \<Rightarrow> None)\<rparr>"

lemma sample_i64_round_trips: "0 \<le> n \<Longrightarrow> n < 2 ^ 63 \<Longrightarrow> round_trips sample_i64 n"
  by (simp add: round_trips_def sample_i64_def parse_uint_show_nat nat_le_iff)

definition sample_loader :: "bytes \<Rightarrow> string \<Rightarrow> (unit, bytes option) result" where
  "sample_loader credential i = (if i = ''7'' then Ok (Some credential) else Ok None)"

definition sample_signed_in :: sample_session where
  "sample_signed_in = snd (login_await sample_ops sample_user sample_i64 1000 (remember (login (\<lambda>b. b) sample_user [1]) True) (Map.empty, 0))"

lemma sample_login: "login_await sample_ops sample_user sample_i64 1000 (remember (login (\<lambda>b. b) sample_user [1]) True) (Map.empty, 0) =
    (Ok (), sample_signed_in)"
  by (simp add: sample_signed_in_def login_await_def sess_cycle_id_def sess_insert_def sample_ops_def login_def remember_def sample_user_def)

lemma sample_steps:
  "sess_get sample_ops c s k = (deserialized c (Ok (fst s k)), s)"
  "sess_insert sample_ops c s k a = (Ok (), ((fst s)(k \<mapsto> ser c a), snd s))"
  "sess_flush sample_ops s = (Ok (), (Map.empty, snd s))"
  by (simp_all add: sess_get_def sess_insert_def sess_flush_def sample_ops_def)

lemma sample_session_entries:
  "fst sample_signed_in ''user_id'' = Some (JString ''7'')" "fst sample_signed_in ABSOLUTE_AUTH_AT_KEY = Some (ser sample_i64 1000)"
  "fst sample_signed_in CREDENTIAL_STAMP_KEY = Some (JString (hex_encode [1]))"
  using login_entries [OF sample_laws sample_login]
  by (simp_all add: login_def remember_def sample_user_def credential_stamp_def ABSOLUTE_AUTH_AT_KEY_def CREDENTIAL_STAMP_KEY_def string_codec_def)

lemma sample_later: "load_user (\<lambda>b. b) sample_ops sample_user sample_i64 (sample_loader [2]) 2000 (Some sample_signed_in) =
    (Ok None, Some (Map.empty, snd sample_signed_in))"
proof -
  have "de sample_i64 (ser sample_i64 1000) = Some 1000"
    using sample_i64_round_trips [of 1000] by (simp add: round_trips_def)
  moreover have "hex_encode [1] \<noteq> hex_encode [2]"
    unfolding hex_encode_inj by simp
  ultimately show ?thesis
    by (simp add: load_user_def load_session_user_def enforce_age_def enforce_credential_def sample_steps sample_user_def sample_session_entries
        deserialized_def string_codec_def absolute_max_millis_def i64_saturating_sub_def sample_loader_def credential_stamp_def)
qed

theorem admission_follows_verdict_witness:
  "admitted (verdict (\<lambda>b. b) sample_user sample_i64 (sample_loader [2]) 2000 (fst sample_signed_in)) = None"
  using admission_follows_verdict [OF sample_laws sample_later] by simp

lemma sample_soon: "load_user (\<lambda>b. b) sample_ops sample_user sample_i64 (sample_loader [1]) 2000 (Some sample_signed_in) =
    (Ok (Some [1]), Some sample_signed_in)"
proof -
  have "de sample_i64 (ser sample_i64 1000) = Some 1000"
    using sample_i64_round_trips [of 1000] by (simp add: round_trips_def)
  then show ?thesis
    by (simp add: load_user_def load_session_user_def enforce_age_def enforce_credential_def sample_steps sample_user_def sample_session_entries
        deserialized_def string_codec_def absolute_max_millis_def i64_saturating_sub_def sample_loader_def credential_stamp_def)
qed


end
