(* ===== verification/Auth_Flows.thy ===== *)
theory Auth_Flows
  imports Auth_Session Url_Signer Csrf Storage_Names
begin

text \<open>
  What the program keeps in and around the session: its configuration (\<^verbatim>\<open>src/auth/session.rs\<close>), flash
  messages (\<^verbatim>\<open>src/auth/flash.rs\<close>), authorization (\<^verbatim>\<open>src/auth/policy.rs\<close>), password confirmation
  (\<^verbatim>\<open>src/auth/flows/confirm.rs\<close>), credential checks (\<^verbatim>\<open>src/auth/flows/credentials.rs\<close>) and the
  verification of email addresses (\<^verbatim>\<open>src/auth/flows/verification.rs\<close>).  The serializations of the stored
  types, the password hash and HMAC are arguments.
\<close>

section \<open>Session configuration\<close>

datatype SigningKeyReason = WrongLength

datatype SessionConfigError =
    ZeroDuration string
  | InvalidSigningKey SigningKeyReason
  | EmptyCookieAttribute string
  | InsecureSessionCookie string

record SessionConfig =
  sc_cookie_name :: string
  sc_same_site :: SameSite
  sc_secure :: bool
  sc_http_only :: bool
  sc_path :: string
  sc_domain :: "string option"
  sc_max_age :: nat
  sc_absolute_max_age :: nat
  sc_signing_key :: bytes

definition session_config_new :: "bytes \<Rightarrow> (SessionConfigError, SessionConfig) result" where
  "session_config_new signing_key =
     (if length signing_key \<noteq> 64 then Err (InvalidSigningKey WrongLength)
      else Ok \<lparr>sc_cookie_name = ''__Host-id'', sc_same_site = Strict, sc_secure = True, sc_http_only = True, sc_path = ''/'',
        sc_domain = None, sc_max_age = 60 * 60 * 24 * 14 * 1000000000,
        sc_absolute_max_age = 60 * 60 * 24 * 30 * 1000000000, sc_signing_key = signing_key\<rparr>)"

definition session_config_dev :: "bytes \<Rightarrow> (SessionConfigError, SessionConfig) result" where
  "session_config_dev signing_key =
     (if length signing_key \<noteq> 64 then Err (InvalidSigningKey WrongLength)
      else Ok \<lparr>sc_cookie_name = ''arcature-id'', sc_same_site = Strict, sc_secure = False, sc_http_only = True, sc_path = ''/'',
        sc_domain = None, sc_max_age = 60 * 60 * 24 * 14 * 1000000000,
        sc_absolute_max_age = 60 * 60 * 24 * 30 * 1000000000, sc_signing_key = signing_key\<rparr>)"

definition sc_with_cookie_name :: "SessionConfig \<Rightarrow> string \<Rightarrow> SessionConfig" where
  "sc_with_cookie_name c n = c\<lparr>sc_cookie_name := n\<rparr>"

definition sc_with_same_site :: "SessionConfig \<Rightarrow> SameSite \<Rightarrow> SessionConfig" where
  "sc_with_same_site c v = c\<lparr>sc_same_site := v\<rparr>"

definition sc_with_secure :: "SessionConfig \<Rightarrow> bool \<Rightarrow> SessionConfig" where
  "sc_with_secure c v = c\<lparr>sc_secure := v\<rparr>"

definition sc_with_http_only :: "SessionConfig \<Rightarrow> bool \<Rightarrow> SessionConfig" where
  "sc_with_http_only c v = c\<lparr>sc_http_only := v\<rparr>"

definition sc_with_path :: "SessionConfig \<Rightarrow> string \<Rightarrow> SessionConfig" where
  "sc_with_path c v = c\<lparr>sc_path := v\<rparr>"

definition sc_with_domain :: "SessionConfig \<Rightarrow> string \<Rightarrow> SessionConfig" where
  "sc_with_domain c v = c\<lparr>sc_domain := Some v\<rparr>"

definition sc_with_max_age :: "SessionConfig \<Rightarrow> nat \<Rightarrow> SessionConfig" where
  "sc_with_max_age c v = c\<lparr>sc_max_age := v\<rparr>"

definition sc_with_absolute_max_age :: "SessionConfig \<Rightarrow> nat \<Rightarrow> SessionConfig" where
  "sc_with_absolute_max_age c v = c\<lparr>sc_absolute_max_age := v\<rparr>"

definition session_config_validate :: "SessionConfig \<Rightarrow> (SessionConfigError, unit) result" where
  "session_config_validate c =
     (if sc_cookie_name c = [] then Err (EmptyCookieAttribute ''name'')
      else if sc_path c = [] then Err (EmptyCookieAttribute ''path'')
      else if sc_max_age c = 0 then Err (ZeroDuration ''max_age'')
      else if sc_absolute_max_age c = 0 then Err (ZeroDuration ''absolute_max_age'')
      else if length (sc_signing_key c) \<noteq> 64 then Err (InvalidSigningKey WrongLength)
      else if \<not> sc_secure c \<and> starts_with ''__Host-'' (sc_cookie_name c) then Err (InsecureSessionCookie (sc_cookie_name c))
      else Ok ())"

text \<open>What the session manager of \<^verbatim>\<open>tower-sessions\<close> is built with; the idle bound is in seconds.\<close>

record session_layer =
  layer_name :: string
  layer_same_site :: SameSite
  layer_secure :: bool
  layer_http_only :: bool
  layer_path :: string
  layer_idle_seconds :: int
  layer_key :: bytes
  layer_domain :: "string option"

definition assemble_layer :: "SessionConfig \<Rightarrow> session_layer" where
  "assemble_layer c =
     \<lparr>layer_name = sc_cookie_name c, layer_same_site = sc_same_site c, layer_secure = sc_secure c,
      layer_http_only = sc_http_only c, layer_path = sc_path c,
      layer_idle_seconds = min (int (sc_max_age c div 1000000000)) (2 ^ 63 - 1),
      layer_key = sc_signing_key c, layer_domain = sc_domain c\<rparr>"

definition into_layer :: "SessionConfig \<Rightarrow> (SessionConfigError, session_layer) result" where
  "into_layer c = rbind (session_config_validate c) (\<lambda>_. Ok (assemble_layer c))"

section \<open>Flash messages\<close>

datatype FlashLevel = FlashSuccess | FlashErrorLevel | FlashWarning | FlashInfo

record FlashMessage =
  flash_level :: FlashLevel
  flash_message :: string

record Flash =
  flash_messages :: "FlashMessage list"
  flash_data :: "(string, string) btree"

definition FLASH_KEY :: string where
  "FLASH_KEY = ''_flash''"

definition FLASH_DATA_KEY :: string where
  "FLASH_DATA_KEY = ''_flash_data''"

datatype 'e FlashError = FlashSession "'e tower_session_error"

definition flash_is_empty :: "Flash \<Rightarrow> bool" where
  "flash_is_empty f = (flash_messages f = [] \<and> flash_data f = [])"

definition flash_get :: "Flash \<Rightarrow> string \<Rightarrow> string option" where
  "flash_get f k = bt_get (flash_data f) k"

definition flash_add :: "('s, 'e) session_ops \<Rightarrow> FlashMessage list codec \<Rightarrow> FlashLevel \<Rightarrow> string \<Rightarrow> 's \<Rightarrow> ('e FlashError, unit) result \<times> 's" where
  "flash_add op mc level message s =
     sbind (sess_get op mc s FLASH_KEY) (\<lambda>stored s1.
       let messages = (case stored of None \<Rightarrow> [] | Some ms \<Rightarrow> ms) @ [\<lparr>flash_level = level, flash_message = message\<rparr>] in
       sbind (sess_insert op mc s1 FLASH_KEY messages) (\<lambda>_ s2. (Ok (), s2)) FlashSession) FlashSession"

definition flash_from_request :: "('s, 'e) session_ops \<Rightarrow> FlashMessage list codec \<Rightarrow> (string, string) btree codec \<Rightarrow> 's \<Rightarrow> Flash \<times> 's" where
  "flash_from_request op mc dc s =
     (case sess_get op mc s FLASH_KEY of (r, s1) \<Rightarrow>
      case sess_remove op mc s1 FLASH_KEY of (_, s2) \<Rightarrow>
      case sess_get op dc s2 FLASH_DATA_KEY of (d, s3) \<Rightarrow>
      let messages = (case r of Ok (Some ms) \<Rightarrow> ms | _ \<Rightarrow> []);
          data = (case d of Ok (Some m) \<Rightarrow> m | _ \<Rightarrow> [])
      in (\<lparr>flash_messages = messages, flash_data = data\<rparr>,
          if data \<noteq> [] then snd (sess_remove op dc s3 FLASH_DATA_KEY) else s3))"

section \<open>Authorization\<close>

datatype AuthzError = Forbidden

definition authorize :: "('u \<Rightarrow> string \<Rightarrow> 'm \<Rightarrow> bool) \<Rightarrow> 'u \<Rightarrow> string \<Rightarrow> 'm \<Rightarrow> (AuthzError, unit) result" where
  "authorize check user action resource = (if check user action resource then Ok () else Err Forbidden)"

section \<open>Password confirmation\<close>

definition CONFIRMATION_SESSION_KEY :: string where
  "CONFIRMATION_SESSION_KEY = ''arcature.password_confirmed''"

definition DEFAULT_WINDOW :: nat where
  "DEFAULT_WINDOW = 15 * 60 * 1000000000"

record Confirmation =
  confirmed_subject :: string
  confirmed_at :: nat

datatype ConfirmationState = Fresh nat | Stale

definition is_fresh :: "ConfirmationState \<Rightarrow> bool" where
  "is_fresh s = (case s of Fresh _ \<Rightarrow> True | Stale \<Rightarrow> False)"

definition confirmation_remaining :: "ConfirmationState \<Rightarrow> nat option" where
  "confirmation_remaining s = (case s of Fresh r \<Rightarrow> Some r | Stale \<Rightarrow> None)"

record PasswordConfirmation =
  confirm_window :: nat
  confirm_key :: string

definition confirmation_new :: PasswordConfirmation where
  "confirmation_new = \<lparr>confirm_window = DEFAULT_WINDOW, confirm_key = CONFIRMATION_SESSION_KEY\<rparr>"

definition confirmation_window :: "PasswordConfirmation \<Rightarrow> nat \<Rightarrow> PasswordConfirmation" where
  "confirmation_window p w = p\<lparr>confirm_window := w\<rparr>"

definition confirmation_session_key :: "PasswordConfirmation \<Rightarrow> string \<Rightarrow> PasswordConfirmation" where
  "confirmation_session_key p k = p\<lparr>confirm_key := k\<rparr>"

definition record_verified :: "('s, 'e) session_ops \<Rightarrow> Confirmation codec \<Rightarrow> PasswordConfirmation \<Rightarrow> nat \<Rightarrow> string \<Rightarrow> 's \<Rightarrow>
    ('e SessionError, unit) result \<times> 's" where
  "record_verified op cc self now subject s =
     session_put op cc s (confirm_key self) \<lparr>confirmed_subject = subject, confirmed_at = now\<rparr>"

definition state_of :: "PasswordConfirmation \<Rightarrow> Confirmation option \<Rightarrow> string \<Rightarrow> nat \<Rightarrow> ConfirmationState" where
  "state_of self stored subject now =
     (case stored of
        None \<Rightarrow> Stale
      | Some stored \<Rightarrow>
          if confirmed_subject stored \<noteq> subject then Stale
          else if now < confirmed_at stored then Stale
          else let elapsed = (now - confirmed_at stored) * 1000000000 in
               if elapsed \<le> confirm_window self \<and> confirm_window self - elapsed \<noteq> 0
               then Fresh (confirm_window self - elapsed) else Stale)"

definition confirmation_state :: "('s, 'e) session_ops \<Rightarrow> Confirmation codec \<Rightarrow> PasswordConfirmation \<Rightarrow> nat \<Rightarrow> string \<Rightarrow> 's \<Rightarrow>
    ConfirmationState \<times> 's" where
  "confirmation_state op cc self now subject s =
     (case session_get op cc s (confirm_key self) of (r, s') \<Rightarrow>
        (state_of self (case r of Ok stored \<Rightarrow> stored | Err _ \<Rightarrow> None) subject now, s'))"

definition confirmation_forget :: "('s, 'e) session_ops \<Rightarrow> PasswordConfirmation \<Rightarrow> 's \<Rightarrow> ('e SessionError, unit) result \<times> 's" where
  "confirmation_forget op self s = sbind (session_forget op json_codec s (confirm_key self)) (\<lambda>_ s'. (Ok (), s')) (\<lambda>e. e)"

section \<open>Checking credentials\<close>

definition ABSENT_USER_PLAINTEXT :: bytes where
  "ABSENT_USER_PLAINTEXT = as_bytes ''arcature/absent-user/not-a-password''"

datatype CredentialOutcome = Verified | Rejected

record 'h CredentialChecker =
  absent_hash :: 'h
  verifications :: "64 word"

definition checker_new :: "(bytes \<Rightarrow> ('e, 'h) result) \<Rightarrow> ('e, 'h CredentialChecker) result" where
  "checker_new hash_password = rbind (hash_password ABSENT_USER_PLAINTEXT) (\<lambda>h. Ok \<lparr>absent_hash = h, verifications = 0\<rparr>)"

definition check_credentials :: "(bytes \<Rightarrow> 'h \<Rightarrow> ('e, unit) result) \<Rightarrow> 'h CredentialChecker \<Rightarrow> 'h option \<Rightarrow> bytes \<Rightarrow>
    CredentialOutcome \<times> 'h CredentialChecker" where
  "check_credentials verify_password self stored presented =
     (let (h, account_exists) = (case stored of Some h \<Rightarrow> (h, True) | None \<Rightarrow> (absent_hash self, False));
          self' = self\<lparr>verifications := verifications self + 1\<rparr>;
          password_matched = is_ok (verify_password presented h)
      in (if account_exists \<and> password_matched then Verified else Rejected, self'))"

section \<open>Verifying an email address\<close>

definition BINDING_LABEL :: bytes where
  "BINDING_LABEL = as_bytes ''arcature/auth-flows/email-binding''"

definition DEFAULT_PATH :: string where
  "DEFAULT_PATH = ''/email/verify''"

definition DEFAULT_VALID_FOR :: nat where
  "DEFAULT_VALID_FOR = 60 * 60"

datatype EmailVerificationError = Link SignedUrlError | AddressChanged

record EmailVerification =
  ev_signer :: UrlSigner
  binding_key :: bytes
  ev_path :: string
  ev_valid_for :: nat

definition email_verification_new :: "hmac \<Rightarrow> AppKey \<Rightarrow> string \<Rightarrow> EmailVerification" where
  "email_verification_new hmac key base_url =
     \<lparr>ev_signer = url_signer_new hmac key base_url, binding_key = subkey hmac key BINDING_LABEL,
      ev_path = DEFAULT_PATH, ev_valid_for = DEFAULT_VALID_FOR\<rparr>"

definition email_verification_path :: "EmailVerification \<Rightarrow> string \<Rightarrow> EmailVerification" where
  "email_verification_path self p = self\<lparr>ev_path := p\<rparr>"

definition email_verification_valid_for :: "EmailVerification \<Rightarrow> nat \<Rightarrow> EmailVerification" where
  "email_verification_valid_for self d = self\<lparr>ev_valid_for := d\<rparr>"

definition binding_input :: "string \<Rightarrow> string \<Rightarrow> bytes" where
  "binding_input user_key email = feed (as_bytes user_key) @ feed (as_bytes email)"

definition binding_of :: "hmac \<Rightarrow> EmailVerification \<Rightarrow> string \<Rightarrow> string \<Rightarrow> string" where
  "binding_of hmac self user_key email = encode (hmac (binding_key self) (binding_input user_key email))"

definition verification_path :: "hmac \<Rightarrow> percent_encode \<Rightarrow> EmailVerification \<Rightarrow> string \<Rightarrow> string \<Rightarrow> string" where
  "verification_path hmac pe self user_key email =
     trim_end_matches (\<lambda>c. c = CHR ''/'') (ev_path self) @ ''/'' @ pe user_key @ ''/'' @ binding_of hmac self user_key email"

definition email_link :: "hmac \<Rightarrow> percent_encode \<Rightarrow> EmailVerification \<Rightarrow> nat \<Rightarrow> string \<Rightarrow> string \<Rightarrow> (EmailVerificationError, string) result" where
  "email_link hmac pe self now user_key email =
     (case sign_temporary hmac pe (ev_signer self) now (verification_path hmac pe self user_key email) [] (ev_valid_for self) of
        Err e \<Rightarrow> Err (Link e) | Ok url \<Rightarrow> Ok url)"

definition email_confirm :: "hmac \<Rightarrow> percent_decode \<Rightarrow> EmailVerification \<Rightarrow> nat \<Rightarrow> string \<Rightarrow> string \<Rightarrow> string \<Rightarrow> string \<Rightarrow>
    (EmailVerificationError, unit) result" where
  "email_confirm hmac pd self now url user_key binding current_email =
     (case verify hmac pd (ev_signer self) now url of
        Err e \<Rightarrow> Err (Link e)
      | Ok _ \<Rightarrow>
          let expected = binding_of hmac self user_key current_email in
          if as_bytes binding \<noteq> as_bytes expected then Err AddressChanged else Ok ())"

section \<open>Properties\<close>

text \<open>A configuration that builds a layer keeps the promises of its cookie, and the two built-in ones build one.\<close>

lemma layer_is_sound:
  "into_layer c = Ok l \<Longrightarrow> layer_name l \<noteq> [] \<and> layer_path l \<noteq> [] \<and> length (layer_key l) = 64 \<and>
     (starts_with ''__Host-'' (layer_name l) \<longrightarrow> layer_secure l)"
  by (auto simp: into_layer_def session_config_validate_def assemble_layer_def split: if_splits)

lemma built_in_configs_build:
  "length key = 64 \<Longrightarrow> is_ok (rbind (session_config_new key) into_layer) \<and> is_ok (rbind (session_config_dev key) into_layer)"
  by (simp add: session_config_new_def session_config_dev_def into_layer_def session_config_validate_def starts_with_def)

text \<open>Every handle operation answers.\<close>

definition answering :: "('s, 'e) session_ops \<Rightarrow> bool" where
  "answering op \<longleftrightarrow> (\<forall>s k. is_ok (fst (raw_get op s k))) \<and> (\<forall>s k v. is_ok (fst (raw_insert op s k v))) \<and>
     (\<forall>s k. is_ok (fst (raw_remove op s k)))"

lemma answers:
  assumes "session_laws op view sid" "answering op"
  shows get_answer: "sess_get op c s k = (deserialized c (Ok (view s k)), snd (raw_get op s k))"
    and get_keeps: "view (snd (raw_get op s k)) = view s"
    and remove_answer: "sess_remove op c s k = (deserialized c (Ok (view s k)), snd (raw_remove op s k))"
    and remove_drops: "view (snd (raw_remove op s k)) = (view s)(k := None)"
    and insert_answer: "sess_insert op c s k a = (Ok (), snd (raw_insert op s k (ser c a)))"
    and insert_adds: "view (snd (raw_insert op s k v)) = (view s)(k \<mapsto> v)"
proof -
  have g: "raw_get op s k = (Ok (view s k), snd (raw_get op s k)) \<and> view (snd (raw_get op s k)) = view s" for k
    using assms unfolding session_laws_def answering_def
    by (cases "raw_get op s k") (metis fst_conv is_ok_simps(1) obj_sumE snd_conv)
  have r: "raw_remove op s k = (Ok (view s k), snd (raw_remove op s k)) \<and> view (snd (raw_remove op s k)) = (view s)(k := None)" for k
    using assms unfolding session_laws_def answering_def
    by (cases "raw_remove op s k") (metis fst_conv is_ok_simps(1) obj_sumE snd_conv)
  have i: "raw_insert op s k v = (Ok (), snd (raw_insert op s k v)) \<and> view (snd (raw_insert op s k v)) = (view s)(k \<mapsto> v)" for k v
    using assms unfolding session_laws_def answering_def
    by (cases "raw_insert op s k v") (metis fst_conv is_ok_simps(1) obj_sumE old.unit.exhaust snd_conv)
  show "sess_get op c s k = (deserialized c (Ok (view s k)), snd (raw_get op s k))"
    unfolding sess_get_def by (subst conjunct1 [OF g]) simp
  show "sess_remove op c s k = (deserialized c (Ok (view s k)), snd (raw_remove op s k))"
    unfolding sess_remove_def by (subst conjunct1 [OF r]) simp
  show "sess_insert op c s k a = (Ok (), snd (raw_insert op s k (ser c a)))"
    unfolding sess_insert_def by (subst conjunct1 [OF i]) simp
  show "view (snd (raw_get op s k)) = view s" "view (snd (raw_remove op s k)) = (view s)(k := None)"
    "view (snd (raw_insert op s k v)) = (view s)(k \<mapsto> v)"
    using g r i by blast+
qed

text \<open>A handler that flashes several messages, ignoring what each call returns.\<close>

fun flash_all :: "('s, 'e) session_ops \<Rightarrow> FlashMessage list codec \<Rightarrow> FlashMessage list \<Rightarrow> 's \<Rightarrow> 's" where
  "flash_all op mc [] s = s"
| "flash_all op mc (m # ms) s = flash_all op mc ms (snd (flash_add op mc (flash_level m) (flash_message m) s))"

definition flashed :: "FlashMessage list codec \<Rightarrow> json option \<Rightarrow> FlashMessage list" where
  "flashed mc v = (case v of None \<Rightarrow> [] | Some j \<Rightarrow> (case de mc j of None \<Rightarrow> [] | Some ms \<Rightarrow> ms))"

lemma flash_keys_differ: "FLASH_KEY \<noteq> FLASH_DATA_KEY"
  by (simp add: FLASH_KEY_def FLASH_DATA_KEY_def)

lemma flash_message_eta [simp]: "\<lparr>flash_level = flash_level m, flash_message = flash_message m\<rparr> = m"
  by (cases m) simp

lemma flash_add_view:
  assumes laws: "session_laws op view sid" "answering op" and "codec_ok mc"
    and "decoded mc (view s FLASH_KEY) = Some stored"
  shows "view (snd (flash_add op mc level message s)) = (view s)(FLASH_KEY \<mapsto>
    ser mc ((case stored of None \<Rightarrow> [] | Some ms \<Rightarrow> ms) @ [\<lparr>flash_level = level, flash_message = message\<rparr>]))"
proof -
  have "sess_get op mc s FLASH_KEY = (Ok stored, snd (raw_get op s FLASH_KEY))"
    using assms(4) by (auto simp: get_answer [OF laws] deserialized_def decoded_def split: option.splits)
  then show ?thesis
    by (simp add: flash_add_def answers(2,5,6) [OF laws] Let_def)
qed

lemma flash_all_view:
  assumes "session_laws op view sid" "answering op" "codec_ok mc" "view s FLASH_KEY = Some (ser mc before)"
  shows "view (flash_all op mc ms s) FLASH_KEY = Some (ser mc (before @ ms))"
  using assms(4)
proof (induction ms arbitrary: s before)
  case (Cons m ms)
  have "decoded mc (view s FLASH_KEY) = Some (Some before)"
    using Cons.prems assms(3) by simp
  from flash_add_view [OF assms(1-3) this, of "flash_level m" "flash_message m"]
  have "view (snd (flash_add op mc (flash_level m) (flash_message m) s)) FLASH_KEY = Some (ser mc (before @ [m]))"
    by simp
  from Cons.IH [OF this] show ?case
    by simp
qed simp

lemma flash_all_from_none:
  assumes "session_laws op view sid" "answering op" "codec_ok mc" "view s FLASH_KEY = None" "ms \<noteq> []"
  shows "view (flash_all op mc ms s) FLASH_KEY = Some (ser mc ms)"
proof -
  obtain m rest where ms: "ms = m # rest"
    using assms(5) by (cases ms) auto
  have "view (snd (flash_add op mc (flash_level m) (flash_message m) s)) FLASH_KEY = Some (ser mc [m])"
    using flash_add_view [OF assms(1-3), of s None] assms(4) by simp
  from flash_all_view [OF assms(1-3) this] show ?thesis
    by (simp add: ms)
qed

lemma flash_taken:
  assumes laws: "session_laws op view sid" "answering op"
  shows "flash_messages (fst (flash_from_request op mc dc s)) = flashed mc (view s FLASH_KEY)"
    and "view (snd (flash_from_request op mc dc s)) FLASH_KEY = None"
  by (simp_all add: flash_from_request_def answers [OF laws] Let_def flashed_def deserialized_def flash_keys_differ split: option.splits)

text \<open>
  Flash messages survive to exactly one later request: the messages a request flashes are read back
  by the next, all of them and in order, and by none after it.
\<close>
theorem flash_shown_once:
  assumes "session_laws op view sid" "answering op" and "codec_ok mc" and "view s FLASH_KEY = None"
  shows "flash_messages (fst (flash_from_request op mc dc (flash_all op mc ms s))) = ms \<and>
    flash_messages (fst (flash_from_request op mc dc (snd (flash_from_request op mc dc (flash_all op mc ms s))))) = []"
proof -
  have "flashed mc (view (flash_all op mc ms s) FLASH_KEY) = ms"
    using flash_all_from_none [OF assms] assms(3,4) by (cases "ms = []") (auto simp: flashed_def codec_ok_def)
  then show ?thesis
    using flash_taken [OF assms(1,2), of mc dc] by (simp add: flashed_def)
qed

definition flash_level_json :: "FlashLevel \<Rightarrow> json" where
  "flash_level_json l = JString (case l of FlashSuccess \<Rightarrow> ''success'' | FlashErrorLevel \<Rightarrow> ''error'' | FlashWarning \<Rightarrow> ''warning'' | FlashInfo \<Rightarrow> ''info'')"

definition flash_level_of :: "json \<Rightarrow> FlashLevel" where
  "flash_level_of j = (if j = JString ''success'' then FlashSuccess else if j = JString ''error'' then FlashErrorLevel
     else if j = JString ''warning'' then FlashWarning else FlashInfo)"

definition sample_messages :: "FlashMessage list codec" where
  "sample_messages = \<lparr>ser = (\<lambda>ms. JArray (map (\<lambda>m. JArray [flash_level_json (flash_level m), JString (flash_message m)]) ms)),
     de = (\<lambda>v. case v of JArray vs \<Rightarrow> Some (map (\<lambda>p. case p of JArray [l, JString m] \<Rightarrow> \<lparr>flash_level = flash_level_of l, flash_message = m\<rparr>) vs)
       | _ \<Rightarrow> None)\<rparr>"

lemma sample_messages_ok: "codec_ok sample_messages"
proof -
  have "flash_level_of (flash_level_json l) = l" for l
    by (cases l) (simp_all add: flash_level_of_def flash_level_json_def)
  then show ?thesis
    by (simp add: codec_ok_def sample_messages_def comp_def)
qed

theorem flash_shown_once_witness:
  "flash_messages (fst (flash_from_request sample_ops sample_messages \<lparr>ser = (\<lambda>_. JNull), de = (\<lambda>_. None)\<rparr>
     (flash_all sample_ops sample_messages [\<lparr>flash_level = FlashInfo, flash_message = ''hi''\<rparr>] (Map.empty, 0)))) =
   [\<lparr>flash_level = FlashInfo, flash_message = ''hi''\<rparr>]"
proof -
  have "answering sample_ops"
    by (simp add: answering_def sample_ops_def)
  from flash_shown_once [OF sample_laws this sample_messages_ok, of "(Map.empty, 0)"] show ?thesis
    unfolding fst_conv by blast
qed

text \<open>
  A confirmed password stays confirmed for its subject, from the second it was recorded until the window
  has passed and not a second longer, with what is left of the window; for another subject, before that
  second, and with a zero window it is not confirmed at all.
\<close>
theorem confirmation_holds_for_window:
  assumes "session_laws op view sid" and "codec_ok cc" and "record_verified op cc self t subject s = (Ok (), s1)"
    and "view s2 = view s1" and "is_ok (fst (sess_get op cc s2 (confirm_key self)))"
  shows "fst (confirmation_state op cc self now subject' s2) =
    (if subject' = subject \<and> t \<le> now \<and> (now - t) * 1000000000 < confirm_window self
     then Fresh (confirm_window self - (now - t) * 1000000000) else Stale)"
proof -
  let ?c = "\<lparr>confirmed_subject = subject, confirmed_at = t\<rparr>"
  have "view s1 = (view s)(confirm_key self \<mapsto> ser cc ?c)"
    using assms(3) by (auto simp: record_verified_def session_put_def sbind_eq_Ok_iff dest: sess_insert_Ok [OF assms(1)])
  moreover obtain r s3 where g: "sess_get op cc s2 (confirm_key self) = (Ok r, s3)"
    using assms(5) by (cases "sess_get op cc s2 (confirm_key self)"; cases "fst (sess_get op cc s2 (confirm_key self))") auto
  ultimately have "r = Some ?c"
    using sess_get_Ok(2) [OF assms(1) g] assms(2,4) by simp
  then show ?thesis
    by (auto simp: confirmation_state_def session_get_def g state_of_def Let_def)
qed

definition sample_confirmations :: "Confirmation codec" where
  "sample_confirmations = \<lparr>ser = (\<lambda>c. JArray [JString (confirmed_subject c), JArray (replicate (confirmed_at c) JNull)]),
     de = (\<lambda>v. case v of JArray [JString s, JArray ns] \<Rightarrow> Some \<lparr>confirmed_subject = s, confirmed_at = length ns\<rparr> | _ \<Rightarrow> None)\<rparr>"

theorem confirmation_holds_for_window_witness:
  "fst (confirmation_state sample_ops sample_confirmations confirmation_new 11 ''u'' (Map.empty(CONFIRMATION_SESSION_KEY \<mapsto>
     JArray [JString ''u'', JArray (replicate 10 JNull)]), 0)) = Fresh (899 * 1000000000)"
proof -
  have ok: "codec_ok sample_confirmations"
    by (simp add: codec_ok_def sample_confirmations_def)
  have "record_verified sample_ops sample_confirmations confirmation_new 10 ''u'' (Map.empty, 0) =
      (Ok (), (Map.empty(CONFIRMATION_SESSION_KEY \<mapsto> JArray [JString ''u'', JArray (replicate 10 JNull)]), 0))"
    by (simp only: record_verified_def session_put_def sample_steps) (simp add: sample_confirmations_def confirmation_new_def)
  from confirmation_holds_for_window [OF sample_laws ok this refl, of 11 "''u''"] show ?thesis
    by (simp add: sample_steps confirmation_new_def DEFAULT_WINDOW_def deserialized_def sample_confirmations_def)
qed

text \<open>The binding names one pair: bytes cannot move from the key to the address.\<close>

lemma binding_input_inject:
  assumes "length k < 2 ^ 64" "length k' < 2 ^ 64" "length e < 2 ^ 64" "length e' < 2 ^ 64"
  shows "binding_input k e = binding_input k' e' \<longleftrightarrow> k = k' \<and> e = e'"
  using feed_append_inject [of "as_bytes k" "as_bytes k'"] feed_append_inject [of "as_bytes e" "as_bytes e'" "[]" "[]"] assms
  by (auto simp: binding_input_def)

lemma encode_inject: "encode a = encode b \<longleftrightarrow> a = b"
  using decode_encode_aux [of a] decode_encode_aux [of b] by (metis option.inject)

text \<open>
  C38.  A verification link proves the address it was mailed to and no other: until its deadline it confirms
  the account while the account still has that address, it is refused as changed once the account has
  another (unless HMAC maps the two pairs to one value), and it is refused as expired afterwards.
\<close>
theorem link_proves_address:
  assumes "percent_contract pe pd" and "email_link hmac pe self now user_key email = Ok url"
    and "hmac (binding_key self) (binding_input user_key email) = hmac (binding_key self) (binding_input user_key current) \<longrightarrow>
      binding_input user_key email = binding_input user_key current"
    and "length user_key < 2 ^ 64" "length email < 2 ^ 64" "length current < 2 ^ 64"
  shows "email_confirm hmac pd self later url user_key (binding_of hmac self user_key email) current =
    (if \<not> (later \<le> now + ev_valid_for self \<and> later \<le> U64_MAX) then Err (Link SignedUrlError.Expired)
     else if current = email then Ok () else Err AddressChanged)"
proof -
  have "sign_temporary hmac pe (ev_signer self) now (verification_path hmac pe self user_key email) [] (ev_valid_for self) = Ok url"
    using assms(2) by (auto simp: email_link_def split: sum.splits)
  then have v: "verify hmac pd (ev_signer self) later url =
      (if later \<le> now + ev_valid_for self \<and> later \<le> U64_MAX then Ok () else Err SignedUrlError.Expired)"
    using verify_built [OF assms(1), of "[]"] by (auto simp: sign_temporary_def rust_pairs_def)
  have "binding_of hmac self user_key email = binding_of hmac self user_key current \<longleftrightarrow> current = email"
    using assms(3-6) binding_input_inject [of user_key user_key email current] encode_inject by (auto simp: binding_of_def)
  then show ?thesis
    by (simp add: email_confirm_def v Let_def)
qed

definition sample_verification :: EmailVerification where
  "sample_verification = email_verification_new demo_hmac \<lparr>inner = replicate 64 7\<rparr> ''https://x.test''"

theorem link_proves_address_witness:
  "\<exists>url. email_link demo_hmac demo_pe sample_verification 5 ''7'' ''a@x'' = Ok url \<and>
     email_confirm demo_hmac demo_pd sample_verification 9 url ''7'' (binding_of demo_hmac sample_verification ''7'' ''a@x'') ''a@x'' = Ok ()"
proof -
  let ?p = "verification_path demo_hmac demo_pe sample_verification ''7'' ''a@x''"
  have "CHR ''?'' \<notin> set ?p \<and> CHR ''#'' \<notin> set ?p"
    using encode_avoids [of "CHR ''?''"] encode_avoids [of "CHR ''#''"]
    by (simp add: verification_path_def sample_verification_def email_verification_new_def DEFAULT_PATH_def trim_end_matches_def
        demo_pe_def binding_of_def ALPHABET_def unreserved_def is_ascii_alphanumeric_def)
  then obtain url where url: "email_link demo_hmac demo_pe sample_verification 5 ''7'' ''a@x'' = Ok url"
    by (simp add: email_link_def sign_temporary_def build_def Let_def)
  with link_proves_address [OF demo_percent url, of "''a@x''" 9] show ?thesis
    by (simp add: sample_verification_def email_verification_new_def DEFAULT_VALID_FOR_def U64_MAX_def)
qed

text \<open>
  One password verification runs whether the account exists or not, and only an account that exists and
  whose hash the password matches is verified.
\<close>

lemma check_is_uniform:
  assumes "check_credentials verify_password self stored presented = (outcome, self')"
  shows "verifications self' = verifications self + 1 \<and> absent_hash self' = absent_hash self \<and>
    (outcome = Verified \<longleftrightarrow> (\<exists>h. stored = Some h \<and> is_ok (verify_password presented h)))"
  using assms by (auto simp: check_credentials_def Let_def split: option.splits if_splits)

end
