(* ===== verification/Realtime.thy ===== *)
theory Realtime
  imports Header_Map
begin

text \<open>
  WebSocket and server-sent event endpoints: \<^verbatim>\<open>src/realtime/\<close>.

  The connection registry and the subscriber count of a channel are atomic counters that several
  tasks raise and lower without a lock.  Each atomic instruction of \<^verbatim>\<open>acquire\<close> and \<^verbatim>\<open>drop\<close> is one step
  of the relation \<open>counter_step\<close>, and any task may take the next one; a weak compare-and-exchange may
  also fail for no reason.  The select loop of a WebSocket connection consumes a list of events, in
  whatever order they became ready; a send is taken to return, and whether it succeeded is ignored, as
  in the code.
\<close>

section \<open>Errors and origins\<close>

datatype ChannelError = Lagged | Closed | Full

datatype ProtocolHint = Oversize | Malformed | Utf8 | Stream

datatype RealtimeError = Origin | Unauthorized | ConnectionLimit | Protocol ProtocolHint | Channel ChannelError | Shutdown nat

fun admission_status :: "RealtimeError \<Rightarrow> nat" where
  "admission_status Origin = 403"
| "admission_status Unauthorized = 403"
| "admission_status ConnectionLimit = 503"
| "admission_status (Protocol _) = 500"
| "admission_status (Channel _) = 500"
| "admission_status (Shutdown _) = 500"

datatype OriginDecision = Allowed | Denied

datatype OriginPolicy = DenyAll | AllowExact string | AllowSet "string list"

definition origin_from_header :: "string \<Rightarrow> string option" where
  "origin_from_header v =
     Option.bind (to_str v) (\<lambda>s. if \<not> list_all (\<lambda>c. (of_char c :: nat) < 128) s then None else Some s)"

fun origin_authorize :: "OriginPolicy \<Rightarrow> string option \<Rightarrow> OriginDecision" where
  "origin_authorize DenyAll header = Denied"
| "origin_authorize (AllowExact origin) header =
     (if Option.bind header origin_from_header = Some origin then Allowed else Denied)"
| "origin_authorize (AllowSet origins) header =
     (case Option.bind header origin_from_header of
        Some v \<Rightarrow> if v \<in> set origins then Allowed else Denied | None \<Rightarrow> Denied)"

section \<open>Counters\<close>

text \<open>Where a task is: on its way in, holding a guard, on its way out.  \<open>Limited\<close> is \<^verbatim>\<open>Registry::acquire\<close>
  with its bound, \<open>Unlimited\<close> is \<^verbatim>\<open>Broadcast::subscribe\<close>.\<close>

datatype entry = Limited nat | Unlimited

datatype task = Idle | Entering entry | Loaded nat nat | Holding | Dropping | DropLoaded nat | Refused | Gone

definition acquire_load :: "nat \<Rightarrow> nat \<Rightarrow> task" where
  "acquire_load bound live = (if live \<ge> bound then Refused else Loaded bound live)"

definition acquire_cas :: "bool \<Rightarrow> nat \<Rightarrow> nat \<Rightarrow> nat \<Rightarrow> task \<times> nat" where
  "acquire_cas spurious bound current live =
     (if live = current \<and> \<not> spurious then (Holding, current + 1) else (Entering (Limited bound), live))"

definition subscribe :: "nat \<Rightarrow> task \<times> nat" where
  "subscribe live = (Holding, live + 1)"

definition drop_load :: "nat \<Rightarrow> task" where
  "drop_load live = (if live = 0 then Gone else DropLoaded live)"

definition drop_cas :: "bool \<Rightarrow> nat \<Rightarrow> nat \<Rightarrow> task \<times> nat" where
  "drop_cas spurious current live =
     (if live = current \<and> \<not> spurious then (Gone, current - 1) else (Dropping, live))"

record counter =
  live :: nat
  tasks :: "nat \<Rightarrow> task"

definition at_task :: "counter \<Rightarrow> nat \<Rightarrow> task \<times> nat \<Rightarrow> counter" where
  "at_task s t r = s\<lparr>live := snd r, tasks := (tasks s)(t := fst r)\<rparr>"

inductive counter_step :: "counter \<Rightarrow> counter \<Rightarrow> bool" where
  enter: "tasks s t = Idle \<Longrightarrow> counter_step s (at_task s t (Entering e, live s))"
| acquire_load: "tasks s t = Entering (Limited bound) \<Longrightarrow> counter_step s (at_task s t (acquire_load bound (live s), live s))"
| acquire_cas: "tasks s t = Loaded bound current \<Longrightarrow> counter_step s (at_task s t (acquire_cas spurious bound current (live s)))"
| subscribe: "tasks s t = Entering Unlimited \<Longrightarrow> counter_step s (at_task s t (subscribe (live s)))"
| drop: "tasks s t = Holding \<Longrightarrow> counter_step s (at_task s t (Dropping, live s))"
| drop_load: "tasks s t = Dropping \<Longrightarrow> counter_step s (at_task s t (drop_load (live s), live s))"
| drop_cas: "tasks s t = DropLoaded current \<Longrightarrow> counter_step s (at_task s t (drop_cas spurious current (live s)))"



definition counter_new :: counter where
  "counter_new = \<lparr>live = 0, tasks = (\<lambda>_. Idle)\<rparr>"

definition drain_outcome :: "nat \<Rightarrow> nat \<Rightarrow> (RealtimeError, unit) result" where
  "drain_outcome before after =
     (if before = 0 then Ok () else if after > 0 then Err (Shutdown after) else Ok ())"

section \<open>Endpoints\<close>

record ShutdownConfig =
  max_connections :: nat
  draining :: bool

definition begin_drain :: "ShutdownConfig \<Rightarrow> ShutdownConfig" where
  "begin_drain c = c\<lparr>draining := True\<rparr>"

text \<open>Admission up to the first instruction that touches the counter: refused with a status, or on to
  \<^verbatim>\<open>acquire\<close>.\<close>

definition sse_admission :: "OriginPolicy \<Rightarrow> headers \<Rightarrow> (nat, unit) result" where
  "sse_admission policy hs =
     (if origin_authorize policy (hm_get hs ''origin'') = Denied then Err (admission_status Origin) else Ok ())"

definition ws_admission :: "OriginPolicy \<Rightarrow> (headers \<Rightarrow> string \<Rightarrow> 'b option) \<Rightarrow> headers \<Rightarrow> string \<Rightarrow> (nat, 'b) result" where
  "ws_admission policy authorizer hs channel_id =
     (if origin_authorize policy (hm_get hs ''origin'') = Denied then Err (admission_status Origin)
      else case authorizer hs channel_id of
             Some b \<Rightarrow> Ok b | None \<Rightarrow> Err (admission_status Unauthorized))"

text \<open>One poll of the event stream of a server-sent event response; \<open>received\<close> is what the channel gives.\<close>

datatype sse_event = Retry nat | Data string | Comment string

definition sse_next :: "bool \<Rightarrow> (ChannelError, bytes) result \<Rightarrow> sse_event option" where
  "sse_next is_draining received =
     (if is_draining then None
      else case received of
             Ok payload \<Rightarrow> Some (Data (if valid_utf8 payload then of_bytes payload else []))
           | Err Closed \<Rightarrow> None
           | Err Lagged \<Rightarrow> Some (Comment ''lagged'')
           | Err Full \<Rightarrow> Some (Comment ''full''))"

record WsLimits =
  heartbeat_interval :: nat
  heartbeat_timeout :: nat

datatype inbound = InClose | InPong | InOther

datatype ws_event =
    Drain
  | Received "inbound option" nat
  | Subscribed "(ChannelError, bytes) result"
  | Tick nat

datatype outbound = OutClose | OutBinary bytes | OutPing

text \<open>One turn of the select loop: what is handed to the socket (an error of \<^verbatim>\<open>send\<close> is ignored), and the instant of the last pong, or \<open>None\<close> to leave.\<close>

fun ws_turn :: "WsLimits \<Rightarrow> nat \<Rightarrow> ws_event \<Rightarrow> outbound list \<times> nat option" where
  "ws_turn limits last_pong Drain = ([OutClose], None)"
| "ws_turn limits last_pong (Received (Some InClose) now) = ([], None)"
| "ws_turn limits last_pong (Received (Some InPong) now) = ([], Some now)"
| "ws_turn limits last_pong (Received (Some InOther) now) = ([], Some last_pong)"
| "ws_turn limits last_pong (Received None now) = ([], None)"
| "ws_turn limits last_pong (Subscribed (Inr payload)) = ([OutBinary payload], Some last_pong)"
| "ws_turn limits last_pong (Subscribed (Inl e)) = (case e of Closed \<Rightarrow> ([], None) | _ \<Rightarrow> ([], Some last_pong))"
| "ws_turn limits last_pong (Tick now) =
     (if now - last_pong > heartbeat_timeout limits then ([OutClose], None) else ([OutPing], Some last_pong))"

text \<open>The loop over the events there are; the flag says whether the connection is over.\<close>

fun run_connection :: "WsLimits \<Rightarrow> nat \<Rightarrow> ws_event list \<Rightarrow> outbound list \<times> bool" where
  "run_connection limits last_pong [] = ([], False)"
| "run_connection limits last_pong (e # es) =
     (case ws_turn limits last_pong e of
        (out, None) \<Rightarrow> (out, True)
      | (out, Some p) \<Rightarrow> (case run_connection limits p es of (rest, over) \<Rightarrow> (out @ rest, over)))"

section \<open>The counter counts its guards\<close>

definition counted :: "task \<Rightarrow> bool" where
  "counted k = (k = Holding \<or> k = Dropping \<or> (\<exists>c. k = DropLoaded c))"

definition guards :: "counter \<Rightarrow> nat set" where
  "guards s = {t. counted (tasks s t)}"

definition bounds_below :: "nat \<Rightarrow> counter \<Rightarrow> bool" where
  "bounds_below m s \<longleftrightarrow> (\<forall>t. tasks s t \<noteq> Entering Unlimited \<and> (\<forall>b. tasks s t = Entering (Limited b) \<longrightarrow> b \<le> m) \<and>
     (\<forall>b c. tasks s t = Loaded b c \<longrightarrow> b \<le> m))"

definition counter_inv :: "counter \<Rightarrow> bool" where
  "counter_inv s \<longleftrightarrow> finite (guards s) \<and> live s = card (guards s) \<and>
     (\<forall>t. \<forall>b c. tasks s t = Loaded b c \<longrightarrow> c < b) \<and> (\<forall>t. \<forall>c. tasks s t = DropLoaded c \<longrightarrow> 0 < c)"

lemma counted_simps [simp]:
  "counted Holding" "counted Dropping" "counted (DropLoaded c)"
  "\<not> counted Idle" "\<not> counted (Entering e)" "\<not> counted (Loaded b c)" "\<not> counted Refused" "\<not> counted Gone"
  by (auto simp: counted_def)

lemma guards_at: "guards (at_task s t r) = (if counted (fst r) then insert t (guards s) else guards s - {t})"
  by (auto simp: guards_def at_task_def)

lemma in_guards [simp]: "t \<in> guards s \<longleftrightarrow> counted (tasks s t)"
  by (simp add: guards_def)

lemma live_at [simp]: "live (at_task s t r) = snd r" "tasks (at_task s t r) = (tasks s)(t := fst r)"
  by (simp_all add: at_task_def)

lemma guard_means_live:
  assumes "counter_inv s" "counted (tasks s t)"
  shows "0 < live s"
proof -
  have "t \<in> guards s"
    using assms(2) by simp
  then have "guards s \<noteq> {}"
    by blast
  with assms(1) show ?thesis
    by (simp add: counter_inv_def card_gt_0_iff)
qed

lemma counter_inv_step:
  assumes "counter_step s s'" "counter_inv s"
  shows "counter_inv s'"
  using assms
proof (cases rule: counter_step.cases)
  case (acquire_load t bound)
  then show ?thesis
    using assms(2) by (auto simp: counter_inv_def guards_at acquire_load_def insert_absorb Diff_insert_absorb)
next
  case (drop_load t)
  then have "0 < live s"
    using guard_means_live [OF assms(2), of t] by simp
  then show ?thesis
    using assms(2) drop_load by (auto simp: counter_inv_def guards_at drop_load_def insert_absorb)
next
  case (drop_cas t current spurious)
  then show ?thesis
    using assms(2) by (auto simp: counter_inv_def guards_at drop_cas_def insert_absorb card_Diff_singleton)
qed (auto simp: counter_inv_def guards_at acquire_cas_def subscribe_def insert_absorb)

text \<open>Runs in which every entry is an \<^verbatim>\<open>acquire\<close> with a bound of at most \<open>m\<close>.\<close>

definition limited_step :: "nat \<Rightarrow> counter \<Rightarrow> counter \<Rightarrow> bool" where
  "limited_step m s s' \<longleftrightarrow> counter_step s s' \<and> bounds_below m s'"

lemma live_within_step:
  assumes "counter_step s s'" "counter_inv s" "bounds_below m s" "live s \<le> m"
  shows "live s' \<le> m"
  using assms(1)
proof (cases rule: counter_step.cases)
  case (acquire_cas t bound current spurious)
  then have "current < bound" "bound \<le> m"
    using assms(2,3) by (auto simp: counter_inv_def bounds_below_def)
  then show ?thesis
    using acquire_cas assms(4) by (auto simp: acquire_cas_def)
next
  case (subscribe t)
  then show ?thesis
    using assms(3) by (auto simp: bounds_below_def)
qed (use assms(4) in \<open>auto simp: drop_cas_def\<close>)

lemma counter_inv_new: "counter_inv counter_new" "bounds_below m counter_new" "live counter_new = 0"
  by (simp_all add: counter_inv_def bounds_below_def counter_new_def guards_def)

lemma reachable_counter:
  assumes "(limited_step m)\<^sup>*\<^sup>* counter_new s"
  shows "counter_inv s \<and> bounds_below m s \<and> live s \<le> m"
  using assms
proof (induction rule: rtranclp_induct)
  case base
  then show ?case
    using counter_inv_new by simp
next
  case (step s s')
  then show ?case
    using counter_inv_step [of s s'] live_within_step [of s s' m] by (auto simp: limited_step_def)
qed

text \<open>
  C6.  However the tasks interleave, the registry's counter is the number of guards that are out, never
  above the bound; a connection is refused only while as many guards as its bound are out, and once
  every guard is returned the counter is back at zero.
\<close>
theorem connections_counted:
  assumes "(limited_step m)\<^sup>*\<^sup>* counter_new s"
  shows "live s = card (guards s) \<and> live s \<le> m \<and> (guards s = {} \<longrightarrow> live s = 0) \<and>
    (\<forall>b. acquire_load b (live s) = Refused \<longleftrightarrow> b \<le> card (guards s))"
  using reachable_counter [OF assms] by (simp add: counter_inv_def acquire_load_def)

definition sample_counter :: counter where
  "sample_counter = \<lparr>live = 1, tasks = (\<lambda>_. Idle)(7 := Holding)\<rparr>"

definition sample_entering :: counter where
  "sample_entering = at_task counter_new 7 (Entering (Limited 1), 0)"

lemma sample_entering_step: "limited_step 1 counter_new sample_entering"
  using counter_step.enter [of counter_new 7 "Limited 1"]
  by (auto simp: sample_entering_def limited_step_def bounds_below_def counter_new_def)

lemma sample_entering_reachable: "(limited_step 1)\<^sup>*\<^sup>* counter_new sample_entering"
  by (rule r_into_rtranclp [of "limited_step 1", OF sample_entering_step])

lemma sample_counter_reachable: "(limited_step 1)\<^sup>*\<^sup>* counter_new sample_counter"
proof -
  let ?s1 = "sample_entering"
  let ?s2 = "at_task ?s1 7 (Loaded 1 0, 0)"
  have "limited_step 1 ?s1 ?s2"
    using counter_step.acquire_load [of ?s1 7 1] by (auto simp: limited_step_def bounds_below_def counter_new_def sample_entering_def acquire_load_def)
  moreover have "sample_counter = at_task ?s2 7 (Holding, 1)"
    by (simp add: sample_counter_def at_task_def counter_new_def sample_entering_def)
  moreover have "limited_step 1 ?s2 (at_task ?s2 7 (Holding, 1))"
    using counter_step.acquire_cas [of ?s2 7 1 0 False] by (auto simp: limited_step_def bounds_below_def counter_new_def sample_entering_def acquire_cas_def)
  ultimately show ?thesis
    using sample_entering_reachable by (metis rtranclp.rtrancl_into_rtrancl)
qed

theorem connections_counted_witness: "acquire_load 1 (live sample_counter) = Refused \<and> live sample_counter \<le> 1"
proof -
  have "guards sample_counter = {7}"
    by (auto simp: guards_def sample_counter_def split: if_splits)
  then show ?thesis
    using connections_counted [OF sample_counter_reachable] by auto
qed

text \<open>
  The retry loops make progress: from every reachable state, a task that is left to run leaves
  \<^verbatim>\<open>acquire\<close> with a guard or a refusal in two instructions, and a dropped guard is given back in two, the
  counter one lower; the floor at zero in \<^verbatim>\<open>drop\<close> is never what ends it.
\<close>
theorem retry_loops_progress:
  assumes "(limited_step m)\<^sup>*\<^sup>* counter_new s"
  shows "(tasks s t = Entering (Limited b) \<longrightarrow> (\<exists>s'. counter_step\<^sup>*\<^sup>* s s' \<and>
      (if live s < b then tasks s' t = Holding \<and> live s' = live s + 1 else tasks s' t = Refused \<and> live s' = live s))) \<and>
    (tasks s t = Dropping \<longrightarrow> (\<exists>s'. counter_step\<^sup>*\<^sup>* s s' \<and> tasks s' t = Gone \<and> live s = live s' + 1))"
proof (intro conjI impI)
  assume t: "tasks s t = Entering (Limited b)"
  let ?s1 = "at_task s t (acquire_load b (live s), live s)"
  have first: "counter_step s ?s1"
    by (rule counter_step.acquire_load [OF t])
  show "\<exists>s'. counter_step\<^sup>*\<^sup>* s s' \<and>
      (if live s < b then tasks s' t = Holding \<and> live s' = live s + 1 else tasks s' t = Refused \<and> live s' = live s)"
  proof (cases "live s < b")
    case True
    then have "counter_step ?s1 (at_task ?s1 t (acquire_cas False b (live s) (live s)))"
      using counter_step.acquire_cas [of ?s1 t b "live s" False] by (simp add: acquire_load_def)
    with first have "counter_step\<^sup>*\<^sup>* s (at_task ?s1 t (acquire_cas False b (live s) (live s)))"
      by (meson converse_rtranclp_into_rtranclp r_into_rtranclp)
    with True show ?thesis
      by (intro exI [of _ "at_task ?s1 t (acquire_cas False b (live s) (live s))"]) (simp add: acquire_cas_def)
  next
    case False
    with first show ?thesis
      by (intro exI [of _ ?s1]) (simp add: acquire_load_def r_into_rtranclp)
  qed
next
  assume t: "tasks s t = Dropping"
  then have pos: "0 < live s"
    using guard_means_live [of s t] reachable_counter [OF assms] by simp
  let ?s1 = "at_task s t (drop_load (live s), live s)"
  have "counter_step s ?s1" "counter_step ?s1 (at_task ?s1 t (drop_cas False (live s) (live s)))"
    using pos counter_step.drop_load [OF t] counter_step.drop_cas [of ?s1 t "live s" False] by (simp_all add: drop_load_def)
  then have "counter_step\<^sup>*\<^sup>* s (at_task ?s1 t (drop_cas False (live s) (live s)))"
    by (meson converse_rtranclp_into_rtranclp r_into_rtranclp)
  with pos show "\<exists>s'. counter_step\<^sup>*\<^sup>* s s' \<and> tasks s' t = Gone \<and> live s = live s' + 1"
    by (intro exI [of _ "at_task ?s1 t (drop_cas False (live s) (live s))"]) (simp add: drop_cas_def)
qed

theorem retry_loops_progress_witness:
  "\<exists>s'. counter_step\<^sup>*\<^sup>* sample_entering s' \<and> tasks s' 7 = Holding \<and> live s' = 1"
  using retry_loops_progress [OF sample_entering_reachable, of 7 1] by (auto simp: sample_entering_def counter_new_def)

section \<open>Connections end\<close>

definition payloads :: "ws_event list \<Rightarrow> bytes list" where
  "payloads es = concat (map (\<lambda>e. case e of Subscribed (Inr p) \<Rightarrow> [p] | _ \<Rightarrow> []) es)"

definition binaries :: "outbound list \<Rightarrow> bytes list" where
  "binaries out = concat (map (\<lambda>m. case m of OutBinary p \<Rightarrow> [p] | _ \<Rightarrow> []) out)"

text \<open>The instant of the last pong, what ends a connection, and what is sent as it ends.\<close>

definition pong_after :: "nat \<Rightarrow> ws_event list \<Rightarrow> nat" where
  "pong_after lp es = foldl (\<lambda>p e. case e of Received (Some InPong) now \<Rightarrow> now | _ \<Rightarrow> p) lp es"

definition ends_it :: "WsLimits \<Rightarrow> nat \<Rightarrow> ws_event \<Rightarrow> bool" where
  "ends_it limits lp e \<longleftrightarrow>
     (case e of Drain \<Rightarrow> True | Received None _ \<Rightarrow> True | Received (Some m) _ \<Rightarrow> m = InClose
      | Subscribed r \<Rightarrow> r = Inl Closed | Tick now \<Rightarrow> heartbeat_timeout limits < now - lp)"

definition farewell :: "ws_event \<Rightarrow> outbound list" where
  "farewell e = (case e of Drain \<Rightarrow> [OutClose] | Tick _ \<Rightarrow> [OutClose] | _ \<Rightarrow> [])"

definition stays :: "WsLimits \<Rightarrow> nat \<Rightarrow> ws_event list \<Rightarrow> bool" where
  "stays limits lp es \<longleftrightarrow> (\<forall>i < length es. \<not> ends_it limits (pong_after lp (take i es)) (es ! i))"

lemma pong_after_Cons: "pong_after lp (e # es) = pong_after (pong_after lp [e]) es"
  by (simp add: pong_after_def)

lemma stays_Cons: "stays limits lp (e # es) \<longleftrightarrow> \<not> ends_it limits lp e \<and> stays limits (pong_after lp [e]) es"
  unfolding stays_def by (auto simp: less_Suc_eq_0_disj pong_after_def)

lemma turn_stays:
  "\<not> ends_it limits lp e \<Longrightarrow> snd (ws_turn limits lp e) = Some (pong_after lp [e]) \<and> binaries (fst (ws_turn limits lp e)) = payloads [e]"
  by (cases "(limits, lp, e)" rule: ws_turn.cases)
    (auto simp: ends_it_def pong_after_def binaries_def payloads_def split: ChannelError.splits)

lemma turn_ends: "ends_it limits lp e \<Longrightarrow> ws_turn limits lp e = (farewell e, None)"
  by (cases "(limits, lp, e)" rule: ws_turn.cases) (auto simp: ends_it_def farewell_def)

lemma run_append:
  "stays limits lp pre \<Longrightarrow> run_connection limits lp (pre @ es) =
    (fst (run_connection limits lp pre) @ fst (run_connection limits (pong_after lp pre) es),
     snd (run_connection limits (pong_after lp pre) es))"
proof (induction pre arbitrary: lp)
  case (Cons e pre)
  then show ?case
    using turn_stays [of limits lp e] pong_after_Cons [of lp e pre]
    by (cases "ws_turn limits lp e") (auto simp: stays_Cons split: prod.splits)
qed (simp add: pong_after_def)

lemma run_stays:
  "stays limits lp es \<Longrightarrow> \<not> snd (run_connection limits lp es) \<and> binaries (fst (run_connection limits lp es)) = payloads es"
proof (induction es arbitrary: lp)
  case (Cons e es)
  have "payloads (e # es) = payloads [e] @ payloads es" "binaries (a @ b) = binaries a @ binaries b" for a b
    by (simp_all add: payloads_def binaries_def)
  moreover have "\<not> snd (run_connection limits (pong_after lp [e]) es) \<and> binaries (fst (run_connection limits (pong_after lp [e]) es)) = payloads es"
    using Cons by (simp add: stays_Cons)
  ultimately show ?case
    using Cons.prems turn_stays [of limits lp e]
    by (cases "ws_turn limits lp e"; cases "run_connection limits (pong_after lp [e]) es") (simp add: stays_Cons)
qed (simp add: payloads_def binaries_def)



text \<open>A server-sent event stream looks at the drain flag only when it is polled for the next event: while its
  channel is silent it stays open.\<close>

lemma sse_waits_for_channel: "sse_next False (Ok payload) \<noteq> None" "sse_next True received = None"
  by (simp_all add: sse_next_def)

text \<open>Nothing gets past admission without a listed origin, and WebSockets not without the authorizer.\<close>

lemma admission_needs_origin:
  "sse_admission policy hs = Ok u \<Longrightarrow> \<exists>origin. header_str hs ''origin'' = Some origin \<and>
     (policy = AllowExact origin \<or> (\<exists>os. policy = AllowSet os \<and> origin \<in> set os))"
  by (cases policy) (auto simp: sse_admission_def origin_from_header_def header_str_def bind_eq_Some_iff split: if_splits option.splits)

end
