(* ===== verification/Routing.thy ===== *)
theory Routing
  imports Auth_Session Header_Map Storage_Names
begin

text \<open>
  Named routes and redirects: \<^verbatim>\<open>src/routing/mod.rs\<close>, \<^verbatim>\<open>src/routing/table.rs\<close>,
  \<^verbatim>\<open>src/routing/redirect_mapper.rs\<close>, the redirect builder of \<^verbatim>\<open>src/http/response.rs\<close> and the error
  vocabulary of \<^verbatim>\<open>src/error.rs\<close>.

  A handler with its middleware (\<^verbatim>\<open>MethodRouter\<close> of the package \<^verbatim>\<open>axum\<close>) is an abstract value \<open>'m\<close>, a layer a
  function on it.  \<open>header_ok\<close> says which texts are header values; \<^verbatim>\<open>axum\<close> answers a redirect to any other
  text with status 500.
\<close>

section \<open>Errors\<close>

record ValidationError =
  ve_field :: string
  ve_message :: string

datatype Error =
    NotFound string
  | BadRequest string
  | ErrUnauthorized
  | ErrForbidden string
  | Validation "ValidationError list"
  | ErrRedirect string
  | Io string
  | ErrDatabase string
  | ErrCache string
  | ErrStorage string
  | ErrMail string
  | ErrJob string
  | Serialization string
  | ErrConfig string
  | Other string

fun error_status :: "Error \<Rightarrow> nat" where
  "error_status (NotFound _) = 404"
| "error_status (BadRequest _) = 400"
| "error_status ErrUnauthorized = 401"
| "error_status (ErrForbidden _) = 403"
| "error_status (Validation _) = 422"
| "error_status (ErrRedirect _) = 400"
| "error_status _ = 500"

fun error_code :: "Error \<Rightarrow> string" where
  "error_code (NotFound _) = ''not_found''"
| "error_code (BadRequest _) = ''bad_request''"
| "error_code ErrUnauthorized = ''unauthorized''"
| "error_code (ErrForbidden _) = ''forbidden''"
| "error_code (Validation _) = ''validation_failed''"
| "error_code (ErrRedirect _) = ''invalid_redirect''"
| "error_code (Io _) = ''io_error''"
| "error_code (ErrDatabase _) = ''database_error''"
| "error_code (ErrCache _) = ''cache_error''"
| "error_code (ErrStorage _) = ''storage_error''"
| "error_code (ErrMail _) = ''mail_error''"
| "error_code (ErrJob _) = ''job_error''"
| "error_code (Serialization _) = ''serialization_error''"
| "error_code (ErrConfig _) = ''config_error''"
| "error_code (Other _) = ''internal_error''"

definition in_context :: "string \<Rightarrow> string \<Rightarrow> string" where
  "in_context ctx s = (if s = [] then ctx else s @ '': '' @ ctx)"

fun error_context :: "Error \<Rightarrow> string \<Rightarrow> Error" where
  "error_context (NotFound s) ctx = NotFound (in_context ctx s)"
| "error_context (BadRequest s) ctx = BadRequest (in_context ctx s)"
| "error_context ErrUnauthorized ctx = ErrUnauthorized"
| "error_context (ErrForbidden s) ctx = ErrForbidden (in_context ctx s)"
| "error_context (Validation es) ctx = Validation es"
| "error_context (ErrRedirect s) ctx = ErrRedirect (in_context ctx s)"
| "error_context (Io s) ctx = Io (in_context ctx s)"
| "error_context (ErrDatabase s) ctx = ErrDatabase (in_context ctx s)"
| "error_context (ErrCache s) ctx = ErrCache (in_context ctx s)"
| "error_context (ErrStorage s) ctx = ErrStorage (in_context ctx s)"
| "error_context (ErrMail s) ctx = ErrMail (in_context ctx s)"
| "error_context (ErrJob s) ctx = ErrJob (in_context ctx s)"
| "error_context (Serialization s) ctx = Serialization (in_context ctx s)"
| "error_context (ErrConfig s) ctx = ErrConfig (in_context ctx s)"
| "error_context (Other s) ctx = Other (in_context ctx s)"

fun show_error :: "Error \<Rightarrow> string" where
  "show_error (NotFound s) = ''not found: '' @ s"
| "show_error (BadRequest s) = ''bad request: '' @ s"
| "show_error ErrUnauthorized = ''unauthorized''"
| "show_error (ErrForbidden s) = ''forbidden: '' @ s"
| "show_error (Validation es) = ''validation failed: '' @ join ''; '' (map (\<lambda>e. ve_field e @ '': '' @ ve_message e) es)"
| "show_error (ErrRedirect s) = ''invalid redirect: '' @ s"
| "show_error (Io s) = ''io error: '' @ s"
| "show_error (ErrDatabase s) = ''database error: '' @ s"
| "show_error (ErrCache s) = ''cache error: '' @ s"
| "show_error (ErrStorage s) = ''storage error: '' @ s"
| "show_error (ErrMail s) = ''mail error: '' @ s"
| "show_error (ErrJob s) = ''job error: '' @ s"
| "show_error (Serialization s) = ''serialization error: '' @ s"
| "show_error (ErrConfig s) = ''config error: '' @ s"
| "show_error (Other s) = ''internal error: '' @ s"

text \<open>The body is the JSON value before it is printed; \<open>app_env\<close> is the environment variable.\<close>

definition is_production :: "string option \<Rightarrow> bool" where
  "is_production app_env = (map_option (map ascii_lower) app_env \<in> {Some ''production'', Some ''prod''})"

definition validation_json :: "ValidationError \<Rightarrow> json" where
  "validation_json e = JObject (bt_insert ''message'' (JString (ve_message e)) (bt_insert ''field'' (JString (ve_field e)) []))"

definition error_members :: "Error \<Rightarrow> (string, json) btree" where
  "error_members e = bt_insert ''status'' (JNumber (show_nat (error_status e)))
     (bt_insert ''title'' (JString (error_code e)) (bt_insert ''type'' (JString (''urn:arcature:problem:'' @ error_code e)) []))"

definition error_body :: "string option \<Rightarrow> Error \<Rightarrow> json" where
  "error_body app_env e =
     (if is_production app_env then JObject (error_members e)
      else case e of
             Validation errs \<Rightarrow> JObject (bt_insert ''errors'' (JArray (map validation_json errs)) (error_members e))
           | _ \<Rightarrow> JObject (bt_insert ''detail'' (JString (show_error e)) (error_members e)))"

section \<open>Routes\<close>

fun render_segments :: "string list \<Rightarrow> string list \<Rightarrow> nat \<Rightarrow> (Error, string list) result" where
  "render_segments [] ps i = Ok []"
| "render_segments (segment # rest) ps i =
     (case Option.bind (strip_prefix ''{'' segment) (strip_suffix ''}'') of
        Some name \<Rightarrow>
          if i < length ps
          then rbind (render_segments rest ps (Suc i)) (\<lambda>out. Ok (ps ! i # out))
          else Err (BadRequest (''missing parameter `'' @ name @ ''`''))
      | None \<Rightarrow> rbind (render_segments rest ps i) (\<lambda>out. Ok (segment # out)))"

definition render_path :: "string \<Rightarrow> string list \<Rightarrow> (Error, string) result" where
  "render_path template ps = rbind (render_segments (split CHR ''/'' template) ps 0) (\<lambda>out. Ok (join ''/'' out))"

definition join_path :: "string \<Rightarrow> string \<Rightarrow> string" where
  "join_path p s =
     (let p = trim_end_matches (\<lambda>c. c = CHR ''/'') p in
      if starts_with ''/'' s then p @ s else if s = [] then p else p @ ''/'' @ s)"

record 'm Route =
  route_path :: string
  route_name :: "string option"
  method_router :: 'm

definition route_new :: "string \<Rightarrow> 'm \<Rightarrow> 'm Route" where
  "route_new p m = \<lparr>route_path = p, route_name = None, method_router = m\<rparr>"

definition route_named :: "'m Route \<Rightarrow> string \<Rightarrow> 'm Route" where
  "route_named r n = r\<lparr>route_name := Some n\<rparr>"

definition route_layer :: "'m Route \<Rightarrow> ('m \<Rightarrow> 'm) \<Rightarrow> 'm Route" where
  "route_layer r f = r\<lparr>method_router := f (method_router r)\<rparr>"

record 'm RouteGroup =
  group_prefix :: string
  apply_mw :: "('m \<Rightarrow> 'm) list"
  group_routes :: "'m Route list"

definition group_new :: "string \<Rightarrow> 'm Route list \<Rightarrow> 'm RouteGroup" where
  "group_new p rs = \<lparr>group_prefix = p, apply_mw = [], group_routes = rs\<rparr>"

definition group_layer :: "'m RouteGroup \<Rightarrow> ('m \<Rightarrow> 'm) \<Rightarrow> 'm RouteGroup" where
  "group_layer g f = g\<lparr>apply_mw := apply_mw g @ [f]\<rparr>"

definition group_into_routes :: "'m RouteGroup \<Rightarrow> 'm Route list" where
  "group_into_routes g =
     map (\<lambda>r. r\<lparr>route_path := join_path (group_prefix g) (route_path r),
                method_router := foldl (\<lambda>m mw. mw m) (method_router r) (apply_mw g)\<rparr>) (group_routes g)"

text \<open>The names of a collection of routes, and the paths it registers, in order.\<close>

record 'm Routes =
  registered :: "(string \<times> 'm) list"
  names :: "(string, string) table"

definition routes_empty :: "'m Routes" where
  "routes_empty = \<lparr>registered = [], names = tbl_empty\<rparr>"

definition add_route :: "'m Routes \<Rightarrow> 'm Route \<Rightarrow> 'm Routes" where
  "add_route out r =
     out\<lparr>names := (case route_name r of Some n \<Rightarrow> tbl_put n (route_path r) (names out) | None \<Rightarrow> names out),
         registered := registered out @ [(route_path r, method_router r)]\<rparr>"

definition routes_new :: "'m Route list \<Rightarrow> 'm Routes" where
  "routes_new rs = foldl add_route routes_empty rs"

definition routes_merge :: "'m Routes \<Rightarrow> 'm Routes \<Rightarrow> 'm Routes" where
  "routes_merge self other =
     self\<lparr>names := foldl (\<lambda>t (n, p). tbl_put n p t) (names self) (names other),
          registered := registered self @ registered other\<rparr>"

definition not_defined :: "string \<Rightarrow> Error" where
  "not_defined name = NotFound (''route `'' @ name @ ''` is not defined'')"

definition routes_url_for :: "'m Routes \<Rightarrow> string \<Rightarrow> string list \<Rightarrow> (Error, string) result" where
  "routes_url_for self name ps =
     rbind (ok_or (tbl_get (names self) name) (not_defined name)) (\<lambda>template. render_path template ps)"

text \<open>The table of a collection: its names in order, a later one replacing an earlier.\<close>

type_synonym RouteTable = "(string, string) btree"

definition table_from_iter :: "(string \<times> string) list \<Rightarrow> RouteTable" where
  "table_from_iter xs = foldl (\<lambda>t (n, p). bt_insert n p t) [] xs"

definition routes_table :: "'m Routes \<Rightarrow> RouteTable" where
  "routes_table self = table_from_iter (names self)"

definition table_url_for :: "RouteTable \<Rightarrow> string \<Rightarrow> string list \<Rightarrow> (Error, string) result" where
  "table_url_for table name ps =
     rbind (ok_or (bt_get table name) (not_defined name)) (\<lambda>template. render_path template ps)"

section \<open>Redirects\<close>

datatype RedirectTarget = ToPath string | ToRoute string "string list" | Back

record RedirectResponse =
  redirect_target :: RedirectTarget
  redirect_permanent :: bool
  redirect_flash :: "(string \<times> string) list"

definition redirect :: RedirectResponse where
  "redirect = \<lparr>redirect_target = ToPath ''/'', redirect_permanent = False, redirect_flash = []\<rparr>"

definition redirect_to :: "RedirectResponse \<Rightarrow> string \<Rightarrow> RedirectResponse" where
  "redirect_to r p = r\<lparr>redirect_target := ToPath p\<rparr>"

definition redirect_route :: "RedirectResponse \<Rightarrow> string \<Rightarrow> string list \<Rightarrow> RedirectResponse" where
  "redirect_route r name ps = r\<lparr>redirect_target := ToRoute name ps\<rparr>"

definition redirect_back :: "RedirectResponse \<Rightarrow> RedirectResponse" where
  "redirect_back r = r\<lparr>redirect_target := Back\<rparr>"

definition redirect_permanently :: "RedirectResponse \<Rightarrow> RedirectResponse" where
  "redirect_permanently r = r\<lparr>redirect_permanent := True\<rparr>"

definition redirect_with :: "RedirectResponse \<Rightarrow> string \<Rightarrow> string \<Rightarrow> RedirectResponse" where
  "redirect_with r k v = r\<lparr>redirect_flash := redirect_flash r @ [(k, v)]\<rparr>"

definition validate_redirect_target :: "string \<Rightarrow> (Error, unit) result" where
  "validate_redirect_target p =
     (if starts_with ''//'' p \<or> starts_with ''http://'' p \<or> starts_with ''https://'' p
      then Err (ErrRedirect ''external redirect not allowed'') else Ok ())"

text \<open>A resolved redirect: its status and location.\<close>

definition redirect_resolve :: "RedirectResponse \<Rightarrow> RouteTable \<Rightarrow> string option \<Rightarrow> (Error, nat \<times> string) result" where
  "redirect_resolve self table referer =
     rbind (case redirect_target self of
              ToPath p \<Rightarrow> rbind (validate_redirect_target p) (\<lambda>_. Ok p)
            | ToRoute name ps \<Rightarrow> table_url_for table name ps
            | Back \<Rightarrow> Ok (case referer of Some r \<Rightarrow> if is_ok (validate_redirect_target r) then r else ''/'' | None \<Rightarrow> ''/''))
       (\<lambda>p. Ok (if redirect_permanent self then 308 else 307, p))"

record web_response =
  web_status :: nat
  web_headers :: headers
  web_body :: string
  web_pending :: "RedirectResponse option"

definition redirect_into :: "(string \<Rightarrow> bool) \<Rightarrow> nat \<times> string \<Rightarrow> web_response" where
  "redirect_into header_ok r =
     (if header_ok (snd r) then \<lparr>web_status = fst r, web_headers = [(''location'', snd r)], web_body = [], web_pending = None\<rparr>
      else \<lparr>web_status = 500, web_headers = [(''content-type'', ''text/plain; charset=utf-8'')], web_body = ''failed to parse header value'', web_pending = None\<rparr>)"

definition error_into :: "(json \<Rightarrow> string) \<Rightarrow> string option \<Rightarrow> Error \<Rightarrow> web_response" where
  "error_into print app_env e =
     \<lparr>web_status = error_status e, web_headers = [(''content-type'', ''application/json'')], web_body = print (error_body app_env e), web_pending = None\<rparr>"

definition redirect_into_response :: "(string \<Rightarrow> bool) \<Rightarrow> (json \<Rightarrow> string) \<Rightarrow> string option \<Rightarrow> RedirectResponse \<Rightarrow> web_response" where
  "redirect_into_response header_ok print app_env self =
     (case redirect_target self of
        ToPath p \<Rightarrow>
          if \<not> is_ok (validate_redirect_target p) then error_into print app_env (BadRequest ''invalid redirect target'')
          else (redirect_into header_ok (if redirect_permanent self then 308 else 307, p))\<lparr>web_pending := Some self\<rparr>
      | ToRoute _ _ \<Rightarrow>
          (error_into print app_env (BadRequest ''named-route redirect requires the route table''))\<lparr>web_pending := Some self\<rparr>
      | Back \<Rightarrow> (redirect_into header_ok (303, ''/''))\<lparr>web_pending := Some self\<rparr>)"

definition FLASH_DATA :: string where
  "FLASH_DATA = ''_flash_data''"

definition persist_flash :: "('s, 'e) session_ops \<Rightarrow> (string, string) btree codec \<Rightarrow> RedirectResponse \<Rightarrow> 's \<Rightarrow> 's" where
  "persist_flash op dc self s =
     (if redirect_flash self = [] then s
      else case sess_get op dc s FLASH_DATA of
             (Err _, s1) \<Rightarrow> s1
           | (Ok existing, s1) \<Rightarrow>
               let data = foldl (\<lambda>t (k, v). bt_insert k v t) (case existing of None \<Rightarrow> [] | Some d \<Rightarrow> d) (redirect_flash self)
               in snd (sess_insert op dc s1 FLASH_DATA data))"

definition graft :: "web_response \<Rightarrow> web_response \<Rightarrow> web_response" where
  "graft original resolved =
     resolved\<lparr>web_headers := web_headers resolved @
       filter (\<lambda>(n, _). n \<notin> {''content-type'', ''content-length'', ''location''}) (web_headers original)\<rparr>"

definition mapper_call :: "(string \<Rightarrow> bool) \<Rightarrow> (json \<Rightarrow> string) \<Rightarrow> string option \<Rightarrow> ('s, 'e) session_ops \<Rightarrow> (string, string) btree codec \<Rightarrow>
    RouteTable \<Rightarrow> headers \<Rightarrow> web_response \<Rightarrow> 's option \<Rightarrow> web_response \<times> 's option" where
  "mapper_call header_ok print app_env op dc table request_headers response session =
     (case web_pending response of
        None \<Rightarrow> (response, session)
      | Some pending \<Rightarrow>
          let session' = map_option (persist_flash op dc pending) session;
              response' = response\<lparr>web_pending := None\<rparr>
          in (case redirect_resolve pending table (header_str request_headers ''referer'') of
                Ok resolved \<Rightarrow> graft response' (redirect_into header_ok resolved)
              | Err error \<Rightarrow> error_into print app_env (Other (show_error error)), session'))"

section \<open>Links lead back to their routes\<close>

definition capture :: "string \<Rightarrow> bool" where
  "capture segment \<longleftrightarrow> Option.bind (strip_prefix ''{'' segment) (strip_suffix ''}'') \<noteq> None"

definition captures :: "string \<Rightarrow> nat" where
  "captures template = length (filter capture (split CHR ''/'' template))"

text \<open>How a router reads a path against a template: a capture takes one segment that is not empty, any
  other segment must be repeated.\<close>

fun matches :: "string list \<Rightarrow> string list \<Rightarrow> string list option" where
  "matches [] [] = Some []"
| "matches (t # ts) (p # ps) =
     (if capture t then (if p = [] then None else map_option (Cons p) (matches ts ps))
      else if t = p then matches ts ps else None)"
| "matches _ _ = None"

lemma render_segments_ok: "is_ok (render_segments ts ps i) \<longleftrightarrow> i + length (filter capture ts) \<le> length ps \<or> filter capture ts = []"
proof (induction ts arbitrary: i)
  case (Cons t ts)
  show ?case
  proof (cases "Option.bind (strip_prefix ''{'' t) (strip_suffix ''}'')")
    case None
    then show ?thesis
      using Cons.IH [of i] by (cases "render_segments ts ps i") (auto simp: capture_def)
  next
    case (Some n)
    then show ?thesis
      using Cons.IH [of "Suc i"] by (cases "render_segments ts ps (Suc i)") (auto simp: capture_def)
  qed
qed simp

lemma render_segments_match:
  assumes "render_segments ts ps i = Ok out" "i + length (filter capture ts) = length ps" "\<forall>p \<in> set ps. p \<noteq> []"
  shows "matches ts out = Some (drop i ps)"
  using assms
proof (induction ts arbitrary: i out)
  case (Cons t ts)
  show ?case
  proof (cases "Option.bind (strip_prefix ''{'' t) (strip_suffix ''}'')")
    case None
    then have "\<not> capture t"
      by (simp add: capture_def)
    then show ?thesis
      using Cons None by (auto simp: rbind_eq_Ok_iff)
  next
    case (Some n)
    then have c: "capture t"
      by (simp add: capture_def)
    then obtain rest where rest: "render_segments ts ps (Suc i) = Ok rest" "out = ps ! i # rest" "i < length ps"
      using Cons.prems(1) Some by (auto simp: rbind_eq_Ok_iff split: if_splits)
    have "matches ts rest = Some (drop (Suc i) ps)"
      using Cons.IH [OF rest(1)] Cons.prems(2,3) c by simp
    moreover have "drop i ps = ps ! i # drop (Suc i) ps" "ps ! i \<noteq> []"
      using rest(3) Cons.prems(3) by (simp_all add: Cons_nth_drop_Suc)
    ultimately show ?thesis
      using rest(2) c by simp
  qed
qed simp

lemma render_segments_clean:
  "render_segments ts ps i = Ok out \<Longrightarrow> \<forall>t \<in> set ts. d \<notin> set t \<Longrightarrow> \<forall>p \<in> set ps. d \<notin> set p \<Longrightarrow>
   (\<forall>o' \<in> set out. d \<notin> set o') \<and> length out = length ts"
  by (induction ts arbitrary: i out) (fastforce simp: rbind_eq_Ok_iff split: option.splits if_splits)+

lemma split_join: "xs \<noteq> [] \<Longrightarrow> \<forall>x \<in> set xs. d \<notin> set x \<Longrightarrow> split d (join [d] xs) = xs"
proof (induction xs rule: induct_list012)
  case (2 x)
  then show ?case
    using split_on_no_sep [of x "\<lambda>c. c = d"] by auto
next
  case (3 x y zs)
  then show ?case
    using split_on_sep_append [of x "\<lambda>c. c = d" d "join [d] (y # zs)"] by auto
qed simp

lemma table_get: "bt_get (table_from_iter xs) n = map_of (rev xs) n"
proof -
  have "bt_get (foldl (\<lambda>t (n, p). bt_insert n p t) t xs) n = (case map_of (rev xs) n of Some p \<Rightarrow> Some p | None \<Rightarrow> bt_get t n)" for t
    by (induction xs arbitrary: t) (auto simp: map_add_def split: option.splits)
  from this [of "[]"] show ?thesis
    by (simp add: table_from_iter_def split: option.splits)
qed

lemma table_of_routes: "distinct (map fst (names r)) \<Longrightarrow> table_url_for (routes_table r) n ps = routes_url_for r n ps"
  using map_of_inject_set [of "rev (names r)" "names r"]
  by (simp add: table_url_for_def routes_url_for_def routes_table_def table_get tbl_get_def rev_map [symmetric])

text \<open>
  A link to a named route leads back to it: it is built if and only if there is a parameter for every
  capture of the route's template, and when they are as many, none of them empty or with a slash, the path
  matches the template again and yields the same parameters, in order.
\<close>
theorem url_leads_back:
  assumes "bt_get table name = Some template"
  shows "(is_ok (table_url_for table name ps) \<longleftrightarrow> captures template \<le> length ps) \<and>
    (length ps = captures template \<and> (\<forall>p \<in> set ps. p \<noteq> [] \<and> CHR ''/'' \<notin> set p) \<longrightarrow>
     (\<exists>url. table_url_for table name ps = Ok url \<and> matches (split CHR ''/'' template) (split CHR ''/'' url) = Some ps))"
proof (intro conjI impI)
  let ?ts = "split CHR ''/'' template"
  have eq: "table_url_for table name ps = rbind (render_segments ?ts ps 0) (\<lambda>out. Ok (join ''/'' out))"
    using assms by (simp add: table_url_for_def render_path_def)
  then show ok: "is_ok (table_url_for table name ps) \<longleftrightarrow> captures template \<le> length ps"
    using render_segments_ok [of ?ts ps 0] by (cases "render_segments ?ts ps 0") (auto simp: captures_def)
  assume ps: "length ps = captures template \<and> (\<forall>p \<in> set ps. p \<noteq> [] \<and> CHR ''/'' \<notin> set p)"
  then obtain out where out: "render_segments ?ts ps 0 = Ok out"
    using ok eq by (cases "render_segments ?ts ps 0") auto
  have "\<forall>t \<in> set ?ts. CHR ''/'' \<notin> set t"
    using split_on_pieces by blast
  then have clean: "\<forall>o' \<in> set out. CHR ''/'' \<notin> set o'" "length out = length ?ts"
    using render_segments_clean [OF out, of "CHR ''/''"] ps by simp_all
  then have "out \<noteq> []"
    using split_on_not_Nil length_0_conv by metis
  then have "split CHR ''/'' (join ''/'' out) = out"
    using clean(1) by (rule split_join)
  then show "\<exists>url. table_url_for table name ps = Ok url \<and> matches ?ts (split CHR ''/'' url) = Some ps"
    using eq out render_segments_match [OF out] ps by (auto simp: captures_def)
qed

theorem url_leads_back_witness:
  "\<exists>url. table_url_for [(''users.show'', ''/users/{id}'')] ''users.show'' [''42''] = Ok url \<and>
     matches (split CHR ''/'' ''/users/{id}'') (split CHR ''/'' url) = Some [''42'']"
  using url_leads_back [of "[(''users.show'', ''/users/{id}'')]" "''users.show''" "''/users/{id}''" "[''42'']"]
  by (auto simp: bt_get_def captures_def capture_def strip_prefix_def strip_suffix_def)

section \<open>What the redirect check refuses\<close>

text \<open>The prefixes the check looks for, as it looks for them.\<close>

definition has_refused_prefix :: "string \<Rightarrow> bool" where
  "has_refused_prefix p \<longleftrightarrow> starts_with ''//'' p \<or> starts_with ''http://'' p \<or> starts_with ''https://'' p"

lemma validate_iff: "is_ok (validate_redirect_target p) \<longleftrightarrow> \<not> has_refused_prefix p"
  by (simp add: validate_redirect_target_def has_refused_prefix_def)

lemma validate_Ok: "validate_redirect_target p = Ok u \<longleftrightarrow> \<not> has_refused_prefix p"
  by (simp add: validate_redirect_target_def has_refused_prefix_def)

lemma root_not_refused [simp]: "\<not> has_refused_prefix ''/''"
  by (simp add: has_refused_prefix_def starts_with_def)

lemma redirect_resolve_safe:
  assumes "redirect_resolve r table referer = Ok (status, p)" "\<forall>n ps. redirect_target r \<noteq> ToRoute n ps"
  shows "\<not> has_refused_prefix p \<and> status \<in> {307, 308}"
  using assms
  by (cases "redirect_target r")
    (auto simp: redirect_resolve_def rbind_eq_Ok_iff validate_iff validate_Ok
      split: option.splits if_splits)

text \<open>
  A redirect to a path or back to the referring page always passes through the check, whatever path the
  handler took from the request and whatever the client sent as its referrer: no location the response has
  begins with one of the prefixes, and a location the handler's own response had is dropped.  That is less
  than staying on the site, as \<open>check_misses\<close> below shows.
\<close>

theorem redirect_is_checked:
  assumes "web_pending response = Some r" and "\<forall>n ps. redirect_target r \<noteq> ToRoute n ps"
  shows "\<forall>l \<in> set (hm_get_all (web_headers (fst (mapper_call header_ok print app_env op dc table hs response session))) ''location'').
    \<not> has_refused_prefix l"
proof (cases "redirect_resolve r table (header_str hs ''referer'')")
  case (Inl e)
  then show ?thesis
    using assms(1) by (simp add: mapper_call_def error_into_def hm_get_all_def Let_def)
next
  case (Inr sp)
  obtain status p where [simp]: "sp = (status, p)"
    by (cases sp)
  have "\<not> has_refused_prefix p"
    using redirect_resolve_safe [of r table] Inr assms(2) by simp
  then show ?thesis
    using assms(1) Inr by (auto simp: mapper_call_def graft_def redirect_into_def hm_get_all_def Let_def filter_empty_conv)
qed

theorem redirect_is_checked_witness:
  "filter has_refused_prefix (hm_get_all (web_headers (fst (mapper_call (\<lambda>_. True) (\<lambda>_. []) None sample_ops \<lparr>ser = (\<lambda>_. JNull), de = (\<lambda>_. None)\<rparr> []
     [(''referer'', ''//evil.example'')] (redirect_into_response (\<lambda>_. True) (\<lambda>_. []) None (redirect_back redirect)) None))) ''location'') = []"
  unfolding filter_empty_conv
  by (rule redirect_is_checked [of _ "redirect_back redirect"])
    (simp_all add: redirect_into_response_def redirect_back_def redirect_def redirect_into_def)

text \<open>
  The check does not see everything a browser follows: another case of the scheme and a backslash pass it,
  and a named route is not checked at all, so a parameter that starts with a slash takes a template that
  starts with a capture to another host.
\<close>

lemma check_misses:
  "is_ok (validate_redirect_target ''HTTPS://evil.example'')"
  "is_ok (validate_redirect_target (CHR ''/'' # CHR 0x5C # ''evil.example''))"
  "redirect_resolve (redirect_route redirect ''post'' [''/evil.example'']) [(''post'', ''/{slug}'')] None = Ok (307, ''//evil.example'')"
  by (simp_all add: validate_redirect_target_def starts_with_def redirect_resolve_def redirect_route_def redirect_def
      table_url_for_def bt_get_def render_path_def strip_prefix_def strip_suffix_def)

text \<open>A browser's referrer is an absolute URL, which the check refuses: going back goes to the root.\<close>

lemma absolute_referrer_goes_home:
  "has_refused_prefix ref \<Longrightarrow> redirect_resolve (redirect_back redirect) table (Some ref) = Ok (307, ''/'')"
  using validate_iff [of ref] by (simp add: redirect_resolve_def redirect_back_def redirect_def)

end
