(* ===== verification/Http_Errors.thy ===== *)
theory Http_Errors
  imports Http_Problem Storage_Names
begin

text \<open>
  What stands between a handler and the client when things go wrong or a file goes out: error mapping
  (\<^verbatim>\<open>src/http/error_mapping.rs\<close>), maintenance mode (\<^verbatim>\<open>src/http/maintenance.rs\<close>) and downloads
  (\<^verbatim>\<open>src/http/download.rs\<close>).
\<close>

section \<open>Error mapping\<close>

record 'x ErrorMapping =
  mapper :: "(nat \<Rightarrow> headers \<Rightarrow> 'x http_response option) option"
  redact :: bool

definition mapping_new :: "bool \<Rightarrow> 'x ErrorMapping" where
  "mapping_new debug_assertions = \<lparr>mapper = None, redact = \<not> debug_assertions\<rparr>"

definition redact_errors :: "'x ErrorMapping \<Rightarrow> bool \<Rightarrow> 'x ErrorMapping" where
  "redact_errors m r = m\<lparr>redact := r\<rparr>"

definition mapping_with :: "'x ErrorMapping \<Rightarrow> (nat \<Rightarrow> headers \<Rightarrow> 'x http_response option) \<Rightarrow> 'x ErrorMapping" where
  "mapping_with m f = m\<lparr>mapper := Some f\<rparr>"

definition LAYER_AUTHORED :: "nat list" where
  "LAYER_AUTHORED = [405, 408, 413]"

definition is_client_error :: "nat \<Rightarrow> bool" where
  "is_client_error s = (400 \<le> s \<and> s < 500)"

definition is_server_error :: "nat \<Rightarrow> bool" where
  "is_server_error s = (500 \<le> s \<and> s < 600)"

text \<open>The headers of the original that the replacement does not have are added to it, one by one.\<close>

fun carry_header_list :: "headers \<Rightarrow> headers \<Rightarrow> headers" where
  "carry_header_list replacement [] = replacement"
| "carry_header_list replacement ((name, v) # rest) =
     (if name = ''content-type'' \<or> name = ''content-length'' \<or> hm_contains replacement name
      then carry_header_list replacement rest
      else carry_header_list (hm_append name v replacement) rest)"

definition carry_headers :: "'x http_response \<Rightarrow> 'x http_response \<Rightarrow> 'x http_response" where
  "carry_headers original replacement =
     replacement\<lparr>http_headers := carry_header_list (http_headers replacement) (http_headers original)\<rparr>"

definition problem_for :: "(nat \<Rightarrow> string option) \<Rightarrow> nat \<Rightarrow> Problem" where
  "problem_for canonical_reason status =
     (case for_status status of Some kind \<Rightarrow> problem_of kind | None \<Rightarrow> problem_new_custom canonical_reason ''about:blank'' status)"

definition rebuild :: "(json \<Rightarrow> string) \<Rightarrow> 'x http_response \<Rightarrow> Problem \<Rightarrow> 'x http_response" where
  "rebuild print response problem =
     (let replacement = problem_into_response print (http_extensions response) problem in
      replacement\<lparr>http_headers := foldl (\<lambda>h (n, v). if n = ''content-type'' \<or> n = ''content-length'' then h else hm_append n v h)
        (http_headers replacement) (http_headers response)\<rparr>)"

definition map_error :: "(json \<Rightarrow> string) \<Rightarrow> (nat \<Rightarrow> string option) \<Rightarrow> 'x ErrorMapping \<Rightarrow> headers \<Rightarrow> 'x http_response \<Rightarrow> 'x http_response" where
  "map_error print canonical_reason self request_headers response =
     (let status = http_status response in
      if \<not> (is_client_error status \<or> is_server_error status) then response
      else case (case mapper self of Some f \<Rightarrow> f status request_headers | None \<Rightarrow> None) of
             Some replacement \<Rightarrow> carry_headers response replacement
           | None \<Rightarrow>
               (case header_str (http_headers response) ''content-type'' of
                  Some ct \<Rightarrow>
                    if starts_with ''text/plain'' ct \<and> status \<in> set LAYER_AUTHORED
                    then rebuild print response (problem_for canonical_reason status)
                    else if redact self \<and> is_server_error status \<and> starts_with ''text/plain'' ct
                    then rebuild print response (problem_for canonical_reason status)
                    else response
                | None \<Rightarrow> rebuild print response (problem_for canonical_reason status)))"

section \<open>Maintenance\<close>

record Maintenance =
  engaged :: bool
  exempt :: "string list"
  retry_after :: nat

definition DEFAULT_RETRY_AFTER :: nat where
  "DEFAULT_RETRY_AFTER = 60"

definition maintenance_new :: Maintenance where
  "maintenance_new = \<lparr>engaged = False, exempt = [], retry_after = DEFAULT_RETRY_AFTER\<rparr>"

definition engage :: "Maintenance \<Rightarrow> Maintenance" where
  "engage m = m\<lparr>engaged := True\<rparr>"

definition disengage :: "Maintenance \<Rightarrow> Maintenance" where
  "disengage m = m\<lparr>engaged := False\<rparr>"

definition maintenance_engaged :: Maintenance where
  "maintenance_engaged = engage maintenance_new"

text \<open>The loop \<^verbatim>\<open>while prefix.len() > 1 && prefix.ends_with('/')\<close>, on the reversed text.\<close>

fun pop_slashes :: "string \<Rightarrow> string" where
  "pop_slashes (c # d # s) = (if c = CHR ''/'' then pop_slashes (d # s) else c # d # s)"
| "pop_slashes s = s"

definition allow :: "Maintenance \<Rightarrow> string \<Rightarrow> Maintenance" where
  "allow m p =
     (let p = rev (pop_slashes (rev p));
          p = (if starts_with ''/'' p then p else CHR ''/'' # p)
      in m\<lparr>exempt := exempt m @ [p]\<rparr>)"

definition with_retry_after :: "Maintenance \<Rightarrow> nat \<Rightarrow> Maintenance" where
  "with_retry_after m s = m\<lparr>retry_after := s\<rparr>"

definition covers :: "string \<Rightarrow> string \<Rightarrow> bool" where
  "covers p path =
     (if p = ''/'' then True
      else path = p \<or> length path > length p \<and> starts_with p path \<and> path ! length p = CHR ''/'')"

definition is_exempt :: "Maintenance \<Rightarrow> string \<Rightarrow> bool" where
  "is_exempt m path = (\<exists>p \<in> set (exempt m). covers p path)"

definition blocks :: "Maintenance \<Rightarrow> string \<Rightarrow> bool" where
  "blocks m path = (engaged m \<and> \<not> is_exempt m path)"

definition unavailable :: "(json \<Rightarrow> string) \<Rightarrow> 'x \<Rightarrow> nat \<Rightarrow> 'x http_response" where
  "unavailable print no_ext seconds =
     (let r = problem_into_response print no_ext
        (with_detail (problem_of PkUnavailable) ''The application is down for maintenance. Please try again shortly.'')
      in r\<lparr>http_headers := hm_insert ''retry-after'' (show_nat seconds) (http_headers r)\<rparr>)"

definition maintenance_call :: "(json \<Rightarrow> string) \<Rightarrow> 'x \<Rightarrow> Maintenance \<Rightarrow> ('r \<Rightarrow> 'x http_response) \<Rightarrow> string \<Rightarrow> 'r \<Rightarrow> 'x http_response" where
  "maintenance_call print no_ext m inner path request =
     (if blocks m path then unavailable print no_ext (retry_after m) else inner request)"

section \<open>Downloads\<close>

definition OCTET_STREAM :: string where
  "OCTET_STREAM = ''application/octet-stream''"

definition DOWNLOAD_CSP :: string where
  "DOWNLOAD_CSP = ''default-src '' @ [CHR 0x27] @ ''none'' @ [CHR 0x27] @ ''; sandbox''"

definition SCRIPTABLE :: "string list" where
  "SCRIPTABLE = [''text/html'', ''application/xhtml+xml'', ''image/svg+xml'', ''text/xml'', ''application/xml'']"

record Attachment =
  att_body :: bytes
  att_content_type :: string
  att_content_length :: "nat option"
  att_filename :: "string option"

definition media_type :: "SniffedType option \<Rightarrow> string" where
  "media_type sniffed =
     (case map_option sniff_mime sniffed of
        None \<Rightarrow> OCTET_STREAM
      | Some mime \<Rightarrow> if mime \<in> set SCRIPTABLE then OCTET_STREAM else mime)"

definition attachment_from_bytes :: "(bytes \<Rightarrow> SniffedType option) \<Rightarrow> bytes \<Rightarrow> Attachment" where
  "attachment_from_bytes infer b =
     \<lparr>att_body = b, att_content_type = media_type (sniff infer b), att_content_length = Some (length b), att_filename = None\<rparr>"

text \<open>\<open>object\<close> is what the disk holds, \<open>None\<close> where it cannot be read; \<open>head\<close> is what the ranged read returns, and
  the tail is streamed from where it ended.\<close>

definition attachment_from_disk :: "(bytes \<Rightarrow> SniffedType option) \<Rightarrow> bytes option \<Rightarrow> Attachment option" where
  "attachment_from_disk infer object =
     Option.bind object (\<lambda>stored.
       let n = length stored;
           head = take (min n SNIFF_BYTES) stored
       in Some \<lparr>att_body = (if length head \<ge> n then head else head @ drop (length head) stored),
          att_content_type = media_type (sniff infer head), att_content_length = Some n, att_filename = None\<rparr>)"

definition attachment_with_filename :: "Attachment \<Rightarrow> string \<Rightarrow> Attachment" where
  "attachment_with_filename a f = a\<lparr>att_filename := Some f\<rparr>"

definition attachment_with_content_type :: "Attachment \<Rightarrow> SniffedType \<Rightarrow> Attachment" where
  "attachment_with_content_type a t = a\<lparr>att_content_type := sniff_mime t\<rparr>"

definition is_ascii_graphic :: "char \<Rightarrow> bool" where
  "is_ascii_graphic c = (33 \<le> (of_char c :: nat) \<and> (of_char c :: nat) \<le> 126)"

text \<open>A character of several bytes is one underscore: its continuation bytes are dropped.\<close>

definition fallback_char :: "char \<Rightarrow> char" where
  "fallback_char c =
     (if c = CHR 0x22 \<or> c = CHR 0x5C then CHR ''_''
      else if is_ascii_graphic c \<or> c = CHR '' '' then c else CHR ''_'')"

definition ascii_fallback :: "string \<Rightarrow> string" where
  "ascii_fallback f = map fallback_char (filter (\<lambda>c. \<not> cont (u8_of c)) f)"

definition HEX_UPPER :: string where
  "HEX_UPPER = ''0123456789ABCDEF''"

definition rfc5987_char :: "char \<Rightarrow> string" where
  "rfc5987_char c =
     (if is_ascii_alphanumeric c \<or> c \<in> set (''!#$&+-.^_'' @ [CHR 0x60] @ ''|~'') then [c]
      else [CHR ''%'', HEX_UPPER ! (of_char c div 16), HEX_UPPER ! (of_char c mod 16)])"

definition rfc5987_encode :: "string \<Rightarrow> string" where
  "rfc5987_encode f = concat (map rfc5987_char f)"

definition content_disposition :: "string option \<Rightarrow> string" where
  "content_disposition filename =
     (case filename of
        None \<Rightarrow> ''attachment''
      | Some f \<Rightarrow>
          ''attachment; filename='' @ [CHR 0x22] @ ascii_fallback f @ [CHR 0x22] @
          (if list_all (\<lambda>c. (of_char c :: nat) < 128) f then []
           else ''; filename*=UTF-8'' @ [CHR 0x27, CHR 0x27] @ rfc5987_encode f))"

definition attachment_into_response :: "'x \<Rightarrow> Attachment \<Rightarrow> 'x http_response" where
  "attachment_into_response no_ext a =
     (let h = hm_insert ''content-type'' (att_content_type a) [];
          h = hm_insert ''x-content-type-options'' ''nosniff'' h;
          h = hm_insert ''content-security-policy'' DOWNLOAD_CSP h;
          h = hm_insert ''content-disposition'' (case to_str (content_disposition (att_filename a)) of Some v \<Rightarrow> v | None \<Rightarrow> ''attachment'') h;
          h = (case att_content_length a of Some n \<Rightarrow> hm_insert ''content-length'' (show_nat n) h | None \<Rightarrow> h)
      in \<lparr>http_status = 200, http_headers = h, http_body = of_bytes (att_body a), http_extensions = no_ext\<rparr>)"

section \<open>Errors keep their status and lose their text\<close>

lemma hm_get_all_Nil [simp]: "hm_get_all [] n = []"
  by (simp add: hm_get_all_def)

lemma hm_get_all_Cons: "hm_get_all ((k, v) # h) n = (if n = k then v # hm_get_all h n else hm_get_all h n)"
  by (simp add: hm_get_all_def)

lemma kept_headers:
  "n \<noteq> ''content-type'' \<Longrightarrow> n \<noteq> ''content-length'' \<Longrightarrow>
   hm_get_all (foldl (\<lambda>h (n, v). if n = ''content-type'' \<or> n = ''content-length'' then h else hm_append n v h) h xs) n =
     hm_get_all h n @ hm_get_all xs n"
  by (induction xs arbitrary: h) (auto simp: hm_get_all_Cons)

lemma problem_for_status: "problem_status (problem_for cr s) = s"
  by (auto simp: problem_for_def problem_status_def problem_of_def problem_new_custom_def dest: for_status_keeps split: option.splits)

lemma rebuild_simps:
  "http_status (rebuild print r (problem_for cr (http_status r))) = http_status r"
  "http_body (rebuild print r p) = print (serialize_problem p)"
  "http_extensions (rebuild print r p) = http_extensions r"
  "n \<noteq> ''content-type'' \<Longrightarrow> n \<noteq> ''content-length'' \<Longrightarrow> hm_get_all (http_headers (rebuild print r p)) n = hm_get_all (http_headers r) n"
  by (simp_all add: rebuild_def problem_into_response_def problem_for_status Let_def kept_headers hm_get_all_Cons)

text \<open>Of several values of one header only the first is carried over to a replacement.\<close>

lemma carried_headers:
  "hm_get_all (carry_header_list h xs) n =
   (if n = ''content-type'' \<or> n = ''content-length'' \<or> hm_get_all h n \<noteq> [] then hm_get_all h n else take 1 (hm_get_all xs n))"
  by (induction h xs rule: carry_header_list.induct) (auto simp: hm_get_all_Cons hm_contains_iff)

text \<open>The answer of the application's own mapper, which is asked for errors only.\<close>

definition own_answer :: "'x ErrorMapping \<Rightarrow> headers \<Rightarrow> 'x http_response \<Rightarrow> 'x http_response option" where
  "own_answer self hs response =
     (if is_client_error (http_status response) \<or> is_server_error (http_status response)
      then Option.bind (mapper self) (\<lambda>f. f (http_status response) hs) else None)"



section \<open>Maintenance exempts subtrees\<close>

lemma pop_slashes_trailing: "q \<noteq> [] \<Longrightarrow> hd q \<noteq> CHR ''/'' \<Longrightarrow> pop_slashes (replicate n CHR ''/'' @ q) = q"
proof (induction n)
  case 0
  then show ?case
    by (cases q rule: pop_slashes.cases) auto
next
  case (Suc n)
  obtain c t where "replicate n CHR ''/'' @ q = c # t"
    using Suc.prems(1) by (cases "replicate n CHR ''/'' @ q") auto
  then show ?case
    using Suc by simp
qed

lemma covers_iff: "p \<noteq> ''/'' \<Longrightarrow> covers p path \<longleftrightarrow> path = p \<or> (\<exists>rest. path = p @ CHR ''/'' # rest)"
proof -
  assume "p \<noteq> ''/''"
  moreover have "length path > length p \<and> starts_with p path \<and> path ! length p = CHR ''/'' \<longleftrightarrow> (\<exists>rest. path = p @ CHR ''/'' # rest)"
    (is "?l \<longleftrightarrow> ?r")
  proof
    assume l: ?l
    then have "path = p @ drop (length p) path"
      by (metis append_take_drop_id starts_with_def)
    moreover have "drop (length p) path = CHR ''/'' # drop (Suc (length p)) path"
      using l by (simp add: Cons_nth_drop_Suc [symmetric])
    ultimately show ?r
      by metis
  qed (auto simp: starts_with_def)
  ultimately show ?thesis
    by (simp add: covers_def)
qed

text \<open>
  An exempt prefix exempts its whole segments and nothing else: whether it was given with or without the
  leading slash and with any number of trailing ones, it lets through that path and the paths below it,
  not a sibling that merely starts with the same letters.
\<close>
theorem exemption_is_a_subtree:
  assumes "q \<noteq> []" and "hd q \<noteq> CHR ''/''" and "last q \<noteq> CHR ''/''" and "pre = [] \<or> pre = ''/''"
  shows "is_exempt (allow m (pre @ q @ replicate n CHR ''/'')) path \<longleftrightarrow>
    is_exempt m path \<or> path = CHR ''/'' # q \<or> (\<exists>rest. path = CHR ''/'' # q @ CHR ''/'' # rest)"
proof -
  have "pop_slashes (rev (pre @ q @ replicate n CHR ''/'')) = rev (pre @ q)"
    using assms(1,3) pop_slashes_trailing [of "rev (pre @ q)" n] by (simp add: hd_rev hd_append)
  then have "exempt (allow m (pre @ q @ replicate n CHR ''/'')) = exempt m @ [CHR ''/'' # q]"
    using assms(1,2,4) by (cases q) (auto simp: allow_def Let_def starts_with_def)
  then show ?thesis
    using covers_iff [of "CHR ''/'' # q" path] assms(1) by (auto simp: is_exempt_def)
qed

theorem exemption_is_a_subtree_witness:
  "is_exempt (allow maintenance_engaged ''admin//'') ''/admin/users'' \<and> \<not> is_exempt (allow maintenance_engaged ''admin//'') ''/administrator''"
  using exemption_is_a_subtree [of "''admin''" "[]" maintenance_engaged 2 "''/admin/users''"]
    exemption_is_a_subtree [of "''admin''" "[]" maintenance_engaged 2 "''/administrator''"]
  by (simp add: numeral_2_eq_2 maintenance_engaged_def maintenance_new_def engage_def is_exempt_def)

text \<open>An empty prefix becomes the root and exempts every path.\<close>

lemma empty_prefix_exempts_all: "\<not> blocks (allow m []) path"
  by (simp add: blocks_def is_exempt_def allow_def covers_def starts_with_def)

section \<open>Downloads are inert\<close>

lemma fallback_char_safe: "printable (fallback_char c) \<and> fallback_char c \<noteq> CHR 0x22 \<and> fallback_char c \<noteq> CHR 0x5C"
  by (auto simp: fallback_char_def printable_def is_ascii_graphic_def)

lemma HEX_UPPER_eq: "HEX_UPPER = map (\<lambda>n. if n < 10 then char_of (48 + n) else char_of (55 + n)) [0..<16]"
  by code_simp

lemma HEX_UPPER_nth: "n < 16 \<Longrightarrow> HEX_UPPER ! n = (if n < 10 then char_of (48 + n) else char_of (55 + n))"
  by (simp add: HEX_UPPER_eq)

lemma printable_HEX_UPPER: "n < 16 \<Longrightarrow> printable (HEX_UPPER ! n)"
  by (auto simp: HEX_UPPER_nth printable_def of_char_of)

lemma printable_rfc5987: "c \<in> set (rfc5987_char d) \<Longrightarrow> printable c"
proof -
  have "of_char d < (256 :: nat)"
    by simp
  then have digits: "printable (HEX_UPPER ! (of_char d div 16))" "printable (HEX_UPPER ! (of_char d mod 16))"
    by (auto intro!: printable_HEX_UPPER simp: less_mult_imp_div_less)
  assume "c \<in> set (rfc5987_char d)"
  then show ?thesis
    using digits by (auto simp: rfc5987_char_def printable_def is_ascii_alphanumeric_def Let_def split: if_splits)
qed

lemma disposition_is_text: "to_str (content_disposition f) = Some (content_disposition f)"
proof -
  have "list_all header_text (ascii_fallback g)" for g
    using fallback_char_safe by (auto simp: ascii_fallback_def list_all_iff header_text_def)
  moreover have "list_all header_text (rfc5987_encode g)" for g
    using printable_rfc5987 by (auto simp: rfc5987_encode_def list_all_iff header_text_def)
  ultimately show ?thesis
    by (simp add: to_str_def content_disposition_def header_text_def printable_def split: option.splits)
qed

text \<open>What a client makes of the extended form.\<close>

definition hex_upper_value :: "char \<Rightarrow> nat" where
  "hex_upper_value c = (if (of_char c :: nat) < 58 then of_char c - 48 else of_char c - 55)"

fun rfc5987_decode :: "string \<Rightarrow> string" where
  "rfc5987_decode (c # a # b # s) =
     (if c = CHR ''%'' then char_of (16 * hex_upper_value a + hex_upper_value b) # rfc5987_decode s else c # rfc5987_decode (a # b # s))"
| "rfc5987_decode (c # s) = c # rfc5987_decode s"
| "rfc5987_decode [] = []"

lemma hex_upper_value_HEX: "n < 16 \<Longrightarrow> hex_upper_value (HEX_UPPER ! n) = n"
  by (auto simp: HEX_UPPER_nth hex_upper_value_def of_char_of)

lemma rfc5987_decode_plain: "c \<noteq> CHR ''%'' \<Longrightarrow> rfc5987_decode (c # s) = c # rfc5987_decode s"
  by (cases s; cases "tl s") auto

lemma rfc5987_decode_encode: "rfc5987_decode (rfc5987_encode f) = f"
proof (induction f)
  case (Cons c f)
  have "of_char c < (256 :: nat)"
    by simp
  then have "hex_upper_value (HEX_UPPER ! (of_char c div 16)) = of_char c div 16"
    "hex_upper_value (HEX_UPPER ! (of_char c mod 16)) = of_char c mod 16"
    by (auto intro!: hex_upper_value_HEX simp: less_mult_imp_div_less)
  then have "char_of (16 * hex_upper_value (HEX_UPPER ! (of_char c div 16)) + hex_upper_value (HEX_UPPER ! (of_char c mod 16))) = c"
    by simp
  moreover have "is_ascii_alphanumeric c \<or> c \<in> set (''!#$&+-.^_'' @ [CHR 0x60] @ ''|~'') \<Longrightarrow> c \<noteq> CHR ''%''"
    by (auto simp: is_ascii_alphanumeric_def Let_def)
  ultimately show ?case
    using Cons by (auto simp: rfc5987_encode_def rfc5987_char_def rfc5987_decode_plain)
qed (simp add: rfc5987_encode_def)

lemma media_type_inert: "media_type t \<notin> set SCRIPTABLE"
  by (auto simp: media_type_def OCTET_STREAM_def SCRIPTABLE_def split: option.splits)

text \<open>
  A download cannot run in the browser and its name cannot break out of its header: whatever the bytes and
  the name, the response is an attachment with the disposition built from the name, its type is none a
  browser executes and may not be guessed, the quoted name has no quote or backslash, and the extended
  form decodes to the name itself.  Streaming from a disk yields the same response as the bytes in memory.
\<close>
theorem download_is_inert:
  "hm_get (http_headers (attachment_into_response x (attachment_with_filename (attachment_from_bytes infer b) f))) ''content-disposition'' =
     Some (content_disposition (Some f)) \<and>
   hm_get (http_headers (attachment_into_response x (attachment_with_filename (attachment_from_bytes infer b) f))) ''content-type'' \<notin>
     Some ` set SCRIPTABLE \<and>
   hm_get (http_headers (attachment_into_response x (attachment_with_filename (attachment_from_bytes infer b) f))) ''x-content-type-options'' =
     Some ''nosniff'' \<and>
   CHR 0x22 \<notin> set (ascii_fallback f) \<and> CHR 0x5C \<notin> set (ascii_fallback f) \<and> rfc5987_decode (rfc5987_encode f) = f \<and>
   attachment_from_disk infer (Some b) = Some (attachment_from_bytes infer b)"
proof -
  have "CHR 0x22 \<notin> set (ascii_fallback f)" "CHR 0x5C \<notin> set (ascii_fallback f)"
    using fallback_char_safe by (auto simp: ascii_fallback_def) metis+
  moreover have "attachment_from_disk infer (Some b) = Some (attachment_from_bytes infer b)"
    by (simp add: attachment_from_disk_def attachment_from_bytes_def sniff_def Let_def min_def)
  ultimately show ?thesis
    using media_type_inert
    by (simp add: attachment_into_response_def attachment_with_filename_def attachment_from_bytes_def Let_def disposition_is_text
        rfc5987_decode_encode image_iff)
qed

end
