(* ===== verification/App_Lifecycle.thy ===== *)
theory App_Lifecycle
  imports Http_Errors
begin

text \<open>
  The life of a process: the atomic lifecycle state and its concurrent callers
  (\<^verbatim>\<open>application/lifecycle.rs\<close>), the health endpoints that read it (\<^verbatim>\<open>application/health.rs\<close>), the ordered
  start and stop of the subsystems (\<^verbatim>\<open>application/builder.rs\<close>, \<^verbatim>\<open>application/jobs_runtime.rs\<close>,
  \<^verbatim>\<open>application/resources.rs\<close>) and the application settings (\<^verbatim>\<open>config/mod.rs\<close>).  Probing a subsystem,
  connecting it and serving are parameters: their outcomes are given.
\<close>

section \<open>The lifecycle\<close>

datatype LifecycleState = LcStarting | LcReady | LcDraining | LcStopped

fun state_u8 :: "LifecycleState \<Rightarrow> u8" where
  "state_u8 LcStarting = 0"
| "state_u8 LcReady = 1"
| "state_u8 LcDraining = 2"
| "state_u8 LcStopped = 3"

definition state_from_u8 :: "u8 \<Rightarrow> LifecycleState" where
  "state_from_u8 v = (if v = 1 then LcReady else if v = 2 then LcDraining else if v = 3 then LcStopped else LcStarting)"

definition state_is_live :: "LifecycleState \<Rightarrow> bool" where
  "state_is_live s = (s \<noteq> LcStopped)"

fun state_as_str :: "LifecycleState \<Rightarrow> string" where
  "state_as_str LcStarting = ''starting''"
| "state_as_str LcReady = ''ready''"
| "state_as_str LcDraining = ''draining''"
| "state_as_str LcStopped = ''stopped''"

text \<open>The handle is one shared byte.\<close>

definition lifecycle_new :: u8 where
  "lifecycle_new = state_u8 LcStarting"

definition lifecycle_state :: "u8 \<Rightarrow> LifecycleState" where
  "lifecycle_state cell = state_from_u8 cell"

definition lifecycle_is_ready :: "u8 \<Rightarrow> bool" where
  "lifecycle_is_ready cell = (lifecycle_state cell = LcReady)"

definition lifecycle_is_live :: "u8 \<Rightarrow> bool" where
  "lifecycle_is_live cell = state_is_live (lifecycle_state cell)"

definition compare_exchange :: "'a \<Rightarrow> 'a \<Rightarrow> 'a \<Rightarrow> bool \<times> 'a" where
  "compare_exchange expected new cell = (if cell = expected then (True, new) else (False, cell))"

definition mark_ready :: "u8 \<Rightarrow> u8" where
  "mark_ready cell = snd (compare_exchange (state_u8 LcStarting) (state_u8 LcReady) cell)"

definition mark_stopped :: "u8 \<Rightarrow> u8" where
  "mark_stopped _ = state_u8 LcStopped"

text \<open>
  \<open>begin_drain\<close> is a loop of a load and a compare-and-exchange between which other callers run.  A call is at
  the load, between the two with the value it loaded, or back; \<open>failed\<close> counts the exchanges it lost.
\<close>

datatype drain_call = NotCalled | AtLoad | Loaded u8 | Drained

definition drain_load :: "u8 \<Rightarrow> drain_call" where
  "drain_load current = (if current = state_u8 LcDraining \<or> current = state_u8 LcStopped then Drained else Loaded current)"

definition drain_cas :: "u8 \<Rightarrow> u8 \<Rightarrow> drain_call \<times> u8" where
  "drain_cas current cell = (case compare_exchange current (state_u8 LcDraining) cell of
     (True, cell') \<Rightarrow> (Drained, cell') | (False, cell') \<Rightarrow> (AtLoad, cell'))"

record lifecycle_run =
  lc_cell :: u8
  calls :: "nat \<Rightarrow> drain_call"
  failed :: "nat \<Rightarrow> nat"

definition lifecycle_start :: lifecycle_run where
  "lifecycle_start = \<lparr>lc_cell = lifecycle_new, calls = (\<lambda>_. NotCalled), failed = (\<lambda>_. 0)\<rparr>"

inductive lifecycle_step :: "lifecycle_run \<Rightarrow> lifecycle_run \<Rightarrow> bool" where
  step_call: "calls s t = NotCalled \<Longrightarrow> lifecycle_step s (s\<lparr>calls := (calls s)(t := AtLoad)\<rparr>)"
| step_load: "calls s t = AtLoad \<Longrightarrow> lifecycle_step s (s\<lparr>calls := (calls s)(t := drain_load (lc_cell s))\<rparr>)"
| step_cas: "calls s t = Loaded current \<Longrightarrow> drain_cas current (lc_cell s) = (call, cell') \<Longrightarrow>
    lifecycle_step s (s\<lparr>lc_cell := cell', calls := (calls s)(t := call),
      failed := (failed s)(t := failed s t + (if call = AtLoad then 1 else 0))\<rparr>)"
| step_ready: "lifecycle_step s (s\<lparr>lc_cell := mark_ready (lc_cell s)\<rparr>)"
| step_stopped: "lifecycle_step s (s\<lparr>lc_cell := mark_stopped (lc_cell s)\<rparr>)"

inductive_cases lifecycle_stepE: "lifecycle_step s s'"

text \<open>A call of \<open>begin_drain\<close> that nothing interrupts.\<close>

definition begin_drain :: "u8 \<Rightarrow> u8" where
  "begin_drain current = (case drain_load current of Loaded c \<Rightarrow> snd (drain_cas c current) | _ \<Rightarrow> current)"

section \<open>Health\<close>

definition DEFAULT_PREFIX :: string where
  "DEFAULT_PREFIX = ''/up''"

text \<open>The handles of the started subsystems.  A storage handle is its map of named disks.\<close>

record ('d, 'j, 'c, 'k, 'm) Resources =
  res_db :: "'d option"
  res_jobs :: "'j option"
  res_cache :: "'c option"
  res_storage :: "(string \<times> 'k) list option"
  res_mail :: "'m option"

definition resources_empty :: "('d, 'j, 'c, 'k, 'm) Resources" where
  "resources_empty = \<lparr>res_db = None, res_jobs = None, res_cache = None, res_storage = None, res_mail = None\<rparr>"

record ('d, 'j, 'c, 'k, 'm) Health =
  health_prefix :: string
  health_resources :: "('d, 'j, 'c, 'k, 'm) Resources option"

definition health_new :: "string \<Rightarrow> ('d, 'j, 'c, 'k, 'm) Health" where
  "health_new p = (let q = trim_end_matches (\<lambda>c. c = CHR ''/'') p in
     \<lparr>health_prefix = (if starts_with ''/'' q then q else CHR ''/'' # q), health_resources = None\<rparr>)"

definition health_covers :: "('d, 'j, 'c, 'k, 'm) Health \<Rightarrow> string \<Rightarrow> bool" where
  "health_covers h path = (path = health_prefix h \<or>
     (length path > length (health_prefix h) \<and> starts_with (health_prefix h) path \<and>
      path ! length (health_prefix h) = CHR ''/''))"

definition health_publish :: "('d, 'j, 'c, 'k, 'm) Health \<Rightarrow> ('d, 'j, 'c, 'k, 'm) Resources \<Rightarrow> ('d, 'j, 'c, 'k, 'm) Health" where
  "health_publish h r = (case health_resources h of None \<Rightarrow> h\<lparr>health_resources := Some r\<rparr> | Some _ \<Rightarrow> h)"

record Check =
  check_status :: string
  check_reason :: "string option"

definition check_up :: Check where
  "check_up = \<lparr>check_status = ''up'', check_reason = None\<rparr>"

definition check_down :: "string \<Rightarrow> Check" where
  "check_down reason = \<lparr>check_status = ''down'', check_reason = Some reason\<rparr>"

definition check_is_up :: "Check \<Rightarrow> bool" where
  "check_is_up c = (check_status c = ''up'')"

definition from_probe :: "(string, unit) result \<Rightarrow> Check" where
  "from_probe r = (case r of Ok _ \<Rightarrow> check_up | Err e \<Rightarrow> check_down e)"

record HealthReport =
  report_state :: LifecycleState
  report_ready :: bool
  report_checks :: "(string, Check) btree"
  live_only :: bool

definition health_live :: "u8 \<Rightarrow> HealthReport" where
  "health_live cell = \<lparr>report_state = lifecycle_state cell, report_ready = False, report_checks = [], live_only = True\<rparr>"

text \<open>What each subsystem's own probe answers.\<close>

record ('d, 'c, 'k) probes =
  ping_db :: "'d \<Rightarrow> (string, unit) result"
  ping_cache :: "'c \<Rightarrow> (string, unit) result"
  check_disk :: "'k \<Rightarrow> (string, unit) result"

definition insert_disk_checks :: "('k \<Rightarrow> (string, unit) result) \<Rightarrow> (string \<times> 'k) list \<Rightarrow> (string, Check) btree \<Rightarrow> (string, Check) btree" where
  "insert_disk_checks check disks cs =
     foldl (\<lambda>cs (n, d). bt_insert (''storage:'' @ n) (from_probe (check d)) cs) cs disks"

definition run_checks :: "('d, 'c, 'k) probes \<Rightarrow> ('d, 'j, 'c, 'k, 'm) Resources option \<Rightarrow> (string, Check) btree" where
  "run_checks w r = (
     let cs = [];
         cs = (case Option.bind r res_db of Some db \<Rightarrow> bt_insert ''database'' (from_probe (ping_db w db)) cs | None \<Rightarrow> cs);
         cs = (case Option.bind r res_cache of Some c \<Rightarrow> bt_insert ''cache'' (from_probe (ping_cache w c)) cs | None \<Rightarrow> cs);
         cs = (case Option.bind r res_storage of Some disks \<Rightarrow> insert_disk_checks (check_disk w) disks cs | None \<Rightarrow> cs)
     in (case Option.bind r res_jobs of Some _ \<Rightarrow> bt_insert ''jobs'' check_up cs | None \<Rightarrow> cs))"

definition health_report :: "('d, 'c, 'k) probes \<Rightarrow> ('d, 'j, 'c, 'k, 'm) Health \<Rightarrow> u8 \<Rightarrow> HealthReport" where
  "health_report w h cell = (let checks = run_checks w (health_resources h) in
     \<lparr>report_state = lifecycle_state cell,
      report_ready = (lifecycle_state cell = LcReady \<and> list_all (\<lambda>(_, c). check_is_up c) checks),
      report_checks = checks, live_only = False\<rparr>)"

definition report_status :: "HealthReport \<Rightarrow> nat" where
  "report_status r = (if (if live_only r then state_is_live (report_state r) else report_ready r) then 200 else 503)"

definition serialize_check :: "Check \<Rightarrow> json" where
  "serialize_check c = JObject (insert_some ''reason'' (check_reason c) (bt_insert ''status'' (JString (check_status c)) []))"

definition serialize_report :: "HealthReport \<Rightarrow> json" where
  "serialize_report r = JObject (
     (if report_checks r = [] then (\<lambda>m. m)
      else bt_insert ''checks'' (JObject (map (\<lambda>(k, c). (k, serialize_check c)) (report_checks r))))
     (bt_insert ''ready'' (JBool (report_ready r)) (bt_insert ''state'' (JString (state_as_str (report_state r))) [])))"

definition report_into_response :: "(json \<Rightarrow> string) \<Rightarrow> 'x \<Rightarrow> HealthReport \<Rightarrow> 'x http_response" where
  "report_into_response print ext r =
     \<lparr>http_status = report_status r,
      http_headers = hm_insert ''cache-control'' ''no-store, max-age=0'' [(''content-type'', ''application/json'')],
      http_body = print (serialize_report r), http_extensions = ext\<rparr>"

text \<open>The three routes of \<open>Health::router\<close>.\<close>

definition health_routes :: "(json \<Rightarrow> string) \<Rightarrow> 'x \<Rightarrow> ('d, 'c, 'k) probes \<Rightarrow> ('d, 'j, 'c, 'k, 'm) Health \<Rightarrow> u8
    \<Rightarrow> (string \<times> 'x http_response) list" where
  "health_routes print ext w h cell =
     [(health_prefix h, report_into_response print ext (health_report w h cell)),
      (health_prefix h @ ''/live'', report_into_response print ext (health_live cell)),
      (health_prefix h @ ''/ready'', report_into_response print ext (health_report w h cell))]"

section \<open>Starting and stopping\<close>

datatype subsystem = SubDatabase | SubJobs | SubCache | SubStorage | SubMail

datatype EngineError =
    BindListener string string
  | InvalidPort nat
  | ServeError string
  | Startup subsystem string string
  | Shutdown subsystem string

text \<open>What a run does that others can see, in order.\<close>

datatype app_event = Bound | Connected subsystem | Migrated | WorkerSpawned | SchedulerSpawned | Published | Listening LifecycleState
  | Closed subsystem | Cancelled | WorkerJoined | SchedulerJoined

text \<open>Which subsystems the application asked for, and what the outside answers to each call.\<close>

record run_plan =
  plan_bind_addr :: string
  plan_port :: nat
  plan_db :: bool
  plan_jobs :: bool
  plan_scheduler :: bool
  plan_cache :: bool
  plan_storage :: bool
  plan_mail :: bool
  plan_health :: bool

record run_world =
  env_var :: "string \<Rightarrow> string option"
  addr_parses :: "string \<Rightarrow> bool"
  bind_result :: "(string \<times> string, unit) result"
  connect :: "subsystem \<Rightarrow> (string, unit) result"
  migrate_result :: "(string, unit) result"
  serve_result :: "(string, unit) result"
  worker_join :: "(string, unit) result"
  scheduler_join :: "(string, unit) result"

record run_state =
  run_log :: "app_event list"
  run_started :: "subsystem list"
  run_cell :: u8

type_synonym 'a run = "run_state \<Rightarrow> (EngineError, 'a) result \<times> run_state"

definition emit :: "app_event \<Rightarrow> run_state \<Rightarrow> run_state" where
  "emit e s = s\<lparr>run_log := run_log s @ [e]\<rparr>"

definition PORT_ENV_KEYS :: "string list" where
  "PORT_ENV_KEYS = [''ARCATURE_BACKEND_PORT'', ''PORT'', ''APP_PORT'']"

fun port_from_keys :: "nat \<Rightarrow> (string \<Rightarrow> string option) \<Rightarrow> string list \<Rightarrow> nat" where
  "port_from_keys configured lookup [] = configured"
| "port_from_keys configured lookup (key # keys) =
     (case Option.bind (lookup key) (parse_uint 65535) of Some port \<Rightarrow> port | None \<Rightarrow> port_from_keys configured lookup keys)"

definition port_from :: "nat \<Rightarrow> (string \<Rightarrow> string option) \<Rightarrow> nat" where
  "port_from configured lookup = port_from_keys configured lookup PORT_ENV_KEYS"

text \<open>Starting one subsystem, when it was asked for.\<close>

definition start_subsystem :: "run_world \<Rightarrow> bool \<Rightarrow> subsystem \<Rightarrow> unit run" where
  "start_subsystem w wanted sub s = (if wanted then (case connect w sub of
       Err e \<Rightarrow> (Err (Startup sub ''connect'' e), s)
     | Ok _ \<Rightarrow> (Ok (), emit (Connected sub) (s\<lparr>run_started := run_started s @ [sub]\<rparr>)))
     else (Ok (), s))"

definition jobs_need_database :: string where
  "jobs_need_database = ''the jobs subsystem requires the database subsystem to be enabled and connected''"

definition start_jobs :: "run_world \<Rightarrow> bool \<Rightarrow> bool \<Rightarrow> bool run" where
  "start_jobs w registry scheduler s = (
     if \<not> registry then (Ok False, s)
     else if SubDatabase \<notin> set (run_started s) then (Err (Startup SubJobs ''connect'' jobs_need_database), s)
     else (case migrate_result w of
         Err e \<Rightarrow> (Err (Startup SubJobs ''migrate'' e), s)
       | Ok _ \<Rightarrow> (
           let s = emit Migrated (s\<lparr>run_started := run_started s @ [SubJobs]\<rparr>);
               s = emit WorkerSpawned s;
               s = (if scheduler then emit SchedulerSpawned s else s)
           in (Ok True, s))))"

definition jobs_shutdown :: "run_world \<Rightarrow> bool \<Rightarrow> unit run" where
  "jobs_shutdown w scheduler s = (
     let s = emit Cancelled s in
     case worker_join w of
       Err e \<Rightarrow> (Err (Shutdown SubJobs (''worker task panicked: '' @ e)), s)
     | Ok _ \<Rightarrow> (
         let s = emit WorkerJoined s in
         if scheduler then (case scheduler_join w of
             Err e \<Rightarrow> (Err (Shutdown SubJobs (''scheduler task panicked: '' @ e)), s)
           | Ok _ \<Rightarrow> (Ok (), emit SchedulerJoined s))
         else (Ok (), s)))"

text \<open>
  Closing a subsystem's handle at shutdown.  The mail, cache and database handles are shut down or closed,
  their results ignored; for storage, which has nothing to close, the code only lets go of a clone of the
  handle, and \<open>Closed SubStorage\<close> marks the place where it does.
\<close>

definition close_started :: "subsystem \<Rightarrow> run_state \<Rightarrow> run_state" where
  "close_started sub s = (if sub \<in> set (run_started s) then emit (Closed sub) s else s)"

text \<open>The second half of a run: publish to the health endpoints, become ready, serve until the shutdown signal
  has been handled, drain, and stop in reverse order.\<close>

definition serve_and_stop :: "run_world \<Rightarrow> run_plan \<Rightarrow> bool \<Rightarrow> unit run" where
  "serve_and_stop w p jobs s = (
     let s = (if plan_health p then emit Published s else s);
         s = s\<lparr>run_cell := mark_ready (run_cell s)\<rparr>;
         s = emit (Listening (lifecycle_state (run_cell s))) s
     in case serve_result w of
       Err e \<Rightarrow> (Err (ServeError e), s)
     | Ok _ \<Rightarrow> (
         let s = s\<lparr>run_cell := begin_drain (run_cell s)\<rparr>;
             s = close_started SubCache (close_started SubStorage (close_started SubMail s))
         in sbind (if jobs then jobs_shutdown w (plan_scheduler p) s else (Ok (), s)) (\<lambda>_ s.
           let s = close_started SubDatabase s
           in (Ok (), s\<lparr>run_cell := mark_stopped (run_cell s)\<rparr>)) (\<lambda>e. e)))"

text \<open>
  \<open>run_with_state\<close>: bind, start in order, then the second half.  Every \<^verbatim>\<open>?\<close> of the source is an early return.
\<close>

definition run_with_state :: "run_world \<Rightarrow> run_plan \<Rightarrow> unit run" where
  "run_with_state w p s = (
     let port = port_from (plan_port p) (env_var w) in
     if \<not> addr_parses w (plan_bind_addr p @ '':'' @ show_nat port) then (Err (InvalidPort port), s)
     else case bind_result w of
       Err (addr, e) \<Rightarrow> (Err (BindListener addr e), s)
     | Ok _ \<Rightarrow>
       sbind (start_subsystem w (plan_db p) SubDatabase (emit Bound s)) (\<lambda>_ s.
       sbind (start_jobs w (plan_jobs p) (plan_scheduler p) s) (\<lambda>jobs s.
       sbind (start_subsystem w (plan_cache p) SubCache s) (\<lambda>_ s.
       sbind (start_subsystem w (plan_storage p) SubStorage s) (\<lambda>_ s.
       sbind (start_subsystem w (plan_mail p) SubMail s) (\<lambda>_ s.
         serve_and_stop w p jobs s)
       (\<lambda>e. e)) (\<lambda>e. e)) (\<lambda>e. e)) (\<lambda>e. e)) (\<lambda>e. e))"

text \<open>\<open>serve\<close>, which starts nothing: the caller brings the listener.\<close>

definition serve_listener :: "run_world \<Rightarrow> run_plan \<Rightarrow> unit run" where
  "serve_listener w p s = (
     let s = (if plan_health p then emit Published s else s);
         s = s\<lparr>run_cell := mark_ready (run_cell s)\<rparr>;
         s = emit (Listening (lifecycle_state (run_cell s))) s
     in case serve_result w of
       Err e \<Rightarrow> (Err (ServeError e), s)
     | Ok _ \<Rightarrow> (Ok (), s\<lparr>run_cell := mark_stopped (begin_drain (run_cell s))\<rparr>))"

section \<open>Settings\<close>

datatype AppEnvironment = Development | Production | TestEnv

definition environment_parse :: "string \<Rightarrow> AppEnvironment" where
  "environment_parse v = (let l = to_ascii_lowercase v in
     if l = ''production'' \<or> l = ''prod'' then Production else if l = ''test'' then TestEnv else Development)"

record AppConfig =
  app_name :: string
  app_url :: string
  app_env :: AppEnvironment
  app_port :: nat

definition app_config_new :: AppConfig where
  "app_config_new = \<lparr>app_name = ''Arcature'', app_url = ''http://localhost:1183'', app_env = Development, app_port = 1183\<rparr>"

definition env_or :: "(string \<Rightarrow> string option) \<Rightarrow> string \<Rightarrow> string \<Rightarrow> string" where
  "env_or env key d = (case env key of Some v \<Rightarrow> if v \<noteq> [] then v else d | None \<Rightarrow> d)"

definition env_required :: "(string \<Rightarrow> string option) \<Rightarrow> string \<Rightarrow> (string, string) result" where
  "env_required env key = (case env key of
     Some v \<Rightarrow> if v \<noteq> [] then Ok v else Err (key @ '' is required but not set'')
   | None \<Rightarrow> Err (key @ '' is required but not set''))"

definition env_parsed :: "(string \<Rightarrow> string option) \<Rightarrow> (string \<Rightarrow> 'a option) \<Rightarrow> string \<Rightarrow> 'a \<Rightarrow> 'a" where
  "env_parsed env parse key d = (case env key of
     Some v \<Rightarrow> if v \<noteq> [] then (case parse v of Some a \<Rightarrow> a | None \<Rightarrow> d) else d
   | None \<Rightarrow> d)"

definition base_url :: "AppConfig \<Rightarrow> string" where
  "base_url c = trim_end_matches (\<lambda>ch. ch = CHR ''/'') (app_url c)"

definition absolute_url :: "AppConfig \<Rightarrow> string \<Rightarrow> string" where
  "absolute_url c path = (let path = dropWhile (\<lambda>ch. ch = CHR ''/'') path in
     if path = [] then base_url c else base_url c @ ''/'' @ path)"

definition app_config_from_env :: "(string \<Rightarrow> string option) \<Rightarrow> AppConfig" where
  "app_config_from_env env =
     \<lparr>app_name = env_or env ''APP_NAME'' ''Arcature'', app_url = env_or env ''APP_URL'' ''http://localhost:1183'',
      app_env = environment_parse (env_or env ''APP_ENV'' ''development''), app_port = env_parsed env (parse_uint 65535) ''APP_PORT'' 1183\<rparr>"

section \<open>The lifecycle only moves forward\<close>

lemma compare_exchange_simps [simp]:
  "compare_exchange e n e = (True, n)" "c \<noteq> e \<Longrightarrow> compare_exchange e n c = (False, c)"
  by (simp_all add: compare_exchange_def)

lemma lifecycle_calls_simps [simp]:
  "mark_ready 0 = 1" "mark_ready 1 = 1" "mark_ready 2 = 2" "mark_ready 3 = 3" "mark_stopped c = 3"
  "begin_drain 0 = 2" "begin_drain 1 = 2" "begin_drain 2 = 2" "begin_drain 3 = 3"
  by (simp_all add: mark_ready_def mark_stopped_def begin_drain_def drain_load_def drain_cas_def compare_exchange_def)

lemma state_from_u8_simps [simp]: "lifecycle_state (state_u8 s) = s" "lifecycle_state 0 = LcStarting" "lifecycle_state 1 = LcReady"
  "lifecycle_state 2 = LcDraining" "lifecycle_state 3 = LcStopped"
  by (cases s, simp_all add: lifecycle_state_def state_from_u8_def)

definition call_ok :: "u8 \<Rightarrow> drain_call \<Rightarrow> nat \<Rightarrow> bool" where
  "call_ok c call fails = (case call of
     NotCalled \<Rightarrow> fails = 0
   | AtLoad \<Rightarrow> fails \<le> unat c \<and> fails \<le> 2
   | Loaded v \<Rightarrow> v \<in> {0, 1} \<and> unat v \<le> unat c \<and> fails \<le> unat v
   | Drained \<Rightarrow> fails \<le> 2 \<and> 2 \<le> unat c)"

definition lifecycle_inv :: "lifecycle_run \<Rightarrow> bool" where
  "lifecycle_inv s \<longleftrightarrow> lc_cell s \<in> {0, 1, 2, 3} \<and> (\<forall>t. call_ok (lc_cell s) (calls s t) (failed s t))"

lemma call_ok_mono: "call_ok c call n \<Longrightarrow> unat c \<le> unat c' \<Longrightarrow> call_ok c' call n"
  by (auto simp: call_ok_def split: drain_call.splits)

lemma drain_load_ok: "c \<in> {0, 1, 2, 3} \<Longrightarrow> call_ok c AtLoad n \<Longrightarrow> call_ok c (drain_load c) n"
  by (auto simp: call_ok_def drain_load_def)

lemma drain_cas_ok:
  assumes "c \<in> {0, 1, 2, 3}" and "call_ok c (Loaded v) n" and "drain_cas v c = (call, c')"
  shows "c' \<in> {0, 1, 2, 3}" and "unat c \<le> unat c'" and "call_ok c' call (n + (if call = AtLoad then 1 else 0))"
  using assms by (auto simp: call_ok_def drain_cas_def compare_exchange_def split: if_splits)

lemma lifecycle_step_inv:
  assumes "lifecycle_step s s'" and "lifecycle_inv s"
  shows "lifecycle_inv s' \<and> unat (lc_cell s) \<le> unat (lc_cell s')"
  using assms
proof (cases rule: lifecycle_step.cases)
  case (step_cas t v call c')
  have c: "lc_cell s \<in> {0, 1, 2, 3}" and ok: "\<And>t. call_ok (lc_cell s) (calls s t) (failed s t)"
    using assms(2) by (auto simp: lifecycle_inv_def)
  have v: "call_ok (lc_cell s) (Loaded v) (failed s t)"
    using ok [of t] step_cas(2) by simp
  show ?thesis
    using step_cas(1) drain_cas_ok [OF c v step_cas(3)] call_ok_mono [OF ok] by (auto simp: lifecycle_inv_def)
next
  case (step_load t)
  then have "call_ok (lc_cell s) (drain_load (lc_cell s)) (failed s t)"
    using assms(2) drain_load_ok [of "lc_cell s" "failed s t"] by (metis lifecycle_inv_def)
  then show ?thesis
    using assms(2) step_load(1) by (auto simp: lifecycle_inv_def)
next
  case step_ready
  then show ?thesis
    using assms(2) call_ok_mono [of "lc_cell s" _ _ "mark_ready (lc_cell s)"] by (auto simp: lifecycle_inv_def)
next
  case step_stopped
  then show ?thesis
    using assms(2) call_ok_mono [of "lc_cell s" _ _ 3] by (auto simp: lifecycle_inv_def)
next
  case (step_call t)
  then have "failed s t = 0"
    using assms(2) by (auto simp: lifecycle_inv_def call_ok_def split: drain_call.splits)
  then show ?thesis
    using assms(2) step_call by (simp add: lifecycle_inv_def call_ok_def [of _ AtLoad])
qed

lemma lifecycle_start_inv: "lifecycle_inv lifecycle_start"
  by (simp add: lifecycle_inv_def lifecycle_start_def lifecycle_new_def call_ok_def)

lemma lifecycle_reachable_inv: "lifecycle_step\<^sup>*\<^sup>* lifecycle_start s \<Longrightarrow> lifecycle_inv s"
  by (induction rule: rtranclp_induct) (auto simp: lifecycle_start_inv dest: lifecycle_step_inv)

lemma lifecycle_steps_forward: "lifecycle_step\<^sup>*\<^sup>* s s' \<Longrightarrow> lifecycle_inv s \<Longrightarrow> lifecycle_inv s' \<and> unat (lc_cell s) \<le> unat (lc_cell s')"
  by (induction rule: rtranclp_induct) (auto dest: lifecycle_step_inv)

text \<open>
  C13.  However the calls interleave, the lifecycle only moves forward through starting, ready, draining and
  stopped; a call of \<open>begin_drain\<close> loses the exchange at most twice, so its retry loop ends, and when it
  has come back the process is draining or stopped and stays so.
\<close>
theorem lifecycle_moves_forward:
  assumes "lifecycle_step\<^sup>*\<^sup>* lifecycle_start s" and "lifecycle_step\<^sup>*\<^sup>* s s'"
  shows "lc_cell s = state_u8 (lifecycle_state (lc_cell s)) \<and> unat (lc_cell s) \<le> unat (lc_cell s') \<and>
    failed s t \<le> 2 \<and>
    (calls s t = Drained \<longrightarrow> lifecycle_state (lc_cell s') = LcDraining \<or> lifecycle_state (lc_cell s') = LcStopped)"
proof -
  have inv: "lifecycle_inv s"
    using assms(1) by (rule lifecycle_reachable_inv)
  note fwd = lifecycle_steps_forward [OF assms(2) inv]
  have c: "lc_cell s \<in> {0, 1, 2, 3}" and c': "lc_cell s' \<in> {0, 1, 2, 3}" and ok: "call_ok (lc_cell s) (calls s t) (failed s t)"
    using inv fwd by (auto simp: lifecycle_inv_def)
  have "failed s t \<le> 2"
    using ok c by (auto simp: call_ok_def split: drain_call.splits)
  moreover have "2 \<le> unat (lc_cell s')" if "calls s t = Drained"
    using ok fwd that by (auto simp: call_ok_def)
  ultimately show ?thesis
    using c c' fwd by (auto simp: lifecycle_state_def state_from_u8_def)
qed

definition sample_lifecycle :: lifecycle_run where
  "sample_lifecycle = lifecycle_start\<lparr>calls := (calls lifecycle_start)(0 := AtLoad)\<rparr>"

lemma sample_lifecycle_reachable: "lifecycle_step\<^sup>*\<^sup>* lifecycle_start sample_lifecycle"
  unfolding sample_lifecycle_def by (rule r_into_rtranclp, rule step_call) (simp add: lifecycle_start_def)

theorem lifecycle_moves_forward_witness: "failed sample_lifecycle 0 \<le> 2 \<and> unat (lc_cell sample_lifecycle) \<le> 0"
  using lifecycle_moves_forward [OF sample_lifecycle_reachable rtranclp.rtrancl_refl, of 0]
  by (simp add: sample_lifecycle_def lifecycle_start_def lifecycle_new_def)

section \<open>Readiness\<close>

lemma set_bt_insert_fresh: "k \<notin> fst ` set t \<Longrightarrow> set (bt_insert k v t) = insert (k, v) (set t)"
  by (induction k v t rule: bt_insert.induct) auto

lemma disk_checks_set:
  "distinct (map fst disks) \<Longrightarrow> \<forall>n \<in> fst ` set disks. ''storage:'' @ n \<notin> fst ` set cs \<Longrightarrow>
   set (insert_disk_checks check disks cs) = set cs \<union> (\<lambda>(n, d). (''storage:'' @ n, from_probe (check d))) ` set disks"
proof (induction disks arbitrary: cs)
  case (Cons d disks)
  let ?cs = "bt_insert (''storage:'' @ fst d) (from_probe (check (snd d))) cs"
  have ins: "set ?cs = insert (''storage:'' @ fst d, from_probe (check (snd d))) (set cs)"
    using Cons.prems(2) by (intro set_bt_insert_fresh) simp
  have "\<forall>n \<in> fst ` set disks. ''storage:'' @ n \<notin> fst ` set ?cs"
    using Cons.prems unfolding ins by (force simp: image_iff)
  then show ?case
    using Cons.IH [of ?cs] Cons.prems(1) ins by (simp add: insert_disk_checks_def case_prod_unfold)
qed (simp add: insert_disk_checks_def)

lemma from_probe_up [simp]: "check_is_up (from_probe r) \<longleftrightarrow> is_ok r" "check_is_up check_up"
  by (auto simp: from_probe_def check_is_up_def check_up_def check_down_def is_ok_def split: sum.splits)

text \<open>The probes of a set of resources: one per subsystem that was started, one per disk.\<close>

definition probe_results :: "('d, 'c, 'k) probes \<Rightarrow> ('d, 'j, 'c, 'k, 'm) Resources \<Rightarrow> (string \<times> (string, unit) result) list" where
  "probe_results w r =
     (case res_db r of Some db \<Rightarrow> [(''database'', ping_db w db)] | None \<Rightarrow> []) @
     (case res_cache r of Some c \<Rightarrow> [(''cache'', ping_cache w c)] | None \<Rightarrow> []) @
     (case res_storage r of Some disks \<Rightarrow> map (\<lambda>(n, d). (''storage:'' @ n, check_disk w d)) disks | None \<Rightarrow> []) @
     (case res_jobs r of Some _ \<Rightarrow> [(''jobs'', Ok ())] | None \<Rightarrow> [])"

definition disks_ok :: "('d, 'j, 'c, 'k, 'm) Resources \<Rightarrow> bool" where
  "disks_ok r = (case res_storage r of Some disks \<Rightarrow> distinct (map fst disks) | None \<Rightarrow> True)"

lemma run_checks_set:
  assumes "disks_ok r"
  shows "set (run_checks w (Some r)) = (\<lambda>(n, x). (n, from_probe x)) ` set (probe_results w r)"
proof -
  define a where "a = (case res_db r of Some db \<Rightarrow> bt_insert ''database'' (from_probe (ping_db w db)) [] | None \<Rightarrow> [])"
  define b where "b = (case res_cache r of Some c \<Rightarrow> bt_insert ''cache'' (from_probe (ping_cache w c)) a | None \<Rightarrow> a)"
  define d where "d = (case res_storage r of Some disks \<Rightarrow> insert_disk_checks (check_disk w) disks b | None \<Rightarrow> b)"
  have a: "set a = (case res_db r of Some db \<Rightarrow> {(''database'', from_probe (ping_db w db))} | None \<Rightarrow> {})"
    by (simp add: a_def split: option.splits)
  have b: "set b = set a \<union> (case res_cache r of Some c \<Rightarrow> {(''cache'', from_probe (ping_cache w c))} | None \<Rightarrow> {})"
    by (auto simp: b_def a set_bt_insert_fresh split: option.splits)
  have d: "set d = set b \<union> (case res_storage r of
      Some disks \<Rightarrow> (\<lambda>(n, k). (''storage:'' @ n, from_probe (check_disk w k))) ` set disks | None \<Rightarrow> {})"
  proof (cases "res_storage r")
    case (Some disks)
    then show ?thesis
      using assms disk_checks_set [of disks b "check_disk w"] by (auto simp: d_def disks_ok_def b a split: option.splits)
  qed (simp add: d_def)
  have "''jobs'' \<notin> fst ` set d"
    by (auto simp: d b a split: option.splits)
  moreover have "run_checks w (Some r) = (case res_jobs r of Some _ \<Rightarrow> bt_insert ''jobs'' check_up d | None \<Rightarrow> d)"
    by (simp only: run_checks_def Let_def d_def b_def a_def Option.bind.bind_lunit)
  ultimately have "set (run_checks w (Some r)) = set d \<union> (case res_jobs r of Some _ \<Rightarrow> {(''jobs'', check_up)} | None \<Rightarrow> {})"
    by (simp add: set_bt_insert_fresh split: option.splits)
  then show ?thesis
    unfolding d b a by (auto simp: probe_results_def image_Un image_image case_prod_unfold from_probe_def check_up_def split: option.splits)
qed

text \<open>
  The readiness route answers 200 exactly when the process is ready and every subsystem that was
  started, each registered disk included, answers its own probe; otherwise it answers 503 and names every
  probe that failed with its reason.  The liveness route answers 200 until the process has stopped,
  whatever the probes say.  No answer may be cached.
\<close>
theorem readiness_is_exact:
  assumes "health_resources h = Some r" and "disks_ok r"
    and "[(p, summary), (pl, live), (pr, ready)] = health_routes print ext w h (state_u8 st)"
  shows "(http_status ready = 200 \<longleftrightarrow> st = LcReady \<and> (\<forall>(n, x) \<in> set (probe_results w r). is_ok x)) \<and>
    (http_status ready = 200 \<or> http_status ready = 503) \<and> summary = ready \<and>
    (\<forall>n e. (n, Err e) \<in> set (probe_results w r) \<longrightarrow>
       (n, check_down e) \<in> set (report_checks (health_report w h (state_u8 st)))) \<and>
    http_status live = (if st = LcStopped then 503 else 200) \<and>
    (\<forall>x \<in> {summary, live, ready}. hm_get_all (http_headers x) ''cache-control'' = [''no-store, max-age=0''])"
proof -
  have checks: "set (report_checks (health_report w h (state_u8 st))) = (\<lambda>(n, x). (n, from_probe x)) ` set (probe_results w r)"
    using run_checks_set [OF assms(2)] assms(1) by (simp add: health_report_def Let_def)
  have "report_ready (health_report w h (state_u8 st)) \<longleftrightarrow>
      st = LcReady \<and> (\<forall>(n, x) \<in> set (report_checks (health_report w h (state_u8 st))). check_is_up x)"
    by (auto simp: health_report_def Let_def list_all_iff)
  then have rdy: "report_ready (health_report w h (state_u8 st)) \<longleftrightarrow> st = LcReady \<and> (\<forall>(n, x) \<in> set (probe_results w r). is_ok x)"
    unfolding checks by (auto simp: case_prod_unfold)
  have down: "(n, check_down e) \<in> set (report_checks (health_report w h (state_u8 st)))" if "(n, Err e) \<in> set (probe_results w r)" for n e
    using that unfolding checks by (force simp: from_probe_def)
  have "\<not> live_only (health_report w h (state_u8 st))"
    by (simp add: health_report_def Let_def)
  then show ?thesis
    using assms(3) rdy down
    by (auto simp: health_routes_def report_into_response_def report_status_def health_live_def state_is_live_def)
qed

definition sample_health :: "(nat, unit, nat, nat, unit) Health" where
  "sample_health = health_publish (health_new ''/up/'') \<lparr>res_db = Some 1, res_jobs = None, res_cache = None,
     res_storage = Some [(''local'', 1), (''s3'', 0)], res_mail = None\<rparr>"

definition sample_probes :: "(nat, nat, nat) probes" where
  "sample_probes = \<lparr>ping_db = (\<lambda>_. Ok ()), ping_cache = (\<lambda>_. Ok ()), check_disk = (\<lambda>k. if k = 0 then Err ''refused'' else Ok ())\<rparr>"

theorem readiness_is_exact_witness:
  "http_status (snd (health_routes (\<lambda>_. []) () sample_probes sample_health 1 ! 2)) = 503 \<and>
   http_status (snd (health_routes (\<lambda>_. []) () sample_probes sample_health 1 ! 1)) = 200"
proof -
  obtain p su pl li pr re where r: "[(p, su), (pl, li), (pr, re)] = health_routes (\<lambda>_. []) () sample_probes sample_health (state_u8 LcReady)"
    by (simp add: health_routes_def)
  have res: "health_resources sample_health = Some \<lparr>res_db = Some 1, res_jobs = None, res_cache = None,
     res_storage = Some [(''local'', 1), (''s3'', 0)], res_mail = None\<rparr>"
    by (simp add: sample_health_def health_publish_def health_new_def Let_def)
  have "http_status re = 503 \<and> http_status li = 200"
    using readiness_is_exact [OF res _ r] by (auto simp: disks_ok_def probe_results_def sample_probes_def)
  then show ?thesis
    using arg_cong [OF r, of "\<lambda>xs. (snd (xs ! 2), snd (xs ! 1))"] by simp
qed

section \<open>Start and stop are ordered\<close>

definition opt :: "bool \<Rightarrow> 'a list \<Rightarrow> 'a list" where
  "opt b xs = (if b then xs else [])"

lemma set_opt [simp]: "x \<in> set (opt b xs) \<longleftrightarrow> b \<and> x \<in> set xs"
  by (simp add: opt_def)

text \<open>Everything a run starts, in order, and everything it stops.\<close>

definition start_events :: "run_plan \<Rightarrow> app_event list" where
  "start_events p = [Bound] @ opt (plan_db p) [Connected SubDatabase] @
     opt (plan_jobs p) ([Migrated, WorkerSpawned] @ opt (plan_scheduler p) [SchedulerSpawned]) @
     opt (plan_cache p) [Connected SubCache] @ opt (plan_storage p) [Connected SubStorage] @ opt (plan_mail p) [Connected SubMail] @
     opt (plan_health p) [Published]"

definition stop_events :: "run_plan \<Rightarrow> app_event list" where
  "stop_events p = opt (plan_mail p) [Closed SubMail] @ opt (plan_storage p) [Closed SubStorage] @ opt (plan_cache p) [Closed SubCache] @
     opt (plan_jobs p) ([Cancelled, WorkerJoined] @ opt (plan_scheduler p) [SchedulerJoined]) @
     opt (plan_db p) [Closed SubDatabase]"

lemma start_subsystem_cases:
  obtains (fail) e where "start_subsystem w b sub s = (Err (Startup sub ''connect'' e), s)"
  | (ok) "start_subsystem w b sub s =
      (Ok (), s\<lparr>run_log := run_log s @ opt b [Connected sub], run_started := run_started s @ opt b [sub]\<rparr>)"
  by (cases b; cases "connect w sub") (auto simp: start_subsystem_def emit_def opt_def split: if_splits)

lemma start_jobs_cases:
  obtains (fail) stage e where "start_jobs w b sch s = (Err (Startup SubJobs stage e), s)"
  | (ok) "start_jobs w b sch s = (Ok b, s\<lparr>run_log := run_log s @ opt b ([Migrated, WorkerSpawned] @ opt sch [SchedulerSpawned]),
      run_started := run_started s @ opt b [SubJobs]\<rparr>)" "b \<longrightarrow> SubDatabase \<in> set (run_started s)"
  by (cases b; cases "SubDatabase \<in> set (run_started s)"; cases "migrate_result w"; cases sch) (auto simp: start_jobs_def emit_def opt_def Let_def split: if_splits)

lemma jobs_shutdown_cases:
  obtains (fail) e evs where "jobs_shutdown w sch s = (Err (Shutdown SubJobs e), s\<lparr>run_log := run_log s @ evs\<rparr>)"
      "evs = [Cancelled] \<or> evs = [Cancelled, WorkerJoined]"
  | (ok) "jobs_shutdown w sch s = (Ok (), s\<lparr>run_log := run_log s @ [Cancelled, WorkerJoined] @ opt sch [SchedulerJoined]\<rparr>)"
  by (cases "worker_join w"; cases "scheduler_join w"; cases sch) (auto simp: jobs_shutdown_def emit_def opt_def Let_def split: if_splits)

definition run_new :: run_state where
  "run_new = \<lparr>run_log = [], run_started = [], run_cell = lifecycle_new\<rparr>"

text \<open>What a run leaves behind, by the way it ended.\<close>

definition run_outcome :: "run_plan \<Rightarrow> (EngineError, unit) result \<Rightarrow> run_state \<Rightarrow> bool" where
  "run_outcome p r s = (case r of
     Ok _ \<Rightarrow> run_log s = start_events p @ [Listening LcReady] @ stop_events p \<and> lifecycle_state (run_cell s) = LcStopped
   | Err (ServeError _) \<Rightarrow> run_log s = start_events p @ [Listening LcReady] \<and> lifecycle_state (run_cell s) = LcReady
   | Err (Shutdown _ _) \<Rightarrow> (\<exists>evs. run_log s = start_events p @ [Listening LcReady] @ evs \<and> strict_prefix evs (stop_events p) \<and>
        Closed SubDatabase \<notin> set evs) \<and> lifecycle_state (run_cell s) = LcDraining
   | Err _ \<Rightarrow> prefix (run_log s) (start_events p) \<and> lifecycle_state (run_cell s) = LcStarting)"

lemma close_started_opt: "close_started sub s = s\<lparr>run_log := run_log s @ opt (sub \<in> set (run_started s)) [Closed sub]\<rparr>"
  by (simp add: close_started_def emit_def opt_def)

lemma serve_and_stop_outcome:
  assumes "run_cell s = 0" and log: "run_log s @ opt (plan_health p) [Published] = start_events p"
    and st: "\<And>sub. sub \<in> set (run_started s) \<longleftrightarrow> (case sub of SubDatabase \<Rightarrow> plan_db p | SubJobs \<Rightarrow> plan_jobs p
      | SubCache \<Rightarrow> plan_cache p | SubStorage \<Rightarrow> plan_storage p | SubMail \<Rightarrow> plan_mail p)"
    and db: "plan_jobs p \<longrightarrow> plan_db p"
    and run: "serve_and_stop w p (plan_jobs p) s = (r, s')"
  shows "run_outcome p r s'"
proof (cases "serve_result w")
  case (Inl e)
  then show ?thesis
    using assms by (auto simp: serve_and_stop_def Let_def emit_def opt_def run_outcome_def split: if_splits)
next
  case (Inr u)
  define d where "d = s\<lparr>run_log := start_events p @ [Listening LcReady] @ opt (plan_mail p) [Closed SubMail] @
    opt (plan_storage p) [Closed SubStorage] @ opt (plan_cache p) [Closed SubCache], run_cell := 2\<rparr>"
  have pub: "(if plan_health p then emit Published s else s) = s\<lparr>run_log := start_events p\<rparr>"
    using log by (auto simp: emit_def opt_def)
  have tail: "sbind (if plan_jobs p then jobs_shutdown w (plan_scheduler p) d else (Ok (), d)) (\<lambda>_ s.
      let s = close_started SubDatabase s in (Ok (), s\<lparr>run_cell := mark_stopped (run_cell s)\<rparr>)) (\<lambda>e. e) = (r, s')"
    using run Inr assms(1) st unfolding serve_and_stop_def pub
    by (cases s) (simp add: Let_def emit_def close_started_opt d_def split: if_splits)
  show ?thesis
  proof (cases "plan_jobs p")
    case False
    then show ?thesis
      using tail by (auto simp: run_outcome_def close_started_def emit_def d_def st stop_events_def opt_def split: if_splits)
  next
    case True
    show ?thesis
    proof (cases rule: jobs_shutdown_cases [of w "plan_scheduler p" d])
      case (fail e evs)
      then have "r = Err (Shutdown SubJobs e)" "s' = d\<lparr>run_log := run_log d @ evs\<rparr>"
        using tail True by auto
      then show ?thesis
        using fail(2) True db unfolding run_outcome_def stop_events_def
        by (auto simp: d_def opt_def strict_prefix_def)
    next
      case ok
      then show ?thesis
        using tail True by (auto simp: run_outcome_def close_started_def emit_def d_def st stop_events_def opt_def split: if_splits)
    qed
  qed
qed

lemma run_failed_early:
  assumes "run_cell s = 0" and "start_events p = run_log s @ rest"
  shows "run_outcome p (Err (Startup sub stage e)) s"
  using assms by (simp add: run_outcome_def)

lemma run_late_outcome:
  assumes b: "run_cell b = 0" "plan_jobs p \<longrightarrow> plan_db p"
    "run_log b = [Bound] @ opt (plan_db p) [Connected SubDatabase] @ opt (plan_jobs p) ([Migrated, WorkerSpawned] @ opt (plan_scheduler p) [SchedulerSpawned]) @
       opt (plan_cache p) [Connected SubCache]"
    "run_started b = opt (plan_db p) [SubDatabase] @ opt (plan_jobs p) [SubJobs] @ opt (plan_cache p) [SubCache]"
    and run: "sbind (start_subsystem w (plan_storage p) SubStorage b) (\<lambda>_ s.
       sbind (start_subsystem w (plan_mail p) SubMail s) (\<lambda>_ s. serve_and_stop w p (plan_jobs p) s) (\<lambda>e. e)) (\<lambda>e. e) = (r, s')"
  shows "run_outcome p r s'"
proof (cases rule: start_subsystem_cases [of w "plan_storage p" SubStorage b])
  case fail
  then show ?thesis
    using run b by (auto simp: start_events_def intro!: run_failed_early)
next
  case ok
  define b4 where "b4 = b\<lparr>run_log := run_log b @ opt (plan_storage p) [Connected SubStorage], run_started := run_started b @ opt (plan_storage p) [SubStorage]\<rparr>"
  note run4 = run [unfolded ok sbind_simps, folded b4_def]
  show ?thesis
  proof (cases rule: start_subsystem_cases [of w "plan_mail p" SubMail b4])
    case fail
    then show ?thesis
      using run4 b by (auto simp: start_events_def b4_def intro!: run_failed_early)
  next
    case ok
    show ?thesis
      by (rule serve_and_stop_outcome [OF _ _ _ b(2) run4 [unfolded ok sbind_simps]])
        (auto simp: b4_def b start_events_def split: subsystem.splits)
  qed
qed

lemma run_started_outcome:
  assumes s0: "run_log b = [Bound]" "run_started b = []" "run_cell b = 0"
    and run: "sbind (start_subsystem w (plan_db p) SubDatabase b) (\<lambda>_ s.
       sbind (start_jobs w (plan_jobs p) (plan_scheduler p) s) (\<lambda>jobs s.
       sbind (start_subsystem w (plan_cache p) SubCache s) (\<lambda>_ s.
       sbind (start_subsystem w (plan_storage p) SubStorage s) (\<lambda>_ s.
       sbind (start_subsystem w (plan_mail p) SubMail s) (\<lambda>_ s. serve_and_stop w p jobs s)
       (\<lambda>e. e)) (\<lambda>e. e)) (\<lambda>e. e)) (\<lambda>e. e)) (\<lambda>e. e) = (r, s')"
  shows "run_outcome p r s'"
proof (cases rule: start_subsystem_cases [of w "plan_db p" SubDatabase b])
  case fail
  then show ?thesis
    using run s0 by (auto simp: start_events_def intro!: run_failed_early)
next
  case ok
  define b1 where "b1 = b\<lparr>run_log := run_log b @ opt (plan_db p) [Connected SubDatabase], run_started := run_started b @ opt (plan_db p) [SubDatabase]\<rparr>"
  note run1 = run [unfolded ok sbind_simps, folded b1_def]
  show ?thesis
  proof (cases rule: start_jobs_cases [of w "plan_jobs p" "plan_scheduler p" b1])
    case fail
    then show ?thesis
      using run1 s0 by (auto simp: start_events_def b1_def intro!: run_failed_early)
  next
    case jobs: ok
    define b2 where "b2 = b1\<lparr>run_log := run_log b1 @ opt (plan_jobs p) ([Migrated, WorkerSpawned] @ opt (plan_scheduler p) [SchedulerSpawned]),
      run_started := run_started b1 @ opt (plan_jobs p) [SubJobs]\<rparr>"
    note run2 = run1 [unfolded jobs(1) sbind_simps, folded b2_def]
    show ?thesis
    proof (cases rule: start_subsystem_cases [of w "plan_cache p" SubCache b2])
      case fail
      then show ?thesis
        using run2 s0 by (auto simp: start_events_def b1_def b2_def intro!: run_failed_early)
    next
      case ok
      define b3 where "b3 = b2\<lparr>run_log := run_log b2 @ opt (plan_cache p) [Connected SubCache], run_started := run_started b2 @ opt (plan_cache p) [SubCache]\<rparr>"
      note run3 = run2 [unfolded ok sbind_simps, folded b3_def]
      have b3: "run_cell b3 = 0" "plan_jobs p \<longrightarrow> plan_db p"
        "run_log b3 = [Bound] @ opt (plan_db p) [Connected SubDatabase] @ opt (plan_jobs p) ([Migrated, WorkerSpawned] @ opt (plan_scheduler p) [SchedulerSpawned]) @
           opt (plan_cache p) [Connected SubCache]"
        "run_started b3 = opt (plan_db p) [SubDatabase] @ opt (plan_jobs p) [SubJobs] @ opt (plan_cache p) [SubCache]"
        using s0 jobs(2) by (simp_all add: b3_def b2_def b1_def)
      show ?thesis
        by (rule run_late_outcome [OF b3 run3])
    qed
  qed
qed


definition sample_plan :: run_plan where
  "sample_plan = \<lparr>plan_bind_addr = ''127.0.0.1'', plan_port = 1183, plan_db = True, plan_jobs = True, plan_scheduler = False,
     plan_cache = True, plan_storage = False, plan_mail = False, plan_health = True\<rparr>"

definition sample_world :: run_world where
  "sample_world = \<lparr>env_var = (\<lambda>_. None), addr_parses = (\<lambda>_. True), bind_result = Ok (), connect = (\<lambda>_. Ok ()), migrate_result = Ok (),
     serve_result = Ok (), worker_join = Ok (), scheduler_join = Ok ()\<rparr>"


text \<open>
  The drain begins only when the listener has stopped: all the time a run listens, and so while it finishes the
  requests in flight after the shutdown signal, the lifecycle says ready.
\<close>

lemma listens_nowhere_else: "Listening st \<notin> set (start_events p)" "Listening st \<notin> set (stop_events p)"
  by (auto simp: start_events_def stop_events_def)

lemma drain_follows_listener:
  assumes "run_outcome p r s" and "Listening st \<in> set (run_log s)"
  shows "st = LcReady"
proof -
  have early: "\<not> prefix (run_log s) (start_events p)"
    using assms(2) listens_nowhere_else(1) set_mono_prefix by blast
  have late: "Listening st \<notin> set evs" if "strict_prefix evs (stop_events p)" for evs
    using that listens_nowhere_else(2) by (meson set_mono_prefix strict_prefixE subsetD prefixI)
  show ?thesis
    using assms early listens_nowhere_else late
    by (fastforce simp: run_outcome_def split: sum.splits EngineError.splits)
qed

text \<open>A prefix of slashes is normalised to the root, and then the liveness route is not below it.\<close>

lemma root_prefix_doubles_slash: "fst (health_routes print ext w (health_new ''/'') c ! 1) = ''//live''"
  by (simp add: health_routes_def health_new_def trim_end_matches_def starts_with_def)

end
