(* ===== verification/App_Pipeline.thy ===== *)
theory App_Pipeline
  imports App_Lifecycle Routing
begin

text \<open>
  How an application is put together: the pre-routing proxy (\<^verbatim>\<open>proxy/\<close>), the order in which the layers wrap
  the router (\<^verbatim>\<open>application/pipeline.rs\<close>) and the builder that collects them
  (\<^verbatim>\<open>application/builder.rs\<close>).  The router of the package \<^verbatim>\<open>axum\<close> and the ready-made layers of
  \<^verbatim>\<open>tower-http\<close> are parameters; a layer is a function from the service it wraps.
\<close>

section \<open>The pre-routing proxy\<close>

record ('u, 'b) proxy_request =
  pr_method :: string
  pr_uri :: 'u
  pr_headers :: headers
  pr_body :: 'b

datatype 'x Action =
    Continue headers
  | Redirect string bool
  | Rewrite string
  | ShortCircuit nat "'x http_response option"

definition continue_default :: "'x Action" where
  "continue_default = Continue []"

text \<open>The bytes \<^verbatim>\<open>HeaderValue::try_from\<close> admits: no control characters but the tab, no DEL.\<close>

definition header_byte :: "char \<Rightarrow> bool" where
  "header_byte c = ((32 \<le> (of_char c :: nat) \<and> (of_char c :: nat) \<noteq> 127) \<or> (of_char c :: nat) = 9)"

definition build_response :: "'x \<Rightarrow> nat \<Rightarrow> headers option \<Rightarrow> string option \<Rightarrow> 'x http_response" where
  "build_response ext status hs body =
     \<lparr>http_status = status,
      http_headers = foldl (\<lambda>acc (n, v). hm_append n v acc) [(''x-content-type-options'', ''nosniff'')] (case hs of Some h \<Rightarrow> h | None \<Rightarrow> []),
      http_body = (case body of Some b \<Rightarrow> b | None \<Rightarrow> []), http_extensions = ext\<rparr>"

definition validate_header_value :: "'x \<Rightarrow> string \<Rightarrow> ('x http_response, string) result" where
  "validate_header_value ext v = (
     if list_ex (\<lambda>c. of_char c = (13 :: nat) \<or> of_char c = (10 :: nat) \<or> ((of_char c :: nat) < 32 \<and> of_char c \<noteq> (9 :: nat))) v
     then Err (build_response ext 400 None (Some ''invalid header value: CRLF or control character detected''))
     else if list_all header_byte v then Ok v
     else Err (build_response ext 400 None (Some ''invalid header value'')))"

text \<open>The parser of URIs and the scheme of a URI belong to the package \<^verbatim>\<open>http\<close>.\<close>

definition validate_rewrite_uri :: "(string \<Rightarrow> 'u option) \<Rightarrow> ('u \<Rightarrow> string option) \<Rightarrow> 'x \<Rightarrow> string \<Rightarrow> ('x http_response, 'u) result" where
  "validate_rewrite_uri parse scheme_str ext uri = (case parse uri of
     None \<Rightarrow> Err (build_response ext 400 None (Some ''invalid rewrite URI''))
   | Some parsed \<Rightarrow> (if scheme_str parsed \<noteq> None
       then Err (build_response ext 400 None (Some ''rewrite URI must not contain a scheme'')) else Ok parsed))"

fun proxy_merge_headers :: "'x \<Rightarrow> headers \<Rightarrow> headers \<Rightarrow> ('x http_response, headers) result" where
  "proxy_merge_headers ext destination [] = Ok destination"
| "proxy_merge_headers ext destination ((name, v) # source) = (
     if list_ex (\<lambda>c. of_char c = (13 :: nat) \<or> of_char c = (10 :: nat)) v
     then Err (build_response ext 400 None (Some ''invalid header value in SetHeaders: CRLF detected''))
     else proxy_merge_headers ext (hm_insert name v destination) source)"

definition proxy_call :: "(string \<Rightarrow> 'u option) \<Rightarrow> ('u \<Rightarrow> string option) \<Rightarrow> 'x \<Rightarrow>
    (string \<Rightarrow> 'u \<Rightarrow> headers \<Rightarrow> 'x Action) option \<Rightarrow> (('u, 'b) proxy_request \<Rightarrow> 'x http_response) \<Rightarrow> ('u, 'b) proxy_request \<Rightarrow> 'x http_response" where
  "proxy_call parse scheme_str ext proxy inner req = (case proxy of
     None \<Rightarrow> inner req
   | Some f \<Rightarrow> (case f (pr_method req) (pr_uri req) (pr_headers req) of
       Continue set_headers \<Rightarrow> (case proxy_merge_headers ext (pr_headers req) set_headers of
           Err rejection \<Rightarrow> rejection | Ok hs \<Rightarrow> inner (req\<lparr>pr_headers := hs\<rparr>))
     | Redirect location permanent \<Rightarrow> (case validate_header_value ext location of
           Ok v \<Rightarrow> build_response ext (if permanent then 301 else 302) (Some (hm_insert ''location'' v [])) None
         | Err rejection \<Rightarrow> rejection)
     | Rewrite uri \<Rightarrow> (case validate_rewrite_uri parse scheme_str ext uri of
           Ok u \<Rightarrow> inner (req\<lparr>pr_uri := u\<rparr>) | Err rejection \<Rightarrow> rejection)
     | ShortCircuit status response \<Rightarrow> (case response of
           Some r \<Rightarrow> r | None \<Rightarrow> build_response ext status None None)))"

section \<open>The pipeline\<close>

text \<open>What the package \<^verbatim>\<open>axum\<close> gives: routers \<open>'r\<close> over services \<open>'s\<close>.\<close>

type_synonym 's layer = "'s \<Rightarrow> 's"

record ('r, 's) axum =
  ax_routes :: "(string \<times> 's) list \<Rightarrow> 'r"
  ax_layer :: "'s layer \<Rightarrow> 'r \<Rightarrow> 'r"
  ax_fallback_service :: "'s \<Rightarrow> 'r \<Rightarrow> 'r"
  ax_merge :: "'r \<Rightarrow> 'r \<Rightarrow> 'r"

text \<open>The layers the pipeline installs itself.\<close>

record 's stock_layers =
  compression_layer :: "'s layer"
  timeout_layer :: "nat \<Rightarrow> 's layer"
  body_limit_layer :: "nat \<Rightarrow> 's layer"
  catch_panic_layer :: "'s layer"
  request_id_layer :: "'s layer"
  trace_context_layer :: "'s layer"
  access_log_layer :: "'s layer"
  maintenance_layer :: "Maintenance \<Rightarrow> 's layer"
  redirect_mapper_layer :: "RouteTable \<Rightarrow> 's layer"

record 's Pipeline =
  pl_health :: "(string \<times> 's) list option"
  pl_uag :: "(string \<times> 's) list option"
  pl_compression :: bool
  pl_security_headers :: "'s layer option"
  pl_cors :: "'s layer option"
  pl_request_id :: bool
  pl_access_log :: bool
  pl_trace_context :: bool
  pl_metrics :: "'s layer option"
  pl_catch_panic :: bool
  pl_error_mapping :: "'s layer option"
  pl_body_limit :: "nat option"
  pl_timeout :: "nat option"
  pl_maintenance :: "Maintenance option"
  pl_rate_limit :: "'s layer option"
  pl_session :: "'s layer option"
  pl_csrf :: "'s layer option"
  pl_inertia :: "'s layer option"
  pl_page_contracts :: "'s layer option"
  pl_redirect_mapper :: "RouteTable option"
  pl_user :: "'s layer list"
  pl_static_files :: "'s option"

definition pipeline_new :: "'s Pipeline" where
  "pipeline_new = \<lparr>pl_health = None, pl_uag = None, pl_compression = False, pl_security_headers = None, pl_cors = None,
     pl_request_id = False, pl_access_log = False, pl_trace_context = False, pl_metrics = None, pl_catch_panic = False,
     pl_error_mapping = None, pl_body_limit = None, pl_timeout = None, pl_maintenance = None, pl_rate_limit = None,
     pl_session = None, pl_csrf = None, pl_inertia = None, pl_page_contracts = None, pl_redirect_mapper = None,
     pl_user = [], pl_static_files = None\<rparr>"

text \<open>One step of \<open>Pipeline::apply\<close>: wrap the router if the slot is filled.\<close>

definition wrap :: "('r, 's) axum \<Rightarrow> 's layer option \<Rightarrow> 'r \<Rightarrow> 'r" where
  "wrap ax slot router = (case slot of Some layer \<Rightarrow> ax_layer ax layer router | None \<Rightarrow> router)"

definition on :: "bool \<Rightarrow> 'a \<Rightarrow> 'a option" where
  "on b x = (if b then Some x else None)"

definition merged :: "('r, 's) axum \<Rightarrow> (string \<times> 's) list option \<Rightarrow> 'r \<Rightarrow> 'r" where
  "merged ax routes router = (case routes of Some rs \<Rightarrow> ax_merge ax (ax_routes ax rs) router | None \<Rightarrow> router)"

definition pipeline_apply :: "('r, 's) axum \<Rightarrow> 's stock_layers \<Rightarrow> 's Pipeline \<Rightarrow> 'r \<Rightarrow> 'r" where
  "pipeline_apply ax st pl router = (
     let router = (case pl_static_files pl of Some service \<Rightarrow> ax_fallback_service ax service router | None \<Rightarrow> router);
         router = foldl (\<lambda>router layer. ax_layer ax layer router) router (rev (pl_user pl));
         router = wrap ax (map_option (redirect_mapper_layer st) (pl_redirect_mapper pl)) router;
         router = wrap ax (pl_page_contracts pl) router;
         router = wrap ax (pl_inertia pl) router;
         router = wrap ax (pl_csrf pl) router;
         router = wrap ax (pl_session pl) router;
         router = wrap ax (pl_rate_limit pl) router;
         router = wrap ax (map_option (maintenance_layer st) (pl_maintenance pl)) router;
         router = wrap ax (map_option (timeout_layer st) (pl_timeout pl)) router;
         router = wrap ax (map_option (body_limit_layer st) (pl_body_limit pl)) router;
         router = wrap ax (pl_error_mapping pl) router;
         router = wrap ax (on (pl_catch_panic pl) (catch_panic_layer st)) router;
         router = wrap ax (pl_metrics pl) router;
         router = wrap ax (on (pl_access_log pl) (access_log_layer st)) router;
         router = wrap ax (on (pl_trace_context pl) (trace_context_layer st)) router;
         router = wrap ax (on (pl_request_id pl) (request_id_layer st)) router;
         router = wrap ax (pl_cors pl) router;
         router = wrap ax (pl_security_headers pl) router;
         router = wrap ax (on (pl_compression pl) (compression_layer st)) router;
         router = merged ax (pl_uag pl) router
     in merged ax (pl_health pl) router)"

text \<open>The documented table of stages, outermost first, with its numbers.\<close>

definition stage :: "nat \<Rightarrow> 's layer option \<Rightarrow> (nat \<times> 's layer) list" where
  "stage n l = (case l of Some f \<Rightarrow> [(n, f)] | None \<Rightarrow> [])"

definition documented_stages :: "'s stock_layers \<Rightarrow> 's Pipeline \<Rightarrow> (nat \<times> 's layer) list" where
  "documented_stages st pl =
     stage 5 (on (pl_compression pl) (compression_layer st)) @ stage 6 (pl_security_headers pl) @ stage 7 (pl_cors pl) @
     stage 8 (on (pl_request_id pl) (request_id_layer st)) @ stage 8 (on (pl_trace_context pl) (trace_context_layer st)) @
     stage 9 (on (pl_access_log pl) (access_log_layer st)) @ stage 9 (pl_metrics pl) @
     stage 10 (on (pl_catch_panic pl) (catch_panic_layer st)) @ stage 11 (pl_error_mapping pl) @
     stage 12 (map_option (body_limit_layer st) (pl_body_limit pl)) @ stage 13 (map_option (timeout_layer st) (pl_timeout pl)) @
     stage 14 (map_option (maintenance_layer st) (pl_maintenance pl)) @ stage 15 (pl_rate_limit pl) @ stage 16 (pl_session pl) @
     stage 17 (pl_csrf pl) @ stage 18 (pl_inertia pl) @ stage 19 (pl_page_contracts pl) @
     stage 20 (map_option (redirect_mapper_layer st) (pl_redirect_mapper pl)) @ map (Pair 21) (pl_user pl)"

text \<open>
  The behaviour of the router that the pipeline relies on.  \<open>route r pat m\<close> is the service registered for the
  path pattern \<open>pat\<close> and the method \<open>m\<close>, \<open>fallback r\<close> the one for requests that match no route.  A layer wraps every
  registered service and the fallback.  Routers whose routes overlap in a pattern and a method cannot be
  merged (\<^verbatim>\<open>axum\<close> panics), so nothing is said of that; otherwise the merged router has the routes of both,
  also where they register different methods of one pattern, and, as the left one has the default fallback,
  the fallback of the right one.
\<close>

definition disjoint_routes :: "('r \<Rightarrow> string \<Rightarrow> string \<Rightarrow> 's option) \<Rightarrow> 'r \<Rightarrow> 'r \<Rightarrow> bool" where
  "disjoint_routes route a b \<longleftrightarrow> (\<forall>pat m. route a pat m = None \<or> route b pat m = None)"

definition router_laws :: "('r, 's) axum \<Rightarrow> ('r \<Rightarrow> string \<Rightarrow> string \<Rightarrow> 's option) \<Rightarrow> ('r \<Rightarrow> 's) \<Rightarrow> bool" where
  "router_laws ax route fallback \<longleftrightarrow>
     (\<forall>l r pat m. route (ax_layer ax l r) pat m = map_option l (route r pat m)) \<and>
     (\<forall>l r. fallback (ax_layer ax l r) = l (fallback r)) \<and>
     (\<forall>s r pat m. route (ax_fallback_service ax s r) pat m = route r pat m) \<and>
     (\<forall>s r. fallback (ax_fallback_service ax s r) = s) \<and>
     (\<forall>rs pat m. route (ax_routes ax rs) pat m = (if m = ''GET'' then map_of rs pat else None)) \<and>
     (\<forall>rs r. disjoint_routes route (ax_routes ax rs) r \<longrightarrow>
        (\<forall>pat m. route (ax_merge ax (ax_routes ax rs) r) pat m =
           (case route (ax_routes ax rs) pat m of Some s \<Rightarrow> Some s | None \<Rightarrow> route r pat m)) \<and>
        fallback (ax_merge ax (ax_routes ax rs) r) = fallback r)"

section \<open>The builder\<close>

definition DEFAULT_BIND_ADDR :: string where
  "DEFAULT_BIND_ADDR = ''127.0.0.1''"

definition DEFAULT_PORT :: nat where
  "DEFAULT_PORT = 1183"

text \<open>The configurations of the subsystems are carried and not read: they have one type \<open>'c\<close> here.\<close>

record ('r, 's, 'c) ApplicationBuilder =
  ab_router :: 'r
  ab_bind_addr :: string
  ab_port :: nat
  ab_config :: AppConfig
  ab_health :: bool
  ab_health_prefix :: string
  ab_route_table :: RouteTable
  ab_redirect_mapper :: bool
  ab_database :: "'c option"
  ab_jobs :: "'c option"
  ab_worker_config :: "'c option"
  ab_scheduler :: "'c option"
  ab_cache :: "'c option"
  ab_storage :: "'c option"
  ab_mail :: "'c option"
  ab_proxy :: "'c option"
  ab_trusted :: "'c option"
  ab_dev_proxy :: "string option"
  ab_uag_graph :: "'c option"
  ab_pipeline :: "'s Pipeline"

definition application_new :: "'r \<Rightarrow> string option \<Rightarrow> ('r, 's, 'c) ApplicationBuilder" where
  "application_new empty_router vite_ipc =
     \<lparr>ab_router = empty_router, ab_bind_addr = DEFAULT_BIND_ADDR, ab_port = DEFAULT_PORT, ab_config = app_config_new,
      ab_health = True, ab_health_prefix = DEFAULT_PREFIX, ab_route_table = table_from_iter [], ab_redirect_mapper = True,
      ab_database = None, ab_jobs = None, ab_worker_config = None, ab_scheduler = None, ab_cache = None, ab_storage = None,
      ab_mail = None, ab_proxy = None, ab_trusted = None, ab_dev_proxy = vite_ipc, ab_uag_graph = None, ab_pipeline = pipeline_new\<rparr>"

text \<open>The methods of the builder: those that fill a slot of the pipeline and the others.\<close>

datatype 's pipeline_call =
    PcLayer "'s layer"
  | PcCompression
  | PcSecurityHeaders "'s layer"
  | PcCors "'s layer"
  | PcRequestId
  | PcAccessLog
  | PcMetrics "'s layer"
  | PcTraceContext
  | PcCatchPanic
  | PcStaticFiles 's
  | PcBodyLimit nat
  | PcTimeout nat
  | PcInertia "'s layer"
  | PcSession "'s layer"
  | PcCsrf "'s layer"
  | PcMaintenance Maintenance
  | PcRateLimit "'s layer"
  | PcErrorMapping "'s layer"
  | PcPageContracts "'s layer"

datatype ('r, 's, 'c) builder_call =
    BcRoutes 'r RouteTable
  | BcMergeRoutes 'r RouteTable
  | BcBind string
  | BcPort nat
  | BcConfig AppConfig
  | BcDatabase 'c
  | BcJobs 'c
  | BcWorkerConfig 'c
  | BcScheduler 'c
  | BcCache 'c
  | BcStorage 'c
  | BcMail 'c
  | BcProxy 'c
  | BcTrustedProxies 'c
  | BcDevProxy "string option"
  | BcHealth bool
  | BcHealthPrefix string
  | BcRedirectMapper bool
  | BcUagEndpoint 'c
  | BcPipeline "'s pipeline_call"

fun pipeline_set :: "'s Pipeline \<Rightarrow> 's pipeline_call \<Rightarrow> 's Pipeline" where
  "pipeline_set pl (PcLayer l) = pl\<lparr>pl_user := pl_user pl @ [l]\<rparr>"
| "pipeline_set pl PcCompression = pl\<lparr>pl_compression := True\<rparr>"
| "pipeline_set pl (PcSecurityHeaders l) = pl\<lparr>pl_security_headers := Some l\<rparr>"
| "pipeline_set pl (PcCors l) = pl\<lparr>pl_cors := Some l\<rparr>"
| "pipeline_set pl PcRequestId = pl\<lparr>pl_request_id := True\<rparr>"
| "pipeline_set pl PcAccessLog = pl\<lparr>pl_access_log := True\<rparr>"
| "pipeline_set pl (PcMetrics l) = pl\<lparr>pl_metrics := Some l\<rparr>"
| "pipeline_set pl PcTraceContext = pl\<lparr>pl_trace_context := True\<rparr>"
| "pipeline_set pl PcCatchPanic = pl\<lparr>pl_catch_panic := True\<rparr>"
| "pipeline_set pl (PcStaticFiles s) = pl\<lparr>pl_static_files := Some s\<rparr>"
| "pipeline_set pl (PcBodyLimit n) = pl\<lparr>pl_body_limit := Some n\<rparr>"
| "pipeline_set pl (PcTimeout n) = pl\<lparr>pl_timeout := Some n\<rparr>"
| "pipeline_set pl (PcInertia l) = pl\<lparr>pl_inertia := Some l\<rparr>"
| "pipeline_set pl (PcSession l) = pl\<lparr>pl_session := Some l\<rparr>"
| "pipeline_set pl (PcCsrf l) = pl\<lparr>pl_csrf := Some l\<rparr>"
| "pipeline_set pl (PcMaintenance m) = pl\<lparr>pl_maintenance := Some m\<rparr>"
| "pipeline_set pl (PcRateLimit l) = pl\<lparr>pl_rate_limit := Some l\<rparr>"
| "pipeline_set pl (PcErrorMapping l) = pl\<lparr>pl_error_mapping := Some l\<rparr>"
| "pipeline_set pl (PcPageContracts l) = pl\<lparr>pl_page_contracts := Some l\<rparr>"

fun builder_apply :: "('r, 's) axum \<Rightarrow> ('r, 's, 'c) ApplicationBuilder \<Rightarrow> ('r, 's, 'c) builder_call \<Rightarrow> ('r, 's, 'c) ApplicationBuilder" where
  "builder_apply ax b (BcRoutes r t) = b\<lparr>ab_route_table := t, ab_router := r\<rparr>"
| "builder_apply ax b (BcMergeRoutes r t) = b\<lparr>ab_route_table := table_from_iter (ab_route_table b @ t), ab_router := ax_merge ax (ab_router b) r\<rparr>"
| "builder_apply ax b (BcBind addr) = b\<lparr>ab_bind_addr := addr\<rparr>"
| "builder_apply ax b (BcPort port) = b\<lparr>ab_port := port\<rparr>"
| "builder_apply ax b (BcConfig c) = b\<lparr>ab_port := app_port c, ab_config := c\<rparr>"
| "builder_apply ax b (BcDatabase c) = b\<lparr>ab_database := Some c\<rparr>"
| "builder_apply ax b (BcJobs c) = b\<lparr>ab_jobs := Some c\<rparr>"
| "builder_apply ax b (BcWorkerConfig c) = b\<lparr>ab_worker_config := Some c\<rparr>"
| "builder_apply ax b (BcScheduler c) = b\<lparr>ab_scheduler := Some c\<rparr>"
| "builder_apply ax b (BcCache c) = b\<lparr>ab_cache := Some c\<rparr>"
| "builder_apply ax b (BcStorage c) = b\<lparr>ab_storage := Some c\<rparr>"
| "builder_apply ax b (BcMail c) = b\<lparr>ab_mail := Some c\<rparr>"
| "builder_apply ax b (BcProxy c) = b\<lparr>ab_proxy := Some c\<rparr>"
| "builder_apply ax b (BcTrustedProxies c) = b\<lparr>ab_trusted := Some c\<rparr>"
| "builder_apply ax b (BcDevProxy e) = b\<lparr>ab_dev_proxy := e\<rparr>"
| "builder_apply ax b (BcHealth enabled) = b\<lparr>ab_health := enabled\<rparr>"
| "builder_apply ax b (BcHealthPrefix p) = b\<lparr>ab_health_prefix := p, ab_health := True\<rparr>"
| "builder_apply ax b (BcRedirectMapper enabled) = b\<lparr>ab_redirect_mapper := enabled\<rparr>"
| "builder_apply ax b (BcUagEndpoint g) = b\<lparr>ab_uag_graph := Some g\<rparr>"
| "builder_apply ax b (BcPipeline c) = b\<lparr>ab_pipeline := pipeline_set (ab_pipeline b) c\<rparr>"

text \<open>\<^verbatim>\<open>session\<close> is the one method that can fail: the layer it installs is what \<^verbatim>\<open>SessionConfig::into_layer\<close> gives.\<close>

definition builder_session :: "('r, 's) axum \<Rightarrow> ('r, 's, 'c) ApplicationBuilder \<Rightarrow> ('e, 's layer) result \<Rightarrow> ('e, ('r, 's, 'c) ApplicationBuilder) result" where
  "builder_session ax b into_layer = rbind into_layer (\<lambda>layer. Ok (builder_apply ax b (BcPipeline (PcSession layer))))"

text \<open>
  \<open>build\<close>: the health routes come from the normalised prefix and open the maintenance window for themselves,
  the graph endpoint is served by debug builds only, and the redirect mapper gets the final route table.
\<close>

record ('r, 'c) Application =
  app_router :: 'r
  app_bind_addr :: string
  app_port_configured :: nat
  app_config :: AppConfig
  app_health :: "string option"
  app_configs :: "'c option list"
  app_proxy :: "'c option"
  app_trusted :: "'c option"
  app_dev_proxy :: "string option"

definition build_pipeline :: "(string \<Rightarrow> (string \<times> 's) list) \<Rightarrow> ('c \<Rightarrow> 's layer option \<Rightarrow> (string \<times> 's) list) \<Rightarrow> bool \<Rightarrow>
    ('r, 's, 'c) ApplicationBuilder \<Rightarrow> 's Pipeline" where
  "build_pipeline health_router uag_router debug b = (
     let pl = ab_pipeline b;
         pl = (if ab_health b then
                 (let p = health_prefix (health_new (ab_health_prefix b) :: (unit, unit, unit, unit, unit) Health) in
                  pl\<lparr>pl_maintenance := map_option (\<lambda>m. allow m p) (pl_maintenance pl), pl_health := Some (health_router p)\<rparr>)
               else pl);
         pl = (case ab_uag_graph b of
                 Some g \<Rightarrow> (if debug then pl\<lparr>pl_uag := Some (uag_router g (pl_page_contracts pl))\<rparr> else pl)
               | None \<Rightarrow> pl)
     in (if ab_redirect_mapper b then pl\<lparr>pl_redirect_mapper := Some (ab_route_table b)\<rparr> else pl))"

definition build :: "('r, 's) axum \<Rightarrow> 's stock_layers \<Rightarrow> (string \<Rightarrow> (string \<times> 's) list) \<Rightarrow> ('c \<Rightarrow> 's layer option \<Rightarrow> (string \<times> 's) list) \<Rightarrow> bool \<Rightarrow>
    ('r, 's, 'c) ApplicationBuilder \<Rightarrow> ('r, 'c) Application" where
  "build ax st health_router uag_router debug b =
     \<lparr>app_router = pipeline_apply ax st (build_pipeline health_router uag_router debug b) (ab_router b),
      app_bind_addr = ab_bind_addr b, app_port_configured = ab_port b, app_config = ab_config b,
      app_health = (if ab_health b then Some (health_prefix (health_new (ab_health_prefix b) :: (unit, unit, unit, unit, unit) Health)) else None),
      app_configs = [ab_database b, ab_jobs b, ab_worker_config b, ab_scheduler b, ab_cache b, ab_storage b, ab_mail b],
      app_proxy = ab_proxy b, app_trusted = ab_trusted b, app_dev_proxy = ab_dev_proxy b\<rparr>"

text \<open>The service a listener serves: the proxy around the router, the development proxy outermost.\<close>

definition compose_service :: "'s layer \<Rightarrow> 's layer \<Rightarrow> 's \<Rightarrow> 's" where
  "compose_service dev_proxy_layer proxy_layer router = dev_proxy_layer (proxy_layer router)"

text \<open>Which part of the builder a call writes.\<close>

fun pipeline_slot :: "'s pipeline_call \<Rightarrow> nat" where
  "pipeline_slot (PcLayer _) = 13"
| "pipeline_slot PcCompression = 14"
| "pipeline_slot (PcSecurityHeaders _) = 15"
| "pipeline_slot (PcCors _) = 16"
| "pipeline_slot PcRequestId = 17"
| "pipeline_slot PcAccessLog = 18"
| "pipeline_slot (PcMetrics _) = 19"
| "pipeline_slot PcTraceContext = 20"
| "pipeline_slot PcCatchPanic = 21"
| "pipeline_slot (PcStaticFiles _) = 22"
| "pipeline_slot (PcBodyLimit _) = 23"
| "pipeline_slot (PcTimeout _) = 24"
| "pipeline_slot (PcInertia _) = 25"
| "pipeline_slot (PcSession _) = 26"
| "pipeline_slot (PcCsrf _) = 27"
| "pipeline_slot (PcMaintenance _) = 30"
| "pipeline_slot (PcRateLimit _) = 31"
| "pipeline_slot (PcErrorMapping _) = 32"
| "pipeline_slot (PcPageContracts _) = 33"

fun slot_of :: "('r, 's, 'c) builder_call \<Rightarrow> nat" where
  "slot_of (BcRoutes _ _) = 0"
| "slot_of (BcMergeRoutes _ _) = 0"
| "slot_of (BcBind _) = 1"
| "slot_of (BcPort _) = 2"
| "slot_of (BcConfig _) = 2"
| "slot_of (BcDatabase _) = 3"
| "slot_of (BcJobs _) = 4"
| "slot_of (BcWorkerConfig _) = 5"
| "slot_of (BcScheduler _) = 6"
| "slot_of (BcCache _) = 7"
| "slot_of (BcStorage _) = 8"
| "slot_of (BcMail _) = 9"
| "slot_of (BcProxy _) = 10"
| "slot_of (BcTrustedProxies _) = 11"
| "slot_of (BcDevProxy _) = 12"
| "slot_of (BcHealth _) = 28"
| "slot_of (BcHealthPrefix _) = 28"
| "slot_of (BcRedirectMapper _) = 29"
| "slot_of (BcUagEndpoint _) = 34"
| "slot_of (BcPipeline c) = pipeline_slot c"

section \<open>The order of the builder's calls is free\<close>

lemma pipeline_sets_commute:
  "pipeline_slot c \<noteq> pipeline_slot d \<Longrightarrow> pipeline_set (pipeline_set pl c) d = pipeline_set (pipeline_set pl d) c"
  by (cases c; cases d) simp_all

lemma calls_commute:
  "slot_of c \<noteq> slot_of d \<Longrightarrow> builder_apply ax (builder_apply ax b c) d = builder_apply ax (builder_apply ax b d) c"
  by (cases c; cases d) (simp_all add: pipeline_sets_commute)

text \<open>Steps that write different slots commute, so a sequence of them is determined by its part on each slot.\<close>

locale slotted =
  fixes step :: "'b \<Rightarrow> 'c \<Rightarrow> 'b" and slot :: "'c \<Rightarrow> nat"
  assumes commute: "slot c \<noteq> slot d \<Longrightarrow> step (step b c) d = step (step b d) c"
begin

lemma move_front: "\<forall>d \<in> set ds. slot d \<noteq> slot c \<Longrightarrow> foldl step b (ds @ c # es) = foldl step (step b c) (ds @ es)"
proof (induction ds arbitrary: b)
  case (Cons d ds)
  then show ?case
    using commute [of c d b] by simp
qed simp

lemma folds_agree:
  "(\<And>n. filter (\<lambda>c. slot c = n) cs = filter (\<lambda>c. slot c = n) ds) \<Longrightarrow> foldl step b cs = foldl step b ds"
proof (induction cs arbitrary: b ds)
  case Nil
  have "ds = []"
  proof (rule ccontr)
    assume "ds \<noteq> []"
    then have "hd ds \<in> set (filter (\<lambda>c. slot c = slot (hd ds)) ds)"
      by simp
    then show False
      using Nil [of "slot (hd ds)"] by (metis filter.simps(1) list.set(1) empty_iff)
  qed
  then show ?case by simp
next
  case (Cons c cs)
  have "filter (\<lambda>d. slot d = slot c) ds = c # filter (\<lambda>d. slot d = slot c) cs"
    using Cons.prems [of "slot c"] by simp
  then obtain us vs where ds: "ds = us @ c # vs" and us: "\<forall>u \<in> set us. slot u \<noteq> slot c"
    by (auto simp: filter_eq_Cons_iff)
  have "filter (\<lambda>d. slot d = n) cs = filter (\<lambda>d. slot d = n) (us @ vs)" for n
    using Cons.prems [of n] us unfolding ds by (cases "slot c = n") (auto simp: filter_empty_conv)
  then have "foldl step (step b c) cs = foldl step (step b c) (us @ vs)"
    by (rule Cons.IH)
  then show ?case
    using move_front [OF us] by (simp add: ds)
qed

end

interpretation builder: slotted "builder_apply ax" slot_of for ax :: "('r, 's) axum"
  by unfold_locales (rule calls_commute)

text \<open>
  C15.  The order of the builder's calls is free: two chains of calls that agree on every slot build the same
  application.  Only calls that write the same slot are ordered among themselves: the routes, the port and
  the configuration that sets it, the health switch and its prefix, and the application's own layers.
\<close>
theorem builder_order_is_free:
  assumes "\<forall>n. filter (\<lambda>c. slot_of c = n) cs = filter (\<lambda>c. slot_of c = n) ds"
  shows "build ax st health_router uag_router debug (foldl (builder_apply ax) b cs) =
    build ax st health_router uag_router debug (foldl (builder_apply ax) b ds)"
  using builder.folds_agree [of cs ds ax b] assms by simp

text \<open>A router over an association of patterns and methods, which obeys the laws.\<close>

definition list_router :: "'s \<Rightarrow> (((string \<times> string) \<times> 's) list \<times> 's, 's) axum" where
  "list_router d = \<lparr>ax_routes = (\<lambda>rs. (map (\<lambda>(p, s). ((p, ''GET''), s)) rs, d)),
     ax_layer = (\<lambda>l (rs, f). (map (\<lambda>(p, s). (p, l s)) rs, l f)),
     ax_fallback_service = (\<lambda>s (rs, f). (rs, s)), ax_merge = (\<lambda>(rs, f) (rs', f'). (rs @ rs', f'))\<rparr>"

definition sample_stock :: "nat stock_layers" where
  "sample_stock = \<lparr>compression_layer = Suc, timeout_layer = (+), body_limit_layer = (+), catch_panic_layer = Suc, request_id_layer = Suc,
     trace_context_layer = Suc, access_log_layer = Suc, maintenance_layer = (\<lambda>_. Suc), redirect_mapper_layer = (\<lambda>_. Suc)\<rparr>"

theorem builder_order_is_free_witness:
  "build (list_router (0 :: nat)) sample_stock (\<lambda>p. [(p, 1)]) (\<lambda>_ _. []) True
     (foldl (builder_apply (list_router 0)) (application_new ([], 0) None :: (_, nat, unit) ApplicationBuilder)
        [BcPipeline (PcInertia Suc), BcPipeline (PcCsrf (\<lambda>n. 2 * n)), BcPort 80]) =
   build (list_router 0) sample_stock (\<lambda>p. [(p, 1)]) (\<lambda>_ _. []) True
     (foldl (builder_apply (list_router 0)) (application_new ([], 0) None)
        [BcPort 80, BcPipeline (PcCsrf (\<lambda>n. 2 * n)), BcPipeline (PcInertia Suc)])"
  by (rule builder_order_is_free) simp

section \<open>The order of the stages\<close>

definition applied :: "'s layer option \<Rightarrow> 's \<Rightarrow> 's" where
  "applied slot s = (case slot of Some l \<Rightarrow> l s | None \<Rightarrow> s)"

lemma foldr_stage: "foldr snd (stage n slot) s = applied slot s"
  by (simp add: stage_def applied_def split: option.splits)

lemma foldr_user: "foldr snd (map (Pair n) ls) s = foldr (\<lambda>l s. l s) ls s"
  by (induction ls) simp_all

definition wraps :: "('r, 's) axum \<Rightarrow> ('r \<Rightarrow> string \<Rightarrow> string \<Rightarrow> 's option) \<Rightarrow> ('r \<Rightarrow> 's) \<Rightarrow> 'r \<Rightarrow> 's layer \<Rightarrow> 'r \<Rightarrow> bool" where
  "wraps ax route fallback r' f r \<longleftrightarrow> (\<forall>pat m. route r' pat m = map_option f (route r pat m)) \<and> fallback r' = f (fallback r)"

lemma wraps_wrap:
  "router_laws ax route fallback \<Longrightarrow> wraps ax route fallback r f r0 \<Longrightarrow>
   wraps ax route fallback (wrap ax slot r) (\<lambda>s. applied slot (f s)) r0"
  by (auto simp: wraps_def wrap_def applied_def router_laws_def option.map_comp comp_def split: option.splits)

lemma wraps_user:
  "router_laws ax route fallback \<Longrightarrow>
   wraps ax route fallback (foldl (\<lambda>router layer. ax_layer ax layer router) r (rev ls)) (\<lambda>s. foldr (\<lambda>l s. l s) ls s) r"
  by (induction ls) (auto simp: wraps_def router_laws_def option.map_comp comp_def option.map_id)

definition routes_of :: "(string \<times> 's) list option \<Rightarrow> (string \<times> 's) list" where
  "routes_of routes = (case routes of Some rs \<Rightarrow> rs | None \<Rightarrow> [])"

lemma route_merged:
  assumes "router_laws ax route fallback" and "\<forall>pat \<in> set (map fst (routes_of routes)). route r pat ''GET'' = None"
  shows "route (merged ax routes r) pat m =
      (case if m = ''GET'' then map_of (routes_of routes) pat else None of Some s \<Rightarrow> Some s | None \<Rightarrow> route r pat m)"
    and "fallback (merged ax routes r) = fallback r"
proof -
  have "disjoint_routes route (ax_routes ax rs) r" if "routes = Some rs" for rs
    using assms that by (auto simp: disjoint_routes_def router_laws_def routes_of_def map_of_eq_None_iff)
  then show "route (merged ax routes r) pat m =
      (case if m = ''GET'' then map_of (routes_of routes) pat else None of Some s \<Rightarrow> Some s | None \<Rightarrow> route r pat m)"
    and "fallback (merged ax routes r) = fallback r"
    using assms(1) by (auto simp: merged_def router_laws_def routes_of_def split: option.splits)
qed

definition above :: "nat \<Rightarrow> (nat \<times> 's layer) list \<Rightarrow> bool" where
  "above n xs \<longleftrightarrow> sorted (map fst xs) \<and> (\<forall>m \<in> set (map fst xs). n \<le> m)"

lemma above_stage: "above k xs \<Longrightarrow> n \<le> k \<Longrightarrow> above n (stage n l @ xs)"
  by (auto simp: above_def stage_def sorted_append split: option.splits)

lemma above_user: "above n (map (Pair n) ls)"
  by (auto simp: above_def comp_def sorted_wrt_iff_nth_less)

lemma stages_sorted: "above 5 (documented_stages st pl)"
  unfolding documented_stages_def
  by (rule above_stage above_user order_refl | simp)+

definition health_routes :: "'s Pipeline \<Rightarrow> (string \<times> 's) list" where
  "health_routes pl = routes_of (pl_health pl)"

definition uag_routes :: "'s Pipeline \<Rightarrow> (string \<times> 's) list" where
  "uag_routes pl = routes_of (pl_uag pl)"

definition staged :: "('r, 's) axum \<Rightarrow> 's stock_layers \<Rightarrow> 's Pipeline \<Rightarrow> 'r \<Rightarrow> 'r" where
  "staged ax st pl router = pipeline_apply ax st (pl\<lparr>pl_health := None, pl_uag := None\<rparr>) router"

lemma apply_staged: "pipeline_apply ax st pl r = merged ax (pl_health pl) (merged ax (pl_uag pl) (staged ax st pl r))"
  by (simp add: staged_def pipeline_apply_def Let_def merged_def)

definition rooted :: "('r, 's) axum \<Rightarrow> 's Pipeline \<Rightarrow> 'r \<Rightarrow> 'r" where
  "rooted ax pl router = (case pl_static_files pl of Some service \<Rightarrow> ax_fallback_service ax service router | None \<Rightarrow> router)"

lemma staged_wraps:
  assumes "router_laws ax route fallback"
  shows "wraps ax route fallback (staged ax st pl r) (\<lambda>s. foldr snd (documented_stages st pl) s) (rooted ax pl r)"
proof -
  have "staged ax st pl r =
      wrap ax (on (pl_compression pl) (compression_layer st)) (wrap ax (pl_security_headers pl) (wrap ax (pl_cors pl)
        (wrap ax (on (pl_request_id pl) (request_id_layer st)) (wrap ax (on (pl_trace_context pl) (trace_context_layer st))
        (wrap ax (on (pl_access_log pl) (access_log_layer st)) (wrap ax (pl_metrics pl)
        (wrap ax (on (pl_catch_panic pl) (catch_panic_layer st)) (wrap ax (pl_error_mapping pl)
        (wrap ax (map_option (body_limit_layer st) (pl_body_limit pl)) (wrap ax (map_option (timeout_layer st) (pl_timeout pl))
        (wrap ax (map_option (maintenance_layer st) (pl_maintenance pl)) (wrap ax (pl_rate_limit pl) (wrap ax (pl_session pl)
        (wrap ax (pl_csrf pl) (wrap ax (pl_inertia pl) (wrap ax (pl_page_contracts pl)
        (wrap ax (map_option (redirect_mapper_layer st) (pl_redirect_mapper pl))
        (foldl (\<lambda>router layer. ax_layer ax layer router) (rooted ax pl r) (rev (pl_user pl))))))))))))))))))))"
    by (simp add: staged_def pipeline_apply_def Let_def merged_def rooted_def)
  then show ?thesis
    unfolding documented_stages_def foldr_append foldr_stage foldr_user
    by (simp only:) (intro wraps_wrap wraps_user assms)
qed

text \<open>
  C14.  The layers of an application wrap its router in the documented order: every route of the application,
  and its fallback (the document root when there is one), is reached through exactly the installed stages by
  ascending number; the health routes and the graph endpoint answer \<^verbatim>\<open>GET\<close> of their paths by themselves,
  outside every stage, and another method the application registers for such a path still passes the stages.
  The application must not register \<^verbatim>\<open>GET\<close> for one of those paths itself (\<^verbatim>\<open>axum\<close> then refuses to merge the routers).
\<close>
theorem stages_in_documented_order:
  assumes "router_laws ax route fallback"
    and "\<forall>pat \<in> set (map fst (health_routes pl @ uag_routes pl)). route r pat ''GET'' = None"
    and "set (map fst (health_routes pl)) \<inter> set (map fst (uag_routes pl)) = {}"
  shows "route (pipeline_apply ax st pl r) pat m =
      (case if m = ''GET'' then map_of (health_routes pl @ uag_routes pl) pat else None of
         Some s \<Rightarrow> Some s
       | None \<Rightarrow> map_option (foldr snd (documented_stages st pl)) (route r pat m)) \<and>
    fallback (pipeline_apply ax st pl r) =
      foldr snd (documented_stages st pl) (case pl_static_files pl of Some s \<Rightarrow> s | None \<Rightarrow> fallback r) \<and>
    sorted (map fst (documented_stages st pl))"
proof -
  let ?r = "staged ax st pl r"
  have wrapped: "route ?r p n = map_option (foldr snd (documented_stages st pl)) (route r p n)"
    "fallback ?r = foldr snd (documented_stages st pl) (case pl_static_files pl of Some s \<Rightarrow> s | None \<Rightarrow> fallback r)" for p n
    using staged_wraps [OF assms(1), of st pl r] assms(1)
    by (auto simp: wraps_def router_laws_def rooted_def split: option.splits)
  have uag: "route (merged ax (pl_uag pl) ?r) p n =
      (case if n = ''GET'' then map_of (uag_routes pl) p else None of Some s \<Rightarrow> Some s | None \<Rightarrow> route ?r p n)"
    "fallback (merged ax (pl_uag pl) ?r) = fallback ?r" for p n
    using route_merged [OF assms(1), of "pl_uag pl" ?r] assms(2) by (auto simp: uag_routes_def wrapped)
  have "\<forall>pat \<in> set (map fst (routes_of (pl_health pl))). route (merged ax (pl_uag pl) ?r) pat ''GET'' = None"
    using assms(2,3) by (auto simp: uag wrapped health_routes_def map_of_eq_None_iff disjoint_iff split: option.splits)
  note health = route_merged [where routes = "pl_health pl" and r = "merged ax (pl_uag pl) ?r", OF assms(1) this]
  have "route (pipeline_apply ax st pl r) pat m =
      (case if m = ''GET'' then map_of (health_routes pl @ uag_routes pl) pat else None of
         Some s \<Rightarrow> Some s
       | None \<Rightarrow> map_option (foldr snd (documented_stages st pl)) (route r pat m))"
    unfolding apply_staged health(1) uag(1) health_routes_def wrapped(1) map_of_append map_add_def
    by (cases "m = ''GET''"; cases "map_of (routes_of (pl_health pl)) pat"; cases "map_of (uag_routes pl) pat") simp_all
  then show ?thesis
    using stages_sorted [of st pl] by (simp add: apply_staged health(2) uag(2) wrapped(2) above_def)
qed

lemma list_router_laws: "router_laws (list_router d) (\<lambda>(rs, f) pat m. map_of rs (pat, m)) snd"
proof -
  have "map_of (map (\<lambda>(p, s). ((p, ''GET''), s)) rs) (pat, m) = (if m = ''GET'' then map_of rs pat else None)"
    for rs :: "(string \<times> 'a) list" and pat m
    by (induction rs) auto
  then show ?thesis
    by (auto simp: router_laws_def list_router_def map_add_def map_of_map_value split: option.splits)
qed

theorem stages_in_documented_order_witness:
  "(\<lambda>(rs, f) pat m. map_of rs (pat, m)) (pipeline_apply (list_router 0) sample_stock
     (pipeline_new\<lparr>pl_health := Some [(''/up'', 7)], pl_csrf := Some (\<lambda>n. 2 * n), pl_compression := True, pl_user := [\<lambda>n. n + 3]\<rparr>)
     ([((''/up'', ''POST''), 1)], 0)) ''/up'' ''POST'' = Some 9"
  by (subst conjunct1 [OF stages_in_documented_order [OF list_router_laws]])
    (simp_all add: health_routes_def uag_routes_def routes_of_def documented_stages_def stage_def on_def sample_stock_def pipeline_new_def)

text \<open>
  A health prefix that normalises to the root makes the built maintenance layer let every path through.
\<close>

lemma root_health_prefix_disables_maintenance:
  assumes "ab_health b" and "set (ab_health_prefix b) \<subseteq> {CHR ''/''}" and "pl_maintenance (build_pipeline hr ur debug b) = Some m"
  shows "\<not> blocks m path"
proof -
  have "trim_end_matches (\<lambda>c. c = CHR ''/'') (ab_health_prefix b) = []"
    using assms(2) by (auto simp: trim_end_matches_def dropWhile_eq_Nil_conv)
  then have "health_prefix (health_new (ab_health_prefix b) :: (unit, unit, unit, unit, unit) Health) = ''/''"
    by (simp add: health_new_def starts_with_def)
  then obtain m0 where "m = allow m0 ''/''"
    using assms(1,3) by (auto simp: build_pipeline_def Let_def split: option.splits if_splits)
  then show ?thesis
    by (simp add: blocks_def is_exempt_def allow_def Let_def covers_def starts_with_def)
qed

section \<open>The proxy\<close>

text \<open>What the service behind the proxy can be asked, and what a client can be told in its place.\<close>

definition no_crlf :: "string \<Rightarrow> bool" where
  "no_crlf v \<longleftrightarrow> list_all (\<lambda>c. of_char c \<noteq> (13 :: nat) \<and> of_char c \<noteq> (10 :: nat)) v"

lemma merge_headers_keeps:
  "proxy_merge_headers ext d src = Ok hs \<Longrightarrow> \<forall>(n, v) \<in> set src. no_crlf v"
  by (induction ext d src rule: proxy_merge_headers.induct)
    (auto simp: no_crlf_def list_all_iff list_ex_iff split: if_splits)

lemma merge_headers_rejects:
  "proxy_merge_headers ext d src = Err rej \<Longrightarrow> \<not> (\<forall>(n, v) \<in> set src. no_crlf v) \<and> http_status rej = 400"
  by (induction ext d src rule: proxy_merge_headers.induct)
    (auto simp: no_crlf_def list_all_iff list_ex_iff build_response_def split: if_splits)

lemma merge_headers_get:
  "proxy_merge_headers ext d src = Ok hs \<Longrightarrow> hm_get_all hs n = (if hm_get_all src n = [] then hm_get_all d n else [last (hm_get_all src n)])"
proof (induction ext d src rule: proxy_merge_headers.induct)
  case (2 ext d name v src)
  have "hm_get_all ((name, v) # src) n = (if n = name then v # hm_get_all src n else hm_get_all src n)"
    by (simp add: hm_get_all_def)
  then show ?case
    using 2 by (auto split: if_splits)
qed (simp add: hm_get_all_def)

text \<open>
  What the pre-routing proxy does to a request is safe whatever its function answers: the router is asked
  with the request's own method and body, with headers in which no value that was added carries a line
  break, and with a URI without a scheme when it was rewritten; a redirect carries exactly one
  location, free of control characters; a value that cannot be used is answered with 400 and not passed on.
\<close>
theorem proxy_is_confined:
  assumes "proxy_call parse scheme_str ext (Some f) inner req = response"
    and "f (pr_method req) (pr_uri req) (pr_headers req) = action"
  shows "case action of
      Continue hs \<Rightarrow> (if \<forall>(n, v) \<in> set hs. no_crlf v
        then \<exists>merged. response = inner (req\<lparr>pr_headers := merged\<rparr>) \<and>
          (\<forall>n. hm_get_all merged n = (if hm_get_all hs n = [] then hm_get_all (pr_headers req) n else [last (hm_get_all hs n)]))
        else http_status response = 400)
    | Redirect location permanent \<Rightarrow> (if list_all header_byte location
        then http_status response = (if permanent then 301 else 302) \<and> hm_get_all (http_headers response) ''location'' = [location]
        else http_status response = 400)
    | Rewrite uri \<Rightarrow> (case parse uri of
        Some u \<Rightarrow> if scheme_str u = None then response = inner (req\<lparr>pr_uri := u\<rparr>) else http_status response = 400
      | None \<Rightarrow> http_status response = 400)
    | ShortCircuit status r \<Rightarrow> (case r of Some x \<Rightarrow> response = x | None \<Rightarrow> http_status response = status)"
proof (cases action)
  case (Continue hs)
  show ?thesis
  proof (cases "proxy_merge_headers ext (pr_headers req) hs")
    case (Inl rej)
    then have "\<not> (\<forall>(n, v) \<in> set hs. no_crlf v) \<and> http_status rej = 400"
      by (rule merge_headers_rejects)
    then show ?thesis
      using assms Continue Inl by (auto simp: proxy_call_def)
  next
    case (Inr merged)
    then show ?thesis
      using assms Continue merge_headers_keeps [OF Inr] merge_headers_get [OF Inr] by (auto simp: proxy_call_def)
  qed
next
  case (Redirect location permanent)
  have "list_ex (\<lambda>c. of_char c = (13 :: nat) \<or> of_char c = (10 :: nat) \<or> ((of_char c :: nat) < 32 \<and> of_char c \<noteq> (9 :: nat))) location \<Longrightarrow>
      \<not> list_all header_byte location"
    by (force simp: list_ex_iff list_all_iff header_byte_def)
  then show ?thesis
    using assms Redirect
    by (auto simp: proxy_call_def validate_header_value_def build_response_def hm_get_all_Cons hm_insert_def hm_remove_def split: if_splits)
next
  case (Rewrite uri)
  then show ?thesis
    using assms by (auto simp: proxy_call_def validate_rewrite_uri_def build_response_def split: option.splits if_splits)
next
  case (ShortCircuit status r)
  then show ?thesis
    using assms by (auto simp: proxy_call_def build_response_def split: option.splits)
qed

theorem proxy_is_confined_witness:
  "http_status (proxy_call (\<lambda>_. None :: unit option) (\<lambda>_. None) () (Some (\<lambda>_ _ _. Redirect [CHR ''/'', CHR 0x0A] True))
     (\<lambda>_. \<lparr>http_status = 200, http_headers = [], http_body = [], http_extensions = ()\<rparr>)
     \<lparr>pr_method = ''GET'', pr_uri = (), pr_headers = [], pr_body = ()\<rparr>) = 400"
  using proxy_is_confined [OF refl refl, of "\<lambda>_. None :: unit option" "\<lambda>_. None" "()" "\<lambda>_ _ _. Redirect [CHR ''/'', CHR 0x0A] True"
      "\<lambda>_. \<lparr>http_status = 200, http_headers = [], http_body = [], http_extensions = ()\<rparr>"
      "\<lparr>pr_method = ''GET'', pr_uri = (), pr_headers = [], pr_body = ()\<rparr>"]
  by (simp add: header_byte_def)

end
