(* ===== verification/Cache_Store.thy ===== *)
theory Cache_Store
  imports Json_Value
begin

text \<open>
  The cache (\<^verbatim>\<open>cache/\<close>): its namespace, its configuration and every operation of \<^verbatim>\<open>Cache\<close> as a call to
  Redis.  The server is a parameter: a record of its commands, each at an instant in milliseconds, with the
  documented effect of each command as laws over the value a key has at every later instant.  Durations are
  in nanoseconds.
\<close>

section \<open>Errors, namespace and configuration\<close>

datatype 'e CacheError = CacheBackend 'e | CacheDecode | PayloadTooLarge nat nat | ZeroTtl

datatype CacheConfigError = InvalidUrl string | ZeroResponseTimeout | ZeroPayloadLimit | EmptyNamespace
  | NamespaceEndsWithSeparator | NamespaceContainsControlChar

text \<open>\<^verbatim>\<open>char::is_control\<close> on the characters of a UTF-8 string: the C0 and C1 controls and DEL.\<close>

fun has_control :: "string \<Rightarrow> bool" where
  "has_control [] = False"
| "has_control (c # s) = ((of_char c :: nat) < 32 \<or> of_char c = (127 :: nat) \<or>
     (of_char c = (194 :: nat) \<and> s \<noteq> [] \<and> (of_char (hd s) :: nat) < 160) \<or> has_control s)"

definition namespace_none :: string where
  "namespace_none = []"

definition namespace_new :: "string \<Rightarrow> (CacheConfigError, string) result" where
  "namespace_new p =
     (if p = [] then Err EmptyNamespace
      else if last p = CHR '':'' then Err NamespaceEndsWithSeparator
      else if has_control p then Err NamespaceContainsControlChar
      else Ok p)"

definition resolve_in :: "string \<Rightarrow> string \<Rightarrow> string" where
  "resolve_in ns key = (if ns = [] then key else ns @ [CHR '':''] @ key)"

record CacheConfig =
  cc_response_timeout :: nat
  cc_max_payload_size :: "nat option"
  cc_namespace :: string

definition cache_config_new :: CacheConfig where
  "cache_config_new = \<lparr>cc_response_timeout = 5000000000, cc_max_payload_size = Some (64 * 1024 * 1024), cc_namespace = namespace_none\<rparr>"

definition cache_config_validate :: "CacheConfig \<Rightarrow> (CacheConfigError, unit) result" where
  "cache_config_validate c =
     (if cc_response_timeout c = 0 then Err ZeroResponseTimeout
      else if cc_max_payload_size c = Some 0 then Err ZeroPayloadLimit
      else Ok ())"

section \<open>The server\<close>

record ('s, 'e) redis =
  r_get :: "nat \<Rightarrow> string \<Rightarrow> 's \<Rightarrow> ('e, bytes option) result \<times> 's"
  r_set :: "nat \<Rightarrow> string \<Rightarrow> bytes \<Rightarrow> 's \<Rightarrow> ('e, unit) result \<times> 's"
  r_set_ex :: "nat \<Rightarrow> string \<Rightarrow> bytes \<Rightarrow> nat \<Rightarrow> 's \<Rightarrow> ('e, unit) result \<times> 's"
  r_set_nx :: "nat \<Rightarrow> string \<Rightarrow> bytes \<Rightarrow> 's \<Rightarrow> ('e, string option) result \<times> 's"
  r_set_nx_ex :: "nat \<Rightarrow> string \<Rightarrow> bytes \<Rightarrow> nat \<Rightarrow> 's \<Rightarrow> ('e, string option) result \<times> 's"
  r_del :: "nat \<Rightarrow> string \<Rightarrow> 's \<Rightarrow> ('e, nat) result \<times> 's"
  r_exists :: "nat \<Rightarrow> string \<Rightarrow> 's \<Rightarrow> ('e, nat) result \<times> 's"
  r_incr :: "nat \<Rightarrow> string \<Rightarrow> int \<Rightarrow> 's \<Rightarrow> ('e, int) result \<times> 's"
  r_decr :: "nat \<Rightarrow> string \<Rightarrow> int \<Rightarrow> 's \<Rightarrow> ('e, int) result \<times> 's"
  r_expire :: "nat \<Rightarrow> string \<Rightarrow> int \<Rightarrow> 's \<Rightarrow> ('e, bool) result \<times> 's"
  r_ttl :: "nat \<Rightarrow> string \<Rightarrow> 's \<Rightarrow> ('e, int) result \<times> 's"

record ('s, 'e) Cache =
  server :: "('s, 'e) redis"
  max_payload_size :: "nat option"
  cache_namespace :: string

definition from_parts :: "('s, 'e) redis \<Rightarrow> CacheConfig \<Rightarrow> ('s, 'e) Cache" where
  "from_parts connection c = \<lparr>server = connection, max_payload_size = cc_max_payload_size c, cache_namespace = cc_namespace c\<rparr>"

definition cache_connect :: "('x, ('s, 'e) redis) result \<Rightarrow> CacheConfig \<Rightarrow> (CacheConfigError + 'x, ('s, 'e) Cache) result" where
  "cache_connect opened c = (case cache_config_validate c of
     Err e \<Rightarrow> Err (Inl e)
   | Ok _ \<Rightarrow> (case opened of Err e \<Rightarrow> Err (Inr e) | Ok connection \<Rightarrow> Ok (from_parts connection c)))"

definition resolve_key :: "('s, 'e) Cache \<Rightarrow> string \<Rightarrow> string" where
  "resolve_key c key = resolve_in (cache_namespace c) key"

section \<open>Operations\<close>

definition check_payload_size :: "nat \<Rightarrow> nat option \<Rightarrow> ('e CacheError, unit) result" where
  "check_payload_size n limit = (case limit of
     Some l \<Rightarrow> if n > l then Err (PayloadTooLarge n l) else Ok ()
   | None \<Rightarrow> Ok ())"

type_synonym ('s, 'e, 'a) op = "'s \<Rightarrow> ('e CacheError, 'a) result \<times> 's"

definition get_bytes :: "('s, 'e) Cache \<Rightarrow> nat \<Rightarrow> string \<Rightarrow> ('s, 'e, bytes option) op" where
  "get_bytes c now key s = sbind (r_get (server c) now (resolve_key c key) s) (\<lambda>v s.
     case v of Some b \<Rightarrow> sbind (check_payload_size (length b) (max_payload_size c), s) (\<lambda>_ s. (Ok v, s)) (\<lambda>e. e)
     | None \<Rightarrow> (Ok v, s)) CacheBackend"

text \<open>Typed values are JSON: \<open>to_vec\<close> and \<open>from_slice\<close> belong to \<^verbatim>\<open>serde_json\<close> and the type.\<close>

record 'a value_codec =
  to_vec :: "'a \<Rightarrow> bytes option"
  from_slice :: "bytes \<Rightarrow> 'a option"

definition cache_get :: "('s, 'e) Cache \<Rightarrow> 'a value_codec \<Rightarrow> nat \<Rightarrow> string \<Rightarrow> ('s, 'e, 'a option) op" where
  "cache_get c codec now key s = sbind (r_get (server c) now (resolve_key c key) s) (\<lambda>v s.
     case v of None \<Rightarrow> (Ok None, s)
     | Some b \<Rightarrow> sbind (check_payload_size (length b) (max_payload_size c), s) (\<lambda>_ s.
         (case from_slice codec b of Some a \<Rightarrow> Ok (Some a) | None \<Rightarrow> Err CacheDecode, s)) (\<lambda>e. e)) CacheBackend"

definition set_bytes :: "('s, 'e) Cache \<Rightarrow> nat \<Rightarrow> string \<Rightarrow> bytes \<Rightarrow> ('s, 'e, unit) op" where
  "set_bytes c now key v s = sbind (check_payload_size (length v) (max_payload_size c), s) (\<lambda>_ s.
     sbind (r_set (server c) now (resolve_key c key) v s) (\<lambda>u s. (Ok u, s)) CacheBackend) (\<lambda>e. e)"

definition cache_set :: "('s, 'e) Cache \<Rightarrow> 'a value_codec \<Rightarrow> nat \<Rightarrow> string \<Rightarrow> 'a \<Rightarrow> ('s, 'e, unit) op" where
  "cache_set c codec now key a s = (case to_vec codec a of None \<Rightarrow> (Err CacheDecode, s) | Some b \<Rightarrow> set_bytes c now key b s)"

definition as_secs :: "nat \<Rightarrow> nat" where
  "as_secs ttl = ttl div 1000000000"

definition set_bytes_with_ttl :: "('s, 'e) Cache \<Rightarrow> nat \<Rightarrow> string \<Rightarrow> bytes \<Rightarrow> nat \<Rightarrow> ('s, 'e, unit) op" where
  "set_bytes_with_ttl c now key v ttl s = (
     if ttl = 0 then (Err ZeroTtl, s)
     else sbind (check_payload_size (length v) (max_payload_size c), s) (\<lambda>_ s.
       sbind (r_set_ex (server c) now (resolve_key c key) v (as_secs ttl) s) (\<lambda>u s. (Ok u, s)) CacheBackend) (\<lambda>e. e))"

definition cache_put :: "('s, 'e) Cache \<Rightarrow> 'a value_codec \<Rightarrow> nat \<Rightarrow> string \<Rightarrow> 'a \<Rightarrow> nat \<Rightarrow> ('s, 'e, unit) op" where
  "cache_put c codec now key a ttl s = (
     if ttl = 0 then (Err ZeroTtl, s)
     else (case to_vec codec a of
         None \<Rightarrow> (Err CacheDecode, s)
       | Some b \<Rightarrow> sbind (check_payload_size (length b) (max_payload_size c), s) (\<lambda>_ s.
           sbind (r_set_ex (server c) now (resolve_key c key) b (as_secs ttl) s) (\<lambda>u s. (Ok u, s)) CacheBackend) (\<lambda>e. e)))"

text \<open>\<open>remember\<close> reads at one instant and writes at another; the loader is run only on a miss.\<close>

definition cache_remember :: "('s, 'e) Cache \<Rightarrow> 'a value_codec \<Rightarrow> nat \<Rightarrow> nat \<Rightarrow> string \<Rightarrow> nat \<Rightarrow> (unit \<Rightarrow> ('e CacheError, 'a) result) \<Rightarrow> ('s, 'e, 'a) op" where
  "cache_remember c codec now later key ttl loader s =
     sbind (cache_get c codec now key s) (\<lambda>v s. case v of
       Some a \<Rightarrow> (Ok a, s)
     | None \<Rightarrow> (case loader () of
         Err e \<Rightarrow> (Err e, s)
       | Ok a \<Rightarrow> sbind (cache_put c codec later key a ttl s) (\<lambda>_ s. (Ok a, s)) (\<lambda>e. e))) (\<lambda>e. e)"

definition forget :: "('s, 'e) Cache \<Rightarrow> nat \<Rightarrow> string \<Rightarrow> ('s, 'e, nat) op" where
  "forget c now key s = sbind (r_del (server c) now (resolve_key c key) s) (\<lambda>n s. (Ok n, s)) CacheBackend"

definition cache_exists :: "('s, 'e) Cache \<Rightarrow> nat \<Rightarrow> string \<Rightarrow> ('s, 'e, bool) op" where
  "cache_exists c now key s = sbind (r_exists (server c) now (resolve_key c key) s) (\<lambda>n s. (Ok (n > 0), s)) CacheBackend"

definition cache_incr :: "('s, 'e) Cache \<Rightarrow> nat \<Rightarrow> string \<Rightarrow> int \<Rightarrow> ('s, 'e, int) op" where
  "cache_incr c now key delta s = sbind (r_incr (server c) now (resolve_key c key) delta s) (\<lambda>n s. (Ok n, s)) CacheBackend"

definition cache_decr :: "('s, 'e) Cache \<Rightarrow> nat \<Rightarrow> string \<Rightarrow> int \<Rightarrow> ('s, 'e, int) op" where
  "cache_decr c now key delta s = sbind (r_decr (server c) now (resolve_key c key) delta s) (\<lambda>n s. (Ok n, s)) CacheBackend"

definition cache_expire :: "('s, 'e) Cache \<Rightarrow> nat \<Rightarrow> string \<Rightarrow> nat \<Rightarrow> ('s, 'e, bool) op" where
  "cache_expire c now key ttl s = (
     if ttl = 0 then (Err ZeroTtl, s)
     else sbind (r_expire (server c) now (resolve_key c key) (sint (word_of_nat (as_secs ttl) :: 64 word)) s) (\<lambda>b s. (Ok b, s)) CacheBackend)"

definition cache_ttl :: "('s, 'e) Cache \<Rightarrow> nat \<Rightarrow> string \<Rightarrow> ('s, 'e, nat option) op" where
  "cache_ttl c now key s = sbind (r_ttl (server c) now (resolve_key c key) s) (\<lambda>raw s.
     (Ok (if raw = -1 then None else if raw = -2 then Some 0 else if raw \<ge> 0 then Some (nat raw) else Some 0), s)) CacheBackend"

definition set_if_absent :: "('s, 'e) Cache \<Rightarrow> nat \<Rightarrow> string \<Rightarrow> bytes \<Rightarrow> ('s, 'e, bool) op" where
  "set_if_absent c now key v s = sbind (check_payload_size (length v) (max_payload_size c), s) (\<lambda>_ s.
     sbind (r_set_nx (server c) now (resolve_key c key) v s) (\<lambda>r s. (Ok (r \<noteq> None), s)) CacheBackend) (\<lambda>e. e)"

definition set_if_absent_with_ttl :: "('s, 'e) Cache \<Rightarrow> nat \<Rightarrow> string \<Rightarrow> bytes \<Rightarrow> nat \<Rightarrow> ('s, 'e, bool) op" where
  "set_if_absent_with_ttl c now key v ttl s = (
     if ttl = 0 then (Err ZeroTtl, s)
     else sbind (check_payload_size (length v) (max_payload_size c), s) (\<lambda>_ s.
       sbind (r_set_nx_ex (server c) now (resolve_key c key) v (as_secs ttl) s) (\<lambda>r s. (Ok (r \<noteq> None), s)) CacheBackend) (\<lambda>e. e))"

section \<open>The documented behaviour of the server\<close>

text \<open>\<open>view s k t\<close> is the value the key has at the instant \<open>t\<close> if nobody writes it.  A command that fails may
  or may not have taken effect, on its own key only.\<close>

definition keeps :: "('s \<Rightarrow> string \<Rightarrow> nat \<Rightarrow> bytes option) \<Rightarrow> string set \<Rightarrow> nat \<Rightarrow> 's \<Rightarrow> 's \<Rightarrow> bool" where
  "keeps view K now s s' \<longleftrightarrow> (\<forall>k t. k \<notin> K \<and> now \<le> t \<longrightarrow> view s' k t = view s k t)"

definition law_get :: "('s, 'e) redis \<Rightarrow> ('s \<Rightarrow> string \<Rightarrow> nat \<Rightarrow> bytes option) \<Rightarrow> bool" where
  "law_get op view \<longleftrightarrow> (\<forall>now k s r s'. r_get op now k s = (r, s') \<longrightarrow> keeps view {} now s s' \<and> (\<forall>v. r = Ok v \<longrightarrow> v = view s k now))"

definition law_set :: "('s, 'e) redis \<Rightarrow> ('s \<Rightarrow> string \<Rightarrow> nat \<Rightarrow> bytes option) \<Rightarrow> bool" where
  "law_set op view \<longleftrightarrow> (\<forall>now k v s r s'. r_set op now k v s = (r, s') \<longrightarrow> keeps view {k} now s s' \<and> (r = Ok () \<longrightarrow> (\<forall>t \<ge> now. view s' k t = Some v)))"

definition law_set_ex :: "('s, 'e) redis \<Rightarrow> ('s \<Rightarrow> string \<Rightarrow> nat \<Rightarrow> bytes option) \<Rightarrow> bool" where
  "law_set_ex op view \<longleftrightarrow> (\<forall>now k v n s r s'. r_set_ex op now k v n s = (r, s') \<longrightarrow> keeps view {k} now s s' \<and>
        (r = Ok () \<longrightarrow> 0 < n \<and> (\<forall>t \<ge> now. view s' k t = (if t < now + 1000 * n then Some v else None))))"

definition law_set_nx :: "('s, 'e) redis \<Rightarrow> ('s \<Rightarrow> string \<Rightarrow> nat \<Rightarrow> bytes option) \<Rightarrow> bool" where
  "law_set_nx op view \<longleftrightarrow> (\<forall>now k v s r s'. r_set_nx op now k v s = (r, s') \<longrightarrow> keeps view {k} now s s' \<and>
        (\<forall>x. r = Ok x \<longrightarrow> (x \<noteq> None \<longleftrightarrow> view s k now = None) \<and> (\<forall>t \<ge> now. view s' k t = (if x \<noteq> None then Some v else view s k t))))"

definition law_set_nx_ex :: "('s, 'e) redis \<Rightarrow> ('s \<Rightarrow> string \<Rightarrow> nat \<Rightarrow> bytes option) \<Rightarrow> bool" where
  "law_set_nx_ex op view \<longleftrightarrow> (\<forall>now k v n s r s'. r_set_nx_ex op now k v n s = (r, s') \<longrightarrow> keeps view {k} now s s' \<and>
        ((\<forall>t \<ge> now. view s' k t = view s k t) \<or> view s k now = None) \<and>
        (\<forall>x. r = Ok x \<longrightarrow> 0 < n \<and> (x \<noteq> None \<longleftrightarrow> view s k now = None) \<and>
           (\<forall>t \<ge> now. view s' k t = (if x = None then view s k t else if t < now + 1000 * n then Some v else None))))"

definition law_del :: "('s, 'e) redis \<Rightarrow> ('s \<Rightarrow> string \<Rightarrow> nat \<Rightarrow> bytes option) \<Rightarrow> bool" where
  "law_del op view \<longleftrightarrow> (\<forall>now k s r s'. r_del op now k s = (r, s') \<longrightarrow> keeps view {k} now s s' \<and>
        (\<forall>n. r = Ok n \<longrightarrow> n = (if view s k now = None then 0 else 1) \<and> (\<forall>t \<ge> now. view s' k t = None)))"

definition law_exists :: "('s, 'e) redis \<Rightarrow> ('s \<Rightarrow> string \<Rightarrow> nat \<Rightarrow> bytes option) \<Rightarrow> bool" where
  "law_exists op view \<longleftrightarrow> (\<forall>now k s r s'. r_exists op now k s = (r, s') \<longrightarrow> keeps view {} now s s' \<and> (\<forall>n. r = Ok n \<longrightarrow> n = (if view s k now = None then 0 else 1)))"

definition law_incr :: "('s, 'e) redis \<Rightarrow> ('s \<Rightarrow> string \<Rightarrow> nat \<Rightarrow> bytes option) \<Rightarrow> bool" where
  "law_incr op view \<longleftrightarrow> (\<forall>now k d s r s'. r_incr op now k d s = (r, s') \<longrightarrow> keeps view {k} now s s')"

definition law_decr :: "('s, 'e) redis \<Rightarrow> ('s \<Rightarrow> string \<Rightarrow> nat \<Rightarrow> bytes option) \<Rightarrow> bool" where
  "law_decr op view \<longleftrightarrow> (\<forall>now k d s r s'. r_decr op now k d s = (r, s') \<longrightarrow> keeps view {k} now s s')"

definition law_expire :: "('s, 'e) redis \<Rightarrow> ('s \<Rightarrow> string \<Rightarrow> nat \<Rightarrow> bytes option) \<Rightarrow> bool" where
  "law_expire op view \<longleftrightarrow> (\<forall>now k n s r s'. r_expire op now k n s = (r, s') \<longrightarrow> keeps view {k} now s s' \<and>
        (\<forall>b. r = Ok b \<longrightarrow> (b \<longleftrightarrow> view s k now \<noteq> None) \<and>
           (\<forall>t \<ge> now. view s' k t = (if int t < int now + 1000 * n then view s k now else None))))"

definition law_ttl :: "('s, 'e) redis \<Rightarrow> ('s \<Rightarrow> string \<Rightarrow> nat \<Rightarrow> bytes option) \<Rightarrow> bool" where
  "law_ttl op view \<longleftrightarrow> (\<forall>now k s r s'. r_ttl op now k s = (r, s') \<longrightarrow> keeps view {} now s s')"

definition redis_laws :: "('s, 'e) redis \<Rightarrow> ('s \<Rightarrow> string \<Rightarrow> nat \<Rightarrow> bytes option) \<Rightarrow> bool" where
  "redis_laws op view \<longleftrightarrow> law_get op view \<and> law_set op view \<and> law_set_ex op view \<and> law_set_nx op view \<and> law_set_nx_ex op view \<and> law_del op view \<and>
     law_exists op view \<and> law_incr op view \<and> law_decr op view \<and> law_expire op view \<and> law_ttl op view"

section \<open>Remembered values\<close>

lemma check_payload_Ok: "check_payload_size n limit = Ok u \<longleftrightarrow> (\<forall>l. limit = Some l \<longrightarrow> n \<le> l)"
  by (auto simp: check_payload_size_def split: option.splits)

lemma get_law:
  assumes "redis_laws op view" and "r_get op now k s = (r, s')"
  shows "keeps view {} now s s'" and "r = Ok v \<Longrightarrow> v = view s k now"
  using assms by (auto simp: redis_laws_def law_get_def)

lemma set_ex_law:
  assumes "redis_laws op view" and "r_set_ex op now k v n s = (r, s')"
  shows "keeps view {k} now s s'" and "r = Ok () \<Longrightarrow> now \<le> t \<Longrightarrow> view s' k t = (if t < now + 1000 * n then Some v else None)"
  using assms by (force simp: redis_laws_def law_set_ex_def)+

lemma keeps_trans: "keeps view K now s s1 \<Longrightarrow> keeps view L later s1 s2 \<Longrightarrow> now \<le> later \<Longrightarrow> keeps view (K \<union> L) later s s2"
  by (simp add: keeps_def)

lemma cache_get_outcome:
  assumes "redis_laws (server c) view" and "cache_get c codec now key s = (r, s')"
  shows "keeps view {} now s s'"
    and "r = Ok None \<Longrightarrow> view s (resolve_key c key) now = None"
    and "r = Ok (Some a) \<Longrightarrow> \<exists>b. view s (resolve_key c key) now = Some b \<and> from_slice codec b = Some a \<and>
      (\<forall>l. max_payload_size c = Some l \<longrightarrow> length b \<le> l)"
    and "view s (resolve_key c key) now = Some b \<Longrightarrow> from_slice codec b = Some a \<Longrightarrow>
      (\<forall>l. max_payload_size c = Some l \<longrightarrow> length b \<le> l) \<Longrightarrow> r = Ok (Some a) \<or> (\<exists>e. r = Err (CacheBackend e))"
proof -
  obtain x s1 where g: "r_get (server c) now (resolve_key c key) s = (x, s1)"
    by fastforce
  note laws = get_law [OF assms(1) g]
  have same: "s' = s1"
    using assms(2) g by (auto simp: cache_get_def sbind_def split: sum.splits option.splits)
  show "keeps view {} now s s'"
    using laws(1) same by simp
  show "r = Ok None \<Longrightarrow> view s (resolve_key c key) now = None"
    using assms(2) g laws(2) by (cases x) (auto simp: cache_get_def sbind_def split: sum.splits option.splits)
  show "r = Ok (Some a) \<Longrightarrow> \<exists>b. view s (resolve_key c key) now = Some b \<and> from_slice codec b = Some a \<and>
      (\<forall>l. max_payload_size c = Some l \<longrightarrow> length b \<le> l)"
    using assms(2) g laws(2) by (cases x) (auto simp: cache_get_def sbind_def check_payload_Ok split: sum.splits option.splits)
  show "r = Ok (Some a) \<or> (\<exists>e. r = Err (CacheBackend e))"
    if "view s (resolve_key c key) now = Some b" "from_slice codec b = Some a" "\<forall>l. max_payload_size c = Some l \<longrightarrow> length b \<le> l"
    using that assms(2) g laws(2)
    by (cases x) (auto simp: cache_get_def sbind_def check_payload_size_def split: sum.splits option.splits if_splits)
qed

lemma cache_put_outcome:
  assumes "redis_laws (server c) view" and "cache_put c codec now key a ttl s = (r, s')"
  shows "keeps view {resolve_key c key} now s s'"
    and "r = Ok () \<Longrightarrow> \<exists>b. to_vec codec a = Some b \<and> (\<forall>l. max_payload_size c = Some l \<longrightarrow> length b \<le> l) \<and>
      (\<forall>t \<ge> now. view s' (resolve_key c key) t = (if t < now + 1000 * as_secs ttl then Some b else None))"
proof -
  have id: "keeps view {resolve_key c key} now s s"
    by (simp add: keeps_def)
  consider "s' = s" "r \<noteq> Ok ()" | b x where "to_vec codec a = Some b" "\<forall>l. max_payload_size c = Some l \<longrightarrow> length b \<le> l"
      "r_set_ex (server c) now (resolve_key c key) b (as_secs ttl) s = (x, s')" "r = Ok () \<longrightarrow> x = Ok ()"
    using assms(2) by (auto simp: cache_put_def sbind_def check_payload_size_def split: if_splits option.splits sum.splits prod.splits)
  then show "keeps view {resolve_key c key} now s s'"
    and "r = Ok () \<Longrightarrow> \<exists>b. to_vec codec a = Some b \<and> (\<forall>l. max_payload_size c = Some l \<longrightarrow> length b \<le> l) \<and>
      (\<forall>t \<ge> now. view s' (resolve_key c key) t = (if t < now + 1000 * as_secs ttl then Some b else None))"
    using id set_ex_law [OF assms(1)] by (cases; force)+
qed

lemma stored_is_read:
  assumes laws: "redis_laws (server c) view" and put: "cache_put c codec now key a ttl s = (r, s')" and "r = Ok ()"
    and codec: "\<forall>a b. to_vec codec a = Some b \<longrightarrow> from_slice codec b = Some a" and "now \<le> t" "t < now + 1000 * as_secs ttl"
  shows "fst (cache_get c codec t key s') = Ok (Some a) \<or> (\<exists>e. fst (cache_get c codec t key s') = Err (CacheBackend e))"
proof -
  obtain b where b: "to_vec codec a = Some b" "\<forall>l. max_payload_size c = Some l \<longrightarrow> length b \<le> l" "view s' (resolve_key c key) t = Some b"
    using cache_put_outcome(2) [OF laws put assms(3)] assms(5,6) by auto
  then show ?thesis
    using cache_get_outcome(4) [OF laws prod.collapse [symmetric] b(3), of codec a] codec by blast
qed

text \<open>
  Remembering is cache-aside: a value that is there and decodes is returned and nothing changes; on a
  miss the value returned is the loader's, and it then stays readable for the whole seconds of the
  time to live and not longer.  Nothing beyond the payload limit is returned or stored, no other key is
  touched, and an error leaves a value that was there alone.
\<close>
theorem remember_is_cache_aside:
  assumes "redis_laws (server c) view" and "now \<le> later" and "\<forall>a b. to_vec codec a = Some b \<longrightarrow> from_slice codec b = Some a"
    and "cache_remember c codec now later key ttl loader s = (r, s')"
  shows "keeps view {resolve_key c key} later s s' \<and>
    (case view s (resolve_key c key) now of
       Some b \<Rightarrow> keeps view {} now s s' \<and> (\<forall>a. r = Ok a \<longrightarrow> from_slice codec b = Some a)
     | None \<Rightarrow> (\<forall>a. r = Ok a \<longrightarrow> loader () = Ok a \<and> (\<exists>b. to_vec codec a = Some b \<and>
         (\<forall>l. max_payload_size c = Some l \<longrightarrow> length b \<le> l) \<and>
         (\<forall>t \<ge> later. view s' (resolve_key c key) t = (if t < later + 1000 * as_secs ttl then Some b else None)) \<and>
         (\<forall>t. later \<le> t \<and> t < later + 1000 * as_secs ttl \<longrightarrow>
            fst (cache_get c codec t key s') = Ok (Some a) \<or> (\<exists>e. fst (cache_get c codec t key s') = Err (CacheBackend e))))))"
proof -
  let ?k = "resolve_key c key"
  obtain x s1 where g: "cache_get c codec now key s = (x, s1)"
    by fastforce
  note got = cache_get_outcome [OF assms(1) g]
  have got_later: "keeps view {} later s s1"
    using got(1) assms(2) by (simp add: keeps_def)
  show ?thesis
  proof (cases "x = Ok None")
    case False
    then have same: "s' = s1" and r: "\<And>a. r = Ok a \<Longrightarrow> x = Ok (Some a)"
      using assms(4) g by (auto simp: cache_remember_def sbind_def split: sum.splits option.splits)
    show ?thesis
    proof (cases "view s ?k now")
      case None
      then have "\<And>a. x \<noteq> Ok (Some a)"
        using got(3) by fastforce
      then show ?thesis
        using got_later None same r by (auto simp: keeps_def)
    next
      case (Some b)
      then show ?thesis
        using got(1) got(3) got_later same r by (auto simp: keeps_def)
    qed
  next
    case True
    then have none: "view s ?k now = None"
      by (rule got(2))
    show ?thesis
    proof (cases "loader ()")
      case (Inl e)
      then show ?thesis
        using assms(4) g True none got_later by (auto simp: cache_remember_def sbind_def keeps_def)
    next
      case (Inr a)
      obtain y s2 where p: "cache_put c codec later key a ttl s1 = (y, s2)"
        by fastforce
      note put = cache_put_outcome [OF assms(1) p]
      have "s' = s2" and "\<And>a'. r = Ok a' \<Longrightarrow> a' = a \<and> y = Ok ()"
        using assms(4) g True Inr p by (auto simp: cache_remember_def sbind_def split: sum.splits)
      then show ?thesis
        using put(1) put(2) got_later none Inr stored_is_read [OF assms(1) p _ assms(3)] by (auto simp: keeps_def)
    qed
  qed
qed

text \<open>A server in memory, which obeys the laws: a key has a value and perhaps a deadline.\<close>

type_synonym memory = "string \<Rightarrow> (bytes \<times> nat option) option"

definition memory_view :: "memory \<Rightarrow> string \<Rightarrow> nat \<Rightarrow> bytes option" where
  "memory_view s k t = (case s k of
     Some (v, Some d) \<Rightarrow> if t < d then Some v else None | Some (v, None) \<Rightarrow> Some v | None \<Rightarrow> None)"

definition memory_redis :: "(memory, unit) redis" where
  "memory_redis = \<lparr>
     r_get = (\<lambda>now k s. (Ok (memory_view s k now), s)),
     r_set = (\<lambda>now k v s. (Ok (), s(k \<mapsto> (v, None)))),
     r_set_ex = (\<lambda>now k v n s. if n = 0 then (Err (), s) else (Ok (), s(k \<mapsto> (v, Some (now + 1000 * n))))),
     r_set_nx = (\<lambda>now k v s. if memory_view s k now = None then (Ok (Some ''OK''), s(k \<mapsto> (v, None))) else (Ok None, s)),
     r_set_nx_ex = (\<lambda>now k v n s. if n = 0 then (Err (), s)
       else if memory_view s k now = None then (Ok (Some ''OK''), s(k \<mapsto> (v, Some (now + 1000 * n)))) else (Ok None, s)),
     r_del = (\<lambda>now k s. (Ok (if memory_view s k now = None then 0 else 1), s(k := None))),
     r_exists = (\<lambda>now k s. (Ok (if memory_view s k now = None then 0 else 1), s)),
     r_incr = (\<lambda>now k d s. (Err (), s)), r_decr = (\<lambda>now k d s. (Err (), s)),
     r_expire = (\<lambda>now k n s. case memory_view s k now of
         None \<Rightarrow> (Ok False, s(k := None)) | Some v \<Rightarrow> (Ok True, s(k \<mapsto> (v, Some (nat (int now + 1000 * n)))))),
     r_ttl = (\<lambda>now k s. (Ok (case s k of Some (_, None) \<Rightarrow> -1 | _ \<Rightarrow> -2), s))\<rparr>"

lemma memory_redis_laws: "redis_laws memory_redis memory_view"
  unfolding redis_laws_def
  by (intro conjI)
    (auto simp: law_get_def law_set_def law_set_ex_def law_set_nx_def law_set_nx_ex_def law_del_def law_exists_def law_incr_def law_decr_def
      law_expire_def law_ttl_def memory_redis_def keeps_def memory_view_def split: if_splits option.splits prod.splits)

definition sample_codec :: "nat value_codec" where
  "sample_codec = \<lparr>to_vec = (\<lambda>n. Some (replicate n 1)), from_slice = (\<lambda>b. Some (length b))\<rparr>"

definition sample_cache :: "(memory, unit) Cache" where
  "sample_cache = from_parts memory_redis (cache_config_new\<lparr>cc_namespace := ''app''\<rparr>)"

theorem remember_is_cache_aside_witness:
  "memory_view (snd (cache_remember sample_cache sample_codec 0 5 ''k'' 2000000000 (\<lambda>_. Ok 3) Map.empty)) ''app:k'' 2004 = Some [1, 1, 1]"
proof -
  have laws: "redis_laws (server sample_cache) memory_view"
    by (simp add: sample_cache_def from_parts_def memory_redis_laws)
  obtain s where run: "cache_remember sample_cache sample_codec 0 5 ''k'' 2000000000 (\<lambda>_. Ok 3) Map.empty = (Ok 3, s)"
    by (simp add: cache_remember_def cache_get_def cache_put_def sample_cache_def from_parts_def memory_redis_def memory_view_def sample_codec_def
        cache_config_new_def check_payload_size_def as_secs_def)
  have key: "resolve_key sample_cache ''k'' = ''app:k''"
    by (simp add: resolve_key_def resolve_in_def sample_cache_def from_parts_def)
  show ?thesis
    using remember_is_cache_aside [OF laws _ _ run] unfolding run key
    by (simp add: memory_view_def [of Map.empty] sample_codec_def as_secs_def numeral_3_eq_3)
qed

section \<open>Locks\<close>

text \<open>Attempts to take a lock, one after the other.\<close>

fun lock_attempts :: "('s, 'e) Cache \<Rightarrow> string \<Rightarrow> (nat \<times> bytes \<times> nat) list \<Rightarrow> 's \<Rightarrow> ('e CacheError, bool) result list" where
  "lock_attempts c key [] s = []"
| "lock_attempts c key ((now, v, ttl) # xs) s = (case set_if_absent_with_ttl c now key v ttl s of (r, s') \<Rightarrow> r # lock_attempts c key xs s')"

lemma set_nx_outcome:
  assumes "redis_laws (server c) view" and "set_if_absent_with_ttl c now key v ttl s = (r, s')"
  shows "r = Ok True \<Longrightarrow> view s (resolve_key c key) now = None \<and>
      (\<forall>t \<ge> now. view s' (resolve_key c key) t = (if t < now + 1000 * as_secs ttl then Some v else None))"
    and "view s (resolve_key c key) now \<noteq> None \<Longrightarrow> \<forall>t \<ge> now. view s' (resolve_key c key) t = view s (resolve_key c key) t"
proof -
  have law: "law_set_nx_ex (server c) view"
    using assms(1) by (simp add: redis_laws_def)
  consider "s' = s" "r \<noteq> Ok True" | x where "r_set_nx_ex (server c) now (resolve_key c key) v (as_secs ttl) s = (x, s')"
      "r = Ok True \<longrightarrow> (\<exists>y. x = Ok (Some y))"
    using assms(2) by (auto simp: set_if_absent_with_ttl_def sbind_def check_payload_size_def split: if_splits option.splits sum.splits prod.splits)
  note step = this
  show "view s (resolve_key c key) now = None \<and>
      (\<forall>t \<ge> now. view s' (resolve_key c key) t = (if t < now + 1000 * as_secs ttl then Some v else None))" if r: "r = Ok True"
    using step
  proof cases
    case (2 x)
    then obtain y where "x = Ok (Some y)"
      using r by auto
    then show ?thesis
      using law 2(1) unfolding law_set_nx_ex_def by fastforce
  qed (use r in simp)
  show "\<forall>t \<ge> now. view s' (resolve_key c key) t = view s (resolve_key c key) t" if live: "view s (resolve_key c key) now \<noteq> None"
    using step
  proof cases
    case (2 x)
    then have "(\<forall>t \<ge> now. view s' (resolve_key c key) t = view s (resolve_key c key) t) \<or> view s (resolve_key c key) now = None"
      using law unfolding law_set_nx_ex_def by metis
    then show ?thesis
      using live by simp
  qed simp
qed

lemma locked_refuses:
  assumes "redis_laws (server c) view"
  shows "\<forall>t. from \<le> t \<and> t < until \<longrightarrow> view s (resolve_key c key) t \<noteq> None \<Longrightarrow>
    sorted (map fst xs) \<Longrightarrow> \<forall>(now, _, _) \<in> set xs. from \<le> now \<and> now < until \<Longrightarrow> Ok True \<notin> set (lock_attempts c key xs s)"
proof (induction xs arbitrary: s "from")
  case (Cons x xs)
  obtain now v ttl where x: "x = (now, v, ttl)" by (cases x)
  obtain r s' where a: "set_if_absent_with_ttl c now key v ttl s = (r, s')" by fastforce
  have live: "view s (resolve_key c key) now \<noteq> None"
    using Cons.prems(1,3) x by auto
  have "r \<noteq> Ok True"
    using set_nx_outcome(1) [OF assms a] live by blast
  moreover have "Ok True \<notin> set (lock_attempts c key xs s')"
  proof (rule Cons.IH)
    show "\<forall>t. now \<le> t \<and> t < until \<longrightarrow> view s' (resolve_key c key) t \<noteq> None"
      using set_nx_outcome(2) [OF assms a live] Cons.prems(1,3) x by auto
    show "sorted (map fst xs)" "\<forall>(n, _, _) \<in> set xs. now \<le> n \<and> n < until"
      using Cons.prems(2,3) x by auto
  qed
  ultimately show ?case
    using x a by auto
qed simp

text \<open>
  A lock taken with \<open>set_if_absent_with_ttl\<close> excludes: once an attempt was told it holds the key, no later
  attempt within the whole seconds of its time to live is told so, however many are made and whichever of them fail.
\<close>
theorem lock_excludes:
  assumes "redis_laws (server c) view" and "set_if_absent_with_ttl c now key v ttl s = (Ok True, s')"
    and "sorted (map fst xs)" and "\<forall>(t, _, _) \<in> set xs. now \<le> t \<and> t < now + 1000 * as_secs ttl"
  shows "Ok True \<notin> set (lock_attempts c key xs s')"
  using locked_refuses [OF assms(1), of now "now + 1000 * as_secs ttl" s' key xs] set_nx_outcome(1) [OF assms(1,2)] assms(3,4) by auto

theorem lock_excludes_witness:
  "\<exists>s'. set_if_absent_with_ttl sample_cache 0 ''lock'' [1] 2500000000 Map.empty = (Ok True, s') \<and>
     Ok True \<notin> set (lock_attempts sample_cache ''lock'' [(1, [2], 9000000000), (1999, [3], 9000000000)] s')"
proof -
  have laws: "redis_laws (server sample_cache) memory_view"
    by (simp add: sample_cache_def from_parts_def memory_redis_laws)
  obtain s' where s': "set_if_absent_with_ttl sample_cache 0 ''lock'' [1] 2500000000 Map.empty = (Ok True, s')"
    by (simp add: set_if_absent_with_ttl_def sample_cache_def from_parts_def memory_redis_def memory_view_def cache_config_new_def
        check_payload_size_def as_secs_def)
  then show ?thesis
    using lock_excludes [OF laws s', of "[(1, [2], 9000000000), (1999, [3], 9000000000)]"] by (auto simp: as_secs_def)
qed

section \<open>Namespaces\<close>

text \<open>Namespaces without a colon keep their keys apart; a colon in one lets it reach into another.\<close>

lemma namespaces_are_disjoint:
  assumes "ns \<noteq> []" "ns' \<noteq> []" "CHR '':'' \<notin> set ns" "CHR '':'' \<notin> set ns'" and "resolve_in ns k = resolve_in ns' k'"
  shows "ns = ns' \<and> k = k'"
proof -
  have eq: "ns @ CHR '':'' # k = ns' @ CHR '':'' # k'"
    using assms by (simp add: resolve_in_def)
  then have "takeWhile (\<lambda>c. c \<noteq> CHR '':'') (ns @ CHR '':'' # k) = takeWhile (\<lambda>c. c \<noteq> CHR '':'') (ns' @ CHR '':'' # k')"
    by simp
  then have "ns = ns'"
    using assms(3,4) by (subst (asm) takeWhile_append2, blast, subst (asm) takeWhile_append2, blast) simp
  then show ?thesis
    using eq by simp
qed

lemma colon_namespaces_overlap:
  "namespace_new ''app'' = Ok ''app'' \<and> namespace_new ''app:x'' = Ok ''app:x'' \<and> resolve_in ''app'' ''x:k'' = resolve_in ''app:x'' ''k''"
  by (simp add: namespace_new_def resolve_in_def)

text \<open>A time to live below one second passes the zero check and reaches the server as zero: a write is refused by
  the server, and \<open>expire\<close> removes the key at once.\<close>

lemma subsecond_ttl_expires_now:
  assumes "redis_laws (server c) view" and "0 < ttl" "ttl < 1000000000"
    and "cache_expire c now key ttl s = (Ok b, s')" and "now \<le> t"
  shows "view s' (resolve_key c key) t = None"
proof -
  have "as_secs ttl = 0"
    using assms(3) by (simp add: as_secs_def)
  then have "\<exists>x. r_expire (server c) now (resolve_key c key) 0 s = (Ok x, s')"
    using assms(2,4) by (auto simp: cache_expire_def sbind_def split: sum.splits prod.splits)
  then show ?thesis
    using assms(1,5) by (fastforce simp: redis_laws_def law_expire_def)
qed

lemma subsecond_ttl_is_not_stored:
  assumes "redis_laws (server c) view" and "0 < ttl" "ttl < 1000000000"
  shows "fst (cache_put c codec now key a ttl s) \<noteq> Ok ()"
proof
  assume ok: "fst (cache_put c codec now key a ttl s) = Ok ()"
  have "as_secs ttl = 0"
    using assms(3) by (simp add: as_secs_def)
  then obtain b s' where "r_set_ex (server c) now (resolve_key c key) b 0 s = (Ok (), s')"
    using ok by (auto simp: cache_put_def sbind_def check_payload_size_def split: if_splits option.splits sum.splits prod.splits)
  then show False
    using assms(1) by (fastforce simp: redis_laws_def law_set_ex_def)
qed

end
