(* ===== verification/Notifications.thy ===== *)
theory Notifications
  imports Jobs_Worker Json_Value Hex "HOL-Library.Product_Lexorder"
begin

text \<open>
  Notifications (\<^verbatim>\<open>notifications/\<close>) and the mail they send (\<^verbatim>\<open>mail/\<close>): the stored inbox on SQLite, the live
  channels per recipient, the notifier that delivers on every channel in order, and mail handed to the job
  queue instead.  The mail library \<^verbatim>\<open>lettre\<close> (addresses, the finished message, the transport) and the codec
  of a queued payload are parameters.
\<close>

section \<open>Contents and recipients\<close>

datatype Channel = ChMail | ChDatabase | ChBroadcast

record Recipient =
  recipient_key :: string
  recipient_email :: "string option"

record MailContent =
  mail_subject :: string
  mail_text :: string
  mail_html :: "string option"

definition mail_content_new :: "string \<Rightarrow> string \<Rightarrow> MailContent" where
  "mail_content_new subject body = \<lparr>mail_subject = subject, mail_text = body, mail_html = None\<rparr>"

definition mail_content_html :: "MailContent \<Rightarrow> string \<Rightarrow> MailContent" where
  "mail_content_html c html = c\<lparr>mail_html := Some html\<rparr>"

record DataContent =
  content_kind :: string
  content_data :: json

record Notification =
  to_mail :: "Recipient \<Rightarrow> MailContent option"
  to_database :: "Recipient \<Rightarrow> DataContent option"
  to_broadcast :: "Recipient \<Rightarrow> DataContent option"

section \<open>Mail\<close>

datatype mail_body = Plain string | Html string | Alternative string string

record 'a Email =
  email_from :: "'a option"
  email_to :: "'a list"
  email_subject :: "string option"

definition email_builder :: "'a Email" where
  "email_builder = \<lparr>email_from = None, email_to = [], email_subject = None\<rparr>"

datatype 'e MailSendError = MailBuild | MailTransport 'e

text \<open>What the mail library gives: the parser of addresses, the message of an envelope and a body, and the transport.\<close>

record ('a, 'm, 's, 'e) lettre =
  parse_address :: "string \<Rightarrow> 'a option"
  finish_message :: "'a Email \<Rightarrow> mail_body \<Rightarrow> 'm option"
  send_raw :: "'m \<Rightarrow> 's \<Rightarrow> ('e, unit) result \<times> 's"

definition email_plain :: "('a, 'm, 's, 'e) lettre \<Rightarrow> 'a Email \<Rightarrow> string \<Rightarrow> 'm option" where
  "email_plain L email body = finish_message L email (Plain body)"

definition email_alternative :: "('a, 'm, 's, 'e) lettre \<Rightarrow> 'a Email \<Rightarrow> string \<Rightarrow> string \<Rightarrow> 'm option" where
  "email_alternative L email plain html = finish_message L email (Alternative plain html)"

text \<open>\<open>AsMailable::build\<close>.\<close>

definition as_mailable_build :: "('a, 'm, 's, 'e) lettre \<Rightarrow> MailContent \<Rightarrow> 'a Email \<Rightarrow> 'm option" where
  "as_mailable_build L content email =
     (let email = email\<lparr>email_subject := Some (mail_subject content)\<rparr>
      in case mail_html content of
        Some html \<Rightarrow> email_alternative L email (mail_text content) html
      | None \<Rightarrow> email_plain L email (mail_text content))"

text \<open>\<open>MailBuilder::send\<close>.\<close>

definition mail_send :: "('a, 'm, 's, 'e) lettre \<Rightarrow> 'a \<Rightarrow> string \<Rightarrow> MailContent \<Rightarrow> 's \<Rightarrow> ('e MailSendError, unit) result \<times> 's" where
  "mail_send L sender address content s = (case parse_address L address of
     None \<Rightarrow> (Err MailBuild, s)
   | Some to \<Rightarrow> (case as_mailable_build L content (email_builder\<lparr>email_from := Some sender, email_to := [to]\<rparr>) of
       None \<Rightarrow> (Err MailBuild, s)
     | Some message \<Rightarrow> sbind (send_raw L message s) (\<lambda>u s. (Ok u, s)) MailTransport))"

section \<open>The inbox\<close>

definition ID_BYTES :: nat where
  "ID_BYTES = 16"

definition STORE_ATTEMPTS :: nat where
  "STORE_ATTEMPTS = 8"

definition notification_from_hex :: "string \<Rightarrow> bytes option" where
  "notification_from_hex t = hex_decode ID_BYTES t"

definition notification_to_hex :: "bytes \<Rightarrow> string" where
  "notification_to_hex i = hex_encode i"

record note_row =
  note_key :: string
  note_kind :: string
  note_data :: json
  note_read_at :: "int option"
  note_created :: int

record StoredNotification =
  stored_id :: bytes
  stored_key :: string
  stored_kind :: string
  stored_data :: json
  stored_read_at :: "int option"
  stored_created_at :: int

datatype 'e NotificationError =
    NotConfigured Channel
  | NoAddress string
  | NMail "'e MailSendError"
  | NDatabase
  | NDecode string
  | NTimestamp string
  | IdCollision nat
  | NEntropy
  | NEncode
  | NQueue EnqueueError
  | QueueNotConfigured

type_synonym inbox = "(bytes, note_row) table"

text \<open>\<open>store\<close>: draw an identifier, insert, draw again while it is taken.  \<open>db\<close> says whether statements succeed.\<close>

definition note_store :: "(nat \<Rightarrow> bytes option) \<Rightarrow> bool \<Rightarrow> int \<Rightarrow> string \<Rightarrow> DataContent \<Rightarrow> inbox \<Rightarrow>
    ('e NotificationError, StoredNotification) result \<times> inbox" where
  "note_store draw db now key content t = (
     let row = \<lparr>note_key = key, note_kind = content_kind content, note_data = content_data content, note_read_at = None,
                note_created = stored_time now\<rparr>
     in if \<not> db then (Err (if draw 0 = None then NEntropy else NDatabase), t)
        else (case insert_fresh STORE_ATTEMPTS 0 draw row t of
            (Ok i, t') \<Rightarrow> (Ok \<lparr>stored_id = i, stored_key = key, stored_kind = content_kind content, stored_data = content_data content,
                             stored_read_at = None, stored_created_at = now\<rparr>, t')
          | (Err NoEntropy, t') \<Rightarrow> (Err NEntropy, t')
          | (Err Exhausted, t') \<Rightarrow> (Err (IdCollision STORE_ATTEMPTS), t')))"

definition note_order :: "bytes \<times> note_row \<Rightarrow> int \<times> bytes" where
  "note_order = (\<lambda>(i, row). (- note_created row, i))"

definition LIST :: "string \<Rightarrow> int \<Rightarrow> inbox \<Rightarrow> (bytes \<times> note_row) list" where
  "LIST key n t = sql_limit n (sort_key note_order (filter (\<lambda>(_, row). note_key row = key) t))"

definition LIST_UNREAD :: "string \<Rightarrow> int \<Rightarrow> inbox \<Rightarrow> (bytes \<times> note_row) list" where
  "LIST_UNREAD key n t = sql_limit n (sort_key note_order (filter (\<lambda>(_, row). note_key row = key \<and> note_read_at row = None) t))"

definition restored_time :: "chrono \<Rightarrow> int \<Rightarrow> ('e NotificationError, int) result" where
  "restored_time chrono stored = ok_or (from_timestamp_millis chrono stored) (NTimestamp (show_nat (nat stored)))"

definition decode_row :: "chrono \<Rightarrow> string \<Rightarrow> bytes \<times> note_row \<Rightarrow> ('e NotificationError, StoredNotification) result" where
  "decode_row chrono key = (\<lambda>(i, row).
     if length i \<noteq> ID_BYTES then Err (NDecode (''a notification id column held '' @ show_nat (length i) @ '' bytes, not '' @ show_nat ID_BYTES))
     else rbind (case note_read_at row of None \<Rightarrow> Ok None | Some ts \<Rightarrow> rbind (restored_time chrono ts) (\<lambda>x. Ok (Some x))) (\<lambda>read_at.
          rbind (restored_time chrono (note_created row)) (\<lambda>created.
          Ok \<lparr>stored_id = i, stored_key = key, stored_kind = note_kind row, stored_data = note_data row,
              stored_read_at = read_at, stored_created_at = created\<rparr>)))"

fun collect :: "('e, 'a) result list \<Rightarrow> ('e, 'a list) result" where
  "collect [] = Ok []"
| "collect (r # rs) = rbind r (\<lambda>x. rbind (collect rs) (\<lambda>xs. Ok (x # xs)))"

definition note_inbox :: "chrono \<Rightarrow> string \<Rightarrow> nat \<Rightarrow> inbox \<Rightarrow> ('e NotificationError, StoredNotification list) result" where
  "note_inbox chrono key n t = collect (map (decode_row chrono key) (LIST key (int n) t))"

definition note_unread :: "chrono \<Rightarrow> string \<Rightarrow> nat \<Rightarrow> inbox \<Rightarrow> ('e NotificationError, StoredNotification list) result" where
  "note_unread chrono key n t = collect (map (decode_row chrono key) (LIST_UNREAD key (int n) t))"

definition unread_count :: "string \<Rightarrow> inbox \<Rightarrow> nat" where
  "unread_count key t = tbl_count (\<lambda>_ row. note_key row = key \<and> note_read_at row = None) t"

definition mark_read :: "int \<Rightarrow> string \<Rightarrow> bytes \<Rightarrow> inbox \<Rightarrow> bool \<times> inbox" where
  "mark_read now key i t = (
     let P = (\<lambda>j row. note_key row = key \<and> j = i \<and> note_read_at row = None)
     in (tbl_count P t > 0, tbl_modify P (\<lambda>row. row\<lparr>note_read_at := Some (stored_time now)\<rparr>) t))"

definition mark_all_read :: "int \<Rightarrow> string \<Rightarrow> inbox \<Rightarrow> nat \<times> inbox" where
  "mark_all_read now key t = (
     let P = (\<lambda>j row. note_key row = key \<and> note_read_at row = None)
     in (tbl_count P t, tbl_modify P (\<lambda>row. row\<lparr>note_read_at := Some (stored_time now)\<rparr>) t))"

definition note_delete :: "string \<Rightarrow> bytes \<Rightarrow> inbox \<Rightarrow> bool \<times> inbox" where
  "note_delete key i t = (
     let P = (\<lambda>j row. note_key row = key \<and> j = i) in (tbl_count P t > 0, tbl_retain (\<lambda>j row. \<not> P j row) t))"

definition delete_all_for :: "string \<Rightarrow> inbox \<Rightarrow> nat \<times> inbox" where
  "delete_all_for key t = (tbl_count (\<lambda>_ row. note_key row = key) t, tbl_retain (\<lambda>_ row. note_key row \<noteq> key) t)"

definition prune_read_before :: "int \<Rightarrow> inbox \<Rightarrow> nat \<times> inbox" where
  "prune_read_before cutoff t = (
     let P = (\<lambda>_ row. case note_read_at row of Some ts \<Rightarrow> ts < stored_time cutoff | None \<Rightarrow> False)
     in (tbl_count P t, tbl_retain (\<lambda>j row. \<not> P j row) t))"

section \<open>Live channels\<close>

text \<open>A channel is its subscribers with what each has received, newest last.\<close>

type_synonym broadcast = "(nat \<times> bytes list) list"

record PerRecipientChannels =
  capacity :: nat
  channels :: "(string, broadcast) table"

definition channels_new :: "nat \<Rightarrow> PerRecipientChannels option" where
  "channels_new n = (if n = 0 then None else Some \<lparr>capacity = n, channels = tbl_empty\<rparr>)"

definition subscriber_count :: "broadcast \<Rightarrow> nat" where
  "subscriber_count b = length b"

definition channels_subscribe :: "nat \<Rightarrow> string \<Rightarrow> PerRecipientChannels \<Rightarrow> PerRecipientChannels" where
  "channels_subscribe who key c = (
     let kept = tbl_retain (\<lambda>k b. subscriber_count b > 0 \<or> k = key) (channels c);
         channel = (case tbl_get kept key of Some b \<Rightarrow> b | None \<Rightarrow> [])
     in c\<lparr>channels := tbl_put key (channel @ [(who, [])]) kept\<rparr>)"

text \<open>Dropping a subscription.\<close>

definition channels_leave :: "nat \<Rightarrow> PerRecipientChannels \<Rightarrow> PerRecipientChannels" where
  "channels_leave who c = c\<lparr>channels := tbl_modify (\<lambda>_ _. True) (filter (\<lambda>(w, _). w \<noteq> who)) (channels c)\<rparr>"

definition connections :: "string \<Rightarrow> PerRecipientChannels \<Rightarrow> nat" where
  "connections key c = (case tbl_get (channels c) key of Some b \<Rightarrow> subscriber_count b | None \<Rightarrow> 0)"

definition envelope :: "DataContent \<Rightarrow> json" where
  "envelope content = JObject (bt_insert ''data'' (content_data content) (bt_insert ''kind'' (JString (content_kind content)) []))"

definition broadcast_push :: "(json \<Rightarrow> bytes option) \<Rightarrow> string \<Rightarrow> DataContent \<Rightarrow> PerRecipientChannels \<Rightarrow>
    ('e NotificationError, nat) result \<times> PerRecipientChannels" where
  "broadcast_push to_vec key content c = (case tbl_get (channels c) key of
     None \<Rightarrow> (Ok 0, c)
   | Some b \<Rightarrow> (case to_vec (envelope content) of
       None \<Rightarrow> (Err NEncode, c)
     | Some bytes \<Rightarrow> (Ok (subscriber_count b),
         c\<lparr>channels := tbl_put key (map (\<lambda>(w, got). (w, got @ [bytes])) b) (channels c)\<rparr>)))"

section \<open>Queued mail\<close>

record QueuedMail =
  queued_to :: string
  queued_subject :: string
  queued_text :: string
  queued_html :: "string option"

definition queued_mail_new :: "string \<Rightarrow> MailContent \<Rightarrow> QueuedMail" where
  "queued_mail_new to content =
     \<lparr>queued_to = to, queued_subject = mail_subject content, queued_text = mail_text content, queued_html = mail_html content\<rparr>"

definition queued_content :: "QueuedMail \<Rightarrow> MailContent" where
  "queued_content m = (let content = mail_content_new (queued_subject m) (queued_text m)
     in case queued_html m of Some html \<Rightarrow> mail_content_html content html | None \<Rightarrow> content)"

definition MAIL_JOB :: JobModel where
  "MAIL_JOB = job_model_new ''arcature.notifications.mail'' 1 3"

definition queued_request :: "(QueuedMail \<Rightarrow> 'v option) \<Rightarrow> ('v \<Rightarrow> nat option) \<Rightarrow> QueuedMail \<Rightarrow> ('e NotificationError, 'v JobRequest) result" where
  "queued_request to_value encoded_len m = map_err NQueue (job_request_new to_value encoded_len MAIL_JOB m)"

text \<open>The identifier the queue draws and its clocks.\<close>

record queue_env =
  queue_id :: uuid
  queue_utc_now :: int
  queue_db_now :: int

definition queue_enqueue :: "(QueuedMail \<Rightarrow> 'v option) \<Rightarrow> ('v \<Rightarrow> nat option) \<Rightarrow> queue_env \<Rightarrow> QueuedMail \<Rightarrow> 'v jobs \<Rightarrow>
    ('e NotificationError, EnqueuedJob \<times> 'v jobs) result" where
  "queue_enqueue to_value encoded_len env m t =
     rbind (queued_request to_value encoded_len m) (\<lambda>request.
       map_err NQueue (insert_job (queue_id env) (queue_utc_now env) (queue_db_now env) request t))"

definition mail_deliver :: "('a, 'm, 's, 'e) lettre \<Rightarrow> 'a \<Rightarrow> ('e MailSendError \<Rightarrow> string) \<Rightarrow> QueuedMail \<Rightarrow> 's \<Rightarrow> (JobError, unit) result \<times> 's" where
  "mail_deliver L sender show_error job s = (case mail_send L sender (queued_to job) (queued_content job) s of
     (Ok u, s) \<Rightarrow> (Ok (), s)
   | (Err MailBuild, s) \<Rightarrow> (Err (Permanent (show_error MailBuild)), s)
   | (Err e, s) \<Rightarrow> (Err (Retryable (show_error e)), s))"

section \<open>The notifier\<close>

record 'a Notifier =
  notifier_mail :: "'a option"
  notifier_database :: bool
  notifier_broadcast :: bool
  notifier_queue :: bool

definition notifier_new :: "'a Notifier" where
  "notifier_new = \<lparr>notifier_mail = None, notifier_database = False, notifier_broadcast = False, notifier_queue = False\<rparr>"

record Delivery =
  delivered :: "Channel list"
  queued :: "Channel list"

text \<open>Everything a delivery can touch: the inbox table, the live channels, the mail transport and the job table.\<close>

record ('s, 'v) outlets =
  out_inbox :: inbox
  out_live :: PerRecipientChannels
  out_mail :: 's
  out_jobs :: "'v jobs"

record ('a, 'm, 's, 'e, 'v) delivery_env =
  env_lettre :: "('a, 'm, 's, 'e) lettre"
  env_draw :: "nat \<Rightarrow> bytes option"
  env_db :: bool
  env_now :: int
  env_to_vec :: "json \<Rightarrow> bytes option"
  env_to_value :: "QueuedMail \<Rightarrow> 'v option"
  env_encoded_len :: "'v \<Rightarrow> nat option"
  env_queue :: queue_env

definition deliver_database :: "('a, 'm, 's, 'e, 'v) delivery_env \<Rightarrow> 'a Notifier \<Rightarrow> string \<Rightarrow> DataContent \<Rightarrow> ('s, 'v) outlets \<Rightarrow>
    ('e NotificationError, unit) result \<times> ('s, 'v) outlets" where
  "deliver_database env n key content o' = (
     if \<not> notifier_database n then (Err (NotConfigured ChDatabase), o')
     else (case note_store (env_draw env) (env_db env) (env_now env) key content (out_inbox o') of
         (r, t) \<Rightarrow> (rbind r (\<lambda>_. Ok ()), o'\<lparr>out_inbox := t\<rparr>)))"

definition deliver_broadcast :: "('a, 'm, 's, 'e, 'v) delivery_env \<Rightarrow> 'a Notifier \<Rightarrow> string \<Rightarrow> DataContent \<Rightarrow> ('s, 'v) outlets \<Rightarrow>
    ('e NotificationError, nat) result \<times> ('s, 'v) outlets" where
  "deliver_broadcast env n key content o' = (
     if \<not> notifier_broadcast n then (Err (NotConfigured ChBroadcast), o')
     else (case broadcast_push (env_to_vec env) key content (out_live o') of (r, c) \<Rightarrow> (r, o'\<lparr>out_live := c\<rparr>)))"

text \<open>The two local channels, which \<open>send\<close> and \<open>queue\<close> deliver alike.\<close>

definition deliver_local :: "('a, 'm, 's, 'e, 'v) delivery_env \<Rightarrow> 'a Notifier \<Rightarrow> Recipient \<Rightarrow> Notification \<Rightarrow> ('s, 'v) outlets \<Rightarrow>
    ('e NotificationError, Channel list) result \<times> ('s, 'v) outlets" where
  "deliver_local env n r note o' =
     sbind (case to_database note r of
         Some c \<Rightarrow> sbind (deliver_database env n (recipient_key r) c o') (\<lambda>_ o'. (Ok [ChDatabase], o')) (\<lambda>e. e)
       | None \<Rightarrow> (Ok [], o')) (\<lambda>done o'.
     case to_broadcast note r of
       Some c \<Rightarrow> sbind (deliver_broadcast env n (recipient_key r) c o') (\<lambda>k o'. (Ok (if k > 0 then done @ [ChBroadcast] else done), o')) (\<lambda>e. e)
     | None \<Rightarrow> (Ok done, o')) (\<lambda>e. e)"

definition notifier_send :: "('a, 'm, 's, 'e, 'v) delivery_env \<Rightarrow> 'a Notifier \<Rightarrow> Recipient \<Rightarrow> Notification \<Rightarrow> ('s, 'v) outlets \<Rightarrow>
    ('e NotificationError, Delivery) result \<times> ('s, 'v) outlets" where
  "notifier_send env n r note o' = sbind (deliver_local env n r note o') (\<lambda>done o'.
     case to_mail note r of
       None \<Rightarrow> (Ok \<lparr>delivered = done, queued = []\<rparr>, o')
     | Some content \<Rightarrow> (case notifier_mail n of
         None \<Rightarrow> (Err (NotConfigured ChMail), o')
       | Some sender \<Rightarrow> (case recipient_email r of
           None \<Rightarrow> (Err (NoAddress (recipient_key r)), o')
         | Some address \<Rightarrow> (case mail_send (env_lettre env) sender address content (out_mail o') of
             (Err e, s) \<Rightarrow> (Err (NMail e), o'\<lparr>out_mail := s\<rparr>)
           | (Ok _, s) \<Rightarrow> (Ok \<lparr>delivered = done @ [ChMail], queued = []\<rparr>, o'\<lparr>out_mail := s\<rparr>))))) (\<lambda>e. e)"

definition notifier_enqueue :: "('a, 'm, 's, 'e, 'v) delivery_env \<Rightarrow> 'a Notifier \<Rightarrow> Recipient \<Rightarrow> Notification \<Rightarrow> ('s, 'v) outlets \<Rightarrow>
    ('e NotificationError, Delivery) result \<times> ('s, 'v) outlets" where
  "notifier_enqueue env n r note o' = sbind (deliver_local env n r note o') (\<lambda>done o'.
     case to_mail note r of
       None \<Rightarrow> (Ok \<lparr>delivered = done, queued = []\<rparr>, o')
     | Some content \<Rightarrow> (if \<not> notifier_queue n then (Err QueueNotConfigured, o')
         else (case recipient_email r of
           None \<Rightarrow> (Err (NoAddress (recipient_key r)), o')
         | Some address \<Rightarrow> (case queue_enqueue (env_to_value env) (env_encoded_len env) (env_queue env) (queued_mail_new address content) (out_jobs o') of
             Err e \<Rightarrow> (Err e, o')
           | Ok (_, t) \<Rightarrow> (Ok \<lparr>delivered = done, queued = [ChMail]\<rparr>, o'\<lparr>out_jobs := t\<rparr>))))) (\<lambda>e. e)"

section \<open>Inboxes are private\<close>

datatype inbox_op =
    IoStore "nat \<Rightarrow> bytes option" bool int DataContent
  | IoMark int bytes
  | IoMarkAll int
  | IoDelete bytes
  | IoDeleteAll

fun inbox_do :: "string \<Rightarrow> inbox \<Rightarrow> inbox_op \<Rightarrow> inbox" where
  "inbox_do key t (IoStore draw db now content) = snd (note_store draw db now key content t :: (unit NotificationError, StoredNotification) result \<times> inbox)"
| "inbox_do key t (IoMark now i) = snd (mark_read now key i t)"
| "inbox_do key t (IoMarkAll now) = snd (mark_all_read now key t)"
| "inbox_do key t (IoDelete i) = snd (note_delete key i t)"
| "inbox_do key t IoDeleteAll = snd (delete_all_for key t)"

lemma put_fresh: "tbl_get t k = None \<Longrightarrow> tbl_put k v t = t @ [(k, v)]"
  unfolding tbl_get_def tbl_put_def by (induction t) (auto split: if_splits)

lemma note_store_table:
  assumes "note_store draw db now key content t = (r, t')"
  shows "t' = t \<and> (\<forall>x. r \<noteq> Ok x) \<or> (\<exists>i. tbl_get t i = None \<and> t' = t @ [(i, \<lparr>note_key = key, note_kind = content_kind content,
    note_data = content_data content, note_read_at = None, note_created = stored_time now\<rparr>)] \<and>
    r = Ok \<lparr>stored_id = i, stored_key = key, stored_kind = content_kind content, stored_data = content_data content,
      stored_read_at = None, stored_created_at = now\<rparr>)"
  using assms
  by (auto simp: note_store_def Let_def put_fresh dest!: insert_fresh_Err insert_fresh_Ok split: if_splits prod.splits sum.splits insert_error.splits)

definition rows_of :: "string \<Rightarrow> inbox \<Rightarrow> inbox" where
  "rows_of key t = filter (\<lambda>(_, row). note_key row = key) t"

lemma rows_of_modify:
  assumes "\<And>i row. P i row \<Longrightarrow> note_key row \<noteq> key'" and "\<And>row. note_key (f row) = note_key row"
  shows "rows_of key' (tbl_modify P f t) = rows_of key' t"
proof (induction t)
  case (Cons x t)
  obtain i row where "x = (i, row)" by (cases x)
  then show ?case
    using Cons assms(1) [of i row] assms(2) [of row] by (cases "P i row") (simp_all add: rows_of_def tbl_modify_def)
qed (simp add: rows_of_def tbl_modify_def)

lemma rows_of_retain:
  assumes "\<And>i row. \<not> P i row \<Longrightarrow> note_key row \<noteq> key'"
  shows "rows_of key' (tbl_retain P t) = rows_of key' t"
proof (induction t)
  case (Cons x t)
  obtain i row where "x = (i, row)" by (cases x)
  then show ?case
    using Cons assms [of i row] by (cases "P i row") (simp_all add: rows_of_def tbl_retain_def)
qed (simp add: rows_of_def tbl_retain_def)

lemma inbox_do_other: "key' \<noteq> key \<Longrightarrow> rows_of key' (inbox_do key t op) = rows_of key' t"
proof (cases op)
  case (IoStore draw db now content)
  assume "key' \<noteq> key"
  then show ?thesis
    using note_store_table [of draw db now key content t "fst (note_store draw db now key content t :: (unit NotificationError, StoredNotification) result \<times> inbox)"]
    by (cases "note_store draw db now key content t :: (unit NotificationError, StoredNotification) result \<times> inbox")
      (auto simp: IoStore rows_of_def)
qed (auto simp: mark_read_def mark_all_read_def note_delete_def delete_all_for_def Let_def intro!: rows_of_modify rows_of_retain)

lemma inbox_run_other: "key' \<noteq> key \<Longrightarrow> rows_of key' (foldl (inbox_do key) t ops) = rows_of key' t"
  by (induction ops arbitrary: t) (simp_all add: inbox_do_other)

lemma unread_rows: "unread_count key t = length (filter (\<lambda>(_, row). note_read_at row = None) (rows_of key t))"
  by (simp add: unread_count_def tbl_count_def rows_of_def filter_filter case_prod_unfold conj_commute)

lemma list_unread_rows: "LIST_UNREAD key n t = sql_limit n (sort_key note_order (filter (\<lambda>(_, row). note_read_at row = None) (rows_of key t)))"
  by (simp add: LIST_UNREAD_def rows_of_def filter_filter case_prod_unfold conj_commute)

text \<open>
  Inboxes are private: whatever is stored, marked read or deleted for one recipient, in any order and
  however it ends, every other recipient's inbox, unread list and unread count stay as they were.
\<close>
theorem inbox_is_private:
  assumes "key' \<noteq> key"
  shows "note_inbox chrono key' n (foldl (inbox_do key) t ops) = (note_inbox chrono key' n t :: ('e NotificationError, _) result) \<and>
    note_unread chrono key' n (foldl (inbox_do key) t ops) = (note_unread chrono key' n t :: ('e NotificationError, _) result) \<and>
    unread_count key' (foldl (inbox_do key) t ops) = unread_count key' t"
  using inbox_run_other [OF assms, of t ops]
  by (simp add: note_inbox_def note_unread_def LIST_def list_unread_rows unread_rows rows_of_def [symmetric])

theorem inbox_is_private_witness:
  "unread_count ''u2'' (foldl (inbox_do ''u1'') [] [IoStore (\<lambda>_. Some (replicate 16 0)) True 0 \<lparr>content_kind = ''k'', content_data = JNull\<rparr>]) = 0"
  using inbox_is_private [of "''u2''" "''u1''" "\<lparr>delta_max = 0, utc_min = 0, utc_max = 0\<rparr>" 1 "[]"
      "[IoStore (\<lambda>_. Some (replicate 16 0)) True 0 \<lparr>content_kind = ''k'', content_data = JNull\<rparr>]"]
  by (auto simp: unread_count_def tbl_count_def simp del: inbox_do.simps)

text \<open>
  A stored notification counts as unread once and is marked read once, by its own recipient only: the
  first call says it changed something, every later one says it did not, and the count is what it was.
\<close>
theorem stored_is_read_once:
  assumes "tbl_wf t" and "note_store draw db now key content t = (Ok s, t')"
  shows "stored_key s = key \<and> unread_count key t' = Suc (unread_count key t) \<and>
    (\<forall>later. fst (mark_read later key (stored_id s) t') \<and>
       unread_count key (snd (mark_read later key (stored_id s) t')) = unread_count key t \<and>
       (\<forall>again. \<not> fst (mark_read again key (stored_id s) (snd (mark_read later key (stored_id s) t')))) \<and>
       (\<forall>key'. key' \<noteq> key \<longrightarrow> \<not> fst (mark_read later key' (stored_id s) t')))"
proof -
  obtain i where i: "tbl_get t i = None" and s: "stored_id s = i" "stored_key s = key"
    and t': "t' = t @ [(i, \<lparr>note_key = key, note_kind = content_kind content, note_data = content_data content,
      note_read_at = None, note_created = stored_time now\<rparr>)]"
    using note_store_table [OF assms(2)] by auto
  have fresh: "\<And>row. (i, row) \<notin> set t"
    using i by (metis map_of_eq_None_iff fst_conv image_eqI tbl_get_def)
  have none: "filter (\<lambda>(j, row). note_key row = k \<and> j = i \<and> P row) t = []" for k P
    using fresh by (auto simp: filter_empty_conv)
  have same: "map (\<lambda>(j, row). (j, if note_key row = k \<and> j = i \<and> note_read_at row = None then f row else row)) t = t" for k f
    using fresh by (intro map_idI) auto
  show ?thesis
    by (simp add: t' s mark_read_def Let_def unread_count_def tbl_count_def tbl_modify_def none same)
qed

theorem stored_is_read_once_witness:
  "\<exists>s t'. (note_store (\<lambda>_. Some (replicate 16 7)) True 5000000 ''u'' \<lparr>content_kind = ''k'', content_data = JNull\<rparr> [] ::
     (unit NotificationError, _) result \<times> _) = (Ok s, t') \<and> unread_count ''u'' t' = 1"
proof -
  obtain s t' where n: "(note_store (\<lambda>_. Some (replicate 16 7)) True 5000000 ''u'' \<lparr>content_kind = ''k'', content_data = JNull\<rparr> [] ::
     (unit NotificationError, _) result \<times> _) = (Ok s, t')"
    by (simp add: note_store_def Let_def insert_fresh_first tbl_get_def STORE_ATTEMPTS_def)
  then show ?thesis
    using stored_is_read_once [OF _ n] by (auto simp: tbl_wf_def unread_count_def tbl_count_def)
qed

section \<open>Delivery\<close>

text \<open>
  What it means that a notification went out on a channel, over the state of the outlet before and after: a new
  unread row in the recipient's inbox, the envelope with every connection of the recipient, and a
  message, built for the recipient's address, that the transport has accepted.
\<close>

definition went_to_inbox :: "('a, 'm, 's, 'e, 'v) delivery_env \<Rightarrow> Recipient \<Rightarrow> DataContent \<Rightarrow> inbox \<Rightarrow> inbox \<Rightarrow> bool" where
  "went_to_inbox env r c t t' \<longleftrightarrow> (\<exists>i. tbl_get t i = None \<and> t' = t @ [(i, \<lparr>note_key = recipient_key r, note_kind = content_kind c,
     note_data = content_data c, note_read_at = None, note_created = stored_time (env_now env)\<rparr>)])"

definition went_live :: "('a, 'm, 's, 'e, 'v) delivery_env \<Rightarrow> Recipient \<Rightarrow> DataContent \<Rightarrow> PerRecipientChannels \<Rightarrow> PerRecipientChannels \<Rightarrow> bool" where
  "went_live env r c live live' \<longleftrightarrow> 0 < connections (recipient_key r) live \<and>
     (\<exists>b bytes. tbl_get (channels live) (recipient_key r) = Some b \<and> env_to_vec env (envelope c) = Some bytes \<and>
        live' = live\<lparr>channels := tbl_put (recipient_key r) (map (\<lambda>(w, got). (w, got @ [bytes])) b) (channels live)\<rparr>)"

definition mail_handed :: "('a, 'm, 's, 'e, 'v) delivery_env \<Rightarrow> 'a Notifier \<Rightarrow> Recipient \<Rightarrow> MailContent \<Rightarrow> 's \<Rightarrow> ('e, unit) result \<times> 's \<Rightarrow> bool" where
  "mail_handed env n r c s reply \<longleftrightarrow> (\<exists>sender address to message. notifier_mail n = Some sender \<and> recipient_email r = Some address \<and>
     parse_address (env_lettre env) address = Some to \<and>
     as_mailable_build (env_lettre env) c (email_builder\<lparr>email_from := Some sender, email_to := [to]\<rparr>) = Some message \<and>
     send_raw (env_lettre env) message s = reply)"

definition went_by_mail :: "('a, 'm, 's, 'e, 'v) delivery_env \<Rightarrow> 'a Notifier \<Rightarrow> Recipient \<Rightarrow> MailContent \<Rightarrow> 's \<Rightarrow> 's \<Rightarrow> bool" where
  "went_by_mail env n r c s s' \<longleftrightarrow> mail_handed env n r c s (Ok (), s')"

lemma store_went:
  "note_store (env_draw env) (env_db env) (env_now env) (recipient_key r) c t = (Ok s, t') \<Longrightarrow> went_to_inbox env r c t t'"
  using note_store_table [of "env_draw env" "env_db env" "env_now env" "recipient_key r" c t "Ok s" t']
  by (auto simp: went_to_inbox_def)

lemma push_went:
  "broadcast_push (env_to_vec env) (recipient_key r) c live = (Ok k, live') \<Longrightarrow>
   k = connections (recipient_key r) live \<and> (0 < k \<longrightarrow> went_live env r c live live')"
  by (auto simp: broadcast_push_def went_live_def connections_def split: option.splits)

lemma mail_went:
  "mail_send (env_lettre env) sender address c s = (res, s') \<Longrightarrow> notifier_mail n = Some sender \<Longrightarrow> recipient_email r = Some address \<Longrightarrow>
   (case res of Ok _ \<Rightarrow> went_by_mail env n r c s s' | Err (MailTransport e) \<Rightarrow> mail_handed env n r c s (Err e, s') | Err MailBuild \<Rightarrow> s' = s)"
  by (auto simp: mail_send_def went_by_mail_def mail_handed_def sbind_def split: option.splits prod.splits sum.splits MailSendError.splits)

text \<open>The state of the two local outlets after they were delivered to, and what the notifier lists as done.\<close>

definition local_outcome :: "('a, 'm, 's, 'e, 'v) delivery_env \<Rightarrow> Recipient \<Rightarrow> Notification \<Rightarrow> Channel list \<Rightarrow> ('s, 'v) outlets \<Rightarrow> ('s, 'v) outlets \<Rightarrow> bool" where
  "local_outcome env r note chs out out' \<longleftrightarrow>
     (case to_database note r of
        Some c \<Rightarrow> ChDatabase \<in> set chs \<and> went_to_inbox env r c (out_inbox out) (out_inbox out')
      | None \<Rightarrow> ChDatabase \<notin> set chs \<and> out_inbox out' = out_inbox out) \<and>
     (case to_broadcast note r of
        Some c \<Rightarrow> if 0 < connections (recipient_key r) (out_live out)
                  then ChBroadcast \<in> set chs \<and> went_live env r c (out_live out) (out_live out') else ChBroadcast \<notin> set chs
      | None \<Rightarrow> ChBroadcast \<notin> set chs \<and> out_live out' = out_live out)"

lemma deliver_local_kept:
  assumes "deliver_local env n r note out = (res, out')"
  shows "out_mail out' = out_mail out" and "out_jobs out' = out_jobs out"
  using assms
  by (auto simp: deliver_local_def deliver_database_def deliver_broadcast_def sbind_def split: option.splits prod.splits sum.splits if_splits)

lemma deliver_local_failed:
  assumes "deliver_local env n r note out = (Err e, out')"
  shows "(\<exists>k. e = NotConfigured k \<and> k \<noteq> ChMail) \<or> e \<in> {NDatabase, NEntropy, NEncode, IdCollision STORE_ATTEMPTS}"
  using assms
  by (auto simp: deliver_local_def deliver_database_def deliver_broadcast_def broadcast_push_def note_store_def Let_def sbind_def rbind_def
      split: option.splits prod.splits sum.splits if_splits insert_error.splits)

lemma deliver_database_done:
  "deliver_database env n (recipient_key r) c out = (Ok u, out') \<Longrightarrow>
   went_to_inbox env r c (out_inbox out) (out_inbox out') \<and> out_live out' = out_live out"
  by (auto simp: deliver_database_def rbind_eq_Ok_iff split: if_splits prod.splits dest: store_went)

lemma deliver_broadcast_done:
  assumes "deliver_broadcast env n (recipient_key r) c out = (Ok k, out')"
  shows "k = connections (recipient_key r) (out_live out) \<and> (0 < k \<longrightarrow> went_live env r c (out_live out) (out_live out')) \<and>
    out_inbox out' = out_inbox out"
  using assms push_went [of env r c "out_live out" k]
  by (auto simp: deliver_broadcast_def split: if_splits prod.splits)

lemma deliver_local_done:
  assumes "deliver_local env n r note out = (Ok chs, out')"
  shows "local_outcome env r note chs out out' \<and> ChMail \<notin> set chs"
proof -
  obtain chs1 o1 where first: "(case to_database note r of
         Some c \<Rightarrow> sbind (deliver_database env n (recipient_key r) c out) (\<lambda>_ o'. (Ok [ChDatabase], o')) (\<lambda>e. e)
       | None \<Rightarrow> (Ok [], out)) = (Ok chs1, o1)"
    and second: "(case to_broadcast note r of
       Some c \<Rightarrow> sbind (deliver_broadcast env n (recipient_key r) c o1)
         (\<lambda>k o'. (Ok (if k > 0 then chs1 @ [ChBroadcast] else chs1), o')) (\<lambda>e. e)
     | None \<Rightarrow> (Ok chs1, o1)) = (Ok chs, out')"
    using assms unfolding deliver_local_def sbind_eq_Ok_iff by blast
  have one: "chs1 = (if to_database note r = None then [] else [ChDatabase]) \<and> out_live o1 = out_live out \<and>
      (case to_database note r of Some c \<Rightarrow> went_to_inbox env r c (out_inbox out) (out_inbox o1) | None \<Rightarrow> out_inbox o1 = out_inbox out)"
    using first deliver_database_done [of env n r _ out] by (auto simp: sbind_eq_Ok_iff split: option.splits)
  show ?thesis
  proof (cases "to_broadcast note r")
    case None
    then show ?thesis
      using second one by (auto simp: local_outcome_def split: option.splits)
  next
    case (Some c)
    then obtain k where k: "deliver_broadcast env n (recipient_key r) c o1 = (Ok k, out')"
      "chs = (if k > 0 then chs1 @ [ChBroadcast] else chs1)"
      using second by (auto simp: sbind_eq_Ok_iff split: if_splits)
    show ?thesis
      using deliver_broadcast_done [OF k(1)] k(2) one Some
      by (auto simp: local_outcome_def split: option.splits if_splits)
  qed
qed

text \<open>What a call of \<open>send\<close> may have left behind, by its outcome.\<close>

definition send_outcome :: "('a, 'm, 's, 'e, 'v) delivery_env \<Rightarrow> 'a Notifier \<Rightarrow> Recipient \<Rightarrow> Notification \<Rightarrow>
    ('e NotificationError, Delivery) result \<Rightarrow> ('s, 'v) outlets \<Rightarrow> ('s, 'v) outlets \<Rightarrow> bool" where
  "send_outcome env n r note res out out' \<longleftrightarrow> out_jobs out' = out_jobs out \<and>
     (case res of
        Ok d \<Rightarrow> queued d = [] \<and> local_outcome env r note (delivered d) out out' \<and>
          (case to_mail note r of
             Some c \<Rightarrow> ChMail \<in> set (delivered d) \<and> went_by_mail env n r c (out_mail out) (out_mail out')
           | None \<Rightarrow> ChMail \<notin> set (delivered d) \<and> out_mail out' = out_mail out)
      | Err e \<Rightarrow>
          (case e of
             NMail (MailTransport x) \<Rightarrow> (\<exists>c. to_mail note r = Some c \<and> mail_handed env n r c (out_mail out) (Err x, out_mail out'))
           | _ \<Rightarrow> out_mail out' = out_mail out) \<and>
          ((\<exists>x. e = NMail x) \<or> e = NotConfigured ChMail \<or> (\<exists>k. e = NoAddress k) \<longrightarrow>
             to_mail note r \<noteq> None \<and> (\<exists>chs. local_outcome env r note chs out out')))"

text \<open>
  C30.  The record of a delivery is true.  A notification that was sent names exactly the channels it went out on: the
  inbox when its row is there, the live push when a connection of the recipient was there and has got it, the mail
  when the transport has accepted a message for the recipient's address.  When the mail cannot go out, for whatever
  reason, the local channels have been delivered to, and a transport's refusal is what is reported; when a
  local channel fails, no mail has been handed over.
\<close>
theorem delivery_is_recorded:
  assumes "notifier_send env n r note out = (res, out')"
  shows "send_outcome env n r note res out out'"
proof -
  obtain x o1 where loc: "deliver_local env n r note out = (x, o1)"
    by fastforce
  note kept = deliver_local_kept [OF loc]
  show ?thesis
  proof (cases x)
    case (Inl e)
    then have "res = Err e" "out' = o1"
      using assms loc by (simp_all add: notifier_send_def)
    then show ?thesis
      using kept deliver_local_failed [OF loc [unfolded Inl]]
      by (auto simp: send_outcome_def split: NotificationError.splits)
  next
    case (Inr chs)
    have send: "notifier_send env n r note out = (case to_mail note r of
       None \<Rightarrow> (Ok \<lparr>delivered = chs, queued = []\<rparr>, o1)
     | Some content \<Rightarrow> (case notifier_mail n of
         None \<Rightarrow> (Err (NotConfigured ChMail), o1)
       | Some sender \<Rightarrow> (case recipient_email r of
           None \<Rightarrow> (Err (NoAddress (recipient_key r)), o1)
         | Some address \<Rightarrow> (case mail_send (env_lettre env) sender address content (out_mail o1) of
             (Err e, s) \<Rightarrow> (Err (NMail e), o1\<lparr>out_mail := s\<rparr>)
           | (Ok _, s) \<Rightarrow> (Ok \<lparr>delivered = chs @ [ChMail], queued = []\<rparr>, o1\<lparr>out_mail := s\<rparr>)))))"
      by (simp add: notifier_send_def loc Inr)
    have more: "local_outcome env r note (chs @ [ChMail]) out (o1\<lparr>out_mail := s\<rparr>)" "local_outcome env r note chs out (o1\<lparr>out_mail := s\<rparr>)" for s
      using deliver_local_done [OF loc [unfolded Inr]] by (simp_all add: local_outcome_def split: option.splits)
    show ?thesis
      using assms unfolding send
      using deliver_local_done [OF loc [unfolded Inr]] kept more mail_went [where env = env and n = n and r = r and s = "out_mail out"]
      by (fastforce simp: send_outcome_def split: option.splits prod.splits sum.splits MailSendError.splits)
  qed
qed

definition sample_lettre :: "(string, string \<times> mail_body, (string \<times> mail_body) list, unit) lettre" where
  "sample_lettre = \<lparr>parse_address = (\<lambda>a. if CHR ''@'' \<in> set a then Some a else None), finish_message = (\<lambda>e b. Some (concat (email_to e), b)),
     send_raw = (\<lambda>m s. (Ok (), s @ [m]))\<rparr>"

definition sample_env :: "(string, string \<times> mail_body, (string \<times> mail_body) list, unit, QueuedMail) delivery_env" where
  "sample_env = \<lparr>env_lettre = sample_lettre, env_draw = (\<lambda>_. Some (replicate 16 7)), env_db = True, env_now = 0, env_to_vec = (\<lambda>_. Some []),
     env_to_value = Some, env_encoded_len = (\<lambda>_. Some 1), env_queue = \<lparr>queue_id = 1, queue_utc_now = 0, queue_db_now = 0\<rparr>\<rparr>"

definition sample_note :: Notification where
  "sample_note = \<lparr>to_mail = (\<lambda>_. Some (mail_content_new ''Hi'' ''there'')), to_database = (\<lambda>_. None), to_broadcast = (\<lambda>_. None)\<rparr>"

definition sample_outlets :: "((string \<times> mail_body) list, QueuedMail) outlets" where
  "sample_outlets = \<lparr>out_inbox = [], out_live = \<lparr>capacity = 1, channels = []\<rparr>, out_mail = [], out_jobs = []\<rparr>"

theorem delivery_is_recorded_witness:
  "send_outcome sample_env (notifier_new\<lparr>notifier_mail := Some ''app@x''\<rparr>) \<lparr>recipient_key = ''u'', recipient_email = Some ''u@x''\<rparr> sample_note
     (Ok \<lparr>delivered = [ChMail], queued = []\<rparr>) sample_outlets (sample_outlets\<lparr>out_mail := [(''u@x'', Plain ''there'')]\<rparr>)"
proof (rule delivery_is_recorded)
  show "notifier_send sample_env (notifier_new\<lparr>notifier_mail := Some ''app@x''\<rparr>) \<lparr>recipient_key = ''u'', recipient_email = Some ''u@x''\<rparr>
      sample_note sample_outlets = (Ok \<lparr>delivered = [ChMail], queued = []\<rparr>, sample_outlets\<lparr>out_mail := [(''u@x'', Plain ''there'')]\<rparr>)"
    by (simp add: notifier_send_def deliver_local_def sample_note_def sample_outlets_def sample_env_def sample_lettre_def notifier_new_def mail_send_def
        as_mailable_build_def email_plain_def email_builder_def mail_content_new_def Let_def)
qed

section \<open>Queued mail is the same mail\<close>

lemma queued_content_new [simp]: "queued_content (queued_mail_new to content) = content"
  by (cases content) (auto simp: queued_content_def queued_mail_new_def mail_content_new_def mail_content_html_def Let_def split: option.splits)

text \<open>
  Mail handed to the queue is the mail that would have been sent: the job row that \<open>queue\<close> writes carries a
  payload which the registered handler decodes to the same address and content, and the message it gives to
  the transport is the one \<open>send\<close> gives.  A message that cannot be built fails for good, a transport that
  refuses is tried again.
\<close>
theorem queued_mail_is_the_same:
  assumes "queue_enqueue to_value encoded_len env (queued_mail_new address content) t =
      (Ok (job, t') :: ('x NotificationError, EnqueuedJob \<times> 'v jobs) result)"
    and "\<forall>m v. to_value m = Some v \<longrightarrow> from_value v = Some m"
  shows "\<exists>row. tbl_get t' (queue_id env) = Some row \<and> kind row = ''arcature.notifications.mail'' \<and> version row = 1 \<and> max_attempts row = 3 \<and>
    (\<forall>s. snd (mail_deliver L sender show_error (queued_mail_new address content) s) = snd (mail_send L sender address content s) \<and>
       typed_handle from_value (\<lambda>m. Some (fst (mail_deliver L sender show_error m s))) (payload row) =
       Some (case fst (mail_send L sender address content s) of
           Ok _ \<Rightarrow> Ok ()
         | Err MailBuild \<Rightarrow> Err (Job (Permanent (show_error MailBuild)))
         | Err (MailTransport e) \<Rightarrow> Err (Job (Retryable (show_error (MailTransport e))))))"
proof -
  have model: "model_kind MAIL_JOB = ''arcature.notifications.mail''" "model_version MAIL_JOB = 1" "model_max_attempts MAIL_JOB = 3"
    by (simp_all add: MAIL_JOB_def job_model_new_def)
  obtain v where v: "to_value (queued_mail_new address content) = Some v"
    and req: "queued_request to_value encoded_len (queued_mail_new address content) =
      (Ok \<lparr>req_kind = ''arcature.notifications.mail'', req_version = 1, max_attempts_default = 3, max_attempts_override = None,
        req_payload = v, req_run_at = None\<rparr> :: ('x NotificationError, 'v JobRequest) result)"
    using assms(1) model
    by (auto simp: queue_enqueue_def queued_request_def job_request_new_def rbind_eq_Ok_iff map_err_def split: if_splits sum.splits)
  obtain row where "tbl_get t' (queue_id env) = Some row" "kind row = ''arcature.notifications.mail''" "version row = 1" "max_attempts row = 3" "payload row = v"
    using assms(1) unfolding queue_enqueue_def req
    by (auto simp: insert_job_def INSERT_def Let_def map_err_def rbind_eq_Ok_iff tbl.get_put effective_max_attempts_def I32_MAX_def
        split: if_splits sum.splits)
  moreover have "from_value v = Some (queued_mail_new address content)"
    using assms(2) v by blast
  moreover have "queued_to (queued_mail_new address content) = address"
    by (simp add: queued_mail_new_def)
  ultimately show ?thesis
    by (auto simp: mail_deliver_def typed_handle_def map_err_def split: prod.splits sum.splits MailSendError.splits)
qed

theorem queued_mail_is_the_same_witness:
  "snd (mail_deliver sample_lettre ''app@x'' (\<lambda>_. []) (queued_mail_new ''u@x'' (mail_content_new ''Hi'' ''there'')) []) =
     snd (mail_send sample_lettre ''app@x'' ''u@x'' (mail_content_new ''Hi'' ''there'') [])"
proof -
  have kind: "validate_kind ''arcature.notifications.mail'' = Ok ()"
    by code_simp
  obtain job t' where x: "(queue_enqueue Some (\<lambda>_. Some 1) \<lparr>queue_id = 1, queue_utc_now = 0, queue_db_now = 0\<rparr>
      (queued_mail_new ''u@x'' (mail_content_new ''Hi'' ''there'')) [] :: (unit NotificationError, EnqueuedJob \<times> QueuedMail jobs) result) = Ok (job, t')"
    by (simp add: queue_enqueue_def queued_request_def job_request_new_def MAIL_JOB_def job_model_new_def validate_identity_def kind
        validate_version_def map_err_def insert_job_def INSERT_def row_check_def tbl_get_def DEFAULT_MAX_PAYLOAD_BYTES_def
        effective_max_attempts_def I32_MAX_def Let_def)
  show ?thesis
    using queued_mail_is_the_same [OF x, of Some sample_lettre "''app@x''" "\<lambda>_. []"] by auto
qed

end
