(* ===== verification/Module_Graph.thy ===== *)
theory Module_Graph
  imports Jobs_Scheduler Json_Value
begin

text \<open>
  The graph of an application's modules: the descriptors the module macros emit (\<^verbatim>\<open>dx/graph.rs\<close>,
  \<^verbatim>\<open>dx/controller_metadata.rs\<close>, \<^verbatim>\<open>dx/field_metadata.rs\<close>, \<^verbatim>\<open>dx/route_metadata.rs\<close>) and the checks a graph
  passes when it is built (\<^verbatim>\<open>dx/application_graph.rs\<close>), among them the depth-first search for import cycles.
\<close>

section \<open>Descriptors\<close>

record JobBinding =
  jb_kind :: string
  jb_version :: int
  jb_handler :: string

record CommandBinding =
  cb_name :: string
  cb_function :: string

record ListenerBinding =
  lb_event :: string
  lb_listener :: string

record ScheduleBinding =
  sb_job :: string
  sb_version :: int
  sb_cadence :: ScheduleCadence

record ControllerMethod =
  cm_name :: string
  cm_params :: "string list"
  cm_page :: "string option"

record FieldShape =
  fs_name :: string
  fs_ty :: string
  fs_validates :: "string list"

datatype RouteMethod = Get | Post | Put | Patch | Delete | Head | Options

definition method_as_str :: "RouteMethod \<Rightarrow> string" where
  "method_as_str m =
     (case m of Get \<Rightarrow> ''GET'' | Post \<Rightarrow> ''POST'' | Put \<Rightarrow> ''PUT'' | Patch \<Rightarrow> ''PATCH''
      | Delete \<Rightarrow> ''DELETE'' | Head \<Rightarrow> ''HEAD'' | Options \<Rightarrow> ''OPTIONS'')"

definition as_routing_fn :: "RouteMethod \<Rightarrow> string" where
  "as_routing_fn m =
     (case m of Get \<Rightarrow> ''get'' | Post \<Rightarrow> ''post'' | Put \<Rightarrow> ''put'' | Patch \<Rightarrow> ''patch''
      | Delete \<Rightarrow> ''delete'' | Head \<Rightarrow> ''head'' | Options \<Rightarrow> ''options'')"

record RouteDescriptor =
  rd_method :: RouteMethod
  rd_path :: string
  rd_name :: string
  rd_handler :: string
  rd_pages :: "string list"
  rd_action_fields :: "FieldShape list"
  rd_action_type :: string
  rd_query_fields :: "FieldShape list"
  rd_query_type :: string
  rd_query_array :: bool
  rd_query_string_fields :: "FieldShape list"
  rd_query_string_type :: string
  rd_policies :: "string list"

datatype ResourceAction = Index | Create | Store | Show | Edit | Update | Destroy

definition action_as_str :: "ResourceAction \<Rightarrow> string" where
  "action_as_str a =
     (case a of Index \<Rightarrow> ''index'' | Create \<Rightarrow> ''create'' | Store \<Rightarrow> ''store'' | Show \<Rightarrow> ''show''
      | Edit \<Rightarrow> ''edit'' | Update \<Rightarrow> ''update'' | Destroy \<Rightarrow> ''destroy'')"

definition action_method :: "ResourceAction \<Rightarrow> RouteMethod" where
  "action_method a =
     (case a of Store \<Rightarrow> Post | Update \<Rightarrow> Put | Destroy \<Rightarrow> Delete | _ \<Rightarrow> Get)"

definition path_suffix :: "ResourceAction \<Rightarrow> string \<Rightarrow> string" where
  "path_suffix a param =
     (case a of
        Index \<Rightarrow> [] | Store \<Rightarrow> []
      | Create \<Rightarrow> ''/new''
      | Edit \<Rightarrow> ''/{'' @ param @ ''}/edit''
      | _ \<Rightarrow> ''/{'' @ param @ ''}'')"

definition parse_resource_action :: "string \<Rightarrow> ResourceAction option" where
  "parse_resource_action name =
     (if name = ''index'' then Some Index
      else if name = ''create'' then Some Create
      else if name = ''store'' then Some Store
      else if name = ''show'' then Some Show
      else if name = ''edit'' then Some Edit
      else if name = ''update'' then Some Update
      else if name = ''destroy'' then Some Destroy
      else None)"

record ModuleDescriptor =
  md_name :: string
  md_imports :: "string list"
  md_exports :: "string list"
  md_controllers :: "string list"
  md_controller_methods :: "ControllerMethod list list"
  md_services :: "string list"
  md_policies :: "string list"
  md_routes :: "RouteDescriptor list"
  md_listeners :: "ListenerBinding list"
  md_jobs :: "JobBinding list"
  md_commands :: "CommandBinding list"
  md_schedules :: "ScheduleBinding list"
  md_pages :: "string list"

definition module_new :: "string \<Rightarrow> ModuleDescriptor" where
  "module_new name =
     \<lparr>md_name = name, md_imports = [], md_exports = [], md_controllers = [], md_controller_methods = [],
      md_services = [], md_policies = [], md_routes = [], md_listeners = [], md_jobs = [], md_commands = [],
      md_schedules = [], md_pages = []\<rparr>"

record ModuleNode =
  mn_name :: string
  mn_imports :: "string list"

definition module_node :: "ModuleDescriptor \<Rightarrow> ModuleNode" where
  "module_node d = \<lparr>mn_name = md_name d, mn_imports = md_imports d\<rparr>"

text \<open>Collecting into a map inserts pair by pair, so of two descriptors with one name the later stays.\<close>

definition bt_collect :: "('k::linorder \<times> 'v) list \<Rightarrow> ('k, 'v) btree" where
  "bt_collect kvs = fold (\<lambda>(k, v). bt_insert k v) kvs []"

definition module_node_map :: "ModuleDescriptor list \<Rightarrow> (string, ModuleNode) btree" where
  "module_node_map descriptors = bt_collect (map (\<lambda>d. (md_name d, module_node d)) descriptors)"

section \<open>The graph and its checks\<close>

datatype GraphError =
    DuplicateModule string
  | UnknownImport string string
  | CircularDependency "string list"

definition graph_error_text :: "GraphError \<Rightarrow> string" where
  "graph_error_text e =
     (case e of
        DuplicateModule name \<Rightarrow> ''duplicate module `'' @ name @ ''`''
      | UnknownImport m i \<Rightarrow> ''module `'' @ m @ ''` imports unknown module `'' @ i @ ''`''
      | CircularDependency cycle \<Rightarrow> ''circular dependency: '' @ join '' -> '' cycle)"

fun check_duplicates_from :: "string set \<Rightarrow> ModuleDescriptor list \<Rightarrow> (GraphError, unit) result" where
  "check_duplicates_from seen [] = Ok ()"
| "check_duplicates_from seen (m # ms) =
     (if md_name m \<in> seen then Err (DuplicateModule (md_name m))
      else check_duplicates_from (insert (md_name m) seen) ms)"

definition check_duplicates :: "ModuleDescriptor list \<Rightarrow> (GraphError, unit) result" where
  "check_duplicates modules = check_duplicates_from {} modules"

definition check_unknown_imports :: "ModuleDescriptor list \<Rightarrow> (GraphError, unit) result" where
  "check_unknown_imports modules =
     (let known = set (map md_name modules)
      in case find (\<lambda>(_, i). i \<notin> known) (concat (map (\<lambda>m. map (Pair (md_name m)) (md_imports m)) modules)) of
           None \<Rightarrow> Ok ()
         | Some (m, i) \<Rightarrow> Err (UnknownImport m i))"

text \<open>
  The search keeps three collections by reference: every name it entered, the names on the current path in
  order, and the same names as a set.  Its answer is no cycle, a cycle, or a panic of the \<^verbatim>\<open>unwrap\<close> on the
  position of a name the set holds and the path does not.
\<close>

record dfs =
  visited :: "string set"
  stack :: "string list"
  on_stack :: "string set"

datatype dfs_answer = NoCycle | Cycle "string list" | Panicked

definition dfs_enter :: "string \<Rightarrow> dfs \<Rightarrow> dfs" where
  "dfs_enter n s =
     \<lparr>visited = insert n (visited s), stack = stack s @ [n], on_stack = insert n (on_stack s)\<rparr>"

definition dfs_leave :: "string \<Rightarrow> dfs \<Rightarrow> dfs" where
  "dfs_leave n s = s\<lparr>stack := butlast (stack s), on_stack := on_stack s - {n}\<rparr>"

definition close_cycle :: "string \<Rightarrow> string list \<Rightarrow> dfs_answer" where
  "close_cycle import st =
     (case dropWhile (\<lambda>n. n \<noteq> import) st of [] \<Rightarrow> Panicked | path \<Rightarrow> Cycle (path @ [import]))"

text \<open>
  \<open>dfs_imports\<close> is the loop over the imports of one node, with the recursive call of \<^verbatim>\<open>dfs_find_cycle\<close>
  unfolded at its place, and \<open>dfs_find_cycle\<close> the function itself; \<open>dfs_imports_calls\<close> below shows that the
  loop calls it.
\<close>

function dfs_imports :: "(string, ModuleNode) btree \<Rightarrow> string list \<Rightarrow> dfs \<Rightarrow> dfs_answer \<times> dfs" where
  "dfs_imports node_map [] s = (NoCycle, s)"
| "dfs_imports node_map (i # is) s =
     (if i \<notin> visited s then
        (case bt_get node_map i of
           None \<Rightarrow> dfs_imports node_map is (dfs_leave i (dfs_enter i s))
         | Some n \<Rightarrow>
             (case dfs_imports node_map (mn_imports n) (dfs_enter i s) of
                (NoCycle, s') \<Rightarrow> dfs_imports node_map is (dfs_leave i s')
              | found \<Rightarrow> found))
      else if i \<in> on_stack s then (close_cycle i (stack s), s)
      else dfs_imports node_map is s)"
  by pat_completeness auto

lemma visited_enter_leave [simp]:
  "visited (dfs_enter n s) = insert n (visited s)" "visited (dfs_leave n s) = visited s"
  by (simp_all add: dfs_enter_def dfs_leave_def)

lemma dfs_imports_grows:
  "dfs_imports_dom (nm, is, s) \<Longrightarrow> visited s \<subseteq> visited (snd (dfs_imports nm is s))"
proof (induction nm "is" s rule: dfs_imports.pinduct)
  case (2 node_map i "is" s)
  note two = this
  show ?case
  proof (cases "i \<notin> visited s")
    case True
    have "visited y \<subseteq> visited (snd (dfs_imports node_map is (dfs_leave i y)))"
      if "bt_get node_map i = Some n" "dfs_imports node_map (mn_imports n) (dfs_enter i s) = (NoCycle, y)" for n y
      using two(4) [OF True, of n NoCycle y] that by simp
    then show ?thesis
      using True two(1,2) two(3) [OF True]
      by (force simp: dfs_imports.psimps split: option.split prod.split dfs_answer.split)
  next
    case False
    then show ?thesis
      using two(1,5) by (auto simp: dfs_imports.psimps)
  qed
qed (simp add: dfs_imports.psimps)

definition unvisited :: "(string, ModuleNode) btree \<Rightarrow> dfs \<Rightarrow> nat" where
  "unvisited nm s = card (set (bt_keys nm) - visited s)"

lemma unvisited_less:
  "bt_get nm i = Some n \<Longrightarrow> i \<notin> visited s \<Longrightarrow> visited (dfs_enter i s) \<subseteq> visited t \<Longrightarrow> unvisited nm t < unvisited nm s"
  unfolding unvisited_def by (rule psubset_card_mono) (auto simp: bt_keys_iff)

lemma unvisited_le: "visited s \<subseteq> visited t \<Longrightarrow> unvisited nm t \<le> unvisited nm s"
  unfolding unvisited_def by (rule card_mono) auto

termination dfs_imports
proof (relation "(\<lambda>(nm, is, s). unvisited nm s) <*mlex*> (\<lambda>(nm, is, s). length is) <*mlex*> {}", goal_cases)
  case 1
  show ?case by (intro wf_mlex) simp
next
  case (2 nm i "is" s)
  then show ?case
    by (intro mlex_leq [OF _ mlex_less]) (auto intro: unvisited_le)
next
  case (3 nm i "is" s n)
  then show ?case
    by (intro mlex_less) (auto intro: unvisited_less)
next
  case (4 nm i "is" s n p s')
  then have "visited (dfs_enter i s) \<subseteq> visited s'"
    using dfs_imports_grows [of nm "mn_imports n" "dfs_enter i s"] by (metis snd_conv)
  then show ?case
    using 4 by (intro mlex_less) (auto intro!: unvisited_less)
next
  case (5 nm i "is" s)
  then show ?case
    by (intro mlex_leq [OF _ mlex_less]) auto
qed

definition dfs_find_cycle :: "(string, ModuleNode) btree \<Rightarrow> string \<Rightarrow> dfs \<Rightarrow> dfs_answer \<times> dfs" where
  "dfs_find_cycle node_map node s =
     (case (case bt_get node_map node of
              None \<Rightarrow> (NoCycle, dfs_enter node s)
            | Some n \<Rightarrow> dfs_imports node_map (mn_imports n) (dfs_enter node s)) of
        (NoCycle, s') \<Rightarrow> (NoCycle, dfs_leave node s')
      | found \<Rightarrow> found)"

fun check_cycles_from :: "(string, ModuleNode) btree \<Rightarrow> ModuleDescriptor list \<Rightarrow> dfs \<Rightarrow> dfs_answer" where
  "check_cycles_from node_map [] s = NoCycle"
| "check_cycles_from node_map (m # ms) s =
     (if md_name m \<in> visited s then check_cycles_from node_map ms s
      else case dfs_find_cycle node_map (md_name m) s of
             (NoCycle, s') \<Rightarrow> check_cycles_from node_map ms s'
           | (found, _) \<Rightarrow> found)"

definition dfs_start :: dfs where
  "dfs_start = \<lparr>visited = {}, stack = [], on_stack = {}\<rparr>"

text \<open>\<open>None\<close> is the panic.\<close>

definition check_cycles :: "ModuleDescriptor list \<Rightarrow> (GraphError, unit) result option" where
  "check_cycles modules =
     (case check_cycles_from (module_node_map modules) modules dfs_start of
        NoCycle \<Rightarrow> Some (Ok ())
      | Cycle cycle \<Rightarrow> Some (Err (CircularDependency cycle))
      | Panicked \<Rightarrow> None)"

record ApplicationGraph =
  graph_modules :: "ModuleDescriptor list"

definition graph_new :: "ModuleDescriptor list \<Rightarrow> (GraphError, ApplicationGraph) result option" where
  "graph_new modules =
     (case check_duplicates modules of
        Err e \<Rightarrow> Some (Err e)
      | Ok _ \<Rightarrow>
          (case check_unknown_imports modules of
             Err e \<Rightarrow> Some (Err e)
           | Ok _ \<Rightarrow> map_option (\<lambda>r. rbind r (\<lambda>_. Ok \<lparr>graph_modules = modules\<rparr>)) (check_cycles modules)))"

definition graph_new_unchecked :: "ModuleDescriptor list \<Rightarrow> ApplicationGraph" where
  "graph_new_unchecked modules = \<lparr>graph_modules = modules\<rparr>"

definition graph_nodes :: "ApplicationGraph \<Rightarrow> ModuleNode list" where
  "graph_nodes g = map module_node (graph_modules g)"

definition graph_find :: "ApplicationGraph \<Rightarrow> string \<Rightarrow> ModuleDescriptor option" where
  "graph_find g name = find (\<lambda>m. md_name m = name) (graph_modules g)"

section \<open>What the search decides\<close>

definition edges :: "(string, ModuleNode) btree \<Rightarrow> (string \<times> string) set" where
  "edges nm = {(a, b). \<exists>n. bt_get nm a = Some n \<and> b \<in> set (mn_imports n)}"

definition import_edges :: "ModuleDescriptor list \<Rightarrow> (string \<times> string) set" where
  "import_edges ms = {(a, b). \<exists>m \<in> set ms. md_name m = a \<and> b \<in> set (md_imports m)}"

definition is_cycle :: "(string \<times> string) set \<Rightarrow> string list \<Rightarrow> bool" where
  "is_cycle E c \<longleftrightarrow> 2 \<le> length c \<and> hd c = last c \<and> successively (\<lambda>a b. (a, b) \<in> E) c"

definition finished :: "dfs \<Rightarrow> string set" where
  "finished s = visited s - on_stack s"

text \<open>
  The invariant of the search: path and set agree, the path follows imports, and a name the search is done
  with imports only such names and lies on no cycle.
\<close>

definition dfs_ok :: "(string \<times> string) set \<Rightarrow> dfs \<Rightarrow> bool" where
  "dfs_ok E s \<longleftrightarrow>
     on_stack s = set (stack s) \<and> distinct (stack s) \<and> on_stack s \<subseteq> visited s \<and>
     successively (\<lambda>a b. (a, b) \<in> E) (stack s) \<and>
     (\<forall>f \<in> finished s. E `` {f} \<subseteq> finished s \<and> (f, f) \<notin> E\<^sup>+)"

definition dfs_result_ok :: "(string \<times> string) set \<Rightarrow> dfs \<Rightarrow> string set \<Rightarrow> dfs_answer \<times> dfs \<Rightarrow> bool" where
  "dfs_result_ok E s need r =
     (case fst r of
        NoCycle \<Rightarrow> dfs_ok E (snd r) \<and> stack (snd r) = stack s \<and> finished s \<union> need \<subseteq> finished (snd r)
      | Cycle c \<Rightarrow> is_cycle E c
      | Panicked \<Rightarrow> False)"

lemma trancl_closed: "(a, b) \<in> E\<^sup>+ \<Longrightarrow> a \<in> F \<Longrightarrow> (\<And>f. f \<in> F \<Longrightarrow> E `` {f} \<subseteq> F) \<Longrightarrow> b \<in> F"
  by (induction rule: trancl_induct) blast+

lemma dfs_ok_enter:
  assumes "dfs_ok E s" "i \<notin> visited s" "stack s = [] \<or> (last (stack s), i) \<in> E"
  shows "dfs_ok E (dfs_enter i s)" "finished (dfs_enter i s) = finished s"
proof -
  show eq: "finished (dfs_enter i s) = finished s"
    using assms by (auto simp: finished_def dfs_enter_def dfs_ok_def)
  show "dfs_ok E (dfs_enter i s)"
    using assms unfolding dfs_ok_def eq
    by (auto simp: dfs_enter_def successively_append_iff)
qed

lemma dfs_ok_leave:
  assumes ok: "dfs_ok E t" and st: "stack t = st @ [i]" and succs: "E `` {i} \<subseteq> finished t"
  shows "dfs_ok E (dfs_leave i t)" "stack (dfs_leave i t) = st" "finished (dfs_leave i t) = insert i (finished t)"
proof -
  show stack: "stack (dfs_leave i t) = st"
    using st by (simp add: dfs_leave_def)
  show eq: "finished (dfs_leave i t) = insert i (finished t)"
    using ok st by (auto simp: finished_def dfs_leave_def dfs_ok_def)
  have left: "i \<notin> finished t"
    using ok st by (auto simp: finished_def dfs_ok_def)
  have closed: "E `` {f} \<subseteq> finished t" if "f \<in> finished t" for f
    using ok that by (auto simp: dfs_ok_def)
  have no_return: "(z, i) \<notin> E\<^sup>+" if "z \<in> finished t" for z
    using that left closed trancl_closed [of z i E "finished t"] by blast
  have "(i, i) \<notin> E\<^sup>+"
  proof
    assume "(i, i) \<in> E\<^sup>+"
    then obtain z where "(i, z) \<in> E" "z = i \<or> (z, i) \<in> E\<^sup>+"
      by (metis rtrancl_eq_or_trancl tranclD)
    then show False
      using succs no_return left by auto
  qed
  then show "dfs_ok E (dfs_leave i t)"
    using ok st succs closed unfolding dfs_ok_def eq stack
    by (auto simp: dfs_leave_def successively_append_iff)
qed

lemma close_cycle_ok:
  assumes "dfs_ok E s" "i \<in> on_stack s" "(last (stack s), i) \<in> E"
  obtains c where "close_cycle i (stack s) = Cycle c" "is_cycle E c"
proof -
  obtain as bs where split: "stack s = as @ i # bs" "i \<notin> set as"
    using assms by (auto simp: dfs_ok_def dest: split_list_first)
  have "dropWhile (\<lambda>n. n \<noteq> i) (as @ i # bs) = i # bs"
    using split(2) by (induction as) auto
  then have "dropWhile (\<lambda>n. n \<noteq> i) (stack s) = i # bs"
    using split(1) by simp
  moreover have "is_cycle E (i # bs @ [i])"
    using assms split unfolding is_cycle_def dfs_ok_def
    by (auto simp: successively_append_iff successively_Cons split: if_splits)
  ultimately show thesis
    by (intro that) (simp_all add: close_cycle_def)
qed

lemma dfs_imports_ok:
  "dfs_ok (edges nm) s \<Longrightarrow> stack s \<noteq> [] \<Longrightarrow> \<forall>i \<in> set is. (last (stack s), i) \<in> edges nm \<Longrightarrow>
   dfs_result_ok (edges nm) s (set is) (dfs_imports nm is s)"
proof (induction nm "is" s rule: dfs_imports.induct)
  case (2 nm i "is" s)
  note ok = 2(5) and path = 2(6)
  have edge: "(last (stack s), i) \<in> edges nm"
    using 2(7) by simp
  have go: "dfs_result_ok (edges nm) s (set (i # is)) (dfs_imports nm is t)"
    if "dfs_result_ok (edges nm) t (set is) (dfs_imports nm is t)" "stack t = stack s"
      "finished s \<union> {i} \<subseteq> finished t" for t
    using that by (auto simp: dfs_result_ok_def split: dfs_answer.splits)
  show ?case
  proof (cases "i \<in> visited s")
    case old: True
    show ?thesis
    proof (cases "i \<in> on_stack s")
      case True
      then obtain c where "close_cycle i (stack s) = Cycle c" "is_cycle (edges nm) c"
        using close_cycle_ok [OF ok _ edge] by blast
      then show ?thesis
        using True old by (simp add: dfs_result_ok_def)
    next
      case False
      then show ?thesis
        using old go [of s] 2(4) ok path 2(7) by (auto simp: finished_def)
    qed
  next
    case new: False
    note entered = dfs_ok_enter [OF ok new disjI2, OF edge]
    show ?thesis
    proof (cases "bt_get nm i")
      case None
      then have "edges nm `` {i} = {}"
        by (auto simp: edges_def)
      then have left: "dfs_ok (edges nm) (dfs_leave i (dfs_enter i s))"
        "stack (dfs_leave i (dfs_enter i s)) = stack s"
        "finished (dfs_leave i (dfs_enter i s)) = insert i (finished s)"
        using dfs_ok_leave [OF entered(1), of "stack s" i] entered(2) by (simp_all add: dfs_enter_def)
      then show ?thesis
        using new None go [of "dfs_leave i (dfs_enter i s)"] 2(1) [OF new None] path 2(7) by simp
    next
      case (Some n)
      obtain r t where call: "dfs_imports nm (mn_imports n) (dfs_enter i s) = (r, t)"
        by force
      have "dfs_result_ok (edges nm) (dfs_enter i s) (set (mn_imports n)) (r, t)"
        using 2(2) [OF new Some entered(1)] Some call by (auto simp: dfs_enter_def edges_def)
      then have result: "r \<noteq> Panicked" "\<And>c. r = Cycle c \<Longrightarrow> is_cycle (edges nm) c"
        "r = NoCycle \<Longrightarrow> dfs_ok (edges nm) t \<and> stack t = stack s @ [i] \<and> finished s \<union> edges nm `` {i} \<subseteq> finished t"
        using Some entered(2) by (auto simp: dfs_result_ok_def dfs_enter_def edges_def split: dfs_answer.splits)
      show ?thesis
      proof (cases r)
        case NoCycle
        then have left: "dfs_ok (edges nm) (dfs_leave i t)" "stack (dfs_leave i t) = stack s"
          "finished (dfs_leave i t) = insert i (finished t)"
          using dfs_ok_leave [of "edges nm" t "stack s" i] result(3) by auto
        then show ?thesis
          using new Some call NoCycle go [of "dfs_leave i t"] result(3)
            2(3) [OF new Some call [symmetric] NoCycle] path 2(7) by auto
      qed (use new Some call result in \<open>auto simp: dfs_result_ok_def\<close>)
    qed
  qed
qed (simp add: dfs_result_ok_def)

lemma dfs_imports_calls:
  "dfs_imports nm (i # is) s =
     (if i \<notin> visited s then
        (case dfs_find_cycle nm i s of (NoCycle, s') \<Rightarrow> dfs_imports nm is s' | found \<Rightarrow> found)
      else if i \<in> on_stack s then (close_cycle i (stack s), s)
      else dfs_imports nm is s)"
  by (auto simp: dfs_find_cycle_def split: option.splits prod.splits dfs_answer.splits)

lemma dfs_find_cycle_ok:
  assumes "dfs_ok (edges nm) s" "stack s = []" "i \<notin> visited s"
  shows "dfs_result_ok (edges nm) s {i} (dfs_find_cycle nm i s)"
proof (cases "bt_get nm i")
  case None
  then have "edges nm `` {i} = {}"
    by (auto simp: edges_def)
  then show ?thesis
    using dfs_ok_leave [OF dfs_ok_enter(1) [OF assms(1,3)], of "[]" i] dfs_ok_enter [OF assms(1,3)] assms(2) None
    by (simp add: dfs_find_cycle_def dfs_result_ok_def dfs_enter_def)
next
  case (Some n)
  obtain r t where call: "dfs_imports nm (mn_imports n) (dfs_enter i s) = (r, t)"
    by force
  have "dfs_result_ok (edges nm) (dfs_enter i s) (set (mn_imports n)) (r, t)"
    using dfs_imports_ok [OF dfs_ok_enter(1) [OF assms(1,3)], of "mn_imports n"] assms(2) Some call
    by (auto simp: dfs_enter_def edges_def)
  then show ?thesis
    using Some call dfs_ok_leave [of "edges nm" t "[]" i] dfs_ok_enter(2) [OF assms(1,3)] assms(2)
    by (auto simp: dfs_result_ok_def dfs_find_cycle_def dfs_enter_def edges_def split: dfs_answer.splits)
qed

lemma check_cycles_from_ok:
  "dfs_ok (edges nm) s \<Longrightarrow> stack s = [] \<Longrightarrow>
   (case check_cycles_from nm ms s of
      NoCycle \<Rightarrow> \<forall>m \<in> set ms. (md_name m, md_name m) \<notin> (edges nm)\<^sup>+
    | Cycle c \<Rightarrow> is_cycle (edges nm) c
    | Panicked \<Rightarrow> False)"
proof (induction ms arbitrary: s)
  case (Cons m ms)
  have off_cycle: "(f, f) \<notin> (edges nm)\<^sup>+" if "f \<in> finished t" "dfs_ok (edges nm) t" for f t
    using that by (auto simp: dfs_ok_def)
  show ?case
  proof (cases "md_name m \<in> visited s")
    case True
    then have "md_name m \<in> finished s"
      using Cons.prems by (simp add: finished_def dfs_ok_def)
    then show ?thesis
      using True Cons.IH [OF Cons.prems] off_cycle [OF _ Cons.prems(1)] by (auto split: dfs_answer.splits)
  next
    case False
    obtain r t where call: "dfs_find_cycle nm (md_name m) s = (r, t)"
      by force
    then have "dfs_result_ok (edges nm) s {md_name m} (r, t)"
      using dfs_find_cycle_ok [OF Cons.prems False] by simp
    then show ?thesis
      using False call Cons.IH [of t] off_cycle [of "md_name m" t] Cons.prems(2)
      by (auto simp: dfs_result_ok_def split: dfs_answer.splits)
  qed
qed simp

section \<open>What a graph that is built promises\<close>

lemma check_duplicates_from_iff:
  "check_duplicates_from seen ms = Ok () \<longleftrightarrow> distinct (map md_name ms) \<and> set (map md_name ms) \<inter> seen = {}"
  by (induction seen ms rule: check_duplicates_from.induct) auto

lemma check_duplicates_from_Err:
  "check_duplicates_from seen ms = Err e \<Longrightarrow>
   \<exists>as m bs. ms = as @ m # bs \<and> e = DuplicateModule (md_name m) \<and> md_name m \<in> seen \<union> md_name ` set as \<and>
     distinct (map md_name as) \<and> set (map md_name as) \<inter> seen = {}"
proof (induction seen ms rule: check_duplicates_from.induct)
  case (2 seen m ms)
  show ?case
  proof (cases "md_name m \<in> seen")
    case True
    then show ?thesis
      using 2(2) by (intro exI [of _ "[]"]) auto
  next
    case False
    then obtain as n bs where "ms = as @ n # bs" "e = DuplicateModule (md_name n)"
      "md_name n \<in> insert (md_name m) seen \<union> md_name ` set as" "distinct (map md_name as)"
      "set (map md_name as) \<inter> insert (md_name m) seen = {}"
      using 2 by auto
    then show ?thesis
      using False by (intro exI [of _ "m # as"] exI [of _ n] exI [of _ bs]) auto
  qed
qed simp

lemma find_SomeD: "find P xs = Some x \<Longrightarrow> P x \<and> x \<in> set xs"
  by (induction xs) (auto split: if_splits)

lemma check_unknown_imports_cases:
  "(case check_unknown_imports ms of
      Ok _ \<Rightarrow> \<forall>m \<in> set ms. set (md_imports m) \<subseteq> md_name ` set ms
    | Err e \<Rightarrow> (\<exists>m \<in> set ms. \<exists>i \<in> set (md_imports m). e = UnknownImport (md_name m) i \<and> i \<notin> md_name ` set ms))"
  unfolding check_unknown_imports_def Let_def
  by (fastforce split: option.split dest!: find_SomeD simp: find_None_iff)

lemma bt_get_collect: "bt_get (fold (\<lambda>(k, v). bt_insert k v) kvs t) k = (case map_of (rev kvs) k of None \<Rightarrow> bt_get t k | v \<Rightarrow> v)"
  by (induction kvs arbitrary: t) (auto simp: map_add_def split: option.splits)

lemma edges_module_node_map:
  assumes "distinct (map md_name ms)"
  shows "edges (module_node_map ms) = import_edges ms"
proof -
  let ?kvs = "map (\<lambda>d. (md_name d, module_node d)) ms"
  have "distinct (map fst ?kvs)"
    using assms by (simp add: comp_def)
  then have "map_of (rev ?kvs) = map_of ?kvs"
    using map_of_inject_set [of "rev ?kvs" ?kvs] by (simp add: rev_map [symmetric] del: rev_map)
  then have "bt_get (module_node_map ms) a = map_of ?kvs a" for a
    by (simp add: module_node_map_def bt_collect_def bt_get_collect split: option.split)
  moreover have "map_of ?kvs a = Some n \<longleftrightarrow> (\<exists>m \<in> set ms. a = md_name m \<and> n = module_node m)" for a n
    using assms by (subst map_of_eq_Some_iff) (auto simp: comp_def)
  ultimately show ?thesis
    by (auto simp: edges_def import_edges_def module_node_def)
qed

lemma cycle_in_trancl:
  assumes "is_cycle E c"
  shows "(hd c, hd c) \<in> E\<^sup>+"
proof -
  have walk: "successively (\<lambda>a b. (a, b) \<in> E) (a # b # c) \<Longrightarrow> (a, last (b # c)) \<in> E\<^sup>+" for a b c
    by (induction c arbitrary: a b) (auto intro: trancl_into_trancl2)
  obtain a b c' where "c = a # b # c'"
    using assms by (cases c rule: remdups_adj.cases) (auto simp: is_cycle_def)
  then show ?thesis
    using assms walk [of a b c'] unfolding is_cycle_def by (metis last.simps list.sel(1) list.simps(3))
qed

lemma check_cycles_outcome:
  assumes "distinct (map md_name ms)"
  shows "(case check_cycles ms of
            Some (Ok _) \<Rightarrow> acyclic (import_edges ms)
          | Some (Err e) \<Rightarrow> (\<exists>c. e = CircularDependency c \<and> is_cycle (import_edges ms) c)
          | None \<Rightarrow> False)"
proof -
  let ?E = "import_edges ms"
  have start: "dfs_ok (edges (module_node_map ms)) dfs_start" "stack dfs_start = []"
    by (simp_all add: dfs_ok_def dfs_start_def finished_def)
  have "a \<in> md_name ` set ms" if "(a, b) \<in> ?E\<^sup>+" for a b
    using that by (induction rule: converse_trancl_induct) (auto simp: import_edges_def)
  then have "acyclic ?E" if "\<forall>m \<in> set ms. (md_name m, md_name m) \<notin> ?E\<^sup>+"
    using that by (fastforce simp: acyclic_def)
  then show ?thesis
    using check_cycles_from_ok [OF start, of ms] edges_module_node_map [OF assms]
    by (auto simp: check_cycles_def split: dfs_answer.splits)
qed

text \<open>
  C16.  A graph is built exactly when no two modules share a name, every import names a module of the
  application and the imports are acyclic; it then holds the modules as given.  Otherwise the error is true
  of the application: the second module of a repeated name, an import of a name that is not there, or a
  closed walk along the imports.  The search for cycles always ends and its \<^verbatim>\<open>unwrap\<close> never panics.
\<close>

theorem graph_is_checked:
  "(graph_new ms = Some (Ok \<lparr>graph_modules = ms\<rparr>) \<longleftrightarrow>
      distinct (map md_name ms) \<and> (\<Union>m \<in> set ms. set (md_imports m)) \<subseteq> md_name ` set ms \<and> acyclic (import_edges ms)) \<and>
   (case graph_new ms of
      None \<Rightarrow> False
    | Some (Ok g) \<Rightarrow> g = \<lparr>graph_modules = ms\<rparr>
    | Some (Err (DuplicateModule name)) \<Rightarrow>
        (\<exists>as m bs. ms = as @ m # bs \<and> name = md_name m \<and> name \<in> md_name ` set as \<and> distinct (map md_name as))
    | Some (Err (UnknownImport name i)) \<Rightarrow>
        distinct (map md_name ms) \<and> (name, i) \<in> import_edges ms \<and> i \<notin> md_name ` set ms
    | Some (Err (CircularDependency c)) \<Rightarrow>
        distinct (map md_name ms) \<and> is_cycle (import_edges ms) c)"
proof (cases "check_duplicates ms")
  case (Inl e)
  then have new: "graph_new ms = Some (Err e)" "\<not> distinct (map md_name ms)"
    using check_duplicates_from_iff [of "{}" ms] by (auto simp: graph_new_def check_duplicates_def)
  obtain as m bs where "ms = as @ m # bs" "e = DuplicateModule (md_name m)" "md_name m \<in> md_name ` set as"
    "distinct (map md_name as)"
    using check_duplicates_from_Err [of "{}" ms e] Inl unfolding check_duplicates_def by auto
  then have "\<exists>as m bs. ms = as @ m # bs \<and> e = DuplicateModule (md_name m) \<and> md_name m \<in> md_name ` set as \<and>
      distinct (map md_name as)"
    by blast
  then show ?thesis
    using new by (auto split: GraphError.split)
next
  case dist: (Inr u)
  then have names: "distinct (map md_name ms)"
    using check_duplicates_from_iff [of "{}" ms] by (simp add: check_duplicates_def)
  show ?thesis
  proof (cases "check_unknown_imports ms")
    case (Inl e)
    then obtain m i where "m \<in> set ms" "i \<in> set (md_imports m)" "e = UnknownImport (md_name m) i" "i \<notin> md_name ` set ms"
      using check_unknown_imports_cases [of ms] by auto
    then show ?thesis
      using dist Inl names by (auto simp: graph_new_def import_edges_def)
  next
    case (Inr v)
    then have known: "(\<Union>m \<in> set ms. set (md_imports m)) \<subseteq> md_name ` set ms"
      using check_unknown_imports_cases [of ms] by auto
    have "\<not> acyclic (import_edges ms)" if "is_cycle (import_edges ms) c" for c
      using cycle_in_trancl [OF that] by (auto simp: acyclic_def)
    then show ?thesis
      using dist Inr names known check_cycles_outcome [OF names]
      by (auto simp: graph_new_def split: option.splits sum.splits)
  qed
qed

text \<open>A resource action is read back from its own name, and the actions are the seven routes of a resource.\<close>

lemma parse_action_iff: "parse_resource_action name = Some a \<longleftrightarrow> name = action_as_str a"
  by (cases a) (auto simp: parse_resource_action_def action_as_str_def)

lemma actions_are_distinct_routes:
  "(action_method a, path_suffix a param) = (action_method b, path_suffix b param) \<Longrightarrow> param \<noteq> [] \<Longrightarrow> a = b"
  by (cases a; cases b) (simp_all add: action_method_def path_suffix_def)

end
