(* ===== verification/App_Artifact.thy ===== *)
theory App_Artifact
  imports Module_Graph "HOL-Library.Product_Lexorder"
begin

text \<open>
  The application graph artifact (\<^verbatim>\<open>uag/\<close>): the registry of page contracts (\<^verbatim>\<open>inertia/contracts/\<close>), the
  artifact assembled from the module graph (\<^verbatim>\<open>uag/schema.rs\<close>, \<^verbatim>\<open>uag/from_graph.rs\<close>) and the checks that run
  over it (\<^verbatim>\<open>uag/validate.rs\<close>).  The file system enters as a predicate on a directory and a relative name.
\<close>

section \<open>Page contracts\<close>

datatype ContractType =
    CBoolean
  | CNumber
  | CString
  | CArray ContractType
  | CObject "(string \<times> PropSchema) list"
  | CNullable ContractType
and PropSchema = PropSchema (prop_required: bool) (prop_ty: ContractType)

type_synonym PropsSchema = "(string, PropSchema) btree"

definition props_new :: PropsSchema where
  "props_new = []"

definition props_required :: "PropsSchema \<Rightarrow> string \<Rightarrow> ContractType \<Rightarrow> PropsSchema" where
  "props_required fs name ty = bt_insert name (PropSchema True ty) fs"

definition props_optional :: "PropsSchema \<Rightarrow> string \<Rightarrow> ContractType \<Rightarrow> PropsSchema" where
  "props_optional fs name ty = bt_insert name (PropSchema False ty) fs"

definition props_nested :: "PropsSchema \<Rightarrow> string \<Rightarrow> PropsSchema \<Rightarrow> PropsSchema" where
  "props_nested fs name inner = bt_insert name (PropSchema True (CObject inner)) fs"

definition props_nested_optional :: "PropsSchema \<Rightarrow> string \<Rightarrow> PropsSchema \<Rightarrow> PropsSchema" where
  "props_nested_optional fs name inner = bt_insert name (PropSchema False (CNullable (CObject inner))) fs"

definition props_nested_array :: "PropsSchema \<Rightarrow> string \<Rightarrow> PropsSchema \<Rightarrow> PropsSchema" where
  "props_nested_array fs name inner = bt_insert name (PropSchema True (CArray (CObject inner))) fs"

record PageSchema =
  page_props :: PropsSchema

record PageContractEntry =
  pce_name :: string
  pce_schema :: PropsSchema

datatype ContractError = DuplicatePage string | CaseConflict string string

record PageContracts =
  pc_pages :: "(string, PageSchema) btree"

definition contracts_new :: PageContracts where
  "contracts_new = \<lparr>pc_pages = []\<rparr>"

definition contracts_insert :: "PageContracts \<Rightarrow> string \<Rightarrow> PropsSchema \<Rightarrow> (ContractError, PageContracts) result" where
  "contracts_insert cs name schema =
     (if bt_get (pc_pages cs) name \<noteq> None then Err (DuplicatePage name)
      else case find (\<lambda>existing. eq_ignore_ascii_case existing name) (bt_keys (pc_pages cs)) of
             Some existing \<Rightarrow> Err (CaseConflict existing name)
           | None \<Rightarrow> Ok (cs\<lparr>pc_pages := bt_insert name \<lparr>page_props = schema\<rparr> (pc_pages cs)\<rparr>))"

definition register_entry :: "PageContracts \<Rightarrow> PageContractEntry \<Rightarrow> (ContractError, PageContracts) result" where
  "register_entry cs entry = contracts_insert cs (pce_name entry) (pce_schema entry)"

record ContractArtifact =
  ca_format :: string
  ca_pages :: "(string, PageSchema) btree"

definition CONTRACT_FORMAT :: string where
  "CONTRACT_FORMAT = ''arcature.page-contract.v1''"

definition contract_artifact_new :: "(string, PageSchema) btree \<Rightarrow> ContractArtifact" where
  "contract_artifact_new pages = \<lparr>ca_format = CONTRACT_FORMAT, ca_pages = pages\<rparr>"

definition contracts_artifact :: "PageContracts \<Rightarrow> ContractArtifact" where
  "contracts_artifact cs = contract_artifact_new (pc_pages cs)"

section \<open>The artifact\<close>

text \<open>A \<^verbatim>\<open>BTreeSet\<close> is its elements in ascending order, each once.\<close>

type_synonym 'a btset = "'a list"

definition owned_set :: "string list \<Rightarrow> string btset" where
  "owned_set values = sort (remdups values)"

lemma set_owned_set [simp]: "set (owned_set vs) = set vs"
  by (simp add: owned_set_def)

record UagControllerMethod =
  ucm_name :: string
  ucm_params :: "string list"
  ucm_page :: "string option"

record UagListener =
  ul_event :: string
  ul_listener :: string

record UagJob =
  uj_kind :: string
  uj_version :: int
  uj_handler :: string

record UagCommand =
  uc_name :: string
  uc_function :: string

datatype UagCadence = UagEvery nat | UagDaily nat nat

record UagSchedule =
  us_job :: string
  us_version :: int
  us_cadence :: UagCadence

record UagModule =
  um_imports :: "string btset"
  um_exports :: "string btset"
  um_controllers :: "(string, UagControllerMethod list) btree"
  um_services :: "string btset"
  um_policies :: "string btset"
  um_pages :: "string btset"
  um_listeners :: "UagListener list"
  um_jobs :: "UagJob list"
  um_commands :: "UagCommand list"
  um_schedules :: "UagSchedule list"

record UagField =
  uf_name :: string
  uf_ty :: string
  uf_validates :: "string list"

record UagPayload =
  up_type_name :: string
  up_fields :: "UagField list"

record UagQuery =
  uq_type_name :: string
  uq_array :: bool
  uq_fields :: "UagField list"

record UagRoute =
  ur_module :: string
  ur_method :: string
  ur_path :: string
  ur_name :: string
  ur_handler :: string
  ur_params :: "string list"
  ur_pages :: "string btset"
  ur_action :: "UagPayload option"
  ur_query :: "UagQuery option"
  ur_query_string :: "UagPayload option"
  ur_policies :: "string btset"

record UagArtifact =
  ua_format :: string
  ua_schema_version :: nat
  ua_modules :: "(string, UagModule) btree"
  ua_routes :: "UagRoute list"
  ua_pages :: "(string, PageSchema) btree"

definition SCHEMA_VERSION :: nat where
  "SCHEMA_VERSION = 1"

definition UAG_FORMAT :: string where
  "UAG_FORMAT = ''arcature.uag.v1''"

definition route_key :: "UagRoute \<Rightarrow> string \<times> string \<times> string \<times> string" where
  "route_key r = (ur_path r, ur_method r, ur_name r, ur_handler r)"

definition uag_new :: "(string, UagModule) btree \<Rightarrow> UagRoute list \<Rightarrow> (string, PageSchema) btree \<Rightarrow> UagArtifact" where
  "uag_new modules routes pages =
     \<lparr>ua_format = UAG_FORMAT, ua_schema_version = SCHEMA_VERSION, ua_modules = modules,
      ua_routes = sort_key route_key routes, ua_pages = pages\<rparr>"

section \<open>Assembling it from the module graph\<close>

text \<open>
  The loop of \<^verbatim>\<open>path_params\<close>: the text between an opening brace and the next closing one is a name, less its
  leading stars; an opening brace that is never closed ends the loop.
\<close>

function path_params :: "string \<Rightarrow> string list" where
  "path_params path =
     (case split_once CHR ''{'' path of
        None \<Rightarrow> []
      | Some (_, after) \<Rightarrow>
          (case split_once CHR ''}'' after of
             None \<Rightarrow> []
           | Some (inside, rest) \<Rightarrow>
               (let name = dropWhile (\<lambda>c. c = CHR ''*'') inside
                in (if name \<noteq> [] then [name] else []) @ path_params rest)))"
  by pat_completeness auto
termination
  by (relation "measure length") (auto simp: split_once_eq_Some_iff)

declare path_params.simps [simp del]

definition controller_method_index :: "ModuleDescriptor \<Rightarrow> (string, ControllerMethod list) btree" where
  "controller_method_index d = bt_collect (zip (md_controllers d) (md_controller_methods d))"

definition method_from :: "ControllerMethod \<Rightarrow> UagControllerMethod" where
  "method_from m = \<lparr>ucm_name = cm_name m, ucm_params = cm_params m, ucm_page = cm_page m\<rparr>"

definition cadence_from :: "ScheduleCadence \<Rightarrow> UagCadence" where
  "cadence_from c = (case c of Every s \<Rightarrow> UagEvery s | Daily h m \<Rightarrow> UagDaily h m)"

definition module_from :: "ModuleDescriptor \<Rightarrow> UagModule" where
  "module_from d =
     \<lparr>um_imports = owned_set (md_imports d),
      um_exports = owned_set (md_exports d),
      um_controllers =
        bt_collect (map (\<lambda>(name, methods). (name, map method_from methods))
          (zip (md_controllers d) (md_controller_methods d))),
      um_services = owned_set (md_services d),
      um_policies = owned_set (md_policies d),
      um_pages = owned_set (md_pages d),
      um_listeners = map (\<lambda>l. \<lparr>ul_event = lb_event l, ul_listener = lb_listener l\<rparr>) (md_listeners d),
      um_jobs = map (\<lambda>j. \<lparr>uj_kind = jb_kind j, uj_version = jb_version j, uj_handler = jb_handler j\<rparr>) (md_jobs d),
      um_commands = map (\<lambda>c. \<lparr>uc_name = cb_name c, uc_function = cb_function c\<rparr>) (md_commands d),
      um_schedules =
        map (\<lambda>s. \<lparr>us_job = sb_job s, us_version = sb_version s, us_cadence = cadence_from (sb_cadence s)\<rparr>)
          (md_schedules d)\<rparr>"

text \<open>\<^verbatim>\<open>str::split_once\<close> with a text of two equal characters.\<close>

fun split_once_pair :: "char \<Rightarrow> string \<Rightarrow> (string \<times> string) option" where
  "split_once_pair d (a # b # s) =
     (if a = d \<and> b = d then Some ([], s) else map_option (\<lambda>(x, y). (a # x, y)) (split_once_pair d (b # s)))"
| "split_once_pair d _ = None"

definition inferred_page :: "string \<Rightarrow> (string, ControllerMethod list) btree \<Rightarrow> string option" where
  "inferred_page handler methods =
     Option.bind (split_once_pair CHR '':'' handler) (\<lambda>(controller, method).
     Option.bind (bt_get methods controller) (\<lambda>ms.
     Option.bind (find (\<lambda>m. cm_name m = method) ms) cm_page))"

definition payload :: "string \<Rightarrow> FieldShape list \<Rightarrow> UagPayload option" where
  "payload type_name shapes =
     (if type_name = [] \<and> shapes = [] then None
      else Some \<lparr>up_type_name = type_name,
                 up_fields = map (\<lambda>f. \<lparr>uf_name = fs_name f, uf_ty = fs_ty f, uf_validates = fs_validates f\<rparr>) shapes\<rparr>)"

definition route_pages :: "RouteDescriptor \<Rightarrow> (string, ControllerMethod list) btree \<Rightarrow> string btset" where
  "route_pages r methods =
     (if rd_pages r = [] then (case inferred_page (rd_handler r) methods of None \<Rightarrow> [] | Some p \<Rightarrow> [p])
      else owned_set (rd_pages r))"

definition route_from :: "string \<Rightarrow> RouteDescriptor \<Rightarrow> (string, ControllerMethod list) btree \<Rightarrow> UagRoute" where
  "route_from m r methods =
     \<lparr>ur_module = m,
      ur_method = method_as_str (rd_method r),
      ur_path = rd_path r,
      ur_name = rd_name r,
      ur_handler = rd_handler r,
      ur_params = path_params (rd_path r),
      ur_pages = route_pages r methods,
      ur_action = payload (rd_action_type r) (rd_action_fields r),
      ur_query = map_option (\<lambda>p. \<lparr>uq_type_name = up_type_name p, uq_array = rd_query_array r, uq_fields = up_fields p\<rparr>)
                   (payload (rd_query_type r) (rd_query_fields r)),
      ur_query_string = payload (rd_query_string_type r) (rd_query_string_fields r),
      ur_policies = owned_set (rd_policies r)\<rparr>"

definition module_routes :: "ModuleDescriptor \<Rightarrow> UagRoute list" where
  "module_routes d = map (\<lambda>r. route_from (md_name d) r (controller_method_index d)) (md_routes d)"

definition uag_build :: "ApplicationGraph \<Rightarrow> ContractArtifact \<Rightarrow> UagArtifact" where
  "uag_build g contracts =
     uag_new (bt_collect (map (\<lambda>d. (md_name d, module_from d)) (graph_modules g)))
       (concat (map module_routes (graph_modules g)))
       (ca_pages contracts)"

section \<open>Validation\<close>

datatype UagDiagnostic =
    DuplicateRoute string string "string list"
  | UnregisteredPage string string
  | MissingPageComponent string "string list"
  | UndeclaredPolicy string string
  | UndeclaredExport string string

definition PAGE_EXTENSIONS :: "string list" where
  "PAGE_EXTENSIONS = [''tsx'', ''vue'', ''svelte'']"

record ValidateOptions =
  pages_dir :: "string option"

definition route_label :: "UagRoute \<Rightarrow> string" where
  "route_label r = (if ur_name r = [] then ur_method r @ '' '' @ ur_path r else ur_name r)"

definition by_key :: "UagRoute list \<Rightarrow> (string \<times> string, string list) btree" where
  "by_key routes =
     fold (\<lambda>r t. let key = (ur_method r, ur_path r)
                 in bt_insert key ((case bt_get t key of None \<Rightarrow> [] | Some hs \<Rightarrow> hs) @ [ur_handler r]) t) routes []"

definition duplicate_routes :: "UagArtifact \<Rightarrow> UagDiagnostic list" where
  "duplicate_routes a =
     map (\<lambda>((m, p), hs). DuplicateRoute m p hs) (filter (\<lambda>(_, hs). length hs > 1) (by_key (ua_routes a)))"

definition unregistered_pages :: "UagArtifact \<Rightarrow> UagDiagnostic list" where
  "unregistered_pages a =
     concat (map (\<lambda>r. map (UnregisteredPage (route_label r)) (filter (\<lambda>p. bt_get (ua_pages a) p = None) (ur_pages r)))
       (ua_routes a))"

definition missing_page_components :: "(string \<Rightarrow> string \<Rightarrow> bool) \<Rightarrow> UagArtifact \<Rightarrow> string \<Rightarrow> UagDiagnostic list" where
  "missing_page_components is_file a dir =
     concat (map (\<lambda>page. let searched = map (\<lambda>ext. page @ ''.'' @ ext) PAGE_EXTENSIONS
                        in if \<not> list_ex (is_file dir) searched then [MissingPageComponent page searched] else [])
       (bt_keys (ua_pages a)))"

definition undeclared_policies :: "UagArtifact \<Rightarrow> UagDiagnostic list" where
  "undeclared_policies a =
     (let declared = concat (map (um_policies \<circ> snd) (ua_modules a))
      in concat (map (\<lambda>r. map (UndeclaredPolicy (route_label r)) (filter (\<lambda>p. p \<notin> set declared) (ur_policies r)))
           (ua_routes a)))"

definition export_declared :: "UagModule \<Rightarrow> string \<Rightarrow> bool" where
  "export_declared m e \<longleftrightarrow>
     bt_get (um_controllers m) e \<noteq> None \<or> e \<in> set (um_services m) \<or> e \<in> set (um_policies m)"

definition undeclared_exports :: "UagArtifact \<Rightarrow> UagDiagnostic list" where
  "undeclared_exports a =
     concat (map (\<lambda>(name, m). map (UndeclaredExport name) (filter (\<lambda>e. \<not> export_declared m e) (um_exports m)))
       (ua_modules a))"

definition validate :: "(string \<Rightarrow> string \<Rightarrow> bool) \<Rightarrow> UagArtifact \<Rightarrow> ValidateOptions \<Rightarrow> (UagDiagnostic list, unit) result" where
  "validate is_file a options =
     (let diagnostics =
        duplicate_routes a @ unregistered_pages a @
        (case pages_dir options of None \<Rightarrow> [] | Some dir \<Rightarrow> missing_page_components is_file a dir) @
        undeclared_policies a @ undeclared_exports a
      in if diagnostics = [] then Ok () else Err diagnostics)"

section \<open>What validation decides\<close>

lemma bt_collect_wf: "bt_wf t \<Longrightarrow> bt_wf (fold (\<lambda>(k, v). bt_insert k v) kvs t)"
  by (induction kvs arbitrary: t) auto

lemma bt_collect_wf_new [simp]: "bt_wf (bt_collect kvs)"
  by (simp add: bt_collect_def bt_collect_wf)

lemma bt_mem_iff: "bt_wf t \<Longrightarrow> (k, v) \<in> set t \<longleftrightarrow> bt_get t k = Some v"
  by (simp add: bt_get_def bt_wf_def strict_sorted_iff)

lemma bt_get_bt_collect: "bt_get (bt_collect kvs) k = map_of (rev kvs) k"
  by (simp add: bt_collect_def bt_get_collect split: option.split)

lemma bt_get_bt_collect_None: "bt_get (bt_collect kvs) k = None \<longleftrightarrow> k \<notin> fst ` set kvs"
  by (simp add: bt_get_bt_collect map_of_eq_None_iff)

lemma set_bt_collect:
  assumes "distinct (map fst kvs)"
  shows "set (bt_collect kvs) = set kvs"
proof -
  have "(k, v) \<in> set (bt_collect kvs) \<longleftrightarrow> (k, v) \<in> set kvs" for k v
    using assms by (simp add: bt_mem_iff bt_get_bt_collect rev_map [symmetric] del: rev_map)
  then show ?thesis
    by auto
qed

definition handlers_at :: "UagRoute list \<Rightarrow> string \<times> string \<Rightarrow> string list" where
  "handlers_at rs k = map ur_handler (filter (\<lambda>r. (ur_method r, ur_path r) = k) rs)"

lemma by_key_eq: "bt_wf (by_key rs) \<and> bt_get (by_key rs) k = (if handlers_at rs k = [] then None else Some (handlers_at rs k))"
  by (induction rs arbitrary: k rule: rev_induct)
    (simp_all add: by_key_def handlers_at_def Let_def del: bt_insert.simps)

lemma distinct_map_iff_filter: "distinct (map f xs) \<longleftrightarrow> (\<forall>k. length (filter (\<lambda>x. f x = k) xs) \<le> 1)"
proof (induction xs)
  case (Cons x xs)
  have "f x \<notin> f ` set xs \<longleftrightarrow> length (filter (\<lambda>y. f y = f x) xs) = 0"
    by (auto simp: filter_empty_conv image_iff)
  then show ?case
    using Cons by (auto simp: le_Suc_eq split: if_splits)
qed simp

text \<open>The diagnostics of an artifact, each kind by what it reports.\<close>

lemma in_duplicate_routes:
  "d \<in> set (duplicate_routes a) \<longleftrightarrow>
   (\<exists>m p. d = DuplicateRoute m p (handlers_at (ua_routes a) (m, p)) \<and> 1 < length (handlers_at (ua_routes a) (m, p)))"
proof -
  have "((m, p), hs) \<in> set (by_key (ua_routes a)) \<longleftrightarrow>
      hs = handlers_at (ua_routes a) (m, p) \<and> hs \<noteq> []" for m p hs
    using by_key_eq [of "ua_routes a" "(m, p)"] by (auto simp: bt_mem_iff)
  then have "d \<in> set (duplicate_routes a) \<longleftrightarrow>
      (\<exists>m p hs. d = DuplicateRoute m p hs \<and> (hs = handlers_at (ua_routes a) (m, p) \<and> hs \<noteq> []) \<and> 1 < length hs)"
    by (auto simp: duplicate_routes_def image_iff Bex_def)
  then show ?thesis
    by fastforce
qed

lemma in_unregistered_pages:
  "d \<in> set (unregistered_pages a) \<longleftrightarrow>
   (\<exists>r \<in> set (ua_routes a). \<exists>p \<in> set (ur_pages r). d = UnregisteredPage (route_label r) p \<and> bt_get (ua_pages a) p = None)"
  by (auto simp: unregistered_pages_def)

lemma in_missing_page_components:
  "d \<in> set (missing_page_components is_file a dir) \<longleftrightarrow>
   (\<exists>p. bt_get (ua_pages a) p \<noteq> None \<and> d = MissingPageComponent p (map (\<lambda>ext. p @ ''.'' @ ext) PAGE_EXTENSIONS) \<and>
      (\<forall>ext \<in> set PAGE_EXTENSIONS. \<not> is_file dir (p @ ''.'' @ ext)))"
  by (auto simp: missing_page_components_def Let_def list_ex_iff bt_keys_iff split: if_splits)

lemma in_undeclared_policies:
  "d \<in> set (undeclared_policies a) \<longleftrightarrow>
   (\<exists>r \<in> set (ua_routes a). \<exists>p \<in> set (ur_policies r). d = UndeclaredPolicy (route_label r) p \<and>
      p \<notin> (\<Union>m \<in> set (ua_modules a). set (um_policies (snd m))))"
  by (auto simp: undeclared_policies_def Let_def)

lemma in_undeclared_exports:
  "d \<in> set (undeclared_exports a) \<longleftrightarrow>
   (\<exists>(n, m) \<in> set (ua_modules a). \<exists>e \<in> set (um_exports m). d = UndeclaredExport n e \<and> \<not> export_declared m e)"
  by (auto simp: undeclared_exports_def)

lemmas in_diagnostics =
  in_duplicate_routes in_unregistered_pages in_missing_page_components in_undeclared_policies in_undeclared_exports

lemma empty_iff_no_member: "xs = [] \<longleftrightarrow> (\<forall>x. x \<notin> set xs)"
  by (cases xs) auto

lemma no_duplicate_routes:
  "duplicate_routes a = [] \<longleftrightarrow> distinct (map (\<lambda>r. (ur_method r, ur_path r)) (ua_routes a))"
  by (simp add: empty_iff_no_member [of "duplicate_routes a"] in_duplicate_routes distinct_map_iff_filter
      handlers_at_def not_less)

lemma method_as_str_inject [simp]: "method_as_str a = method_as_str b \<longleftrightarrow> a = b"
  by (cases a; cases b) (simp_all add: method_as_str_def)

lemma distinct_map_sort_key: "distinct (map f (sort_key g xs)) = distinct (map f xs)"
  by (simp add: distinct_map_iff_filter filter_sort)

lemma built_routes:
  "set (ua_routes (uag_build g cs)) =
     {route_from (md_name d) r (controller_method_index d) | d r. d \<in> set (graph_modules g) \<and> r \<in> set (md_routes d)}"
  by (auto simp: uag_build_def uag_new_def module_routes_def)

lemma built_modules:
  "distinct (map md_name (graph_modules g)) \<Longrightarrow>
   set (ua_modules (uag_build g cs)) = (\<lambda>d. (md_name d, module_from d)) ` set (graph_modules g)"
  by (simp add: uag_build_def uag_new_def set_bt_collect comp_def)

lemma built_pages: "ua_pages (uag_build g cs) = ca_pages cs"
  by (simp add: uag_build_def uag_new_def)

lemma built_keys_distinct:
  "distinct (map (\<lambda>r. (ur_method r, ur_path r)) (ua_routes (uag_build g cs))) \<longleftrightarrow>
   distinct (map (\<lambda>r. (rd_method r, rd_path r)) (concat (map md_routes (graph_modules g))))"
proof -
  have keys: "map (\<lambda>r. (ur_method r, ur_path r)) (concat (map module_routes ds)) =
      map (map_prod method_as_str (\<lambda>p. p)) (map (\<lambda>r. (rd_method r, rd_path r)) (concat (map md_routes ds)))" for ds
    by (induction ds) (simp_all add: module_routes_def route_from_def)
  have inj: "inj_on (map_prod method_as_str (\<lambda>p :: string. p)) A" for A
    by (auto intro!: inj_onI)
  show ?thesis
    unfolding uag_build_def uag_new_def UagArtifact.simps distinct_map_sort_key keys
    using inj by (simp only: distinct_map [of "map_prod method_as_str (\<lambda>p. p)"]) simp
qed

lemma built_exports:
  "export_declared (module_from d) e \<longleftrightarrow>
   e \<in> set (map fst (zip (md_controllers d) (md_controller_methods d))) \<union> set (md_services d) \<union> set (md_policies d)"
  by (force simp: export_declared_def module_from_def bt_get_bt_collect_None image_iff)

text \<open>
  C17.  For an application whose module graph was built, validation accepts the artifact exactly when no two
  routes of the application share method and path, every page a route declares or its controller method
  returns is registered, every policy a route names is declared by some module, every export of a module
  is one of its controllers, services or policies, and, when the page directory is given, every registered
  page has a component file.  When it refuses, it reports at least one problem, and every route conflict
  with all its handlers in artifact order.
\<close>

theorem validation_is_exact:
  assumes "graph_new ms = Some (Ok g)"
  shows "(validate is_file (uag_build g cs) opts = Ok () \<longleftrightarrow>
      distinct (map (\<lambda>r. (rd_method r, rd_path r)) (concat (map md_routes ms))) \<and>
      (\<forall>d \<in> set ms. \<forall>r \<in> set (md_routes d).
         (\<forall>p \<in> set (route_pages r (controller_method_index d)). bt_get (ca_pages cs) p \<noteq> None) \<and>
         set (rd_policies r) \<subseteq> (\<Union>d' \<in> set ms. set (md_policies d'))) \<and>
      (\<forall>d \<in> set ms. set (md_exports d) \<subseteq>
         set (map fst (zip (md_controllers d) (md_controller_methods d))) \<union> set (md_services d) \<union> set (md_policies d)) \<and>
      (\<forall>dir p. pages_dir opts = Some dir \<longrightarrow> bt_get (ca_pages cs) p \<noteq> None \<longrightarrow>
         (\<exists>ext \<in> {''tsx'', ''vue'', ''svelte''}. is_file dir (p @ ''.'' @ ext)))) \<and>
    (\<forall>ds. validate is_file (uag_build g cs) opts = Err ds \<longrightarrow>
       ds \<noteq> [] \<and>
       (\<forall>m p hs. DuplicateRoute m p hs \<in> set ds \<longleftrightarrow>
          hs = handlers_at (ua_routes (uag_build g cs)) (m, p) \<and> 1 < length hs))"
proof -
  let ?a = "uag_build g cs"
  have g: "graph_modules g = ms" and names: "distinct (map md_name (graph_modules g))"
    using assms check_duplicates_from_iff [of "{}" ms]
    by (auto simp: graph_new_def check_duplicates_def map_option_case rbind_eq_Ok_iff split: sum.splits option.splits)
  have pages: "unregistered_pages ?a = [] \<longleftrightarrow>
      (\<forall>d \<in> set ms. \<forall>r \<in> set (md_routes d). \<forall>p \<in> set (route_pages r (controller_method_index d)). bt_get (ca_pages cs) p \<noteq> None)"
    unfolding empty_iff_no_member [of "unregistered_pages ?a"] in_unregistered_pages built_routes built_pages g
    by (fastforce simp: route_from_def)
  have policies: "undeclared_policies ?a = [] \<longleftrightarrow>
      (\<forall>d \<in> set ms. \<forall>r \<in> set (md_routes d). set (rd_policies r) \<subseteq> (\<Union>d' \<in> set ms. set (md_policies d')))"
    unfolding empty_iff_no_member [of "undeclared_policies ?a"] in_undeclared_policies built_routes
      built_modules [OF names] g
    by (fastforce simp: route_from_def module_from_def)
  have exports: "undeclared_exports ?a = [] \<longleftrightarrow>
      (\<forall>d \<in> set ms. set (md_exports d) \<subseteq>
         set (map fst (zip (md_controllers d) (md_controller_methods d))) \<union> set (md_services d) \<union> set (md_policies d))"
    unfolding empty_iff_no_member [of "undeclared_exports ?a"] in_undeclared_exports built_modules [OF names] g
    by (auto simp: built_exports) (auto simp: module_from_def)
  have files: "missing_page_components is_file ?a dir = [] \<longleftrightarrow>
      (\<forall>p. bt_get (ca_pages cs) p \<noteq> None \<longrightarrow> (\<exists>ext \<in> {''tsx'', ''vue'', ''svelte''}. is_file dir (p @ ''.'' @ ext)))" for dir
    unfolding empty_iff_no_member [of "missing_page_components is_file ?a dir"] in_missing_page_components built_pages
    unfolding PAGE_EXTENSIONS_def list.set by blast
  have ok: "validate is_file ?a opts = Ok () \<longleftrightarrow>
      duplicate_routes ?a = [] \<and> unregistered_pages ?a = [] \<and> undeclared_policies ?a = [] \<and> undeclared_exports ?a = [] \<and>
      (\<forall>dir. pages_dir opts = Some dir \<longrightarrow> missing_page_components is_file ?a dir = [])"
    by (auto simp: validate_def Let_def split: option.splits)
  have err: "ds \<noteq> [] \<and> (DuplicateRoute m p hs \<in> set ds \<longleftrightarrow> DuplicateRoute m p hs \<in> set (duplicate_routes ?a))"
    if "validate is_file ?a opts = Err ds" for ds m p hs
    using that
    by (auto simp: validate_def Let_def in_diagnostics split: if_splits option.splits)
  have "DuplicateRoute m p hs \<in> set (duplicate_routes ?a) \<longleftrightarrow>
      hs = handlers_at (ua_routes ?a) (m, p) \<and> 1 < length hs" for m p hs
    by (auto simp: in_duplicate_routes)
  with err show ?thesis
    unfolding ok pages policies exports files no_duplicate_routes built_keys_distinct g by blast
qed

definition sample_show :: RouteDescriptor where
  "sample_show =
     \<lparr>rd_method = Get, rd_path = ''/links/{link}'', rd_name = ''links.show'', rd_handler = ''LinksController::show'',
      rd_pages = [], rd_action_fields = [], rd_action_type = [], rd_query_fields = [], rd_query_type = [],
      rd_query_array = False, rd_query_string_fields = [], rd_query_string_type = [], rd_policies = [''LinkPolicy'']\<rparr>"

definition sample_application :: "ModuleDescriptor list" where
  "sample_application =
     [(module_new ''Accounts'')\<lparr>md_policies := [''LinkPolicy''], md_exports := [''LinkPolicy'']\<rparr>,
      (module_new ''Links'')\<lparr>md_imports := [''Accounts''], md_controllers := [''LinksController''],
         md_controller_methods := [[\<lparr>cm_name = ''show'', cm_params = [''link''], cm_page = Some ''Show''\<rparr>]],
         md_routes := [sample_show]\<rparr>]"

definition sample_contracts :: ContractArtifact where
  "sample_contracts = contract_artifact_new [(''Show'', \<lparr>page_props = []\<rparr>)]"

lemma sample_graph: "graph_new sample_application = Some (Ok \<lparr>graph_modules = sample_application\<rparr>)"
  by code_simp

lemma sample_cycle:
  "graph_new [(module_new ''A'')\<lparr>md_imports := [''B'']\<rparr>, (module_new ''B'')\<lparr>md_imports := [''A'']\<rparr>] =
   Some (Err (CircularDependency [''A'', ''B'', ''A'']))"
  by code_simp

lemma sample_pages: "route_pages sample_show (controller_method_index (sample_application ! 1)) = [''Show'']"
  by code_simp

theorem validation_is_exact_witness:
  "graph_new sample_application = Some (Ok \<lparr>graph_modules = sample_application\<rparr>) \<and>
   validate (\<lambda>dir file. file = ''Show.vue'') (uag_build \<lparr>graph_modules = sample_application\<rparr> sample_contracts)
     \<lparr>pages_dir = Some ''pages''\<rparr> = Ok ()"
proof
  show graph: "graph_new sample_application = Some (Ok \<lparr>graph_modules = sample_application\<rparr>)"
    by (rule sample_graph)
  have "sample_application ! 1 = last sample_application"
    by (simp add: sample_application_def)
  then have "route_pages sample_show (controller_method_index (last sample_application)) = [''Show'']"
    using sample_pages by simp
  then show "validate (\<lambda>dir file. file = ''Show.vue'')
      (uag_build \<lparr>graph_modules = sample_application\<rparr> sample_contracts) \<lparr>pages_dir = Some ''pages''\<rparr> = Ok ()"
    by (subst validation_is_exact [OF graph, THEN conjunct1])
      (simp add: sample_application_def sample_contracts_def contract_artifact_new_def bt_get_def module_new_def,
        simp add: sample_show_def)
qed

section \<open>The registry of page contracts\<close>

text \<open>No two registered pages differ in the case of their letters only, and a registration is never replaced.\<close>

definition contracts_ok :: "PageContracts \<Rightarrow> bool" where
  "contracts_ok cs \<longleftrightarrow> bt_wf (pc_pages cs) \<and> distinct (map to_ascii_lowercase (bt_keys (pc_pages cs)))"

lemma contracts_ok_new: "contracts_ok contracts_new"
  by (simp add: contracts_ok_def contracts_new_def bt_keys_def)

lemma bt_keys_insert_fresh:
  "bt_get t k = None \<Longrightarrow> \<exists>as bs. bt_keys t = as @ bs \<and> bt_keys (bt_insert k v t) = as @ k # bs"
proof (induction k v t rule: bt_insert.induct)
  case (2 k v j w t)
  show ?case
  proof (cases "k < j")
    case True
    then show ?thesis
      by (intro exI [of _ "[]"] exI [of _ "bt_keys ((j, w) # t)"]) (simp add: bt_keys_def)
  next
    case False
    then obtain as bs where "bt_keys t = as @ bs" "bt_keys (bt_insert k v t) = as @ k # bs"
      using 2 by (auto simp: bt_get_def split: if_splits)
    then show ?thesis
      using False 2(2) by (intro exI [of _ "j # as"] exI [of _ bs]) (simp add: bt_keys_def bt_get_def split: if_splits)
  qed
qed (simp add: bt_keys_def)

lemma register_keeps_ok:
  assumes "contracts_ok cs" "register_entry cs entry = Ok cs'"
  shows "contracts_ok cs'"
    "bt_get (pc_pages cs') (pce_name entry) = Some \<lparr>page_props = pce_schema entry\<rparr>"
    "p \<noteq> pce_name entry \<Longrightarrow> bt_get (pc_pages cs') p = bt_get (pc_pages cs) p"
proof -
  let ?n = "pce_name entry" and ?t = "pc_pages cs"
  have fresh: "bt_get ?t ?n = None" and cs': "pc_pages cs' = bt_insert ?n \<lparr>page_props = pce_schema entry\<rparr> ?t"
    and case_fresh: "to_ascii_lowercase ?n \<notin> to_ascii_lowercase ` set (bt_keys ?t)"
    using assms(2)
    by (auto simp: register_entry_def contracts_insert_def find_None_iff eq_ignore_ascii_case_def
        split: if_splits option.splits)
  obtain as bs where "bt_keys ?t = as @ bs" "bt_keys (pc_pages cs') = as @ ?n # bs"
    using bt_keys_insert_fresh [OF fresh] cs' by metis
  then show "contracts_ok cs'"
    using assms(1) case_fresh cs' by (auto simp: contracts_ok_def)
  show "bt_get (pc_pages cs') ?n = Some \<lparr>page_props = pce_schema entry\<rparr>"
    "p \<noteq> ?n \<Longrightarrow> bt_get (pc_pages cs') p = bt_get ?t p"
    by (simp_all add: cs')
qed

lemma register_refuses_iff:
  "(\<exists>e. register_entry cs entry = Err e) \<longleftrightarrow>
   to_ascii_lowercase (pce_name entry) \<in> to_ascii_lowercase ` set (bt_keys (pc_pages cs))"
proof (cases "bt_get (pc_pages cs) (pce_name entry)")
  case None
  show ?thesis
  proof (cases "find (\<lambda>existing. eq_ignore_ascii_case existing (pce_name entry)) (bt_keys (pc_pages cs))")
    case none: None
    then have "to_ascii_lowercase (pce_name entry) \<notin> to_ascii_lowercase ` set (bt_keys (pc_pages cs))"
      by (auto simp: find_None_iff eq_ignore_ascii_case_def)
    then show ?thesis
      using None none by (simp add: register_entry_def contracts_insert_def)
  next
    case (Some existing)
    then show ?thesis
      using find_SomeD [OF Some] None
      by (auto simp: register_entry_def contracts_insert_def eq_ignore_ascii_case_def image_iff intro!: bexI [of _ existing])
  qed
next
  case (Some schema)
  then have "pce_name entry \<in> set (bt_keys (pc_pages cs))"
    by (simp add: bt_keys_iff)
  then show ?thesis
    using Some by (simp add: register_entry_def contracts_insert_def)
qed

end
