(* ===== verification/Typegen.thy ===== *)
theory Typegen
  imports App_Artifact
begin

text \<open>
  The code generators over the application graph artifact (\<^verbatim>\<open>uag/codegen/\<close>): Rust type texts read into
  shapes, TypeScript string literals, the generated TypeScript files, the OpenAPI document, and the
  command that writes the files (\<^verbatim>\<open>cli/commands/typegen.rs\<close>).  Reading a decimal fraction and turning it
  into a JSON number is a parameter; the file system is a map from paths to contents.
\<close>

section \<open>Type shapes\<close>

datatype TypeShape = TString | TNumber | TBoolean | TOptional TypeShape | TArray TypeShape | TUnknown

definition is_optional :: "TypeShape \<Rightarrow> bool" where
  "is_optional t = (case t of TOptional _ \<Rightarrow> True | _ \<Rightarrow> False)"

definition unwrapped :: "TypeShape \<Rightarrow> TypeShape" where
  "unwrapped t = (case t of TOptional inner \<Rightarrow> inner | other \<Rightarrow> other)"

text \<open>\<^verbatim>\<open>split_once(char::is_whitespace)\<close>, of which the code uses the part after the first white space.\<close>

fun after_whitespace :: "string \<Rightarrow> string" where
  "after_whitespace [] = []"
| "after_whitespace (a # s) =
     (if ws1 a then s
      else (case s of
              [] \<Rightarrow> []
            | b # t \<Rightarrow>
                if ws2 a b then t
                else (case t of
                        [] \<Rightarrow> after_whitespace s
                      | c # u \<Rightarrow> if ws3 a b c then u else after_whitespace s)))"

declare after_whitespace.simps [simp del]

lemma length_after_whitespace: "length (after_whitespace s) \<le> length s"
proof (induction s)
  case (Cons a s)
  then show ?case
    by (subst after_whitespace.simps) (auto split: list.split)
qed (simp add: after_whitespace.simps)

lemma length_trim_start: "length (trim_start s) \<le> length s"
  using suffix_trim_start [of s] by (rule suffix_length_le)

function strip_references :: "string \<Rightarrow> string" where
  "strip_references ty =
     (case strip_prefix ''&'' ty of
        None \<Rightarrow> ty
      | Some rest \<Rightarrow>
          (let ty = trim_start rest
           in case strip_prefix [CHR 0x27] ty of
                None \<Rightarrow> strip_references ty
              | Some rest \<Rightarrow> strip_references (trim_start (after_whitespace rest))))"
  by pat_completeness auto
termination
proof (relation "measure length", goal_cases)
  case (2 ty rest x)
  then show ?case
    using length_trim_start [of rest] by (auto simp: strip_prefix_eq_Some_iff)
next
  case (3 ty rest x rest')
  then show ?case
    using length_trim_start [of rest] length_trim_start [of "after_whitespace rest'"] length_after_whitespace [of rest']
    by (auto simp: strip_prefix_eq_Some_iff)
qed simp

declare strip_references.simps [simp del]

text \<open>The last piece of splitting at a double colon.\<close>

definition last_segment :: "string \<Rightarrow> string" where
  "last_segment s = (case split_once_pair CHR '':'' (rev s) of None \<Rightarrow> s | Some (a, _) \<Rightarrow> rev a)"

definition normalize :: "string \<Rightarrow> string" where
  "normalize rust_type =
     (let ty = strip_references (trim rust_type);
          head = takeWhile (\<lambda>c. c \<noteq> CHR ''<'') ty;
          tail = dropWhile (\<lambda>c. c \<noteq> CHR ''<'') ty
      in trim (last_segment head) @ tail)"

definition generic_argument :: "string \<Rightarrow> string \<Rightarrow> string option" where
  "generic_argument ty name =
     Option.bind (strip_prefix name ty) (\<lambda>s.
     Option.bind (strip_prefix ''<'' s) (\<lambda>s.
     map_option trim (strip_suffix ''>'' s)))"

lemma length_strip_references: "length (strip_references ty) \<le> length ty"
proof (induction ty rule: strip_references.induct)
  case (1 ty)
  show ?case
  proof (cases "strip_prefix ''&'' ty")
    case None
    then show ?thesis
      by (simp add: strip_references.simps)
  next
    case (Some rest)
    have ty: "ty = CHR ''&'' # rest"
      using Some by (simp add: strip_prefix_eq_Some_iff)
    show ?thesis
    proof (cases "strip_prefix [CHR 0x27] (trim_start rest)")
      case None
      then have "strip_references ty = strip_references (trim_start rest)"
        using Some by (subst strip_references.simps) simp
      then show ?thesis
        using 1(1) [OF Some refl None] ty length_trim_start [of rest] by simp
    next
      case quoted: (Some rest')
      then have "trim_start rest = CHR 0x27 # rest'"
        by (simp add: strip_prefix_eq_Some_iff)
      moreover have "strip_references ty = strip_references (trim_start (after_whitespace rest'))"
        using Some quoted by (subst strip_references.simps) simp
      ultimately show ?thesis
        using 1(2) [OF Some refl quoted] ty length_trim_start [of rest]
          length_trim_start [of "after_whitespace rest'"] length_after_whitespace [of rest'] by simp
    qed
  qed
qed

lemma split_once_pair_length: "split_once_pair d s = Some (a, b) \<Longrightarrow> length a \<le> length s"
  by (induction d s arbitrary: a rule: split_once_pair.induct) (auto split: if_splits)

lemma length_last_segment: "length (last_segment s) \<le> length s"
  using split_once_pair_length [of "CHR '':''" "rev s"] by (auto simp: last_segment_def split: option.split)

lemma length_normalize: "length (normalize ty) \<le> length ty"
proof -
  let ?ty = "strip_references (trim ty)"
  let ?h = "takeWhile (\<lambda>c. c \<noteq> CHR ''<'') ?ty" and ?t = "dropWhile (\<lambda>c. c \<noteq> CHR ''<'') ?ty"
  have "length ?h + length ?t = length ?ty"
    by (metis length_append takeWhile_dropWhile_id)
  moreover have "length (trim (last_segment ?h)) \<le> length ?h"
    using length_trim_le [of "last_segment ?h"] length_last_segment [of ?h] by linarith
  ultimately have "length (normalize ty) \<le> length ?ty"
    by (simp add: normalize_def Let_def)
  then show ?thesis
    using length_strip_references [of "trim ty"] length_trim_le [of ty] by linarith
qed

lemma generic_argument_eq:
  "generic_argument ty name = Some inner \<Longrightarrow> \<exists>arg. ty = name @ ''<'' @ arg @ ''>'' \<and> inner = trim arg"
  by (auto simp: generic_argument_def bind_eq_Some_iff strip_prefix_eq_Some_iff strip_suffix_eq_Some_iff)

lemma length_generic_argument: "generic_argument (normalize ty) name = Some inner \<Longrightarrow> length inner < length ty"
  using length_normalize [of ty] by (auto dest!: generic_argument_eq simp: length_trim_le le_imp_less_Suc le_less_trans
      intro: le_less_trans [OF length_trim_le])

definition NUMBERS :: "string list" where
  "NUMBERS = [''i8'', ''i16'', ''i32'', ''i64'', ''i128'', ''isize'', ''u8'', ''u16'', ''u32'', ''u64'', ''u128'',
     ''usize'', ''f32'', ''f64'']"

function parse :: "string \<Rightarrow> TypeShape" where
  "parse rust_type =
     (let ty = normalize rust_type
      in case generic_argument ty ''Option'' of
           Some inner \<Rightarrow> TOptional (parse inner)
         | None \<Rightarrow>
             (case generic_argument ty ''Vec'' of
                Some inner \<Rightarrow> TArray (parse inner)
              | None \<Rightarrow>
                  if ty \<in> {''String'', ''str'', ''char''} then TString
                  else if ty \<in> set NUMBERS then TNumber
                  else if ty = ''bool'' then TBoolean
                  else TUnknown))"
  by pat_completeness auto
termination
  by (relation "measure length") (auto dest: length_generic_argument)

declare parse.simps [simp del]

fun typescript :: "TypeShape \<Rightarrow> string" where
  "typescript TString = ''string''"
| "typescript TNumber = ''number''"
| "typescript TBoolean = ''boolean''"
| "typescript TUnknown = ''unknown''"
| "typescript (TOptional inner) = typescript inner @ '' | undefined''"
| "typescript (TArray inner) =
     (if is_optional inner then ''('' @ typescript inner @ '')[]'' else typescript inner @ ''[]'')"

definition rust_to_typescript :: "string \<Rightarrow> string" where
  "rust_to_typescript rust_type = typescript (parse rust_type)"

text \<open>\<^verbatim>\<open>json!\<close> with an object builds a map of its keys.\<close>

definition jobj :: "(string \<times> json) list \<Rightarrow> json" where
  "jobj kvs = JObject (bt_collect kvs)"

fun json_schema :: "TypeShape \<Rightarrow> json" where
  "json_schema TString = jobj [(''type'', JString ''string'')]"
| "json_schema TNumber = jobj [(''type'', JString ''number'')]"
| "json_schema TBoolean = jobj [(''type'', JString ''boolean'')]"
| "json_schema TUnknown = jobj []"
| "json_schema (TOptional inner) =
     jobj [(''anyOf'', JArray [json_schema inner, jobj [(''type'', JString ''null'')]])]"
| "json_schema (TArray inner) = jobj [(''type'', JString ''array''), (''items'', json_schema inner)]"

section \<open>TypeScript literals\<close>

definition hex_digit4 :: "nat \<Rightarrow> string" where
  "hex_digit4 n = ''00'' @ [''0123456789abcdef'' ! (n div 16), ''0123456789abcdef'' ! (n mod 16)]"

definition ts_char :: "char \<Rightarrow> string" where
  "ts_char c =
     (if c = CHR 0x22 then [CHR 0x5C, CHR 0x22]
      else if c = CHR 0x5C then [CHR 0x5C, CHR 0x5C]
      else if c = CHR 0x0A then [CHR 0x5C, CHR ''n'']
      else if c = CHR 0x0D then [CHR 0x5C, CHR ''r'']
      else if c = CHR 0x09 then [CHR 0x5C, CHR ''t'']
      else if of_char c < (32 :: nat) then [CHR 0x5C, CHR ''u''] @ hex_digit4 (of_char c)
      else [c])"

definition ts_string :: "string \<Rightarrow> string" where
  "ts_string v = [CHR 0x22] @ concat (map ts_char v) @ [CHR 0x22]"

definition GENERATED_HEADER :: string where
  "GENERATED_HEADER =
     ''// Generated by `arc typegen` from the Arcature application graph.'' @ [CHR 0x0A] @
     ''// Do not edit -- this file is overwritten on the next run.'' @ [CHR 0x0A]"

definition unlines :: "string list \<Rightarrow> string" where
  "unlines ls = concat (map (\<lambda>l. l @ [CHR 0x0A]) ls)"

section \<open>The TypeScript files\<close>

text \<open>\<^verbatim>\<open>dedup_by\<close> on a key: of neighbours with one key the first stays.\<close>

fun dedup_by_key :: "('a \<Rightarrow> 'k) \<Rightarrow> 'a list \<Rightarrow> 'a list" where
  "dedup_by_key f (x # y # xs) = (if f x = f y then dedup_by_key f (x # xs) else x # dedup_by_key f (y # xs))"
| "dedup_by_key f xs = xs"

definition HELPER :: string where
  \<open>HELPER = [CHR 0x0A] @ unlines
      [''export type RouteName = keyof typeof routes;'',
       [],
       ''type ParamName<N extends RouteName> = (typeof routes)[N]['' @ [CHR 0x22] @ ''params'' @ [CHR 0x22] @ ''][number];'',
       [],
       ''type RouteParams<N extends RouteName> = { [K in ParamName<N>]: string | number };'',
       [],
       ''type RouteArgs<N extends RouteName> = [ParamName<N>] extends [never]'',
       ''  ? []'',
       ''  : [params: RouteParams<N>];'',
       [],
       ''/**'',
       '' * Builds the path for a named route.'',
       '' *'',
       '' * Omitting a required parameter is a compile error, not a runtime surprise.'',
       '' */'',
       ''export function route<N extends RouteName>(name: N, ...args: RouteArgs<N>): string;'',
       ''export function route(name: RouteName, params?: Record<string, string | number>): string {'',
       ''  return routes[name].path.replace(/'' @ [CHR 0x5C] @ ''{([^}]+)'' @ [CHR 0x5C] @ ''}/g, (_match: string, token: string) => {'',
       ''    const wildcard = token.startsWith('' @ [CHR 0x22] @ ''*'' @ [CHR 0x22] @ '');'',
       ''    const key = wildcard ? token.slice(1) : token;'',
       ''    const value = params?.[key];'',
       ''    if (value === undefined) {'',
       ''      throw new Error(`route(${name}): missing parameter '' @ [CHR 0x22] @ ''${key}'' @ [CHR 0x22] @ ''`);'',
       ''    }'',
       ''    const encoded = String(value);'',
       ''    // A wildcard stands for many path segments, so its separators survive.'',
       ''    return wildcard'',
       ''      ? encoded.split('' @ [CHR 0x22] @ ''/'' @ [CHR 0x22] @ '').map(encodeURIComponent).join('' @ [CHR 0x22] @ ''/'' @ [CHR 0x22] @ '')'',
       ''      : encodeURIComponent(encoded);'',
       ''  });'',
       ''}'',
       [],
       ''/** The HTTP method a named route answers on. */'',
       ''export function routeMethod(name: RouteName): string {'',
       ''  return routes[name].method;'',
       ''}'']\<close>

type_synonym route_entry = "string \<times> string \<times> string \<times> string list"

definition route_entries :: "UagArtifact \<Rightarrow> route_entry list" where
  "route_entries a =
     dedup_by_key fst (sort (map (\<lambda>r. (ur_name r, ur_method r, ur_path r, ur_params r))
       (filter (\<lambda>r. ur_name r \<noteq> []) (ua_routes a))))"

definition routes_ts :: "UagArtifact \<Rightarrow> string" where
  "routes_ts a =
     GENERATED_HEADER @ [CHR 0x0A] @ unlines [''export const routes = {''] @
     concat (map (\<lambda>(name, m, path, params).
        ''  '' @ ts_string name @ '': { method: '' @ ts_string m @ '', path: '' @ ts_string path @
        '', params: ['' @ join '', '' (map ts_string params) @ ''] },'' @ [CHR 0x0A]) (route_entries a)) @
     unlines [''} as const;''] @ HELPER"

definition form_actions :: "UagArtifact \<Rightarrow> (string \<times> UagPayload) list" where
  "form_actions a =
     dedup_by_key fst (sort_key fst (List.map_filter (\<lambda>r. map_option (Pair (ur_name r)) (ur_action r))
       (filter (\<lambda>r. ur_name r \<noteq> []) (ua_routes a))))"

definition bool_text :: "bool \<Rightarrow> string" where
  "bool_text b = (if b then ''true'' else ''false'')"

definition forms_ts :: "UagArtifact \<Rightarrow> string" where
  "forms_ts a =
     GENERATED_HEADER @ [CHR 0x0A] @ unlines [''export const forms = {''] @
     concat (map (\<lambda>(name, action).
        ''  '' @ ts_string name @ unlines ['': {''] @
        ''    request: '' @ ts_string (up_type_name action) @ unlines ['',''] @
        unlines [''    fields: {''] @
        concat (map (\<lambda>f.
          (let shape = parse (uf_ty f)
           in ''      '' @ ts_string (uf_name f) @ '': { type: '' @ ts_string (typescript (unwrapped shape)) @
              '', optional: '' @ bool_text (is_optional shape) @
              '', rules: ['' @ join '', '' (map ts_string (uf_validates f)) @ unlines [''] },''])) (up_fields action)) @
        unlines [''    },'', ''  },'']) (form_actions a)) @
     unlines [''} as const;'', [], ''export type FormName = keyof typeof forms;'', [],
       ''export type FormFieldName<N extends FormName> = keyof (typeof forms)[N]['' @ ts_string ''fields'' @ ''];'', [],
       ''/** The value type of every form field, as the server declares it. */'',
       ''export type FormValues = {''] @
     concat (map (\<lambda>(name, action).
        ''  '' @ ts_string name @ unlines ['': {''] @
        concat (map (\<lambda>f. ''    '' @ ts_string (uf_name f) @ '': '' @ rust_to_typescript (uf_ty f) @ unlines ['';''])
          (up_fields action)) @
        unlines [''  };'']) (form_actions a)) @
     unlines [''};'']"

definition indent :: "nat \<Rightarrow> string" where
  "indent depth = concat (replicate depth ''  '')"

definition is_nullable :: "ContractType \<Rightarrow> bool" where
  "is_nullable t = (case t of CNullable _ \<Rightarrow> True | _ \<Rightarrow> False)"

fun contract_type :: "ContractType \<Rightarrow> nat \<Rightarrow> string" where
  "contract_type CBoolean depth = ''boolean''"
| "contract_type CNumber depth = ''number''"
| "contract_type CString depth = ''string''"
| "contract_type (CArray item) depth =
     (if is_nullable item then ''('' @ contract_type item depth @ '')[]'' else contract_type item depth @ ''[]'')"
| "contract_type (CObject fs) depth =
     (if fs = [] then ''Record<string, never>''
      else unlines [''{''] @
        concat (map (\<lambda>(name, prop).
          (case prop of PropSchema required ty \<Rightarrow>
             indent (depth + 1) @ ts_string name @ (if required then [] else ''?'') @ '': '' @
             contract_type ty (depth + 1) @ unlines ['';''])) fs) @
        indent depth @ ''}'')"
| "contract_type (CNullable item) depth = contract_type item depth @ '' | null''"

definition pages_dts :: "UagArtifact \<Rightarrow> string" where
  "pages_dts a =
     GENERATED_HEADER @ [CHR 0x0A] @ unlines [''export type PageProps = {''] @
     concat (map (\<lambda>(name, page).
        ''  '' @ ts_string name @ '': '' @ contract_type (CObject (page_props page)) 1 @ unlines ['';'']) (ua_pages a)) @
     unlines [''};'', [], ''export type PageName = keyof PageProps;'', [],
       ''export type PropsOf<N extends PageName> = PageProps[N];'']"

definition index_ts :: string where
  "index_ts =
     GENERATED_HEADER @ unlines [[], ''export * from '' @ ts_string ''./routes'' @ '';'',
       ''export * from '' @ ts_string ''./forms'' @ '';'', ''export type * from '' @ ts_string ''./pages'' @ '';'']"

section \<open>Writing them\<close>

datatype TypegenError = Invalid "UagDiagnostic list" | WriteError string

text \<open>
  A file that cannot be written: \<open>torn_at\<close> is \<open>None\<close> when it cannot be opened, and the number of bytes that
  are written when it can, which empties it first, and the write stops half way.
\<close>

record files =
  contents :: "string \<Rightarrow> string option"
  writes :: "string list"
  torn_at :: "string \<Rightarrow> nat option"

definition OUTPUT_DIR :: string where
  "OUTPUT_DIR = ''resources/js/generated''"

definition PAGES_DIR :: string where
  "PAGES_DIR = ''resources/js/pages''"

definition generated_files :: "UagArtifact \<Rightarrow> (string \<times> string) list" where
  "generated_files a =
     [(''routes.ts'', routes_ts a), (''pages.d.ts'', pages_dts a), (''forms.ts'', forms_ts a), (''index.ts'', index_ts)]"

definition write_file :: "(string \<Rightarrow> bool) \<Rightarrow> string \<Rightarrow> string \<Rightarrow> files \<Rightarrow> (TypegenError, unit) result \<times> files" where
  "write_file writable path text fs =
     (if contents fs path = Some text then (Ok (), fs)
      else if writable path then (Ok (), fs\<lparr>contents := (contents fs)(path \<mapsto> text), writes := writes fs @ [path]\<rparr>)
      else (Err (WriteError path),
        case torn_at fs path of None \<Rightarrow> fs | Some k \<Rightarrow> fs\<lparr>contents := (contents fs)(path \<mapsto> take k text)\<rparr>))"

fun write_all :: "(string \<Rightarrow> bool) \<Rightarrow> (string \<times> string) list \<Rightarrow> files \<Rightarrow> (TypegenError, string list) result \<times> files" where
  "write_all writable [] fs = (Ok [], fs)"
| "write_all writable ((path, text) # rest) fs =
     (case write_file writable path text fs of
        (Err e, fs) \<Rightarrow> (Err e, fs)
      | (Ok _, fs) \<Rightarrow>
          (case write_all writable rest fs of
             (Err e, fs) \<Rightarrow> (Err e, fs)
           | (Ok written, fs) \<Rightarrow> (Ok (path # written), fs)))"

text \<open>The paths are relative to the root of the application; \<open>has_pages\<close> is whether its page directory exists.\<close>

definition emit :: "(string \<Rightarrow> bool) \<Rightarrow> (string \<Rightarrow> string \<Rightarrow> bool) \<Rightarrow> bool \<Rightarrow> UagArtifact \<Rightarrow> files \<Rightarrow>
    (TypegenError, string list) result \<times> files" where
  "emit writable is_file has_pages a fs =
     (case validate is_file a \<lparr>pages_dir = if has_pages then Some PAGES_DIR else None\<rparr> of
        Err diagnostics \<Rightarrow> (Err (Invalid diagnostics), fs)
      | Ok _ \<Rightarrow>
          if \<not> writable OUTPUT_DIR then (Err (WriteError OUTPUT_DIR), fs)
          else write_all writable (map (\<lambda>(name, text). (OUTPUT_DIR @ ''/'' @ name, text)) (generated_files a)) fs)"

section \<open>Literals cannot be left\<close>

text \<open>
  A reader of a TypeScript string literal in double quotes: the escapes \<^verbatim>\<open>n\<close>, \<^verbatim>\<open>r\<close>, \<^verbatim>\<open>t\<close>, \<^verbatim>\<open>u\<close> with four
  hexadecimal digits of a character below 256, and every other escaped character for itself; a bare
  line end is an error.
\<close>

definition hex_value :: "char \<Rightarrow> nat option" where
  "hex_value c =
     (let n = of_char c :: nat
      in if 48 \<le> n \<and> n \<le> 57 then Some (n - 48)
         else if 97 \<le> n \<and> n \<le> 102 then Some (n - 87)
         else if 65 \<le> n \<and> n \<le> 70 then Some (n - 55)
         else None)"

definition ts_escape :: "string \<Rightarrow> (char \<times> string) option" where
  "ts_escape s =
     (case s of
        [] \<Rightarrow> None
      | e # t \<Rightarrow>
          if e = CHR ''n'' then Some (CHR 0x0A, t)
          else if e = CHR ''r'' then Some (CHR 0x0D, t)
          else if e = CHR ''t'' then Some (CHR 0x09, t)
          else if e = CHR ''u'' then
            (case t of
               z # y # a # b # u \<Rightarrow>
                 if z = CHR ''0'' \<and> y = CHR ''0'' then
                   Option.bind (hex_value a) (\<lambda>i. map_option (\<lambda>j. (char_of (16 * i + j), u)) (hex_value b))
                 else None
             | _ \<Rightarrow> None)
          else Some (e, t))"

definition ts_step :: "string \<Rightarrow> (char \<times> string) option" where
  "ts_step s =
     (case s of
        [] \<Rightarrow> None
      | c # t \<Rightarrow>
          if c = CHR 0x5C then ts_escape t
          else if c \<in> {CHR 0x0A, CHR 0x0D} then None
          else Some (c, t))"

lemma ts_escape_shorter: "ts_escape s = Some (d, rest) \<Longrightarrow> length rest < length s"
  by (auto simp: ts_escape_def bind_eq_Some_iff split: list.splits if_splits)

lemma ts_step_shorter: "ts_step s = Some (d, rest) \<Longrightarrow> length rest < length s"
  by (auto simp: ts_step_def split: list.splits if_splits dest: ts_escape_shorter)

function ts_body :: "string \<Rightarrow> (string \<times> string) option" where
  "ts_body s =
     (if s \<noteq> [] \<and> hd s = CHR 0x22 then Some ([], tl s)
      else (case ts_step s of
              None \<Rightarrow> None
            | Some (d, rest) \<Rightarrow> map_option (\<lambda>(v, r). (d # v, r)) (ts_body rest)))"
  by pat_completeness auto
termination
  by (relation "measure length") (auto dest: ts_step_shorter)

declare ts_body.simps [simp del]

definition ts_read :: "string \<Rightarrow> (string \<times> string) option" where
  "ts_read s = (case s of [] \<Rightarrow> None | c # t \<Rightarrow> if c = CHR 0x22 then ts_body t else None)"

lemma hex_value_digit: "n < 16 \<Longrightarrow> hex_value (''0123456789abcdef'' ! n) = Some n"
proof -
  assume "n < 16"
  moreover have "\<forall>k \<in> {..<16}. hex_value (''0123456789abcdef'' ! k) = Some k"
    by code_simp
  ultimately show ?thesis
    by auto
qed

lemma ts_step_char: "ts_step (ts_char c @ rest) = Some (c, rest)"
proof -
  have "16 * (of_char c div 16) + of_char c mod 16 = (of_char c :: nat)"
    by simp
  moreover have "hex_value (''0123456789abcdef'' ! (of_char c div 16)) = Some (of_char c div 16)"
    if "of_char c < (32 :: nat)"
    using that by (intro hex_value_digit) simp
  moreover have "hex_value (''0123456789abcdef'' ! (of_char c mod 16)) = Some (of_char c mod 16)"
    by (intro hex_value_digit) simp
  ultimately show ?thesis
    unfolding ts_char_def ts_step_def ts_escape_def hex_digit4_def by (simp del: nth_Cons_Suc nth_Cons_0)
qed

lemma ts_char_not_quote: "hd (ts_char c @ rest) \<noteq> CHR 0x22" "ts_char c @ rest \<noteq> []"
  by (simp_all add: ts_char_def)

lemma ts_body_chars: "ts_body (concat (map ts_char v) @ [CHR 0x22] @ rest) = Some (v, rest)"
proof (induction v)
  case Nil
  then show ?case
    by (simp add: ts_body.simps)
next
  case (Cons c v)
  have "ts_body (ts_char c @ concat (map ts_char v) @ [CHR 0x22] @ rest) = Some (c # v, rest)"
    using Cons ts_char_not_quote [of c] by (subst ts_body.simps) (simp add: ts_step_char)
  then show ?case
    by simp
qed

text \<open>
  Whatever value a generator puts between quotes, reading the literal at its place gives back that
  value and stops exactly at its end: no route name, path, field or page can leave its literal.
\<close>

theorem literal_reads_back: "ts_read (ts_string v @ rest) = Some (v, rest)"
  using ts_body_chars [of v rest] by (simp add: ts_read_def ts_string_def)

section \<open>Type texts\<close>

text \<open>How a program writes a shape.\<close>

fun rust_type_of :: "TypeShape \<Rightarrow> string" where
  "rust_type_of TString = ''String''"
| "rust_type_of TNumber = ''i64''"
| "rust_type_of TBoolean = ''bool''"
| "rust_type_of TUnknown = ''Uuid''"
| "rust_type_of (TOptional t) = ''Option<'' @ rust_type_of t @ ''>''"
| "rust_type_of (TArray t) = ''Vec<'' @ rust_type_of t @ ''>''"

definition type_char :: "char \<Rightarrow> bool" where
  "type_char c \<longleftrightarrow> is_ascii_alphanumeric c \<or> c \<in> {CHR ''<'', CHR ''>''}"

lemma type_char_graphic: "type_char c \<Longrightarrow> graphic c"
  by (auto simp: type_char_def is_ascii_alphanumeric_def graphic_def Let_def)

lemma type_char_literals:
  "list_all type_char ''String'' \<and> list_all type_char ''i64'' \<and> list_all type_char ''bool'' \<and>
   list_all type_char ''Uuid'' \<and> list_all type_char ''Option<'' \<and> list_all type_char ''Vec<'' \<and> list_all type_char ''>''"
  by code_simp

lemma all_rust_type_of: "list_all type_char (rust_type_of t)"
  using type_char_literals by (induction t) (simp_all only: rust_type_of.simps list_all_append)

lemma set_rust_type_of: "c \<in> set (rust_type_of t) \<Longrightarrow> type_char c"
  using all_rust_type_of [of t] by (simp add: list_all_iff)

lemma trim_rust_type_of: "trim (rust_type_of t) = rust_type_of t"
  by (intro trim_graphic ballI type_char_graphic set_rust_type_of)

lemma strip_references_plain:
  assumes "s \<noteq> []" "hd s \<noteq> CHR ''&''"
  shows "strip_references s = s"
proof -
  have "strip_prefix ''&'' s = None"
    using assms by (cases s) (auto simp: strip_prefix_def)
  then show ?thesis
    by (subst strip_references.simps) simp
qed

lemma split_once_pair_none: "d \<notin> set s \<Longrightarrow> split_once_pair d s = None"
  by (induction d s rule: split_once_pair.induct) auto

lemma cut_at:
  assumes "d \<notin> set h" "t = [] \<or> hd t = d"
  shows "takeWhile (\<lambda>c. c \<noteq> d) (h @ t) = h" "dropWhile (\<lambda>c. c \<noteq> d) (h @ t) = t"
proof -
  have "takeWhile (\<lambda>c. c \<noteq> d) t = []" "dropWhile (\<lambda>c. c \<noteq> d) t = t"
    using assms(2) by (cases t; simp)+
  then show "takeWhile (\<lambda>c. c \<noteq> d) (h @ t) = h" "dropWhile (\<lambda>c. c \<noteq> d) (h @ t) = t"
    using assms(1) by (induction h) auto
qed

lemma normalize_plain:
  assumes "\<forall>c \<in> set (h @ t). type_char c" "CHR ''<'' \<notin> set h" "h \<noteq> []" "t = [] \<or> hd t = CHR ''<''"
  shows "normalize (h @ t) = h @ t"
proof -
  have "trim (h @ t) = h @ t" "trim h = h"
    using assms(1) by (auto intro!: trim_graphic type_char_graphic)
  moreover have "\<not> type_char CHR ''&''" "\<not> type_char CHR '':''"
    by (simp_all add: type_char_def is_ascii_alphanumeric_def)
  then have "CHR ''&'' \<notin> set h" "CHR '':'' \<notin> set h"
    using assms(1) by auto
  moreover from this have "last_segment h = h"
    using split_once_pair_none [of "CHR '':''" "rev h"] by (simp add: last_segment_def)
  moreover have "takeWhile (\<lambda>c. c \<noteq> CHR ''<'') (h @ t) = h" "dropWhile (\<lambda>c. c \<noteq> CHR ''<'') (h @ t) = t"
    using cut_at [OF assms(2,4)] by auto
  moreover have "strip_references (h @ t) = h @ t"
    using assms(3) hd_in_set [of h] \<open>CHR ''&'' \<notin> set h\<close> by (intro strip_references_plain) (auto simp del: hd_in_set)
  ultimately show ?thesis
    by (simp add: normalize_def Let_def)
qed

lemma normalize_generic:
  "name \<noteq> [] \<Longrightarrow> \<forall>c \<in> set name. is_ascii_alphanumeric c \<Longrightarrow>
   normalize (name @ ''<'' @ rust_type_of t @ ''>'') = name @ ''<'' @ rust_type_of t @ ''>''"
  by (intro normalize_plain)
    (auto simp: type_char_def is_ascii_alphanumeric_def Let_def dest: set_rust_type_of [unfolded type_char_def])

lemma generic_argument_self: "generic_argument (name @ ''<'' @ rust_type_of t @ ''>'') name = Some (rust_type_of t)"
  by (simp add: generic_argument_def bind_eq_Some_iff strip_prefix_eq_Some_iff strip_suffix_eq_Some_iff trim_rust_type_of)

lemma parse_leaf: "parse ''String'' = TString \<and> parse ''i64'' = TNumber \<and> parse ''bool'' = TBoolean \<and> parse ''Uuid'' = TUnknown"
  by code_simp

lemma parse_rust_type_of: "parse (rust_type_of t) = t"
proof (induction t)
  case (TOptional t)
  have "normalize (''Option'' @ ''<'' @ rust_type_of t @ ''>'') = ''Option'' @ ''<'' @ rust_type_of t @ ''>''"
    by (rule normalize_generic) (auto simp: is_ascii_alphanumeric_def Let_def)
  then show ?case
    using TOptional generic_argument_self [of "''Option''" t] by (subst parse.simps) (simp add: Let_def)
next
  case (TArray t)
  have "normalize (''Vec'' @ ''<'' @ rust_type_of t @ ''>'') = ''Vec'' @ ''<'' @ rust_type_of t @ ''>''"
    by (rule normalize_generic) (auto simp: is_ascii_alphanumeric_def Let_def)
  moreover have "generic_argument (''Vec'' @ ''<'' @ rust_type_of t @ ''>'') ''Option'' = None"
    by (simp add: generic_argument_def strip_prefix_def)
  ultimately show ?case
    using TArray generic_argument_self [of "''Vec''" t] by (subst parse.simps) (simp add: Let_def)
qed (use parse_leaf in simp_all)

lemma parse_spellings:
  "parse ''&str'' = TString \<and> parse (''&'' @ [CHR 0x27] @ ''static str'') = TString \<and>
   parse ''Option < std::vec::Vec<u8> >'' = TOptional (TArray TNumber) \<and> parse ''HashMap<String, i64>'' = TUnknown"
  by code_simp

section \<open>The generated route table\<close>

lemma dedup_by_key_set: "set (dedup_by_key f xs) \<subseteq> set xs \<and> f ` set (dedup_by_key f xs) = f ` set xs"
  by (induction f xs rule: dedup_by_key.induct) auto

lemma dedup_by_key_strict:
  "sorted (map f xs) \<Longrightarrow> sorted_wrt (<) (map f (dedup_by_key f xs))"
proof (induction f xs rule: dedup_by_key.induct)
  case (1 f x y xs)
  have later: "f x < k" if "f x \<noteq> f y" "k \<in> f ` set (dedup_by_key f (y # xs))" for k
  proof -
    have "f y \<le> k"
      using that(2) dedup_by_key_set [of f "y # xs"] 1(3) by auto
    then show ?thesis
      using that(1) 1(3) by auto
  qed
  show ?case
    using 1 later by (auto simp: image_iff)
qed auto

lemma sorted_map_fst: "sorted (xs :: ('a :: linorder \<times> 'b :: linorder) list) \<Longrightarrow> sorted (map fst xs)"
  unfolding sorted_map by (rule sorted_wrt_mono_rel) (auto simp: less_eq_prod_def)

text \<open>
  The generated table of routes has the names of the named routes in ascending order, each once, and every
  line is a route of the application.
\<close>

lemma route_entries_exact:
  "sorted_wrt (<) (map fst (route_entries a))"
  "set (map fst (route_entries a)) = ur_name ` {r \<in> set (ua_routes a). ur_name r \<noteq> []}"
  "e \<in> set (route_entries a) \<Longrightarrow>
   \<exists>r \<in> set (ua_routes a). e = (ur_name r, ur_method r, ur_path r, ur_params r) \<and> ur_name r \<noteq> []"
proof -
  let ?es = "map (\<lambda>r. (ur_name r, ur_method r, ur_path r, ur_params r)) (filter (\<lambda>r. ur_name r \<noteq> []) (ua_routes a))"
  show "sorted_wrt (<) (map fst (route_entries a))"
    unfolding route_entries_def by (intro dedup_by_key_strict sorted_map_fst) simp
  have "fst ` set (route_entries a) = fst ` set ?es"
    using dedup_by_key_set [of fst "sort ?es"] unfolding route_entries_def by simp
  then show "set (map fst (route_entries a)) = ur_name ` {r \<in> set (ua_routes a). ur_name r \<noteq> []}"
    by (simp add: image_image)
  show "\<exists>r \<in> set (ua_routes a). e = (ur_name r, ur_method r, ur_path r, ur_params r) \<and> ur_name r \<noteq> []"
    if "e \<in> set (route_entries a)"
    using that dedup_by_key_set [of fst "sort ?es"] unfolding route_entries_def by auto
qed

section \<open>What the command writes\<close>

definition settled :: "(string \<times> string) list \<Rightarrow> files \<Rightarrow> bool" where
  "settled out fs \<longleftrightarrow> (\<forall>(path, text) \<in> set out. contents fs path = Some text)"

lemma write_file_cases:
  "write_file writable path text fs = (r, fs') \<Longrightarrow>
   (r = Ok () \<and> contents fs' = (contents fs)(path \<mapsto> text) \<and> (writes fs' = writes fs \<or> writes fs' = writes fs @ [path]) \<and>
      (contents fs path = Some text \<longrightarrow> fs' = fs)) \<or>
   (r = Err (WriteError path) \<and> (\<forall>p. p \<noteq> path \<longrightarrow> contents fs' p = contents fs p) \<and> \<not> writable path)"
  by (auto simp: write_file_def split: if_splits option.splits)

lemma write_all_settled: "settled out fs \<Longrightarrow> write_all writable out fs = (Ok (map fst out), fs)"
  by (induction out) (auto simp: settled_def write_file_def)

lemma write_all_other: "write_all writable out fs = (r, fs') \<Longrightarrow> p \<notin> fst ` set out \<Longrightarrow> contents fs' p = contents fs p"
proof (induction out arbitrary: fs r fs')
  case (Cons e out)
  obtain path body where e: "e = (path, body)"
    by force
  obtain r1 fs1 where step: "write_file writable path body fs = (r1, fs1)"
    by force
  have "contents fs1 p = contents fs p"
    using write_file_cases [OF step] Cons.prems(2) e by auto
  then show ?case
    using Cons.prems e step Cons.IH [of fs1]
    by (auto split: sum.splits prod.splits)
qed simp

lemma write_all_ok:
  "write_all writable out fs = (Ok written, fs') \<Longrightarrow> distinct (map fst out) \<Longrightarrow> written = map fst out \<and> settled out fs'"
proof (induction out arbitrary: fs written)
  case (Cons e out)
  obtain path body where e: "e = (path, body)"
    by force
  obtain r1 fs1 where step: "write_file writable path body fs = (r1, fs1)"
    by force
  obtain rest where rest: "r1 = Ok ()" "write_all writable out fs1 = (Ok rest, fs')" "written = path # rest"
    using Cons.prems(1) e step by (auto split: sum.splits prod.splits)
  have "contents fs' path = contents fs1 path"
    using write_all_other [OF rest(2), of path] Cons.prems(2) e by simp
  then show ?case
    using Cons.IH [OF rest(2)] Cons.prems(2) rest e write_file_cases [OF step] by (auto simp: settled_def)
qed (simp add: settled_def)

lemma write_all_err:
  "write_all writable out fs = (Err e, fs') \<Longrightarrow> \<exists>p \<in> fst ` set out. e = WriteError p \<and> \<not> writable p"
proof (induction out arbitrary: fs)
  case (Cons x out)
  obtain path body where x: "x = (path, body)"
    by force
  obtain r1 fs1 where step: "write_file writable path body fs = (r1, fs1)"
    by force
  show ?case
    using Cons.prems x step write_file_cases [OF step] Cons.IH [of fs1]
    by (auto split: sum.splits prod.splits)
qed simp

definition output_files :: "UagArtifact \<Rightarrow> (string \<times> string) list" where
  "output_files a = map (\<lambda>(name, text). (OUTPUT_DIR @ ''/'' @ name, text)) (generated_files a)"

lemma output_paths: "distinct (map fst (output_files a))"
  by (simp add: output_files_def generated_files_def)

text \<open>
  C19.  The generator touches nothing when validation refuses the artifact and reports exactly the
  diagnostics; when it succeeds, the four files hold what the artifact generates and every other file is
  as it was, and a second run on the same artifact succeeds without writing anything; when it fails
  otherwise, it names a path that could not be written.
\<close>

theorem typegen_is_faithful:
  assumes "emit writable is_file has_pages a fs = (r, fs')"
  shows "(case r of
      Err (Invalid ds) \<Rightarrow>
        fs' = fs \<and> validate is_file a \<lparr>pages_dir = if has_pages then Some PAGES_DIR else None\<rparr> = Err ds
    | Err (WriteError p) \<Rightarrow> \<not> writable p \<and> (p = OUTPUT_DIR \<or> p \<in> fst ` set (output_files a))
    | Ok written \<Rightarrow>
        validate is_file a \<lparr>pages_dir = if has_pages then Some PAGES_DIR else None\<rparr> = Ok () \<and>
        written = map fst (output_files a) \<and>
        (\<forall>(path, text) \<in> set (output_files a). contents fs' path = Some text) \<and>
        emit writable is_file has_pages a fs' = (Ok written, fs')) \<and>
   (\<forall>p. p \<notin> fst ` set (output_files a) \<longrightarrow> contents fs' p = contents fs p)"
proof (cases "validate is_file a \<lparr>pages_dir = if has_pages then Some PAGES_DIR else None\<rparr>")
  case (Inl ds)
  then show ?thesis
    using assms by (auto simp: emit_def)
next
  case ok: (Inr u)
  show ?thesis
  proof (cases "writable OUTPUT_DIR")
    case False
    then show ?thesis
      using assms ok by (auto simp: emit_def)
  next
    case True
    then have emit: "emit writable is_file has_pages a s = write_all writable (output_files a) s" for s
      using ok by (simp add: emit_def output_files_def)
    have run: "write_all writable (output_files a) fs = (r, fs')"
      using assms emit by simp
    show ?thesis
    proof (cases r)
      case (Inl e)
      then obtain p where "p \<in> fst ` set (output_files a)" "e = WriteError p" "\<not> writable p"
        using write_all_err [of writable "output_files a" fs e fs'] run by blast
      then show ?thesis
        using Inl write_all_other [OF run] by simp
    next
      case (Inr written)
      then have "written = map fst (output_files a)" "settled (output_files a) fs'"
        using write_all_ok [OF _ output_paths] run by auto
      then show ?thesis
        using Inr ok emit write_all_settled [of "output_files a" fs' writable] write_all_other [OF run]
        by (simp add: settled_def)
    qed
  qed
qed

definition sample_artifact :: UagArtifact where
  "sample_artifact = uag_build \<lparr>graph_modules = sample_application\<rparr> sample_contracts"

definition empty_files :: files where
  "empty_files = \<lparr>contents = (\<lambda>_. None), writes = [], torn_at = (\<lambda>_. None)\<rparr>"

lemma sample_valid: "validate (\<lambda>_ _. False) sample_artifact \<lparr>pages_dir = None\<rparr> = Ok ()"
  by code_simp

theorem typegen_is_faithful_witness:
  "\<exists>fs'. emit (\<lambda>_. True) (\<lambda>_ _. False) False sample_artifact empty_files =
      (Ok (map fst (output_files sample_artifact)), fs') \<and> contents fs' ''src/main.rs'' = None"
proof -
  obtain r fs' where run: "emit (\<lambda>_. True) (\<lambda>_ _. False) False sample_artifact empty_files = (r, fs')"
    by force
  have "''src/main.rs'' \<notin> fst ` set (output_files sample_artifact)"
    by (simp add: output_files_def generated_files_def OUTPUT_DIR_def)
  then show ?thesis
    using typegen_is_faithful [OF run] run sample_valid
    by (auto simp: empty_files_def split: sum.splits TypegenError.splits)
qed

end
