(* ===== verification/Openapi.thy ===== *)
theory Openapi
  imports Typegen
begin

text \<open>
  The OpenAPI document generated from the application graph artifact (\<^verbatim>\<open>uag/codegen/openapi.rs\<close>).  The
  parameter \<open>read_f64\<close> reads the text of a number that is no 64-bit integer and makes it a JSON value.
\<close>

section \<open>The document\<close>

record OpenApiOptions =
  oa_title :: string
  oa_version :: string
  oa_description :: "string option"

definition openapi_default :: OpenApiOptions where
  "openapi_default = \<lparr>oa_title = ''Arcature application'', oa_version = ''0.0.0'', oa_description = None\<rparr>"

definition OPENAPI_VERSION :: string where
  "OPENAPI_VERSION = ''3.1.0''"

text \<open>\<^verbatim>\<open>replace\<close> of an opening brace with a star by the brace.\<close>

fun openapi_path :: "string \<Rightarrow> string" where
  "openapi_path (a # b # s) =
     (if a = CHR ''{'' \<and> b = CHR ''*'' then CHR ''{'' # openapi_path s else a # openapi_path (b # s))"
| "openapi_path s = s"

definition bt_or_insert :: "'k::linorder \<Rightarrow> 'v \<Rightarrow> ('k, 'v) btree \<Rightarrow> ('k, 'v) btree" where
  "bt_or_insert k v t = (case bt_get t k of None \<Rightarrow> bt_insert k v t | Some _ \<Rightarrow> t)"

definition parse_i64 :: "string \<Rightarrow> int option" where
  "parse_i64 s =
     (case s of
        c # t \<Rightarrow>
          if c = CHR ''-'' then
            (if t = [] then None
             else case digits_value 0 t of
                    None \<Rightarrow> None
                  | Some n \<Rightarrow> if n \<le> 2 ^ 63 then Some (- int n) else None)
          else map_option int (parse_uint (2 ^ 63 - 1) s)
      | [] \<Rightarrow> None)"

definition number_text :: "int \<Rightarrow> string" where
  "number_text i = (if i < 0 then CHR ''-'' # show_nat (nat (- i)) else show_nat (nat i))"

definition parse_rule :: "string \<Rightarrow> string \<times> (string \<times> string) list" where
  "parse_rule rule =
     (let rule = trim rule
      in case split_once CHR ''('' rule of
           None \<Rightarrow> (rule, [])
         | Some (name, rest) \<Rightarrow>
             (let body = rev (dropWhile (\<lambda>c. c = CHR '')'') (rev (trim_end rest)))
              in (trim name, map (\<lambda>(k, v). (trim k, trim v)) (List.map_filter (split_once CHR ''='') (split CHR '','' body)))))"

definition number_arg :: "(string \<Rightarrow> json option) \<Rightarrow> (string \<times> string) list \<Rightarrow> string \<Rightarrow> json option" where
  "number_arg read_f64 args key =
     Option.bind (find (\<lambda>(k, _). k = key) args) (\<lambda>(_, raw).
     case parse_i64 raw of
       Some n \<Rightarrow> Some (JNumber (number_text n))
     | None \<Rightarrow> read_f64 raw)"

definition insert_opt :: "string \<Rightarrow> json option \<Rightarrow> (string, json) btree \<Rightarrow> (string, json) btree" where
  "insert_opt k v m = (case v of None \<Rightarrow> m | Some v \<Rightarrow> bt_insert k v m)"

definition is_array :: "TypeShape \<Rightarrow> bool" where
  "is_array t = (case t of TArray _ \<Rightarrow> True | _ \<Rightarrow> False)"

definition apply_rule :: "(string \<Rightarrow> json option) \<Rightarrow> TypeShape \<Rightarrow> string \<Rightarrow> (string, json) btree \<Rightarrow> (string, json) btree" where
  "apply_rule read_f64 shape rule m =
     (let (name, args) = parse_rule rule;
          arg = number_arg read_f64 args
      in if name = ''email'' then bt_insert ''format'' (JString ''email'') m
         else if name = ''url'' then bt_insert ''format'' (JString ''uri'') m
         else if name = ''length'' then
           (let min_key = if is_array shape then ''minItems'' else ''minLength'';
                max_key = if is_array shape then ''maxItems'' else ''maxLength'';
                m = insert_opt max_key (arg ''max'') (insert_opt min_key (arg ''min'') m)
            in insert_opt max_key (arg ''equal'') (insert_opt min_key (arg ''equal'') m))
         else if name = ''range'' then
           insert_opt ''maximum'' (arg ''max'') (insert_opt ''minimum'' (arg ''min'') m)
         else m)"

definition apply_rules :: "(string \<Rightarrow> json option) \<Rightarrow> json \<Rightarrow> TypeShape \<Rightarrow> string list \<Rightarrow> json" where
  "apply_rules read_f64 schema shape rules =
     (case schema of JObject m \<Rightarrow> JObject (fold (apply_rule read_f64 shape) rules m) | other \<Rightarrow> other)"

definition field_schema :: "(string \<Rightarrow> json option) \<Rightarrow> UagField \<Rightarrow> json" where
  "field_schema read_f64 f =
     (let shape = parse (uf_ty f);
          inner = unwrapped shape;
          schema = apply_rules read_f64 (json_schema inner) inner (uf_validates f)
      in if is_optional shape then jobj [(''anyOf'', JArray [schema, jobj [(''type'', JString ''null'')]])] else schema)"

definition object_schema :: "(string \<Rightarrow> json option) \<Rightarrow> UagField list \<Rightarrow> json" where
  "object_schema read_f64 fs =
     (let properties = bt_collect (map (\<lambda>f. (uf_name f, field_schema read_f64 f)) fs);
          required = map uf_name (filter (\<lambda>f. \<not> is_optional (parse (uf_ty f))) fs)
      in jobj ([(''type'', JString ''object''), (''properties'', JObject properties)] @
           (if required \<noteq> [] then [(''required'', JArray (map JString required))] else [])))"

definition payload_ref_named :: "(string \<Rightarrow> json option) \<Rightarrow> string \<Rightarrow> UagField list \<Rightarrow> json" where
  "payload_ref_named read_f64 type_name fs =
     (if type_name = [] then object_schema read_f64 fs
      else jobj [(''$ref'', JString (''#/components/schemas/'' @ type_name))])"

definition payload_ref :: "(string \<Rightarrow> json option) \<Rightarrow> UagPayload \<Rightarrow> json" where
  "payload_ref read_f64 p = payload_ref_named read_f64 (up_type_name p) (up_fields p)"

definition responses :: "(string \<Rightarrow> json option) \<Rightarrow> UagRoute \<Rightarrow> json option" where
  "responses read_f64 r =
     (case ur_query r of
        Some q \<Rightarrow>
          (let element = payload_ref_named read_f64 (uq_type_name q) (uq_fields q);
               schema = if uq_array q then jobj [(''type'', JString ''array''), (''items'', element)] else element
           in Some (jobj [(''200'', jobj [(''description'', JString ''The query result.''),
                (''content'', jobj [(''application/json'', jobj [(''schema'', schema)])])])]))
      | None \<Rightarrow>
          if ur_pages r \<noteq> [] then
            Some (jobj [(''200'', jobj
              [(''description'', JString (''The Inertia page `'' @ join ''`, `'' (ur_pages r) @ ''`.'')),
               (''content'', jobj [(''text/html'', jobj [])])])])
          else None)"

definition operation_id :: "UagRoute \<Rightarrow> string" where
  "operation_id r =
     (if ur_name r \<noteq> [] then ur_name r
      else to_ascii_lowercase (ur_method r) @
        map (\<lambda>c. if is_ascii_alphanumeric c then c else CHR ''_'') (filter (\<lambda>c. \<not> cont (u8_of c)) (ur_path r)))"

definition path_parameter :: "string \<Rightarrow> json" where
  "path_parameter name =
     jobj [(''name'', JString name), (''in'', JString ''path''), (''required'', JBool True),
           (''schema'', jobj [(''type'', JString ''string'')])]"

definition query_parameter :: "(string \<Rightarrow> json option) \<Rightarrow> UagField \<Rightarrow> json" where
  "query_parameter read_f64 f =
     jobj [(''name'', JString (uf_name f)), (''in'', JString ''query''),
           (''required'', JBool (\<not> is_optional (parse (uf_ty f)))), (''schema'', field_schema read_f64 f)]"

definition parameters :: "(string \<Rightarrow> json option) \<Rightarrow> UagRoute \<Rightarrow> json list" where
  "parameters read_f64 r =
     map path_parameter (ur_params r) @
     (case ur_query_string r of None \<Rightarrow> [] | Some qs \<Rightarrow> map (query_parameter read_f64) (up_fields qs))"

definition operation :: "(string \<Rightarrow> json option) \<Rightarrow> UagRoute \<Rightarrow> json" where
  "operation read_f64 r =
     jobj ([(''operationId'', JString (operation_id r))] @
       (if ur_module r \<noteq> [] then [(''tags'', JArray [JString (ur_module r)])] else []) @
       (if parameters read_f64 r \<noteq> [] then [(''parameters'', JArray (parameters read_f64 r))] else []) @
       (case ur_action r of
          None \<Rightarrow> []
        | Some action \<Rightarrow>
            [(''requestBody'', jobj [(''required'', JBool True),
               (''content'', jobj [(''application/json'', jobj [(''schema'', payload_ref read_f64 action)])])])]) @
       (case responses read_f64 r of None \<Rightarrow> [] | Some rs \<Rightarrow> [(''responses'', rs)]))"

definition insert_named :: "(string \<Rightarrow> json option) \<Rightarrow> string \<Rightarrow> UagField list \<Rightarrow> (string, json) btree \<Rightarrow> (string, json) btree" where
  "insert_named read_f64 type_name fs schemas =
     (if type_name = [] then schemas else bt_or_insert type_name (object_schema read_f64 fs) schemas)"

definition register_schemas :: "(string \<Rightarrow> json option) \<Rightarrow> UagRoute \<Rightarrow> (string, json) btree \<Rightarrow> (string, json) btree" where
  "register_schemas read_f64 r schemas =
     (let schemas = (case ur_action r of
                       None \<Rightarrow> schemas
                     | Some action \<Rightarrow> insert_named read_f64 (up_type_name action) (up_fields action) schemas)
      in case ur_query r of
           None \<Rightarrow> schemas
         | Some q \<Rightarrow> insert_named read_f64 (uq_type_name q) (uq_fields q) schemas)"

definition openapi_add :: "(string \<Rightarrow> json option) \<Rightarrow> UagRoute \<Rightarrow>
    (string, (string, json) btree) btree \<times> (string, json) btree \<Rightarrow>
    (string, (string, json) btree) btree \<times> (string, json) btree" where
  "openapi_add read_f64 r st =
     (let (paths, schemas) = st;
          path = openapi_path (ur_path r);
          item = (case bt_get paths path of None \<Rightarrow> [] | Some item \<Rightarrow> item)
      in (bt_insert path (bt_or_insert (to_ascii_lowercase (ur_method r)) (operation read_f64 r) item) paths,
          register_schemas read_f64 r schemas))"

definition openapi_info :: "OpenApiOptions \<Rightarrow> json" where
  "openapi_info opts =
     jobj ([(''title'', JString (oa_title opts)), (''version'', JString (oa_version opts))] @
       (case oa_description opts of None \<Rightarrow> [] | Some d \<Rightarrow> [(''description'', JString d)]))"

definition openapi_generate :: "(string \<Rightarrow> json option) \<Rightarrow> UagArtifact \<Rightarrow> OpenApiOptions \<Rightarrow> json" where
  "openapi_generate read_f64 a opts =
     (let (paths, schemas) = fold (openapi_add read_f64) (ua_routes a) ([], [])
      in jobj ([(''openapi'', JString OPENAPI_VERSION), (''info'', openapi_info opts),
           (''paths'', JObject (map (\<lambda>(path, item). (path, JObject item)) paths))] @
         (if schemas \<noteq> [] then [(''components'', jobj [(''schemas'', JObject schemas)])] else [])))"

section \<open>References\<close>

text \<open>Every text under a key \<^verbatim>\<open>$ref\<close> anywhere in a value.\<close>

fun json_refs :: "json \<Rightarrow> string set" where
  "json_refs (JObject m) =
     (\<Union>(k, v) \<in> set m. json_refs v \<union> (if k = ''$ref'' then (case v of JString s \<Rightarrow> {s} | _ \<Rightarrow> {}) else {}))"
| "json_refs (JArray vs) = (\<Union>v \<in> set vs. json_refs v)"
| "json_refs _ = {}"

definition entry_refs :: "string \<times> json \<Rightarrow> string set" where
  "entry_refs kv =
     json_refs (snd kv) \<union> (if fst kv = ''$ref'' then (case snd kv of JString s \<Rightarrow> {s} | _ \<Rightarrow> {}) else {})"

lemma json_refs_object: "json_refs (JObject m) = (\<Union>kv \<in> set m. entry_refs kv)"
  by (simp add: entry_refs_def case_prod_beta)

declare json_refs.simps(1) [simp del]

lemma set_bt_insert_sub: "set (bt_insert k v t) \<subseteq> insert (k, v) (set t)"
  by (induction k v t rule: bt_insert.induct) auto

lemma set_bt_collect_sub: "set (bt_collect kvs) \<subseteq> set kvs"
proof -
  have "set (fold (\<lambda>(k, v). bt_insert k v) kvs t) \<subseteq> set kvs \<union> set t" for t
  proof (induction kvs arbitrary: t)
    case (Cons kv kvs)
    then show ?case
      using set_bt_insert_sub [of "fst kv" "snd kv" t] by (fastforce simp: case_prod_beta)
  qed simp
  from this [of "[]"] show ?thesis
    by (simp add: bt_collect_def)
qed

lemma refs_jobj: "json_refs (jobj kvs) \<subseteq> (\<Union>kv \<in> set kvs. entry_refs kv)"
  unfolding jobj_def json_refs_object using set_bt_collect_sub by fastforce

definition no_refs :: "json \<Rightarrow> bool" where
  "no_refs v \<longleftrightarrow> json_refs v = {}"

lemma no_refs_simps [simp]:
  "no_refs (JString s)" "no_refs (JBool b)" "no_refs (JNumber t)" "no_refs JNull"
  "no_refs (JArray vs) \<longleftrightarrow> (\<forall>v \<in> set vs. no_refs v)"
  by (auto simp: no_refs_def)

lemma no_refs_jobj: "(\<And>k v. (k, v) \<in> set kvs \<Longrightarrow> no_refs v \<and> (k = ''$ref'' \<longrightarrow> (\<nexists>s. v = JString s))) \<Longrightarrow> no_refs (jobj kvs)"
  using refs_jobj [of kvs] by (fastforce simp: no_refs_def entry_refs_def split: json.splits)

definition plain :: "(string, json) btree \<Rightarrow> bool" where
  "plain m \<longleftrightarrow> (\<forall>kv \<in> set m. entry_refs kv = {})"

lemma no_refs_object: "no_refs (JObject m) \<longleftrightarrow> plain m"
  unfolding no_refs_def json_refs_object plain_def by blast

lemma plain_insert: "plain m \<Longrightarrow> entry_refs (k, v) = {} \<Longrightarrow> plain (bt_insert k v m)"
  using set_bt_insert_sub [of k v m] by (auto simp: plain_def)

definition numeric :: "(string \<Rightarrow> json option) \<Rightarrow> bool" where
  "numeric read_f64 \<longleftrightarrow> (\<forall>s v. read_f64 s = Some v \<longrightarrow> v = JNull \<or> (\<exists>t. v = JNumber t))"

lemma number_arg_refs: "numeric read_f64 \<Longrightarrow> number_arg read_f64 args key = Some v \<Longrightarrow> entry_refs (k, v) = {}"
  by (auto simp: number_arg_def bind_eq_Some_iff numeric_def entry_refs_def split: option.splits) fastforce+

lemma plain_insert_opt: "numeric read_f64 \<Longrightarrow> plain m \<Longrightarrow> plain (insert_opt k (number_arg read_f64 args key) m)"
  by (auto simp: insert_opt_def split: option.split intro!: plain_insert dest: number_arg_refs)

lemma plain_apply_rule: "numeric read_f64 \<Longrightarrow> plain m \<Longrightarrow> plain (apply_rule read_f64 shape rule m)"
  by (cases "parse_rule rule") (simp add: apply_rule_def Let_def plain_insert plain_insert_opt entry_refs_def)

lemma plain_apply_rules: "numeric read_f64 \<Longrightarrow> plain m \<Longrightarrow> plain (fold (apply_rule read_f64 shape) rules m)"
  by (induction rules arbitrary: m) (auto intro: plain_apply_rule)

lemma json_schema_plain: "\<exists>m. json_schema t = JObject m \<and> plain m"
proof -
  have "no_refs (json_schema t)"
    by (induction t) (auto intro!: no_refs_jobj)
  moreover have "\<exists>m. json_schema t = JObject m"
    by (cases t) (simp_all add: jobj_def)
  ultimately show ?thesis
    by (auto simp: no_refs_object)
qed

lemma field_schema_plain:
  assumes "numeric read_f64"
  shows "\<exists>m. field_schema read_f64 f = JObject m \<and> plain m"
proof -
  obtain m where m: "json_schema (unwrapped (parse (uf_ty f))) = JObject m" "plain m"
    using json_schema_plain by blast
  let ?s = "apply_rules read_f64 (JObject m) (unwrapped (parse (uf_ty f))) (uf_validates f)"
  have s: "\<exists>m'. ?s = JObject m' \<and> plain m'"
    using plain_apply_rules [OF assms m(2)] by (simp add: apply_rules_def)
  then have "no_refs (jobj [(''anyOf'', JArray [?s, jobj [(''type'', JString ''null'')]])])"
    by (auto intro!: no_refs_jobj simp: no_refs_object)
  then show ?thesis
    using s m(1) by (auto simp: field_schema_def Let_def jobj_def no_refs_object)
qed

lemma object_schema_refs:
  assumes "numeric read_f64"
  shows "no_refs (object_schema read_f64 fs)"
proof -
  have "entry_refs (uf_name f, field_schema read_f64 f) = {}" for f
    using field_schema_plain [OF assms, of f] by (auto simp: entry_refs_def no_refs_object [symmetric] no_refs_def)
  then have "plain (bt_collect (map (\<lambda>f. (uf_name f, field_schema read_f64 f)) fs))"
    using set_bt_collect_sub [of "map (\<lambda>f. (uf_name f, field_schema read_f64 f)) fs"] by (auto simp: plain_def)
  then show ?thesis
    unfolding object_schema_def Let_def
    by (intro no_refs_jobj) (auto simp: no_refs_object split: if_splits)
qed

definition ref_to :: "string \<Rightarrow> string" where
  "ref_to n = ''#/components/schemas/'' @ n"

text \<open>The payloads of a route that have a type name, in the order in which they are registered.\<close>

definition named_payloads :: "UagRoute \<Rightarrow> (string \<times> UagField list) list" where
  "named_payloads r =
     filter (\<lambda>(n, _). n \<noteq> [])
       ((case ur_action r of None \<Rightarrow> [] | Some p \<Rightarrow> [(up_type_name p, up_fields p)]) @
        (case ur_query r of None \<Rightarrow> [] | Some q \<Rightarrow> [(uq_type_name q, uq_fields q)]))"

definition declared_refs :: "UagRoute \<Rightarrow> string set" where
  "declared_refs r = ref_to ` fst ` set (named_payloads r)"

lemma payload_refs:
  assumes "numeric read_f64"
  shows "json_refs (payload_ref_named read_f64 n fs) \<subseteq> (if n = [] then {} else {ref_to n})"
  using object_schema_refs [OF assms, of fs] refs_jobj [of "[(''$ref'', JString (''#/components/schemas/'' @ n))]"]
  by (auto simp: payload_ref_named_def no_refs_def ref_to_def entry_refs_def)

lemma payload_not_text: "\<nexists>s. payload_ref_named read_f64 n fs = JString s"
  by (simp add: payload_ref_named_def object_schema_def Let_def jobj_def)

lemma jobj_not_text: "jobj kvs \<noteq> JString s"
  by (simp add: jobj_def)

lemma refs_jobj_within:
  assumes "\<And>k v. (k, v) \<in> set kvs \<Longrightarrow> json_refs v \<subseteq> R \<and> k \<noteq> ''$ref''"
  shows "json_refs (jobj kvs) \<subseteq> R"
  using refs_jobj [of kvs] assms by (fastforce simp: entry_refs_def)

definition within :: "string set \<Rightarrow> (string \<times> json) list \<Rightarrow> bool" where
  "within R kvs \<longleftrightarrow> (\<forall>(k, v) \<in> set kvs. json_refs v \<subseteq> R \<and> k \<noteq> ''$ref'')"

lemma within_simps [simp]:
  "within R []" "within R ((k, v) # kvs) \<longleftrightarrow> json_refs v \<subseteq> R \<and> k \<noteq> ''$ref'' \<and> within R kvs"
  by (auto simp: within_def)

lemma within_append: "within R (xs @ ys) \<longleftrightarrow> within R xs \<and> within R ys"
  by (auto simp: within_def)

lemma refs_within: "within R kvs \<Longrightarrow> json_refs (jobj kvs) \<subseteq> R"
  by (rule refs_jobj_within) (auto simp: within_def)

lemma refs_jobj1: "json_refs v \<subseteq> R \<Longrightarrow> k \<noteq> ''$ref'' \<Longrightarrow> json_refs (jobj [(k, v)]) \<subseteq> R"
  by (rule refs_jobj_within) auto

lemma refs_jobj2:
  "json_refs v \<subseteq> R \<Longrightarrow> k \<noteq> ''$ref'' \<Longrightarrow> json_refs w \<subseteq> R \<Longrightarrow> l \<noteq> ''$ref'' \<Longrightarrow> json_refs (jobj [(k, v), (l, w)]) \<subseteq> R"
  by (rule refs_jobj_within) auto

lemma refs_jobj_empty: "json_refs (jobj []) \<subseteq> R"
  by (rule refs_jobj_within) auto

lemmas refs_intros = refs_jobj1 refs_jobj2 refs_jobj_empty

lemma responses_refs:
  assumes "numeric read_f64" "responses read_f64 r = Some v"
  shows "json_refs v \<subseteq> declared_refs r"
proof (cases "ur_query r")
  case None
  then have "v = jobj [(''200'', jobj
      [(''description'', JString (''The Inertia page `'' @ join ''`, `'' (ur_pages r) @ ''`.'')),
       (''content'', jobj [(''text/html'', jobj [])])])]"
    using assms(2) by (simp add: responses_def split: if_splits)
  then show ?thesis
    by (simp add: refs_intros)
next
  case (Some q)
  have element: "json_refs (payload_ref_named read_f64 (uq_type_name q) (uq_fields q)) \<subseteq> declared_refs r"
    using payload_refs [OF assms(1), of "uq_type_name q" "uq_fields q"] Some
    by (auto simp: declared_refs_def named_payloads_def split: if_splits)
  obtain schema where "json_refs schema \<subseteq> declared_refs r"
    "v = jobj [(''200'', jobj [(''description'', JString ''The query result.''),
       (''content'', jobj [(''application/json'', jobj [(''schema'', schema)])])])]"
  proof (cases "uq_array q")
    case True
    then show ?thesis
      using assms(2) Some element
      by (intro that [of "jobj [(''type'', JString ''array''), (''items'', payload_ref_named read_f64 (uq_type_name q) (uq_fields q))]"])
        (simp_all add: responses_def refs_intros)
  next
    case False
    then show ?thesis
      using assms(2) Some element
      by (intro that [of "payload_ref_named read_f64 (uq_type_name q) (uq_fields q)"]) (simp_all add: responses_def)
  qed
  then show ?thesis
    by (simp add: refs_intros)
qed

lemma operation_refs:
  assumes "numeric read_f64"
  shows "json_refs (operation read_f64 r) \<subseteq> declared_refs r"
proof -
  have field: "json_refs (field_schema read_f64 f) = {}" for f
    using field_schema_plain [OF assms, of f] by (auto simp: no_refs_object [symmetric] no_refs_def)
  have path: "json_refs (path_parameter n) = {}" for n
    unfolding path_parameter_def no_refs_def [symmetric] by (rule no_refs_jobj) (auto intro!: no_refs_jobj)
  have query: "json_refs (query_parameter read_f64 f) = {}" for f
    unfolding query_parameter_def no_refs_def [symmetric]
    by (rule no_refs_jobj) (use field in \<open>auto simp: no_refs_def\<close>)
  have params: "json_refs (JArray (parameters read_f64 r)) = {}"
    by (auto simp: parameters_def path query split: option.splits)
  have action: "json_refs (jobj [(''required'', JBool True),
      (''content'', jobj [(''application/json'', jobj [(''schema'', payload_ref read_f64 p)])])]) \<subseteq> declared_refs r"
    if "ur_action r = Some p" for p
  proof -
    have "json_refs (payload_ref read_f64 p) \<subseteq> declared_refs r"
      using payload_refs [OF assms, of "up_type_name p" "up_fields p"] that
      by (auto simp: payload_ref_def declared_refs_def named_payloads_def split: if_splits)
    then show ?thesis
      by (simp add: refs_intros)
  qed
  have "within (declared_refs r) (case ur_action r of
      None \<Rightarrow> []
    | Some action \<Rightarrow>
        [(''requestBody'', jobj [(''required'', JBool True),
           (''content'', jobj [(''application/json'', jobj [(''schema'', payload_ref read_f64 action)])])])])"
    using action by (cases "ur_action r") simp_all
  moreover have "within (declared_refs r) (case responses read_f64 r of None \<Rightarrow> [] | Some rs \<Rightarrow> [(''responses'', rs)])"
    using responses_refs [OF assms] by (cases "responses read_f64 r") simp_all
  moreover have "json_refs (JArray [JString (ur_module r)]) = {}"
    by simp
  ultimately show ?thesis
    unfolding operation_def using params
    by (intro refs_within) (simp add: within_append del: json_refs.simps(2))
qed

section \<open>What the document says\<close>

lemma bt_get_or_insert:
  "bt_get (bt_or_insert k v t) j = (if j = k then Some (case bt_get t k of None \<Rightarrow> v | Some w \<Rightarrow> w) else bt_get t j)"
  by (simp add: bt_or_insert_def split: option.split)

lemma bt_wf_or_insert: "bt_wf t \<Longrightarrow> bt_wf (bt_or_insert k v t)"
  by (simp add: bt_or_insert_def split: option.split)

lemma find_snoc: "find P (xs @ [x]) = (case find P xs of None \<Rightarrow> if P x then Some x else None | Some y \<Rightarrow> Some y)"
  by (induction xs) auto

definition paths_of :: "(string \<Rightarrow> json option) \<Rightarrow> UagRoute list \<Rightarrow> (string, (string, json) btree) btree" where
  "paths_of read_f64 rs = fst (fold (openapi_add read_f64) rs ([], []))"

definition schemas_of :: "(string \<Rightarrow> json option) \<Rightarrow> UagRoute list \<Rightarrow> (string, json) btree" where
  "schemas_of read_f64 rs = snd (fold (openapi_add read_f64) rs ([], []))"

lemma paths_of_snoc:
  "paths_of read_f64 (rs @ [r]) =
     (let t = paths_of read_f64 rs; p = openapi_path (ur_path r)
      in bt_insert p (bt_or_insert (to_ascii_lowercase (ur_method r)) (operation read_f64 r)
           (case bt_get t p of None \<Rightarrow> [] | Some item \<Rightarrow> item)) t)"
  by (simp add: paths_of_def openapi_add_def Let_def case_prod_beta)

lemma schemas_of_snoc: "schemas_of read_f64 (rs @ [r]) = register_schemas read_f64 r (schemas_of read_f64 rs)"
  by (simp add: schemas_of_def openapi_add_def Let_def case_prod_beta)

definition op_at :: "(string, (string, json) btree) btree \<Rightarrow> string \<Rightarrow> string \<Rightarrow> json option" where
  "op_at t p m = Option.bind (bt_get t p) (\<lambda>item. bt_get item m)"

definition route_at :: "string \<Rightarrow> string \<Rightarrow> UagRoute \<Rightarrow> bool" where
  "route_at p m r \<longleftrightarrow> openapi_path (ur_path r) = p \<and> to_ascii_lowercase (ur_method r) = m"

lemma op_at_paths: "op_at (paths_of read_f64 rs) p m = map_option (operation read_f64) (find (route_at p m) rs)"
proof (induction rs rule: rev_induct)
  case Nil
  then show ?case
    by (simp add: op_at_def paths_of_def)
next
  case (snoc r rs)
  then show ?case
    by (auto simp: op_at_def paths_of_snoc Let_def bt_get_or_insert find_snoc route_at_def
        simp del: bt_insert.simps split: option.splits)
qed

lemma bt_wf_paths: "bt_wf (paths_of read_f64 rs) \<and> (\<forall>(p, item) \<in> set (paths_of read_f64 rs). bt_wf item)"
proof (induction rs rule: rev_induct)
  case Nil
  then show ?case
    by (simp add: paths_of_def)
next
  case (snoc r rs)
  let ?t = "paths_of read_f64 rs" and ?p = "openapi_path (ur_path r)"
  have "bt_wf (case bt_get ?t ?p of None \<Rightarrow> [] | Some item \<Rightarrow> item)"
    using snoc by (auto simp: bt_mem_iff split: option.split)
  then have "bt_wf (bt_or_insert (to_ascii_lowercase (ur_method r)) (operation read_f64 r)
      (case bt_get ?t ?p of None \<Rightarrow> [] | Some item \<Rightarrow> item))"
    by (rule bt_wf_or_insert)
  then show ?case
    using snoc set_bt_insert_sub [of ?p _ ?t] unfolding paths_of_snoc Let_def
    by (fastforce simp del: bt_insert.simps)
qed

lemma bt_get_insert_named:
  "bt_get (insert_named read_f64 n fs t) j =
     (case bt_get t j of
        Some v \<Rightarrow> Some v
      | None \<Rightarrow> if n \<noteq> [] \<and> j = n then Some (object_schema read_f64 fs) else None)"
  by (simp add: insert_named_def bt_get_or_insert split: option.split)

lemma bt_get_register:
  "bt_get (register_schemas read_f64 r t) n =
     (case bt_get t n of
        Some v \<Rightarrow> Some v
      | None \<Rightarrow> map_option (object_schema read_f64) (map_of (named_payloads r) n))"
  by (auto simp: register_schemas_def Let_def bt_get_insert_named named_payloads_def split: option.split)

lemma schemas_of_get:
  "bt_get (schemas_of read_f64 rs) n = map_option (object_schema read_f64) (map_of (concat (map named_payloads rs)) n)"
proof (induction rs rule: rev_induct)
  case Nil
  then show ?case
    by (simp add: schemas_of_def)
next
  case (snoc r rs)
  then show ?case
    by (simp add: schemas_of_snoc bt_get_register map_add_def split: option.split)
qed

lemma bt_wf_schemas: "bt_wf (schemas_of read_f64 rs)"
proof (induction rs rule: rev_induct)
  case Nil
  then show ?case
    by (simp add: schemas_of_def)
next
  case (snoc r rs)
  then show ?case
    unfolding schemas_of_snoc register_schemas_def
    by (simp add: Let_def insert_named_def bt_wf_or_insert split: option.split)
qed

lemma bt_get_map_values: "bt_get (map (\<lambda>(k, v). (k, f v)) t) k = map_option f (bt_get t k)"
  by (induction t) (auto simp: bt_get_def)

lemma openapi_generate_eq:
  "openapi_generate read_f64 a opts =
     jobj ([(''openapi'', JString OPENAPI_VERSION), (''info'', openapi_info opts),
        (''paths'', JObject (map (\<lambda>(path, item). (path, JObject item)) (paths_of read_f64 (ua_routes a))))] @
       (if schemas_of read_f64 (ua_routes a) \<noteq> []
        then [(''components'', jobj [(''schemas'', JObject (schemas_of read_f64 (ua_routes a)))])] else []))"
  by (simp add: openapi_generate_def paths_of_def schemas_of_def case_prod_beta)

lemma bind_json_at [simp]:
  "Option.bind x (json_at []) = x"
  "Option.bind (map_option JObject y) (json_at [m]) = Option.bind y (\<lambda>item. bt_get item m)"
proof -
  show leaf: "Option.bind x (json_at []) = x" for x
    by (cases x) simp_all
  show "Option.bind (map_option JObject y) (json_at [m]) = Option.bind y (\<lambda>item. bt_get item m)"
    by (cases y) (simp_all add: leaf)
qed

lemma json_at_paths:
  "json_at [''paths'', p, m] (openapi_generate read_f64 a opts) = op_at (paths_of read_f64 (ua_routes a)) p m"
  by (simp add: openapi_generate_eq jobj_def bt_get_bt_collect bt_get_map_values op_at_def map_add_def split: option.split)

lemma json_at_schemas:
  "json_at [''components'', ''schemas'', n] (openapi_generate read_f64 a opts) = bt_get (schemas_of read_f64 (ua_routes a)) n"
  by (simp add: openapi_generate_eq jobj_def bt_get_bt_collect map_add_def)

lemma schemas_refs:
  assumes "numeric read_f64"
  shows "json_refs (JObject (schemas_of read_f64 rs)) = {}"
proof -
  have "entry_refs (k, v) = {}" if kv: "(k, v) \<in> set (schemas_of read_f64 rs)" for k v
  proof -
    have "bt_get (schemas_of read_f64 rs) k = Some v"
      using kv by (simp add: bt_mem_iff [OF bt_wf_schemas])
    then obtain fs where "v = object_schema read_f64 fs"
      by (auto simp: schemas_of_get)
    then show ?thesis
      using object_schema_refs [OF assms, of fs]
      by (simp add: entry_refs_def no_refs_def object_schema_def Let_def jobj_def)
  qed
  then show ?thesis
    unfolding json_refs_object by auto
qed

lemma item_refs:
  assumes "numeric read_f64" and it: "(q, it) \<in> set (paths_of read_f64 rs)"
  shows "json_refs (JObject it) \<subseteq> (\<Union>r \<in> set rs. declared_refs r)"
proof -
  have "entry_refs (k, v) \<subseteq> (\<Union>r \<in> set rs. declared_refs r)" if kv: "(k, v) \<in> set it" for k v
  proof -
    have "op_at (paths_of read_f64 rs) q k = Some v"
      using kv it bt_wf_paths [of read_f64 rs] by (fastforce simp: op_at_def bt_mem_iff)
    then obtain r where r: "r \<in> set rs" "v = operation read_f64 r"
      by (auto simp: op_at_paths dest!: find_SomeD)
    then have "entry_refs (k, v) = json_refs v"
      by (simp add: entry_refs_def operation_def jobj_def)
    then show ?thesis
      using r operation_refs [OF assms(1), of r] by auto
  qed
  then show ?thesis
    by (auto simp: json_refs_object)
qed

lemma paths_refs:
  assumes "numeric read_f64"
  shows "json_refs (JObject (map (\<lambda>(path, item). (path, JObject item)) (paths_of read_f64 rs))) \<subseteq> (\<Union>r \<in> set rs. declared_refs r)"
  unfolding json_refs_object
proof (rule UN_least)
  fix kv
  assume "kv \<in> set (map (\<lambda>(path, item). (path, JObject item)) (paths_of read_f64 rs))"
  then obtain q it where q: "(q, it) \<in> set (paths_of read_f64 rs)" "kv = (q, JObject it)"
    by auto
  then have "entry_refs kv = json_refs (JObject it)"
    by (simp add: entry_refs_def)
  then show "entry_refs kv \<subseteq> (\<Union>r \<in> set rs. declared_refs r)"
    using item_refs [OF assms q(1)] by simp
qed

text \<open>
  C18.  The OpenAPI document describes every path and method of the artifact by the operation of the first
  route that declares it, and no other; its component schemas are those of the first payload of every
  type name; and every reference anywhere in the document resolves to one of them.
\<close>

theorem openapi_is_closed:
  assumes "numeric read_f64"
  shows "json_at [''paths'', p, m] (openapi_generate read_f64 a opts) =
      map_option (operation read_f64)
        (find (\<lambda>r. openapi_path (ur_path r) = p \<and> to_ascii_lowercase (ur_method r) = m) (ua_routes a)) \<and>
    json_at [''components'', ''schemas'', n] (openapi_generate read_f64 a opts) =
      map_option (object_schema read_f64) (map_of (concat (map named_payloads (ua_routes a))) n) \<and>
    json_refs (openapi_generate read_f64 a opts) \<subseteq>
      {''#/components/schemas/'' @ k | k. json_at [''components'', ''schemas'', k] (openapi_generate read_f64 a opts) \<noteq> None}"
proof -
  let ?rs = "ua_routes a"
  let ?R = "\<Union>r \<in> set ?rs. declared_refs r"
  have "json_refs (openapi_info opts) \<subseteq> ?R"
    unfolding openapi_info_def by (intro refs_within) (simp add: within_append split: option.split)
  moreover have "json_refs (jobj [(''schemas'', JObject (schemas_of read_f64 ?rs))]) \<subseteq> ?R"
    using schemas_refs [OF assms] by (intro refs_jobj1) simp_all
  ultimately have "json_refs (openapi_generate read_f64 a opts) \<subseteq> ?R"
    unfolding openapi_generate_eq using paths_refs [OF assms, of ?rs]
    by (intro refs_within) (simp add: within_append)
  moreover have "?R \<subseteq> {''#/components/schemas/'' @ k | k. bt_get (schemas_of read_f64 ?rs) k \<noteq> None}"
    by (force simp: declared_refs_def ref_to_def schemas_of_get map_of_eq_None_iff)
  ultimately show ?thesis
    by (simp only: json_at_paths json_at_schemas op_at_paths schemas_of_get route_at_def [abs_def]) blast
qed

definition sample_store :: UagRoute where
  "sample_store =
     \<lparr>ur_module = ''Links'', ur_method = ''POST'', ur_path = ''/files/{*rest}'', ur_name = [], ur_handler = ''LinksController::store'',
      ur_params = [''rest''], ur_pages = [],
      ur_action = Some \<lparr>up_type_name = ''StoreLink'', up_fields = [\<lparr>uf_name = ''url'', uf_ty = ''Option<String>'', uf_validates = [''url'']\<rparr>]\<rparr>,
      ur_query = None, ur_query_string = None, ur_policies = []\<rparr>"

definition sample_api :: UagArtifact where
  "sample_api = uag_new [] [sample_store] []"

theorem openapi_is_closed_witness:
  "numeric (\<lambda>_. None) \<and>
   json_at [''paths'', ''/files/{rest}'', ''post''] (openapi_generate (\<lambda>_. None) sample_api openapi_default) =
     Some (operation (\<lambda>_. None) sample_store) \<and>
   json_at [''components'', ''schemas'', ''StoreLink''] (openapi_generate (\<lambda>_. None) sample_api openapi_default) =
     Some (object_schema (\<lambda>_. None) [\<lparr>uf_name = ''url'', uf_ty = ''Option<String>'', uf_validates = [''url'']\<rparr>])"
proof -
  have numeric: "numeric (\<lambda>_. None)"
    by (simp add: numeric_def)
  have route: "ua_routes sample_api = [sample_store]"
    by (simp add: sample_api_def uag_new_def)
  have key: "openapi_path (ur_path sample_store) = ''/files/{rest}''" "to_ascii_lowercase (ur_method sample_store) = ''post''"
    by code_simp+
  show ?thesis
    using openapi_is_closed [OF numeric, of "''/files/{rest}''" "''post''" sample_api openapi_default "''StoreLink''"]
      numeric key unfolding route
    by (simp add: named_payloads_def sample_store_def)
qed

text \<open>The comment on \<^verbatim>\<open>operation_id\<close> calls the fallback unique; two different paths can share it.\<close>

lemma operation_ids_collide:
  "operation_id (route_from ''Links'' (sample_show\<lparr>rd_name := [], rd_path := ''/a-b''\<rparr>) []) =
   operation_id (route_from ''Links'' (sample_show\<lparr>rd_name := [], rd_path := ''/a_b''\<rparr>) [])"
  by code_simp

end
