(* ===== verification/Assets.thy ===== *)
theory Assets
  imports Http_Problem Btree_Map "HOL-Library.Char_ord" "HOL-Library.List_Lexorder"
begin

text \<open>
  Frontend assets (\<^verbatim>\<open>assets.rs\<close>): resolving an entry through the build manifest, the stylesheets it needs,
  the tags of a page, and the caching of the files under the document root.  The file server of the package
  \<^verbatim>\<open>tower-http\<close>, reading the manifest file and parsing it are parameters.
\<close>

section \<open>Configuration\<close>

definition DEFAULT_PUBLIC_DIR :: string where
  "DEFAULT_PUBLIC_DIR = ''public''"

definition DEFAULT_BUILD_DIR :: string where
  "DEFAULT_BUILD_DIR = ''build''"

record AssetsConfig =
  assets_public_dir :: string
  assets_build_dir :: string

definition assets_config_new :: AssetsConfig where
  "assets_config_new = \<lparr>assets_public_dir = DEFAULT_PUBLIC_DIR, assets_build_dir = DEFAULT_BUILD_DIR\<rparr>"

text \<open>\<^verbatim>\<open>Path::join\<close> on Unix.\<close>

definition path_join :: "string \<Rightarrow> string \<Rightarrow> string" where
  "path_join a b =
     (if starts_with ''/'' b then b
      else if a = [] \<or> last a = CHR ''/'' then a @ b
      else a @ ''/'' @ b)"

definition build_path :: "AssetsConfig \<Rightarrow> string" where
  "build_path c = path_join (assets_public_dir c) (assets_build_dir c)"

definition manifest_path :: "AssetsConfig \<Rightarrow> string" where
  "manifest_path c = path_join (path_join (build_path c) ''.vite'') ''manifest.json''"

definition trim_start_slash :: "string \<Rightarrow> string" where
  "trim_start_slash s = dropWhile (\<lambda>c. c = CHR ''/'') s"

definition trim_slashes :: "string \<Rightarrow> string" where
  "trim_slashes s = rev (trim_start_slash (rev (trim_start_slash s)))"

definition url_prefix :: "AssetsConfig \<Rightarrow> string" where
  "url_prefix c = ''/'' @ trim_slashes (assets_build_dir c)"

section \<open>The manifest\<close>

record Chunk =
  chunk_file :: string
  chunk_css :: "string list"
  chunk_imports :: "string list"

type_synonym manifest = "(string, Chunk) btree"

datatype Resolver = Dev | Manifest manifest

record Assets =
  assets_resolver :: Resolver
  assets_prefix :: string

record EntryAssets =
  entry_js :: string
  entry_css :: "string list"

datatype AssetsError = ManifestMissing string | ManifestUnreadable string | ManifestMalformed string

datatype file_read = NotFound | ReadFailed | Contents string

definition assets_dev :: "AssetsConfig \<Rightarrow> Assets" where
  "assets_dev c = \<lparr>assets_resolver = Dev, assets_prefix = url_prefix c\<rparr>"

definition from_manifest :: "(string \<Rightarrow> file_read) \<Rightarrow> (string \<Rightarrow> manifest option) \<Rightarrow> AssetsConfig \<Rightarrow> (AssetsError, Assets) result" where
  "from_manifest read_file parse_manifest c =
     (let path = manifest_path c
      in case read_file path of
           NotFound \<Rightarrow> Err (ManifestMissing path)
         | ReadFailed \<Rightarrow> Err (ManifestUnreadable path)
         | Contents raw \<Rightarrow>
             (case parse_manifest raw of
                None \<Rightarrow> Err (ManifestMalformed path)
              | Some mf \<Rightarrow> Ok \<lparr>assets_resolver = Manifest mf, assets_prefix = url_prefix c\<rparr>))"

text \<open>\<open>vite_ipc\<close> is the value of the variable that names a live development server, \<open>debug\<close> the build kind.\<close>

definition detect :: "bool \<Rightarrow> string option \<Rightarrow> (string \<Rightarrow> file_read) \<Rightarrow> (string \<Rightarrow> manifest option) \<Rightarrow> AssetsConfig \<Rightarrow>
    (AssetsError, Assets) result" where
  "detect debug vite_ipc read_file parse_manifest c =
     (if (case vite_ipc of None \<Rightarrow> False | Some v \<Rightarrow> v \<noteq> []) then Ok (assets_dev c)
      else case from_manifest read_file parse_manifest c of
             Err (ManifestMissing path) \<Rightarrow> if debug then Ok (assets_dev c) else Err (ManifestMissing path)
           | other \<Rightarrow> other)"

definition is_dev :: "Assets \<Rightarrow> bool" where
  "is_dev a = (case assets_resolver a of Dev \<Rightarrow> True | _ \<Rightarrow> False)"

definition asset_url :: "Assets \<Rightarrow> string \<Rightarrow> string" where
  "asset_url a name = assets_prefix a @ ''/'' @ trim_start_slash name"

text \<open>Pushing the urls of a chunk that are not yet there.\<close>

definition push_new :: "'a list \<Rightarrow> 'a list \<Rightarrow> 'a list" where
  "push_new urls out = fold (\<lambda>u out. if u \<in> set out then out else out @ [u]) urls out"

text \<open>
  The walk over the manifest.  The queue is taken from its end, so the imports of a chunk are visited last
  one first.
\<close>

lemma unseen_less:
  assumes "bt_get mf k = Some c" "k \<notin> seen"
  shows "card (set (bt_keys mf) - insert k seen) < card (set (bt_keys mf) - seen)"
proof -
  have "k \<in> set (bt_keys mf)"
    using assms(1) by (simp add: bt_keys_iff)
  then show ?thesis
    using assms(2) by (intro psubset_card_mono) auto
qed

function collect_loop :: "(string \<Rightarrow> string) \<Rightarrow> manifest \<Rightarrow> string list \<Rightarrow> string set \<Rightarrow> string list \<Rightarrow> string list" where
  "collect_loop url mf out seen queue =
     (if queue = [] then out
      else let key = last queue; queue = butlast queue
           in if key \<in> seen then collect_loop url mf out seen queue
              else case bt_get mf key of
                     None \<Rightarrow> collect_loop url mf out (insert key seen) queue
                   | Some chunk \<Rightarrow>
                       collect_loop url mf (push_new (map url (chunk_css chunk)) out) (insert key seen)
                         (queue @ chunk_imports chunk))"
  by pat_completeness auto
termination
proof (relation "(\<lambda>(url, mf, out, seen, queue). card (set (bt_keys mf) - seen)) <*mlex*>
    (\<lambda>(url, mf, out, seen, queue). length queue) <*mlex*> {}", goal_cases)
  case 1
  show ?case by (intro wf_mlex) simp
next
  case (2 url mf out seen queue key queue')
  then show ?case by (intro mlex_leq [OF _ mlex_less]) auto
next
  case (3 url mf out seen queue key queue')
  then show ?case by (intro mlex_leq [OF _ mlex_less]) (auto intro!: card_mono)
next
  case (4 url mf out seen queue key queue' chunk)
  then show ?case using unseen_less [of mf "last queue" chunk seen] by (intro mlex_less) auto
qed

declare collect_loop.simps [simp del]

definition collect_css :: "Assets \<Rightarrow> manifest \<Rightarrow> string \<Rightarrow> string list" where
  "collect_css a mf entry = collect_loop (asset_url a) mf [] {} [entry]"

definition resolve_entry :: "Assets \<Rightarrow> string \<Rightarrow> EntryAssets option" where
  "resolve_entry a entry =
     (case assets_resolver a of
        Dev \<Rightarrow> Some \<lparr>entry_js = ''/'' @ trim_start_slash entry, entry_css = []\<rparr>
      | Manifest mf \<Rightarrow>
          map_option (\<lambda>chunk. \<lparr>entry_js = asset_url a (chunk_file chunk), entry_css = collect_css a mf entry\<rparr>)
            (bt_get mf entry))"

section \<open>Tags\<close>

definition quoted :: "string \<Rightarrow> string" where
  "quoted s = [CHR 0x22] @ s @ [CHR 0x22]"

definition nonce_attribute :: "string option \<Rightarrow> string" where
  "nonce_attribute nonce = (case nonce of None \<Rightarrow> [] | Some n \<Rightarrow> '' nonce='' @ quoted n)"

definition style_tags :: "string list \<Rightarrow> string option \<Rightarrow> string" where
  "style_tags css nonce =
     join ([CHR 0x0A] @ ''  '')
       (map (\<lambda>href. ''<link'' @ nonce_attribute nonce @ '' rel='' @ quoted ''stylesheet'' @ '' href='' @ quoted href @ '' />'') css)"

definition script_tag :: "string option \<Rightarrow> string \<Rightarrow> string" where
  "script_tag nonce js =
     ''<script'' @ nonce_attribute nonce @ '' type='' @ quoted ''module'' @ '' src='' @ quoted js @ ''></script>''"

definition script_tags :: "string option \<Rightarrow> bool \<Rightarrow> string option \<Rightarrow> string" where
  "script_tags js dev nonce =
     (case js of
        None \<Rightarrow> []
      | Some js \<Rightarrow>
          if dev then script_tag nonce ''/@vite/client'' @ [CHR 0x0A] @ ''  '' @ script_tag nonce js
          else script_tag nonce js)"

definition head_tags_with_nonce :: "Assets \<Rightarrow> string \<Rightarrow> string option \<Rightarrow> string" where
  "head_tags_with_nonce a entry nonce =
     (case resolve_entry a entry of None \<Rightarrow> [] | Some r \<Rightarrow> style_tags (entry_css r) nonce)"

definition body_tags_with_nonce :: "Assets \<Rightarrow> string \<Rightarrow> string option \<Rightarrow> string" where
  "body_tags_with_nonce a entry nonce =
     (case resolve_entry a entry of None \<Rightarrow> [] | Some r \<Rightarrow> script_tags (Some (entry_js r)) (is_dev a) nonce)"

section \<open>Static files\<close>

definition IMMUTABLE_CACHE_CONTROL :: string where
  "IMMUTABLE_CACHE_CONTROL = ''public, max-age=31536000, immutable''"

definition REVALIDATE_CACHE_CONTROL :: string where
  "REVALIDATE_CACHE_CONTROL = ''no-cache''"

definition looks_hashed :: "string \<Rightarrow> bool" where
  "looks_hashed path =
     (let file = last (split CHR ''/'' path)
      in case rsplit_once CHR ''.'' file of
           None \<Rightarrow> False
         | Some (stem, _) \<Rightarrow>
             (case rsplit_once CHR ''-'' stem of
                None \<Rightarrow> False
              | Some (_, hash) \<Rightarrow>
                  length hash \<ge> 8 \<and> list_all (\<lambda>b. is_ascii_alphanumeric b \<or> b = CHR ''_'') hash))"

definition cache_control_for :: "string \<Rightarrow> string \<Rightarrow> string" where
  "cache_control_for path immutable_prefix =
     (if starts_with immutable_prefix path \<and> looks_hashed path then IMMUTABLE_CACHE_CONTROL else REVALIDATE_CACHE_CONTROL)"

record StaticFiles =
  static_root :: string
  static_prefix :: string

definition static_new :: "AssetsConfig \<Rightarrow> StaticFiles" where
  "static_new c = \<lparr>static_root = assets_public_dir c, static_prefix = url_prefix c @ ''/''\<rparr>"

text \<open>\<open>serve_dir\<close> answers a request of the given path from a directory.\<close>

definition static_call :: "(string \<Rightarrow> string \<Rightarrow> 'x http_response) \<Rightarrow> StaticFiles \<Rightarrow> string \<Rightarrow> 'x http_response" where
  "static_call serve_dir s path =
     (let response = serve_dir (static_root s) path
      in if 200 \<le> http_status response \<and> http_status response < 300
         then response\<lparr>http_headers := hm_insert ''cache-control'' (cache_control_for path (static_prefix s)) (http_headers response)\<rparr>
         else response)"

section \<open>Which stylesheets a page gets\<close>

definition chunk_edges :: "manifest \<Rightarrow> (string \<times> string) set" where
  "chunk_edges mf = {(a, b). \<exists>c. bt_get mf a = Some c \<and> b \<in> set (chunk_imports c)}"

definition css_of :: "(string \<Rightarrow> string) \<Rightarrow> manifest \<Rightarrow> string set \<Rightarrow> string set" where
  "css_of url mf keys = (\<Union>k \<in> keys. case bt_get mf k of None \<Rightarrow> {} | Some c \<Rightarrow> url ` set (chunk_css c))"

lemma push_new_set: "set (push_new urls out) = set out \<union> set urls"
  by (induction urls arbitrary: out) (auto simp: push_new_def)

lemma push_new_distinct: "distinct out \<Longrightarrow> distinct (push_new urls out)"
  by (induction urls arbitrary: out) (auto simp: push_new_def)

text \<open>
  The walk keeps: the names seen and queued are reachable and hold the entry, what a seen chunk imports is
  seen or queued, and the list holds the stylesheets of the seen chunks once each.
\<close>

definition walk_ok :: "(string \<Rightarrow> string) \<Rightarrow> manifest \<Rightarrow> string \<Rightarrow> string list \<Rightarrow> string set \<Rightarrow> string list \<Rightarrow> bool" where
  "walk_ok url mf entry out seen queue \<longleftrightarrow>
     entry \<in> seen \<union> set queue \<and> seen \<union> set queue \<subseteq> (chunk_edges mf)\<^sup>* `` {entry} \<and>
     chunk_edges mf `` seen \<subseteq> seen \<union> set queue \<and>
     set out = css_of url mf seen \<and> distinct out"

lemma css_of_eq:
  "css_of url mf keys = {url s | s k c. k \<in> keys \<and> bt_get mf k = Some c \<and> s \<in> set (chunk_css c)}"
proof -
  have "(case bt_get mf k of None \<Rightarrow> {} | Some c \<Rightarrow> url ` set (chunk_css c)) =
      {url s | s c. bt_get mf k = Some c \<and> s \<in> set (chunk_css c)}" for k
    by (cases "bt_get mf k") auto
  then show ?thesis
    unfolding css_of_def by blast
qed

lemma css_of_insert: "css_of url mf (insert k seen) =
    (case bt_get mf k of None \<Rightarrow> {} | Some c \<Rightarrow> url ` set (chunk_css c)) \<union> css_of url mf seen"
  by (simp add: css_of_def)

lemma walk_ok_skip:
  "walk_ok url mf entry out seen (queue @ [key]) \<Longrightarrow> key \<in> seen \<Longrightarrow> walk_ok url mf entry out seen queue"
  by (auto simp: walk_ok_def)

lemma walk_ok_absent:
  assumes "walk_ok url mf entry out seen (queue @ [key])" "bt_get mf key = None"
  shows "walk_ok url mf entry out (insert key seen) queue"
proof -
  have "chunk_edges mf `` {key} = {}"
    using assms(2) by (auto simp: chunk_edges_def)
  then show ?thesis
    using assms by (auto simp: walk_ok_def css_of_insert)
qed

lemma walk_ok_visit:
  assumes "walk_ok url mf entry out seen (queue @ [key])" "bt_get mf key = Some c"
  shows "walk_ok url mf entry (push_new (map url (chunk_css c)) out) (insert key seen) (queue @ chunk_imports c)"
proof -
  have succs: "chunk_edges mf `` {key} = set (chunk_imports c)"
    using assms(2) by (auto simp: chunk_edges_def)
  then have "set (chunk_imports c) \<subseteq> (chunk_edges mf)\<^sup>* `` {entry}"
    using assms(1) by (auto simp: walk_ok_def intro: rtrancl_into_rtrancl)
  then show ?thesis
    using assms succs by (auto simp: walk_ok_def css_of_insert push_new_set push_new_distinct)
qed

lemma collect_loop_ok:
  "walk_ok url mf entry out seen queue \<Longrightarrow>
   set (collect_loop url mf out seen queue) = css_of url mf ((chunk_edges mf)\<^sup>* `` {entry}) \<and>
   distinct (collect_loop url mf out seen queue)"
proof (induction url mf out seen queue rule: collect_loop.induct)
  case (1 url mf out seen queue)
  show ?case
  proof (cases "queue = []")
    case True
    have "k \<in> seen" if "(entry, k) \<in> (chunk_edges mf)\<^sup>*" for k
      using that True 1(4) by (induction rule: rtrancl_induct) (auto simp: walk_ok_def)
    then have "seen = (chunk_edges mf)\<^sup>* `` {entry}"
      using True 1(4) by (auto simp: walk_ok_def)
    then show ?thesis
      using True 1(4) by (simp add: collect_loop.simps walk_ok_def)
  next
    case False
    then have ok: "walk_ok url mf entry out seen (butlast queue @ [last queue])"
      using 1(4) by simp
    show ?thesis
    proof (cases "last queue \<in> seen")
      case True
      then show ?thesis
        using False 1(1) [OF False refl refl True walk_ok_skip [OF ok True]]
        by (subst (1 2) collect_loop.simps) simp
    next
      case unseen: False
      show ?thesis
      proof (cases "bt_get mf (last queue)")
        case None
        then show ?thesis
          using False unseen 1(2) [OF False refl refl unseen None walk_ok_absent [OF ok None]]
          by (subst (1 2) collect_loop.simps) (simp add: Let_def)
      next
        case (Some c)
        then show ?thesis
          using False unseen 1(3) [OF False refl refl unseen Some walk_ok_visit [OF ok Some]]
          by (subst (1 2) collect_loop.simps) (simp add: Let_def)
      qed
    qed
  qed
qed

text \<open>
  Resolving an entry of the manifest always ends, also when the manifest names a cycle, and gives the
  stylesheets of exactly the chunks that the entry reaches through imports, each once, all below the url of
  the build directory; without a manifest every entry resolves to its own path and no stylesheet, and an
  entry that the manifest does not know is refused.
\<close>

theorem entry_gets_its_styles:
  "(case assets_resolver a of
      Dev \<Rightarrow> resolve_entry a entry = Some \<lparr>entry_js = ''/'' @ trim_start_slash entry, entry_css = []\<rparr>
    | Manifest mf \<Rightarrow>
        (case resolve_entry a entry of
           None \<Rightarrow> bt_get mf entry = None
         | Some r \<Rightarrow>
             (\<exists>c. bt_get mf entry = Some c \<and> entry_js r = assets_prefix a @ ''/'' @ trim_start_slash (chunk_file c)) \<and>
             distinct (entry_css r) \<and>
             set (entry_css r) =
               {assets_prefix a @ ''/'' @ trim_start_slash s | s k c.
                  (entry, k) \<in> (chunk_edges mf)\<^sup>* \<and> bt_get mf k = Some c \<and> s \<in> set (chunk_css c)}))"
proof (cases "assets_resolver a")
  case Dev
  then show ?thesis
    by (simp add: resolve_entry_def)
next
  case (Manifest mf)
  have "walk_ok (asset_url a) mf entry [] {} [entry]"
    by (simp add: walk_ok_def css_of_def)
  from collect_loop_ok [OF this]
  have "distinct (collect_css a mf entry)"
    "set (collect_css a mf entry) = {assets_prefix a @ ''/'' @ trim_start_slash s | s k c.
       (entry, k) \<in> (chunk_edges mf)\<^sup>* \<and> bt_get mf k = Some c \<and> s \<in> set (chunk_css c)}"
    by (simp_all add: collect_css_def css_of_eq asset_url_def)
  then show ?thesis
    using Manifest by (cases "bt_get mf entry") (simp_all add: resolve_entry_def asset_url_def)
qed

text \<open>The comment on \<^verbatim>\<open>collect_css\<close> promises dependency order; the sheet of an entry comes before those it builds on.\<close>

lemma entry_sheet_comes_first:
  "collect_css \<lparr>assets_resolver = Dev, assets_prefix = ''/build''\<rparr>
     [(''app'', \<lparr>chunk_file = ''app.js'', chunk_css = [''app.css''], chunk_imports = [''a'', ''b'']\<rparr>),
      (''a'', \<lparr>chunk_file = ''a.js'', chunk_css = [''a.css''], chunk_imports = []\<rparr>),
      (''b'', \<lparr>chunk_file = ''b.js'', chunk_css = [''b.css''], chunk_imports = []\<rparr>)] ''app'' =
   [''/build/app.css'', ''/build/b.css'', ''/build/a.css'']"
  by code_simp

text \<open>Only an answer of success is marked, and only a build file with the look of a hash is marked for good.\<close>

lemma immutable_iff:
  "cache_control_for path (static_prefix (static_new c)) = IMMUTABLE_CACHE_CONTROL \<longleftrightarrow>
   looks_hashed path \<and> (\<exists>rest. path = url_prefix c @ ''/'' @ rest)"
proof -
  have "REVALIDATE_CACHE_CONTROL \<noteq> IMMUTABLE_CACHE_CONTROL"
    by (simp add: IMMUTABLE_CACHE_CONTROL_def REVALIDATE_CACHE_CONTROL_def)
  then show ?thesis
    by (auto simp: cache_control_for_def static_new_def starts_with_iff)
qed

lemma static_call_marks:
  assumes "serve_dir (assets_public_dir c) path = r"
  shows "(if 200 \<le> http_status r \<and> http_status r < 300
          then hm_get_all (http_headers (static_call serve_dir (static_new c) path)) ''cache-control'' =
                 [cache_control_for path (static_prefix (static_new c))]
          else static_call serve_dir (static_new c) path = r)"
  using assms
  by (simp add: static_call_def static_new_def Let_def hm_get_all_def hm_insert_def hm_remove_def filter_empty_conv case_prod_beta)

text \<open>A word of eight letters after a hyphen looks like a hash.\<close>

lemma plain_name_is_immutable:
  "cache_control_for ''/build/assets/date-formatter.js'' ''/build/'' = IMMUTABLE_CACHE_CONTROL"
  by code_simp

end
