(* ===== verification/Dev_Supervisor.thy ===== *)
theory Dev_Supervisor
  imports Json_Value "HOL-Library.Word"
begin

text \<open>
  The development supervisor (\<^verbatim>\<open>cli/commands/dev/\<close>): classifying and debouncing file changes (\<^verbatim>\<open>watch.rs\<close>),
  running and cancelling the compiler, restarting the application (\<^verbatim>\<open>backend.rs\<close>), the loop that races a
  build against newer changes (\<^verbatim>\<open>mod.rs\<close>), and holding requests while a build runs (\<^verbatim>\<open>service.rs\<close>).

  A stop that waits for its process for ever ends the session's list of passes.
  What the operating system answers (the compiler's output, whether a process starts or listens, what a
  file holds) is an argument of the operations; time measurements that are only printed are left out.
\<close>

section \<open>Watching\<close>

datatype Change = Restart | Rebuild

definition change_max :: "Change \<Rightarrow> Change \<Rightarrow> Change" where
  "change_max a b = (if a = Rebuild then Rebuild else b)"

definition IGNORED_DIRECTORIES :: "string list" where
  "IGNORED_DIRECTORIES = [''target'', ''node_modules'', ''.arcature'', ''.git'', ''storage'']"

definition GENERATED_ASSETS :: string where
  "GENERATED_ASSETS = ''resources/js/generated/''"

definition str_contains :: "string \<Rightarrow> string \<Rightarrow> bool" where
  "str_contains pat s \<longleftrightarrow> (\<exists>i \<in> {..length s}. take (length pat) (drop i s) = pat)"

text \<open>The components of a path; an empty piece and a lone dot are none.\<close>

definition path_components :: "string \<Rightarrow> string list" where
  "path_components path = filter (\<lambda>w. w \<noteq> [] \<and> w \<noteq> ''.'') (split CHR ''/'' path)"

definition ignored :: "string \<Rightarrow> bool" where
  "ignored path \<longleftrightarrow>
     list_ex (\<lambda>w. w \<in> set IGNORED_DIRECTORIES) (path_components path) \<or>
     str_contains GENERATED_ASSETS (map (\<lambda>c. if c = CHR 0x5C then CHR ''/'' else c) path)"

definition file_name :: "string \<Rightarrow> string option" where
  "file_name path =
     (let ws = path_components path in if ws = [] \<or> last ws = ''..'' then None else Some (last ws))"

definition extension :: "string \<Rightarrow> string option" where
  "extension path =
     Option.bind (file_name path) (\<lambda>name.
     case rsplit_once CHR ''.'' name of
       None \<Rightarrow> None
     | Some (stem, ext) \<Rightarrow> if stem = [] then None else Some ext)"

definition classify :: "string \<Rightarrow> Change option" where
  "classify path =
     (if ignored path then None
      else if extension path = Some ''rs'' then Some Rebuild
      else case file_name path of
             None \<Rightarrow> None
           | Some name \<Rightarrow>
               if name = ''Cargo.toml'' \<or> name = ''Cargo.lock'' then Some Rebuild
               else if name = ''.env'' \<or> starts_with ''.env.'' name then Some Restart
               else None)"

definition watchable :: "string \<Rightarrow> bool" where
  "watchable name \<longleftrightarrow> name \<notin> set IGNORED_DIRECTORIES"

text \<open>What the callback of the watcher sends for one event: the costliest change among its paths.\<close>

definition event_change :: "string list \<Rightarrow> Change option" where
  "event_change paths =
     (case List.map_filter classify paths of [] \<Rightarrow> None | c # cs \<Rightarrow> Some (fold change_max cs c))"

datatype Signal = Changed Change | Appeared string

text \<open>
  What the receiver sees next: a signal, the end of the debounce window, or the closed channel.  The future
  may be dropped at any point, which is the end of the list; \<open>pending\<close> and the subscriptions stay.
\<close>

datatype receipt = Received Signal | WindowClosed | ChannelClosed

record Watch =
  subscribed :: "string set"
  pending :: "Change option"

definition subscribe :: "(string \<Rightarrow> bool) \<Rightarrow> string \<Rightarrow> Watch \<Rightarrow> Watch" where
  "subscribe can_watch path w =
     (if path \<in> subscribed w then w
      else if can_watch path then w\<lparr>subscribed := insert path (subscribed w)\<rparr> else w)"

datatype change_poll = Reported "Change option" | Dropped

fun next_change :: "(string \<Rightarrow> bool) \<Rightarrow> receipt list \<Rightarrow> Watch \<Rightarrow> change_poll \<times> Watch" where
  "next_change can_watch [] w = (Dropped, w)"
| "next_change can_watch (Received s # rest) w =
     (case s of
        Changed c \<Rightarrow>
          next_change can_watch rest
            (w\<lparr>pending := Some (case pending w of None \<Rightarrow> c | Some held \<Rightarrow> change_max held c)\<rparr>)
      | Appeared path \<Rightarrow> next_change can_watch rest (subscribe can_watch path w))"
| "next_change can_watch (WindowClosed # rest) w =
     (case pending w of
        None \<Rightarrow> next_change can_watch rest w
      | Some c \<Rightarrow> (Reported (Some c), w\<lparr>pending := None\<rparr>))"
| "next_change can_watch (ChannelClosed # rest) w = (Reported (pending w), w\<lparr>pending := None\<rparr>)"

section \<open>Running the compiler\<close>

record compiler =
  killed :: bool

record CancelState =
  requested :: bool
  compiling :: "compiler option"

definition cancel_new :: CancelState where
  "cancel_new = \<lparr>requested = False, compiling = None\<rparr>"

definition cancel_request :: "CancelState \<Rightarrow> CancelState" where
  "cancel_request s = s\<lparr>requested := True, compiling := map_option (\<lambda>c. c\<lparr>killed := True\<rparr>) (compiling s)\<rparr>"

definition cancel_adopt :: "compiler \<Rightarrow> CancelState \<Rightarrow> bool \<times> CancelState" where
  "cancel_adopt c s =
     (if requested s then (False, s\<lparr>compiling := Some (c\<lparr>killed := True\<rparr>)\<rparr>) else (True, s\<lparr>compiling := Some c\<rparr>))"

definition cancel_reclaim :: "CancelState \<Rightarrow> compiler option \<times> CancelState" where
  "cancel_reclaim s = (compiling s, s\<lparr>compiling := None\<rparr>)"

datatype Build = Succeeded string | BuildFailed string | BuildCancelled

record MessageStream =
  diagnostics :: string
  executable :: "string option"

definition stream_new :: MessageStream where
  "stream_new = \<lparr>diagnostics = [], executable = None\<rparr>"

definition as_str :: "json option \<Rightarrow> string option" where
  "as_str v = (case v of Some (JString s) \<Rightarrow> Some s | _ \<Rightarrow> None)"

definition absorb :: "(string \<Rightarrow> json option) \<Rightarrow> string \<Rightarrow> MessageStream \<Rightarrow> MessageStream" where
  "absorb from_str line m =
     (case from_str line of
        None \<Rightarrow> m
      | Some message \<Rightarrow>
          let reason = as_str (json_at [''reason''] message)
          in if reason = Some ''compiler-message'' then
               (case as_str (json_at [''message'', ''rendered''] message) of
                  None \<Rightarrow> m
                | Some rendered \<Rightarrow> m\<lparr>diagnostics := diagnostics m @ rendered\<rparr>)
             else if reason = Some ''compiler-artifact'' then
               (case as_str (json_at [''executable''] message) of
                  None \<Rightarrow> m
                | Some path \<Rightarrow> m\<lparr>executable := Some path\<rparr>)
             else m)"

definition NO_REASON :: string where
  "NO_REASON = ''cargo failed without saying why. Look at the terminal running `arc dev` for the reason.''"

definition NO_EXECUTABLE :: string where
  "NO_EXECUTABLE = ''cargo succeeded but produced no executable. `arc dev` needs a binary target -- check that src/main.rs exists and that the package is not library-only.''"

definition finish :: "bool \<Rightarrow> string \<Rightarrow> MessageStream \<Rightarrow> Build" where
  "finish success stderr m =
     (if \<not> success then
        BuildFailed
          (if trim (diagnostics m) = []
           then diagnostics m @ (if trim stderr = [] then NO_REASON else stderr)
           else diagnostics m)
      else case executable m of
             None \<Rightarrow> BuildFailed NO_EXECUTABLE
           | Some path \<Rightarrow> Succeeded path)"

definition STDERR_TAIL :: nat where
  "STDERR_TAIL = 40"

definition pump :: "string list \<Rightarrow> string list" where
  "pump lines = fold (\<lambda>line kept. (if length kept = STDERR_TAIL then tl kept else kept) @ [line]) lines []"

datatype DevError = CargoError | StageError | SpawnError | WaitError

text \<open>
  One run of the compiler with a cancellation that may arrive before the process is adopted, while it runs,
  or after it was reclaimed: the three flags.  \<open>output\<close> is the message stream, \<open>None\<close> being the read error
  that ends the loop, and \<open>status\<close> the exit status, \<open>None\<close> when waiting fails.
\<close>

record cargo_run =
  cargo_spawned :: bool
  cargo_output :: "string option list"
  cargo_errors :: "string list"
  cargo_status :: "bool option"

definition maybe_request :: "bool \<Rightarrow> CancelState \<Rightarrow> CancelState" where
  "maybe_request now s = (if now then cancel_request s else s)"

fun map_while_some :: "'a option list \<Rightarrow> 'a list" where
  "map_while_some (Some x # xs) = x # map_while_some xs"
| "map_while_some _ = []"

definition run_cargo_build :: "(string \<Rightarrow> json option) \<Rightarrow> cargo_run \<Rightarrow> bool \<times> bool \<times> bool \<Rightarrow> CancelState \<Rightarrow>
    (DevError, Build) result \<times> compiler option" where
  "run_cargo_build from_str run requests s =
     (if \<not> cargo_spawned run then (Err CargoError, None)
      else
        let (early, during, late) = requests;
            (live, s) = cancel_adopt \<lparr>killed = False\<rparr> (maybe_request early s);
            stream = fold (absorb from_str) (map_while_some (cargo_output run)) stream_new;
            (child, s) = cancel_reclaim (maybe_request during s)
        in (case child of
              None \<Rightarrow> (Ok BuildCancelled, None)
            | Some c \<Rightarrow>
                (case cargo_status run of
                   None \<Rightarrow> (Err CargoError, Some c)
                 | Some success \<Rightarrow>
                     let s = maybe_request late s
                     in (Ok (if \<not> live \<or> requested s then BuildCancelled
                             else finish success (join [CHR 0x0A] (pump (cargo_errors run))) stream), Some c))))"

section \<open>The application process\<close>

datatype BackendStatus = Building | Ready | StatusFailed string

text \<open>
  What a session does outside.  Stopping a process kills it and waits for it; \<open>Stopped\<close> is a wait that
  succeeded, after which the process is gone, and \<open>Abandoned\<close> one that failed: the supervisor prints the
  process id and lets go of a process that may still be there.
\<close>

datatype effect = Stopped | Abandoned | Spawned string | Migrated string | Removed string | Regenerated | Signalled

record ('c, 'e) child =
  child_program :: string
  child_code :: 'c
  child_env :: 'e

record ('c, 'e) Backend =
  bk_status :: BackendStatus
  bk_child :: "('c, 'e) child option"
  bk_staged :: "string option"
  bk_generation :: "32 word"
  bk_built :: "string option"
  bk_digest :: "nat option"
  bk_migrated :: bool
  bk_log :: "effect list"

definition backend_new :: "('c, 'e) Backend" where
  "backend_new =
     \<lparr>bk_status = Building, bk_child = None, bk_staged = None, bk_generation = 0, bk_built = None, bk_digest = None,
      bk_migrated = False, bk_log = []\<rparr>"

text \<open>
  What one reload meets outside: the result of the compiler (\<open>None\<close> when its task or cargo itself failed),
  the digest of a file, the copy set aside for a run (\<open>None\<close> an error, \<open>Some None\<close> on Unix, where there is
  none), whether the task that stops the old process runs to its end, whether a process that is stopped can
  be waited for, whether a program starts and then listens, what the
  program file and the environment hold at that moment.
\<close>

record ('c, 'e) outside =
  x_build :: "Build option"
  x_digest :: "string \<Rightarrow> nat option"
  x_stage :: "string \<Rightarrow> 32 word \<Rightarrow> string option option"
  x_stops :: bool
  x_reaps :: bool
  x_spawns :: "string \<Rightarrow> bool"
  x_listens :: bool
  x_code :: "string \<Rightarrow> 'c"
  x_env :: 'e

definition log_effect :: "effect \<Rightarrow> ('c, 'e) Backend \<Rightarrow> ('c, 'e) Backend" where
  "log_effect ef b = b\<lparr>bk_log := bk_log b @ [ef]\<rparr>"

definition mark :: "BackendStatus \<Rightarrow> ('c, 'e) Backend \<Rightarrow> ('c, 'e) Backend" where
  "mark st b = b\<lparr>bk_status := st\<rparr>"

definition discard_staged :: "('c, 'e) Backend \<Rightarrow> ('c, 'e) Backend" where
  "discard_staged b =
     (case bk_staged b of None \<Rightarrow> b | Some path \<Rightarrow> log_effect (Removed path) (b\<lparr>bk_staged := None\<rparr>))"

definition guard_stop :: "bool \<Rightarrow> ('c, 'e) Backend \<Rightarrow> ('c, 'e) Backend" where
  "guard_stop reaps b = log_effect (if reaps then Stopped else Abandoned) b"

definition stop_previous :: "bool \<Rightarrow> ('c, 'e) Backend \<Rightarrow> ('c, 'e) Backend" where
  "stop_previous reaps b = (case bk_child b of None \<Rightarrow> b | Some _ \<Rightarrow> guard_stop reaps (b\<lparr>bk_child := None\<rparr>))"

definition migrate :: "string \<Rightarrow> ('c, 'e) Backend \<Rightarrow> ('c, 'e) Backend" where
  "migrate program b = (if bk_migrated b then b else (log_effect (Migrated program) b)\<lparr>bk_migrated := True\<rparr>)"

definition boot :: "('c, 'e) outside \<Rightarrow> string \<Rightarrow> ('c, 'e) Backend \<Rightarrow> (DevError, unit) result \<times> ('c, 'e) Backend" where
  "boot x program b =
     (if \<not> x_spawns x program then (Err SpawnError, b)
      else if x_listens x
      then (Ok (), (log_effect (Spawned program) b)
              \<lparr>bk_child := Some \<lparr>child_program = program, child_code = x_code x program, child_env = x_env x\<rparr>\<rparr>)
      else (Err WaitError, guard_stop (x_reaps x) (log_effect (Spawned program) b)))"

definition restart :: "('c, 'e) outside \<Rightarrow> string \<Rightarrow> ('c, 'e) Backend \<Rightarrow> (DevError, unit) result \<times> ('c, 'e) Backend" where
  "restart x exe b =
     (let b = b\<lparr>bk_generation := bk_generation b + 1\<rparr>
      in case x_stage x exe (bk_generation b) of
           None \<Rightarrow> (Err StageError, b)
         | Some staged \<Rightarrow>
             if bk_child b \<noteq> None \<and> \<not> x_stops x then (Err SpawnError, stop_previous (x_reaps x) b)
             else
               let b = (discard_staged (stop_previous (x_reaps x) b))\<lparr>bk_staged := staged\<rparr>;
                   program = (case staged of None \<Rightarrow> exe | Some path \<Rightarrow> path)
               in boot x program (migrate program b))"

datatype Reload = Done bool | Cancelled

definition announce :: "('c, 'e) Backend \<Rightarrow> ('c, 'e) Backend" where
  "announce b = log_effect Signalled (log_effect Regenerated b)"

definition reload :: "('c, 'e) outside \<Rightarrow> ('c, 'e) Backend \<Rightarrow> (DevError, Reload) result \<times> ('c, 'e) Backend" where
  "reload x b =
     (let b = mark Building b
      in case x_build x of
           None \<Rightarrow> (Err CargoError, b)
         | Some (BuildFailed text) \<Rightarrow> (Ok (Done False), mark (StatusFailed text) b)
         | Some BuildCancelled \<Rightarrow> (Ok Cancelled, b)
         | Some (Succeeded exe) \<Rightarrow>
             let fingerprint = x_digest x exe;
                 b = b\<lparr>bk_built := Some exe\<rparr>
             in if bk_child b \<noteq> None \<and> fingerprint \<noteq> None \<and> fingerprint = bk_digest b
                then (Ok (Done True), mark Ready b)
                else (case restart x exe b of
                        (Err e, b) \<Rightarrow> (Err e, b)
                      | (Ok _, b) \<Rightarrow> (Ok (Done False), announce (mark Ready (b\<lparr>bk_digest := fingerprint\<rparr>)))))"

definition restart_only :: "('c, 'e) outside \<Rightarrow> ('c, 'e) Backend \<Rightarrow> (DevError, Reload) result \<times> ('c, 'e) Backend" where
  "restart_only x b =
     (case bk_built b of
        None \<Rightarrow> reload x b
      | Some exe \<Rightarrow>
          (case restart x exe (mark Building b) of
             (Err e, b) \<Rightarrow> (Err e, b)
           | (Ok _, b) \<Rightarrow> (Ok (Done False), announce (mark Ready b))))"

definition backend_stop :: "bool \<Rightarrow> ('c, 'e) Backend \<Rightarrow> ('c, 'e) Backend" where
  "backend_stop reaps b = discard_staged (stop_previous reaps b)"

section \<open>The loop\<close>

text \<open>
  One pass: the change that ends the wait when none is held (\<open>None\<close> for the end of the session), what the
  work meets outside, the change that arrives while it runs and is held for the next pass, and whether the
  session is interrupted then.
\<close>

record ('c, 'e) pass =
  p_waited :: "Change option"
  p_outside :: "('c, 'e) outside"
  p_newer :: "Change option"
  p_ctrl_c :: bool

definition run_change :: "('c, 'e) outside \<Rightarrow> Change \<Rightarrow> ('c, 'e) Backend \<Rightarrow> (DevError, Reload) result \<times> ('c, 'e) Backend" where
  "run_change x change b = (case change of Rebuild \<Rightarrow> reload x b | Restart \<Rightarrow> restart_only x b)"

text \<open>The answer is \<open>None\<close> while the session goes on; the change held for the next pass comes with it.\<close>

fun rebuild_loop :: "('c, 'e) pass list \<Rightarrow> Change option \<Rightarrow> ('c, 'e) Backend \<Rightarrow>
    (DevError, unit) result option \<times> Change option \<times> ('c, 'e) Backend" where
  "rebuild_loop [] held b = (None, held, b)"
| "rebuild_loop (p # ps) held b =
     (case (case held of Some c \<Rightarrow> Some c | None \<Rightarrow> p_waited p) of
        None \<Rightarrow> (Some (Ok ()), None, b)
      | Some change \<Rightarrow>
          (case run_change (p_outside p) change b of
             (r, b) \<Rightarrow>
               if p_ctrl_c p then (Some (Ok ()), p_newer p, b)
               else case r of
                      Err e \<Rightarrow> (Some (Err e), p_newer p, b)
                    | Ok _ \<Rightarrow> rebuild_loop ps (p_newer p) b))"

section \<open>Holding requests\<close>

text \<open>
  Instants are milliseconds.  \<open>status_at\<close> is the status at an instant, \<open>connects\<close> whether a connection
  to the application is accepted then, and \<open>answer\<close> what it answers (\<open>None\<close> when it breaks off).
\<close>

datatype Settled = SettledReady | SettledFailed string | StillBuilding

function settle :: "(nat \<Rightarrow> BackendStatus) \<Rightarrow> nat \<Rightarrow> nat \<Rightarrow> Settled \<times> nat" where
  "settle status_at deadline now =
     (case status_at now of
        Ready \<Rightarrow> (SettledReady, now)
      | StatusFailed d \<Rightarrow> (SettledFailed d, now)
      | Building \<Rightarrow> if now \<ge> deadline then (StillBuilding, now) else settle status_at deadline (now + 1))"
  by pat_completeness auto
termination
  by (relation "measure (\<lambda>(s, d, n). d - n)") auto

declare settle.simps [simp del]

definition RECONNECT_INTERVAL :: nat where
  "RECONNECT_INTERVAL = 20"

datatype 'r page = Answer 'r | CompileErrorPage string | BuildingPage nat | BackendGonePage

lemma settle_not_before: "now \<le> snd (settle status_at deadline now)"
proof (induction status_at deadline now rule: settle.induct)
  case (1 status_at deadline now)
  show ?case
  proof (cases "status_at now = Building \<and> now < deadline")
    case True
    then have "now + 1 \<le> snd (settle status_at deadline (now + 1))"
      using 1 by simp
    then show ?thesis
      using True by (subst settle.simps) simp
  next
    case False
    then show ?thesis
      by (subst settle.simps) (auto split: BackendStatus.split)
  qed
qed

function hold_then_forward :: "(nat \<Rightarrow> BackendStatus) \<Rightarrow> (nat \<Rightarrow> bool) \<Rightarrow> (nat \<Rightarrow> 'r option) \<Rightarrow> nat \<Rightarrow> nat \<Rightarrow> nat \<Rightarrow> 'r page \<times> nat" where
  "hold_then_forward status_at connects answer started deadline now =
     (case settle status_at deadline now of
        (SettledFailed d, t) \<Rightarrow> (CompileErrorPage d, t)
      | (StillBuilding, t) \<Rightarrow> (BuildingPage (t - started), t)
      | (SettledReady, t) \<Rightarrow>
          if connects t
          then (case answer t of Some r \<Rightarrow> (Answer r, t) | None \<Rightarrow> (BackendGonePage, t))
          else if t \<ge> deadline then (BackendGonePage, t)
          else hold_then_forward status_at connects answer started deadline (t + RECONNECT_INTERVAL))"
  by pat_completeness auto
termination
proof (relation "measure (\<lambda>(s, c, a, st, d, n). d - n)", goal_cases)
  case (2 status_at connects answer started deadline now p t)
  then have "now \<le> t"
    using settle_not_before [of now status_at deadline] by (metis snd_conv)
  then show ?case
    using 2 by (simp add: RECONNECT_INTERVAL_def)
qed simp

declare hold_then_forward.simps [simp del]

section \<open>Cancelling\<close>

text \<open>
  A cancellation is never lost: whether it arrives before the compiler is adopted, while it runs or after
  it was reclaimed, the build is reported as cancelled (or the wait for the process failed), and one that
  arrives before the process was reclaimed has killed it; without one the report is the outcome of the
  compiler.
\<close>

theorem cancel_is_never_lost:
  assumes "cargo_spawned run"
  shows "case run_cargo_build from_str run (early, during, late) cancel_new of
      (r, process) \<Rightarrow>
        (\<exists>c. process = Some c \<and> (killed c \<longleftrightarrow> early \<or> during)) \<and>
        (case cargo_status run of
           None \<Rightarrow> r = Err CargoError
         | Some success \<Rightarrow>
             r = Ok (if early \<or> during \<or> late then BuildCancelled
                     else finish success (join [CHR 0x0A] (pump (cargo_errors run)))
                       (fold (absorb from_str) (map_while_some (cargo_output run)) stream_new)))"
  using assms
  by (cases early; cases during; cases late)
    (auto simp: run_cargo_build_def maybe_request_def cancel_adopt_def cancel_request_def cancel_reclaim_def
      cancel_new_def Let_def split: option.split)

definition sample_run :: cargo_run where
  "sample_run = \<lparr>cargo_spawned = True, cargo_output = [], cargo_errors = [''boom''], cargo_status = Some False\<rparr>"

theorem cancel_is_never_lost_witness:
  "fst (run_cargo_build (\<lambda>_. None) sample_run (False, True, False) cancel_new) = Ok BuildCancelled"
  using cancel_is_never_lost [where run = sample_run and from_str = "\<lambda>_. None" and early = False and during = True and late = False]
  by (auto simp: sample_run_def split: prod.splits)

lemma pump_keeps_tail: "pump lines = drop (length lines - STDERR_TAIL) lines"
proof (induction lines rule: rev_induct)
  case Nil
  then show ?case
    by (simp add: pump_def)
next
  case (snoc line lines)
  have "pump (lines @ [line]) = (if length (pump lines) = STDERR_TAIL then tl (pump lines) else pump lines) @ [line]"
    by (simp add: pump_def)
  moreover have "Suc (length lines - 40) = length lines - 39" if "\<not> length lines < 40"
    using that by simp
  ultimately show ?case
    using snoc by (cases "length lines < STDERR_TAIL") (auto simp: STDERR_TAIL_def drop_Suc [symmetric] tl_drop)
qed

section \<open>One process at a time\<close>

text \<open>
  What the log of a session allows: a process starts only after migrations ran and while none is held, a
  held one is stopped once, whether or not that succeeds, and migrations run once.
\<close>

fun log_step :: "effect \<Rightarrow> bool \<times> bool \<Rightarrow> (bool \<times> bool) option" where
  "log_step (Spawned p) (migrated, held) = (if migrated \<and> \<not> held then Some (migrated, True) else None)"
| "log_step Stopped (migrated, held) = (if held then Some (migrated, False) else None)"
| "log_step Abandoned (migrated, held) = (if held then Some (migrated, False) else None)"
| "log_step (Migrated p) (migrated, held) = (if migrated \<or> held then None else Some (True, held))"
| "log_step _ st = Some st"

definition log_state :: "effect list \<Rightarrow> (bool \<times> bool) option" where
  "log_state log = foldl (\<lambda>st ef. Option.bind st (log_step ef)) (Some (False, False)) log"

lemma log_state_simps [simp]:
  "log_state [] = Some (False, False)" "log_state (log @ [ef]) = Option.bind (log_state log) (log_step ef)"
  by (simp_all add: log_state_def)

lemma log_state_two [simp]:
  "log_state (log @ [e1, e2]) = Option.bind (Option.bind (log_state log) (log_step e1)) (log_step e2)"
  by (simp add: log_state_def)

lemma log_step_other [simp]:
  "log_step Regenerated = Some" "log_step Signalled = Some" "log_step (Removed p) = Some"
  by (simp_all add: fun_eq_iff)

text \<open>
  The processes that were started and are not known to be gone, and those among them the supervisor has let
  go of.  A process that exits on its own stays counted until it is waited for.
\<close>

definition alive :: "effect list \<Rightarrow> nat" where
  "alive log = length (filter (\<lambda>ef. case ef of Spawned _ \<Rightarrow> True | _ \<Rightarrow> False) log) - length (filter (\<lambda>ef. ef = Stopped) log)"

definition abandoned :: "effect list \<Rightarrow> nat" where
  "abandoned log = length (filter (\<lambda>ef. ef = Abandoned) log)"

lemma log_state_take: "log_state log \<noteq> None \<Longrightarrow> log_state (take k log) \<noteq> None"
proof (induction log rule: rev_induct)
  case (snoc ef log)
  then show ?case
    by (cases "log_state log"; cases "k \<le> length log") auto
qed simp

lemma log_state_alive:
  "log_state log = Some (m, h) \<Longrightarrow>
   length (filter (\<lambda>ef. case ef of Spawned _ \<Rightarrow> True | _ \<Rightarrow> False) log) =
     length (filter (\<lambda>ef. ef = Stopped) log) + abandoned log + (if h then 1 else 0)"
proof (induction log arbitrary: m h rule: rev_induct)
  case Nil
  then show ?case
    by (simp add: abandoned_def)
next
  case (snoc ef log)
  then obtain m' h' where "log_state log = Some (m', h')" "log_step ef (m', h') = Some (m, h)"
    by (auto simp: bind_eq_Some_conv)
  with snoc.IH [OF this(1)] show ?case
    by (cases ef) (auto simp: abandoned_def split: if_splits)
qed

lemma alive_state: "log_state log = Some (m, h) \<Longrightarrow> alive log = abandoned log + (if h then 1 else 0)"
  using log_state_alive [of log m h] by (simp add: alive_def)

lemma alive_at_most: "log_state log \<noteq> None \<Longrightarrow> alive (take k log) \<le> abandoned (take k log) + 1"
  using log_state_take [of log k] alive_state by fastforce

definition log_ok :: "('c, 'e) Backend \<Rightarrow> bool" where
  "log_ok b \<longleftrightarrow> log_state (bk_log b) = Some (bk_migrated b, bk_child b \<noteq> None)"

definition backend_ok :: "('c, 'e) Backend \<Rightarrow> bool" where
  "backend_ok b \<longleftrightarrow> log_ok b \<and> (bk_status b = Ready \<longrightarrow> bk_child b \<noteq> None)"

lemma log_ok_update [simp]:
  "log_ok (mark st b) = log_ok b" "log_ok (b\<lparr>bk_staged := s\<rparr>) = log_ok b" "log_ok (b\<lparr>bk_built := e\<rparr>) = log_ok b"
  "log_ok (b\<lparr>bk_digest := d\<rparr>) = log_ok b" "log_ok (b\<lparr>bk_generation := g\<rparr>) = log_ok b"
  by (simp_all add: log_ok_def mark_def)

lemma stop_previous_ok: "log_ok b \<Longrightarrow> log_ok (stop_previous reaps b) \<and> bk_child (stop_previous reaps b) = None"
  by (auto simp: log_ok_def stop_previous_def guard_stop_def log_effect_def split: option.splits)

lemma discard_staged_ok: "log_ok b \<Longrightarrow> log_ok (discard_staged b)"
  by (auto simp: log_ok_def discard_staged_def log_effect_def split: option.splits)

lemma discard_staged_child [simp]: "bk_child (discard_staged b) = bk_child b"
  by (simp add: discard_staged_def log_effect_def split: option.split)

lemma migrate_ok: "log_ok b \<Longrightarrow> bk_child b = None \<Longrightarrow> log_ok (migrate p b) \<and> bk_child (migrate p b) = None \<and> bk_migrated (migrate p b)"
  by (auto simp: log_ok_def migrate_def log_effect_def)

lemma announce_ok: "log_ok (announce b) = log_ok b"
  by (auto simp: log_ok_def announce_def log_effect_def)

lemma announce_simps [simp]:
  "bk_child (announce b) = bk_child b" "bk_status (announce b) = bk_status b" "bk_built (announce b) = bk_built b"
  "bk_digest (announce b) = bk_digest b"
  by (simp_all add: announce_def log_effect_def)

lemma mark_simps [simp]:
  "bk_child (mark st b) = bk_child b" "bk_status (mark st b) = st" "bk_built (mark st b) = bk_built b"
  "bk_digest (mark st b) = bk_digest b"
  by (simp_all add: mark_def)

lemma boot_ok:
  assumes "log_ok b" "bk_child b = None" "bk_migrated b" "boot x p b = (r, b')"
  shows "log_ok b' \<and> bk_status b' = bk_status b \<and>
    (case r of
       Ok _ \<Rightarrow> bk_child b' = Some \<lparr>child_program = p, child_code = x_code x p, child_env = x_env x\<rparr>
     | Err e \<Rightarrow> bk_child b' = None)"
  using assms by (auto simp: boot_def log_ok_def guard_stop_def log_effect_def split: if_splits)

lemma status_kept [simp]:
  "bk_status (migrate p b) = bk_status b" "bk_status (discard_staged b) = bk_status b"
  "bk_status (stop_previous reaps b) = bk_status b"
  by (simp_all add: migrate_def discard_staged_def stop_previous_def guard_stop_def log_effect_def split: option.split)

lemma restart_ok:
  assumes "log_ok b" "restart x exe b = (r, b')"
  shows "log_ok b' \<and> bk_status b' = bk_status b \<and>
    (case r of
       Ok _ \<Rightarrow> (\<exists>p. bk_child b' = Some \<lparr>child_program = p, child_code = x_code x p, child_env = x_env x\<rparr> \<and>
                 (\<exists>s. x_stage x exe (bk_generation b + 1) = Some s \<and> p = (case s of None \<Rightarrow> exe | Some path \<Rightarrow> path)))
     | Err e \<Rightarrow> bk_child b' = None \<or> bk_child b' = bk_child b)"
proof (cases "x_stage x exe (bk_generation b + 1)")
  case None
  then show ?thesis
    using assms by (auto simp: restart_def Let_def)
next
  case (Some staged)
  let ?b = "b\<lparr>bk_generation := bk_generation b + 1\<rparr>"
  let ?p = "case staged of None \<Rightarrow> exe | Some path \<Rightarrow> path"
  have stopped: "log_ok (stop_previous (x_reaps x) ?b)" "bk_child (stop_previous (x_reaps x) ?b) = None"
    using stop_previous_ok [of ?b] assms(1) by auto
  show ?thesis
  proof (cases "bk_child b \<noteq> None \<and> \<not> x_stops x")
    case True
    then show ?thesis
      using assms(2) Some stopped by (auto simp: restart_def Let_def)
  next
    case False
    let ?m = "migrate ?p ((discard_staged (stop_previous (x_reaps x) ?b))\<lparr>bk_staged := staged\<rparr>)"
    have ready: "log_ok ?m" "bk_child ?m = None" "bk_migrated ?m"
      using migrate_ok [of "(discard_staged (stop_previous (x_reaps x) ?b))\<lparr>bk_staged := staged\<rparr>" ?p] stopped
        discard_staged_ok [OF stopped(1)] by auto
    have "boot x ?p ?m = (r, b')"
      using assms(2) Some False by (auto simp: restart_def Let_def)
    from boot_ok [OF ready this] show ?thesis
      using Some by (auto split: sum.splits)
  qed
qed

text \<open>
  What a rebuild leaves behind, for every outcome of the compiler and of the process: a failed or
  cancelled build and an unchanged binary leave the running process alone; a new binary is what runs
  afterwards, with the environment read then; and after an error nothing new is running and nothing is
  reported as ready.
\<close>

theorem rebuild_is_accounted:
  assumes "log_ok b"
  shows "case reload x b of
      (Ok (Done unchanged), b') \<Rightarrow>
        if unchanged
        then (\<exists>exe. x_build x = Some (Succeeded exe) \<and> x_digest x exe = bk_digest b \<and> x_digest x exe \<noteq> None \<and>
               bk_child b \<noteq> None) \<and> bk_child b' = bk_child b \<and> bk_status b' = Ready
        else (\<exists>text. x_build x = Some (BuildFailed text) \<and> b' = b\<lparr>bk_status := StatusFailed text\<rparr>) \<or>
             (\<exists>exe p. x_build x = Some (Succeeded exe) \<and> bk_status b' = Ready \<and> bk_digest b' = x_digest x exe \<and>
                bk_child b' = Some \<lparr>child_program = p, child_code = x_code x p, child_env = x_env x\<rparr> \<and>
                (\<exists>s. x_stage x exe (bk_generation b + 1) = Some s \<and> p = (case s of None \<Rightarrow> exe | Some path \<Rightarrow> path)))
    | (Ok Cancelled, b') \<Rightarrow> x_build x = Some BuildCancelled \<and> b' = b\<lparr>bk_status := Building\<rparr>
    | (Err e, b') \<Rightarrow> bk_status b' = Building \<and> (bk_child b' = None \<or> bk_child b' = bk_child b)"
proof (cases "x_build x")
  case None
  then show ?thesis
    by (simp add: reload_def)
next
  case (Some build)
  show ?thesis
  proof (cases build)
    case (Succeeded exe)
    let ?b = "mark Building b\<lparr>bk_built := Some exe\<rparr>"
    obtain r b' where run: "restart x exe ?b = (r, b')"
      by force
    have "log_ok ?b"
      using assms by simp
    note restarted = restart_ok [OF this run]
    show ?thesis
    proof (cases "bk_child b \<noteq> None \<and> x_digest x exe \<noteq> None \<and> x_digest x exe = bk_digest b")
      case True
      then have "reload x b = (Ok (Done True), mark Ready ?b)"
        using Some Succeeded by (auto simp: reload_def Let_def mark_def)
      then show ?thesis
        using True Some Succeeded by (cases "bk_digest b") (auto simp: mark_def)
    next
      case False
      then have "reload x b =
          (case r of Err e \<Rightarrow> (Err e, b') | Ok _ \<Rightarrow> (Ok (Done False), announce (mark Ready (b'\<lparr>bk_digest := x_digest x exe\<rparr>))))"
        using Some Succeeded run by (auto simp: reload_def Let_def mark_def split: sum.split)
      then show ?thesis
        using restarted Some Succeeded by (cases r) (auto simp: mark_def announce_def log_effect_def)
    qed
  qed (use Some in \<open>simp_all add: reload_def mark_def\<close>)
qed

text \<open>A backend on which a rebuild was run before, with an unchanged binary the next time.\<close>

definition sample_outside :: "(nat, nat) outside" where
  "sample_outside =
     \<lparr>x_build = Some (Succeeded ''target/app''), x_digest = (\<lambda>_. Some 7), x_stage = (\<lambda>_ _. Some None), x_stops = True, x_reaps = True,
      x_spawns = (\<lambda>_. True), x_listens = True, x_code = (\<lambda>_. 1), x_env = 1\<rparr>"

definition sample_backend :: "(nat, nat) Backend" where
  "sample_backend = snd (reload sample_outside backend_new)"

lemma sample_backend_eq:
  "sample_backend =
     \<lparr>bk_status = Ready, bk_child = Some \<lparr>child_program = ''target/app'', child_code = 1, child_env = 1\<rparr>, bk_staged = None,
      bk_generation = 1, bk_built = Some ''target/app'', bk_digest = Some 7, bk_migrated = True,
      bk_log = [Migrated ''target/app'', Spawned ''target/app'', Regenerated, Signalled]\<rparr>"
  by code_simp

lemma sample_backend_ok: "log_ok sample_backend"
  by (simp add: sample_backend_eq log_ok_def log_state_def)

theorem rebuild_is_accounted_witness:
  "log_ok sample_backend \<and>
   fst (reload (sample_outside\<lparr>x_build := Some BuildCancelled\<rparr>) sample_backend) = Ok Cancelled \<and>
   snd (reload (sample_outside\<lparr>x_build := Some BuildCancelled\<rparr>) sample_backend) = sample_backend\<lparr>bk_status := Building\<rparr>"
  using rebuild_is_accounted [OF sample_backend_ok, of "sample_outside\<lparr>x_build := Some BuildCancelled\<rparr>"] sample_backend_ok
  by (simp add: reload_def mark_def)

lemma reload_ok:
  assumes "log_ok b"
  shows "backend_ok (snd (reload x b))"
proof (cases "x_build x")
  case None
  then show ?thesis
    using assms by (simp add: reload_def backend_ok_def)
next
  case (Some build)
  show ?thesis
  proof (cases build)
    case (Succeeded exe)
    let ?b = "mark Building b\<lparr>bk_built := Some exe\<rparr>"
    obtain r b' where run: "restart x exe ?b = (r, b')"
      by force
    have "log_ok ?b"
      using assms by simp
    from restart_ok [OF this run] show ?thesis
      using Some Succeeded run assms
      by (cases r) (auto simp: reload_def Let_def backend_ok_def announce_ok)
  qed (use Some assms in \<open>simp_all add: reload_def backend_ok_def\<close>)
qed

lemma restart_only_ok:
  assumes "log_ok b"
  shows "backend_ok (snd (restart_only x b))"
proof (cases "bk_built b")
  case None
  then show ?thesis
    using reload_ok [OF assms] by (simp add: restart_only_def)
next
  case (Some exe)
  obtain r b' where run: "restart x exe (mark Building b) = (r, b')"
    by force
  have "log_ok (mark Building b)"
    using assms by simp
  from restart_ok [OF this run] show ?thesis
    using Some run by (cases r) (auto simp: restart_only_def backend_ok_def announce_ok)
qed

lemma run_change_ok: "log_ok b \<Longrightarrow> backend_ok (snd (run_change x c b))"
  by (cases c) (simp_all add: run_change_def reload_ok restart_only_ok)

lemma rebuild_loop_ok: "backend_ok b \<Longrightarrow> backend_ok (snd (snd (rebuild_loop ps held b)))"
proof (induction ps arbitrary: held b)
  case (Cons p ps)
  show ?case
  proof (cases "case held of Some c \<Rightarrow> Some c | None \<Rightarrow> p_waited p")
    case None
    then show ?thesis
      using Cons.prems by simp
  next
    case (Some change)
    obtain r b' where run: "run_change (p_outside p) change b = (r, b')"
      by force
    then have "backend_ok b'"
      using run_change_ok [of b "p_outside p" change] Cons.prems by (simp add: backend_ok_def)
    then show ?thesis
      using Some run Cons.IH [of b'] by (simp split: sum.split)
  qed
qed simp

text \<open>
  C40.  Through a whole session, whatever is edited, cancelled or fails, a process is started only while no
  other is held and only after migrations ran, which they do once, and every process is stopped exactly once.
  So at every moment at most one process that was started is not known to be gone, beside those whose
  stopping failed: killing is best effort, and when the wait for the process fails the supervisor prints its
  id and lets go of it.  The status is ready only while a process that listened is held (it may have exited
  since, which the next request finds out), and stopping the session leaves behind only processes whose
  wait failed.
\<close>

theorem one_process_at_a_time:
  assumes "rebuild_loop ps (Some Rebuild) backend_new = (r, held, b)"
  shows "log_state (bk_log b) = Some (bk_migrated b, bk_child b \<noteq> None) \<and>
    (\<forall>k. alive (take k (bk_log b)) \<le> abandoned (take k (bk_log b)) + 1) \<and>
    (bk_status b = Ready \<longrightarrow> bk_child b \<noteq> None) \<and>
    log_state (bk_log (backend_stop reaps b)) = Some (bk_migrated b, False) \<and>
    alive (bk_log (backend_stop reaps b)) = abandoned (bk_log (backend_stop reaps b))"
proof -
  have "backend_ok (backend_new :: ('a, 'b) Backend)"
    by (simp add: backend_ok_def log_ok_def backend_new_def)
  then have ok: "backend_ok b"
    using rebuild_loop_ok [of backend_new ps "Some Rebuild"] assms by simp
  then have now: "log_state (bk_log b) = Some (bk_migrated b, bk_child b \<noteq> None)" "bk_status b = Ready \<longrightarrow> bk_child b \<noteq> None"
    by (simp_all add: backend_ok_def log_ok_def)
  have stopped: "log_ok (stop_previous reaps b)" "bk_child (stop_previous reaps b) = None"
    using stop_previous_ok ok by (auto simp: backend_ok_def)
  moreover have "bk_migrated (backend_stop reaps b) = bk_migrated b"
    by (simp add: backend_stop_def discard_staged_def stop_previous_def guard_stop_def log_effect_def split: option.split)
  ultimately have "log_state (bk_log (backend_stop reaps b)) = Some (bk_migrated b, False)"
    using discard_staged_ok [OF stopped(1)] by (simp add: log_ok_def backend_stop_def)
  then show ?thesis
    using now alive_at_most [of "bk_log b"] alive_state [of "bk_log (backend_stop reaps b)" "bk_migrated b" False] by simp
qed

definition sample_pass :: "(nat, nat) pass" where
  "sample_pass = \<lparr>p_waited = None, p_outside = sample_outside, p_newer = None, p_ctrl_c = False\<rparr>"

lemma sample_session: "rebuild_loop [sample_pass] (Some Rebuild) backend_new = (None, None, sample_backend)"
proof -
  have "fst (reload sample_outside backend_new) = Ok (Done False)"
    by code_simp
  then show ?thesis
    by (cases "reload sample_outside backend_new") (simp add: sample_pass_def sample_backend_def run_change_def)
qed

theorem one_process_at_a_time_witness:
  "log_state (bk_log sample_backend) = Some (True, True) \<and> bk_child sample_backend \<noteq> None \<and>
   log_state (bk_log (backend_stop True sample_backend)) = Some (True, False) \<and>
   alive (bk_log (backend_stop True sample_backend)) = 0"
proof -
  note session = one_process_at_a_time [OF sample_session, of True]
  have "abandoned (bk_log (backend_stop True sample_backend)) = 0"
    by (simp add: sample_backend_eq backend_stop_def stop_previous_def guard_stop_def discard_staged_def log_effect_def abandoned_def)
  then show ?thesis
    using session by (simp add: sample_backend_eq)
qed

section \<open>Edits that do not arrive\<close>

text \<open>
  A change of the environment that arrives while a rebuild runs replaces the rebuild instead of following
  it: the compiler is stopped, the last binary is started again, and the session waits, ready, with the
  edited sources never compiled.
\<close>

lemma superseded_rebuild_is_lost:
  assumes "bk_built b = Some exe" "log_ok b"
    and "x_build (p_outside p) = Some BuildCancelled" "p_newer p = Some Restart" "\<not> p_ctrl_c p"
    and "restart (p_outside q) exe (mark Building b) = (Ok (), b')" "p_newer q = None" "\<not> p_ctrl_c q"
  shows "rebuild_loop [p, q] (Some Rebuild) b = (None, None, announce (mark Ready b'))"
proof -
  have "run_change (p_outside p) Rebuild b = (Ok Cancelled, mark Building b)"
    using assms(3) by (simp add: run_change_def reload_def)
  moreover have "run_change (p_outside q) Restart (mark Building b) = (Ok (Done False), announce (mark Ready b'))"
    using assms(1,6) by (simp add: run_change_def restart_only_def mark_def)
  ultimately show ?thesis
    using assms(4,5,7,8) by simp
qed

text \<open>
  An edit of the environment together with one of the sources is reported as a rebuild; when the compiler
  gives the same binary, the process is not restarted and keeps the old environment.
\<close>

lemma env_edit_is_lost:
  "fst (next_change (\<lambda>_. True) [Received (Changed Restart), Received (Changed Rebuild), WindowClosed] \<lparr>subscribed = {}, pending = None\<rparr>) =
     Reported (Some Rebuild)"
  "bk_child (snd (reload (sample_outside\<lparr>x_env := 2\<rparr>) sample_backend)) =
     Some \<lparr>child_program = ''target/app'', child_code = 1, child_env = 1\<rparr>"
  "bk_status (snd (reload (sample_outside\<lparr>x_env := 2\<rparr>) sample_backend)) = Ready"
  by (simp_all add: change_max_def reload_def Let_def sample_backend_eq sample_outside_def)

text \<open>A burst is reported as its costliest change, and one that is being collected outlives a dropped wait.\<close>

definition burst :: "Change option \<Rightarrow> receipt list \<Rightarrow> Change option" where
  "burst = foldl (\<lambda>held e. case e of
     Received (Changed c) \<Rightarrow> Some (case held of None \<Rightarrow> c | Some h \<Rightarrow> change_max h c) | _ \<Rightarrow> held)"

lemma next_change_burst:
  "\<forall>e \<in> set es. \<exists>s. e = Received s \<Longrightarrow>
   fst (next_change can_watch es w) = Dropped \<and> pending (snd (next_change can_watch es w)) = burst (pending w) es"
  by (induction can_watch es w rule: next_change.induct) (auto simp: burst_def subscribe_def split: Signal.splits)

section \<open>Every request is answered\<close>

lemma settle_outcome:
  "settle status_at deadline now = (s, t) \<Longrightarrow> now \<le> t \<and> t \<le> max now deadline \<and>
   (case s of
      SettledReady \<Rightarrow> status_at t = Ready
    | SettledFailed d \<Rightarrow> status_at t = StatusFailed d
    | StillBuilding \<Rightarrow> status_at t = Building \<and> deadline \<le> t) \<and>
   (\<forall>u. now \<le> u \<longrightarrow> u < t \<longrightarrow> status_at u = Building)"
proof (induction status_at deadline now rule: settle.induct)
  case (1 status_at deadline now)
  show ?case
  proof (cases "status_at now = Building \<and> now < deadline")
    case True
    then have later: "settle status_at deadline (now + 1) = (s, t)"
      using 1(2) by (subst (asm) settle.simps) simp
    have "status_at u = Building" if "now \<le> u" "u < t" for u
      using that True 1(1) [OF _ _ later] by (cases "u = now") auto
    then show ?thesis
      using True 1(1) [OF _ _ later] by auto
  next
    case False
    then show ?thesis
      using 1(2) by (subst (asm) settle.simps) (auto split: BackendStatus.splits if_splits)
  qed
qed

definition page_ok :: "(nat \<Rightarrow> BackendStatus) \<Rightarrow> (nat \<Rightarrow> bool) \<Rightarrow> (nat \<Rightarrow> 'r option) \<Rightarrow> nat \<Rightarrow> nat \<Rightarrow> 'r page \<Rightarrow> nat \<Rightarrow> bool" where
  "page_ok status_at connects answer started deadline page t =
     (case page of
        Answer r \<Rightarrow> status_at t = Ready \<and> connects t \<and> answer t = Some r
      | CompileErrorPage d \<Rightarrow> status_at t = StatusFailed d
      | BuildingPage waited \<Rightarrow> status_at t = Building \<and> deadline \<le> t \<and> waited = t - started
      | BackendGonePage \<Rightarrow> status_at t = Ready \<and> (if connects t then answer t = None else deadline \<le> t))"

lemma hold_outcome:
  "hold_then_forward status_at connects answer started deadline now = (page, t) \<Longrightarrow> now < deadline + RECONNECT_INTERVAL \<Longrightarrow>
   t < deadline + RECONNECT_INTERVAL \<and> page_ok status_at connects answer started deadline page t"
proof (induction status_at connects answer started deadline now rule: hold_then_forward.induct)
  case (1 status_at connects answer started deadline now)
  obtain s u where settled: "settle status_at deadline now = (s, u)"
    by force
  have bounds: "now \<le> u" "u \<le> max now deadline"
    using settle_outcome [OF settled] by auto
  show ?case
  proof (cases "s = SettledReady \<and> \<not> connects u \<and> u < deadline")
    case True
    then have "hold_then_forward status_at connects answer started deadline (u + RECONNECT_INTERVAL) = (page, t)"
      using 1(2) settled by (subst (asm) hold_then_forward.simps) simp
    then show ?thesis
      using 1(1) [OF settled [symmetric]] True by simp
  next
    case False
    then show ?thesis
      using 1(2,3) settled settle_outcome [OF settled] bounds
      by (subst (asm) hold_then_forward.simps)
        (auto simp: page_ok_def RECONNECT_INTERVAL_def split: Settled.splits option.splits if_splits)
  qed
qed

text \<open>
  A request that reaches the supervisor is always answered, no later than one reconnect interval after
  the time it may be held: with the application's answer when it was ready and accepted the connection,
  with the diagnostics when the build had failed, with the holding page only when the build was still
  running after the whole time, and as gone only when the application broke off or could not be reached
  to the end.
\<close>

theorem request_is_answered:
  "case hold_then_forward status_at connects answer started (started + hold) started of (page, t) \<Rightarrow>
     t < started + hold + RECONNECT_INTERVAL \<and>
     (case page of
        Answer r \<Rightarrow> status_at t = Ready \<and> connects t \<and> answer t = Some r
      | CompileErrorPage d \<Rightarrow> status_at t = StatusFailed d
      | BuildingPage waited \<Rightarrow> status_at t = Building \<and> started + hold \<le> t \<and> waited = t - started
      | BackendGonePage \<Rightarrow> status_at t = Ready \<and> (if connects t then answer t = None else started + hold \<le> t))"
proof -
  obtain page t where run: "hold_then_forward status_at connects answer started (started + hold) started = (page, t)"
    by force
  from hold_outcome [OF this] show ?thesis
    by (simp add: run RECONNECT_INTERVAL_def page_ok_def)
qed

end
