(* ===== verification/Cli_Parser.thy ===== *)
theory Cli_Parser
  imports Arc_Prelude
begin

text \<open>
  The command line of \<^verbatim>\<open>arc\<close> (\<^verbatim>\<open>cli/parser.rs\<close>, \<^verbatim>\<open>cli/mod.rs\<close>): the declared commands with their arguments, the
  typed command read from what the argument parser matched, and the commands that only hand their work
  to another process (\<^verbatim>\<open>serve.rs\<close>, \<^verbatim>\<open>migrate.rs\<close>, \<^verbatim>\<open>schedule.rs\<close>, \<^verbatim>\<open>db.rs\<close>, \<^verbatim>\<open>install.rs\<close>).

  The package \<^verbatim>\<open>clap\<close> is an argument.  What the code relies on is stated as \<open>conforms\<close>: a successful match
  holds a slot for every declared argument, of the declared type, filled when the argument is required or
  has a default, and with one of the listed values where they are listed.  Reading an argument that is
  not declared or has another type is a panic, the value \<open>None\<close> here.  Help texts are left out; every
  feature of the package is taken as enabled.
\<close>

section \<open>Commands\<close>

datatype Stack = React | Vue | Svelte

definition STACKS :: "Stack list" where
  "STACKS = [React, Vue, Svelte]"

primrec stack_as_str :: "Stack \<Rightarrow> string" where
  "stack_as_str React = ''react''"
| "stack_as_str Vue = ''vue''"
| "stack_as_str Svelte = ''svelte''"

definition stack_parse :: "string \<Rightarrow> Stack option" where
  "stack_parse s = List.find (\<lambda>k. stack_as_str k = s) STACKS"

datatype Database = Postgres | Sqlite | Mysql

definition DATABASES :: "Database list" where
  "DATABASES = [Postgres, Sqlite, Mysql]"

primrec database_as_str :: "Database \<Rightarrow> string" where
  "database_as_str Postgres = ''postgres''"
| "database_as_str Sqlite = ''sqlite''"
| "database_as_str Mysql = ''mysql''"

primrec database_feature :: "Database \<Rightarrow> string" where
  "database_feature Postgres = ''db-postgres''"
| "database_feature Sqlite = ''db-sqlite''"
| "database_feature Mysql = ''db-mysql''"

definition database_parse :: "string \<Rightarrow> Database option" where
  "database_parse s = List.find (\<lambda>k. database_as_str k = s) DATABASES"

datatype QueueAction = Work | Drain | Stats

datatype DbAction = Seed | Fresh | Reset

primrec app_flag :: "DbAction \<Rightarrow> string" where
  "app_flag Seed = ''--db-seed''"
| "app_flag Fresh = ''--db-fresh''"
| "app_flag Reset = ''--db-reset''"

definition is_destructive :: "DbAction \<Rightarrow> bool" where
  "is_destructive a \<longleftrightarrow> a = Fresh \<or> a = Reset"

primrec db_as_str :: "DbAction \<Rightarrow> string" where
  "db_as_str Seed = ''db:seed''"
| "db_as_str Fresh = ''db:fresh''"
| "db_as_str Reset = ''db:reset''"

datatype MakeKind =
    Module | Controller | Model | Migration | Request | Resource | Policy | Service | Job | Event | Listener
  | Middleware | Command | Page | Test | Factory | Seeder | Notification | Mail | View | Upload | Auth

definition MAKE_KINDS :: "MakeKind list" where
  "MAKE_KINDS =
     [Module, Controller, Model, Migration, Request, Resource, Policy, Service, Job, Event, Listener, Middleware,
      Command, Page, Test, Factory, Seeder, Notification, Mail, View, Upload, Auth]"

primrec make_as_str :: "MakeKind \<Rightarrow> string" where
  "make_as_str Module = ''module''"
| "make_as_str Controller = ''controller''"
| "make_as_str Model = ''model''"
| "make_as_str Migration = ''migration''"
| "make_as_str Request = ''request''"
| "make_as_str Resource = ''resource''"
| "make_as_str Policy = ''policy''"
| "make_as_str Service = ''service''"
| "make_as_str Job = ''job''"
| "make_as_str Event = ''event''"
| "make_as_str Listener = ''listener''"
| "make_as_str Middleware = ''middleware''"
| "make_as_str Command = ''command''"
| "make_as_str Page = ''page''"
| "make_as_str Test = ''test''"
| "make_as_str Factory = ''factory''"
| "make_as_str Seeder = ''seeder''"
| "make_as_str Notification = ''notification''"
| "make_as_str Mail = ''mail''"
| "make_as_str View = ''view''"
| "make_as_str Upload = ''upload''"
| "make_as_str Auth = ''auth''"

primrec subcommand_name :: "MakeKind \<Rightarrow> string" where
  "subcommand_name Module = ''make:module''"
| "subcommand_name Controller = ''make:controller''"
| "subcommand_name Model = ''make:model''"
| "subcommand_name Migration = ''make:migration''"
| "subcommand_name Request = ''make:request''"
| "subcommand_name Resource = ''make:resource''"
| "subcommand_name Policy = ''make:policy''"
| "subcommand_name Service = ''make:service''"
| "subcommand_name Job = ''make:job''"
| "subcommand_name Event = ''make:event''"
| "subcommand_name Listener = ''make:listener''"
| "subcommand_name Middleware = ''make:middleware''"
| "subcommand_name Command = ''make:command''"
| "subcommand_name Page = ''make:page''"
| "subcommand_name Test = ''make:test''"
| "subcommand_name Factory = ''make:factory''"
| "subcommand_name Seeder = ''make:seeder''"
| "subcommand_name Notification = ''make:notification''"
| "subcommand_name Mail = ''make:mail''"
| "subcommand_name View = ''make:view''"
| "subcommand_name Upload = ''make:upload''"
| "subcommand_name Auth = ''make:auth''"

definition from_subcommand_name :: "string \<Rightarrow> MakeKind option" where
  "from_subcommand_name name =
     Option.bind (strip_prefix ''make:'' name) (\<lambda>kind. List.find (\<lambda>k. make_as_str k = kind) MAKE_KINDS)"

datatype Subcommand =
    New string "string option" Stack Database bool
  | Install bool
  | Version
  | Serve "string option" "16 word option"
  | Migrate "string option"
  | Schedule "string option"
  | Make MakeKind string
  | KeyGenerate bool
  | StorageLink
  | Db DbAction "string option" bool
  | Queue QueueAction "string option"
  | Doctor
  | Dev "16 word option" "string option" bool
  | Routes bool
  | Typegen
  | BuildApp

section \<open>Declared arguments\<close>

datatype arg_type = Flag | Text | Port | PathArg

record Arg =
  arg_id :: string
  arg_type :: arg_type
  arg_required :: bool
  arg_default :: "string option"
  arg_values :: "string list option"

definition arg :: "string \<Rightarrow> arg_type \<Rightarrow> Arg" where
  "arg i ty = \<lparr>arg_id = i, arg_type = ty, arg_required = False, arg_default = None, arg_values = None\<rparr>"

definition dsn_arg :: Arg where
  "dsn_arg = arg ''dsn'' Text"

definition db_subcommand :: "DbAction \<Rightarrow> string \<times> Arg list" where
  "db_subcommand action = (db_as_str action, [dsn_arg, arg ''force'' Flag])"

definition new_subcommand :: "string \<times> Arg list" where
  "new_subcommand =
     (''new'',
      [(arg ''name'' Text)\<lparr>arg_required := True\<rparr>,
       arg ''dest'' PathArg,
       (arg ''stack'' Text)\<lparr>arg_values := Some (map stack_as_str STACKS), arg_default := Some (stack_as_str React)\<rparr>,
       arg ''no-install'' Flag,
       (arg ''db'' Text)\<lparr>arg_values := Some (map database_as_str DATABASES), arg_default := Some (database_as_str Sqlite)\<rparr>])"

definition make_subcommand :: "MakeKind \<Rightarrow> string \<times> Arg list" where
  "make_subcommand kind = (subcommand_name kind, [(arg ''name'' Text)\<lparr>arg_required := True\<rparr>])"

text \<open>The arguments of \<^verbatim>\<open>arc\<close> itself, and its subcommands with theirs.\<close>

record CommandSpec =
  own_args :: "Arg list"
  subcommands :: "(string \<times> Arg list) list"

definition command :: CommandSpec where
  "command =
     \<lparr>own_args = [arg ''version'' Flag],
      subcommands =
        [new_subcommand,
         (''install'', [arg ''ci'' Flag]),
         (''version'', []),
         (''serve'', [arg ''bind'' Text, arg ''port'' Port]),
         (''migrate'', [dsn_arg]),
         (''schedule'', [dsn_arg]),
         (''storage:link'', []),
         db_subcommand Seed, db_subcommand Fresh, db_subcommand Reset,
         (''dev'', [arg ''port'' Port, arg ''host'' Text, arg ''open'' Flag]),
         (''routes'', [arg ''json'' Flag]),
         (''typegen'', []),
         (''build'', [])] @
        map make_subcommand MAKE_KINDS @
        [(''key:generate'', [arg ''show'' Flag]),
         (''queue'', [(arg ''action'' Text)\<lparr>arg_required := True, arg_values := Some [''work'', ''drain'', ''stats'']\<rparr>, dsn_arg]),
         (''doctor'', [])]\<rparr>"

section \<open>Matches\<close>

datatype slot = FlagSlot bool | TextSlot "string option" | PortSlot "16 word option" | PathSlot "string option"

type_synonym slots = "(string \<times> slot) list"

record ArgMatches =
  own_slots :: slots
  chosen :: "(string \<times> slots) option"

definition get_flag :: "slots \<Rightarrow> string \<Rightarrow> bool option" where
  "get_flag m i = (case map_of m i of Some (FlagSlot b) \<Rightarrow> Some b | _ \<Rightarrow> None)"

definition get_text :: "slots \<Rightarrow> string \<Rightarrow> string option option" where
  "get_text m i = (case map_of m i of Some (TextSlot v) \<Rightarrow> Some v | _ \<Rightarrow> None)"

definition get_port :: "slots \<Rightarrow> string \<Rightarrow> 16 word option option" where
  "get_port m i = (case map_of m i of Some (PortSlot v) \<Rightarrow> Some v | _ \<Rightarrow> None)"

definition get_path :: "slots \<Rightarrow> string \<Rightarrow> string option option" where
  "get_path m i = (case map_of m i of Some (PathSlot v) \<Rightarrow> Some v | _ \<Rightarrow> None)"

text \<open>The last case is the \<^verbatim>\<open>unreachable!\<close> of the code.\<close>

definition string_of :: "slots \<Rightarrow> string \<Rightarrow> string option" where
  "string_of m i = (case get_text m i of Some (Some s) \<Rightarrow> Some s | _ \<Rightarrow> None)"

definition dsn_of :: "slots \<Rightarrow> string option option" where
  "dsn_of m = get_text m ''dsn''"

definition db_of :: "DbAction \<Rightarrow> slots \<Rightarrow> Subcommand option" where
  "db_of action m = Option.bind (dsn_of m) (\<lambda>dsn. map_option (Db action dsn) (get_flag m ''force''))"

datatype 'e parse_error = ClapError 'e | MissingSubcommand | InvalidSubcommand string

definition queue_action :: "string \<Rightarrow> QueueAction" where
  "queue_action s = (if s = ''work'' then Work else if s = ''drain'' then Drain else Stats)"

text \<open>The arm of a command by its name; the first \<open>None\<close> is the arm of an unhandled one.\<close>

definition named_arm :: "string \<Rightarrow> (slots \<Rightarrow> Subcommand option) option" where
  "named_arm name =
     map_of
       [(''new'', \<lambda>m.
           Option.bind (string_of m ''name'') (\<lambda>name.
           Option.bind (get_path m ''dest'') (\<lambda>dest.
           Option.bind (string_of m ''stack'') (\<lambda>stack.
           Option.bind (string_of m ''db'') (\<lambda>db.
           map_option (\<lambda>no_install.
             New name dest (case stack_parse stack of Some s \<Rightarrow> s | None \<Rightarrow> React)
               (case database_parse db of Some d \<Rightarrow> d | None \<Rightarrow> Sqlite) (\<not> no_install))
             (get_flag m ''no-install'')))))),
        (''install'', \<lambda>m. map_option Install (get_flag m ''ci'')),
        (''version'', \<lambda>m. Some Version),
        (''serve'', \<lambda>m. Option.bind (get_text m ''bind'') (\<lambda>bind. map_option (Serve bind) (get_port m ''port''))),
        (''dev'', \<lambda>m.
           Option.bind (get_port m ''port'') (\<lambda>port.
           Option.bind (get_text m ''host'') (\<lambda>host.
           map_option (Dev port host) (get_flag m ''open'')))),
        (''routes'', \<lambda>m. map_option Routes (get_flag m ''json'')),
        (''typegen'', \<lambda>m. Some Typegen),
        (''build'', \<lambda>m. Some BuildApp),
        (''migrate'', \<lambda>m. map_option Migrate (dsn_of m)),
        (''schedule'', \<lambda>m. map_option Schedule (dsn_of m)),
        (''storage:link'', \<lambda>m. Some StorageLink),
        (''db:seed'', db_of Seed),
        (''db:fresh'', db_of Fresh),
        (''db:reset'', db_of Reset),
        (''key:generate'', \<lambda>m. map_option KeyGenerate (get_flag m ''show'')),
        (''queue'', \<lambda>m.
           Option.bind (string_of m ''action'') (\<lambda>action. map_option (Queue (queue_action action)) (dsn_of m))),
        (''doctor'', \<lambda>m. Some Doctor)] name"

definition from_matches :: "ArgMatches \<Rightarrow> ('e parse_error, Subcommand) result option" where
  "from_matches m =
     Option.bind (get_flag (own_slots m) ''version'') (\<lambda>version.
     if version then Some (Ok Version)
     else case chosen m of
            None \<Rightarrow> Some (Err MissingSubcommand)
          | Some (name, sub) \<Rightarrow>
              (case from_subcommand_name name of
                 Some kind \<Rightarrow> map_option (\<lambda>s. Ok (Make kind s)) (string_of sub ''name'')
               | None \<Rightarrow>
                   (case named_arm name of
                      None \<Rightarrow> Some (Err (InvalidSubcommand name))
                    | Some arm \<Rightarrow> map_option Ok (arm sub))))"

definition parse :: "(CommandSpec \<Rightarrow> string list \<Rightarrow> ('e, ArgMatches) result) \<Rightarrow> string list \<Rightarrow>
    ('e parse_error, Subcommand) result option" where
  "parse try_get_matches_from args =
     (case try_get_matches_from command args of
        Err e \<Rightarrow> Some (Err (ClapError e))
      | Ok m \<Rightarrow> from_matches m)"

text \<open>What a successful match promises.\<close>

definition slot_ok :: "Arg \<Rightarrow> slot \<Rightarrow> bool" where
  "slot_ok a s =
     (let full = (\<lambda>present. (arg_required a \<or> arg_default a \<noteq> None) \<longrightarrow> present)
      in case s of
           FlagSlot _ \<Rightarrow> arg_type a = Flag
         | TextSlot v \<Rightarrow>
             arg_type a = Text \<and> full (v \<noteq> None) \<and>
             (case (v, arg_values a) of (Some s, Some vs) \<Rightarrow> s \<in> set vs | _ \<Rightarrow> True)
         | PortSlot v \<Rightarrow> arg_type a = Port \<and> full (v \<noteq> None)
         | PathSlot v \<Rightarrow> arg_type a = PathArg \<and> full (v \<noteq> None))"

definition slots_ok :: "Arg list \<Rightarrow> slots \<Rightarrow> bool" where
  "slots_ok args m \<longleftrightarrow> list_all2 (\<lambda>a (i, s). i = arg_id a \<and> slot_ok a s) args m"

definition conforms :: "CommandSpec \<Rightarrow> ArgMatches \<Rightarrow> bool" where
  "conforms c m \<longleftrightarrow>
     slots_ok (own_args c) (own_slots m) \<and>
     (case chosen m of
        None \<Rightarrow> True
      | Some (name, sub) \<Rightarrow> list_ex (\<lambda>(n, args). n = name \<and> slots_ok args sub) (subcommands c))"

section \<open>Running\<close>

datatype ExitCode = SUCCESS | FAILURE

text \<open>What a run prints and how it exits; a panic is \<open>None\<close>.\<close>

definition run :: "(CommandSpec \<Rightarrow> string list \<Rightarrow> ('e, ArgMatches) result) \<Rightarrow> ('e parse_error \<Rightarrow> bool) \<Rightarrow>
    (Subcommand \<Rightarrow> 's \<Rightarrow> ('f, unit) result \<times> 's) \<Rightarrow> string list \<Rightarrow> 's \<Rightarrow> (ExitCode \<times> 's) option" where
  "run clap use_stderr execute args s =
     map_option (\<lambda>r.
       case r of
         Ok cmd \<Rightarrow> (case execute cmd s of (Ok _, s) \<Rightarrow> (SUCCESS, s) | (Err _, s) \<Rightarrow> (FAILURE, s))
       | Err e \<Rightarrow> (if use_stderr e then FAILURE else SUCCESS, s))
     (parse clap args)"

text \<open>
  The commands that start a process: the arguments it gets and the variables set for it.  \<open>status\<close> is what
  the process ends with, \<open>None\<close> when it cannot be started.
\<close>

record process =
  p_args :: "string list"
  p_env :: "(string \<times> string) list"

datatype exit = Exited "int option" | SpawnFailed | NeedsForce DbAction

text \<open>An exit status: the code, or none when a signal ended the process.\<close>

definition finished :: "int option option \<Rightarrow> (exit, unit) result" where
  "finished status =
     (case status of
        None \<Rightarrow> Err SpawnFailed
      | Some code \<Rightarrow> if code = Some 0 then Ok () else Err (Exited code))"

definition start :: "(process \<Rightarrow> int option option) \<Rightarrow> process \<Rightarrow> process list \<Rightarrow> (exit, unit) result \<times> process list" where
  "start status p started = (finished (status p), started @ [p])"

definition with_dsn :: "string option \<Rightarrow> (string \<times> string) list" where
  "with_dsn dsn = (case dsn of None \<Rightarrow> [] | Some url \<Rightarrow> [(''DATABASE_URL'', url)])"

definition serve_run :: "(process \<Rightarrow> int option option) \<Rightarrow> string option \<Rightarrow> 16 word option \<Rightarrow> process list \<Rightarrow>
    (exit, unit) result \<times> process list" where
  "serve_run status bind port =
     start status
       \<lparr>p_args = [''cargo'', ''run''],
        p_env = (case port of None \<Rightarrow> [] | Some p \<Rightarrow> [(''ARCATURE_BACKEND_PORT'', show_nat (unat p))]) @
                (case bind of None \<Rightarrow> [] | Some a \<Rightarrow> [(''ARCATURE_BACKEND_BIND'', a)])\<rparr>"

definition migrate_run :: "(process \<Rightarrow> int option option) \<Rightarrow> string option \<Rightarrow> process list \<Rightarrow>
    (exit, unit) result \<times> process list" where
  "migrate_run status dsn = start status \<lparr>p_args = [''cargo'', ''run'', ''--'', ''--migrate''], p_env = with_dsn dsn\<rparr>"

definition schedule_run :: "(process \<Rightarrow> int option option) \<Rightarrow> string option \<Rightarrow> process list \<Rightarrow>
    (exit, unit) result \<times> process list" where
  "schedule_run status dsn = start status \<lparr>p_args = [''cargo'', ''run'', ''--'', ''--schedule''], p_env = with_dsn dsn\<rparr>"

definition db_run :: "(process \<Rightarrow> int option option) \<Rightarrow> DbAction \<Rightarrow> string option \<Rightarrow> bool \<Rightarrow> process list \<Rightarrow>
    (exit, unit) result \<times> process list" where
  "db_run status action dsn force started =
     (if is_destructive action \<and> \<not> force then (Err (NeedsForce action), started)
      else start status \<lparr>p_args = [''cargo'', ''run'', ''--'', app_flag action], p_env = with_dsn dsn\<rparr> started)"

section \<open>Facts\<close>

lemma all_kinds: "k \<in> set MAKE_KINDS"
  by (cases k) (simp_all add: MAKE_KINDS_def)

lemma subcommand_name_text: "subcommand_name k = ''make:'' @ make_as_str k"
  by (cases k) simp_all

lemma make_names_distinct: "distinct (map make_as_str MAKE_KINDS)"
  by code_simp

lemma find_by_name:
  "distinct (map f xs) \<Longrightarrow> x \<in> set xs \<Longrightarrow> List.find (\<lambda>y. f y = f x) xs = Some x"
  by (induction xs) (auto simp: image_iff)

lemma from_subcommand_name_iff: "from_subcommand_name name = Some k \<longleftrightarrow> name = subcommand_name k"
proof
  assume "from_subcommand_name name = Some k"
  then obtain rest where "strip_prefix ''make:'' name = Some rest" "List.find (\<lambda>l. make_as_str l = rest) MAKE_KINDS = Some k"
    by (auto simp: from_subcommand_name_def bind_eq_Some_conv)
  then show "name = subcommand_name k"
    by (auto simp: find_Some_iff subcommand_name_text strip_prefix_def split: if_splits) (metis append_take_drop_id append.simps)
next
  assume "name = subcommand_name k"
  then show "from_subcommand_name name = Some k"
    using find_by_name [OF make_names_distinct all_kinds [of k]]
    by (simp add: from_subcommand_name_def subcommand_name_text strip_prefix_def)
qed

lemma no_make_names:
  "from_subcommand_name ''new'' = None"
  "from_subcommand_name ''install'' = None"
  "from_subcommand_name ''version'' = None"
  "from_subcommand_name ''serve'' = None"
  "from_subcommand_name ''dev'' = None"
  "from_subcommand_name ''routes'' = None"
  "from_subcommand_name ''typegen'' = None"
  "from_subcommand_name ''build'' = None"
  "from_subcommand_name ''migrate'' = None"
  "from_subcommand_name ''schedule'' = None"
  "from_subcommand_name ''storage:link'' = None"
  "from_subcommand_name ''db:seed'' = None"
  "from_subcommand_name ''db:fresh'' = None"
  "from_subcommand_name ''db:reset'' = None"
  "from_subcommand_name ''key:generate'' = None"
  "from_subcommand_name ''queue'' = None"
  "from_subcommand_name ''doctor'' = None"
  by code_simp+

lemma slots_ok_simps:
  "slots_ok [] m \<longleftrightarrow> m = []"
  "slots_ok (a # args) m \<longleftrightarrow> (\<exists>s rest. m = (arg_id a, s) # rest \<and> slot_ok a s \<and> slots_ok args rest)"
  by (auto simp: slots_ok_def list_all2_Cons1)

lemma slot_ok_cases:
  "arg_type a = Flag \<Longrightarrow> slot_ok a s \<longleftrightarrow> (\<exists>b. s = FlagSlot b)"
  "arg_type a = Text \<Longrightarrow> slot_ok a s \<longleftrightarrow>
     (\<exists>v. s = TextSlot v \<and> (arg_required a \<or> arg_default a \<noteq> None \<longrightarrow> v \<noteq> None) \<and>
        (case (v, arg_values a) of (Some t, Some vs) \<Rightarrow> t \<in> set vs | _ \<Rightarrow> True))"
  "arg_type a = Port \<Longrightarrow> slot_ok a s \<longleftrightarrow> (\<exists>v. s = PortSlot v \<and> (arg_required a \<or> arg_default a \<noteq> None \<longrightarrow> v \<noteq> None))"
  "arg_type a = PathArg \<Longrightarrow> slot_ok a s \<longleftrightarrow> (\<exists>v. s = PathSlot v \<and> (arg_required a \<or> arg_default a \<noteq> None \<longrightarrow> v \<noteq> None))"
  by (cases s; simp add: slot_ok_def)+

text \<open>How a command is spelled: the name of its subcommand and the slots of its arguments.\<close>

fun spelled :: "Subcommand \<Rightarrow> string \<times> slots" where
  "spelled (New name dest stack db install) =
     (''new'', [(''name'', TextSlot (Some name)), (''dest'', PathSlot dest), (''stack'', TextSlot (Some (stack_as_str stack))),
        (''no-install'', FlagSlot (\<not> install)), (''db'', TextSlot (Some (database_as_str db)))])"
| "spelled (Install ci) = (''install'', [(''ci'', FlagSlot ci)])"
| "spelled Version = (''version'', [])"
| "spelled (Serve bind port) = (''serve'', [(''bind'', TextSlot bind), (''port'', PortSlot port)])"
| "spelled (Migrate dsn) = (''migrate'', [(''dsn'', TextSlot dsn)])"
| "spelled (Schedule dsn) = (''schedule'', [(''dsn'', TextSlot dsn)])"
| "spelled (Make kind name) = (subcommand_name kind, [(''name'', TextSlot (Some name))])"
| "spelled (KeyGenerate show_key) = (''key:generate'', [(''show'', FlagSlot show_key)])"
| "spelled StorageLink = (''storage:link'', [])"
| "spelled (Db action dsn force) = (db_as_str action, [(''dsn'', TextSlot dsn), (''force'', FlagSlot force)])"
| "spelled (Queue action dsn) =
     (''queue'', [(''action'', TextSlot (Some (case action of Work \<Rightarrow> ''work'' | Drain \<Rightarrow> ''drain'' | Stats \<Rightarrow> ''stats''))),
        (''dsn'', TextSlot dsn)])"
| "spelled Doctor = (''doctor'', [])"
| "spelled (Dev port host open_browser) =
     (''dev'', [(''port'', PortSlot port), (''host'', TextSlot host), (''open'', FlagSlot open_browser)])"
| "spelled (Routes json) = (''routes'', [(''json'', FlagSlot json)])"
| "spelled Typegen = (''typegen'', [])"
| "spelled BuildApp = (''build'', [])"

definition read_arm :: "string \<Rightarrow> slots \<Rightarrow> ('e parse_error, Subcommand) result option" where
  "read_arm name sub =
     (case from_subcommand_name name of
        Some kind \<Rightarrow> map_option (\<lambda>s. Ok (Make kind s)) (string_of sub ''name'')
      | None \<Rightarrow>
          (case named_arm name of
             None \<Rightarrow> Some (Err (InvalidSubcommand name))
           | Some arm \<Rightarrow> map_option Ok (arm sub)))"

lemmas slot_readers = get_flag_def get_text_def get_port_def get_path_def string_of_def dsn_of_def db_of_def

lemma read_spelled: "read_arm (fst (spelled c)) (snd (spelled c)) = Some (Ok c)"
proof (cases c)
  case (New name dest stack db install)
  then show ?thesis
    by (cases stack; cases db)
      (simp_all add: read_arm_def no_make_names named_arm_def slot_readers stack_parse_def STACKS_def database_parse_def DATABASES_def)
next
  case (Make kind name)
  then show ?thesis
    using from_subcommand_name_iff [of "subcommand_name kind" kind] by (simp add: read_arm_def slot_readers)
next
  case (Db action dsn force)
  then show ?thesis
    by (cases action) (simp_all add: read_arm_def no_make_names named_arm_def slot_readers)
next
  case (Queue action dsn)
  then show ?thesis
    by (cases action) (simp_all add: read_arm_def no_make_names named_arm_def slot_readers queue_action_def)
qed (simp_all add: read_arm_def no_make_names named_arm_def slot_readers)

definition spellable :: "string \<times> Arg list \<Rightarrow> bool" where
  "spellable entry \<longleftrightarrow> (\<forall>sub. slots_ok (snd entry) sub \<longrightarrow> (\<exists>c. spelled c = (fst entry, sub)))"

lemma spellableI: "(\<And>sub. slots_ok args sub \<Longrightarrow> \<exists>c. spelled c = (n, sub)) \<Longrightarrow> spellable (n, args)"
  by (simp add: spellable_def)

lemmas slot_forms = slots_ok_simps slot_ok_cases arg_def dsn_arg_def

lemma spellable_new: "spellable new_subcommand"
  unfolding new_subcommand_def
proof (rule spellableI)
  fix sub
  assume "slots_ok
    [(arg ''name'' Text)\<lparr>arg_required := True\<rparr>, arg ''dest'' PathArg,
     (arg ''stack'' Text)\<lparr>arg_values := Some (map stack_as_str STACKS), arg_default := Some (stack_as_str React)\<rparr>,
     arg ''no-install'' Flag,
     (arg ''db'' Text)\<lparr>arg_values := Some (map database_as_str DATABASES), arg_default := Some (database_as_str Sqlite)\<rparr>] sub"
  then obtain name dest stack db no_install where
    "sub = [(''name'', TextSlot (Some name)), (''dest'', PathSlot dest), (''stack'', TextSlot (Some stack)),
       (''no-install'', FlagSlot no_install), (''db'', TextSlot (Some db))]"
    "stack \<in> set (map stack_as_str STACKS)" "db \<in> set (map database_as_str DATABASES)"
    by (auto simp: slot_forms)
  then obtain k d where "sub = snd (spelled (New name dest k d (\<not> no_install)))"
    by auto
  then have "spelled (New name dest k d (\<not> no_install)) = (''new'', sub)"
    by simp
  then show "\<exists>c. spelled c = (''new'', sub)"
    by blast
qed

lemma spellable_make: "spellable (make_subcommand kind)"
  unfolding make_subcommand_def by (rule spellableI) (auto simp: slot_forms simp del: spelled.simps, metis spelled.simps(7))

lemma spellable_db: "spellable (db_subcommand action)"
  unfolding db_subcommand_def by (rule spellableI) (auto simp: slot_forms simp del: spelled.simps, metis spelled.simps(10))

lemma spellable_queue:
  "spellable (''queue'', [(arg ''action'' Text)\<lparr>arg_required := True, arg_values := Some [''work'', ''drain'', ''stats'']\<rparr>, dsn_arg])"
proof (rule spellableI)
  fix sub
  assume "slots_ok [(arg ''action'' Text)\<lparr>arg_required := True, arg_values := Some [''work'', ''drain'', ''stats'']\<rparr>, dsn_arg] sub"
  then obtain action dsn where
    sub: "sub = [(''action'', TextSlot (Some action)), (''dsn'', TextSlot dsn)]" and "action \<in> {''work'', ''drain'', ''stats''}"
    by (auto simp: slot_forms)
  then consider "sub = snd (spelled (Queue Work dsn))" | "sub = snd (spelled (Queue Drain dsn))" | "sub = snd (spelled (Queue Stats dsn))"
    by auto
  then show "\<exists>c. spelled c = (''queue'', sub)"
    by (cases; metis prod.collapse spelled.simps(11) fst_conv)
qed

lemma spellable_rest:
  "spellable (''install'', [arg ''ci'' Flag])"
  "spellable (''version'', [])"
  "spellable (''serve'', [arg ''bind'' Text, arg ''port'' Port])"
  "spellable (''migrate'', [dsn_arg])"
  "spellable (''schedule'', [dsn_arg])"
  "spellable (''storage:link'', [])"
  "spellable (''dev'', [arg ''port'' Port, arg ''host'' Text, arg ''open'' Flag])"
  "spellable (''routes'', [arg ''json'' Flag])"
  "spellable (''typegen'', [])"
  "spellable (''build'', [])"
  "spellable (''key:generate'', [arg ''show'' Flag])"
  "spellable (''doctor'', [])"
  subgoal by (rule spellableI) (simp add: slot_forms del: spelled.simps, metis spelled.simps(2))
  subgoal by (rule spellableI) (simp add: slot_forms del: spelled.simps, metis spelled.simps(3))
  subgoal by (rule spellableI) (simp add: slot_forms del: spelled.simps, metis spelled.simps(4))
  subgoal by (rule spellableI) (simp add: slot_forms del: spelled.simps, metis spelled.simps(5))
  subgoal by (rule spellableI) (simp add: slot_forms del: spelled.simps, metis spelled.simps(6))
  subgoal by (rule spellableI) (simp add: slot_forms del: spelled.simps, metis spelled.simps(9))
  subgoal by (rule spellableI) (simp add: slot_forms del: spelled.simps, metis spelled.simps(13))
  subgoal by (rule spellableI) (simp add: slot_forms del: spelled.simps, metis spelled.simps(14))
  subgoal by (rule spellableI) (simp add: slot_forms del: spelled.simps, metis spelled.simps(15))
  subgoal by (rule spellableI) (simp add: slot_forms del: spelled.simps, metis spelled.simps(16))
  subgoal by (rule spellableI) (simp add: slot_forms del: spelled.simps, metis spelled.simps(8))
  subgoal by (rule spellableI) (simp add: slot_forms del: spelled.simps, metis spelled.simps(12))
  done

lemma command_spellable: "entry \<in> set (subcommands command) \<Longrightarrow> spellable entry"
  by (auto simp: command_def spellable_new spellable_db spellable_queue spellable_rest spellable_make)

lemma command_entries:
  "new_subcommand \<in> set (subcommands command)"
  "db_subcommand action \<in> set (subcommands command)"
  "make_subcommand kind \<in> set (subcommands command)"
  by (cases action; simp add: command_def all_kinds)+

lemma spelled_conforms:
  "\<exists>entry \<in> set (subcommands command). fst entry = fst (spelled c) \<and> slots_ok (snd entry) (snd (spelled c))"
proof (cases c)
  case (New name dest stack db install)
  then show ?thesis
    by (intro bexI [OF _ command_entries(1)], cases stack; cases db)
      (simp_all add: new_subcommand_def slot_forms STACKS_def DATABASES_def)
next
  case (Make kind name)
  then show ?thesis
    by (intro bexI [OF _ command_entries(3) [of kind]]) (simp add: make_subcommand_def slot_forms)
next
  case (Db action dsn force)
  then show ?thesis
    by (intro bexI [OF _ command_entries(2) [of action]]) (simp add: db_subcommand_def slot_forms split: option.split)
next
  case (Queue action dsn)
  then show ?thesis
    by (cases action) (simp_all add: command_def slot_forms split: option.split)
qed (simp_all add: command_def slot_forms split: option.split)

lemma from_matches_arm:
  "get_flag (own_slots m) ''version'' = Some False \<Longrightarrow> chosen m = Some (name, sub) \<Longrightarrow> from_matches m = read_arm name sub"
  by (simp add: from_matches_def read_arm_def)

text \<open>
  Reading the command line never panics and never meets a command it does not handle: whatever the
  argument parser accepts is read as the command that was spelled, with every argument as it was given,
  and every command the program has can be spelled and is read back.
\<close>

theorem command_line_is_read:
  fixes clap :: "CommandSpec \<Rightarrow> string list \<Rightarrow> ('e, ArgMatches) result"
  assumes clap: "\<And>m. clap command args = Ok m \<Longrightarrow> conforms command m"
  shows "(case clap command args of
      Err e \<Rightarrow> parse clap args = Some (Err (ClapError e))
    | Ok m \<Rightarrow>
        if get_flag (own_slots m) ''version'' = Some True then parse clap args = Some (Ok Version)
        else case chosen m of
               None \<Rightarrow> parse clap args = Some (Err MissingSubcommand)
             | Some sub \<Rightarrow> \<exists>c. spelled c = sub \<and> parse clap args = Some (Ok c)) \<and>
    (let m = \<lparr>own_slots = [(''version'', FlagSlot False)], chosen = Some (spelled cmd)\<rparr>
     in conforms command m \<and> parse (\<lambda>_ _. Ok m :: ('e, ArgMatches) result) args = Some (Ok cmd))"
proof (rule conjI, goal_cases)
  case 1
  show ?case
  proof (cases "clap command args")
    case (Inr m)
    then have ok: "conforms command m"
      using clap by simp
    then obtain version where version: "get_flag (own_slots m) ''version'' = Some version"
      by (auto simp: conforms_def command_def slot_forms get_flag_def)
    show ?thesis
    proof (cases "\<not> version \<and> chosen m \<noteq> None")
      case True
      then obtain name sub where sub: "chosen m = Some (name, sub)"
        by auto
      then obtain spec where "(name, spec) \<in> set (subcommands command)" "slots_ok spec sub"
        using ok by (auto simp: conforms_def list_ex_iff)
      then obtain c where "spelled c = (name, sub)"
        using command_spellable [of "(name, spec)"] by (auto simp: spellable_def)
      moreover from this have "from_matches m = Some (Ok c :: ('e parse_error, Subcommand) result)" if "\<not> version"
        using from_matches_arm [of m name sub, where 'a = 'e] read_spelled [of c, where 'a = 'e] version sub that by simp
      ultimately show ?thesis
        using True Inr sub version by (auto simp: parse_def)
    next
      case False
      then show ?thesis
        using Inr version by (auto simp: parse_def from_matches_def split: option.split)
    qed
  qed (simp add: parse_def)
next
  case 2
  obtain name sub where spelling: "spelled cmd = (name, sub)"
    by force
  let ?m = "\<lparr>own_slots = [(''version'', FlagSlot False)], chosen = Some (name, sub)\<rparr>"
  have "own_args command = [arg ''version'' Flag]"
    by (simp add: command_def)
  then have "slots_ok (own_args command) (own_slots ?m)"
    by (simp add: slot_forms) blast
  moreover have "list_ex (\<lambda>(n, args). n = name \<and> slots_ok args sub) (subcommands command)"
    using spelled_conforms [of cmd] unfolding list_ex_iff spelling by force
  moreover have "from_matches ?m = Some (Ok cmd :: ('e parse_error, Subcommand) result)"
    using from_matches_arm [of ?m name sub, where 'a = 'e] read_spelled [of cmd, where 'a = 'e] spelling by (simp add: get_flag_def)
  ultimately show ?case
    by (simp add: Let_def spelling conforms_def parse_def)
qed

text \<open>A parser that knows one line.\<close>

definition sample_clap :: "CommandSpec \<Rightarrow> string list \<Rightarrow> (unit, ArgMatches) result" where
  "sample_clap _ args =
     (if args = [''arc'', ''make:model'', ''user'']
      then Ok \<lparr>own_slots = [(''version'', FlagSlot False)], chosen = Some (''make:model'', [(''name'', TextSlot (Some ''user''))])\<rparr>
      else Err ())"

lemma sample_clap_conforms: "sample_clap command args = Ok m \<Longrightarrow> conforms command m"
  by (auto simp: sample_clap_def conforms_def list_ex_iff command_def slot_forms make_subcommand_def MAKE_KINDS_def split: if_splits)

theorem command_line_is_read_witness:
  "parse sample_clap [''arc'', ''make:model'', ''user''] = Some (Ok (Make Model ''user''))"
proof -
  have known: "sample_clap command [''arc'', ''make:model'', ''user''] =
      Ok \<lparr>own_slots = [(''version'', FlagSlot False)], chosen = Some (spelled (Make Model ''user''))\<rparr>"
    by (simp add: sample_clap_def)
  have "\<exists>c. spelled c = spelled (Make Model ''user'') \<and> parse sample_clap [''arc'', ''make:model'', ''user''] = Some (Ok c)"
    using command_line_is_read [of sample_clap "[''arc'', ''make:model'', ''user'']" Version, OF sample_clap_conforms [of "[''arc'', ''make:model'', ''user'']"]]
    unfolding known by (simp add: get_flag_def)
  then show ?thesis
    using read_spelled [of "Make Model ''user''"] read_spelled by (metis Inr_inject option.inject)
qed

end
