(* ===== verification/Make_Names.thy ===== *)
theory Make_Names
  imports Cli_Parser "HOL-Library.Signed_Division"
begin

text \<open>
  The names of generated artifacts (\<^verbatim>\<open>cli/commands/make/name.rs\<close>) and the time stamp of a migration
  (\<^verbatim>\<open>utc_stamp\<close> and \<^verbatim>\<open>civil_from_days\<close> of \<^verbatim>\<open>blueprint.rs\<close>).

  Shown: a name that is accepted consists of identifiers, stays below the directory of its kind, and reads
  back from the way it is printed; the date arithmetic is the calendar, day after day.
\<close>

section \<open>Names\<close>

datatype NameError = EmptyName | BadSegment string

record ArtifactName =
  segments :: "string list"
  stem :: string

definition is_ascii_uppercase :: "char \<Rightarrow> bool" where
  "is_ascii_uppercase c = (let n = of_char c :: nat in 65 \<le> n \<and> n \<le> 90)"

definition is_ascii_lowercase :: "char \<Rightarrow> bool" where
  "is_ascii_lowercase c = (let n = of_char c :: nat in 97 \<le> n \<and> n \<le> 122)"

definition is_ascii_digit :: "char \<Rightarrow> bool" where
  "is_ascii_digit c = (let n = of_char c :: nat in 48 \<le> n \<and> n \<le> 57)"

definition ascii_upper :: "char \<Rightarrow> char" where
  "ascii_upper c = (let n = of_char c :: nat in if 97 \<le> n \<and> n \<le> 122 then char_of (n - 32) else c)"

definition ends_in :: "char \<Rightarrow> string \<Rightarrow> bool" where
  "ends_in c s \<longleftrightarrow> s \<noteq> [] \<and> last s = c"

definition validate_segment :: "string \<Rightarrow> (NameError, string) result" where
  "validate_segment s =
     (if (case s of [] \<Rightarrow> False | c # _ \<Rightarrow> is_ascii_uppercase c \<or> is_ascii_lowercase c) \<and>
         list_all (\<lambda>c. is_ascii_alphanumeric c \<or> c = CHR ''_'' \<or> c = CHR ''-'') s
      then Ok s else Err (BadSegment s))"

text \<open>One pass over the characters with the one before; the one after is the head of the rest.\<close>

definition starts_word :: "char \<Rightarrow> string \<Rightarrow> bool" where
  "starts_word p rest \<longleftrightarrow>
     is_ascii_lowercase p \<or> is_ascii_digit p \<or>
     (is_ascii_uppercase p \<and> (case rest of [] \<Rightarrow> False | n # _ \<Rightarrow> is_ascii_lowercase n))"

fun snake_loop :: "char option \<Rightarrow> string \<Rightarrow> string \<Rightarrow> string" where
  "snake_loop prev [] out = out"
| "snake_loop prev (c # rest) out =
     (if c = CHR ''-'' \<or> c = CHR ''_'' \<or> c = CHR '' '' then
        snake_loop (Some c) rest (if \<not> ends_in CHR ''_'' out \<and> out \<noteq> [] then out @ [CHR ''_''] else out)
      else
        snake_loop (Some c) rest
          ((case prev of
              None \<Rightarrow> out
            | Some p \<Rightarrow>
                if is_ascii_uppercase c \<and> starts_word p rest \<and> \<not> ends_in CHR ''_'' out then out @ [CHR ''_''] else out) @
           [ascii_lower c]))"

definition trim_underscores :: "string \<Rightarrow> string" where
  "trim_underscores s = rev (dropWhile (\<lambda>c. c = CHR ''_'') (rev (dropWhile (\<lambda>c. c = CHR ''_'') s)))"

definition to_snake_case :: "string \<Rightarrow> string" where
  "to_snake_case input = trim_underscores (snake_loop None input [])"

definition pascal :: "string \<Rightarrow> string" where
  "pascal snake =
     concat (map (\<lambda>w. case w of [] \<Rightarrow> [] | c # rest \<Rightarrow> ascii_upper c # rest)
       (filter (\<lambda>w. w \<noteq> []) (split CHR ''_'' snake)))"

definition to_pascal_case :: "string \<Rightarrow> string" where
  "to_pascal_case input = pascal (to_snake_case input)"

text \<open>\<^verbatim>\<open>str::replace\<close> of a pair of colons.\<close>

fun replace_colons :: "string \<Rightarrow> string" where
  "replace_colons (a # b # rest) =
     (if a = CHR '':'' \<and> b = CHR '':'' then CHR ''/'' # replace_colons rest else a # replace_colons (b # rest))"
| "replace_colons s = s"

definition normalized :: "string \<Rightarrow> string" where
  "normalized input = map (\<lambda>c. if c = CHR 0x5C then CHR ''/'' else c) (replace_colons input)"

definition name_pieces :: "string \<Rightarrow> string list" where
  "name_pieces input = filter (\<lambda>w. w \<noteq> []) (split CHR ''/'' (normalized input))"

fun snake_segments :: "string list \<Rightarrow> (NameError, string list) result" where
  "snake_segments [] = Ok []"
| "snake_segments (w # ws) =
     (case validate_segment w of
        Err e \<Rightarrow> Err e
      | Ok w \<Rightarrow> rbind (snake_segments ws) (\<lambda>rest. Ok (to_snake_case w # rest)))"

definition name_parse :: "string \<Rightarrow> (NameError, ArtifactName) result" where
  "name_parse input =
     (case name_pieces input of
        [] \<Rightarrow> Err EmptyName
      | raw \<Rightarrow>
          rbind (snake_segments (butlast raw)) (\<lambda>parents.
          case validate_segment (last raw) of
            Err e \<Rightarrow> Err e
          | Ok l \<Rightarrow> Ok \<lparr>segments = parents, stem = to_snake_case l\<rparr>))"

definition base :: "ArtifactName \<Rightarrow> string \<Rightarrow> string" where
  "base n sfx =
     (if sfx = [] then stem n
      else case strip_suffix (CHR ''_'' # to_snake_case sfx) (stem n) of
             Some rest \<Rightarrow> if rest \<noteq> [] then rest else stem n
           | None \<Rightarrow> stem n)"

definition file_stem :: "ArtifactName \<Rightarrow> string \<Rightarrow> string" where
  "file_stem n sfx = (if sfx = [] then base n sfx else base n sfx @ CHR ''_'' # to_snake_case sfx)"

definition type_name :: "ArtifactName \<Rightarrow> string \<Rightarrow> string" where
  "type_name n sfx = to_pascal_case (base n sfx) @ pascal sfx"

definition slash_path :: "ArtifactName \<Rightarrow> string" where
  "slash_path n = join ''/'' (segments n @ [stem n])"

definition ends_with :: "string \<Rightarrow> string \<Rightarrow> bool" where
  "ends_with p s \<longleftrightarrow> strip_suffix p s \<noteq> None"

definition SIBILANT_ENDINGS :: "string list" where
  "SIBILANT_ENDINGS = [''s'', ''x'', ''z'', ''ch'', ''sh'']"

definition pluralize :: "string \<Rightarrow> string" where
  "pluralize word =
     (case strip_suffix ''y'' word of
        Some st \<Rightarrow> if \<not> list_ex (\<lambda>v. ends_in v st) ''aeiou'' then st @ ''ies'' else word @ ''s''
      | None \<Rightarrow> if list_ex (\<lambda>p. ends_with p word) SIBILANT_ENDINGS then word @ ''es'' else word @ ''s'')"

section \<open>The stamp of a migration\<close>

text \<open>Division is that of \<^verbatim>\<open>i64\<close>, towards zero; the values stay far below its bounds.\<close>

definition civil_from_days :: "int \<Rightarrow> int \<times> nat \<times> nat" where
  "civil_from_days days =
     (let shifted = days + 719468;
          era = (if shifted \<ge> 0 then shifted else shifted - 146096) sdiv 146097;
          day_of_era = nat (shifted - era * 146097);
          year_of_era = (day_of_era - day_of_era div 1460 + day_of_era div 36524 - day_of_era div 146096) div 365;
          year = int year_of_era + era * 400;
          day_of_year = day_of_era - (365 * year_of_era + year_of_era div 4 - year_of_era div 100);
          month_prime = (5 * day_of_year + 2) div 153;
          day = day_of_year - (153 * month_prime + 2) div 5 + 1;
          month = (if month_prime < 10 then month_prime + 3 else month_prime - 9)
      in (if month \<le> 2 then year + 1 else year, month, day))"

text \<open>A number printed with leading zeros.\<close>

definition padded :: "nat \<Rightarrow> nat \<Rightarrow> string" where
  "padded w n = replicate (w - length (show_nat n)) CHR ''0'' @ show_nat n"

definition padded_int :: "nat \<Rightarrow> int \<Rightarrow> string" where
  "padded_int w i = (if i \<ge> 0 then padded w (nat i) else CHR ''-'' # padded (w - 1) (nat (- i)))"

text \<open>\<open>seconds\<close> is the time since the epoch, \<open>None\<close> for a clock before it.\<close>

definition utc_stamp :: "nat option \<Rightarrow> string" where
  "utc_stamp clock =
     (let seconds = (case clock of Some s \<Rightarrow> s | None \<Rightarrow> 0);
          days = (if seconds div 86400 < 2 ^ 63 then int (seconds div 86400) else 0);
          time_of_day = seconds mod 86400;
          (year, month, day) = civil_from_days days
      in padded_int 4 year @ padded 2 month @ padded 2 day @ ''_'' @
         padded 2 (time_of_day div 3600) @ padded 2 (time_of_day mod 3600 div 60) @ padded 2 (time_of_day mod 60))"

section \<open>Names are identifiers\<close>

fun no_double :: "string \<Rightarrow> bool" where
  "no_double (a # b # s) \<longleftrightarrow> \<not> (a = CHR ''_'' \<and> b = CHR ''_'') \<and> no_double (b # s)"
| "no_double _ \<longleftrightarrow> True"

definition snake_char :: "char \<Rightarrow> bool" where
  "snake_char c \<longleftrightarrow> is_ascii_lowercase c \<or> is_ascii_digit c \<or> c = CHR ''_''"

definition is_identifier :: "string \<Rightarrow> bool" where
  "is_identifier s \<longleftrightarrow>
     (case s of [] \<Rightarrow> False | c # _ \<Rightarrow> is_ascii_lowercase c) \<and> list_all snake_char s \<and> \<not> ends_in CHR ''_'' s \<and> no_double s"

lemma no_double_snoc: "no_double (s @ [c]) \<longleftrightarrow> no_double s \<and> \<not> (ends_in CHR ''_'' s \<and> c = CHR ''_'')"
  by (induction s rule: no_double.induct) (auto simp: ends_in_def)

lemma ends_in_snoc [simp]: "ends_in d (s @ [c]) \<longleftrightarrow> c = d"
  by (simp add: ends_in_def)

lemma ascii_cases:
  "is_ascii_uppercase c \<Longrightarrow> is_ascii_lowercase (ascii_lower c)"
  "is_ascii_lowercase c \<Longrightarrow> ascii_lower c = c"
  "is_ascii_digit c \<Longrightarrow> ascii_lower c = c"
  "is_ascii_alphanumeric c \<longleftrightarrow> is_ascii_uppercase c \<or> is_ascii_lowercase c \<or> is_ascii_digit c"
  by (auto simp: is_ascii_uppercase_def is_ascii_lowercase_def is_ascii_digit_def is_ascii_alphanumeric_def ascii_lower_def Let_def)

lemma alnum_lower: "is_ascii_alphanumeric c \<Longrightarrow> snake_char (ascii_lower c) \<and> ascii_lower c \<noteq> CHR ''_''"
proof -
  assume "is_ascii_alphanumeric c"
  then have "is_ascii_lowercase (ascii_lower c) \<or> is_ascii_digit (ascii_lower c)"
    using ascii_cases by metis
  then show ?thesis
    by (auto simp: snake_char_def is_ascii_lowercase_def is_ascii_digit_def)
qed

definition snake_so_far :: "string \<Rightarrow> bool" where
  "snake_so_far out \<longleftrightarrow> out \<noteq> [] \<and> is_ascii_lowercase (hd out) \<and> list_all snake_char out \<and> no_double out"

lemma snake_so_far_underscore: "snake_so_far out \<Longrightarrow> \<not> ends_in CHR ''_'' out \<Longrightarrow> snake_so_far (out @ [CHR ''_''])"
  by (simp add: snake_so_far_def no_double_snoc snake_char_def)

lemma snake_so_far_char: "snake_so_far out \<Longrightarrow> is_ascii_alphanumeric c \<Longrightarrow> snake_so_far (out @ [ascii_lower c])"
  using alnum_lower [of c] by (simp add: snake_so_far_def no_double_snoc)

lemma alnum_no_separator: "is_ascii_alphanumeric c \<Longrightarrow> c \<noteq> CHR ''-'' \<and> c \<noteq> CHR ''_'' \<and> c \<noteq> CHR '' ''"
  by (auto simp: is_ascii_alphanumeric_def)

lemma snake_loop_so_far:
  "snake_so_far out \<Longrightarrow> list_all (\<lambda>c. is_ascii_alphanumeric c \<or> c = CHR ''_'' \<or> c = CHR ''-'') rest \<Longrightarrow>
   snake_so_far (snake_loop prev rest out)"
proof (induction prev rest out rule: snake_loop.induct)
  case (2 prev c rest out)
  show ?case
  proof (cases "is_ascii_alphanumeric c")
    case True
    let ?out = "case prev of None \<Rightarrow> out
      | Some p \<Rightarrow> if is_ascii_uppercase c \<and> starts_word p rest \<and> \<not> ends_in CHR ''_'' out then out @ [CHR ''_''] else out"
    have "snake_so_far ?out"
      using 2(3) by (auto intro: snake_so_far_underscore split: option.split)
    then have "snake_so_far (?out @ [ascii_lower c])"
      using True by (rule snake_so_far_char)
    then show ?thesis
      using 2(2) [OF _ ] 2(4) alnum_no_separator [OF True] by simp
  next
    case False
    then have sep: "c = CHR ''_'' \<or> c = CHR ''-''"
      using 2(4) by simp
    have "snake_so_far (if \<not> ends_in CHR ''_'' out \<and> out \<noteq> [] then out @ [CHR ''_''] else out)"
      using 2(3) by (simp add: snake_so_far_underscore)
    then show ?thesis
      using 2(1) sep 2(4) by auto
  qed
qed simp

lemma no_double_prefix: "no_double (s @ t) \<Longrightarrow> no_double s"
  by (induction t rule: rev_induct) (auto simp: no_double_snoc simp flip: append_assoc)

lemma trimmed_identifier:
  assumes "snake_so_far out"
  shows "is_identifier (trim_underscores out)"
proof -
  define t where "t = rev (dropWhile (\<lambda>c. c = CHR ''_'') (rev out))"
  have "hd out \<noteq> CHR ''_''"
    using assms by (auto simp: snake_so_far_def is_ascii_lowercase_def)
  then have front: "dropWhile (\<lambda>c. c = CHR ''_'') out = out"
    using assms by (cases out) (auto simp: snake_so_far_def)
  define u where "u = rev (takeWhile (\<lambda>c. c = CHR ''_'') (rev out))"
  have "rev out = rev u @ rev t"
    unfolding t_def u_def rev_rev_ident takeWhile_dropWhile_id ..
  then have u: "out = t @ u"
    unfolding rev_append [symmetric] rev_is_rev_conv .
  have under: "\<forall>c \<in> set u. c = CHR ''_''"
    unfolding u_def set_rev by (blast dest: set_takeWhileD)
  have "t \<noteq> []"
    using u under assms \<open>hd out \<noteq> CHR ''_''\<close> unfolding snake_so_far_def by (metis append_Nil hd_in_set)
  moreover have "\<not> ends_in CHR ''_'' t"
    using hd_dropWhile [of "\<lambda>c. c = CHR ''_''" "rev out"] by (auto simp: t_def ends_in_def last_rev)
  moreover have "no_double t" "list_all snake_char t"
    using assms u no_double_prefix [of t u] by (auto simp: snake_so_far_def)
  moreover have "is_ascii_lowercase (hd t)"
    using assms u \<open>t \<noteq> []\<close> by (simp add: snake_so_far_def)
  ultimately show ?thesis
    by (cases t) (simp_all add: is_identifier_def trim_underscores_def front flip: t_def)
qed

lemma snake_identifier: "validate_segment w = Ok v \<Longrightarrow> v = w \<and> is_identifier (to_snake_case w)"
proof -
  assume ok: "validate_segment w = Ok v"
  then obtain c rest where w: "w = c # rest" "is_ascii_uppercase c \<or> is_ascii_lowercase c"
      and chars: "list_all (\<lambda>c. is_ascii_alphanumeric c \<or> c = CHR ''_'' \<or> c = CHR ''-'') rest"
    by (cases w) (auto simp: validate_segment_def split: if_splits)
  have alnum: "is_ascii_alphanumeric c" and "is_ascii_lowercase (ascii_lower c)"
    using w(2) ascii_cases by auto
  then have "snake_so_far [ascii_lower c]"
    using alnum_lower [OF alnum] by (simp add: snake_so_far_def)
  from snake_loop_so_far [OF this chars] have "is_identifier (to_snake_case w)"
    using alnum_no_separator [OF alnum] by (simp add: to_snake_case_def w(1) trimmed_identifier)
  then show ?thesis
    using ok by (simp add: validate_segment_def split: if_splits)
qed

lemma snake_char_plain:
  "snake_char c \<Longrightarrow> \<not> is_ascii_uppercase c \<and> ascii_lower c = c \<and> c \<noteq> CHR ''-'' \<and> c \<noteq> CHR '' '' \<and>
     c \<noteq> CHR ''/'' \<and> c \<noteq> CHR '':'' \<and> c \<noteq> CHR 0x5C \<and> (is_ascii_alphanumeric c \<or> c = CHR ''_'')"
  by (auto simp: snake_char_def is_ascii_lowercase_def is_ascii_digit_def is_ascii_uppercase_def ascii_lower_def
      is_ascii_alphanumeric_def Let_def)

lemma snake_loop_id:
  "list_all snake_char rest \<Longrightarrow> no_double (out @ rest) \<Longrightarrow> out \<noteq> [] \<Longrightarrow> snake_loop prev rest out = out @ rest"
proof (induction prev rest out rule: snake_loop.induct)
  case (2 prev c rest out)
  note plain = snake_char_plain [of c]
  have "no_double (out @ [c])"
    using 2(4) no_double_prefix [of "out @ [c]" rest] by simp
  then have single: "\<not> (ends_in CHR ''_'' out \<and> c = CHR ''_'')"
    by (simp add: no_double_snoc)
  have rest: "list_all snake_char rest" "no_double ((out @ [c]) @ rest)" "snake_char c"
    using 2(3,4) by simp_all
  have "snake_loop prev (c # rest) out = snake_loop (Some c) rest (out @ [c])"
    using single plain [OF rest(3)] \<open>out \<noteq> []\<close> by (cases prev) simp_all
  moreover have "snake_loop (Some c) rest (out @ [c]) = (out @ [c]) @ rest"
  proof (cases "c = CHR ''_''")
    case True
    then show ?thesis
      using 2(1) rest(1,2) single \<open>out \<noteq> []\<close> by simp
  next
    case False
    then have "ascii_lower c = c" "\<not> is_ascii_uppercase c" "\<not> (c = CHR ''-'' \<or> c = CHR ''_'' \<or> c = CHR '' '')"
      using plain [OF rest(3)] by auto
    then show ?thesis
      using 2(2) rest(1,2) by (cases prev) simp_all
  qed
  ultimately show ?case
    by simp
qed simp

lemma trim_underscores_id: "s \<noteq> [] \<Longrightarrow> hd s \<noteq> CHR ''_'' \<Longrightarrow> last s \<noteq> CHR ''_'' \<Longrightarrow> trim_underscores s = s"
proof -
  assume s: "s \<noteq> []" "hd s \<noteq> CHR ''_''" "last s \<noteq> CHR ''_''"
  have "dropWhile (\<lambda>c. c = CHR ''_'') s = s" "dropWhile (\<lambda>c. c = CHR ''_'') (rev s) = rev s"
    unfolding dropWhile_eq_self_iff using s by (simp_all add: hd_rev)
  then show ?thesis
    by (simp add: trim_underscores_def)
qed

lemma snake_id:
  assumes "is_identifier s"
  shows "to_snake_case s = s" "validate_segment s = Ok s"
proof -
  obtain c rest where s: "s = c # rest" "is_ascii_lowercase c" "list_all snake_char rest" "no_double (c # rest)"
    using assms by (cases s) (auto simp: is_identifier_def)
  have c: "snake_char c" "c \<noteq> CHR ''_''"
    using s(2) by (auto simp: snake_char_def is_ascii_lowercase_def)
  have "snake_loop None s [] = s"
    using snake_loop_id [of rest "[c]" "Some c"] s c snake_char_plain [OF c(1)] by simp
  moreover have "trim_underscores s = s"
    using assms c s(1) by (intro trim_underscores_id) (auto simp: is_identifier_def ends_in_def)
  ultimately show "to_snake_case s = s"
    by (simp add: to_snake_case_def)
  show "validate_segment s = Ok s"
    using s c snake_char_plain by (auto simp: validate_segment_def list_all_iff)
qed

lemma snake_segments_ok:
  "snake_segments ws = Ok vs \<Longrightarrow> vs = map to_snake_case ws \<and> list_all is_identifier vs \<and> list_all (\<lambda>w. is_ok (validate_segment w)) ws"
  by (induction ws arbitrary: vs)
    (auto simp: rbind_def is_ok_def split: sum.splits dest: snake_identifier)

lemma snake_segments_err: "snake_segments ws = Err e \<Longrightarrow> \<exists>w \<in> set ws. validate_segment w = Err e"
  by (induction ws) (auto simp: rbind_def split: sum.splits)

lemma snake_segments_id: "list_all is_identifier ws \<Longrightarrow> snake_segments ws = Ok ws"
  by (induction ws) (simp_all add: snake_id rbind_def)

lemma replace_colons_id: "CHR '':'' \<notin> set s \<Longrightarrow> replace_colons s = s"
  by (induction s rule: replace_colons.induct) auto

lemma identifier_chars: "is_identifier w \<Longrightarrow> w \<noteq> [] \<and> CHR ''/'' \<notin> set w \<and> CHR '':'' \<notin> set w \<and> CHR 0x5C \<notin> set w"
  unfolding is_identifier_def list_all_iff using snake_char_plain by (cases w; simp) blast

lemma split_join_slash: "ws \<noteq> [] \<Longrightarrow> \<forall>w \<in> set ws. CHR ''/'' \<notin> set w \<Longrightarrow> split CHR ''/'' (join ''/'' ws) = ws"
proof (induction "''/''" ws rule: join.induct)
  case (2 w)
  then have "\<forall>c \<in> set w. c \<noteq> CHR ''/''"
    by auto
  then show ?case
    using split_on_no_sep [of w "\<lambda>c. c = CHR ''/''"] by simp
next
  case (3 w v ws)
  then have "\<forall>c \<in> set w. c \<noteq> CHR ''/''"
    by auto
  then show ?case
    using 3 split_on_sep_append [of w "\<lambda>c. c = CHR ''/''" "CHR ''/''"] by simp
qed simp

lemma set_join_slash: "set (join ''/'' ws) \<subseteq> insert CHR ''/'' (\<Union> (set ` set ws))"
  by (induction "''/''" ws rule: join.induct) auto

lemma pieces_of_path:
  assumes "list_all is_identifier ws" "ws \<noteq> []"
  shows "name_pieces (join ''/'' ws) = ws"
proof -
  have pieces: "w \<noteq> []" "CHR ''/'' \<notin> set w" "CHR '':'' \<notin> set w" "CHR 0x5C \<notin> set w" if "w \<in> set ws" for w
    using assms(1) identifier_chars [of w] that by (auto simp: list_all_iff)
  have "CHR '':'' \<notin> set (join ''/'' ws)" "CHR 0x5C \<notin> set (join ''/'' ws)"
    using set_join_slash [of ws] pieces by fastforce+
  then have "normalized (join ''/'' ws) = join ''/'' ws"
    by (auto simp: normalized_def replace_colons_id intro: map_idI)
  then show ?thesis
    using assms pieces split_join_slash [of ws] by (auto simp: name_pieces_def filter_id_conv)
qed

lemma name_parse_pieces:
  "name_pieces input \<noteq> [] \<Longrightarrow> name_parse input =
     rbind (snake_segments (butlast (name_pieces input))) (\<lambda>parents.
       case validate_segment (last (name_pieces input)) of
         Err e \<Rightarrow> Err e | Ok l \<Rightarrow> Ok \<lparr>segments = parents, stem = to_snake_case l\<rparr>)"
  by (simp add: name_parse_def split: list.split)

text \<open>
  A name is accepted exactly when it has a part and every part starts with a letter and holds letters,
  digits, dashes and underscores; then each part becomes an identifier in lower case, so nothing in it
  can leave the directory of its kind, and the printed name reads back as the same name.  Otherwise the
  error says that it is empty or names a part that is refused.
\<close>

theorem name_reads_back:
  "case name_parse input of
     Ok n \<Rightarrow>
       name_pieces input \<noteq> [] \<and> list_all (\<lambda>w. is_ok (validate_segment w)) (name_pieces input) \<and>
       segments n @ [stem n] = map to_snake_case (name_pieces input) \<and>
       list_all is_identifier (segments n @ [stem n]) \<and> name_parse (slash_path n) = Ok n
   | Err EmptyName \<Rightarrow> name_pieces input = []
   | Err (BadSegment w) \<Rightarrow> w \<in> set (name_pieces input) \<and> \<not> is_ok (validate_segment w)"
proof (cases "name_pieces input = []")
  case False
  let ?raw = "name_pieces input"
  note parse = name_parse_pieces [OF False]
  have raw: "?raw = butlast ?raw @ [last ?raw]"
    using False by simp
  show ?thesis
  proof (cases "name_parse input")
    case (Inl e)
    then obtain w where w: "w \<in> set ?raw" "validate_segment w = Err e"
      using parse snake_segments_err [of "butlast ?raw" e] last_in_set [OF False]
      by (auto simp: rbind_def split: sum.splits dest: in_set_butlastD)
    then have "e = BadSegment w" "\<not> is_ok (validate_segment w)"
      by (auto simp: validate_segment_def is_ok_def split: if_splits)
    then show ?thesis
      using Inl w by simp
  next
    case (Inr n)
    then obtain l where parents: "snake_segments (butlast ?raw) = Ok (segments n)" and l: "validate_segment (last ?raw) = Ok l"
      and stem: "stem n = to_snake_case l"
      using parse by (auto simp: rbind_def split: sum.splits)
    have "is_identifier (stem n)" "l = last ?raw"
      using snake_identifier [OF l] stem by auto
    then have idents: "list_all is_identifier (segments n @ [stem n])"
      using snake_segments_ok [OF parents] unfolding list_all_append by auto
    have "list_all (\<lambda>w. is_ok (validate_segment w)) (butlast ?raw @ [last ?raw])"
      "segments n @ [stem n] = map to_snake_case (butlast ?raw @ [last ?raw])"
      using snake_segments_ok [OF parents] l stem \<open>l = last ?raw\<close> by (simp_all add: is_ok_def)
    moreover have "name_parse (slash_path n) = Ok n"
      using pieces_of_path [OF idents] idents snake_segments_id [of "segments n"] snake_id [of "stem n"]
      by (simp add: name_parse_pieces slash_path_def rbind_def)
    ultimately show ?thesis
      using Inr idents False raw by simp
  qed
qed (simp add: name_parse_def)

section \<open>The date arithmetic is the calendar\<close>

text \<open>The Gregorian calendar, one day after the other.\<close>

definition leap :: "int \<Rightarrow> bool" where
  "leap y \<longleftrightarrow> 4 dvd y \<and> (\<not> 100 dvd y \<or> 400 dvd y)"

definition days_in_month :: "int \<Rightarrow> nat \<Rightarrow> nat" where
  "days_in_month y m = (if m = 2 then (if leap y then 29 else 28) else if m \<in> {4, 6, 9, 11} then 30 else 31)"

fun next_day :: "int \<times> nat \<times> nat \<Rightarrow> int \<times> nat \<times> nat" where
  "next_day (y, m, d) =
     (if d < days_in_month y m then (y, m, d + 1) else if m < 12 then (y, m + 1, 1) else (y + 1, 1, 1))"

fun valid_date :: "int \<times> nat \<times> nat \<Rightarrow> bool" where
  "valid_date (y, m, d) \<longleftrightarrow> 1 \<le> m \<and> m \<le> 12 \<and> 1 \<le> d \<and> d \<le> days_in_month y m"

text \<open>The days since the epoch, counted by years that begin in March.\<close>

definition march_year :: "int \<Rightarrow> nat \<Rightarrow> int" where
  "march_year y m = (if m \<le> 2 then y - 1 else y)"

definition march_month :: "nat \<Rightarrow> nat" where
  "march_month m = (if m \<le> 2 then m + 9 else m - 3)"

definition day_of_year :: "nat \<Rightarrow> nat \<Rightarrow> nat" where
  "day_of_year m d = (153 * march_month m + 2) div 5 + d - 1"

definition year_days :: "int \<Rightarrow> int" where
  "year_days y = 365 * y + y div 4 - y div 100 + y div 400"

fun days_of :: "int \<times> nat \<times> nat \<Rightarrow> int" where
  "days_of (y, m, d) = year_days (march_year y m) + int (day_of_year m d) - 719468"

lemma month_cases:
  assumes "1 \<le> m" "m \<le> (12 :: nat)"
  shows "m = 1 \<or> m = 2 \<or> m = 3 \<or> m = 4 \<or> m = 5 \<or> m = 6 \<or> m = 7 \<or> m = 8 \<or> m = 9 \<or> m = 10 \<or> m = 11 \<or> m = 12"
  using assms by presburger

lemma leap_count:
  fixes t y a b c :: int
  assumes "t = 365 * y + (a + (if p4 then 1 else 0)) - (b + (if p100 then 1 else 0)) + (c + (if p400 then 1 else 0))"
    and "p400 \<longrightarrow> p100" "p100 \<longrightarrow> p4"
  shows "t = 365 * (y - 1) + a - b + c + 365 + (if p4 \<and> (\<not> p100 \<or> p400) then 1 else 0)"
  using assms by (cases p4; cases p100; cases p400) simp_all

lemma year_days_step: "year_days y = year_days (y - 1) + 365 + (if leap y then 1 else 0)"
proof -
  have step: "y div k = (y - 1) div k + (if k dvd y then 1 else 0)" if "k > 0" for k :: int
  proof (cases "k dvd y")
    case True
    then obtain j where "y = k * j" ..
    moreover have "(k * j - 1) div k = j - 1"
      using that by (intro int_div_pos_eq [of _ _ _ "k - 1"]) (auto simp: algebra_simps)
    ultimately show ?thesis
      using that by simp
  next
    case False
    then have "y mod k \<noteq> 0"
      by (simp add: dvd_eq_mod_eq_0)
    then have "1 \<le> y mod k" "y mod k < k"
      using pos_mod_bound [OF that, of y] pos_mod_sign [OF that, of y] by linarith+
    then have "(y - 1) div k = y div k"
      by (intro int_div_pos_eq [of _ _ _ "y mod k - 1"]) (auto simp: algebra_simps)
    then show ?thesis
      using False by simp
  qed
  have "400 dvd y \<longrightarrow> 100 dvd y" "100 dvd y \<longrightarrow> 4 dvd y"
    using dvd_trans [of 100 400 y] dvd_trans [of 4 100 y] by simp_all
  moreover have "year_days y = 365 * y + ((y - 1) div 4 + (if 4 dvd y then 1 else 0)) -
      ((y - 1) div 100 + (if 100 dvd y then 1 else 0)) + ((y - 1) div 400 + (if 400 dvd y then 1 else 0))"
    unfolding year_days_def by (subst step [of 4], simp, subst step [of 100], simp, subst step [of 400], simp_all only:)
  ultimately show ?thesis
    unfolding leap_def year_days_def [of "y - 1"] by (intro leap_count)
qed

lemma next_day_counts:
  assumes "valid_date x"
  shows "valid_date (next_day x) \<and> days_of (next_day x) = days_of x + 1"
proof -
  obtain y m d where x: "x = (y, m, d)"
    by (cases x)
  have bounds: "1 \<le> m" "m \<le> 12" "1 \<le> d" "d \<le> days_in_month y m"
    using assms x by auto
  show ?thesis
  proof (cases "d < days_in_month y m")
    case True
    then show ?thesis
      using x bounds by (simp add: day_of_year_def)
  next
    case False
    then have "d = days_in_month y m"
      using bounds by simp
    then show ?thesis
      using x month_cases [OF bounds(1,2)] year_days_step [of y]
      by (elim disjE) (simp_all add: days_in_month_def day_of_year_def march_month_def march_year_def)
  qed
qed

lemma month_of_day:
  assumes "1 \<le> m" "m \<le> 12" "1 \<le> d" "d \<le> days_in_month y m"
  shows "(5 * day_of_year m d + 2) div 153 = march_month m"
    and "day_of_year m d \<le> 365" "day_of_year m d = 365 \<longleftrightarrow> m = 2 \<and> d = 29"
proof -
  have "153 * march_month m \<le> 5 * day_of_year m d + 2" "5 * day_of_year m d + 2 < 153 * Suc (march_month m)"
    using assms month_cases [OF assms(1,2)]
    by (auto simp: day_of_year_def march_month_def days_in_month_def split: if_splits)
  then show "(5 * day_of_year m d + 2) div 153 = march_month m"
    by (rule div_nat_eqI)
  show "day_of_year m d \<le> 365" "day_of_year m d = 365 \<longleftrightarrow> m = 2 \<and> d = 29"
    using assms month_cases [OF assms(1,2)]
    by (auto simp: day_of_year_def march_month_def days_in_month_def split: if_splits)
qed

lemma era_year:
  fixes c q r doy :: nat
  assumes "c \<le> 3" "q \<le> 24" "r \<le> 3" "doy \<le> 365" and leap_day: "doy = 365 \<Longrightarrow> r = 3 \<and> (q = 24 \<longrightarrow> c = 3)"
  defines "doe \<equiv> 36524 * c + 1461 * q + 365 * r + doy"
  shows "(doe - doe div 1460 + doe div 36524 - doe div 146096) div 365 = 100 * c + 4 * q + r" "doe \<le> 146096"
proof -
  define z where "z = (if c = 3 \<and> q = 24 \<and> r = 3 \<and> doy = 365 then 1 else 0 :: nat)"
  define e where "e = (if 1460 \<le> 24 * c + q + 365 * r + doy then 1 else 0 :: nat)"
  have z: "doe div 36524 = c + z" "doe div 146096 = z"
    using assms by (auto intro!: div_nat_eqI simp: z_def) (cases "doy = 365"; simp)+
  have e: "doe div 1460 = 25 * c + q + e"
    using assms by (auto intro!: div_nat_eqI simp: e_def)
  have "e \<le> doy" "doy - e < 365"
    using assms by (cases "doy = 365"; simp add: e_def)+
  then have "doe - doe div 1460 + doe div 36524 - doe div 146096 = 365 * (100 * c + 4 * q + r) + (doy - e)"
    unfolding z e by (simp add: doe_def)
  then show "(doe - doe div 1460 + doe div 36524 - doe div 146096) div 365 = 100 * c + 4 * q + r"
    using \<open>doy - e < 365\<close> by simp
  show "doe \<le> 146096"
    using assms by simp
qed

lemma year_of_days:
  fixes yoe doy :: nat
  assumes "yoe < 400" "doy \<le> 365" and "doy = 365 \<Longrightarrow> leap (400 * era + int yoe + 1)"
  shows "\<exists>doe. year_days (400 * era + int yoe) + int doy = era * 146097 + int doe \<and> doe \<le> 146096 \<and>
    (doe - doe div 1460 + doe div 36524 - doe div 146096) div 365 = yoe \<and>
    doe - (365 * yoe + yoe div 4 - yoe div 100) = doy"
proof -
  define c q r where "c = yoe div 100" and "q = yoe mod 100 div 4" and "r = yoe mod 4"
  have yoe: "yoe = 100 * c + 4 * q + r"
  proof -
    have "yoe div 100 * 100 + yoe mod 100 = yoe" "yoe mod 100 div 4 * 4 + yoe mod 100 mod 4 = yoe mod 100"
      by (rule div_mult_mod_eq)+
    moreover have "yoe mod 100 mod 4 = yoe mod 4"
      by (simp add: mod_mod_cancel)
    ultimately show ?thesis
      unfolding c_def q_def r_def by linarith
  qed
  have bounds: "c \<le> 3" "q \<le> 24" "r \<le> 3"
    using assms(1) less_mult_imp_div_less [of yoe 4 100] less_mult_imp_div_less [of "yoe mod 100" 25 4]
    unfolding c_def q_def r_def by simp_all
  have divs: "yoe div 4 = 25 * c + q" "yoe div 100 = c" "yoe div 400 = 0"
    by (rule div_nat_eqI; use bounds in \<open>simp add: yoe\<close>)+
  have "r = 3 \<and> (q = 24 \<longrightarrow> c = 3)" if "doy = 365"
  proof -
    have leap: "leap (400 * era + int yoe + 1)"
      using assms(3) that .
    have number: "400 * era + int yoe + 1 = 4 * (100 * era + 25 * int c + int q) + (int r + 1)"
      by (simp add: yoe)
    have "4 dvd int r + 1"
      using leap unfolding leap_def number by (metis dvd_add_triv_left_iff dvd_add_right_iff dvd_triv_left)
    then have r: "r = 3"
      using bounds by presburger
    have "c = 3" if "q = 24"
    proof -
      have hundreds: "400 * era + int yoe + 1 = 100 * (4 * era + int c + 1)"
        using r that by (simp add: yoe)
      have "400 dvd 100 * (4 * era + int c + 1)"
        using leap unfolding leap_def hundreds by (metis dvd_triv_left)
      then obtain k where "100 * (4 * era + int c + 1) = 400 * k" ..
      then have "int c = 4 * (k - era) - 1"
        by (simp add: algebra_simps)
      then show ?thesis
        using bounds(1) by presburger
    qed
    then show ?thesis
      using r by simp
  qed
  note era_year = era_year [OF bounds assms(2) this]
  let ?doe = "36524 * c + 1461 * q + 365 * r + doy"
  have "(400 * era + int yoe) div 4 = 100 * era + int (yoe div 4)" "(400 * era + int yoe) div 100 = 4 * era + int (yoe div 100)"
    "(400 * era + int yoe) div 400 = era + int (yoe div 400)"
    using div_mult_self1 [of 4 "int yoe" "100 * era"] div_mult_self1 [of 100 "int yoe" "4 * era"] div_mult_self1 [of 400 "int yoe" era]
    by (simp_all add: zdiv_int mult.assoc add.commute)
  then have "year_days (400 * era + int yoe) + int doy = era * 146097 + int ?doe"
    unfolding year_days_def divs by (simp add: yoe)
  moreover have "?doe - (365 * yoe + yoe div 4 - yoe div 100) = doy"
    unfolding divs by (simp add: yoe)
  ultimately show ?thesis
    using era_year yoe by metis
qed

lemma era_of_days:
  assumes "shifted = era * 146097 + int doe" "doe \<le> 146096"
  shows "(if shifted \<ge> 0 then shifted else shifted - 146096) sdiv 146097 = era"
proof (cases "shifted \<ge> 0")
  case True
  then have "shifted div 146097 = era"
    using assms by (intro int_div_pos_eq [of _ _ _ "int doe"]) auto
  then show ?thesis
    using True by (cases "shifted = 0") (simp_all add: signed_divide_int_def)
next
  case False
  then have "(146096 - shifted) div 146097 = - era"
    using assms by (intro int_div_pos_eq [of _ _ _ "146096 - int doe"]) auto
  then show ?thesis
    using False by (simp add: signed_divide_int_def)
qed

lemma civil_of_days:
  assumes "valid_date x"
  shows "civil_from_days (days_of x) = x"
proof -
  obtain y m d where x: "x = (y, m, d)"
    by (cases x)
  have bounds: "1 \<le> m" "m \<le> 12" "1 \<le> d" "d \<le> days_in_month y m"
    using assms x by auto
  note month = month_of_day [OF bounds]
  define era yoe where "era = march_year y m div 400" and "yoe = nat (march_year y m mod 400)"
  have yoe: "yoe < 400" "march_year y m = 400 * era + int yoe"
    by (simp_all add: era_def yoe_def)
  have leap_day: "leap (400 * era + int yoe + 1)" if "day_of_year m d = 365"
    using that month(3) bounds(4) unfolding yoe(2) [symmetric] by (auto simp: march_year_def days_in_month_def split: if_splits)
  from year_of_days [OF yoe(1) month(2) leap_day] obtain doe where
    doe: "year_days (march_year y m) + int (day_of_year m d) = era * 146097 + int doe" "doe \<le> 146096"
      "(doe - doe div 1460 + doe div 36524 - doe div 146096) div 365 = yoe"
      "doe - (365 * yoe + yoe div 4 - yoe div 100) = day_of_year m d"
    unfolding yoe(2) by auto
  have shifted: "days_of x + 719468 = era * 146097 + int doe"
    using doe(1) x by simp
  have day: "day_of_year m d - (153 * march_month m + 2) div 5 + 1 = d"
    using bounds(3) by (simp add: day_of_year_def)
  have doe_nat: "nat (days_of x + 719468 - era * 146097) = doe"
    using shifted by simp
  have month_number: "(if march_month m < 10 then march_month m + 3 else march_month m - 9) = m"
    using bounds(1,2) by (auto simp: march_month_def)
  have "civil_from_days (days_of x) = (if m \<le> 2 then int yoe + era * 400 + 1 else int yoe + era * 400, m, d)"
    unfolding civil_from_days_def Let_def era_of_days [OF shifted doe(2)] doe_nat doe(3,4) month(1) day month_number ..
  then show ?thesis
    using yoe(2) x by (auto simp: march_year_def split: if_splits)
qed

text \<open>
  C29.  The date computed for a day is the one the calendar reaches by counting that many days from the
  first of January 1970, with its months and leap years.
\<close>

theorem dates_follow_the_calendar: "civil_from_days (int n) = (next_day ^^ n) (1970, 1, 1)"
proof -
  have "valid_date ((next_day ^^ n) (1970, 1, 1)) \<and> days_of ((next_day ^^ n) (1970, 1, 1)) = int n"
  proof (induction n)
    case 0
    show ?case
      by (simp add: days_in_month_def leap_def year_days_def march_year_def day_of_year_def march_month_def)
  next
    case (Suc n)
    then show ?case
      using next_day_counts [of "(next_day ^^ n) (1970, 1, 1)"] by simp
  qed
  then show ?thesis
    using civil_of_days by metis
qed

end
