(* ===== verification/Make_Files.thy ===== *)
theory Make_Files
  imports Make_Names
begin

text \<open>
  Generating source files (\<^verbatim>\<open>cli/commands/make/\<close>): which files a kind plans (\<^verbatim>\<open>blueprint.rs\<close>), writing them and
  registering them with their modules (\<^verbatim>\<open>mod.rs\<close>), and writing the application key into \<^verbatim>\<open>.env\<close>
  (\<^verbatim>\<open>key_generate.rs\<close>).

  A path is the list of its components below the root of the application.  The texts of the blueprints are
  an argument; whether a file can be written, read or a directory created is decided by an argument too.
\<close>

section \<open>Plans\<close>

type_synonym path = "string list"

record Artifact =
  artifact_path :: path
  artifact_contents :: string
  register_module :: bool
  artifact_notes :: "string list"

record Rendered =
  r_stem :: string
  r_type_name :: string
  r_slash_path :: string
  r_base_type :: string
  r_base_stem :: string

definition rendered :: "ArtifactName \<Rightarrow> string \<Rightarrow> Rendered" where
  "rendered n sfx =
     \<lparr>r_stem = file_stem n sfx, r_type_name = type_name n sfx, r_slash_path = slash_path n,
      r_base_type = to_pascal_case (file_stem n []), r_base_stem = file_stem n []\<rparr>"

definition destination :: "path \<Rightarrow> ArtifactName \<Rightarrow> string \<Rightarrow> path" where
  "destination root n st = root @ segments n @ [st @ ''.rs'']"

definition artifact :: "path \<Rightarrow> string \<Rightarrow> string list \<Rightarrow> Artifact" where
  "artifact p text notes = \<lparr>artifact_path = p, artifact_contents = text, register_module = True, artifact_notes = notes\<rparr>"

definition rust :: "(string \<Rightarrow> Rendered \<Rightarrow> string) \<Rightarrow> ArtifactName \<Rightarrow> path \<Rightarrow> string \<Rightarrow> string \<Rightarrow> Artifact" where
  "rust render n root sfx template =
     (let r = rendered n sfx in artifact (destination root n (r_stem r)) (render template r) [])"

definition migrator_note :: "string \<Rightarrow> string" where
  "migrator_note module =
     ''add `Box::new('' @ module @ ''::Migration)` to `Migrator::migrations()` in database/migrations/mod.rs -- '' @
     ''ordering is yours to choose, so the generator does not guess it''"

definition migration :: "(string \<Rightarrow> Rendered \<Rightarrow> string) \<Rightarrow> nat option \<Rightarrow> ArtifactName \<Rightarrow> Artifact" where
  "migration render clock n =
     (let module = ''m'' @ utc_stamp clock @ ''_'' @ file_stem n []
      in artifact ([''database'', ''migrations''] @ segments n @ [module @ ''.rs'']) (render ''migration'' (rendered n []))
           [migrator_note module])"

definition policy :: "(string \<Rightarrow> Rendered \<Rightarrow> string) \<Rightarrow> ArtifactName \<Rightarrow> Artifact" where
  "policy render n =
     (let r = rendered n ''Policy''
      in artifact (destination [''app'', ''policies''] n (r_stem r)) (render ''policy'' r)
           [r_stem r @ '' names `'' @ r_base_type r @ ''` and `User`; point them at the model this policy guards and '' @
            ''the application's user type''])"

definition listener :: "(string \<Rightarrow> Rendered \<Rightarrow> string) \<Rightarrow> ArtifactName \<Rightarrow> Artifact" where
  "listener render n =
     (let r = rendered n []
      in artifact (destination [''app'', ''listeners''] n (r_stem r)) (render ''listener'' r)
           [r_stem r @ '' listens for the placeholder `'' @ r_base_type r @ ''Event`; point it at a real event before building''])"

definition test_file :: "(string \<Rightarrow> Rendered \<Rightarrow> string) \<Rightarrow> ArtifactName \<Rightarrow> Artifact" where
  "test_file render n =
     (artifact ([''tests''] @ segments n @ [file_stem n [] @ ''.rs'']) (render ''test'' (rendered n [])) [])
       \<lparr>register_module := False\<rparr>"

definition notification :: "(string \<Rightarrow> Rendered \<Rightarrow> string) \<Rightarrow> ArtifactName \<Rightarrow> Artifact" where
  "notification render n =
     (let r = rendered n []
      in artifact (destination [''app'', ''notifications''] n (r_stem r)) (render ''notification'' r)
           [''notifications are behind the `notifications` feature; add it to the application's `arcature` dependency before building'',
            ''`to_database` and `to_broadcast` render whatever the features are, but delivering them needs `notifications-db` and `notifications-broadcast`''])"

definition upload :: "(string \<Rightarrow> Rendered \<Rightarrow> string) \<Rightarrow> ArtifactName \<Rightarrow> Artifact" where
  "upload render n =
     (let r = rendered n ''UploadController''
      in artifact (destination [''app'', ''controllers''] n (r_stem r)) (render ''upload'' r)
           [''uploads are behind the `uploads` feature; add it to the application's `arcature` dependency before building'',
            ''an `UploadPolicy` layer decides which extensions the route accepts; with no layer the route accepts images and nothing else''])"

definition account :: "(string \<Rightarrow> Rendered \<Rightarrow> string) \<Rightarrow> ArtifactName \<Rightarrow> Artifact" where
  "account render n =
     (let r = rendered n []
      in artifact (destination [''app'', ''auth''] n (r_stem r)) (render ''account'' r)
           [''the flows these controllers call live behind `auth-flows` and `auth-reset`, neither of which is in the feature list `arc new` writes; add both to the application's `arcature` dependency''])"

definition module_file :: "ArtifactName \<Rightarrow> string \<Rightarrow> path" where
  "module_file n name = [''app'', ''modules''] @ segments n @ [file_stem n [], name]"

definition module_part :: "ArtifactName \<Rightarrow> string \<Rightarrow> string \<Rightarrow> Artifact" where
  "module_part n name text = (artifact (module_file n name) text [])\<lparr>register_module := False\<rparr>"

definition module_root :: "(string \<Rightarrow> Rendered \<Rightarrow> string) \<Rightarrow> ArtifactName \<Rightarrow> Artifact" where
  "module_root render n = module_part n ''mod.rs'' (render ''module_root'' (rendered n []))"

definition plan :: "(string \<Rightarrow> Rendered \<Rightarrow> string) \<Rightarrow> nat option \<Rightarrow> MakeKind \<Rightarrow> ArtifactName \<Rightarrow> Artifact" where
  "plan render clock kind n =
     (case kind of
        Module \<Rightarrow> module_root render n
      | Controller \<Rightarrow> rust render n [''app'', ''controllers''] ''Controller'' ''controller''
      | Model \<Rightarrow> rust render n [''app'', ''models''] [] ''model''
      | Migration \<Rightarrow> migration render clock n
      | Request \<Rightarrow> rust render n [''app'', ''requests''] ''Request'' ''request''
      | Resource \<Rightarrow> rust render n [''app'', ''resources''] ''Resource'' ''resource''
      | Policy \<Rightarrow> policy render n
      | Service \<Rightarrow> rust render n [''app'', ''services''] ''Service'' ''service''
      | Job \<Rightarrow> rust render n [''app'', ''jobs''] [] ''job''
      | Event \<Rightarrow> rust render n [''app'', ''events''] [] ''event''
      | Listener \<Rightarrow> listener render n
      | Middleware \<Rightarrow> rust render n [''app'', ''middleware''] [] ''middleware''
      | Command \<Rightarrow> rust render n [''app'', ''commands''] [] ''command''
      | Page \<Rightarrow> rust render n [''app'', ''pages''] ''Page'' ''page''
      | Test \<Rightarrow> test_file render n
      | Factory \<Rightarrow> rust render n [''database'', ''factories''] ''Factory'' ''factory''
      | Seeder \<Rightarrow> rust render n [''database'', ''seeders''] ''Seeder'' ''seeder''
      | Notification \<Rightarrow> notification render n
      | Mail \<Rightarrow> rust render n [''app'', ''mail''] [] ''mailable''
      | View \<Rightarrow> rust render n [''app'', ''views''] ''View'' ''view_struct''
      | Upload \<Rightarrow> upload render n
      | Auth \<Rightarrow> account render n)"

definition modules :: "(string \<Rightarrow> Rendered \<Rightarrow> string) \<Rightarrow> ArtifactName \<Rightarrow> Artifact list" where
  "modules render n =
     (let r = rendered n []
      in [module_root render n, module_part n ''controller.rs'' (render ''module_controller'' r),
          module_part n ''service.rs'' (render ''module_service'' r), module_part n ''routes.rs'' (render ''module_routes'' r)])"

definition view_template_path :: "ArtifactName \<Rightarrow> path" where
  "view_template_path n = [''templates''] @ segments n @ [file_stem n [] @ ''.html'']"

definition view :: "(string \<Rightarrow> Rendered \<Rightarrow> string) \<Rightarrow> ArtifactName \<Rightarrow> Artifact list" where
  "view render n =
     (let r = rendered n ''View''
      in [artifact (destination [''app'', ''views''] n (r_stem r)) (render ''view_struct'' r) [],
          (artifact (view_template_path n) (render ''view_template'' r) [])\<lparr>register_module := False\<rparr>])"

definition auth_part :: "ArtifactName \<Rightarrow> string \<Rightarrow> string \<Rightarrow> Artifact" where
  "auth_part n part text = artifact (destination [''app'', ''auth''] n (file_stem n [] @ ''_'' @ part)) text []"

definition auth_migration :: "(string \<Rightarrow> Rendered \<Rightarrow> string) \<Rightarrow> nat option \<Rightarrow> ArtifactName \<Rightarrow> Artifact" where
  "auth_migration render clock n =
     (let base_stem = file_stem n [];
          module = ''m'' @ utc_stamp clock @ ''_create_'' @ pluralize base_stem
      in artifact ([''database'', ''migrations''] @ segments n @ [module @ ''.rs'']) (render ''auth_migration'' (rendered n []))
           [migrator_note module,
            ''the reset links need `arcature_password_resets`, which is not this migration: call `PasswordResets::new(pool).migrate()` once at boot, or write the table into a migration of your own'',
            ''the route collection is not mounted anywhere -- merge `crate::app::auth::'' @ base_stem @ ''_routes::'' @ base_stem @
            ''_auth_routes()` into `bootstrap/app.rs` beside `crate::routes::app_routes()`''])"

definition auth :: "(string \<Rightarrow> Rendered \<Rightarrow> string) \<Rightarrow> nat option \<Rightarrow> ArtifactName \<Rightarrow> Artifact list" where
  "auth render clock n =
     (let r = rendered n []
      in [account render n, auth_part n ''registration_controller'' (render ''registration_controller'' r),
          auth_part n ''session_controller'' (render ''session_controller'' r),
          auth_part n ''password_controller'' (render ''password_controller'' r),
          auth_part n ''routes'' (render ''auth_routes'' r), auth_migration render clock n])"

definition plan_all :: "(string \<Rightarrow> Rendered \<Rightarrow> string) \<Rightarrow> nat option \<Rightarrow> MakeKind \<Rightarrow> ArtifactName \<Rightarrow> Artifact list" where
  "plan_all render clock kind n =
     (case kind of
        Module \<Rightarrow> modules render n
      | View \<Rightarrow> view render n
      | Auth \<Rightarrow> auth render clock n
      | _ \<Rightarrow> [plan render clock kind n])"

section \<open>Module files\<close>

text \<open>\<^verbatim>\<open>str::lines\<close>: a carriage return before a line end belongs to it, the text after the last one is a line unless empty.\<close>

definition strip_cr :: "string \<Rightarrow> string" where
  "strip_cr l = (if l \<noteq> [] \<and> last l = CHR 0x0D then butlast l else l)"

definition str_lines :: "string \<Rightarrow> string list" where
  "str_lines s =
     (let ps = split CHR 0x0A s
      in map strip_cr (butlast ps) @ (if last ps = [] then [] else [last ps]))"

definition declares :: "string \<Rightarrow> string \<Rightarrow> bool" where
  "declares source st \<longleftrightarrow>
     list_ex (\<lambda>line. trim line = ''pub mod '' @ st @ '';'' \<or> trim line = ''mod '' @ st @ '';'') (str_lines source)"

text \<open>The index of the last line with a property.\<close>

definition rposition :: "('a \<Rightarrow> bool) \<Rightarrow> 'a list \<Rightarrow> nat option" where
  "rposition p xs = (if list_ex p xs then Some (length (dropWhile (\<lambda>x. \<not> p x) (rev xs)) - 1) else None)"

definition mod_line :: "string \<Rightarrow> string" where
  "mod_line st = ''pub mod '' @ st @ '';''"

definition with_declaration :: "string \<Rightarrow> string \<Rightarrow> string" where
  "with_declaration source st =
     (let lines = str_lines source;
          out = (case rposition (\<lambda>line. starts_with ''pub mod '' (trim_start line)) lines of
                   Some i \<Rightarrow> take (i + 1) lines @ [mod_line st] @ drop (i + 1) lines
                 | None \<Rightarrow>
                     lines @ (if lines \<noteq> [] \<and> trim (last lines) \<noteq> [] then [[]] else []) @ [mod_line st])
      in trim_end (join [CHR 0x0A] (out @ [[]])) @ [CHR 0x0A])"

definition new_module_header :: "string \<Rightarrow> string" where
  "new_module_header dir = ''//! The application's `'' @ dir @ ''`.'' @ [CHR 0x0A]"

definition position :: "('a \<Rightarrow> bool) \<Rightarrow> 'a list \<Rightarrow> nat option" where
  "position p xs = (if list_ex p xs then Some (length (takeWhile (\<lambda>x. \<not> p x) xs)) else None)"

definition insert_in_region :: "string \<Rightarrow> string \<Rightarrow> string \<Rightarrow> string option" where
  "insert_in_region source region entry =
     (let lines = str_lines source
      in Option.bind (position (\<lambda>line. trim line = ''// arc:modules '' @ region) lines) (\<lambda>start.
         Option.bind (position (\<lambda>line. trim line = ''// arc:end'') (drop start lines)) (\<lambda>off.
         let fin = off + start
         in if list_ex (\<lambda>line. trim line = entry) (take (fin - start) (drop start lines)) then Some source
            else
              let marker = lines ! start;
                  indent = take (length marker - length (trim_start marker)) marker
              in Some (join [CHR 0x0A] (take fin lines @ [indent @ entry] @ drop fin lines) @ [CHR 0x0A]))))"

section \<open>Writing\<close>

datatype MakeError = NotAnApplicationRoot | NameErr NameError | Exists path | Io path

record fs =
  files :: "path \<Rightarrow> string option"
  dirs :: "path set"

text \<open>
  What a call of \<^verbatim>\<open>std::fs::write\<close> comes to, by path and contents: all of it is written, or the file cannot
  be opened, or it is opened, which empties it, and writing stops after some bytes.
\<close>

datatype write_outcome = Written | Unopened | Torn nat

record fs_io =
  writing :: "path \<Rightarrow> string \<Rightarrow> write_outcome"
  can_read :: "path \<Rightarrow> bool"
  can_mkdir :: "path \<Rightarrow> bool"

definition path_exists :: "fs \<Rightarrow> path \<Rightarrow> bool" where
  "path_exists s p \<longleftrightarrow> files s p \<noteq> None \<or> p \<in> dirs s"

definition create_dir_all :: "fs_io \<Rightarrow> path \<Rightarrow> fs \<Rightarrow> (MakeError, unit) result \<times> fs" where
  "create_dir_all io p s =
     (if can_mkdir io p then (Ok (), s\<lparr>dirs := dirs s \<union> set (map (\<lambda>n. take n p) [0..<Suc (length p)])\<rparr>) else (Err (Io p), s))"

definition read_file :: "fs_io \<Rightarrow> path \<Rightarrow> fs \<Rightarrow> (MakeError, string) result" where
  "read_file io p s =
     (case files s p of Some c \<Rightarrow> if can_read io p then Ok c else Err (Io p) | None \<Rightarrow> Err (Io p))"

definition write_file :: "fs_io \<Rightarrow> path \<Rightarrow> string \<Rightarrow> fs \<Rightarrow> (MakeError, unit) result \<times> fs" where
  "write_file io p c s =
     (case writing io p c of
        Written \<Rightarrow> (Ok (), s\<lparr>files := (files s)(p \<mapsto> c)\<rparr>)
      | Unopened \<Rightarrow> (Err (Io p), s)
      | Torn k \<Rightarrow> (Err (Io p), s\<lparr>files := (files s)(p \<mapsto> take k c)\<rparr>))"

record Generated =
  g_path :: path
  touched_modules :: "path list"
  g_notes :: "string list"

definition touch :: "path \<Rightarrow> Generated \<Rightarrow> Generated" where
  "touch p g = (if p \<in> set (touched_modules g) then g else g\<lparr>touched_modules := touched_modules g @ [p]\<rparr>)"

definition declare_note :: "path \<Rightarrow> string \<Rightarrow> string" where
  "declare_note module_relative dir =
     ''created '' @ join ''/'' module_relative @ '' -- declare it in src/lib.rs with `#[path = '' @ [CHR 0x22] @ ''../'' @ dir @
     ''/mod.rs'' @ [CHR 0x22] @ ''] pub mod '' @ dir @ '';` if it is not there already''"

text \<open>Declaring a module in the file of its directory, and that directory in its own, as far up as files are missing.\<close>

definition declare_in :: "fs_io \<Rightarrow> path \<Rightarrow> string \<Rightarrow> Generated \<Rightarrow> fs \<Rightarrow> (MakeError, Generated) result \<times> fs" where
  "declare_in io module_path st g s =
     (case read_file io module_path s of
        Err e \<Rightarrow> (Err e, s)
      | Ok existing \<Rightarrow>
          if declares existing st then (Ok g, s)
          else (case write_file io module_path (with_declaration existing st) s of
                  (Err e, s) \<Rightarrow> (Err e, s)
                | (Ok _, s) \<Rightarrow> (Ok (touch module_path g), s)))"

function register :: "fs_io \<Rightarrow> path \<Rightarrow> string \<Rightarrow> Generated \<Rightarrow> fs \<Rightarrow> (MakeError, Generated) result \<times> fs" where
  "register io dir st g s =
     (let module_path = dir @ [''mod.rs'']
      in if path_exists s module_path then declare_in io module_path st g s
         else
           let directory_name = (if dir = [] then [] else last dir)
           in case write_file io module_path (new_module_header directory_name) s of
                (Err e, s) \<Rightarrow> (Err e, s)
              | (Ok _, s) \<Rightarrow>
                  let g = g\<lparr>touched_modules := touched_modules g @ [module_path]\<rparr>
                  in if length dir > 1
                     then (case register io (butlast dir) directory_name g s of
                             (Err e, s) \<Rightarrow> (Err e, s)
                           | (Ok g, s) \<Rightarrow> declare_in io module_path st g s)
                     else declare_in io module_path st (g\<lparr>g_notes := g_notes g @ [declare_note module_path directory_name]\<rparr>) s)"
  by pat_completeness auto
termination
  by (relation "measure (\<lambda>(io, dir, st, g, s). length dir)") auto

declare register.simps [simp del]

text \<open>The stem of a file name: up to its last dot, unless that is the first character.\<close>

definition path_stem :: "path \<Rightarrow> string" where
  "path_stem p =
     (if p = [] then []
      else case rsplit_once CHR ''.'' (last p) of
             Some (before, _) \<Rightarrow> if before = [] then last p else before
           | None \<Rightarrow> last p)"

definition write_artifact :: "fs_io \<Rightarrow> Artifact \<Rightarrow> fs \<Rightarrow> (MakeError, Generated) result \<times> fs" where
  "write_artifact io a s =
     (let p = artifact_path a
      in if path_exists s p then (Err (Exists p), s)
         else case create_dir_all io (butlast p) s of
                (Err e, s) \<Rightarrow> (Err e, s)
              | (Ok _, s) \<Rightarrow>
                  (case write_file io p (artifact_contents a) s of
                     (Err e, s) \<Rightarrow> (Err e, s)
                   | (Ok _, s) \<Rightarrow>
                       let g = \<lparr>g_path = p, touched_modules = [], g_notes = artifact_notes a\<rparr>
                       in if register_module a then register io (butlast p) (path_stem p) g s else (Ok g, s)))"

fun write_artifacts :: "fs_io \<Rightarrow> Artifact list \<Rightarrow> fs \<Rightarrow> (MakeError, Generated list) result \<times> fs" where
  "write_artifacts io [] s = (Ok [], s)"
| "write_artifacts io (a # rest) s =
     (case write_artifact io a s of
        (Err e, s) \<Rightarrow> (Err e, s)
      | (Ok g, s) \<Rightarrow>
          (case write_artifacts io rest s of
             (Err e, s) \<Rightarrow> (Err e, s)
           | (Ok gs, s) \<Rightarrow> (Ok (g # gs), s)))"

text \<open>The two lists of \<^verbatim>\<open>app/modules/mod.rs\<close>.\<close>

definition region_note :: "string \<Rightarrow> string \<Rightarrow> string" where
  "region_note region entry =
     ''app/modules/mod.rs has no `// arc:modules '' @ region @ ''` marker -- add `'' @ entry @ ''` to its '' @ region @ '' list by hand''"

fun insert_entries :: "(string \<times> string) list \<Rightarrow> string \<Rightarrow> Generated \<Rightarrow> string \<times> Generated" where
  "insert_entries [] updated g = (updated, g)"
| "insert_entries ((region, entry) # rest) updated g =
     (case insert_in_region updated region entry of
        Some later \<Rightarrow> insert_entries rest later g
      | None \<Rightarrow> insert_entries rest updated (g\<lparr>g_notes := g_notes g @ [region_note region entry]\<rparr>))"

definition module_entries :: "ArtifactName \<Rightarrow> (string \<times> string) list" where
  "module_entries n =
     (let st = file_stem n [];
          module_path = concat (map (\<lambda>w. w @ ''::'') (segments n)) @ st;
          accessor = to_ascii_lowercase (type_name n []) @ ''_module''
      in [(''descriptors'', module_path @ ''::'' @ accessor @ ''().clone(),''),
          (''routes'', module_path @ ''::routes::'' @ st @ ''_routes(),'')])"

definition register_feature_module :: "fs_io \<Rightarrow> ArtifactName \<Rightarrow> Generated \<Rightarrow> fs \<Rightarrow> (MakeError, Generated) result \<times> fs" where
  "register_feature_module io n g s =
     (case register io ([''app'', ''modules''] @ segments n) (file_stem n []) g s of
        (Err e, s) \<Rightarrow> (Err e, s)
      | (Ok g, s) \<Rightarrow>
          let list_path = [''app'', ''modules'', ''mod.rs'']
          in case read_file io list_path s of
               Err e \<Rightarrow> (Err e, s)
             | Ok original \<Rightarrow>
                 (case insert_entries (module_entries n) original g of
                    (updated, g) \<Rightarrow>
                      if updated = original then (Ok g, s)
                      else (case write_file io list_path updated s of
                              (Err e, s) \<Rightarrow> (Err e, s)
                            | (Ok _, s) \<Rightarrow> (Ok (touch list_path g), s))))"

definition generate_all :: "(string \<Rightarrow> Rendered \<Rightarrow> string) \<Rightarrow> nat option \<Rightarrow> fs_io \<Rightarrow> MakeKind \<Rightarrow> string \<Rightarrow> fs \<Rightarrow>
    (MakeError, Generated list) result \<times> fs" where
  "generate_all render clock io kind raw_name s =
     (if files s [''Cargo.toml''] = None then (Err NotAnApplicationRoot, s)
      else case name_parse raw_name of
             Err e \<Rightarrow> (Err (NameErr e), s)
           | Ok n \<Rightarrow>
               let artifacts = plan_all render clock kind n
               in case List.find (\<lambda>a. path_exists s (artifact_path a)) artifacts of
                    Some a \<Rightarrow> (Err (Exists (artifact_path a)), s)
                  | None \<Rightarrow>
                      (case write_artifacts io artifacts s of
                         (Err e, s) \<Rightarrow> (Err e, s)
                       | (Ok written, s) \<Rightarrow>
                           (case (kind, written) of
                              (Module, primary # rest) \<Rightarrow>
                                (case register_feature_module io n primary s of
                                   (Err e, s) \<Rightarrow> (Err e, s)
                                 | (Ok primary, s) \<Rightarrow> (Ok (primary # rest), s))
                            | _ \<Rightarrow> (Ok written, s))))"

definition generate :: "(string \<Rightarrow> Rendered \<Rightarrow> string) \<Rightarrow> nat option \<Rightarrow> fs_io \<Rightarrow> MakeKind \<Rightarrow> string \<Rightarrow> fs \<Rightarrow>
    (MakeError, Generated) result \<times> fs" where
  "generate render clock io kind raw_name s =
     (case generate_all render clock io kind raw_name s of
        (Err e, s) \<Rightarrow> (Err e, s)
      | (Ok [], s) \<Rightarrow> (Err NotAnApplicationRoot, s)
      | (Ok (g # _), s) \<Rightarrow> (Ok g, s))"

section \<open>The application key\<close>

definition KEY_VARIABLE :: string where
  "KEY_VARIABLE = ''APP_KEY''"

definition key_line :: "string \<Rightarrow> bool" where
  "key_line line \<longleftrightarrow> starts_with (KEY_VARIABLE @ ''='') (trim_start line)"

definition upsert :: "string \<Rightarrow> string \<Rightarrow> string" where
  "upsert existing hex =
     (let assignment = KEY_VARIABLE @ ''='' @ hex;
          lines = map (\<lambda>line. if key_line line then assignment else line) (str_lines existing);
          lines = (if list_ex key_line (str_lines existing) then lines
                   else lines @ (if lines \<noteq> [] \<and> trim (last lines) \<noteq> [] then [[]] else []) @ [assignment])
      in trim_end (join [CHR 0x0A] lines) @ [CHR 0x0A])"

section \<open>Lines that are declared stay declared\<close>

text \<open>A character that is part of no longer white space sequence separates the two sides of a text for trimming.\<close>

lemma trim_by_steps:
  "w1 a \<Longrightarrow> trim_by w1 w2 w3 (a # s) = trim_by w1 w2 w3 s"
  "\<not> w1 a \<Longrightarrow> w2 a b \<Longrightarrow> trim_by w1 w2 w3 (a # b # t) = trim_by w1 w2 w3 t"
  "\<not> w1 a \<Longrightarrow> \<not> w2 a b \<Longrightarrow> w3 a b c \<Longrightarrow> trim_by w1 w2 w3 (a # b # c # u) = trim_by w1 w2 w3 u"
  "\<not> w1 a \<Longrightarrow> trim_by w1 w2 w3 [a] = [a]"
  "\<not> w1 a \<Longrightarrow> \<not> w2 a b \<Longrightarrow> trim_by w1 w2 w3 [a, b] = [a, b]"
  "\<not> w1 a \<Longrightarrow> \<not> w2 a b \<Longrightarrow> \<not> w3 a b c \<Longrightarrow> trim_by w1 w2 w3 (a # b # c # u) = a # b # c # u"
  by simp_all

lemma trim_by_append:
  assumes alone: "\<And>a. \<not> w2 a g" "\<And>a. \<not> w2 g a" "\<And>a b. \<not> w3 g a b" "\<And>a b. \<not> w3 a g b" "\<And>a b. \<not> w3 a b g"
  shows "trim_by w1 w2 w3 (y @ g # x) = (if trim_by w1 w2 w3 y = [] then trim_by w1 w2 w3 (g # x) else trim_by w1 w2 w3 y @ g # x)"
proof (induction y rule: length_induct)
  case (1 y)
  have IH: "trim_by w1 w2 w3 (z @ g # x) = (if trim_by w1 w2 w3 z = [] then trim_by w1 w2 w3 (g # x) else trim_by w1 w2 w3 z @ g # x)"
    if "length z < length y" for z
    using 1 that by blast
  consider "y = []" | a where "y = [a]" | a b where "y = [a, b]" | a b c u where "y = a # b # c # u"
    by (metis neq_Nil_conv)
  then show ?case
  proof cases
    case 1
    then show ?thesis
      by (simp del: trim_by.simps(2))
  next
    case (2 a)
    then show ?thesis
      using alone IH [of "[]"] by (cases "w1 a"; cases x) (simp_all add: trim_by_steps del: trim_by.simps(2))
  next
    case (3 a b)
    then show ?thesis
      using alone IH [of "[b]"] IH [of "[]"]
      by (cases "w1 a"; cases "w2 a b") (simp_all add: trim_by_steps del: trim_by.simps(2))
  next
    case (4 a b c u)
    then show ?thesis
      using IH [of "b # c # u"] IH [of "c # u"] IH [of u]
      by (cases "w1 a"; cases "w2 a b"; cases "w3 a b c") (simp_all add: trim_by_steps del: trim_by.simps(2))
  qed
qed

lemma line_char_alone:
  assumes "graphic g \<or> of_char g \<in> {10 :: nat, 13}"
  shows "\<not> ws2 a g" "\<not> ws2 g a" "\<not> ws3 g a b" "\<not> ws3 a g b" "\<not> ws3 a b g"
  using assms by (auto simp: graphic_def ws2_def ws3_def Let_def)

lemma trim_start_append:
  "graphic g \<or> of_char g \<in> {10 :: nat, 13} \<Longrightarrow>
   trim_start (y @ g # x) = (if trim_start y = [] then trim_start (g # x) else trim_start y @ g # x)"
  unfolding trim_start_def using line_char_alone by (intro trim_by_append) blast+

lemma trim_end_append:
  assumes "graphic g \<or> of_char g \<in> {10 :: nat, 13}"
  shows "trim_end (x @ g # y) = (if trim_end y = [] then trim_end (x @ [g]) else x @ g # trim_end y)"
proof -
  have "trim_by ws1 (\<lambda>a b. ws2 b a) (\<lambda>a b c. ws3 c b a) (rev y @ g # rev x) =
     (if trim_by ws1 (\<lambda>a b. ws2 b a) (\<lambda>a b c. ws3 c b a) (rev y) = [] then trim_by ws1 (\<lambda>a b. ws2 b a) (\<lambda>a b c. ws3 c b a) (g # rev x)
      else trim_by ws1 (\<lambda>a b. ws2 b a) (\<lambda>a b c. ws3 c b a) (rev y) @ g # rev x)"
    using line_char_alone [OF assms] by (intro trim_by_append)
  then show ?thesis
    by (simp add: trim_end_def del: trim_by.simps)
qed

lemma trim_start_graphic:
  assumes "graphic g"
  shows "trim_start (y @ g # x) = trim_start y @ g # x" "trim_start (g # x) = g # x"
proof -
  show hd: "trim_start (g # x) = g # x"
    using graphic_not_ws [OF assms] by (simp add: trim_start_def split: list.split)
  then show "trim_start (y @ g # x) = trim_start y @ g # x"
    using trim_start_append [of g y x] assms by simp
qed

lemma trim_end_graphic:
  assumes "graphic g"
  shows "trim_end (x @ g # y) = x @ g # trim_end y"
proof -
  have "trim_end (x @ [g]) = x @ [g]"
    using graphic_not_ws [OF assms] by (simp add: trim_end_def split: list.split)
  then show ?thesis
    using trim_end_append [of g x y] assms by simp
qed

lemma trim_newline [simp]: "trim_end (x @ [CHR 0x0A]) = trim_end x" "trim_end (x @ [CHR 0x0D]) = trim_end x"
  by (simp_all add: trim_end_def ws1_def)

lemma trim_cr: "trim (strip_cr l) = trim l"
proof (cases "l \<noteq> [] \<and> last l = CHR 0x0D")
  case True
  then obtain k where l: "l = k @ [CHR 0x0D]"
    by (metis append_butlast_last_id)
  have "trim_start [CHR 0x0D] = []"
    by (simp add: trim_start_def ws1_def)
  then have "trim_start (k @ [CHR 0x0D]) = (if trim_start k = [] then [] else trim_start k @ [CHR 0x0D])"
    using trim_start_append [of "CHR 0x0D" k "[]"] by simp
  then show ?thesis
    by (simp add: l strip_cr_def trim_def)
qed (auto simp: strip_cr_def)

text \<open>A line that reads \<open>d\<close> when trimmed, for a text \<open>d\<close> that ends in a graphic character.\<close>

lemma trim_trim_end:
  assumes "trim l = d @ [g]" "graphic g"
  shows "trim (trim_end l) = d @ [g]"
proof -
  obtain a b where start: "l = a @ trim_start l" and "trim_start l = (d @ [g]) @ b"
    using assms(1) suffix_trim_start [of l] prefix_trim_end [of "trim_start l"] unfolding trim_def prefix_def suffix_def by metis
  then have l: "l = (a @ d) @ g # b" and ts: "trim_start l = d @ g # b"
    by simp_all
  have "trim_end b = []"
    using assms trim_end_graphic [OF assms(2), of d b] ts by (simp add: trim_def)
  then have "trim_end l = (a @ d) @ [g]"
    using trim_end_graphic [OF assms(2), of "a @ d" b] l by simp
  moreover have "trim_start (a @ d) = d"
    using trim_start_graphic(1) [OF assms(2), of "a @ d" b] l ts by simp
  ultimately show ?thesis
    using trim_start_graphic(1) [OF assms(2), of "a @ d" "[]"] trim_end_graphic [OF assms(2), of d "[]"]
    by (simp add: trim_def trim_end_def)
qed

abbreviation newline :: char where
  "newline \<equiv> CHR 0x0A"

definition has_line :: "string \<Rightarrow> string list \<Rightarrow> bool" where
  "has_line d ls \<longleftrightarrow> (\<exists>l \<in> set ls. trim l = d)"

lemma split_newline:
  "newline \<notin> set l \<Longrightarrow> split newline l = [l]"
  "newline \<notin> set l \<Longrightarrow> split newline (l @ newline # s) = l # split newline s"
  using split_on_no_sep [of l "\<lambda>c. c = newline"] split_on_sep_append [of l "\<lambda>c. c = newline" newline s] by auto

lemma has_line_trim_end:
  assumes "\<forall>l \<in> set ls. newline \<notin> set l" "has_line (d @ [g]) ls" "graphic g"
  shows "has_line (d @ [g]) (split newline (trim_end (join [newline] ls)))"
  using assms(1,2)
proof (induction ls rule: induct_list012)
  case 1
  then show ?case
    by (simp add: has_line_def)
next
  case (2 l)
  then have "newline \<notin> set (trim_end l)" "trim (trim_end l) = d @ [g]"
    using trim_trim_end [OF _ assms(3)] set_mono_prefix [OF prefix_trim_end [of l]] by (auto simp: has_line_def)
  then show ?case
    by (simp add: split_newline has_line_def)
next
  case (3 p q rest)
  let ?j = "join [newline] (q # rest)"
  have p: "newline \<notin> set p" "newline \<notin> set (trim_end p)"
    using 3(3) set_mono_prefix [OF prefix_trim_end [of p]] by auto
  have whole: "trim_end (join [newline] (p # q # rest)) = (if trim_end ?j = [] then trim_end p else p @ newline # trim_end ?j)"
    using trim_end_append [of newline p ?j] by simp
  have "trim [] = []"
    by (simp add: trim_def trim_start_def trim_end_def)
  show ?case
  proof (cases "trim p = d @ [g]")
    case True
    then show ?thesis
      using trim_trim_end [OF True assms(3)] p unfolding whole by (simp add: split_newline has_line_def)
  next
    case False
    then have "has_line (d @ [g]) (q # rest)"
      using 3(4) by (auto simp: has_line_def)
    then have found: "has_line (d @ [g]) (split newline (trim_end ?j))"
      using 3(2,3) by simp
    then have "trim_end ?j \<noteq> []"
      using \<open>trim [] = []\<close> by (auto simp: has_line_def)
    then show ?thesis
      using found p unfolding whole by (auto simp: split_newline has_line_def)
  qed
qed

lemma set_strip_cr: "set (strip_cr l) \<subseteq> set l"
  by (auto simp: strip_cr_def dest: in_set_butlastD)

lemma lines_no_newline: "l \<in> set (str_lines s) \<Longrightarrow> newline \<notin> set l"
proof -
  assume "l \<in> set (str_lines s)"
  then obtain p where "p \<in> set (split newline s)" "set l \<subseteq> set p"
  proof -
    assume found: "\<And>p. p \<in> set (split newline s) \<Longrightarrow> set l \<subseteq> set p \<Longrightarrow> thesis"
    from \<open>l \<in> set (str_lines s)\<close> consider p where "p \<in> set (butlast (split newline s))" "l = strip_cr p" | "l = last (split newline s)"
      by (auto simp: str_lines_def Let_def split: if_splits)
    then show thesis
    proof cases
      case (1 p)
      then show thesis
        using found [OF in_set_butlastD [OF 1(1)]] set_strip_cr [of p] by simp
    next
      case 2
      then show thesis
        using found [OF last_in_set [OF split_on_not_Nil]] by simp
    qed
  qed
  then show ?thesis
    using split_on_pieces [of p "\<lambda>c. c = newline" s newline] by auto
qed

lemma str_lines_ended: "str_lines (s @ [newline]) = map strip_cr (split newline s)"
  using split_on_append_sep [of "\<lambda>c. c = newline" newline s "[]"] by (simp add: str_lines_def Let_def)

lemma has_line_cr: "has_line d (map strip_cr ls) \<longleftrightarrow> has_line d ls"
  by (simp add: has_line_def trim_cr)

lemma declares_iff: "declares s st \<longleftrightarrow> has_line (''pub mod '' @ st @ '';'') (str_lines s) \<or> has_line (''mod '' @ st @ '';'') (str_lines s)"
  by (auto simp: declares_def has_line_def list_ex_iff)

lemma graphic_semicolon: "graphic CHR '';''"
  by (simp add: graphic_def)

lemma has_line_written:
  assumes "\<forall>l \<in> set ls. newline \<notin> set l" "has_line (d @ '';'') ls"
  shows "has_line (d @ '';'') (str_lines (trim_end (join [newline] ls) @ [newline]))"
  using has_line_trim_end [OF assms graphic_semicolon] by (simp add: str_lines_ended has_line_cr)

text \<open>What \<^verbatim>\<open>with_declaration\<close> writes declares the module and everything that was declared before.\<close>

definition merged_lines :: "string \<Rightarrow> string \<Rightarrow> string list" where
  "merged_lines source st =
     (let lines = str_lines source
      in (case rposition (\<lambda>line. starts_with ''pub mod '' (trim_start line)) lines of
            Some i \<Rightarrow> take (i + 1) lines @ [mod_line st] @ drop (i + 1) lines
          | None \<Rightarrow> lines @ (if lines \<noteq> [] \<and> trim (last lines) \<noteq> [] then [[]] else []) @ [mod_line st]) @ [[]])"

lemma with_declaration_merged: "with_declaration source st = trim_end (join [newline] (merged_lines source st)) @ [newline]"
  by (simp add: with_declaration_def merged_lines_def Let_def)

lemma set_merged_lines:
  "set (str_lines source) \<subseteq> set (merged_lines source st)" "mod_line st \<in> set (merged_lines source st)"
  "set (merged_lines source st) \<subseteq> set (str_lines source) \<union> {mod_line st, []}"
proof -
  have split: "set (take n ls) \<union> set (drop n ls) = set ls" for n and ls :: "string list"
    by (metis append_take_drop_id set_append)
  show "set (str_lines source) \<subseteq> set (merged_lines source st)" "mod_line st \<in> set (merged_lines source st)"
    "set (merged_lines source st) \<subseteq> set (str_lines source) \<union> {mod_line st, []}"
    using split [of _ "str_lines source"]
    by (auto simp: merged_lines_def Let_def split: option.split dest: in_set_takeD in_set_dropD)
qed

lemma trim_mod_line: "trim (mod_line st) = mod_line st"
proof -
  have "trim_start (CHR ''p'' # ''ub mod '' @ st @ '';'') = CHR ''p'' # ''ub mod '' @ st @ '';''"
    by (rule trim_start_graphic(2)) (simp add: graphic_def)
  then have "trim_start (mod_line st) = (''pub mod '' @ st) @ CHR '';'' # []"
    by (simp add: mod_line_def)
  moreover have "trim_end [] = []"
    by (simp add: trim_end_def)
  ultimately show ?thesis
    unfolding trim_def by (simp only: trim_end_graphic [OF graphic_semicolon]) (simp add: mod_line_def)
qed

lemma merged_lines_clean:
  assumes "newline \<notin> set st"
  shows "\<forall>l \<in> set (merged_lines source st). newline \<notin> set l"
proof
  fix l
  have "newline \<notin> set (mod_line st)"
    using assms by (simp add: mod_line_def)
  assume "l \<in> set (merged_lines source st)"
  from subsetD [OF set_merged_lines(3) this] consider "l \<in> set (str_lines source)" | "l = mod_line st" | "l = []"
    by (simp only: Un_iff insert_iff empty_iff) (elim disjE; simp)
  then show "newline \<notin> set l"
    by cases (simp_all add: lines_no_newline \<open>newline \<notin> set (mod_line st)\<close>)
qed

lemma with_declaration_declares:
  assumes "newline \<notin> set st"
  shows "declares (with_declaration source st) st" "declares source other \<Longrightarrow> declares (with_declaration source st) other"
proof -
  note clean = merged_lines_clean [OF assms, of source]
  have keep: "has_line (d @ '';'') (str_lines (with_declaration source st))" if "has_line (d @ '';'') (merged_lines source st)" for d
    unfolding with_declaration_merged using has_line_written [OF clean that] .
  have "has_line ((''pub mod '' @ st) @ '';'') (merged_lines source st)"
    using set_merged_lines(2) [of st source] trim_mod_line [of st] by (auto simp: has_line_def mod_line_def)
  from keep [OF this] show "declares (with_declaration source st) st"
    by (simp add: declares_iff)
  assume "declares source other"
  then consider "has_line ((''pub mod '' @ other) @ '';'') (merged_lines source st)"
    | "has_line ((''mod '' @ other) @ '';'') (merged_lines source st)"
    using set_merged_lines(1) [of source st] by (auto simp: declares_iff has_line_def)
  then show "declares (with_declaration source st) other"
    by cases (use keep in \<open>fastforce simp: declares_iff\<close>)+
qed

lemma split_join_newline: "ls \<noteq> [] \<Longrightarrow> \<forall>l \<in> set ls. newline \<notin> set l \<Longrightarrow> split newline (join [newline] ls) = ls"
proof (induction ls rule: induct_list012)
  case (3 p q rest)
  then show ?case
    using split_newline(2) [of p "join [newline] (q # rest)"] by simp
qed (simp_all add: split_newline)

lemma set_take_drop: "set (take n xs) \<union> set (drop n xs) = set xs"
  by (metis append_take_drop_id set_append)

lemma position_less: "position p xs = Some i \<Longrightarrow> i < length xs"
  by (induction xs arbitrary: i) (auto simp: position_def split: if_splits)

lemma insert_in_region_lines:
  assumes "insert_in_region source region entry = Some text" "newline \<notin> set entry" "text \<noteq> source"
  obtains fin new where
    "str_lines text = map strip_cr (take fin (str_lines source) @ [new] @ drop fin (str_lines source))"
proof -
  from assms obtain start fin indent where
    result: "text = join [newline] (take fin (str_lines source) @ [indent @ entry] @ drop fin (str_lines source)) @ [newline]"
    and indent: "indent = take (length (str_lines source ! start) - length (trim_start (str_lines source ! start))) (str_lines source ! start)"
    and start: "start < length (str_lines source)"
    using assms(1) unfolding insert_in_region_def Let_def
    by (auto simp: bind_eq_Some_conv dest: position_less split: if_splits)
  let ?ls = "take fin (str_lines source) @ [indent @ entry] @ drop fin (str_lines source)"
  have "set indent \<subseteq> set (str_lines source ! start)"
    unfolding indent by (rule set_take_subset)
  moreover have "newline \<notin> set (str_lines source ! start)"
    using lines_no_newline nth_mem [OF start] by blast
  ultimately have entry: "newline \<notin> set (indent @ entry)"
    using assms(2) by (auto dest: subsetD)
  have "newline \<notin> set l" if "l \<in> set ?ls" for l
  proof -
    from that consider "l \<in> set (str_lines source)" | "l = indent @ entry"
      using set_take_subset [of fin "str_lines source"] set_drop_subset [of fin "str_lines source"] by fastforce
    then show ?thesis
      using lines_no_newline entry by cases simp_all
  qed
  then have "str_lines text = map strip_cr ?ls"
    unfolding result str_lines_ended by (subst split_join_newline) auto
  then show thesis
    using that by blast
qed

lemma insert_in_region_keeps:
  assumes "insert_in_region source region entry = Some text" "newline \<notin> set entry" "has_line d (str_lines source)"
  shows "has_line d (str_lines text)"
proof (cases "text = source")
  case False
  then obtain fin new where "str_lines text = map strip_cr (take fin (str_lines source) @ [new] @ drop fin (str_lines source))"
    using insert_in_region_lines [OF assms(1,2)] by blast
  moreover have "set (str_lines source) \<subseteq> set (take fin (str_lines source) @ [new] @ drop fin (str_lines source))"
    using set_take_drop [of fin "str_lines source"] by auto
  ultimately show ?thesis
    using assms(3) by (simp only: has_line_cr) (auto simp: has_line_def)
qed (use assms in simp)

section \<open>Lines stay\<close>

text \<open>The lines of a text as a reader sees them: without trailing white space, and without the blank ones.\<close>

definition inked :: "string list \<Rightarrow> string list" where
  "inked ls = filter (\<lambda>l. l \<noteq> []) (map trim_end ls)"

definition ink :: "string \<Rightarrow> string list" where
  "ink c = inked (str_lines c)"

lemma inked_append [simp]: "inked (a @ b) = inked a @ inked b"
  by (simp add: inked_def)

lemma trim_end_Nil [simp]: "trim_end [] = []"
  by (simp add: trim_end_def)

lemma inked_blank [simp]: "inked [[]] = []" "inked [] = []"
  by (simp_all add: inked_def)

lemma trim_by_idem: "trim_by w1 w2 w3 (trim_by w1 w2 w3 s) = trim_by w1 w2 w3 s"
proof (induction s rule: length_induct)
  case (1 s)
  have IH: "trim_by w1 w2 w3 (trim_by w1 w2 w3 z) = trim_by w1 w2 w3 z" if "length z < length s" for z
    using 1 that by blast
  consider "s = []" | a where "s = [a]" | a b where "s = [a, b]" | a b c u where "s = a # b # c # u"
    by (metis neq_Nil_conv)
  then show ?case
  proof cases
    case (3 a b)
    then show ?thesis
      using IH [of "[b]"] IH [of "[]"]
      by (cases "w1 a"; cases "w2 a b") (simp_all add: trim_by_steps del: trim_by.simps(2))
  next
    case (4 a b c u)
    then show ?thesis
      using IH [of "b # c # u"] IH [of "c # u"] IH [of u]
      by (cases "w1 a"; cases "w2 a b"; cases "w3 a b c") (simp_all add: trim_by_steps del: trim_by.simps(2))
  qed simp_all
qed

lemma trim_end_twice [simp]: "trim_end (trim_end l) = trim_end l"
  by (simp add: trim_end_def trim_by_idem)

lemma trim_end_cr [simp]: "trim_end (strip_cr l) = trim_end l"
proof (cases "l \<noteq> [] \<and> last l = CHR 0x0D")
  case True
  then have "l = butlast l @ [CHR 0x0D]"
    by (metis append_butlast_last_id)
  then have "trim_end l = trim_end (butlast l)"
    using trim_newline(2) by metis
  then show ?thesis
    by (simp add: strip_cr_def)
qed (auto simp: strip_cr_def)

lemma inked_cr [simp]: "inked (map strip_cr ls) = inked ls"
  by (simp add: inked_def o_def)

lemma inked_trim_end:
  "\<forall>l \<in> set ls. newline \<notin> set l \<Longrightarrow> inked (split newline (trim_end (join [newline] ls))) = inked ls"
proof (induction ls rule: induct_list012)
  case (2 l)
  then have "newline \<notin> set (trim_end l)"
    using set_mono_prefix [OF prefix_trim_end [of l]] by auto
  then show ?case
    by (simp add: split_newline inked_def)
next
  case (3 p q rest)
  let ?j = "join [newline] (q # rest)"
  have p: "newline \<notin> set p" "newline \<notin> set (trim_end p)"
    using 3(3) set_mono_prefix [OF prefix_trim_end [of p]] by auto
  have whole: "trim_end (join [newline] (p # q # rest)) = (if trim_end ?j = [] then trim_end p else p @ newline # trim_end ?j)"
    using trim_end_append [of newline p ?j] by simp
  have IH: "inked (split newline (trim_end ?j)) = inked (q # rest)"
    using 3 by simp
  have cons: "inked (p # q # rest) = inked [p] @ inked (q # rest)"
    by (simp add: inked_def)
  show ?case
  proof (cases "trim_end ?j = []")
    case True
    then have "inked (q # rest) = []"
      using IH by (simp add: split_newline)
    then show ?thesis
      unfolding whole cons using True p by (simp add: split_newline inked_def)
  next
    case False
    have "inked (p # split newline (trim_end ?j)) = inked [p] @ inked (split newline (trim_end ?j))"
      by (simp add: inked_def)
    then show ?thesis
      unfolding whole cons using False p IH by (simp add: split_newline)
  qed
qed (simp add: split_newline)

lemma ink_written: "\<forall>l \<in> set ls. newline \<notin> set l \<Longrightarrow> ink (trim_end (join [newline] ls) @ [newline]) = inked ls"
  by (simp add: ink_def str_lines_ended inked_trim_end)

lemma subseq_inserted: "subseq (inked ls) (inked (take n ls @ new @ drop n ls))"
proof -
  have "inked ls = inked (take n ls) @ inked (drop n ls)"
    by (metis append_take_drop_id inked_append)
  moreover have "subseq (inked (drop n ls)) (inked new @ inked (drop n ls))"
    by (rule subseq_drop_many) simp
  ultimately show ?thesis
    by (simp add: subseq_append')
qed

lemma with_declaration_ink:
  assumes "newline \<notin> set st"
  shows "subseq (ink source) (ink (with_declaration source st))"
proof -
  have "ink (with_declaration source st) = inked (merged_lines source st)"
    using ink_written [OF merged_lines_clean [OF assms]] by (simp add: with_declaration_merged)
  moreover have "subseq (inked (str_lines source)) (inked (merged_lines source st))"
  proof (cases "rposition (\<lambda>line. starts_with ''pub mod '' (trim_start line)) (str_lines source)")
    case None
    have "subseq xs (xs @ ys)" for xs ys :: "string list"
      using subseq_append' [of xs "[]" ys] by simp
    then show ?thesis
      using None by (simp add: merged_lines_def Let_def)
  next
    case (Some i)
    then have "inked (merged_lines source st) = inked (take (i + 1) (str_lines source) @ [mod_line st] @ drop (i + 1) (str_lines source))"
      by (simp only: merged_lines_def Let_def option.case inked_append inked_blank append_Nil2)
    then show ?thesis
      using subseq_inserted [of "str_lines source" "i + 1" "[mod_line st]"] by simp
  qed
  ultimately show ?thesis
    by (simp add: ink_def)
qed

lemma insert_in_region_ink:
  assumes "insert_in_region source region entry = Some text" "newline \<notin> set entry"
  shows "subseq (ink source) (ink text)"
proof (cases "text = source")
  case False
  then obtain fin new where "str_lines text = map strip_cr (take fin (str_lines source) @ [new] @ drop fin (str_lines source))"
    using insert_in_region_lines [OF assms] by blast
  then show ?thesis
    using subseq_inserted [of "str_lines source" fin "[new]"] by (simp only: ink_def inked_cr)
qed simp

section \<open>Nothing is overwritten\<close>

text \<open>
  How the files of an application may change: none disappears, only module files change their text, and
  in those every line stays, in its order, and every declaration is still read as one.
\<close>

definition kept :: "path \<Rightarrow> string \<Rightarrow> string \<Rightarrow> bool" where
  "kept p c c' \<longleftrightarrow>
     (c' = c \<or> p \<noteq> [] \<and> last p = ''mod.rs'') \<and> subseq (ink c) (ink c') \<and> (\<forall>st. declares c st \<longrightarrow> declares c' st)"

definition grows :: "fs \<Rightarrow> fs \<Rightarrow> bool" where
  "grows s s' \<longleftrightarrow> (\<forall>p c. files s p = Some c \<longrightarrow> (\<exists>c'. files s' p = Some c' \<and> kept p c c'))"

text \<open>A module file whose new text, which keeps what it had, was cut short while it was written.\<close>

definition torn :: "fs_io \<Rightarrow> path \<Rightarrow> string \<Rightarrow> string \<Rightarrow> bool" where
  "torn io p c c' \<longleftrightarrow>
     p \<noteq> [] \<and> last p = ''mod.rs'' \<and> (\<exists>new k. writing io p new = Torn k \<and> c' = take k new \<and> kept p c new)"

text \<open>What a step leaves: on success everything grows, and a failure may tear the one module file it names.\<close>

definition broken :: "fs_io \<Rightarrow> MakeError \<Rightarrow> fs \<Rightarrow> fs \<Rightarrow> bool" where
  "broken io e s s' \<longleftrightarrow>
     (\<forall>p c. files s p = Some c \<longrightarrow> (\<exists>c'. files s' p = Some c' \<and> (kept p c c' \<or> e = Io p \<and> torn io p c c')))"

definition leaves :: "fs_io \<Rightarrow> (MakeError, 'a) result \<Rightarrow> fs \<Rightarrow> fs \<Rightarrow> bool" where
  "leaves io r s s' \<longleftrightarrow> (case r of Ok _ \<Rightarrow> grows s s' | Err e \<Rightarrow> broken io e s s')"

lemma leaves_simps [simp]: "leaves io (Ok x) s s' = grows s s'" "leaves io (Err e) s s' = broken io e s s'"
  by (simp_all add: leaves_def)

lemma kept_refl [simp]: "kept p c c"
  by (simp add: kept_def)

lemma kept_trans: "kept p a b \<Longrightarrow> kept p b c \<Longrightarrow> kept p a c"
  unfolding kept_def using subseq_order.order_trans by metis

lemma torn_trans: "kept p a b \<Longrightarrow> torn io p b c \<Longrightarrow> torn io p a c"
  unfolding torn_def using kept_trans by blast

lemma broken_refl [simp]: "broken io e s s"
  by (simp add: broken_def)

lemma grows_broken: "grows s t \<Longrightarrow> broken io e t u \<Longrightarrow> broken io e s u"
  unfolding grows_def broken_def using kept_trans torn_trans by meson

lemma grows_refl [simp]: "grows s s"
  by (simp add: grows_def)

lemma grows_trans: "grows s t \<Longrightarrow> grows t u \<Longrightarrow> grows s u"
  unfolding grows_def by (meson kept_trans)

lemma create_dir_all_grows: "create_dir_all io p s = (r, s') \<Longrightarrow> grows s s' \<and> files s' = files s"
  by (auto simp: create_dir_all_def grows_def split: if_splits)

lemma leaves_refl [simp]: "leaves io r s s"
  by (cases r) simp_all

lemma leaves_after: "grows s t \<Longrightarrow> leaves io r t u \<Longrightarrow> leaves io r s u"
  by (cases r) (auto intro: grows_trans grows_broken)

lemma write_file_leaves:
  assumes "write_file io p c s = (r, s')" "\<And>old. files s p = Some old \<Longrightarrow> kept p old c \<and> p \<noteq> [] \<and> last p = ''mod.rs''"
  shows "leaves io r s s'" "r = Ok () \<Longrightarrow> files s' p = Some c"
proof -
  show "r = Ok () \<Longrightarrow> files s' p = Some c"
    using assms(1) by (auto simp: write_file_def split: write_outcome.splits)
  show "leaves io r s s'"
  proof (cases "writing io p c")
    case (Torn k)
    then have "torn io p old (take k c)" if "files s p = Some old" for old
      using assms(2) [OF that] by (auto simp: torn_def)
    then show ?thesis
      using assms(1) Torn by (auto simp: write_file_def broken_def)
  qed (use assms in \<open>auto simp: write_file_def grows_def\<close>)
qed

lemma declare_in_leaves:
  assumes "declare_in io p st g s = (r, s')" "newline \<notin> set st" "p \<noteq> []" "last p = ''mod.rs''"
  shows "leaves io r s s'" "r = Ok g' \<Longrightarrow> \<exists>c. files s' p = Some c \<and> declares c st"
proof -
  have "leaves io r s s' \<and> (r = Ok g' \<longrightarrow> (\<exists>c. files s' p = Some c \<and> declares c st))" for g'
  proof (cases "read_file io p s")
    case (Inr existing)
    then have now: "files s p = Some existing"
      by (auto simp: read_file_def split: option.splits if_splits)
    have kept: "kept p existing (with_declaration existing st)"
      using with_declaration_declares(2) [OF assms(2)] with_declaration_ink [OF assms(2)] assms(3,4) by (simp add: kept_def)
    obtain w u where written: "write_file io p (with_declaration existing st) s = (w, u)"
      by force
    have "leaves io w s u" "w = Ok () \<Longrightarrow> files u p = Some (with_declaration existing st)"
      using write_file_leaves [OF written] kept now assms(3,4) by simp_all
    then show ?thesis
      using assms(1) Inr now written with_declaration_declares(1) [OF assms(2)]
      by (auto simp: declare_in_def split: if_splits sum.splits)
  qed (use assms in \<open>auto simp: declare_in_def\<close>)
  then show "leaves io r s s'" "r = Ok g' \<Longrightarrow> \<exists>c. files s' p = Some c \<and> declares c st"
    by blast+
qed

lemma register_leaves:
  "register io dir st g s = (r, s') \<Longrightarrow> newline \<notin> set st \<Longrightarrow> \<forall>w \<in> set dir. newline \<notin> set w \<Longrightarrow>
   leaves io r s s' \<and> (\<forall>g'. r = Ok g' \<longrightarrow> (\<exists>c. files s' (dir @ [''mod.rs'']) = Some c \<and> declares c st))"
proof (induction io dir st g s arbitrary: r s' rule: register.induct)
  case (1 io dir st g s)
  let ?p = "dir @ [''mod.rs'']"
  let ?name = "if dir = [] then [] else last dir"
  have declared: "leaves io r t s' \<and> (\<forall>g'. r = Ok g' \<longrightarrow> (\<exists>c. files s' ?p = Some c \<and> declares c st))"
    if "declare_in io ?p st h t = (r, s')" for h t
    using declare_in_leaves [OF that 1(3)] by simp
  show ?case
  proof (cases "path_exists s ?p")
    case True
    then show ?thesis
      using 1(2) declared by (subst (asm) register.simps) (simp add: Let_def)
  next
    case new: False
    obtain w t where written: "write_file io ?p (new_module_header ?name) s = (w, t)"
      by force
    have "files s ?p = None"
      using new by (simp add: path_exists_def)
    then have t: "leaves io w s t"
      using write_file_leaves(1) [OF written] by simp
    let ?g = "g\<lparr>touched_modules := touched_modules g @ [?p]\<rparr>"
    show ?thesis
    proof (cases w)
      case (Inl e)
      then show ?thesis
        using 1(2) new written t by (subst (asm) register.simps) (auto simp: Let_def)
    next
      case (Inr u)
      then have t: "grows s t"
        using t by simp
      show ?thesis
      proof (cases "length dir > 1")
        case False
        then have "declare_in io ?p st (?g\<lparr>g_notes := g_notes g @ [declare_note ?p ?name]\<rparr>) t = (r, s')"
          using 1(2) new written Inr by (subst (asm) register.simps) (simp add: Let_def)
        from declared [OF this] show ?thesis
          using leaves_after [OF t] by blast
      next
        case up: True
        obtain q v where parent: "register io (butlast dir) ?name ?g t = (q, v)"
          by force
        have clean: "newline \<notin> set ?name" "\<forall>w \<in> set (butlast dir). newline \<notin> set w"
          using 1(4) in_set_butlastD last_in_set [of dir] by (cases "dir = []"; fastforce)+
        have v: "leaves io q t v"
          using 1(1) [OF refl new refl written [symmetric] Inr refl up parent clean] by simp
        show ?thesis
        proof (cases q)
          case (Inl e)
          then show ?thesis
            using 1(2) new written Inr up parent v leaves_after [OF t, of io "Inl e"]
            by (subst (asm) register.simps) (auto simp: Let_def)
        next
          case (Inr h)
          then have "declare_in io ?p st h v = (r, s')"
            using 1(2) new written \<open>w = Inr u\<close> up parent by (subst (asm) register.simps) (auto simp: Let_def)
          moreover have "grows s v"
            using grows_trans [OF t] v Inr by simp
          ultimately show ?thesis
            using declared leaves_after by blast
        qed
      qed
    qed
  qed
qed

definition clean_path :: "path \<Rightarrow> bool" where
  "clean_path p \<longleftrightarrow> p \<noteq> [] \<and> (\<forall>w \<in> set p. newline \<notin> set w)"

lemma path_stem_clean: "clean_path p \<Longrightarrow> newline \<notin> set (path_stem p)"
proof -
  assume "clean_path p"
  then have "newline \<notin> set (last p)"
    by (simp add: clean_path_def)
  then show ?thesis
    by (auto simp: path_stem_def rsplit_once_eq_Some_iff split: option.split)
qed

text \<open>An artifact that is in place: its file holds its text, unless it is a module file, and is declared where it asks for that.\<close>

definition in_place :: "fs \<Rightarrow> Artifact \<Rightarrow> bool" where
  "in_place s a \<longleftrightarrow>
     (\<exists>c. files s (artifact_path a) = Some c \<and> kept (artifact_path a) (artifact_contents a) c) \<and>
     (register_module a \<longrightarrow>
       (\<exists>c. files s (butlast (artifact_path a) @ [''mod.rs'']) = Some c \<and> declares c (path_stem (artifact_path a))))"

lemma grows_file: "grows s s' \<Longrightarrow> files s p = Some c \<Longrightarrow> \<exists>c'. files s' p = Some c' \<and> kept p c c'"
  by (simp add: grows_def)

lemma grows_declares: "grows s s' \<Longrightarrow> files s p = Some c \<Longrightarrow> declares c st \<Longrightarrow> \<exists>c'. files s' p = Some c' \<and> declares c' st"
  using grows_file unfolding kept_def by blast

lemma in_place_grows:
  assumes "in_place s a" "grows s s'"
  shows "in_place s' a"
proof -
  have "\<exists>c. files s' (artifact_path a) = Some c \<and> kept (artifact_path a) (artifact_contents a) c"
    using assms grows_file kept_trans unfolding in_place_def by blast
  moreover have "\<exists>c. files s' (butlast (artifact_path a) @ [''mod.rs'']) = Some c \<and> declares c (path_stem (artifact_path a))"
    if "register_module a"
    using assms that grows_declares unfolding in_place_def by blast
  ultimately show ?thesis
    unfolding in_place_def by blast
qed

lemma write_artifact_leaves:
  assumes "write_artifact io a s = (r, s')" "clean_path (artifact_path a)"
  shows "leaves io r s s' \<and> (\<forall>g. r = Ok g \<longrightarrow> in_place s' a)"
proof (cases "path_exists s (artifact_path a)")
  case True
  then show ?thesis
    using assms(1) by (auto simp: write_artifact_def Let_def)
next
  case False
  let ?p = "artifact_path a"
  obtain m t where made: "create_dir_all io (butlast ?p) s = (m, t)"
    by force
  obtain w u where written: "write_file io ?p (artifact_contents a) t = (w, u)"
    by force
  have t: "grows s t" "files t ?p = None"
    using create_dir_all_grows [OF made] False by (simp_all add: path_exists_def)
  then have u: "leaves io w s u" "w = Ok () \<Longrightarrow> files u ?p = Some (artifact_contents a)"
    using write_file_leaves [OF written] leaves_after by auto
  let ?g = "\<lparr>g_path = ?p, touched_modules = [], g_notes = artifact_notes a\<rparr>"
  consider (fail) e where "r = Err e" "s' = t" | (fail2) e where "w = Err e" "r = Err e" "s' = u"
    | (plain) "w = Ok ()" "\<not> register_module a" "r = Ok ?g" "s' = u"
    | (listed) "w = Ok ()" "register_module a" "register io (butlast ?p) (path_stem ?p) ?g u = (r, s')"
    using assms(1) False made written
    by (auto simp: write_artifact_def Let_def split: sum.splits if_splits)
  then show ?thesis
  proof cases
    case fail
    then show ?thesis
      using t leaves_after [OF t(1), of io r t] by simp
  next
    case plain
    then show ?thesis
      using u by (auto simp: in_place_def)
  next
    case listed
    then have grown: "grows s u"
      using u(1) by simp
    have "\<forall>w \<in> set (butlast ?p). newline \<notin> set w"
      using assms(2) in_set_butlastD unfolding clean_path_def by metis
    from register_leaves [OF listed(3) path_stem_clean [OF assms(2)] this] have
      reg: "leaves io r u s'" "r = Ok g \<Longrightarrow> \<exists>c. files s' (butlast ?p @ [''mod.rs'']) = Some c \<and> declares c (path_stem ?p)" for g
      by auto
    moreover have "\<exists>c. files s' ?p = Some c \<and> kept ?p (artifact_contents a) c" if "r = Ok g" for g
      using u(2) [OF listed(1)] reg(1) that by (auto simp: grows_def)
    ultimately show ?thesis
      using leaves_after [OF grown] unfolding in_place_def by blast
  qed (use u in auto)
qed

lemma write_artifacts_leaves:
  "write_artifacts io as s = (r, s') \<Longrightarrow> \<forall>a \<in> set as. clean_path (artifact_path a) \<Longrightarrow>
   leaves io r s s' \<and> (\<forall>gs. r = Ok gs \<longrightarrow> length gs = length as \<and> (\<forall>a \<in> set as. in_place s' a))"
proof (induction as arbitrary: s r s')
  case (Cons a as)
  obtain q t where first: "write_artifact io a s = (q, t)"
    by force
  have t: "leaves io q s t" "q = Ok g \<Longrightarrow> in_place t a" for g
    using write_artifact_leaves [OF first] Cons.prems(2) by auto
  show ?case
  proof (cases q)
    case (Inl e)
    then show ?thesis
      using Cons.prems(1) first t(1) by auto
  next
    case (Inr g)
    obtain q' u where rest: "write_artifacts io as t = (q', u)"
      by force
    have u: "leaves io q' t u" "q' = Ok gs \<Longrightarrow> length gs = length as \<and> (\<forall>a \<in> set as. in_place u a)" for gs
      using Cons.IH [OF rest] Cons.prems(2) by simp_all
    have grown: "grows s t" "in_place t a"
      using t Inr by simp_all
    show ?thesis
    proof (cases q')
      case (Inl e)
      then show ?thesis
        using Cons.prems(1) first Inr rest u(1) leaves_after [OF grown(1), of io q' u] by auto
    next
      case (Inr gs)
      then have "r = Ok (g # gs)" "s' = u"
        using Cons.prems(1) first \<open>q = Inr g\<close> rest by simp_all
      then show ?thesis
        using Inr u grown in_place_grows [OF grown(2)] grows_trans [OF grown(1)] by simp
    qed
  qed
qed simp

lemma insert_entries_keeps:
  "insert_entries es c g = (c', g') \<Longrightarrow> \<forall>(region, entry) \<in> set es. newline \<notin> set entry \<Longrightarrow> has_line d (str_lines c) \<Longrightarrow>
   has_line d (str_lines c')"
  by (induction es c g rule: insert_entries.induct)
    (auto split: option.splits dest: insert_in_region_keeps)

lemma insert_entries_ink:
  "insert_entries es c g = (c', g') \<Longrightarrow> \<forall>(region, entry) \<in> set es. newline \<notin> set entry \<Longrightarrow> subseq (ink c) (ink c')"
proof (induction es c g rule: insert_entries.induct)
  case (2 region entry rest updated g)
  show ?case
  proof (cases "insert_in_region updated region entry")
    case None
    then show ?thesis
      using 2 by simp
  next
    case (Some later)
    then have "subseq (ink updated) (ink later)"
      using insert_in_region_ink 2(4) by simp
    moreover have "subseq (ink later) (ink c')"
      using 2(2) [OF Some] 2(3,4) Some by simp
    ultimately show ?thesis
      by (rule subseq_order.order_trans)
  qed
qed simp

section \<open>Where the files go\<close>

definition file_char :: "char \<Rightarrow> bool" where
  "file_char c \<longleftrightarrow> snake_char c \<or> c = CHR ''.'' \<or> c = CHR ''-''"

text \<open>A component that names a file or directory right below: no separator, no line end, and not a step up.\<close>

definition path_word :: "string \<Rightarrow> bool" where
  "path_word w \<longleftrightarrow> list_all file_char w \<and> list_ex snake_char w"

lemma snake_file_char: "snake_char c \<Longrightarrow> file_char c"
  by (simp add: file_char_def)

lemma path_word_append: "path_word u \<Longrightarrow> list_all file_char v \<Longrightarrow> path_word (u @ v)"
  "list_all file_char u \<Longrightarrow> path_word v \<Longrightarrow> path_word (u @ v)"
  by (simp_all add: path_word_def)

lemma identifier_word: "is_identifier w \<Longrightarrow> path_word w \<and> list_all snake_char w"
  by (cases w) (auto simp: is_identifier_def path_word_def list_all_iff snake_file_char)

lemma word_consts:
  "path_word ''app'' \<and> path_word ''controllers'' \<and> path_word ''models'' \<and> path_word ''requests'' \<and> path_word ''resources'' \<and>
   path_word ''policies'' \<and> path_word ''services'' \<and> path_word ''jobs'' \<and> path_word ''events'' \<and> path_word ''listeners'' \<and>
   path_word ''middleware'' \<and> path_word ''commands'' \<and> path_word ''pages'' \<and> path_word ''tests'' \<and> path_word ''database'' \<and>
   path_word ''factories'' \<and> path_word ''seeders'' \<and> path_word ''notifications'' \<and> path_word ''mail'' \<and> path_word ''views'' \<and>
   path_word ''auth'' \<and> path_word ''modules'' \<and> path_word ''migrations'' \<and> path_word ''templates'' \<and> path_word ''mod.rs'' \<and>
   path_word ''controller.rs'' \<and> path_word ''service.rs'' \<and> path_word ''routes.rs''"
  by (simp add: path_word_def file_char_def snake_char_def is_ascii_lowercase_def)

lemma suffix_consts:
  "list_all file_char (to_snake_case ''Controller'') \<and> list_all file_char (to_snake_case ''Request'') \<and>
   list_all file_char (to_snake_case ''Resource'') \<and> list_all file_char (to_snake_case ''Policy'') \<and>
   list_all file_char (to_snake_case ''Service'') \<and> list_all file_char (to_snake_case ''Page'') \<and>
   list_all file_char (to_snake_case ''Factory'') \<and> list_all file_char (to_snake_case ''Seeder'') \<and>
   list_all file_char (to_snake_case ''View'') \<and> list_all file_char (to_snake_case ''UploadController'') \<and>
   list_all file_char ''.rs'' \<and> list_all file_char ''.html'' \<and> list_all file_char ''m'' \<and> list_all file_char ''_'' \<and>
   list_all file_char ''_create_'' \<and> list_all file_char ''ies'' \<and> list_all file_char ''s'' \<and> list_all file_char ''es'' \<and>
   list_all file_char ''registration_controller'' \<and> list_all file_char ''session_controller'' \<and>
   list_all file_char ''password_controller'' \<and> list_all file_char ''routes''"
  by code_simp

lemma show_nat_chars: "list_all file_char (show_nat n)"
  using show_nat_digit [of _ n] by (auto simp: list_all_iff file_char_def snake_char_def is_ascii_digit_def)

lemma padded_chars: "list_all file_char (padded w n)" "list_all file_char (padded_int w i)"
proof -
  have zero: "file_char CHR ''0''" "file_char CHR ''-''"
    by code_simp+
  show padded: "list_all file_char (padded w n)" for w n
    using show_nat_chars [of n] zero by (auto simp: padded_def list_all_iff simp del: show_nat.simps)
  show "list_all file_char (padded_int w i)"
    using padded zero by (simp add: padded_int_def)
qed

lemma utc_stamp_chars: "list_all file_char (utc_stamp clock)"
  by (cases "civil_from_days (if (case clock of Some s \<Rightarrow> s | None \<Rightarrow> 0) div 86400 < 2 ^ 63 then int ((case clock of Some s \<Rightarrow> s | None \<Rightarrow> 0) div 86400) else 0)")
    (simp add: utc_stamp_def Let_def padded_chars file_char_def snake_char_def)

lemma base_word:
  assumes "is_identifier (stem n)"
  shows "path_word (base n sfx)"
proof (cases "base n sfx = stem n")
  case False
  then obtain rest where "strip_suffix (CHR ''_'' # to_snake_case sfx) (stem n) = Some rest" "rest \<noteq> []" "base n sfx = rest"
    by (auto simp: base_def split: option.splits if_splits)
  then have "stem n = base n sfx @ CHR ''_'' # to_snake_case sfx" "base n sfx \<noteq> []"
    by (simp_all add: strip_suffix_eq_Some_iff)
  then have "list_all snake_char (base n sfx)" "base n sfx \<noteq> []"
    using identifier_word [OF assms] by simp_all
  then show ?thesis
    by (cases "base n sfx") (auto simp: path_word_def list_all_iff snake_file_char)
qed (use identifier_word [OF assms] in simp)

lemma file_stem_word:
  "is_identifier (stem n) \<Longrightarrow> list_all file_char (to_snake_case sfx) \<Longrightarrow> path_word (file_stem n sfx)"
proof (cases "sfx = []")
  case False
  assume "is_identifier (stem n)" "list_all file_char (to_snake_case sfx)"
  moreover have "file_char CHR ''_''"
    by code_simp
  ultimately show ?thesis
    using False path_word_append(1) [OF base_word [of n sfx], of "''_'' @ to_snake_case sfx"] by (simp add: file_stem_def)
qed (simp add: file_stem_def base_word)

lemma pluralize_word: "path_word w \<Longrightarrow> list_all file_char (pluralize w)"
proof -
  assume w: "path_word w"
  then have "list_all file_char st" if "w = st @ ''y''" for st
    using that by (simp add: path_word_def)
  moreover have "list_all file_char ''ies''" "list_all file_char ''s''" "list_all file_char ''es''"
    by (simp_all add: file_char_def snake_char_def is_ascii_lowercase_def)
  moreover have "list_all file_char w"
    using w by (simp add: path_word_def)
  ultimately show ?thesis
    by (simp only: pluralize_def strip_suffix_eq_Some_iff list_all_append split: option.split if_split) blast
qed

definition name_ok :: "ArtifactName \<Rightarrow> bool" where
  "name_ok n \<longleftrightarrow> list_all is_identifier (segments n @ [stem n])"

lemma name_words: "name_ok n \<Longrightarrow> list_all path_word (segments n)"
  using identifier_word by (auto simp: name_ok_def list_all_iff)

definition path_ok :: "path \<Rightarrow> bool" where
  "path_ok p \<longleftrightarrow> p \<noteq> [] \<and> list_all path_word p"

lemma path_ok_below:
  "name_ok n \<Longrightarrow> list_all path_word root \<Longrightarrow> list_all path_word rest \<Longrightarrow> rest \<noteq> [] \<Longrightarrow> path_ok (root @ segments n @ rest)"
  using name_words [of n] by (simp add: path_ok_def)

lemma stem_file_word:
  assumes "name_ok n" "list_all file_char (to_snake_case sfx)" "list_all file_char ext"
  shows "path_word (file_stem n sfx @ ext)"
  using path_word_append(1) [OF file_stem_word [of n sfx] assms(3)] assms(1,2) by (simp add: name_ok_def)

lemma snake_empty: "list_all file_char (to_snake_case [])"
  by code_simp

lemma destination_path_ok:
  "name_ok n \<Longrightarrow> list_all path_word root \<Longrightarrow> list_all file_char (to_snake_case sfx) \<Longrightarrow>
   path_ok (destination root n (file_stem n sfx))"
proof -
  assume ok: "name_ok n" "list_all path_word root" "list_all file_char (to_snake_case sfx)"
  have "list_all file_char ''.rs''"
    using suffix_consts by blast
  from stem_file_word [OF ok(1,3) this] show ?thesis
    unfolding destination_def by (intro path_ok_below [OF ok(1,2)]) simp_all
qed

lemma migration_file_word:
  assumes "list_all file_char rest"
  shows "path_word ((''m'' @ utc_stamp clock @ rest) @ ''.rs'')"
proof -
  have "path_word ''m''"
    by code_simp
  moreover have "list_all file_char (utc_stamp clock @ rest @ ''.rs'')"
    using assms utc_stamp_chars [of clock] suffix_consts by (simp only: list_all_append simp_thms)
  ultimately show ?thesis
    using path_word_append(1) by (metis append_assoc)
qed

lemma plan_ok:
  assumes "name_ok n"
  shows "path_ok (artifact_path (plan render clock kind n))"
proof -
  have "list_all file_char (''_'' @ file_stem n [])"
    using stem_file_word [OF assms snake_empty, of "[]"] suffix_consts by (simp only: list_all_append path_word_def append_Nil2 list.pred_inject simp_thms)
  from migration_file_word [OF this]
  have stamp: "path_word ((''m'' @ utc_stamp clock @ ''_'' @ file_stem n []) @ ''.rs'')"
    by simp
  have test: "path_word (file_stem n [] @ ''.rs'')"
    using stem_file_word [OF assms snake_empty] suffix_consts by blast
  show ?thesis
  proof (cases kind)
    case Module
    then show ?thesis
      using assms stem_file_word [OF assms snake_empty, of "[]"] word_consts
      by (simp add: plan_def module_root_def module_part_def artifact_def module_file_def path_ok_def name_words)
  next
    case Migration
    then show ?thesis
      using path_ok_below [OF assms, of "[''database'', ''migrations'']"] stamp word_consts
      by (simp add: plan_def migration_def Let_def artifact_def)
  next
    case Test
    then show ?thesis
      using path_ok_below [OF assms, of "[''tests'']"] test word_consts
      by (simp add: plan_def test_file_def artifact_def)
  qed (use destination_path_ok [OF assms] word_consts suffix_consts snake_empty in
      \<open>simp_all add: plan_def rust_def policy_def listener_def notification_def upload_def account_def Let_def artifact_def rendered_def\<close>)
qed

lemma plan_all_ok:
  assumes "name_ok n" "a \<in> set (plan_all render clock kind n)"
  shows "path_ok (artifact_path a)"
proof -
  have stem: "path_word (file_stem n [])"
    using stem_file_word [OF assms(1) snake_empty, of "[]"] by simp
  have html: "path_word (file_stem n [] @ ''.html'')"
    using stem_file_word [OF assms(1) snake_empty] suffix_consts by blast
  have part: "path_ok (destination [''app'', ''auth''] n (file_stem n [] @ ''_'' @ name))" if "list_all file_char name" for name
  proof -
    have "list_all file_char (''_'' @ name @ ''.rs'')"
      using that suffix_consts by (simp only: list_all_append simp_thms)
    then have "path_word ((file_stem n [] @ ''_'' @ name) @ ''.rs'')"
      using path_word_append(1) [OF stem] by (metis append_assoc)
    then show ?thesis
      unfolding destination_def using word_consts by (intro path_ok_below [OF assms(1)]) simp_all
  qed
  have "list_all file_char (''_create_'' @ pluralize (file_stem n []))"
    using pluralize_word [OF stem] suffix_consts by (simp only: list_all_append simp_thms)
  from migration_file_word [OF this, of clock]
  have created: "path_ok ([''database'', ''migrations''] @ segments n @ [(''m'' @ utc_stamp clock @ ''_create_'' @ pluralize (file_stem n [])) @ ''.rs''])"
    using word_consts by (intro path_ok_below [OF assms(1)]) simp_all
  have module: "path_ok (module_file n name)" if "path_word name" for name
    using that stem word_consts path_ok_below [OF assms(1), of "[''app'', ''modules'']" "[file_stem n [], name]"]
    by (simp add: module_file_def)
  have template: "path_ok (view_template_path n)"
    using html word_consts path_ok_below [OF assms(1), of "[''templates'']" "[file_stem n [] @ ''.html'']"]
    by (simp add: view_template_path_def)
  consider "a = plan render clock kind n" | "kind = Module" "a \<in> set (modules render n)"
    | "kind = View" "a \<in> set (view render n)" | "kind = Auth" "a \<in> set (auth render clock n)"
    using assms(2) by (cases kind) (auto simp: plan_all_def)
  then show ?thesis
  proof cases
    case 1
    then show ?thesis
      using plan_ok [OF assms(1)] by simp
  next
    case 2
    then consider "artifact_path a = module_file n ''mod.rs''" | "artifact_path a = module_file n ''controller.rs''"
      | "artifact_path a = module_file n ''service.rs''" | "artifact_path a = module_file n ''routes.rs''"
      by (auto simp: modules_def Let_def module_root_def module_part_def artifact_def)
    then show ?thesis
      using module word_consts by cases simp_all
  next
    case 3
    have "path_ok (destination [''app'', ''views''] n (file_stem n ''View''))"
      using word_consts suffix_consts by (intro destination_path_ok [OF assms(1)]) simp_all
    then show ?thesis
      using 3 template by (auto simp: view_def Let_def artifact_def rendered_def)
  next
    case 4
    have home: "path_ok (destination [''app'', ''auth''] n (file_stem n []))"
      using word_consts snake_empty by (intro destination_path_ok [OF assms(1)]) simp_all
    have parts: "path_ok (destination [''app'', ''auth''] n (file_stem n [] @ ''_'' @ ''registration_controller''))"
      "path_ok (destination [''app'', ''auth''] n (file_stem n [] @ ''_'' @ ''session_controller''))"
      "path_ok (destination [''app'', ''auth''] n (file_stem n [] @ ''_'' @ ''password_controller''))"
      "path_ok (destination [''app'', ''auth''] n (file_stem n [] @ ''_'' @ ''routes''))"
      by (rule part, simp only: suffix_consts)+
    from 4 have "artifact_path a \<in>
        {destination [''app'', ''auth''] n (file_stem n []),
         destination [''app'', ''auth''] n (file_stem n [] @ ''_'' @ ''registration_controller''),
         destination [''app'', ''auth''] n (file_stem n [] @ ''_'' @ ''session_controller''),
         destination [''app'', ''auth''] n (file_stem n [] @ ''_'' @ ''password_controller''),
         destination [''app'', ''auth''] n (file_stem n [] @ ''_'' @ ''routes''),
         [''database'', ''migrations''] @ segments n @ [(''m'' @ utc_stamp clock @ ''_create_'' @ pluralize (file_stem n [])) @ ''.rs'']}"
      by (auto simp: auth_def Let_def account_def auth_part_def auth_migration_def artifact_def rendered_def)
    then show ?thesis
      using home parts created by (elim insertE emptyE) (simp_all only:)
  qed
qed

lemma path_ok_clean: "path_ok p \<Longrightarrow> clean_path p"
proof -
  assume "path_ok p"
  moreover have "\<not> file_char newline"
    by code_simp
  ultimately show ?thesis
    by (auto simp: path_ok_def clean_path_def path_word_def list_all_iff)
qed

lemma name_parse_ok: "name_parse raw = Ok n \<Longrightarrow> name_ok n"
proof -
  assume ok: "name_parse raw = Ok n"
  then have some: "name_pieces raw \<noteq> []"
    by (auto simp: name_parse_def)
  then obtain l where "snake_segments (butlast (name_pieces raw)) = Ok (segments n)" "validate_segment (last (name_pieces raw)) = Ok l"
    "stem n = to_snake_case l"
    using ok by (auto simp: name_parse_pieces rbind_def split: sum.splits)
  then show ?thesis
    using snake_segments_ok snake_identifier by (auto simp: name_ok_def)
qed

lemma declares_kept: "(\<And>d. has_line d (str_lines c) \<Longrightarrow> has_line d (str_lines c')) \<Longrightarrow> declares c st \<Longrightarrow> declares c' st"
  by (auto simp: declares_iff)

lemma chars_no_newline: "list_all file_char w \<Longrightarrow> newline \<notin> set w"
proof -
  have "\<not> file_char newline"
    by code_simp
  then show "list_all file_char w \<Longrightarrow> newline \<notin> set w"
    by (auto simp: list_all_iff)
qed

lemma case_newline: "\<forall>c. (ascii_lower c = newline \<longrightarrow> c = newline) \<and> (ascii_upper c = newline \<longrightarrow> c = newline)"
proof (intro allI conjI impI)
  fix c
  assume "ascii_lower c = newline"
  then have "of_char (ascii_lower c) = (of_char newline :: nat)"
    by (rule arg_cong)
  then have "of_char c = (of_char newline :: nat)"
    by (auto simp: ascii_lower_def Let_def split: if_splits)
  then show "c = newline"
    by (simp only: of_char_eq_iff)
next
  fix c
  assume "ascii_upper c = newline"
  then have "of_char (ascii_upper c) = (of_char newline :: nat)"
    by (rule arg_cong)
  then have "of_char c = (of_char newline :: nat)"
    by (auto simp: ascii_upper_def Let_def split: if_splits)
  then show "c = newline"
    by (simp only: of_char_eq_iff)
qed

lemma lower_no_newline: "newline \<notin> set w \<Longrightarrow> newline \<notin> set (to_ascii_lowercase w)"
proof
  assume w: "newline \<notin> set w" and "newline \<in> set (to_ascii_lowercase w)"
  then obtain c where "c \<in> set w" "ascii_lower c = newline"
    unfolding to_ascii_lowercase_def by (metis imageE list.set_map)
  then show False
    using case_newline w by metis
qed

lemma pascal_no_newline:
  assumes "newline \<notin> set s"
  shows "newline \<notin> set (pascal s)"
proof
  assume "newline \<in> set (pascal s)"
  then obtain w where w: "w \<in> set (split CHR ''_'' s)" and "newline \<in> set (case w of [] \<Rightarrow> [] | c # rest \<Rightarrow> ascii_upper c # rest)"
    unfolding pascal_def by auto
  then obtain c rest where "w = c # rest" "ascii_upper c = newline \<or> newline \<in> set rest"
    by (cases w) auto
  then have "newline \<in> set w"
    using case_newline by (metis list.set_intros)
  then show False
    using assms split_on_pieces [OF w] by blast
qed

lemma module_entries_clean:
  assumes "name_ok n" "(region, entry) \<in> set (module_entries n)"
  shows "newline \<notin> set entry"
proof -
  have ident: "is_identifier (stem n)" "is_identifier w" if "w \<in> set (segments n)" for w
    using assms(1) that by (auto simp: name_ok_def list_all_iff)
  have word: "newline \<notin> set w" if "is_identifier w" for w
    using identifier_word [OF that] chars_no_newline by (auto simp: path_word_def)
  have stem: "is_identifier (stem n)"
    using assms(1) by (simp add: name_ok_def)
  then have base: "file_stem n [] = stem n" "to_pascal_case (base n []) = pascal (stem n)"
    by (simp_all add: file_stem_def base_def to_pascal_case_def snake_id)
  have "newline \<notin> set (to_ascii_lowercase (type_name n []))"
    using word [OF stem] by (simp add: type_name_def base lower_no_newline pascal_no_newline)
  moreover have "newline \<notin> set (concat (map (\<lambda>w. w @ ''::'') (segments n)))"
    using word ident by auto
  ultimately show ?thesis
    using assms(2) word [OF stem] unfolding module_entries_def Let_def base by auto
qed

lemma register_feature_module_leaves:
  assumes "register_feature_module io n g s = (r, s')" "name_ok n"
  shows "leaves io r s s' \<and>
    (\<forall>g'. r = Ok g' \<longrightarrow> (\<exists>c. files s' ([''app'', ''modules''] @ segments n @ [''mod.rs'']) = Some c \<and> declares c (file_stem n [])))"
proof -
  let ?dir = "[''app'', ''modules''] @ segments n"
  let ?list = "[''app'', ''modules'', ''mod.rs'']"
  obtain q t where reg: "register io ?dir (file_stem n []) g s = (q, t)"
    by force
  have "path_ok (?dir @ [file_stem n []])"
    using stem_file_word [OF assms(2) snake_empty, of "[]"] word_consts
      path_ok_below [OF assms(2), of "[''app'', ''modules'']" "[file_stem n []]"] by simp
  then have "newline \<notin> set (file_stem n [])" "\<forall>w \<in> set ?dir. newline \<notin> set w"
    using path_ok_clean unfolding clean_path_def by auto
  from register_leaves [OF reg this] have t: "leaves io q s t"
    and declared: "q = Ok h \<Longrightarrow> \<exists>c. files t (?dir @ [''mod.rs'']) = Some c \<and> declares c (file_stem n [])" for h
    by auto
  show ?thesis
  proof (cases q)
    case (Inl e)
    then show ?thesis
      using assms(1) reg t by (auto simp: register_feature_module_def)
  next
    case ok: (Inr h)
    then have grown: "grows s t"
      using t by simp
    show ?thesis
    proof (cases "read_file io ?list t")
      case (Inl e)
      then show ?thesis
        using assms(1) reg ok grown leaves_after [OF grown, of io r t] by (auto simp: register_feature_module_def)
    next
      case (Inr original)
      obtain updated h' where inserted: "insert_entries (module_entries n) original h = (updated, h')"
        by force
      have clean: "\<forall>(region, entry) \<in> set (module_entries n). newline \<notin> set entry"
        using module_entries_clean [OF assms(2)] by auto
      have "kept ?list original updated"
        using insert_entries_ink [OF inserted clean] insert_entries_keeps [OF inserted clean] declares_kept
        by (simp add: kept_def) blast
      moreover have "files t ?list = Some original"
        using Inr by (auto simp: read_file_def split: option.splits if_splits)
      moreover obtain w u where wrote: "write_file io ?list updated t = (w, u)"
        by force
      ultimately have u: "leaves io w t u"
        using write_file_leaves(1) [OF wrote] by simp
      have "leaves io r t s'"
        using assms(1) reg ok Inr inserted wrote u
        by (auto simp: register_feature_module_def Let_def split: if_splits sum.splits)
      then show ?thesis
        using leaves_after [OF grown] declared [OF ok] grows_declares by fastforce
    qed
  qed
qed

text \<open>Writing the planned files, and registering the module when the kind asks for it.\<close>

lemma generated_leaves:
  assumes "name_ok n"
  shows "(case (case write_artifacts io (plan_all render clock kind n) s of
      (Err e, s) \<Rightarrow> (Err e, s)
    | (Ok written, s) \<Rightarrow>
        (case (kind, written) of
           (Module, primary # rest) \<Rightarrow>
             (case register_feature_module io n primary s of
                (Err e, s) \<Rightarrow> (Err e, s)
              | (Ok primary, s) \<Rightarrow> (Ok (primary # rest), s))
         | _ \<Rightarrow> (Ok written, s))) of
    (r, s') \<Rightarrow> leaves io r s s' \<and> (is_ok r \<longrightarrow> (\<forall>a \<in> set (plan_all render clock kind n). in_place s' a) \<and> (kind = Module \<longrightarrow>
      (\<exists>c. files s' ([''app'', ''modules''] @ segments n @ [''mod.rs'']) = Some c \<and> declares c (file_stem n [])))))"
proof -
  let ?plan = "plan_all render clock kind n"
  obtain q t where wrote: "write_artifacts io ?plan s = (q, t)"
    by force
  have t: "leaves io q s t" "q = Ok gs \<Longrightarrow> length gs = length ?plan \<and> (\<forall>a \<in> set ?plan. in_place t a)" for gs
    using write_artifacts_leaves [OF wrote] plan_all_ok [OF assms] path_ok_clean by auto
  show ?thesis
  proof (cases q)
    case (Inl e)
    then show ?thesis
      using wrote t(1) by (simp add: is_ok_def)
  next
    case (Inr gs)
    then have grown: "grows s t" "\<forall>a \<in> set ?plan. in_place t a" "length gs = length ?plan"
      using t by simp_all
    show ?thesis
    proof (cases "kind = Module")
      case False
      then show ?thesis
        using wrote Inr grown by (cases kind) simp_all
    next
      case True
      then have "?plan \<noteq> []"
        by (simp add: plan_all_def modules_def Let_def)
      then obtain primary rest where gs: "gs = primary # rest"
        using grown(3) by (cases gs) auto
      obtain q' u where reg: "register_feature_module io n primary t = (q', u)"
        by force
      have u: "leaves io q' t u" "q' = Ok g' \<Longrightarrow>
          \<exists>c. files u ([''app'', ''modules''] @ segments n @ [''mod.rs'']) = Some c \<and> declares c (file_stem n [])" for g'
        using register_feature_module_leaves [OF reg assms] by auto
      show ?thesis
        using True wrote Inr gs reg u leaves_after [OF grown(1) u(1)] grown(2) in_place_grows
        by (cases q') (auto simp: is_ok_def)
    qed
  qed
qed

text \<open>
  C25.  Generating an artifact never overwrites a file.  After success every file there was is still there
  with its text, except that a module file may have gained lines and keeps all it had, in their order and
  with every declaration (up to blank lines and trailing white space).  The same holds after a failure,
  except that the module file the error names may have been torn: \<^verbatim>\<open>std::fs::write\<close> empties a file before it
  writes, so a write that stops half way leaves a beginning of the new text, which would have kept
  everything.  A target that exists, or a name that is refused, leaves everything as it was; the planned
  files lie below the application's directories whatever the name; and after success every planned file
  holds its text and is declared in the module file beside it, a feature module in the one above its
  directory.
\<close>

theorem generator_never_overwrites:
  assumes run: "generate_all render clock io kind raw s = (r, s')"
  shows "(\<forall>p c. files s p = Some c \<longrightarrow>
      (\<exists>c'. files s' p = Some c' \<and> (kept p c c' \<or> r = Err (Io p) \<and> torn io p c c'))) \<and>
    (case name_parse raw of
       Err _ \<Rightarrow> s' = s \<and> \<not> is_ok r
     | Ok n \<Rightarrow>
         list_all (\<lambda>a. path_ok (artifact_path a)) (plan_all render clock kind n) \<and>
         (list_ex (\<lambda>a. path_exists s (artifact_path a)) (plan_all render clock kind n) \<longrightarrow> s' = s \<and> \<not> is_ok r) \<and>
         (is_ok r \<longrightarrow>
           list_all (in_place s') (plan_all render clock kind n) \<and>
           (kind = Module \<longrightarrow>
             (\<exists>c. files s' ([''app'', ''modules''] @ segments n @ [''mod.rs'']) = Some c \<and> declares c (file_stem n [])))))"
proof (cases "files s [''Cargo.toml''] = None \<or> \<not> is_ok (name_parse raw)")
  case True
  then have "s' = s" "\<not> is_ok r"
    using run by (auto simp: generate_all_def is_ok_def split: sum.splits if_splits)
  then show ?thesis
    using plan_all_ok [OF name_parse_ok] by (auto simp: list_all_iff split: sum.split)
next
  case False
  then obtain n where n: "name_parse raw = Ok n" and cargo: "files s [''Cargo.toml''] \<noteq> None"
    by (auto simp: is_ok_def split: sum.splits)
  let ?plan = "plan_all render clock kind n"
  have paths: "path_ok (artifact_path a)" if "a \<in> set ?plan" for a
    using plan_all_ok [OF name_parse_ok [OF n] that] .
  show ?thesis
  proof (cases "List.find (\<lambda>a. path_exists s (artifact_path a)) ?plan")
    case (Some a)
    then have "s' = s" "\<not> is_ok r"
      using run n cargo by (auto simp: generate_all_def is_ok_def)
    then show ?thesis
      using n paths by (auto simp: list_all_iff)
  next
    case None
    then have free: "\<not> list_ex (\<lambda>a. path_exists s (artifact_path a)) ?plan"
      by (simp add: find_None_iff list_ex_iff)
    have "leaves io r s s' \<and> (is_ok r \<longrightarrow> (\<forall>a \<in> set ?plan. in_place s' a) \<and> (kind = Module \<longrightarrow>
        (\<exists>c. files s' ([''app'', ''modules''] @ segments n @ [''mod.rs'']) = Some c \<and> declares c (file_stem n []))))"
      using run n cargo None generated_leaves [OF name_parse_ok [OF n], where io = io and render = render and clock = clock and kind = kind and s = s]
      by (simp add: generate_all_def)
    then show ?thesis
      using n paths free by (auto simp: list_all_iff leaves_def grows_def broken_def is_ok_def split: sum.splits)
  qed
qed

text \<open>An application in which everything can be read and written.\<close>

definition sample_io :: fs_io where
  "sample_io = \<lparr>writing = \<lambda>_ _. Written, can_read = \<lambda>_. True, can_mkdir = \<lambda>_. True\<rparr>"

definition sample_app :: fs where
  "sample_app = \<lparr>files = (\<lambda>p. if p = [''Cargo.toml''] then Some ''[package]'' else None), dirs = {[]}\<rparr>"

theorem generator_never_overwrites_witness:
  "files (snd (generate_all (\<lambda>_ _. ''text'') None sample_io Model ''User'' sample_app)) [''Cargo.toml''] = Some ''[package]''"
proof -
  have "files sample_app [''Cargo.toml''] = Some ''[package]''"
    by (simp add: sample_app_def)
  then obtain c where
    "files (snd (generate_all (\<lambda>_ _. ''text'') None sample_io Model ''User'' sample_app)) [''Cargo.toml''] = Some c"
    "kept [''Cargo.toml''] ''[package]'' c \<or> torn sample_io [''Cargo.toml''] ''[package]'' c"
    using generator_never_overwrites
      [where render = "\<lambda>_ _. ''text''" and clock = None and io = sample_io and kind = Model and raw = "''User''" and s = sample_app,
        OF prod.collapse [symmetric]]
    by blast
  then show ?thesis
    by (auto simp: kept_def torn_def)
qed

text \<open>
  Module files are rewritten in place, not replaced as a whole: a write that fails once the file is open
  loses the declarations that were in it.
\<close>

lemma torn_write_loses_declarations:
  "case register \<lparr>writing = \<lambda>_ _. Torn 0, can_read = \<lambda>_. True, can_mkdir = \<lambda>_. True\<rparr> [''app''] ''users''
       \<lparr>g_path = [], touched_modules = [], g_notes = []\<rparr>
       \<lparr>files = (\<lambda>p. if p = [''app'', ''mod.rs''] then Some ''pub mod jobs;'' else None), dirs = {}\<rparr> of
     (r, s) \<Rightarrow> r = Err (Io [''app'', ''mod.rs'']) \<and> files s [''app'', ''mod.rs''] = Some []"
proof -
  have "\<not> declares ''pub mod jobs;'' ''users''"
    by code_simp
  then show ?thesis
    by (simp add: register.simps Let_def path_exists_def declare_in_def read_file_def write_file_def)
qed

text \<open>
  The generator of a policy means to name the model it guards, the type without the suffix; a name that
  carries the suffix keeps it, and the policy guards itself.
\<close>

lemma policy_guards_itself:
  "name_parse ''UserPolicy'' = Ok \<lparr>segments = [], stem = ''user_policy''\<rparr>"
  "rendered \<lparr>segments = [], stem = ''user_policy''\<rparr> ''Policy'' =
     \<lparr>r_stem = ''user_policy'', r_type_name = ''UserPolicy'', r_slash_path = ''user_policy'', r_base_type = ''UserPolicy'',
      r_base_stem = ''user_policy''\<rparr>"
  by code_simp+

end
