(* ===== verification/Metrics.thy ===== *)
theory Metrics
  imports Arc_Prelude Btree_Map Header_Map "HOL-Library.Char_ord" "HOL-Library.List_Lexorder" "HOL-Library.Product_Lexorder"
begin

text \<open>
  The metrics registry and its text exposition (\<^verbatim>\<open>observe/metrics.rs\<close>).  The lock makes every operation one
  step, so a history is a list of operations.  Counters have the width of the code.  What the code asks of
  \<^verbatim>\<open>f64\<close> (comparison, addition, finiteness, printing) is an argument.

  Shown: after any history each series holds exactly what was recorded for it, whatever the order of the
  labels, the buckets of a histogram are cumulative, and a label value reads back from the exposition.
\<close>

section \<open>Series\<close>

record 'f float =
  f_le :: "'f \<Rightarrow> 'f \<Rightarrow> bool"
  f_add :: "'f \<Rightarrow> 'f \<Rightarrow> 'f"
  f_zero :: 'f
  f_finite :: "'f \<Rightarrow> bool"
  f_show :: "'f \<Rightarrow> string"
  f_format :: "'f \<Rightarrow> string"

definition PROMETHEUS_CONTENT_TYPE :: string where
  "PROMETHEUS_CONTENT_TYPE = ''text/plain; version=0.0.4; charset=utf-8''"

type_synonym labels = "(string \<times> string) list"

text \<open>A name with the labels in the order of the map, compared as the derived order does.\<close>

type_synonym Series = "string \<times> (string, string) btree"

definition series_new :: "string \<Rightarrow> labels \<Rightarrow> Series" where
  "series_new name labels = (name, foldl (\<lambda>t (k, v). bt_insert k v t) [] labels)"

definition escape_char :: "char \<Rightarrow> string" where
  "escape_char c =
     (if c = CHR 0x5C then [CHR 0x5C, CHR 0x5C]
      else if c = CHR 0x22 then [CHR 0x5C, CHR 0x22]
      else if c = CHR 0x0A then [CHR 0x5C, CHR ''n'']
      else [c])"

definition escape_label :: "string \<Rightarrow> string" where
  "escape_label s = concat (map escape_char s)"

definition series_render :: "Series \<Rightarrow> string \<Rightarrow> (string \<times> string) option \<Rightarrow> string" where
  "series_render s sfx extra =
     (let pairs = snd s @ (case extra of None \<Rightarrow> [] | Some e \<Rightarrow> [e])
      in fst s @ sfx @
         (if pairs = [] then []
          else ''{'' @ join '','' (map (\<lambda>(k, v). k @ ''='' @ [CHR 0x22] @ escape_label v @ [CHR 0x22]) pairs) @ ''}''))"

datatype Kind = Counter | Gauge | Histo

primrec kind_as_str :: "Kind \<Rightarrow> string" where
  "kind_as_str Counter = ''counter''"
| "kind_as_str Gauge = ''gauge''"
| "kind_as_str Histo = ''histogram''"

section \<open>The registry\<close>

record 'f Histogram =
  bounds :: "'f list"
  counts :: "64 word list"
  hsum :: 'f
  hcount :: "64 word"

definition histogram_new :: "'f float \<Rightarrow> 'f list \<Rightarrow> 'f Histogram" where
  "histogram_new F bs = \<lparr>bounds = bs, counts = replicate (length bs) 0, hsum = f_zero F, hcount = 0\<rparr>"

definition record_value :: "'f float \<Rightarrow> 'f \<Rightarrow> 'f Histogram \<Rightarrow> 'f Histogram" where
  "record_value F v h =
     h\<lparr>counts := map (\<lambda>(b, n). if f_le F v b then n + 1 else n) (zip (bounds h) (counts h)),
       hsum := f_add F (hsum h) v, hcount := hcount h + 1\<rparr>"

record 'f Registry =
  counters :: "(Series, 64 word) btree"
  gauges :: "(Series, 'f) btree"
  histograms :: "(Series, 'f Histogram) btree"
  described :: "(string, Kind \<times> string) btree"
  buckets :: "'f list"

text \<open>A stable sort by the comparison.\<close>

fun sort_insert :: "('a \<Rightarrow> 'a \<Rightarrow> bool) \<Rightarrow> 'a \<Rightarrow> 'a list \<Rightarrow> 'a list" where
  "sort_insert le x [] = [x]"
| "sort_insert le x (y # ys) = (if le x y then x # y # ys else y # sort_insert le x ys)"

definition sort_by :: "('a \<Rightarrow> 'a \<Rightarrow> bool) \<Rightarrow> 'a list \<Rightarrow> 'a list" where
  "sort_by le xs = foldr (sort_insert le) xs []"

definition with_buckets :: "'f float \<Rightarrow> 'f list \<Rightarrow> 'f Registry" where
  "with_buckets F bs =
     \<lparr>counters = [], gauges = [], histograms = [], described = [], buckets = sort_by (f_le F) (filter (f_finite F) bs)\<rparr>"

definition describe :: "string \<Rightarrow> Kind \<Rightarrow> string \<Rightarrow> 'f Registry \<Rightarrow> 'f Registry" where
  "describe name kind help r = r\<lparr>described := bt_insert name (kind, help) (described r)\<rparr>"

definition describe_default :: "string \<Rightarrow> Kind \<Rightarrow> 'f Registry \<Rightarrow> 'f Registry" where
  "describe_default name kind r =
     (case bt_get (described r) name of None \<Rightarrow> r\<lparr>described := bt_insert name (kind, []) (described r)\<rparr> | Some _ \<Rightarrow> r)"

text \<open>\<^verbatim>\<open>entry(k).or_insert(v)\<close> followed by an update in place.\<close>

definition bt_entry :: "'k::linorder \<Rightarrow> 'v \<Rightarrow> ('v \<Rightarrow> 'v) \<Rightarrow> ('k, 'v) btree \<Rightarrow> ('k, 'v) btree" where
  "bt_entry k v f t = bt_insert k (f (case bt_get t k of None \<Rightarrow> v | Some w \<Rightarrow> w)) t"

text \<open>\<^verbatim>\<open>+=\<close> on a \<^verbatim>\<open>u64\<close> wraps in a release build, which is what is modelled; a build with overflow checks panics there.\<close>

definition increment :: "string \<Rightarrow> labels \<Rightarrow> 64 word \<Rightarrow> 'f Registry \<Rightarrow> 'f Registry" where
  "increment name labels by_n r =
     (let r = describe_default name Counter r
      in r\<lparr>counters := bt_entry (series_new name labels) 0 (\<lambda>n. n + by_n) (counters r)\<rparr>)"

definition set_gauge :: "string \<Rightarrow> labels \<Rightarrow> 'f \<Rightarrow> 'f Registry \<Rightarrow> 'f Registry" where
  "set_gauge name labels v r =
     (let r = describe_default name Gauge r in r\<lparr>gauges := bt_insert (series_new name labels) v (gauges r)\<rparr>)"

definition observe :: "'f float \<Rightarrow> string \<Rightarrow> labels \<Rightarrow> 'f \<Rightarrow> 'f Registry \<Rightarrow> 'f Registry" where
  "observe F name labels v r =
     (let r = describe_default name Histo r
      in r\<lparr>histograms := bt_entry (series_new name labels) (histogram_new F (buckets r)) (record_value F v) (histograms r)\<rparr>)"

definition counter_value :: "string \<Rightarrow> labels \<Rightarrow> 'f Registry \<Rightarrow> 64 word option" where
  "counter_value name labels r = bt_get (counters r) (series_new name labels)"

section \<open>The exposition\<close>

definition line :: "string \<Rightarrow> string" where
  "line s = s @ [CHR 0x0A]"

definition render_histogram :: "'f float \<Rightarrow> Series \<Rightarrow> 'f Histogram \<Rightarrow> string" where
  "render_histogram F s h =
     concat (map (\<lambda>(b, n). line (series_render s ''_bucket'' (Some (''le'', f_format F b)) @ '' '' @ show_nat (unat n)))
       (zip (bounds h) (counts h))) @
     line (series_render s ''_bucket'' (Some (''le'', ''+Inf'')) @ '' '' @ show_nat (unat (hcount h))) @
     line (series_render s ''_sum'' None @ '' '' @ f_format F (hsum h)) @
     line (series_render s ''_count'' None @ '' '' @ show_nat (unat (hcount h)))"

definition render_name :: "'f float \<Rightarrow> 'f Registry \<Rightarrow> string \<Rightarrow> Kind \<Rightarrow> string \<Rightarrow> string" where
  "render_name F r name kind help =
     (if help = [] then [] else line (''# HELP '' @ name @ '' '' @ map (\<lambda>c. if c = CHR 0x0A then CHR '' '' else c) help)) @
     line (''# TYPE '' @ name @ '' '' @ kind_as_str kind) @
     (case kind of
        Counter \<Rightarrow>
          concat (map (\<lambda>(s, v). line (series_render s [] None @ '' '' @ show_nat (unat v)))
            (filter (\<lambda>(s, _). fst s = name) (counters r)))
      | Gauge \<Rightarrow>
          concat (map (\<lambda>(s, v). line (series_render s [] None @ '' '' @ f_show F v))
            (filter (\<lambda>(s, _). fst s = name) (gauges r)))
      | Histo \<Rightarrow>
          concat (map (\<lambda>(s, h). render_histogram F s h) (filter (\<lambda>(s, _). fst s = name) (histograms r))))"

definition render :: "'f float \<Rightarrow> 'f Registry \<Rightarrow> string" where
  "render F r = concat (map (\<lambda>(name, kind, help). render_name F r name kind help) (described r))"

section \<open>The recording layer\<close>

definition HTTP_REQUESTS_TOTAL :: string where
  "HTTP_REQUESTS_TOTAL = ''http_requests_total''"

definition HTTP_REQUEST_DURATION :: string where
  "HTTP_REQUEST_DURATION = ''http_request_duration_seconds''"

definition layer_new :: "'f Registry \<Rightarrow> 'f Registry" where
  "layer_new r =
     describe HTTP_REQUEST_DURATION Histo ''HTTP request duration in seconds.''
       (describe HTTP_REQUESTS_TOTAL Counter ''Total HTTP requests handled.'' r)"

definition layer_record :: "'f float \<Rightarrow> string \<Rightarrow> nat \<Rightarrow> string option \<Rightarrow> 'f \<Rightarrow> 'f Registry \<Rightarrow> 'f Registry" where
  "layer_record F method status route elapsed r =
     (let routed = (case route of None \<Rightarrow> [] | Some t \<Rightarrow> [(''route'', t)]);
          counted = [(''method'', method), (''status'', show_nat status)] @ routed;
          timed = [(''method'', method)] @ routed
      in observe F HTTP_REQUEST_DURATION timed elapsed (increment HTTP_REQUESTS_TOTAL counted 1 r))"

section \<open>Histories\<close>

datatype 'f op =
    Describe string Kind string
  | Increment string labels "64 word"
  | SetGauge string labels 'f
  | Observe string labels 'f

fun apply_op :: "'f float \<Rightarrow> 'f op \<Rightarrow> 'f Registry \<Rightarrow> 'f Registry" where
  "apply_op F (Describe name kind help) r = describe name kind help r"
| "apply_op F (Increment name labels n) r = increment name labels n r"
| "apply_op F (SetGauge name labels v) r = set_gauge name labels v r"
| "apply_op F (Observe name labels v) r = observe F name labels v r"

definition history :: "'f float \<Rightarrow> 'f list \<Rightarrow> 'f op list \<Rightarrow> 'f Registry" where
  "history F bs ops = foldl (\<lambda>r op. apply_op F op r) (with_buckets F bs) ops"

text \<open>What a history recorded for one series.\<close>

definition increments_of :: "Series \<Rightarrow> 'f op list \<Rightarrow> 64 word list" where
  "increments_of s ops =
     List.map_filter (\<lambda>op. case op of Increment n l v \<Rightarrow> if series_new n l = s then Some v else None | _ \<Rightarrow> None) ops"

definition gauges_of :: "Series \<Rightarrow> 'f op list \<Rightarrow> 'f list" where
  "gauges_of s ops =
     List.map_filter (\<lambda>op. case op of SetGauge n l v \<Rightarrow> if series_new n l = s then Some v else None | _ \<Rightarrow> None) ops"

definition observed :: "Series \<Rightarrow> 'f op list \<Rightarrow> 'f list" where
  "observed s ops =
     List.map_filter (\<lambda>op. case op of Observe n l v \<Rightarrow> if series_new n l = s then Some v else None | _ \<Rightarrow> None) ops"

definition summary :: "'f float \<Rightarrow> 'f list \<Rightarrow> 'f list \<Rightarrow> 'f Histogram" where
  "summary F bs vs =
     \<lparr>bounds = bs, counts = map (\<lambda>b. of_nat (length (filter (\<lambda>v. f_le F v b) vs))) bs, hsum = foldl (f_add F) (f_zero F) vs,
      hcount = of_nat (length vs)\<rparr>"

lemma summary_record: "record_value F v (summary F bs vs) = summary F bs (vs @ [v])"
  by (simp add: record_value_def summary_def zip_map2 comp_def zip_same_conv_map)

lemma summary_new: "histogram_new F bs = summary F bs []"
  by (simp add: histogram_new_def summary_def map_replicate_const)

lemma bt_entry_get: "bt_get (bt_entry k v f t) j = (if j = k then Some (f (case bt_get t k of None \<Rightarrow> v | Some w \<Rightarrow> w)) else bt_get t j)"
  by (simp add: bt_entry_def)

lemmas op_defs = describe_def describe_default_def increment_def set_gauge_def observe_def Let_def bt_entry_get

lemma apply_op_fields:
  "buckets (apply_op F op r) = buckets r"
  "bt_get (counters (apply_op F op r)) s =
     (case op of
        Increment n l v \<Rightarrow> if series_new n l = s then Some ((case bt_get (counters r) s of None \<Rightarrow> 0 | Some w \<Rightarrow> w) + v) else bt_get (counters r) s
      | _ \<Rightarrow> bt_get (counters r) s)"
  "bt_get (gauges (apply_op F op r)) s =
     (case op of SetGauge n l v \<Rightarrow> if series_new n l = s then Some v else bt_get (gauges r) s | _ \<Rightarrow> bt_get (gauges r) s)"
  "bt_get (histograms (apply_op F op r)) s =
     (case op of
        Observe n l v \<Rightarrow>
          if series_new n l = s
          then Some (record_value F v (case bt_get (histograms r) s of None \<Rightarrow> histogram_new F (buckets r) | Some h \<Rightarrow> h))
          else bt_get (histograms r) s
      | _ \<Rightarrow> bt_get (histograms r) s)"
  by (cases op; auto simp: op_defs split: option.split)+

text \<open>
  C37.  After any history every series holds exactly what was recorded for it: a counter the sum of its
  increments (at the width of the counter), a gauge its last value, a histogram the number of
  observations at most each bound, their number and their sum in the order they came; a series that was
  not recorded has nothing, and the order in which labels are given does not matter.
\<close>

theorem metrics_are_exact:
  "counter_value name labels (history F bs ops) =
     (case increments_of (series_new name labels) ops of [] \<Rightarrow> None | ns \<Rightarrow> Some (sum_list ns)) \<and>
   bt_get (gauges (history F bs ops)) s = (case gauges_of s ops of [] \<Rightarrow> None | vs \<Rightarrow> Some (last vs)) \<and>
   bt_get (histograms (history F bs ops)) s =
     (case observed s ops of [] \<Rightarrow> None | vs \<Rightarrow> Some (summary F (sort_by (f_le F) (filter (f_finite F) bs)) vs))"
proof -
  have "buckets (history F bs ops) = sort_by (f_le F) (filter (f_finite F) bs) \<and>
     bt_get (counters (history F bs ops)) s = (case increments_of s ops of [] \<Rightarrow> None | ns \<Rightarrow> Some (sum_list ns)) \<and>
     bt_get (gauges (history F bs ops)) s = (case gauges_of s ops of [] \<Rightarrow> None | vs \<Rightarrow> Some (last vs)) \<and>
     bt_get (histograms (history F bs ops)) s =
       (case observed s ops of [] \<Rightarrow> None | vs \<Rightarrow> Some (summary F (sort_by (f_le F) (filter (f_finite F) bs)) vs))" for s
  proof (induction ops rule: rev_induct)
    case Nil
    then show ?case
      by (simp add: history_def with_buckets_def increments_of_def gauges_of_def observed_def map_filter_def)
  next
    case (snoc op ops)
    have step: "history F bs (ops @ [op]) = apply_op F op (history F bs ops)"
      by (simp add: history_def)
    have parts: "increments_of s (ops @ [op]) = increments_of s ops @ increments_of s [op]"
      "gauges_of s (ops @ [op]) = gauges_of s ops @ gauges_of s [op]"
      "observed s (ops @ [op]) = observed s ops @ observed s [op]"
      by (simp_all add: increments_of_def gauges_of_def observed_def map_filter_def)
    show ?case
      unfolding step parts apply_op_fields using snoc
      by (cases op)
        (auto simp: increments_of_def gauges_of_def observed_def map_filter_def summary_new summary_record split: list.splits)
  qed
  then show ?thesis
    by (simp add: counter_value_def)
qed

lemma bt_ext:
  assumes "bt_wf t" "bt_wf u" "\<And>k. bt_get t k = bt_get u k"
  shows "t = u"
proof -
  have "map_of t = map_of u"
    using assms(3) by (auto simp: bt_get_def)
  then have "set (map fst t) = set (map fst u)"
    by (metis dom_map_of_conv_image_fst list.set_map)
  then have keys: "map fst t = map fst u"
    using assms(1,2) by (simp add: bt_wf_def strict_sorted_equal)
  have rebuilt: "u = map (\<lambda>k. (k, the (map_of u k))) (map fst u)" if "distinct (map fst u)" for u :: "('a \<times> 'b) list"
    using that by (auto intro!: map_idI [symmetric] simp: comp_def)
  have "distinct (map fst t)" "distinct (map fst u)"
    using assms(1,2) by (simp_all add: bt_wf_def strict_sorted_iff)
  then show ?thesis
    using rebuilt [of t] rebuilt [of u] keys \<open>map_of t = map_of u\<close> by metis
qed

lemma labels_in_any_order:
  assumes "distinct (map fst l)" "distinct (map fst l')" "set l = set l'"
  shows "series_new name l = series_new name l'"
proof -
  have get: "bt_get (foldl (\<lambda>t (k, v). bt_insert k v t) t l) k = (case map_of l k of Some v \<Rightarrow> Some v | None \<Rightarrow> bt_get t k)"
    if "distinct (map fst l)" for l :: labels and t k
    using that
  proof (induction l arbitrary: t)
    case (Cons kv l)
    then show ?case
      by (cases kv) (auto split: option.splits simp: map_of_eq_None_iff image_iff)
  qed simp
  have wf: "bt_wf (foldl (\<lambda>t (k, v). bt_insert k v t) t l)" if "bt_wf t" for l :: labels and t
    using that by (induction l arbitrary: t) auto
  have "map_of l = map_of l'"
    using assms map_of_inject_set by blast
  then have "foldl (\<lambda>t (k, v). bt_insert k v t) [] l = foldl (\<lambda>t (k, v). bt_insert k v t) [] l'"
    using get [OF assms(1), of "[]"] get [OF assms(2), of "[]"] wf [of "[]"] by (intro bt_ext) auto
  then show ?thesis
    by (simp add: series_new_def)
qed

section \<open>Buckets are cumulative\<close>

lemma sort_insert_sorted:
  assumes "\<And>a b. a \<in> A \<Longrightarrow> b \<in> A \<Longrightarrow> le a b \<or> le b a" "\<And>a b c. le a b \<Longrightarrow> le b c \<Longrightarrow> le a c" "x \<in> A" "set xs \<subseteq> A" "sorted_wrt le xs"
  shows "sorted_wrt le (sort_insert le x xs) \<and> set (sort_insert le x xs) = insert x (set xs)"
  using assms(4,5)
proof (induction xs)
  case (Cons y ys)
  then show ?case
    using assms(1) [of x y] assms(2,3) by auto
qed simp

lemma sort_by_sorted:
  assumes "\<And>a b. a \<in> A \<Longrightarrow> b \<in> A \<Longrightarrow> le a b \<or> le b a" "\<And>a b c. le a b \<Longrightarrow> le b c \<Longrightarrow> le a c" "set xs \<subseteq> A"
  shows "sorted_wrt le (sort_by le xs) \<and> set (sort_by le xs) = set xs"
  using assms(3)
proof (induction xs)
  case (Cons x xs)
  then have "sorted_wrt le (sort_by le xs)" "set (sort_by le xs) = set xs" "x \<in> A" "set xs \<subseteq> A"
    by auto
  then show ?case
    using sort_insert_sorted [of A le x "sort_by le xs"] assms(1,2) by (simp add: sort_by_def)
qed (simp add: sort_by_def)

text \<open>The counts a scraper reads do not decrease along the bounds and never exceed the total.\<close>

lemma buckets_are_cumulative:
  assumes "\<And>a b. f_finite F a \<Longrightarrow> f_finite F b \<Longrightarrow> f_le F a b \<or> f_le F b a"
    and trans: "\<And>a b c. f_le F a b \<Longrightarrow> f_le F b c \<Longrightarrow> f_le F a c"
  shows "sorted_wrt (\<le>) (map (\<lambda>b. length (filter (\<lambda>v. f_le F v b) vs)) (sort_by (f_le F) (filter (f_finite F) bs)) @ [length vs])"
proof -
  have step: "length (filter (\<lambda>v. f_le F v a) vs) \<le> length (filter (\<lambda>v. f_le F v b) vs)" if "f_le F a b" for a b
    using trans [OF _ that] by (induction vs) auto
  have "sorted_wrt (f_le F) (sort_by (f_le F) (filter (f_finite F) bs))"
    using sort_by_sorted [of "{b. f_finite F b}" "f_le F" "filter (f_finite F) bs"] assms by auto
  then have "sorted_wrt (\<lambda>a b. length (filter (\<lambda>v. f_le F v a) vs) \<le> length (filter (\<lambda>v. f_le F v b) vs)) (sort_by (f_le F) (filter (f_finite F) bs))"
    using step by (rule sorted_wrt_mono_rel [rotated])
  then show ?thesis
    by (simp add: sorted_wrt_append sorted_wrt_map)
qed

section \<open>Labels read back\<close>

text \<open>A reader of a label value up to its closing quote.\<close>

fun read_label :: "string \<Rightarrow> (string \<times> string) option" where
  "read_label [] = None"
| "read_label (c # s) =
     (if c = CHR 0x22 then Some ([], s)
      else if c = CHR 0x0A then None
      else if c = CHR 0x5C then
        (case s of
           [] \<Rightarrow> None
         | e # t \<Rightarrow> map_option (\<lambda>(v, rest). ((if e = CHR ''n'' then CHR 0x0A else e) # v, rest)) (read_label t))
      else map_option (\<lambda>(v, rest). (c # v, rest)) (read_label s))"

text \<open>
  A label value reads back from the exposition, up to the quote that closes it, so no value can end its
  line or add a label of its own.
\<close>

theorem label_reads_back: "read_label (escape_label v @ CHR 0x22 # rest) = Some (v, rest)"
  by (induction v) (auto simp: escape_label_def escape_char_def)

section \<open>A name has one kind\<close>

lemma filter_bt_insert: "\<not> P k \<Longrightarrow> filter (\<lambda>(k, _). P k) (bt_insert k v t) = filter (\<lambda>(k, _). P k) t"
  by (induction k v t rule: bt_insert.induct) auto

text \<open>
  The whole registry is said to be rendered, but observations under a name that was first used for a
  counter are recorded and never shown.
\<close>

lemma second_kind_is_silent:
  assumes "bt_wf (described r)" "bt_get (described r) name = Some (Counter, help)"
  shows "render F (observe F name labels v r) = render F r"
proof -
  let ?r = "observe F name labels v r"
  have fields: "described ?r = described r" "counters ?r = counters r" "gauges ?r = gauges r"
    "histograms ?r = bt_insert (series_new name labels)
       (record_value F v (case bt_get (histograms r) (series_new name labels) of None \<Rightarrow> histogram_new F (buckets r) | Some w \<Rightarrow> w)) (histograms r)"
    using assms(2) by (simp_all add: observe_def describe_default_def bt_entry_def Let_def)
  have "render_name F ?r n k h = render_name F r n k h" if "(n, k, h) \<in> set (described r)" for n k h
  proof (cases "n = name")
    case True
    have "distinct (map fst (described r))"
      using assms(1) by (simp add: bt_wf_def strict_sorted_iff)
    then have "k = Counter"
      using that True assms(2) by (simp add: bt_get_def)
    then show ?thesis
      by (simp add: render_name_def fields)
  next
    case False
    then have "fst (series_new name labels) \<noteq> n"
      by (simp add: series_new_def)
    then have "filter (\<lambda>(s, _). fst s = n) (bt_insert (series_new name labels) h (histograms r)) = filter (\<lambda>(s, _). fst s = n) (histograms r)" for h
      by (rule filter_bt_insert)
    then show ?thesis
      by (simp add: render_name_def fields split: Kind.split)
  qed
  then show ?thesis
    unfolding render_def fields by (intro arg_cong [where f = concat] map_cong) auto
qed

end
