(* ===== verification/Spec2Isabelle.thy ===== *)
theory Spec2Isabelle
  imports Base64url Hex Crypt Url_Signer Credentials Api_Tokens Password_Resets Remember_Tokens
    Rate_Limit Client_Ip Login_Throttle Jobs_System Jobs_Scheduler Trace_Context Uploads Locale_Negotiation Inertia_Protocol Csrf
    Session_Store Auth_Flows Realtime Routing Http_Errors App_Pipeline Cache_Store Notifications Openapi Assets Dev_Supervisor Make_Files Metrics
begin

text \<open>
  A verification library for Arcature, a full-stack web framework in Rust.  Paths below are relative to the
  source directory of the main crate, \<^verbatim>\<open>src/src/\<close>; each theory opens with the files it models.

  \<^bold>\<open>The program.\<close>  An application is a set of modules (routes, controllers, jobs, listeners, commands) that a
  builder turns into one process: a router wrapped by layers in a fixed order, job workers, a scheduler and
  the shared resources, started and stopped in order.  A request passes the proxy, the security headers, the
  rate limiter, session and CSRF layers and the error mapping before it reaches a handler, which answers
  with Inertia pages, redirects, downloads or JSON problems.  Stores keep credentials, sessions, jobs and
  notifications in the application's database.  From the declared modules an artifact is assembled that the
  generators turn into TypeScript and an OpenAPI document.  The command line tool supervises development
  and generates source files.

  \<^bold>\<open>How it is modelled.\<close>  Data are records and datatypes with the constructors of the source, operations are
  functions on explicit state, errors are values of a sum (\<^verbatim>\<open>?\<close> is \<open>rbind\<close>), a panic is \<open>None\<close>.  Strings are
  lists of bytes in UTF-8.  Integers have the width of the code where their wrap-around or a bound matters;
  elsewhere they are unbounded and the text of the theory says why.  A statement of SQL is one function on
  the table; what several tasks or processes interleave is a step relation whose steps are single statements
  or atomic instructions, and what is shown of it is shown for every reachable state by rule induction.
  Packages outside the repository (hashes and ciphers, the object store, Redis, the mail library, the router,
  the argument parser, the multipart parser, JSON printing) are arguments; what the code relies on is a named
  predicate over them, and every property that uses one has an instance in which it holds.  What else a property presupposes, of the
  clock, of a configuration or of what a proxy writes, is said in the text above it; where the code does not
  meet its documentation outside of that, a lemma shows the case.

  \<^bold>\<open>The library.\<close>
  \<^item> \<open>Arc_Prelude\<close>: results, bytes, UTF-8, splitting, trimming and printing of strings, tables.  The locale
    \<open>keyed_table\<close> is the contract of a table with a primary key; its interpretation \<open>tbl\<close> serves every store.
  \<^item> \<open>Codec\<close>: the locales of byte codecs and of the wire formats of tokens, interpreted by \<open>Base64url\<close> and by the
    formats of API tokens, reset links and remember-me tokens.
  \<^item> \<open>Btree_Map\<close>, \<open>Header_Map\<close>, \<open>Json_Value\<close>, \<open>Ip_Addr\<close>, \<open>Rust_F64\<close>, \<open>Rust_F32\<close>, \<open>Token_Bucket\<close>: the parts of the
    standard library and of the common packages the components use.  \<open>Rust_F64\<close> has the locale \<open>rounding\<close>,
    interpreted on the rounding of the format.

  \<^bold>\<open>Keys, tokens and sign-in.\<close>
  \<^item> \<open>Base64url\<close>, \<open>Hex\<close>, \<open>Crypt\<close>, \<open>Url_Signer\<close> (\<^verbatim>\<open>crypt/\<close>): the codecs accept exactly what they print; decryption
    accepts exactly what encryption made under the same key; the signed text determines the request.
  \<^item> \<open>Credentials\<close>, \<open>Api_Tokens\<close>, \<open>Password_Resets\<close>, \<open>Remember_Tokens\<close> (\<^verbatim>\<open>tokens/\<close>, \<^verbatim>\<open>auth/flows/reset/\<close>,
    \<^verbatim>\<open>auth/flows/remember/\<close>): who is accepted was issued a live token; a reset link works once; concurrent
    presentations rotate once; a replay signs the subject out.
  \<^item> \<open>Session_Store\<close>, \<open>Auth_Session\<close>, \<open>Csrf\<close>, \<open>Auth_Flows\<close>, \<open>Login_Throttle\<close> (\<^verbatim>\<open>auth/\<close>): the stored sessions refine a map
    with expiry; a sign-in holds until it is ended; an unsafe request carries the token of its cookie;
    flash messages, password confirmation, email verification and the lockout.

  \<^bold>\<open>Requests and responses.\<close>
  \<^item> \<open>Client_Ip\<close>, \<open>Rate_Limit\<close>, \<open>Http_Security\<close>, \<open>Http_Problem\<close>, \<open>Http_Errors\<close>, \<open>Routing\<close>, \<open>Trace_Context\<close> (\<^verbatim>\<open>http/\<close>, \<^verbatim>\<open>routing/\<close>,
    \<^verbatim>\<open>api/\<close>, \<^verbatim>\<open>observe/\<close>): the address a trusted proxy saw cannot be forged as long as its line is
    readable text; the swept buckets refine unswept ones for requests not stamped before an earlier sweep; errors
    are redacted; a redirect has none of the prefixes its check refuses, which is less than staying on the site.
  \<^item> \<open>Inertia_Request\<close>, \<open>Inertia_Props\<close>, \<open>Inertia_Protocol\<close> (\<^verbatim>\<open>inertia/\<close>): props are resolved concurrently as one pass
    would resolve them, every prop is settled once, and unselected props are not computed.
  \<^item> \<open>Storage_Names\<close>, \<open>Uploads\<close> (\<^verbatim>\<open>storage/\<close>, \<^verbatim>\<open>http/multipart.rs\<close>, \<^verbatim>\<open>validation/upload.rs\<close>): names are safe and
    confined; an upload is bounded and either kept whole or removed.
  \<^item> \<open>Realtime\<close> (\<^verbatim>\<open>realtime/\<close>): the lock-free counters count the live connections; a connection ends.
  \<^item> \<open>Locale_Negotiation\<close> (\<^verbatim>\<open>i18n/\<close>), \<open>Assets\<close> (\<^verbatim>\<open>assets.rs\<close>), \<open>Cache_Store\<close> (\<^verbatim>\<open>cache/\<close>), \<open>Notifications\<close> (\<^verbatim>\<open>notifications/\<close>,
    \<^verbatim>\<open>mail/\<close>), \<open>Metrics\<close> (\<^verbatim>\<open>observe/metrics.rs\<close>).

  \<^bold>\<open>Jobs.\<close>  \<open>Jobs_Config\<close>, \<open>Jobs_Queue\<close>, \<open>Jobs_Worker\<close>, \<open>Jobs_Scheduler\<close>, \<open>Jobs_System\<close> (\<^verbatim>\<open>jobs/\<close>).  The last is the
  system of any number of workers on one table: the rows stay consistent, a claim that was lost stays lost,
  each claim completes at most once.

  \<^bold>\<open>The application.\<close>
  \<^item> \<open>App_Lifecycle\<close>, \<open>App_Pipeline\<close> (\<^verbatim>\<open>application/\<close>, \<^verbatim>\<open>proxy/\<close>, \<^verbatim>\<open>config/\<close>): start and stop in order, a lifecycle that only
    moves forward, the documented order of the layers.  The locale \<open>slotted\<close> says when the order of builder
    calls does not matter; it is interpreted on the builder.
  \<^item> \<open>Module_Graph\<close>, \<open>App_Artifact\<close>, \<open>Typegen\<close>, \<open>Openapi\<close> (\<^verbatim>\<open>dx/\<close>, \<^verbatim>\<open>uag/\<close>, \<^verbatim>\<open>inertia/contracts/\<close>): the graph is accepted
    exactly when names are distinct and imports known and acyclic; validation reports exactly the
    inconsistencies; the generators write what the artifact says, and every reference resolves.

  \<^bold>\<open>The command line.\<close>  \<open>Cli_Parser\<close>, \<open>Make_Names\<close>, \<open>Make_Files\<close>, \<open>Dev_Supervisor\<close> (\<^verbatim>\<open>cli/\<close>): what is accepted is read
  as it was spelled, dates follow the calendar, generating never overwrites (a module file whose write is cut short
  apart), and a development session holds one process at a time and answers every request.

  \<^bold>\<open>Termination and bounds.\<close>  Loops of the code are structural recursion or functions with a
  termination proof (the cycle search of the module graph by the names not yet entered, the collection of
  stylesheets by the chunks not yet visited, the holding of a request by the time left, the retry loops by
  the attempts left); a loop over what arrives from outside is a function of the list of arrivals, which
  may be of any length.  Only the concurrent resolution of props takes a number of polling rounds; one more
  than the slowest resolver needs is shown to be enough.

  \<^bold>\<open>Not modelled.\<close>  The macros, which run in the compiler; the statements of PostgreSQL and MySQL (the stores
  are modelled on SQLite) and the migrations of the framework's tables; failing database connections,
  except where a theory says so; password hashing, OAuth and the exporters of logs and traces, which hand
  their values to packages; sockets, pipes and child processes beyond their outcomes; extraction and
  dependency resolution by Rust types; texts of help, pages, blueprints and project templates; the test kit.
\<close>

end
